(* ===== verification/Netatalk_Prelude.thy ===== *)
theory Netatalk_Prelude
  imports Main "HOL-Library.Word" "HOL-Library.Monad_Syntax"
begin

text \<open>
  Shared vocabulary of the development.

  \<^item> C pointers into a typed heap are addresses; \<open>NULL\<close> is \<open>None\<close> of \<open>addr option\<close>.
  \<^item> \<open>malloc\<close> is an allocator with a fresh-address counter and an oracle that says which
    allocation succeeds, so every pattern of allocation failures is covered.
  \<^item> A C function that can hit a failed \<open>assert\<close>, \<open>AFP_PANIC\<close>, \<open>exit\<close> or an invalid
    dereference returns an option whose \<open>None\<close> means that the process does not go on.
  \<^item> Byte strings (\<open>bstring\<close>, \<open>char *\<close> with a length) are lists of bytes.
\<close>

unbundle bit_operations_syntax

type_synonym addr = nat
type_synonym byte = "8 word"
type_synonym bytes = "byte list"

named_theorems heap_simps \<open>how an update of a heap changes its reads\<close>
named_theorems inv_intros \<open>preservation of component invariants\<close>

subsection \<open>Allocation\<close>

record allocator =
  al_next :: addr
  al_ok :: "nat \<Rightarrow> bool"

definition malloc :: "allocator \<Rightarrow> addr option \<times> allocator" where
  "malloc al =
     (let n = al_next al; al' = al\<lparr>al_next := Suc n\<rparr>
      in if al_ok al n then (Some n, al') else (None, al'))"

lemma malloc_next: "malloc al = (r, al') \<Longrightarrow> al_next al' = Suc (al_next al)"
  by (auto simp: malloc_def Let_def split: if_splits)

lemma malloc_ok: "malloc al = (r, al') \<Longrightarrow> al_ok al' = al_ok al"
  by (auto simp: malloc_def Let_def split: if_splits)

lemma malloc_fresh: "malloc al = (Some n, al') \<Longrightarrow> n = al_next al"
  by (auto simp: malloc_def Let_def split: if_splits)

subsection \<open>Lists\<close>

lemma filter_neq_id: "x \<notin> set xs \<Longrightarrow> filter (\<lambda>y. y \<noteq> x) xs = xs"
  by (induction xs) auto

lemma filter_neq_split:
  "x \<notin> set xs \<Longrightarrow> x \<notin> set ys \<Longrightarrow> filter (\<lambda>y. y \<noteq> x) (xs @ x # ys) = xs @ ys"
  by (simp add: filter_neq_id)

lemma split_list_distinct:
  assumes "x \<in> set xs" and "distinct xs"
  obtains ys zs where "xs = ys @ x # zs" "x \<notin> set ys" "x \<notin> set zs"
  using assms by (metis distinct_append distinct.simps(2) split_list_first)

lemma find_SomeD: "find P xs = Some x \<Longrightarrow> x \<in> set xs \<and> P x"
  by (induction xs) (auto split: if_splits)

lemma find_exists: "x \<in> set xs \<Longrightarrow> P x \<Longrightarrow> \<exists>y. find P xs = Some y"
  by (induction xs) auto

lemma tl_append_Cons: "tl (xs @ a # ys) = tl (xs @ [a]) @ ys"
  by (cases xs) auto

lemma sum_list_update:
  "i < length xs \<Longrightarrow> sum_list (xs[i := v]) + xs ! i = sum_list xs + (v :: nat)"
  by (induction xs arbitrary: i) (auto split: nat.splits simp: less_Suc_eq_0_disj)

subsection \<open>Power-of-two masks on words\<close>

lemma and_mask_take_bit: "(w :: 'a::len word) AND mask k = take_bit k w"
  by (simp add: take_bit_eq_mask)

lemma unat_and_mask_less: "unat ((w :: 'a::len word) AND mask k) < 2 ^ k"
  by (simp add: and_mask_take_bit unsigned_take_bit_eq)

lemma unat_shift_right_less: "(w :: 'a::len word) \<noteq> 0 \<Longrightarrow> unat (drop_bit (Suc 0) w) < unat w"
  by (simp add: drop_bit_eq_div unat_div_distrib unat_gt_0)

lemma mask_Suc_word: "push_bit 1 (mask k :: 'a::len word) OR 1 = mask (Suc k)"
  by (simp add: mask_Suc_double ac_simps)

lemma mask_exposed_bit: "(mask (Suc k) :: 'a::len word) XOR mask k = (if k < LENGTH('a) then 2 ^ k else 0)"
  by (rule bit_word_eqI) (auto simp: bit_simps)

lemma drop_bit_mask_word: "k \<le> LENGTH('a) \<Longrightarrow> drop_bit (Suc 0) (mask k :: 'a::len word) = mask (k - 1)"
  by (rule bit_word_eqI) (auto simp: bit_simps)

lemma and_power_bit: "k < LENGTH('a) \<Longrightarrow> (w :: 'a::len word) AND 2 ^ k \<noteq> 0 \<longleftrightarrow> bit w k"
  by (simp add: and_exp_eq_0_iff_not_bit)

lemma unat_and_mask_Suc:
  "k < LENGTH('a) \<Longrightarrow> unat ((w :: 'a::len word) AND mask (Suc k)) = unat (w AND mask k) + (if bit w k then 2 ^ k else 0)"
  by (simp add: and_mask_take_bit unsigned_take_bit_eq take_bit_Suc_from_most bit_unsigned_iff
      bit_imp_le_length)

end
