(* ===== verification/Queue.thy ===== *)
theory Queue
  imports Netatalk_Prelude
begin

text \<open>
  The queues of \<open>libatalk/util/queue.c\<close>: circular doubly linked lists with a sentinel
  node, held in an explicit heap of nodes so that the pointer surgery of every operation
  is modelled as it is written. The abstraction \<open>qwf h L\<close> says that the heap \<open>h\<close> holds
  exactly linked, pairwise disjoint queues whose node sequences are given by \<open>L\<close>; the
  refinement lemmas say what each operation does to \<open>L\<close> and that no operation follows an
  invalid pointer. The locale \<open>queue_store\<close> is the interface the directory cache uses.
\<close>

subsection \<open>Nodes and the node heap\<close>

record qnode =
  qprev :: "addr option"
  qnext :: "addr option"
  qdata :: "addr option"

record qheap =
  qcells :: "addr \<rightharpoonup> qnode"
  qalloc :: allocator

definition get_next :: "qheap \<Rightarrow> addr \<Rightarrow> addr option" where
  "get_next h a = (case qcells h a of None \<Rightarrow> None | Some c \<Rightarrow> qnext c)"

definition get_prev :: "qheap \<Rightarrow> addr \<Rightarrow> addr option" where
  "get_prev h a = (case qcells h a of None \<Rightarrow> None | Some c \<Rightarrow> qprev c)"

definition get_data :: "qheap \<Rightarrow> addr \<Rightarrow> addr option" where
  "get_data h a = (case qcells h a of None \<Rightarrow> None | Some c \<Rightarrow> qdata c)"

definition set_next :: "qheap \<Rightarrow> addr \<Rightarrow> addr \<Rightarrow> qheap option" where
  "set_next h a v = (case qcells h a of None \<Rightarrow> None
     | Some c \<Rightarrow> Some (h\<lparr>qcells := (qcells h)(a \<mapsto> c\<lparr>qnext := Some v\<rparr>)\<rparr>))"

definition set_prev :: "qheap \<Rightarrow> addr \<Rightarrow> addr \<Rightarrow> qheap option" where
  "set_prev h a v = (case qcells h a of None \<Rightarrow> None
     | Some c \<Rightarrow> Some (h\<lparr>qcells := (qcells h)(a \<mapsto> c\<lparr>qprev := Some v\<rparr>)\<rparr>))"

definition qfree :: "qheap \<Rightarrow> addr \<Rightarrow> qheap option" where
  "qfree h a = (case qcells h a of None \<Rightarrow> None
     | Some c \<Rightarrow> Some (h\<lparr>qcells := (qcells h)(a := None)\<rparr>))"

subsection \<open>Operations\<close>

definition alloc_init_node :: "qheap \<Rightarrow> addr option \<Rightarrow> addr option \<times> qheap" where
  "alloc_init_node h data =
     (case malloc (qalloc h) of
        (None, al) \<Rightarrow> (None, h\<lparr>qalloc := al\<rparr>)
      | (Some n, al) \<Rightarrow>
          (Some n, h\<lparr>qalloc := al,
                     qcells := (qcells h)(n \<mapsto> \<lparr>qprev = None, qnext = None, qdata = data\<rparr>)\<rparr>))"

definition queue_init :: "qheap \<Rightarrow> (addr option \<times> qheap) option" where
  "queue_init h =
     (case alloc_init_node h None of
        (None, h) \<Rightarrow> Some (None, h)
      | (Some q, h) \<Rightarrow> do {
          h \<leftarrow> set_next h q q;
          h \<leftarrow> set_prev h q q;
          Some (Some q, h)
        })"

definition enqueue :: "qheap \<Rightarrow> addr \<Rightarrow> addr option \<Rightarrow> (addr option \<times> qheap) option" where
  "enqueue h q data =
     (case alloc_init_node h data of
        (None, h) \<Rightarrow> Some (None, h)
      | (Some n, h) \<Rightarrow> do {
          h \<leftarrow> set_next h n q;
          p \<leftarrow> get_prev h q;
          h \<leftarrow> set_prev h n p;
          p \<leftarrow> get_prev h q;
          h \<leftarrow> set_next h p n;
          h \<leftarrow> set_prev h q n;
          Some (Some n, h)
        })"

text \<open>The unlink pair and the relink at the tail, which two of the operations share.\<close>

definition unlink_node :: "qheap \<Rightarrow> addr \<Rightarrow> qheap option" where
  "unlink_node h n = do {
     p \<leftarrow> get_prev h n;
     x \<leftarrow> get_next h n;
     h \<leftarrow> set_next h p x;
     x \<leftarrow> get_next h n;
     p \<leftarrow> get_prev h n;
     set_prev h x p
   }"

definition relink_tail :: "qheap \<Rightarrow> addr \<Rightarrow> addr \<Rightarrow> qheap option" where
  "relink_tail h q n = do {
     h \<leftarrow> set_next h n q;
     p \<leftarrow> get_prev h q;
     h \<leftarrow> set_prev h n p;
     p \<leftarrow> get_prev h q;
     h \<leftarrow> set_next h p n;
     set_prev h q n
   }"

definition queue_move_to_tail_of ::
  "qheap \<Rightarrow> addr option \<Rightarrow> addr option \<Rightarrow> addr option \<Rightarrow> (addr option \<times> qheap) option" where
  "queue_move_to_tail_of h from_q to_q node =
     (case (from_q, to_q, node) of
        (Some f, Some t, Some n) \<Rightarrow>
          if n = f \<or> n = t then Some (None, h)
          else do {
            h \<leftarrow> unlink_node h n;
            h \<leftarrow> relink_tail h t n;
            Some (Some n, h)
          }
      | _ \<Rightarrow> Some (None, h))"

definition queue_move_to_tail ::
  "qheap \<Rightarrow> addr option \<Rightarrow> addr option \<Rightarrow> (addr option \<times> qheap) option" where
  "queue_move_to_tail h q node =
     (case (q, node) of
        (Some q, Some n) \<Rightarrow>
          if n = q then Some (None, h)
          else do {
            x \<leftarrow> get_next h n;
            if x = q then Some (Some n, h)
            else do {
              h \<leftarrow> unlink_node h n;
              h \<leftarrow> relink_tail h q n;
              Some (Some n, h)
            }
          }
      | _ \<Rightarrow> Some (None, h))"

definition prequeue :: "qheap \<Rightarrow> addr \<Rightarrow> addr option \<Rightarrow> (addr option \<times> qheap) option" where
  "prequeue h q data =
     (case alloc_init_node h data of
        (None, h) \<Rightarrow> Some (None, h)
      | (Some n, h) \<Rightarrow> do {
          x \<leftarrow> get_next h q;
          h \<leftarrow> set_prev h x n;
          x \<leftarrow> get_next h q;
          h \<leftarrow> set_next h n x;
          h \<leftarrow> set_prev h n q;
          h \<leftarrow> set_next h q n;
          Some (Some n, h)
        })"

definition queue_remove :: "qheap \<Rightarrow> addr option \<Rightarrow> (addr option \<times> qheap) option" where
  "queue_remove h node =
     (case node of
        None \<Rightarrow> Some (None, h)
      | Some n \<Rightarrow> do {
          c \<leftarrow> qcells h n;
          h \<leftarrow> unlink_node h n;
          h \<leftarrow> qfree h n;
          Some (qdata c, h)
        })"

definition dequeue :: "qheap \<Rightarrow> addr option \<Rightarrow> (addr option \<times> qheap) option" where
  "dequeue h q =
     (case q of
        None \<Rightarrow> Some (None, h)
      | Some q \<Rightarrow> do {
          n \<leftarrow> get_next h q;
          if n = q then Some (None, h)
          else do {
            c \<leftarrow> qcells h n;
            x \<leftarrow> get_next h n;
            h \<leftarrow> set_next h q x;
            x \<leftarrow> get_next h n;
            p \<leftarrow> get_prev h n;
            h \<leftarrow> set_prev h x p;
            h \<leftarrow> qfree h n;
            Some (qdata c, h)
          }
        })"

text \<open>
  \<open>queue_destroy\<close>: the loop runs until \<open>dequeue\<close> answers \<open>NULL\<close>; the result lists the
  elements handed to the callback, in order.
\<close>

partial_function (option) queue_drain :: "qheap \<Rightarrow> addr \<Rightarrow> (addr list \<times> qheap) option" where
  "queue_drain h q =
     Option.bind (dequeue h (Some q)) (\<lambda>(p, h).
       case p of
         None \<Rightarrow> Some ([], h)
       | Some d \<Rightarrow> Option.bind (queue_drain h q) (\<lambda>(ds, h). Some (d # ds, h)))"

definition queue_destroy :: "qheap \<Rightarrow> addr \<Rightarrow> (addr list \<times> qheap) option" where
  "queue_destroy h q = do {
     (ds, h) \<leftarrow> queue_drain h q;
     h \<leftarrow> qfree h q;
     Some (ds, h)
   }"

subsection \<open>The links of a circular list\<close>

fun links :: "(addr \<Rightarrow> addr option) \<Rightarrow> (addr \<Rightarrow> addr option) \<Rightarrow> addr list \<Rightarrow> bool" where
  "links nf pf (a # b # r) \<longleftrightarrow> nf a = Some b \<and> pf b = Some a \<and> links nf pf (b # r)"
| "links nf pf _ \<longleftrightarrow> True"

definition qwf :: "qheap \<Rightarrow> (addr \<rightharpoonup> addr list) \<Rightarrow> bool" where
  "qwf h L \<longleftrightarrow>
     (\<forall>q xs. L q = Some xs \<longrightarrow>
        distinct (q # xs) \<and> links (get_next h) (get_prev h) (q # xs @ [q]) \<and>
        set (q # xs) \<subseteq> dom (qcells h)) \<and>
     (\<forall>q q' xs xs'. L q = Some xs \<longrightarrow> L q' = Some xs' \<longrightarrow> q \<noteq> q' \<longrightarrow>
        set (q # xs) \<inter> set (q' # xs') = {}) \<and>
     (\<forall>a \<in> dom (qcells h). a < al_next (qalloc h))"

lemma links_append:
  "links nf pf (xs @ a # ys) \<longleftrightarrow> links nf pf (xs @ [a]) \<and> links nf pf (a # ys)"
proof (induction xs)
  case (Cons x xs)
  then show ?case by (cases xs) auto
qed simp

lemma links_cong:
  "(\<And>a. a \<in> set (butlast zs) \<Longrightarrow> nf a = nf' a) \<Longrightarrow> (\<And>a. a \<in> set (tl zs) \<Longrightarrow> pf a = pf' a) \<Longrightarrow>
   links nf pf zs = links nf' pf' zs"
proof (induction nf pf zs rule: links.induct)
  case (1 nf pf a b r)
  have "links nf pf (b # r) = links nf' pf' (b # r)"
    by (rule "1.IH") (auto intro: "1.prems" list.set_sel(2))
  with 1(2)[of a] 1(3)[of b] show ?case by simp
qed auto

text \<open>
  The two shapes of pointer surgery: a node is cut out between \<open>p\<close> and \<open>x\<close>, or put in
  between them.
\<close>

lemma links_cut:
  assumes "links nf pf (us @ p # n # x # vs)"
    and "p \<notin> set us" "x \<notin> set (tl (us @ [p]))" "p \<notin> set (butlast (x # vs))" "x \<notin> set vs"
  shows "links (nf(p := Some x)) (pf(x := Some p)) (us @ p # x # vs)"
proof -
  from assms(1) have "links nf pf (us @ [p])" "links nf pf (x # vs)"
    using links_append[of nf pf us p "n # x # vs"] by simp_all
  moreover have "links nf pf (us @ [p]) = links (nf(p := Some x)) (pf(x := Some p)) (us @ [p])"
    using assms by (intro links_cong) auto
  moreover have "links nf pf (x # vs) = links (nf(p := Some x)) (pf(x := Some p)) (x # vs)"
    using assms by (intro links_cong) auto
  ultimately show ?thesis
    using links_append[of "nf(p := Some x)" "pf(x := Some p)" us p "x # vs"] by simp
qed

lemma links_put:
  assumes "links nf pf (us @ p # x # vs)"
    and "p \<notin> set us" "x \<notin> set (tl (us @ [p]))" "p \<notin> set (butlast (x # vs))" "x \<notin> set vs"
    and "n \<notin> set (us @ p # x # vs)"
  shows "links (nf(p := Some n, n := Some x)) (pf(n := Some p, x := Some n)) (us @ p # n # x # vs)"
proof -
  let ?nf = "nf(p := Some n, n := Some x)" and ?pf = "pf(n := Some p, x := Some n)"
  have tl_us: "set (tl (us @ [p])) \<subseteq> set (us @ [p])" by (cases us) auto
  have bl: "set (butlast (x # vs)) \<subseteq> set (x # vs)" by (rule in_set_butlastD[THEN subsetI])
  from assms(1) have "links nf pf (us @ [p])" "links nf pf (x # vs)"
    using links_append[of nf pf us p "x # vs"] by simp_all
  moreover have "links nf pf (us @ [p]) = links ?nf ?pf (us @ [p])"
    using assms tl_us by (intro links_cong) auto
  moreover have "links nf pf (x # vs) = links ?nf ?pf (x # vs)"
    using assms bl by (intro links_cong) auto
  moreover have "p \<noteq> n" "x \<noteq> n" using assms(6) by auto
  ultimately show ?thesis
    using links_append[of ?nf ?pf us p "n # x # vs"] by simp
qed

subsection \<open>Reads after writes\<close>

lemma set_next_Some:
  assumes "a \<in> dom (qcells h)"
  obtains h' where "set_next h a v = Some h'" "get_next h' = (get_next h)(a := Some v)"
    "get_prev h' = get_prev h" "get_data h' = get_data h"
    "dom (qcells h') = dom (qcells h)" "qalloc h' = qalloc h"
proof -
  from assms obtain c where c: "qcells h a = Some c" by blast
  show ?thesis
    by (rule that[of "h\<lparr>qcells := (qcells h)(a \<mapsto> c\<lparr>qnext := Some v\<rparr>)\<rparr>"])
       (auto simp: set_next_def get_next_def get_prev_def get_data_def fun_eq_iff c)
qed

lemma set_prev_Some:
  assumes "a \<in> dom (qcells h)"
  obtains h' where "set_prev h a v = Some h'" "get_prev h' = (get_prev h)(a := Some v)"
    "get_next h' = get_next h" "get_data h' = get_data h"
    "dom (qcells h') = dom (qcells h)" "qalloc h' = qalloc h"
proof -
  from assms obtain c where c: "qcells h a = Some c" by blast
  show ?thesis
    by (rule that[of "h\<lparr>qcells := (qcells h)(a \<mapsto> c\<lparr>qprev := Some v\<rparr>)\<rparr>"])
       (auto simp: set_prev_def get_next_def get_prev_def get_data_def fun_eq_iff c)
qed

lemma unlink_node_Some:
  assumes "get_prev h n = Some p" "get_next h n = Some x" "p \<noteq> n"
    and "p \<in> dom (qcells h)" "x \<in> dom (qcells h)"
  obtains h' where "unlink_node h n = Some h'" "get_next h' = (get_next h)(p := Some x)"
    "get_prev h' = (get_prev h)(x := Some p)" "get_data h' = get_data h"
    "dom (qcells h') = dom (qcells h)" "qalloc h' = qalloc h"
proof -
  obtain h1 where h1: "set_next h p x = Some h1" "get_next h1 = (get_next h)(p := Some x)"
      "get_prev h1 = get_prev h" "get_data h1 = get_data h"
      "dom (qcells h1) = dom (qcells h)" "qalloc h1 = qalloc h"
    using assms(4) by (rule set_next_Some)
  moreover obtain h2 where h2: "set_prev h1 x p = Some h2" "get_prev h2 = (get_prev h1)(x := Some p)"
      "get_next h2 = get_next h1" "get_data h2 = get_data h1"
      "dom (qcells h2) = dom (qcells h1)" "qalloc h2 = qalloc h1"
    using assms(5) h1(5) by (metis set_prev_Some)
  ultimately show ?thesis
    using assms by (intro that[of h2]) (simp_all add: unlink_node_def)
qed

lemma relink_tail_Some:
  assumes "get_prev h q = Some p" "n \<noteq> q" "p \<noteq> n"
    and "p \<in> dom (qcells h)" "q \<in> dom (qcells h)" "n \<in> dom (qcells h)"
  obtains h' where "relink_tail h q n = Some h'"
    "get_next h' = (get_next h)(p := Some n, n := Some q)"
    "get_prev h' = (get_prev h)(n := Some p, q := Some n)" "get_data h' = get_data h"
    "dom (qcells h') = dom (qcells h)" "qalloc h' = qalloc h"
proof -
  obtain h1 where h1: "set_next h n q = Some h1" "get_next h1 = (get_next h)(n := Some q)"
      "get_prev h1 = get_prev h" "get_data h1 = get_data h"
      "dom (qcells h1) = dom (qcells h)" "qalloc h1 = qalloc h"
    using assms(6) by (rule set_next_Some)
  obtain h2 where h2: "set_prev h1 n p = Some h2" "get_prev h2 = (get_prev h1)(n := Some p)"
      "get_next h2 = get_next h1" "get_data h2 = get_data h1"
      "dom (qcells h2) = dom (qcells h1)" "qalloc h2 = qalloc h1"
    using assms(6) h1(5) by (metis set_prev_Some)
  obtain h3 where h3: "set_next h2 p n = Some h3" "get_next h3 = (get_next h2)(p := Some n)"
      "get_prev h3 = get_prev h2" "get_data h3 = get_data h2"
      "dom (qcells h3) = dom (qcells h2)" "qalloc h3 = qalloc h2"
    using assms(4) h1(5) h2(5) by (metis set_next_Some)
  obtain h4 where h4: "set_prev h3 q n = Some h4" "get_prev h4 = (get_prev h3)(q := Some n)"
      "get_next h4 = get_next h3" "get_data h4 = get_data h3"
      "dom (qcells h4) = dom (qcells h3)" "qalloc h4 = qalloc h3"
    using assms(5) h1(5) h2(5) h3(5) by (metis set_prev_Some)
  show ?thesis
    using assms h1 h2 h3 h4
    by (intro that[of h4]) (simp_all add: relink_tail_def fun_upd_twist)
qed

subsection \<open>What the surgery does to the queues\<close>

lemma qwf_distinct: "qwf h L \<Longrightarrow> L q = Some xs \<Longrightarrow> distinct (q # xs)"
  and qwf_links: "qwf h L \<Longrightarrow> L q = Some xs \<Longrightarrow> links (get_next h) (get_prev h) (q # xs @ [q])"
  and qwf_dom: "qwf h L \<Longrightarrow> L q = Some xs \<Longrightarrow> set (q # xs) \<subseteq> dom (qcells h)"
  and qwf_disjoint: "qwf h L \<Longrightarrow> L q = Some xs \<Longrightarrow> L q' = Some xs' \<Longrightarrow> q \<noteq> q' \<Longrightarrow>
    set (q # xs) \<inter> set (q' # xs') = {}"
  and qwf_fresh: "qwf h L \<Longrightarrow> a \<in> dom (qcells h) \<Longrightarrow> a < al_next (qalloc h)"
  unfolding qwf_def by blast+

lemma qwfI:
  assumes "\<And>q xs. L q = Some xs \<Longrightarrow> distinct (q # xs)"
    and "\<And>q xs. L q = Some xs \<Longrightarrow> links (get_next h) (get_prev h) (q # xs @ [q])"
    and "\<And>q xs. L q = Some xs \<Longrightarrow> set (q # xs) \<subseteq> dom (qcells h)"
    and "\<And>q q' xs xs'. L q = Some xs \<Longrightarrow> L q' = Some xs' \<Longrightarrow> q \<noteq> q' \<Longrightarrow> set (q # xs) \<inter> set (q' # xs') = {}"
    and "\<And>a. a \<in> dom (qcells h) \<Longrightarrow> a < al_next (qalloc h)"
  shows "qwf h L"
  unfolding qwf_def using assms by blast

lemma links_last: "links nf pf (q # xs @ [n]) \<Longrightarrow> pf n = Some (last (q # xs))"
  by (induction xs arbitrary: q) auto

lemma links_hd: "links nf pf (n # ys @ [q]) \<Longrightarrow> nf n = Some (hd (ys @ [q]))"
  by (cases ys) auto

lemma qwf_neighbours:
  assumes "qwf h L" "L q = Some (xs @ n # ys)"
  shows "get_prev h n = Some (last (q # xs))" "get_next h n = Some (hd (ys @ [q]))"
proof -
  have "links (get_next h) (get_prev h) ((q # xs) @ n # ys @ [q])"
    using qwf_links[OF assms] by simp
  then have "links (get_next h) (get_prev h) (q # xs @ [n])" "links (get_next h) (get_prev h) (n # ys @ [q])"
    using links_append[of _ _ "q # xs" n "ys @ [q]"] by simp_all
  then show "get_prev h n = Some (last (q # xs))" "get_next h n = Some (hd (ys @ [q]))"
    using links_last links_hd by blast+
qed

lemma qwf_tail:
  assumes "qwf h L" "L q = Some xs"
  shows "get_prev h q = Some (last (q # xs))" "get_next h q = Some (hd (xs @ [q]))"
  using qwf_links[OF assms] links_last links_hd by blast+

text \<open>
  A heap that differs from a well-formed one only in the links of the cells of one queue,
  and links that queue as \<open>xs'\<close>, is well-formed for the updated node sequences.
\<close>

lemma qwf_update:
  assumes wf: "qwf h L" and L: "L q = Some xs"
    and links': "links (get_next h') (get_prev h') (q # xs' @ [q])"
    and d: "distinct (q # xs')" and sub: "set xs' \<subseteq> set xs \<union> N"
    and N: "\<And>q' ys. L q' = Some ys \<Longrightarrow> N \<inter> set (q' # ys) = {}" "N \<subseteq> dom (qcells h')"
    and nx: "\<And>a. a \<notin> set (q # xs) \<union> N \<Longrightarrow> get_next h' a = get_next h a"
    and pv: "\<And>a. a \<notin> set (q # xs) \<union> N \<Longrightarrow> get_prev h' a = get_prev h a"
    and dm: "dom (qcells h) \<subseteq> dom (qcells h')"
    and fr: "\<And>a. a \<in> dom (qcells h') \<Longrightarrow> a < al_next (qalloc h')"
  shows "qwf h' (L(q \<mapsto> xs'))"
proof -
  have frame: "links (get_next h') (get_prev h') (q' # ys @ [q'])" if "L q' = Some ys" "q' \<noteq> q" for q' ys
  proof -
    have dj: "set (q # xs) \<inter> set (q' # ys) = {}" "N \<inter> set (q' # ys) = {}"
      using qwf_disjoint[OF wf L that(1)] that N(1) by blast+
    have bl: "set (butlast (q' # ys @ [q'])) = set (q' # ys)"
      by (simp add: butlast_append)
    have "links (get_next h) (get_prev h) (q' # ys @ [q']) =
          links (get_next h') (get_prev h') (q' # ys @ [q'])"
    proof (rule links_cong)
      fix a assume "a \<in> set (butlast (q' # ys @ [q']))"
      then have "a \<notin> set (q # xs) \<union> N" using bl dj by blast
      then show "get_next h a = get_next h' a" by (simp add: nx)
    next
      fix a assume "a \<in> set (tl (q' # ys @ [q']))"
      then have "a \<notin> set (q # xs) \<union> N" using dj by auto
      then show "get_prev h a = get_prev h' a" by (simp add: pv)
    qed
    then show ?thesis using qwf_links[OF wf that(1)] by simp
  qed
  have dom1: "set (q' # ys) \<subseteq> dom (qcells h')" if "L q' = Some ys" for q' ys
    using qwf_dom[OF wf that] dm by blast
  have "set (q # xs') \<subseteq> dom (qcells h')"
    using dom1[OF L] sub N(2) by auto
  moreover have dj': "set (q # xs') \<inter> set (q' # ys) = {}" if "L q' = Some ys" "q' \<noteq> q" for q' ys
    using qwf_disjoint[OF wf L that(1)] that N(1)[OF that(1)] sub by auto
  ultimately show ?thesis
    unfolding qwf_def using links' d frame dom1 qwf_distinct[OF wf] qwf_disjoint[OF wf] fr
    by (auto split: if_splits)
qed

definition loose :: "(addr \<rightharpoonup> addr list) \<Rightarrow> addr \<Rightarrow> bool" where
  "loose L n \<longleftrightarrow> (\<forall>q xs. L q = Some xs \<longrightarrow> n \<notin> set (q # xs))"

lemma qwf_unlink:
  assumes wf: "qwf h L" and L: "L q = Some (xs @ n # ys)"
  obtains h' where "unlink_node h n = Some h'" "qwf h' (L(q \<mapsto> xs @ ys))" "loose (L(q \<mapsto> xs @ ys)) n"
    "get_data h' = get_data h" "dom (qcells h') = dom (qcells h)" "qalloc h' = qalloc h"
proof -
  let ?p = "last (q # xs)" and ?x = "hd (ys @ [q])"
  let ?us = "butlast (q # xs)" and ?vs = "tl (ys @ [q])"
  have d: "distinct (q # xs @ n # ys)" using qwf_distinct[OF wf L] .
  have us: "?us @ [?p] = q # xs" by simp
  have vs: "?x # ?vs = ys @ [q]" by (cases ys) auto
  have pin: "?p \<in> set (q # xs)" by (metis last_in_set list.discI)
  have xin: "?x \<in> set (q # ys)" using vs by (cases ys) auto
  have dm: "set (q # xs @ n # ys) \<subseteq> dom (qcells h)" using qwf_dom[OF wf L] .
  obtain h' where h': "unlink_node h n = Some h'" "get_next h' = (get_next h)(?p := Some ?x)"
    "get_prev h' = (get_prev h)(?x := Some ?p)" "get_data h' = get_data h"
    "dom (qcells h') = dom (qcells h)" "qalloc h' = qalloc h"
    by (rule unlink_node_Some[OF qwf_neighbours[OF wf L]]) (use pin xin dm d in auto)
  have "links (get_next h) (get_prev h) (?us @ ?p # n # ?x # ?vs)"
    using qwf_links[OF wf L] us vs by (metis append.assoc append_Cons append_Nil)
  moreover have "?p \<notin> set ?us" using us d by (metis distinct_append distinct.simps(2) not_distinct_conv_prefix append_Cons)
  moreover have "set (tl (?us @ [?p])) = set xs" using us by simp
  moreover have "?x \<notin> set xs" using xin d by auto
  moreover have bl: "butlast (?x # ?vs) = ys" using vs by simp
  moreover have "?p \<notin> set ys" using pin d by auto
  moreover have "?x \<notin> set ?vs" using d by (cases ys) auto
  ultimately have "links (get_next h') (get_prev h') (?us @ ?p # ?x # ?vs)"
    unfolding h'(2,3) by (intro links_cut) (simp_all only:, auto)
  then have "links (get_next h') (get_prev h') (q # (xs @ ys) @ [q])"
    using us vs by (metis append.assoc append_Cons append_Nil)
  then have "qwf h' (L(q \<mapsto> xs @ ys))"
    by (rule qwf_update[OF wf L, where N = "{}"]) (use d h' pin xin qwf_fresh[OF wf] in auto)
  moreover have "loose (L(q \<mapsto> xs @ ys)) n"
    using d qwf_disjoint[OF wf L] by (auto simp: loose_def)
  ultimately show ?thesis using that h' by blast
qed

lemma qwf_relink:
  assumes wf: "qwf h L" and L: "L t = Some xs" and n: "n \<in> dom (qcells h)" "loose L n"
  obtains h' where "relink_tail h t n = Some h'" "qwf h' (L(t \<mapsto> xs @ [n]))"
    "get_data h' = get_data h" "dom (qcells h') = dom (qcells h)" "qalloc h' = qalloc h"
proof -
  let ?p = "last (t # xs)" and ?us = "butlast (t # xs)"
  have d: "distinct (t # xs)" using qwf_distinct[OF wf L] .
  have us: "?us @ [?p] = t # xs" by simp
  have pin: "?p \<in> set (t # xs)" by (metis last_in_set list.discI)
  have nt: "n \<notin> set (t # xs)" using n(2) L by (auto simp: loose_def)
  have dm: "set (t # xs) \<subseteq> dom (qcells h)" using qwf_dom[OF wf L] .
  obtain h' where h': "relink_tail h t n = Some h'"
    "get_next h' = (get_next h)(?p := Some n, n := Some t)"
    "get_prev h' = (get_prev h)(n := Some ?p, t := Some n)" "get_data h' = get_data h"
    "dom (qcells h') = dom (qcells h)" "qalloc h' = qalloc h"
    by (rule relink_tail_Some[OF qwf_tail(1)[OF wf L]]) (use pin nt dm n in auto)
  have "links (get_next h) (get_prev h) (?us @ ?p # t # [])"
    using qwf_links[OF wf L] us by (metis append.assoc append_Cons append_Nil)
  moreover have "?p \<notin> set ?us" using us d by (metis distinct_append distinct.simps(2) not_distinct_conv_prefix append_Cons)
  moreover have "set (tl (?us @ [?p])) = set xs" using us by simp
  moreover have "set (?us @ ?p # t # []) = set (t # xs)" using us
    by (metis append.assoc append_Cons append_Nil insert_absorb2 list.simps(15) rotate1.simps(2) set_rotate1)
  ultimately have "links (get_next h') (get_prev h') (?us @ ?p # n # t # [])"
    unfolding h'(2,3) using nt d by (intro links_put) (simp_all only:, auto)
  then have "links (get_next h') (get_prev h') (t # (xs @ [n]) @ [t])"
    using us by (metis append.assoc append_Cons append_Nil)
  then have "qwf h' (L(t \<mapsto> xs @ [n]))"
    by (rule qwf_update[OF wf L, where N = "{n}"])
       (use d h' pin nt n qwf_fresh[OF wf] in \<open>auto simp: loose_def\<close>)
  then show ?thesis using that h' by blast
qed

lemma qwf_free:
  assumes wf: "qwf h L" and n: "n \<in> dom (qcells h)" "loose L n"
  obtains h' where "qfree h n = Some h'" "qwf h' L" "get_data h' = (get_data h)(n := None)"
    "qalloc h' = qalloc h"
proof -
  from n obtain c where c: "qcells h n = Some c" by blast
  let ?h = "h\<lparr>qcells := (qcells h)(n := None)\<rparr>"
  have rd: "get_next ?h = (get_next h)(n := None)" "get_prev ?h = (get_prev h)(n := None)"
    "get_data ?h = (get_data h)(n := None)"
    by (auto simp: get_next_def get_prev_def get_data_def)
  have "links (get_next ?h) (get_prev ?h) (q # xs @ [q])" if "L q = Some xs" for q xs
  proof -
    have "n \<notin> set (q # xs @ [q])" using n(2) that by (auto simp: loose_def)
    then have "links (get_next h) (get_prev h) (q # xs @ [q]) = links (get_next ?h) (get_prev ?h) (q # xs @ [q])"
      unfolding rd by (intro links_cong) (auto dest: in_set_butlastD)
    then show ?thesis using qwf_links[OF wf that] by simp
  qed
  moreover have "set (q # xs) \<subseteq> dom (qcells ?h)" if "L q = Some xs" for q xs
    using qwf_dom[OF wf that] n(2) that by (auto simp: loose_def)
  ultimately have "qwf ?h L"
    by (intro qwfI) (use qwf_distinct[OF wf] qwf_disjoint[OF wf] qwf_fresh[OF wf] in \<open>auto split: if_splits\<close>)
  then show ?thesis using c rd by (intro that[of ?h]) (simp_all add: qfree_def)
qed

lemma qwf_alloc:
  assumes wf: "qwf h L" and al: "alloc_init_node h d = (r, h')"
  shows "qwf h' L"
    "case r of None \<Rightarrow> get_data h' = get_data h
     | Some n \<Rightarrow> n \<in> dom (qcells h') \<and> loose L n \<and> get_data h' = (get_data h)(n := d)"
proof -
  obtain m al' where m: "malloc (qalloc h) = (m, al')" by fastforce
  note nx = malloc_next[OF m]
  show "case r of None \<Rightarrow> get_data h' = get_data h
     | Some n \<Rightarrow> n \<in> dom (qcells h') \<and> loose L n \<and> get_data h' = (get_data h)(n := d)"
  proof (cases m)
    case None
    then show ?thesis using al m by (auto simp: alloc_init_node_def get_data_def)
  next
    case (Some n)
    have "n \<notin> dom (qcells h)" using qwf_fresh[OF wf, of n] malloc_fresh m Some by auto
    then have "loose L n" using qwf_dom[OF wf] by (auto simp: loose_def)
    then show ?thesis using al m Some by (auto simp: alloc_init_node_def get_data_def fun_eq_iff)
  qed
  show "qwf h' L"
  proof (cases m)
    case None
    have "get_next h' = get_next h" "get_prev h' = get_prev h" "qcells h' = qcells h" "qalloc h' = al'"
      using al m None by (auto simp: alloc_init_node_def get_next_def get_prev_def)
    then show ?thesis using wf nx unfolding qwf_def by (auto intro: less_SucI)
  next
    case (Some n)
    have fresh: "n \<notin> dom (qcells h)" using qwf_fresh[OF wf, of n] malloc_fresh m Some by auto
    have h': "qcells h' = (qcells h)(n \<mapsto> \<lparr>qprev = None, qnext = None, qdata = d\<rparr>)" "qalloc h' = al'"
      using al m Some by (auto simp: alloc_init_node_def)
    have rd: "a \<noteq> n \<Longrightarrow> get_next h' a = get_next h a" "a \<noteq> n \<Longrightarrow> get_prev h' a = get_prev h a" for a
      using h' by (auto simp: get_next_def get_prev_def)
    have "links (get_next h') (get_prev h') (q # xs @ [q])" if "L q = Some xs" for q xs
    proof -
      have nq: "n \<notin> set (q # xs @ [q])" using fresh qwf_dom[OF wf that] by auto
      have "links (get_next h) (get_prev h) (q # xs @ [q]) = links (get_next h') (get_prev h') (q # xs @ [q])"
      proof (rule links_cong)
        fix a assume "a \<in> set (butlast (q # xs @ [q]))"
        then have "a \<noteq> n" using nq by (auto dest: in_set_butlastD)
        then show "get_next h a = get_next h' a" by (simp add: rd)
      next
        fix a assume "a \<in> set (tl (q # xs @ [q]))"
        then have "a \<noteq> n" using nq by auto
        then show "get_prev h a = get_prev h' a" by (simp add: rd)
      qed
      then show ?thesis using qwf_links[OF wf that] by simp
    qed
    moreover have "n < al_next al'" using malloc_fresh m Some nx by auto
    moreover have "set (q # xs) \<subseteq> dom (qcells h')" if "L q = Some xs" for q xs
      using qwf_dom[OF wf that] by (auto simp: h')
    moreover have "a < al_next (qalloc h')" if "a \<in> dom (qcells h')" for a
      using that \<open>n < al_next al'\<close> nx by (auto simp: h' intro: less_SucI qwf_fresh[OF wf])
    ultimately show ?thesis
      by (intro qwfI) (use qwf_distinct[OF wf] qwf_disjoint[OF wf] in auto)
  qed
qed

subsection \<open>The operations on the node sequences\<close>

lemma enqueue_relink:
  "enqueue h q d = (case alloc_init_node h d of (None, h) \<Rightarrow> Some (None, h)
     | (Some n, h) \<Rightarrow> Option.bind (relink_tail h q n) (\<lambda>h. Some (Some n, h)))"
  by (simp add: enqueue_def relink_tail_def split: prod.splits option.splits)

lemma qwf_enqueue:
  assumes wf: "qwf h L" and L: "L q = Some xs"
  shows "\<exists>r h'. enqueue h q d = Some (r, h') \<and>
    (case r of None \<Rightarrow> qwf h' L \<and> get_data h' = get_data h
     | Some n \<Rightarrow> loose L n \<and> qwf h' (L(q \<mapsto> xs @ [n])) \<and> get_data h' = (get_data h)(n := d))"
proof -
  obtain r h1 where al: "alloc_init_node h d = (r, h1)" by fastforce
  note a = qwf_alloc[OF wf al]
  show ?thesis
  proof (cases r)
    case None
    then show ?thesis using al a by (simp add: enqueue_relink)
  next
    case (Some n)
    then have n: "n \<in> dom (qcells h1)" "loose L n" "get_data h1 = (get_data h)(n := d)"
      using a(2) by auto
    obtain h2 where "relink_tail h1 q n = Some h2" "qwf h2 (L(q \<mapsto> xs @ [n]))" "get_data h2 = get_data h1"
      using qwf_relink[OF a(1) L n(1,2)] by metis
    then show ?thesis using Some al n by (simp add: enqueue_relink)
  qed
qed

lemma qwf_remove:
  assumes wf: "qwf h L" and L: "L q = Some (xs @ n # ys)"
  shows "\<exists>h'. queue_remove h (Some n) = Some (get_data h n, h') \<and> qwf h' (L(q \<mapsto> xs @ ys)) \<and>
    get_data h' = (get_data h)(n := None)"
proof -
  obtain h1 where h1: "unlink_node h n = Some h1" "qwf h1 (L(q \<mapsto> xs @ ys))"
    "loose (L(q \<mapsto> xs @ ys)) n" "get_data h1 = get_data h" "dom (qcells h1) = dom (qcells h)"
    using qwf_unlink[OF wf L] by metis
  have "n \<in> dom (qcells h)" using qwf_dom[OF wf L] by auto
  then obtain c where c: "qcells h n = Some c" "n \<in> dom (qcells h1)" using h1(5) by blast
  obtain h2 where "qfree h1 n = Some h2" "qwf h2 (L(q \<mapsto> xs @ ys))" "get_data h2 = (get_data h1)(n := None)"
    using qwf_free[OF h1(2) c(2) h1(3)] by metis
  then show ?thesis using h1 c by (simp add: queue_remove_def get_data_def)
qed

lemma dequeue_head:
  assumes wf: "qwf h L" and L: "L q = Some (n # xs)"
  shows "dequeue h (Some q) = queue_remove h (Some n)"
proof -
  have nq: "n \<noteq> q" using qwf_distinct[OF wf L] by auto
  have "get_next h q = Some n" "get_prev h n = Some q"
    using qwf_tail(2)[OF wf L] qwf_neighbours(1)[OF wf, of q "[]" n xs] L by auto
  then show ?thesis using nq by (simp add: dequeue_def queue_remove_def unlink_node_def)
qed

lemma qwf_dequeue_Nil:
  assumes "qwf h L" "L q = Some []"
  shows "dequeue h (Some q) = Some (None, h)"
  using qwf_tail(2)[OF assms] by (simp add: dequeue_def)

lemma qwf_move:
  assumes wf: "qwf h L" and f: "L f = Some (xs @ n # ys)" and t: "(L(f \<mapsto> xs @ ys)) t = Some zs"
  shows "\<exists>h'. queue_move_to_tail_of h (Some f) (Some t) (Some n) = Some (Some n, h') \<and>
    qwf h' (L(f \<mapsto> xs @ ys, t \<mapsto> zs @ [n])) \<and> get_data h' = get_data h"
proof -
  let ?L = "L(f \<mapsto> xs @ ys)"
  obtain h1 where h1: "unlink_node h n = Some h1" "qwf h1 ?L" "loose ?L n"
    "get_data h1 = get_data h" "dom (qcells h1) = dom (qcells h)"
    using qwf_unlink[OF wf f] by metis
  have "n \<in> dom (qcells h1)" using qwf_dom[OF wf f] h1(5) by auto
  then obtain h2 where "relink_tail h1 t n = Some h2" "qwf h2 (?L(t \<mapsto> zs @ [n]))" "get_data h2 = get_data h1"
    using qwf_relink[OF h1(2) t _ h1(3)] by metis
  moreover have "n \<noteq> f" "n \<noteq> t" using h1(3) t by (auto simp: loose_def split: if_splits)
  ultimately show ?thesis using h1 by (simp add: queue_move_to_tail_of_def)
qed

lemma qwf_move_to_tail:
  assumes wf: "qwf h L" and f: "L q = Some (xs @ n # ys)"
  shows "\<exists>h'. queue_move_to_tail h (Some q) (Some n) = Some (Some n, h') \<and>
    qwf h' (L(q \<mapsto> xs @ ys @ [n])) \<and> get_data h' = get_data h"
proof -
  have nq: "n \<noteq> q" and x: "get_next h n = Some (hd (ys @ [q]))"
    using qwf_distinct[OF wf f] qwf_neighbours(2)[OF wf f] by auto
  show ?thesis
  proof (cases "ys = []")
    case True
    then show ?thesis using wf f nq x by (simp add: queue_move_to_tail_def fun_upd_idem)
  next
    case False
    then have "hd (ys @ [q]) \<noteq> q" using qwf_distinct[OF wf f] by (cases ys) auto
    then have "queue_move_to_tail h (Some q) (Some n) = queue_move_to_tail_of h (Some q) (Some q) (Some n)"
      using nq x by (simp add: queue_move_to_tail_def queue_move_to_tail_of_def)
    then show ?thesis using qwf_move[OF wf f, of q "xs @ ys"] by simp
  qed
qed

lemma qwf_add_queue:
  assumes wf: "qwf h L" and q: "q \<in> dom (qcells h)" "loose L q" "L q = None"
    and l: "get_next h q = Some q" "get_prev h q = Some q"
  shows "qwf h (L(q \<mapsto> []))"
  by (rule qwfI) (use assms qwf_distinct[OF wf] qwf_links[OF wf] qwf_dom[OF wf]
      qwf_disjoint[OF wf] qwf_fresh[OF wf] in \<open>auto simp: loose_def split: if_splits\<close>)

lemma qwf_relinked_frame:
  assumes wf: "qwf h L" and n: "loose L n" and dm: "dom (qcells h') = dom (qcells h)"
    and al: "qalloc h' = qalloc h"
    and nx: "get_next h' = (get_next h)(n := a)" and pv: "get_prev h' = (get_prev h)(n := b)"
  shows "qwf h' L"
proof (rule qwfI)
  fix q xs assume L: "L q = Some xs"
  then have nq: "n \<notin> set (q # xs @ [q])" using n by (auto simp: loose_def)
  then have "links (get_next h) (get_prev h) (q # xs @ [q]) = links (get_next h') (get_prev h') (q # xs @ [q])"
    unfolding nx pv by (intro links_cong) (auto dest: in_set_butlastD)
  then show "links (get_next h') (get_prev h') (q # xs @ [q])" using qwf_links[OF wf L] by simp
qed (use qwf_distinct[OF wf] qwf_dom[OF wf] qwf_disjoint[OF wf] qwf_fresh[OF wf] dm al in auto)

lemma qwf_init:
  assumes wf: "qwf h L"
  shows "\<exists>r h'. queue_init h = Some (r, h') \<and>
    (case r of None \<Rightarrow> qwf h' L
     | Some q \<Rightarrow> loose L q \<and> L q = None \<and> qwf h' (L(q \<mapsto> [])) \<and> get_data h' = (get_data h)(q := None))"
proof -
  obtain r h1 where al: "alloc_init_node h None = (r, h1)" by fastforce
  note a = qwf_alloc[OF wf al]
  show ?thesis
  proof (cases r)
    case None
    then show ?thesis using al a by (simp add: queue_init_def)
  next
    case (Some q)
    then have q: "q \<in> dom (qcells h1)" "loose L q" "get_data h1 = (get_data h)(q := None)" using a(2) by auto
    then have Lq: "L q = None" by (cases "L q") (auto simp: loose_def)
    obtain h2 where h2: "set_next h1 q q = Some h2" "get_next h2 = (get_next h1)(q := Some q)"
      "get_prev h2 = get_prev h1" "get_data h2 = get_data h1" "dom (qcells h2) = dom (qcells h1)" "qalloc h2 = qalloc h1"
      using q(1) by (rule set_next_Some)
    obtain h3 where h3: "set_prev h2 q q = Some h3" "get_prev h3 = (get_prev h2)(q := Some q)"
      "get_next h3 = get_next h2" "get_data h3 = get_data h2" "dom (qcells h3) = dom (qcells h2)" "qalloc h3 = qalloc h2"
      using q(1) h2(5) by (metis set_prev_Some)
    have "qwf h3 L" by (rule qwf_relinked_frame[OF a(1) q(2)]) (use h2 h3 in auto)
    then have "qwf h3 (L(q \<mapsto> []))" using q Lq h2 h3 by (intro qwf_add_queue) auto
    then show ?thesis using Some al h2 h3 q Lq by (simp add: queue_init_def)
  qed
qed

subsection \<open>The interface of the queues\<close>

locale queue_store =
  fixes wf :: "'h \<Rightarrow> (addr \<rightharpoonup> addr list) \<Rightarrow> bool"
    and data :: "'h \<Rightarrow> addr \<Rightarrow> addr option"
    and enq :: "'h \<Rightarrow> addr \<Rightarrow> addr option \<Rightarrow> (addr option \<times> 'h) option"
    and deq :: "'h \<Rightarrow> addr option \<Rightarrow> (addr option \<times> 'h) option"
    and rem :: "'h \<Rightarrow> addr option \<Rightarrow> (addr option \<times> 'h) option"
    and mov :: "'h \<Rightarrow> addr option \<Rightarrow> addr option \<Rightarrow> addr option \<Rightarrow> (addr option \<times> 'h) option"
  assumes enq_law: "wf h L \<Longrightarrow> L q = Some xs \<Longrightarrow>
      \<exists>r h'. enq h q d = Some (r, h') \<and>
        (case r of None \<Rightarrow> wf h' L \<and> data h' = data h
         | Some n \<Rightarrow> loose L n \<and> wf h' (L(q \<mapsto> xs @ [n])) \<and> data h' = (data h)(n := d))"
    and rem_law: "wf h L \<Longrightarrow> L q = Some (xs @ n # ys) \<Longrightarrow>
      \<exists>h'. rem h (Some n) = Some (data h n, h') \<and> wf h' (L(q \<mapsto> xs @ ys)) \<and>
        data h' = (data h)(n := None)"
    and deq_Nil: "wf h L \<Longrightarrow> L q = Some [] \<Longrightarrow> deq h (Some q) = Some (None, h)"
    and deq_Cons: "wf h L \<Longrightarrow> L q = Some (n # xs) \<Longrightarrow> deq h (Some q) = rem h (Some n)"
    and mov_law: "wf h L \<Longrightarrow> L f = Some (xs @ n # ys) \<Longrightarrow> (L(f \<mapsto> xs @ ys)) t = Some zs \<Longrightarrow>
      \<exists>h'. mov h (Some f) (Some t) (Some n) = Some (Some n, h') \<and>
        wf h' (L(f \<mapsto> xs @ ys, t \<mapsto> zs @ [n])) \<and> data h' = data h"
    and wf_distinct: "wf h L \<Longrightarrow> L q = Some xs \<Longrightarrow> distinct (q # xs)"
begin

text \<open>\<open>elems\<close> is what a client sees of a queue: its elements from head to tail.\<close>

definition elems :: "'h \<Rightarrow> addr list \<Rightarrow> addr option list" where
  "elems h xs = map (data h) xs"

lemma enq_elems:
  assumes "wf h L" "L q = Some xs" "enq h q d = Some (Some n, h')"
  shows "wf h' (L(q \<mapsto> xs @ [n]))" "elems h' (xs @ [n]) = elems h xs @ [d]" "n \<notin> set (q # xs)"
proof -
  from enq_law[OF assms(1,2), of d] assms(3)
  have e: "loose L n" "wf h' (L(q \<mapsto> xs @ [n]))" "data h' = (data h)(n := d)" by auto
  then show "wf h' (L(q \<mapsto> xs @ [n]))" "n \<notin> set (q # xs)" using assms(2) by (auto simp: loose_def)
  with e show "elems h' (xs @ [n]) = elems h xs @ [d]" by (auto simp: elems_def)
qed

lemma deq_elems:
  assumes "wf h L" "L q = Some (n # xs)"
  obtains h' where "deq h (Some q) = Some (data h n, h')" "wf h' (L(q \<mapsto> xs))"
    "elems h' xs = elems h xs"
proof -
  from rem_law[OF assms(1), of q "[]" n xs] assms deq_Cons[OF assms]
  obtain h' where h': "deq h (Some q) = Some (data h n, h')" "wf h' (L(q \<mapsto> xs))"
    "data h' = (data h)(n := None)" by auto
  moreover have "n \<notin> set xs" using wf_distinct[OF assms] by auto
  ultimately show ?thesis using that by (auto simp: elems_def)
qed

text \<open>A node that is queued and taken out again leaves every queue as it was.\<close>

lemma enq_rem:
  assumes "wf h L" "L q = Some xs" "enq h q d = Some (Some n, h')"
  obtains h'' where "rem h' (Some n) = Some (d, h'')" "wf h'' L" "elems h'' xs = elems h xs"
proof -
  from enq_law[OF assms(1,2), of d] assms(3)
  have e: "loose L n" "wf h' (L(q \<mapsto> xs @ [n]))" "data h' = (data h)(n := d)" by auto
  obtain h'' where h'': "rem h' (Some n) = Some (data h' n, h'')" "wf h'' (L(q \<mapsto> xs @ [n], q \<mapsto> xs @ []))"
    "data h'' = (data h')(n := None)"
    using rem_law[OF e(2), of q xs n "[]"] by auto
  moreover have "L(q \<mapsto> xs @ [n], q \<mapsto> xs @ []) = L" using assms(2) by (auto simp: fun_eq_iff)
  moreover have "n \<notin> set xs" using e(1) assms(2) by (auto simp: loose_def)
  ultimately show ?thesis using that e by (auto simp: elems_def)
qed

end

interpretation qs: queue_store qwf get_data enqueue dequeue queue_remove queue_move_to_tail_of
  by (unfold_locales;
      (rule qwf_enqueue qwf_remove qwf_dequeue_Nil dequeue_head qwf_move qwf_distinct; assumption+))

subsection \<open>Draining and destroying a queue\<close>

lemma queue_drain_qwf:
  assumes "qwf h L" "L q = Some xs" "\<forall>n \<in> set xs. get_data h n \<noteq> None"
  shows "\<exists>h'. queue_drain h q = Some (map (the \<circ> get_data h) xs, h') \<and> qwf h' (L(q \<mapsto> []))"
  using assms
proof (induction xs arbitrary: h L)
  case Nil
  then show ?case
    using qwf_dequeue_Nil[of h L q] queue_drain.simps[of h q] by (auto simp: fun_upd_idem)
next
  case (Cons n xs)
  obtain h1 where h1: "dequeue h (Some q) = Some (get_data h n, h1)" "qwf h1 (L(q \<mapsto> xs))"
    "qs.elems h1 xs = qs.elems h xs"
    using qs.deq_elems[OF Cons.prems(1,2)] by blast
  then have d: "\<And>m. m \<in> set xs \<Longrightarrow> get_data h1 m = get_data h m" by (simp add: qs.elems_def)
  have "\<exists>h2. queue_drain h1 q = Some (map (the \<circ> get_data h1) xs, h2) \<and> qwf h2 (L(q \<mapsto> xs, q \<mapsto> []))"
    by (rule Cons.IH[OF h1(2)]) (use d Cons.prems(3) in simp_all)
  then obtain h2 where "queue_drain h1 q = Some (map (the \<circ> get_data h1) xs, h2)" "qwf h2 (L(q \<mapsto> []))"
    by auto
  moreover have "map (the \<circ> get_data h1) xs = map (the \<circ> get_data h) xs" using d by simp
  ultimately have "queue_drain h q = Some (map (the \<circ> get_data h) (n # xs), h2)"
    using h1(1) Cons.prems(3) queue_drain.simps[of h q] by auto
  with \<open>qwf h2 (L(q \<mapsto> []))\<close> show ?case by blast
qed

lemma qwf_drop_queue:
  assumes wf: "qwf h L" and L: "L q = Some []"
  shows "qwf h (L(q := None))" "loose (L(q := None)) q"
proof -
  show "qwf h (L(q := None))"
    by (rule qwfI) (use qwf_distinct[OF wf] qwf_links[OF wf] qwf_dom[OF wf]
      qwf_disjoint[OF wf] qwf_fresh[OF wf] in \<open>auto split: if_splits\<close>)
  show "loose (L(q := None)) q"
    using qwf_disjoint[OF wf L] by (auto simp: loose_def split: if_splits)
qed

subsection \<open>Insertion at the head\<close>

lemma qwf_prequeue:
  assumes wf: "qwf h L" and L: "L q = Some xs"
  shows "\<exists>r h'. prequeue h q d = Some (r, h') \<and>
    (case r of None \<Rightarrow> qwf h' L \<and> get_data h' = get_data h
     | Some n \<Rightarrow> loose L n \<and> qwf h' (L(q \<mapsto> n # xs)) \<and> get_data h' = (get_data h)(n := d))"
proof -
  obtain r h1 where al: "alloc_init_node h d = (r, h1)" by fastforce
  note a = qwf_alloc[OF wf al]
  show ?thesis
  proof (cases r)
    case None
    then show ?thesis using al a by (simp add: prequeue_def)
  next
    case (Some n)
    then have n: "n \<in> dom (qcells h1)" "loose L n" "get_data h1 = (get_data h)(n := d)" using a(2) by auto
    let ?x = "hd (xs @ [q])" and ?vs = "tl (xs @ [q])"
    have vs: "?x # ?vs = xs @ [q]" by (cases xs) auto
    have nq: "n \<notin> set (q # xs)" using n(2) L by (auto simp: loose_def)
    have xin: "?x \<in> set (q # xs)" by (cases xs) auto
    have dm: "set (q # xs) \<subseteq> dom (qcells h1)" using qwf_dom[OF a(1) L] .
    have d: "distinct (q # xs)" using qwf_distinct[OF a(1) L] .
    have x: "get_next h1 q = Some ?x" using qwf_tail(2)[OF a(1) L] .
    obtain h2 where h2: "set_prev h1 ?x n = Some h2" "get_prev h2 = (get_prev h1)(?x := Some n)"
      "get_next h2 = get_next h1" "get_data h2 = get_data h1" "dom (qcells h2) = dom (qcells h1)" "qalloc h2 = qalloc h1"
      using xin dm by (metis set_prev_Some subsetD)
    obtain h3 where h3: "set_next h2 n ?x = Some h3" "get_next h3 = (get_next h2)(n := Some ?x)"
      "get_prev h3 = get_prev h2" "get_data h3 = get_data h2" "dom (qcells h3) = dom (qcells h2)" "qalloc h3 = qalloc h2"
      using n(1) h2(5) by (metis set_next_Some)
    obtain h4 where h4: "set_prev h3 n q = Some h4" "get_prev h4 = (get_prev h3)(n := Some q)"
      "get_next h4 = get_next h3" "get_data h4 = get_data h3" "dom (qcells h4) = dom (qcells h3)" "qalloc h4 = qalloc h3"
      using n(1) h2(5) h3(5) by (metis set_prev_Some)
    obtain h5 where h5: "set_next h4 q n = Some h5" "get_next h5 = (get_next h4)(q := Some n)"
      "get_prev h5 = get_prev h4" "get_data h5 = get_data h4" "dom (qcells h5) = dom (qcells h4)" "qalloc h5 = qalloc h4"
      using dm h2(5) h3(5) h4(5) by (metis set_next_Some subsetD list.set_intros(1))
    have nx: "get_next h5 = (get_next h1)(q := Some n, n := Some ?x)"
      and pv: "get_prev h5 = (get_prev h1)(n := Some q, ?x := Some n)"
      using h2 h3 h4 h5 nq xin by (auto simp: fun_upd_twist)
    have "links (get_next h1) (get_prev h1) ([] @ q # ?x # ?vs)"
      using qwf_links[OF a(1) L] vs by simp
    moreover have "n \<notin> set ([] @ q # ?x # ?vs)" using nq vs by simp
    moreover have "?x \<notin> set ?vs" "q \<notin> set (butlast (?x # ?vs))" using d vs by (cases xs; auto)+
    ultimately have "links (get_next h5) (get_prev h5) ([] @ q # n # ?x # ?vs)"
      unfolding nx pv by (intro links_put) simp_all
    then have "links (get_next h5) (get_prev h5) (q # (n # xs) @ [q])" using vs by simp
    then have "qwf h5 (L(q \<mapsto> n # xs))"
      by (rule qwf_update[OF a(1) L, where N = "{n}"])
         (use d nx pv xin nq n h2 h3 h4 h5 qwf_fresh[OF a(1)] in \<open>auto simp: loose_def\<close>)
    then show ?thesis using Some al n x h2 h3 h4 h5 nq by (simp add: prequeue_def)
  qed
qed

subsection \<open>Properties\<close>


definition sample_heap :: qheap where
  "sample_heap = \<lparr>qcells = [0 \<mapsto> \<lparr>qprev = Some 2, qnext = Some 1, qdata = None\<rparr>,
                            1 \<mapsto> \<lparr>qprev = Some 0, qnext = Some 2, qdata = Some 70\<rparr>,
                            2 \<mapsto> \<lparr>qprev = Some 1, qnext = Some 0, qdata = Some 71\<rparr>],
                  qalloc = \<lparr>al_next = 3, al_ok = (\<lambda>_. True)\<rparr>\<rparr>"

lemma sample_heap_qwf: "qwf sample_heap [0 \<mapsto> [1, 2]]"
  by (auto simp: qwf_def sample_heap_def get_next_def get_prev_def split: if_splits)


text \<open>
  \<open>queue_destroy\<close> of a queue whose elements are not \<open>NULL\<close> returns, hands every element
  to the callback once, in FIFO order, and frees the queue, while every other queue of the
  heap stays well-formed.
\<close>

theorem queue_destroy_fifo:
  assumes "qwf h L" "L q = Some xs" "\<forall>n \<in> set xs. get_data h n \<noteq> None"
  shows "\<exists>h'. queue_destroy h q = Some (map (the \<circ> get_data h) xs, h') \<and> qwf h' (L(q := None))"
proof -
  obtain h1 where h1: "queue_drain h q = Some (map (the \<circ> get_data h) xs, h1)" "qwf h1 (L(q \<mapsto> []))"
    using queue_drain_qwf[OF assms] by blast
  have "qwf h1 (L(q := None))" "loose (L(q := None)) q" "q \<in> dom (qcells h1)"
    using qwf_drop_queue[OF h1(2), of q] qwf_dom[OF h1(2), of q "[]"] by auto
  then obtain h2 where "qfree h1 q = Some h2" "qwf h2 (L(q := None))"
    using qwf_free by metis
  then show ?thesis using h1 by (simp add: queue_destroy_def)
qed

theorem queue_destroy_fifo_witness:
  "\<exists>h'. queue_destroy sample_heap 0 = Some ([70, 71], h') \<and> qwf h' ([0 \<mapsto> [1, 2]](0 := None))"
proof -
  have "\<forall>n \<in> set [1, 2]. get_data sample_heap n \<noteq> None"
    by (simp add: sample_heap_def get_data_def)
  from queue_destroy_fifo[OF sample_heap_qwf _ this, of 0] show ?thesis
    by (simp add: sample_heap_def get_data_def)
qed

end
