(* ===== verification/Hash.thy ===== *)
theory Hash
  imports Netatalk_Prelude "HOL-Library.Multiset"
begin

text \<open>
  The chained, dynamically resized hash table of \<open>etc/afpd/hash.c\<close>. A chain of nodes
  linked by \<open>hash_next\<close> is the list of its nodes from the head; a node carries its own
  address, and a stored node pointer is followed through \<open>hnode_at\<close>, which fails on a
  pointer to no node of the table. The function pointers \<open>hash->function\<close> and
  \<open>hash->compare\<close>, which read their keys through memory, are arguments \<open>hf\<close> and \<open>eq\<close>
  (\<open>compare(a, b) == 0\<close>) of the operations, so that a caller passes what they compute on
  the current memory. A failed \<open>assert\<close> is \<open>None\<close>. \<open>realloc\<close> and the node allocator draw
  on the allocation oracle of the table.

  The lemmas show that resizing keeps every node findable, that insertion and deletion
  refine the update of a finite map, that a scan visits every node exactly once even while
  it deletes the nodes it was given, and that the invariant checked by \<open>hash_verify\<close> holds
  after every operation.
\<close>

subsection \<open>Nodes, tables, scanners\<close>

record ('k, 'd) hnode_t =
  hn_addr :: addr
  hash_key :: 'k
  hash_data :: 'd
  hash_hkey :: "32 word"

record ('k, 'd) hash_t =
  hash_table :: "('k, 'd) hnode_t list list"
  hash_nchains :: nat
  hash_nodecount :: nat
  hash_maxcount :: nat
  hash_highmark :: nat
  hash_lowmark :: nat
  hash_mask :: "32 word"
  hash_dynamic :: bool
  hash_allocator :: allocator

record hscan_t =
  hs_chain :: nat
  hs_next :: "addr option"

type_synonym ('k, 'd) htab = "('k, 'd) hash_t"

definition INIT_BITS :: nat where "INIT_BITS = 10"
definition INIT_SIZE :: nat where "INIT_SIZE = 2 ^ INIT_BITS"
definition INIT_MASK :: "32 word" where "INIT_MASK = of_nat INIT_SIZE - 1"

subsection \<open>Bits\<close>

function count_bits :: "32 word \<Rightarrow> nat \<Rightarrow> nat" where
  "count_bits val bits = (if val \<noteq> 0 then count_bits (drop_bit 1 val) (Suc bits) else bits)"
  by pat_completeness auto
termination
  by (relation "measure (\<lambda>(val, _). unat val)")
     (auto simp: unat_shift_right_less)

definition compute_bits :: nat where
  "compute_bits = count_bits 0xFFFFFFFF 0"

text \<open>The loop of \<open>is_power_of_two\<close> runs on a nonzero value only.\<close>

function shift_to_odd :: "32 word \<Rightarrow> 32 word" where
  "shift_to_odd arg = (if arg \<noteq> 0 \<and> arg AND 1 = 0 then shift_to_odd (drop_bit 1 arg) else arg)"
  by pat_completeness auto
termination
  by (relation "measure unat")
     (auto simp: unat_shift_right_less)

definition is_power_of_two :: "32 word \<Rightarrow> bool" where
  "is_power_of_two arg = (if arg = 0 then False else shift_to_odd arg = 1)"

declare count_bits.simps [simp del] shift_to_odd.simps [simp del]

subsection \<open>Creation and resizing\<close>

definition clear_table :: "('k, 'd) htab \<Rightarrow> ('k, 'd) htab" where
  "clear_table h = h\<lparr>hash_table := replicate (hash_nchains h) []\<rparr>"

definition hash_create :: "nat \<Rightarrow> allocator \<Rightarrow> ('k, 'd) htab option" where
  "hash_create maxcount al =
     (case malloc al of
        (None, al) \<Rightarrow> None
      | (Some _, al) \<Rightarrow>
         (case malloc al of
            (None, al) \<Rightarrow> None
          | (Some _, al) \<Rightarrow>
              Some (clear_table
                \<lparr>hash_table = [], hash_nchains = INIT_SIZE, hash_nodecount = 0,
                 hash_maxcount = maxcount, hash_highmark = INIT_SIZE * 2,
                 hash_lowmark = INIT_SIZE div 2, hash_mask = INIT_MASK, hash_dynamic = True,
                 hash_allocator = al\<rparr>)))"

text \<open>One pass of the inner loop of \<open>grow_table\<close>: each node moves to the head of a side.\<close>

fun split_chain ::
  "32 word \<Rightarrow> ('k, 'd) hnode_t list \<Rightarrow> ('k, 'd) hnode_t list \<Rightarrow> ('k, 'd) hnode_t list \<Rightarrow>
   ('k, 'd) hnode_t list \<times> ('k, 'd) hnode_t list" where
  "split_chain exposed_bit [] low_chain high_chain = (low_chain, high_chain)"
| "split_chain exposed_bit (hptr # rest) low_chain high_chain =
     (if hash_hkey hptr AND exposed_bit \<noteq> 0
      then split_chain exposed_bit rest low_chain (hptr # high_chain)
      else split_chain exposed_bit rest (hptr # low_chain) high_chain)"

definition grow_table :: "('k, 'd) htab \<Rightarrow> ('k, 'd) htab option" where
  "grow_table h =
     (if \<not> (2 * hash_nchains h) mod 2 ^ 64 > hash_nchains h then None
      else case malloc (hash_allocator h) of
        (None, al) \<Rightarrow> Some (h\<lparr>hash_allocator := al\<rparr>)
      | (Some _, al) \<Rightarrow>
          let mask = (push_bit 1 (hash_mask h)) OR 1;
              exposed_bit = mask XOR hash_mask h;
              halves = map (\<lambda>chain. split_chain exposed_bit chain [] []) (hash_table h)
          in if mask = hash_mask h then None
             else Some (h\<lparr>hash_allocator := al,
                          hash_table := map fst halves @ map snd halves,
                          hash_mask := mask,
                          hash_nchains := hash_nchains h * 2,
                          hash_lowmark := hash_lowmark h * 2,
                          hash_highmark := hash_highmark h * 2\<rparr>))"

definition join_chains ::
  "('k, 'd) hnode_t list \<Rightarrow> ('k, 'd) hnode_t list \<Rightarrow> ('k, 'd) hnode_t list" where
  "join_chains low_chain high_chain =
     (if low_chain \<noteq> [] then low_chain @ high_chain
      else if high_chain \<noteq> [] then high_chain
      else [])"

definition shrink_table :: "('k, 'd) htab \<Rightarrow> ('k, 'd) htab option" where
  "shrink_table h =
     (if \<not> hash_nchains h \<ge> 2 then None
      else let nchains = hash_nchains h div 2;
               (_, al) = malloc (hash_allocator h)
           in Some (h\<lparr>hash_table := map2 join_chains (take nchains (hash_table h)) (drop nchains (hash_table h)),
                      hash_allocator := al,
                      hash_mask := drop_bit 1 (hash_mask h),
                      hash_nchains := nchains,
                      hash_lowmark := hash_lowmark h div 2,
                      hash_highmark := hash_highmark h div 2\<rparr>))"

subsection \<open>Lookup, insertion, deletion\<close>

definition chain_of :: "('k, 'd) htab \<Rightarrow> 32 word \<Rightarrow> nat" where
  "chain_of h hkey = unat (hkey AND hash_mask h)"

text \<open>The head of one chain; an index out of range has no chain (\<open>hash_chain_head\<close>).\<close>

definition hash_chain_head :: "('k, 'd) htab \<Rightarrow> nat \<Rightarrow> ('k, 'd) hnode_t list" where
  "hash_chain_head h chain = (if chain < length (hash_table h) then hash_table h ! chain else [])"

definition hash_lookup ::
  "('k \<Rightarrow> 32 word) \<Rightarrow> ('k \<Rightarrow> 'k \<Rightarrow> bool) \<Rightarrow> ('k, 'd) htab \<Rightarrow> 'k \<Rightarrow> ('k, 'd) hnode_t option" where
  "hash_lookup hf eq h key =
     (let hkey = hf key
      in find (\<lambda>n. hash_hkey n = hkey \<and> eq (hash_key n) key) (hash_chain_head h (chain_of h hkey)))"

definition hash_insert ::
  "('k \<Rightarrow> 32 word) \<Rightarrow> ('k \<Rightarrow> 'k \<Rightarrow> bool) \<Rightarrow> ('k, 'd) htab \<Rightarrow> addr \<Rightarrow> 'd \<Rightarrow> 'k \<Rightarrow> ('k, 'd) htab option" where
  "hash_insert hf eq h node data key =
     (if \<not> hash_nodecount h < hash_maxcount h then None
      else if hash_lookup hf eq h key \<noteq> None then None
      else do {
        h \<leftarrow> (if hash_dynamic h \<and> hash_nodecount h \<ge> hash_highmark h then grow_table h else Some h);
        let hkey = hf key;
        let chain = chain_of h hkey;
        let n = \<lparr>hn_addr = node, hash_key = key, hash_data = data, hash_hkey = hkey\<rparr>;
        Some (h\<lparr>hash_table := (hash_table h)[chain := n # hash_chain_head h chain],
                hash_nodecount := hash_nodecount h + 1\<rparr>)
      })"

definition hash_alloc_insert_node ::
  "('k \<Rightarrow> 32 word) \<Rightarrow> ('k \<Rightarrow> 'k \<Rightarrow> bool) \<Rightarrow> ('k, 'd) htab \<Rightarrow> 'k \<Rightarrow> 'd \<Rightarrow>
   (addr option \<times> ('k, 'd) htab) option" where
  "hash_alloc_insert_node hf eq h key data =
     (case malloc (hash_allocator h) of
        (None, al) \<Rightarrow> Some (None, h\<lparr>hash_allocator := al\<rparr>)
      | (Some node, al) \<Rightarrow> do {
          h \<leftarrow> hash_insert hf eq (h\<lparr>hash_allocator := al\<rparr>) node data key;
          Some (Some node, h)
        })"

definition hash_alloc_insert ::
  "('k \<Rightarrow> 32 word) \<Rightarrow> ('k \<Rightarrow> 'k \<Rightarrow> bool) \<Rightarrow> ('k, 'd) htab \<Rightarrow> 'k \<Rightarrow> 'd \<Rightarrow>
   (bool \<times> ('k, 'd) htab) option" where
  "hash_alloc_insert hf eq h key data =
     map_option (\<lambda>(n, h). (n \<noteq> None, h)) (hash_alloc_insert_node hf eq h key data)"

text \<open>Following a node pointer: the node of the table at that address.\<close>

definition hnode_at :: "('k, 'd) htab \<Rightarrow> addr \<Rightarrow> ('k, 'd) hnode_t option" where
  "hnode_at h a = find (\<lambda>n. hn_addr n = a) (concat (hash_table h))"

definition hnode_get :: "('k, 'd) htab \<Rightarrow> addr \<Rightarrow> 'd option" where
  "hnode_get h a = map_option hash_data (hnode_at h a)"

text \<open>Walking a chain to the predecessor of the node; the end of the chain is a crash.\<close>

fun unlink_chain :: "addr \<Rightarrow> ('k, 'd) hnode_t list \<Rightarrow> ('k, 'd) hnode_t list option" where
  "unlink_chain node [] = None"
| "unlink_chain node (hptr # rest) =
     (if hn_addr hptr = node then Some rest else map_option (Cons hptr) (unlink_chain node rest))"

definition hash_scan_delete ::
  "('k \<Rightarrow> 32 word) \<Rightarrow> ('k \<Rightarrow> 'k \<Rightarrow> bool) \<Rightarrow> ('k, 'd) htab \<Rightarrow> addr \<Rightarrow> ('k, 'd) htab option" where
  "hash_scan_delete hf eq h node = do {
     n \<leftarrow> hnode_at h node;
     if map_option hn_addr (hash_lookup hf eq h (hash_key n)) \<noteq> Some node then None
     else do {
       let chain = chain_of h (hash_hkey n);
       ns \<leftarrow> unlink_chain node (hash_chain_head h chain);
       Some (h\<lparr>hash_table := (hash_table h)[chain := ns], hash_nodecount := hash_nodecount h - 1\<rparr>)
     }
   }"

definition hash_delete ::
  "('k \<Rightarrow> 32 word) \<Rightarrow> ('k \<Rightarrow> 'k \<Rightarrow> bool) \<Rightarrow> ('k, 'd) htab \<Rightarrow> addr \<Rightarrow> ('k, 'd) htab option" where
  "hash_delete hf eq h node = do {
     n \<leftarrow> hnode_at h node;
     if map_option hn_addr (hash_lookup hf eq h (hash_key n)) \<noteq> Some node then None
     else do {
       h \<leftarrow> (if hash_dynamic h \<and> hash_nodecount h \<le> hash_lowmark h \<and> hash_nodecount h > INIT_SIZE
            then shrink_table h else Some h);
       let chain = chain_of h (hash_hkey n);
       ns \<leftarrow> unlink_chain node (hash_chain_head h chain);
       Some (h\<lparr>hash_table := (hash_table h)[chain := ns], hash_nodecount := hash_nodecount h - 1\<rparr>)
     }
   }"

text \<open>
  The freeing variants: the node is unlinked first, so freeing it leaves the table as it is.
\<close>

definition hash_delete_free ::
  "('k \<Rightarrow> 32 word) \<Rightarrow> ('k \<Rightarrow> 'k \<Rightarrow> bool) \<Rightarrow> ('k, 'd) htab \<Rightarrow> addr \<Rightarrow> ('k, 'd) htab option" where
  [simp]: "hash_delete_free hf eq h node = hash_delete hf eq h node"

definition hash_scan_delfree ::
  "('k \<Rightarrow> 32 word) \<Rightarrow> ('k \<Rightarrow> 'k \<Rightarrow> bool) \<Rightarrow> ('k, 'd) htab \<Rightarrow> addr \<Rightarrow> ('k, 'd) htab option" where
  [simp]: "hash_scan_delfree hf eq h node = hash_scan_delete hf eq h node"

subsection \<open>Scans\<close>

text \<open>The first chain from index \<open>chain\<close> on that has a node.\<close>

fun next_chain :: "('k, 'd) hnode_t list list \<Rightarrow> nat \<Rightarrow> (nat \<times> addr) option" where
  "next_chain [] chain = None"
| "next_chain ([] # cs) chain = next_chain cs (Suc chain)"
| "next_chain ((n # _) # cs) chain = Some (chain, hn_addr n)"

definition hash_scan_begin :: "('k, 'd) htab \<Rightarrow> hscan_t" where
  "hash_scan_begin h =
     (case next_chain (hash_table h) 0 of
        Some (chain, a) \<Rightarrow> \<lparr>hs_chain = chain, hs_next = Some a\<rparr>
      | None \<Rightarrow> \<lparr>hs_chain = 0, hs_next = None\<rparr>)"

text \<open>\<open>next->next\<close> of a node, in the chain the scan stands on.\<close>

fun node_after :: "addr \<Rightarrow> ('k, 'd) hnode_t list \<Rightarrow> (('k, 'd) hnode_t \<times> addr option) option" where
  "node_after a [] = None"
| "node_after a (n # ns) =
     (if hn_addr n = a then Some (n, case ns of [] \<Rightarrow> None | m # _ \<Rightarrow> Some (hn_addr m))
      else node_after a ns)"

definition hash_scan_next ::
  "('k, 'd) htab \<Rightarrow> hscan_t \<Rightarrow> (('k, 'd) hnode_t option \<times> hscan_t) option" where
  "hash_scan_next h scan =
     (case hs_next scan of
        None \<Rightarrow> Some (None, scan)
      | Some a \<Rightarrow> do {
          (n, nxt) \<leftarrow> node_after a (hash_chain_head h (hs_chain scan));
          case nxt of
            Some b \<Rightarrow> Some (Some n, scan\<lparr>hs_next := Some b\<rparr>)
          | None \<Rightarrow>
             (case next_chain (drop (hs_chain scan + 1) (hash_table h)) (hs_chain scan + 1) of
                Some (chain, b) \<Rightarrow> Some (Some n, scan\<lparr>hs_chain := chain, hs_next := Some b\<rparr>)
              | None \<Rightarrow> Some (Some n, scan\<lparr>hs_next := None\<rparr>))
        })"

text \<open>
  \<open>hash_free_nodes\<close>: every node the scan returns is unlinked and freed; the result lists
  the freed nodes in order.
\<close>

partial_function (option) free_nodes_loop ::
  "('k \<Rightarrow> 32 word) \<Rightarrow> ('k \<Rightarrow> 'k \<Rightarrow> bool) \<Rightarrow> ('k, 'd) htab \<Rightarrow> hscan_t \<Rightarrow>
   (('k, 'd) hnode_t list \<times> ('k, 'd) htab) option" where
  "free_nodes_loop hf eq h scan =
     Option.bind (hash_scan_next h scan) (\<lambda>(node, scan).
       case node of
         None \<Rightarrow> Some ([], h)
       | Some n \<Rightarrow>
           Option.bind (hash_scan_delete hf eq h (hn_addr n)) (\<lambda>h.
             Option.bind (free_nodes_loop hf eq h scan) (\<lambda>(ns, h). Some (n # ns, h))))"

definition hash_free_nodes ::
  "('k \<Rightarrow> 32 word) \<Rightarrow> ('k \<Rightarrow> 'k \<Rightarrow> bool) \<Rightarrow> ('k, 'd) htab \<Rightarrow>
   (('k, 'd) hnode_t list \<times> ('k, 'd) htab) option" where
  "hash_free_nodes hf eq h = do {
     (ns, h) \<leftarrow> free_nodes_loop hf eq h (hash_scan_begin h);
     Some (ns, clear_table (h\<lparr>hash_nodecount := 0\<rparr>))
   }"

subsection \<open>The default functions\<close>

text \<open>
  Keys of the defaults are C strings: the bytes before the terminating NUL. The mixing table
  is \<open>unsigned long\<close>, but all its entries and the accumulator fit 32 bits.
\<close>

definition randbox :: "32 word list" where
  "randbox =
     [0x49848f1b, 0xe6255dba, 0x36da5bdc, 0x47bf94e9,
      0x8cbcce22, 0x559fc06a, 0xd268f536, 0xe10af79a,
      0xc1af4d69, 0x1d2917b5, 0xec4c304d, 0x9ee5016c,
      0x69232f74, 0xfead7bb3, 0xe9089ab6, 0xf012f6ae]"

definition hash_mix :: "32 word \<Rightarrow> 8 word \<Rightarrow> 32 word" where
  "hash_mix acc c =
     (let acc = acc XOR (randbox ! unat ((ucast c + acc) AND 0xf));
          acc = (push_bit 1 acc) OR (drop_bit 31 acc);
          acc = acc XOR (randbox ! unat ((drop_bit 4 (ucast c) + acc) AND 0xf))
      in (push_bit 2 acc) OR (drop_bit 30 acc))"

definition hash_fun_default :: "bytes \<Rightarrow> 32 word" where
  "hash_fun_default str = foldl hash_mix 0 str"

definition hash_comp_default :: "bytes \<Rightarrow> bytes \<Rightarrow> bool" where
  "hash_comp_default key1 key2 = (key1 = key2)"

subsection \<open>The run-time check of the invariant\<close>

definition hash_isempty :: "('k, 'd) htab \<Rightarrow> bool" where
  "hash_isempty h = (hash_nodecount h = 0)"

fun verify_chains :: "32 word \<Rightarrow> nat \<Rightarrow> ('k, 'd) hnode_t list list \<Rightarrow> nat \<Rightarrow> nat option" where
  "verify_chains m chain [] cnt = Some cnt"
| "verify_chains m chain (c # cs) cnt =
     (if \<exists>n \<in> set c. unat (hash_hkey n AND m) \<noteq> chain then None
      else verify_chains m (Suc chain) cs (cnt + length c))"

definition hash_verify :: "('k, 'd) htab \<Rightarrow> bool" where
  "hash_verify h =
     (if hash_dynamic h \<and> (hash_lowmark h \<ge> hash_highmark h
          \<or> \<not> is_power_of_two (of_nat (hash_highmark h))
          \<or> \<not> is_power_of_two (of_nat (hash_lowmark h))) then False
      else case verify_chains (hash_mask h) 0 (hash_table h) 0 of
        None \<Rightarrow> False
      | Some cnt \<Rightarrow> cnt = hash_nodecount h)"

subsection \<open>The invariant\<close>

definition nodes :: "('k, 'd) htab \<Rightarrow> ('k, 'd) hnode_t set" where
  "nodes h = set (concat (hash_table h))"

definition hash_shape :: "('k, 'd) htab \<Rightarrow> bool" where
  "hash_shape h \<longleftrightarrow>
     (\<exists>k. INIT_BITS \<le> k \<and> k \<le> 30 \<and> hash_nchains h = 2 ^ k \<and> hash_mask h = mask k) \<and>
     length (hash_table h) = hash_nchains h \<and>
     hash_highmark h = 2 * hash_nchains h \<and> 2 * hash_lowmark h = hash_nchains h \<and>
     hash_dynamic h \<and> hash_maxcount h \<le> 2 ^ 31"

definition hash_placed :: "('k, 'd) htab \<Rightarrow> bool" where
  "hash_placed h \<longleftrightarrow>
     (\<forall>i < length (hash_table h). \<forall>n \<in> set (hash_table h ! i). chain_of h (hash_hkey n) = i)"

definition hash_inv :: "('k \<Rightarrow> 32 word) \<Rightarrow> ('k \<Rightarrow> 'k \<Rightarrow> bool) \<Rightarrow> ('k, 'd) htab \<Rightarrow> bool" where
  "hash_inv hf eq h \<longleftrightarrow>
     hash_shape h \<and> hash_placed h \<and>
     (\<forall>n \<in> nodes h. hash_hkey n = hf (hash_key n) \<and> hn_addr n < al_next (hash_allocator h)) \<and>
     (\<forall>n \<in> nodes h. \<forall>m \<in> nodes h. eq (hash_key n) (hash_key m) \<longrightarrow> n = m) \<and>
     distinct (map hn_addr (concat (hash_table h))) \<and>
     hash_nodecount h = length (concat (hash_table h)) \<and>
     hash_nodecount h \<le> hash_maxcount h"

lemma chain_of_less:
  assumes "hash_shape h"
  shows "chain_of h hk < length (hash_table h)"
  using assms by (auto simp: hash_shape_def chain_of_def unat_and_mask_less)

lemma placed_chain:
  assumes "hash_placed h" "n \<in> nodes h"
  shows "chain_of h (hash_hkey n) < length (hash_table h)" "n \<in> set (hash_table h ! chain_of h (hash_hkey n))"
proof -
  from assms(2) obtain i where i: "i < length (hash_table h)" "n \<in> set (hash_table h ! i)"
    by (auto simp: nodes_def in_set_conv_nth) (metis nth_mem)
  then show "chain_of h (hash_hkey n) < length (hash_table h)" "n \<in> set (hash_table h ! chain_of h (hash_hkey n))"
    using assms(1) by (auto simp: hash_placed_def)
qed

lemma placed_nodes_at: "i < length (hash_table h) \<Longrightarrow> n \<in> set (hash_table h ! i) \<Longrightarrow> n \<in> nodes h"
  by (auto simp: nodes_def intro!: bexI[of _ "hash_table h ! i"])

lemma mset_concat_update:
  "i < length t \<Longrightarrow> mset (concat (t[i := c])) + mset (t ! i) = mset (concat t) + mset c"
proof (induction t arbitrary: i)
  case (Cons a t)
  then show ?case by (cases i) (auto simp: ac_simps)
qed simp

subsection \<open>Resizing\<close>

lemma mset_split_chain:
  "mset (fst (split_chain b c lo hi)) + mset (snd (split_chain b c lo hi)) = mset c + mset lo + mset hi"
  by (induction c arbitrary: lo hi) auto

lemma set_split_chain:
  "set (fst (split_chain b c lo hi)) = set lo \<union> {n \<in> set c. hash_hkey n AND b = 0}"
  "set (snd (split_chain b c lo hi)) = set hi \<union> {n \<in> set c. hash_hkey n AND b \<noteq> 0}"
  by (induction c arbitrary: lo hi) auto

lemma mset_split_table:
  "mset (concat (map fst (map (\<lambda>c. split_chain b c [] []) t) @ map snd (map (\<lambda>c. split_chain b c [] []) t)))
   = mset (concat t)"
proof (induction t)
  case (Cons c t)
  then show ?case using mset_split_chain[of b c "[]" "[]"] by (simp add: ac_simps)
qed simp

lemma mset_join_table:
  "length xs = length ys \<Longrightarrow> mset (concat (map2 join_chains xs ys)) = mset (concat xs) + mset (concat ys)"
  by (induction xs ys rule: list_induct2) (auto simp: join_chains_def ac_simps)

text \<open>Doubling and halving the table rearranges the nodes and keeps each in its chain.\<close>

lemma grow_table_keeps:
  assumes sh: "hash_shape h" and pl: "hash_placed h" and big: "hash_nchains h \<le> 2 ^ 29"
  obtains h' where "grow_table h = Some h'" "hash_shape h'" "hash_placed h'"
    "mset (concat (hash_table h')) = mset (concat (hash_table h))"
    "hash_nodecount h' = hash_nodecount h" "hash_maxcount h' = hash_maxcount h"
    "al_next (hash_allocator h) \<le> al_next (hash_allocator h')"
    "al_ok (hash_allocator h') = al_ok (hash_allocator h)"
proof -
  obtain k where k: "INIT_BITS \<le> k" "k \<le> 30" "hash_nchains h = 2 ^ k" "hash_mask h = mask k"
    and len: "length (hash_table h) = 2 ^ k"
    and marks: "hash_highmark h = 2 * 2 ^ k" "2 * hash_lowmark h = 2 ^ k" "hash_dynamic h" "hash_maxcount h \<le> 2 ^ 31"
    using sh by (auto simp: hash_shape_def)
  have k29: "k \<le> 29" using big unfolding k(3) by (rule power_le_imp_le_exp[rotated]) simp
  obtain m al where m: "malloc (hash_allocator h) = (m, al)" by fastforce
  note al = malloc_next[OF m] malloc_ok[OF m]
  have guard: "(2 * hash_nchains h) mod 2 ^ 64 > hash_nchains h"
  proof -
    have "2 * (2::nat) ^ k < 2 ^ 64" using big k(3) by simp
    then show ?thesis by (simp add: k)
  qed
  show ?thesis
  proof (cases m)
    case None
    then have "grow_table h = Some (h\<lparr>hash_allocator := al\<rparr>)"
      using m guard by (simp add: grow_table_def)
    then show ?thesis
      by (rule that) (use sh pl al in \<open>auto simp: hash_shape_def hash_placed_def chain_of_def\<close>)
  next
    case (Some _)
    let ?sp = "map (\<lambda>chain. split_chain (2 ^ k) chain [] []) (hash_table h)"
    let ?h = "h\<lparr>hash_allocator := al, hash_table := map fst ?sp @ map snd ?sp, hash_mask := mask (Suc k),
               hash_nchains := hash_nchains h * 2, hash_lowmark := hash_lowmark h * 2,
               hash_highmark := hash_highmark h * 2\<rparr>"
    have mk: "push_bit 1 (hash_mask h) OR 1 = mask (Suc k)" using k mask_Suc_word by simp
    have ex: "mask (Suc k) XOR hash_mask h = 2 ^ k" using k mask_exposed_bit[of k, where 'a = 32] by simp
    have neq: "mask (Suc k) \<noteq> hash_mask h"
    proof
      assume "mask (Suc k) = hash_mask h"
      then have "(2 :: 32 word) ^ k = 0" using ex by simp
      then show False using k(2) by simp
    qed
    have "grow_table h = Some ?h"
      using guard neq by (simp only: grow_table_def m Some mk ex Let_def if_False option.case prod.case not_not if_True if_not_P)
    moreover have "hash_shape ?h"
      unfolding hash_shape_def using k marks len k29 by (auto intro!: exI[of _ "Suc k"])
    moreover have "hash_placed ?h"
      unfolding hash_placed_def
    proof (intro allI impI ballI)
      fix i n assume i: "i < length (hash_table ?h)" and n: "n \<in> set (hash_table ?h ! i)"
      let ?j = "if i < 2 ^ k then i else i - 2 ^ k"
      have j: "?j < 2 ^ k" using i len by simp linarith
      have b: "bit (hash_hkey n) k \<longleftrightarrow> hash_hkey n AND 2 ^ k \<noteq> 0"
        using and_power_bit[of k "hash_hkey n"] k(2) by simp
      have nb: "n \<in> set (hash_table h ! ?j)" "bit (hash_hkey n) k \<longleftrightarrow> \<not> i < 2 ^ k"
        using n i j len b by (auto simp: nth_append set_split_chain split: if_splits)
      then have "unat (hash_hkey n AND mask k) = ?j"
        using pl j len k(4) by (auto simp: hash_placed_def chain_of_def)
      then show "chain_of ?h (hash_hkey n) = i"
        using unat_and_mask_Suc[of k "hash_hkey n"] nb(2) k(2) by (simp add: chain_of_def)
    qed
    moreover have "mset (concat (hash_table ?h)) = mset (concat (hash_table h))"
      using mset_split_table[of "2 ^ k" "hash_table h"] by simp
    ultimately show ?thesis by (rule that) (use al in auto)
  qed
qed

lemma shrink_table_keeps:
  assumes sh: "hash_shape h" and pl: "hash_placed h" and big: "INIT_SIZE < hash_nchains h"
  obtains h' where "shrink_table h = Some h'" "hash_shape h'" "hash_placed h'"
    "mset (concat (hash_table h')) = mset (concat (hash_table h))"
    "hash_nodecount h' = hash_nodecount h" "hash_maxcount h' = hash_maxcount h"
    "al_next (hash_allocator h) \<le> al_next (hash_allocator h')"
    "al_ok (hash_allocator h') = al_ok (hash_allocator h)"
proof -
  obtain k where k: "INIT_BITS \<le> k" "k \<le> 30" "hash_nchains h = 2 ^ k" "hash_mask h = mask k"
    and len: "length (hash_table h) = 2 ^ k"
    and marks: "hash_highmark h = 2 * 2 ^ k" "2 * hash_lowmark h = 2 ^ k" "hash_dynamic h" "hash_maxcount h \<le> 2 ^ 31"
    using sh by (auto simp: hash_shape_def)
  have "INIT_BITS < k" using big unfolding k(3) INIT_SIZE_def by (rule power_less_imp_less_exp[rotated]) simp
  then obtain j where j: "k = Suc j" "INIT_BITS \<le> j" by (cases k) auto
  obtain m al where m: "malloc (hash_allocator h) = (m, al)" by fastforce
  note al = malloc_next[OF m] malloc_ok[OF m]
  let ?t = "map2 join_chains (take (2 ^ j) (hash_table h)) (drop (2 ^ j) (hash_table h))"
  let ?h = "h\<lparr>hash_table := ?t, hash_allocator := al, hash_mask := mask j, hash_nchains := 2 ^ j,
             hash_lowmark := hash_lowmark h div 2, hash_highmark := hash_highmark h div 2\<rparr>"
  have two: "hash_nchains h \<ge> 2" "hash_nchains h div 2 = 2 ^ j" using k(3) j by auto
  have mk: "drop_bit 1 (hash_mask h) = mask j"
    using drop_bit_mask_word[of k, where 'a = 32] k(2,4) j by simp
  have "shrink_table h = Some ?h"
    using two by (simp only: shrink_table_def m mk Let_def prod.case) simp
  moreover have "hash_shape ?h"
    unfolding hash_shape_def using k marks len j
    by (auto intro!: exI[of _ j] simp: INIT_BITS_def)
  moreover have "hash_placed ?h"
    unfolding hash_placed_def
  proof (intro allI impI ballI)
    fix i n assume i: "i < length (hash_table ?h)" and n: "n \<in> set (hash_table ?h ! i)"
    have ij: "i < 2 ^ j" using i len j by simp
    have "n \<in> set (hash_table h ! i) \<or> n \<in> set (hash_table h ! (i + 2 ^ j))"
      using n ij len j by (auto simp: join_chains_def split: if_splits simp: add.commute)
    then have "unat (hash_hkey n AND mask (Suc j)) = i \<or> unat (hash_hkey n AND mask (Suc j)) = i + 2 ^ j"
      using pl ij len k(4) j by (auto simp: hash_placed_def chain_of_def)
    then have "unat (hash_hkey n AND mask j) = i"
      using unat_and_mask_Suc[of j "hash_hkey n"] unat_and_mask_less[of "hash_hkey n" j] ij k(2) j
      by (auto split: if_splits)
    then show "chain_of ?h (hash_hkey n) = i" by (simp add: chain_of_def)
  qed
  moreover have "mset (concat (hash_table ?h)) = mset (concat (hash_table h))"
  proof -
    have "mset (concat ?t) = mset (concat (take (2 ^ j) (hash_table h))) + mset (concat (drop (2 ^ j) (hash_table h)))"
      by (rule mset_join_table) (use len j in simp)
    also have "\<dots> = mset (concat (hash_table h))"
      by (metis append_take_drop_id concat_append mset_append)
    finally show ?thesis by simp
  qed
  ultimately show ?thesis by (rule that) (use al in auto)
qed

lemma hash_inv_rearranged:
  assumes inv: "hash_inv hf eq h" and sh: "hash_shape h'" and pl: "hash_placed h'"
    and ms: "mset (concat (hash_table h')) = mset (concat (hash_table h))"
    and cnt: "hash_nodecount h' = hash_nodecount h" "hash_maxcount h' = hash_maxcount h"
    and al: "al_next (hash_allocator h) \<le> al_next (hash_allocator h')"
  shows "hash_inv hf eq h'"
proof -
  have set: "nodes h' = nodes h" using ms unfolding nodes_def by (metis set_mset_mset)
  have len: "length (concat (hash_table h')) = length (concat (hash_table h))" using ms by (metis size_mset)
  have "mset (map hn_addr (concat (hash_table h'))) = mset (map hn_addr (concat (hash_table h)))"
    using ms by (metis mset_map)
  then have "distinct (map hn_addr (concat (hash_table h')))"
    using inv mset_eq_imp_distinct_iff unfolding hash_inv_def by blast
  then show ?thesis
    using inv set len sh pl cnt al unfolding hash_inv_def by (auto intro: less_le_trans)
qed

lemma hash_inv_parts:
  assumes "hash_inv hf eq h"
  shows "hash_shape h" "hash_placed h" "distinct (map hn_addr (concat (hash_table h)))"
    "hash_nodecount h = length (concat (hash_table h))" "hash_nodecount h \<le> hash_maxcount h"
    "\<And>n. n \<in> nodes h \<Longrightarrow> hash_hkey n = hf (hash_key n)"
    "\<And>n. n \<in> nodes h \<Longrightarrow> hn_addr n < al_next (hash_allocator h)"
    "\<And>n m. n \<in> nodes h \<Longrightarrow> m \<in> nodes h \<Longrightarrow> eq (hash_key n) (hash_key m) \<Longrightarrow> n = m"
  using assms unfolding hash_inv_def by blast+

lemma hash_inv_nonempty: "hash_inv hf eq h \<Longrightarrow> n \<in> nodes h \<Longrightarrow> hash_nodecount h \<noteq> 0"
  by (metis empty_iff hash_inv_parts(4) length_0_conv list.set(1) nodes_def)

lemma hnode_at_Some: "hnode_at h a = Some n \<Longrightarrow> n \<in> nodes h \<and> hn_addr n = a"
  unfolding hnode_at_def nodes_def by (blast dest: find_SomeD)

lemma hnode_at_node:
  assumes "hash_inv hf eq h" "n \<in> nodes h"
  shows "hnode_at h (hn_addr n) = Some n"
proof -
  have "\<exists>m. hnode_at h (hn_addr n) = Some m"
    unfolding hnode_at_def by (rule find_exists[of n]) (use assms(2) in \<open>simp_all add: nodes_def\<close>)
  then obtain m where m: "hnode_at h (hn_addr n) = Some m" ..
  then have "m = n"
    using hnode_at_Some[OF m] hash_inv_parts(3)[OF assms(1)] assms(2)
    unfolding nodes_def by (metis distinct_map inj_onD)
  then show ?thesis using m by simp
qed

lemma hash_inv_addr_inj:
  assumes "hash_inv hf eq h" "n \<in> nodes h" "m \<in> nodes h" "hn_addr n = hn_addr m"
  shows "n = m"
  using hnode_at_node[OF assms(1,2)] hnode_at_node[OF assms(1,3)] assms(4) by (metis option.inject)

lemma unlink_chain_split:
  "\<forall>m \<in> set xs. hn_addr m \<noteq> hn_addr n \<Longrightarrow> unlink_chain (hn_addr n) (xs @ n # ys) = Some (xs @ ys)"
  by (induction xs) auto

lemma hash_inv_chain_split:
  assumes inv: "hash_inv hf eq h" and n: "n \<in> nodes h"
  obtains xs ys where "hash_table h ! chain_of h (hash_hkey n) = xs @ n # ys"
    "chain_of h (hash_hkey n) < length (hash_table h)"
    "\<forall>m \<in> set xs. hn_addr m \<noteq> hn_addr n" "\<forall>m \<in> set ys. hn_addr m \<noteq> hn_addr n"
proof -
  note p = hash_inv_parts[OF inv]
  let ?i = "chain_of h (hash_hkey n)"
  have i: "?i < length (hash_table h)" "n \<in> set (hash_table h ! ?i)" using placed_chain[OF p(2) n] .
  have "concat (hash_table h) =
      concat (take ?i (hash_table h)) @ hash_table h ! ?i @ concat (drop (Suc ?i) (hash_table h))"
    by (metis concat.simps(2) concat_append i(1) id_take_nth_drop)
  then have "distinct (map hn_addr (hash_table h ! ?i))"
    using p(3) by (metis distinct_append map_append)
  moreover obtain xs ys where "hash_table h ! ?i = xs @ n # ys" using i(2) by (meson split_list)
  ultimately show ?thesis using i(1)
    by (intro that[of xs ys]; auto simp: image_iff; metis)
qed

subsection \<open>Keys\<close>

text \<open>
  What a table asks of its two functions: comparison is an equivalence, and keys that
  compare equal hash alike.
\<close>

locale hash_keys =
  fixes hf :: "'k \<Rightarrow> 32 word" and eq :: "'k \<Rightarrow> 'k \<Rightarrow> bool"
  assumes eq_refl: "eq a a"
    and eq_sym: "eq a b \<Longrightarrow> eq b a"
    and eq_trans: "eq a b \<Longrightarrow> eq b c \<Longrightarrow> eq a c"
    and eq_hash: "eq a b \<Longrightarrow> hf a = hf b"
begin

text \<open>Lookup finds the node of a key wherever the resizing has put it.\<close>

lemma lookup_iff:
  assumes inv: "hash_inv hf eq h"
  shows "hash_lookup hf eq h key = Some n \<longleftrightarrow> n \<in> nodes h \<and> eq (hash_key n) key"
proof -
  note p = hash_inv_parts[OF inv]
  let ?c = "hash_chain_head h (chain_of h (hf key))"
  have c: "?c = hash_table h ! chain_of h (hf key)" "chain_of h (hf key) < length (hash_table h)"
    using chain_of_less[OF p(1)] by (auto simp: hash_chain_head_def)
  show ?thesis
  proof
    assume "hash_lookup hf eq h key = Some n"
    then have "n \<in> set ?c" "eq (hash_key n) key"
      unfolding hash_lookup_def Let_def by (blast dest: find_SomeD)+
    then show "n \<in> nodes h \<and> eq (hash_key n) key" using c placed_nodes_at by auto
  next
    assume n: "n \<in> nodes h \<and> eq (hash_key n) key"
    then have hk: "hash_hkey n = hf key" using p(6) eq_hash by auto
    have "n \<in> set ?c" using placed_chain(2)[OF p(2)] n c hk by metis
    then have "\<exists>m. hash_lookup hf eq h key = Some m"
      unfolding hash_lookup_def Let_def by (rule find_exists[of n]) (use n hk in simp)
    then obtain m where m: "hash_lookup hf eq h key = Some m" ..
    then have "m \<in> set ?c" "eq (hash_key m) key"
      unfolding hash_lookup_def Let_def by (blast dest: find_SomeD)+
    then have "m \<in> nodes h" "eq (hash_key m) (hash_key n)"
      using placed_nodes_at[OF c(2), of m] c(1) eq_trans[OF _ eq_sym, of "hash_key m" key "hash_key n"] n
      by simp_all
    then have "m = n" using p(8)[of m n] n by blast
    then show "hash_lookup hf eq h key = Some n" using m by simp
  qed
qed

lemma lookup_None_iff:
  assumes "hash_inv hf eq h"
  shows "hash_lookup hf eq h key = None \<longleftrightarrow> (\<forall>n \<in> nodes h. \<not> eq (hash_key n) key)"
  using lookup_iff[OF assms, of key] by (metis option.distinct(1) option.exhaust)

lemma lookup_rearranged:
  assumes "hash_inv hf eq h" "hash_inv hf eq h'" "nodes h' = nodes h"
  shows "hash_lookup hf eq h' key = hash_lookup hf eq h key"
  using lookup_iff[OF assms(1)] lookup_iff[OF assms(2)] assms(3)
  by (metis option.exhaust)

subsubsection \<open>Insertion\<close>

lemma inv_insert_at:
  assumes inv: "hash_inv hf eq h" and new: "\<forall>m \<in> nodes h. \<not> eq (hash_key m) key"
    and room: "hash_nodecount h < hash_maxcount h"
    and n: "n = \<lparr>hn_addr = a, hash_key = key, hash_data = d, hash_hkey = hf key\<rparr>"
    and a: "a < al_next (hash_allocator h)" "\<forall>m \<in> nodes h. hn_addr m \<noteq> a"
    and h': "h' = h\<lparr>hash_table := (hash_table h)[chain_of h (hf key) := n # hash_chain_head h (chain_of h (hf key))],
                   hash_nodecount := hash_nodecount h + 1\<rparr>"
  shows "hash_inv hf eq h'" "nodes h' = insert n (nodes h)"
proof -
  note p = hash_inv_parts[OF inv]
  let ?i = "chain_of h (hf key)" and ?t = "hash_table h"
  have i: "?i < length ?t" using chain_of_less[OF p(1)] .
  have c: "hash_chain_head h ?i = ?t ! ?i" using i by (simp add: hash_chain_head_def)
  have ms: "mset (concat (hash_table h')) = add_mset n (mset (concat ?t))"
    using mset_concat_update[OF i, of "n # ?t ! ?i"] by (simp add: h' c)
  then show nodes: "nodes h' = insert n (nodes h)"
    unfolding nodes_def by (metis set_mset_add_mset_insert set_mset_mset)
  have cnt: "length (concat (hash_table h')) = Suc (length (concat ?t))"
    using ms by (metis size_add_mset size_mset)
  have "mset (map hn_addr (concat (hash_table h'))) = mset (a # map hn_addr (concat ?t))"
    using ms n by (simp only: mset_map image_mset_add_mset mset.simps(2)) simp
  moreover have "distinct (a # map hn_addr (concat ?t))" using a(2) p(3) by (auto simp: nodes_def)
  ultimately have "distinct (map hn_addr (concat (hash_table h')))"
    using mset_eq_imp_distinct_iff by blast
  moreover have "hash_shape h'" using p(1) by (simp add: hash_shape_def h')
  moreover have "hash_placed h'"
    using p(2) i c n by (auto simp: hash_placed_def h' nth_list_update chain_of_def)
  moreover have "\<forall>x \<in> nodes h'. \<forall>y \<in> nodes h'. eq (hash_key x) (hash_key y) \<longrightarrow> x = y"
    using new p(8) n eq_sym by (auto simp: nodes)
  ultimately show "hash_inv hf eq h'"
    unfolding hash_inv_def using p(4-7) n a(1) room cnt by (auto simp: nodes) (auto simp: h')
qed

lemma insert_ok:
  assumes inv: "hash_inv hf eq h" and new: "\<forall>m \<in> nodes h. \<not> eq (hash_key m) key"
    and room: "hash_nodecount h < hash_maxcount h"
    and a: "a < al_next (hash_allocator h)" "\<forall>m \<in> nodes h. hn_addr m \<noteq> a"
  obtains h' where "hash_insert hf eq h a d key = Some h'" "hash_inv hf eq h'"
    "nodes h' = insert \<lparr>hn_addr = a, hash_key = key, hash_data = d, hash_hkey = hf key\<rparr> (nodes h)"
    "hash_nodecount h' = hash_nodecount h + 1" "hash_maxcount h' = hash_maxcount h"
    "al_ok (hash_allocator h') = al_ok (hash_allocator h)"
proof -
  note p = hash_inv_parts[OF inv]
  have lk: "hash_lookup hf eq h key = None" using lookup_None_iff[OF inv] new by blast
  let ?grow = "hash_dynamic h \<and> hash_nodecount h \<ge> hash_highmark h"
  obtain h1 where h1: "(if ?grow then grow_table h else Some h) = Some h1" "hash_inv hf eq h1"
    "nodes h1 = nodes h" "hash_nodecount h1 = hash_nodecount h" "hash_maxcount h1 = hash_maxcount h"
    "al_next (hash_allocator h) \<le> al_next (hash_allocator h1)"
    "al_ok (hash_allocator h1) = al_ok (hash_allocator h)"
  proof (cases ?grow)
    case True
    then have "2 * hash_nchains h < 2 ^ 31" using p(1) room by (auto simp: hash_shape_def)
    moreover obtain k where k: "hash_nchains h = 2 ^ k" using p(1) by (auto simp: hash_shape_def)
    ultimately have "(2::nat) ^ Suc k < 2 ^ 31" by simp
    then have "Suc k < 31" by (rule power_less_imp_less_exp[rotated]) simp
    then have "hash_nchains h \<le> 2 ^ 29" unfolding k by (intro power_increasing) auto
    from grow_table_keeps[OF p(1,2) this] obtain g where g: "grow_table h = Some g" "hash_shape g" "hash_placed g"
      "mset (concat (hash_table g)) = mset (concat (hash_table h))"
      "hash_nodecount g = hash_nodecount h" "hash_maxcount g = hash_maxcount h"
      "al_next (hash_allocator h) \<le> al_next (hash_allocator g)"
      "al_ok (hash_allocator g) = al_ok (hash_allocator h)" by blast
    moreover have "nodes g = nodes h" using g(4) unfolding nodes_def by (metis set_mset_mset)
    ultimately show ?thesis using True hash_inv_rearranged[OF inv g(2-7)] by (intro that[of g]) auto
  next
    case False
    then show ?thesis using inv by (intro that[of h]) auto
  qed
  let ?n = "\<lparr>hn_addr = a, hash_key = key, hash_data = d, hash_hkey = hf key\<rparr>"
  let ?h = "h1\<lparr>hash_table := (hash_table h1)[chain_of h1 (hf key) := ?n # hash_chain_head h1 (chain_of h1 (hf key))],
               hash_nodecount := hash_nodecount h1 + 1\<rparr>"
  have "hash_insert hf eq h a d key = Some ?h"
    using h1(1) lk room by (simp add: hash_insert_def Let_def)
  moreover have "hash_inv hf eq ?h" "nodes ?h = insert ?n (nodes h)"
    using inv_insert_at[OF h1(2), of key ?n a d ?h] new room a h1(3-6) by simp_all
  ultimately show ?thesis by (rule that) (use h1 in auto)
qed

subsubsection \<open>Deletion\<close>

lemma inv_delete_at:
  assumes inv: "hash_inv hf eq h" and n: "n \<in> nodes h"
    and t: "hash_table h ! chain_of h (hash_hkey n) = xs @ n # ys"
    and h': "h' = h\<lparr>hash_table := (hash_table h)[chain_of h (hash_hkey n) := xs @ ys],
                   hash_nodecount := hash_nodecount h - 1\<rparr>"
  shows "hash_inv hf eq h'" "nodes h' = nodes h - {n}"
proof -
  note p = hash_inv_parts[OF inv]
  let ?i = "chain_of h (hash_hkey n)" and ?t = "hash_table h"
  have i: "?i < length ?t" using chain_of_less[OF p(1)] .
  have ms: "mset (concat ?t) = add_mset n (mset (concat (hash_table h')))"
    using mset_concat_update[OF i, of "xs @ ys"] t by (simp add: h')
  have "mset (map hn_addr (concat ?t)) = mset (hn_addr n # map hn_addr (concat (hash_table h')))"
    using ms by (simp only: mset_map image_mset_add_mset mset.simps(2))
  then have d: "distinct (hn_addr n # map hn_addr (concat (hash_table h')))"
    using p(3) mset_eq_imp_distinct_iff by blast
  have "nodes h = insert n (nodes h')"
    using ms unfolding nodes_def by (metis set_mset_add_mset_insert set_mset_mset)
  moreover have "n \<notin> nodes h'" using d by (auto simp: nodes_def)
  ultimately show nodes: "nodes h' = nodes h - {n}" by blast
  have cnt: "length (concat ?t) = Suc (length (concat (hash_table h')))"
    using ms by (metis size_add_mset size_mset)
  have "hash_shape h'" using p(1) by (simp add: hash_shape_def h')
  moreover have "hash_placed h'"
    unfolding hash_placed_def
  proof (intro allI impI ballI)
    fix j m assume "j < length (hash_table h')" "m \<in> set (hash_table h' ! j)"
    then have "j < length ?t" "m \<in> set (?t ! j)"
      using t i by (auto simp: h' nth_list_update split: if_splits)
    then have "chain_of h (hash_hkey m) = j" using p(2) by (simp add: hash_placed_def)
    then show "chain_of h' (hash_hkey m) = j" by (simp add: chain_of_def h')
  qed
  moreover have c': "hash_nodecount h' = hash_nodecount h - 1" "hash_maxcount h' = hash_maxcount h"
    by (simp_all add: h')
  moreover have "hash_nodecount h' = length (concat (hash_table h'))" "hash_nodecount h' \<le> hash_maxcount h'"
    using cnt p(4,5) c' by linarith+
  moreover have "hash_allocator h' = hash_allocator h" by (simp add: h')
  moreover have "distinct (map hn_addr (concat (hash_table h')))" using d by simp
  moreover have "\<forall>x \<in> nodes h'. \<forall>y \<in> nodes h'. eq (hash_key x) (hash_key y) \<longrightarrow> x = y"
    using p(8) nodes by blast
  ultimately show "hash_inv hf eq h'"
    unfolding hash_inv_def using p(6,7) nodes by (metis DiffD1)
qed

lemma scan_delete_ok:
  assumes inv: "hash_inv hf eq h" and n: "n \<in> nodes h"
    and t: "hash_table h ! chain_of h (hash_hkey n) = xs @ n # ys" "\<forall>m \<in> set xs. hn_addr m \<noteq> hn_addr n"
  shows "hash_scan_delete hf eq h (hn_addr n) =
      Some (h\<lparr>hash_table := (hash_table h)[chain_of h (hash_hkey n) := xs @ ys],
              hash_nodecount := hash_nodecount h - 1\<rparr>)"
proof -
  have "hash_lookup hf eq h (hash_key n) = Some n" using lookup_iff[OF inv] n eq_refl by blast
  moreover have "hash_chain_head h (chain_of h (hash_hkey n)) = xs @ n # ys"
    using t(1) chain_of_less[OF hash_inv_parts(1)[OF inv]] by (simp add: hash_chain_head_def)
  ultimately show ?thesis
    using hnode_at_node[OF inv n] unlink_chain_split[OF t(2)] by (simp add: hash_scan_delete_def Let_def)
qed

lemma scan_delete_inv:
  assumes inv: "hash_inv hf eq h" and n: "n \<in> nodes h"
  obtains h' where "hash_scan_delete hf eq h (hn_addr n) = Some h'" "hash_inv hf eq h'"
    "nodes h' = nodes h - {n}" "hash_nodecount h = Suc (hash_nodecount h')"
    "hash_maxcount h' = hash_maxcount h" "hash_allocator h' = hash_allocator h"
proof -
  obtain xs ys where t: "hash_table h ! chain_of h (hash_hkey n) = xs @ n # ys"
    "\<forall>m \<in> set xs. hn_addr m \<noteq> hn_addr n"
    using hash_inv_chain_split[OF inv n] by metis
  have "hash_nodecount h \<noteq> 0" using hash_inv_nonempty[OF inv n] .
  then show ?thesis
    using that[OF scan_delete_ok[OF inv n t] inv_delete_at[OF inv n t(1) refl]] by simp
qed

lemma delete_inv:
  assumes inv: "hash_inv hf eq h" and n: "n \<in> nodes h"
  obtains h' where "hash_delete hf eq h (hn_addr n) = Some h'" "hash_inv hf eq h'"
    "nodes h' = nodes h - {n}" "hash_nodecount h = Suc (hash_nodecount h')"
    "hash_maxcount h' = hash_maxcount h" "al_ok (hash_allocator h') = al_ok (hash_allocator h)"
proof -
  note p = hash_inv_parts[OF inv]
  have lk: "hash_lookup hf eq h (hash_key n) = Some n" using lookup_iff[OF inv] n eq_refl by blast
  let ?shrink = "hash_dynamic h \<and> hash_nodecount h \<le> hash_lowmark h \<and> hash_nodecount h > INIT_SIZE"
  obtain h1 where h1: "(if ?shrink then shrink_table h else Some h) = Some h1" "hash_inv hf eq h1"
    "nodes h1 = nodes h" "hash_nodecount h1 = hash_nodecount h" "hash_maxcount h1 = hash_maxcount h"
    "al_ok (hash_allocator h1) = al_ok (hash_allocator h)"
  proof (cases ?shrink)
    case True
    then have "INIT_SIZE < hash_nchains h" using p(1) by (auto simp: hash_shape_def)
    from shrink_table_keeps[OF p(1,2) this] obtain g where g: "shrink_table h = Some g" "hash_shape g" "hash_placed g"
      "mset (concat (hash_table g)) = mset (concat (hash_table h))"
      "hash_nodecount g = hash_nodecount h" "hash_maxcount g = hash_maxcount h"
      "al_next (hash_allocator h) \<le> al_next (hash_allocator g)"
      "al_ok (hash_allocator g) = al_ok (hash_allocator h)" by blast
    moreover have "nodes g = nodes h" using g(4) unfolding nodes_def by (metis set_mset_mset)
    ultimately show ?thesis using True hash_inv_rearranged[OF inv g(2-7)] by (intro that[of g]) auto
  next
    case False
    then show ?thesis using inv by (intro that[of h]) auto
  qed
  have n1: "n \<in> nodes h1" using n h1(3) by simp
  obtain xs ys where t: "hash_table h1 ! chain_of h1 (hash_hkey n) = xs @ n # ys"
    "\<forall>m \<in> set xs. hn_addr m \<noteq> hn_addr n"
    using hash_inv_chain_split[OF h1(2) n1] by metis
  let ?h = "h1\<lparr>hash_table := (hash_table h1)[chain_of h1 (hash_hkey n) := xs @ ys],
               hash_nodecount := hash_nodecount h1 - 1\<rparr>"
  have "hash_chain_head h1 (chain_of h1 (hash_hkey n)) = xs @ n # ys"
    using t(1) chain_of_less[OF hash_inv_parts(1)[OF h1(2)]] by (simp add: hash_chain_head_def)
  then have "hash_delete hf eq h (hn_addr n) = Some ?h"
    using hnode_at_node[OF inv n] lk h1(1) unlink_chain_split[OF t(2)] by (simp add: hash_delete_def Let_def)
  moreover have "hash_inv hf eq ?h" "nodes ?h = nodes h1 - {n}" using inv_delete_at[OF h1(2) n1 t(1) refl] .
  moreover have "hash_nodecount h \<noteq> 0" using hash_inv_nonempty[OF inv n] .
  ultimately show ?thesis by (intro that[of ?h]) (simp_all add: h1(3-6))
qed

end

subsection \<open>Scans\<close>

text \<open>What a scan still has to return, and when its cursor points into the table.\<close>

definition scan_rest :: "('k, 'd) htab \<Rightarrow> hscan_t \<Rightarrow> ('k, 'd) hnode_t list" where
  "scan_rest h sc = (case hs_next sc of None \<Rightarrow> []
     | Some a \<Rightarrow> dropWhile (\<lambda>n. hn_addr n \<noteq> a) (hash_chain_head h (hs_chain sc)) @
                concat (drop (hs_chain sc + 1) (hash_table h)))"

definition scan_valid :: "('k, 'd) htab \<Rightarrow> hscan_t \<Rightarrow> bool" where
  "scan_valid h sc \<longleftrightarrow> (case hs_next sc of None \<Rightarrow> True
     | Some a \<Rightarrow> hs_chain sc < length (hash_table h) \<and> a \<in> hn_addr ` set (hash_table h ! hs_chain sc))"

lemma next_chain_None: "next_chain cs i = None \<Longrightarrow> concat cs = []"
  by (induction cs i rule: next_chain.induct) auto

lemma next_chain_Some:
  "next_chain cs i = Some (j, a) \<Longrightarrow>
   \<exists>m n ns. j = i + m \<and> m < length cs \<and> cs ! m = n # ns \<and> hn_addr n = a \<and>
     concat cs = (n # ns) @ concat (drop (Suc m) cs)"
proof (induction cs i rule: next_chain.induct)
  case (2 cs chain)
  then obtain m n ns where "j = Suc chain + m" "m < length cs" "cs ! m = n # ns" "hn_addr n = a"
    "concat cs = (n # ns) @ concat (drop (Suc m) cs)" by auto
  then show ?case by (intro exI[of _ "Suc m"]) auto
qed (auto intro: exI[of _ 0])

lemma node_after_split:
  "\<forall>m \<in> set xs. hn_addr m \<noteq> a \<Longrightarrow> hn_addr n = a \<Longrightarrow>
   node_after a (xs @ n # ys) = Some (n, case ys of [] \<Rightarrow> None | m # _ \<Rightarrow> Some (hn_addr m))"
  by (induction xs) auto

lemma dropWhile_addr:
  "\<forall>m \<in> set xs. hn_addr m \<noteq> a \<Longrightarrow> hn_addr n = a \<Longrightarrow>
   dropWhile (\<lambda>n. hn_addr n \<noteq> a) (xs @ n # ys) = n # ys"
  by (induction xs) auto

lemma scan_begin:
  "scan_valid h (hash_scan_begin h)" "scan_rest h (hash_scan_begin h) = concat (hash_table h)"
proof -
  have "scan_valid h (hash_scan_begin h) \<and> scan_rest h (hash_scan_begin h) = concat (hash_table h)"
  proof (cases "next_chain (hash_table h) 0")
    case None
    then show ?thesis
      using next_chain_None[OF None] by (auto simp: hash_scan_begin_def scan_valid_def scan_rest_def)
  next
    case (Some ja)
    obtain j a where ja: "ja = (j, a)" by fastforce
    obtain n ns where "j < length (hash_table h)" "hash_table h ! j = n # ns" "hn_addr n = a"
      "concat (hash_table h) = (n # ns) @ concat (drop (Suc j) (hash_table h))"
      using next_chain_Some[OF Some[unfolded ja]] by auto
    then show ?thesis
      using Some ja by (auto simp: hash_scan_begin_def scan_valid_def scan_rest_def hash_chain_head_def)
  qed
  then show "scan_valid h (hash_scan_begin h)" "scan_rest h (hash_scan_begin h) = concat (hash_table h)" by blast+
qed

lemma scan_next_chain:
  assumes "i < length (hash_table h)"
  shows "case next_chain (drop (i + 1) (hash_table h)) (i + 1) of
      None \<Rightarrow> concat (drop (i + 1) (hash_table h)) = []
    | Some (j, b) \<Rightarrow> j < length (hash_table h) \<and> b \<in> hn_addr ` set (hash_table h ! j) \<and>
        concat (drop (i + 1) (hash_table h)) =
          dropWhile (\<lambda>n. hn_addr n \<noteq> b) (hash_table h ! j) @ concat (drop (j + 1) (hash_table h))"
proof (cases "next_chain (drop (i + 1) (hash_table h)) (i + 1)")
  case None
  then show ?thesis using next_chain_None[OF None] by simp
next
  case (Some jb)
  obtain j b where jb: "jb = (j, b)" by fastforce
  obtain m n ns where m: "j = i + 1 + m" "m < length (drop (i + 1) (hash_table h))"
    "drop (i + 1) (hash_table h) ! m = n # ns" "hn_addr n = b"
    "concat (drop (i + 1) (hash_table h)) = (n # ns) @ concat (drop (Suc m) (drop (i + 1) (hash_table h)))"
    using next_chain_Some[OF Some[unfolded jb]] by blast
  have "j < length (hash_table h)" using m(1,2) by simp
  moreover have "hash_table h ! j = n # ns" using m(1-3) assms by simp
  moreover have "drop (Suc m) (drop (i + 1) (hash_table h)) = drop (j + 1) (hash_table h)"
    using m(1) by (simp add: ac_simps)
  ultimately show ?thesis using Some jb m(4,5) by simp
qed

lemma scan_next:
  assumes val: "scan_valid h sc" and d: "distinct (map hn_addr (concat (hash_table h)))"
  shows "scan_rest h sc = [] \<Longrightarrow> hash_scan_next h sc = Some (None, sc)"
    and "scan_rest h sc = n # ns \<Longrightarrow>
      \<exists>sc'. hash_scan_next h sc = Some (Some n, sc') \<and> scan_valid h sc' \<and> scan_rest h sc' = ns"
proof -
  have body: "\<exists>n ns sc'. scan_rest h sc = n # ns \<and> hash_scan_next h sc = Some (Some n, sc') \<and>
      scan_valid h sc' \<and> scan_rest h sc' = ns" if "hs_next sc = Some a" for a
  proof -
    let ?i = "hs_chain sc" and ?c = "hash_table h ! hs_chain sc"
    have i: "?i < length (hash_table h)" "a \<in> hn_addr ` set ?c" using val that by (auto simp: scan_valid_def)
    have c: "hash_chain_head h ?i = ?c" using i by (simp add: hash_chain_head_def)
    obtain xs n ys where sp: "?c = xs @ n # ys" "hn_addr n = a" "\<forall>m \<in> set xs. hn_addr m \<noteq> a"
      using i(2) split_list_first_prop[of ?c "\<lambda>m. hn_addr m = a"] by auto
    have "concat (hash_table h) = concat (take ?i (hash_table h)) @ ?c @ concat (drop (Suc ?i) (hash_table h))"
      by (metis concat.simps(2) concat_append i(1) id_take_nth_drop)
    then have dc: "distinct (map hn_addr ?c)" using d by (metis distinct_append map_append)
    have rest: "scan_rest h sc = n # ys @ concat (drop (?i + 1) (hash_table h))"
      using that c sp dropWhile_addr[OF sp(3,2)] by (simp add: scan_rest_def)
    show ?thesis
    proof (cases ys)
      case (Cons m ms)
      let ?sc = "sc\<lparr>hs_next := Some (hn_addr m)\<rparr>"
      have nxt: "hash_scan_next h sc = Some (Some n, ?sc)"
        using that c sp Cons node_after_split[OF sp(3,2), of ys] by (simp add: hash_scan_next_def)
      have "\<forall>x \<in> set (xs @ [n]). hn_addr x \<noteq> hn_addr m"
        using dc sp(1) Cons by (auto simp: image_iff; metis)
      then have "dropWhile (\<lambda>x. hn_addr x \<noteq> hn_addr m) ((xs @ [n]) @ m # ms) = m # ms"
        by (rule dropWhile_addr) simp
      then have "scan_rest h ?sc = ys @ concat (drop (?i + 1) (hash_table h))"
        using c sp(1) Cons by (simp add: scan_rest_def)
      moreover have "scan_valid h ?sc" using i sp(1) Cons by (simp add: scan_valid_def)
      ultimately show ?thesis using rest nxt by blast
    next
      case Nil
      note sn = scan_next_chain[OF i(1)]
      show ?thesis
      proof (cases "next_chain (drop (?i + 1) (hash_table h)) (?i + 1)")
        case None
        then show ?thesis
          using that c sp Nil rest sn node_after_split[OF sp(3,2), of ys]
          by (auto simp: hash_scan_next_def scan_valid_def scan_rest_def)
      next
        case (Some jb)
        then show ?thesis
          using that c sp Nil rest sn node_after_split[OF sp(3,2), of ys]
          by (auto simp: hash_scan_next_def scan_valid_def scan_rest_def hash_chain_head_def split: prod.splits)
      qed
    qed
  qed
  show "scan_rest h sc = [] \<Longrightarrow> hash_scan_next h sc = Some (None, sc)"
    using body by (cases "hs_next sc") (auto simp: hash_scan_next_def)
  show "scan_rest h sc = n # ns \<Longrightarrow>
      \<exists>sc'. hash_scan_next h sc = Some (Some n, sc') \<and> scan_valid h sc' \<and> scan_rest h sc' = ns"
    using body by (cases "hs_next sc") (auto simp: scan_rest_def)
qed

text \<open>Unlinking a node that the scan has already returned leaves the rest of the scan alone.\<close>

lemma scan_survives_unlink:
  assumes i: "i < length (hash_table h)" and t: "hash_table h ! i = xs @ n # ys"
    and val: "scan_valid h sc" and nr: "n \<notin> set (scan_rest h sc)"
    and h': "hash_table h' = (hash_table h)[i := xs @ ys]"
  shows "scan_valid h' sc" "scan_rest h' sc = scan_rest h sc"
proof -
  have "scan_valid h' sc \<and> scan_rest h' sc = scan_rest h sc"
  proof (cases "hs_next sc")
    case None
    then show ?thesis by (simp add: scan_valid_def scan_rest_def)
  next
    case (Some a)
    let ?j = "hs_chain sc" and ?P = "\<lambda>m. hn_addr m \<noteq> a"
    have j: "?j < length (hash_table h)" "a \<in> hn_addr ` set (hash_table h ! ?j)"
      using val Some by (auto simp: scan_valid_def)
    have out: "n \<notin> set (dropWhile ?P (hash_table h ! ?j))" "n \<notin> set (concat (drop (?j + 1) (hash_table h)))"
      using nr Some j(1) by (auto simp: scan_rest_def hash_chain_head_def)
    have ij: "\<not> ?j < i"
    proof
      assume "?j < i"
      then have "hash_table h ! i \<in> set (drop (?j + 1) (hash_table h))"
        using i by (auto simp: in_set_conv_nth intro!: exI[of _ "i - (?j + 1)"])
      then show False using out(2) t by auto
    qed
    have tail: "drop (?j + 1) (hash_table h') = drop (?j + 1) (hash_table h)"
      using ij h' by (simp add: drop_update_cancel)
    show ?thesis
    proof (cases "i = ?j")
      case False
      then have "hash_table h' ! ?j = hash_table h ! ?j" using h' by simp
      then show ?thesis
        using Some j tail h' by (simp add: scan_valid_def scan_rest_def hash_chain_head_def)
    next
      case True
      have xs: "\<forall>m \<in> set xs. ?P m" and na: "?P n"
      proof -
        have "set (dropWhile ?P (xs @ n # ys)) \<supseteq> {n}" if "m \<in> set xs" "\<not> ?P m" for m
        proof -
          have "dropWhile ?P (xs @ n # ys) = dropWhile ?P xs @ n # ys"
            using that by (simp add: dropWhile_append1)
          then show ?thesis by simp
        qed
        then show "\<forall>m \<in> set xs. ?P m" using out(1) t True by auto
        then show "?P n" using out(1) t True dropWhile_append2[of xs ?P "n # ys"] by auto
      qed
      have "dropWhile ?P (xs @ n # ys) = dropWhile ?P ys" "dropWhile ?P (xs @ ys) = dropWhile ?P ys"
        using xs na by (simp_all add: dropWhile_append2)
      moreover have "hash_table h' ! ?j = xs @ ys" using h' True j(1) by simp
      moreover have "a \<in> hn_addr ` set (xs @ ys)" using j(2) t True na by auto
      ultimately show ?thesis
        using Some j tail h' t True by (simp add: scan_valid_def scan_rest_def hash_chain_head_def)
    qed
  qed
  then show "scan_valid h' sc" "scan_rest h' sc = scan_rest h sc" by blast+
qed

context hash_keys
begin

lemma free_nodes_loop_ok:
  assumes "hash_inv hf eq h" "scan_valid h sc" "scan_rest h sc = ns" "set ns \<subseteq> nodes h" "distinct ns"
  shows "\<exists>h'. free_nodes_loop hf eq h sc = Some (ns, h') \<and> hash_inv hf eq h' \<and> nodes h' = nodes h - set ns \<and>
    hash_nchains h' = hash_nchains h"
  using assms
proof (induction ns arbitrary: h sc)
  case Nil
  then have "hash_scan_next h sc = Some (None, sc)"
    using scan_next(1) hash_inv_parts(3) by blast
  then show ?case using Nil by (simp add: free_nodes_loop.simps[of hf eq h sc])
next
  case (Cons n ns)
  obtain sc' where sc': "hash_scan_next h sc = Some (Some n, sc')" "scan_valid h sc'" "scan_rest h sc' = ns"
    using scan_next(2)[OF Cons.prems(2) hash_inv_parts(3)[OF Cons.prems(1)] Cons.prems(3)] by blast
  have n: "n \<in> nodes h" using Cons.prems(4) by simp
  obtain xs ys where t: "hash_table h ! chain_of h (hash_hkey n) = xs @ n # ys"
    "chain_of h (hash_hkey n) < length (hash_table h)" "\<forall>m \<in> set xs. hn_addr m \<noteq> hn_addr n"
    using hash_inv_chain_split[OF Cons.prems(1) n] by metis
  let ?h = "h\<lparr>hash_table := (hash_table h)[chain_of h (hash_hkey n) := xs @ ys],
              hash_nodecount := hash_nodecount h - 1\<rparr>"
  have del: "hash_scan_delete hf eq h (hn_addr n) = Some ?h" using scan_delete_ok[OF Cons.prems(1) n t(1,3)] .
  have inv: "hash_inv hf eq ?h" "nodes ?h = nodes h - {n}" using inv_delete_at[OF Cons.prems(1) n t(1) refl] .
  have sv: "scan_valid ?h sc'" "scan_rest ?h sc' = ns"
    using scan_survives_unlink[OF t(2,1) sc'(2), of ?h] sc'(3) Cons.prems(5) by simp_all
  have "set ns \<subseteq> nodes ?h" "distinct ns" using inv(2) Cons.prems(4,5) by auto
  from Cons.IH[OF inv(1) sv this] obtain h2 where
    h2: "free_nodes_loop hf eq ?h sc' = Some (ns, h2)" "hash_inv hf eq h2" "nodes h2 = nodes ?h - set ns"
      "hash_nchains h2 = hash_nchains h"
    by auto
  have "free_nodes_loop hf eq h sc = Some (n # ns, h2)"
    using sc'(1) del h2(1) by (simp add: free_nodes_loop.simps[of hf eq h sc])
  moreover have "nodes h2 = nodes h - set (n # ns)" using h2(3) inv(2) by auto
  ultimately show ?case using h2(2,4) by blast
qed

lemma clear_inv:
  assumes "hash_inv hf eq h"
  shows "hash_inv hf eq (clear_table (h\<lparr>hash_nodecount := 0\<rparr>))"
    "nodes (clear_table (h\<lparr>hash_nodecount := 0\<rparr>)) = {}"
  using hash_inv_parts[OF assms]
  by (auto simp: hash_inv_def clear_table_def nodes_def hash_shape_def hash_placed_def)

end

subsection \<open>The run-time check\<close>

lemma verify_chains_ok:
  "(\<forall>i < length cs. \<forall>n \<in> set (cs ! i). unat (hash_hkey n AND m) = chain + i) \<Longrightarrow>
   verify_chains m chain cs cnt = Some (cnt + length (concat cs))"
proof (induction m chain cs cnt rule: verify_chains.induct)
  case (2 m chain c cs cnt)
  have c: "\<forall>n \<in> set c. unat (hash_hkey n AND m) = chain" using "2.prems" by force
  have "\<forall>i < length cs. \<forall>n \<in> set (cs ! i). unat (hash_hkey n AND m) = Suc chain + i"
    using "2.prems" by force
  with c "2.IH" show ?case by simp
qed simp

lemma shift_to_odd_power: "k < 32 \<Longrightarrow> shift_to_odd (2 ^ k) = 1"
proof (induction k)
  case 0
  then show ?case by (simp add: shift_to_odd.simps)
next
  case (Suc k)
  have "drop_bit 1 (2 ^ Suc k :: 32 word) = 2 ^ k"
    using Suc.prems by (intro bit_word_eqI) (auto simp: bit_simps)
  moreover have "(2 :: 32 word) ^ Suc k AND 1 = 0" by (simp add: and_one_eq mod_2_eq_odd)
  moreover have "(2 :: 32 word) ^ Suc k \<noteq> 0" using Suc.prems by (simp del: power_Suc)
  ultimately show ?case using Suc by (simp add: shift_to_odd.simps[of "2 ^ Suc k"] del: power_Suc)
qed

lemma is_power_of_two_nat: "k < 32 \<Longrightarrow> is_power_of_two (of_nat (2 ^ k))"
  by (simp add: is_power_of_two_def shift_to_odd_power)

lemma hash_inv_verify:
  assumes "hash_inv hf eq h"
  shows "hash_verify h"
proof -
  note p = hash_inv_parts[OF assms]
  obtain k where k: "INIT_BITS \<le> k" "k \<le> 30" "hash_nchains h = 2 ^ k"
    and marks: "hash_highmark h = 2 * hash_nchains h" "2 * hash_lowmark h = hash_nchains h"
    using p(1) by (auto simp: hash_shape_def)
  from k(1) obtain j where j: "k = Suc j" by (cases k) (auto simp: INIT_BITS_def)
  have hi: "hash_highmark h = 2 ^ Suc k" and lo: "hash_lowmark h = 2 ^ j" using k marks j by auto
  have "is_power_of_two (of_nat (hash_highmark h))" "is_power_of_two (of_nat (hash_lowmark h))"
    unfolding hi lo using k(2) j by (intro is_power_of_two_nat; simp)+
  moreover have "hash_lowmark h < hash_highmark h" using hi lo j by simp
  moreover have "verify_chains (hash_mask h) 0 (hash_table h) 0 = Some (hash_nodecount h)"
    using verify_chains_ok[of "hash_table h" "hash_mask h" 0 0] p(2,4) by (simp add: hash_placed_def chain_of_def)
  ultimately show ?thesis by (simp add: hash_verify_def)
qed

lemma count_bits_mask: "k \<le> 32 \<Longrightarrow> count_bits (mask k) n = n + k"
proof (induction k arbitrary: n)
  case 0
  then show ?case by (simp add: count_bits.simps)
next
  case (Suc k)
  have "(mask (Suc k) :: 32 word) \<noteq> 0" by (simp add: mask_eq_0_iff)
  moreover have "drop_bit 1 (mask (Suc k) :: 32 word) = mask k"
    using drop_bit_mask_word[of "Suc k", where 'a = 32] Suc.prems by simp
  ultimately show ?case using Suc by (simp add: count_bits.simps[of "mask (Suc k)"])
qed

lemma compute_bits_32: "compute_bits = 32"
  using count_bits_mask[of 32 0] by (simp add: compute_bits_def mask_eq_exp_minus_1)

lemma hash_create_ok:
  assumes "hash_create maxcount al = Some h" "maxcount \<le> 2 ^ 31"
  shows "hash_inv hf eq h" "nodes h = {}" "hash_nodecount h = 0" "hash_maxcount h = maxcount"
proof -
  have h: "hash_table h = replicate INIT_SIZE []" "hash_nchains h = INIT_SIZE" "hash_nodecount h = 0"
    "hash_maxcount h = maxcount" "hash_highmark h = INIT_SIZE * 2" "hash_lowmark h = INIT_SIZE div 2"
    "hash_mask h = INIT_MASK" "hash_dynamic h"
    using assms(1) by (auto simp: hash_create_def clear_table_def split: prod.splits option.splits)
  have m: "INIT_MASK = mask INIT_BITS"
    by (simp add: INIT_MASK_def INIT_SIZE_def INIT_BITS_def mask_eq_exp_minus_1)
  have "hash_shape h"
    unfolding hash_shape_def using h m assms(2)
    by (auto intro!: exI[of _ INIT_BITS] simp: INIT_SIZE_def INIT_BITS_def)
  then show "hash_inv hf eq h" "nodes h = {}" "hash_nodecount h = 0" "hash_maxcount h = maxcount"
    using h by (auto simp: hash_inv_def hash_placed_def nodes_def)
qed

context hash_keys
begin

lemma alloc_insert_node_ok:
  assumes inv: "hash_inv hf eq h" and new: "hash_lookup hf eq h key = None"
    and room: "hash_nodecount h < hash_maxcount h"
  obtains (fail) h' where "hash_alloc_insert_node hf eq h key d = Some (None, h')" "hash_inv hf eq h'"
      "nodes h' = nodes h" "hash_nodecount h' = hash_nodecount h" "hash_maxcount h' = hash_maxcount h"
      "\<not> al_ok (hash_allocator h) (al_next (hash_allocator h))"
    | (ok) a h' where "hash_alloc_insert_node hf eq h key d = Some (Some a, h')" "hash_inv hf eq h'"
      "nodes h' = insert \<lparr>hn_addr = a, hash_key = key, hash_data = d, hash_hkey = hf key\<rparr> (nodes h)"
      "\<forall>m \<in> nodes h. hn_addr m \<noteq> a"
      "hash_nodecount h' = hash_nodecount h + 1" "hash_maxcount h' = hash_maxcount h"
      "al_ok (hash_allocator h') = al_ok (hash_allocator h)"
proof -
  note p = hash_inv_parts[OF inv]
  obtain m al where m: "malloc (hash_allocator h) = (m, al)" by fastforce
  note al = malloc_next[OF m] malloc_ok[OF m]
  let ?h = "h\<lparr>hash_allocator := al\<rparr>"
  have inv1: "hash_inv hf eq ?h"
    by (rule hash_inv_rearranged[OF inv]) (use p(1,2) al in \<open>auto simp: hash_shape_def hash_placed_def chain_of_def\<close>)
  have n1: "nodes ?h = nodes h" by (simp add: nodes_def)
  show ?thesis
  proof (cases m)
    case None
    then show ?thesis using m inv1 n1 by (intro fail[of ?h]) (auto simp: hash_alloc_insert_node_def malloc_def Let_def split: if_splits)
  next
    case (Some a)
    have a: "a < al_next (hash_allocator ?h)" "\<forall>x \<in> nodes ?h. hn_addr x \<noteq> a"
      using malloc_fresh[of "hash_allocator h" a al] m Some al p(7) n1 by (auto dest!: p(7))
    have new1: "\<forall>x \<in> nodes ?h. \<not> eq (hash_key x) key" using lookup_None_iff[OF inv] new n1 by simp
    obtain h' where h': "hash_insert hf eq ?h a d key = Some h'" "hash_inv hf eq h'"
      "nodes h' = insert \<lparr>hn_addr = a, hash_key = key, hash_data = d, hash_hkey = hf key\<rparr> (nodes ?h)"
      "hash_nodecount h' = hash_nodecount ?h + 1" "hash_maxcount h' = hash_maxcount ?h"
      "al_ok (hash_allocator h') = al_ok (hash_allocator ?h)"
      using insert_ok[OF inv1 new1 _ a] room by auto
    then show ?thesis
      using m Some n1 a al by (intro ok[of a h']) (simp_all add: hash_alloc_insert_node_def)
  qed
qed

end

interpretation string_keys: hash_keys hash_fun_default hash_comp_default
  by unfold_locales (auto simp: hash_comp_default_def)

subsection \<open>Properties\<close>

text \<open>
  C2: Inserting under a key that the table does not hold refines the update of a finite map:
  the call never aborts below \<open>maxcount\<close>, a failed node allocation changes no answer, and a
  successful one makes exactly the new key answer with the new node and data, whatever
  doubling of the table the insertion triggers. The invariant, and with it the run-time
  check \<open>hash_verify\<close>, holds afterwards.
\<close>

theorem hash_insert_refines_update:
  assumes "hash_keys hf eq" "hash_inv hf eq h" "hash_lookup hf eq h key = None"
    and "hash_nodecount h < hash_maxcount h"
  shows "\<exists>r h'. hash_alloc_insert_node hf eq h key d = Some (r, h') \<and> hash_inv hf eq h' \<and> hash_verify h' \<and>
    (case r of
       None \<Rightarrow> hash_nodecount h' = hash_nodecount h \<and>
               (\<forall>k. hash_lookup hf eq h' k = hash_lookup hf eq h k)
     | Some a \<Rightarrow> hash_nodecount h' = hash_nodecount h + 1 \<and>
               (\<forall>k. map_option (\<lambda>n. (hn_addr n, hash_data n)) (hash_lookup hf eq h' k) =
                    (if eq key k then Some (a, d)
                     else map_option (\<lambda>n. (hn_addr n, hash_data n)) (hash_lookup hf eq h k))))"
proof (rule hash_keys.alloc_insert_node_ok[OF assms, of d], goal_cases)
  case (1 h')
  then show ?thesis
    using hash_keys.lookup_rearranged[OF assms(1,2)] hash_inv_verify by fastforce
next
  case ok: (2 a h')
  let ?n = "\<lparr>hn_addr = a, hash_key = key, hash_data = d, hash_hkey = hf key\<rparr>"
  note look = hash_keys.lookup_iff[OF assms(1)]
  have "map_option (\<lambda>n. (hn_addr n, hash_data n)) (hash_lookup hf eq h' k) =
      (if eq key k then Some (a, d) else map_option (\<lambda>n. (hn_addr n, hash_data n)) (hash_lookup hf eq h k))" for k
  proof (cases "eq key k")
    case True
    then have "hash_lookup hf eq h' k = Some ?n" using look[OF ok(2)] ok(3) by simp
    then show ?thesis using True by simp
  next
    case False
    then have "hash_lookup hf eq h' k = Some m \<longleftrightarrow> hash_lookup hf eq h k = Some m" for m
      using look[OF ok(2)] look[OF assms(2)] ok(3) by auto
    then have "hash_lookup hf eq h' k = hash_lookup hf eq h k" by (metis option.exhaust)
    then show ?thesis using False by simp
  qed
  then show ?thesis using ok hash_inv_verify by fastforce
qed

definition sample_alloc :: allocator where
  "sample_alloc = \<lparr>al_next = 0, al_ok = (\<lambda>_. True)\<rparr>"

lemma sample_table:
  obtains h :: "(bytes, nat) htab"
  where "hash_create 100 sample_alloc = Some h" "hash_inv hash_fun_default hash_comp_default h"
    "hash_lookup hash_fun_default hash_comp_default h k = None" "hash_nodecount h < hash_maxcount h"
    "nodes h = {}"
proof -
  obtain h :: "(bytes, nat) htab" where h: "hash_create 100 sample_alloc = Some h"
    by (simp add: hash_create_def sample_alloc_def malloc_def Let_def)
  have "hash_inv hash_fun_default hash_comp_default h" "nodes h = {}" "hash_nodecount h < hash_maxcount h"
    using hash_create_ok(2-4)[OF h] hash_create_ok(1)[OF h, of hash_fun_default hash_comp_default] by auto
  then show ?thesis using string_keys.lookup_None_iff h by (intro that[of h]) auto
qed

theorem hash_insert_refines_update_witness:
  "\<exists>(h :: (bytes, nat) htab) r h'.
     hash_create 100 sample_alloc = Some h \<and>
     hash_alloc_insert_node hash_fun_default hash_comp_default h [65, 66] 7 = Some (r, h') \<and>
     hash_verify h'"
proof -
  obtain h :: "(bytes, nat) htab" where h: "hash_create 100 sample_alloc = Some h"
    "hash_inv hash_fun_default hash_comp_default h"
    "hash_lookup hash_fun_default hash_comp_default h [65, 66] = None" "hash_nodecount h < hash_maxcount h"
    by (rule sample_table)
  from hash_insert_refines_update[OF string_keys.hash_keys_axioms h(2-4), of 7] h(1) show ?thesis by blast
qed

text \<open>
  C3: Unlinking a node of the table through its pointer refines the deletion of its key from
  a finite map: the call does not abort, exactly the key of that node stops answering, the
  node count falls by one, and the invariant holds although the call may halve the table.
  \<open>hash_scan_delete\<close> does the same without ever changing the number of chains.
\<close>

theorem hash_delete_refines_removal:
  assumes "hash_keys hf eq" "hash_inv hf eq h" "hash_lookup hf eq h key = Some n"
  shows "\<exists>h'. hash_delete hf eq h (hn_addr n) = Some h' \<and> hash_inv hf eq h' \<and> hash_verify h' \<and>
      hash_nodecount h = hash_nodecount h' + 1 \<and>
      (\<forall>k. hash_lookup hf eq h' k = (if eq key k then None else hash_lookup hf eq h k))"
    (is "\<exists>h'. _ = _ \<and> ?P h'")
proof -
  note look = hash_keys.lookup_iff[OF assms(1)]
  note none = hash_keys.lookup_None_iff[OF assms(1)]
  have n: "n \<in> nodes h" "eq (hash_key n) key" using look[OF assms(2)] assms(3) by auto
  have kn: "eq key k \<longleftrightarrow> eq (hash_key n) k" for k
    using n(2) hash_keys.eq_trans[OF assms(1)] hash_keys.eq_sym[OF assms(1)] by blast
  obtain h' where h': "hash_delete hf eq h (hn_addr n) = Some h'" "hash_inv hf eq h'"
    "nodes h' = nodes h - {n}" "hash_nodecount h = Suc (hash_nodecount h')"
    using hash_keys.delete_inv[OF assms(1,2) n(1)] by metis
  have "hash_lookup hf eq h' k = (if eq key k then None else hash_lookup hf eq h k)" for k
  proof (cases "eq key k")
    case True
    have "\<not> eq (hash_key m) k" if "m \<in> nodes h'" for m
      using that h'(3) True kn hash_inv_parts(8)[OF assms(2), of m n] n(1)
        hash_keys.eq_trans[OF assms(1)] hash_keys.eq_sym[OF assms(1)] by blast
    then show ?thesis using True none[OF h'(2)] by simp
  next
    case False
    then have "hash_lookup hf eq h' k = Some m \<longleftrightarrow> hash_lookup hf eq h k = Some m" for m
      using look[OF h'(2)] look[OF assms(2)] h'(3) kn by auto
    then have "hash_lookup hf eq h' k = hash_lookup hf eq h k" by (metis option.exhaust)
    then show ?thesis using False by simp
  qed
  then show ?thesis using h' hash_inv_verify[OF h'(2)] by auto
qed

theorem hash_delete_refines_removal_witness:
  "\<exists>(h :: (bytes, nat) htab) n h'.
     hash_lookup hash_fun_default hash_comp_default h [65] = Some n \<and>
     hash_delete hash_fun_default hash_comp_default h (hn_addr n) = Some h' \<and>
     hash_lookup hash_fun_default hash_comp_default h' [65] = None"
proof -
  obtain h0 :: "(bytes, nat) htab" where h0: "hash_create 100 sample_alloc = Some h0"
    "hash_inv hash_fun_default hash_comp_default h0"
    "hash_lookup hash_fun_default hash_comp_default h0 [65] = None" "hash_nodecount h0 < hash_maxcount h0"
    by (rule sample_table)
  obtain h :: "(bytes, nat) htab" and n where h: "hash_inv hash_fun_default hash_comp_default h"
    "hash_lookup hash_fun_default hash_comp_default h [65] = Some n"
  proof (rule string_keys.alloc_insert_node_ok[OF h0(2-4), of 7], goal_cases)
    case 1
    have "al_ok (hash_allocator h0) = (\<lambda>_. True)"
      using h0(1) by (auto simp: hash_create_def clear_table_def malloc_def sample_alloc_def Let_def)
    then show ?case using 1(7) by simp
  next
    case (2 a h')
    then show ?case using string_keys.lookup_iff[OF 2(3)] by (intro 2(1)[OF 2(3)]) (auto simp: hash_comp_default_def)
  qed
  from hash_delete_refines_removal[OF string_keys.hash_keys_axioms h] obtain h'
    where "hash_delete hash_fun_default hash_comp_default h (hn_addr n) = Some h'"
      "hash_lookup hash_fun_default hash_comp_default h' [65] = None"
    using string_keys.eq_refl by auto
  with h(2) show ?thesis by blast
qed



text \<open>
  \<open>hash_free_nodes\<close> returns; its scan hands out every node of the table exactly once, in
  table order, although each node is unlinked while the scan runs, and the table is left
  empty with its invariant.
\<close>

theorem hash_free_nodes_all:
  assumes "hash_keys hf eq" "hash_inv hf eq h"
  shows "\<exists>h'. hash_free_nodes hf eq h = Some (concat (hash_table h), h') \<and> hash_inv hf eq h' \<and>
    hash_isempty h' \<and> (\<forall>k. hash_lookup hf eq h' k = None)"
proof -
  have d: "distinct (concat (hash_table h))"
    using hash_inv_parts(3)[OF assms(2)] by (metis distinct_map)
  obtain h1 where h1: "free_nodes_loop hf eq h (hash_scan_begin h) = Some (concat (hash_table h), h1)"
    "hash_inv hf eq h1"
    using hash_keys.free_nodes_loop_ok[OF assms scan_begin _ d] by (auto simp: nodes_def)
  note c = hash_keys.clear_inv[OF assms(1) h1(2)]
  have "hash_lookup hf eq (clear_table (h1\<lparr>hash_nodecount := 0\<rparr>)) k = None" for k
    using hash_keys.lookup_None_iff[OF assms(1) c(1)] c(2) by simp
  then show ?thesis
    using h1 c by (simp add: hash_free_nodes_def hash_isempty_def clear_table_def)
qed

theorem hash_free_nodes_all_witness:
  "\<exists>(h :: (bytes, nat) htab) h'. hash_create 100 sample_alloc = Some h \<and>
     hash_free_nodes hash_fun_default hash_comp_default h = Some ([], h') \<and> hash_isempty h'"
proof -
  obtain h :: "(bytes, nat) htab" where h: "hash_create 100 sample_alloc = Some h"
    "hash_inv hash_fun_default hash_comp_default h" "nodes h = {}"
    by (rule sample_table)
  then have "concat (hash_table h) = []" by (simp add: nodes_def)
  then show ?thesis
    using h(1) hash_free_nodes_all[OF string_keys.hash_keys_axioms h(2)] by auto
qed

end
