(* ===== verification/Dir_Entry.thy ===== *)
theory Dir_Entry
  imports Hash
begin

text \<open>
  \<open>struct dir\<close>, the entry of the directory cache (\<open>include/atalk/directory.h\<close>), its flags, the
  byte order of its directory IDs and the two pairs of hash and compare functions under which
  \<open>etc/afpd/dircache.c\<close> indexes it. The keys of both tables are pointers to entries, or to a
  \<open>struct dir\<close> on the stack when a table is searched; their functions read the entry through the
  pointer, so they are functions of the heap of entries. The interpretations at the end show
  that, whatever the heap holds, both pairs obey the laws the hash table relies on.
\<close>

subsection \<open>Directory IDs in network byte order\<close>

type_synonym cnid_t = "32 word"

text \<open>\<open>ntohl\<close> and \<open>htonl\<close> on a little-endian host: both reverse the four bytes.\<close>

definition ntohl :: "32 word \<Rightarrow> 32 word" where
  "ntohl w = push_bit 24 (w AND 0xff) OR push_bit 8 (w AND 0xff00) OR
             (drop_bit 8 w AND 0xff00) OR drop_bit 24 w"

abbreviation "htonl \<equiv> ntohl"

definition CNID_INVALID :: cnid_t where "CNID_INVALID = 0"
definition CNID_START :: cnid_t where "CNID_START = 17"
definition DIRDID_ROOT_PARENT :: cnid_t where "DIRDID_ROOT_PARENT = htonl 1"
definition DIRDID_ROOT :: cnid_t where "DIRDID_ROOT = htonl 2"

lemma bit_ntohl:
  "bit (ntohl w) n \<longleftrightarrow>
     n < 32 \<and> bit w (if n < 8 then n + 24 else if n < 16 then n + 8 else if n < 24 then n - 8 else n - 24)"
proof -
  have m: "(0xff :: 32 word) = mask 8" "(0xff00 :: 32 word) = push_bit 8 (mask 8)"
    by (simp_all add: mask_eq_exp_minus_1 push_bit_eq_mult)
  show ?thesis
    unfolding ntohl_def m by (auto simp: bit_simps add.commute dest: bit_imp_le_length)
qed

lemma ntohl_ntohl [simp]: "ntohl (ntohl w) = w"
  by (rule bit_word_eqI) (auto simp: bit_ntohl)

lemma ntohl_zero [simp]: "ntohl 0 = 0"
  by (simp add: ntohl_def)

text \<open>An ID from \<open>CNID_START\<close> on is none of the reserved ones.\<close>

lemma cnid_start_not_reserved:
  assumes "CNID_START \<le> ntohl did"
  shows "did \<noteq> CNID_INVALID" "did \<noteq> DIRDID_ROOT_PARENT" "did \<noteq> DIRDID_ROOT"
proof -
  have "\<not> CNID_START \<le> ntohl (ntohl 1)" "\<not> CNID_START \<le> ntohl (ntohl 2)" "\<not> CNID_START \<le> ntohl 0"
    by (simp_all add: CNID_START_def word_le_nat_alt)
  then show "did \<noteq> CNID_INVALID" "did \<noteq> DIRDID_ROOT_PARENT" "did \<noteq> DIRDID_ROOT"
    using assms unfolding CNID_INVALID_def DIRDID_ROOT_PARENT_def DIRDID_ROOT_def by metis+
qed

subsection \<open>Flag words\<close>

definition has_flag :: "32 word \<Rightarrow> 32 word \<Rightarrow> bool" where
  "has_flag w f \<longleftrightarrow> w AND f \<noteq> 0"

definition flag_bit :: "nat \<Rightarrow> 32 word" where "flag_bit n = push_bit n 1"

definition DIRF_ISFILE :: "32 word" where "DIRF_ISFILE = flag_bit 3"
definition DIRF_ARC_GHOST :: "32 word" where "DIRF_ARC_GHOST = flag_bit 6"
definition DIRF_INDEXED :: "32 word" where "DIRF_INDEXED = flag_bit 7"

lemmas dirf_defs = DIRF_ISFILE_def DIRF_ARC_GHOST_def DIRF_INDEXED_def

lemma has_flag_bit: "n < 32 \<Longrightarrow> has_flag w (flag_bit n) = bit w n"
  by (simp add: has_flag_def flag_bit_def push_bit_eq_mult and_exp_eq_0_iff_not_bit)

lemma has_flag_update:
  assumes "n < 32" "m < 32"
  shows "has_flag (w OR flag_bit n) (flag_bit m) = (has_flag w (flag_bit m) \<or> m = n)"
    "has_flag (w AND NOT (flag_bit n)) (flag_bit m) = (has_flag w (flag_bit m) \<and> m \<noteq> n)"
  using assms unfolding has_flag_bit[OF assms(2)] by (auto simp: flag_bit_def bit_simps)

lemma flag_simps [simp]:
  "has_flag (w OR DIRF_ARC_GHOST) DIRF_ARC_GHOST"
  "has_flag (w OR DIRF_ARC_GHOST) DIRF_ISFILE = has_flag w DIRF_ISFILE"
  "has_flag (w OR DIRF_ARC_GHOST) DIRF_INDEXED = has_flag w DIRF_INDEXED"
  "\<not> has_flag (w AND NOT DIRF_ARC_GHOST) DIRF_ARC_GHOST"
  "has_flag (w AND NOT DIRF_ARC_GHOST) DIRF_ISFILE = has_flag w DIRF_ISFILE"
  "has_flag (w AND NOT DIRF_ARC_GHOST) DIRF_INDEXED = has_flag w DIRF_INDEXED"
  "has_flag (w OR DIRF_INDEXED) DIRF_INDEXED"
  "has_flag (w OR DIRF_INDEXED) DIRF_ISFILE = has_flag w DIRF_ISFILE"
  "has_flag (w OR DIRF_INDEXED) DIRF_ARC_GHOST = has_flag w DIRF_ARC_GHOST"
  "\<not> has_flag (w AND NOT DIRF_INDEXED) DIRF_INDEXED"
  "has_flag (w AND NOT DIRF_INDEXED) DIRF_ISFILE = has_flag w DIRF_ISFILE"
  "has_flag (w AND NOT DIRF_INDEXED) DIRF_ARC_GHOST = has_flag w DIRF_ARC_GHOST"
  unfolding dirf_defs by (simp_all add: has_flag_update)

subsection \<open>Entries\<close>

datatype arc_list_t = ARC_NONE | ARC_T1 | ARC_T2 | ARC_B1 | ARC_B2

text \<open>
  The fields the cache itself reads and writes. \<open>d_u_name\<close> is set by every constructor of an
  entry and never \<open>NULL\<close>; the stat and AppleDouble payload is not interpreted by the cache.
\<close>

record dir =
  d_fullpath :: "bytes option"
  d_u_name :: bytes
  qidx_node :: "addr option"
  d_index_node :: "addr option"
  d_didname_node :: "addr option"
  dcache_eanames :: "bytes option"
  dcache_eavals :: "bytes option"
  d_flags :: "32 word"
  d_pdid :: cnid_t
  d_did :: cnid_t
  d_vid :: "16 word"
  dcache_ealen :: nat
  dcache_eavlen :: nat
  arc_list :: arc_list_t

definition zero_dir :: dir where
  "zero_dir = \<lparr>d_fullpath = None, d_u_name = [], qidx_node = None, d_index_node = None,
     d_didname_node = None, dcache_eanames = None, dcache_eavals = None, d_flags = 0, d_pdid = 0,
     d_did = 0, d_vid = 0, dcache_ealen = 0, dcache_eavlen = 0, arc_list = ARC_NONE\<rparr>"

abbreviation "is_file d \<equiv> has_flag (d_flags d) DIRF_ISFILE"
abbreviation "is_ghost d \<equiv> has_flag (d_flags d) DIRF_ARC_GHOST"
abbreviation "is_indexed d \<equiv> has_flag (d_flags d) DIRF_INDEXED"

subsection \<open>Hash functions of the two tables\<close>

definition fnv_step :: "32 word \<Rightarrow> 32 word \<Rightarrow> 32 word" where
  "fnv_step hash v = (hash XOR v) * 16777619"

definition hash_vid_did :: "dir \<Rightarrow> 32 word" where
  "hash_vid_did k =
     (let vid = ucast (d_vid k) :: 32 word; did = d_did k; hash = 2166136261;
          hash = fnv_step hash (drop_bit 8 vid);
          hash = fnv_step hash vid;
          hash = fnv_step hash (drop_bit 24 did);
          hash = fnv_step hash (drop_bit 16 did AND 0xff);
          hash = fnv_step hash (drop_bit 8 did AND 0xff)
      in fnv_step hash (did AND 0xff))"

definition hash_comp_vid_did :: "dir \<Rightarrow> dir \<Rightarrow> bool" where
  "hash_comp_vid_did k1 k2 \<longleftrightarrow> d_did k1 = d_did k2 \<and> d_vid k1 = d_vid k2"

definition get16bits :: "byte \<Rightarrow> byte \<Rightarrow> 32 word" where
  "get16bits d0 d1 = push_bit 8 (ucast d1) + ucast d0"

text \<open>
  The loop over groups of four bytes and the one to three bytes left over. On two bytes the
  source shifts \<open>data[2]\<close>, an \<open>int\<close>, by 18, which fits 26 bits.
\<close>

fun didname_loop :: "32 word \<Rightarrow> bytes \<Rightarrow> 32 word" where
  "didname_loop hash (b0 # b1 # b2 # b3 # data) =
     (let hash = hash + get16bits b0 b1;
          tmp = push_bit 11 (get16bits b2 b3) XOR hash;
          hash = push_bit 16 hash XOR tmp
      in didname_loop (hash + drop_bit 11 hash) data)"
| "didname_loop hash [b0, b1, b2] =
     (let hash = hash + get16bits b0 b1;
          hash = hash XOR push_bit 16 hash;
          hash = hash XOR push_bit 18 (ucast b2)
      in hash + drop_bit 11 hash)"
| "didname_loop hash [b0, b1] =
     (let hash = hash + get16bits b0 b1;
          hash = hash XOR push_bit 11 hash
      in hash + drop_bit 17 hash)"
| "didname_loop hash [b0] =
     (let hash = hash + ucast b0;
          hash = hash XOR push_bit 10 hash
      in hash + drop_bit 1 hash)"
| "didname_loop hash [] = hash"

definition avalanche :: "32 word \<Rightarrow> 32 word" where
  "avalanche hash =
     (let hash = hash XOR push_bit 3 hash;
          hash = hash + drop_bit 5 hash;
          hash = hash XOR push_bit 4 hash;
          hash = hash + drop_bit 17 hash;
          hash = hash XOR push_bit 25 hash
      in hash + drop_bit 6 hash)"

definition hash_didname :: "dir \<Rightarrow> 32 word" where
  "hash_didname key = avalanche (didname_loop (d_pdid key + ucast (d_vid key)) (d_u_name key))"

definition hash_comp_didname :: "dir \<Rightarrow> dir \<Rightarrow> bool" where
  "hash_comp_didname key1 key2 \<longleftrightarrow>
     d_vid key1 = d_vid key2 \<and> d_pdid key1 = d_pdid key2 \<and> d_u_name key1 = d_u_name key2"

subsection \<open>Keys are pointers\<close>

datatype dkey = AtDir addr | OnStack dir

type_synonym dir_heap = "addr \<rightharpoonup> dir"
type_synonym dir_tab = "(dkey, addr) htab"

fun deref :: "dir_heap \<Rightarrow> dkey \<Rightarrow> dir" where
  "deref H (AtDir a) = (case H a of Some d \<Rightarrow> d | None \<Rightarrow> zero_dir)"
| "deref H (OnStack d) = d"

text \<open>
  Reading a key through a dangling pointer is undefined behaviour; the table operations of the
  cache are preceded by the check that every key of the table is live.
\<close>

fun key_live :: "dir_heap \<Rightarrow> dkey \<Rightarrow> bool" where
  "key_live H (AtDir a) \<longleftrightarrow> H a \<noteq> None"
| "key_live H (OnStack d) \<longleftrightarrow> True"

definition keys_live :: "dir_heap \<Rightarrow> dir_tab \<Rightarrow> bool" where
  "keys_live H t \<longleftrightarrow> list_all (\<lambda>n. key_live H (hash_key n)) (concat (hash_table t))"

definition did_hash :: "dir_heap \<Rightarrow> dkey \<Rightarrow> 32 word" where
  "did_hash H k = hash_vid_did (deref H k)"
definition did_eq :: "dir_heap \<Rightarrow> dkey \<Rightarrow> dkey \<Rightarrow> bool" where
  "did_eq H k1 k2 = hash_comp_vid_did (deref H k1) (deref H k2)"
definition name_hash :: "dir_heap \<Rightarrow> dkey \<Rightarrow> 32 word" where
  "name_hash H k = hash_didname (deref H k)"
definition name_eq :: "dir_heap \<Rightarrow> dkey \<Rightarrow> dkey \<Rightarrow> bool" where
  "name_eq H k1 k2 = hash_comp_didname (deref H k1) (deref H k2)"

lemma hash_vid_did_cong: "hash_comp_vid_did k1 k2 \<Longrightarrow> hash_vid_did k1 = hash_vid_did k2"
  by (simp add: hash_comp_vid_did_def hash_vid_did_def)

lemma hash_didname_cong: "hash_comp_didname k1 k2 \<Longrightarrow> hash_didname k1 = hash_didname k2"
  by (simp add: hash_comp_didname_def hash_didname_def)

interpretation did_keys: hash_keys "did_hash H" "did_eq H" for H
  by unfold_locales (auto simp: did_eq_def did_hash_def hash_comp_vid_did_def intro!: hash_vid_did_cong)

interpretation name_keys: hash_keys "name_hash H" "name_eq H" for H
  by unfold_locales (auto simp: name_eq_def name_hash_def hash_comp_didname_def intro!: hash_didname_cong)

end
