(* ===== verification/Dircache.thy ===== *)
theory Dircache
  imports Queue Dir_Entry
begin

text \<open>
  The directory cache of \<open>etc/afpd/dircache.c\<close>: two hash tables over the entries, the LRU queue
  or the four lists of the adaptive replacement cache (ARC), the per-volume counters and the
  queue of retired entries, as one state that every operation passes on. \<open>None\<close> is a failed
  \<open>AFP_ASSERT\<close>, an \<open>AFP_PANIC\<close>, an \<open>exit\<close> or an invalid pointer access. The list sizes are
  \<open>size_t\<close>: a decrement of zero wraps around. The model is the release build with
  \<open>dc_debug\<close> false and the build with \<open>DEBUG\<close>, where \<open>arc_verify_invariants\<close> is compiled in, with
  \<open>dc_debug\<close> true. Log lines are left out; \<open>pfd_purge\<close> calls are recorded in \<open>pfd_purged\<close>.
\<close>

subsection \<open>State\<close>

record arc_stats =
  hits_t1 :: nat
  hits_t2 :: nat
  ghost_hits_b1 :: nat
  ghost_hits_b2 :: nat
  adaptations :: nat
  evictions_t1 :: nat
  evictions_t2 :: nat
  promotions_t1_to_t2 :: nat
  p_min :: nat
  p_max :: nat
  p_increases :: nat
  p_decreases :: nat

definition zero_arc_stats :: arc_stats where
  "zero_arc_stats = \<lparr>hits_t1 = 0, hits_t2 = 0, ghost_hits_b1 = 0, ghost_hits_b2 = 0,
     adaptations = 0, evictions_t1 = 0, evictions_t2 = 0, promotions_t1_to_t2 = 0,
     p_min = 0, p_max = 0, p_increases = 0, p_decreases = 0\<rparr>"

record arc_cache =
  arc_enabled :: bool
  arc_t1 :: "addr option"
  arc_t2 :: "addr option"
  arc_b1 :: "addr option"
  arc_b2 :: "addr option"
  t1_size :: nat
  t2_size :: nat
  b1_size :: nat
  b2_size :: nat
  arc_p :: nat
  arc_c :: nat
  astats :: arc_stats

definition zero_arc :: arc_cache where
  "zero_arc = \<lparr>arc_enabled = False, arc_t1 = None, arc_t2 = None, arc_b1 = None, arc_b2 = None,
     t1_size = 0, t2_size = 0, b1_size = 0, b2_size = 0, arc_p = 0, arc_c = 0,
     astats = zero_arc_stats\<rparr>"

record dircache_stat =
  st_added :: nat
  st_removed :: nat
  st_expunged :: nat
  st_evicted :: nat

record dcache =
  dirs :: dir_heap
  dircache_tab :: dir_tab
  index_didname :: dir_tab
  qh :: qheap
  arc :: arc_cache
  index_queue :: "addr option"
  queue_count :: nat
  queue_count_max :: nat
  invalid_dircache_entries :: "addr option"
  arc_promoting_ghost :: "addr option"
  curdir :: "addr option"
  rootParent :: addr
  dircache_maxsize :: nat
  vid_entry_count :: "16 word \<Rightarrow> nat"
  validation_counter :: "64 word"
  dstat :: dircache_stat
  pfd_purged :: "(16 word \<times> cnid_t) list"
  ea_dropped :: nat
  rfork_cache_budget :: nat
  rfork_max_entry_size :: nat
  rfork_lru :: "addr option"
  dc_debug :: bool

record afp_options =
  dircache_mode :: int
  dircache_validation_freq :: nat
  dircache_rfork_budget :: nat
  dircache_rfork_maxentry :: nat

record vol =
  v_vid :: "16 word"
  v_root :: "addr option"

definition DIRCACHE :: "32 word" where "DIRCACHE = flag_bit 0"
definition DIDNAME_INDEX :: "32 word" where "DIDNAME_INDEX = flag_bit 1"
definition QUEUE_INDEX :: "32 word" where "QUEUE_INDEX = flag_bit 2"
definition DIRCACHE_NOSHRINK :: "32 word" where "DIRCACHE_NOSHRINK = flag_bit 3"
definition DIRCACHE_ALL :: "32 word" where "DIRCACHE_ALL = DIRCACHE OR DIDNAME_INDEX OR QUEUE_INDEX"

definition MIN_DIRCACHE_SIZE :: nat where "MIN_DIRCACHE_SIZE = 1024"
definition MAX_DIRCACHE_SIZE :: nat where "MAX_DIRCACHE_SIZE = 1048576"
definition DEFAULT_DIRCACHE_SIZE :: nat where "DEFAULT_DIRCACHE_SIZE = 65536"
definition DIRCACHE_FREE_QUANTUM :: nat where "DIRCACHE_FREE_QUANTUM = 256"
definition DEFAULT_DIRCACHE_VALIDATION_FREQ :: nat where "DEFAULT_DIRCACHE_VALIDATION_FREQ = 100"

text \<open>\<open>n--\<close> on a \<open>size_t\<close> or \<open>unsigned long\<close>.\<close>

definition size_dec :: "nat \<Rightarrow> nat" where
  "size_dec n = (if n = 0 then 2 ^ 64 - 1 else n - 1)"

definition AFP_ASSERT :: "bool \<Rightarrow> unit option" where
  "AFP_ASSERT b = (if b then Some () else None)"

lemma AFP_ASSERT_simps [simp]: "AFP_ASSERT True = Some ()" "AFP_ASSERT False = None"
  by (simp_all add: AFP_ASSERT_def)

definition upd_dir :: "dcache \<Rightarrow> addr \<Rightarrow> (dir \<Rightarrow> dir) \<Rightarrow> dcache option" where
  "upd_dir s a f = (case dirs s a of None \<Rightarrow> None
     | Some d \<Rightarrow> Some (s\<lparr>dirs := (dirs s)(a \<mapsto> f d)\<rparr>))"

subsection \<open>The tables with keys read through the heap\<close>

definition did_lookup :: "dcache \<Rightarrow> dkey \<Rightarrow> (dkey, addr) hnode_t option option" where
  "did_lookup s k = do {
     AFP_ASSERT (keys_live (dirs s) (dircache_tab s) \<and> key_live (dirs s) k);
     Some (hash_lookup (did_hash (dirs s)) (did_eq (dirs s)) (dircache_tab s) k)
   }"

definition name_lookup :: "dcache \<Rightarrow> dkey \<Rightarrow> (dkey, addr) hnode_t option option" where
  "name_lookup s k = do {
     AFP_ASSERT (keys_live (dirs s) (index_didname s) \<and> key_live (dirs s) k);
     Some (hash_lookup (name_hash (dirs s)) (name_eq (dirs s)) (index_didname s) k)
   }"

definition did_insert :: "dcache \<Rightarrow> addr \<Rightarrow> (addr option \<times> dcache) option" where
  "did_insert s a = do {
     AFP_ASSERT (keys_live (dirs s) (dircache_tab s) \<and> key_live (dirs s) (AtDir a));
     (n, t) \<leftarrow> hash_alloc_insert_node (did_hash (dirs s)) (did_eq (dirs s)) (dircache_tab s) (AtDir a) a;
     Some (n, s\<lparr>dircache_tab := t\<rparr>)
   }"

definition name_insert :: "dcache \<Rightarrow> addr \<Rightarrow> (addr option \<times> dcache) option" where
  "name_insert s a = do {
     AFP_ASSERT (keys_live (dirs s) (index_didname s) \<and> key_live (dirs s) (AtDir a));
     (n, t) \<leftarrow> hash_alloc_insert_node (name_hash (dirs s)) (name_eq (dirs s)) (index_didname s) (AtDir a) a;
     Some (n, s\<lparr>index_didname := t\<rparr>)
   }"

definition did_delete :: "dcache \<Rightarrow> bool \<Rightarrow> addr \<Rightarrow> dcache option" where
  "did_delete s noshrink n = do {
     AFP_ASSERT (keys_live (dirs s) (dircache_tab s));
     t \<leftarrow> (if noshrink
           then hash_scan_delfree (did_hash (dirs s)) (did_eq (dirs s)) (dircache_tab s) n
           else hash_delete_free (did_hash (dirs s)) (did_eq (dirs s)) (dircache_tab s) n);
     Some (s\<lparr>dircache_tab := t\<rparr>)
   }"

definition name_delete :: "dcache \<Rightarrow> bool \<Rightarrow> addr \<Rightarrow> dcache option" where
  "name_delete s noshrink n = do {
     AFP_ASSERT (keys_live (dirs s) (index_didname s));
     t \<leftarrow> (if noshrink
           then hash_scan_delfree (name_hash (dirs s)) (name_eq (dirs s)) (index_didname s) n
           else hash_delete_free (name_hash (dirs s)) (name_eq (dirs s)) (index_didname s) n);
     Some (s\<lparr>index_didname := t\<rparr>)
   }"

subsection \<open>Initialisation and the run-time check of ARC\<close>

definition arc_init :: "dcache \<Rightarrow> nat \<Rightarrow> (int \<times> dcache) option" where
  "arc_init s cache_size = do {
     (q1, h) \<leftarrow> queue_init (qh s);
     (q2, h) \<leftarrow> queue_init h;
     (q3, h) \<leftarrow> queue_init h;
     (q4, h) \<leftarrow> queue_init h;
     let s = s\<lparr>qh := h, arc := (arc s)\<lparr>arc_t1 := q1, arc_t2 := q2, arc_b1 := q3, arc_b2 := q4\<rparr>\<rparr>;
     if q1 = None \<or> q2 = None \<or> q3 = None \<or> q4 = None then Some (-1, s)
     else Some (0, s\<lparr>arc := (arc s)\<lparr>arc_c := cache_size, arc_p := 0, t1_size := 0, t2_size := 0,
                       b1_size := 0, b2_size := 0,
                       astats := zero_arc_stats\<lparr>p_min := cache_size, p_max := 0\<rparr>,
                       arc_enabled := True\<rparr>\<rparr>)
   }"

definition destroy_opt :: "qheap \<Rightarrow> addr option \<Rightarrow> qheap option" where
  "destroy_opt h q = (case q of None \<Rightarrow> Some h | Some q \<Rightarrow> map_option snd (queue_destroy h q))"

definition arc_destroy :: "dcache \<Rightarrow> dcache option" where
  "arc_destroy s =
     (if \<not> arc_enabled (arc s) then Some s
      else do {
        h \<leftarrow> destroy_opt (qh s) (arc_t1 (arc s));
        h \<leftarrow> destroy_opt h (arc_t2 (arc s));
        h \<leftarrow> destroy_opt h (arc_b1 (arc s));
        h \<leftarrow> destroy_opt h (arc_b2 (arc s));
        Some (s\<lparr>qh := h, arc := (arc s)\<lparr>arc_enabled := False, arc_t1 := None, arc_t2 := None,
                arc_b1 := None, arc_b2 := None, t1_size := 0, t2_size := 0, b1_size := 0,
                b2_size := 0, arc_p := 0, arc_c := 0\<rparr>\<rparr>)
      })"

definition arc_invariants_hold :: "dcache \<Rightarrow> bool" where
  "arc_invariants_hold s =
     (let A = arc s; slack = (if arc_promoting_ghost s \<noteq> None then 1 else 0);
          l1 = t1_size A + b1_size A; l2 = t2_size A + b2_size A
      in arc_enabled A \<and> t1_size A + t2_size A \<le> arc_c A \<and>
         b1_size A + b2_size A \<le> arc_c A + slack \<and> arc_p A \<le> arc_c A \<and>
         l1 + l2 \<le> 2 * arc_c A + slack \<and>
         (slack = 0 \<and> l1 + l2 = 2 * arc_c A \<longrightarrow>
            t1_size A + t2_size A = arc_c A \<and> b1_size A + b2_size A = arc_c A))"

definition arc_verify_invariants :: "dcache \<Rightarrow> dcache option" where
  "arc_verify_invariants s = (if dc_debug s \<and> \<not> arc_invariants_hold s then None else Some s)"

subsection \<open>Removal and retirement\<close>

definition dircache_defer_free :: "dcache \<Rightarrow> addr \<Rightarrow> dcache option" where
  "dircache_defer_free s a = do {
     s \<leftarrow> upd_dir s a (d_did_update (\<lambda>_. CNID_INVALID));
     q \<leftarrow> invalid_dircache_entries s;
     (n, h) \<leftarrow> enqueue (qh s) q (Some a);
     Some (s\<lparr>qh := h\<rparr>)
   }"

definition size_drop :: "arc_list_t \<Rightarrow> arc_cache \<Rightarrow> arc_cache" where
  "size_drop l A = (case l of
      ARC_T1 \<Rightarrow> A\<lparr>t1_size := size_dec (t1_size A)\<rparr>
    | ARC_T2 \<Rightarrow> A\<lparr>t2_size := size_dec (t2_size A)\<rparr>
    | ARC_B1 \<Rightarrow> A\<lparr>b1_size := size_dec (b1_size A)\<rparr>
    | ARC_B2 \<Rightarrow> A\<lparr>b2_size := size_dec (b2_size A)\<rparr>
    | ARC_NONE \<Rightarrow> A)"

definition remove_from_queue :: "dcache \<Rightarrow> addr \<Rightarrow> dcache option" where
  "remove_from_queue s a = do {
     d \<leftarrow> dirs s a;
     if arc_enabled (arc s) then
       (if qidx_node d = None then Some s
        else do {
          (_, h) \<leftarrow> queue_remove (qh s) (qidx_node d);
          let s = s\<lparr>qh := h, arc := size_drop (arc_list d) (arc s)\<rparr>;
          upd_dir s a (\<lambda>d. d\<lparr>arc_list := ARC_NONE, qidx_node := None\<rparr>)
        })
     else
       (if qidx_node d = None then Some s
        else do {
          (_, h) \<leftarrow> queue_remove (qh s) (qidx_node d);
          s \<leftarrow> upd_dir (s\<lparr>qh := h\<rparr>) a (\<lambda>d. d\<lparr>qidx_node := None\<rparr>);
          Some (s\<lparr>queue_count := size_dec (queue_count s)\<rparr>)
        })
   }"

definition remove_from_didname :: "dcache \<Rightarrow> addr \<Rightarrow> bool \<Rightarrow> dcache option" where
  "remove_from_didname s a noshrink = do {
     d \<leftarrow> dirs s a;
     case d_didname_node d of
       None \<Rightarrow> Some s
     | Some n \<Rightarrow> do {
         s \<leftarrow> name_delete s noshrink n;
         upd_dir s a (\<lambda>d. d\<lparr>d_didname_node := None\<rparr>)
       }
   }"

definition remove_from_dircache :: "dcache \<Rightarrow> addr \<Rightarrow> bool \<Rightarrow> dcache option" where
  "remove_from_dircache s a noshrink = do {
     d \<leftarrow> dirs s a;
     case d_index_node d of
       None \<Rightarrow> Some s
     | Some n \<Rightarrow> do {
         s \<leftarrow> did_delete s noshrink n;
         s \<leftarrow> upd_dir s a (\<lambda>d. d\<lparr>d_index_node := None, d_flags := d_flags d AND NOT DIRF_INDEXED\<rparr>);
         AFP_ASSERT (vid_entry_count s (d_vid d) > 0);
         Some (s\<lparr>vid_entry_count := (vid_entry_count s)(d_vid d := vid_entry_count s (d_vid d) - 1)\<rparr>)
       }
   }"

definition purge_pfd :: "dcache \<Rightarrow> addr \<Rightarrow> dcache option" where
  "purge_pfd s a = do {
     d \<leftarrow> dirs s a;
     Some (if is_file d then s else s\<lparr>pfd_purged := pfd_purged s @ [(d_vid d, d_did d)]\<rparr>)
   }"

definition dircache_remove :: "dcache \<Rightarrow> addr \<Rightarrow> 32 word \<Rightarrow> dcache option" where
  "dircache_remove s a flags = do {
     AFP_ASSERT (flags AND NOT (QUEUE_INDEX OR DIDNAME_INDEX OR DIRCACHE OR DIRCACHE_NOSHRINK) = 0);
     AFP_ASSERT (\<not> has_flag flags DIRCACHE_NOSHRINK \<or> has_flag flags (DIRCACHE OR DIDNAME_INDEX));
     d \<leftarrow> dirs s a;
     AFP_ASSERT (\<forall>n \<in> set_option (d_didname_node d). hnode_get (index_didname s) n = Some a);
     AFP_ASSERT (\<forall>n \<in> set_option (d_index_node d). hnode_get (dircache_tab s) n = Some a);
     AFP_ASSERT (\<not> (has_flag flags DIRCACHE \<and> d_index_node d = None \<and> is_indexed d));
     AFP_ASSERT (\<forall>n \<in> set_option (qidx_node d). get_data (qh s) n = Some a);
     let noshrink = has_flag flags DIRCACHE_NOSHRINK;
     s \<leftarrow> (if has_flag flags QUEUE_INDEX then remove_from_queue s a else Some s);
     s \<leftarrow> (if has_flag flags DIDNAME_INDEX then remove_from_didname s a noshrink else Some s);
     s \<leftarrow> (if has_flag flags DIRCACHE then remove_from_dircache s a noshrink else Some s);
     s \<leftarrow> (if has_flag flags DIRCACHE then purge_pfd s a else Some s);
     Some (s\<lparr>dstat := (dstat s)\<lparr>st_removed := st_removed (dstat s) + 1\<rparr>\<rparr>)
   }"

subsection \<open>Eviction to the ghost lists\<close>

definition arc_ghost_trim_candidate :: "qheap \<Rightarrow> addr option \<Rightarrow> addr option \<Rightarrow> addr option option" where
  "arc_ghost_trim_candidate h q skip =
     (case q of
        None \<Rightarrow> Some None
      | Some q \<Rightarrow> do {
          node \<leftarrow> get_next h q;
          if node = q then Some None
          else do {
            c \<leftarrow> qcells h node;
            node \<leftarrow> (if qdata c = skip then get_next h node else Some node);
            if node = q then Some None
            else do {
              c \<leftarrow> qcells h node;
              if qdata c = None then Some None else Some (Some node)
            }
          }
        })"

text \<open>
  Releasing a ghost that has left its list: both indexes drop it and the entry is retired.
\<close>

definition drop_entry :: "dcache \<Rightarrow> addr \<Rightarrow> dcache option" where
  "drop_entry s g = do {
     s \<leftarrow> upd_dir s g (\<lambda>d. d\<lparr>qidx_node := None\<rparr>);
     s \<leftarrow> dircache_remove s g (DIRCACHE OR DIDNAME_INDEX);
     dircache_defer_free s g
   }"

definition arc_ensure_ghost_capacity :: "dcache \<Rightarrow> arc_list_t \<Rightarrow> dcache option" where
  "arc_ensure_ghost_capacity s target_list = do {
     AFP_ASSERT (target_list = ARC_B1 \<or> target_list = ARC_B2);
     if b1_size (arc s) + b2_size (arc s) < arc_c (arc s) then Some s
     else do {
       let target_queue = (if target_list = ARC_B1 then arc_b1 (arc s) else arc_b2 (arc s));
       victim_node \<leftarrow> arc_ghost_trim_candidate (qh s) target_queue (arc_promoting_ghost s);
       case victim_node of
         None \<Rightarrow> Some s
       | Some node \<Rightarrow> do {
           ghost \<leftarrow> get_data (qh s) node;
           (_, h) \<leftarrow> queue_remove (qh s) (Some node);
           let A = arc s;
           let A = (if target_list = ARC_B1
                    then (if b1_size A > 0 then A\<lparr>b1_size := b1_size A - 1\<rparr> else A)
                    else (if b2_size A > 0 then A\<lparr>b2_size := b2_size A - 1\<rparr> else A));
           drop_entry (s\<lparr>qh := h, arc := A\<rparr>) ghost
         }
     }
   }"

definition arc_find_victim :: "dcache \<Rightarrow> addr option \<Rightarrow> nat \<Rightarrow> addr option option" where
  "arc_find_victim s queue queue_size =
     (if queue_size = 0 then Some None
      else do {
        q \<leftarrow> queue;
        n \<leftarrow> get_next (qh s) q;
        if n = q then Some None
        else do {
          c \<leftarrow> qcells (qh s) n;
          case qdata c of
            None \<Rightarrow> Some None
          | Some victim \<Rightarrow> do {
              d \<leftarrow> dirs s victim;
              if qidx_node d = None then Some None
              else if curdir s \<noteq> Some victim then Some (Some victim)
              else if queue_size < 2 then Some None
              else do {
                n2 \<leftarrow> get_next (qh s) n;
                if n2 = q then Some None
                else do {
                  c2 \<leftarrow> qcells (qh s) n2;
                  case qdata c2 of
                    None \<Rightarrow> Some None
                  | Some victim \<Rightarrow> do {
                      d \<leftarrow> dirs s victim;
                      if qidx_node d = None \<or> curdir s = Some victim then Some None
                      else Some (Some victim)
                    }
                }
              }
            }
        }
      })"

definition ea_cache_free :: "dir \<Rightarrow> dir" where
  "ea_cache_free d = d\<lparr>dcache_eanames := None, dcache_eavals := None, dcache_ealen := 0, dcache_eavlen := 0\<rparr>"

definition arc_evict_to_ghost ::
  "dcache \<Rightarrow> addr \<Rightarrow> addr option \<Rightarrow> addr option \<Rightarrow> arc_list_t \<Rightarrow> dcache option" where
  "arc_evict_to_ghost s victim src dst dst_list = do {
     s \<leftarrow> arc_ensure_ghost_capacity s dst_list;
     d \<leftarrow> dirs s victim;
     (r, h) \<leftarrow> queue_move_to_tail_of (qh s) src dst (qidx_node d);
     AFP_ASSERT (r \<noteq> None);
     let s = s\<lparr>qh := h,
               ea_dropped := ea_dropped s + (if dcache_eanames d \<noteq> None \<or> dcache_eavals d \<noteq> None then 1 else 0)\<rparr>;
     s \<leftarrow> upd_dir s victim ea_cache_free;
     s \<leftarrow> upd_dir s victim (\<lambda>d. d\<lparr>d_flags := d_flags d OR DIRF_ARC_GHOST, arc_list := dst_list\<rparr>);
     let A = arc s;
     let st = astats A;
     Some (s\<lparr>arc :=
       (if dst_list = ARC_B1
        then A\<lparr>t1_size := size_dec (t1_size A), b1_size := b1_size A + 1,
               astats := st\<lparr>evictions_t1 := evictions_t1 st + 1\<rparr>\<rparr>
        else A\<lparr>t2_size := size_dec (t2_size A), b2_size := b2_size A + 1,
               astats := st\<lparr>evictions_t2 := evictions_t2 st + 1\<rparr>\<rparr>)\<rparr>)
   }"

text \<open>\<open>arc_replace\<close>: the result is 0, or -1 when both lists are blocked.\<close>

definition arc_replace :: "dcache \<Rightarrow> bool \<Rightarrow> (int \<times> dcache) option" where
  "arc_replace s in_b2 = (let A = arc s in
     if t1_size A \<ge> 1 \<and> ((in_b2 \<and> t1_size A = arc_p A) \<or> t1_size A > arc_p A)
     then do {
       victim \<leftarrow> arc_find_victim s (arc_t1 A) (t1_size A);
       case victim of
         Some v \<Rightarrow> do {
           s \<leftarrow> arc_evict_to_ghost s v (arc_t1 A) (arc_b1 A) ARC_B1;
           s \<leftarrow> arc_verify_invariants s;
           Some (0, s)
         }
       | None \<Rightarrow> do {
           victim \<leftarrow> arc_find_victim s (arc_t2 A) (t2_size A);
           case victim of
             None \<Rightarrow> Some (-1, s)
           | Some v \<Rightarrow> do {
               s \<leftarrow> arc_evict_to_ghost s v (arc_t2 A) (arc_b2 A) ARC_B2;
               s \<leftarrow> arc_verify_invariants s;
               Some (0, s)
             }
         }
     }
     else do {
       victim \<leftarrow> arc_find_victim s (arc_t2 A) (t2_size A);
       case victim of
         Some v \<Rightarrow> do {
           s \<leftarrow> arc_evict_to_ghost s v (arc_t2 A) (arc_b2 A) ARC_B2;
           s \<leftarrow> arc_verify_invariants s;
           Some (0, s)
         }
       | None \<Rightarrow> do {
           victim \<leftarrow> arc_find_victim s (arc_t1 A) (t1_size A);
           case victim of
             None \<Rightarrow> Some (-1, s)
           | Some v \<Rightarrow> do {
               s \<leftarrow> arc_evict_to_ghost s v (arc_t1 A) (arc_b1 A) ARC_B1;
               s \<leftarrow> arc_verify_invariants s;
               Some (0, s)
             }
         }
     })"

subsection \<open>The four cases of ARC\<close>

definition arc_case_i :: "dcache \<Rightarrow> addr \<Rightarrow> dcache option" where
  "arc_case_i s a = do {
     d \<leftarrow> dirs s a;
     if arc_list d = ARC_T1 then
       (if qidx_node d = None then Some s
        else do {
          (r, h) \<leftarrow> queue_move_to_tail_of (qh s) (arc_t1 (arc s)) (arc_t2 (arc s)) (qidx_node d);
          AFP_ASSERT (r \<noteq> None);
          let A = arc s;
     let st = astats A;
          let s = s\<lparr>qh := h, arc := A\<lparr>t1_size := size_dec (t1_size A), t2_size := t2_size A + 1,
             astats := st\<lparr>hits_t1 := hits_t1 st + 1, promotions_t1_to_t2 := promotions_t1_to_t2 st + 1\<rparr>\<rparr>\<rparr>;
          s \<leftarrow> upd_dir s a (\<lambda>d. d\<lparr>arc_list := ARC_T2\<rparr>);
          arc_verify_invariants s
        })
     else
       (if qidx_node d = None then Some s
        else do {
          (r, h) \<leftarrow> queue_move_to_tail (qh s) (arc_t2 (arc s)) (qidx_node d);
          AFP_ASSERT (r \<noteq> None);
          let A = arc s;
     let st = astats A;
          let s = s\<lparr>qh := h, arc := A\<lparr>astats := st\<lparr>hits_t2 := hits_t2 st + 1\<rparr>\<rparr>\<rparr>;
          s \<leftarrow> upd_dir s a (\<lambda>d. d\<lparr>arc_list := ARC_T2\<rparr>);
          arc_verify_invariants s
        })
   }"

text \<open>The two adaptations of \<open>p\<close> with their statistics.\<close>

definition adapt_up :: "arc_cache \<Rightarrow> arc_cache" where
  "adapt_up A =
     (let delta = (if b1_size A > 0 \<and> b2_size A > 0
                   then (if b2_size A div b1_size A > 1 then b2_size A div b1_size A else 1) else 1);
          p = (if arc_p A + delta > arc_c A then arc_c A else arc_p A + delta);
          st = astats A;
          st = (if p \<noteq> arc_p A
                then st\<lparr>adaptations := adaptations st + 1, p_increases := p_increases st + 1,
                        p_max := (if p > p_max st then p else p_max st)\<rparr>
                else st)
      in A\<lparr>arc_p := p, astats := st\<rparr>)"

definition adapt_down :: "arc_cache \<Rightarrow> arc_cache" where
  "adapt_down A =
     (let delta = (if b1_size A > 0 \<and> b2_size A > 0
                   then (if b1_size A div b2_size A > 1 then b1_size A div b2_size A else 1) else 1);
          p = (if arc_p A > delta then arc_p A - delta else 0);
          st = astats A;
          st = (if p \<noteq> arc_p A
                then st\<lparr>adaptations := adaptations st + 1, p_decreases := p_decreases st + 1,
                        p_min := (if p < p_min st then p else p_min st)\<rparr>
                else st)
      in A\<lparr>arc_p := p, astats := st\<rparr>)"

definition arc_case_ii_adapt_and_replace :: "dcache \<Rightarrow> addr \<Rightarrow> dcache option" where
  "arc_case_ii_adapt_and_replace s ghost = do {
     d \<leftarrow> dirs s ghost;
     AFP_ASSERT (arc_list d = ARC_B1);
     AFP_ASSERT (is_ghost d);
     let s = s\<lparr>arc := adapt_up (arc s)\<rparr>;
     AFP_ASSERT (qidx_node d \<noteq> None);
     (r, s) \<leftarrow> arc_replace (s\<lparr>arc_promoting_ghost := Some ghost\<rparr>) False;
     let s = s\<lparr>arc_promoting_ghost := None\<rparr>;
     d \<leftarrow> dirs s ghost;
     (r, h) \<leftarrow> queue_move_to_tail_of (qh s) (arc_b1 (arc s)) (arc_t2 (arc s)) (qidx_node d);
     AFP_ASSERT (r \<noteq> None);
     s \<leftarrow> upd_dir (s\<lparr>qh := h\<rparr>) ghost
           (\<lambda>d. d\<lparr>d_flags := d_flags d AND NOT DIRF_ARC_GHOST, arc_list := ARC_T2\<rparr>);
     let A = arc s;
     let st = astats A;
     arc_verify_invariants (s\<lparr>arc := A\<lparr>b1_size := size_dec (b1_size A), t2_size := t2_size A + 1,
         astats := st\<lparr>ghost_hits_b1 := ghost_hits_b1 st + 1\<rparr>\<rparr>\<rparr>)
   }"

definition arc_case_iii_adapt_and_replace :: "dcache \<Rightarrow> addr \<Rightarrow> dcache option" where
  "arc_case_iii_adapt_and_replace s ghost = do {
     d \<leftarrow> dirs s ghost;
     AFP_ASSERT (arc_list d = ARC_B2);
     AFP_ASSERT (is_ghost d);
     let s = s\<lparr>arc := adapt_down (arc s)\<rparr>;
     AFP_ASSERT (qidx_node d \<noteq> None);
     (r, s) \<leftarrow> arc_replace (s\<lparr>arc_promoting_ghost := Some ghost\<rparr>) True;
     let s = s\<lparr>arc_promoting_ghost := None\<rparr>;
     d \<leftarrow> dirs s ghost;
     (r, h) \<leftarrow> queue_move_to_tail_of (qh s) (arc_b2 (arc s)) (arc_t2 (arc s)) (qidx_node d);
     AFP_ASSERT (r \<noteq> None);
     s \<leftarrow> upd_dir (s\<lparr>qh := h\<rparr>) ghost
           (\<lambda>d. d\<lparr>d_flags := d_flags d AND NOT DIRF_ARC_GHOST, arc_list := ARC_T2\<rparr>);
     let A = arc s;
     let st = astats A;
     arc_verify_invariants (s\<lparr>arc := A\<lparr>b2_size := size_dec (b2_size A), t2_size := t2_size A + 1,
         astats := st\<lparr>ghost_hits_b2 := ghost_hits_b2 st + 1\<rparr>\<rparr>\<rparr>)
   }"

text \<open>Deleting the oldest ghost of a list: \<open>dequeue\<close>, then \<open>drop_entry\<close>.\<close>

definition arc_case_iv_make_room :: "dcache \<Rightarrow> dcache option" where
  "arc_case_iv_make_room s =
     (let A = arc s; l1 = t1_size A + b1_size A; l2 = t2_size A + b2_size A in
      if l1 = arc_c A then
        (if t1_size A < arc_c A then do {
           (ghost, h) \<leftarrow> dequeue (qh s) (arc_b1 A);
           let s = s\<lparr>qh := h\<rparr>;
           s \<leftarrow> (case ghost of
                   None \<Rightarrow> Some s
                 | Some g \<Rightarrow> drop_entry (s\<lparr>arc := (arc s)\<lparr>b1_size := size_dec (b1_size (arc s))\<rparr>\<rparr>) g);
           (r, s) \<leftarrow> arc_replace s False;
           Some s
         }
         else do {
           v \<leftarrow> arc_find_victim s (arc_t1 A) (t1_size A);
           v \<leftarrow> (if v = None then arc_find_victim s (arc_t2 A) (t2_size A) else Some v);
           case v of
             None \<Rightarrow> Some s
           | Some victim \<Rightarrow> do {
               d \<leftarrow> dirs s victim;
               (_, h) \<leftarrow> queue_remove (qh s) (qidx_node d);
               let s = s\<lparr>qh := h, arc := (if arc_list d = ARC_T1
                   then (arc s)\<lparr>t1_size := size_dec (t1_size (arc s))\<rparr>
                   else (arc s)\<lparr>t2_size := size_dec (t2_size (arc s))\<rparr>)\<rparr>;
               drop_entry s victim
             }
         })
      else if l1 < arc_c A \<and> l1 + l2 \<ge> arc_c A then do {
        s \<leftarrow> (if l1 + l2 = 2 * arc_c A then do {
                (ghost, h) \<leftarrow> dequeue (qh s) (arc_b2 A);
                let s = s\<lparr>qh := h\<rparr>;
                case ghost of
                  None \<Rightarrow> Some s
                | Some g \<Rightarrow> drop_entry (s\<lparr>arc := (arc s)\<lparr>b2_size := size_dec (b2_size (arc s))\<rparr>\<rparr>) g
              }
              else Some s);
        (r, s) \<leftarrow> arc_replace s False;
        Some s
      }
      else Some s)"

definition arc_case_iv_insert :: "dcache \<Rightarrow> addr \<Rightarrow> dcache option" where
  "arc_case_iv_insert s a = do {
     q \<leftarrow> arc_t1 (arc s);
     (n, h) \<leftarrow> enqueue (qh s) q (Some a);
     s \<leftarrow> upd_dir (s\<lparr>qh := h\<rparr>) a (\<lambda>d. d\<lparr>qidx_node := n\<rparr>);
     AFP_ASSERT (n \<noteq> None);
     let s = s\<lparr>arc := (arc s)\<lparr>t1_size := t1_size (arc s) + 1\<rparr>\<rparr>;
     s \<leftarrow> upd_dir s a (\<lambda>d. d\<lparr>arc_list := ARC_T1\<rparr>);
     let total_cached = t1_size (arc s) + t2_size (arc s);
     arc_verify_invariants
       (if total_cached > queue_count_max s then s\<lparr>queue_count_max := total_cached\<rparr> else s)
   }"

subsection \<open>LRU eviction and validation sampling\<close>

text \<open>\<open>AFPobj\<close> is the session object, \<open>None\<close> before it exists.\<close>

definition validation_freq :: "afp_options option \<Rightarrow> nat" where
  "validation_freq AFPobj =
     (let freq = (case AFPobj of Some opts \<Rightarrow> dircache_validation_freq opts | None \<Rightarrow> 0)
      in if freq \<noteq> 0 then freq else DEFAULT_DIRCACHE_VALIDATION_FREQ)"

definition should_validate_cache_entry :: "afp_options option \<Rightarrow> dcache \<Rightarrow> bool \<times> dcache" where
  "should_validate_cache_entry AFPobj s =
     (let count = validation_counter s
      in (unat (count + 1) mod validation_freq AFPobj = 0, s\<lparr>validation_counter := count + 1\<rparr>))"

fun evict_loop :: "nat \<Rightarrow> dcache \<Rightarrow> dcache option" where
  "evict_loop 0 s = Some s"
| "evict_loop (Suc i) s = do {
     (x, h) \<leftarrow> dequeue (qh s) (index_queue s);
     a \<leftarrow> x;
     let s = s\<lparr>qh := h, queue_count := size_dec (queue_count s)\<rparr>;
     s \<leftarrow> upd_dir s a (\<lambda>d. d\<lparr>qidx_node := None\<rparr>);
     if curdir s = Some a then do {
       q \<leftarrow> index_queue s;
       (n, h) \<leftarrow> enqueue (qh s) q (Some a);
       s \<leftarrow> upd_dir (s\<lparr>qh := h\<rparr>) a (\<lambda>d. d\<lparr>qidx_node := n\<rparr>);
       AFP_ASSERT (n \<noteq> None);
       evict_loop i (s\<lparr>queue_count := queue_count s + 1\<rparr>)
     }
     else do {
       s \<leftarrow> dircache_remove s a (DIRCACHE OR DIDNAME_INDEX);
       s \<leftarrow> dircache_defer_free s a;
       evict_loop i s
     }
   }"

definition dircache_evict :: "dcache \<Rightarrow> dcache option" where
  "dircache_evict s = do {
     s \<leftarrow> evict_loop DIRCACHE_FREE_QUANTUM s;
     AFP_ASSERT (queue_count s = hash_nodecount (dircache_tab s));
     Some (s\<lparr>dstat := (dstat s)\<lparr>st_evicted := st_evicted (dstat s) + DIRCACHE_FREE_QUANTUM\<rparr>\<rparr>)
   }"

subsection \<open>The interface\<close>

definition dircache_lookup_did :: "dcache \<Rightarrow> vol \<Rightarrow> cnid_t \<Rightarrow> addr option option" where
  "dircache_lookup_did s vol did =
     (if did = CNID_INVALID \<or> ntohl did < CNID_START then Some None
      else do {
        hn \<leftarrow> did_lookup s (OnStack (zero_dir\<lparr>d_vid := v_vid vol, d_did := did\<rparr>));
        case hn of
          None \<Rightarrow> Some None
        | Some n \<Rightarrow> do {
            d \<leftarrow> dirs s (hash_data n);
            Some (if is_ghost d then None else Some (hash_data n))
          }
      })"

definition dircache_lookup_parent :: "dcache \<Rightarrow> vol \<Rightarrow> cnid_t \<Rightarrow> addr option option" where
  "dircache_lookup_parent s vol did =
     (if did = DIRDID_ROOT then Some (v_root vol)
      else do {
        r \<leftarrow> dircache_lookup_did s vol did;
        case r of
          None \<Rightarrow> Some None
        | Some a \<Rightarrow> do {
            d \<leftarrow> dirs s a;
            Some (if is_file d then None else Some a)
          }
      })"

definition dircache_expunge_duplicate :: "dcache \<Rightarrow> addr \<Rightarrow> bool \<Rightarrow> (bool \<times> dcache) option" where
  "dircache_expunge_duplicate s dup took_curdir = do {
     d \<leftarrow> dirs s dup;
     AFP_ASSERT (d_did d \<noteq> DIRDID_ROOT_PARENT \<and> d_did d \<noteq> DIRDID_ROOT \<and> d_did d \<noteq> CNID_INVALID);
     let (took_curdir, s) =
       (if curdir s = Some dup \<and> \<not> is_file d then (True, s\<lparr>curdir := None\<rparr>) else (took_curdir, s));
     s \<leftarrow> dircache_remove s dup (DIRCACHE OR DIDNAME_INDEX OR QUEUE_INDEX);
     s \<leftarrow> dircache_defer_free s dup;
     Some (took_curdir, s\<lparr>dstat := (dstat s)\<lparr>st_expunged := st_expunged (dstat s) + 1\<rparr>\<rparr>)
   }"

definition curdir_fallback :: "dcache \<Rightarrow> vol \<Rightarrow> addr" where
  "curdir_fallback s vol = (case v_root vol of Some r \<Rightarrow> r | None \<Rightarrow> rootParent s)"

definition dircache_add :: "dcache \<Rightarrow> vol \<Rightarrow> addr \<Rightarrow> (int \<times> dcache) option" where
  "dircache_add s vol a = do {
     d \<leftarrow> dirs s a;
     AFP_ASSERT (ntohl (d_pdid d) \<ge> 2);
     AFP_ASSERT (ntohl (d_did d) \<ge> CNID_START);
     AFP_ASSERT (d_vid d \<noteq> 0);
     AFP_ASSERT (hash_nodecount (dircache_tab s) \<le>
                 (if arc_enabled (arc s) then dircache_maxsize s * 2 else dircache_maxsize s));
     hn \<leftarrow> did_lookup s (OnStack (zero_dir\<lparr>d_vid := d_vid d, d_did := d_did d\<rparr>));
     (took_curdir, s) \<leftarrow> (case hn of None \<Rightarrow> Some (False, s)
        | Some n \<Rightarrow> dircache_expunge_duplicate s (hash_data n) False);
     hn \<leftarrow> name_lookup s (OnStack (zero_dir\<lparr>d_vid := d_vid d, d_pdid := d_pdid d, d_u_name := d_u_name d\<rparr>));
     (took_curdir, s) \<leftarrow> (case hn of None \<Rightarrow> Some (took_curdir, s)
        | Some n \<Rightarrow> dircache_expunge_duplicate s (hash_data n) took_curdir);
     s \<leftarrow> (if arc_enabled (arc s) then arc_case_iv_make_room s
           else if hash_nodecount (dircache_tab s) \<ge> dircache_maxsize s then dircache_evict s
           else Some s);
     (n, s) \<leftarrow> did_insert s a;
     AFP_ASSERT (n \<noteq> None);
     s \<leftarrow> upd_dir s a (\<lambda>d. d\<lparr>d_index_node := n\<rparr>);
     let s = s\<lparr>vid_entry_count := (vid_entry_count s)(d_vid d := vid_entry_count s (d_vid d) + 1)\<rparr>;
     (n, s) \<leftarrow> name_insert s a;
     AFP_ASSERT (n \<noteq> None);
     s \<leftarrow> upd_dir s a (\<lambda>d. d\<lparr>d_didname_node := n\<rparr>);
     s \<leftarrow> upd_dir s a (\<lambda>d. d\<lparr>d_flags := d_flags d OR DIRF_INDEXED\<rparr>);
     let s = (if took_curdir
              then s\<lparr>curdir := Some (if is_file d then curdir_fallback s vol else a)\<rparr> else s);
     s \<leftarrow> (if arc_enabled (arc s) then arc_case_iv_insert s a
           else do {
             q \<leftarrow> index_queue s;
             (n, h) \<leftarrow> enqueue (qh s) q (Some a);
             AFP_ASSERT (n \<noteq> None);
             s \<leftarrow> upd_dir (s\<lparr>qh := h\<rparr>) a (\<lambda>d. d\<lparr>qidx_node := n\<rparr>);
             let s = s\<lparr>queue_count := queue_count s + 1\<rparr>;
             Some (if queue_count s > queue_count_max s then s\<lparr>queue_count_max := queue_count s\<rparr> else s)
           });
     let s = s\<lparr>dstat := (dstat s)\<lparr>st_added := st_added (dstat s) + 1\<rparr>\<rparr>;
     AFP_ASSERT (arc_enabled (arc s) \<or>
        (queue_count s = hash_nodecount (index_didname s) \<and> queue_count s = hash_nodecount (dircache_tab s)));
     Some (0, s)
   }"

definition dircache_reindex_didname :: "dcache \<Rightarrow> vol \<Rightarrow> addr \<Rightarrow> (int \<times> dcache) option" where
  "dircache_reindex_didname s vol a = do {
     d \<leftarrow> dirs s a;
     hn \<leftarrow> name_lookup s (AtDir a);
     s \<leftarrow> (case hn of None \<Rightarrow> Some s
        | Some n \<Rightarrow> do {
            (took_curdir, s) \<leftarrow> dircache_expunge_duplicate s (hash_data n) False;
            Some (if took_curdir
                  then s\<lparr>curdir := Some (if is_file d then curdir_fallback s vol else a)\<rparr> else s)
          });
     (n, s) \<leftarrow> name_insert s a;
     s \<leftarrow> upd_dir s a (\<lambda>d. d\<lparr>d_didname_node := n\<rparr>);
     Some (if n = None then -1 else 0, s)
   }"

definition dircache_promote :: "dcache \<Rightarrow> addr \<Rightarrow> dcache option" where
  "dircache_promote s a = do {
     d \<leftarrow> dirs s a;
     if arc_enabled (arc s) then
       (case arc_list d of
          ARC_T1 \<Rightarrow> arc_case_i s a
        | ARC_T2 \<Rightarrow> arc_case_i s a
        | ARC_B1 \<Rightarrow> arc_case_ii_adapt_and_replace s a
        | ARC_B2 \<Rightarrow> arc_case_iii_adapt_and_replace s a
        | ARC_NONE \<Rightarrow> Some s)
     else
       (if qidx_node d = None then Some s
        else do {
          (_, h) \<leftarrow> queue_move_to_tail (qh s) (index_queue s) (qidx_node d);
          Some (s\<lparr>qh := h\<rparr>)
        })
   }"

text \<open>\<open>dircache_purge_vol\<close>: the scan stops when every counted entry of the volume is gone.\<close>

partial_function (option) purge_vol_loop :: "16 word \<Rightarrow> nat \<Rightarrow> dcache \<Rightarrow> hscan_t \<Rightarrow> dcache option" where
  "purge_vol_loop vid remaining s scan =
     (if remaining = 0 then Some s
      else Option.bind (hash_scan_next (dircache_tab s) scan) (\<lambda>(node, scan).
        case node of
          None \<Rightarrow> Some s
        | Some n \<Rightarrow> Option.bind (dirs s (hash_data n)) (\<lambda>e.
            if d_vid e \<noteq> vid then purge_vol_loop vid remaining s scan
            else Option.bind
              (dircache_remove
                (if curdir s = Some (hash_data n) then s\<lparr>curdir := Some (rootParent s)\<rparr> else s)
                (hash_data n) (DIRCACHE_ALL OR DIRCACHE_NOSHRINK)) (\<lambda>s.
              Option.bind (dircache_defer_free s (hash_data n)) (\<lambda>s.
                purge_vol_loop vid (remaining - 1) s scan)))))"

definition dircache_purge_vol :: "dcache \<Rightarrow> vol \<Rightarrow> dcache option" where
  "dircache_purge_vol s vol =
     (let remaining = vid_entry_count s (v_vid vol)
      in if remaining = 0 then Some s
         else purge_vol_loop (v_vid vol) remaining s (hash_scan_begin (dircache_tab s)))"

subsection \<open>Configuration and start-up\<close>

function double_to :: "nat \<Rightarrow> nat \<Rightarrow> nat" where
  "double_to sz reqsize =
     (if 0 < sz \<and> sz < reqsize \<and> sz < MAX_DIRCACHE_SIZE then double_to (sz * 2) reqsize else sz)"
  by auto
termination by (relation "measure (\<lambda>(sz, reqsize). reqsize - sz)") auto

declare double_to.simps [simp del]

definition dircache_resolve_size :: "int \<Rightarrow> nat" where
  "dircache_resolve_size reqsize =
     (if reqsize > 0 \<and> reqsize \<ge> int MIN_DIRCACHE_SIZE \<and> reqsize \<le> int MAX_DIRCACHE_SIZE
      then double_to MIN_DIRCACHE_SIZE (nat reqsize)
      else if reqsize > int MAX_DIRCACHE_SIZE then MAX_DIRCACHE_SIZE
      else DEFAULT_DIRCACHE_SIZE)"

definition rfork_init :: "afp_options option \<Rightarrow> dcache \<Rightarrow> dcache option" where
  "rfork_init AFPobj s = (case AFPobj of
      None \<Rightarrow> Some s
    | Some opts \<Rightarrow>
       (let s = s\<lparr>rfork_cache_budget := dircache_rfork_budget opts * 1024,
                  rfork_max_entry_size := dircache_rfork_maxentry opts * 1024\<rparr>
        in if rfork_cache_budget s > 0 then do {
             (q, h) \<leftarrow> queue_init (qh s);
             let s = s\<lparr>qh := h, rfork_lru := q\<rparr>;
             Some (if q = None then s\<lparr>rfork_cache_budget := 0, rfork_max_entry_size := 0\<rparr> else s)
           }
           else Some s))"

definition lru_init :: "dcache \<Rightarrow> (int \<times> dcache) option" where
  "lru_init s = do {
     (q, h) \<leftarrow> queue_init (qh s);
     Some (if q = None then (-1, s\<lparr>qh := h, index_queue := q\<rparr>)
           else (0, s\<lparr>qh := h, index_queue := q, queue_count := 0\<rparr>))
   }"

definition ROOT_PARENT_NAME :: bytes where
  "ROOT_PARENT_NAME = map of_char ''ROOT_PARENT''"

definition dircache_init ::
  "dcache \<Rightarrow> afp_options option \<Rightarrow> int \<Rightarrow> allocator \<Rightarrow> allocator \<Rightarrow> (int \<times> dcache) option" where
  "dircache_init s AFPobj reqsize al1 al2 =
     (let use_arc = (case AFPobj of Some opts \<Rightarrow> dircache_mode opts = 1 | None \<Rightarrow> False);
          maxsize = dircache_resolve_size reqsize;
          hash_size = (if use_arc then maxsize * 2 else maxsize);
          s = s\<lparr>dircache_maxsize := maxsize\<rparr>
      in case hash_create hash_size al1 of
           None \<Rightarrow> Some (-1, s)
         | Some t1 \<Rightarrow> (let s = s\<lparr>dircache_tab := t1\<rparr> in
         case hash_create hash_size al2 of
           None \<Rightarrow> Some (-1, s)
         | Some t2 \<Rightarrow> do {
             (r, s) \<leftarrow> (if use_arc then arc_init (s\<lparr>index_didname := t2\<rparr>) maxsize
                        else lru_init (s\<lparr>index_didname := t2\<rparr>));
             if r \<noteq> 0 then Some (-1, s)
             else do {
               (q, h) \<leftarrow> queue_init (qh s);
               let s = s\<lparr>qh := h, invalid_dircache_entries := q\<rparr>;
               if q = None then do {
                 s \<leftarrow> arc_destroy s;
                 Some (-1, s)
               }
               else do {
                 s \<leftarrow> upd_dir s (rootParent s) (\<lambda>d. d\<lparr>d_did := DIRDID_ROOT_PARENT,
                        d_fullpath := Some ROOT_PARENT_NAME, d_u_name := ROOT_PARENT_NAME\<rparr>);
                 s \<leftarrow> rfork_init AFPobj (s\<lparr>validation_counter := 0\<rparr>);
                 Some (0, s)
               }
             }
           }))"

end
