(* ===== verification/Arc_Spec.thy ===== *)
theory Arc_Spec
  imports Dir_Entry
begin

text \<open>
  The adaptive replacement cache as an algorithm on four lists of entries, least recently used
  first, after the paper of Megiddo and Modha that \<open>etc/afpd/dircache.c\<close> cites, with the two
  additions of the source: the current directory is never evicted, and a ghost list at capacity
  is trimmed before it receives another ghost. The directory cache is shown to refine these
  functions; here are the bounds they keep.
\<close>

type_synonym lists = "arc_list_t \<Rightarrow> addr list"

definition ghost_list :: "arc_list_t \<Rightarrow> bool" where
  "ghost_list X \<longleftrightarrow> X = ARC_B1 \<or> X = ARC_B2"

definition spec_victim :: "addr option \<Rightarrow> addr list \<Rightarrow> addr option" where
  "spec_victim cur xs = (case xs of
      [] \<Rightarrow> None
    | v # vs \<Rightarrow> if cur \<noteq> Some v then Some v else (case vs of [] \<Rightarrow> None | w # _ \<Rightarrow> Some w))"

definition trim_cand :: "addr option \<Rightarrow> addr list \<Rightarrow> addr option" where
  "trim_cand skip xs = (case xs of
      [] \<Rightarrow> None
    | g # gs \<Rightarrow> if skip \<noteq> Some g then Some g else (case gs of [] \<Rightarrow> None | w # _ \<Rightarrow> Some w))"

definition move :: "arc_list_t \<Rightarrow> arc_list_t \<Rightarrow> addr \<Rightarrow> lists \<Rightarrow> lists" where
  "move X Y a A = (let B = A(X := remove1 a (A X)) in B(Y := B Y @ [a]))"

definition spec_trim :: "nat \<Rightarrow> addr option \<Rightarrow> arc_list_t \<Rightarrow> lists \<Rightarrow> lists" where
  "spec_trim c skip Y A =
     (if length (A ARC_B1) + length (A ARC_B2) < c then A
      else case trim_cand skip (A Y) of None \<Rightarrow> A | Some g \<Rightarrow> A(Y := remove1 g (A Y)))"

definition spec_evict :: "nat \<Rightarrow> addr option \<Rightarrow> arc_list_t \<Rightarrow> arc_list_t \<Rightarrow> addr \<Rightarrow> lists \<Rightarrow> lists" where
  "spec_evict c skip X Y v A = move X Y v (spec_trim c skip Y A)"

text \<open>\<open>REPLACE\<close>; \<open>None\<close> when neither list has an entry that may go.\<close>

definition spec_replace :: "nat \<Rightarrow> nat \<Rightarrow> addr option \<Rightarrow> addr option \<Rightarrow> bool \<Rightarrow> lists \<Rightarrow> lists option" where
  "spec_replace c p cur skip in_b2 A =
     (let n = length (A ARC_T1);
          v1 = map_option (\<lambda>v. spec_evict c skip ARC_T1 ARC_B1 v A) (spec_victim cur (A ARC_T1));
          v2 = map_option (\<lambda>v. spec_evict c skip ARC_T2 ARC_B2 v A) (spec_victim cur (A ARC_T2))
      in if n \<ge> 1 \<and> ((in_b2 \<and> n = p) \<or> n > p)
         then (if v1 \<noteq> None then v1 else v2) else (if v2 \<noteq> None then v2 else v1))"

definition replaced :: "nat \<Rightarrow> nat \<Rightarrow> addr option \<Rightarrow> addr option \<Rightarrow> bool \<Rightarrow> lists \<Rightarrow> lists" where
  "replaced c p cur skip in_b2 A = (case spec_replace c p cur skip in_b2 A of Some B \<Rightarrow> B | None \<Rightarrow> A)"

definition adapted_up :: "nat \<Rightarrow> nat \<Rightarrow> lists \<Rightarrow> nat" where
  "adapted_up c p A = min c (p + max 1 (length (A ARC_B2) div length (A ARC_B1)))"

definition adapted_down :: "nat \<Rightarrow> lists \<Rightarrow> nat" where
  "adapted_down p A = p - max 1 (length (A ARC_B1) div length (A ARC_B2))"

text \<open>The target size and the lists after an access to a cached entry or a ghost.\<close>

definition spec_access :: "nat \<Rightarrow> addr option \<Rightarrow> arc_list_t \<Rightarrow> addr \<Rightarrow> nat \<times> lists \<Rightarrow> nat \<times> lists" where
  "spec_access c cur X a = (\<lambda>(p, A). case X of
      ARC_T1 \<Rightarrow> (p, move ARC_T1 ARC_T2 a A)
    | ARC_T2 \<Rightarrow> (p, move ARC_T2 ARC_T2 a A)
    | ARC_B1 \<Rightarrow> (let p = adapted_up c p A in (p, move ARC_B1 ARC_T2 a (replaced c p cur (Some a) False A)))
    | ARC_B2 \<Rightarrow> (let p = adapted_down p A in (p, move ARC_B2 ARC_T2 a (replaced c p cur (Some a) True A)))
    | ARC_NONE \<Rightarrow> (p, A))"

definition spec_make_room :: "nat \<Rightarrow> nat \<Rightarrow> addr option \<Rightarrow> lists \<Rightarrow> lists" where
  "spec_make_room c p cur A =
     (let t1 = length (A ARC_T1); l1 = t1 + length (A ARC_B1);
          l2 = length (A ARC_T2) + length (A ARC_B2) in
      if l1 = c then
        (if t1 < c then replaced c p cur None False (A(ARC_B1 := tl (A ARC_B1)))
         else case spec_victim cur (A ARC_T1) of
             Some v \<Rightarrow> A(ARC_T1 := remove1 v (A ARC_T1))
           | None \<Rightarrow> (case spec_victim cur (A ARC_T2) of
                Some v \<Rightarrow> A(ARC_T2 := remove1 v (A ARC_T2)) | None \<Rightarrow> A))
      else if l1 < c \<and> l1 + l2 \<ge> c then
        replaced c p cur None False (if l1 + l2 = 2 * c then A(ARC_B2 := tl (A ARC_B2)) else A)
      else A)"

definition spec_add :: "nat \<Rightarrow> nat \<Rightarrow> addr option \<Rightarrow> addr \<Rightarrow> lists \<Rightarrow> lists" where
  "spec_add c p cur a A = (let B = spec_make_room c p cur A in B(ARC_T1 := B ARC_T1 @ [a]))"

definition spec_remove :: "addr \<Rightarrow> lists \<Rightarrow> lists" where
  "spec_remove a A = (\<lambda>X. remove1 a (A X))"

subsection \<open>Bounds\<close>

definition arc_bounds :: "nat \<Rightarrow> lists \<Rightarrow> bool" where
  "arc_bounds c A \<longleftrightarrow>
     length (A ARC_T1) + length (A ARC_T2) \<le> c \<and>
     length (A ARC_T1) + length (A ARC_B1) \<le> c \<and>
     length (A ARC_T1) + length (A ARC_T2) + length (A ARC_B1) + length (A ARC_B2) \<le> 2 * c"

definition disjoint_lists :: "lists \<Rightarrow> bool" where
  "disjoint_lists A \<longleftrightarrow> (\<forall>X. distinct (A X)) \<and> (\<forall>X Y a. a \<in> set (A X) \<longrightarrow> a \<in> set (A Y) \<longrightarrow> X = Y)"

lemma spec_victim_Some:
  "distinct xs \<Longrightarrow> spec_victim cur xs = Some v \<Longrightarrow> v \<in> set xs \<and> cur \<noteq> Some v"
  by (auto simp: spec_victim_def split: list.splits if_splits)

lemma spec_victim_None: "spec_victim cur xs = None \<longleftrightarrow> xs = [] \<or> (\<exists>v. xs = [v] \<and> cur = Some v)"
  by (auto simp: spec_victim_def split: list.splits)

lemma trim_cand_Some:
  "distinct xs \<Longrightarrow> trim_cand skip xs = Some g \<Longrightarrow> g \<in> set xs \<and> skip \<noteq> Some g"
  by (auto simp: trim_cand_def split: list.splits if_splits)

lemma spec_trim_cases:
  assumes "disjoint_lists A"
  obtains "spec_trim c skip Y A = A"
  | g where "spec_trim c skip Y A = A(Y := remove1 g (A Y))" "g \<in> set (A Y)" "skip \<noteq> Some g"
proof (cases "length (A ARC_B1) + length (A ARC_B2) < c \<or> trim_cand skip (A Y) = None")
  case True
  then show ?thesis using that(1) by (auto simp: spec_trim_def)
next
  case False
  then obtain g where "trim_cand skip (A Y) = Some g" by auto
  moreover have "distinct (A Y)" using assms by (simp add: disjoint_lists_def)
  ultimately show ?thesis using that(2)[of g] trim_cand_Some[of "A Y" skip g] False by (simp add: spec_trim_def)
qed

lemma disjoint_lists_shrink:
  "disjoint_lists A \<Longrightarrow> distinct xs \<Longrightarrow> set xs \<subseteq> set (A X) \<Longrightarrow> disjoint_lists (A(X := xs))"
  unfolding disjoint_lists_def by (metis fun_upd_apply subset_code(1))

lemma spec_trim_other: "X \<noteq> Y \<Longrightarrow> spec_trim c skip Y A X = A X"
  by (auto simp: spec_trim_def split: option.splits)

lemma spec_trim_subset: "set (spec_trim c skip Y A X) \<subseteq> set (A X)"
  by (auto simp: spec_trim_def split: option.splits dest: subsetD[OF set_remove1_subset])

lemma spec_trim_keeps_skip:
  assumes "disjoint_lists A" "a \<in> set (A X)" "skip = Some a"
  shows "a \<in> set (spec_trim c skip Y A X)"
  using assms(1) by (rule spec_trim_cases[of A c skip Y]) (use assms in \<open>auto simp: disjoint_lists_def\<close>)

lemma disjoint_lists_trim: "disjoint_lists A \<Longrightarrow> disjoint_lists (spec_trim c skip Y A)"
proof (rule spec_trim_cases[of A c skip Y])
  fix g assume "disjoint_lists A" "spec_trim c skip Y A = A(Y := remove1 g (A Y))"
  then show "disjoint_lists (spec_trim c skip Y A)"
    by (auto simp: disjoint_lists_def intro!: disjoint_lists_shrink dest: notin_set_remove1)
qed auto

lemma length_trim: "length (spec_trim c skip Y A X) \<le> length (A X)"
  by (auto simp: spec_trim_def length_remove1 split: option.splits)

lemma move_lengths:
  assumes "a \<in> set (A X)" "X \<noteq> Y"
  shows "Suc (length (move X Y a A X)) = length (A X)" "length (move X Y a A Y) = Suc (length (A Y))"
    "Z \<noteq> X \<Longrightarrow> Z \<noteq> Y \<Longrightarrow> move X Y a A Z = A Z"
  using assms length_pos_if_in_set[OF assms(1)] by (auto simp: move_def Let_def length_remove1)

lemma move_mem:
  assumes "disjoint_lists A" "a \<in> set (A X)"
  shows "b \<in> set (move X Y a A Z) \<longleftrightarrow> (if b = a then Z = Y else b \<in> set (A Z))"
  using assms by (auto simp: move_def Let_def disjoint_lists_def)

lemma disjoint_lists_move:
  assumes "disjoint_lists A" "a \<in> set (A X)"
  shows "disjoint_lists (move X Y a A)"
proof -
  have "distinct (move X Y a A Z)" for Z
    using assms by (auto simp: move_def Let_def disjoint_lists_def)
  then show ?thesis
    using assms unfolding disjoint_lists_def[of "move X Y a A"] move_mem[OF assms]
    by (auto simp: disjoint_lists_def split: if_splits)
qed

text \<open>What a replacement does to the sizes and the members of the lists.\<close>

lemma spec_evict_sizes:
  assumes d: "disjoint_lists A" and v: "v \<in> set (A X)" and Y: "X = ARC_T1 \<and> Y = ARC_B1 \<or> X = ARC_T2 \<and> Y = ARC_B2"
    and B: "B = spec_evict c skip X Y v A"
  shows "Suc (length (B X)) = length (A X)" "length (B Y) \<le> length (A Y) + 1"
    "Z \<noteq> X \<Longrightarrow> Z \<noteq> Y \<Longrightarrow> B Z = A Z" "disjoint_lists B"
    "b \<in> set (B Z) \<Longrightarrow> (if b = v then Z = Y else b \<in> set (A Z))"
    "b \<in> set (A Z) \<Longrightarrow> b \<noteq> v \<Longrightarrow> Z \<noteq> Y \<or> skip = Some b \<Longrightarrow> b \<in> set (B Z)"
proof -
  let ?A = "spec_trim c skip Y A"
  have XY: "X \<noteq> Y" using Y by auto
  have AX: "?A X = A X" using spec_trim_other[OF XY] .
  have v': "v \<in> set (?A X)" using v AX by simp
  note d' = disjoint_lists_trim[OF d, of c skip Y]
  note m = move_lengths[of v ?A X Y, OF v' XY]
  note mm = move_mem[OF d' v']
  show "Suc (length (B X)) = length (A X)" "Z \<noteq> X \<Longrightarrow> Z \<noteq> Y \<Longrightarrow> B Z = A Z" "disjoint_lists B"
    using m AX spec_trim_other disjoint_lists_move[OF d' v'] unfolding B spec_evict_def by auto
  show "length (B Y) \<le> length (A Y) + 1"
    using m(2) length_trim[of c skip Y A Y] unfolding B spec_evict_def by simp
  show "b \<in> set (B Z) \<Longrightarrow> (if b = v then Z = Y else b \<in> set (A Z))"
    using mm[of b Y Z] spec_trim_subset[of c skip Y A Z] unfolding B spec_evict_def by (auto split: if_splits)
  assume b: "b \<in> set (A Z)" "b \<noteq> v" "Z \<noteq> Y \<or> skip = Some b"
  have "b \<in> set (?A Z)"
  proof (cases "Z = Y")
    case True
    then show ?thesis using spec_trim_keeps_skip[OF d] b by auto
  next
    case False
    then show ?thesis using b spec_trim_other[of Z Y c skip A] by simp
  qed
  then show "b \<in> set (B Z)" using mm[of b Y Z] b(2) unfolding B spec_evict_def by simp
qed

lemma spec_replace_cases:
  assumes "disjoint_lists A"
  obtains (blocked) "spec_replace c p cur skip in_b2 A = None" "length (A ARC_T1) + length (A ARC_T2) \<le> 1"
  | (t1) v where "spec_replace c p cur skip in_b2 A = Some (spec_evict c skip ARC_T1 ARC_B1 v A)"
      "v \<in> set (A ARC_T1)" "cur \<noteq> Some v"
  | (t2) v where "spec_replace c p cur skip in_b2 A = Some (spec_evict c skip ARC_T2 ARC_B2 v A)"
      "v \<in> set (A ARC_T2)" "cur \<noteq> Some v"
proof (cases "spec_replace c p cur skip in_b2 A")
  case None
  then have n: "spec_victim cur (A ARC_T1) = None" "spec_victim cur (A ARC_T2) = None"
    by (auto simp: spec_replace_def Let_def split: if_splits)
  have "length (A ARC_T1) + length (A ARC_T2) \<le> 1"
  proof (rule ccontr)
    assume "\<not> ?thesis"
    then obtain v where "A ARC_T1 = [v]" "A ARC_T2 = [v]" using n unfolding spec_victim_None by auto
    then have "v \<in> set (A ARC_T1)" "v \<in> set (A ARC_T2)" by auto
    then show False using assms unfolding disjoint_lists_def by blast
  qed
  then show ?thesis using None blocked by blast
next
  case (Some B)
  have "(\<exists>v. spec_victim cur (A ARC_T1) = Some v \<and> B = spec_evict c skip ARC_T1 ARC_B1 v A) \<or>
        (\<exists>v. spec_victim cur (A ARC_T2) = Some v \<and> B = spec_evict c skip ARC_T2 ARC_B2 v A)"
    using Some by (auto simp: spec_replace_def Let_def split: if_splits)
  then show ?thesis
    using Some t1 t2 spec_victim_Some assms unfolding disjoint_lists_def by metis
qed

definition entries :: "lists \<Rightarrow> addr set" where
  "entries A = (\<Union>X. set (A X))"

lemma entriesI: "a \<in> set (A X) \<Longrightarrow> a \<in> entries A"
  by (auto simp: entries_def)

lemma entries_shrink: "set xs \<subseteq> set (A X) \<Longrightarrow> entries (A(X := xs)) \<subseteq> entries A"
  unfolding entries_def by (force split: if_splits)

lemma union_evict:
  assumes "\<And>b Z. b \<in> set (B Z) \<Longrightarrow> (if b = v then Z = Y else b \<in> set (A Z))" "v \<in> set (A X)"
  shows "entries B \<subseteq> entries A"
proof
  fix x assume "x \<in> entries B"
  then obtain Z where "x \<in> set (B Z)" unfolding entries_def by blast
  from assms(1)[OF this] show "x \<in> entries A" using assms(2) entriesI by (metis (full_types))
qed

text \<open>The contract of \<open>REPLACE\<close>, whether it evicted an entry or was blocked.\<close>

definition list_total :: "lists \<Rightarrow> nat" where
  "list_total A = length (A ARC_T1) + length (A ARC_T2) + length (A ARC_B1) + length (A ARC_B2)"

definition replace_ok :: "nat \<Rightarrow> addr option \<Rightarrow> addr option \<Rightarrow> lists \<Rightarrow> lists \<Rightarrow> bool" where
  "replace_ok c cur skip A B \<longleftrightarrow>
     disjoint_lists B \<and>
     length (B ARC_T1) + length (B ARC_T2) \<le> max 1 (length (A ARC_T1) + length (A ARC_T2) - 1) \<and>
     length (B ARC_T1) + length (B ARC_T2) \<le> length (A ARC_T1) + length (A ARC_T2) \<and>
     length (B ARC_T1) + length (B ARC_B1) \<le> length (A ARC_T1) + length (A ARC_B1) \<and>
     list_total B \<le> list_total A \<and> entries B \<subseteq> entries A \<and> B ARC_NONE = A ARC_NONE \<and>
     (\<forall>a \<in> set_option cur. a \<in> set (A ARC_T1) \<union> set (A ARC_T2) \<longrightarrow> a \<in> set (B ARC_T1) \<union> set (B ARC_T2)) \<and>
     (\<forall>a \<in> set_option skip. \<forall>X. a \<in> set (A X) \<longrightarrow> ghost_list X \<longrightarrow> a \<in> set (B X))"

lemma replace_ok_refl:
  "disjoint_lists A \<Longrightarrow> length (A ARC_T1) + length (A ARC_T2) \<le> 1 \<Longrightarrow> replace_ok c cur skip A A"
  by (auto simp: replace_ok_def)

lemma replace_ok_evict:
  assumes d: "disjoint_lists A" and v: "v \<in> set (A X)" "cur \<noteq> Some v"
    and Y: "X = ARC_T1 \<and> Y = ARC_B1 \<or> X = ARC_T2 \<and> Y = ARC_B2"
  shows "replace_ok c cur skip A (spec_evict c skip X Y v A)"
proof -
  define B where "B = spec_evict c skip X Y v A"
  note e = spec_evict_sizes[OF d v(1) Y B_def]
  have len: "Suc (length (B ARC_T1) + length (B ARC_T2)) = length (A ARC_T1) + length (A ARC_T2)"
    "length (B ARC_T1) + length (B ARC_B1) \<le> length (A ARC_T1) + length (A ARC_B1)"
    "list_total B \<le> list_total A"
    using e(1,2) e(3)[of ARC_T1] e(3)[of ARC_T2] e(3)[of ARC_B1] e(3)[of ARC_B2] Y
    unfolding list_total_def by auto
  have nv: "a \<noteq> v" if "a \<in> set (A Z)" "ghost_list Z" for a Z
    using that v(1) Y d unfolding disjoint_lists_def ghost_list_def by blast
  have "a \<in> set (B ARC_T1) \<union> set (B ARC_T2)" if "cur = Some a" "a \<in> set (A ARC_T1) \<union> set (A ARC_T2)" for a
    using that v(2) e(6)[of a ARC_T1] e(6)[of a ARC_T2] Y by auto
  moreover have "a \<in> set (B Z)" if "skip = Some a" "a \<in> set (A Z)" "ghost_list Z" for a Z
    using e(6)[OF that(2) nv[OF that(2,3)]] that(1) by blast
  moreover have "entries B \<subseteq> entries A" using union_evict[of B v Y A X] e(5) v(1) by blast
  moreover have "B ARC_NONE = A ARC_NONE" using e(3)[of ARC_NONE] Y by auto
  ultimately show ?thesis using len e(4) unfolding replace_ok_def B_def[symmetric] by auto
qed

lemma replaced_ok:
  assumes d: "disjoint_lists A"
  shows "replace_ok c cur skip A (replaced c p cur skip in_b2 A)"
  using d
proof (cases rule: spec_replace_cases[of A c p cur skip in_b2])
  case blocked
  then show ?thesis using replace_ok_refl[OF d] by (simp add: replaced_def)
next
  case (t1 v)
  then show ?thesis using replace_ok_evict[OF d] by (simp add: replaced_def)
next
  case (t2 v)
  then show ?thesis using replace_ok_evict[OF d] by (simp add: replaced_def)
qed

lemma replace_ok_bounds:
  assumes "replace_ok c cur skip A B" "arc_bounds c A"
  shows "arc_bounds c B" "2 \<le> c \<Longrightarrow> length (B ARC_T1) + length (B ARC_T2) < c"
  using assms unfolding replace_ok_def arc_bounds_def list_total_def by auto

text \<open>
  The bounds hold through every access and every addition, with room for one more entry when
  the insertion runs; the current directory stays cached.
\<close>

definition access_ok :: "nat \<Rightarrow> addr option \<Rightarrow> addr \<Rightarrow> lists \<Rightarrow> lists \<Rightarrow> bool" where
  "access_ok c cur a A B \<longleftrightarrow> arc_bounds c B \<and> disjoint_lists B \<and> last (B ARC_T2) = a \<and> B ARC_T2 \<noteq> [] \<and>
     entries B \<subseteq> entries A \<and> B ARC_NONE = A ARC_NONE \<and>
     (\<forall>b \<in> set_option cur. b \<in> set (A ARC_T1) \<union> set (A ARC_T2) \<longrightarrow> b \<in> set (B ARC_T1) \<union> set (B ARC_T2))"

lemma move_tail:
  "last (move X Y a A Y) = a" "move X Y a A Y \<noteq> []"
  "X \<noteq> ARC_NONE \<Longrightarrow> Y \<noteq> ARC_NONE \<Longrightarrow> move X Y a A ARC_NONE = A ARC_NONE"
  by (auto simp: move_def Let_def)

lemma access_cached:
  assumes d: "disjoint_lists A" and b: "arc_bounds c A" and a: "a \<in> set (A X)" "X = ARC_T1 \<or> X = ARC_T2"
  shows "access_ok c cur a A (move X ARC_T2 a A)"
proof -
  have "arc_bounds c (move X ARC_T2 a A)"
  proof (cases "X = ARC_T2")
    case True
    then show ?thesis using b a(1) length_pos_if_in_set[OF a(1)] unfolding arc_bounds_def
      by (auto simp: move_def Let_def length_remove1)
  next
    case False
    then show ?thesis using b a move_lengths[of a A X ARC_T2] unfolding arc_bounds_def by auto
  qed
  moreover have "b \<in> set (move X ARC_T2 a A ARC_T1) \<union> set (move X ARC_T2 a A ARC_T2)"
    if "b \<in> set (A ARC_T1) \<union> set (A ARC_T2)" for b
    using that unfolding Un_iff move_mem[OF d a(1)] by auto
  moreover have "entries (move X ARC_T2 a A) \<subseteq> entries A"
    using move_mem[OF d a(1)] a(1) by (intro union_evict) blast+
  ultimately show ?thesis
    using disjoint_lists_move[OF d a(1)] move_tail[of X ARC_T2 a A] a(2) unfolding access_ok_def by blast
qed

lemma access_ghost:
  assumes d: "disjoint_lists A" and b: "arc_bounds c A" and c: "2 \<le> c"
    and a: "a \<in> set (A X)" "X = ARC_B1 \<or> X = ARC_B2"
  shows "access_ok c cur a A (move X ARC_T2 a (replaced c p cur (Some a) in_b2 A))"
proof -
  define B where "B = replaced c p cur (Some a) in_b2 A"
  have r: "replace_ok c cur (Some a) A B" unfolding B_def by (rule replaced_ok[OF d])
  then have dB: "disjoint_lists B" and aB: "a \<in> set (B X)"
    using a by (auto simp: replace_ok_def ghost_list_def)
  note rb = replace_ok_bounds[OF r b]
  have "arc_bounds c (move X ARC_T2 a B)"
    using rb(1) rb(2)[OF c] aB a(2) move_lengths[of a B X ARC_T2] unfolding arc_bounds_def by auto
  moreover have "b \<in> set (move X ARC_T2 a B ARC_T1) \<union> set (move X ARC_T2 a B ARC_T2)"
    if "b \<in> set (B ARC_T1) \<union> set (B ARC_T2)" for b
    using that unfolding Un_iff move_mem[OF dB aB] by auto
  moreover have "entries (move X ARC_T2 a B) \<subseteq> entries B"
    using move_mem[OF dB aB] aB by (intro union_evict) blast+
  ultimately show ?thesis
    using r disjoint_lists_move[OF dB aB] move_tail[of X ARC_T2 a B] a(2)
    unfolding access_ok_def replace_ok_def B_def[symmetric] by (smt (verit) arc_list_t.distinct subset_trans)
qed

lemma access_ok_spec:
  assumes "disjoint_lists A" "arc_bounds c A" "2 \<le> c" "a \<in> set (A X)" "X \<noteq> ARC_NONE"
    and "spec_access c cur X a (p, A) = (p', B)"
  shows "access_ok c cur a A B" "p \<le> c \<Longrightarrow> p' \<le> c"
proof -
  show "access_ok c cur a A B"
    using assms access_cached[OF assms(1,2,4)] access_ghost[OF assms(1-4)]
    by (cases X) (auto simp: spec_access_def Let_def)
  show "p \<le> c \<Longrightarrow> p' \<le> c"
    using assms(5,6) by (cases X) (auto simp: spec_access_def Let_def adapted_up_def adapted_down_def)
qed

lemma tl_subset: "set (tl xs) \<subseteq> set xs"
  by (cases xs) auto

lemma disjoint_lists_tl: "disjoint_lists A \<Longrightarrow> disjoint_lists (A(X := tl (A X)))"
  by (rule disjoint_lists_shrink) (auto simp: disjoint_lists_def distinct_tl tl_subset)

definition room_ok :: "nat \<Rightarrow> addr option \<Rightarrow> lists \<Rightarrow> lists \<Rightarrow> bool" where
  "room_ok c cur A B \<longleftrightarrow> arc_bounds c B \<and> disjoint_lists B \<and> list_total B < 2 * c \<and>
     length (B ARC_T1) + length (B ARC_T2) < c \<and> length (B ARC_T1) + length (B ARC_B1) < c \<and>
     entries B \<subseteq> entries A \<and> B ARC_NONE = A ARC_NONE \<and>
     (\<forall>a \<in> set_option cur. a \<in> set (A ARC_T1) \<union> set (A ARC_T2) \<longrightarrow> a \<in> set (B ARC_T1) \<union> set (B ARC_T2))"

lemma room_replaced:
  assumes d: "disjoint_lists A" and b: "arc_bounds c A" and c: "2 \<le> c"
    and sub: "A' = A \<or> ghost_list X \<and> A' = A(X := tl (A X))"
    and less: "list_total A' < 2 * c" "length (A' ARC_T1) + length (A' ARC_B1) < c"
  shows "room_ok c cur A (replaced c p cur None in_b2 A')"
proof -
  define B where "B = replaced c p cur None in_b2 A'"
  have d': "disjoint_lists A'" using sub d disjoint_lists_tl by auto
  have r: "replace_ok c cur None A' B" unfolding B_def by (rule replaced_ok[OF d'])
  have b': "arc_bounds c A'" using sub b unfolding arc_bounds_def ghost_list_def by auto
  have u: "entries A' \<subseteq> entries A"
    using sub entries_shrink[OF tl_subset, of A X] by auto
  have t: "A' ARC_T1 = A ARC_T1" "A' ARC_T2 = A ARC_T2" "A' ARC_NONE = A ARC_NONE"
    using sub by (auto simp: ghost_list_def)
  show ?thesis
    using r u t less replace_ok_bounds[OF r b'] c
    unfolding room_ok_def replace_ok_def B_def[symmetric] by auto
qed

lemma make_room_ok:
  assumes d: "disjoint_lists A" and b: "arc_bounds c A" and c: "2 \<le> c"
  shows "room_ok c cur A (spec_make_room c p cur A)"
proof -
  let ?l1 = "length (A ARC_T1) + length (A ARC_B1)"
  consider (b1) "?l1 = c" "length (A ARC_T1) < c" | (t1) "?l1 = c" "\<not> length (A ARC_T1) < c"
    | (full) "?l1 < c" "list_total A = 2 * c" | (part) "?l1 < c" "c \<le> list_total A" "list_total A < 2 * c"
    | (free) "?l1 < c" "list_total A < c"
    using b unfolding arc_bounds_def list_total_def by linarith
  then show ?thesis
  proof cases
    case b1
    then have "spec_make_room c p cur A = replaced c p cur None False (A(ARC_B1 := tl (A ARC_B1)))"
      by (simp add: spec_make_room_def)
    moreover have "list_total (A(ARC_B1 := tl (A ARC_B1))) < 2 * c"
      using b b1 unfolding list_total_def arc_bounds_def by (cases "A ARC_B1") auto
    ultimately show ?thesis using room_replaced[OF d b c, of "A(ARC_B1 := tl (A ARC_B1))" ARC_B1] b1
      by (simp add: ghost_list_def)
  next
    case t1
    then have full: "length (A ARC_T1) = c" "A ARC_B1 = []" "A ARC_T2 = []"
      using b c length_0_conv[of "A ARC_B1"] length_0_conv[of "A ARC_T2"] unfolding arc_bounds_def by linarith+
    then obtain v where v: "spec_victim cur (A ARC_T1) = Some v"
      using c spec_victim_None[of cur "A ARC_T1"] by (cases "spec_victim cur (A ARC_T1)") auto
    have vm: "v \<in> set (A ARC_T1)" "cur \<noteq> Some v" using spec_victim_Some[OF _ v] d by (auto simp: disjoint_lists_def)
    have eq: "spec_make_room c p cur A = A(ARC_T1 := remove1 v (A ARC_T1))"
      using t1 v by (simp add: spec_make_room_def)
    have "disjoint_lists (A(ARC_T1 := remove1 v (A ARC_T1)))"
      using d by (intro disjoint_lists_shrink) (auto simp: disjoint_lists_def dest: notin_set_remove1)
    then show ?thesis
      using full vm b c entries_shrink[of "remove1 v (A ARC_T1)" A ARC_T1, OF set_remove1_subset]
      unfolding eq room_ok_def arc_bounds_def list_total_def
      by (auto simp: length_remove1 dest: notin_set_remove1 split: if_splits)
  next
    case full
    then have "spec_make_room c p cur A = replaced c p cur None False (A(ARC_B2 := tl (A ARC_B2)))"
      using c by (auto simp: spec_make_room_def list_total_def)
    moreover have "list_total (A(ARC_B2 := tl (A ARC_B2))) < 2 * c"
      using b full unfolding list_total_def arc_bounds_def by (cases "A ARC_B2") auto
    ultimately show ?thesis using room_replaced[OF d b c, of "A(ARC_B2 := tl (A ARC_B2))" ARC_B2] full
      by (simp add: ghost_list_def)
  next
    case part
    then have "spec_make_room c p cur A = replaced c p cur None False A"
      by (auto simp: spec_make_room_def list_total_def)
    then show ?thesis using room_replaced[OF d b c, of A] part by simp
  next
    case free
    then have "spec_make_room c p cur A = A" by (auto simp: spec_make_room_def list_total_def)
    then show ?thesis using free d b unfolding room_ok_def list_total_def by auto
  qed
qed

lemma spec_add_bounds:
  assumes "disjoint_lists A" "arc_bounds c A" "2 \<le> c"
  shows "arc_bounds c (spec_add c p cur a A)"
  using make_room_ok[OF assms, of cur p] unfolding spec_add_def Let_def room_ok_def arc_bounds_def list_total_def by auto

lemma spec_remove_bounds:
  assumes "arc_bounds c A"
  shows "arc_bounds c (spec_remove a A)"
proof -
  have "length (remove1 a xs) \<le> length xs" for xs :: "addr list" by (simp add: length_remove1)
  from this[of "A ARC_T1"] this[of "A ARC_T2"] this[of "A ARC_B1"] this[of "A ARC_B2"]
  show ?thesis using assms unfolding arc_bounds_def spec_remove_def by linarith
qed

end
