(* ===== verification/Dircache_Queues.thy ===== *)
theory Dircache_Queues
  imports Dircache Arc_Spec
begin

text \<open>
  The queue half of the cache invariant. \<open>qrep H h snt iv A\<close> says that in the node heap \<open>h\<close> the
  queue with sentinel \<open>snt X\<close> holds, from head to tail, the nodes of the entries \<open>A X\<close>, that
  every entry points back to its node, names its list and carries the ghost flag exactly on the
  ghost lists, and that nothing else points into the queues. One lemma for each of the ways in
  which the cache moves an entry.
\<close>

definition node_of :: "dir_heap \<Rightarrow> addr \<Rightarrow> addr" where
  "node_of H a = (case H a of Some d \<Rightarrow> (case qidx_node d of Some n \<Rightarrow> n | None \<Rightarrow> 0) | None \<Rightarrow> 0)"

definition queued :: "dir_heap \<Rightarrow> qheap \<Rightarrow> arc_list_t \<Rightarrow> addr \<Rightarrow> bool" where
  "queued H h X a \<longleftrightarrow> (\<exists>d n. H a = Some d \<and> qidx_node d = Some n \<and> get_data h n = Some a \<and>
     arc_list d = X \<and> (is_ghost d \<longleftrightarrow> ghost_list X))"

definition qmap :: "dir_heap \<Rightarrow> (arc_list_t \<Rightarrow> addr option) \<Rightarrow> addr option \<Rightarrow> (arc_list_t \<Rightarrow> addr list) \<Rightarrow>
    (addr \<rightharpoonup> addr list) \<Rightarrow> bool" where
  "qmap H snt iv A L \<longleftrightarrow>
     (\<forall>X q. snt X = Some q \<longrightarrow> L q = Some (map (node_of H) (A X))) \<and>
     (\<forall>X. snt X = None \<longrightarrow> A X = []) \<and>
     (\<forall>X Y q. snt X = Some q \<longrightarrow> snt Y = Some q \<longrightarrow> X = Y) \<and>
     (\<exists>q ns. iv = Some q \<and> L q = Some ns \<and> (\<forall>X. snt X \<noteq> Some q))"

definition qrep :: "dir_heap \<Rightarrow> qheap \<Rightarrow> (arc_list_t \<Rightarrow> addr option) \<Rightarrow> addr option \<Rightarrow>
    (arc_list_t \<Rightarrow> addr list) \<Rightarrow> bool" where
  "qrep H h snt iv A \<longleftrightarrow>
     (\<exists>L. qwf h L \<and> qmap H snt iv A L) \<and>
     (\<forall>X. \<forall>a \<in> set (A X). queued H h X a) \<and>
     (\<forall>a d. H a = Some d \<longrightarrow> qidx_node d \<noteq> None \<longrightarrow> a \<in> set (A (arc_list d)))"

lemma loose_list: "loose L n \<Longrightarrow> L q = Some xs \<Longrightarrow> n \<notin> set xs"
  by (auto simp: loose_def)

lemma node_of_cong: "H' a = H a \<Longrightarrow> node_of H' a = node_of H a"
  by (simp add: node_of_def)

lemma node_of_Some: "H a = Some d \<Longrightarrow> qidx_node d = Some n \<Longrightarrow> node_of H a = n"
  by (simp add: node_of_def)

lemma queued_other: "queued H h X a \<Longrightarrow> H' a = H a \<Longrightarrow> get_data h' (node_of H a) = get_data h (node_of H a) \<Longrightarrow>
   queued H' h' X a"
  by (auto simp: queued_def node_of_def)

lemma qrep_queued: "qrep H h snt iv A \<Longrightarrow> a \<in> set (A X) \<Longrightarrow> queued H h X a"
  by (auto simp: qrep_def)

lemma qrep_back: "qrep H h snt iv A \<Longrightarrow> H a = Some d \<Longrightarrow> qidx_node d \<noteq> None \<Longrightarrow> a \<in> set (A (arc_list d))"
  by (auto simp: qrep_def)

lemma qrep_entry:
  assumes "qrep H h snt iv A" "a \<in> set (A X)"
  obtains d n where "H a = Some d" "qidx_node d = Some n" "get_data h n = Some a" "arc_list d = X"
    "is_ghost d \<longleftrightarrow> ghost_list X" "node_of H a = n"
  using assms node_of_Some unfolding qrep_def queued_def by metis

lemma qrep_one_list: "qrep H h snt iv A \<Longrightarrow> a \<in> set (A X) \<Longrightarrow> a \<in> set (A Y) \<Longrightarrow> X = Y"
  by (metis qrep_entry option.inject)

lemma qrep_node_inj:
  assumes "qrep H h snt iv A" "a \<in> set (A X)" "b \<in> set (A Y)" "node_of H a = node_of H b"
  shows "a = b"
  using qrep_entry[OF assms(1,2)] qrep_entry[OF assms(1,3)] assms(4) by (metis option.inject)

lemma qrep_sentinel: "qrep H h snt iv A \<Longrightarrow> a \<in> set (A X) \<Longrightarrow> \<exists>q. snt X = Some q"
  unfolding qrep_def qmap_def by (cases "snt X") auto

lemma qrep_distinct:
  assumes "qrep H h snt iv A"
  shows "distinct (A X)"
proof (cases "snt X")
  case None
  then show ?thesis using assms by (auto simp: qrep_def qmap_def)
next
  case (Some q)
  then obtain L where "qwf h L" "L q = Some (map (node_of H) (A X))" using assms by (auto simp: qrep_def qmap_def)
  then show ?thesis using qwf_distinct by (metis distinct.simps(2) distinct_map)
qed

lemma qrep_iv: "qrep H h snt iv A \<Longrightarrow> \<exists>q. iv = Some q"
  by (auto simp: qrep_def qmap_def)

lemma qrep_node_neq:
  assumes "qrep H h snt iv A" "a \<in> set (A X)" "b \<in> set (A Y)" "a \<noteq> b"
  shows "node_of H a \<noteq> node_of H b"
  using qrep_node_inj[OF assms(1-3)] assms(4) by blast

lemma qrep_minus:
  assumes r: "qrep H h snt iv A" and A: "A X = xs @ a # ys"
  shows "b \<in> set ((A(X := xs @ ys)) Y) \<longleftrightarrow> b \<in> set (A Y) \<and> b \<noteq> a"
proof (cases "Y = X")
  case True
  then show ?thesis using A qrep_distinct[OF r, of X] by auto
next
  case False
  moreover have "a \<in> set (A X)" using A by simp
  ultimately have "a \<notin> set (A Y)" using qrep_one_list[OF r] by metis
  then show ?thesis using False by auto
qed

text \<open>Entries outside the queues may change at will; entries in them outside the queue fields.\<close>

lemma qrep_upd:
  assumes r: "qrep H h snt iv A" and H: "H a = Some d"
    and same: "qidx_node d' = qidx_node d" "qidx_node d \<noteq> None \<Longrightarrow> arc_list d' = arc_list d"
      "qidx_node d \<noteq> None \<Longrightarrow> is_ghost d' = is_ghost d"
  shows "qrep (H(a \<mapsto> d')) h snt iv A"
proof -
  have n: "node_of (H(a \<mapsto> d')) = node_of H" using H same(1) by (auto simp: node_of_def)
  have "queued (H(a \<mapsto> d')) h X b" if "queued H h X b" for X b
    using that H same by (auto simp: queued_def)
  then show ?thesis using r H same unfolding qrep_def qmap_def n by auto
qed

text \<open>The heap changes, the lists stay: an element goes into the queue of retired entries.\<close>

lemma qrep_retire:
  assumes r: "qrep H h snt iv A" and iv: "iv = Some q"
  obtains n h' where "enqueue h q (Some a) = Some (n, h')" "qrep H h' snt iv A"
proof -
  obtain L where L: "qwf h L" "qmap H snt iv A L" using r unfolding qrep_def by blast
  then obtain ns where ns: "L q = Some ns" "\<forall>X. snt X \<noteq> Some q" using iv unfolding qmap_def by blast
  obtain r0 h' where e: "enqueue h q (Some a) = Some (r0, h')"
    "case r0 of None \<Rightarrow> qwf h' L \<and> get_data h' = get_data h
     | Some n \<Rightarrow> loose L n \<and> qwf h' (L(q \<mapsto> ns @ [n])) \<and> get_data h' = (get_data h)(n := Some a)"
    using qwf_enqueue[OF L(1) ns(1)] by blast
  have d: "get_data h' (node_of H b) = get_data h (node_of H b)" if b: "b \<in> set (A X)" for b X
  proof -
    obtain q' where q': "snt X = Some q'" using qrep_sentinel[OF r b] by blast
    then have "L q' = Some (map (node_of H) (A X))" using L(2) by (auto simp: qmap_def)
    then have "loose L n \<Longrightarrow> node_of H b \<noteq> n" for n using b loose_list by (metis image_eqI set_map)
    then show ?thesis using e(2) by (auto split: option.splits)
  qed
  have "\<exists>L'. qwf h' L' \<and> qmap H snt iv A L'"
  proof (cases r0)
    case None
    then show ?thesis using e(2) L(2) by auto
  next
    case (Some n)
    have "qmap H snt iv A (L(q \<mapsto> ns @ [n]))" using L(2) ns iv unfolding qmap_def by auto
    then show ?thesis using e(2) Some by auto
  qed
  then have "qrep H h' snt iv A"
    using r d queued_other[of H h _ _ H h'] unfolding qrep_def by metis
  with e(1) show ?thesis by (rule that)
qed

text \<open>An entry leaves its queue and forgets its node.\<close>

lemma qrep_leave:
  assumes r: "qrep H h snt iv A" and A: "A X = xs @ a # ys" and H: "H a = Some d"
    and d': "qidx_node d' = None"
  obtains h' where "queue_remove h (qidx_node d) = Some (Some a, h')"
    "qrep (H(a \<mapsto> d')) h' snt iv (A(X := xs @ ys))"
proof -
  have aX: "a \<in> set (A X)" using A by simp
  obtain n where n: "qidx_node d = Some n" "get_data h n = Some a" "node_of H a = n"
    using qrep_entry[OF r aX] H by (metis option.inject)
  obtain L where L: "qwf h L" "qmap H snt iv A L" using r unfolding qrep_def by blast
  obtain q where q: "snt X = Some q" using qrep_sentinel[OF r aX] by blast
  let ?xs = "map (node_of H) xs" and ?ys = "map (node_of H) ys"
  have Lq: "L q = Some (?xs @ n # ?ys)" using L(2) q A n(3) by (auto simp: qmap_def)
  obtain h' where h': "queue_remove h (Some n) = Some (Some a, h')" "qwf h' (L(q \<mapsto> ?xs @ ?ys))"
    "get_data h' = (get_data h)(n := None)"
    using qwf_remove[OF L(1) Lq] n(2) by auto
  let ?H = "H(a \<mapsto> d')" and ?A = "A(X := xs @ ys)"
  have na: "b \<noteq> a" "b \<in> set (A Y)" if "b \<in> set (?A Y)" for b Y
    using qrep_minus[OF r A] that by blast+
  have no: "map (node_of ?H) (?A Y) = map (node_of H) (?A Y)" for Y
    using na by (intro map_cong) (auto intro!: node_of_cong)
  have "qmap ?H snt iv ?A (L(q \<mapsto> ?xs @ ?ys))"
    using L(2) q unfolding qmap_def no by auto
  moreover have "queued ?H h' Y b" if b: "b \<in> set (?A Y)" for Y b
    using qrep_node_neq[OF r na(2)[OF b] aX na(1)[OF b]] na(1)[OF b]
    by (intro queued_other[OF qrep_queued[OF r na(2)[OF b]]]) (simp_all add: h'(3) n(3))
  moreover have "b \<in> set (?A (arc_list e))" if "?H b = Some e" "qidx_node e \<noteq> None" for b e
  proof -
    have "b \<noteq> a" "H b = Some e" using that d' by (auto split: if_splits)
    then show ?thesis using qrep_back[OF r, of b e] that(2) A by auto
  qed
  ultimately have "qrep ?H h' snt iv ?A" using h'(2) unfolding qrep_def by blast
  then show ?thesis using h'(1) n(1) by (intro that) simp
qed

text \<open>An entry moves to the tail of another queue, or of its own.\<close>

lemma qrep_moved:
  assumes r: "qrep H h snt iv A" and A: "A X = xs @ a # ys" and H: "H a = Some d"
    and L: "qmap H snt iv A L" and q: "snt X = Some q" "snt Y = Some q'"
    and wf: "qwf h' (L(q \<mapsto> map (node_of H) (xs @ ys), q' \<mapsto> map (node_of H) ((A(X := xs @ ys)) Y @ [a])))"
    and dt: "get_data h' = get_data h"
    and d': "qidx_node d' = qidx_node d" "arc_list d' = Y" "is_ghost d' \<longleftrightarrow> ghost_list Y"
  shows "qrep (H(a \<mapsto> d')) h' snt iv (A(X := xs @ ys, Y := (A(X := xs @ ys)) Y @ [a]))"
proof -
  let ?H = "H(a \<mapsto> d')" and ?A = "A(X := xs @ ys, Y := (A(X := xs @ ys)) Y @ [a])"
  have no: "node_of ?H = node_of H" using H d'(1) by (auto simp: node_of_def)
  have aX: "a \<in> set (A X)" using A by simp
  obtain n where n: "qidx_node d = Some n" "get_data h n = Some a" "arc_list d = X"
    using qrep_entry[OF r aX] H by (metis option.inject)
  have na: "b \<in> set (A Z) \<and> b \<noteq> a \<or> b = a \<and> Z = Y" if "b \<in> set (?A Z)" for b Z
    using that qrep_minus[OF r A, of b Z] by (auto split: if_splits)
  have "qmap ?H snt iv ?A (L(q \<mapsto> map (node_of H) (xs @ ys), q' \<mapsto> map (node_of H) ((A(X := xs @ ys)) Y @ [a])))"
    using L q unfolding qmap_def no by auto
  moreover have "queued ?H h' Z b" if b: "b \<in> set (?A Z)" for Z b
  proof (cases "b = a")
    case True
    then have "Z = Y" using na[OF b] by blast
    then show ?thesis using True n d' dt by (simp add: queued_def)
  next
    case False
    then have "b \<in> set (A Z)" using na[OF b] by blast
    then show ?thesis using False dt by (intro queued_other[OF qrep_queued[OF r]]) simp_all
  qed
  moreover have "b \<in> set (?A (arc_list e))" if "?H b = Some e" "qidx_node e \<noteq> None" for b e
    using qrep_back[OF r, of b e] that A d' by (auto split: if_splits)
  ultimately show ?thesis using wf unfolding qrep_def by blast
qed

lemma qrep_move:
  assumes r: "qrep H h snt iv A" and A: "A X = xs @ a # ys" and H: "H a = Some d"
    and q': "snt Y \<noteq> None"
    and d': "qidx_node d' = qidx_node d" "arc_list d' = Y" "is_ghost d' \<longleftrightarrow> ghost_list Y"
  obtains h' where "queue_move_to_tail_of h (snt X) (snt Y) (qidx_node d) = Some (qidx_node d, h')"
    "qrep (H(a \<mapsto> d')) h' snt iv (A(X := xs @ ys, Y := (A(X := xs @ ys)) Y @ [a]))" "qidx_node d \<noteq> None"
proof -
  have aX: "a \<in> set (A X)" using A by simp
  obtain n where n: "qidx_node d = Some n" "node_of H a = n"
    using qrep_entry[OF r aX] H by (metis option.inject)
  obtain L where L: "qwf h L" "qmap H snt iv A L" using r unfolding qrep_def by blast
  obtain q where q: "snt X = Some q" using qrep_sentinel[OF r aX] by blast
  obtain q2 where q2: "snt Y = Some q2" using q' by blast
  have Lq: "L q = Some (map (node_of H) xs @ n # map (node_of H) ys)" using L(2) q A n(2) by (auto simp: qmap_def)
  have Lq2: "(L(q \<mapsto> map (node_of H) xs @ map (node_of H) ys)) q2 = Some (map (node_of H) ((A(X := xs @ ys)) Y))"
    using L(2) q q2 unfolding qmap_def by auto
  obtain h' where h': "queue_move_to_tail_of h (Some q) (Some q2) (Some n) = Some (Some n, h')"
    "qwf h' (L(q \<mapsto> map (node_of H) xs @ map (node_of H) ys, q2 \<mapsto> map (node_of H) ((A(X := xs @ ys)) Y) @ [n]))"
    "get_data h' = get_data h"
    using qwf_move[OF L(1) Lq Lq2] by blast
  have "qrep (H(a \<mapsto> d')) h' snt iv (A(X := xs @ ys, Y := (A(X := xs @ ys)) Y @ [a]))"
    by (rule qrep_moved[OF r A H L(2) q q2 _ h'(3) d']) (use h'(2) n(2) in simp)
  then show ?thesis using h'(1) n(1) q q2 by (intro that) auto
qed

lemma qrep_refresh:
  assumes r: "qrep H h snt iv A" and A: "A X = xs @ a # ys" and H: "H a = Some d"
    and d': "qidx_node d' = qidx_node d" "arc_list d' = X" "is_ghost d' \<longleftrightarrow> ghost_list X"
  obtains h' where "queue_move_to_tail h (snt X) (qidx_node d) = Some (qidx_node d, h')"
    "qrep (H(a \<mapsto> d')) h' snt iv (A(X := xs @ ys @ [a]))" "qidx_node d \<noteq> None"
proof -
  have aX: "a \<in> set (A X)" using A by simp
  obtain n where n: "qidx_node d = Some n" "node_of H a = n"
    using qrep_entry[OF r aX] H by (metis option.inject)
  obtain L where L: "qwf h L" "qmap H snt iv A L" using r unfolding qrep_def by blast
  obtain q where q: "snt X = Some q" using qrep_sentinel[OF r aX] by blast
  have Lq: "L q = Some (map (node_of H) xs @ n # map (node_of H) ys)" using L(2) q A n(2) by (auto simp: qmap_def)
  obtain h' where h': "queue_move_to_tail h (Some q) (Some n) = Some (Some n, h')"
    "qwf h' (L(q \<mapsto> map (node_of H) xs @ map (node_of H) ys @ [n]))" "get_data h' = get_data h"
    using qwf_move_to_tail[OF L(1) Lq] by blast
  have "qrep (H(a \<mapsto> d')) h' snt iv (A(X := xs @ ys, X := (A(X := xs @ ys)) X @ [a]))"
    by (rule qrep_moved[OF r A H L(2) q q _ h'(3) d']) (use h'(2) n(2) in simp)
  then show ?thesis using h'(1) n(1) q by (intro that) auto
qed

text \<open>A new entry joins the tail of a queue.\<close>

lemma qrep_join:
  assumes r: "qrep H h snt iv A" and H: "H a = Some d" "qidx_node d = None"
    and q: "snt X = Some q" and e: "enqueue h q (Some a) = Some (Some n, h')"
    and d': "qidx_node d' = Some n" "arc_list d' = X" "is_ghost d' \<longleftrightarrow> ghost_list X"
  shows "qrep (H(a \<mapsto> d')) h' snt iv (A(X := A X @ [a]))"
proof -
  let ?H = "H(a \<mapsto> d')" and ?A = "A(X := A X @ [a])"
  obtain L where L: "qwf h L" "qmap H snt iv A L" using r unfolding qrep_def by blast
  have Lq: "L q = Some (map (node_of H) (A X))" using L(2) q by (auto simp: qmap_def)
  have h': "loose L n" "qwf h' (L(q \<mapsto> map (node_of H) (A X) @ [n]))" "get_data h' = (get_data h)(n := Some a)"
    using qwf_enqueue[OF L(1) Lq, of "Some a"] e by auto
  have na: "b \<noteq> a" if "b \<in> set (A Y)" for b Y
    using qrep_queued[OF r that] H by (auto simp: queued_def)
  have no: "map (node_of ?H) (?A Y) = (if Y = X then map (node_of H) (A X) @ [n] else map (node_of H) (A Y))" for Y
    using na[of _ Y] node_of_Some[of ?H a d' n] d'(1) by (auto intro!: node_of_cong)
  have "snt Y = Some q' \<Longrightarrow> (L(q \<mapsto> map (node_of H) (A X) @ [n])) q' = Some (map (node_of ?H) (?A Y))" for Y q'
    using L(2) q unfolding qmap_def no by auto
  then have "qmap ?H snt iv ?A (L(q \<mapsto> map (node_of H) (A X) @ [n]))"
    using L(2) q unfolding qmap_def by auto
  moreover have "queued ?H h' Z b" if b: "b \<in> set (?A Z)" for Z b
  proof (cases "b = a")
    case True
    then have "Z = X" using b na[of b Z] by (auto split: if_splits)
    then show ?thesis using True d' h'(3) by (auto simp: queued_def)
  next
    case False
    then have bZ: "b \<in> set (A Z)" using b by (auto split: if_splits)
    then obtain q' where "snt Z = Some q'" using qrep_sentinel[OF r] by blast
    then have "L q' = Some (map (node_of H) (A Z))" using L(2) by (auto simp: qmap_def)
    then have "node_of H b \<noteq> n" using loose_list[OF h'(1)] bZ by (metis image_eqI set_map)
    then show ?thesis
      using False h'(3) by (intro queued_other[OF qrep_queued[OF r bZ]]) simp_all
  qed
  moreover have "b \<in> set (?A (arc_list e))" if "?H b = Some e" "qidx_node e \<noteq> None" for b e
    using qrep_back[OF r, of b e] that d' by (auto split: if_splits)
  ultimately show ?thesis using h'(2) unfolding qrep_def by blast
qed

end
