(* ===== verification/Dircache_Tables.thy ===== *)
theory Dircache_Tables
  imports Dircache
begin

text \<open>
  The index half of the cache invariant. Both hash tables of the cache are instances of one
  contract, the locale \<open>dir_index\<close>: keys are pointers to entries, an entry stores the node
  that names it, and hash and compare functions read the entry. \<open>tab_rep\<close> says that the table
  holds a node exactly for the entries whose node pointer is set, and that node and entry name
  each other. The interpretations \<open>by_did\<close> and \<open>by_name\<close> are the dircache and its DID/name index.
\<close>

definition tab_rep :: "(dir_heap \<Rightarrow> dkey \<Rightarrow> 32 word) \<Rightarrow> (dir_heap \<Rightarrow> dkey \<Rightarrow> dkey \<Rightarrow> bool) \<Rightarrow>
    (dir \<Rightarrow> addr option) \<Rightarrow> dir_heap \<Rightarrow> dir_tab \<Rightarrow> bool" where
  "tab_rep hf eq ptr H t \<longleftrightarrow>
     hash_inv (hf H) (eq H) t \<and>
     (\<forall>n \<in> nodes t. hash_key n = AtDir (hash_data n) \<and>
        (\<exists>d. H (hash_data n) = Some d \<and> ptr d = Some (hn_addr n))) \<and>
     (\<forall>a d i. H a = Some d \<longrightarrow> ptr d = Some i \<longrightarrow> (\<exists>n \<in> nodes t. hn_addr n = i \<and> hash_data n = a))"

definition members :: "(dir \<Rightarrow> addr option) \<Rightarrow> dir_heap \<Rightarrow> addr set" where
  "members ptr H = {a. \<exists>d. H a = Some d \<and> ptr d \<noteq> None}"

definition same_answers :: "dir_tab \<Rightarrow> dir_tab \<Rightarrow> bool" where
  "same_answers t t' \<longleftrightarrow> hash_maxcount t' = hash_maxcount t \<and>
     al_ok (hash_allocator t') = al_ok (hash_allocator t)"

lemma hash_inv_cong:
  assumes "hash_inv hf eq t"
    and "\<And>n. n \<in> nodes t \<Longrightarrow> hf' (hash_key n) = hf (hash_key n)"
    and "\<And>n m. n \<in> nodes t \<Longrightarrow> m \<in> nodes t \<Longrightarrow> eq' (hash_key n) (hash_key m) = eq (hash_key n) (hash_key m)"
  shows "hash_inv hf' eq' t"
proof -
  note p = hash_inv_parts[OF assms(1)]
  have "\<forall>n \<in> nodes t. hash_hkey n = hf' (hash_key n) \<and> hn_addr n < al_next (hash_allocator t)"
    using p(6,7) assms(2) by simp
  moreover have "\<forall>n \<in> nodes t. \<forall>m \<in> nodes t. eq' (hash_key n) (hash_key m) \<longrightarrow> n = m"
    using p(8) assms(3) by blast
  ultimately show ?thesis using p(1-5) unfolding hash_inv_def by blast
qed

locale dir_index =
  fixes hfun :: "dir \<Rightarrow> 32 word" and same :: "dir \<Rightarrow> dir \<Rightarrow> bool" and ptr :: "dir \<Rightarrow> addr option"
    and hf :: "dir_heap \<Rightarrow> dkey \<Rightarrow> 32 word" and eq :: "dir_heap \<Rightarrow> dkey \<Rightarrow> dkey \<Rightarrow> bool"
  assumes hf_eq: "hf H k = hfun (deref H k)"
    and eq_eq: "eq H k k' = same (deref H k) (deref H k')"
    and same_refl: "same d d"
    and same_sym: "same d e \<Longrightarrow> same e d"
    and same_trans: "same d e \<Longrightarrow> same e f \<Longrightarrow> same d f"
    and same_hash: "same d e \<Longrightarrow> hfun d = hfun e"
begin

lemma keys: "hash_keys (hf H) (eq H)"
proof
  show "eq H k k" for k by (simp add: eq_eq same_refl)
  show "eq H k k' \<Longrightarrow> eq H k' k" for k k' by (simp add: eq_eq same_sym)
  show "eq H k k' \<Longrightarrow> eq H k' k'' \<Longrightarrow> eq H k k''" for k k' k'' unfolding eq_eq by (rule same_trans)
  show "eq H k k' \<Longrightarrow> hf H k = hf H k'" for k k' unfolding eq_eq hf_eq by (rule same_hash)
qed

lemma same_cong: "same d d' \<Longrightarrow> same e e' \<Longrightarrow> same d' e' = same d e"
  by (meson same_sym same_trans)

abbreviation "rep \<equiv> tab_rep hf eq ptr"

lemma rep_inv: "rep H t \<Longrightarrow> hash_inv (hf H) (eq H) t"
  by (simp add: tab_rep_def)

lemma rep_node_entry:
  assumes "rep H t" "n \<in> nodes t"
  obtains d where "H (hash_data n) = Some d" "ptr d = Some (hn_addr n)" "hash_key n = AtDir (hash_data n)"
  using assms unfolding tab_rep_def by blast

lemma rep_entry_node:
  assumes "rep H t" "H a = Some d" "ptr d = Some i"
  obtains n where "n \<in> nodes t" "hn_addr n = i" "hash_data n = a" "hash_key n = AtDir a"
  using assms unfolding tab_rep_def by blast

lemma rep_live: "rep H t \<Longrightarrow> keys_live H t"
  unfolding keys_live_def list_all_iff nodes_def[symmetric] by (auto elim!: rep_node_entry)

lemma rep_hnode_get:
  assumes "rep H t" "H a = Some d" "ptr d = Some i"
  shows "hnode_get t i = Some a"
  using rep_entry_node[OF assms] hnode_at_node[OF rep_inv[OF assms(1)]] by (metis hnode_get_def option.simps(9))

lemma rep_node_unique:
  assumes "rep H t" "n \<in> nodes t" "m \<in> nodes t" "hash_data n = hash_data m"
  shows "n = m"
  using hash_inv_addr_inj[OF rep_inv[OF assms(1)] assms(2,3)] rep_node_entry[OF assms(1,2)]
    rep_node_entry[OF assms(1,3)] assms(4) by (metis option.inject)

lemma rep_members:
  assumes "rep H t"
  shows "bij_betw hash_data (nodes t) (members ptr H)"
  unfolding bij_betw_def
proof
  show "inj_on hash_data (nodes t)" using rep_node_unique[OF assms] by (intro inj_onI) blast
  show "hash_data ` nodes t = members ptr H"
  proof
    show "hash_data ` nodes t \<subseteq> members ptr H"
      unfolding members_def by (auto elim!: rep_node_entry[OF assms])
    show "members ptr H \<subseteq> hash_data ` nodes t"
      unfolding members_def by (auto elim: rep_entry_node[OF assms])
  qed
qed

lemma rep_count:
  assumes "rep H t"
  shows "hash_nodecount t = card (members ptr H)" "finite (members ptr H)"
proof -
  note p = hash_inv_parts[OF rep_inv[OF assms]]
  have "distinct (concat (hash_table t))" using p(3) by (simp add: distinct_map)
  then have "card (nodes t) = hash_nodecount t" using p(4) distinct_card unfolding nodes_def by metis
  then show "hash_nodecount t = card (members ptr H)" using bij_betw_same_card[OF rep_members[OF assms]] by simp
  show "finite (members ptr H)" using bij_betw_finite[OF rep_members[OF assms]] by (simp add: nodes_def)
qed

text \<open>What the search of the table answers, in terms of the entries.\<close>

lemma rep_lookup:
  assumes "rep H t"
  shows "hash_lookup (hf H) (eq H) t k = Some n \<Longrightarrow>
      \<exists>d. H (hash_data n) = Some d \<and> ptr d = Some (hn_addr n) \<and> same d (deref H k)"
    and "hash_lookup (hf H) (eq H) t k = None \<Longrightarrow> H a = Some d \<Longrightarrow> ptr d \<noteq> None \<Longrightarrow> \<not> same d (deref H k)"
proof -
  assume "hash_lookup (hf H) (eq H) t k = Some n"
  then have n: "n \<in> nodes t" "eq H (hash_key n) k" using hash_keys.lookup_iff[OF keys rep_inv[OF assms]] by blast+
  then show "\<exists>d. H (hash_data n) = Some d \<and> ptr d = Some (hn_addr n) \<and> same d (deref H k)"
    using rep_node_entry[OF assms n(1)] by (metis deref.simps(1) eq_eq option.simps(5))
next
  assume l: "hash_lookup (hf H) (eq H) t k = None" and H: "H a = Some d" "ptr d \<noteq> None"
  then obtain i where "ptr d = Some i" by blast
  from rep_entry_node[OF assms H(1) this] obtain n where n: "n \<in> nodes t" "hash_key n = AtDir a" by metis
  then have "\<not> eq H (AtDir a) k" using hash_keys.lookup_None_iff[OF keys rep_inv[OF assms]] l by metis
  then show "\<not> same d (deref H k)" using H by (simp add: eq_eq)
qed

lemma rep_found:
  assumes r: "rep H t" and H: "H a = Some d" "ptr d \<noteq> None" and sm: "same d (deref H k)"
  obtains n where "hash_lookup (hf H) (eq H) t k = Some n" "hash_data n = a"
proof -
  obtain i where i: "ptr d = Some i" using H(2) by blast
  obtain n where n: "n \<in> nodes t" "hash_data n = a" "hash_key n = AtDir a"
    using rep_entry_node[OF r H(1) i] by metis
  have "eq H (hash_key n) k" using n(3) H(1) sm by (simp add: eq_eq)
  then show ?thesis using that hash_keys.lookup_iff[OF keys rep_inv[OF r]] n by blast
qed

text \<open>An update of one entry, the table being as it is or having lost the node of the entry.\<close>

lemma rep_transfer:
  assumes inv: "hash_inv (hf H) (eq H) t'" and sub: "nodes t' \<subseteq> nodes t" and r: "rep H t"
    and keep: "\<And>n. n \<in> nodes t \<Longrightarrow> hash_data n \<noteq> a \<Longrightarrow> n \<in> nodes t'"
    and H: "H a = Some d"
    and p: "ptr d' = None \<and> (\<forall>n \<in> nodes t'. hash_data n \<noteq> a) \<or>
        ptr d' = ptr d \<and> same d d' \<and> (\<forall>n \<in> nodes t. hash_data n = a \<longrightarrow> n \<in> nodes t')"
  shows "rep (H(a \<mapsto> d')) t'"
  unfolding tab_rep_def
proof (intro conjI ballI allI impI)
  let ?H = "H(a \<mapsto> d')"
  have sm: "same (deref H (hash_key n)) (deref ?H (hash_key n))" if n: "n \<in> nodes t'" for n
  proof -
    have k: "hash_key n = AtDir (hash_data n)" using rep_node_entry[OF r subsetD[OF sub n]] by blast
    show ?thesis
    proof (cases "hash_data n = a")
      case True
      then have "same d d'" using p n by blast
      then show ?thesis using True k H by simp
    qed (use k same_refl in simp)
  qed
  show "hash_inv (hf ?H) (eq ?H) t'"
  proof (rule hash_inv_cong[OF inv])
    show "n \<in> nodes t' \<Longrightarrow> hf ?H (hash_key n) = hf H (hash_key n)" for n
      unfolding hf_eq by (rule same_hash[OF sm, symmetric])
    show "n \<in> nodes t' \<Longrightarrow> m \<in> nodes t' \<Longrightarrow> eq ?H (hash_key n) (hash_key m) = eq H (hash_key n) (hash_key m)" for n m
      unfolding eq_eq by (rule same_cong[OF sm sm])
  qed
  fix n assume n: "n \<in> nodes t'"
  obtain e where e: "H (hash_data n) = Some e" "ptr e = Some (hn_addr n)" "hash_key n = AtDir (hash_data n)"
    using rep_node_entry[OF r subsetD[OF sub n]] .
  then show "hash_key n = AtDir (hash_data n)" by simp
  show "\<exists>d. ?H (hash_data n) = Some d \<and> ptr d = Some (hn_addr n)"
    using e p n H by (cases "hash_data n = a") auto
next
  fix b e i assume b: "(H(a \<mapsto> d')) b = Some e" "ptr e = Some i"
  show "\<exists>n\<in>nodes t'. hn_addr n = i \<and> hash_data n = b"
  proof (cases "b = a")
    case True
    then have e: "e = d'" "ptr d = Some i" "\<forall>n \<in> nodes t. hash_data n = a \<longrightarrow> n \<in> nodes t'" using b p by auto
    obtain n where "n \<in> nodes t" "hn_addr n = i" "hash_data n = a" using rep_entry_node[OF r H e(2)] by metis
    then show ?thesis using e(3) True by blast
  next
    case False
    then have "H b = Some e" using b by simp
    then obtain n where "n \<in> nodes t" "hn_addr n = i" "hash_data n = b" using rep_entry_node[OF r _ b(2)] by metis
    then show ?thesis using keep False by blast
  qed
qed

lemma rep_upd:
  assumes r: "rep H t" and H: "H a = Some d" and p: "ptr d' = ptr d" "ptr d = None \<or> same d d'"
  shows "rep (H(a \<mapsto> d')) t"
proof (cases "ptr d")
  case None
  then have "\<forall>n \<in> nodes t. hash_data n \<noteq> a" using r H rep_node_entry by (metis option.distinct(1) option.inject)
  then show ?thesis using rep_transfer[OF rep_inv[OF r] _ r _ H] p None by auto
next
  case (Some i)
  then show ?thesis using rep_transfer[OF rep_inv[OF r] _ r _ H] p by auto
qed

lemma rep_removed:
  assumes r: "rep H t" and H: "H a = Some d" and n: "n \<in> nodes t" "hash_data n = a"
    and inv: "hash_inv (hf H) (eq H) t'" and nd: "nodes t' = nodes t - {n}" and p: "ptr d' = None"
  shows "rep (H(a \<mapsto> d')) t'"
proof (rule rep_transfer[OF inv _ r _ H])
  show "nodes t' \<subseteq> nodes t" using nd by blast
  show "m \<in> nodes t \<Longrightarrow> hash_data m \<noteq> a \<Longrightarrow> m \<in> nodes t'" for m using nd n(2) by blast
  have "hash_data m \<noteq> a" if "m \<in> nodes t'" for m
  proof
    assume "hash_data m = a"
    moreover have "m \<in> nodes t" "m \<noteq> n" using that nd by auto
    ultimately show False using rep_node_unique[OF r _ n(1), of m] n(2) by simp
  qed
  then show "ptr d' = None \<and> (\<forall>n\<in>nodes t'. hash_data n \<noteq> a) \<or>
      ptr d' = ptr d \<and> same d d' \<and> (\<forall>n\<in>nodes t. hash_data n = a \<longrightarrow> n \<in> nodes t')" using p by blast
qed

lemma rep_delete:
  assumes r: "rep H t" and H: "H a = Some d" "ptr d = Some i"
  obtains t' where "hash_delete (hf H) (eq H) t i = Some t'" "same_answers t t'"
    "hash_nodecount t = Suc (hash_nodecount t')" "\<And>d'. ptr d' = None \<Longrightarrow> rep (H(a \<mapsto> d')) t'"
proof -
  obtain n where n: "n \<in> nodes t" "hn_addr n = i" "hash_data n = a" using rep_entry_node[OF r H] by metis
  obtain t' where "hash_delete (hf H) (eq H) t i = Some t'" "hash_inv (hf H) (eq H) t'"
    "nodes t' = nodes t - {n}" "hash_nodecount t = Suc (hash_nodecount t')" "same_answers t t'"
    using hash_keys.delete_inv[OF keys rep_inv[OF r] n(1)] n(2) unfolding same_answers_def by metis
  then show ?thesis using rep_removed[OF r H(1) n(1,3)] by (intro that) auto
qed

lemma rep_scan_delete:
  assumes r: "rep H t" and H: "H a = Some d" "ptr d = Some i"
  obtains t' n where "hash_scan_delete (hf H) (eq H) t i = Some t'" "same_answers t t'"
    "hash_nodecount t = Suc (hash_nodecount t')" "\<And>d'. ptr d' = None \<Longrightarrow> rep (H(a \<mapsto> d')) t'"
    "n \<in> nodes t" "hash_data n = a"
    "\<And>sc. scan_valid t sc \<Longrightarrow> n \<notin> set (scan_rest t sc) \<Longrightarrow> scan_valid t' sc \<and> scan_rest t' sc = scan_rest t sc"
proof -
  note inv = rep_inv[OF r]
  obtain n where n: "n \<in> nodes t" "hn_addr n = i" "hash_data n = a" using rep_entry_node[OF r H] by metis
  obtain xs ys where c: "hash_table t ! chain_of t (hash_hkey n) = xs @ n # ys"
    "chain_of t (hash_hkey n) < length (hash_table t)" "\<forall>m \<in> set xs. hn_addr m \<noteq> hn_addr n"
    using hash_inv_chain_split[OF inv n(1)] by metis
  let ?t = "t\<lparr>hash_table := (hash_table t)[chain_of t (hash_hkey n) := xs @ ys],
              hash_nodecount := hash_nodecount t - 1\<rparr>"
  have t': "hash_inv (hf H) (eq H) ?t" "nodes ?t = nodes t - {n}"
    using hash_keys.inv_delete_at[OF keys inv n(1) c(1) refl] .
  show ?thesis
  proof (rule that[of ?t n])
    show "hash_scan_delete (hf H) (eq H) t i = Some ?t"
      using hash_keys.scan_delete_ok[OF keys inv n(1) c(1,3)] n(2) by simp
    show "hash_nodecount t = Suc (hash_nodecount ?t)" using hash_inv_nonempty[OF inv n(1)] by simp
    show "same_answers t ?t" by (simp add: same_answers_def)
    show "ptr d' = None \<Longrightarrow> rep (H(a \<mapsto> d')) ?t" for d' by (rule rep_removed[OF r H(1) n(1,3) t'])
    show "scan_valid t sc \<Longrightarrow> n \<notin> set (scan_rest t sc) \<Longrightarrow>
        scan_valid ?t sc \<and> scan_rest ?t sc = scan_rest t sc" for sc
      using scan_survives_unlink[OF c(2,1), of sc ?t] by simp
  qed (use n in auto)
qed

lemma rep_insert:
  assumes r: "rep H t" and H: "H a = Some d" "ptr d = None"
    and new: "hash_lookup (hf H) (eq H) t k = None" "same d (deref H k)"
    and room: "hash_nodecount t < hash_maxcount t" and al: "\<And>n. al_ok (hash_allocator t) n"
  obtains t' i where "hash_alloc_insert_node (hf H) (eq H) t (AtDir a) a = Some (Some i, t')"
    "same_answers t t'" "hash_nodecount t' = hash_nodecount t + 1"
    "\<And>d'. ptr d' = Some i \<Longrightarrow> same d d' \<Longrightarrow> rep (H(a \<mapsto> d')) t'"
proof -
  note inv = rep_inv[OF r]
  have dr: "deref H (AtDir a) = d" using H by simp
  have new': "\<not> eq H (hash_key n) (AtDir a)" if "n \<in> nodes t" for n
    using hash_keys.lookup_None_iff[OF keys inv, of k] new that dr same_trans unfolding eq_eq by metis
  have na: "hash_data n \<noteq> a" if "n \<in> nodes t" for n
    using rep_node_entry[OF r that] H by (metis option.distinct(1) option.inject)
  have "hash_lookup (hf H) (eq H) t (AtDir a) = None"
    using hash_keys.lookup_None_iff[OF keys inv] new' by blast
  from hash_keys.alloc_insert_node_ok[OF keys inv this room, of a] al
  obtain i t' where t': "hash_alloc_insert_node (hf H) (eq H) t (AtDir a) a = Some (Some i, t')"
    "hash_inv (hf H) (eq H) t'"
    "nodes t' = insert \<lparr>hn_addr = i, hash_key = AtDir a, hash_data = a, hash_hkey = hf H (AtDir a)\<rparr> (nodes t)"
    "hash_nodecount t' = hash_nodecount t + 1" "same_answers t t'"
    unfolding same_answers_def by metis
  have "rep (H(a \<mapsto> d')) t'" if d': "ptr d' = Some i" "same d d'" for d'
    unfolding tab_rep_def
  proof (intro conjI ballI allI impI)
    let ?H = "H(a \<mapsto> d')"
    have sm: "same (deref H (hash_key n)) (deref ?H (hash_key n))" if "n \<in> nodes t'" for n
    proof (cases "hash_key n = AtDir a")
      case True
      then show ?thesis using d'(2) H by simp
    next
      case False
      then show ?thesis using same_refl by (cases "hash_key n") auto
    qed
    show "hash_inv (hf ?H) (eq ?H) t'"
    proof (rule hash_inv_cong[OF t'(2)])
      show "n \<in> nodes t' \<Longrightarrow> hf ?H (hash_key n) = hf H (hash_key n)" for n
        unfolding hf_eq by (rule same_hash[OF sm, symmetric])
      show "n \<in> nodes t' \<Longrightarrow> m \<in> nodes t' \<Longrightarrow> eq ?H (hash_key n) (hash_key m) = eq H (hash_key n) (hash_key m)" for n m
        unfolding eq_eq by (rule same_cong[OF sm sm])
    qed
    show "hash_key n = AtDir (hash_data n)" if "n \<in> nodes t'" for n
      using that t'(3) rep_node_entry[OF r] by (metis hnode_t.select_convs(2,3) insert_iff)
    show "\<exists>d. ?H (hash_data n) = Some d \<and> ptr d = Some (hn_addr n)" if "n \<in> nodes t'" for n
    proof (cases "n \<in> nodes t")
      case True
      then show ?thesis using rep_node_entry[OF r True] na[OF True] by (metis fun_upd_other)
    next
      case False
      then show ?thesis using that t'(3) d'(1) by simp
    qed
    show "\<exists>n\<in>nodes t'. hn_addr n = j \<and> hash_data n = b" if "?H b = Some e" "ptr e = Some j" for b e j
    proof (cases "b = a")
      case True
      then show ?thesis using that d'(1) t'(3) by simp
    next
      case False
      then have "H b = Some e" using that by simp
      from rep_entry_node[OF r this that(2)] show ?thesis using t'(3) by (metis insertCI)
    qed
  qed
  with t' show ?thesis by (intro that) auto
qed

end

interpretation by_did: dir_index hash_vid_did hash_comp_vid_did d_index_node did_hash did_eq
  by unfold_locales (auto simp: did_hash_def did_eq_def hash_comp_vid_did_def intro!: hash_vid_did_cong)

interpretation by_name: dir_index hash_didname hash_comp_didname d_didname_node name_hash name_eq
  by unfold_locales (auto simp: name_hash_def name_eq_def hash_comp_didname_def intro!: hash_didname_cong)

abbreviation "did_rep \<equiv> tab_rep did_hash did_eq d_index_node"
abbreviation "name_rep \<equiv> tab_rep name_hash name_eq d_didname_node"

end
