(* ===== verification/Dircache_Refine.thy ===== *)
theory Dircache_Refine
  imports Dircache_Queues Dircache_Tables
begin

text \<open>
  The invariant of the directory cache and the refinement of the ARC algorithm by its
  operations. \<open>drep s A S\<close> says that the state \<open>s\<close> represents the lists \<open>A\<close>: queues, both
  indexes, list sizes and per-volume counters agree, entry by entry; the entries of \<open>S\<close> are in
  the middle of being added or removed and may be linked in some of the structures only.
\<close>

subsection \<open>The invariant\<close>

definition sentinel :: "dcache \<Rightarrow> arc_list_t \<Rightarrow> addr option" where
  "sentinel s X = (case X of ARC_NONE \<Rightarrow> index_queue s | ARC_T1 \<Rightarrow> arc_t1 (arc s) | ARC_T2 \<Rightarrow> arc_t2 (arc s)
     | ARC_B1 \<Rightarrow> arc_b1 (arc s) | ARC_B2 \<Rightarrow> arc_b2 (arc s))"

definition csize :: "dcache \<Rightarrow> arc_list_t \<Rightarrow> nat" where
  "csize s X = (case X of ARC_NONE \<Rightarrow> queue_count s | ARC_T1 \<Rightarrow> t1_size (arc s) | ARC_T2 \<Rightarrow> t2_size (arc s)
     | ARC_B1 \<Rightarrow> b1_size (arc s) | ARC_B2 \<Rightarrow> b2_size (arc s))"

definition vid_ok :: "dir_heap \<Rightarrow> (16 word \<Rightarrow> nat) \<Rightarrow> bool" where
  "vid_ok H cnt \<longleftrightarrow> (\<forall>v. cnt v = card {a \<in> members d_index_node H. d_vid (deref H (AtDir a)) = v})"

definition linked :: "dir \<Rightarrow> bool" where
  "linked d \<longleftrightarrow> (d_didname_node d \<noteq> None \<longleftrightarrow> d_index_node d \<noteq> None) \<and>
     (qidx_node d \<noteq> None \<longleftrightarrow> d_index_node d \<noteq> None) \<and>
     (is_indexed d \<longleftrightarrow> d_index_node d \<noteq> None) \<and>
     (d_index_node d \<noteq> None \<longrightarrow> CNID_START \<le> ntohl (d_did d))"

definition drep :: "dcache \<Rightarrow> lists \<Rightarrow> addr set \<Rightarrow> bool" where
  "drep s A S \<longleftrightarrow>
     qrep (dirs s) (qh s) (sentinel s) (invalid_dircache_entries s) A \<and>
     (\<forall>X. csize s X = length (A X)) \<and>
     did_rep (dirs s) (dircache_tab s) \<and> name_rep (dirs s) (index_didname s) \<and>
     vid_ok (dirs s) (vid_entry_count s) \<and>
     (\<forall>a d. dirs s a = Some d \<longrightarrow> a \<notin> S \<longrightarrow> linked d)"

text \<open>What the operations on one entry leave alone.\<close>

definition env where
  "env s = (curdir s, rootParent s, dircache_maxsize s, dc_debug s, arc_promoting_ghost s,
     sentinel s, invalid_dircache_entries s, arc_enabled (arc s), arc_p (arc s), arc_c (arc s),
     hash_maxcount (dircache_tab s), hash_maxcount (index_didname s),
     al_ok (hash_allocator (dircache_tab s)), al_ok (hash_allocator (index_didname s)),
     al_ok (qalloc (qh s)))"

lemma env_eqD:
  assumes "env s' = env s"
  shows "curdir s' = curdir s" "rootParent s' = rootParent s" "dircache_maxsize s' = dircache_maxsize s"
    "dc_debug s' = dc_debug s" "arc_promoting_ghost s' = arc_promoting_ghost s" "sentinel s' = sentinel s"
    "invalid_dircache_entries s' = invalid_dircache_entries s" "arc_enabled (arc s') = arc_enabled (arc s)"
    "arc_p (arc s') = arc_p (arc s)" "arc_c (arc s') = arc_c (arc s)"
    "hash_maxcount (dircache_tab s') = hash_maxcount (dircache_tab s)"
    "hash_maxcount (index_didname s') = hash_maxcount (index_didname s)"
    "al_ok (hash_allocator (dircache_tab s')) = al_ok (hash_allocator (dircache_tab s))"
    "al_ok (hash_allocator (index_didname s')) = al_ok (hash_allocator (index_didname s))"
    "al_ok (qalloc (qh s')) = al_ok (qalloc (qh s))"
  using assms unfolding env_def by (auto simp only: prod.inject)

lemma sentinel_simps:
  "sentinel s ARC_NONE = index_queue s" "sentinel s ARC_T1 = arc_t1 (arc s)" "sentinel s ARC_T2 = arc_t2 (arc s)"
  "sentinel s ARC_B1 = arc_b1 (arc s)" "sentinel s ARC_B2 = arc_b2 (arc s)"
  by (simp_all add: sentinel_def)

lemma csize_simps:
  "csize s ARC_NONE = queue_count s" "csize s ARC_T1 = t1_size (arc s)" "csize s ARC_T2 = t2_size (arc s)"
  "csize s ARC_B1 = b1_size (arc s)" "csize s ARC_B2 = b2_size (arc s)"
  by (simp_all add: csize_def)

lemma sentinel_eqI:
  "index_queue s' = index_queue s \<Longrightarrow> arc_t1 (arc s') = arc_t1 (arc s) \<Longrightarrow> arc_t2 (arc s') = arc_t2 (arc s) \<Longrightarrow>
   arc_b1 (arc s') = arc_b1 (arc s) \<Longrightarrow> arc_b2 (arc s') = arc_b2 (arc s) \<Longrightarrow> sentinel s' = sentinel s"
  by (simp add: sentinel_def fun_eq_iff split: arc_list_t.splits)

lemma csize_eqI:
  "queue_count s' = queue_count s \<Longrightarrow> t1_size (arc s') = t1_size (arc s) \<Longrightarrow> t2_size (arc s') = t2_size (arc s) \<Longrightarrow>
   b1_size (arc s') = b1_size (arc s) \<Longrightarrow> b2_size (arc s') = b2_size (arc s) \<Longrightarrow> csize s' = csize s"
  by (simp add: csize_def fun_eq_iff split: arc_list_t.splits)

text \<open>The two modes: in ARC mode the four lists exist, in LRU mode the one queue.\<close>

definition mode_ok :: "dcache \<Rightarrow> bool" where
  "mode_ok s \<longleftrightarrow> (if arc_enabled (arc s)
     then index_queue s = None \<and> (\<forall>X. X \<noteq> ARC_NONE \<longrightarrow> sentinel s X \<noteq> None)
     else index_queue s \<noteq> None \<and> (\<forall>X. X \<noteq> ARC_NONE \<longrightarrow> sentinel s X = None))"

lemma mode_ok_env: "env s' = env s \<Longrightarrow> mode_ok s' = mode_ok s"
  using env_eqD[of s' s] sentinel_simps(1)[of s] sentinel_simps(1)[of s'] by (simp add: mode_ok_def)

lemma drep_parts:
  assumes "drep s A S"
  shows "qrep (dirs s) (qh s) (sentinel s) (invalid_dircache_entries s) A" "\<And>X. csize s X = length (A X)"
    "did_rep (dirs s) (dircache_tab s)" "name_rep (dirs s) (index_didname s)"
    "vid_ok (dirs s) (vid_entry_count s)" "\<And>a d. dirs s a = Some d \<Longrightarrow> a \<notin> S \<Longrightarrow> linked d"
  using assms unfolding drep_def by blast+

lemma drep_disjoint: "drep s A S \<Longrightarrow> disjoint_lists A"
  unfolding disjoint_lists_def
  by (auto dest!: drep_parts(1) intro: qrep_distinct qrep_one_list)

lemma drep_entry:
  assumes "drep s A S" "a \<in> set (A X)"
  obtains d n xs ys where "dirs s a = Some d" "qidx_node d = Some n" "arc_list d = X"
    "is_ghost d \<longleftrightarrow> ghost_list X" "A X = xs @ a # ys" "a \<notin> set xs"
proof -
  obtain d n where "dirs s a = Some d" "qidx_node d = Some n" "arc_list d = X" "is_ghost d \<longleftrightarrow> ghost_list X"
    using qrep_entry[OF drep_parts(1)[OF assms(1)] assms(2)] by metis
  moreover obtain xs ys where "A X = xs @ a # ys" "a \<notin> set xs" using assms(2) by (meson split_list_first)
  ultimately show ?thesis by (rule that)
qed

lemma drep_indexed:
  assumes "drep s A {}" "a \<in> set (A X)" "dirs s a = Some d"
  shows "d_index_node d \<noteq> None" "d_didname_node d \<noteq> None" "CNID_START \<le> ntohl (d_did d)"
proof -
  have "qidx_node d \<noteq> None" using drep_entry[OF assms(1,2)] assms(3) by (metis option.distinct(1) option.inject)
  moreover have "linked d" using drep_parts(6)[OF assms(1,3)] by simp
  ultimately show "d_index_node d \<noteq> None" "d_didname_node d \<noteq> None" "CNID_START \<le> ntohl (d_did d)"
    by (auto simp: linked_def)
qed

text \<open>A state that differs in one entry that keeps its place everywhere.\<close>

lemma vid_ok_upd:
  assumes "vid_ok H cnt" "H a = Some d" "d_vid d' = d_vid d" "d_index_node d' = d_index_node d"
  shows "vid_ok (H(a \<mapsto> d')) cnt"
proof -
  have "members d_index_node (H(a \<mapsto> d')) = members d_index_node H"
    using assms by (auto simp: members_def)
  moreover have "d_vid (deref (H(a \<mapsto> d')) (AtDir b)) = d_vid (deref H (AtDir b))" for b
    using assms by simp
  ultimately show ?thesis using assms(1) by (simp add: vid_ok_def)
qed

text \<open>Changing an entry that is out of the indexes, or in fields that none of them reads.\<close>

lemma drep_upd:
  assumes r: "drep s A S" and d: "dirs s a = Some d"
    and same: "qidx_node d' = qidx_node d" "qidx_node d \<noteq> None \<longrightarrow> arc_list d' = arc_list d \<and> is_ghost d' = is_ghost d"
      "d_index_node d' = d_index_node d" "d_didname_node d' = d_didname_node d" "d_vid d' = d_vid d"
      "d_index_node d \<noteq> None \<longrightarrow> d_did d' = d_did d"
      "d_didname_node d \<noteq> None \<longrightarrow> d_pdid d' = d_pdid d \<and> d_u_name d' = d_u_name d"
    and l: "a \<notin> S \<Longrightarrow> linked d \<Longrightarrow> linked d'"
    and s': "dirs s' = (dirs s)(a \<mapsto> d')" "qh s' = qh s" "sentinel s' = sentinel s"
      "invalid_dircache_entries s' = invalid_dircache_entries s" "csize s' = csize s"
      "dircache_tab s' = dircache_tab s" "index_didname s' = index_didname s"
      "vid_entry_count s' = vid_entry_count s"
  shows "drep s' A S"
proof -
  note p = drep_parts[OF r]
  have "qrep (dirs s') (qh s') (sentinel s') (invalid_dircache_entries s') A"
    unfolding s' by (rule qrep_upd[OF p(1) d]) (use same in auto)
  moreover have "did_rep (dirs s') (dircache_tab s')"
    unfolding s' by (rule by_did.rep_upd[OF p(3) d]) (use same in \<open>auto simp: hash_comp_vid_did_def\<close>)
  moreover have "name_rep (dirs s') (index_didname s')"
    unfolding s' by (rule by_name.rep_upd[OF p(4) d]) (use same in \<open>auto simp: hash_comp_didname_def\<close>)
  moreover have "vid_ok (dirs s') (vid_entry_count s')"
    unfolding s' by (rule vid_ok_upd[OF p(5) d]) (use same in auto)
  moreover have "linked e" if "dirs s' b = Some e" "b \<notin> S" for b e
    using that p(6) l d unfolding s' by (auto split: if_splits)
  ultimately show ?thesis unfolding drep_def using p(2) s'(5) by simp
qed

lemma upd_dir_Some: "dirs s a = Some d \<Longrightarrow> upd_dir s a f = Some (s\<lparr>dirs := (dirs s)(a \<mapsto> f d)\<rparr>)"
  by (simp add: upd_dir_def)

subsection \<open>Allocators are stable\<close>

lemma set_next_alloc: "set_next h a v = Some h' \<Longrightarrow> qalloc h' = qalloc h"
  and set_prev_alloc: "set_prev h a v = Some h' \<Longrightarrow> qalloc h' = qalloc h"
  and qfree_alloc: "qfree h a = Some h' \<Longrightarrow> qalloc h' = qalloc h"
  by (auto simp: set_next_def set_prev_def qfree_def split: option.splits)

lemma unlink_node_alloc: "unlink_node h n = Some h' \<Longrightarrow> qalloc h' = qalloc h"
  and relink_tail_alloc: "relink_tail h q n = Some h' \<Longrightarrow> qalloc h' = qalloc h"
  by (auto simp: unlink_node_def relink_tail_def bind_eq_Some_conv dest!: set_next_alloc set_prev_alloc)

lemma queue_remove_alloc: "queue_remove h n = Some (r, h') \<Longrightarrow> qalloc h' = qalloc h"
  by (auto simp: queue_remove_def bind_eq_Some_conv split: option.splits dest!: unlink_node_alloc qfree_alloc)

lemma queue_move_alloc:
  "queue_move_to_tail_of h f t n = Some (r, h') \<Longrightarrow> qalloc h' = qalloc h"
  "queue_move_to_tail h q n = Some (r, h') \<Longrightarrow> qalloc h' = qalloc h"
  by (auto simp: queue_move_to_tail_of_def queue_move_to_tail_def bind_eq_Some_conv
      split: option.splits if_splits dest!: unlink_node_alloc relink_tail_alloc)

lemma enqueue_alloc:
  assumes "enqueue h q d = Some (r, h')"
  shows "al_ok (qalloc h') = al_ok (qalloc h)" "(\<And>n. al_ok (qalloc h) n) \<Longrightarrow> r \<noteq> None"
proof -
  obtain r1 h1 where a: "alloc_init_node h d = (r1, h1)" by fastforce
  obtain m al where m: "malloc (qalloc h) = (m, al)" by fastforce
  have h1: "qalloc h1 = al" "r1 = m" using a m by (auto simp: alloc_init_node_def split: option.splits)
  have h': "qalloc h' = qalloc h1" "r = r1"
    using assms a unfolding enqueue_relink by (auto simp: bind_eq_Some_conv split: option.splits dest!: relink_tail_alloc)
  show "al_ok (qalloc h') = al_ok (qalloc h)" using h' h1 malloc_ok[OF m] by simp
  show "(\<And>n. al_ok (qalloc h) n) \<Longrightarrow> r \<noteq> None"
    using h' h1 m by (auto simp: malloc_def Let_def split: if_splits)
qed

subsection \<open>Removal\<close>

lemma size_dec_Suc [simp]: "size_dec (Suc n) = n"
  by (simp add: size_dec_def)

lemma size_drop_size:
  assumes "csize s X = Suc n" "X \<noteq> ARC_NONE"
  shows "csize (s\<lparr>arc := size_drop X (arc s)\<rparr>) = (csize s)(X := n)"
  using assms by (intro ext) (auto simp: csize_def size_drop_def split: arc_list_t.splits)

lemma size_drop_frame [simp]:
  "arc_t1 (size_drop X A) = arc_t1 A" "arc_t2 (size_drop X A) = arc_t2 A"
  "arc_b1 (size_drop X A) = arc_b1 A" "arc_b2 (size_drop X A) = arc_b2 A"
  "arc_p (size_drop X A) = arc_p A" "arc_c (size_drop X A) = arc_c A" "arc_enabled (size_drop X A) = arc_enabled A"
  by (simp_all add: size_drop_def split: arc_list_t.splits)

lemma drep_mode:
  assumes "drep s A S" "mode_ok s" "a \<in> set (A X)"
  shows "X = ARC_NONE \<longleftrightarrow> \<not> arc_enabled (arc s)" "sentinel s X \<noteq> None"
proof -
  show n: "sentinel s X \<noteq> None" using qrep_sentinel[OF drep_parts(1)[OF assms(1)] assms(3)] by auto
  show "X = ARC_NONE \<longleftrightarrow> \<not> arc_enabled (arc s)"
    using n assms(2) unfolding mode_ok_def by (metis sentinel_simps(1))
qed

lemma remove_from_queue_ok:
  assumes r: "drep s A S" and m: "mode_ok s" and A: "A X = xs @ a # ys" and d: "dirs s a = Some d"
  obtains s' where "remove_from_queue s a = Some s'" "env s' = env s"
    "dirs s' = (dirs s)(a \<mapsto> d\<lparr>arc_list := ARC_NONE, qidx_node := None\<rparr>)"
    "dircache_tab s' = dircache_tab s" "index_didname s' = index_didname s"
    "drep s' (A(X := xs @ ys)) (insert a S)"
proof -
  note p = drep_parts[OF r]
  have aX: "a \<in> set (A X)" using A by simp
  obtain n where n: "qidx_node d = Some n" "arc_list d = X" using drep_entry[OF r aX] d by (metis option.inject)
  let ?d = "d\<lparr>arc_list := ARC_NONE, qidx_node := None\<rparr>"
  obtain h where h: "queue_remove (qh s) (qidx_node d) = Some (Some a, h)"
    "qrep ((dirs s)(a \<mapsto> ?d)) h (sentinel s) (invalid_dircache_entries s) (A(X := xs @ ys))"
    using qrep_leave[OF p(1) A d, of ?d] by auto
  have len: "csize s X = Suc (length (xs @ ys))" using p(2) A by simp
  have frame: "drep s' (A(X := xs @ ys)) (insert a S)"
    if "dirs s' = (dirs s)(a \<mapsto> ?d)" "qh s' = h" "sentinel s' = sentinel s"
      "invalid_dircache_entries s' = invalid_dircache_entries s" "csize s' = (csize s)(X := length (xs @ ys))"
      "dircache_tab s' = dircache_tab s" "index_didname s' = index_didname s"
      "vid_entry_count s' = vid_entry_count s" for s'
    unfolding drep_def that
  proof (intro conjI allI impI)
    show "did_rep ((dirs s)(a \<mapsto> ?d)) (dircache_tab s)"
      by (rule by_did.rep_upd[OF p(3) d]) (auto simp: hash_comp_vid_did_def)
    show "name_rep ((dirs s)(a \<mapsto> ?d)) (index_didname s)"
      by (rule by_name.rep_upd[OF p(4) d]) (auto simp: hash_comp_didname_def)
    show "vid_ok ((dirs s)(a \<mapsto> ?d)) (vid_entry_count s)" by (rule vid_ok_upd[OF p(5) d]) auto
    show "((dirs s)(a \<mapsto> ?d)) b = Some e \<Longrightarrow> b \<notin> insert a S \<Longrightarrow> linked e" for b e using p(6) by auto
  qed (use h(2) p(2) in auto)
  have al: "qalloc h = qalloc (qh s)" using queue_remove_alloc[OF h(1)] .
  show ?thesis
  proof (cases "arc_enabled (arc s)")
    case True
    then have X: "X \<noteq> ARC_NONE" using drep_mode(1)[OF r m aX] by simp
    let ?s = "s\<lparr>qh := h, arc := size_drop X (arc s), dirs := (dirs s)(a \<mapsto> ?d)\<rparr>"
    have st: "sentinel ?s = sentinel s" by (rule sentinel_eqI) simp_all
    have cs: "csize ?s = (csize s)(X := length (xs @ ys))"
      unfolding size_drop_size[OF len X, symmetric] by (rule csize_eqI) simp_all
    have "remove_from_queue s a = Some ?s"
      using True d n h(1) by (simp add: remove_from_queue_def upd_dir_def)
    moreover have "env ?s = env s" using st al by (simp add: env_def)
    ultimately show ?thesis using frame[of ?s] st cs by (intro that) auto
  next
    case False
    then have X: "X = ARC_NONE" using drep_mode(1)[OF r m aX] by simp
    let ?s = "s\<lparr>qh := h, dirs := (dirs s)(a \<mapsto> ?d), queue_count := size_dec (queue_count s)\<rparr>"
    have st: "sentinel ?s = sentinel s" by (rule sentinel_eqI) simp_all
    have cs: "csize ?s = (csize s)(X := length (xs @ ys))"
      using len X by (intro ext) (auto simp: csize_def split: arc_list_t.splits)
    have "?d = d\<lparr>qidx_node := None\<rparr>" using n(2) X by simp
    then have "remove_from_queue s a = Some ?s"
      using False d n h(1) by (simp add: remove_from_queue_def upd_dir_def)
    moreover have "env ?s = env s" using st al by (simp add: env_def)
    ultimately show ?thesis using frame[of ?s] st cs by (intro that) auto
  qed
qed

lemma remove_from_didname_ok:
  assumes r: "drep s A S" and d: "dirs s a = Some d" "d_didname_node d = Some i"
  obtains s' where "remove_from_didname s a ns = Some s'" "env s' = env s"
    "dirs s' = (dirs s)(a \<mapsto> d\<lparr>d_didname_node := None\<rparr>)" "dircache_tab s' = dircache_tab s"
    "drep s' A (insert a S)"
proof -
  note p = drep_parts[OF r]
  let ?d = "d\<lparr>d_didname_node := None\<rparr>"
  have dn: "d_didname_node ?d = None" by simp
  obtain t where t: "(if ns then hash_scan_delfree (name_hash (dirs s)) (name_eq (dirs s)) (index_didname s) i
        else hash_delete_free (name_hash (dirs s)) (name_eq (dirs s)) (index_didname s) i) = Some t"
    "same_answers (index_didname s) t" "name_rep ((dirs s)(a \<mapsto> ?d)) t"
  proof (cases ns)
    case True
    obtain t where "hash_scan_delete (name_hash (dirs s)) (name_eq (dirs s)) (index_didname s) i = Some t"
      "same_answers (index_didname s) t" "name_rep ((dirs s)(a \<mapsto> ?d)) t"
      using by_name.rep_scan_delete[OF p(4) d] dn by metis
    then show ?thesis using True that by auto
  next
    case False
    obtain t where "hash_delete (name_hash (dirs s)) (name_eq (dirs s)) (index_didname s) i = Some t"
      "same_answers (index_didname s) t" "name_rep ((dirs s)(a \<mapsto> ?d)) t"
      using by_name.rep_delete[OF p(4) d] dn by metis
    then show ?thesis using False that by auto
  qed
  let ?s = "s\<lparr>index_didname := t, dirs := (dirs s)(a \<mapsto> ?d)\<rparr>"
  have "remove_from_didname s a ns = Some ?s"
    using d t(1) by_name.rep_live[OF p(4)] by (simp add: remove_from_didname_def name_delete_def upd_dir_def)
  moreover have st: "sentinel ?s = sentinel s" "csize ?s = csize s"
    by (rule sentinel_eqI csize_eqI; simp)+
  moreover have "env ?s = env s" using t(2) st by (simp add: env_def same_answers_def)
  moreover have "drep ?s A (insert a S)"
    unfolding drep_def
  proof (intro conjI allI impI)
    show "qrep (dirs ?s) (qh ?s) (sentinel ?s) (invalid_dircache_entries ?s) A"
      unfolding st by simp (rule qrep_upd[OF p(1) d(1)], auto)
    show "did_rep (dirs ?s) (dircache_tab ?s)"
      by simp (rule by_did.rep_upd[OF p(3) d(1)], auto simp: hash_comp_vid_did_def)
    show "vid_ok (dirs ?s) (vid_entry_count ?s)" by simp (rule vid_ok_upd[OF p(5) d(1)], auto)
    show "dirs ?s b = Some e \<Longrightarrow> b \<notin> insert a S \<Longrightarrow> linked e" for b e using p(6) by auto
  qed (use t(3) p(2) st in auto)
  ultimately show ?thesis by (intro that) auto
qed

lemma vid_ok_leave:
  assumes v: "vid_ok H cnt" and H: "H a = Some d" "d_index_node d \<noteq> None" and f: "finite (members d_index_node H)"
    and d': "d_index_node d' = None"
  shows "cnt (d_vid d) > 0" "vid_ok (H(a \<mapsto> d')) (cnt(d_vid d := cnt (d_vid d) - 1))"
proof -
  let ?M = "\<lambda>H v. {b \<in> members d_index_node H. d_vid (deref H (AtDir b)) = v}"
  have fin: "finite (?M H v)" for v using f by auto
  have a: "a \<in> ?M H (d_vid d)" using H by (auto simp: members_def)
  have c: "cnt v = card (?M H v)" for v using v by (simp add: vid_ok_def)
  have m: "?M (H(a \<mapsto> d')) v = ?M H v - {a}" for v
    using d' by (auto simp: members_def split: if_splits)
  show "cnt (d_vid d) > 0" using c a fin by (auto simp: card_gt_0_iff)
  show "vid_ok (H(a \<mapsto> d')) (cnt(d_vid d := cnt (d_vid d) - 1))"
    unfolding vid_ok_def m
  proof
    fix v
    have "a \<notin> ?M H v" if "v \<noteq> d_vid d" using that H by simp
    then show "(cnt(d_vid d := cnt (d_vid d) - 1)) v = card (?M H v - {a})"
      using c a fin by (cases "v = d_vid d") (simp_all add: card_Diff_singleton)
  qed
qed

definition unindexed :: "dir \<Rightarrow> dir" where
  "unindexed d = d\<lparr>d_index_node := None, d_flags := d_flags d AND NOT DIRF_INDEXED\<rparr>"

lemma remove_from_dircache_ok:
  assumes r: "drep s A S" and d: "dirs s a = Some d" "d_index_node d = Some i"
  obtains s' where "remove_from_dircache s a ns = Some s'" "env s' = env s"
    "dirs s' = (dirs s)(a \<mapsto> unindexed d)" "drep s' A (insert a S)"
    "hash_nodecount (dircache_tab s) = Suc (hash_nodecount (dircache_tab s'))"
    "ns \<Longrightarrow> \<exists>n \<in> nodes (dircache_tab s). hash_data n = a \<and> (\<forall>sc. scan_valid (dircache_tab s) sc \<longrightarrow>
      n \<notin> set (scan_rest (dircache_tab s) sc) \<longrightarrow> scan_valid (dircache_tab s') sc \<and>
      scan_rest (dircache_tab s') sc = scan_rest (dircache_tab s) sc)"
proof -
  note p = drep_parts[OF r]
  let ?d = "unindexed d"
  have dn: "d_index_node ?d = None" by (simp add: unindexed_def)
  have "\<exists>t. (if ns then hash_scan_delfree (did_hash (dirs s)) (did_eq (dirs s)) (dircache_tab s) i
        else hash_delete_free (did_hash (dirs s)) (did_eq (dirs s)) (dircache_tab s) i) = Some t \<and>
    same_answers (dircache_tab s) t \<and> did_rep ((dirs s)(a \<mapsto> ?d)) t \<and>
    hash_nodecount (dircache_tab s) = Suc (hash_nodecount t) \<and>
    (ns \<longrightarrow> (\<exists>n \<in> nodes (dircache_tab s). hash_data n = a \<and> (\<forall>sc. scan_valid (dircache_tab s) sc \<longrightarrow>
      n \<notin> set (scan_rest (dircache_tab s) sc) \<longrightarrow> scan_valid t sc \<and>
      scan_rest t sc = scan_rest (dircache_tab s) sc)))"
  proof (cases ns)
    case True
    obtain t n where "hash_scan_delete (did_hash (dirs s)) (did_eq (dirs s)) (dircache_tab s) i = Some t"
      "same_answers (dircache_tab s) t" "hash_nodecount (dircache_tab s) = Suc (hash_nodecount t)"
      "did_rep ((dirs s)(a \<mapsto> ?d)) t" "n \<in> nodes (dircache_tab s)" "hash_data n = a"
      "\<And>sc. scan_valid (dircache_tab s) sc \<Longrightarrow> n \<notin> set (scan_rest (dircache_tab s) sc) \<Longrightarrow>
        scan_valid t sc \<and> scan_rest t sc = scan_rest (dircache_tab s) sc"
      using by_did.rep_scan_delete[OF p(3) d] dn by metis
    then show ?thesis using True by auto
  next
    case False
    obtain t where "hash_delete (did_hash (dirs s)) (did_eq (dirs s)) (dircache_tab s) i = Some t"
      "same_answers (dircache_tab s) t" "hash_nodecount (dircache_tab s) = Suc (hash_nodecount t)"
      "did_rep ((dirs s)(a \<mapsto> ?d)) t"
      using by_did.rep_delete[OF p(3) d] dn by metis
    then show ?thesis using False by auto
  qed
  then obtain t where t: "(if ns then hash_scan_delfree (did_hash (dirs s)) (did_eq (dirs s)) (dircache_tab s) i
        else hash_delete_free (did_hash (dirs s)) (did_eq (dirs s)) (dircache_tab s) i) = Some t"
    "same_answers (dircache_tab s) t" "did_rep ((dirs s)(a \<mapsto> ?d)) t"
    "hash_nodecount (dircache_tab s) = Suc (hash_nodecount t)"
    "ns \<Longrightarrow> \<exists>n \<in> nodes (dircache_tab s). hash_data n = a \<and> (\<forall>sc. scan_valid (dircache_tab s) sc \<longrightarrow>
      n \<notin> set (scan_rest (dircache_tab s) sc) \<longrightarrow> scan_valid t sc \<and>
      scan_rest t sc = scan_rest (dircache_tab s) sc)" by blast
  note v = vid_ok_leave[OF p(5) d(1) _ by_did.rep_count(2)[OF p(3)] dn]
  let ?s = "s\<lparr>dircache_tab := t, dirs := (dirs s)(a \<mapsto> ?d),
    vid_entry_count := (vid_entry_count s)(d_vid d := vid_entry_count s (d_vid d) - 1)\<rparr>"
  have "remove_from_dircache s a ns = Some ?s"
    using d t(1) by_did.rep_live[OF p(3)] v(1)
    by (simp add: remove_from_dircache_def did_delete_def upd_dir_def unindexed_def)
  moreover have st: "sentinel ?s = sentinel s" "csize ?s = csize s"
    by (rule sentinel_eqI csize_eqI; simp)+
  moreover have "env ?s = env s" using t(2) st by (simp add: env_def same_answers_def)
  moreover have "drep ?s A (insert a S)"
    unfolding drep_def
  proof (intro conjI allI impI)
    show "qrep (dirs ?s) (qh ?s) (sentinel ?s) (invalid_dircache_entries ?s) A"
      unfolding st by simp (rule qrep_upd[OF p(1) d(1)], auto simp: unindexed_def)
    show "name_rep (dirs ?s) (index_didname ?s)"
      by simp (rule by_name.rep_upd[OF p(4) d(1)], auto simp: hash_comp_didname_def unindexed_def)
    show "vid_ok (dirs ?s) (vid_entry_count ?s)" using v(2) d(2) by simp
    show "dirs ?s b = Some e \<Longrightarrow> b \<notin> insert a S \<Longrightarrow> linked e" for b e using p(6) by auto
  qed (use t(3) p(2) st in auto)
  ultimately show ?thesis using t(4,5) by (intro that) auto
qed

lemma drep_linked:
  assumes "drep s A S" "dirs s a = Some d" "linked d"
  shows "drep s A (S - {a})"
  using assms unfolding drep_def by (metis DiffI empty_iff insert_iff option.inject)

lemma drep_weaken: "drep s A S \<Longrightarrow> S \<subseteq> T \<Longrightarrow> drep s A T"
  unfolding drep_def by blast

text \<open>The flag sets the callers pass.\<close>

lemma flag_sets:
  "has_flag (DIRCACHE OR DIDNAME_INDEX) DIRCACHE" "has_flag (DIRCACHE OR DIDNAME_INDEX) DIDNAME_INDEX"
  "\<not> has_flag (DIRCACHE OR DIDNAME_INDEX) QUEUE_INDEX" "\<not> has_flag (DIRCACHE OR DIDNAME_INDEX) DIRCACHE_NOSHRINK"
  "has_flag (DIRCACHE OR DIDNAME_INDEX OR QUEUE_INDEX) DIRCACHE"
  "has_flag (DIRCACHE OR DIDNAME_INDEX OR QUEUE_INDEX) DIDNAME_INDEX"
  "has_flag (DIRCACHE OR DIDNAME_INDEX OR QUEUE_INDEX) QUEUE_INDEX"
  "\<not> has_flag (DIRCACHE OR DIDNAME_INDEX OR QUEUE_INDEX) DIRCACHE_NOSHRINK"
  "has_flag (DIRCACHE_ALL OR DIRCACHE_NOSHRINK) DIRCACHE" "has_flag (DIRCACHE_ALL OR DIRCACHE_NOSHRINK) DIDNAME_INDEX"
  "has_flag (DIRCACHE_ALL OR DIRCACHE_NOSHRINK) QUEUE_INDEX" "has_flag (DIRCACHE_ALL OR DIRCACHE_NOSHRINK) DIRCACHE_NOSHRINK"
  "(DIRCACHE OR DIDNAME_INDEX) AND NOT (QUEUE_INDEX OR DIDNAME_INDEX OR DIRCACHE OR DIRCACHE_NOSHRINK) = 0"
  "(DIRCACHE OR DIDNAME_INDEX OR QUEUE_INDEX) AND NOT (QUEUE_INDEX OR DIDNAME_INDEX OR DIRCACHE OR DIRCACHE_NOSHRINK) = 0"
  "(DIRCACHE_ALL OR DIRCACHE_NOSHRINK) AND NOT (QUEUE_INDEX OR DIDNAME_INDEX OR DIRCACHE OR DIRCACHE_NOSHRINK) = 0"
  "has_flag (DIRCACHE_ALL OR DIRCACHE_NOSHRINK) (DIRCACHE OR DIDNAME_INDEX)"
  by (simp_all add: has_flag_def DIRCACHE_def DIDNAME_INDEX_def QUEUE_INDEX_def DIRCACHE_NOSHRINK_def
      DIRCACHE_ALL_def flag_bit_def push_bit_eq_mult)

definition dequeued :: "bool \<Rightarrow> dir \<Rightarrow> dir" where
  "dequeued qf d = (if qf then d\<lparr>arc_list := ARC_NONE, qidx_node := None\<rparr> else d)"

definition unlinked :: "bool \<Rightarrow> dir \<Rightarrow> dir" where
  "unlinked qf d = unindexed (dequeued qf d\<lparr>d_didname_node := None\<rparr>)"

lemma unlinked_simps [simp]:
  "d_index_node (unlinked qf d) = None" "d_didname_node (unlinked qf d) = None"
  "d_vid (unlinked qf d) = d_vid d" "d_did (unlinked qf d) = d_did d" "d_pdid (unlinked qf d) = d_pdid d"
  "d_u_name (unlinked qf d) = d_u_name d" "qidx_node (unlinked qf d) = (if qf then None else qidx_node d)"
  "is_file (unlinked qf d) = is_file d" "d_fullpath (unlinked qf d) = d_fullpath d" "\<not> is_indexed (unlinked qf d)"
  by (simp_all add: unlinked_def unindexed_def dequeued_def)

definition scan_kept :: "dcache \<Rightarrow> dcache \<Rightarrow> addr \<Rightarrow> bool" where
  "scan_kept s s' a \<longleftrightarrow> (\<exists>n \<in> nodes (dircache_tab s). hash_data n = a \<and> (\<forall>sc. scan_valid (dircache_tab s) sc \<longrightarrow>
      n \<notin> set (scan_rest (dircache_tab s) sc) \<longrightarrow> scan_valid (dircache_tab s') sc \<and>
      scan_rest (dircache_tab s') sc = scan_rest (dircache_tab s) sc))"

lemma dircache_remove_ok:
  assumes r: "drep s A S" and m: "mode_ok s" and d: "dirs s a = Some d" "d_index_node d = Some i" "d_didname_node d = Some j"
    and q: "if qf then A X = xs @ a # ys else qidx_node d = None"
    and fl: "has_flag flags DIRCACHE" "has_flag flags DIDNAME_INDEX" "has_flag flags QUEUE_INDEX = qf"
      "has_flag flags DIRCACHE_NOSHRINK = ns" "\<not> ns \<or> has_flag flags (DIRCACHE OR DIDNAME_INDEX)"
      "flags AND NOT (QUEUE_INDEX OR DIDNAME_INDEX OR DIRCACHE OR DIRCACHE_NOSHRINK) = 0"
  obtains s' where "dircache_remove s a flags = Some s'" "env s' = env s"
    "dirs s' = (dirs s)(a \<mapsto> unlinked qf d)" "drep s' (if qf then A(X := xs @ ys) else A) (S - {a})"
    "hash_nodecount (dircache_tab s) = Suc (hash_nodecount (dircache_tab s'))" "ns \<Longrightarrow> scan_kept s s' a"
proof -
  note p = drep_parts[OF r]
  have c1: "hnode_get (index_didname s) j = Some a" using by_name.rep_hnode_get[OF p(4) d(1,3)] .
  have c2: "hnode_get (dircache_tab s) i = Some a" using by_did.rep_hnode_get[OF p(3) d(1,2)] .
  have c3: "\<forall>n \<in> set_option (qidx_node d). get_data (qh s) n = Some a"
  proof (cases qf)
    case True
    then have "a \<in> set (A X)" using q by simp
    from qrep_entry[OF p(1) this] show ?thesis using d(1) by (metis elem_set option.inject)
  qed (use q in simp)
  let ?A = "if qf then A(X := xs @ ys) else A"
  obtain s1 where s1: "(if qf then remove_from_queue s a else Some s) = Some s1" "env s1 = env s"
    "dirs s1 = (dirs s)(a \<mapsto> dequeued qf d)" "dircache_tab s1 = dircache_tab s" "drep s1 ?A (insert a S)"
  proof (cases qf)
    case True
    then have A: "A X = xs @ a # ys" using q by simp
    obtain s1 where "remove_from_queue s a = Some s1" "env s1 = env s"
      "dirs s1 = (dirs s)(a \<mapsto> d\<lparr>arc_list := ARC_NONE, qidx_node := None\<rparr>)" "dircache_tab s1 = dircache_tab s"
      "drep s1 (A(X := xs @ ys)) (insert a S)"
      using remove_from_queue_ok[OF r m A d(1)] by metis
    then show ?thesis using True that by (simp add: dequeued_def)
  next
    case False
    then show ?thesis using r d(1) drep_weaken[OF r, of "insert a S"] that[of s]
      by (auto simp: dequeued_def fun_upd_idem)
  qed
  have d1: "dirs s1 a = Some (dequeued qf d)" "d_didname_node (dequeued qf d) = Some j"
    using s1(3) d by (auto simp: dequeued_def)
  obtain s2 where s2: "remove_from_didname s1 a ns = Some s2" "env s2 = env s1"
    "dirs s2 = (dirs s1)(a \<mapsto> dequeued qf d\<lparr>d_didname_node := None\<rparr>)" "dircache_tab s2 = dircache_tab s1"
    "drep s2 ?A (insert a (insert a S))"
    using remove_from_didname_ok[OF s1(5) d1] by metis
  have d2: "dirs s2 a = Some (dequeued qf d\<lparr>d_didname_node := None\<rparr>)"
    "d_index_node (dequeued qf d\<lparr>d_didname_node := None\<rparr>) = Some i"
    using s2(3) d by (auto simp: dequeued_def)
  obtain s3 where s3: "remove_from_dircache s2 a ns = Some s3" "env s3 = env s2"
    "dirs s3 = (dirs s2)(a \<mapsto> unlinked qf d)" "drep s3 ?A (insert a (insert a (insert a S)))"
    "hash_nodecount (dircache_tab s2) = Suc (hash_nodecount (dircache_tab s3))" "ns \<Longrightarrow> scan_kept s2 s3 a"
    using remove_from_dircache_ok[OF s2(5) d2, of ns] unfolding unlinked_def[symmetric] scan_kept_def by metis
  have dirs3: "dirs s3 = (dirs s)(a \<mapsto> unlinked qf d)" using s1(3) s2(3) s3(3) by simp
  define s4 where "s4 = (if is_file d then s3 else s3\<lparr>pfd_purged := pfd_purged s3 @ [(d_vid d, d_did d)]\<rparr>)"
  have p4: "purge_pfd s3 a = Some s4" using dirs3 by (simp add: purge_pfd_def s4_def)
  let ?s = "s4\<lparr>dstat := (dstat s4)\<lparr>st_removed := st_removed (dstat s4) + 1\<rparr>\<rparr>"
  have run: "dircache_remove s a flags = Some ?s"
    using fl c1 c2 c3 d s1(1) s2(1) s3(1) p4 by (simp add: dircache_remove_def Let_def)
  have same: "dirs ?s = dirs s3" "qh ?s = qh s3" "sentinel ?s = sentinel s3" "csize ?s = csize s3"
    "invalid_dircache_entries ?s = invalid_dircache_entries s3" "dircache_tab ?s = dircache_tab s3"
    "index_didname ?s = index_didname s3" "vid_entry_count ?s = vid_entry_count s3" "env ?s = env s3"
    by (auto simp: s4_def env_def intro!: sentinel_eqI csize_eqI)
  have lk: "linked (unlinked qf d)" using q by (auto simp: linked_def)
  have "drep ?s ?A (insert a S)" using s3(4) unfolding drep_def same by simp
  then have "drep ?s ?A (insert a S - {a})" by (rule drep_linked[OF _ _ lk]) (use same dirs3 in simp)
  moreover have "insert a S - {a} = S - {a}" by blast
  ultimately have rep: "drep ?s ?A (S - {a})" by metis
  show ?thesis
    by (rule that[OF run _ _ rep])
      (use same dirs3 s3 s2 s1 in \<open>auto simp: scan_kept_def\<close>)
qed

lemma dircache_remove_indexes:
  assumes r: "drep s A S" and m: "mode_ok s" and d: "dirs s a = Some d" "d_index_node d = Some i" "d_didname_node d = Some j"
    and q: "qidx_node d = None"
  obtains s' where "dircache_remove s a (DIRCACHE OR DIDNAME_INDEX) = Some s'" "env s' = env s"
    "dirs s' = (dirs s)(a \<mapsto> unlinked False d)" "drep s' A (S - {a})"
    "hash_nodecount (dircache_tab s) = Suc (hash_nodecount (dircache_tab s'))"
proof -
  have q': "if False then A X = xs @ a # ys else qidx_node d = None" for X xs ys using q by simp
  have fl: "has_flag (DIRCACHE OR DIDNAME_INDEX) QUEUE_INDEX = False"
    "has_flag (DIRCACHE OR DIDNAME_INDEX) DIRCACHE_NOSHRINK = False"
    "\<not> False \<or> has_flag (DIRCACHE OR DIDNAME_INDEX) (DIRCACHE OR DIDNAME_INDEX)"
    using flag_sets by simp_all
  show ?thesis
    using dircache_remove_ok[OF r m d q' flag_sets(1,2) fl flag_sets(13)] that by (simp only: if_False) blast
qed

lemma dircache_remove_everywhere:
  assumes r: "drep s A S" and m: "mode_ok s" and d: "dirs s a = Some d" "d_index_node d = Some i" "d_didname_node d = Some j"
    and q: "A X = xs @ a # ys"
    and fl: "flags = (if ns then DIRCACHE_ALL OR DIRCACHE_NOSHRINK else DIRCACHE OR DIDNAME_INDEX OR QUEUE_INDEX)"
  obtains s' where "dircache_remove s a flags = Some s'" "env s' = env s"
    "dirs s' = (dirs s)(a \<mapsto> unlinked True d)" "drep s' (A(X := xs @ ys)) (S - {a})"
    "hash_nodecount (dircache_tab s) = Suc (hash_nodecount (dircache_tab s'))" "ns \<Longrightarrow> scan_kept s s' a"
proof -
  have q': "if True then A X = xs @ a # ys else qidx_node d = None" using q by simp
  have f: "has_flag flags DIRCACHE" "has_flag flags DIDNAME_INDEX" "has_flag flags QUEUE_INDEX = True"
    "has_flag flags DIRCACHE_NOSHRINK = ns" "\<not> ns \<or> has_flag flags (DIRCACHE OR DIDNAME_INDEX)"
    "flags AND NOT (QUEUE_INDEX OR DIDNAME_INDEX OR DIRCACHE OR DIRCACHE_NOSHRINK) = 0"
    unfolding fl using flag_sets by (cases ns; simp only: if_True if_False simp_thms)+
  show ?thesis
    using dircache_remove_ok[OF r m d q' f] that by (simp only: if_True) blast
qed

lemma dircache_defer_free_ok:
  assumes r: "drep s A S" and d: "dirs s a = Some d" "d_index_node d = None" "d_didname_node d = None" "qidx_node d = None"
    "\<not> is_indexed d"
  obtains s' where "dircache_defer_free s a = Some s'" "env s' = env s"
    "dirs s' = (dirs s)(a \<mapsto> d\<lparr>d_did := CNID_INVALID\<rparr>)" "drep s' A S" "dircache_tab s' = dircache_tab s"
proof -
  let ?s1 = "s\<lparr>dirs := (dirs s)(a \<mapsto> d\<lparr>d_did := CNID_INVALID\<rparr>)\<rparr>"
  have st: "sentinel ?s1 = sentinel s" "csize ?s1 = csize s" by (rule sentinel_eqI csize_eqI; simp)+
  have r1: "drep ?s1 A S" by (rule drep_upd[OF r d(1)]) (use d st in \<open>auto simp: linked_def\<close>)
  note p = drep_parts[OF r1]
  obtain q where q: "invalid_dircache_entries ?s1 = Some q" using qrep_iv[OF p(1)] by blast
  obtain n h where h: "enqueue (qh ?s1) q (Some a) = Some (n, h)"
    "qrep (dirs ?s1) h (sentinel ?s1) (invalid_dircache_entries ?s1) A"
    using qrep_retire[OF p(1) q] by blast
  let ?s = "?s1\<lparr>qh := h\<rparr>"
  have st': "sentinel ?s = sentinel ?s1" "csize ?s = csize ?s1" by (rule sentinel_eqI csize_eqI; simp)+
  have run: "dircache_defer_free s a = Some ?s"
    using d(1) q h(1) by (simp add: dircache_defer_free_def upd_dir_def)
  have "env ?s = env s" using enqueue_alloc(1)[OF h(1)] st st' by (simp add: env_def)
  moreover have "drep ?s A S" using r1 h(2) st' unfolding drep_def by simp
  ultimately show ?thesis using run by (intro that[of ?s]) auto
qed

text \<open>What is left of an entry once the cache has let it go.\<close>

definition retired :: "dir \<Rightarrow> dir \<Rightarrow> bool" where
  "retired d d' \<longleftrightarrow> d_did d' = CNID_INVALID \<and> d_index_node d' = None \<and> d_didname_node d' = None \<and>
     qidx_node d' = None \<and> d_vid d' = d_vid d \<and> d_fullpath d' = d_fullpath d \<and> \<not> is_indexed d'"

definition kept :: "dir \<Rightarrow> dir \<Rightarrow> bool" where
  "kept d d' \<longleftrightarrow> d_vid d' = d_vid d \<and> d_fullpath d' = d_fullpath d \<and>
     d_did d' = d_did d \<and> d_pdid d' = d_pdid d \<and> d_u_name d' = d_u_name d \<and> is_file d' = is_file d \<and>
     d_index_node d' = d_index_node d \<and> d_didname_node d' = d_didname_node d \<and>
     qidx_node d' = qidx_node d \<and> is_indexed d' = is_indexed d"

definition carried :: "dir \<Rightarrow> dir \<Rightarrow> bool" where
  "carried d d' \<longleftrightarrow> (if d_index_node d = None then d' = d else kept d d' \<or> retired d d')"

definition keeps_dirs :: "dir_heap \<Rightarrow> dir_heap \<Rightarrow> bool" where
  "keeps_dirs H H' \<longleftrightarrow> dom H' = dom H \<and> (\<forall>a d. H a = Some d \<longrightarrow> (\<exists>d'. H' a = Some d' \<and> carried d d'))"

lemma carried_refl: "carried d d"
  by (simp add: carried_def kept_def)

lemma carried_trans: "carried d e \<Longrightarrow> carried e f \<Longrightarrow> carried d f"
  unfolding carried_def kept_def retired_def by (auto split: if_splits)

lemma carried_cases: "carried d d' \<Longrightarrow> kept d d' \<or> retired d d'"
  by (auto simp: carried_def kept_def split: if_splits)

lemma keeps_dirs_refl: "keeps_dirs H H"
  unfolding keeps_dirs_def using carried_refl by blast

lemma keeps_dirs_trans:
  assumes "keeps_dirs H H'" "keeps_dirs H' H''"
  shows "keeps_dirs H H''"
  unfolding keeps_dirs_def
proof (intro conjI allI impI)
  show "dom H'' = dom H" using assms by (simp add: keeps_dirs_def)
  fix a d assume "H a = Some d"
  then obtain d' where d': "H' a = Some d'" "carried d d'" using assms(1) unfolding keeps_dirs_def by blast
  then obtain d'' where "H'' a = Some d''" "carried d' d''" using assms(2) unfolding keeps_dirs_def by blast
  then show "\<exists>d'. H'' a = Some d' \<and> carried d d'" using carried_trans[OF d'(2)] by blast
qed

lemma keeps_dirs_upd:
  "H a = Some d \<Longrightarrow> d_index_node d \<noteq> None \<Longrightarrow> kept d d' \<or> retired d d' \<Longrightarrow> keeps_dirs H (H(a \<mapsto> d'))"
  unfolding keeps_dirs_def using carried_refl by (auto simp: carried_def)

lemma keeps_dirs_back:
  assumes "keeps_dirs H H'" "H' a = Some d'"
  obtains d where "H a = Some d" "kept d d' \<or> retired d d'" "carried d d'"
proof -
  have "a \<in> dom H" using assms unfolding keeps_dirs_def by (metis domI)
  then obtain d where "H a = Some d" by blast
  then show ?thesis using that assms carried_cases unfolding keeps_dirs_def by (metis option.inject)
qed

lemma keeps_dirs_uncached: "keeps_dirs H H' \<Longrightarrow> H a = Some d \<Longrightarrow> d_index_node d = None \<Longrightarrow> H' a = Some d"
  unfolding keeps_dirs_def carried_def by fastforce

lemma drop_entry_ok:
  assumes r: "drep (s\<lparr>dirs := (dirs s)(a \<mapsto> d\<lparr>qidx_node := None\<rparr>)\<rparr>) A {a}" and m: "mode_ok s"
    and d: "dirs s a = Some d" "linked d" "d_index_node d \<noteq> None"
  obtains s' d' where "drop_entry s a = Some s'" "env s' = env s" "dirs s' = (dirs s)(a \<mapsto> d')" "retired d d'"
    "drep s' A {}"
proof -
  let ?s = "s\<lparr>dirs := (dirs s)(a \<mapsto> d\<lparr>qidx_node := None\<rparr>)\<rparr>"
  have st: "sentinel ?s = sentinel s" by (rule sentinel_eqI) simp_all
  have ev: "env ?s = env s" using st by (simp add: env_def)
  have m': "mode_ok ?s" using m mode_ok_env[OF ev] by simp
  obtain i j where ij: "d_index_node d = Some i" "d_didname_node d = Some j" using d by (auto simp: linked_def)
  obtain s1 where s1: "dircache_remove ?s a (DIRCACHE OR DIDNAME_INDEX) = Some s1" "env s1 = env ?s"
    "dirs s1 = (dirs ?s)(a \<mapsto> unlinked False (d\<lparr>qidx_node := None\<rparr>))" "drep s1 A ({a} - {a})"
    using dircache_remove_indexes[OF r m', of a "d\<lparr>qidx_node := None\<rparr>" i j] ij by (simp del: fun_upd_apply) (metis fun_upd_same)
  let ?d = "unlinked False (d\<lparr>qidx_node := None\<rparr>)"
  have d1: "dirs s1 a = Some ?d" "d_index_node ?d = None" "d_didname_node ?d = None" "qidx_node ?d = None"
    "\<not> is_indexed ?d" using s1(3) by simp_all
  obtain s2 where s2: "dircache_defer_free s1 a = Some s2" "env s2 = env s1"
    "dirs s2 = (dirs s1)(a \<mapsto> ?d\<lparr>d_did := CNID_INVALID\<rparr>)" "drep s2 A ({a} - {a})"
    using dircache_defer_free_ok[OF s1(4) d1] by blast
  show ?thesis
  proof (rule that[of s2 "?d\<lparr>d_did := CNID_INVALID\<rparr>"])
    show "drop_entry s a = Some s2" using d(1) s1(1) s2(1) by (simp add: drop_entry_def upd_dir_def)
    show "env s2 = env s" using s2(2) s1(2) ev by simp
    show "dirs s2 = (dirs s)(a \<mapsto> ?d\<lparr>d_did := CNID_INVALID\<rparr>)" using s2(3) s1(3) by simp
    show "retired d (?d\<lparr>d_did := CNID_INVALID\<rparr>)" by (simp add: retired_def)
  qed (use s2(4) in simp)
qed

subsection \<open>Reading the ends of a list\<close>

lemma qrep_next:
  assumes r: "qrep H h snt iv A" and q: "snt X = Some q"
  shows "get_next h q = Some (hd (map (node_of H) (A X) @ [q]))"
    "A X = xs @ a # ys \<Longrightarrow> get_next h (node_of H a) = Some (hd (map (node_of H) ys @ [q]))"
    "a \<in> set (A X) \<Longrightarrow> node_of H a \<noteq> q"
    "a \<in> set (A X) \<Longrightarrow> \<exists>c. qcells h (node_of H a) = Some c \<and> qdata c = Some a"
proof -
  obtain L where L: "qwf h L" "L q = Some (map (node_of H) (A X))" using r q unfolding qrep_def qmap_def by blast
  show "get_next h q = Some (hd (map (node_of H) (A X) @ [q]))" using qwf_tail(2)[OF L] .
  show "A X = xs @ a # ys \<Longrightarrow> get_next h (node_of H a) = Some (hd (map (node_of H) ys @ [q]))"
    using qwf_neighbours(2)[OF L(1), of q "map (node_of H) xs" "node_of H a" "map (node_of H) ys"] L(2) by simp
  show "a \<in> set (A X) \<Longrightarrow> node_of H a \<noteq> q" using qwf_distinct[OF L] by auto
  assume "a \<in> set (A X)"
  from qrep_entry[OF r this] have "get_data h (node_of H a) = Some a" by metis
  then show "\<exists>c. qcells h (node_of H a) = Some c \<and> qdata c = Some a"
    by (auto simp: get_data_def split: option.splits)
qed

lemma arc_find_victim_ok:
  assumes r: "drep s A S" and q: "sentinel s X \<noteq> None"
  shows "arc_find_victim s (sentinel s X) (csize s X) = Some (spec_victim (curdir s) (A X))"
proof (cases "A X")
  case Nil
  then show ?thesis using drep_parts(2)[OF r] by (simp add: arc_find_victim_def spec_victim_def)
next
  case (Cons a xs)
  note p = drep_parts[OF r]
  obtain q where q: "sentinel s X = Some q" using q by blast
  note n = qrep_next[OF p(1) q]
  have aX: "a \<in> set (A X)" using Cons by simp
  obtain d m where d: "dirs s a = Some d" "qidx_node d = Some m" using drep_entry[OF r aX] by metis
  obtain c where c: "qcells (qh s) (node_of (dirs s) a) = Some c" "qdata c = Some a" using n(4)[OF aX] by blast
  have nx: "get_next (qh s) q = Some (node_of (dirs s) a)" "node_of (dirs s) a \<noteq> q" using n(1,3) aX Cons by auto
  have sz: "csize s X = Suc (length xs)" using p(2) Cons by simp
  show ?thesis
  proof (cases "curdir s = Some a")
    case False
    then show ?thesis using q sz nx c d Cons by (simp add: arc_find_victim_def spec_victim_def)
  next
    case True
    show ?thesis
    proof (cases xs)
      case Nil
      then show ?thesis using True q sz nx c d Cons by (simp add: arc_find_victim_def spec_victim_def)
    next
      case (Cons b ys)
      have bX: "b \<in> set (A X)" using Cons \<open>A X = a # xs\<close> by simp
      obtain e m' where e: "dirs s b = Some e" "qidx_node e = Some m'" using drep_entry[OF r bX] by metis
      obtain c' where c': "qcells (qh s) (node_of (dirs s) b) = Some c'" "qdata c' = Some b" using n(4)[OF bX] by blast
      have nx': "get_next (qh s) (node_of (dirs s) a) = Some (node_of (dirs s) b)" "node_of (dirs s) b \<noteq> q"
        using n(2)[of "[]" a xs] n(3)[OF bX] Cons \<open>A X = a # xs\<close> by auto
      have "a \<noteq> b" using qrep_distinct[OF p(1), of X] Cons \<open>A X = a # xs\<close> by auto
      then show ?thesis using True q sz nx c d nx' c' e Cons \<open>A X = a # xs\<close>
        by (simp add: arc_find_victim_def spec_victim_def)
    qed
  qed
qed

lemma arc_ghost_trim_candidate_ok:
  assumes r: "qrep H h snt iv A" and q: "snt X = Some q"
  shows "arc_ghost_trim_candidate h (Some q) skip = Some (map_option (node_of H) (trim_cand skip (A X)))"
proof (cases "A X")
  case Nil
  then show ?thesis using qrep_next(1)[OF r q] by (simp add: arc_ghost_trim_candidate_def trim_cand_def)
next
  case (Cons a xs)
  note n = qrep_next[OF r q]
  have aX: "a \<in> set (A X)" using Cons by simp
  obtain c where c: "qcells h (node_of H a) = Some c" "qdata c = Some a" using n(4)[OF aX] by blast
  have nx: "get_next h q = Some (node_of H a)" "node_of H a \<noteq> q" using n(1,3) aX Cons by auto
  show ?thesis
  proof (cases "skip = Some a")
    case False
    then show ?thesis using nx c Cons by (simp add: arc_ghost_trim_candidate_def trim_cand_def)
  next
    case True
    show ?thesis
    proof (cases xs)
      case Nil
      then have "get_next h (node_of H a) = Some q" using n(2)[of "[]" a xs] Cons by simp
      then show ?thesis using Nil True nx c Cons by (simp add: arc_ghost_trim_candidate_def trim_cand_def)
    next
      case (Cons b ys)
      have bX: "b \<in> set (A X)" using Cons \<open>A X = a # xs\<close> by simp
      obtain c' where c': "qcells h (node_of H b) = Some c'" "qdata c' = Some b" using n(4)[OF bX] by blast
      have nx': "get_next h (node_of H a) = Some (node_of H b)" "node_of H b \<noteq> q"
        using n(2)[of "[]" a xs] n(3)[OF bX] Cons \<open>A X = a # xs\<close> by auto
      then show ?thesis using True nx c c' Cons \<open>A X = a # xs\<close>
        by (simp add: arc_ghost_trim_candidate_def trim_cand_def)
    qed
  qed
qed

subsection \<open>Releasing and moving entries\<close>

text \<open>
  Taking an entry off its list and out of the cache, with the size of the list adjusted: the
  common shape of the three places where ARC deletes an entry for good.
\<close>

lemma release_ok:
  assumes r: "drep s A {}" and m: "mode_ok s" and A: "A X = xs @ a # ys" and d: "dirs s a = Some d"
    and s1: "csize (s\<lparr>qh := h, arc := B\<rparr>) = (csize s)(X := csize s X - 1)" "sentinel (s\<lparr>qh := h, arc := B\<rparr>) = sentinel s"
      "arc_enabled B = arc_enabled (arc s)" "arc_p B = arc_p (arc s)" "arc_c B = arc_c (arc s)"
    and h: "queue_remove (qh s) (qidx_node d) = Some (Some a, h)"
  obtains s' d' where "drop_entry (s\<lparr>qh := h, arc := B\<rparr>) a = Some s'" "env s' = env s"
    "dirs s' = (dirs s)(a \<mapsto> d')" "retired d d'" "drep s' (A(X := xs @ ys)) {}"
proof -
  note p = drep_parts[OF r]
  have aX: "a \<in> set (A X)" using A by simp
  have qd: "qidx_node d \<noteq> None" using drep_entry[OF r aX] d by (metis option.distinct(1) option.inject)
  then have lk: "linked d" "d_index_node d \<noteq> None" using p(6)[OF d] by (auto simp: linked_def)
  let ?d = "d\<lparr>qidx_node := None\<rparr>" and ?s = "s\<lparr>qh := h, arc := B\<rparr>"
  let ?s2 = "?s\<lparr>dirs := (dirs ?s)(a \<mapsto> ?d)\<rparr>"
  have qr: "qrep ((dirs s)(a \<mapsto> ?d)) h (sentinel s) (invalid_dircache_entries s) (A(X := xs @ ys))"
    using qrep_leave[OF p(1) A d, of ?d] h by auto
  have st: "sentinel ?s2 = sentinel s" "csize ?s2 = (csize s)(X := csize s X - 1)"
    unfolding s1(1,2)[symmetric] by (rule sentinel_eqI csize_eqI; simp)+
  have rep: "drep ?s2 (A(X := xs @ ys)) {a}"
    unfolding drep_def st
  proof (intro conjI allI impI)
    show "did_rep (dirs ?s2) (dircache_tab ?s2)"
      by simp (rule by_did.rep_upd[OF p(3) d], auto simp: hash_comp_vid_did_def)
    show "name_rep (dirs ?s2) (index_didname ?s2)"
      by simp (rule by_name.rep_upd[OF p(4) d], auto simp: hash_comp_didname_def)
    show "vid_ok (dirs ?s2) (vid_entry_count ?s2)" by simp (rule vid_ok_upd[OF p(5) d], auto)
    show "dirs ?s2 b = Some e \<Longrightarrow> b \<notin> {a} \<Longrightarrow> linked e" for b e using p(6)[of b e] by simp
    show "((csize s)(X := csize s X - 1)) Y = length ((A(X := xs @ ys)) Y)" for Y using p(2) A by simp
  qed (use qr in simp_all)
  have ev: "env ?s = env s" using s1(2-5) queue_remove_alloc[OF h] by (simp add: env_def)
  have m': "mode_ok ?s" using m mode_ok_env[OF ev] by simp
  show ?thesis using drop_entry_ok[OF rep m' _ lk] d ev that by auto
qed

text \<open>Moving an entry between lists.\<close>

lemma drep_moved:
  assumes r: "drep s A S" and d: "dirs s a = Some d"
    and q: "qrep ((dirs s)(a \<mapsto> d')) (qh s') (sentinel s) (invalid_dircache_entries s) B"
    and same: "d_index_node d' = d_index_node d" "d_didname_node d' = d_didname_node d" "d_vid d' = d_vid d"
      "d_did d' = d_did d" "d_pdid d' = d_pdid d" "d_u_name d' = d_u_name d" "a \<notin> S \<Longrightarrow> linked d'"
    and s': "dirs s' = (dirs s)(a \<mapsto> d')" "sentinel s' = sentinel s"
      "invalid_dircache_entries s' = invalid_dircache_entries s" "\<And>X. csize s' X = length (B X)"
      "dircache_tab s' = dircache_tab s" "index_didname s' = index_didname s"
      "vid_entry_count s' = vid_entry_count s"
  shows "drep s' B S"
proof -
  note p = drep_parts[OF r]
  have "did_rep (dirs s') (dircache_tab s')"
    unfolding s' by (rule by_did.rep_upd[OF p(3) d]) (use same in \<open>auto simp: hash_comp_vid_did_def\<close>)
  moreover have "name_rep (dirs s') (index_didname s')"
    unfolding s' by (rule by_name.rep_upd[OF p(4) d]) (use same in \<open>auto simp: hash_comp_didname_def\<close>)
  moreover have "vid_ok (dirs s') (vid_entry_count s')"
    unfolding s' by (rule vid_ok_upd[OF p(5) d]) (use same in auto)
  moreover have "linked e" if "dirs s' b = Some e" "b \<notin> S" for b e
    using that p(6) same(7) unfolding s' by (auto split: if_splits)
  ultimately show ?thesis unfolding drep_def using q s' by simp
qed

lemma remove1_split: "a \<notin> set xs \<Longrightarrow> remove1 a (xs @ a # ys) = xs @ ys"
  by (induction xs) auto

lemma arc_ensure_ghost_capacity_ok:
  assumes r: "drep s A {}" and m: "mode_ok s" and en: "arc_enabled (arc s)" and Y: "ghost_list Y"
  obtains s' where "arc_ensure_ghost_capacity s Y = Some s'" "env s' = env s"
    "drep s' (spec_trim (arc_c (arc s)) (arc_promoting_ghost s) Y A) {}"
    "\<And>b. b \<notin> set (A Y) \<or> b \<in> set (spec_trim (arc_c (arc s)) (arc_promoting_ghost s) Y A Y) \<Longrightarrow> dirs s' b = dirs s b"
    "keeps_dirs (dirs s) (dirs s')"
proof -
  note p = drep_parts[OF r]
  have Y12: "Y = ARC_B1 \<or> Y = ARC_B2" using Y by (simp add: ghost_list_def)
  have Yn: "Y \<noteq> ARC_NONE" using Y12 by auto
  let ?full = "\<not> b1_size (arc s) + b2_size (arc s) < arc_c (arc s)"
  have full: "?full \<longleftrightarrow> \<not> length (A ARC_B1) + length (A ARC_B2) < arc_c (arc s)"
    using p(2)[of ARC_B1] p(2)[of ARC_B2] by (simp add: csize_simps)
  obtain q where q: "sentinel s Y = Some q" using m en Yn unfolding mode_ok_def by auto
  have tq: "(if Y = ARC_B1 then arc_b1 (arc s) else arc_b2 (arc s)) = Some q" using q Y12 by (auto simp: sentinel_simps)
  note cand = arc_ghost_trim_candidate_ok[OF p(1) q, of "arc_promoting_ghost s"]
  show ?thesis
  proof (cases "?full \<and> trim_cand (arc_promoting_ghost s) (A Y) \<noteq> None")
    case False
    then have t: "spec_trim (arc_c (arc s)) (arc_promoting_ghost s) Y A = A"
      using full by (auto simp: spec_trim_def)
    have "arc_ensure_ghost_capacity s Y = Some s"
      using False Y12 tq cand by (auto simp: arc_ensure_ghost_capacity_def Let_def)
    then show ?thesis using r t keeps_dirs_refl by (intro that[of s]) auto
  next
    case True
    then obtain g where g: "trim_cand (arc_promoting_ghost s) (A Y) = Some g" by blast
    have gY: "g \<in> set (A Y)" using trim_cand_Some[OF qrep_distinct[OF p(1)] g] by simp
    obtain d n xs ys where d: "dirs s g = Some d" "qidx_node d = Some n" "A Y = xs @ g # ys" "g \<notin> set xs"
      using drep_entry[OF r gY] by metis
    have t: "spec_trim (arc_c (arc s)) (arc_promoting_ghost s) Y A = A(Y := xs @ ys)"
      using True full g d(3,4) by (simp add: spec_trim_def remove1_split)
    have nn: "node_of (dirs s) g = n" using d by (simp add: node_of_def)
    have dat: "get_data (qh s) n = Some g" using qrep_entry[OF p(1) gY] nn by metis
    obtain h where h: "queue_remove (qh s) (Some n) = Some (Some g, h)"
      using qrep_leave[OF p(1) d(3,1), of "d\<lparr>qidx_node := None\<rparr>"] d(2) by auto
    have pos: "csize s Y = Suc (length (xs @ ys))" using p(2) d(3) by simp
    define B where "B = (if Y = ARC_B1 then (arc s)\<lparr>b1_size := b1_size (arc s) - 1\<rparr> else (arc s)\<lparr>b2_size := b2_size (arc s) - 1\<rparr>)"
    have B: "csize (s\<lparr>qh := h, arc := B\<rparr>) = (csize s)(Y := csize s Y - 1)" "sentinel (s\<lparr>qh := h, arc := B\<rparr>) = sentinel s"
      using Y12 by (auto simp: B_def csize_def sentinel_def fun_eq_iff split: arc_list_t.splits)
    have Bf: "arc_enabled B = arc_enabled (arc s)" "arc_p B = arc_p (arc s)" "arc_c B = arc_c (arc s)"
      by (auto simp: B_def)
    obtain s' d' where s': "drop_entry (s\<lparr>qh := h, arc := B\<rparr>) g = Some s'" "env s' = env s"
      "dirs s' = (dirs s)(g \<mapsto> d')" "retired d d'" "drep s' (A(Y := xs @ ys)) {}"
      using release_ok[OF r m d(3,1) B Bf] h d(2) by metis
    have bpos: "Y = ARC_B1 \<Longrightarrow> b1_size (arc s) > 0" "Y = ARC_B2 \<Longrightarrow> b2_size (arc s) > 0"
      using pos by (auto simp: csize_simps)
    have "arc_ensure_ghost_capacity s Y = Some s'"
      using True tq cand g nn dat h s'(1) bpos Y12
      by (auto simp: arc_ensure_ghost_capacity_def Let_def B_def split: if_splits)
    moreover have "dirs s' b = dirs s b" if "b \<notin> set (A Y) \<or> b \<in> set ((A(Y := xs @ ys)) Y)" for b
    proof -
      have "b \<noteq> g" using that qrep_minus[OF p(1) d(3), of b Y] gY by auto
      then show ?thesis using s'(3) by simp
    qed
    moreover have "keeps_dirs (dirs s) (dirs s')"
      using keeps_dirs_upd[of "dirs s" g d d', OF d(1) drep_indexed(1)[OF r gY d(1)]] s'(3,4) by simp
    ultimately show ?thesis using s'(2,5) t by (intro that[of s']) auto
  qed
qed

text \<open>Eviction to a ghost list: trimming, then the move.\<close>

lemma csize_evict:
  assumes "X = ARC_T1 \<and> Y = ARC_B1 \<or> X = ARC_T2 \<and> Y = ARC_B2" "csize s X = Suc n"
    and "arc s' = (if Y = ARC_B1
        then (arc s)\<lparr>t1_size := size_dec (t1_size (arc s)), b1_size := b1_size (arc s) + 1, astats := st1\<rparr>
        else (arc s)\<lparr>t2_size := size_dec (t2_size (arc s)), b2_size := b2_size (arc s) + 1, astats := st2\<rparr>)"
    and "queue_count s' = queue_count s"
  shows "csize s' = (csize s)(X := n, Y := csize s Y + 1)"
  using assms by (intro ext) (auto simp: csize_def size_dec_def split: arc_list_t.splits)

lemma arc_evict_to_ghost_ok:
  assumes r: "drep s A {}" and m: "mode_ok s" and en: "arc_enabled (arc s)"
    and XY: "X = ARC_T1 \<and> Y = ARC_B1 \<or> X = ARC_T2 \<and> Y = ARC_B2" and v: "v \<in> set (A X)"
  obtains s' where "arc_evict_to_ghost s v (sentinel s X) (sentinel s Y) Y = Some s'" "env s' = env s"
    "drep s' (spec_evict (arc_c (arc s)) (arc_promoting_ghost s) X Y v A) {}" "keeps_dirs (dirs s) (dirs s')"
proof -
  let ?T = "spec_trim (arc_c (arc s)) (arc_promoting_ghost s) Y A"
  have Y: "ghost_list Y" "X \<noteq> Y" "\<not> ghost_list X" using XY by (auto simp: ghost_list_def)
  obtain s1 where s1: "arc_ensure_ghost_capacity s Y = Some s1" "env s1 = env s" "drep s1 ?T {}"
    "keeps_dirs (dirs s) (dirs s1)"
    using arc_ensure_ghost_capacity_ok[OF r m en Y(1)] by metis
  note p = drep_parts[OF s1(3)] and ev = env_eqD[OF s1(2)]
  have vX: "v \<in> set (?T X)" using v spec_trim_other[OF Y(2)] by simp
  obtain d n xs ys where d: "dirs s1 v = Some d" "qidx_node d = Some n" "?T X = xs @ v # ys" "v \<notin> set xs" "arc_list d = X"
    using drep_entry[OF s1(3) vX] by metis
  have lk: "linked d" using p(6)[OF d(1)] by simp
  let ?d = "ea_cache_free d\<lparr>d_flags := d_flags d OR DIRF_ARC_GHOST, arc_list := Y\<rparr>"
  have sy: "sentinel s1 Y \<noteq> None" using m en XY ev(6) unfolding mode_ok_def by (auto simp: sentinel_simps)
  obtain h where h: "queue_move_to_tail_of (qh s1) (sentinel s1 X) (sentinel s1 Y) (qidx_node d) = Some (qidx_node d, h)"
    "qrep ((dirs s1)(v \<mapsto> ?d)) h (sentinel s1) (invalid_dircache_entries s1)
       (?T(X := xs @ ys, Y := (?T(X := xs @ ys)) Y @ [v]))"
    using qrep_move[OF p(1) d(3,1) sy, of ?d] Y by (auto simp: ea_cache_free_def)
  have B: "?T(X := xs @ ys, Y := (?T(X := xs @ ys)) Y @ [v]) = spec_evict (arc_c (arc s)) (arc_promoting_ghost s) X Y v A"
    unfolding spec_evict_def move_def Let_def d(3) remove1_split[OF d(4)] ..
  let ?ea = "ea_dropped s1 + (if dcache_eanames d \<noteq> None \<or> dcache_eavals d \<noteq> None then 1 else 0)"
  let ?st = "astats (arc s1)"
  let ?arc = "if Y = ARC_B1
        then (arc s1)\<lparr>t1_size := size_dec (t1_size (arc s1)), b1_size := b1_size (arc s1) + 1,
               astats := ?st\<lparr>evictions_t1 := evictions_t1 ?st + 1\<rparr>\<rparr>
        else (arc s1)\<lparr>t2_size := size_dec (t2_size (arc s1)), b2_size := b2_size (arc s1) + 1,
               astats := ?st\<lparr>evictions_t2 := evictions_t2 ?st + 1\<rparr>\<rparr>"
  let ?s = "s1\<lparr>qh := h, ea_dropped := ?ea, dirs := (dirs s1)(v \<mapsto> ?d), arc := ?arc\<rparr>"
  have run: "arc_evict_to_ghost s v (sentinel s X) (sentinel s Y) Y = Some ?s"
    using s1(1) d(1,2) h(1) ev(6)
    by (simp add: arc_evict_to_ghost_def upd_dir_def Let_def ea_cache_free_def)
  have len: "csize s1 X = Suc (length (xs @ ys))" using p(2) d(3) by simp
  have cs: "csize ?s = (csize s1)(X := length (xs @ ys), Y := csize s1 Y + 1)"
    by (rule csize_evict[OF XY len]) auto
  have st: "sentinel ?s = sentinel s1" by (rule sentinel_eqI) auto
  have rep: "drep ?s (?T(X := xs @ ys, Y := (?T(X := xs @ ys)) Y @ [v])) {}"
  proof (rule drep_moved[OF s1(3) d(1)])
    show "linked ?d" using lk unfolding linked_def by (simp add: ea_cache_free_def)
    show "csize ?s Z = length ((?T(X := xs @ ys, Y := (?T(X := xs @ ys)) Y @ [v])) Z)" for Z
      using p(2) Y(2) unfolding cs by simp
  qed (use h(2) st in \<open>simp_all add: ea_cache_free_def\<close>)
  have "env ?s = env s1" using st queue_move_alloc(1)[OF h(1)] by (auto simp: env_def)
  moreover have "keeps_dirs (dirs s) (dirs ?s)"
  proof (rule keeps_dirs_trans)
    show "keeps_dirs (dirs s) (dirs s1)" using s1(4) .
    show "keeps_dirs (dirs s1) (dirs ?s)"
      using keeps_dirs_upd[of "dirs s1" v d ?d, OF d(1) drep_indexed(1)[OF s1(3) vX d(1)]] by (simp add: ea_cache_free_def kept_def)
  qed
  ultimately show ?thesis using run rep s1(2) unfolding B by (intro that[of ?s]) simp_all
qed

text \<open>\<open>arc_replace\<close> in the release build refines \<open>REPLACE\<close>.\<close>

lemma verify_release: "\<not> dc_debug s \<Longrightarrow> arc_verify_invariants s = Some s"
  by (simp add: arc_verify_invariants_def)

lemma arc_replace_ok:
  assumes r: "drep s A {}" and m: "mode_ok s" and en: "arc_enabled (arc s)" and db: "\<not> dc_debug s"
  obtains s' i where "arc_replace s b2 = Some (i, s')" "env s' = env s" "keeps_dirs (dirs s) (dirs s')"
    "drep s' (replaced (arc_c (arc s)) (arc_p (arc s)) (curdir s) (arc_promoting_ghost s) b2 A) {}"
proof -
  note p = drep_parts[OF r]
  let ?c = "arc_c (arc s)" and ?p = "arc_p (arc s)" and ?k = "arc_promoting_ghost s"
  have sn: "sentinel s ARC_T1 \<noteq> None" "sentinel s ARC_T2 \<noteq> None" using m en unfolding mode_ok_def by auto
  note v1 = arc_find_victim_ok[OF r sn(1), unfolded sentinel_simps csize_simps]
  note v2 = arc_find_victim_ok[OF r sn(2), unfolded sentinel_simps csize_simps]
  have t1: "t1_size (arc s) = length (A ARC_T1)" using p(2)[of ARC_T1] by (simp add: csize_simps)
  have e1: "\<exists>s'. arc_evict_to_ghost s v (arc_t1 (arc s)) (arc_b1 (arc s)) ARC_B1 = Some s' \<and> env s' = env s \<and>
      keeps_dirs (dirs s) (dirs s') \<and> \<not> dc_debug s' \<and> drep s' (spec_evict ?c ?k ARC_T1 ARC_B1 v A) {}"
    if "spec_victim (curdir s) (A ARC_T1) = Some v" for v
  proof -
    have "v \<in> set (A ARC_T1)" using spec_victim_Some[OF qrep_distinct[OF p(1)] that] by simp
    from arc_evict_to_ghost_ok[OF r m en _ this, of ARC_B1] show ?thesis
      using env_eqD(4) db unfolding sentinel_simps by metis
  qed
  have e2: "\<exists>s'. arc_evict_to_ghost s v (arc_t2 (arc s)) (arc_b2 (arc s)) ARC_B2 = Some s' \<and> env s' = env s \<and>
      keeps_dirs (dirs s) (dirs s') \<and> \<not> dc_debug s' \<and> drep s' (spec_evict ?c ?k ARC_T2 ARC_B2 v A) {}"
    if "spec_victim (curdir s) (A ARC_T2) = Some v" for v
  proof -
    have "v \<in> set (A ARC_T2)" using spec_victim_Some[OF qrep_distinct[OF p(1)] that] by simp
    from arc_evict_to_ghost_ok[OF r m en _ this, of ARC_B2] show ?thesis
      using env_eqD(4) db unfolding sentinel_simps by metis
  qed
  have "\<exists>s' i. arc_replace s b2 = Some (i, s') \<and> env s' = env s \<and> keeps_dirs (dirs s) (dirs s') \<and>
     drep s' (replaced ?c ?p (curdir s) ?k b2 A) {}"
  proof (cases "spec_victim (curdir s) (A ARC_T1)")
    case None
    show ?thesis
    proof (cases "spec_victim (curdir s) (A ARC_T2)")
      case None2: None
      then show ?thesis using None v1 v2 r keeps_dirs_refl
        by (auto simp: arc_replace_def Let_def replaced_def spec_replace_def)
    next
      case (Some w)
      from e2[OF this] None v1 v2 Some show ?thesis
        by (auto simp: arc_replace_def Let_def replaced_def spec_replace_def verify_release)
    qed
  next
    case (Some v)
    show ?thesis
    proof (cases "spec_victim (curdir s) (A ARC_T2)")
      case None
      from e1[OF Some] None v1 v2 Some show ?thesis
        by (auto simp: arc_replace_def Let_def replaced_def spec_replace_def verify_release)
    next
      case Some2: (Some w)
      from e1[OF Some] e2[OF Some2] v1 v2 Some Some2 t1 show ?thesis
        by (auto simp: arc_replace_def Let_def replaced_def spec_replace_def verify_release)
    qed
  qed
  then show ?thesis using that by blast
qed

end
