(* ===== verification/Dircache_Ops.thy ===== *)
theory Dircache_Ops
  imports Dircache_Refine
begin

text \<open>
  The operations of the directory cache in ARC mode, each shown to succeed on every state that
  satisfies the invariant and to act on the four lists as the ARC algorithm says: accesses
  (Cases I to III), making room and inserting (Case IV), addition with the expunging of
  duplicates, removal, and the purge of a volume.
\<close>

subsection \<open>Accesses\<close>

definition set_p :: "nat \<Rightarrow> dcache \<Rightarrow> dcache" where
  "set_p p s = s\<lparr>arc := (arc s)\<lparr>arc_p := p\<rparr>\<rparr>"

definition env_but_p :: "dcache \<Rightarrow> dcache \<Rightarrow> bool" where
  "env_but_p s s' \<longleftrightarrow> env (set_p (arc_p (arc s)) s') = env s"

lemma set_p_sentinel [simp]: "sentinel (set_p p s) = sentinel s" "csize (set_p p s) = csize s"
  by (rule sentinel_eqI csize_eqI; simp add: set_p_def)+

lemma env_but_p_refl: "env s' = env s \<Longrightarrow> env_but_p s s'"
proof -
  assume e: "env s' = env s"
  have "set_p (arc_p (arc s)) s' = s'" using env_eqD(9)[OF e] by (simp add: set_p_def)
  then show "env_but_p s s'" using e by (simp add: env_but_p_def)
qed

lemma csize_move:
  assumes "csize s X = Suc n" "X \<noteq> Y"
    and "csize s' X = n" "csize s' Y = csize s Y + 1" "\<And>Z. Z \<noteq> X \<Longrightarrow> Z \<noteq> Y \<Longrightarrow> csize s' Z = csize s Z"
  shows "csize s' = (csize s)(X := n, Y := csize s Y + 1)"
  using assms by auto

lemma move_split: "a \<notin> set xs \<Longrightarrow> A X = xs @ a # ys \<Longrightarrow>
   move X Y a A = A(X := xs @ ys, Y := (A(X := xs @ ys)) Y @ [a])"
  by (simp add: move_def remove1_split Let_def)

lemma arc_case_i_ok:
  assumes r: "drep s A {}" and m: "mode_ok s" and en: "arc_enabled (arc s)" and db: "\<not> dc_debug s"
    and a: "a \<in> set (A X)" and X: "X = ARC_T1 \<or> X = ARC_T2"
  obtains s' where "arc_case_i s a = Some s'" "env s' = env s" "keeps_dirs (dirs s) (dirs s')"
    "drep s' (move X ARC_T2 a A) {}"
proof -
  note goal = that
  note p = drep_parts[OF r]
  obtain d n xs ys where d: "dirs s a = Some d" "qidx_node d = Some n" "arc_list d = X" "is_ghost d \<longleftrightarrow> ghost_list X"
    "A X = xs @ a # ys" "a \<notin> set xs" using drep_entry[OF r a] by metis
  have lk: "linked d" using p(6)[OF d(1)] by simp
  let ?d = "d\<lparr>arc_list := ARC_T2\<rparr>" and ?B = "move X ARC_T2 a A"
  have B: "?B = A(X := xs @ ys, ARC_T2 := (A(X := xs @ ys)) ARC_T2 @ [a])" using move_split[of a xs A X ys ARC_T2, OF d(6,5)] .
  have g: "is_ghost ?d \<longleftrightarrow> ghost_list ARC_T2" using d(4) X by (auto simp: ghost_list_def)
  have len: "csize s X = Suc (length (xs @ ys))" using p(2) d(5) by simp
  have kd: "keeps_dirs (dirs s) ((dirs s)(a \<mapsto> ?d))" by (rule keeps_dirs_upd[of "dirs s" a d, OF d(1) drep_indexed(1)[OF r a d(1)]]) (simp add: kept_def)
  have fin: thesis if run: "arc_case_i s a = Some s'" and q: "qrep ((dirs s)(a \<mapsto> ?d)) (qh s') (sentinel s) (invalid_dircache_entries s) ?B"
    and s': "dirs s' = (dirs s)(a \<mapsto> ?d)" "sentinel s' = sentinel s"
      "invalid_dircache_entries s' = invalid_dircache_entries s" "\<And>X. csize s' X = length (?B X)"
      "dircache_tab s' = dircache_tab s" "index_didname s' = index_didname s"
      "vid_entry_count s' = vid_entry_count s" "env s' = env s" for s'
  proof (rule goal[OF run])
    show "drep s' ?B {}" by (rule drep_moved[OF r d(1) q _ _ _ _ _ _ _ s'(1-7)]) (use lk in \<open>simp_all add: linked_def\<close>)
  qed (use kd s' in simp_all)
  let ?st = "astats (arc s)"
  show thesis
  proof (cases "X = ARC_T1")
    case True
    have sn: "sentinel s ARC_T2 \<noteq> None" using m en unfolding mode_ok_def by auto
    obtain h where h: "queue_move_to_tail_of (qh s) (sentinel s X) (sentinel s ARC_T2) (qidx_node d) = Some (qidx_node d, h)"
      "qrep ((dirs s)(a \<mapsto> ?d)) h (sentinel s) (invalid_dircache_entries s) ?B"
      using qrep_move[OF p(1) d(5,1) sn, of ?d] g unfolding B by auto
    let ?s = "s\<lparr>qh := h, arc := (arc s)\<lparr>t1_size := size_dec (t1_size (arc s)), t2_size := t2_size (arc s) + 1,
        astats := ?st\<lparr>hits_t1 := hits_t1 ?st + 1, promotions_t1_to_t2 := promotions_t1_to_t2 ?st + 1\<rparr>\<rparr>,
        dirs := (dirs s)(a \<mapsto> ?d)\<rparr>"
    have "arc_case_i s a = Some ?s"
      using d True h(1) db by (simp add: arc_case_i_def upd_dir_def sentinel_simps Let_def verify_release)
    moreover have st: "sentinel ?s = sentinel s" by (rule sentinel_eqI) auto
    moreover have "csize ?s = (csize s)(X := length (xs @ ys), ARC_T2 := csize s ARC_T2 + 1)"
      using len True by (intro ext) (auto simp: csize_def split: arc_list_t.splits)
    then have "csize ?s Z = length (?B Z)" for Z using p(2) True unfolding B by simp
    moreover have "env ?s = env s" using st queue_move_alloc(1)[OF h(1)] by (simp add: env_def)
    ultimately show thesis using h(2) by (intro fin[of ?s]) simp_all
  next
    case False
    then have X2: "X = ARC_T2" using X by simp
    have B2: "?B = A(X := xs @ ys @ [a])" using B X2 by simp
    obtain h where h: "queue_move_to_tail (qh s) (sentinel s X) (qidx_node d) = Some (qidx_node d, h)"
      "qrep ((dirs s)(a \<mapsto> ?d)) h (sentinel s) (invalid_dircache_entries s) ?B"
      using qrep_refresh[OF p(1) d(5,1), of ?d] g X2 unfolding B2 by auto
    let ?s = "s\<lparr>qh := h, arc := (arc s)\<lparr>astats := ?st\<lparr>hits_t2 := hits_t2 ?st + 1\<rparr>\<rparr>,
        dirs := (dirs s)(a \<mapsto> ?d)\<rparr>"
    have "arc_case_i s a = Some ?s"
      using d X2 h(1) db by (simp add: arc_case_i_def upd_dir_def sentinel_simps Let_def verify_release)
    moreover have st: "sentinel ?s = sentinel s" "csize ?s = csize s" by (rule sentinel_eqI csize_eqI; simp)+
    moreover have "csize ?s Z = length (?B Z)" for Z using p(2) d(5) st(2) unfolding B2 by simp
    moreover have "env ?s = env s" using st queue_move_alloc(2)[OF h(1)] by (simp add: env_def)
    ultimately show thesis using h(2) by (intro fin[of ?s]) simp_all
  qed
qed

lemma ghost_to_t2:
  assumes r: "drep s A {}" and m: "mode_ok s" and en: "arc_enabled (arc s)"
    and a: "a \<in> set (A Y)" and Y: "Y = ARC_B1 \<or> Y = ARC_B2"
  obtains d h where "dirs s a = Some d" "qidx_node d \<noteq> None"
    "queue_move_to_tail_of (qh s) (sentinel s Y) (sentinel s ARC_T2) (qidx_node d) = Some (qidx_node d, h)"
    "keeps_dirs (dirs s) ((dirs s)(a \<mapsto> d\<lparr>d_flags := d_flags d AND NOT DIRF_ARC_GHOST, arc_list := ARC_T2\<rparr>))"
    "qalloc h = qalloc (qh s)"
    "\<And>s'. dirs s' = (dirs s)(a \<mapsto> d\<lparr>d_flags := d_flags d AND NOT DIRF_ARC_GHOST, arc_list := ARC_T2\<rparr>) \<Longrightarrow>
       qh s' = h \<Longrightarrow> sentinel s' = sentinel s \<Longrightarrow> invalid_dircache_entries s' = invalid_dircache_entries s \<Longrightarrow>
       csize s' = (csize s)(Y := csize s Y - 1, ARC_T2 := csize s ARC_T2 + 1) \<Longrightarrow>
       dircache_tab s' = dircache_tab s \<Longrightarrow> index_didname s' = index_didname s \<Longrightarrow>
       vid_entry_count s' = vid_entry_count s \<Longrightarrow> drep s' (move Y ARC_T2 a A) {}"
proof -
  note p = drep_parts[OF r]
  obtain d n xs ys where d: "dirs s a = Some d" "qidx_node d = Some n" "A Y = xs @ a # ys" "a \<notin> set xs"
    using drep_entry[OF r a] by metis
  have lk: "linked d" using p(6)[OF d(1)] by simp
  let ?d = "d\<lparr>d_flags := d_flags d AND NOT DIRF_ARC_GHOST, arc_list := ARC_T2\<rparr>" and ?B = "move Y ARC_T2 a A"
  have B: "?B = A(Y := xs @ ys, ARC_T2 := (A(Y := xs @ ys)) ARC_T2 @ [a])"
    using move_split[of a xs A Y ys ARC_T2, OF d(4,3)] .
  have sn: "sentinel s ARC_T2 \<noteq> None" using m en unfolding mode_ok_def by auto
  have g: "qidx_node ?d = qidx_node d" "arc_list ?d = ARC_T2" "is_ghost ?d \<longleftrightarrow> ghost_list ARC_T2"
    by (simp_all add: ghost_list_def)
  obtain h where h: "queue_move_to_tail_of (qh s) (sentinel s Y) (sentinel s ARC_T2) (qidx_node d) = Some (qidx_node d, h)"
    "qrep ((dirs s)(a \<mapsto> ?d)) h (sentinel s) (invalid_dircache_entries s) ?B"
    using qrep_move[OF p(1) d(3,1) sn g] unfolding B by blast
  show ?thesis
  proof (rule that[OF d(1) _ h(1)])
    show "keeps_dirs (dirs s) ((dirs s)(a \<mapsto> ?d))"
      by (rule keeps_dirs_upd[of "dirs s" a d, OF d(1) drep_indexed(1)[OF r a d(1)]]) (simp add: kept_def)
    show "qalloc h = qalloc (qh s)" using queue_move_alloc(1)[OF h(1)] .
    fix s' assume s': "dirs s' = (dirs s)(a \<mapsto> ?d)" "qh s' = h" "sentinel s' = sentinel s"
      "invalid_dircache_entries s' = invalid_dircache_entries s"
      "csize s' = (csize s)(Y := csize s Y - 1, ARC_T2 := csize s ARC_T2 + 1)"
      "dircache_tab s' = dircache_tab s" "index_didname s' = index_didname s" "vid_entry_count s' = vid_entry_count s"
    have cs: "csize s' Z = length (?B Z)" for Z using p(2) d(3) Y unfolding B s'(5) by auto
    show "drep s' ?B {}"
      by (rule drep_moved[OF r d(1) _ _ _ _ _ _ _ _ s'(1,3,4) cs s'(6-8)])
        (use h(2) s'(2) lk in \<open>simp_all add: linked_def\<close>)
  qed (use d(2) in simp)
qed

lemma drep_same:
  assumes "drep s A S" "dirs s' = dirs s" "qh s' = qh s" "sentinel s' = sentinel s"
    "invalid_dircache_entries s' = invalid_dircache_entries s" "csize s' = csize s"
    "dircache_tab s' = dircache_tab s" "index_didname s' = index_didname s" "vid_entry_count s' = vid_entry_count s"
  shows "drep s' A S"
  using assms by (simp add: drep_def)

lemma adapt_frame [simp]:
  "arc_t1 (adapt_up B) = arc_t1 B" "arc_t2 (adapt_up B) = arc_t2 B" "arc_b1 (adapt_up B) = arc_b1 B"
  "arc_b2 (adapt_up B) = arc_b2 B" "arc_c (adapt_up B) = arc_c B" "arc_enabled (adapt_up B) = arc_enabled B"
  "t1_size (adapt_up B) = t1_size B" "t2_size (adapt_up B) = t2_size B" "b1_size (adapt_up B) = b1_size B"
  "b2_size (adapt_up B) = b2_size B"
  "arc_t1 (adapt_down B) = arc_t1 B" "arc_t2 (adapt_down B) = arc_t2 B" "arc_b1 (adapt_down B) = arc_b1 B"
  "arc_b2 (adapt_down B) = arc_b2 B" "arc_c (adapt_down B) = arc_c B" "arc_enabled (adapt_down B) = arc_enabled B"
  "t1_size (adapt_down B) = t1_size B" "t2_size (adapt_down B) = t2_size B" "b1_size (adapt_down B) = b1_size B"
  "b2_size (adapt_down B) = b2_size B"
  by (simp_all add: adapt_up_def adapt_down_def Let_def)

lemma adapt_p:
  assumes "drep s A S" "a \<in> set (A Y)"
  shows "Y = ARC_B1 \<Longrightarrow> arc_p (adapt_up (arc s)) = adapted_up (arc_c (arc s)) (arc_p (arc s)) A"
    and "Y = ARC_B2 \<Longrightarrow> arc_p (adapt_down (arc s)) = adapted_down (arc_p (arc s)) A"
proof -
  have b: "b1_size (arc s) = length (A ARC_B1)" "b2_size (arc s) = length (A ARC_B2)"
    using drep_parts(2)[OF assms(1), of ARC_B1] drep_parts(2)[OF assms(1), of ARC_B2] by (simp_all add: csize_simps)
  have pos: "0 < length (A Y)" using length_pos_if_in_set[OF assms(2)] .
  show "Y = ARC_B1 \<Longrightarrow> arc_p (adapt_up (arc s)) = adapted_up (arc_c (arc s)) (arc_p (arc s)) A"
    using pos unfolding adapt_up_def adapted_up_def Let_def b
    by (cases "A ARC_B2 = []") (auto simp: max_def min_def)
  show "Y = ARC_B2 \<Longrightarrow> arc_p (adapt_down (arc s)) = adapted_down (arc_p (arc s)) A"
    using pos unfolding adapt_down_def adapted_down_def Let_def b
    by (cases "A ARC_B1 = []") (auto simp: max_def)
qed

lemma replaced_keeps_ghost:
  assumes "disjoint_lists A" "a \<in> set (A Y)" "Y = ARC_B1 \<or> Y = ARC_B2"
  shows "a \<in> set (replaced c p cur (Some a) in_b2 A Y)"
  using replaced_ok[OF assms(1), of c cur "Some a" p in_b2] assms(2,3) by (auto simp: replace_ok_def ghost_list_def)

text \<open>
  The body the two ghost cases share: with the target adapted to \<open>p'\<close> and the ghost protected,
  \<open>arc_replace\<close> runs, and the ghost moves to the tail of T2. \<open>s'\<close> is the state the last step
  of either case builds from the intermediate state \<open>s2\<close>.
\<close>

abbreviation unghosted :: "dir \<Rightarrow> dir" where
  "unghosted e \<equiv> e\<lparr>d_flags := d_flags e AND NOT DIRF_ARC_GHOST, arc_list := ARC_T2\<rparr>"

definition promoted_from :: "arc_list_t \<Rightarrow> addr \<Rightarrow> dir \<Rightarrow> qheap \<Rightarrow> dcache \<Rightarrow> dcache \<Rightarrow> bool" where
  "promoted_from Y a e h s2 s' \<longleftrightarrow>
     dirs s' = (dirs s2)(a \<mapsto> unghosted e) \<and> qh s' = h \<and>
     (\<exists>st. arc s' = (if Y = ARC_B1
        then (arc s2)\<lparr>b1_size := size_dec (b1_size (arc s2)), t2_size := t2_size (arc s2) + 1, astats := st\<rparr>
        else (arc s2)\<lparr>b2_size := size_dec (b2_size (arc s2)), t2_size := t2_size (arc s2) + 1, astats := st\<rparr>)) \<and>
     index_queue s' = index_queue s2 \<and> queue_count s' = queue_count s2 \<and>
     invalid_dircache_entries s' = invalid_dircache_entries s2 \<and>
     dircache_tab s' = dircache_tab s2 \<and> index_didname s' = index_didname s2 \<and> vid_entry_count s' = vid_entry_count s2 \<and>
     arc_promoting_ghost s' = None \<and> curdir s' = curdir s2 \<and> rootParent s' = rootParent s2 \<and>
     dircache_maxsize s' = dircache_maxsize s2 \<and> dc_debug s' = dc_debug s2"

lemma ghost_case_ok:
  assumes r: "drep s A {}" and m: "mode_ok s" and en: "arc_enabled (arc s)" and db: "\<not> dc_debug s"
    and a: "a \<in> set (A Y)" and Y: "Y = ARC_B1 \<or> Y = ARC_B2" and pg: "arc_promoting_ghost s = None"
    and s1: "s1 = s\<lparr>arc := B, arc_promoting_ghost := Some a\<rparr>"
    and B: "sentinel s1 = sentinel s" "csize s1 = csize s" "arc_c B = arc_c (arc s)"
      "arc_enabled B = arc_enabled (arc s)" "arc_p B = p'"
  obtains s2 i e h where "arc_replace s1 b2 = Some (i, s2)" "dirs s2 a = Some e" "qidx_node e \<noteq> None" "\<not> dc_debug s2"
    "queue_move_to_tail_of (qh s2) (sentinel s2 Y) (sentinel s2 ARC_T2) (qidx_node e) = Some (qidx_node e, h)"
    "\<And>s'. promoted_from Y a e h s2 s' \<Longrightarrow> env_but_p s s' \<and> arc_p (arc s') = p' \<and> keeps_dirs (dirs s) (dirs s') \<and>
       drep s' (move Y ARC_T2 a (replaced (arc_c (arc s)) p' (curdir s) (Some a) b2 A)) {}"
proof -
  have r1: "drep s1 A {}" by (rule drep_same[OF r]) (use B s1 in simp_all)
  have x1: "mode_ok s1" "arc_enabled (arc s1)" "\<not> dc_debug s1"
    using m en db B(1,4) s1 by (simp_all add: mode_ok_def)
  let ?A = "replaced (arc_c (arc s)) p' (curdir s) (Some a) b2 A"
  from arc_replace_ok[OF r1 x1, of b2] obtain s2 i where s2: "arc_replace s1 b2 = Some (i, s2)" "env s2 = env s1"
    "keeps_dirs (dirs s1) (dirs s2)"
    "drep s2 (replaced (arc_c (arc s1)) (arc_p (arc s1)) (curdir s1) (arc_promoting_ghost s1) b2 A) {}" by blast
  have r2: "drep s2 ?A {}" and k2: "keeps_dirs (dirs s) (dirs s2)" using s2(3,4) B(3,5) s1 by simp_all
  note ev = env_eqD[OF s2(2)]
  have x2: "mode_ok s2" "arc_enabled (arc s2)" using mode_ok_env[OF s2(2)] x1 ev(8) by simp_all
  have a2: "a \<in> set (?A Y)" using replaced_keeps_ghost[OF drep_disjoint[OF r] a Y] .
  obtain e h where e: "dirs s2 a = Some e" "qidx_node e \<noteq> None"
    "queue_move_to_tail_of (qh s2) (sentinel s2 Y) (sentinel s2 ARC_T2) (qidx_node e) = Some (qidx_node e, h)"
    "keeps_dirs (dirs s2) ((dirs s2)(a \<mapsto> unghosted e))" "qalloc h = qalloc (qh s2)"
    "\<And>s'. dirs s' = (dirs s2)(a \<mapsto> unghosted e) \<Longrightarrow>
       qh s' = h \<Longrightarrow> sentinel s' = sentinel s2 \<Longrightarrow> invalid_dircache_entries s' = invalid_dircache_entries s2 \<Longrightarrow>
       csize s' = (csize s2)(Y := csize s2 Y - 1, ARC_T2 := csize s2 ARC_T2 + 1) \<Longrightarrow>
       dircache_tab s' = dircache_tab s2 \<Longrightarrow> index_didname s' = index_didname s2 \<Longrightarrow>
       vid_entry_count s' = vid_entry_count s2 \<Longrightarrow> drep s' (move Y ARC_T2 a ?A) {}"
    using ghost_to_t2[OF r2 x2 a2 Y] by blast
  have pos: "csize s2 Y \<noteq> 0" using drep_parts(2)[OF r2] length_pos_if_in_set[OF a2] by simp
  show ?thesis
  proof (rule that[OF s2(1) e(1,2) _ e(3)])
    show "\<not> dc_debug s2" using ev(4) x1(3) by simp
    fix s' assume pr: "promoted_from Y a e h s2 s'"
    have st: "sentinel s' = sentinel s2" using pr by (intro sentinel_eqI) (auto simp: promoted_from_def)
    have cs: "csize s' = (csize s2)(Y := csize s2 Y - 1, ARC_T2 := csize s2 ARC_T2 + 1)"
      using pos pr Y by (intro ext) (auto simp: csize_def size_dec_def promoted_from_def split: arc_list_t.splits)
    have rep: "drep s' (move Y ARC_T2 a ?A) {}" by (rule e(6)) (use pr st cs in \<open>auto simp: promoted_from_def\<close>)
    have af: "arc_p (arc s') = arc_p (arc s2)" "arc_c (arc s') = arc_c (arc s2)" "arc_enabled (arc s') = arc_enabled (arc s2)"
      using pr by (cases "Y = ARC_B1"; auto simp: promoted_from_def)+
    have fr: "arc_promoting_ghost s' = None" "curdir s' = curdir s2" "rootParent s' = rootParent s2"
     "dircache_maxsize s' = dircache_maxsize s2" "dc_debug s' = dc_debug s2" "qh s' = h"
     "dircache_tab s' = dircache_tab s2" "index_didname s' = index_didname s2"
     "invalid_dircache_entries s' = invalid_dircache_entries s2" "dirs s' = (dirs s2)(a \<mapsto> unghosted e)"
      using pr by (auto simp: promoted_from_def)
    have "env (set_p (arc_p (arc s)) s') = env s"
      unfolding env_def set_p_sentinel using ev st B(1) e(5) pg af fr s1 B(3,4) by (simp add: set_p_def)
    moreover have "arc_p (arc s') = p'" using af ev(9) B(5) s1 by simp
    moreover have "keeps_dirs (dirs s) (dirs s')" using keeps_dirs_trans[OF k2 e(4)] fr by simp
    ultimately show "env_but_p s s' \<and> arc_p (arc s') = p' \<and> keeps_dirs (dirs s) (dirs s') \<and> drep s' (move Y ARC_T2 a ?A) {}"
      using rep by (simp add: env_but_p_def)
  qed
qed

definition promoted :: "dcache \<Rightarrow> dcache \<Rightarrow> nat \<Rightarrow> lists \<Rightarrow> bool" where
  "promoted s s' p' B \<longleftrightarrow> env_but_p s s' \<and> arc_p (arc s') = p' \<and> keeps_dirs (dirs s) (dirs s') \<and> drep s' B {}"

lemma arc_case_ii_ok:
  assumes r: "drep s A {}" and m: "mode_ok s" and en: "arc_enabled (arc s)" and db: "\<not> dc_debug s"
    and a: "a \<in> set (A ARC_B1)" and pg: "arc_promoting_ghost s = None"
    and p': "p' = adapted_up (arc_c (arc s)) (arc_p (arc s)) A"
  obtains s' where "arc_case_ii_adapt_and_replace s a = Some s'"
    "promoted s s' p' (move ARC_B1 ARC_T2 a (replaced (arc_c (arc s)) p' (curdir s) (Some a) False A))"
proof -
  obtain d where d: "dirs s a = Some d" "qidx_node d \<noteq> None" "arc_list d = ARC_B1" "is_ghost d"
    using drep_entry[OF r a] by (metis ghost_list_def option.distinct(1))
  let ?s1 = "s\<lparr>arc := adapt_up (arc s), arc_promoting_ghost := Some a\<rparr>"
  have st: "sentinel ?s1 = sentinel s" "csize ?s1 = csize s" by (rule sentinel_eqI csize_eqI; simp)+
  obtain s2 i e h where s2: "arc_replace ?s1 False = Some (i, s2)" "dirs s2 a = Some e" "qidx_node e \<noteq> None" "\<not> dc_debug s2"
    "queue_move_to_tail_of (qh s2) (sentinel s2 ARC_B1) (sentinel s2 ARC_T2) (qidx_node e) = Some (qidx_node e, h)"
    "\<And>s'. promoted_from ARC_B1 a e h s2 s' \<Longrightarrow> env_but_p s s' \<and> arc_p (arc s') = p' \<and> keeps_dirs (dirs s) (dirs s') \<and>
       drep s' (move ARC_B1 ARC_T2 a (replaced (arc_c (arc s)) p' (curdir s) (Some a) False A)) {}"
    using ghost_case_ok[OF r m en db a _ pg refl st, of p' False] adapt_p(1)[OF r a refl] p' adapt_frame by metis
  let ?st = "astats (arc s2)"
  let ?s = "s2\<lparr>arc_promoting_ghost := None, qh := h, dirs := (dirs s2)(a \<mapsto> unghosted e),
     arc := (arc s2)\<lparr>b1_size := size_dec (b1_size (arc s2)), t2_size := t2_size (arc s2) + 1,
         astats := ?st\<lparr>ghost_hits_b1 := ghost_hits_b1 ?st + 1\<rparr>\<rparr>\<rparr>"
  have run: "arc_case_ii_adapt_and_replace s a = Some ?s"
    using d s2(1-5)
    by (simp add: arc_case_ii_adapt_and_replace_def upd_dir_def sentinel_simps Let_def verify_release)
  have "promoted_from ARC_B1 a e h s2 ?s" by (auto simp: promoted_from_def)
  then show ?thesis using that[OF run] s2(6) unfolding promoted_def by blast
qed

lemma arc_case_iii_ok:
  assumes r: "drep s A {}" and m: "mode_ok s" and en: "arc_enabled (arc s)" and db: "\<not> dc_debug s"
    and a: "a \<in> set (A ARC_B2)" and pg: "arc_promoting_ghost s = None"
    and p': "p' = adapted_down (arc_p (arc s)) A"
  obtains s' where "arc_case_iii_adapt_and_replace s a = Some s'"
    "promoted s s' p' (move ARC_B2 ARC_T2 a (replaced (arc_c (arc s)) p' (curdir s) (Some a) True A))"
proof -
  obtain d where d: "dirs s a = Some d" "qidx_node d \<noteq> None" "arc_list d = ARC_B2" "is_ghost d"
    using drep_entry[OF r a] by (metis ghost_list_def option.distinct(1))
  let ?s1 = "s\<lparr>arc := adapt_down (arc s), arc_promoting_ghost := Some a\<rparr>"
  have st: "sentinel ?s1 = sentinel s" "csize ?s1 = csize s" by (rule sentinel_eqI csize_eqI; simp)+
  obtain s2 i e h where s2: "arc_replace ?s1 True = Some (i, s2)" "dirs s2 a = Some e" "qidx_node e \<noteq> None" "\<not> dc_debug s2"
    "queue_move_to_tail_of (qh s2) (sentinel s2 ARC_B2) (sentinel s2 ARC_T2) (qidx_node e) = Some (qidx_node e, h)"
    "\<And>s'. promoted_from ARC_B2 a e h s2 s' \<Longrightarrow> env_but_p s s' \<and> arc_p (arc s') = p' \<and> keeps_dirs (dirs s) (dirs s') \<and>
       drep s' (move ARC_B2 ARC_T2 a (replaced (arc_c (arc s)) p' (curdir s) (Some a) True A)) {}"
    using ghost_case_ok[OF r m en db a _ pg refl st, of p' True] adapt_p(2)[OF r a refl] p' adapt_frame by metis
  let ?st = "astats (arc s2)"
  let ?s = "s2\<lparr>arc_promoting_ghost := None, qh := h, dirs := (dirs s2)(a \<mapsto> unghosted e),
     arc := (arc s2)\<lparr>b2_size := size_dec (b2_size (arc s2)), t2_size := t2_size (arc s2) + 1,
         astats := ?st\<lparr>ghost_hits_b2 := ghost_hits_b2 ?st + 1\<rparr>\<rparr>\<rparr>"
  have run: "arc_case_iii_adapt_and_replace s a = Some ?s"
    using d s2(1-5)
    by (simp add: arc_case_iii_adapt_and_replace_def upd_dir_def sentinel_simps Let_def verify_release)
  have "promoted_from ARC_B2 a e h s2 ?s" by (auto simp: promoted_from_def)
  then show ?thesis using that[OF run] s2(6) unfolding promoted_def by blast
qed

text \<open>\<open>dircache_promote\<close> and the hit path of the searches refine an access.\<close>

lemma dircache_promote_ok:
  assumes r: "drep s A {}" and m: "mode_ok s" and en: "arc_enabled (arc s)" and db: "\<not> dc_debug s"
    and a: "a \<in> set (A X)" and pg: "arc_promoting_ghost s = None"
    and sp: "spec_access (arc_c (arc s)) (curdir s) X a (arc_p (arc s), A) = (p', B)"
  obtains s' where "dircache_promote s a = Some s'" "promoted s s' p' B"
proof -
  obtain d where d: "dirs s a = Some d" "arc_list d = X" using drep_entry[OF r a] by metis
  have "X \<noteq> ARC_NONE" using drep_mode(1)[OF r m a] en by simp
  then consider "X = ARC_T1 \<or> X = ARC_T2" | "X = ARC_B1" | "X = ARC_B2" by (cases X) auto
  then show ?thesis
  proof cases
    case 1
    then have eq: "dircache_promote s a = arc_case_i s a" "p' = arc_p (arc s)" "B = move X ARC_T2 a A"
      using d en sp by (auto simp: dircache_promote_def spec_access_def)
    obtain s' where s': "arc_case_i s a = Some s'" "env s' = env s" "keeps_dirs (dirs s) (dirs s')" "drep s' B {}"
      using arc_case_i_ok[OF r m en db a 1] eq(3) by metis
    have "promoted s s' p' B"
      unfolding promoted_def using env_but_p_refl[OF s'(2)] env_eqD(9)[OF s'(2)] s'(3,4) eq(2) by simp
    then show ?thesis using eq(1) s'(1) by (intro that[of s']) simp_all
  next
    case 2
    then have eq: "dircache_promote s a = arc_case_ii_adapt_and_replace s a"
      "p' = adapted_up (arc_c (arc s)) (arc_p (arc s)) A"
      "B = move ARC_B1 ARC_T2 a (replaced (arc_c (arc s)) p' (curdir s) (Some a) False A)"
      using d en sp by (auto simp: dircache_promote_def spec_access_def Let_def)
    show ?thesis using arc_case_ii_ok[OF r m en db _ pg eq(2)] a 2 that eq by metis
  next
    case 3
    then have eq: "dircache_promote s a = arc_case_iii_adapt_and_replace s a"
      "p' = adapted_down (arc_p (arc s)) A"
      "B = move ARC_B2 ARC_T2 a (replaced (arc_c (arc s)) p' (curdir s) (Some a) True A)"
      using d en sp by (auto simp: dircache_promote_def spec_access_def Let_def)
    show ?thesis using arc_case_iii_ok[OF r m en db _ pg eq(2)] a 3 that eq by metis
  qed
qed

subsection \<open>Making room\<close>

lemma size_drop_arc:
  assumes "csize s X \<noteq> 0" "X \<noteq> ARC_NONE"
  shows "csize (s\<lparr>qh := h, arc := size_drop X (arc s)\<rparr>) = (csize s)(X := csize s X - 1)"
    "sentinel (s\<lparr>qh := h, arc := size_drop X (arc s)\<rparr>) = sentinel s"
proof -
  obtain n where n: "csize s X = Suc n" using assms(1) by (cases "csize s X") auto
  have "csize (s\<lparr>qh := h, arc := size_drop X (arc s)\<rparr>) = csize (s\<lparr>arc := size_drop X (arc s)\<rparr>)"
    by (rule csize_eqI) simp_all
  then show "csize (s\<lparr>qh := h, arc := size_drop X (arc s)\<rparr>) = (csize s)(X := csize s X - 1)"
    using size_drop_size[OF n assms(2)] n by simp
  show "sentinel (s\<lparr>qh := h, arc := size_drop X (arc s)\<rparr>) = sentinel s" by (rule sentinel_eqI) simp_all
qed

text \<open>Deleting one entry of a list for good, by its node or as the head of the list.\<close>

lemma delete_entry_ok:
  assumes r: "drep s A {}" and m: "mode_ok s" and en: "arc_enabled (arc s)" and a: "a \<in> set (A X)"
  obtains d h s' where "dirs s a = Some d" "arc_list d = X" "queue_remove (qh s) (qidx_node d) = Some (Some a, h)"
    "drop_entry (s\<lparr>qh := h, arc := size_drop X (arc s)\<rparr>) a = Some s'" "env s' = env s"
    "keeps_dirs (dirs s) (dirs s')" "drep s' (A(X := remove1 a (A X))) {}"
proof -
  note p = drep_parts[OF r]
  obtain d n xs ys where d: "dirs s a = Some d" "qidx_node d = Some n" "arc_list d = X" "A X = xs @ a # ys" "a \<notin> set xs"
    using drep_entry[OF r a] by metis
  obtain h where h: "queue_remove (qh s) (qidx_node d) = Some (Some a, h)"
    using qrep_leave[OF p(1) d(4,1), of "d\<lparr>qidx_node := None\<rparr>"] by auto
  have X: "X \<noteq> ARC_NONE" using drep_mode(1)[OF r m a] en by simp
  have pos: "csize s X \<noteq> 0" using p(2) d(4) by simp
  obtain s' d' where s': "drop_entry (s\<lparr>qh := h, arc := size_drop X (arc s)\<rparr>) a = Some s'" "env s' = env s"
    "dirs s' = (dirs s)(a \<mapsto> d')" "retired d d'" "drep s' (A(X := xs @ ys)) {}"
    using release_ok[OF r m d(4,1) size_drop_arc[OF pos X] _ _ _ h] by auto
  have "keeps_dirs (dirs s) (dirs s')" using keeps_dirs_upd[of "dirs s" a d d', OF d(1) drep_indexed(1)[OF r a d(1)]] s'(3,4) by simp
  then show ?thesis using that[OF d(1,3) h s'(1,2)] s'(5) d(4) remove1_split[OF d(5)] by simp
qed

lemma dequeue_entry_ok:
  assumes r: "drep s A {}" and m: "mode_ok s" and en: "arc_enabled (arc s)" and X: "X \<noteq> ARC_NONE"
  obtains (empty) "A X = []" "dequeue (qh s) (sentinel s X) = Some (None, qh s)"
  | (some) g h s' where "dequeue (qh s) (sentinel s X) = Some (Some g, h)"
    "drop_entry (s\<lparr>qh := h, arc := size_drop X (arc s)\<rparr>) g = Some s'" "env s' = env s"
    "keeps_dirs (dirs s) (dirs s')" "drep s' (A(X := tl (A X))) {}"
proof -
  note p = drep_parts[OF r]
  obtain q where q: "sentinel s X = Some q" using m en X unfolding mode_ok_def by auto
  obtain L where L: "qwf (qh s) L" "L q = Some (map (node_of (dirs s)) (A X))"
    using p(1) q unfolding qrep_def qmap_def by blast
  show ?thesis
  proof (cases "A X")
    case Nil
    then show ?thesis using empty qwf_dequeue_Nil[OF L(1), of q] L(2) q by simp
  next
    case (Cons g gs)
    then have g: "g \<in> set (A X)" by simp
    obtain d h s' where d: "dirs s g = Some d" "queue_remove (qh s) (qidx_node d) = Some (Some g, h)"
      "drop_entry (s\<lparr>qh := h, arc := size_drop X (arc s)\<rparr>) g = Some s'" "env s' = env s"
      "keeps_dirs (dirs s) (dirs s')" "drep s' (A(X := remove1 g (A X))) {}"
      using delete_entry_ok[OF r m en g] by metis
    obtain d2 n where "dirs s g = Some d2" "qidx_node d2 = Some n" using drep_entry[OF r g] by metis
    then have "qidx_node d = Some (node_of (dirs s) g)" using d(1) by (simp add: node_of_def)
    then have "dequeue (qh s) (sentinel s X) = Some (Some g, h)"
      using dequeue_head[OF L(1), of q "node_of (dirs s) g" "map (node_of (dirs s)) gs"] L(2) Cons q d(2) by simp
    then show ?thesis using some d(3-6) Cons by simp
  qed
qed

lemma arc_case_iv_make_room_ok:
  assumes r: "drep s A {}" and m: "mode_ok s" and en: "arc_enabled (arc s)" and db: "\<not> dc_debug s"
    and pg: "arc_promoting_ghost s = None"
  obtains s' where "arc_case_iv_make_room s = Some s'" "env s' = env s" "keeps_dirs (dirs s) (dirs s')"
    "drep s' (spec_make_room (arc_c (arc s)) (arc_p (arc s)) (curdir s) A) {}"
proof -
  note p = drep_parts[OF r]
  let ?c = "arc_c (arc s)" and ?p = "arc_p (arc s)"
  have sz: "t1_size (arc s) = length (A ARC_T1)" "t2_size (arc s) = length (A ARC_T2)"
    "b1_size (arc s) = length (A ARC_B1)" "b2_size (arc s) = length (A ARC_B2)"
    using p(2)[of ARC_T1] p(2)[of ARC_T2] p(2)[of ARC_B1] p(2)[of ARC_B2] by (simp_all add: csize_simps)
  have repl: "\<exists>i s'. arc_replace s1 False = Some (i, s') \<and> env s' = env s \<and> keeps_dirs (dirs s) (dirs s') \<and>
      drep s' (replaced ?c ?p (curdir s) None False A1) {}"
    if "env s1 = env s" "keeps_dirs (dirs s) (dirs s1)" "drep s1 A1 {}" for s1 A1
  proof -
    note ev = env_eqD[OF that(1)]
    have "mode_ok s1" "arc_enabled (arc s1)" "\<not> dc_debug s1" using mode_ok_env[OF that(1)] m en db ev by simp_all
    from arc_replace_ok[OF that(3) this, of False] show ?thesis
      using that(1,2) ev pg keeps_dirs_trans by metis
  qed
  have deq: "\<exists>g h s1 i s'. dequeue (qh s) (sentinel s Y) = Some (g, h) \<and>
      (case g of None \<Rightarrow> Some (s\<lparr>qh := h\<rparr>)
       | Some g \<Rightarrow> drop_entry (s\<lparr>qh := h, arc := size_drop Y (arc s)\<rparr>) g) = Some s1 \<and>
      arc_replace s1 False = Some (i, s') \<and> env s' = env s \<and> keeps_dirs (dirs s) (dirs s') \<and>
      drep s' (replaced ?c ?p (curdir s) None False (A(Y := tl (A Y)))) {}" if "ghost_list Y" for Y
  proof -
    have Y: "Y \<noteq> ARC_NONE" using that by (auto simp: ghost_list_def)
    from r m en Y show ?thesis
    proof (cases rule: dequeue_entry_ok)
      case empty
      moreover have "A(Y := tl (A Y)) = A" using empty(1) by auto
      ultimately show ?thesis using repl[of s A] r keeps_dirs_refl by auto
    next
      case (some g h s')
      then show ?thesis using repl[OF some(3-5)] by auto
    qed
  qed
  have b12: "size_drop ARC_B1 B = B\<lparr>b1_size := size_dec (b1_size B)\<rparr>" "size_drop ARC_B2 B = B\<lparr>b2_size := size_dec (b2_size B)\<rparr>"
    "size_drop ARC_T1 B = B\<lparr>t1_size := size_dec (t1_size B)\<rparr>" "size_drop ARC_T2 B = B\<lparr>t2_size := size_dec (t2_size B)\<rparr>" for B
    by (simp_all add: size_drop_def)
  let ?l1 = "length (A ARC_T1) + length (A ARC_B1)" and ?l2 = "length (A ARC_T2) + length (A ARC_B2)"
  consider (b1) "?l1 = ?c" "length (A ARC_T1) < ?c" | (t1) "?l1 = ?c" "\<not> length (A ARC_T1) < ?c"
    | (full) "?l1 < ?c" "?l1 + ?l2 \<ge> ?c" "?l1 + ?l2 = 2 * ?c" | (part) "?l1 < ?c" "?l1 + ?l2 \<ge> ?c" "?l1 + ?l2 \<noteq> 2 * ?c"
    | (free) "?l1 \<noteq> ?c" "\<not> (?l1 < ?c \<and> ?l1 + ?l2 \<ge> ?c)" by blast
  then have "\<exists>s'. arc_case_iv_make_room s = Some s' \<and> env s' = env s \<and> keeps_dirs (dirs s) (dirs s') \<and>
    drep s' (spec_make_room ?c ?p (curdir s) A) {}"
  proof cases
    case b1
    have "spec_make_room ?c ?p (curdir s) A = replaced ?c ?p (curdir s) None False (A(ARC_B1 := tl (A ARC_B1)))"
      using b1 by (simp add: spec_make_room_def)
    moreover obtain g h s1 i s' where "dequeue (qh s) (sentinel s ARC_B1) = Some (g, h)"
      "(case g of None \<Rightarrow> Some (s\<lparr>qh := h\<rparr>)
        | Some g \<Rightarrow> drop_entry (s\<lparr>qh := h, arc := size_drop ARC_B1 (arc s)\<rparr>) g) = Some s1"
      "arc_replace s1 False = Some (i, s')" "env s' = env s" "keeps_dirs (dirs s) (dirs s')"
      "drep s' (replaced ?c ?p (curdir s) None False (A(ARC_B1 := tl (A ARC_B1)))) {}"
      using deq[of ARC_B1] by (auto simp: ghost_list_def)
    moreover have "arc_case_iv_make_room s = Some s'"
      using calculation(2-4) b1 sz by (cases g) (simp_all add: arc_case_iv_make_room_def Let_def b12 sentinel_simps)
    ultimately show ?thesis by auto
  next
    case t1
    have sn: "sentinel s ARC_T1 \<noteq> None" "sentinel s ARC_T2 \<noteq> None" using m en unfolding mode_ok_def by auto
    note v1 = arc_find_victim_ok[OF r sn(1), unfolded sentinel_simps csize_simps sz]
    note v2 = arc_find_victim_ok[OF r sn(2), unfolded sentinel_simps csize_simps sz]
    have del: "\<exists>s'. (do { d \<leftarrow> dirs s v; (_, h) \<leftarrow> queue_remove (qh s) (qidx_node d);
        drop_entry (s\<lparr>qh := h, arc := (if arc_list d = ARC_T1
             then (arc s)\<lparr>t1_size := size_dec (t1_size (arc s))\<rparr>
             else (arc s)\<lparr>t2_size := size_dec (t2_size (arc s))\<rparr>)\<rparr>) v }) = Some s' \<and>
        env s' = env s \<and> keeps_dirs (dirs s) (dirs s') \<and> drep s' (A(X := remove1 v (A X))) {}"
      if v: "spec_victim (curdir s) (A X) = Some v" and X: "X = ARC_T1 \<or> X = ARC_T2" for v X
    proof -
      have "v \<in> set (A X)" using spec_victim_Some[OF qrep_distinct[OF p(1)] v] by simp
      then obtain d h s' where "dirs s v = Some d" "arc_list d = X" "queue_remove (qh s) (qidx_node d) = Some (Some v, h)"
        "drop_entry (s\<lparr>qh := h, arc := size_drop X (arc s)\<rparr>) v = Some s'" "env s' = env s"
        "keeps_dirs (dirs s) (dirs s')" "drep s' (A(X := remove1 v (A X))) {}"
        using delete_entry_ok[OF r m en] by metis
      then show ?thesis using X by (auto simp: b12)
    qed
    show ?thesis
    proof (cases "spec_victim (curdir s) (A ARC_T1)")
      case (Some v)
      then show ?thesis using del[OF Some] t1 sz v1
        by (auto simp: arc_case_iv_make_room_def Let_def spec_make_room_def)
    next
      case None
      note None1 = None
      show ?thesis
      proof (cases "spec_victim (curdir s) (A ARC_T2)")
        case (Some v)
        then show ?thesis using del[OF Some] None1 t1 sz v1 v2
          by (auto simp: arc_case_iv_make_room_def Let_def spec_make_room_def)
      next
        case None
        then show ?thesis using None1 t1 sz v1 v2 r keeps_dirs_refl
          by (auto simp: arc_case_iv_make_room_def Let_def spec_make_room_def)
      qed
    qed
  next
    case full
    then have "spec_make_room ?c ?p (curdir s) A = replaced ?c ?p (curdir s) None False (A(ARC_B2 := tl (A ARC_B2)))"
      by (simp add: spec_make_room_def)
    moreover obtain g h s1 i s' where "dequeue (qh s) (sentinel s ARC_B2) = Some (g, h)"
      "(case g of None \<Rightarrow> Some (s\<lparr>qh := h\<rparr>)
        | Some g \<Rightarrow> drop_entry (s\<lparr>qh := h, arc := size_drop ARC_B2 (arc s)\<rparr>) g) = Some s1"
      "arc_replace s1 False = Some (i, s')" "env s' = env s" "keeps_dirs (dirs s) (dirs s')"
      "drep s' (replaced ?c ?p (curdir s) None False (A(ARC_B2 := tl (A ARC_B2)))) {}"
      using deq[of ARC_B2] by (auto simp: ghost_list_def)
    moreover have "arc_case_iv_make_room s = Some s'"
      using calculation(2-4) full sz by (cases g) (simp_all add: arc_case_iv_make_room_def Let_def b12 sentinel_simps)
    ultimately show ?thesis by auto
  next
    case part
    then have "spec_make_room ?c ?p (curdir s) A = replaced ?c ?p (curdir s) None False A"
      by (simp add: spec_make_room_def)
    then show ?thesis using repl[of s A] r keeps_dirs_refl part sz
      by (auto simp: arc_case_iv_make_room_def Let_def)
  next
    case free
    then have "spec_make_room ?c ?p (curdir s) A = A" by (auto simp: spec_make_room_def)
    moreover have "arc_case_iv_make_room s = Some s" using free sz by (auto simp: arc_case_iv_make_room_def Let_def)
    ultimately show ?thesis using r keeps_dirs_refl by simp
  qed
  then show ?thesis using that by blast
qed

subsection \<open>Linking a new entry\<close>

definition no_did :: "dir_heap \<Rightarrow> dir \<Rightarrow> bool" where
  "no_did H d \<longleftrightarrow> (\<forall>b e. H b = Some e \<longrightarrow> d_index_node e \<noteq> None \<longrightarrow> \<not> hash_comp_vid_did e d)"

definition no_name :: "dir_heap \<Rightarrow> dir \<Rightarrow> bool" where
  "no_name H d \<longleftrightarrow> (\<forall>b e. H b = Some e \<longrightarrow> d_didname_node e \<noteq> None \<longrightarrow> \<not> hash_comp_didname e d)"

lemma no_keys_keeps:
  assumes "keeps_dirs H H'"
  shows "no_did H d \<Longrightarrow> no_did H' d" "no_name H d \<Longrightarrow> no_name H' d"
proof -
  have 1: "\<exists>e. H b = Some e \<and> (kept e e' \<or> retired e e')" if "H' b = Some e'" for b e'
    using keeps_dirs_back[OF assms that] by blast
  show "no_did H d \<Longrightarrow> no_did H' d"
    unfolding no_did_def
  proof (intro allI impI notI)
    fix b e' assume n: "\<forall>b e. H b = Some e \<longrightarrow> d_index_node e \<noteq> None \<longrightarrow> \<not> hash_comp_vid_did e d"
      and e': "H' b = Some e'" "d_index_node e' \<noteq> None" "hash_comp_vid_did e' d"
    from 1[OF e'(1)] obtain e where "H b = Some e" "kept e e'" using e'(2) by (auto simp: retired_def)
    then show False using n e' by (auto simp: kept_def hash_comp_vid_did_def)
  qed
  show "no_name H d \<Longrightarrow> no_name H' d"
    unfolding no_name_def
  proof (intro allI impI notI)
    fix b e' assume n: "\<forall>b e. H b = Some e \<longrightarrow> d_didname_node e \<noteq> None \<longrightarrow> \<not> hash_comp_didname e d"
      and e': "H' b = Some e'" "d_didname_node e' \<noteq> None" "hash_comp_didname e' d"
    from 1[OF e'(1)] obtain e where "H b = Some e" "kept e e'" using e'(2) by (auto simp: retired_def)
    then show False using n e' by (auto simp: kept_def hash_comp_didname_def)
  qed
qed

lemma vid_ok_join:
  assumes v: "vid_ok H cnt" and H: "H a = Some d" "d_index_node d = None" and f: "finite (members d_index_node H)"
    and d': "d_index_node d' \<noteq> None" "d_vid d' = d_vid d"
  shows "vid_ok (H(a \<mapsto> d')) (cnt(d_vid d := cnt (d_vid d) + 1))"
  unfolding vid_ok_def
proof
  fix v
  let ?M = "\<lambda>H v. {b \<in> members d_index_node H. d_vid (deref H (AtDir b)) = v}"
  have fin: "finite (?M H v)" using f by auto
  have a: "a \<notin> ?M H v" using H by (auto simp: members_def)
  have c: "cnt v = card (?M H v)" for v using \<open>vid_ok H cnt\<close> by (simp add: vid_ok_def)
  have "?M (H(a \<mapsto> d')) v = (if v = d_vid d then insert a (?M H v) else ?M H v)"
    using d' H by (auto simp: members_def split: if_splits)
  then show "(cnt(d_vid d := cnt (d_vid d) + 1)) v = card (?M (H(a \<mapsto> d')) v)"
    using c a fin by (cases "v = d_vid d") simp_all
qed

lemma did_insert_ok:
  assumes r: "drep s A S" and d: "dirs s a = Some d" "d_index_node d = None" and new: "no_did (dirs s) d"
    and room: "hash_nodecount (dircache_tab s) < hash_maxcount (dircache_tab s)"
    and al: "\<And>n. al_ok (hash_allocator (dircache_tab s)) n"
  obtains i t s' where "did_insert s a = Some (Some i, s\<lparr>dircache_tab := t\<rparr>)"
    "s' = s\<lparr>dircache_tab := t, dirs := (dirs s)(a \<mapsto> d\<lparr>d_index_node := Some i\<rparr>),
       vid_entry_count := (vid_entry_count s)(d_vid d := vid_entry_count s (d_vid d) + 1)\<rparr>"
    "env s' = env s" "drep s' A (insert a S)" "index_didname s' = index_didname s"
proof -
  note p = drep_parts[OF r]
  let ?H = "dirs s" and ?t = "dircache_tab s"
  have "hash_lookup (did_hash ?H) (did_eq ?H) ?t (AtDir a) = None"
  proof (rule ccontr)
    assume "\<not> ?thesis"
    then obtain n where "hash_lookup (did_hash ?H) (did_eq ?H) ?t (AtDir a) = Some n" by blast
    from by_did.rep_lookup(1)[OF p(3) this] show False using new d(1) by (auto simp: no_did_def)
  qed
  note lk = this
  have sm: "hash_comp_vid_did d (deref ?H (AtDir a))" using d(1) by (simp add: hash_comp_vid_did_def)
  from by_did.rep_insert[OF p(3) d lk sm room al]
  obtain t i where t: "hash_alloc_insert_node (did_hash ?H) (did_eq ?H) ?t (AtDir a) a = Some (Some i, t)"
    "same_answers ?t t" "\<And>d'. d_index_node d' = Some i \<Longrightarrow> hash_comp_vid_did d d' \<Longrightarrow> did_rep (?H(a \<mapsto> d')) t"
    by blast
  let ?d = "d\<lparr>d_index_node := Some i\<rparr>"
  let ?s = "s\<lparr>dircache_tab := t, dirs := ?H(a \<mapsto> ?d),
       vid_entry_count := (vid_entry_count s)(d_vid d := vid_entry_count s (d_vid d) + 1)\<rparr>"
  have st: "sentinel ?s = sentinel s" "csize ?s = csize s" by (rule sentinel_eqI csize_eqI; simp)+
  have run: "did_insert s a = Some (Some i, s\<lparr>dircache_tab := t\<rparr>)"
    using t(1) d(1) by_did.rep_live[OF p(3)] by (simp add: did_insert_def)
  have "drep ?s A (insert a S)"
    unfolding drep_def
  proof (intro conjI allI impI)
    show "qrep (dirs ?s) (qh ?s) (sentinel ?s) (invalid_dircache_entries ?s) A"
      unfolding st by simp (rule qrep_upd[OF p(1) d(1)], auto)
    show "did_rep (dirs ?s) (dircache_tab ?s)" using t(3)[of ?d] by (simp add: hash_comp_vid_did_def)
    show "name_rep (dirs ?s) (index_didname ?s)"
      by simp (rule by_name.rep_upd[OF p(4) d(1)], auto simp: hash_comp_didname_def)
    show "vid_ok (dirs ?s) (vid_entry_count ?s)"
      using vid_ok_join[OF p(5) d by_did.rep_count(2)[OF p(3)], of ?d] by simp
    show "dirs ?s b = Some e \<Longrightarrow> b \<notin> insert a S \<Longrightarrow> linked e" for b e using p(6)[of b e] by simp
  qed (use p(2) st in auto)
  moreover have "env ?s = env s" using t(2) st by (simp add: env_def same_answers_def)
  ultimately show ?thesis by (intro that[OF run refl]) simp_all
qed

lemma name_insert_ok:
  assumes r: "drep s A S" and d: "dirs s a = Some d" "d_didname_node d = None" and new: "no_name (dirs s) d"
    and room: "hash_nodecount (index_didname s) < hash_maxcount (index_didname s)"
    and al: "\<And>n. al_ok (hash_allocator (index_didname s)) n"
  obtains i t s' where "name_insert s a = Some (Some i, s\<lparr>index_didname := t\<rparr>)"
    "s' = s\<lparr>index_didname := t, dirs := (dirs s)(a \<mapsto> d\<lparr>d_didname_node := Some i\<rparr>)\<rparr>"
    "env s' = env s" "drep s' A (insert a S)"
proof -
  note p = drep_parts[OF r]
  let ?H = "dirs s" and ?t = "index_didname s"
  have "hash_lookup (name_hash ?H) (name_eq ?H) ?t (AtDir a) = None"
  proof (rule ccontr)
    assume "\<not> ?thesis"
    then obtain n where "hash_lookup (name_hash ?H) (name_eq ?H) ?t (AtDir a) = Some n" by blast
    from by_name.rep_lookup(1)[OF p(4) this] show False using new d(1) by (auto simp: no_name_def)
  qed
  note lk = this
  have sm: "hash_comp_didname d (deref ?H (AtDir a))" using d(1) by (simp add: hash_comp_didname_def)
  from by_name.rep_insert[OF p(4) d lk sm room al]
  obtain t i where t: "hash_alloc_insert_node (name_hash ?H) (name_eq ?H) ?t (AtDir a) a = Some (Some i, t)"
    "same_answers ?t t" "\<And>d'. d_didname_node d' = Some i \<Longrightarrow> hash_comp_didname d d' \<Longrightarrow> name_rep (?H(a \<mapsto> d')) t"
    by blast
  let ?d = "d\<lparr>d_didname_node := Some i\<rparr>"
  let ?s = "s\<lparr>index_didname := t, dirs := ?H(a \<mapsto> ?d)\<rparr>"
  have st: "sentinel ?s = sentinel s" "csize ?s = csize s" by (rule sentinel_eqI csize_eqI; simp)+
  have run: "name_insert s a = Some (Some i, s\<lparr>index_didname := t\<rparr>)"
    using t(1) d(1) by_name.rep_live[OF p(4)] by (simp add: name_insert_def)
  have "drep ?s A (insert a S)"
    unfolding drep_def
  proof (intro conjI allI impI)
    show "qrep (dirs ?s) (qh ?s) (sentinel ?s) (invalid_dircache_entries ?s) A"
      unfolding st by simp (rule qrep_upd[OF p(1) d(1)], auto)
    show "did_rep (dirs ?s) (dircache_tab ?s)"
      by simp (rule by_did.rep_upd[OF p(3) d(1)], auto simp: hash_comp_vid_did_def)
    show "name_rep (dirs ?s) (index_didname ?s)" using t(3)[of ?d] by (simp add: hash_comp_didname_def)
    show "vid_ok (dirs ?s) (vid_entry_count ?s)" by simp (rule vid_ok_upd[OF p(5) d(1)], auto)
    show "dirs ?s b = Some e \<Longrightarrow> b \<notin> insert a S \<Longrightarrow> linked e" for b e using p(6)[of b e] by simp
  qed (use p(2) st in auto)
  moreover have "env ?s = env s" using t(2) st by (simp add: env_def same_answers_def)
  ultimately show ?thesis by (intro that[OF run refl]) simp_all
qed

lemma arc_case_iv_insert_ok:
  assumes r: "drep s A {a}" and m: "mode_ok s" and en: "arc_enabled (arc s)" and db: "\<not> dc_debug s"
    and d: "dirs s a = Some d" "qidx_node d = None" "d_index_node d \<noteq> None" "d_didname_node d \<noteq> None"
      "is_indexed d" "\<not> is_ghost d" "CNID_START \<le> ntohl (d_did d)"
    and al: "\<And>n. al_ok (qalloc (qh s)) n"
  obtains n s' where "arc_case_iv_insert s a = Some s'" "env s' = env s"
    "dirs s' = (dirs s)(a \<mapsto> d\<lparr>qidx_node := Some n, arc_list := ARC_T1\<rparr>)"
    "drep s' (A(ARC_T1 := A ARC_T1 @ [a])) {}"
proof -
  note p = drep_parts[OF r]
  obtain q where q: "sentinel s ARC_T1 = Some q" using m en unfolding mode_ok_def by auto
  obtain L where L: "qwf (qh s) L" "L q = Some (map (node_of (dirs s)) (A ARC_T1))"
    using p(1) q unfolding qrep_def qmap_def by blast
  obtain n0 h where e0: "enqueue (qh s) q (Some a) = Some (n0, h)" using qwf_enqueue[OF L] by blast
  obtain n where n: "n0 = Some n" using enqueue_alloc(2)[OF e0 al] by blast
  let ?d = "d\<lparr>qidx_node := Some n, arc_list := ARC_T1\<rparr>"
  have qr: "qrep ((dirs s)(a \<mapsto> ?d)) h (sentinel s) (invalid_dircache_entries s) (A(ARC_T1 := A ARC_T1 @ [a]))"
    by (rule qrep_join[OF p(1) d(1,2) q]) (use e0 n d(6) in \<open>simp_all add: ghost_list_def\<close>)
  let ?s0 = "s\<lparr>qh := h, dirs := (dirs s)(a \<mapsto> ?d), arc := (arc s)\<lparr>t1_size := t1_size (arc s) + 1\<rparr>\<rparr>"
  let ?m = "t1_size (arc s) + 1 + t2_size (arc s)"
  let ?s = "if ?m > queue_count_max s then ?s0\<lparr>queue_count_max := ?m\<rparr> else ?s0"
  have st: "sentinel ?s = sentinel s" by (rule sentinel_eqI) auto
  have cs: "csize ?s X = length ((A(ARC_T1 := A ARC_T1 @ [a])) X)" for X
    using p(2)[of X] by (cases X) (auto simp: csize_simps)
  have run: "arc_case_iv_insert s a = Some ?s"
    using q e0 n d(1) db by (simp add: arc_case_iv_insert_def sentinel_simps upd_dir_def Let_def verify_release)
  have rep: "drep ?s (A(ARC_T1 := A ARC_T1 @ [a])) {}"
    unfolding drep_def
  proof (intro conjI allI impI)
    show "qrep (dirs ?s) (qh ?s) (sentinel ?s) (invalid_dircache_entries ?s) (A(ARC_T1 := A ARC_T1 @ [a]))"
      unfolding st using qr by simp
    show "did_rep (dirs ?s) (dircache_tab ?s)"
      using by_did.rep_upd[OF p(3) d(1), of ?d] by (simp add: hash_comp_vid_did_def)
    show "name_rep (dirs ?s) (index_didname ?s)"
      using by_name.rep_upd[OF p(4) d(1), of ?d] by (simp add: hash_comp_didname_def)
    show "vid_ok (dirs ?s) (vid_entry_count ?s)" using vid_ok_upd[OF p(5) d(1), of ?d] by simp
    have lk: "linked ?d" using d unfolding linked_def by simp
    show "linked e" if "dirs ?s b = Some e" "b \<notin> {}" for b e
      using that p(6)[of b e] lk by (auto split: if_splits)
  qed (rule cs)
  have "env ?s = env s" using st enqueue_alloc(1)[OF e0] by (auto simp: env_def)
  then show ?thesis using run rep by (intro that[of ?s n]) simp_all
qed

subsection \<open>Counting\<close>

lemma drep_members:
  assumes r: "drep s A {}"
  shows "members d_index_node (dirs s) = entries A" "members d_didname_node (dirs s) = entries A"
proof -
  have m: "a \<in> entries A \<longleftrightarrow> (\<exists>d. dirs s a = Some d \<and> qidx_node d \<noteq> None)" for a
  proof
    assume "a \<in> entries A"
    then obtain X where "a \<in> set (A X)" by (auto simp: entries_def)
    from drep_entry[OF r this] show "\<exists>d. dirs s a = Some d \<and> qidx_node d \<noteq> None" by (metis option.distinct(1))
  next
    assume "\<exists>d. dirs s a = Some d \<and> qidx_node d \<noteq> None"
    then show "a \<in> entries A" using qrep_back[OF drep_parts(1)[OF r]] entriesI by metis
  qed
  have l: "dirs s a = Some d \<Longrightarrow> linked d" for a d using drep_parts(6)[OF r] by simp
  show "members d_index_node (dirs s) = entries A" "members d_didname_node (dirs s) = entries A"
    unfolding members_def set_eq_iff m mem_Collect_eq using l unfolding linked_def by blast+
qed

lemma card_entries:
  assumes d: "disjoint_lists A" and n: "A ARC_NONE = []"
  shows "card (entries A) = list_total A"
proof -
  have "entries A = set (A ARC_T1 @ A ARC_T2 @ A ARC_B1 @ A ARC_B2)"
    unfolding entries_def using n by (auto, metis arc_list_t.exhaust empty_iff list.set(1))
  moreover have "X \<noteq> Y \<Longrightarrow> set (A X) \<inter> set (A Y) = {}" for X Y using d unfolding disjoint_lists_def by blast
  then have "distinct (A ARC_T1 @ A ARC_T2 @ A ARC_B1 @ A ARC_B2)"
    using d unfolding disjoint_lists_def distinct_append set_append Int_Un_distrib by simp
  ultimately show ?thesis using distinct_card[of "A ARC_T1 @ A ARC_T2 @ A ARC_B1 @ A ARC_B2"]
    by (simp add: list_total_def)
qed

lemma drep_none: "drep s A S \<Longrightarrow> mode_ok s \<Longrightarrow> arc_enabled (arc s) \<Longrightarrow> A ARC_NONE = []"
  using drep_mode(1)[of s A S _ ARC_NONE] by (cases "A ARC_NONE") auto

lemma drep_count:
  assumes "drep s A {}" "mode_ok s" "arc_enabled (arc s)"
  shows "hash_nodecount (dircache_tab s) = list_total A" "hash_nodecount (index_didname s) = list_total A"
  using by_did.rep_count(1)[OF drep_parts(3)[OF assms(1)]] by_name.rep_count(1)[OF drep_parts(4)[OF assms(1)]]
    drep_members[OF assms(1)] card_entries[OF drep_disjoint[OF assms(1)] drep_none[OF assms]] by simp_all

subsection \<open>Expunging duplicates\<close>

abbreviation dir_at :: "dcache \<Rightarrow> addr \<Rightarrow> dir" where
  "dir_at s b \<equiv> deref (dirs s) (AtDir b)"

lemma dircache_expunge_duplicate_ok:
  assumes r: "drep s A {}" and m: "mode_ok s" and a: "a \<in> set (A X)"
  defines "took \<equiv> curdir s = Some a \<and> \<not> is_file (dir_at s a)"
  obtains s' where "dircache_expunge_duplicate s a t = Some (t \<or> took, s')"
    "env s' = env (s\<lparr>curdir := (if took then None else curdir s)\<rparr>)" "keeps_dirs (dirs s) (dirs s')"
    "drep s' (A(X := remove1 a (A X))) {}"
proof -
  obtain d n xs ys where d: "dirs s a = Some d" "qidx_node d = Some n" "A X = xs @ a # ys" "a \<notin> set xs"
    using drep_entry[OF r a] by metis
  note lk = drep_indexed[OF r a d(1)]
  obtain i j where ij: "d_index_node d = Some i" "d_didname_node d = Some j" using lk by blast
  let ?sc = "s\<lparr>curdir := (if took then None else curdir s)\<rparr>"
  have st: "sentinel ?sc = sentinel s" "csize ?sc = csize s" by (rule sentinel_eqI csize_eqI; simp)+
  have r0: "drep ?sc A {}" by (rule drep_same[OF r]) (use st in simp_all)
  have m0: "mode_ok ?sc" using m st(1) by (simp add: mode_ok_def)
  have d0: "dirs ?sc a = Some d" using d(1) by simp
  obtain s1 where s1: "dircache_remove ?sc a (DIRCACHE OR DIDNAME_INDEX OR QUEUE_INDEX) = Some s1" "env s1 = env ?sc"
    "dirs s1 = (dirs s)(a \<mapsto> unlinked True d)" "drep s1 (A(X := xs @ ys)) {}"
    using dircache_remove_everywhere[OF r0 m0 d0 ij d(3), of _ False] by auto
  let ?d = "unlinked True d"
  have d1: "dirs s1 a = Some ?d" "d_index_node ?d = None" "d_didname_node ?d = None" "qidx_node ?d = None"
    "\<not> is_indexed ?d" using s1(3) by simp_all
  obtain s2 where s2: "dircache_defer_free s1 a = Some s2" "env s2 = env s1"
    "dirs s2 = (dirs s1)(a \<mapsto> ?d\<lparr>d_did := CNID_INVALID\<rparr>)" "drep s2 (A(X := xs @ ys)) {}"
    using dircache_defer_free_ok[OF s1(4) d1] by blast
  let ?s = "s2\<lparr>dstat := (dstat s2)\<lparr>st_expunged := st_expunged (dstat s2) + 1\<rparr>\<rparr>"
  have st2: "sentinel ?s = sentinel s2" "csize ?s = csize s2" by (rule sentinel_eqI csize_eqI; simp)+
  have s0: "(if took then (True, s\<lparr>curdir := None\<rparr>) else (t, s)) = (t \<or> took, ?sc)" by auto
  have run: "dircache_expunge_duplicate s a t = Some (t \<or> took, ?s)"
    using d(1) cnid_start_not_reserved[OF lk(3)] s1(1) s2(1) s0
    by (simp add: dircache_expunge_duplicate_def took_def)
  have "drep ?s (A(X := xs @ ys)) {}" by (rule drep_same[OF s2(4)]) (use st2 in simp_all)
  moreover have "env ?s = env ?sc" using s1(2) s2(2) st2 by (simp add: env_def)
  moreover have "keeps_dirs (dirs s) (dirs ?s)"
    using keeps_dirs_upd[of "dirs s" a d "?d\<lparr>d_did := CNID_INVALID\<rparr>", OF d(1) lk(1)] s1(3) s2(3)
    by (simp add: retired_def)
  ultimately show ?thesis using run d(3) remove1_split[OF d(4)] by (intro that[of ?s]) simp_all
qed

definition others :: "(addr \<Rightarrow> bool) \<Rightarrow> lists \<Rightarrow> lists" where
  "others P A = (\<lambda>X. filter (\<lambda>b. \<not> P b) (A X))"

lemma others_none: "\<forall>b \<in> entries A. \<not> P b \<Longrightarrow> others P A = A"
  unfolding others_def by (rule ext, rule filter_True) (auto intro: entriesI)

lemma others_one:
  assumes d: "disjoint_lists A" and a: "a \<in> set (A X)" "P a" and u: "\<forall>b \<in> entries A. P b \<longrightarrow> b = a"
  shows "others P A = A(X := remove1 a (A X))"
proof
  fix Y
  have "filter (\<lambda>b. \<not> P b) (A Y) = filter (\<lambda>b. b \<noteq> a) (A Y)"
    using u a(2) by (intro filter_cong) (auto intro: entriesI)
  also have "\<dots> = (A(X := remove1 a (A X))) Y"
  proof (cases "Y = X")
    case True
    then show ?thesis using d by (simp add: disjoint_lists_def distinct_remove1_removeAll removeAll_filter_not_eq eq_commute)
  next
    case False
    then have "a \<notin> set (A Y)" using d a unfolding disjoint_lists_def by blast
    then show ?thesis using False by (simp add: filter_neq_id)
  qed
  finally show "others P A Y = (A(X := remove1 a (A X))) Y" by (simp add: others_def)
qed

lemma clear_dup_ok:
  assumes r: "drep s A {}" and m: "mode_ok s"
    and hn: "case hn of None \<Rightarrow> \<forall>b \<in> entries A. \<not> P b
      | Some n \<Rightarrow> hash_data n \<in> entries A \<and> P (hash_data n) \<and> (\<forall>b \<in> entries A. P b \<longrightarrow> b = hash_data n)"
  defines "took \<equiv> (\<exists>b \<in> entries A. P b \<and> curdir s = Some b \<and> \<not> is_file (dir_at s b))"
  obtains s' where "(case hn of None \<Rightarrow> Some (t, s) | Some n \<Rightarrow> dircache_expunge_duplicate s (hash_data n) t) = Some (t \<or> took, s')"
    "env s' = env (s\<lparr>curdir := (if took then None else curdir s)\<rparr>)" "keeps_dirs (dirs s) (dirs s')"
    "drep s' (others P A) {}"
proof (cases hn)
  case None
  then have "\<not> took" "others P A = A" using hn others_none[of A P] by (auto simp: took_def)
  then show ?thesis using that[of s] None r keeps_dirs_refl by simp
next
  case (Some n)
  then have h: "hash_data n \<in> entries A" "P (hash_data n)" "\<forall>b \<in> entries A. P b \<longrightarrow> b = hash_data n" using hn by auto
  obtain X where X: "hash_data n \<in> set (A X)" using h(1) by (auto simp: entries_def)
  have tk: "took \<longleftrightarrow> curdir s = Some (hash_data n) \<and> \<not> is_file (dir_at s (hash_data n))"
    using h unfolding took_def by blast
  have "others P A = A(X := remove1 (hash_data n) (A X))" using others_one[OF drep_disjoint[OF r] X h(2,3)] .
  then show ?thesis using dircache_expunge_duplicate_ok[OF r m X, of t, folded tk] that Some by auto
qed

subsection \<open>Adding an entry\<close>

text \<open>The invariant of a cache in ARC mode between two operations.\<close>

definition cache_ok :: "dcache \<Rightarrow> lists \<Rightarrow> bool" where
  "cache_ok s A \<longleftrightarrow> drep s A {} \<and> mode_ok s \<and> arc_enabled (arc s) \<and> arc_promoting_ghost s = None \<and>
     arc_bounds (arc_c (arc s)) A \<and> 2 \<le> arc_c (arc s) \<and> arc_p (arc s) \<le> arc_c (arc s) \<and>
     dircache_maxsize s = arc_c (arc s) \<and> hash_maxcount (dircache_tab s) = 2 * arc_c (arc s) \<and>
     hash_maxcount (index_didname s) = 2 * arc_c (arc s)"

definition allocs_ok :: "dcache \<Rightarrow> bool" where
  "allocs_ok s \<longleftrightarrow> (\<forall>n. al_ok (qalloc (qh s)) n) \<and> (\<forall>n. al_ok (hash_allocator (dircache_tab s)) n) \<and>
     (\<forall>n. al_ok (hash_allocator (index_didname s)) n)"

definition fresh_entry :: "dir \<Rightarrow> bool" where
  "fresh_entry d \<longleftrightarrow> qidx_node d = None \<and> d_index_node d = None \<and> d_didname_node d = None \<and>
     \<not> is_ghost d \<and> 2 \<le> ntohl (d_pdid d) \<and> CNID_START \<le> ntohl (d_did d) \<and> d_vid d \<noteq> 0"

lemma disjoint_lists_others: "disjoint_lists A \<Longrightarrow> disjoint_lists (others P A)"
  by (auto simp: disjoint_lists_def others_def)

lemma arc_bounds_others: "arc_bounds c A \<Longrightarrow> arc_bounds c (others P A)"
  using length_filter_le[of "\<lambda>b. \<not> P b" "A ARC_T1"] length_filter_le[of "\<lambda>b. \<not> P b" "A ARC_T2"]
    length_filter_le[of "\<lambda>b. \<not> P b" "A ARC_B1"] length_filter_le[of "\<lambda>b. \<not> P b" "A ARC_B2"]
  unfolding arc_bounds_def others_def by linarith

lemma entry_dir: "drep s A {} \<Longrightarrow> b \<in> entries A \<Longrightarrow> \<exists>e. dirs s b = Some e \<and> d_index_node e \<noteq> None \<and> d_didname_node e \<noteq> None"
  unfolding entries_def using drep_entry drep_indexed by (metis UN_E)

lemma dir_entry: "drep s A {} \<Longrightarrow> dirs s b = Some e \<Longrightarrow> d_index_node e \<noteq> None \<or> d_didname_node e \<noteq> None \<Longrightarrow> b \<in> entries A"
  using drep_members[of s A] unfolding members_def by blast

lemma did_lookup_ok:
  assumes r: "drep s A {}" and k: "hash_comp_vid_did k d"
  obtains hn where "did_lookup s (OnStack k) = Some hn"
    "case hn of None \<Rightarrow> \<forall>b \<in> entries A. \<not> hash_comp_vid_did (dir_at s b) d
      | Some n \<Rightarrow> hash_data n \<in> entries A \<and> hash_comp_vid_did (dir_at s (hash_data n)) d \<and>
         (\<forall>b \<in> entries A. hash_comp_vid_did (dir_at s b) d \<longrightarrow> b = hash_data n)"
proof -
  note p = drep_parts(3)[OF r]
  let ?hn = "hash_lookup (did_hash (dirs s)) (did_eq (dirs s)) (dircache_tab s) (OnStack k)"
  have run: "did_lookup s (OnStack k) = Some ?hn" using by_did.rep_live[OF p] by (simp add: did_lookup_def)
  have sm: "hash_comp_vid_did x k \<longleftrightarrow> hash_comp_vid_did x d" for x using k by (auto simp: hash_comp_vid_did_def)
  have "case ?hn of None \<Rightarrow> \<forall>b \<in> entries A. \<not> hash_comp_vid_did (dir_at s b) d
      | Some n \<Rightarrow> hash_data n \<in> entries A \<and> hash_comp_vid_did (dir_at s (hash_data n)) d \<and>
         (\<forall>b \<in> entries A. hash_comp_vid_did (dir_at s b) d \<longrightarrow> b = hash_data n)"
  proof (cases ?hn)
    case None
    have "\<not> hash_comp_vid_did (dir_at s b) d" if b: "b \<in> entries A" for b
    proof -
      obtain e where e: "dirs s b = Some e" "d_index_node e \<noteq> None" using entry_dir[OF r b] by blast
      then show ?thesis using by_did.rep_lookup(2)[OF p None e] sm by simp
    qed
    then show ?thesis using None by simp
  next
    case (Some n)
    from by_did.rep_lookup(1)[OF p Some] obtain e where
      e: "dirs s (hash_data n) = Some e" "d_index_node e = Some (hn_addr n)" "hash_comp_vid_did e k" by auto
    have c: "hash_comp_vid_did (dir_at s (hash_data n)) d" using e(1,3) sm by simp
    have "b = hash_data n" if b: "b \<in> entries A" "hash_comp_vid_did (dir_at s b) d" for b
    proof -
      obtain f where f: "dirs s b = Some f" "d_index_node f \<noteq> None" using entry_dir[OF r b(1)] by blast
      obtain n' where "?hn = Some n'" "hash_data n' = b" using by_did.rep_found[OF p f, of "OnStack k"] b(2) f(1) sm by auto
      then show ?thesis using Some by simp
    qed
    moreover have "hash_data n \<in> entries A" using dir_entry[OF r e(1)] e(2) by simp
    ultimately show ?thesis unfolding Some option.case using c by blast
  qed
  with run show ?thesis by (rule that)
qed

lemma name_lookup_ok:
  assumes r: "drep s A {}" and k: "hash_comp_didname k d"
  obtains hn where "name_lookup s (OnStack k) = Some hn"
    "case hn of None \<Rightarrow> \<forall>b \<in> entries A. \<not> hash_comp_didname (dir_at s b) d
      | Some n \<Rightarrow> hash_data n \<in> entries A \<and> hash_comp_didname (dir_at s (hash_data n)) d \<and>
         (\<forall>b \<in> entries A. hash_comp_didname (dir_at s b) d \<longrightarrow> b = hash_data n)"
proof -
  note p = drep_parts(4)[OF r]
  let ?hn = "hash_lookup (name_hash (dirs s)) (name_eq (dirs s)) (index_didname s) (OnStack k)"
  have run: "name_lookup s (OnStack k) = Some ?hn" using by_name.rep_live[OF p] by (simp add: name_lookup_def)
  have sm: "hash_comp_didname x k \<longleftrightarrow> hash_comp_didname x d" for x using k by (auto simp: hash_comp_didname_def)
  have "case ?hn of None \<Rightarrow> \<forall>b \<in> entries A. \<not> hash_comp_didname (dir_at s b) d
      | Some n \<Rightarrow> hash_data n \<in> entries A \<and> hash_comp_didname (dir_at s (hash_data n)) d \<and>
         (\<forall>b \<in> entries A. hash_comp_didname (dir_at s b) d \<longrightarrow> b = hash_data n)"
  proof (cases ?hn)
    case None
    have "\<not> hash_comp_didname (dir_at s b) d" if b: "b \<in> entries A" for b
    proof -
      obtain e where e: "dirs s b = Some e" "d_didname_node e \<noteq> None" using entry_dir[OF r b] by blast
      then show ?thesis using by_name.rep_lookup(2)[OF p None e] sm by simp
    qed
    then show ?thesis using None by simp
  next
    case (Some n)
    from by_name.rep_lookup(1)[OF p Some] obtain e where
      e: "dirs s (hash_data n) = Some e" "d_didname_node e = Some (hn_addr n)" "hash_comp_didname e k" by auto
    have c: "hash_comp_didname (dir_at s (hash_data n)) d" using e(1,3) sm by simp
    have "b = hash_data n" if b: "b \<in> entries A" "hash_comp_didname (dir_at s b) d" for b
    proof -
      obtain f where f: "dirs s b = Some f" "d_didname_node f \<noteq> None" using entry_dir[OF r b(1)] by blast
      obtain n' where "?hn = Some n'" "hash_data n' = b" using by_name.rep_found[OF p f, of "OnStack k"] b(2) f(1) sm by auto
      then show ?thesis using Some by simp
    qed
    moreover have "hash_data n \<in> entries A" using dir_entry[OF r e(1)] e(2) by simp
    ultimately show ?thesis unfolding Some option.case using c by blast
  qed
  with run show ?thesis by (rule that)
qed

end
