(* ===== verification/Dircache_Props.thy ===== *)
theory Dircache_Props
  imports Dircache_Ops
begin

text \<open>
  The properties of the directory cache in ARC mode: addition, access, removal, look-up and the
  purge of a volume keep the invariant and refine the ARC algorithm; the ghost lists can exceed
  the bound the source documents.
\<close>

subsection \<open>Addition\<close>

definition collides :: "dcache \<Rightarrow> dir \<Rightarrow> addr \<Rightarrow> bool" where
  "collides s d b \<longleftrightarrow> hash_comp_vid_did (dir_at s b) d \<or> hash_comp_didname (dir_at s b) d"

definition takes_curdir :: "dcache \<Rightarrow> dir \<Rightarrow> lists \<Rightarrow> bool" where
  "takes_curdir s d A \<longleftrightarrow> (\<exists>b \<in> entries A. collides s d b \<and> curdir s = Some b \<and> \<not> is_file (dir_at s b))"

lemma cache_okD:
  assumes "cache_ok s A"
  shows "drep s A {}" "mode_ok s" "arc_enabled (arc s)" "arc_promoting_ghost s = None"
    "arc_bounds (arc_c (arc s)) A" "2 \<le> arc_c (arc s)" "arc_p (arc s) \<le> arc_c (arc s)"
    "dircache_maxsize s = arc_c (arc s)" "hash_maxcount (dircache_tab s) = 2 * arc_c (arc s)"
    "hash_maxcount (index_didname s) = 2 * arc_c (arc s)"
  using assms by (auto simp: cache_ok_def)

lemma sentinel_curdir [simp]: "sentinel (x\<lparr>curdir := y\<rparr>) = sentinel x" "csize (x\<lparr>curdir := y\<rparr>) = csize x"
  by (rule sentinel_eqI csize_eqI; simp)+

lemma mode_ok_curdir: "mode_ok (x\<lparr>curdir := y\<rparr>) = mode_ok x"
  unfolding mode_ok_def by simp

lemma others_entries: "b \<in> entries (others P A) \<longleftrightarrow> b \<in> entries A \<and> \<not> P b"
  by (auto simp: entries_def others_def)

lemma kept_dir_at:
  assumes "keeps_dirs (dirs s) (dirs s')" "drep s' A' {}" "b \<in> entries A'"
  shows "hash_comp_vid_did (dir_at s' b) d = hash_comp_vid_did (dir_at s b) d"
    "hash_comp_didname (dir_at s' b) d = hash_comp_didname (dir_at s b) d"
    "is_file (dir_at s' b) = is_file (dir_at s b)"
proof -
  obtain e where e: "dirs s' b = Some e" "d_index_node e \<noteq> None" using entry_dir[OF assms(2,3)] by blast
  obtain f where f: "dirs s b = Some f" "kept f e \<or> retired f e" using keeps_dirs_back[OF assms(1) e(1)] by blast
  then have "kept f e" using e(2) by (auto simp: retired_def)
  then show "hash_comp_vid_did (dir_at s' b) d = hash_comp_vid_did (dir_at s b) d"
    "hash_comp_didname (dir_at s' b) d = hash_comp_didname (dir_at s b) d"
    "is_file (dir_at s' b) = is_file (dir_at s b)"
    using e f by (simp_all add: kept_def hash_comp_vid_did_def hash_comp_didname_def)
qed

lemma no_did_entries: "drep s A {} \<Longrightarrow> \<forall>b \<in> entries A. \<not> hash_comp_vid_did (dir_at s b) d \<Longrightarrow> no_did (dirs s) d"
  unfolding no_did_def using dir_entry by (metis deref.simps(1) option.simps(5))

lemma no_name_entries: "drep s A {} \<Longrightarrow> \<forall>b \<in> entries A. \<not> hash_comp_didname (dir_at s b) d \<Longrightarrow> no_name (dirs s) d"
  unfolding no_name_def using dir_entry by (metis deref.simps(1) option.simps(5))

text \<open>The first half of \<open>dircache_add\<close>: no entry of either key is left, and there is room.\<close>

lemma clear_duplicates_ok:
  assumes r: "drep s A {}" and m: "mode_ok s" and d: "dirs s a = Some d" "d_index_node d = None"
  defines "k1 \<equiv> OnStack (zero_dir\<lparr>d_vid := d_vid d, d_did := d_did d\<rparr>)"
    and "k2 \<equiv> OnStack (zero_dir\<lparr>d_vid := d_vid d, d_pdid := d_pdid d, d_u_name := d_u_name d\<rparr>)"
  obtains hn1 t1 s1 hn2 s2 where "did_lookup s k1 = Some hn1"
    "(case hn1 of None \<Rightarrow> Some (False, s) | Some n \<Rightarrow> dircache_expunge_duplicate s (hash_data n) False) = Some (t1, s1)"
    "name_lookup s1 k2 = Some hn2"
    "(case hn2 of None \<Rightarrow> Some (t1, s1) | Some n \<Rightarrow> dircache_expunge_duplicate s1 (hash_data n) t1) =
       Some (takes_curdir s d A, s2)"
    "env s2 = env (s\<lparr>curdir := (if takes_curdir s d A then None else curdir s)\<rparr>)" "keeps_dirs (dirs s) (dirs s2)"
    "drep s2 (others (collides s d) A) {}" "no_did (dirs s2) d" "no_name (dirs s2) d" "dirs s2 a = Some d"
proof -
  have kk: "hash_comp_vid_did (zero_dir\<lparr>d_vid := d_vid d, d_did := d_did d\<rparr>) d"
    "hash_comp_didname (zero_dir\<lparr>d_vid := d_vid d, d_pdid := d_pdid d, d_u_name := d_u_name d\<rparr>) d"
    by (simp_all add: hash_comp_vid_did_def hash_comp_didname_def)
  let ?P1 = "\<lambda>b. hash_comp_vid_did (dir_at s b) d"
  obtain hn1 where h1: "did_lookup s k1 = Some hn1"
    "case hn1 of None \<Rightarrow> \<forall>b \<in> entries A. \<not> ?P1 b
      | Some n \<Rightarrow> hash_data n \<in> entries A \<and> ?P1 (hash_data n) \<and> (\<forall>b \<in> entries A. ?P1 b \<longrightarrow> b = hash_data n)"
    using did_lookup_ok[OF r kk(1)] unfolding k1_def by blast
  define took1 where "took1 = (\<exists>b \<in> entries A. ?P1 b \<and> curdir s = Some b \<and> \<not> is_file (dir_at s b))"
  obtain s1 where s1: "(case hn1 of None \<Rightarrow> Some (False, s) | Some n \<Rightarrow> dircache_expunge_duplicate s (hash_data n) False) = Some (took1, s1)"
    "env s1 = env (s\<lparr>curdir := (if took1 then None else curdir s)\<rparr>)" "keeps_dirs (dirs s) (dirs s1)" "drep s1 (others ?P1 A) {}"
    using clear_dup_ok[OF r m h1(2), of False] unfolding took1_def by auto
  have cur1: "curdir s1 = (if took1 then None else curdir s)" using env_eqD(1)[OF s1(2)] by simp
  have m1: "mode_ok s1" using mode_ok_env[OF s1(2)] m by (simp add: mode_ok_curdir)
  let ?P2 = "\<lambda>b. hash_comp_didname (dir_at s1 b) d" and ?A1 = "others ?P1 A"
  obtain hn2 where h2: "name_lookup s1 k2 = Some hn2"
    "case hn2 of None \<Rightarrow> \<forall>b \<in> entries ?A1. \<not> ?P2 b
      | Some n \<Rightarrow> hash_data n \<in> entries ?A1 \<and> ?P2 (hash_data n) \<and> (\<forall>b \<in> entries ?A1. ?P2 b \<longrightarrow> b = hash_data n)"
    using name_lookup_ok[OF s1(4) kk(2)] unfolding k2_def by blast
  define took2 where "took2 = (\<exists>b \<in> entries ?A1. ?P2 b \<and> curdir s1 = Some b \<and> \<not> is_file (dir_at s1 b))"
  obtain s2 where s2: "(case hn2 of None \<Rightarrow> Some (took1, s1) | Some n \<Rightarrow> dircache_expunge_duplicate s1 (hash_data n) took1) = Some (took1 \<or> took2, s2)"
    "env s2 = env (s1\<lparr>curdir := (if took2 then None else curdir s1)\<rparr>)" "keeps_dirs (dirs s1) (dirs s2)" "drep s2 (others ?P2 ?A1) {}"
    using clear_dup_ok[OF s1(4) m1 h2(2), of took1] unfolding took2_def by auto
  note ka = kept_dir_at[OF s1(3,4)]
  have P2: "?P2 b = hash_comp_didname (dir_at s b) d" if "b \<in> entries ?A1" for b using ka(2)[OF that] .
  have A2: "others ?P2 ?A1 = others (collides s d) A"
  proof
    fix X
    have "filter (\<lambda>b. \<not> ?P2 b) (?A1 X) = filter (\<lambda>b. \<not> hash_comp_didname (dir_at s b) d) (?A1 X)"
      using P2 entriesI[of _ ?A1 X] by (intro filter_cong) auto
    also have "\<dots> = filter (\<lambda>b. \<not> collides s d b) (A X)" unfolding others_def filter_filter collides_def by simp
    finally show "others ?P2 ?A1 X = others (collides s d) A X" unfolding others_def[of ?P2] others_def[of "collides s d"] .
  qed
  have tk: "takes_curdir s d A \<longleftrightarrow> took1 \<or> took2"
  proof
    assume "takes_curdir s d A"
    then obtain b where b: "b \<in> entries A" "collides s d b" "curdir s = Some b" "\<not> is_file (dir_at s b)"
      unfolding takes_curdir_def by blast
    show "took1 \<or> took2"
    proof (cases "took1 \<or> ?P1 b")
      case True
      then show ?thesis using b unfolding took1_def by blast
    next
      case False
      then have b1: "b \<in> entries ?A1" using b(1) by (simp add: others_entries)
      then have "?P2 b" "curdir s1 = Some b" "\<not> is_file (dir_at s1 b)"
        using P2[OF b1] ka(3)[OF b1] b cur1 False unfolding collides_def by auto
      then show ?thesis using b1 unfolding took2_def by blast
    qed
  next
    assume "took1 \<or> took2"
    then show "takes_curdir s d A"
    proof
      assume took2
      then obtain b where b: "b \<in> entries ?A1" "?P2 b" "curdir s1 = Some b" "\<not> is_file (dir_at s1 b)"
        unfolding took2_def by blast
      then have "curdir s = Some b" using cur1 by (auto split: if_splits)
      then show ?thesis using b P2[OF b(1)] ka(3)[OF b(1)] unfolding takes_curdir_def collides_def others_entries by blast
    qed (auto simp: took1_def takes_curdir_def collides_def)
  qed
  have ev: "env s2 = env (s\<lparr>curdir := (if took1 \<or> took2 then None else curdir s)\<rparr>)"
  proof -
    show ?thesis using s1(2) s2(2) cur1 unfolding env_def by auto
  qed
  have keep: "keeps_dirs (dirs s) (dirs s2)" using keeps_dirs_trans[OF s1(3) s2(3)] .
  have "no_did (dirs s1) d" by (rule no_did_entries[OF s1(4)]) (use ka(1) in \<open>auto simp: others_entries\<close>)
  then have nd: "no_did (dirs s2) d" using no_keys_keeps(1)[OF s2(3)] by blast
  have nn: "no_name (dirs s2) d"
  proof (rule no_name_entries[OF s2(4)], rule)
    fix b assume b: "b \<in> entries (others ?P2 ?A1)"
    then have "\<not> ?P2 b" "b \<in> entries ?A1" by (simp_all add: others_entries)
    then show "\<not> hash_comp_didname (dir_at s2 b) d" using kept_dir_at(2)[OF s2(3,4) b] by simp
  qed
  show ?thesis
    by (rule that[OF h1(1) s1(1) h2(1) _ _ keep _ nd nn keeps_dirs_uncached[OF keep d]])
      (use s2(1,4) A2 tk ev in simp_all)
qed

text \<open>The second half: both inserts, the flag and the queue.\<close>

definition linked_as :: "dir \<Rightarrow> dir \<Rightarrow> bool" where
  "linked_as d d' \<longleftrightarrow> d_vid d' = d_vid d \<and> d_did d' = d_did d \<and> d_pdid d' = d_pdid d \<and> d_u_name d' = d_u_name d \<and>
     d_fullpath d' = d_fullpath d \<and> is_file d' = is_file d \<and> arc_list d' = ARC_T1 \<and> \<not> is_ghost d' \<and> is_indexed d'"

lemma insert_entry_ok:
  assumes r: "drep s A {}" and m: "mode_ok s" and en: "arc_enabled (arc s)" and db: "\<not> dc_debug s" and al: "allocs_ok s"
    and d: "dirs s a = Some d" "fresh_entry d" and new: "no_did (dirs s) d" "no_name (dirs s) d"
    and room: "hash_nodecount (dircache_tab s) < hash_maxcount (dircache_tab s)"
      "hash_nodecount (index_didname s) < hash_maxcount (index_didname s)"
  obtains i t j t' s' d' where "did_insert s a = Some (Some i, s\<lparr>dircache_tab := t\<rparr>)"
    "name_insert (s\<lparr>dircache_tab := t, dirs := (dirs s)(a \<mapsto> d\<lparr>d_index_node := Some i\<rparr>),
       vid_entry_count := (vid_entry_count s)(d_vid d := vid_entry_count s (d_vid d) + 1)\<rparr>) a =
     Some (Some j, s\<lparr>dircache_tab := t, dirs := (dirs s)(a \<mapsto> d\<lparr>d_index_node := Some i\<rparr>),
       vid_entry_count := (vid_entry_count s)(d_vid d := vid_entry_count s (d_vid d) + 1), index_didname := t'\<rparr>)"
    "arc_case_iv_insert (s\<lparr>dircache_tab := t,
       vid_entry_count := (vid_entry_count s)(d_vid d := vid_entry_count s (d_vid d) + 1),
       index_didname := t', dirs := (dirs s)(a \<mapsto>
         d\<lparr>d_index_node := Some i, d_didname_node := Some j, d_flags := d_flags d OR DIRF_INDEXED\<rparr>),
       curdir := cd\<rparr>) a = Some s'"
    "env s' = env (s\<lparr>curdir := cd\<rparr>)" "dirs s' = (dirs s)(a \<mapsto> d')" "linked_as d d'"
    "drep s' (A(ARC_T1 := A ARC_T1 @ [a])) {}"
proof -
  have f: "qidx_node d = None" "d_index_node d = None" "d_didname_node d = None" "\<not> is_ghost d"
    "CNID_START \<le> ntohl (d_did d)" using d(2) by (simp_all add: fresh_entry_def)
  have al': "\<And>n. al_ok (hash_allocator (dircache_tab s)) n" "\<And>n. al_ok (hash_allocator (index_didname s)) n"
    "\<And>n. al_ok (qalloc (qh s)) n" using al by (auto simp: allocs_ok_def)
  let ?v = "(vid_entry_count s)(d_vid d := vid_entry_count s (d_vid d) + 1)"
  obtain i t s1 where s1: "did_insert s a = Some (Some i, s\<lparr>dircache_tab := t\<rparr>)"
    "s1 = s\<lparr>dircache_tab := t, dirs := (dirs s)(a \<mapsto> d\<lparr>d_index_node := Some i\<rparr>), vid_entry_count := ?v\<rparr>"
    "env s1 = env s" "drep s1 A {a}" "index_didname s1 = index_didname s"
    using did_insert_ok[OF r d(1) f(2) new(1) room(1) al'(1)] by (metis insert_absorb2)
  let ?d1 = "d\<lparr>d_index_node := Some i\<rparr>"
  have d1: "dirs s1 a = Some ?d1" "d_didname_node ?d1 = None" using s1(2) f by simp_all
  have n1: "no_name (dirs s1) ?d1"
    using new(2) f(3) unfolding no_name_def s1(2) by (auto simp: hash_comp_didname_def)
  have room1: "hash_nodecount (index_didname s1) < hash_maxcount (index_didname s1)" using room(2) s1(5) by simp
  obtain j t' s2 where s2: "name_insert s1 a = Some (Some j, s1\<lparr>index_didname := t'\<rparr>)"
    "s2 = s1\<lparr>index_didname := t', dirs := (dirs s1)(a \<mapsto> ?d1\<lparr>d_didname_node := Some j\<rparr>)\<rparr>"
    "env s2 = env s1" "drep s2 A {a}"
    using name_insert_ok[OF s1(4) d1 n1 room1] al'(2) s1(5) by (metis insert_absorb2)
  let ?d2 = "d\<lparr>d_index_node := Some i, d_didname_node := Some j\<rparr>"
  let ?d3 = "?d2\<lparr>d_flags := d_flags d OR DIRF_INDEXED\<rparr>"
  define s3 where "s3 = s\<lparr>dircache_tab := t, vid_entry_count := ?v, index_didname := t', dirs := (dirs s)(a \<mapsto> ?d3), curdir := cd\<rparr>"
  have d2: "dirs s2 a = Some ?d2" using s2(2) by simp
  have st: "sentinel s3 = sentinel s2" "csize s3 = csize s2" unfolding s3_def s2(2) s1(2) by (rule sentinel_eqI csize_eqI; simp)+
  have r3: "drep s3 A {a}"
    by (rule drep_upd[OF s2(4) d2, of ?d3]) (use st in \<open>simp_all add: s3_def s2(2) s1(2)\<close>)
  have e3: "env s3 = env (s\<lparr>curdir := cd\<rparr>)"
  proof -
    have "env s3 = env (s2\<lparr>curdir := cd\<rparr>)" unfolding env_def using st by (simp add: s3_def s2(2) s1(2))
    moreover have "env (s2\<lparr>curdir := cd\<rparr>) = env (s\<lparr>curdir := cd\<rparr>)"
      using s2(3) s1(3) unfolding env_def by simp
    ultimately show ?thesis by simp
  qed
  have "mode_ok s3" "arc_enabled (arc s3)" "\<not> dc_debug s3" "\<And>n. al_ok (qalloc (qh s3)) n"
    using mode_ok_env[OF e3] m en db al'(3) by (simp_all add: mode_ok_curdir s3_def)
  note x3 = this
  have d3: "dirs s3 a = Some ?d3" "qidx_node ?d3 = None" "d_index_node ?d3 \<noteq> None" "d_didname_node ?d3 \<noteq> None"
    "is_indexed ?d3" "\<not> is_ghost ?d3" "CNID_START \<le> ntohl (d_did ?d3)" using f by (simp_all add: s3_def)
  obtain n s' where s': "arc_case_iv_insert s3 a = Some s'" "env s' = env s3"
    "dirs s' = (dirs s3)(a \<mapsto> ?d3\<lparr>qidx_node := Some n, arc_list := ARC_T1\<rparr>)" "drep s' (A(ARC_T1 := A ARC_T1 @ [a])) {}"
    using arc_case_iv_insert_ok[OF r3 x3(1-3) d3 x3(4)] by metis
  show ?thesis
  proof (rule that[OF s1(1)])
    show "name_insert (s\<lparr>dircache_tab := t, dirs := (dirs s)(a \<mapsto> ?d1), vid_entry_count := ?v\<rparr>) a =
      Some (Some j, s\<lparr>dircache_tab := t, dirs := (dirs s)(a \<mapsto> ?d1), vid_entry_count := ?v, index_didname := t'\<rparr>)"
      using s2(1) unfolding s1(2) by simp
    show "arc_case_iv_insert (s\<lparr>dircache_tab := t, vid_entry_count := ?v,
       index_didname := t', dirs := (dirs s)(a \<mapsto> ?d3), curdir := cd\<rparr>) a = Some s'" using s'(1) unfolding s3_def .
    show "env s' = env (s\<lparr>curdir := cd\<rparr>)" using s'(2) e3 by simp
    show "dirs s' = (dirs s)(a \<mapsto> ?d3\<lparr>qidx_node := Some n, arc_list := ARC_T1\<rparr>)" using s'(3) by (simp add: s3_def)
    show "linked_as d (?d3\<lparr>qidx_node := Some n, arc_list := ARC_T1\<rparr>)" using f by (simp add: linked_as_def)
  qed (rule s'(4))
qed

definition added_curdir :: "dcache \<Rightarrow> vol \<Rightarrow> addr \<Rightarrow> dir \<Rightarrow> lists \<Rightarrow> addr option" where
  "added_curdir s vol a d A = (if takes_curdir s d A then Some (if is_file d then curdir_fallback s vol else a) else curdir s)"

lemma dircache_add_ok:
  assumes ok: "cache_ok s A" and db: "\<not> dc_debug s" and al: "allocs_ok s" and d: "dirs s a = Some d" "fresh_entry d"
  defines "cur \<equiv> (if takes_curdir s d A then None else curdir s)"
  obtains s' d' where "dircache_add s vol a = Some (0, s')" "env s' = env (s\<lparr>curdir := added_curdir s vol a d A\<rparr>)"
    "cache_ok s' (spec_add (arc_c (arc s)) (arc_p (arc s)) cur a (others (collides s d) A))"
    "dirs s' a = Some d'" "linked_as d d'" "\<And>b e. b \<noteq> a \<Longrightarrow> dirs s b = Some e \<Longrightarrow> \<exists>e'. dirs s' b = Some e' \<and> carried e e'"
proof -
  note c = cache_okD[OF ok]
  have f: "d_index_node d = None" "2 \<le> ntohl (d_pdid d)" "CNID_START \<le> ntohl (d_did d)" "d_vid d \<noteq> 0"
    using d(2) by (simp_all add: fresh_entry_def)
  let ?c = "arc_c (arc s)" and ?p = "arc_p (arc s)" and ?A = "others (collides s d) A"
  let ?k1 = "OnStack (zero_dir\<lparr>d_vid := d_vid d, d_did := d_did d\<rparr>)"
    and ?k2 = "OnStack (zero_dir\<lparr>d_vid := d_vid d, d_pdid := d_pdid d, d_u_name := d_u_name d\<rparr>)"
  have cnt: "hash_nodecount (dircache_tab s) \<le> dircache_maxsize s * 2"
    using hash_inv_parts(5)[OF by_did.rep_inv[OF drep_parts(3)[OF c(1)]]] c(8,9) by simp
  from clear_duplicates_ok[OF c(1,2) d(1) f(1)]
  obtain hn1 t1 s1 hn2 s2 where g: "did_lookup s ?k1 = Some hn1"
    "(case hn1 of None \<Rightarrow> Some (False, s) | Some n \<Rightarrow> dircache_expunge_duplicate s (hash_data n) False) = Some (t1, s1)"
    "name_lookup s1 ?k2 = Some hn2"
    "(case hn2 of None \<Rightarrow> Some (t1, s1) | Some n \<Rightarrow> dircache_expunge_duplicate s1 (hash_data n) t1) =
       Some (takes_curdir s d A, s2)"
    "env s2 = env (s\<lparr>curdir := cur\<rparr>)" "keeps_dirs (dirs s) (dirs s2)" "drep s2 ?A {}"
    "no_did (dirs s2) d" "no_name (dirs s2) d" "dirs s2 a = Some d"
    unfolding cur_def by blast
  note e2 = env_eqD[OF g(5)]
  have x2: "mode_ok s2" "arc_enabled (arc s2)" "\<not> dc_debug s2" "arc_promoting_ghost s2 = None"
    using mode_ok_env[OF g(5)] c(2-4) db e2 by (simp_all add: mode_ok_curdir)
  obtain s3 where s3: "arc_case_iv_make_room s2 = Some s3" "env s3 = env s2" "keeps_dirs (dirs s2) (dirs s3)"
    "drep s3 (spec_make_room ?c ?p cur ?A) {}"
    using arc_case_iv_make_room_ok[OF g(7) x2] e2 by auto
  note e3 = env_eqD[OF s3(2)]
  have x3: "mode_ok s3" "arc_enabled (arc s3)" "\<not> dc_debug s3" using mode_ok_env[OF s3(2)] x2 e3 by simp_all
  have al3: "allocs_ok s3" using al e2 e3 by (simp add: allocs_ok_def)
  have dis: "disjoint_lists ?A" "arc_bounds ?c ?A"
    using disjoint_lists_others[OF drep_disjoint[OF c(1)]] arc_bounds_others[OF c(5)] by blast+
  have room: "list_total (spec_make_room ?c ?p cur ?A) < 2 * ?c"
    using make_room_ok[OF dis c(6), of cur ?p] by (simp add: room_ok_def)
  have room3: "hash_nodecount (dircache_tab s3) < hash_maxcount (dircache_tab s3)"
    "hash_nodecount (index_didname s3) < hash_maxcount (index_didname s3)"
    using drep_count[OF s3(4) x3(1,2)] room c(9,10) e2 e3 by simp_all
  have d3: "dirs s3 a = Some d" using keeps_dirs_uncached[OF s3(3) g(10) f(1)] .
  note n3 = no_keys_keeps(1)[OF s3(3) g(8)] no_keys_keeps(2)[OF s3(3) g(9)]
  let ?cd = "added_curdir s vol a d A"
  let ?v = "(vid_entry_count s3)(d_vid d := vid_entry_count s3 (d_vid d) + 1)"
  obtain i t j t' s' d' where s': "did_insert s3 a = Some (Some i, s3\<lparr>dircache_tab := t\<rparr>)"
    "name_insert (s3\<lparr>dircache_tab := t, dirs := (dirs s3)(a \<mapsto> d\<lparr>d_index_node := Some i\<rparr>), vid_entry_count := ?v\<rparr>) a =
     Some (Some j, s3\<lparr>dircache_tab := t, dirs := (dirs s3)(a \<mapsto> d\<lparr>d_index_node := Some i\<rparr>), vid_entry_count := ?v, index_didname := t'\<rparr>)"
    "arc_case_iv_insert (s3\<lparr>dircache_tab := t, vid_entry_count := ?v, index_didname := t', dirs := (dirs s3)(a \<mapsto>
         d\<lparr>d_index_node := Some i, d_didname_node := Some j, d_flags := d_flags d OR DIRF_INDEXED\<rparr>),
       curdir := ?cd\<rparr>) a = Some s'"
    "env s' = env (s3\<lparr>curdir := ?cd\<rparr>)" "dirs s' = (dirs s3)(a \<mapsto> d')" "linked_as d d'"
    "drep s' ((spec_make_room ?c ?p cur ?A)(ARC_T1 := spec_make_room ?c ?p cur ?A ARC_T1 @ [a])) {}"
    using insert_entry_ok[OF s3(4) x3 al3 d3 d(2) n3 room3, of ?cd] by blast
  let ?B = "spec_add ?c ?p cur a ?A"
  let ?s = "s'\<lparr>dstat := (dstat s')\<lparr>st_added := st_added (dstat s') + 1\<rparr>\<rparr>"
  have st: "sentinel ?s = sentinel s'" "csize ?s = csize s'" by (rule sentinel_eqI csize_eqI; simp)+
  define F where "F = curdir_fallback s vol"
  have fb: "rootParent x = rootParent s \<Longrightarrow> curdir_fallback x vol = F" for x
    by (auto simp: F_def curdir_fallback_def split: option.splits)
  have rp: "rootParent s3 = rootParent s" using e2(2) e3(2) by simp
  have cdr: "takes_curdir s d A \<Longrightarrow> ?cd = Some (if is_file d then F else a)"
    "\<not> takes_curdir s d A \<Longrightarrow> ?cd = curdir s3"
    using e2(1,2) e3(1,2) by (auto simp: added_curdir_def F_def cur_def)
  have en': "arc_enabled (arc s')" using env_eqD(8)[OF s'(4)] x3(2) by simp
  have run: "dircache_add s vol a = Some (0, ?s)"
  proof (cases "takes_curdir s d A")
    case True
    then show ?thesis
      using d(1) f c(3) cnt g(1-4) x2(2) s3(1) s'(1-3) x3(2) en' cdr(1) d3
      by (simp add: dircache_add_def Let_def upd_dir_def mult.commute fb rp cong: if_cong)
  next
    case False
    have "s3\<lparr>dircache_tab := t, vid_entry_count := ?v, index_didname := t', dirs := X, curdir := ?cd\<rparr> =
          s3\<lparr>dircache_tab := t, vid_entry_count := ?v, index_didname := t', dirs := X\<rparr>" for X
      by (rule dcache.equality) (simp_all add: cdr(2)[OF False])
    then show ?thesis
      using d(1) f c(3) cnt g(1-4) x2(2) s3(1) s'(1-3) x3(2) en' False d3
      by (simp add: dircache_add_def Let_def upd_dir_def mult.commute)
  qed
  have r': "drep ?s ?B {}" by (rule drep_same[OF s'(7)[folded spec_add_def[of ?c ?p cur a ?A, unfolded Let_def]]]) (use st in simp_all)
  have e': "env ?s = env (s\<lparr>curdir := ?cd\<rparr>)"
  proof -
    have "env ?s = env s'" using st by (simp add: env_def)
    also have "\<dots> = env (s\<lparr>curdir := ?cd\<rparr>)" using s'(4) s3(2) g(5) unfolding env_def by simp
    finally show ?thesis .
  qed
  note ee = env_eqD[OF e']
  have "cache_ok ?s ?B"
    unfolding cache_ok_def using r' mode_ok_env[OF e'] c spec_add_bounds[OF dis c(6), of ?p cur a] ee
    by (simp add: mode_ok_curdir)
  moreover have "\<exists>e'. dirs ?s b = Some e' \<and> carried e e'" if "b \<noteq> a" "dirs s b = Some e" for b e
    using keeps_dirs_trans[OF g(6) s3(3)] that s'(5) unfolding keeps_dirs_def by simp
  ultimately show ?thesis using run e' s'(5,6) by (intro that[of ?s d']) simp_all
qed

end
