(* ===== verification/Dircache_Purge.thy ===== *)
theory Dircache_Purge
  imports Dircache_Props
begin

text \<open>
  The purge of a volume: \<open>dircache_purge_vol\<close> walks the directory table while it deletes from it.
  The scan survives its own deletions, the loop ends, and the early exit on the per-volume
  counter misses no entry.
\<close>

lemma scan_rest_nodes: "set (scan_rest h sc) \<subseteq> nodes h"
proof -
  have 1: "set (hash_chain_head h i) \<subseteq> nodes h" for i
  proof (cases "i < length (hash_table h)")
    case True
    then have "hash_table h ! i \<in> set (hash_table h)" by (rule nth_mem)
    then show ?thesis using True by (auto simp: nodes_def hash_chain_head_def simp del: nth_mem)
  qed (simp add: hash_chain_head_def)
  have 2: "set (concat (drop i (hash_table h))) \<subseteq> nodes h" for i
    using set_drop_subset[of i "hash_table h"] by (auto simp: nodes_def)
  have 3: "set (dropWhile P xs) \<subseteq> set xs" for P and xs :: "('a, 'b) hnode_t list"
    by (auto dest: set_dropWhileD)
  show ?thesis
    using 1[of "hs_chain sc"] 2[of "hs_chain sc + 1"] 3[of _ "hash_chain_head h (hs_chain sc)"]
    unfolding scan_rest_def by (cases "hs_next sc") (simp_all del: set_concat, blast)
qed

definition on_vol :: "dcache \<Rightarrow> 16 word \<Rightarrow> addr \<Rightarrow> bool" where
  "on_vol s vid b \<longleftrightarrow> d_vid (dir_at s b) = vid"

definition purged_curdir :: "dcache \<Rightarrow> 16 word \<Rightarrow> lists \<Rightarrow> addr option" where
  "purged_curdir s vid A =
     (if \<exists>b \<in> entries A. on_vol s vid b \<and> curdir s = Some b then Some (rootParent s) else curdir s)"

text \<open>Removing one entry from every index and retiring it.\<close>

lemma remove_and_free_ok:
  assumes r: "drep s A {}" and m: "mode_ok s" and a: "a \<in> set (A X)"
    and fl: "flags = (if ns then DIRCACHE_ALL OR DIRCACHE_NOSHRINK else DIRCACHE OR DIDNAME_INDEX OR QUEUE_INDEX)"
  obtains s1 s2 where "dircache_remove s a flags = Some s1" "dircache_defer_free s1 a = Some s2" "env s2 = env s"
    "keeps_dirs (dirs s) (dirs s2)" "drep s2 (A(X := remove1 a (A X))) {}" "ns \<Longrightarrow> scan_kept s s2 a"
proof -
  obtain d n xs ys where d: "dirs s a = Some d" "qidx_node d = Some n" "A X = xs @ a # ys" "a \<notin> set xs"
    using drep_entry[OF r a] by metis
  note lk = drep_indexed[OF r a d(1)]
  obtain i j where ij: "d_index_node d = Some i" "d_didname_node d = Some j" using lk by blast
  obtain s1 where s1: "dircache_remove s a flags = Some s1" "env s1 = env s"
    "dirs s1 = (dirs s)(a \<mapsto> unlinked True d)" "drep s1 (A(X := xs @ ys)) {}" "ns \<Longrightarrow> scan_kept s s1 a"
    using dircache_remove_everywhere[OF r m d(1) ij d(3) fl] by auto
  let ?d = "unlinked True d"
  have d1: "dirs s1 a = Some ?d" "d_index_node ?d = None" "d_didname_node ?d = None" "qidx_node ?d = None"
    "\<not> is_indexed ?d" using s1(3) by simp_all
  obtain s2 where s2: "dircache_defer_free s1 a = Some s2" "env s2 = env s1"
    "dirs s2 = (dirs s1)(a \<mapsto> ?d\<lparr>d_did := CNID_INVALID\<rparr>)" "drep s2 (A(X := xs @ ys)) {}"
    "dircache_tab s2 = dircache_tab s1"
    using dircache_defer_free_ok[OF s1(4) d1] by blast
  have k: "keeps_dirs (dirs s) (dirs s2)"
    using keeps_dirs_upd[of "dirs s" a d "?d\<lparr>d_did := CNID_INVALID\<rparr>", OF d(1) lk(1)] s1(3) s2(3)
    by (simp add: retired_def)
  show ?thesis
  proof (rule that[OF s1(1) s2(1) _ k])
    show "env s2 = env s" using s1(2) s2(2) by simp
    show "drep s2 (A(X := remove1 a (A X))) {}" using s2(4) d(3) remove1_split[OF d(4)] by simp
    show "ns \<Longrightarrow> scan_kept s s2 a" using s1(5) s2(5) by (simp add: scan_kept_def)
  qed
qed

lemma on_vol_keeps:
  assumes "keeps_dirs (dirs s) (dirs s')" "dirs s b \<noteq> None"
  shows "on_vol s' vid b = on_vol s vid b"
proof -
  obtain d d' where "dirs s b = Some d" "dirs s' b = Some d'" "carried d d'"
    using assms unfolding keeps_dirs_def by blast
  then show ?thesis using carried_cases[of d d'] by (auto simp: on_vol_def kept_def retired_def)
qed

lemma entries_removed:
  assumes "disjoint_lists A" "a \<in> set (A X)"
  shows "entries (A(X := remove1 a (A X))) = entries A - {a}"
  using assms unfolding entries_def disjoint_lists_def by (fastforce split: if_splits)

lemma others_removed:
  assumes d: "disjoint_lists A" and a: "a \<in> set (A X)" "P a"
    and eq: "\<And>b. b \<in> entries A \<Longrightarrow> P' b = P b"
  shows "others P' (A(X := remove1 a (A X))) = others P A"
proof
  fix Y
  have "filter (\<lambda>b. \<not> P' b) xs = filter (\<lambda>b. \<not> P b) xs" if "set xs \<subseteq> set (A Y)" for xs
    using eq that by (intro filter_cong) (auto intro: entriesI)
  moreover have "filter (\<lambda>b. \<not> P b) (remove1 a (A X)) = filter (\<lambda>b. \<not> P b) (A X)"
    using a(2) by (simp add: filter_remove1 remove1_idem)
  ultimately show "others P' (A(X := remove1 a (A X))) Y = others P A Y"
    by (simp add: others_def set_remove1_subset)
qed

lemma finite_entries: "drep s A {} \<Longrightarrow> finite (entries A)"
  using drep_members(1)[of s A] by_did.rep_count(2)[OF drep_parts(3)[of s A "{}"]] by simp

lemma purge_vol_loop_done:
  assumes "drep s A {}" and none: "{b \<in> entries A. on_vol s vid b} = {}"
    and rem: "remaining = card {b \<in> entries A. on_vol s vid b}"
  shows "purge_vol_loop vid remaining s sc = Some s" "purged_curdir s vid A = curdir s" "others (on_vol s vid) A = A"
proof -
  have "remaining = 0" using rem none by simp
  then show "purge_vol_loop vid remaining s sc = Some s" by (subst purge_vol_loop.simps) simp
  show "others (on_vol s vid) A = A" using others_none[of A "on_vol s vid"] none by blast
  show "purged_curdir s vid A = curdir s" using none by (auto simp: purged_curdir_def)
qed

lemma purge_vol_loop_ok:
  assumes "drep s A {}" "mode_ok s" "scan_valid (dircache_tab s) sc" "scan_rest (dircache_tab s) sc = ns" "distinct ns"
    "remaining = card {b \<in> entries A. on_vol s vid b}" "{b \<in> entries A. on_vol s vid b} \<subseteq> hash_data ` set ns"
  shows "\<exists>s'. purge_vol_loop vid remaining s sc = Some s' \<and> env s' = env (s\<lparr>curdir := purged_curdir s vid A\<rparr>) \<and>
    keeps_dirs (dirs s) (dirs s') \<and> drep s' (others (on_vol s vid) A) {}"
  using assms
proof (induction ns arbitrary: s A sc remaining)
  case Nil
  then show ?case using purge_vol_loop_done[OF Nil(1) _ Nil(6)] keeps_dirs_refl[of "dirs s"] by simp
next
  case (Cons n ns)
  note r = Cons.prems(1) and m = Cons.prems(2) and sc = Cons.prems(3,4) and dist = Cons.prems(5) and rem = Cons.prems(6,7)
  let ?V = "{b \<in> entries A. on_vol s vid b}"
  show ?case
  proof (cases "?V = {}")
    case True
    then show ?thesis using purge_vol_loop_done[OF r _ rem(1)] r keeps_dirs_refl[of "dirs s"] by simp
  next
    case False
    have pos: "remaining \<noteq> 0" using False finite_entries[OF r] rem(1) by simp
    note inv = by_did.rep_inv[OF drep_parts(3)[OF r]]
    obtain sc' where sc': "hash_scan_next (dircache_tab s) sc = Some (Some n, sc')"
      "scan_valid (dircache_tab s) sc'" "scan_rest (dircache_tab s) sc' = ns"
      using scan_next(2)[OF sc(1) hash_inv_parts(3)[OF inv] sc(2)] by blast
    have n: "n \<in> nodes (dircache_tab s)" using scan_rest_nodes[of "dircache_tab s" sc] sc(2) by auto
    let ?a = "hash_data n"
    obtain d where d: "dirs s ?a = Some d" "d_index_node d = Some (hn_addr n)"
      using by_did.rep_node_entry[OF drep_parts(3)[OF r] n] by metis
    then have aA: "?a \<in> entries A" using dir_entry[OF r] by simp
    have va: "on_vol s vid ?a \<longleftrightarrow> d_vid d = vid" using d by (simp add: on_vol_def)
    show ?thesis
    proof (cases "d_vid d = vid")
      case False
      then have "?V \<subseteq> hash_data ` set ns" using rem(2) va by auto
      then obtain s' where "purge_vol_loop vid remaining s sc' = Some s' \<and> env s' = env (s\<lparr>curdir := purged_curdir s vid A\<rparr>) \<and>
          keeps_dirs (dirs s) (dirs s') \<and> drep s' (others (on_vol s vid) A) {}"
        using Cons.IH[OF r m sc'(2,3) _ rem(1)] dist by auto
      moreover have "purge_vol_loop vid remaining s sc = purge_vol_loop vid remaining s sc'"
        using pos sc'(1) d(1) False by (subst purge_vol_loop.simps) simp
      ultimately show ?thesis by auto
    next
      case True
      obtain X where X: "?a \<in> set (A X)" using aA by (auto simp: entries_def)
      let ?cd = "if curdir s = Some ?a then Some (rootParent s) else curdir s"
      let ?s = "s\<lparr>curdir := ?cd\<rparr>"
      have r0: "drep ?s A {}" by (rule drep_same[OF r]) simp_all
      have m0: "mode_ok ?s" using m by (simp add: mode_ok_curdir)
      obtain s1 s2 where s2: "dircache_remove ?s ?a (DIRCACHE_ALL OR DIRCACHE_NOSHRINK) = Some s1"
        "dircache_defer_free s1 ?a = Some s2" "env s2 = env ?s" "keeps_dirs (dirs ?s) (dirs s2)"
        "drep s2 (A(X := remove1 ?a (A X))) {}" "scan_kept ?s s2 ?a"
        using remove_and_free_ok[OF r0 m0 X, of _ True] by auto
      let ?A = "A(X := remove1 ?a (A X))"
      note dj = drep_disjoint[OF r]
      have m2: "mode_ok s2" using mode_ok_env[OF s2(3)] m0 by simp
      have sc2: "scan_valid (dircache_tab s2) sc'" "scan_rest (dircache_tab s2) sc' = ns"
      proof -
        obtain n' where n': "n' \<in> nodes (dircache_tab s)" "hash_data n' = ?a"
          "\<forall>sc. scan_valid (dircache_tab s) sc \<longrightarrow> n' \<notin> set (scan_rest (dircache_tab s) sc) \<longrightarrow>
            scan_valid (dircache_tab s2) sc \<and> scan_rest (dircache_tab s2) sc = scan_rest (dircache_tab s) sc"
          using s2(6) unfolding scan_kept_def by auto
        have "n' = n" using by_did.rep_node_unique[OF drep_parts(3)[OF r] n'(1) n] n'(2) by simp
        then show "scan_valid (dircache_tab s2) sc'" "scan_rest (dircache_tab s2) sc' = ns"
          using n'(3) sc'(2,3) dist by auto
      qed
      have ov: "on_vol s2 vid b = on_vol s vid b" if "b \<in> entries A" for b
        using on_vol_keeps[OF s2(4), of b vid] entry_dir[OF r that] by (auto simp: on_vol_def)
      have V2: "{b \<in> entries ?A. on_vol s2 vid b} = ?V - {?a}"
        using entries_removed[OF dj X] ov by auto
      have rem2: "remaining - 1 = card {b \<in> entries ?A. on_vol s2 vid b}"
        using V2 rem(1) aA va True finite_entries[OF r] by simp
      have sub2: "{b \<in> entries ?A. on_vol s2 vid b} \<subseteq> hash_data ` set ns" using V2 rem(2) by auto
      have dn: "distinct ns" using dist by simp
      obtain s' where s': "purge_vol_loop vid (remaining - 1) s2 sc' = Some s'"
        "env s' = env (s2\<lparr>curdir := purged_curdir s2 vid ?A\<rparr>)" "keeps_dirs (dirs s2) (dirs s')"
        "drep s' (others (on_vol s2 vid) ?A) {}"
        using Cons.IH[OF s2(5) m2 sc2 dn rem2 sub2] by blast
      have run: "purge_vol_loop vid remaining s sc = Some s'"
      proof -
        have "(if curdir s = Some ?a then s\<lparr>curdir := Some (rootParent s)\<rparr> else s) = ?s" by simp
        then have "dircache_remove (if curdir s = Some ?a then s\<lparr>curdir := Some (rootParent s)\<rparr> else s) ?a
            (DIRCACHE_ALL OR DIRCACHE_NOSHRINK) = Some s1" using s2(1) by (simp only:)
        then show ?thesis using pos sc'(1) d(1) True s2(2) s'(1) by (subst purge_vol_loop.simps) (simp split del: if_split)
      qed
      have cd2: "curdir s2 = ?cd" "rootParent s2 = rootParent s" using env_eqD(1,2)[OF s2(3)] by simp_all
      have "purged_curdir s2 vid ?A = purged_curdir s vid A"
        unfolding purged_curdir_def cd2 entries_removed[OF dj X] using ov aA va True by auto
      then have "env s' = env (s\<lparr>curdir := purged_curdir s vid A\<rparr>)" using s'(2) s2(3) unfolding env_def by simp
      moreover have "others (on_vol s2 vid) ?A = others (on_vol s vid) A"
        using others_removed[of A ?a X "on_vol s vid" "on_vol s2 vid", OF dj X] va True ov by simp
      moreover have "keeps_dirs (dirs s) (dirs s')" using keeps_dirs_trans[OF _ s'(3)] s2(4) by simp
      ultimately show ?thesis using run s'(4) by auto
    qed
  qed
qed

lemma dircache_purge_vol_ok:
  assumes r: "drep s A {}" and m: "mode_ok s"
  obtains s' where "dircache_purge_vol s v = Some s'" "env s' = env (s\<lparr>curdir := purged_curdir s (v_vid v) A\<rparr>)"
    "keeps_dirs (dirs s) (dirs s')" "drep s' (others (on_vol s (v_vid v)) A) {}"
proof -
  let ?V = "{b \<in> entries A. on_vol s (v_vid v) b}" and ?n = "vid_entry_count s (v_vid v)"
  note rd = drep_parts(3)[OF r]
  have cnt: "?n = card ?V"
    using drep_parts(5)[OF r] drep_members(1)[OF r] by (simp add: vid_ok_def on_vol_def)
  have sub: "?V \<subseteq> hash_data ` set (concat (hash_table (dircache_tab s)))"
    using by_did.rep_members[OF rd] drep_members(1)[OF r] by (auto simp: bij_betw_def nodes_def)
  have dist: "distinct (concat (hash_table (dircache_tab s)))"
    using hash_inv_parts(3)[OF by_did.rep_inv[OF rd]] by (simp add: distinct_map)
  obtain s' where s': "purge_vol_loop (v_vid v) ?n s (hash_scan_begin (dircache_tab s)) = Some s'"
    "env s' = env (s\<lparr>curdir := purged_curdir s (v_vid v) A\<rparr>)" "keeps_dirs (dirs s) (dirs s')"
    "drep s' (others (on_vol s (v_vid v)) A) {}"
    using purge_vol_loop_ok[OF r m scan_begin dist cnt sub] by blast
  have "dircache_purge_vol s v = Some s'"
    using s'(1) by (auto simp: dircache_purge_vol_def Let_def purge_vol_loop.simps[of _ 0])
  then show ?thesis using that s'(2-4) by blast
qed

end
