(* ===== verification/Dircache_Init.thy ===== *)
theory Dircache_Init
  imports Dircache_Purge
begin

text \<open>
  Start-up of the cache: the size that \<open>dircache_init\<close> derives from the configuration, and the
  invariant that it establishes in ARC mode.
\<close>

subsection \<open>The configured size\<close>

lemma double_to_power:
  assumes "k \<le> 20" "2 ^ k < 2 * max req 1 \<or> k = 10"
  shows "\<exists>m. k \<le> m \<and> m \<le> 20 \<and> double_to (2 ^ k) req = 2 ^ m \<and> (req \<le> MAX_DIRCACHE_SIZE \<longrightarrow> req \<le> 2 ^ m) \<and>
    (m = k \<or> 2 ^ m < 2 * req)"
  using assms
proof (induction "20 - k" arbitrary: k)
  case 0
  then have k: "k = 20" by simp
  show ?case unfolding k by (rule exI[of _ 20]) (simp add: double_to.simps MAX_DIRCACHE_SIZE_def)
next
  case (Suc n)
  have less: "(2::nat) ^ k < MAX_DIRCACHE_SIZE"
    using Suc.hyps(2) power_strict_increasing[of k 20 "2::nat"] by (simp add: MAX_DIRCACHE_SIZE_def)
  show ?case
  proof (cases "2 ^ k < req")
    case False
    then have "double_to (2 ^ k) req = 2 ^ k" by (simp add: double_to.simps)
    then show ?thesis using False Suc.prems by (intro exI[of _ k]) auto
  next
    case True
    then have eq: "double_to (2 ^ k) req = double_to (2 ^ Suc k) req" using less by (simp add: double_to.simps mult.commute)
    have "n = 20 - Suc k" "Suc k \<le> 20" "2 ^ Suc k < 2 * max req 1 \<or> Suc k = 10" using Suc.hyps(2) True by simp_all
    from Suc.hyps(1)[OF this] obtain m where m: "Suc k \<le> m" "m \<le> 20" "double_to (2 ^ Suc k) req = 2 ^ m"
      "req \<le> MAX_DIRCACHE_SIZE \<longrightarrow> req \<le> 2 ^ m" "m = Suc k \<or> 2 ^ m < 2 * req" by blast
    then show ?thesis using eq True by (intro exI[of _ m]) auto
  qed
qed

lemma resolve_size_power:
  obtains m where "10 \<le> m" "m \<le> 20" "dircache_resolve_size req = 2 ^ m"
    "int MIN_DIRCACHE_SIZE \<le> req \<Longrightarrow> req \<le> int MAX_DIRCACHE_SIZE \<Longrightarrow> req \<le> 2 ^ m \<and> 2 ^ m < 2 * req"
proof (cases "int MIN_DIRCACHE_SIZE \<le> req \<and> req \<le> int MAX_DIRCACHE_SIZE")
  case True
  have min: "MIN_DIRCACHE_SIZE = 2 ^ 10" "MAX_DIRCACHE_SIZE = 2 ^ 20" by (simp_all add: MIN_DIRCACHE_SIZE_def MAX_DIRCACHE_SIZE_def)
  obtain m where m: "10 \<le> m" "m \<le> 20" "double_to (2 ^ 10) (nat req) = 2 ^ m"
    "nat req \<le> MAX_DIRCACHE_SIZE \<longrightarrow> nat req \<le> 2 ^ m" "m = 10 \<or> 2 ^ m < 2 * nat req"
    using double_to_power[of 10 "nat req"] by auto
  have eq: "dircache_resolve_size req = 2 ^ m" using True m(3) by (simp add: dircache_resolve_size_def min)
  have "nat req \<le> MAX_DIRCACHE_SIZE" using True by linarith
  then have lo: "nat req \<le> 2 ^ m" "1024 \<le> req" using m(4) True by (simp_all add: min)
  then have "req \<le> int (2 ^ m)" "2 ^ m < 2 * nat req" using m(5) by (auto simp: nat_le_iff)
  moreover from this have "int (2 ^ m) < 2 * req" using lo(2) by linarith
  ultimately show ?thesis using that[OF m(1,2) eq] by simp
next
  case False
  then have "dircache_resolve_size req = 2 ^ (if req > int MAX_DIRCACHE_SIZE then 20 else 16)"
    by (auto simp: dircache_resolve_size_def MAX_DIRCACHE_SIZE_def DEFAULT_DIRCACHE_SIZE_def)
  then show ?thesis using that[of "if req > int MAX_DIRCACHE_SIZE then 20 else 16"] False by simp
qed

lemma size_range: "MIN_DIRCACHE_SIZE \<le> dircache_resolve_size req" "dircache_resolve_size req \<le> MAX_DIRCACHE_SIZE"
proof -
  obtain m where m: "10 \<le> m" "m \<le> 20" "dircache_resolve_size req = 2 ^ m" by (rule resolve_size_power)
  have "(2::nat) ^ 10 \<le> 2 ^ m" "(2::nat) ^ m \<le> 2 ^ 20" using m by (auto intro: power_increasing simp del: power_numeral)
  then show "MIN_DIRCACHE_SIZE \<le> dircache_resolve_size req" "dircache_resolve_size req \<le> MAX_DIRCACHE_SIZE"
    using m(3) by (simp_all add: MIN_DIRCACHE_SIZE_def MAX_DIRCACHE_SIZE_def)
qed

lemma size_fits: "2 * dircache_resolve_size req \<le> 2 ^ 31" "2 \<le> dircache_resolve_size req"
  using size_range[of req] by (simp_all add: MIN_DIRCACHE_SIZE_def MAX_DIRCACHE_SIZE_def)

text \<open>
  The cache size derived from the option \<open>dircache size\<close> is always a power of two between
  the minimum and the maximum; a request within these limits is rounded up to the next power of
  two, a larger one is cut to the maximum, any other value gives the default.
\<close>

theorem dircache_size_power_of_two:
  "(\<exists>m. dircache_resolve_size req = 2 ^ m) \<and>
   MIN_DIRCACHE_SIZE \<le> dircache_resolve_size req \<and> dircache_resolve_size req \<le> MAX_DIRCACHE_SIZE \<and>
   (if int MIN_DIRCACHE_SIZE \<le> req \<and> req \<le> int MAX_DIRCACHE_SIZE
    then req \<le> int (dircache_resolve_size req) \<and> int (dircache_resolve_size req) < 2 * req
    else dircache_resolve_size req = (if req > int MAX_DIRCACHE_SIZE then MAX_DIRCACHE_SIZE else DEFAULT_DIRCACHE_SIZE))"
proof -
  obtain m where m: "dircache_resolve_size req = 2 ^ m"
    "int MIN_DIRCACHE_SIZE \<le> req \<Longrightarrow> req \<le> int MAX_DIRCACHE_SIZE \<Longrightarrow> req \<le> 2 ^ m \<and> 2 ^ m < 2 * req"
    using resolve_size_power[of req] by metis
  have "\<not> (int MIN_DIRCACHE_SIZE \<le> req \<and> req \<le> int MAX_DIRCACHE_SIZE) \<Longrightarrow>
      dircache_resolve_size req = (if req > int MAX_DIRCACHE_SIZE then MAX_DIRCACHE_SIZE else DEFAULT_DIRCACHE_SIZE)"
    by (auto simp: dircache_resolve_size_def)
  then show ?thesis using m size_range[of req] by auto
qed

subsection \<open>Initialisation in ARC mode\<close>

text \<open>The statics of the module before \<open>dircache_init\<close> runs.\<close>

definition cold :: "dcache \<Rightarrow> bool" where
  "cold s \<longleftrightarrow> qwf (qh s) Map.empty \<and> arc s = zero_arc \<and> index_queue s = None \<and> queue_count s = 0 \<and>
     arc_promoting_ghost s = None \<and> vid_entry_count s = (\<lambda>_. 0) \<and> dirs s (rootParent s) \<noteq> None \<and>
     (\<forall>a d. dirs s a = Some d \<longrightarrow> qidx_node d = None \<and> d_index_node d = None \<and> d_didname_node d = None \<and> \<not> is_indexed d)"

text \<open>A heap that holds just the empty queues \<open>Q\<close>, and an allocator that never fails.\<close>

definition only_queues :: "qheap \<Rightarrow> addr set \<Rightarrow> bool" where
  "only_queues h Q \<longleftrightarrow> qwf h (\<lambda>q. if q \<in> Q then Some [] else None) \<and> (\<forall>n. al_ok (qalloc h) n)"

lemma queue_init_ok:
  assumes "only_queues h Q"
  obtains q h' where "queue_init h = Some (Some q, h')" "q \<notin> Q" "only_queues h' (insert q Q)"
proof -
  let ?L = "\<lambda>q. if q \<in> Q then Some ([] :: addr list) else None"
  have w: "qwf h ?L" "\<And>n. al_ok (qalloc h) n" using assms by (auto simp: only_queues_def)
  obtain n h1 where a: "alloc_init_node h None = (Some n, h1)" "al_ok (qalloc h1) = al_ok (qalloc h)" "qcells h1 n \<noteq> None"
    using w(2) by (auto simp: alloc_init_node_def malloc_def Let_def)
  then obtain q h' where h': "queue_init h = Some (Some q, h')" "al_ok (qalloc h') = al_ok (qalloc h)"
    by (auto simp: queue_init_def set_next_def set_prev_def)
  then have q: "?L q = None" "qwf h' (?L(q \<mapsto> []))" using qwf_init[OF w(1)] by auto
  have "?L(q \<mapsto> []) = (\<lambda>x. if x \<in> insert q Q then Some [] else None)" by auto
  then show ?thesis using that[OF h'(1)] h'(2) q w(2) by (auto simp: only_queues_def split: if_splits)
qed

lemma hash_create_some:
  assumes "\<And>n. al_ok al n"
  obtains t where "hash_create c al = Some t" "al_ok (hash_allocator t) = al_ok al"
  using assms by (auto simp: hash_create_def malloc_def clear_table_def Let_def)

lemma empty_tab_rep:
  assumes "nodes t = {}" "hash_inv (hf H) (eq H) t" "\<And>a d. H a = Some d \<Longrightarrow> ptr d = None"
  shows "tab_rep hf eq ptr H t"
  using assms by (auto simp: tab_rep_def)

text \<open>
  \<open>arc_init\<close> and \<open>dircache_init\<close> as sequences of queue creations: each adds an empty queue.
\<close>

definition started :: "dcache \<Rightarrow> bool" where
  "started s \<longleftrightarrow> (\<exists>q1 q2 q3 q4 q5 Q. arc_t1 (arc s) = Some q1 \<and> arc_t2 (arc s) = Some q2 \<and> arc_b1 (arc s) = Some q3 \<and>
     arc_b2 (arc s) = Some q4 \<and> invalid_dircache_entries s = Some q5 \<and> distinct [q1, q2, q3, q4, q5] \<and>
     only_queues (qh s) Q \<and> {q1, q2, q3, q4, q5} \<subseteq> Q) \<and>
   arc_enabled (arc s) \<and> t1_size (arc s) = 0 \<and> t2_size (arc s) = 0 \<and> b1_size (arc s) = 0 \<and> b2_size (arc s) = 0 \<and>
   index_queue s = None \<and> queue_count s = 0 \<and> arc_promoting_ghost s = None \<and> vid_entry_count s = (\<lambda>_. 0) \<and>
   (\<forall>a d. dirs s a = Some d \<longrightarrow> qidx_node d = None \<and> d_index_node d = None \<and> d_didname_node d = None \<and> \<not> is_indexed d)"

lemma empty_cache_ok:
  assumes st: "started s" and c: "2 \<le> arc_c (arc s)" "2 * arc_c (arc s) \<le> 2 ^ 31" "arc_p (arc s) \<le> arc_c (arc s)"
      "dircache_maxsize s = arc_c (arc s)"
    and t: "hash_create (2 * arc_c (arc s)) al1 = Some (dircache_tab s)" "hash_create (2 * arc_c (arc s)) al2 = Some (index_didname s)"
  shows "cache_ok s (\<lambda>_. [])"
proof -
  obtain q1 q2 q3 q4 q5 Q where q: "arc_t1 (arc s) = Some q1" "arc_t2 (arc s) = Some q2" "arc_b1 (arc s) = Some q3"
    "arc_b2 (arc s) = Some q4" "invalid_dircache_entries s = Some q5" "distinct [q1, q2, q3, q4, q5]"
    and Q: "only_queues (qh s) Q" "{q1, q2, q3, q4, q5} \<subseteq> Q"
    using st unfolding started_def by (elim conjE exE) (rule that)
  note h1 = hash_create_ok[OF t(1) c(2)] and h2 = hash_create_ok[OF t(2) c(2)]
  have snt: "sentinel s = (\<lambda>X. case X of ARC_NONE \<Rightarrow> None | ARC_T1 \<Rightarrow> Some q1 | ARC_T2 \<Rightarrow> Some q2 | ARC_B1 \<Rightarrow> Some q3 | ARC_B2 \<Rightarrow> Some q4)"
    using q st by (intro ext) (simp add: sentinel_def started_def split: arc_list_t.splits)
  have nolink: "qidx_node d = None" "d_index_node d = None" "d_didname_node d = None" "\<not> is_indexed d" if "dirs s a = Some d" for a d
    using that st by (simp_all add: started_def)
  have "qmap (dirs s) (sentinel s) (Some q5) (\<lambda>_. []) (\<lambda>q. if q \<in> Q then Some [] else None)"
    unfolding qmap_def snt using Q(2) q(6) by (auto split: arc_list_t.splits)
  then have "qrep (dirs s) (qh s) (sentinel s) (invalid_dircache_entries s) (\<lambda>_. [])"
    unfolding qrep_def q(5) using Q(1) nolink(1) by (auto simp: only_queues_def)
  moreover have "csize s X = 0" for X
    using st by (simp add: csize_def started_def split: arc_list_t.splits)
  moreover have "did_rep (dirs s) (dircache_tab s)" "name_rep (dirs s) (index_didname s)"
    using empty_tab_rep[OF h1(2,1)] empty_tab_rep[OF h2(2,1)] nolink(2,3) by metis+
  moreover have "members d_index_node (dirs s) = {}" using nolink(2) by (auto simp: members_def)
  then have "vid_ok (dirs s) (vid_entry_count s)" using st by (simp add: vid_ok_def started_def)
  moreover have "linked d" if "dirs s a = Some d" for a d using nolink[OF that] by (simp add: linked_def)
  ultimately have "drep s (\<lambda>_. []) {}" unfolding drep_def by simp
  moreover have "mode_ok s" unfolding mode_ok_def snt using st by (simp add: started_def split: arc_list_t.splits)
  ultimately show ?thesis
    unfolding cache_ok_def using c st h1(4) h2(4) by (simp add: arc_bounds_def started_def)
qed

lemma rfork_init_frame:
  assumes "only_queues (qh s) Q"
  obtains h lru b m Q' where "rfork_init (Some opts) s =
      Some (s\<lparr>rfork_cache_budget := b, rfork_max_entry_size := m, qh := h, rfork_lru := lru\<rparr>)"
    "only_queues h Q'" "Q \<subseteq> Q'"
proof (cases "dircache_rfork_budget opts * 1024 > 0")
  case True
  obtain q h where q: "queue_init (qh s) = Some (Some q, h)" "only_queues h (insert q Q)"
    using queue_init_ok[OF assms] by metis
  show ?thesis
    by (rule that[where b = "dircache_rfork_budget opts * 1024" and m = "dircache_rfork_maxentry opts * 1024" and lru = "Some q", OF _ q(2)]) (use True q(1) in \<open>auto simp: rfork_init_def Let_def\<close>)
next
  case False
  then have "rfork_init (Some opts) s = Some (s\<lparr>rfork_cache_budget := dircache_rfork_budget opts * 1024,
      rfork_max_entry_size := dircache_rfork_maxentry opts * 1024, qh := qh s, rfork_lru := rfork_lru s\<rparr>)"
    by (simp add: rfork_init_def Let_def)
  then show ?thesis using that assms by blast
qed

lemma dircache_init_ok:
  assumes cold: "cold s" and al: "\<And>n. al_ok (qalloc (qh s)) n" "\<And>n. al_ok al1 n" "\<And>n. al_ok al2 n"
    and arc: "dircache_mode opts = 1"
  obtains s' where "dircache_init s (Some opts) req al1 al2 = Some (0, s')" "cache_ok s' (\<lambda>_. [])"
    "arc_c (Dircache.arc s') = dircache_resolve_size req" "curdir s' = curdir s" "dc_debug s' = dc_debug s" "allocs_ok s'"
    "\<And>a. a \<noteq> rootParent s \<Longrightarrow> dirs s' a = dirs s a"
proof -
  let ?c = "dircache_resolve_size req"
  obtain t1 :: dir_tab where t1: "hash_create (?c * 2) al1 = Some t1" "al_ok (hash_allocator t1) = al_ok al1"
    using hash_create_some[OF al(2)] by metis
  obtain t2 :: dir_tab where t2: "hash_create (?c * 2) al2 = Some t2" "al_ok (hash_allocator t2) = al_ok al2"
    using hash_create_some[OF al(3)] by metis
  have w0: "only_queues (qh s) {}" using cold al(1) by (simp add: cold_def only_queues_def)
  obtain q1 g1 where g1: "queue_init (qh s) = Some (Some q1, g1)" "only_queues g1 {q1}"
    using queue_init_ok[OF w0] by metis
  obtain q2 g2 where g2: "queue_init g1 = Some (Some q2, g2)" "q2 \<noteq> q1" "only_queues g2 {q2, q1}"
    using queue_init_ok[OF g1(2)] by (metis singletonI)
  obtain q3 g3 where g3: "queue_init g2 = Some (Some q3, g3)" "q3 \<notin> {q2, q1}" "only_queues g3 {q3, q2, q1}"
    using queue_init_ok[OF g2(3)] by metis
  obtain q4 g4 where g4: "queue_init g3 = Some (Some q4, g4)" "q4 \<notin> {q3, q2, q1}" "only_queues g4 {q4, q3, q2, q1}"
    using queue_init_ok[OF g3(3)] by metis
  obtain q5 g5 where g5: "queue_init g4 = Some (Some q5, g5)" "q5 \<notin> {q4, q3, q2, q1}" "only_queues g5 {q5, q4, q3, q2, q1}"
    using queue_init_ok[OF g4(3)] by metis
  let ?arc = "zero_arc\<lparr>arc_t1 := Some q1, arc_t2 := Some q2, arc_b1 := Some q3, arc_b2 := Some q4, arc_c := ?c,
     arc_p := 0, t1_size := 0, t2_size := 0, b1_size := 0, b2_size := 0,
     astats := zero_arc_stats\<lparr>p_min := ?c, p_max := 0\<rparr>, arc_enabled := True\<rparr>"
  obtain rp where rp: "dirs s (rootParent s) = Some rp" using cold by (auto simp: cold_def)
  let ?rp = "rp\<lparr>d_did := DIRDID_ROOT_PARENT, d_fullpath := Some ROOT_PARENT_NAME, d_u_name := ROOT_PARENT_NAME\<rparr>"
  let ?s1 = "s\<lparr>dircache_maxsize := ?c, dircache_tab := t1, index_didname := t2, arc := ?arc, qh := g5,
     invalid_dircache_entries := Some q5, dirs := (dirs s)(rootParent s \<mapsto> ?rp), validation_counter := 0\<rparr>"
  have arc_s: "Dircache.arc s = zero_arc" using cold by (simp add: cold_def)
  have run: "dircache_init s (Some opts) req al1 al2 = Option.bind (rfork_init (Some opts) ?s1) (\<lambda>s. Some (0, s))"
    using arc t1(1) t2(1) g1(1) g2(1) g3(1) g4(1) g5(1) rp arc_s
    by (simp add: dircache_init_def arc_init_def Let_def upd_dir_def)
  obtain s' where s': "rfork_init (Some opts) ?s1 = Some s'" "dirs s' = dirs ?s1" "Dircache.arc s' = ?arc"
    "dircache_tab s' = t1" "index_didname s' = t2" "\<exists>Q. only_queues (qh s') Q \<and> {q5, q4, q3, q2, q1} \<subseteq> Q"
    "index_queue s' = None" "queue_count s' = 0" "invalid_dircache_entries s' = Some q5" "arc_promoting_ghost s' = None"
    "curdir s' = curdir s" "dc_debug s' = dc_debug s" "dircache_maxsize s' = ?c" "vid_entry_count s' = (\<lambda>_. 0)"
  proof -
    have o: "only_queues (qh ?s1) {q5, q4, q3, q2, q1}" using g5(3) by simp
    obtain h lru b m Q' where x: "rfork_init (Some opts) ?s1 =
        Some (?s1\<lparr>rfork_cache_budget := b, rfork_max_entry_size := m, qh := h, rfork_lru := lru\<rparr>)"
      "only_queues h Q'" "{q5, q4, q3, q2, q1} \<subseteq> Q'" by (rule rfork_init_frame[OF o])
    show thesis by (rule that[OF x(1)]) (use x(2,3) cold in \<open>auto simp: cold_def\<close>)
  qed
  obtain Q where Q: "only_queues (qh s') Q" "{q5, q4, q3, q2, q1} \<subseteq> Q" using s'(6) by blast
  have nolink: "qidx_node d = None \<and> d_index_node d = None \<and> d_didname_node d = None \<and> \<not> is_indexed d" if "dirs s' a = Some d" for a d
    using that s'(2) rp cold by (auto simp: cold_def split: if_splits)
  have "started s'"
    unfolding started_def
  proof (intro conjI)
    show "\<exists>q1 q2 q3 q4 q5 Q. arc_t1 (Dircache.arc s') = Some q1 \<and> arc_t2 (Dircache.arc s') = Some q2 \<and>
      arc_b1 (Dircache.arc s') = Some q3 \<and> arc_b2 (Dircache.arc s') = Some q4 \<and> invalid_dircache_entries s' = Some q5 \<and>
      distinct [q1, q2, q3, q4, q5] \<and> only_queues (qh s') Q \<and> {q1, q2, q3, q4, q5} \<subseteq> Q"
      by (rule exI[of _ q1], rule exI[of _ q2], rule exI[of _ q3], rule exI[of _ q4], rule exI[of _ q5], rule exI[of _ Q])
        (use s'(3,9) Q g2(2) g3(2) g4(2) g5(2) in auto)
    show "\<forall>a d. dirs s' a = Some d \<longrightarrow> qidx_node d = None \<and> d_index_node d = None \<and> d_didname_node d = None \<and> \<not> is_indexed d"
      using nolink by blast
  qed (use s'(3,7,8,10,14) in simp_all)
  then have "cache_ok s' (\<lambda>_. [])"
    by (rule empty_cache_ok[where ?al1.0 = al1 and ?al2.0 = al2]) (use s'(3,4,5,13) t1(1) t2(1) size_fits in \<open>simp_all add: mult.commute\<close>)
  moreover have "allocs_ok s'" using Q(1) t1(2) t2(2) al(2,3) s'(4,5) unfolding allocs_ok_def only_queues_def by auto
  ultimately show ?thesis
    by (intro that[of s']) (use run s'(1,2,3,11,12) in simp_all)
qed

end
