(* ===== verification/Dircache_Claims.thy ===== *)
theory Dircache_Claims
  imports Dircache_Init
begin

text \<open>
  What the directory cache promises its callers, in ARC mode. The witnesses run on a cache of
  two entries whose heap holds ten directories.
\<close>

subsection \<open>A small concrete cache\<close>

definition tiny_dir :: "nat \<Rightarrow> dir" where
  "tiny_dir n = zero_dir\<lparr>d_vid := 1, d_did := htonl (of_nat (20 + n)), d_pdid := htonl 2, d_u_name := [of_nat (65 + n)]\<rparr>"

definition tiny_heap :: qheap where
  "tiny_heap = \<lparr>qcells = (\<lambda>a. if a < 5 then Some \<lparr>qprev = Some a, qnext = Some a, qdata = None\<rparr> else None),
     qalloc = \<lparr>al_next = 5, al_ok = (\<lambda>_. True)\<rparr>\<rparr>"

definition tiny_cache :: dcache where
  "tiny_cache = \<lparr>dirs = (\<lambda>a. if a < 10 then Some (tiny_dir a) else None),
     dircache_tab = the (hash_create 4 sample_alloc), index_didname = the (hash_create 4 sample_alloc),
     qh = tiny_heap,
     arc = zero_arc\<lparr>arc_enabled := True, arc_t1 := Some 0, arc_t2 := Some 1, arc_b1 := Some 2, arc_b2 := Some 3, arc_c := 2\<rparr>,
     index_queue = None, queue_count = 0, queue_count_max = 0, invalid_dircache_entries = Some 4,
     arc_promoting_ghost = None, curdir = None, rootParent = 0, dircache_maxsize = 2,
     vid_entry_count = (\<lambda>_. 0), validation_counter = 0,
     dstat = \<lparr>st_added = 0, st_removed = 0, st_expunged = 0, st_evicted = 0\<rparr>, pfd_purged = [], ea_dropped = 0,
     rfork_cache_budget = 0, rfork_max_entry_size = 0, rfork_lru = None, dc_debug = False\<rparr>"

lemma tiny_cache_simps [simp]:
  "dirs tiny_cache a = (if a < 10 then Some (tiny_dir a) else None)" "curdir tiny_cache = None"
  "arc_c (arc tiny_cache) = 2" "arc_p (arc tiny_cache) = 0" "\<not> dc_debug tiny_cache"
  by (simp_all add: tiny_cache_def zero_arc_def)

lemma sample_create: "\<exists>t :: dir_tab. hash_create c sample_alloc = Some t"
  by (simp add: hash_create_def malloc_def sample_alloc_def Let_def)

lemma tiny_heap_queues: "only_queues tiny_heap {..<5}"
proof -
  have "links (get_next tiny_heap) (get_prev tiny_heap) [q, q]" if "q < 5" for q
    using that by (simp add: tiny_heap_def get_next_def get_prev_def)
  moreover have "dom (qcells tiny_heap) = {..<5}" by (auto simp: tiny_heap_def split: if_splits)
  ultimately have "qwf tiny_heap (\<lambda>q. if q \<in> {..<5} then Some [] else None)"
    unfolding qwf_def
  proof (intro conjI allI impI)
    show "\<forall>a \<in> dom (qcells tiny_heap). a < al_next (qalloc tiny_heap)"
      by (auto simp: tiny_heap_def split: if_splits)
  qed (auto split: if_splits)
  then show ?thesis by (simp add: only_queues_def tiny_heap_def)
qed

lemma tiny_dir_simps [simp]:
  "qidx_node (tiny_dir n) = None" "d_index_node (tiny_dir n) = None" "d_didname_node (tiny_dir n) = None"
  "d_vid (tiny_dir n) = 1" "\<not> is_indexed (tiny_dir n)" "\<not> is_ghost (tiny_dir n)" "\<not> is_file (tiny_dir n)"
  by (simp_all add: tiny_dir_def zero_dir_def has_flag_def)

lemma tiny_cache_ok: "cache_ok tiny_cache (\<lambda>_. [])"
proof (rule empty_cache_ok[where ?al1.0 = sample_alloc and ?al2.0 = sample_alloc])
  show "started tiny_cache"
    unfolding started_def
  proof (intro conjI)
    show "\<exists>q1 q2 q3 q4 q5 Q. arc_t1 (arc tiny_cache) = Some q1 \<and> arc_t2 (arc tiny_cache) = Some q2 \<and>
      arc_b1 (arc tiny_cache) = Some q3 \<and> arc_b2 (arc tiny_cache) = Some q4 \<and> invalid_dircache_entries tiny_cache = Some q5 \<and>
      distinct [q1, q2, q3, q4, q5] \<and> only_queues (qh tiny_cache) Q \<and> {q1, q2, q3, q4, q5} \<subseteq> Q"
      by (rule exI[of _ 0], rule exI[of _ 1], rule exI[of _ 2], rule exI[of _ 3], rule exI[of _ 4], rule exI[of _ "{..<5}"])
        (simp add: tiny_cache_def tiny_heap_queues)
    show "\<forall>a d. dirs tiny_cache a = Some d \<longrightarrow> qidx_node d = None \<and> d_index_node d = None \<and> d_didname_node d = None \<and> \<not> is_indexed d"
      by (auto split: if_splits)
  qed (simp_all add: tiny_cache_def zero_arc_def)
qed (use sample_create[of 4] in \<open>auto simp: tiny_cache_def zero_arc_def\<close>)

lemma tiny_allocs: "allocs_ok tiny_cache"
proof -
  have "al_ok (hash_allocator (the (hash_create 4 sample_alloc :: dir_tab option))) = al_ok sample_alloc"
    by (simp add: hash_create_def malloc_def clear_table_def sample_alloc_def Let_def)
  then show ?thesis by (simp add: allocs_ok_def tiny_cache_def tiny_heap_def sample_alloc_def)
qed

lemma tiny_fresh: "n < 10 \<Longrightarrow> fresh_entry (tiny_dir n)"
  unfolding fresh_entry_def tiny_dir_def
  by (simp add: zero_dir_def has_flag_def CNID_START_def word_le_nat_alt unat_of_nat unat_word_ariths)

text \<open>Histories of the small cache: \<open>F\<close> are the directories not yet added.\<close>

definition same_keys :: "dir \<Rightarrow> dir \<Rightarrow> bool" where
  "same_keys d e \<longleftrightarrow> d_vid e = d_vid d \<and> d_did e = d_did d \<and> d_pdid e = d_pdid d \<and> d_u_name e = d_u_name d"

definition tiny_state :: "dcache \<Rightarrow> lists \<Rightarrow> nat \<Rightarrow> nat set \<Rightarrow> bool" where
  "tiny_state s A p F \<longleftrightarrow> cache_ok s A \<and> \<not> dc_debug s \<and> allocs_ok s \<and> arc_c (arc s) = 2 \<and> arc_p (arc s) = p \<and>
     curdir s = None \<and> F \<subseteq> {..<10} \<and> (\<forall>n \<in> F. dirs s n = Some (tiny_dir n)) \<and>
     (\<forall>b \<in> entries A. b < 10 \<and> same_keys (tiny_dir b) (dir_at s b))"

lemma tiny_start: "tiny_state tiny_cache (\<lambda>_. []) 0 {..<10}"
  using tiny_cache_ok tiny_allocs by (simp add: tiny_state_def entries_def)

lemma tiny_keys: "m < 10 \<Longrightarrow> n < 10 \<Longrightarrow> d_did (tiny_dir m) = d_did (tiny_dir n) \<or> d_u_name (tiny_dir m) = d_u_name (tiny_dir n) \<Longrightarrow> m = n"
proof -
  assume b: "m < 10" "n < 10" and e: "d_did (tiny_dir m) = d_did (tiny_dir n) \<or> d_u_name (tiny_dir m) = d_u_name (tiny_dir n)"
  have "htonl x = htonl y \<longleftrightarrow> x = y" for x y by (metis ntohl_ntohl)
  then have "(of_nat (20 + m) :: 32 word) = of_nat (20 + n) \<or> (of_nat (65 + m) :: 8 word) = of_nat (65 + n)"
    using e by (simp add: tiny_dir_def)
  then show "m = n" using b by (auto simp: word_of_nat_eq_iff take_bit_nat_eq_self)
qed

lemma entries_keep_keys:
  assumes "keeps_dirs (dirs s) (dirs s')" "drep s' A' {}" "b \<in> entries A'"
  shows "same_keys e (dir_at s' b) = same_keys e (dir_at s b)"
proof -
  obtain d' where d': "dirs s' b = Some d'" "d_index_node d' \<noteq> None" using entry_dir[OF assms(2,3)] by blast
  obtain d where d: "dirs s b = Some d" "kept d d' \<or> retired d d'" using keeps_dirs_back[OF assms(1) d'(1)] by metis
  then have "kept d d'" using d'(2) by (auto simp: retired_def)
  then show ?thesis using d' d by (auto simp: kept_def same_keys_def)
qed

lemma tiny_add:
  assumes t: "tiny_state s A p F" and n: "n \<in> F"
  obtains s' where "dircache_add s vol n = Some (0, s')" "tiny_state s' (spec_add 2 p None n A) p (F - {n})"
proof -
  have ok: "cache_ok s A" "\<not> dc_debug s" "allocs_ok s" and c: "arc_c (arc s) = 2" "arc_p (arc s) = p" "curdir s = None"
    and d: "dirs s n = Some (tiny_dir n)" and F: "F \<subseteq> {..<10}" "\<And>m. m \<in> F \<Longrightarrow> dirs s m = Some (tiny_dir m)" "n < 10"
    and E: "\<And>b. b \<in> entries A \<Longrightarrow> b < 10 \<and> same_keys (tiny_dir b) (dir_at s b)"
    using t n by (auto simp: tiny_state_def)
  note ck = cache_okD[OF ok(1)]
  have nE: "m \<notin> entries A" if "m \<in> F" for m using entry_dir[OF ck(1), of m] F(2)[OF that] by auto
  have nc: "\<not> collides s (tiny_dir n) b" if "b \<in> entries A" for b
  proof
    assume "collides s (tiny_dir n) b"
    then have "d_did (tiny_dir b) = d_did (tiny_dir n) \<or> d_u_name (tiny_dir b) = d_u_name (tiny_dir n)"
      using E[OF that] by (auto simp: collides_def same_keys_def hash_comp_vid_did_def hash_comp_didname_def)
    then have "b = n" using tiny_keys E[OF that] F(3) by blast
    then show False using nE[OF n] that by blast
  qed
  have oth: "others (collides s (tiny_dir n)) A = A" "\<not> takes_curdir s (tiny_dir n) A"
    using others_none[of A] nc c(3) by (auto simp: takes_curdir_def)
  let ?B = "spec_add 2 p None n A"
  obtain s' d' where s': "dircache_add s vol n = Some (0, s')" "env s' = env (s\<lparr>curdir := added_curdir s vol n (tiny_dir n) A\<rparr>)"
    "cache_ok s' ?B" "dirs s' n = Some d'" "linked_as (tiny_dir n) d'"
    and car: "\<And>b e. b \<noteq> n \<Longrightarrow> dirs s b = Some e \<Longrightarrow> \<exists>e'. dirs s' b = Some e' \<and> carried e e'"
    using dircache_add_ok[OF ok d tiny_fresh[OF F(3)], of vol] oth c by auto
  note ev = env_eqD[OF s'(2)]
  have "entries (spec_make_room 2 p None A) \<subseteq> entries A"
    using make_room_ok[OF drep_disjoint[OF ck(1)], of 2 None p] ck(5,6) c by (simp add: room_ok_def)
  moreover have "entries (M(ARC_T1 := M ARC_T1 @ [n])) = insert n (entries M)" for M
    by (auto simp: entries_def split: if_splits)
  ultimately have sub: "entries ?B \<subseteq> insert n (entries A)" unfolding spec_add_def Let_def by auto
  have "b < 10 \<and> same_keys (tiny_dir b) (dir_at s' b)" if b: "b \<in> entries ?B" for b
  proof (cases "b = n")
    case True
    then show ?thesis using F(3) s'(4,5) by (simp add: linked_as_def same_keys_def)
  next
    case False
    then have bA: "b \<in> entries A" using sub b by blast
    obtain e where e: "dirs s b = Some e" using entry_dir[OF ck(1) bA] by blast
    obtain e' where e': "dirs s' b = Some e'" "carried e e'" using car[OF False e] by blast
    have "d_index_node e' \<noteq> None" using entry_dir[OF cache_okD(1)[OF s'(3)] b] e'(1) by auto
    then have "kept e e'" using carried_cases[OF e'(2)] by (auto simp: retired_def)
    then show ?thesis using E[OF bA] e e' by (simp add: kept_def same_keys_def)
  qed
  moreover have "dirs s' m = Some (tiny_dir m)" if "m \<in> F - {n}" for m
    using car[of m "tiny_dir m"] F(2)[of m] that by (auto simp: carried_def)
  moreover have "allocs_ok s'" using ok(3) ev by (simp add: allocs_ok_def)
  moreover have "curdir s' = None" using ev(1) oth(2) c(3) by (simp add: added_curdir_def)
  ultimately have "tiny_state s' ?B p (F - {n})"
    using s'(3) ev ok(2) c F(1) by (auto simp: tiny_state_def)
  then show ?thesis using that s'(1) by blast
qed

lemma promote_cache_ok:
  assumes ok: "cache_ok s A" and db: "\<not> dc_debug s" and a: "a \<in> set (A X)"
    and sp: "spec_access (arc_c (arc s)) (curdir s) X a (arc_p (arc s), A) = (p', B)"
  obtains s' where "dircache_promote s a = Some s'" "cache_ok s' B" "arc_p (arc s') = p'"
    "env_but_p s s'" "keeps_dirs (dirs s) (dirs s')" "access_ok (arc_c (arc s)) (curdir s) a A B"
proof -
  note c = cache_okD[OF ok]
  obtain s' where s': "dircache_promote s a = Some s'" "promoted s s' p' B"
    using dircache_promote_ok[OF c(1-3) db a c(4) sp] by blast
  have X: "X \<noteq> ARC_NONE" using drep_none[OF c(1-3)] a by auto
  note acc = access_ok_spec[OF drep_disjoint[OF c(1)] c(5,6) a X sp]
  have e: "env (set_p (arc_p (arc s)) s') = env s" using s'(2) by (simp add: promoted_def env_but_p_def)
  note ee = env_eqD[OF e]
  have "mode_ok (set_p p s') = mode_ok s'" for p unfolding mode_ok_def set_p_sentinel by (simp add: set_p_def)
  then have "mode_ok s'" using mode_ok_env[OF e] c(2) by simp
  then have "cache_ok s' B"
    using s'(2) acc c ee unfolding cache_ok_def promoted_def access_ok_def by (simp add: set_p_def)
  then show ?thesis using that s' acc(1) by (simp add: promoted_def)
qed

lemma env_but_pD:
  assumes "env_but_p s s'"
  shows "curdir s' = curdir s" "arc_c (arc s') = arc_c (arc s)"
  using env_eqD(1,10)[OF assms[unfolded env_but_p_def]] by (simp_all add: set_p_def)

lemma tiny_promote:
  assumes t: "tiny_state s A p F" and a: "a \<in> set (A X)" and sp: "spec_access 2 None X a (p, A) = (p', B)"
  obtains s' where "dircache_promote s a = Some s'" "tiny_state s' B p' F"
proof -
  have ok: "cache_ok s A" "\<not> dc_debug s" and c: "arc_c (arc s) = 2" "arc_p (arc s) = p" "curdir s = None"
    and F: "F \<subseteq> {..<10}" "\<And>m. m \<in> F \<Longrightarrow> dirs s m = Some (tiny_dir m)"
    and E: "\<And>b. b \<in> entries A \<Longrightarrow> b < 10 \<and> same_keys (tiny_dir b) (dir_at s b)"
    using t by (auto simp: tiny_state_def)
  obtain s' where s': "dircache_promote s a = Some s'" "cache_ok s' B" "arc_p (arc s') = p'" "env_but_p s s'"
    "keeps_dirs (dirs s) (dirs s')" "access_ok 2 None a A B"
    using promote_cache_ok[OF ok a, of p' B] sp c by auto
  have e: "env (set_p (arc_p (arc s)) s') = env s" using s'(4) by (simp add: env_but_p_def)
  note ee = env_eqD[OF e]
  have "b < 10 \<and> same_keys (tiny_dir b) (dir_at s' b)" if b: "b \<in> entries B" for b
    using E[of b] s'(6) b entries_keep_keys[OF s'(5) cache_okD(1)[OF s'(2)] b] by (auto simp: access_ok_def)
  moreover have "dirs s' m = Some (tiny_dir m)" if "m \<in> F" for m
    using keeps_dirs_uncached[OF s'(5) F(2)[OF that]] by simp
  moreover have "allocs_ok s'" using t ee by (simp add: tiny_state_def allocs_ok_def set_p_def)
  ultimately have "tiny_state s' B p' F"
    using s'(2,3) ee ok(2) c F(1) by (auto simp: tiny_state_def set_p_def)
  then show ?thesis using that s'(1) by blast
qed

lemma arc_bounds_remove: "arc_bounds c A \<Longrightarrow> arc_bounds c (A(X := remove1 a (A X)))"
proof -
  have le: "length ((A(X := remove1 a (A X))) Y) \<le> length (A Y)" for Y by (simp add: length_remove1)
  assume "arc_bounds c A"
  then show ?thesis using le[of ARC_T1] le[of ARC_T2] le[of ARC_B1] le[of ARC_B2] unfolding arc_bounds_def by linarith
qed

lemma cache_ok_env:
  assumes "cache_ok s A" "env s' = env s" "drep s' B {}" "arc_bounds (arc_c (arc s)) B"
  shows "cache_ok s' B"
  using cache_okD[OF assms(1)] mode_ok_env[OF assms(2)] env_eqD[OF assms(2)] assms(3,4) by (simp add: cache_ok_def)

lemma remove_cache_ok:
  assumes ok: "cache_ok s A" and a: "a \<in> set (A X)"
  obtains s1 s2 where "dircache_remove s a (DIRCACHE OR DIDNAME_INDEX OR QUEUE_INDEX) = Some s1"
    "dircache_defer_free s1 a = Some s2" "cache_ok s2 (A(X := remove1 a (A X)))" "env s2 = env s" "keeps_dirs (dirs s) (dirs s2)"
proof -
  note c = cache_okD[OF ok]
  obtain s1 s2 where s2: "dircache_remove s a (DIRCACHE OR DIDNAME_INDEX OR QUEUE_INDEX) = Some s1"
    "dircache_defer_free s1 a = Some s2" "env s2 = env s" "keeps_dirs (dirs s) (dirs s2)" "drep s2 (A(X := remove1 a (A X))) {}"
    using remove_and_free_ok[OF c(1,2) a, of _ False] by auto
  show ?thesis by (rule that[OF s2(1,2) cache_ok_env[OF ok s2(3,5) arc_bounds_remove[OF c(5)]] s2(3,4)])
qed

lemma tiny_remove:
  assumes t: "tiny_state s A p F" and a: "a \<in> set (A X)"
  obtains s1 s' where "dircache_remove s a (DIRCACHE OR DIDNAME_INDEX OR QUEUE_INDEX) = Some s1"
    "dircache_defer_free s1 a = Some s'" "tiny_state s' (A(X := remove1 a (A X))) p F"
proof -
  have ok: "cache_ok s A" "\<not> dc_debug s" and c: "arc_c (arc s) = 2" "arc_p (arc s) = p" "curdir s = None"
    and F: "F \<subseteq> {..<10}" "\<And>m. m \<in> F \<Longrightarrow> dirs s m = Some (tiny_dir m)"
    and E: "\<And>b. b \<in> entries A \<Longrightarrow> b < 10 \<and> same_keys (tiny_dir b) (dir_at s b)"
    using t by (auto simp: tiny_state_def)
  let ?B = "A(X := remove1 a (A X))"
  obtain s1 s' where s': "dircache_remove s a (DIRCACHE OR DIDNAME_INDEX OR QUEUE_INDEX) = Some s1"
    "dircache_defer_free s1 a = Some s'" "cache_ok s' ?B" "env s' = env s" "keeps_dirs (dirs s) (dirs s')"
    using remove_cache_ok[OF ok(1) a] by metis
  note ee = env_eqD[OF s'(4)]
  have "b < 10 \<and> same_keys (tiny_dir b) (dir_at s' b)" if b: "b \<in> entries ?B" for b
    using E[of b] b entries_removed[OF drep_disjoint[OF cache_okD(1)[OF ok(1)]] a]
      entries_keep_keys[OF s'(5) cache_okD(1)[OF s'(3)] b] by auto
  moreover have "dirs s' m = Some (tiny_dir m)" if "m \<in> F" for m
    using keeps_dirs_uncached[OF s'(5) F(2)[OF that]] by simp
  moreover have "allocs_ok s'" using t ee by (simp add: tiny_state_def allocs_ok_def)
  ultimately have "tiny_state s' ?B p F"
    using s'(3) ee ok(2) c F(1) by (auto simp: tiny_state_def)
  then show ?thesis using that s'(1,2) by blast
qed

text \<open>Two histories: a cache with entry 1 in T1, and one with two ghosts in B2 and one entry in T1.\<close>

definition tiny_vol :: vol where "tiny_vol = \<lparr>v_vid = 1, v_root = None\<rparr>"

lemma tiny_one: "\<exists>s. dircache_add tiny_cache tiny_vol 1 = Some (0, s) \<and> tiny_state s ((\<lambda>_. [])(ARC_T1 := [1])) 0 ({..<10} - {1})"
proof -
  have "spec_add 2 0 None 1 (\<lambda>_. []) = (\<lambda>_. [])(ARC_T1 := [1])" by (simp add: spec_add_def spec_make_room_def Let_def)
  moreover obtain s' where "dircache_add tiny_cache tiny_vol 1 = Some (0, s')" "tiny_state s' (spec_add 2 0 None 1 (\<lambda>_. [])) 0 ({..<10} - {1})"
    by (rule tiny_add[OF tiny_start, of 1]) auto
  ultimately show ?thesis by simp
qed

lemma tiny_add_promote:
  assumes "tiny_state s A 0 F" "n \<in> F" "A ARC_T1 = []" "A ARC_B1 = []" "A ARC_NONE = []"
    "spec_add 2 0 None n A = (\<lambda>_. [])(ARC_T1 := [n], ARC_T2 := t2, ARC_B2 := b2)"
  obtains s' where "tiny_state s' ((\<lambda>_. [])(ARC_T2 := t2 @ [n], ARC_B2 := b2)) 0 (F - {n})"
proof -
  let ?A = "(\<lambda>_. [])(ARC_T1 := [n], ARC_T2 := t2, ARC_B2 := b2)"
  obtain s1 where s1: "tiny_state s1 ?A 0 (F - {n})" using tiny_add[OF assms(1,2)] assms(6) by metis
  have "spec_access 2 None ARC_T1 n (0, ?A) = (0, (\<lambda>_. [])(ARC_T2 := t2 @ [n], ARC_B2 := b2))"
    by (auto simp: spec_access_def move_def Let_def fun_eq_iff)
  then show ?thesis using tiny_promote[OF s1, of n ARC_T1] that by (metis fun_upd_same fun_upd_other arc_list_t.distinct list.set_intros(1))
qed

subsection \<open>Look-up\<close>

lemma resident_ghost:
  assumes "cache_ok s A" "a \<in> entries A"
  shows "is_ghost (dir_at s a) \<longleftrightarrow> a \<notin> set (A ARC_T1) \<union> set (A ARC_T2)"
proof -
  note c = cache_okD[OF assms(1)]
  obtain X where X: "a \<in> set (A X)" using assms(2) by (auto simp: entries_def)
  obtain d where d: "dirs s a = Some d" "is_ghost d \<longleftrightarrow> ghost_list X" using drep_entry[OF c(1) X] by metis
  have "A ARC_NONE = []" using drep_none[OF c(1-3)] .
  moreover have "a \<in> set (A Y) \<Longrightarrow> X = Y" for Y
    using drep_disjoint[OF c(1)] X unfolding disjoint_lists_def by blast
  ultimately show ?thesis using X d by (cases X) (auto simp: ghost_list_def)
qed

lemma lookup_did_ok:
  assumes ok: "cache_ok s A"
  obtains r where "dircache_lookup_did s vol did = Some r"
    "\<forall>a. r = Some a \<longleftrightarrow> a \<in> set (A ARC_T1) \<union> set (A ARC_T2) \<and> d_vid (dir_at s a) = v_vid vol \<and> d_did (dir_at s a) = did"
proof (cases "did = CNID_INVALID \<or> ntohl did < CNID_START")
  case True
  have z: "CNID_INVALID = 0" by (simp add: CNID_INVALID_def)
  have "\<not> d_did (dir_at s a) = did" if a: "a \<in> set (A ARC_T1) \<union> set (A ARC_T2)" for a
  proof -
    obtain X where X: "a \<in> set (A X)" using a by blast
    obtain d where d: "dirs s a = Some d" using drep_entry[OF cache_okD(1)[OF ok] X] by metis
    then have "CNID_START \<le> ntohl (d_did d)" using drep_indexed[OF cache_okD(1)[OF ok] X] by blast
    then show ?thesis using True d z by (auto simp: CNID_START_def word_le_nat_alt word_less_nat_alt)
  qed
  then show ?thesis using True that[of None] by (auto simp: dircache_lookup_did_def)
next
  case False
  let ?k = "zero_dir\<lparr>d_vid := v_vid vol, d_did := did\<rparr>"
  have km: "hash_comp_vid_did x ?k \<longleftrightarrow> d_vid x = v_vid vol \<and> d_did x = did" for x by (auto simp: hash_comp_vid_did_def)
  have kk: "hash_comp_vid_did ?k ?k" by (simp add: hash_comp_vid_did_def)
  obtain hn where hn: "did_lookup s (OnStack ?k) = Some hn"
    "case hn of None \<Rightarrow> \<forall>b \<in> entries A. \<not> hash_comp_vid_did (dir_at s b) ?k
      | Some n \<Rightarrow> hash_data n \<in> entries A \<and> hash_comp_vid_did (dir_at s (hash_data n)) ?k \<and>
         (\<forall>b \<in> entries A. hash_comp_vid_did (dir_at s b) ?k \<longrightarrow> b = hash_data n)"
    using did_lookup_ok[OF cache_okD(1)[OF ok] kk] by blast
  have res: "a \<in> set (A ARC_T1) \<union> set (A ARC_T2) \<Longrightarrow> a \<in> entries A" for a by (auto simp: entries_def)
  show ?thesis
  proof (cases hn)
    case None
    then show ?thesis
      using that[of None] False hn res unfolding km by (auto simp: dircache_lookup_did_def)
  next
    case (Some n)
    then have h: "hash_data n \<in> entries A" "d_vid (dir_at s (hash_data n)) = v_vid vol" "d_did (dir_at s (hash_data n)) = did"
      "\<forall>b \<in> entries A. d_vid (dir_at s b) = v_vid vol \<and> d_did (dir_at s b) = did \<longrightarrow> b = hash_data n"
      using hn(2) unfolding km by auto
    obtain d where d: "dirs s (hash_data n) = Some d" using entry_dir[OF cache_okD(1)[OF ok] h(1)] by blast
    have run: "dircache_lookup_did s vol did = Some (if is_ghost d then None else Some (hash_data n))"
      using False hn(1) Some d by (simp add: dircache_lookup_did_def)
    show ?thesis
    proof (rule that[OF run], rule)
      fix a
      show "((if is_ghost d then None else Some (hash_data n)) = Some a) \<longleftrightarrow>
          a \<in> set (A ARC_T1) \<union> set (A ARC_T2) \<and> d_vid (dir_at s a) = v_vid vol \<and> d_did (dir_at s a) = did"
        using resident_ghost[OF ok h(1)] d h(2,3) h(4)[rule_format, of a] res[of a] by (cases "a = hash_data n") auto
    qed
  qed
qed

text \<open>
  \<open>dircache_lookup_did\<close> answers every request without an abort and finds exactly the resident
  entry of that volume and directory ID; ghosts are never returned.
\<close>

theorem dircache_lookup_did_finds_resident:
  assumes "cache_ok s A"
  shows "\<exists>r. dircache_lookup_did s vol did = Some r \<and>
    (\<forall>a. r = Some a \<longleftrightarrow> a \<in> set (A ARC_T1) \<union> set (A ARC_T2) \<and> d_vid (dir_at s a) = v_vid vol \<and> d_did (dir_at s a) = did)"
  using lookup_did_ok[OF assms, of vol did] by blast

theorem dircache_lookup_did_finds_resident_witness:
  "\<exists>s. dircache_add tiny_cache tiny_vol 1 = Some (0, s) \<and> cache_ok s ((\<lambda>_. [])(ARC_T1 := [1])) \<and>
     dircache_lookup_did s tiny_vol (d_did (tiny_dir 1)) = Some (Some 1)"
proof -
  obtain s where s: "dircache_add tiny_cache tiny_vol 1 = Some (0, s)" "tiny_state s ((\<lambda>_. [])(ARC_T1 := [1])) 0 ({..<10} - {1})"
    using tiny_one by blast
  then have ok: "cache_ok s ((\<lambda>_. [])(ARC_T1 := [1]))" "same_keys (tiny_dir 1) (dir_at s 1)"
    by (auto simp: tiny_state_def entries_def)
  obtain r where r: "dircache_lookup_did s tiny_vol (d_did (tiny_dir 1)) = Some r"
    "\<forall>a. r = Some a \<longleftrightarrow> a \<in> set (((\<lambda>_. [])(ARC_T1 := [1])) ARC_T1) \<union> set (((\<lambda>_. [])(ARC_T1 := [1])) ARC_T2) \<and>
      d_vid (dir_at s a) = v_vid tiny_vol \<and> d_did (dir_at s a) = d_did (tiny_dir 1)"
    using dircache_lookup_did_finds_resident[OF ok(1), of tiny_vol "d_did (tiny_dir 1)"] by blast
  have "r = Some 1" using r(2)[rule_format, of 1] ok(2) by (simp add: same_keys_def tiny_vol_def)
  then show ?thesis using s(1) ok(1) r(1) by blast
qed

subsection \<open>Addition and access refine ARC\<close>






subsection \<open>Safety of the current directory\<close>

text \<open>
  C8: the current directory is never evicted: if it is resident before an addition that does not
  replace it, or before an access, it is resident afterwards.
\<close>

theorem curdir_never_evicted:
  assumes ok: "cache_ok s A" "\<not> dc_debug s" and cur: "curdir s = Some b" "b \<in> set (A ARC_T1) \<union> set (A ARC_T2)"
  shows "(allocs_ok s \<longrightarrow> dirs s a = Some d \<longrightarrow> fresh_entry d \<longrightarrow> \<not> collides s d b \<longrightarrow>
      (\<exists>s' B. dircache_add s vol a = Some (0, s') \<and> cache_ok s' B \<and> curdir s' = Some b \<and> b \<in> set (B ARC_T1) \<union> set (B ARC_T2))) \<and>
    (a \<in> entries A \<longrightarrow>
      (\<exists>s' B. dircache_promote s a = Some s' \<and> cache_ok s' B \<and> curdir s' = Some b \<and> b \<in> set (B ARC_T1) \<union> set (B ARC_T2)))"
proof (intro conjI impI)
  note c = cache_okD[OF ok(1)]
  assume add: "allocs_ok s" "dirs s a = Some d" "fresh_entry d" "\<not> collides s d b"
  have nt: "\<not> takes_curdir s d A" using add(4) cur(1) by (auto simp: takes_curdir_def)
  let ?A = "others (collides s d) A" and ?c = "arc_c (arc s)" and ?p = "arc_p (arc s)"
  let ?B = "spec_add ?c ?p (Some b) a ?A"
  obtain s' where s': "dircache_add s vol a = Some (0, s')" "env s' = env (s\<lparr>curdir := added_curdir s vol a d A\<rparr>)" "cache_ok s' ?B"
    using dircache_add_ok[OF ok add(1-3), of vol] nt cur(1) by simp metis
  have "b \<in> set (?A ARC_T1) \<union> set (?A ARC_T2)" using cur(2) add(4) by (auto simp: others_def)
  then have "b \<in> set (?B ARC_T1) \<union> set (?B ARC_T2)"
    using make_room_ok[OF disjoint_lists_others[OF drep_disjoint[OF c(1)], of "collides s d"] arc_bounds_others[OF c(5)] c(6), where cur = "Some b" and p = ?p]
    by (auto simp: room_ok_def spec_add_def Let_def)
  moreover have "curdir s' = Some b" using env_eqD(1)[OF s'(2)] nt cur(1) by (simp add: added_curdir_def)
  ultimately show "\<exists>s' B. dircache_add s vol a = Some (0, s') \<and> cache_ok s' B \<and> curdir s' = Some b \<and> b \<in> set (B ARC_T1) \<union> set (B ARC_T2)"
    using s'(1,3) by blast
next
  assume "a \<in> entries A"
  then obtain X where X: "a \<in> set (A X)" by (auto simp: entries_def)
  obtain p' B where sp: "spec_access (arc_c (arc s)) (curdir s) X a (arc_p (arc s), A) = (p', B)" by fastforce
  obtain s' where s': "dircache_promote s a = Some s'" "cache_ok s' B" "env_but_p s s'" "access_ok (arc_c (arc s)) (curdir s) a A B"
    using promote_cache_ok[OF ok X sp] by metis
  have "curdir s' = Some b" using env_but_pD(1)[OF s'(3)] cur(1) by simp
  then show "\<exists>s' B. dircache_promote s a = Some s' \<and> cache_ok s' B \<and> curdir s' = Some b \<and> b \<in> set (B ARC_T1) \<union> set (B ARC_T2)"
    using s'(1,2,4) cur by (auto simp: access_ok_def)
qed

theorem curdir_never_evicted_witness:
  "\<exists>s s' B. dircache_add tiny_cache tiny_vol 1 = Some (0, s) \<and> cache_ok (s\<lparr>curdir := Some 1\<rparr>) ((\<lambda>_. [])(ARC_T1 := [1])) \<and>
     dircache_add (s\<lparr>curdir := Some 1\<rparr>) tiny_vol 2 = Some (0, s') \<and> cache_ok s' B \<and> 1 \<in> set (B ARC_T1) \<union> set (B ARC_T2)"
proof -
  let ?A = "(\<lambda>_. [])(ARC_T1 := [1])"
  obtain s where s: "dircache_add tiny_cache tiny_vol 1 = Some (0, s)" "tiny_state s ?A 0 ({..<10} - {1})"
    using tiny_one by blast
  let ?s = "s\<lparr>curdir := Some 1\<rparr>"
  have t: "cache_ok s ?A" "\<not> dc_debug ?s" "allocs_ok ?s" "dirs ?s 2 = Some (tiny_dir 2)" "same_keys (tiny_dir 1) (dir_at s 1)"
    using s(2) by (auto simp: tiny_state_def allocs_ok_def entries_def)
  have ok: "cache_ok ?s ?A"
    using cache_okD[OF t(1)] drep_same[of s ?A "{}" ?s] unfolding cache_ok_def by (simp add: mode_ok_curdir)
  have nc: "\<not> collides ?s (tiny_dir 2) 1"
  proof
    assume "collides ?s (tiny_dir 2) 1"
    then have "d_did (tiny_dir 1) = d_did (tiny_dir 2) \<or> d_u_name (tiny_dir 1) = d_u_name (tiny_dir 2)"
      using t(5) by (auto simp: collides_def same_keys_def hash_comp_vid_did_def hash_comp_didname_def)
    then show False using tiny_keys[of 1 2] by simp
  qed
  have "\<exists>s' B. dircache_add ?s tiny_vol 2 = Some (0, s') \<and> cache_ok s' B \<and> curdir s' = Some 1 \<and> 1 \<in> set (B ARC_T1) \<union> set (B ARC_T2)"
    using curdir_never_evicted[OF ok t(2), of 1 2 "tiny_dir 2" tiny_vol] t(3,4) nc tiny_fresh[of 2] by simp
  then show ?thesis using s(1) ok by blast
qed

subsection \<open>Removal and purge\<close>

text \<open>
  C9: removing an entry from all indexes and retiring it keeps the cache well-formed; nothing of
  the entry is left, and no look-up returns it any more.
\<close>

theorem dircache_remove_retires:
  assumes "cache_ok s A" "a \<in> set (A X)"
  shows "\<exists>s1 s2. dircache_remove s a (DIRCACHE OR DIDNAME_INDEX OR QUEUE_INDEX) = Some s1 \<and>
    dircache_defer_free s1 a = Some s2 \<and> cache_ok s2 (A(X := remove1 a (A X))) \<and>
    (\<forall>vol did. \<exists>r. dircache_lookup_did s2 vol did = Some r \<and> r \<noteq> Some a)"
proof -
  let ?B = "A(X := remove1 a (A X))"
  obtain s1 s2 where s2: "dircache_remove s a (DIRCACHE OR DIDNAME_INDEX OR QUEUE_INDEX) = Some s1"
    "dircache_defer_free s1 a = Some s2" "cache_ok s2 ?B"
    using remove_cache_ok[OF assms] by metis
  have "a \<notin> entries ?B" using entries_removed[OF drep_disjoint[OF cache_okD(1)[OF assms(1)]] assms(2)] by simp
  then have n: "a \<notin> set (?B ARC_T1) \<union> set (?B ARC_T2)" using entriesI by blast
  have "\<exists>r. dircache_lookup_did s2 vol did = Some r \<and> r \<noteq> Some a" for vol did
    using lookup_did_ok[OF s2(3), of vol did] n by metis
  then show ?thesis using s2 by blast
qed

theorem dircache_remove_retires_witness:
  "\<exists>s s1 s2. dircache_add tiny_cache tiny_vol 1 = Some (0, s) \<and>
     dircache_remove s 1 (DIRCACHE OR DIDNAME_INDEX OR QUEUE_INDEX) = Some s1 \<and> dircache_defer_free s1 1 = Some s2 \<and>
     cache_ok s2 (\<lambda>_. [])"
proof -
  obtain s where s: "dircache_add tiny_cache tiny_vol 1 = Some (0, s)" "tiny_state s ((\<lambda>_. [])(ARC_T1 := [1])) 0 ({..<10} - {1})"
    using tiny_one by blast
  have "cache_ok s ((\<lambda>_. [])(ARC_T1 := [1]))" using s(2) by (simp add: tiny_state_def)
  from dircache_remove_retires[OF this, of 1 ARC_T1] show ?thesis using s(1) by (auto simp: fun_upd_idem)
qed

lemma vid_count: "drep s A {} \<Longrightarrow> vid_entry_count s v = card {a \<in> entries A. d_vid (dir_at s a) = v}"
  using drep_parts(5)[of s A "{}"] drep_members(1)[of s A] by (simp add: vid_ok_def)

lemma vid_count_none:
  assumes "drep s A {}" "\<And>b. b \<in> entries A \<Longrightarrow> d_vid (dir_at s b) \<noteq> v"
  shows "vid_entry_count s v = 0"
proof -
  have "{a \<in> entries A. d_vid (dir_at s a) = v} = {}" using assms(2) by blast
  then show ?thesis unfolding vid_count[OF assms(1)] by (simp only: card.empty)
qed

lemma purge_cache_ok:
  assumes ok: "cache_ok s A"
  obtains s' where "dircache_purge_vol s v = Some s'" "cache_ok s' (others (on_vol s (v_vid v)) A)"
    "curdir s' = purged_curdir s (v_vid v) A" "keeps_dirs (dirs s) (dirs s')"
proof -
  note c = cache_okD[OF ok]
  obtain s' where s': "dircache_purge_vol s v = Some s'" "env s' = env (s\<lparr>curdir := purged_curdir s (v_vid v) A\<rparr>)"
    "keeps_dirs (dirs s) (dirs s')" "drep s' (others (on_vol s (v_vid v)) A) {}"
    using dircache_purge_vol_ok[OF c(1,2)] by metis
  have "cache_ok s' (others (on_vol s (v_vid v)) A)"
    using c mode_ok_env[OF s'(2)] env_eqD[OF s'(2)] s'(4) arc_bounds_others[OF c(5)]
    by (simp add: cache_ok_def mode_ok_curdir)
  then show ?thesis using that s'(1,3) env_eqD(1)[OF s'(2)] by simp
qed

text \<open>
  C7: \<open>dircache_purge_vol\<close> ends, removes every entry of the volume from the lists and both
  indexes and no other entry, leaves its counter at zero and moves the current directory off the
  volume; the scan of the hash table survives the deletions made during the scan.
\<close>

theorem dircache_purge_vol_complete:
  assumes "cache_ok s A"
  shows "\<exists>s'. dircache_purge_vol s v = Some s' \<and> cache_ok s' (others (on_vol s (v_vid v)) A) \<and>
    vid_entry_count s' (v_vid v) = 0 \<and> curdir s' = purged_curdir s (v_vid v) A \<and>
    (\<forall>did. dircache_lookup_did s' v did = Some None)"
proof -
  let ?B = "others (on_vol s (v_vid v)) A"
  obtain s' where s': "dircache_purge_vol s v = Some s'" "cache_ok s' ?B" "curdir s' = purged_curdir s (v_vid v) A"
    "keeps_dirs (dirs s) (dirs s')"
    using purge_cache_ok[OF assms] by metis
  have none: "d_vid (dir_at s' b) \<noteq> v_vid v" if "b \<in> entries ?B" for b
  proof -
    have "dirs s b \<noteq> None" "\<not> on_vol s (v_vid v) b"
      using that entry_dir[OF cache_okD(1)[OF assms], of b] by (auto simp: others_entries)
    then show ?thesis using on_vol_keeps[OF s'(4), of b] by (simp add: on_vol_def)
  qed
  have "vid_entry_count s' (v_vid v) = 0" using vid_count_none[OF cache_okD(1)[OF s'(2)]] none by blast
  moreover have "dircache_lookup_did s' v did = Some None" for did
  proof -
    obtain r where r: "dircache_lookup_did s' v did = Some r"
      "\<forall>a. r = Some a \<longleftrightarrow> a \<in> set (?B ARC_T1) \<union> set (?B ARC_T2) \<and> d_vid (dir_at s' a) = v_vid v \<and> d_did (dir_at s' a) = did"
      by (rule lookup_did_ok[OF s'(2), of v did])
    have "r \<noteq> Some a" for a using r(2) none[of a] entriesI[of a ?B ARC_T1] entriesI[of a ?B ARC_T2] by blast
    then show ?thesis using r(1) by (cases r) auto
  qed
  ultimately show ?thesis using s'(1-3) by simp
qed

theorem dircache_purge_vol_complete_witness:
  "\<exists>s s'. dircache_add tiny_cache tiny_vol 1 = Some (0, s) \<and> vid_entry_count s 1 = 1 \<and>
     dircache_purge_vol s tiny_vol = Some s' \<and> vid_entry_count s' 1 = 0"
proof -
  let ?A = "(\<lambda>_. [])(ARC_T1 := [1])"
  obtain s where s: "dircache_add tiny_cache tiny_vol 1 = Some (0, s)" "tiny_state s ?A 0 ({..<10} - {1})"
    using tiny_one by blast
  have ok: "cache_ok s ?A" "same_keys (tiny_dir 1) (dir_at s 1)" using s(2) by (auto simp: tiny_state_def entries_def)
  have "{a \<in> entries ?A. d_vid (dir_at s a) = 1} = {1}" using ok(2) by (auto simp: entries_def same_keys_def)
  then have "vid_entry_count s 1 = 1"
    using vid_count[OF cache_okD(1)[OF ok(1)], of 1] by (simp del: deref.simps)
  then show ?thesis using dircache_purge_vol_complete[OF ok(1), of tiny_vol] s(1) by (auto simp: tiny_vol_def)
qed

subsection \<open>Start-up\<close>

text \<open>
  C10: when the allocations succeed, \<open>dircache_init\<close> in ARC mode returns 0 and establishes the
  invariant on an empty cache whose capacity is the configured size.
\<close>

theorem dircache_init_establishes:
  assumes "cold s" "\<And>n. al_ok (qalloc (qh s)) n" "\<And>n. al_ok al1 n" "\<And>n. al_ok al2 n" "dircache_mode opts = 1"
  shows "\<exists>s'. dircache_init s (Some opts) req al1 al2 = Some (0, s') \<and> cache_ok s' (\<lambda>_. []) \<and>
    arc_c (arc s') = dircache_resolve_size req \<and> allocs_ok s' \<and>
    (\<forall>vol did. dircache_lookup_did s' vol did = Some None)"
proof -
  obtain s' where s': "dircache_init s (Some opts) req al1 al2 = Some (0, s')" "cache_ok s' (\<lambda>_. [])"
    "arc_c (arc s') = dircache_resolve_size req" "allocs_ok s'"
    using dircache_init_ok[OF assms] by metis
  have "dircache_lookup_did s' vol did = Some None" for vol did
  proof -
    obtain r where "dircache_lookup_did s' vol did = Some r" "\<And>a. r \<noteq> Some a"
      using lookup_did_ok[OF s'(2), of vol did] by (metis UnE empty_iff empty_set)
    then show ?thesis by (cases r) auto
  qed
  then show ?thesis using s' by blast
qed

definition cold_cache :: dcache where
  "cold_cache = tiny_cache\<lparr>arc := zero_arc, qh := \<lparr>qcells = Map.empty, qalloc = sample_alloc\<rparr>, invalid_dircache_entries := None\<rparr>"

theorem dircache_init_establishes_witness:
  "\<exists>s'. dircache_init cold_cache (Some \<lparr>dircache_mode = 1, dircache_validation_freq = 1, dircache_rfork_budget = 0,
       dircache_rfork_maxentry = 0\<rparr>) 1500 sample_alloc sample_alloc = Some (0, s') \<and>
     cache_ok s' (\<lambda>_. []) \<and> arc_c (arc s') = 2048"
proof -
  have "qwf \<lparr>qcells = Map.empty, qalloc = sample_alloc\<rparr> Map.empty" by (simp add: qwf_def)
  then have c: "cold cold_cache"
    unfolding cold_def by (auto simp: cold_cache_def tiny_cache_def split: if_splits)
  have d: "dircache_resolve_size 1500 = 2048"
    by (simp add: dircache_resolve_size_def MIN_DIRCACHE_SIZE_def MAX_DIRCACHE_SIZE_def double_to.simps)
  show ?thesis
    using dircache_init_establishes[OF c, of sample_alloc sample_alloc
        "\<lparr>dircache_mode = 1, dircache_validation_freq = 1, dircache_rfork_budget = 0, dircache_rfork_maxentry = 0\<rparr>" 1500]
    by (auto simp: d cold_cache_def sample_alloc_def)
qed

subsection \<open>The documented bound of the ghost lists\<close>

text \<open>
  C11: the ghost lists can hold more than \<open>c\<close> entries although \<open>arc_verify_invariants\<close> asserts
  that they never do. With B1 empty and B2 at capacity, and one resident entry short of a full
  cache, an addition evicts the entry of T1 to B1, and \<open>arc_ensure_ghost_capacity\<close>, which only
  looks at the list that receives the ghost, trims nothing.
\<close>

theorem ghost_lists_exceed_capacity:
  assumes ok: "cache_ok s A" "\<not> dc_debug s" "allocs_ok s" and d: "dirs s a = Some d" "fresh_entry d"
    and nc: "\<And>b. b \<in> entries A \<Longrightarrow> \<not> collides s d b"
    and A: "A ARC_T1 = [y]" "A ARC_B1 = []" "length (A ARC_B2) = arc_c (arc s)" "length (A ARC_T2) + 2 = arc_c (arc s)"
    and p: "arc_p (arc s) = 0" "curdir s \<noteq> Some y"
  shows "arc_invariants_hold s \<and> (\<exists>s'. dircache_add s vol a = Some (0, s') \<and> \<not> arc_invariants_hold s' \<and>
    b1_size (arc s') + b2_size (arc s') = arc_c (arc s') + 1)"
proof -
  let ?c = "arc_c (arc s)"
  note c = cache_okD[OF ok(1)]
  have sz: "t1_size (arc x) = length (B ARC_T1)" "t2_size (arc x) = length (B ARC_T2)"
    "b1_size (arc x) = length (B ARC_B1)" "b2_size (arc x) = length (B ARC_B2)" if "cache_ok x B" for x B
    using drep_parts(2)[OF cache_okD(1)[OF that], of ARC_T1] drep_parts(2)[OF cache_okD(1)[OF that], of ARC_T2]
      drep_parts(2)[OF cache_okD(1)[OF that], of ARC_B1] drep_parts(2)[OF cache_okD(1)[OF that], of ARC_B2]
    by (simp_all add: csize_def)
  have before: "arc_invariants_hold s"
    using A p c sz[OF ok(1)] by (simp add: arc_invariants_hold_def Let_def)
  have oth: "others (collides s d) A = A" "\<not> takes_curdir s d A"
    using others_none[of A "collides s d"] nc by (auto simp: takes_curdir_def)
  let ?B = "spec_add ?c 0 (curdir s) a A"
  have B: "?B ARC_B1 = [y]" "?B ARC_B2 = A ARC_B2"
    using A p by (auto simp: spec_add_def spec_make_room_def replaced_def spec_replace_def spec_victim_def spec_evict_def
        spec_trim_def trim_cand_def move_def Let_def)
  obtain s' where s': "dircache_add s vol a = Some (0, s')" "env s' = env (s\<lparr>curdir := added_curdir s vol a d A\<rparr>)" "cache_ok s' ?B"
    using dircache_add_ok[OF ok d, of vol] oth p by simp metis
  have "arc_c (arc s') = ?c" using env_eqD(10)[OF s'(2)] by simp
  moreover have "b1_size (arc s') + b2_size (arc s') = ?c + 1" using sz[OF s'(3)] B A by simp
  moreover have "arc_promoting_ghost s' = None" using cache_okD(4)[OF s'(3)] .
  ultimately show ?thesis using before s'(1) by (auto simp: arc_invariants_hold_def Let_def)
qed

theorem ghost_lists_exceed_capacity_witness:
  "\<exists>s s'. arc_invariants_hold s \<and> dircache_add s tiny_vol 6 = Some (0, s') \<and> \<not> arc_invariants_hold s' \<and>
     b1_size (arc s') + b2_size (arc s') = arc_c (arc s') + 1"
proof -
  note sp = spec_add_def spec_make_room_def replaced_def spec_replace_def spec_victim_def spec_evict_def
    spec_trim_def trim_cand_def move_def Let_def
  let ?L = "\<lambda>t2 b2. (\<lambda>_. [] :: addr list)(ARC_T2 := t2, ARC_B2 := b2)" and ?F = "{..<10::nat}"
  have "?L [] [] = (\<lambda>_. [])" by auto
  then have s0: "tiny_state tiny_cache (?L [] []) 0 ?F" using tiny_start by simp
  have st: "\<exists>s'. tiny_state s' (?L (t2 @ [n]) b2) 0 (F - {n})"
    if "tiny_state s (?L u v) 0 F" "n \<in> F" "spec_add 2 0 None n (?L u v) = (\<lambda>_. [])(ARC_T1 := [n], ARC_T2 := t2, ARC_B2 := b2)"
    for s u v F n t2 b2
    using tiny_add_promote[OF that(1,2) _ _ _ that(3)] by simp metis
  have e1: "spec_add 2 0 None 1 (?L [] []) = (\<lambda>_. [])(ARC_T1 := [1], ARC_T2 := [], ARC_B2 := [])" by (auto simp: sp fun_eq_iff)
  obtain s1 where s1: "tiny_state s1 (?L ([] @ [1]) []) 0 (?F - {1})" using st[OF s0 _ e1] by auto
  have e2: "spec_add 2 0 None 2 (?L ([] @ [1]) []) = (\<lambda>_. [])(ARC_T1 := [2], ARC_T2 := [1], ARC_B2 := [])" by (auto simp: sp fun_eq_iff)
  obtain s2 where s2: "tiny_state s2 (?L ([1] @ [2]) []) 0 (?F - {1} - {2})" using st[OF s1 _ e2] by auto
  have e3: "spec_add 2 0 None 3 (?L ([1] @ [2]) []) = (\<lambda>_. [])(ARC_T1 := [3], ARC_T2 := [2], ARC_B2 := [1])" by (auto simp: sp fun_eq_iff)
  obtain s3 where s3: "tiny_state s3 (?L ([2] @ [3]) [1]) 0 (?F - {1} - {2} - {3})" using st[OF s2 _ e3] by auto
  have e4: "spec_add 2 0 None 4 (?L ([2] @ [3]) [1]) = (\<lambda>_. [])(ARC_T1 := [4], ARC_T2 := [3], ARC_B2 := [1, 2])" by (auto simp: sp fun_eq_iff)
  obtain s4 where s4: "tiny_state s4 (?L ([3] @ [4]) [1, 2]) 0 (?F - {1} - {2} - {3} - {4})" using st[OF s3 _ e4] by auto
  have e5: "spec_add 2 0 None 5 (?L ([3] @ [4]) [1, 2]) = (\<lambda>_. [])(ARC_T1 := [5], ARC_T2 := [4], ARC_B2 := [2, 3])"
    by (auto simp: sp fun_eq_iff)
  let ?F5 = "?F - {1} - {2} - {3} - {4} - {5}"
  have five: "5 \<in> ?F - {1} - {2} - {3} - {4}" by simp
  obtain s5 where "tiny_state s5 (spec_add 2 0 None 5 (?L ([3] @ [4]) [1, 2])) 0 ?F5"
    by (rule tiny_add[OF s4 five, of tiny_vol])
  note s5 = this[unfolded e5]
  let ?A = "(\<lambda>_. [])(ARC_T1 := [5], ARC_B2 := [2, 3])" and ?A5 = "(\<lambda>_. [])(ARC_T1 := [5], ARC_T2 := [4], ARC_B2 := [2, 3])"
  have e6: "?A5(ARC_T2 := remove1 4 (?A5 ARC_T2)) = ?A" by auto
  have four: "4 \<in> set (?A5 ARC_T2)" by simp
  obtain s6 where "tiny_state s6 (?A5(ARC_T2 := remove1 4 (?A5 ARC_T2))) 0 ?F5"
    by (rule tiny_remove[OF s5 four])
  note s6 = this[unfolded e6]
  have t: "cache_ok s6 ?A" "\<not> dc_debug s6" "allocs_ok s6" "arc_c (arc s6) = 2" "arc_p (arc s6) = 0" "curdir s6 = None"
    "dirs s6 6 = Some (tiny_dir 6)" and E: "\<And>b. b \<in> entries ?A \<Longrightarrow> b < 10 \<and> same_keys (tiny_dir b) (dir_at s6 b)"
    using s6 by (simp_all add: tiny_state_def)
  have nc: "\<not> collides s6 (tiny_dir 6) b" if "b \<in> entries ?A" for b
  proof
    assume "collides s6 (tiny_dir 6) b"
    then have "d_did (tiny_dir b) = d_did (tiny_dir 6) \<or> d_u_name (tiny_dir b) = d_u_name (tiny_dir 6)"
      using E[OF that] by (auto simp: collides_def same_keys_def hash_comp_vid_did_def hash_comp_didname_def)
    then have "b = 6" using tiny_keys[of b 6] E[OF that] by simp
    then show False using that by (auto simp: entries_def split: if_splits)
  qed
  have "arc_invariants_hold s6 \<and> (\<exists>s'. dircache_add s6 tiny_vol 6 = Some (0, s') \<and> \<not> arc_invariants_hold s' \<and>
    b1_size (arc s') + b2_size (arc s') = arc_c (arc s') + 1)"
    by (rule ghost_lists_exceed_capacity[OF t(1-3,7) tiny_fresh nc]) (use t in auto)
  then show ?thesis by blast
qed

end
