(* ===== verification/Byte_Arith.thy ===== *)
theory Byte_Arith
  imports Netatalk_Prelude
begin

text \<open>
  Masks, shifts and disjoint unions of machine words read as division, remainder and sum of
  natural numbers: the codecs of the development are proved with these facts.
\<close>

named_theorems unat_masks \<open>a masked or shifted word as a natural number\<close>

lemma unat_less_byte [simp]: "unat (b :: byte) < 256"
  by (rule order_less_le_trans[OF unsigned_less]) simp

lemma unat_high_mask:
  fixes b :: "'a::len word"
  assumes "k \<le> LENGTH('a)" "m = push_bit k (mask (LENGTH('a) - k))"
  shows "unat (b AND m) = unat b div 2 ^ k * 2 ^ k"
proof -
  have "b AND m = push_bit k (drop_bit k b)"
    unfolding assms(2) by (rule bit_word_eqI) (use assms(1) in \<open>auto simp: bit_simps\<close>)
  then have "unat (b AND m) = take_bit LENGTH('a) (unat b div 2 ^ k * 2 ^ k)"
    unfolding unsigned_push_bit_eq unsigned_drop_bit_eq \<open>b AND m = push_bit k (drop_bit k b)\<close>
    by (simp only: push_bit_eq_mult drop_bit_eq_div take_bit_nat_eq_self[OF unsigned_less])
  moreover have "unat b div 2 ^ k * 2 ^ k \<le> unat b" by (simp add: div_times_less_eq_dividend)
  then have "unat b div 2 ^ k * 2 ^ k < 2 ^ LENGTH('a)" by (rule order_le_less_trans[OF _ unsigned_less])
  ultimately show ?thesis by (simp add: take_bit_nat_eq_self)
qed

lemma unat_low_mask:
  fixes b :: "'a::len word"
  assumes "m = mask k"
  shows "unat (b AND m) = unat b mod 2 ^ k"
proof -
  have "unat (b AND m) = take_bit k (unat b)" unfolding assms take_bit_eq_mask[symmetric] by (simp only: unsigned_take_bit_eq)
  then show ?thesis by (simp only: take_bit_eq_mod)
qed

lemma byte_masks [unat_masks]:
  fixes b :: byte
  shows "unat (b AND 0x80) = unat b div 128 * 128" "unat (b AND 0xc0) = unat b div 64 * 64"
    "unat (b AND 0xe0) = unat b div 32 * 32" "unat (b AND 0xf0) = unat b div 16 * 16"
    "unat (b AND 0xf8) = unat b div 8 * 8" "unat (b AND 0xfe) = unat b div 2 * 2"
    "unat (b AND 0x3f) = unat b mod 64" "unat (b AND 0x1f) = unat b mod 32"
    "unat (b AND 0x0f) = unat b mod 16" "unat (b AND 0x07) = unat b mod 8"
proof -
  have h: "unat (b AND m) = unat b div 2 ^ k * 2 ^ k" if "k \<le> 8" "m = push_bit k (mask (8 - k))" for k m
    using unat_high_mask[of k m b] that by simp
  show "unat (b AND 0x80) = unat b div 128 * 128" using h[of 7 "0x80"] by (simp add: mask_eq_exp_minus_1 push_bit_eq_mult)
  show "unat (b AND 0xc0) = unat b div 64 * 64" using h[of 6 "0xc0"] by (simp add: mask_eq_exp_minus_1 push_bit_eq_mult)
  show "unat (b AND 0xe0) = unat b div 32 * 32" using h[of 5 "0xe0"] by (simp add: mask_eq_exp_minus_1 push_bit_eq_mult)
  show "unat (b AND 0xf0) = unat b div 16 * 16" using h[of 4 "0xf0"] by (simp add: mask_eq_exp_minus_1 push_bit_eq_mult)
  show "unat (b AND 0xf8) = unat b div 8 * 8" using h[of 3 "0xf8"] by (simp add: mask_eq_exp_minus_1 push_bit_eq_mult)
  show "unat (b AND 0xfe) = unat b div 2 * 2" using h[of 1 "0xfe"] by (simp add: mask_eq_exp_minus_1 push_bit_eq_mult)
  show "unat (b AND 0x3f) = unat b mod 64" using unat_low_mask[of "0x3f" 6 b] by (simp add: mask_eq_exp_minus_1)
  show "unat (b AND 0x1f) = unat b mod 32" using unat_low_mask[of "0x1f" 5 b] by (simp add: mask_eq_exp_minus_1)
  show "unat (b AND 0x0f) = unat b mod 16" using unat_low_mask[of "0x0f" 4 b] by (simp add: mask_eq_exp_minus_1)
  show "unat (b AND 0x07) = unat b mod 8" using unat_low_mask[of "0x07" 3 b] by (simp add: mask_eq_exp_minus_1)
qed

lemma unat_or_add:
  fixes x y :: "'a::len word"
  assumes "unat x mod 2 ^ k = 0" "unat y < 2 ^ k"
  shows "unat (x OR y) = unat x + unat y"
proof -
  have x: "take_bit k (unat x) = 0" and y: "take_bit k (unat y) = unat y"
    using assms by (simp_all add: take_bit_eq_mod take_bit_nat_eq_self)
  have "unat x AND unat y = 0"
  proof (rule bit_eqI)
    fix n
    have "bit (unat y) n \<Longrightarrow> n < k" using y by (metis bit_take_bit_iff)
    moreover have "n < k \<Longrightarrow> \<not> bit (unat x) n" using x by (metis bit_0_eq bit_take_bit_iff bot_apply bot_bool_def)
    ultimately show "bit (unat x AND unat y) n = bit 0 n" by (auto simp: bit_and_iff)
  qed
  then show ?thesis by (simp add: unsigned_or_eq disjunctive_add_eq_or)
qed

end
