(* ===== verification/Utf8.thy ===== *)
theory Utf8
  imports Byte_Arith
begin

text \<open>
  The UTF-8 charset of \<open>libatalk/unicode/utf8.c\<close>: \<open>utf8_pull\<close> decodes UTF-8 to UTF-16 and
  \<open>utf8_push\<close> encodes it. A call gets the input bytes and the free space of the output buffer
  and returns the error, if any, with the rest of the input, the bytes written so far and the
  space left. UTF-16 units are stored as \<open>SSVAL\<close> stores them on a little-endian host.
\<close>

datatype conv_error = E2BIG | EILSEQ | EINVAL

type_synonym ucs2 = "16 word"
type_synonym conv_result = "conv_error option \<times> bytes \<times> bytes \<times> nat"

definition SSVAL :: "ucs2 \<Rightarrow> bytes" where
  "SSVAL v = [ucast (v AND 0xFF), ucast (drop_bit 8 v)]"

definition SVAL :: "byte \<Rightarrow> byte \<Rightarrow> ucs2" where
  "SVAL b0 b1 = ucast b0 OR push_bit 8 (ucast b1)"

definition GETUCVAL :: "byte \<Rightarrow> nat \<Rightarrow> 32 word" where
  "GETUCVAL b shift = push_bit shift (ucast (b AND 0x3F))"

definition GETUTF8TRAILBYTE :: "32 word \<Rightarrow> nat \<Rightarrow> byte" where
  "GETUTF8TRAILBYTE uc shift = ucast (0x80 OR (drop_bit shift uc AND 0x3F))"

subsection \<open>Decoding\<close>

text \<open>
  One turn of the loop of \<open>utf8_pull\<close>, whose guard is \<open>inbytesleft >= 1\<close> and
  \<open>outbytesleft >= 2\<close>: the units to store and the input that is left, or the error.
\<close>

definition pull_char :: "bytes \<Rightarrow> nat \<Rightarrow> conv_error + ucs2 list \<times> bytes" where
  "pull_char c outbytesleft =
     (if c ! 0 AND 0x80 = 0 then Inr ([ucast (c ! 0)], drop 1 c)
      else if c ! 0 AND 0xe0 = 0xc0 then
        (if length c < 2 then Inl EINVAL
         else if c ! 0 < 0xc2 then Inl EILSEQ
         else if c ! 1 AND 0xc0 \<noteq> 0x80 then Inl EILSEQ
         else Inr ([ucast (push_bit 6 (ucast (c ! 0 AND 0x1f)) OR GETUCVAL (c ! 1) 0)], drop 2 c))
      else if c ! 0 AND 0xf0 = 0xe0 then
        (if length c < 3 then Inl EINVAL
         else if \<not> (c ! 0 = 0xe0 \<and> c ! 1 AND 0xe0 = 0xa0 \<or>
                    0xe1 \<le> c ! 0 \<and> c ! 0 \<le> 0xec \<and> c ! 1 AND 0xc0 = 0x80 \<or>
                    c ! 0 = 0xed \<and> c ! 1 AND 0xe0 = 0x80 \<or>
                    c ! 0 AND 0xfe = 0xee \<and> c ! 1 AND 0xc0 = 0x80) then Inl EILSEQ
         else if c ! 2 AND 0xc0 \<noteq> 0x80 then Inl EILSEQ
         else Inr ([ucast (push_bit 12 (ucast (c ! 0 AND 0x0f)) OR GETUCVAL (c ! 1) 6 OR GETUCVAL (c ! 2) 0)],
                   drop 3 c))
      else if c ! 0 AND 0xf8 = 0xf0 then
        (if length c < 4 then Inl EINVAL
         else if outbytesleft < 4 then Inl E2BIG
         else if c ! 0 > 0xf4 then Inl EILSEQ
         else if \<not> (c ! 0 = 0xf0 \<and> 0x90 \<le> c ! 1 \<and> c ! 1 \<le> 0xbf \<or>
                    0xf1 \<le> c ! 0 \<and> c ! 0 \<le> 0xf3 \<and> c ! 1 AND 0xc0 = 0x80 \<or>
                    c ! 0 = 0xf4 \<and> c ! 1 AND 0xc0 = 0x80) then Inl EILSEQ
         else if c ! 2 AND 0xc0 \<noteq> 0x80 then Inl EILSEQ
         else if c ! 3 AND 0xc0 \<noteq> 0x80 then Inl EILSEQ
         else
           (let codepoint = push_bit 18 (ucast (c ! 0 AND 0x07)) OR GETUCVAL (c ! 1) 12 OR
                            GETUCVAL (c ! 2) 6 OR GETUCVAL (c ! 3) 0
            in Inr ([ucast (drop_bit 10 (codepoint - 0x10000) + 0xD800),
                     ucast (0xDC00 + (codepoint AND 0x03FF))], drop 4 c)))
      else Inl EILSEQ)"

lemma pull_char_shrinks: "pull_char c n = Inr (us, c') \<Longrightarrow> c \<noteq> [] \<Longrightarrow> length c' < length c"
  by (auto simp: pull_char_def Let_def split: if_splits)

function utf8_pull :: "bytes \<Rightarrow> nat \<Rightarrow> bytes \<Rightarrow> conv_result" where
  "utf8_pull inbuf outbytesleft out =
     (if inbuf \<noteq> [] \<and> outbytesleft \<ge> 2 then
        (case pull_char inbuf outbytesleft of
           Inl e \<Rightarrow> (Some e, inbuf, out, outbytesleft)
         | Inr (us, rest) \<Rightarrow>
             utf8_pull rest (outbytesleft - 2 * length us) (out @ concat (map SSVAL us)))
      else (if inbuf \<noteq> [] then Some E2BIG else None, inbuf, out, outbytesleft))"
  by pat_completeness auto
termination by (relation "measure (\<lambda>(inbuf, _). length inbuf)") (auto dest: pull_char_shrinks)

declare utf8_pull.simps [simp del]

subsection \<open>Encoding\<close>

text \<open>
  One turn of the loop of \<open>utf8_push\<close>, with the guard \<open>inbytesleft >= 2\<close> and
  \<open>outbytesleft >= 1\<close>: the bytes to store and the number of input bytes consumed.
\<close>

definition push_char :: "bytes \<Rightarrow> nat \<Rightarrow> conv_error + bytes \<times> nat" where
  "push_char inbuf outbytesleft =
     (let uc = SVAL (inbuf ! 0) (inbuf ! 1) in
      if uc < 0x80 then Inr ([ucast uc], 2)
      else if uc < 0x800 then
        (if outbytesleft < 2 then Inl E2BIG
         else Inr ([ucast (0xc0 OR (drop_bit 6 uc AND 0x1f)), GETUTF8TRAILBYTE (ucast uc) 0], 2))
      else if uc \<ge> 0x202a \<and> uc \<le> 0x202e then Inr ([], 2)
      else if 0xd800 \<le> uc \<and> uc \<le> 0xdfff then
        (if outbytesleft < 4 then Inl E2BIG
         else if length inbuf < 4 then Inl EINVAL
         else
           (let hi = SVAL (inbuf ! 0) (inbuf ! 1); low = SVAL (inbuf ! 2) (inbuf ! 3) in
            if 0xd800 \<le> hi \<and> hi \<le> 0xdbff \<and> 0xdc00 \<le> low \<and> low \<le> 0xdfff then
              (let codepoint = push_bit 10 (ucast hi - 0xd800) + (ucast low - 0xdc00) + 0x10000
               in Inr ([ucast (0xf0 OR (drop_bit 18 codepoint AND 0x07)), GETUTF8TRAILBYTE codepoint 12,
                        GETUTF8TRAILBYTE codepoint 6, GETUTF8TRAILBYTE codepoint 0], 4))
            else Inl EINVAL))
      else
        (if outbytesleft < 3 then Inl E2BIG
         else Inr ([ucast (0xe0 OR (drop_bit 12 uc AND 0x0f)), GETUTF8TRAILBYTE (ucast uc) 6,
                    GETUTF8TRAILBYTE (ucast uc) 0], 2)))"

lemma push_char_consumes: "push_char c n = Inr (bs, k) \<Longrightarrow> 0 < k"
  by (auto simp: push_char_def Let_def split: if_splits)

function utf8_push :: "bytes \<Rightarrow> nat \<Rightarrow> bytes \<Rightarrow> conv_result" where
  "utf8_push inbuf outbytesleft out =
     (if length inbuf \<ge> 2 \<and> outbytesleft \<ge> 1 then
        (case push_char inbuf outbytesleft of
           Inl e \<Rightarrow> (Some e, inbuf, out, outbytesleft)
         | Inr (bs, ilen) \<Rightarrow> utf8_push (drop ilen inbuf) (outbytesleft - length bs) (out @ bs))
      else (if length inbuf = 1 then Some EINVAL else if length inbuf > 1 then Some E2BIG else None,
            inbuf, out, outbytesleft))"
  by pat_completeness auto
termination
  by (relation "measure (\<lambda>(inbuf, _). length inbuf)") (auto dest!: push_char_consumes)

declare utf8_push.simps [simp del]

subsection \<open>Reference encodings of a code point\<close>

definition utf8_of :: "nat \<Rightarrow> bytes" where
  "utf8_of cp =
     (if cp < 0x80 then [of_nat cp]
      else if cp < 0x800 then [of_nat (0xC0 + cp div 64), of_nat (0x80 + cp mod 64)]
      else if cp < 0x10000 then
        [of_nat (0xE0 + cp div 4096), of_nat (0x80 + cp div 64 mod 64), of_nat (0x80 + cp mod 64)]
      else
        [of_nat (0xF0 + cp div 262144), of_nat (0x80 + cp div 4096 mod 64),
         of_nat (0x80 + cp div 64 mod 64), of_nat (0x80 + cp mod 64)])"

definition utf16_of :: "nat \<Rightarrow> ucs2 list" where
  "utf16_of cp =
     (if cp < 0x10000 then [of_nat cp]
      else [of_nat (0xD800 + (cp - 0x10000) div 1024), of_nat (0xDC00 + cp mod 1024)])"

text \<open>The code points of Unicode, and those that \<open>utf8_pull\<close> lets through.\<close>

definition unicode :: "nat \<Rightarrow> bool" where
  "unicode cp \<longleftrightarrow> cp < 0xD800 \<or> 0xE000 \<le> cp \<and> cp \<le> 0x10FFFF"

definition pulled :: "nat \<Rightarrow> bool" where
  "pulled cp \<longleftrightarrow> cp < 0xD800 \<or> 0xE000 \<le> cp \<and> cp < 0x140000"

lemma byte_classes:
  fixes b :: byte
  shows "b AND 0x80 = 0 \<longleftrightarrow> unat b < 128" "b AND 0xe0 = 0xc0 \<longleftrightarrow> 192 \<le> unat b \<and> unat b < 224"
    "b AND 0xf0 = 0xe0 \<longleftrightarrow> 224 \<le> unat b \<and> unat b < 240" "b AND 0xf8 = 0xf0 \<longleftrightarrow> 240 \<le> unat b \<and> unat b < 248"
    "b AND 0xc0 = 0x80 \<longleftrightarrow> 128 \<le> unat b \<and> unat b < 192" "b AND 0xe0 = 0xa0 \<longleftrightarrow> 160 \<le> unat b \<and> unat b < 192"
    "b AND 0xe0 = 0x80 \<longleftrightarrow> 128 \<le> unat b \<and> unat b < 160" "b AND 0xfe = 0xee \<longleftrightarrow> 238 \<le> unat b \<and> unat b < 240"
proof -
  have d: "n div k * k = q * k \<longleftrightarrow> q * k \<le> n \<and> n < q * k + k" if "0 < k" for n k q :: nat
  proof -
    have "n div k * k = q * k \<longleftrightarrow> q \<le> n div k \<and> n div k < Suc q" using that by auto
    then show ?thesis using that by (simp only: less_eq_div_iff_mult_less_eq div_less_iff_less_mult mult_Suc add.commute)
  qed
  show "b AND 0x80 = 0 \<longleftrightarrow> unat b < 128" unfolding word_unat_eq_iff byte_masks using d[of 128 "unat b" 0] by simp
  show "b AND 0xe0 = 0xc0 \<longleftrightarrow> 192 \<le> unat b \<and> unat b < 224" unfolding word_unat_eq_iff byte_masks using d[of 32 "unat b" 6] by simp
  show "b AND 0xf0 = 0xe0 \<longleftrightarrow> 224 \<le> unat b \<and> unat b < 240" unfolding word_unat_eq_iff byte_masks using d[of 16 "unat b" 14] by simp
  show "b AND 0xf8 = 0xf0 \<longleftrightarrow> 240 \<le> unat b \<and> unat b < 248" unfolding word_unat_eq_iff byte_masks using d[of 8 "unat b" 30] by simp
  show "b AND 0xc0 = 0x80 \<longleftrightarrow> 128 \<le> unat b \<and> unat b < 192" unfolding word_unat_eq_iff byte_masks using d[of 64 "unat b" 2] by simp
  show "b AND 0xe0 = 0xa0 \<longleftrightarrow> 160 \<le> unat b \<and> unat b < 192" unfolding word_unat_eq_iff byte_masks using d[of 32 "unat b" 5] by simp
  show "b AND 0xe0 = 0x80 \<longleftrightarrow> 128 \<le> unat b \<and> unat b < 160" unfolding word_unat_eq_iff byte_masks using d[of 32 "unat b" 4] by simp
  show "b AND 0xfe = 0xee \<longleftrightarrow> 238 \<le> unat b \<and> unat b < 240" unfolding word_unat_eq_iff byte_masks using d[of 2 "unat b" 119] by simp
qed

lemma unat_push_byte:
  assumes "k \<le> 24"
  shows "unat (push_bit k (ucast (b :: byte)) :: 32 word) = unat b * 2 ^ k"
proof -
  have "unat b * 2 ^ k < 2 ^ 8 * 2 ^ k" using unat_less_byte[of b] by simp
  also have "\<dots> \<le> 2 ^ 8 * (2 ^ 24 :: nat)" using assms power_increasing[of k 24 "2::nat"] by simp
  finally have "unat b * 2 ^ k < 2 ^ 32" by simp
  moreover have "take_bit 32 (unat b) = unat b" by (intro take_bit_nat_eq_self less_trans[OF unat_less_byte]) simp
  ultimately show ?thesis unfolding unsigned_push_bit_eq unsigned_ucast_eq by (simp add: push_bit_nat_def take_bit_nat_eq_self)
qed

lemma byte_order:
  fixes b :: byte
  shows "b < 0xc2 \<longleftrightarrow> unat b < 194" "0xe1 \<le> b \<longleftrightarrow> 225 \<le> unat b" "b \<le> 0xec \<longleftrightarrow> unat b \<le> 236"
    "b > 0xf4 \<longleftrightarrow> unat b > 244" "0x90 \<le> b \<longleftrightarrow> 144 \<le> unat b" "b \<le> 0xbf \<longleftrightarrow> unat b \<le> 191"
    "0xf1 \<le> b \<longleftrightarrow> 241 \<le> unat b" "b \<le> 0xf3 \<longleftrightarrow> unat b \<le> 243" "b = 0xe0 \<longleftrightarrow> unat b = 224"
    "b = 0xed \<longleftrightarrow> unat b = 237" "b = 0xf0 \<longleftrightarrow> unat b = 240" "b = 0xf4 \<longleftrightarrow> unat b = 244"
  by (simp_all add: word_less_nat_alt word_le_nat_alt word_unat_eq_iff)

lemmas byte_conds = byte_classes byte_order

definition second3 :: "nat \<Rightarrow> nat \<Rightarrow> bool" where
  "second3 x y \<longleftrightarrow> 128 \<le> y \<and> y < 192 \<and> (x = 224 \<longrightarrow> 160 \<le> y) \<and> (x = 237 \<longrightarrow> y < 160)"

definition second4 :: "nat \<Rightarrow> nat \<Rightarrow> bool" where
  "second4 x y \<longleftrightarrow> 128 \<le> y \<and> y < 192 \<and> (x = 240 \<longrightarrow> 144 \<le> y)"

text \<open>The values that the decoder assembles.\<close>

lemma unat_ucval: "k \<le> 24 \<Longrightarrow> unat (GETUCVAL b k) = (unat b mod 64) * 2 ^ k"
  unfolding GETUCVAL_def using unat_push_byte[of k "b AND 0x3F"] by (simp add: byte_masks)

lemma assemble2: "unat (push_bit 6 (ucast ((x :: byte) AND 0x1f)) OR GETUCVAL y 0) = unat x mod 32 * 64 + unat y mod 64"
  using unat_or_add[of "push_bit 6 (ucast (x AND 0x1f))" 6 "GETUCVAL y 0"]
  by (simp add: unat_push_byte unat_ucval byte_masks)

lemma assemble_low2: "unat (GETUCVAL y 6 OR GETUCVAL z 0) = unat y mod 64 * 64 + unat z mod 64"
  using unat_or_add[of "GETUCVAL y 6" 6 "GETUCVAL z 0"] by (simp add: unat_ucval)

lemma low2_less: "(a mod 64) * 64 + b mod 64 < (4096 :: nat)"
proof -
  have "a mod 64 < 64" "b mod 64 < 64" by simp_all
  then show ?thesis by linarith
qed

lemma assemble3:
  "unat (push_bit 12 (ucast ((x :: byte) AND 0x0f)) OR GETUCVAL y 6 OR GETUCVAL z 0) =
   unat x mod 16 * 4096 + (unat y mod 64 * 64 + unat z mod 64)"
  using unat_or_add[of "push_bit 12 (ucast (x AND 0x0f))" 12 "GETUCVAL y 6 OR GETUCVAL z 0"]
  by (simp add: unat_push_byte byte_masks assemble_low2 low2_less)

lemma assemble4:
  "unat (push_bit 18 (ucast ((x :: byte) AND 0x07)) OR GETUCVAL y 12 OR GETUCVAL z 6 OR GETUCVAL w 0) =
   unat x mod 8 * 262144 + (unat y mod 64 * 4096 + (unat z mod 64 * 64 + unat w mod 64))"
proof -
  have l: "unat y mod 64 < 64" by simp
  have 1: "unat (GETUCVAL y 12 OR GETUCVAL z 6 OR GETUCVAL w 0) = unat y mod 64 * 4096 + (unat z mod 64 * 64 + unat w mod 64)"
    using unat_or_add[of "GETUCVAL y 12" 12 "GETUCVAL z 6 OR GETUCVAL w 0"]
    by (simp add: unat_ucval assemble_low2 low2_less)
  moreover have "unat y mod 64 * 4096 + (unat z mod 64 * 64 + unat w mod 64) < 262144"
    using l low2_less[of "unat z" "unat w"] by linarith
  ultimately show ?thesis
    using unat_or_add[of "push_bit 18 (ucast (x AND 0x07))" 18 "GETUCVAL y 12 OR GETUCVAL z 6 OR GETUCVAL w 0"]
    by (simp add: unat_push_byte byte_masks)
qed

lemma ucast_of_unat: "unat (w :: 32 word) = n \<Longrightarrow> (ucast w :: ucs2) = of_nat n"
  by (metis of_nat_unat)

lemma mod_sub: "k dvd m \<Longrightarrow> m \<le> n \<Longrightarrow> n < m + k \<Longrightarrow> n mod k = n - (m :: nat)"
proof -
  assume "k dvd m" and n: "m \<le> n" "n < m + k"
  then obtain j where j: "m = k * j" by (auto elim: dvdE)
  have "n mod k = (n - m + k * j) mod k" using n j by simp
  also have "\<dots> = (n - m) mod k" by (rule mod_mult_self2)
  also have "\<dots> = n - m" using n by simp
  finally show ?thesis .
qed

lemma pull_1: "unat x < 128 \<Longrightarrow> pull_char (x # r) n = Inr ([of_nat (unat x)], r)"
  by (simp add: pull_char_def byte_conds)

lemma pull_2:
  assumes "194 \<le> unat x" "unat x < 224" "128 \<le> unat y" "unat y < 192"
  shows "pull_char (x # y # r) n = Inr ([of_nat ((unat x - 192) * 64 + (unat y - 128))], r)"
proof -
  have "unat x mod 32 = unat x - 192" "unat y mod 64 = unat y - 128" using mod_sub[of 32 192 "unat x"] mod_sub[of 64 128 "unat y"] assms by simp_all
  then show ?thesis using assms ucast_of_unat[OF assemble2[of x y]] by (simp add: pull_char_def byte_conds)
qed

lemma pull_3:
  assumes "224 \<le> unat x" "unat x < 240" "second3 (unat x) (unat y)" "128 \<le> unat z" "unat z < 192"
  shows "pull_char (x # y # z # r) n =
    Inr ([of_nat ((unat x - 224) * 4096 + ((unat y - 128) * 64 + (unat z - 128)))], r)"
proof -
  have "unat x mod 16 = unat x - 224" "unat y mod 64 = unat y - 128" "unat z mod 64 = unat z - 128"
    using mod_sub[of 16 224 "unat x"] mod_sub[of 64 128 "unat y"] mod_sub[of 64 128 "unat z"] assms by (simp_all add: second3_def)
  then show ?thesis using assms ucast_of_unat[OF assemble3[of x y z]]
    by (auto simp: pull_char_def byte_classes byte_order[of x] byte_order[of y] second3_def)
qed

lemma pull_4:
  assumes "240 \<le> unat x" "unat x \<le> 244" "second4 (unat x) (unat y)" "128 \<le> unat z" "unat z < 192"
    "128 \<le> unat w" "unat w < 192" "4 \<le> n"
  defines "cp \<equiv> (unat x - 240) * 262144 + ((unat y - 128) * 4096 + ((unat z - 128) * 64 + (unat w - 128)))"
  shows "pull_char (x # y # z # w # r) n = Inr (utf16_of cp, r)"
proof -
  let ?W = "push_bit 18 (ucast (x AND 0x07)) OR GETUCVAL y 12 OR GETUCVAL z 6 OR GETUCVAL w 0 :: 32 word"
  have m: "unat x mod 8 = unat x - 240" "unat y mod 64 = unat y - 128" "unat z mod 64 = unat z - 128" "unat w mod 64 = unat w - 128"
    using mod_sub[of 8 240 "unat x"] mod_sub[of 64 128 "unat y"] mod_sub[of 64 128 "unat z"] mod_sub[of 64 128 "unat w"] assms
    by (simp_all add: second4_def)
  have W: "unat ?W = cp" using assemble4[of x y z w] unfolding m cp_def .
  have lo: "65536 \<le> cp" using assms(1,3) unfolding cp_def second4_def by (cases "unat x = 240") auto
  have hi: "cp < 1310720"
  proof -
    have "unat x - 240 \<le> 4" "unat y - 128 \<le> 63" "unat z - 128 \<le> 63" "unat w - 128 \<le> 63" using assms by (auto simp: second4_def)
    then show ?thesis unfolding cp_def by linarith
  qed
  have "0x10000 \<le> ?W" using lo W by (simp add: word_le_nat_alt)
  then have "unat (?W - 0x10000) = cp - 65536" using W by (simp add: unat_sub)
  then have d: "unat (drop_bit 10 (?W - 0x10000)) = (cp - 65536) div 1024"
    unfolding unsigned_drop_bit_eq using hi by (simp add: drop_bit_eq_div take_bit_nat_eq_self)
  have "(cp - 65536) div 1024 < 2048" using hi by (simp add: div_less_iff_less_mult)
  then have "unat (drop_bit 10 (?W - 0x10000) + 0xD800) = (cp - 65536) div 1024 + 55296"
    using unat_add_lem[of "drop_bit 10 (?W - 0x10000)" "0xD800"] d by simp
  note h = ucast_of_unat[OF this]
  have "unat (?W AND 0x03FF) = cp mod 1024" using unat_low_mask[of "0x3ff" 10 ?W] W by (simp add: mask_eq_exp_minus_1)
  then have "unat (0xDC00 + (?W AND 0x03FF)) = 56320 + cp mod 1024"
    using unat_add_lem[of "0xDC00" "?W AND 0x03FF"] by (simp add: order_less_trans[OF mod_less_divisor])
  note l = ucast_of_unat[OF this]
  have "utf16_of cp = [ucast (drop_bit 10 (?W - 0x10000) + 0xD800), ucast (0xDC00 + (?W AND 0x03FF))]"
    unfolding utf16_of_def h l using lo by (simp add: add.commute)
  then show ?thesis using assms
    by (auto simp: pull_char_def byte_classes byte_order[of x] byte_order[of y] second4_def Let_def)
qed

text \<open>The four forms of an accepted sequence, and no others.\<close>

lemma pull_char_cases:
  assumes "pull_char c n = Inr (us, rest)" "c \<noteq> []"
  obtains (one) x where "c = x # rest" "unat x < 128"
  | (two) x y where "c = x # y # rest" "194 \<le> unat x" "unat x < 224" "128 \<le> unat y" "unat y < 192"
  | (three) x y z where "c = x # y # z # rest" "224 \<le> unat x" "unat x < 240" "second3 (unat x) (unat y)"
      "128 \<le> unat z" "unat z < 192"
  | (four) x y z w where "c = x # y # z # w # rest" "240 \<le> unat x" "unat x \<le> 244" "second4 (unat x) (unat y)"
      "128 \<le> unat z" "unat z < 192" "128 \<le> unat w" "unat w < 192" "4 \<le> n"
proof -
  obtain x c1 where c: "c = x # c1" using assms(2) by (cases c) auto
  consider "unat x < 128" | "128 \<le> unat x" "unat x < 192 \<or> 248 \<le> unat x" | "192 \<le> unat x" "unat x < 224"
    | "224 \<le> unat x" "unat x < 240" | "240 \<le> unat x" "unat x < 248" by linarith
  then show ?thesis
  proof cases
    case 1
    then show ?thesis using assms(1) c one[of x] by (simp add: pull_char_def byte_classes)
  next
    case 2
    then show ?thesis using assms(1) c by (auto simp: pull_char_def byte_classes)
  next
    case 3
    then have "c1 \<noteq> []" using assms(1) c by (auto simp: pull_char_def byte_classes split: if_splits)
    then obtain y c2 where c2: "c1 = y # c2" by (cases c1) auto
    then show ?thesis using 3 assms(1) c two[of x y] by (auto simp: pull_char_def byte_classes byte_order[of x] split: if_splits)
  next
    case 4
    then have "3 \<le> length c" using assms(1) c by (auto simp: pull_char_def byte_classes split: if_splits)
    then obtain y z c2 where c2: "c1 = y # z # c2" using c by (cases c1; cases "tl c1") auto
    have "second3 (unat x) (unat y)" "128 \<le> unat z" "unat z < 192" "c2 = rest"
      using 4 assms(1) unfolding c c2 by (auto simp: pull_char_def byte_classes byte_order[of x] second3_def split: if_splits)
    then show ?thesis using 4 c c2 three[of x y z] by simp
  next
    case 5
    then have "4 \<le> length c" using assms(1) c by (auto simp: pull_char_def byte_classes split: if_splits)
    then obtain y z w c2 where c2: "c1 = y # z # w # c2" using c by (cases c1; cases "tl c1"; cases "tl (tl c1)") auto
    have "second4 (unat x) (unat y)" "128 \<le> unat z" "unat z < 192" "128 \<le> unat w" "unat w < 192" "c2 = rest" "unat x \<le> 244" "4 \<le> n"
      using 5 assms(1) unfolding c c2
      by (auto simp: pull_char_def byte_classes byte_order[of x] byte_order[of y] second4_def Let_def split: if_splits)
    then show ?thesis using 5 c c2 four[of x y z w] by simp
  qed
qed

lemma unat_byte: "n < 256 \<Longrightarrow> unat (of_nat n :: byte) = n"
  by (simp add: unat_of_nat take_bit_nat_eq_self)

lemma of_nat_byte: "n = unat b \<Longrightarrow> of_nat n = (b :: byte)"
  by simp

lemma digits3: "cp div 4096 * 4096 + (cp div 64 mod 64 * 64 + cp mod 64) = (cp :: nat)"
proof -
  have "cp div 64 div 64 = cp div 4096" by (simp add: div_mult2_eq[symmetric])
  then have "cp div 4096 * 64 + cp div 64 mod 64 = cp div 64" by (metis div_mult_mod_eq)
  then have "(cp div 4096 * 64 + cp div 64 mod 64) * 64 + cp mod 64 = cp" using div_mult_mod_eq[of cp 64] by simp
  then show ?thesis by (simp add: algebra_simps)
qed

lemma digits4: "cp div 262144 * 262144 + (cp div 4096 mod 64 * 4096 + (cp div 64 mod 64 * 64 + cp mod 64)) = (cp :: nat)"
proof -
  have "cp div 4096 div 64 = cp div 262144" by (simp add: div_mult2_eq[symmetric])
  then have "cp div 262144 * 64 + cp div 4096 mod 64 = cp div 4096" by (metis div_mult_mod_eq)
  then have "(cp div 262144 * 64 + cp div 4096 mod 64) * 4096 + (cp div 64 mod 64 * 64 + cp mod 64) = cp"
    using digits3[of cp] by simp
  then show ?thesis by (simp add: algebra_simps)
qed

lemma pull_utf8_of:
  assumes "pulled cp" "2 * length (utf16_of cp) \<le> n"
  shows "pull_char (utf8_of cp @ rest) n = Inr (utf16_of cp, rest)"
proof -
  have t: "cp mod 64 < 64" "cp div 64 mod 64 < 64" "cp div 4096 mod 64 < 64" by simp_all
  consider "cp < 0x80" | "0x80 \<le> cp" "cp < 0x800" | "0x800 \<le> cp" "cp < 0x10000" | "0x10000 \<le> cp" by linarith
  then show ?thesis
  proof cases
    case 1
    then show ?thesis using pull_1[of "of_nat cp" rest n] by (simp add: utf8_of_def utf16_of_def unat_byte)
  next
    case 2
    then have "2 \<le> cp div 64" "cp div 64 < 32" by (auto simp: less_eq_div_iff_mult_less_eq div_less_iff_less_mult)
    then have b: "unat (of_nat (0xC0 + cp div 64) :: byte) = 0xC0 + cp div 64" "unat (of_nat (0x80 + cp mod 64) :: byte) = 0x80 + cp mod 64"
      "194 \<le> 0xC0 + cp div 64" "0xC0 + cp div 64 < 224" using t by (simp_all only: unat_byte)
    then show ?thesis
      using pull_2[of "of_nat (0xC0 + cp div 64)" "of_nat (0x80 + cp mod 64)" rest n] 2 t(1) unfolding b
      by (simp add: utf8_of_def utf16_of_def del: of_nat_add)
  next
    case 3
    then have d: "cp div 4096 < 16" by (simp add: div_less_iff_less_mult)
    have b: "unat (of_nat (0xE0 + cp div 4096) :: byte) = 0xE0 + cp div 4096" "unat (of_nat (0x80 + cp mod 64) :: byte) = 0x80 + cp mod 64"
      "unat (of_nat (0x80 + cp div 64 mod 64) :: byte) = 0x80 + cp div 64 mod 64"
      using t d by (simp_all only: unat_byte)
    have s3: "second3 (0xE0 + cp div 4096) (0x80 + cp div 64 mod 64)"
    proof -
      have "cp div 4096 = 0 \<Longrightarrow> 32 \<le> cp div 64 mod 64"
      proof -
        assume "cp div 4096 = 0"
        then have "cp div 64 mod 64 * 64 + cp mod 64 = cp" using digits3[of cp] by simp
        then show ?thesis using 3 t by linarith
      qed
      moreover have "cp div 4096 = 13 \<Longrightarrow> cp div 64 mod 64 < 32"
      proof -
        assume a: "cp div 4096 = 13"
        then have "53248 + (cp div 64 mod 64 * 64 + cp mod 64) = cp" using digits3[of cp] by simp
        moreover have "cp < 0xD800"
          using assms(1) a unfolding pulled_def by (auto simp: div_nat_eqI dest: div_le_mono[of _ _ 4096])
        ultimately show ?thesis by linarith
      qed
      ultimately show ?thesis using t(2) by (auto simp: second3_def)
    qed
    have e: "(0xE0 + cp div 4096 - 224) * 4096 + ((0x80 + cp div 64 mod 64 - 128) * 64 + (0x80 + cp mod 64 - 128)) = cp"
      using digits3[of cp] by simp
    show ?thesis
      using pull_3[of "of_nat (0xE0 + cp div 4096)" "of_nat (0x80 + cp div 64 mod 64)" "of_nat (0x80 + cp mod 64)" rest n]
        3 s3 d t unfolding b e by (simp add: utf8_of_def utf16_of_def del: of_nat_add)
  next
    case 4
    have cp: "cp < 0x140000" using assms(1) by (auto simp: pulled_def)
    then have d: "cp div 262144 < 5" by (simp add: div_less_iff_less_mult)
    have b: "unat (of_nat (0xF0 + cp div 262144) :: byte) = 0xF0 + cp div 262144" "unat (of_nat (0x80 + cp mod 64) :: byte) = 0x80 + cp mod 64"
      "unat (of_nat (0x80 + cp div 64 mod 64) :: byte) = 0x80 + cp div 64 mod 64"
      "unat (of_nat (0x80 + cp div 4096 mod 64) :: byte) = 0x80 + cp div 4096 mod 64"
      using t d by (simp_all only: unat_byte)
    have "cp div 262144 = 0 \<Longrightarrow> 16 \<le> cp div 4096 mod 64" using digits4[of cp] 4 t by linarith
    then have s4: "second4 (0xF0 + cp div 262144) (0x80 + cp div 4096 mod 64)" using t(3) by (auto simp: second4_def)
    have e: "(0xF0 + cp div 262144 - 240) * 262144 + ((0x80 + cp div 4096 mod 64 - 128) * 4096 +
        ((0x80 + cp div 64 mod 64 - 128) * 64 + (0x80 + cp mod 64 - 128))) = cp"
      using digits4[of cp] by simp
    have "4 \<le> n" using assms(2) 4 by (simp add: utf16_of_def)
    then show ?thesis
      using pull_4[of "of_nat (0xF0 + cp div 262144)" "of_nat (0x80 + cp div 4096 mod 64)" "of_nat (0x80 + cp div 64 mod 64)"
          "of_nat (0x80 + cp mod 64)" n rest] 4 s4 d t unfolding b e by (simp add: utf8_of_def del: of_nat_add)
  qed
qed

lemma divmod_eqI: "n = q * k + r \<Longrightarrow> r < k \<Longrightarrow> n div k = q \<and> n mod k = (r :: nat)"
  by auto

lemma pull_char_sound:
  assumes "pull_char c n = Inr (us, rest)" "c \<noteq> []"
  shows "\<exists>cp. pulled cp \<and> c = utf8_of cp @ rest \<and> us = utf16_of cp"
  using assms
proof (cases rule: pull_char_cases)
  case (one x)
  then have "us = [of_nat (unat x)]" using assms(1) pull_1[of x rest n] by simp
  then show ?thesis using one by (intro exI[of _ "unat x"]) (auto simp: pulled_def utf8_of_def utf16_of_def)
next
  case (two x y)
  define a b where "a = unat x - 192" and "b = unat y - 128"
  have ab: "unat x = 192 + a" "unat y = 128 + b" "2 \<le> a" "a < 32" "b < 64" using two by (simp_all add: a_def b_def)
  let ?cp = "a * 64 + b"
  have r: "128 \<le> ?cp" "?cp < 0x800" using ab by linarith+
  have d: "?cp div 64 = a" "?cp mod 64 = b" using ab by simp_all
  have "us = [of_nat ?cp]" using assms(1) pull_2[OF two(2-5), of rest n] two(1) ab by simp
  moreover have "utf8_of ?cp = [x, y]"
    using r unfolding utf8_of_def d by (simp add: of_nat_byte ab(1,2)[symmetric] del: of_nat_add)
  ultimately show ?thesis using two(1) r by (intro exI[of _ ?cp]) (auto simp: pulled_def utf16_of_def)
next
  case (three x y z)
  define a b e where "a = unat x - 224" and "b = unat y - 128" and "e = unat z - 128"
  have ab: "unat x = 224 + a" "unat y = 128 + b" "unat z = 128 + e" "a < 16" "b < 64" "e < 64"
    using three unfolding a_def b_def e_def second3_def by linarith+
  have s3: "a = 0 \<Longrightarrow> 32 \<le> b" "a = 13 \<Longrightarrow> b < 32" using three(4) ab by (auto simp: second3_def)
  let ?cp = "a * 4096 + (b * 64 + e)"
  have r: "0x800 \<le> ?cp" "?cp < 0x10000" using ab s3(1) by (cases "a = 0"; linarith)+
  have d: "?cp div 4096 = a" "?cp div 64 mod 64 = b" "?cp mod 64 = e"
  proof -
    have l: "b * 64 + e < 4096" using ab by linarith
    show "?cp div 4096 = a" using l by simp
    have "?cp div 64 = a * 64 + b" "?cp mod 64 = e" using divmod_eqI[of ?cp "a * 64 + b" 64 e] ab(6) by (simp_all add: algebra_simps)
    then show "?cp div 64 mod 64 = b" "?cp mod 64 = e" using ab(5) by simp_all
  qed
  have "?cp < 0xD800 \<or> 0xE000 \<le> ?cp"
  proof -
    consider "a < 13" | "a = 13" | "14 \<le> a" by linarith
    then show ?thesis using ab s3(2) by cases linarith+
  qed
  moreover have "us = [of_nat ?cp]" using assms(1) pull_3[OF three(2-6), of rest n] three(1) ab by simp
  moreover have "utf8_of ?cp = [x, y, z]"
    using r unfolding utf8_of_def d by (simp add: of_nat_byte ab(1-3)[symmetric] del: of_nat_add)
  ultimately show ?thesis using three(1) r by (intro exI[of _ ?cp]) (auto simp: pulled_def utf16_of_def)
next
  case (four x y z w)
  define a b e g where "a = unat x - 240" and "b = unat y - 128" and "e = unat z - 128" and "g = unat w - 128"
  have ab: "unat x = 240 + a" "unat y = 128 + b" "unat z = 128 + e" "unat w = 128 + g" "a < 5" "b < 64" "e < 64" "g < 64"
    using four unfolding a_def b_def e_def g_def second4_def by linarith+
  have s4: "a = 0 \<Longrightarrow> 16 \<le> b" using four(4) ab by (auto simp: second4_def)
  let ?cp = "a * 262144 + (b * 4096 + (e * 64 + g))"
  have r: "0x10000 \<le> ?cp" "?cp < 0x140000" using ab s4 by (cases "a = 0"; linarith)+
  have d: "?cp div 262144 = a" "?cp div 4096 mod 64 = b" "?cp div 64 mod 64 = e" "?cp mod 64 = g"
  proof -
    have l: "b * 4096 + (e * 64 + g) < 262144" "e * 64 + g < 4096" using ab by linarith+
    show "?cp div 262144 = a" using l by simp
    have "?cp div 4096 = a * 64 + b" using divmod_eqI[of ?cp "a * 64 + b" 4096 "e * 64 + g"] l(2) by (simp add: algebra_simps)
    then show "?cp div 4096 mod 64 = b" using ab by simp
    have D: "?cp div 64 = (a * 64 + b) * 64 + e" "?cp mod 64 = g"
      using divmod_eqI[of ?cp "(a * 64 + b) * 64 + e" 64 g] ab(8) by (simp_all add: algebra_simps)
    show "?cp div 64 mod 64 = e" unfolding D(1) using divmod_eqI[OF refl ab(7), of "a * 64 + b"] by blast
    show "?cp mod 64 = g" by (rule D(2))
  qed
  have "us = utf16_of ?cp" using assms(1) pull_4[OF four(2-9), of rest] four(1) ab by simp
  moreover have "utf8_of ?cp = [x, y, z, w]"
    using r unfolding utf8_of_def d by (simp add: of_nat_byte ab(1-4)[symmetric] del: of_nat_add)
  ultimately show ?thesis using four(1) r by (intro exI[of _ ?cp]) (auto simp: pulled_def)
qed

text \<open>The encoder.\<close>

lemma SVAL_SSVAL: "SVAL (ucast (v AND 0xFF)) (ucast (drop_bit 8 v)) = v"
proof -
  have m: "(0xFF :: 16 word) = mask 8" by (simp add: mask_eq_exp_minus_1)
  show ?thesis unfolding SVAL_def m by (rule bit_word_eqI) (auto simp: bit_simps)
qed

lemma unat_drop_mask:
  fixes w :: "'a::len word"
  assumes "m = mask j"
  shows "unat (drop_bit k w AND m) = unat w div 2 ^ k mod 2 ^ j"
  unfolding unat_low_mask[OF assms] unsigned_drop_bit_eq take_bit_nat_eq_self[OF unsigned_less]
  by (simp add: drop_bit_eq_div)

lemma ucast_byte: "unat (w :: 'a::len word) = n \<Longrightarrow> (ucast w :: byte) = of_nat n"
  by (metis of_nat_unat)

lemma lead_bytes:
  fixes uc :: ucs2 and w :: "32 word"
  shows "ucast (0xc0 OR (drop_bit 6 uc AND 0x1f)) = (of_nat (0xC0 + unat uc div 64 mod 32) :: byte)"
    "ucast (0xe0 OR (drop_bit 12 uc AND 0x0f)) = (of_nat (0xE0 + unat uc div 4096 mod 16) :: byte)"
    "ucast (0xf0 OR (drop_bit 18 w AND 0x07)) = (of_nat (0xF0 + unat w div 262144 mod 8) :: byte)"
    "GETUTF8TRAILBYTE w k = of_nat (0x80 + unat w div 2 ^ k mod 64)"
proof -
  have m: "(0x1f :: ucs2) = mask 5" "(0x0f :: ucs2) = mask 4" "(0x07 :: 32 word) = mask 3" "(0x3f :: 32 word) = mask 6"
    by (simp_all add: mask_eq_exp_minus_1)
  have l: "n mod 32 < 32" "n mod 16 < 16" "n mod 8 < 8" "n mod 64 < 64" for n :: nat by simp_all
  show "ucast (0xc0 OR (drop_bit 6 uc AND 0x1f)) = (of_nat (0xC0 + unat uc div 64 mod 32) :: byte)"
    by (rule ucast_byte) (use unat_or_add[of "0xc0 :: ucs2" 5 "drop_bit 6 uc AND 0x1f"] unat_drop_mask[OF m(1), of 6 uc] l(1) in simp)
  show "ucast (0xe0 OR (drop_bit 12 uc AND 0x0f)) = (of_nat (0xE0 + unat uc div 4096 mod 16) :: byte)"
    by (rule ucast_byte) (use unat_or_add[of "0xe0 :: ucs2" 4 "drop_bit 12 uc AND 0x0f"] unat_drop_mask[OF m(2), of 12 uc] l(2) in simp)
  show "ucast (0xf0 OR (drop_bit 18 w AND 0x07)) = (of_nat (0xF0 + unat w div 262144 mod 8) :: byte)"
    by (rule ucast_byte) (use unat_or_add[of "0xf0 :: 32 word" 3 "drop_bit 18 w AND 0x07"] unat_drop_mask[OF m(3), of 18 w] l(3) in simp)
  show "GETUTF8TRAILBYTE w k = of_nat (0x80 + unat w div 2 ^ k mod 64)"
    unfolding GETUTF8TRAILBYTE_def
    by (rule ucast_byte) (use unat_or_add[of "0x80 :: 32 word" 6 "drop_bit k w AND 0x3f"] unat_drop_mask[OF m(4), of k w] l(4) in simp)
qed

definition bidi :: "nat \<Rightarrow> bool" where
  "bidi cp \<longleftrightarrow> 0x202a \<le> cp \<and> cp \<le> 0x202e"

definition enc16 :: "nat \<Rightarrow> bytes" where
  "enc16 cp = concat (map SSVAL (utf16_of cp))"

lemma enc16_simps:
  "cp < 0x10000 \<Longrightarrow> enc16 cp = [ucast (of_nat cp AND 0xFF :: ucs2), ucast (drop_bit 8 (of_nat cp :: ucs2))]"
  "length (enc16 cp) = 2 * length (utf16_of cp)"
  by (simp_all add: enc16_def utf16_of_def SSVAL_def)

lemma unat_ucs2: "n < 65536 \<Longrightarrow> unat (of_nat n :: ucs2) = n"
  by (simp add: unat_of_nat take_bit_nat_eq_self)

lemma unat_ucast32: "unat (ucast (u :: ucs2) :: 32 word) = unat u"
proof -
  have "unat u < 2 ^ 32" by (rule order_less_le_trans[OF unsigned_less]) simp
  then show ?thesis unfolding unsigned_ucast_eq by (simp add: take_bit_nat_eq_self)
qed

lemma ucs2_order:
  fixes u :: ucs2
  shows "u < 0x80 \<longleftrightarrow> unat u < 0x80" "u < 0x800 \<longleftrightarrow> unat u < 0x800" "u \<ge> 0x202a \<longleftrightarrow> unat u \<ge> 0x202a"
    "u \<le> 0x202e \<longleftrightarrow> unat u \<le> 0x202e" "0xd800 \<le> u \<longleftrightarrow> 0xd800 \<le> unat u" "u \<le> 0xdfff \<longleftrightarrow> unat u \<le> 0xdfff"
    "u \<le> 0xdbff \<longleftrightarrow> unat u \<le> 0xdbff" "0xdc00 \<le> u \<longleftrightarrow> 0xdc00 \<le> unat u"
  by (simp_all add: word_less_nat_alt word_le_nat_alt)

lemma push_bmp:
  assumes "cp < 0x10000" "unicode cp" "\<not> bidi cp" "length (utf8_of cp) \<le> n"
  shows "push_char (enc16 cp @ rest) n = Inr (utf8_of cp, 2)"
proof -
  have u: "unat (of_nat cp :: ucs2) = cp" "unat (ucast (of_nat cp :: ucs2) :: 32 word) = cp"
    using assms(1) unat_ucs2[of cp] unat_ucast32[of "of_nat cp"] by simp_all
  have d: "cp < 0x800 \<Longrightarrow> cp div 64 mod 32 = cp div 64" "cp div 4096 mod 16 = cp div 4096"
    using assms(1) by (simp_all add: div_less_iff_less_mult)
  let ?u = "of_nat cp :: ucs2"
  have sv: "SVAL ((enc16 cp @ rest) ! 0) ((enc16 cp @ rest) ! 1) = ?u" by (simp add: enc16_simps(1)[OF assms(1)] SVAL_SSVAL)
  have ord: "?u < 0x80 \<longleftrightarrow> cp < 0x80" "?u < 0x800 \<longleftrightarrow> cp < 0x800" "\<not> (0x202a \<le> ?u \<and> ?u \<le> 0x202e)" "\<not> (0xd800 \<le> ?u \<and> ?u \<le> 0xdfff)"
    unfolding ucs2_order u(1) using assms(2,3) by (auto simp: unicode_def bidi_def)
  consider "cp < 0x80" | "0x80 \<le> cp" "cp < 0x800" | "0x800 \<le> cp" by linarith
  then show ?thesis
  proof cases
    case 1
    then show ?thesis unfolding push_char_def sv Let_def ord(1,2) by (simp add: utf8_of_def ucast_byte[OF u(1)])
  next
    case 2
    then have "2 \<le> n" using assms(4) by (simp add: utf8_of_def)
    then show ?thesis using 2 unfolding push_char_def sv Let_def ord(1,2) lead_bytes u d(1)[OF 2(2)] by (simp add: utf8_of_def del: of_nat_add)
  next
    case 3
    then have "3 \<le> n" using assms(1,4) by (simp add: utf8_of_def)
    then show ?thesis using 3 ord(3,4) assms(1) unfolding push_char_def sv Let_def ord(1,2) lead_bytes u d(2)
      by (simp add: utf8_of_def del: of_nat_add)
  qed
qed

lemma push_astral:
  assumes "0x10000 \<le> cp" "unicode cp" "4 \<le> n"
  shows "push_char (enc16 cp @ rest) n = Inr (utf8_of cp, 4)"
proof -
  have cp: "cp \<le> 0x10FFFF" using assms by (auto simp: unicode_def)
  let ?h = "0xD800 + (cp - 0x10000) div 1024" and ?l = "0xDC00 + cp mod 1024"
  have q: "(cp - 0x10000) div 1024 < 1024" using cp by (simp add: div_less_iff_less_mult)
  have r: "cp mod 1024 < 1024" by simp
  let ?hi = "of_nat ?h :: ucs2" and ?lo = "of_nat ?l :: ucs2"
  have u: "unat ?hi = ?h" "unat ?lo = ?l" using q r by (simp_all only: unat_ucs2)
  have e: "enc16 cp = [ucast (?hi AND 0xFF), ucast (drop_bit 8 ?hi), ucast (?lo AND 0xFF), ucast (drop_bit 8 ?lo)]"
    using assms(1) by (simp add: enc16_def utf16_of_def SSVAL_def)
  let ?W = "push_bit 10 (ucast ?hi - 0xd800) + (ucast ?lo - 0xdc00) + 0x10000 :: 32 word"
  have h: "unat (ucast ?hi - 0xd800 :: 32 word) = (cp - 0x10000) div 1024"
    using unat_sub[of "0xd800" "ucast ?hi :: 32 word"] unat_ucast32[of ?hi] u(1) by (simp add: word_le_nat_alt del: of_nat_add)
  have l: "unat (ucast ?lo - 0xdc00 :: 32 word) = cp mod 1024"
    using unat_sub[of "0xdc00" "ucast ?lo :: 32 word"] unat_ucast32[of ?lo] u(2) by (simp add: word_le_nat_alt del: of_nat_add)
  have p: "unat (push_bit 10 (ucast ?hi - 0xd800) :: 32 word) = (cp - 0x10000) div 1024 * 1024"
    unfolding unsigned_push_bit_eq h using q by (simp add: push_bit_nat_def take_bit_nat_eq_self)
  have s: "(cp - 0x10000) div 1024 * 1024 + cp mod 1024 + 0x10000 = cp"
  proof -
    have "(cp - 0x10000 + 64 * 1024) mod 1024 = (cp - 0x10000) mod 1024" by (rule mod_mult_self1)
    then have "(cp - 0x10000) mod 1024 = cp mod 1024" using assms(1) by simp
    then show ?thesis using div_mult_mod_eq[of "cp - 0x10000" 1024] assms(1) by linarith
  qed
  have a1: "unat (push_bit 10 (ucast ?hi - 0xd800) + (ucast ?lo - 0xdc00) :: 32 word) = (cp - 0x10000) div 1024 * 1024 + cp mod 1024"
    using unat_add_lem[of "push_bit 10 (ucast ?hi - 0xd800)" "ucast ?lo - 0xdc00 :: 32 word"] q r unfolding p l by simp
  have W: "unat ?W = cp"
    using unat_add_lem[of "push_bit 10 (ucast ?hi - 0xd800) + (ucast ?lo - 0xdc00)" "0x10000 :: 32 word"] s cp unfolding a1 by simp
  have d: "cp div 262144 mod 8 = cp div 262144" using cp by (simp add: div_less_iff_less_mult)
  have ord: "\<not> ?hi < 0x80" "\<not> ?hi < 0x800" "\<not> (0x202a \<le> ?hi \<and> ?hi \<le> 0x202e)" "0xd800 \<le> ?hi" "?hi \<le> 0xdfff" "?hi \<le> 0xdbff"
    "0xdc00 \<le> ?lo" "?lo \<le> 0xdfff" unfolding ucs2_order u using q r by simp_all
  have b: "utf8_of cp = [ucast (0xf0 OR (drop_bit 18 ?W AND 0x07)), GETUTF8TRAILBYTE ?W 12, GETUTF8TRAILBYTE ?W 6, GETUTF8TRAILBYTE ?W 0]"
    unfolding lead_bytes W utf8_of_def d using assms(1) by (simp del: of_nat_add)
  show ?thesis unfolding push_char_def e b using ord assms(3) by (simp add: SVAL_SSVAL Let_def del: of_nat_add)
qed

end
