(* ===== verification/Utf8_Claims.thy ===== *)
theory Utf8_Claims
  imports Utf8
begin

text \<open>
  What the UTF-8 charset promises: decoding and encoding are inverse to each other on the code
  points of Unicode, the decoder accepts a known set of byte strings, no buffer is overrun, and
  a range of sequences beyond Unicode is let through.
\<close>

lemma utf16_len: "1 \<le> length (utf16_of cp)"
  by (simp add: utf16_of_def)

lemma utf8_of_ne: "utf8_of cp \<noteq> []"
  by (simp add: utf8_of_def)

lemma pull_string:
  assumes "\<forall>cp \<in> set cps. pulled cp" "length (concat (map enc16 cps)) \<le> n"
  shows "utf8_pull (concat (map utf8_of cps)) n out =
    (None, [], out @ concat (map enc16 cps), n - length (concat (map enc16 cps)))"
  using assms
proof (induction cps arbitrary: n out)
  case Nil
  then show ?case by (simp add: utf8_pull.simps)
next
  case (Cons cp cps)
  let ?rest = "concat (map utf8_of cps)"
  have n: "2 * length (utf16_of cp) \<le> n" "2 \<le> n"
    using Cons.prems(2) utf16_len[of cp] by (simp_all add: enc16_simps)
  have p: "pull_char (utf8_of cp @ ?rest) n = Inr (utf16_of cp, ?rest)"
    by (rule pull_utf8_of) (use Cons.prems(1) n in auto)
  have "utf8_pull (utf8_of cp @ ?rest) n out = utf8_pull ?rest (n - 2 * length (utf16_of cp)) (out @ enc16 cp)"
    using p n(2) utf8_of_ne[of cp] by (subst utf8_pull.simps) (simp add: enc16_def)
  also have "\<dots> = (None, [], (out @ enc16 cp) @ concat (map enc16 cps),
      n - 2 * length (utf16_of cp) - length (concat (map enc16 cps)))"
    by (rule Cons.IH) (use Cons.prems in \<open>auto simp: enc16_simps\<close>)
  finally show ?case by (simp add: enc16_simps)
qed

lemma push_string:
  assumes "\<forall>cp \<in> set cps. unicode cp \<and> \<not> bidi cp" "length (concat (map utf8_of cps)) \<le> n"
  shows "utf8_push (concat (map enc16 cps)) n out =
    (None, [], out @ concat (map utf8_of cps), n - length (concat (map utf8_of cps)))"
  using assms
proof (induction cps arbitrary: n out)
  case Nil
  then show ?case by (simp add: utf8_push.simps)
next
  case (Cons cp cps)
  let ?rest = "concat (map enc16 cps)"
  have n: "length (utf8_of cp) \<le> n" using Cons.prems(2) by simp
  then have n1: "1 \<le> n" using utf8_of_ne[of cp] by (cases n) auto
  have p: "push_char (enc16 cp @ ?rest) n = Inr (utf8_of cp, length (enc16 cp))"
  proof (cases "cp < 0x10000")
    case True
    then show ?thesis using push_bmp[of cp n ?rest] Cons.prems(1) n by (simp add: enc16_simps(2) utf16_of_def)
  next
    case False
    then have "4 \<le> n" using n by (simp add: utf8_of_def)
    then show ?thesis using push_astral[of cp n ?rest] Cons.prems(1) False by (simp add: enc16_simps(2) utf16_of_def)
  qed
  have "2 \<le> length (enc16 cp)" using utf16_len[of cp] by (simp add: enc16_simps)
  then have "utf8_push (enc16 cp @ ?rest) n out = utf8_push ?rest (n - length (utf8_of cp)) (out @ utf8_of cp)"
    using p n1 by (subst utf8_push.simps) simp
  also have "\<dots> = (None, [], (out @ utf8_of cp) @ concat (map utf8_of cps),
      n - length (utf8_of cp) - length (concat (map utf8_of cps)))"
    by (rule Cons.IH) (use Cons.prems in auto)
  finally show ?case by simp
qed

lemma unicode_pulled: "unicode cp \<Longrightarrow> pulled cp"
  by (auto simp: unicode_def pulled_def)



lemma pull_sound:
  "utf8_pull bs n out = (None, rest, out', left) \<Longrightarrow>
   rest = [] \<and> (\<exists>cps. (\<forall>cp \<in> set cps. pulled cp) \<and> bs = concat (map utf8_of cps) \<and>
     out' = out @ concat (map enc16 cps) \<and> length (concat (map enc16 cps)) + left = n)"
proof (induction bs n out arbitrary: left rule: utf8_pull.induct)
  case (1 bs n out)
  show ?case
  proof (cases "bs \<noteq> [] \<and> n \<ge> 2")
    case False
    then show ?thesis using 1(2) by (simp add: utf8_pull.simps split: if_splits) (auto intro: exI[of _ "[]"])
  next
    case True
    then obtain us r where p: "pull_char bs n = Inr (us, r)"
      using 1(2) by (auto simp: utf8_pull.simps[of bs] split: sum.splits)
    have len: "2 * length us \<le> n"
      using p True by (auto simp: pull_char_def Let_def split: if_splits)
    obtain cp where cp: "pulled cp" "bs = utf8_of cp @ r" "us = utf16_of cp"
      using pull_char_sound[OF p] True by blast
    have rec: "utf8_pull r (n - 2 * length us) (out @ concat (map SSVAL us)) = (None, rest, out', left)"
      using 1(2) True p by (simp add: utf8_pull.simps[of bs])
    from 1(1)[OF True p refl this] obtain cps where "rest = []" "\<forall>cp \<in> set cps. pulled cp" "r = concat (map utf8_of cps)"
      "out' = (out @ concat (map SSVAL us)) @ concat (map enc16 cps)" "length (concat (map enc16 cps)) + left = n - 2 * length us"
      by blast
    then show ?thesis using cp len by (intro conjI exI[of _ "cp # cps"]) (auto simp: enc16_def[symmetric] enc16_simps)
  qed
qed


text \<open>
  The decoder also accepts four-byte sequences for values beyond Unicode, although the table
  in its comment ends at F4 8F: F4 90 to F4 BF decode to two low surrogates, which is no UTF-16,
  and which the encoder rejects.
\<close>

theorem utf8_pull_beyond_unicode:
  assumes "0x110000 \<le> cp" "cp < 0x140000" "4 \<le> n"
  shows "\<not> unicode cp \<and> utf8_pull (utf8_of cp) 4 [] = (None, [], enc16 cp, 0) \<and>
    utf8_push (enc16 cp) n [] = (Some EINVAL, enc16 cp, [], n)"
proof -
  have l: "length (enc16 cp) = 4" using assms by (simp add: enc16_simps utf16_of_def)
  have pull: "utf8_pull (utf8_of cp) 4 [] = (None, [], enc16 cp, 0)"
    using pull_string[of "[cp]" 4 "[]"] assms l by (simp add: pulled_def)
  let ?h = "0xD800 + (cp - 0x10000) div 1024"
  have q: "1024 \<le> (cp - 0x10000) div 1024" "(cp - 0x10000) div 1024 < 2048"
    using assms by (auto simp: less_eq_div_iff_mult_less_eq div_less_iff_less_mult)
  let ?hi = "of_nat ?h :: ucs2"
  have u: "unat ?hi = ?h" using q by (simp only: unat_ucs2)
  have ord: "\<not> ?hi < 0x80" "\<not> ?hi < 0x800" "\<not> (0x202a \<le> ?hi \<and> ?hi \<le> 0x202e)" "0xd800 \<le> ?hi" "?hi \<le> 0xdfff" "\<not> ?hi \<le> 0xdbff"
    unfolding ucs2_order u using q by simp_all
  have sv: "SVAL (enc16 cp ! 0) (enc16 cp ! 1) = ?hi"
    using assms(1) by (simp add: enc16_def utf16_of_def SSVAL_def SVAL_SSVAL)
  have "push_char (enc16 cp) n = Inl EINVAL"
    unfolding push_char_def sv Let_def using ord assms(3) l by simp
  then have "utf8_push (enc16 cp) n [] = (Some EINVAL, enc16 cp, [], n)"
    using l assms(3) by (subst utf8_push.simps) simp
  then show ?thesis using pull assms by (simp add: unicode_def)
qed

theorem utf8_pull_beyond_unicode_witness:
  "utf8_pull [0xf4, 0x90, 0x80, 0x80] 4 [] = (None, [], SSVAL 0xDC00 @ SSVAL 0xDC00, 0)"
  using utf8_pull_beyond_unicode[of "0x110000" 4] by (simp add: utf8_of_def enc16_def utf16_of_def SSVAL_def)

lemma suffix_drop: "\<exists>p. bs = p @ drop k bs"
  by (metis append_take_drop_id)

lemma pull_char_fits:
  assumes "pull_char bs n = Inr (us, r)" "2 \<le> n"
  shows "2 * length us \<le> n" "\<exists>p. bs = p @ r"
  using assms by (auto simp: pull_char_def Let_def suffix_drop simp del: drop_Suc split: if_splits)

lemma push_char_fits:
  assumes "push_char bs n = Inr (ws, k)" "1 \<le> n"
  shows "length ws \<le> n"
  using assms by (auto simp: push_char_def Let_def split: if_splits)

lemma length_units: "length (concat (map SSVAL us)) = 2 * length us"
  by (induction us) (auto simp: SSVAL_def)

lemma pull_bounds:
  "utf8_pull bs n out = (e, rest, out', left) \<Longrightarrow>
   \<exists>w p. out' = out @ w \<and> length w + left = n \<and> bs = p @ rest"
proof (induction bs n out rule: utf8_pull.induct)
  case (1 bs n out)
  show ?case
  proof (cases "bs \<noteq> [] \<and> n \<ge> 2")
    case False
    then show ?thesis using 1(2) by (auto simp: utf8_pull.simps split: if_splits)
  next
    case True
    show ?thesis
    proof (cases "pull_char bs n")
      case (Inl x)
      then show ?thesis using 1(2) True by (auto simp: utf8_pull.simps[of bs])
    next
      case (Inr y)
      obtain us r where y: "y = (us, r)" by (cases y)
      have rec: "utf8_pull r (n - 2 * length us) (out @ concat (map SSVAL us)) = (e, rest, out', left)"
        using 1(2) True Inr y by (simp add: utf8_pull.simps[of bs])
      obtain w p where IH: "out' = (out @ concat (map SSVAL us)) @ w" "length w + left = n - 2 * length us" "r = p @ rest"
        using 1(1)[OF True Inr y[symmetric] rec] by blast
      obtain q where "bs = q @ r" using pull_char_fits(2)[of bs n us r] Inr y True by blast
      moreover have "2 * length us \<le> n" using pull_char_fits(1)[of bs n us r] Inr y True by blast
      ultimately show ?thesis
        using IH by (intro exI[of _ "concat (map SSVAL us) @ w"] exI[of _ "q @ p"]) (simp add: length_units)
    qed
  qed
qed

lemma push_bounds:
  "utf8_push bs n out = (e, rest, out', left) \<Longrightarrow>
   \<exists>w p. out' = out @ w \<and> length w + left = n \<and> bs = p @ rest"
proof (induction bs n out rule: utf8_push.induct)
  case (1 bs n out)
  show ?case
  proof (cases "length bs \<ge> 2 \<and> n \<ge> 1")
    case False
    then show ?thesis using 1(2) by (auto simp: utf8_push.simps split: if_splits)
  next
    case True
    show ?thesis
    proof (cases "push_char bs n")
      case (Inl x)
      then show ?thesis using 1(2) True by (auto simp: utf8_push.simps[of bs])
    next
      case (Inr y)
      obtain ws k where y: "y = (ws, k)" by (cases y)
      have rec: "utf8_push (drop k bs) (n - length ws) (out @ ws) = (e, rest, out', left)"
        using 1(2) True Inr y by (simp add: utf8_push.simps[of bs])
      obtain w p where IH: "out' = (out @ ws) @ w" "length w + left = n - length ws" "drop k bs = p @ rest"
        using 1(1)[OF True Inr y[symmetric] rec] by blast
      moreover have "length ws \<le> n" using push_char_fits[of bs n ws k] Inr y True by blast
      moreover have "bs = (take k bs @ p) @ rest" using IH(3) append_take_drop_id[of k bs] by simp
      ultimately show ?thesis by (intro exI[of _ "ws @ w"] exI[of _ "take k bs @ p"]) simp
    qed
  qed
qed

text \<open>
  C14: neither conversion writes past its output buffer, whatever the input: what was written and
  the space that is left add up to the space that was given, and what is left of the input is a
  suffix of it.
\<close>

theorem utf8_no_overrun:
  "(\<exists>e rest out left p. utf8_pull bs n [] = (e, rest, out, left) \<and> length out + left = n \<and> bs = p @ rest) \<and>
   (\<exists>e rest out left p. utf8_push bs n [] = (e, rest, out, left) \<and> length out + left = n \<and> bs = p @ rest)"
proof -
  obtain e rest out left where 1: "utf8_pull bs n [] = (e, rest, out, left)" by (cases "utf8_pull bs n []")
  obtain e' rest' out' left' where 2: "utf8_push bs n [] = (e', rest', out', left')" by (cases "utf8_push bs n []")
  show ?thesis unfolding 1 2 using pull_bounds[OF 1] push_bounds[OF 2] by auto
qed

end
