(* ===== verification/Surrogates.thy ===== *)
theory Surrogates
  imports Utf8
begin

text \<open>
  Two UTF-16 units packed in one 32-bit value, as the composition and case mapping code passes
  surrogate pairs around, and the kinds of units.
\<close>

definition sp :: "ucs2 \<Rightarrow> ucs2 \<Rightarrow> 32 word" where
  "sp hi lo = push_bit 16 (ucast hi) OR ucast lo"

definition sp_hi :: "32 word \<Rightarrow> ucs2" where
  "sp_hi w = ucast (drop_bit 16 w)"

definition sp_lo :: "32 word \<Rightarrow> ucs2" where
  "sp_lo w = ucast (w AND 0xFFFF)"

lemma sp_parts [simp]: "sp_hi (sp h l) = h" "sp_lo (sp h l) = l" "sp (sp_hi w) (sp_lo w) = w"
proof -
  have m: "(0xFFFF :: 32 word) = mask 16" by (simp add: mask_eq_exp_minus_1)
  show "sp_hi (sp h l) = h" unfolding sp_hi_def sp_def by (rule bit_word_eqI) (auto simp: bit_simps dest: bit_imp_le_length)
  show "sp_lo (sp h l) = l" unfolding sp_lo_def sp_def m by (rule bit_word_eqI) (auto simp: bit_simps dest: bit_imp_le_length)
  show "sp (sp_hi w) (sp_lo w) = w" unfolding sp_hi_def sp_lo_def sp_def m by (rule bit_word_eqI) (auto simp: bit_simps dest: bit_imp_le_length)
qed

lemma sp_inject: "sp h l = sp h' l' \<longleftrightarrow> h = h' \<and> l = l'"
  by (metis sp_parts(1,2))

definition hi_surrogate :: "ucs2 \<Rightarrow> bool" where
  "hi_surrogate c \<longleftrightarrow> 0xD800 \<le> c \<and> c < 0xDC00"

definition lo_surrogate :: "ucs2 \<Rightarrow> bool" where
  "lo_surrogate c \<longleftrightarrow> 0xDC00 \<le> c \<and> c < 0xE000"

lemma unit_kinds:
  "hi_surrogate c \<longleftrightarrow> 0xD800 \<le> unat c \<and> unat c < 0xDC00" "lo_surrogate c \<longleftrightarrow> 0xDC00 \<le> unat c \<and> unat c < 0xE000"
  by (simp_all add: hi_surrogate_def lo_surrogate_def word_less_nat_alt word_le_nat_alt)

lemma unat_sp_parts: "unat (sp_hi w) = unat w div 65536" "unat (sp_lo w) = unat w mod 65536"
proof -
  have m: "(0xFFFF :: 32 word) = mask 16" by (simp add: mask_eq_exp_minus_1)
  have w: "unat w < 2 ^ 32" using unsigned_less[of w, where 'a = nat] by simp
  then have "unat w div 65536 < 65536" by (simp add: div_less_iff_less_mult)
  then show "unat (sp_hi w) = unat w div 65536"
    unfolding sp_hi_def unsigned_ucast_eq unsigned_drop_bit_eq
    using w by (simp add: take_bit_nat_eq_self drop_bit_eq_div)
  show "unat (sp_lo w) = unat w mod 65536"
    unfolding sp_lo_def unsigned_ucast_eq unat_low_mask[OF m] by (simp add: take_bit_nat_eq_self)
qed

end
