(* ===== verification/Precompose.thy ===== *)
theory Precompose
  imports Surrogates Precompose_Tables
begin

text \<open>
  Precomposition and decomposition of UTF-16 strings, from \<open>libatalk/unicode/util_unistr.c\<close> with
  the tables of \<open>precompose.h\<close>. The input is the list of the units that \<open>inplen\<close> covers; a call
  gives its result with the units it wrote to the output buffer, the terminator included, and
  the value left in \<open>outlen\<close>. An error is \<open>Inl\<close>, with the value of \<open>errno\<close> when the code sets it.
\<close>

definition SBASE :: nat where "SBASE = 0xAC00"
definition LBASE :: nat where "LBASE = 0x1100"
definition VBASE :: nat where "VBASE = 0x1161"
definition TBASE :: nat where "TBASE = 0x11A7"
definition LCOUNT :: nat where "LCOUNT = 19"
definition VCOUNT :: nat where "VCOUNT = 21"
definition TCOUNT :: nat where "TCOUNT = 28"
definition NCOUNT :: nat where "NCOUNT = 588"
definition SCOUNT :: nat where "SCOUNT = 11172"

lemmas hangul_consts = SBASE_def LBASE_def VBASE_def TBASE_def LCOUNT_def VCOUNT_def TCOUNT_def NCOUNT_def SCOUNT_def

definition PRECOMP_COUNT :: int where "PRECOMP_COUNT = 955"
definition DECOMP_COUNT :: int where "DECOMP_COUNT = 955"
definition PRECOMP_SP_COUNT :: int where "PRECOMP_SP_COUNT = 46"
definition DECOMP_SP_COUNT :: int where "DECOMP_SP_COUNT = 46"
definition MAXCOMBLEN :: nat where "MAXCOMBLEN = 3"
definition MAXCOMBSPLEN :: nat where "MAXCOMBSPLEN = 4"
definition COMBBUFLEN :: nat where "COMBBUFLEN = 4"

subsection \<open>Table searches\<close>

text \<open>The binary search that the four look-ups share, on the bounds \<open>lo\<close> and \<open>hi\<close> (\<open>min\<close> and \<open>max\<close>).\<close>

function bsearch :: "('a \<Rightarrow> 'k::linorder) \<Rightarrow> 'a list \<Rightarrow> 'k \<Rightarrow> int \<Rightarrow> int \<Rightarrow> 'a option" where
  "bsearch key tbl sought lo hi =
     (if hi \<ge> lo then
        (let mid = (lo + hi) div 2; that = key (tbl ! nat mid) in
         if that < sought then bsearch key tbl sought (mid + 1) hi
         else if that > sought then bsearch key tbl sought lo (mid - 1)
         else Some (tbl ! nat mid))
      else None)"
  by pat_completeness auto
termination
  by (relation "measure (\<lambda>(_, _, _, lo, hi). nat (hi - lo + 1))") (auto simp: Let_def)

declare bsearch.simps [simp del]

definition pair_key :: "int \<times> int \<times> int \<Rightarrow> 32 word" where
  "pair_key = (\<lambda>(r, b, c). push_bit 16 (word_of_int b) OR word_of_int c)"

definition pair_key_sp :: "int \<times> int \<times> int \<Rightarrow> 64 word" where
  "pair_key_sp = (\<lambda>(r, b, c). push_bit 32 (word_of_int b) OR word_of_int c)"

definition repl_key :: "int \<times> int \<times> int \<Rightarrow> 32 word" where
  "repl_key = (\<lambda>(r, b, c). word_of_int r)"

definition do_precomposition :: "32 word \<Rightarrow> 32 word \<Rightarrow> ucs2" where
  "do_precomposition base comb =
     (case bsearch pair_key precompositions (push_bit 16 base OR comb) 0 (PRECOMP_COUNT - 1) of
        Some (r, b, c) \<Rightarrow> word_of_int r
      | None \<Rightarrow> 0)"

definition do_precomposition_sp :: "32 word \<Rightarrow> 32 word \<Rightarrow> 32 word" where
  "do_precomposition_sp base_sp comb_sp =
     (case bsearch pair_key_sp precompositions_sp (push_bit 32 (ucast base_sp) OR ucast comb_sp) 0 (PRECOMP_SP_COUNT - 1) of
        Some (r, b, c) \<Rightarrow> word_of_int r
      | None \<Rightarrow> 0)"

definition do_decomposition :: "ucs2 \<Rightarrow> 32 word" where
  "do_decomposition base =
     (case bsearch repl_key decompositions (ucast base) 0 (DECOMP_COUNT - 1) of
        Some e \<Rightarrow> pair_key e
      | None \<Rightarrow> 0)"

definition do_decomposition_sp :: "32 word \<Rightarrow> 64 word" where
  "do_decomposition_sp base_sp =
     (case bsearch repl_key decompositions_sp base_sp 0 (DECOMP_SP_COUNT - 1) of
        Some e \<Rightarrow> pair_key_sp e
      | None \<Rightarrow> 0)"

subsection \<open>Precomposition\<close>

text \<open>The inner loop on surrogate pairs: \<open>r\<close> are the units after the low surrogate.\<close>

fun precompose_sp :: "32 word \<Rightarrow> ucs2 list \<Rightarrow> 32 word \<times> ucs2 list" where
  "precompose_sp base_sp (h # l # r) =
     (let result_sp = do_precomposition_sp base_sp (sp h l) in
      if result_sp \<noteq> 0 then precompose_sp result_sp r else (base_sp, h # l # r))"
| "precompose_sp base_sp r = (base_sp, r)"

lemma precompose_sp_shrinks: "length (snd (precompose_sp b r)) \<le> length r"
  by (induction b r rule: precompose_sp.induct) (auto simp: Let_def)

lemma precompose_sp_shrinks': "precompose_sp b r = (b', x # r') \<Longrightarrow> length r' < Suc (length r)"
  using precompose_sp_shrinks[of b r] by simp

text \<open>
  The main loop: \<open>base\<close> is the pending character and \<open>rest\<close> holds the units after the one that
  \<open>in\<close> points to, so that \<open>i == inplen\<close> after the increment reads \<open>rest = []\<close> and
  \<open>i + 6 <= inplen\<close> says that two units follow \<open>comb\<close>.
\<close>

function precompose_loop :: "ucs2 \<Rightarrow> ucs2 list \<Rightarrow> nat \<Rightarrow> ucs2 list \<Rightarrow> conv_error option \<times> ucs2 list \<times> nat" where
  "precompose_loop base rest outlen out =
     (if outlen > 2 then
        (case rest of
           [] \<Rightarrow> (None, out @ [base, 0], outlen - 2)
         | comb # r \<Rightarrow>
             (if comb < 0x300 then precompose_loop comb r (outlen - 2) (out @ [base])
              else if VBASE \<le> unat comb \<and> unat comb \<le> VBASE + VCOUNT then
                (if LBASE \<le> unat base \<and> unat base < LBASE + LCOUNT then
                   (let lindex = unat base - LBASE; vindex = unat comb - VBASE in
                    precompose_loop (of_nat (SBASE + (lindex * VCOUNT + vindex) * TCOUNT)) r outlen out)
                 else precompose_loop comb r (outlen - 2) (out @ [base]))
              else if TBASE < unat comb \<and> unat comb < TBASE + TCOUNT then
                (if SBASE \<le> unat base \<and> unat base < SBASE + SCOUNT \<and> (unat base - SBASE) mod TCOUNT = 0 then
                   precompose_loop (of_nat (unat base + (unat comb - TBASE))) r outlen out
                 else precompose_loop comb r (outlen - 2) (out @ [base]))
              else if 0xD800 \<le> base \<and> base < 0xDC00 then
                (if 0xDC00 \<le> comb \<and> comb < 0xE000 \<and> 2 \<le> length r then
                   (case precompose_sp (sp base comb) r of
                      (base_sp, r') \<Rightarrow>
                        (if outlen - 2 \<le> 2 then (Some E2BIG, out @ [sp_hi base_sp], outlen - 2)
                         else
                           (case r' of
                              [] \<Rightarrow> (None, out @ [sp_hi base_sp, sp_lo base_sp, 0], outlen - 4)
                            | b # r'' \<Rightarrow> precompose_loop b r'' (outlen - 4) (out @ [sp_hi base_sp, sp_lo base_sp]))))
                 else precompose_loop comb r (outlen - 2) (out @ [base]))
              else
                (let result = do_precomposition (ucast base) (ucast comb) in
                 if result \<noteq> 0 then precompose_loop result r outlen out
                 else precompose_loop comb r (outlen - 2) (out @ [base]))))
      else (Some E2BIG, out, outlen))"
  by pat_completeness auto
termination
  by (relation "measure (\<lambda>(_, rest, _, _). length rest)") (auto dest: precompose_sp_shrinks'[OF sym])

declare precompose_loop.simps [simp del]

type_synonym w_result = "(conv_error option + nat) \<times> ucs2 list \<times> nat"

definition w_return :: "nat \<Rightarrow> conv_error option \<times> ucs2 list \<times> nat \<Rightarrow> w_result" where
  "w_return o_len = (\<lambda>(e, out, left). (case e of None \<Rightarrow> Inr (o_len - left) | Some x \<Rightarrow> Inl (Some x), out, left))"

definition precompose_w :: "ucs2 list \<Rightarrow> nat \<Rightarrow> nat \<Rightarrow> w_result" where
  "precompose_w name inplen outlen =
     (if inplen = 0 \<or> odd inplen \<or> inplen > outlen then (Inl None, [], outlen)
      else w_return outlen
        (precompose_loop (name ! 0) (drop 1 (take (inplen div 2) name)) outlen []))"

subsection \<open>Decomposition\<close>

text \<open>
  The buffer \<open>comb\<close> is filled from its end, so that its used part is a list that grows at the
  head. Each of these gives the base with the used part of the buffer.
\<close>

definition hangul_decompose :: "ucs2 \<Rightarrow> ucs2 \<times> ucs2 list" where
  "hangul_decompose base =
     (let sindex = unat base - SBASE;
          v = VBASE + (sindex mod NCOUNT) div TCOUNT;
          tjamo = TBASE + sindex mod TCOUNT
      in (of_nat (LBASE + sindex div NCOUNT),
          if tjamo = TBASE then [of_nat v] else [of_nat v, of_nat tjamo]))"

function decompose_bmp :: "ucs2 \<Rightarrow> ucs2 list \<Rightarrow> ucs2 \<times> ucs2 list" where
  "decompose_bmp base comb =
     (let result = do_decomposition base in
      if result = 0 then (base, comb)
      else
        (let base' = sp_hi result; comb' = sp_lo result # comb in
         if 0x007f < base' \<and> length comb' < MAXCOMBLEN then decompose_bmp base' comb'
         else (base', comb')))"
  by pat_completeness auto
termination by (relation "measure (\<lambda>(_, comb). MAXCOMBLEN - length comb)") auto

function decompose_sp :: "32 word \<Rightarrow> ucs2 list \<Rightarrow> 32 word \<times> ucs2 list" where
  "decompose_sp base_sp comb =
     (let result_sp = do_decomposition_sp base_sp in
      if result_sp = 0 then (base_sp, comb)
      else
        (let base' = ucast (drop_bit 32 result_sp);
             comb' = ucast (drop_bit 16 result_sp AND 0xFFFF) # ucast (result_sp AND 0xFFFF) # comb in
         if length comb' < MAXCOMBSPLEN then decompose_sp base' comb' else (base', comb')))"
  by pat_completeness auto
termination by (relation "measure (\<lambda>(_, comb). MAXCOMBSPLEN - length comb)") auto

declare decompose_bmp.simps [simp del] decompose_sp.simps [simp del]

text \<open>
  One turn of the loop up to the final check of the space: a high surrogate that is written
  ahead, the base, the combining units and the input that is left.
\<close>

definition decompose_split :: "ucs2 \<Rightarrow> ucs2 list \<Rightarrow> ucs2 list \<times> ucs2 \<times> ucs2 list \<times> ucs2 list" where
  "decompose_split base rest =
     (if base \<le> 0x007f then ([], base, [], rest)
      else if SBASE \<le> unat base \<and> unat base < SBASE + SCOUNT then
        (case hangul_decompose base of (b, comb) \<Rightarrow> ([], b, comb, rest))
      else if 0xD800 \<le> base \<and> base < 0xDC00 then
        (case rest of
           [] \<Rightarrow> ([], base, [], rest)
         | lo # rest' \<Rightarrow>
             (case decompose_sp (sp base lo) [] of (base_sp, comb) \<Rightarrow> ([sp_hi base_sp], sp_lo base_sp, comb, rest')))
      else (case decompose_bmp base [] of (b, comb) \<Rightarrow> ([], b, comb, rest)))"

lemma decompose_split_shrinks: "decompose_split b rest = (pre, b', comb, rest') \<Longrightarrow> length rest' \<le> length rest"
  by (auto simp: decompose_split_def split: if_splits prod.splits list.splits)

function decompose_loop :: "ucs2 list \<Rightarrow> nat \<Rightarrow> ucs2 list \<Rightarrow> conv_error option \<times> ucs2 list \<times> nat" where
  "decompose_loop [] outlen out = (None, out @ [0], outlen)"
| "decompose_loop (base # rest) outlen out =
     (case decompose_split base rest of
        (pre, b, comb, rest') \<Rightarrow>
          (if pre \<noteq> [] \<and> outlen < (length comb + 3) * 2 then (Some E2BIG, out, outlen)
           else if outlen - 2 * length pre < (length comb + 2) * 2 then (Some E2BIG, out @ pre, outlen - 2 * length pre)
           else decompose_loop rest' (outlen - 2 * length pre - 2 * (1 + length comb)) (out @ pre @ b # comb)))"
  by pat_completeness auto
termination
  by (relation "measure (\<lambda>(xs, _). length xs)") (auto dest: decompose_split_shrinks[OF sym])

definition decompose_w :: "ucs2 list \<Rightarrow> nat \<Rightarrow> nat \<Rightarrow> w_result" where
  "decompose_w name inplen outlen =
     (if inplen = 0 \<or> odd inplen then (Inl None, [], outlen)
      else w_return outlen (decompose_loop (take (inplen div 2) name) outlen []))"

end
