(* ===== verification/Precompose_Lookup.thy ===== *)
theory Precompose_Lookup
  imports Precompose
begin

text \<open>
  The table look-ups. Each table is strictly sorted by the key that its search uses, so the
  binary search finds an entry exactly when there is one, and the two tables of each kind hold
  the same entries.
\<close>

subsection \<open>Binary search\<close>

locale sorted_table =
  fixes key :: "'a \<Rightarrow> 'k::linorder" and tbl :: "'a list"
  assumes strict: "sorted_wrt (\<lambda>x y. key x < key y) tbl"
begin

lemma nth_mono: "i < j \<Longrightarrow> j < length tbl \<Longrightarrow> key (tbl ! i) < key (tbl ! j)"
  using strict by (simp add: sorted_wrt_iff_nth_less)

lemma nth_less_iff: "i < length tbl \<Longrightarrow> j < length tbl \<Longrightarrow> key (tbl ! i) < key (tbl ! j) \<longleftrightarrow> i < j"
  using nth_mono[of i j] nth_mono[of j i] by (cases i j rule: linorder_cases) auto

lemma search_sound:
  "bsearch key tbl k lo hi = Some e \<Longrightarrow> 0 \<le> lo \<Longrightarrow> hi < int (length tbl) \<Longrightarrow> e \<in> set tbl \<and> key e = k"
proof (induction key tbl k lo hi rule: bsearch.induct)
  case (1 key tbl k lo hi)
  then show ?case
    by (subst (asm) (3) bsearch.simps) (auto simp: Let_def split: if_splits intro!: nth_mem)
qed

lemma search_complete:
  assumes "j < length tbl" "key (tbl ! j) = k"
  shows "0 \<le> lo \<Longrightarrow> lo \<le> int j \<Longrightarrow> int j \<le> hi \<Longrightarrow> hi < int (length tbl) \<Longrightarrow> bsearch key tbl k lo hi = Some (tbl ! j)"
proof (induction "nat (hi - lo)" arbitrary: lo hi rule: less_induct)
  case less
  define mid where "mid = (lo + hi) div 2"
  have m: "lo \<le> mid" "mid \<le> hi" using less.prems by (auto simp: mid_def)
  then obtain i where i: "mid = int i" "i < length tbl" using less.prems by (metis nonneg_int_cases order.trans order_le_less_trans of_nat_less_iff)
  have lt: "key (tbl ! i) < k \<longleftrightarrow> i < j" "k < key (tbl ! i) \<longleftrightarrow> j < i"
    using nth_less_iff[of i j] nth_less_iff[of j i] assms i by auto
  show ?case
  proof (cases i j rule: linorder_cases)
    case less
    then show ?thesis using less.prems less.hyps[of hi "mid + 1"] i m lt
      by (subst bsearch.simps) (auto simp: mid_def[symmetric] Let_def)
  next
    case equal
    then show ?thesis using less.prems i lt assms by (subst bsearch.simps) (auto simp: mid_def[symmetric] Let_def)
  next
    case greater
    then show ?thesis using less.prems less.hyps[of "mid - 1" lo] i m lt
      by (subst bsearch.simps) (auto simp: mid_def[symmetric] Let_def)
  qed
qed

lemma search_iff:
  assumes "n = int (length tbl)"
  shows "bsearch key tbl k 0 (n - 1) = Some e \<longleftrightarrow> e \<in> set tbl \<and> key e = k"
proof
  assume "bsearch key tbl k 0 (n - 1) = Some e"
  then show "e \<in> set tbl \<and> key e = k" using search_sound assms by auto
next
  assume "e \<in> set tbl \<and> key e = k"
  then obtain j where "j < length tbl" "tbl ! j = e" "key (tbl ! j) = k" by (metis in_set_conv_nth)
  then show "bsearch key tbl k 0 (n - 1) = Some e" using search_complete[of j k 0 "n - 1"] assms by auto
qed

lemma search_none:
  assumes "n = int (length tbl)"
  shows "bsearch key tbl k 0 (n - 1) = None \<longleftrightarrow> k \<notin> key ` set tbl"
  using search_iff[OF assms, of k] by (metis image_iff not_None_eq)

lemma key_inj: "e \<in> set tbl \<Longrightarrow> e' \<in> set tbl \<Longrightarrow> key e = key e' \<Longrightarrow> e = e'"
  by (metis option.inject search_iff[OF refl])

end

subsection \<open>The tables\<close>

definition pair_less :: "int \<times> int \<times> int \<Rightarrow> int \<times> int \<times> int \<Rightarrow> bool" where
  "pair_less = (\<lambda>(r, b, c) (r', b', c'). b < b' \<or> b = b' \<and> c < c')"

lemmas tables = precompositions_def decompositions_def precompositions_sp_def decompositions_sp_def
  precompositions_rows_def decompositions_rows_def precompositions_sp_rows_def decompositions_sp_rows_def

lemma table_lengths:
  "int (length precompositions) = PRECOMP_COUNT" "int (length decompositions) = DECOMP_COUNT"
  "int (length precompositions_sp) = PRECOMP_SP_COUNT" "int (length decompositions_sp) = DECOMP_SP_COUNT"
  by (simp_all add: tables PRECOMP_COUNT_def DECOMP_COUNT_def PRECOMP_SP_COUNT_def DECOMP_SP_COUNT_def)

fun rows_sorted :: "('a \<Rightarrow> 'a \<Rightarrow> bool) \<Rightarrow> 'a list list \<Rightarrow> bool" where
  "rows_sorted lt [] = True"
| "rows_sorted lt (xs # xss) =
     (xs \<noteq> [] \<and> successively lt xs \<and> (case xss of [] \<Rightarrow> True | ys # _ \<Rightarrow> lt (last xs) (hd ys)) \<and> rows_sorted lt xss)"

lemma rows_sorted_concat: "rows_sorted lt xss \<Longrightarrow> successively lt (concat xss)"
proof (induction xss)
  case (Cons xs xss)
  then show ?case by (cases xss) (auto simp: successively_append_iff hd_append)
qed simp

lemma precompositions_sorted: "successively pair_less precompositions"
  unfolding precompositions_def by (rule rows_sorted_concat) code_simp

lemma decompositions_sorted: "successively (\<lambda>x y. fst x < fst y) decompositions"
  unfolding decompositions_def by (rule rows_sorted_concat) code_simp

lemma precompositions_sp_sorted: "successively pair_less precompositions_sp"
  unfolding precompositions_sp_def by (rule rows_sorted_concat) code_simp

lemma decompositions_sp_sorted: "successively (\<lambda>x y. fst x < fst y) decompositions_sp"
  unfolding decompositions_sp_def by (rule rows_sorted_concat) code_simp

text \<open>
  What every entry satisfies: all three are 16-bit values, the combining character is none of
  the Hangul vowels and trailing consonants, and no surrogate or Hangul syllable takes part.
\<close>

definition bmp_entry :: "int \<times> int \<times> int \<Rightarrow> bool" where
  "bmp_entry = (\<lambda>(r, b, c). 0x80 \<le> r \<and> r < 0x10000 \<and> \<not> (0xAC00 \<le> r \<and> r < 0xE000) \<and>
     0 < b \<and> b < 0x10000 \<and> \<not> (0xAC00 \<le> b \<and> b < 0xE000) \<and>
     0x300 \<le> c \<and> c < 0x10000 \<and> \<not> (0x1161 \<le> c \<and> c \<le> 0x11C3))"

lemma precompositions_entries: "list_all bmp_entry precompositions"
  by (simp add: tables bmp_entry_def)

definition sp_entry :: "int \<times> int \<times> int \<Rightarrow> bool" where
  "sp_entry = (\<lambda>(r, b, c). 0xD8000000 \<le> r \<and> r < 0xDC000000 \<and> 0xD8000000 \<le> b \<and> b < 0xDC000000 \<and>
     0xDC00 \<le> r mod 65536 \<and> r mod 65536 < 0xE000 \<and> 0xDC00 \<le> b mod 65536 \<and> b mod 65536 < 0xE000 \<and>
     0x3000000 \<le> c \<and> c < 0x100000000)"

lemma precompositions_sp_entries: "list_all sp_entry precompositions_sp"
  by (simp add: tables sp_entry_def)

text \<open>
  The entries of the decomposition table are those of the precomposition table in another order:
  the ones of a range of precomposed characters, sorted, make up a group of it.
\<close>

fun bucket :: "(int \<times> 'a) list list \<Rightarrow> int \<times> int \<Rightarrow> (int \<times> 'a) list" where
  "bucket xss (lo, hi) = foldr (insort_key fst) (concat (map (filter (\<lambda>e. lo \<le> fst e \<and> fst e \<le> hi)) xss)) []"

lemma set_bucket: "set (bucket xss lh) \<subseteq> set (concat xss)"
proof -
  have "set (foldr (insort_key fst) xs []) = set xs" for xs :: "(int \<times> 'a) list"
    by (induction xs) (auto simp: set_insort_key)
  then show ?thesis by (cases lh) auto
qed

lemma decompositions_first:
  "map (bucket precompositions_rows)
    [(0xc0, 0xee), (0xef, 0x11c), (0x11d, 0x151), (0x154, 0x17d), (0x17e, 0x1f5), (0x1f8, 0x227),
     (0x228, 0x407), (0x40c, 0x4ef)] = take 8 decompositions_rows"
  by code_simp

lemma decompositions_second:
  "map (bucket precompositions_rows)
    [(0x4f0, 0xb4b), (0xb4c, 0x1b08), (0x1b0a, 0x1e1e), (0x1e1f, 0x1e46), (0x1e47, 0x1e6e),
     (0x1e6f, 0x1e96), (0x1e97, 0x1ec3), (0x1ec4, 0x1eeb)] = take 8 (drop 8 decompositions_rows)"
  by code_simp

lemma decompositions_third:
  "map (bucket precompositions_rows)
    [(0x1eec, 0x1f1b), (0x1f1c, 0x1f45), (0x1f48, 0x1f7a), (0x1f7c, 0x1fa6), (0x1fa7, 0x1fda),
     (0x1fdd, 0x3071), (0x3073, 0x30fa), (0x30fe, 0xfb4e)] = drop 16 decompositions_rows"
  by code_simp

lemma decompositions_sp_all:
  "[bucket precompositions_sp_rows (0, 0x100000000)] = [concat decompositions_sp_rows]"
  by code_simp

subsection \<open>Keys as numbers\<close>

lemma unat_pair:
  fixes x y :: "'a::len word"
  assumes "unat x * 2 ^ k < 2 ^ LENGTH('a)" "unat y < 2 ^ k"
  shows "unat (push_bit k x OR y) = unat x * 2 ^ k + unat y"
proof -
  have "unat (push_bit k x) = unat x * 2 ^ k"
    unfolding unsigned_push_bit_eq using assms(1) by (simp add: push_bit_nat_def take_bit_nat_eq_self)
  then show ?thesis using unat_or_add[of "push_bit k x" k y] assms(2) by simp
qed

lemma unat_of_int_small: "0 \<le> i \<Longrightarrow> i < 2 ^ LENGTH('a) \<Longrightarrow> unat (word_of_int i :: 'a::len word) = nat i"
  by (simp add: unsigned_of_int take_bit_int_eq_self)

lemma entry_cases:
  assumes "e \<in> set precompositions"
  obtains r b c where "e = (r, b, c)" "0x80 \<le> r" "r < 0x10000" "0 < b" "b < 0x10000" "0x300 \<le> c" "c < 0x10000"
    "\<not> (0xAC00 \<le> r \<and> r < 0xE000)" "\<not> (0xAC00 \<le> b \<and> b < 0xE000)" "\<not> (0x1161 \<le> c \<and> c \<le> 0x11C3)"
  using precompositions_entries assms by (cases e) (auto simp: list_all_iff bmp_entry_def)

lemma entry_sp_cases:
  assumes "e \<in> set precompositions_sp"
  obtains r b c where "e = (r, b, c)" "0xD8000000 \<le> r" "r < 0xDC000000" "0xD8000000 \<le> b" "b < 0xDC000000"
    "0xDC00 \<le> r mod 65536" "r mod 65536 < 0xE000" "0xDC00 \<le> b mod 65536" "b mod 65536 < 0xE000"
    "0x3000000 \<le> c" "c < 0x100000000"
  using precompositions_sp_entries assms by (cases e) (auto simp: list_all_iff sp_entry_def)

lemma unat_pair_key:
  assumes "0 \<le> b" "b < 0x10000" "0 \<le> c" "c < 0x10000"
  shows "unat (pair_key (r, b, c)) = nat b * 65536 + nat c"
  unfolding pair_key_def using unat_pair[of "word_of_int b :: 32 word" 16 "word_of_int c"] assms
  by (simp add: unat_of_int_small nat_less_iff)

lemma unat_pair_key_sp:
  assumes "0 \<le> b" "b < 0x100000000" "0 \<le> c" "c < 0x100000000"
  shows "unat (pair_key_sp (r, b, c)) = nat b * 4294967296 + nat c"
  unfolding pair_key_sp_def using unat_pair[of "word_of_int b :: 64 word" 32 "word_of_int c"] assms
  by (simp add: unat_of_int_small nat_less_iff)

lemma lex_less: "b < b' \<or> b = b' \<and> c < c' \<Longrightarrow> c < m \<Longrightarrow> c' < m \<Longrightarrow> b * m + c < b' * m + (c' :: nat)"
proof -
  assume a: "b < b' \<or> b = b' \<and> c < c'" and m: "c < m" "c' < m"
  have "b < b' \<Longrightarrow> (b + 1) * m \<le> b' * m" by (intro mult_right_mono) auto
  then show ?thesis using a m by (auto simp: algebra_simps)
qed

lemma transp_pair_less: "transp pair_less"
  by (auto simp: pair_less_def transp_def)

lemma successively_sorted: "successively R xs \<Longrightarrow> transp R \<Longrightarrow> sorted_wrt R xs"
  by (simp add: successively_conv_sorted_wrt)

lemma bucket_groups: "map (bucket xss) bs = yss \<Longrightarrow> set (concat yss) \<subseteq> set (concat xss)"
  using set_bucket by fastforce

lemma decompositions_set: "set decompositions = set precompositions"
proof -
  have "decompositions_rows = take 8 decompositions_rows @ take 8 (drop 8 decompositions_rows) @ drop 16 decompositions_rows"
    by (metis append_take_drop_id drop_drop numeral_Bit0 add_numeral_left)
  then have "set (concat decompositions_rows) = set (concat (take 8 decompositions_rows)) \<union>
      set (concat (take 8 (drop 8 decompositions_rows))) \<union> set (concat (drop 16 decompositions_rows))"
    by (metis concat_append set_append Un_assoc)
  then have "set (concat decompositions_rows) \<subseteq> set (concat precompositions_rows)"
    using bucket_groups[OF decompositions_first] bucket_groups[OF decompositions_second] bucket_groups[OF decompositions_third] by blast
  then have sub: "set decompositions \<subseteq> set precompositions" by (simp add: decompositions_def precompositions_def)
  have "sorted_wrt (\<lambda>x y. fst x < fst y) decompositions"
    by (rule successively_sorted[OF decompositions_sorted]) (auto simp: transp_def)
  then have "distinct decompositions" by (metis distinct_conv_nth less_irrefl linorder_neqE_nat sorted_wrt_iff_nth_less)
  then have "card (set decompositions) = 955" "card (set precompositions) \<le> 955"
    using table_lengths(1,2) card_length[of precompositions] by (simp_all add: distinct_card DECOMP_COUNT_def PRECOMP_COUNT_def)
  then show ?thesis using sub card_seteq[of "set precompositions"] by simp
qed

lemma decompositions_sp_set: "set decompositions_sp = set precompositions_sp"
proof -
  have sub: "set decompositions_sp \<subseteq> set precompositions_sp"
    using decompositions_sp_all set_bucket[of precompositions_sp_rows] unfolding decompositions_sp_def precompositions_sp_def
    by (metis list.inject)
  have "sorted_wrt (\<lambda>x y. fst x < fst y) decompositions_sp"
    by (rule successively_sorted[OF decompositions_sp_sorted]) (auto simp: transp_def)
  then have "distinct decompositions_sp" by (metis distinct_conv_nth less_irrefl linorder_neqE_nat sorted_wrt_iff_nth_less)
  then have "card (set decompositions_sp) = 46" "card (set precompositions_sp) \<le> 46"
    using table_lengths(3,4) card_length[of precompositions_sp] by (simp_all add: distinct_card DECOMP_SP_COUNT_def PRECOMP_SP_COUNT_def)
  then show ?thesis using sub card_seteq[of "set precompositions_sp"] by simp
qed

interpretation pre: sorted_table pair_key precompositions
proof unfold_locales
  show "sorted_wrt (\<lambda>x y. pair_key x < pair_key y) precompositions"
  proof (rule sorted_wrt_mono_rel[OF _ successively_sorted[OF precompositions_sorted transp_pair_less]])
    fix x y
    assume "x \<in> set precompositions" "y \<in> set precompositions" and less: "pair_less x y"
    then obtain r b c r' b' c' where e: "x = (r, b, c)" "y = (r', b', c')" "0 < b" "b < 0x10000" "0x300 \<le> c" "c < 0x10000"
      "0 < b'" "b' < 0x10000" "0x300 \<le> c'" "c' < 0x10000" by (elim entry_cases) blast
    then show "pair_key x < pair_key y"
      unfolding word_less_nat_alt using lex_less[of "nat b" "nat b'" "nat c" "nat c'" 65536] less
      by (simp add: unat_pair_key pair_less_def nat_less_iff) linarith
  qed
qed

interpretation pre_sp: sorted_table pair_key_sp precompositions_sp
proof unfold_locales
  show "sorted_wrt (\<lambda>x y. pair_key_sp x < pair_key_sp y) precompositions_sp"
  proof (rule sorted_wrt_mono_rel[OF _ successively_sorted[OF precompositions_sp_sorted transp_pair_less]])
    fix x y
    assume "x \<in> set precompositions_sp" "y \<in> set precompositions_sp" and less: "pair_less x y"
    then obtain r b c r' b' c' where e: "x = (r, b, c)" "y = (r', b', c')" "0xD8000000 \<le> b" "b < 0xDC000000" "0x3000000 \<le> c" "c < 0x100000000"
      "0xD8000000 \<le> b'" "b' < 0xDC000000" "0x3000000 \<le> c'" "c' < 0x100000000" by (elim entry_sp_cases) blast
    then show "pair_key_sp x < pair_key_sp y"
      unfolding word_less_nat_alt using lex_less[of "nat b" "nat b'" "nat c" "nat c'" 4294967296] less
      by (simp add: unat_pair_key_sp pair_less_def nat_less_iff) linarith
  qed
qed

interpretation dec: sorted_table repl_key decompositions
proof unfold_locales
  show "sorted_wrt (\<lambda>x y. repl_key x < repl_key y) decompositions"
  proof (rule sorted_wrt_mono_rel[OF _ successively_sorted[OF decompositions_sorted]])
    fix x y
    assume "x \<in> set decompositions" "y \<in> set decompositions" and less: "fst x < fst y"
    then obtain r b c r' b' c' where "x = (r, b, c)" "y = (r', b', c')" "0x80 \<le> r" "r < 0x10000" "0x80 \<le> r'" "r' < 0x10000"
      unfolding decompositions_set by (elim entry_cases) blast
    then show "repl_key x < repl_key y" using less by (simp add: repl_key_def word_less_nat_alt unat_of_int_small nat_less_iff)
  qed (auto simp: transp_def)
qed

interpretation dec_sp: sorted_table repl_key decompositions_sp
proof unfold_locales
  show "sorted_wrt (\<lambda>x y. repl_key x < repl_key y) decompositions_sp"
  proof (rule sorted_wrt_mono_rel[OF _ successively_sorted[OF decompositions_sp_sorted]])
    fix x y
    assume "x \<in> set decompositions_sp" "y \<in> set decompositions_sp" and less: "fst x < fst y"
    then obtain r b c r' b' c' where "x = (r, b, c)" "y = (r', b', c')" "0xD8000000 \<le> r" "r < 0xDC000000" "0xD8000000 \<le> r'" "r' < 0xDC000000"
      unfolding decompositions_sp_set by (elim entry_sp_cases) blast
    then show "repl_key x < repl_key y" using less by (simp add: repl_key_def word_less_nat_alt unat_of_int_small nat_less_iff)
  qed (auto simp: transp_def)
qed

end
