(* ===== verification/Precompose_Claims.thy ===== *)
theory Precompose_Claims
  imports Precompose_Lookup
begin

text \<open>
  What the composition code promises: the table look-ups are inverse to each other, every
  character survives decomposition followed by precomposition, and no buffer is overrun; and
  two inputs on which the code goes wrong.
\<close>

subsection \<open>Pairs of units\<close>

definition sp64 :: "32 word \<Rightarrow> 32 word \<Rightarrow> 64 word" where
  "sp64 b c = push_bit 32 (ucast b) OR ucast c"

lemma sp64_parts [simp]:
  "ucast (drop_bit 32 (sp64 b c)) = b" "ucast (drop_bit 16 (sp64 b c) AND 0xFFFF) = sp_hi c" "ucast (sp64 b c AND 0xFFFF) = sp_lo c"
proof -
  have m: "(0xFFFF :: 64 word) = mask 16" "(0xFFFF :: 32 word) = mask 16" by (simp_all add: mask_eq_exp_minus_1)
  show "ucast (drop_bit 32 (sp64 b c)) = b" unfolding sp64_def by (rule bit_word_eqI) (auto simp: bit_simps dest: bit_imp_le_length)
  show "ucast (drop_bit 16 (sp64 b c) AND 0xFFFF) = sp_hi c" unfolding sp64_def sp_hi_def m by (rule bit_word_eqI) (auto simp: bit_simps dest: bit_imp_le_length)
  show "ucast (sp64 b c AND 0xFFFF) = sp_lo c" unfolding sp64_def sp_lo_def m by (rule bit_word_eqI) (auto simp: bit_simps dest: bit_imp_le_length)
qed

lemma sp64_inject: "sp64 b c = sp64 b' c' \<longleftrightarrow> b = b' \<and> c = c'"
  by (metis sp64_parts sp_parts(3))

lemma ucast_of_int_small:
  assumes "LENGTH('a) \<le> LENGTH('b)" "0 \<le> i" "i < 2 ^ LENGTH('a)"
  shows "ucast (word_of_int i :: 'a::len word) = (word_of_int i :: 'b::len word)"
proof -
  have "(2 :: int) ^ LENGTH('a) \<le> 2 ^ LENGTH('b)" using assms(1) by (simp add: power_increasing)
  then have "i < 2 ^ LENGTH('b)" using assms(3) by linarith
  moreover have "unat (ucast (word_of_int i :: 'a word) :: 'b word) = unat (word_of_int i :: 'a word)"
    unfolding unsigned_ucast_eq by (rule take_bit_nat_eq_self) (use assms(1) in \<open>meson order_less_le_trans unsigned_less power_increasing one_le_numeral\<close>)
  ultimately show ?thesis using assms by (simp add: word_unat_eq_iff unat_of_int_small)
qed

lemma uint_of_int_small: "0 \<le> i \<Longrightarrow> i < 2 ^ LENGTH('a) \<Longrightarrow> uint (word_of_int i :: 'a::len word) = i"
  by (simp add: unsigned_of_int take_bit_int_eq_self)

lemma uint_eq_iff [simp]: "uint u = uint v \<longleftrightarrow> u = v"
  by (simp add: word_uint_eq_iff)

lemma pair_key_sp16:
  assumes "0 \<le> b" "b < 0x10000" "0 \<le> c" "c < 0x10000"
  shows "pair_key (r, b, c) = sp (word_of_int b) (word_of_int c)"
  using assms ucast_of_int_small[where 'a = 16 and 'b = 32, of b] ucast_of_int_small[where 'a = 16 and 'b = 32, of c]
  by (simp add: pair_key_def sp_def)

lemma pair_key_sp64:
  assumes "0 \<le> b" "b < 0x100000000" "0 \<le> c" "c < 0x100000000"
  shows "pair_key_sp (r, b, c) = sp64 (word_of_int b) (word_of_int c)"
  using assms ucast_of_int_small[where 'a = 32 and 'b = 64, of b] ucast_of_int_small[where 'a = 32 and 'b = 64, of c]
  by (simp add: pair_key_sp_def sp64_def)

subsection \<open>Look-ups\<close>

lemma in_words:
  assumes "e \<in> set precompositions"
  shows "\<exists>u b c. e = (uint (u :: ucs2), uint (b :: ucs2), uint (c :: ucs2)) \<and> u \<noteq> 0 \<and> sp b c \<noteq> 0 \<and> pair_key e = sp b c \<and> repl_key e = ucast u"
  using assms
proof (cases rule: entry_cases)
  case (1 r b c)
  let ?u = "word_of_int r :: ucs2" and ?b = "word_of_int b :: ucs2" and ?c = "word_of_int c :: ucs2"
  have u: "uint ?u = r" "uint ?b = b" "uint ?c = c" using 1 by (simp_all add: uint_of_int_small)
  have k: "pair_key e = sp ?b ?c" "repl_key e = ucast ?u"
    using 1 pair_key_sp16[of b c r] ucast_of_int_small[where 'a = 16 and 'b = 32, of r] by (simp_all add: repl_key_def)
  have "unat (pair_key e) \<noteq> 0" using 1 by (simp add: unat_pair_key)
  then have "sp ?b ?c \<noteq> 0" unfolding k by (metis unsigned_0)
  moreover have "?u \<noteq> 0" using u(1) 1 by auto
  ultimately show ?thesis using 1(1) u k by (intro exI[of _ ?u] exI[of _ ?b] exI[of _ ?c]) simp
qed

lemma in_words_sp:
  assumes "e \<in> set precompositions_sp"
  shows "\<exists>u b c. e = (uint (u :: 32 word), uint (b :: 32 word), uint (c :: 32 word)) \<and> u \<noteq> 0 \<and> sp64 b c \<noteq> 0 \<and>
    pair_key_sp e = sp64 b c \<and> repl_key e = u"
  using assms
proof (cases rule: entry_sp_cases)
  case (1 r b c)
  let ?u = "word_of_int r :: 32 word" and ?b = "word_of_int b :: 32 word" and ?c = "word_of_int c :: 32 word"
  have u: "uint ?u = r" "uint ?b = b" "uint ?c = c" using 1 by (simp_all add: uint_of_int_small)
  have k: "pair_key_sp e = sp64 ?b ?c" using 1 pair_key_sp64[of b c r] by simp
  have "unat (pair_key_sp e) \<noteq> 0" using 1 by (simp add: unat_pair_key_sp)
  then have "sp64 ?b ?c \<noteq> 0" unfolding k by (metis unsigned_0)
  moreover have "?u \<noteq> 0" using u(1) 1 by auto
  ultimately show ?thesis using 1(1) u k by (intro exI[of _ ?u] exI[of _ ?b] exI[of _ ?c]) (simp add: repl_key_def)
qed

text \<open>An entry of the tables, read as units.\<close>

definition composes :: "ucs2 \<Rightarrow> ucs2 \<Rightarrow> ucs2 \<Rightarrow> bool" where
  "composes u b c \<longleftrightarrow> (uint u, uint b, uint c) \<in> set precompositions"

definition composes_sp :: "32 word \<Rightarrow> 32 word \<Rightarrow> 32 word \<Rightarrow> bool" where
  "composes_sp u b c \<longleftrightarrow> (uint u, uint b, uint c) \<in> set precompositions_sp"

lemma composes_facts:
  assumes "composes u b c"
  shows "u \<noteq> 0" "sp b c \<noteq> 0" "pair_key (uint u, uint b, uint c) = sp b c" "repl_key (uint u, uint b, uint c) = ucast u"
  using in_words[OF assms[unfolded composes_def]] by auto

lemma composes_sp_facts:
  assumes "composes_sp u b c"
  shows "u \<noteq> 0" "sp64 b c \<noteq> 0" "pair_key_sp (uint u, uint b, uint c) = sp64 b c" "repl_key (uint u, uint b, uint c) = u"
  using in_words_sp[OF assms[unfolded composes_sp_def]] by auto

lemma pre_search:
  "bsearch pair_key precompositions (sp b c) 0 (PRECOMP_COUNT - 1) = Some e \<longleftrightarrow> (\<exists>u. e = (uint u, uint b, uint c) \<and> composes u b c)"
  unfolding pre.search_iff[OF table_lengths(1)[symmetric]] composes_def
  using in_words[of e] composes_facts(3)[unfolded composes_def, of _ b c] by (auto simp: sp_inject)

lemma pre_sp_search:
  "bsearch pair_key_sp precompositions_sp (sp64 b c) 0 (PRECOMP_SP_COUNT - 1) = Some e \<longleftrightarrow> (\<exists>u. e = (uint u, uint b, uint c) \<and> composes_sp u b c)"
  unfolding pre_sp.search_iff[OF table_lengths(3)[symmetric]] composes_sp_def
  using in_words_sp[of e] composes_sp_facts(3)[unfolded composes_sp_def, of _ b c] by (auto simp: sp64_inject)

lemma ucast_ucs2_inject: "(ucast (u :: ucs2) :: 32 word) = ucast v \<longleftrightarrow> u = v"
  using unat_ucast32 by (metis word_unat_eq_iff)

lemma dec_search:
  "bsearch repl_key decompositions (ucast (u :: ucs2)) 0 (DECOMP_COUNT - 1) = Some e \<longleftrightarrow> (\<exists>b c. e = (uint u, uint b, uint c) \<and> composes u b c)"
  unfolding dec.search_iff[OF table_lengths(2)[symmetric]] composes_def decompositions_set
  using in_words[of e] composes_facts(4)[unfolded composes_def, of u] by (auto simp: ucast_ucs2_inject)

lemma dec_sp_search:
  "bsearch repl_key decompositions_sp u 0 (DECOMP_SP_COUNT - 1) = Some e \<longleftrightarrow> (\<exists>b c. e = (uint u, uint b, uint c) \<and> composes_sp u b c)"
  unfolding dec_sp.search_iff[OF table_lengths(4)[symmetric]] composes_sp_def decompositions_sp_set
  using in_words_sp[of e] composes_sp_facts(4)[unfolded composes_sp_def, of u] by metis

lemma do_precomposition_iff: "do_precomposition (ucast b) (ucast c) = u \<and> u \<noteq> 0 \<longleftrightarrow> composes u b c"
proof (cases "bsearch pair_key precompositions (sp b c) 0 (PRECOMP_COUNT - 1)")
  case None
  then have "\<not> composes u b c" using pre_search[of b c "(uint u, uint b, uint c)"] by auto
  then show ?thesis using None by (auto simp: do_precomposition_def sp_def)
next
  case (Some e)
  then obtain v where v: "e = (uint v, uint b, uint c)" "composes v b c" using pre_search by blast
  have "composes u b c \<Longrightarrow> u = v" using Some v pre_search[of b c "(uint u, uint b, uint c)"] by auto
  then show ?thesis using Some v composes_facts(1)[OF v(2)] by (auto simp: do_precomposition_def sp_def)
qed

lemma do_precomposition_sp_iff: "do_precomposition_sp b c = u \<and> u \<noteq> 0 \<longleftrightarrow> composes_sp u b c"
proof (cases "bsearch pair_key_sp precompositions_sp (sp64 b c) 0 (PRECOMP_SP_COUNT - 1)")
  case None
  then have "\<not> composes_sp u b c" using pre_sp_search[of b c "(uint u, uint b, uint c)"] by auto
  then show ?thesis using None by (auto simp: do_precomposition_sp_def sp64_def)
next
  case (Some e)
  then obtain v where v: "e = (uint v, uint b, uint c)" "composes_sp v b c" using pre_sp_search by blast
  have "composes_sp u b c \<Longrightarrow> u = v" using Some v pre_sp_search[of b c "(uint u, uint b, uint c)"] by auto
  then show ?thesis using Some v composes_sp_facts(1)[OF v(2)] by (auto simp: do_precomposition_sp_def sp64_def)
qed

lemma do_decomposition_iff: "do_decomposition u = sp b c \<and> sp b c \<noteq> 0 \<longleftrightarrow> composes u b c"
proof (cases "bsearch repl_key decompositions (ucast u) 0 (DECOMP_COUNT - 1)")
  case None
  then have "\<not> composes u b c" using dec_search[of u "(uint u, uint b, uint c)"] by auto
  then show ?thesis using None by (auto simp: do_decomposition_def)
next
  case (Some e)
  then obtain b' c' where v: "e = (uint u, uint b', uint c')" "composes u b' c'" using dec_search by blast
  have "composes u b c \<Longrightarrow> b = b' \<and> c = c'" using Some v dec_search[of u "(uint u, uint b, uint c)"] by auto
  then show ?thesis using Some v composes_facts[OF v(2)] by (auto simp: do_decomposition_def sp_inject)
qed

lemma do_decomposition_sp_iff: "do_decomposition_sp u = sp64 b c \<and> sp64 b c \<noteq> 0 \<longleftrightarrow> composes_sp u b c"
proof (cases "bsearch repl_key decompositions_sp u 0 (DECOMP_SP_COUNT - 1)")
  case None
  then have "\<not> composes_sp u b c" using dec_sp_search[of u "(uint u, uint b, uint c)"] by auto
  then show ?thesis using None by (auto simp: do_decomposition_sp_def)
next
  case (Some e)
  then obtain b' c' where v: "e = (uint u, uint b', uint c')" "composes_sp u b' c'" using dec_sp_search by blast
  have "composes_sp u b c \<Longrightarrow> b = b' \<and> c = c'" using Some v dec_sp_search[of u "(uint u, uint b, uint c)"] by auto
  then show ?thesis using Some v composes_sp_facts[OF v(2)] by (auto simp: do_decomposition_sp_def sp64_inject)
qed

text \<open>
  The look-ups for composition and decomposition are inverse to each other on the tables of
  the source, for single units and for surrogate pairs: \<open>u\<close> is the composition of \<open>b\<close> and \<open>c\<close> exactly
  when it decomposes into them.
\<close>

theorem composition_lookups_inverse:
  "(do_precomposition (ucast b) (ucast c) = u \<and> u \<noteq> 0 \<longleftrightarrow> do_decomposition u = sp b c \<and> sp b c \<noteq> 0) \<and>
   (do_precomposition_sp b2 c2 = u2 \<and> u2 \<noteq> 0 \<longleftrightarrow> do_decomposition_sp u2 = sp64 b2 c2 \<and> sp64 b2 c2 \<noteq> 0)"
  by (simp only: do_precomposition_iff do_decomposition_iff do_precomposition_sp_iff do_decomposition_sp_iff)

subsection \<open>Round trip of a unit\<close>

lemma composes_ranges:
  assumes "composes u b c"
  shows "0x80 \<le> unat u" "\<not> (0xAC00 \<le> unat u \<and> unat u < 0xE000)" "\<not> (0xAC00 \<le> unat b \<and> unat b < 0xE000)"
    "0x300 \<le> unat c" "\<not> (0x1161 \<le> unat c \<and> unat c \<le> 0x11C3)"
proof -
  have e: "bmp_entry (int (unat u), int (unat b), int (unat c))"
    using precompositions_entries assms unfolding list_all_iff composes_def uint_nat by blast
  show "0x80 \<le> unat u" "\<not> (0xAC00 \<le> unat u \<and> unat u < 0xE000)" "\<not> (0xAC00 \<le> unat b \<and> unat b < 0xE000)"
    "0x300 \<le> unat c" "\<not> (0x1161 \<le> unat c \<and> unat c \<le> 0x11C3)"
    using e unfolding bmp_entry_def prod.case by linarith+
qed

text \<open>A base and combining units that compose, one after the other, to a unit.\<close>

primrec chain :: "ucs2 \<Rightarrow> ucs2 list \<Rightarrow> ucs2 \<Rightarrow> bool" where
  "chain b [] u \<longleftrightarrow> b = u"
| "chain b (c # cs) u \<longleftrightarrow> (\<exists>v. composes v b c \<and> chain v cs u)"

lemma decompose_bmp_chain:
  "decompose_bmp b cs = (b', cs') \<Longrightarrow> chain b cs u \<Longrightarrow> length cs < MAXCOMBLEN \<Longrightarrow> chain b' cs' u \<and> length cs' \<le> MAXCOMBLEN"
proof (induction b cs rule: decompose_bmp.induct)
  case (1 b cs)
  show ?case
  proof (cases "do_decomposition b = 0")
    case True
    then show ?thesis using 1 by (simp add: decompose_bmp.simps[of b])
  next
    case False
    define d where "d = do_decomposition b"
    have "composes b (sp_hi d) (sp_lo d)" using False do_decomposition_iff[of b "sp_hi d" "sp_lo d"] by (simp add: d_def)
    then have "chain (sp_hi d) (sp_lo d # cs) u" using 1(3) by auto
    then show ?thesis using 1(1)[OF refl False refl refl] 1(2,4) False
      by (auto simp: decompose_bmp.simps[of b] Let_def d_def[symmetric] split: if_splits)
  qed
qed

lemma ucs2_bounds:
  fixes u :: ucs2
  shows "u < 0x300 \<longleftrightarrow> unat u < 0x300" "0xD800 \<le> u \<longleftrightarrow> 0xD800 \<le> unat u" "u < 0xDC00 \<longleftrightarrow> unat u < 0xDC00"
    "0xDC00 \<le> u \<longleftrightarrow> 0xDC00 \<le> unat u" "u < 0xE000 \<longleftrightarrow> unat u < 0xE000" "u \<le> 0x7f \<longleftrightarrow> unat u \<le> 0x7f"
  by (simp_all add: word_less_nat_alt word_le_nat_alt)

lemmas loop_branch = if_not_P if_P list.case Let_def simp_thms if_True if_False

lemma precompose_composes:
  assumes "composes v b c" "2 < n"
  shows "precompose_loop b (c # cs) n out = precompose_loop v cs n out"
proof -
  note r = composes_ranges[OF assms(1)]
  have "do_precomposition (ucast b) (ucast c) = v \<and> v \<noteq> 0" using assms(1) do_precomposition_iff by blast
  moreover have "\<not> c < 0x300" "\<not> (VBASE \<le> unat c \<and> unat c \<le> VBASE + VCOUNT)" "\<not> (TBASE < unat c \<and> unat c < TBASE + TCOUNT)"
    "\<not> (0xD800 \<le> b \<and> b < 0xDC00)"
    using r unfolding ucs2_bounds hangul_consts by auto
  ultimately show ?thesis
    using assms(2) unfolding precompose_loop.simps[of b "c # cs"] by (simp only: loop_branch)
qed

lemma precompose_chain: "chain b cs u \<Longrightarrow> 2 < n \<Longrightarrow> precompose_loop b cs n out = precompose_loop u [] n out"
  by (induction cs arbitrary: b) (auto simp: precompose_composes)

lemma precompose_last: "2 < n \<Longrightarrow> precompose_loop u [] n out = (None, out @ [u, 0], n - 2)"
  by (subst precompose_loop.simps) simp

lemma precompose_LV:
  assumes "LBASE \<le> unat b" "unat b < LBASE + LCOUNT" "VBASE \<le> unat c" "unat c \<le> VBASE + VCOUNT" "2 < n"
  shows "precompose_loop b (c # r) n out =
    precompose_loop (of_nat (SBASE + ((unat b - LBASE) * VCOUNT + (unat c - VBASE)) * TCOUNT)) r n out"
proof -
  have "\<not> c < 0x300" using assms(3) by (simp add: ucs2_bounds hangul_consts)
  then show ?thesis using assms unfolding precompose_loop.simps[of b "c # r"] by (simp only: loop_branch)
qed

lemma precompose_LVT:
  assumes "SBASE \<le> unat b" "unat b < SBASE + SCOUNT" "(unat b - SBASE) mod TCOUNT = 0" "TBASE < unat c" "unat c < TBASE + TCOUNT" "2 < n"
  shows "precompose_loop b (c # r) n out = precompose_loop (of_nat (unat b + (unat c - TBASE))) r n out"
proof -
  have "\<not> c < 0x300" "\<not> (VBASE \<le> unat c \<and> unat c \<le> VBASE + VCOUNT)" using assms(4) by (simp_all add: ucs2_bounds hangul_consts)
  then show ?thesis using assms unfolding precompose_loop.simps[of b "c # r"] by (simp only: loop_branch)
qed

lemma hangul_round_trip:
  assumes "SBASE \<le> unat u" "unat u < SBASE + SCOUNT" "hangul_decompose u = (b, cs)" "2 < n"
  shows "precompose_loop b cs n out = precompose_loop u [] n out \<and> length cs \<le> 2"
proof -
  define s where "s = unat u - SBASE"
  have s: "s < SCOUNT" "unat u = SBASE + s" using assms by (auto simp: s_def)
  define l v t where "l = s div NCOUNT" and "v = s mod NCOUNT div TCOUNT" and "t = s mod TCOUNT"
  have lt: "l < 19" "v < 21" "t < 28"
    using s by (auto simp: l_def v_def t_def hangul_consts less_mult_imp_div_less)
  have st: "s = (l * 21 + v) * 28 + t"
  proof -
    have "s mod 588 mod 28 = s mod 28" by (rule mod_mod_cancel) simp
    then have "s mod 588 = v * 28 + t" using div_mult_mod_eq[of "s mod 588" 28] by (simp add: v_def t_def hangul_consts)
    then show ?thesis using div_mult_mod_eq[of s 588] by (simp add: l_def hangul_consts)
  qed
  let ?L = "of_nat (LBASE + l) :: ucs2" and ?V = "of_nat (VBASE + v) :: ucs2" and ?T = "of_nat (TBASE + t) :: ucs2"
  have d: "b = ?L" "cs = (if t = 0 then [?V] else [?V, ?T])"
    using assms(3) by (auto simp: hangul_decompose_def Let_def s_def[symmetric] l_def v_def t_def)
  have w: "unat ?L = LBASE + l" "unat ?V = VBASE + v" "unat ?T = TBASE + t"
    using lt by (simp_all only: unat_ucs2 hangul_consts)
  define lv where "lv = SBASE + (l * VCOUNT + v) * TCOUNT"
  have lv: "lv = SBASE + (l * 21 + v) * 28" by (simp add: lv_def hangul_consts)
  have "lv + t = unat u" using s(2) st by (simp add: lv)
  then have ulv: "unat (of_nat lv :: ucs2) = lv" using unsigned_less[of u, where 'a = nat] by (intro unat_ucs2) simp
  have first: "precompose_loop ?L (?V # r) n out = precompose_loop (of_nat lv) r n out" for r
    using precompose_LV[of ?L ?V n r out] assms(4) lt unfolding w lv_def by (simp add: hangul_consts del: of_nat_add)
  show ?thesis
  proof (cases "t = 0")
    case True
    then have "of_nat lv = u" using \<open>lv + t = unat u\<close> by simp
    then show ?thesis using d True first by simp
  next
    case False
    have b: "SBASE \<le> lv" "lv < SBASE + SCOUNT" "(lv - SBASE) mod TCOUNT = 0"
      using s st False by (auto simp: lv hangul_consts)
    have "of_nat (lv + t) = u" using \<open>lv + t = unat u\<close> by simp
    then have "precompose_loop (of_nat lv) [?T] n out = precompose_loop u [] n out"
      using precompose_LVT[of "of_nat lv" ?T n "[]" out] b assms(4) lt False unfolding ulv w by (simp del: of_nat_add) (simp add: hangul_consts)
    then show ?thesis using d False first by simp
  qed
qed

lemma decompose_split_unit:
  assumes "decompose_split u [] = (pre, b, cs, rest)" "2 < n"
  shows "pre = [] \<and> rest = [] \<and> length cs \<le> 3 \<and> precompose_loop b cs n out = precompose_loop u [] n out"
proof -
  consider "unat u \<le> 0x7f" | "0x7f < unat u" "SBASE \<le> unat u" "unat u < SBASE + SCOUNT"
    | "0x7f < unat u" "\<not> (SBASE \<le> unat u \<and> unat u < SBASE + SCOUNT)" "0xD800 \<le> unat u" "unat u < 0xDC00"
    | "0x7f < unat u" "\<not> (SBASE \<le> unat u \<and> unat u < SBASE + SCOUNT)" "\<not> (0xD800 \<le> unat u \<and> unat u < 0xDC00)"
    by linarith
  then show ?thesis
  proof cases
    case 2
    then show ?thesis using assms hangul_round_trip[OF 2(2,3) _ assms(2), of b cs out]
      by (auto simp: decompose_split_def ucs2_bounds split: prod.splits)
  next
    case 4
    obtain b' cs' where d: "decompose_bmp u [] = (b', cs')" by (cases "decompose_bmp u []")
    have "chain b' cs' u \<and> length cs' \<le> 3" using decompose_bmp_chain[OF d, of u] by (simp add: MAXCOMBLEN_def)
    then show ?thesis using 4 d assms precompose_chain[of b' cs' u n out] by (auto simp: decompose_split_def ucs2_bounds)
  qed (use assms in \<open>auto simp: decompose_split_def ucs2_bounds\<close>)
qed

text \<open>
  C15: every UTF-16 unit survives decomposition followed by precomposition, with buffers of ten
  and eight bytes: letters with up to three marks through the tables, Hangul syllables through
  the arithmetic of their parts, everything else unchanged.
\<close>

theorem compose_round_trip:
  assumes "10 \<le> n" "8 \<le> m"
  shows "\<exists>ds. decompose_w [u] 2 n = (Inr (2 * length ds), ds @ [0], n - 2 * length ds) \<and>
    precompose_w ds (2 * length ds) m = (Inr 2, [u, 0], m - 2)"
proof -
  obtain pre b cs rest where d: "decompose_split u [] = (pre, b, cs, rest)" by (metis prod_cases4)
  note f = decompose_split_unit[OF d, of m "[]"]
  have "decompose_w [u] 2 n = (Inr (2 * length (b # cs)), (b # cs) @ [0], n - 2 * length (b # cs))"
    using d f assms by (auto simp: decompose_w_def w_return_def)
  moreover have "precompose_w (b # cs) (2 * length (b # cs)) m = (Inr 2, [u, 0], m - 2)"
    using f assms by (auto simp: precompose_w_def w_return_def precompose_last)
  ultimately show ?thesis by blast
qed

theorem compose_round_trip_witness:
  "\<exists>ds. decompose_w [0x1EA6] 2 10 = (Inr (2 * length ds), ds @ [0], 10 - 2 * length ds) \<and>
    precompose_w ds (2 * length ds) 8 = (Inr 2, [0x1EA6, 0], 6)"
  using compose_round_trip[of 10 8 "0x1EA6"] by simp

subsection \<open>Round trip of a surrogate pair\<close>

lemma composes_sp_ranges:
  assumes "composes_sp u b c"
  shows "0xD800 \<le> unat (sp_hi b)" "unat (sp_hi b) < 0xDC00" "0xDC00 \<le> unat (sp_lo b)" "unat (sp_lo b) < 0xE000"
proof -
  have e: "sp_entry (int (unat u), int (unat b), int (unat c))"
    using precompositions_sp_entries assms unfolding list_all_iff composes_sp_def uint_nat by blast
  have "unat b = unat (sp_hi b) * 65536 + unat (sp_lo b)"
    using unat_pair[of "ucast (sp_hi b) :: 32 word" 16 "ucast (sp_lo b)"] unsigned_less[of "sp_hi b", where 'a = nat]
      unsigned_less[of "sp_lo b", where 'a = nat] sp_parts(3)[of b] by (simp add: unat_ucast32 sp_def)
  moreover have "unat (sp_lo b) < 65536" using unsigned_less[of "sp_lo b", where 'a = nat] by simp
  moreover have "int (unat b) mod 65536 = int (unat b mod 65536)" by (simp add: zmod_int)
  then have "0xD8000000 \<le> unat b" "unat b < 0xDC000000" "0xDC00 \<le> unat b mod 65536" "unat b mod 65536 < 0xE000"
    using e unfolding sp_entry_def prod.case by linarith+
  moreover from calculation have "unat b mod 65536 = unat (sp_lo b)" by simp
  ultimately show "0xD800 \<le> unat (sp_hi b)" "unat (sp_hi b) < 0xDC00" "0xDC00 \<le> unat (sp_lo b)" "unat (sp_lo b) < 0xE000"
    by linarith+
qed

fun chain_sp :: "32 word \<Rightarrow> ucs2 list \<Rightarrow> 32 word \<Rightarrow> bool" where
  "chain_sp b (h # l # cs) u \<longleftrightarrow> (\<exists>v. composes_sp v b (sp h l) \<and> chain_sp v cs u)"
| "chain_sp b cs u \<longleftrightarrow> cs = [] \<and> b = u"

lemma decompose_sp_chain:
  "decompose_sp b cs = (b', cs') \<Longrightarrow> chain_sp b cs u \<Longrightarrow> even (length cs) \<Longrightarrow> length cs < MAXCOMBSPLEN \<Longrightarrow>
   chain_sp b' cs' u \<and> length cs' \<le> MAXCOMBSPLEN \<and> (cs' = cs \<and> b' = b \<or> 2 \<le> length cs')"
proof (induction b cs rule: decompose_sp.induct)
  case (1 b cs)
  show ?case
  proof (cases "do_decomposition_sp b = 0")
    case True
    then show ?thesis using 1 by (simp add: decompose_sp.simps[of b])
  next
    case False
    define x y where "x = (ucast (drop_bit 32 (do_decomposition_sp b)) :: 32 word)"
      and "y = (ucast (do_decomposition_sp b) :: 32 word)"
    have d: "do_decomposition_sp b = sp64 x y"
      unfolding x_def y_def sp64_def by (rule bit_word_eqI) (auto simp: bit_simps dest: bit_imp_le_length)
    have "composes_sp b x y" using False do_decomposition_sp_iff[of b x y] by (simp add: d)
    then have c: "chain_sp x (sp_hi y # sp_lo y # cs) u" using 1(3) by auto
    have l: "length cs + 2 \<le> MAXCOMBSPLEN" using 1(4,5) by (auto simp: MAXCOMBSPLEN_def elim!: evenE)
    show ?thesis
    proof (cases "length cs + 2 < MAXCOMBSPLEN")
      case True
      then show ?thesis using 1(1)[OF refl False refl refl] 1(2,4) c False unfolding d sp64_parts
        by (auto simp: decompose_sp.simps[of b] Let_def d split: if_splits)
    next
      case F: False
      then show ?thesis using 1(2) c l False by (auto simp: decompose_sp.simps[of b] Let_def d split: if_splits)
    qed
  qed
qed

lemma precompose_sp_chain: "chain_sp b cs u \<Longrightarrow> precompose_sp b cs = (u, [])"
proof (induction b cs rule: precompose_sp.induct)
  case (1 b h l cs)
  then obtain v where v: "composes_sp v b (sp h l)" "chain_sp v cs u" by auto
  then have "do_precomposition_sp b (sp h l) = v \<and> v \<noteq> 0" using do_precomposition_sp_iff by blast
  then show ?case using 1 v by (auto simp: Let_def)
qed auto

lemma precompose_pair_end:
  assumes "0xD800 \<le> unat h" "unat h < 0xDC00" "0xDC00 \<le> unat l" "unat l < 0xE000" "4 < n"
  shows "precompose_loop h [l] n out = (None, out @ [h, l, 0], n - 4)"
proof -
  have "\<not> l < 0x300" "\<not> (VBASE \<le> unat l \<and> unat l \<le> VBASE + VCOUNT)" "\<not> (TBASE < unat l \<and> unat l < TBASE + TCOUNT)"
    "0xD800 \<le> h \<and> h < 0xDC00" "\<not> (0xDC00 \<le> l \<and> l < 0xE000 \<and> 2 \<le> length ([] :: ucs2 list))"
    using assms unfolding ucs2_bounds hangul_consts by auto
  moreover have "2 < n" using assms(5) by simp
  ultimately have "precompose_loop h [l] n out = precompose_loop l [] (n - 2) (out @ [h])"
    unfolding precompose_loop.simps[of h "[l]"] by (simp only: loop_branch)
  then show ?thesis using assms(5) by (simp add: precompose_last)
qed

lemma precompose_pair_chain:
  assumes "0xD800 \<le> unat (sp_hi b)" "unat (sp_hi b) < 0xDC00" "0xDC00 \<le> unat (sp_lo b)" "unat (sp_lo b) < 0xE000"
    and "2 \<le> length cs" "chain_sp b cs u" "4 < n"
  shows "precompose_loop (sp_hi b) (sp_lo b # cs) n out = (None, out @ [sp_hi u, sp_lo u, 0], n - 4)"
proof -
  have "\<not> sp_lo b < 0x300" "\<not> (VBASE \<le> unat (sp_lo b) \<and> unat (sp_lo b) \<le> VBASE + VCOUNT)"
    "\<not> (TBASE < unat (sp_lo b) \<and> unat (sp_lo b) < TBASE + TCOUNT)"
    "0xD800 \<le> sp_hi b \<and> sp_hi b < 0xDC00" "0xDC00 \<le> sp_lo b \<and> sp_lo b < 0xE000 \<and> 2 \<le> length cs"
    using assms unfolding ucs2_bounds hangul_consts by auto
  moreover have "2 < n" "\<not> n - 2 \<le> 2" using assms(7) by simp_all
  ultimately show ?thesis
    unfolding precompose_loop.simps[of "sp_hi b" "sp_lo b # cs"]
    by (simp only: loop_branch sp_parts precompose_sp_chain[OF assms(6)] prod.case)
qed

text \<open>
  Every surrogate pair survives decomposition followed by precomposition, with buffers of
  fourteen and twelve bytes.
\<close>

theorem compose_round_trip_pairs:
  assumes "0xD800 \<le> h" "h < 0xDC00" "0xDC00 \<le> l" "l < 0xE000" "14 \<le> n" "12 \<le> m"
  shows "\<exists>ds. decompose_w [h, l] 4 n = (Inr (2 * length ds), ds @ [0], n - 2 * length ds) \<and>
    precompose_w ds (2 * length ds) m = (Inr 4, [h, l, 0], m - 4)"
proof -
  note r = assms(1-4)[unfolded ucs2_bounds]
  obtain b cs where d: "decompose_sp (sp h l) [] = (b, cs)" by (cases "decompose_sp (sp h l) []")
  have c: "chain_sp b cs (sp h l)" "length cs \<le> 4" "cs = [] \<and> b = sp h l \<or> 2 \<le> length cs"
    using decompose_sp_chain[OF d, of "sp h l"] by (auto simp: MAXCOMBSPLEN_def)
  have sd: "decompose_split h [l] = ([sp_hi b], sp_lo b, cs, [])"
    using r d by (simp add: decompose_split_def ucs2_bounds hangul_consts)
  let ?ds = "sp_hi b # sp_lo b # cs"
  have "decompose_w [h, l] 4 n = (Inr (2 * length ?ds), ?ds @ [0], n - 2 * length ?ds)"
    using sd c(2) assms(5) by (auto simp: decompose_w_def w_return_def)
  moreover have "precompose_loop (sp_hi b) (sp_lo b # cs) m [] = (None, [h, l, 0], m - 4)"
  proof (cases "2 \<le> length cs")
    case True
    then obtain x y cs' v where "cs = x # y # cs'" "composes_sp v b (sp x y)"
      using c(1) by (cases cs rule: remdups_adj.cases) auto
    then show ?thesis
      using precompose_pair_chain[OF composes_sp_ranges[of v b "sp x y"] True c(1), of m "[]"] assms(6) by simp
  next
    case False
    then show ?thesis using c(3) precompose_pair_end[of h l m "[]"] r assms(6) by auto
  qed
  then have "precompose_w ?ds (2 * length ?ds) m = (Inr 4, [h, l, 0], m - 4)"
    using c(2) assms(6) by (auto simp: precompose_w_def w_return_def)
  ultimately show ?thesis by blast
qed

theorem compose_round_trip_pairs_witness:
  "\<exists>ds. decompose_w [0xD804, 0xDC9A] 4 14 = (Inr (2 * length ds), ds @ [0], 14 - 2 * length ds) \<and>
    precompose_w ds (2 * length ds) 12 = (Inr 4, [0xD804, 0xDC9A, 0], 8)"
  using compose_round_trip_pairs[of "0xD804" "0xDC9A" 14 12] by simp

subsection \<open>Buffers\<close>

lemma decompose_fits:
  "decompose_loop xs n out = (e, out', left) \<Longrightarrow> 2 * length out + n \<le> N \<Longrightarrow> xs \<noteq> [] \<or> 2 \<le> n \<Longrightarrow> 2 * length out' \<le> N"
proof (induction xs n out arbitrary: e rule: decompose_loop.induct)
  case (2 base rest n out)
  obtain pre b cs rest' where d: "decompose_split base rest = (pre, b, cs, rest')" by (metis prod_cases4)
  then have l: "length pre \<le> 1" by (auto simp: decompose_split_def split: if_splits prod.splits list.splits)
  show ?case
  proof (cases "pre \<noteq> [] \<and> n < (length cs + 3) * 2 \<or> n - 2 * length pre < (length cs + 2) * 2")
    case True
    then show ?thesis using 2(2,3) d l by (cases pre) (auto split: if_splits)
  next
    case False
    let ?n = "n - 2 * length pre - 2 * (1 + length cs)"
    have "(length cs + 2) * 2 + 2 * length pre \<le> n" using False l by (cases pre) auto
    then have "2 * length (out @ pre @ b # cs) + ?n \<le> N" "2 \<le> ?n" using 2(3) by auto
    moreover have "decompose_loop rest' ?n (out @ pre @ b # cs) = (e, out', left)" using 2(2) d False by (auto split: if_splits)
    ultimately show ?thesis using 2(1)[OF d[symmetric] refl refl] False by simp
  qed
qed auto

text \<open>One turn of the precomposition loop ends it or goes on with less input, having written at most two units.\<close>

lemma precompose_step:
  assumes "2 < n"
  shows "(\<exists>ws. precompose_loop b xs n out = (None, out @ ws, n - 2 * (length ws - 1)) \<and>
      (length ws = 2 \<or> length ws = 3 \<and> 4 < n)) \<or>
    (\<exists>x. precompose_loop b xs n out = (Some E2BIG, out @ [x], n - 2)) \<or>
    (\<exists>b' xs' ws. length xs' < length xs \<and> (length ws \<le> 1 \<or> length ws = 2 \<and> 4 < n) \<and>
      precompose_loop b xs n out = precompose_loop b' xs' (n - 2 * length ws) (out @ ws))"
  (is "?A \<or> ?B \<or> ?C")
proof (cases xs)
  case Nil
  then show ?thesis using precompose_last[OF assms, of b out] by (intro disjI1 exI[of _ "[b, 0]"]) simp
next
  case (Cons c r)
  have keep: ?C if "precompose_loop b xs n out = precompose_loop b' r n out" for b'
    by (rule exI[of _ b'], rule exI[of _ r], rule exI[of _ "[]"]) (use that Cons in simp)
  have emit: ?C if "precompose_loop b xs n out = precompose_loop c r (n - 2) (out @ [b])"
    by (rule exI[of _ c], rule exI[of _ r], rule exI[of _ "[b]"]) (use that Cons in simp)
  let ?sp = "\<not> c < 0x300 \<and> \<not> (VBASE \<le> unat c \<and> unat c \<le> VBASE + VCOUNT) \<and> \<not> (TBASE < unat c \<and> unat c < TBASE + TCOUNT) \<and>
    (0xD800 \<le> b \<and> b < 0xDC00) \<and> (0xDC00 \<le> c \<and> c < 0xE000 \<and> 2 \<le> length r)"
  show ?thesis
  proof (cases ?sp)
    case True
    obtain w r' where p: "precompose_sp (sp b c) r = (w, r')" by (cases "precompose_sp (sp b c) r")
    have e: "precompose_loop b xs n out = (if n - 2 \<le> 2 then (Some E2BIG, out @ [sp_hi w], n - 2)
        else case r' of [] \<Rightarrow> (None, out @ [sp_hi w, sp_lo w, 0], n - 4)
          | b' # r'' \<Rightarrow> precompose_loop b' r'' (n - 4) (out @ [sp_hi w, sp_lo w]))"
      using True assms unfolding Cons precompose_loop.simps[of b "c # r"] by (simp only: loop_branch p prod.case)
    consider "n - 2 \<le> 2" | "4 < n" "r' = []" | b' r'' where "4 < n" "r' = b' # r''" by (cases r') force+
    then show ?thesis
    proof cases
      case 1
      then have "precompose_loop b xs n out = (Some E2BIG, out @ [sp_hi w], n - 2)" unfolding e by (simp only: loop_branch)
      then show ?thesis by blast
    next
      case 2
      then have "\<not> n - 2 \<le> 2" by simp
      then have "precompose_loop b xs n out = (None, out @ [sp_hi w, sp_lo w, 0], n - 4)" unfolding e 2(2) by (simp only: loop_branch)
      then show ?thesis using 2(1) by (intro disjI1 exI[of _ "[sp_hi w, sp_lo w, 0]"]) simp
    next
      case 3
      have l: "length r'' < length xs" using precompose_sp_shrinks[of "sp b c" r] p 3(2) Cons by simp
      have "\<not> n - 2 \<le> 2" using 3(1) by simp
      then have "precompose_loop b xs n out = precompose_loop b' r'' (n - 4) (out @ [sp_hi w, sp_lo w])"
        unfolding e 3(2) by (simp only: loop_branch)
      then have ?C
        by - (rule exI[of _ b'], rule exI[of _ r''], rule exI[of _ "[sp_hi w, sp_lo w]"], use 3(1) l in simp)
      then show ?thesis by blast
    qed
  next
    case False
    let ?V = "VBASE \<le> unat c \<and> unat c \<le> VBASE + VCOUNT" and ?T = "TBASE < unat c \<and> unat c < TBASE + TCOUNT"
    let ?L = "LBASE \<le> unat b \<and> unat b < LBASE + LCOUNT"
    let ?LV = "SBASE \<le> unat b \<and> unat b < SBASE + SCOUNT \<and> (unat b - SBASE) mod TCOUNT = 0"
    let ?H = "0xD800 \<le> b \<and> b < 0xDC00" and ?p = "do_precomposition (ucast b) (ucast c) \<noteq> 0"
    have "(\<exists>b'. precompose_loop b xs n out = precompose_loop b' r n out) \<or>
        precompose_loop b xs n out = precompose_loop c r (n - 2) (out @ [b])"
      unfolding Cons precompose_loop.simps[of b "c # r"] using assms False
      by (cases "c < 0x300", simp only: loop_branch, cases ?V, cases ?L, (simp only: loop_branch; blast), simp only: loop_branch,
          cases ?T, cases ?LV, (simp only: loop_branch; blast), simp only: loop_branch,
          cases ?H, simp only: loop_branch, cases ?p, (simp only: loop_branch; blast), simp only: loop_branch)
    then show ?thesis using keep emit by blast
  qed
qed

lemma precompose_fits:
  "precompose_loop b xs n out = (e, out', left) \<Longrightarrow> 2 * length out + n \<le> N \<Longrightarrow> even n \<Longrightarrow> 2 * length out' \<le> N"
proof (induction "length xs" arbitrary: b xs n out rule: less_induct)
  case less
  have even: "2 < n \<Longrightarrow> 4 \<le> n" "4 < n \<Longrightarrow> 6 \<le> n" using less.prems(3) by (auto elim!: evenE)
  show ?case
  proof (cases "2 < n")
    case False
    then show ?thesis using less.prems by (subst (asm) precompose_loop.simps) auto
  next
    case True
    consider ws where "precompose_loop b xs n out = (None, out @ ws, n - 2 * (length ws - 1))" "length ws = 2 \<or> length ws = 3 \<and> 4 < n"
      | x where "precompose_loop b xs n out = (Some E2BIG, out @ [x], n - 2)"
      | b' xs' ws where "length xs' < length xs" "length ws \<le> 1 \<or> length ws = 2 \<and> 4 < n"
        "precompose_loop b xs n out = precompose_loop b' xs' (n - 2 * length ws) (out @ ws)"
      using precompose_step[OF True, of b xs out] by blast
    then show ?thesis
    proof cases
      case 3
      show ?thesis by (rule less.hyps[OF 3(1), of b' "n - 2 * length ws" "out @ ws"]) (use less.prems 3 True in auto)
    qed (use less.prems(1,2) even True in auto)
  qed
qed

text \<open>
  Neither routine writes past its output buffer, terminator included, on any input that is as
  long as it claims to be; for precomposition the size of the buffer is even, as it is for
  every caller.
\<close>

theorem compose_no_overrun:
  assumes "inplen \<le> 2 * length name"
  shows "2 * length (fst (snd (decompose_w name inplen n))) \<le> n \<and>
    2 * length (fst (snd (precompose_w name inplen (2 * m)))) \<le> 2 * m"
proof -
  obtain e out left where d: "decompose_loop (take (inplen div 2) name) n [] = (e, out, left)" by (metis prod_cases3)
  obtain e' out' left' where p: "precompose_loop (name ! 0) (drop 1 (take (inplen div 2) name)) (2 * m) [] = (e', out', left')"
    by (metis prod_cases3)
  have "inplen \<noteq> 0 \<Longrightarrow> even inplen \<Longrightarrow> take (inplen div 2) name \<noteq> []" using assms by (auto elim!: evenE)
  then show ?thesis
    using decompose_fits[OF d, of n] precompose_fits[OF p, of "2 * m"] d p
    by (auto simp: decompose_w_def precompose_w_def w_return_def split: option.splits)
qed

theorem compose_no_overrun_witness:
  "2 * length (fst (snd (decompose_w [0xE9, 0xAC01] 4 9))) \<le> 9 \<and> 2 * length (fst (snd (precompose_w [0xE9, 0xAC01] 4 (2 * 2)))) \<le> 2 * 2"
  using compose_no_overrun[of 4 "[0xE9, 0xAC01]" 9 2] by simp

subsection \<open>Two inputs that go wrong\<close>

text \<open>
  The first vowel after the range of the modern ones is taken for one of them: a leading
  consonant with U+1176 is composed to the syllable of the next consonant with the first
  vowel, so that two different strings give the same result.
\<close>

theorem hangul_vowel_off_by_one:
  assumes "l + 1 < LCOUNT" "4 \<le> n"
  shows "precompose_w [of_nat (LBASE + (l + 1)), of_nat VBASE] 4 n = (Inr 2, [of_nat (SBASE + (l + 1) * NCOUNT), 0], n - 2) \<and>
    precompose_w [of_nat (LBASE + l), of_nat (VBASE + VCOUNT)] 4 n = (Inr 2, [of_nat (SBASE + (l + 1) * NCOUNT), 0], n - 2)"
proof -
  have u: "unat (of_nat (LBASE + k) :: ucs2) = LBASE + k" if "k < LCOUNT" for k
    using that by (intro unat_ucs2) (simp add: hangul_consts)
  have v: "unat (of_nat (VBASE + k) :: ucs2) = VBASE + k" if "k \<le> VCOUNT" for k
    using that by (intro unat_ucs2) (simp add: hangul_consts)
  have "precompose_loop (of_nat (LBASE + k)) [of_nat (VBASE + j)] n [] =
      (None, [of_nat (SBASE + (k * VCOUNT + j) * TCOUNT), 0], n - 2)" if "k < LCOUNT" "j \<le> VCOUNT" for k j
    using precompose_LV[of "of_nat (LBASE + k)" "of_nat (VBASE + j)" n "[]" "[]"] that assms(2)
    unfolding u[OF that(1)] v[OF that(2)] by (simp add: precompose_last del: of_nat_add of_nat_mult)
  from this[of l VCOUNT] this[of "l + 1" 0] show ?thesis
    using assms by (simp add: precompose_w_def w_return_def hangul_consts algebra_simps del: of_nat_add of_nat_mult)
qed

theorem hangul_vowel_off_by_one_witness:
  "precompose_w [0x1100, 0x1176] 4 8 = (Inr 2, [0xAE4C, 0], 6) \<and> precompose_w [0x1101, 0x1161] 4 8 = (Inr 2, [0xAE4C, 0], 6)"
  using hangul_vowel_off_by_one[of 0 8] by (simp add: hangul_consts)

lemma decomposition_u105c9:
  "do_decomposition_sp 0xD801DDC9 = sp64 0xD801DDD2 0xD7C0DF07" "do_decomposition_sp 0xD801DDD2 = 0"
proof -
  have "composes_sp 0xD801DDC9 0xD801DDD2 0xD7C0DF07" by (simp add: composes_sp_def tables)
  then show "do_decomposition_sp 0xD801DDC9 = sp64 0xD801DDD2 0xD7C0DF07" using do_decomposition_sp_iff by blast
  have "\<not> composes_sp 0xD801DDD2 b c" for b c by (simp add: composes_sp_def tables)
  then have "bsearch repl_key decompositions_sp 0xD801DDD2 0 (DECOMP_SP_COUNT - 1) = None"
    using dec_sp_search[of "0xD801DDD2"] by (metis not_None_eq)
  then show "do_decomposition_sp 0xD801DDD2 = 0" by (simp add: do_decomposition_sp_def)
qed

text \<open>
  The table holds for U+105C9 a combining character outside the supplementary planes,
  U+0307, in the form of a surrogate pair. Decomposing U+105C9 therefore gives units that are
  not UTF-16, and the conversion of the result to UTF-8 fails.
\<close>

theorem decomposition_ill_formed:
  "decompose_w [0xD801, 0xDDC9] 4 16 = (Inr 8, [0xD801, 0xDDD2, 0xD7C0, 0xDF07, 0], 8) \<and>
   fst (utf8_push (concat (map SSVAL [0xD801, 0xDDC9])) 16 []) = None \<and>
   fst (utf8_push (concat (map SSVAL [0xD801, 0xDDD2, 0xD7C0, 0xDF07])) 16 []) = Some EINVAL"
proof (intro conjI)
  have s: "sp 0xD801 0xDDC9 = 0xD801DDC9" "sp_hi 0xD801DDD2 = 0xD801" "sp_lo 0xD801DDD2 = 0xDDD2" "sp_hi 0xD7C0DF07 = 0xD7C0" "sp_lo 0xD7C0DF07 = 0xDF07"
    by code_simp+
  have sp64_ne: "sp64 0xD801DDD2 0xD7C0DF07 \<noteq> 0" by (rule composes_sp_facts(2)[of "0xD801DDC9"]) (simp add: composes_sp_def tables)
  have "decompose_sp 0xD801DDC9 [] = (0xD801DDD2, [0xD7C0, 0xDF07])"
    using s decomposition_u105c9 sp64_ne
    by (subst decompose_sp.simps, subst decompose_sp.simps) (simp add: Let_def MAXCOMBSPLEN_def)
  then have "decompose_split 0xD801 [0xDDC9] = ([0xD801], 0xDDD2, [0xD7C0, 0xDF07], [])"
    by (simp add: decompose_split_def s hangul_consts)
  then show "decompose_w [0xD801, 0xDDC9] 4 16 = (Inr 8, [0xD801, 0xDDD2, 0xD7C0, 0xDF07, 0], 8)"
    by (simp add: decompose_w_def w_return_def)
  show "fst (utf8_push (concat (map SSVAL [0xD801, 0xDDC9])) 16 []) = None" by code_simp
  show "fst (utf8_push (concat (map SSVAL [0xD801, 0xDDD2, 0xD7C0, 0xDF07])) 16 []) = Some EINVAL" by code_simp
qed

end
