(* ===== verification/Utf16_Case.thy ===== *)
theory Utf16_Case
  imports Surrogates Case_Tables
begin

text \<open>
  Case mapping of UTF-16 units and surrogate pairs: \<open>libatalk/unicode/utf16_case.c\<close>. The mapping
  functions choose a table by the range of their argument. Every read is within its table, the
  NUL unit and the surrogates stay what they are, and nothing else becomes one of them.
\<close>

definition toupper_w :: "ucs2 \<Rightarrow> ucs2" where
  "toupper_w val =
     (if val \<le> 0x02BF then word_of_int (upper_table_1 ! unat val)
      else if val \<ge> 0x0340 \<and> val \<le> 0x05BF then word_of_int (upper_table_2 ! unat (val - 0x0340))
      else if val \<ge> 0x10C0 \<and> val \<le> 0x10FF then word_of_int (upper_table_3 ! unat (val - 0x10C0))
      else if val \<ge> 0x13C0 \<and> val \<le> 0x13FF then word_of_int (upper_table_4 ! unat (val - 0x13C0))
      else if val \<ge> 0x1C80 \<and> val \<le> 0x1CBF then word_of_int (upper_table_5 ! unat (val - 0x1C80))
      else if val \<ge> 0x1D40 \<and> val \<le> 0x1DBF then word_of_int (upper_table_6 ! unat (val - 0x1D40))
      else if val \<ge> 0x1E00 \<and> val \<le> 0x1FFF then word_of_int (upper_table_7 ! unat (val - 0x1E00))
      else if val \<ge> 0x2140 \<and> val \<le> 0x21BF then word_of_int (upper_table_8 ! unat (val - 0x2140))
      else if val \<ge> 0x24C0 \<and> val \<le> 0x24FF then word_of_int (upper_table_9 ! unat (val - 0x24C0))
      else if val \<ge> 0x2C00 \<and> val \<le> 0x2D3F then word_of_int (upper_table_10 ! unat (val - 0x2C00))
      else if val \<ge> 0xA640 \<and> val \<le> 0xA6BF then word_of_int (upper_table_11 ! unat (val - 0xA640))
      else if val \<ge> 0xA700 \<and> val \<le> 0xA7FF then word_of_int (upper_table_12 ! unat (val - 0xA700))
      else if val \<ge> 0xAB40 \<and> val \<le> 0xABBF then word_of_int (upper_table_13 ! unat (val - 0xAB40))
      else if val \<ge> 0xFF40 \<and> val \<le> 0xFF7F then word_of_int (upper_table_14 ! unat (val - 0xFF40))
      else val)"

definition toupper_sp :: "32 word \<Rightarrow> 32 word" where
  "toupper_sp val =
     (if val \<ge> 0xD801DC00 \<and> val \<le> 0xD801DC7F then word_of_int (upper_table_sp_1 ! unat (val - 0xD801DC00))
      else if val \<ge> 0xD801DCC0 \<and> val \<le> 0xD801DCFF then word_of_int (upper_table_sp_2 ! unat (val - 0xD801DCC0))
      else if val \<ge> 0xD801DD80 \<and> val \<le> 0xD801DDBF then word_of_int (upper_table_sp_3 ! unat (val - 0xD801DD80))
      else if val \<ge> 0xD803DCC0 \<and> val \<le> 0xD803DCFF then word_of_int (upper_table_sp_4 ! unat (val - 0xD803DCC0))
      else if val \<ge> 0xD803DD40 \<and> val \<le> 0xD803DD7F then word_of_int (upper_table_sp_5 ! unat (val - 0xD803DD40))
      else if val \<ge> 0xD803DD40 \<and> val \<le> 0xD803DDBF then word_of_int (upper_table_sp_6 ! unat (val - 0xD803DD40))
      else if val \<ge> 0xD806DCC0 \<and> val \<le> 0xD806DCFF then word_of_int (upper_table_sp_7 ! unat (val - 0xD806DCC0))
      else if val \<ge> 0xD81BDE40 \<and> val \<le> 0xD81BDE7F then word_of_int (upper_table_sp_8 ! unat (val - 0xD81BDE40))
      else if val \<ge> 0xD81BDE40 \<and> val \<le> 0xD81BDEFF then word_of_int (upper_table_sp_9 ! unat (val - 0xD81BDE40))
      else if val \<ge> 0xD83ADD00 \<and> val \<le> 0xD83ADD7F then word_of_int (upper_table_sp_10 ! unat (val - 0xD83ADD00))
      else val)"

definition tolower_w :: "ucs2 \<Rightarrow> ucs2" where
  "tolower_w val =
     (if val \<le> 0x007F then word_of_int (lower_table_1 ! unat val)
      else if val \<ge> 0x00C0 \<and> val \<le> 0x027F then word_of_int (lower_table_2 ! unat (val - 0x00C0))
      else if val \<ge> 0x0340 \<and> val \<le> 0x057F then word_of_int (lower_table_3 ! unat (val - 0x0340))
      else if val \<ge> 0x1080 \<and> val \<le> 0x10FF then word_of_int (lower_table_4 ! unat (val - 0x1080))
      else if val \<ge> 0x1380 \<and> val \<le> 0x13FF then word_of_int (lower_table_5 ! unat (val - 0x1380))
      else if val \<ge> 0x1C80 \<and> val \<le> 0x1CBF then word_of_int (lower_table_6 ! unat (val - 0x1C80))
      else if val \<ge> 0x1E00 \<and> val \<le> 0x1FFF then word_of_int (lower_table_7 ! unat (val - 0x1E00))
      else if val \<ge> 0x2100 \<and> val \<le> 0x21BF then word_of_int (lower_table_8 ! unat (val - 0x2100))
      else if val \<ge> 0x2480 \<and> val \<le> 0x24FF then word_of_int (lower_table_9 ! unat (val - 0x2480))
      else if val \<ge> 0x2C00 \<and> val \<le> 0x2CFF then word_of_int (lower_table_10 ! unat (val - 0x2C00))
      else if val \<ge> 0xA640 \<and> val \<le> 0xA6BF then word_of_int (lower_table_11 ! unat (val - 0xA640))
      else if val \<ge> 0xA700 \<and> val \<le> 0xA7FF then word_of_int (lower_table_12 ! unat (val - 0xA700))
      else if val \<ge> 0xFF00 \<and> val \<le> 0xFF3F then word_of_int (lower_table_13 ! unat (val - 0xFF00))
      else val)"

definition tolower_sp :: "32 word \<Rightarrow> 32 word" where
  "tolower_sp val =
     (if val \<ge> 0xD801DC00 \<and> val \<le> 0xD801DC3F then word_of_int (lower_table_sp_1 ! unat (val - 0xD801DC00))
      else if val \<ge> 0xD801DC80 \<and> val \<le> 0xD801DCFF then word_of_int (lower_table_sp_2 ! unat (val - 0xD801DC80))
      else if val \<ge> 0xD801DD40 \<and> val \<le> 0xD801DD7F then word_of_int (lower_table_sp_3 ! unat (val - 0xD801DD40))
      else if val \<ge> 0xD801DD40 \<and> val \<le> 0xD801DDBF then word_of_int (lower_table_sp_4 ! unat (val - 0xD801DD40))
      else if val \<ge> 0xD803DC80 \<and> val \<le> 0xD803DCBF then word_of_int (lower_table_sp_5 ! unat (val - 0xD803DC80))
      else if val \<ge> 0xD803DD40 \<and> val \<le> 0xD803DD7F then word_of_int (lower_table_sp_6 ! unat (val - 0xD803DD40))
      else if val \<ge> 0xD806DC80 \<and> val \<le> 0xD806DCBF then word_of_int (lower_table_sp_7 ! unat (val - 0xD806DC80))
      else if val \<ge> 0xD81BDE40 \<and> val \<le> 0xD81BDE7F then word_of_int (lower_table_sp_8 ! unat (val - 0xD81BDE40))
      else if val \<ge> 0xD81BDE40 \<and> val \<le> 0xD81BDEBF then word_of_int (lower_table_sp_9 ! unat (val - 0xD81BDE40))
      else if val \<ge> 0xD83ADD00 \<and> val \<le> 0xD83ADD3F then word_of_int (lower_table_sp_10 ! unat (val - 0xD83ADD00))
      else val)"

lemmas case_tables =
  upper_table_1_def upper_table_2_def upper_table_3_def upper_table_4_def upper_table_5_def
  upper_table_6_def upper_table_7_def upper_table_8_def upper_table_9_def upper_table_10_def
  upper_table_11_def upper_table_12_def upper_table_13_def upper_table_14_def lower_table_1_def
  lower_table_2_def lower_table_3_def lower_table_4_def lower_table_5_def lower_table_6_def
  lower_table_7_def lower_table_8_def lower_table_9_def lower_table_10_def lower_table_11_def
  lower_table_12_def lower_table_13_def upper_table_sp_1_def upper_table_sp_2_def
  upper_table_sp_3_def upper_table_sp_4_def upper_table_sp_5_def upper_table_sp_6_def
  upper_table_sp_7_def upper_table_sp_8_def upper_table_sp_9_def upper_table_sp_10_def
  lower_table_sp_1_def lower_table_sp_2_def lower_table_sp_3_def lower_table_sp_4_def
  lower_table_sp_5_def lower_table_sp_6_def lower_table_sp_7_def lower_table_sp_8_def
  lower_table_sp_9_def lower_table_sp_10_def

lemma toupper_w_lengths:
  "length upper_table_1 = 704" "length upper_table_2 = 640" "length upper_table_3 = 64"
  "length upper_table_4 = 64" "length upper_table_5 = 64" "length upper_table_6 = 128"
  "length upper_table_7 = 512" "length upper_table_8 = 128" "length upper_table_9 = 64"
  "length upper_table_10 = 320" "length upper_table_11 = 128" "length upper_table_12 = 256"
  "length upper_table_13 = 128" "length upper_table_14 = 64"
  by (simp_all add: case_tables)

lemma toupper_sp_lengths:
  "length upper_table_sp_1 = 128" "length upper_table_sp_2 = 64" "length upper_table_sp_3 = 64"
  "length upper_table_sp_4 = 64" "length upper_table_sp_5 = 64" "length upper_table_sp_6 = 128"
  "length upper_table_sp_7 = 64" "length upper_table_sp_8 = 64" "length upper_table_sp_9 = 192"
  "length upper_table_sp_10 = 128"
  by (simp_all add: case_tables)

lemma tolower_w_lengths:
  "length lower_table_1 = 128" "length lower_table_2 = 448" "length lower_table_3 = 576"
  "length lower_table_4 = 128" "length lower_table_5 = 128" "length lower_table_6 = 64"
  "length lower_table_7 = 512" "length lower_table_8 = 192" "length lower_table_9 = 128"
  "length lower_table_10 = 256" "length lower_table_11 = 128" "length lower_table_12 = 256"
  "length lower_table_13 = 64"
  by (simp_all add: case_tables)

lemma tolower_sp_lengths:
  "length lower_table_sp_1 = 64" "length lower_table_sp_2 = 128" "length lower_table_sp_3 = 64"
  "length lower_table_sp_4 = 128" "length lower_table_sp_5 = 64" "length lower_table_sp_6 = 64"
  "length lower_table_sp_7 = 64" "length lower_table_sp_8 = 64" "length lower_table_sp_9 = 128"
  "length lower_table_sp_10 = 64"
  by (simp_all add: case_tables)

text \<open>A value that a table may hold: a unit that is neither NUL nor a surrogate, or a surrogate pair.\<close>

definition plain :: "int \<Rightarrow> bool" where
  "plain w \<longleftrightarrow> 0 < w \<and> w < 0x10000 \<and> \<not> (0xD800 \<le> w \<and> w < 0xE000)"

definition pair_value :: "int \<Rightarrow> bool" where
  "pair_value w \<longleftrightarrow> 0xD800DC00 \<le> w \<and> w < 0xDBFFE000 \<and> 0xDC00 \<le> w mod 65536 \<and> w mod 65536 < 0xE000"

lemma upper_values:
  "list_all plain (tl upper_table_1)" "list_all plain upper_table_2" "list_all plain upper_table_3"
  "list_all plain upper_table_4" "list_all plain upper_table_5" "list_all plain upper_table_6"
  "list_all plain upper_table_7" "list_all plain upper_table_8" "list_all plain upper_table_9"
  "list_all plain upper_table_10" "list_all plain upper_table_11" "list_all plain upper_table_12"
  "list_all plain upper_table_13" "list_all plain upper_table_14"
  by (simp_all add: case_tables plain_def)

lemma lower_values:
  "list_all plain (tl lower_table_1)" "list_all plain lower_table_2" "list_all plain lower_table_3"
  "list_all plain lower_table_4" "list_all plain lower_table_5" "list_all plain lower_table_6"
  "list_all plain lower_table_7" "list_all plain lower_table_8" "list_all plain lower_table_9"
  "list_all plain lower_table_10" "list_all plain lower_table_11" "list_all plain lower_table_12"
  "list_all plain lower_table_13"
  by (simp_all add: case_tables plain_def)

lemma upper_sp_values:
  "list_all pair_value upper_table_sp_1" "list_all pair_value upper_table_sp_2"
  "list_all pair_value upper_table_sp_3" "list_all pair_value upper_table_sp_4"
  "list_all pair_value upper_table_sp_5" "list_all pair_value upper_table_sp_6"
  "list_all pair_value upper_table_sp_7" "list_all pair_value upper_table_sp_8"
  "list_all pair_value upper_table_sp_9" "list_all pair_value upper_table_sp_10"
  by (simp_all add: case_tables pair_value_def)

lemma lower_sp_values:
  "list_all pair_value lower_table_sp_1" "list_all pair_value lower_table_sp_2"
  "list_all pair_value lower_table_sp_3" "list_all pair_value lower_table_sp_4"
  "list_all pair_value lower_table_sp_5" "list_all pair_value lower_table_sp_6"
  "list_all pair_value lower_table_sp_7" "list_all pair_value lower_table_sp_8"
  "list_all pair_value lower_table_sp_9" "list_all pair_value lower_table_sp_10"
  by (simp_all add: case_tables pair_value_def)

subsection \<open>Kinds of units\<close>

definition plain_unit :: "ucs2 \<Rightarrow> bool" where
  "plain_unit c \<longleftrightarrow> c \<noteq> 0 \<and> \<not> hi_surrogate c \<and> \<not> lo_surrogate c"

lemma plain_word: "plain w \<Longrightarrow> plain_unit (word_of_int w)"
proof -
  assume w: "plain w"
  then have "unat (word_of_int w :: ucs2) = nat w" by (simp add: plain_def unsigned_of_int take_bit_int_eq_self)
  then show ?thesis using w by (auto simp: plain_unit_def unit_kinds plain_def nat_less_iff nat_le_iff le_nat_iff word_unat_eq_iff)
qed

lemma table_unit:
  assumes "list_all plain t" "length t = n" "lo \<le> val" "val \<le> hi" "unat hi - unat lo < n"
  shows "plain_unit (word_of_int (t ! unat (val - lo)))"
proof -
  have "unat (val - lo) < length t"
    using assms(2-5) by (simp add: unat_sub word_le_nat_alt)
  then show ?thesis using assms(1) by (intro plain_word) (simp add: list_all_length)
qed

lemma table_unit_tl:
  assumes "list_all plain (tl t)" "length t = n" "val \<noteq> 0" "val \<le> hi" "unat hi < n"
  shows "plain_unit (word_of_int (t ! unat val))"
proof -
  obtain k where k: "unat val = Suc k" using assms(3) by (metis not0_implies_Suc unsigned_eq_0_iff)
  have "unat val < length t" using assms(2,4,5) by (simp add: word_le_nat_alt)
  then have "plain (tl t ! k)" using assms(1) k by (simp add: list_all_length)
  then show ?thesis using k \<open>unat val < length t\<close> by (intro plain_word) (cases t; simp)
qed

lemma plain_if: "(P \<Longrightarrow> plain_unit a) \<Longrightarrow> (\<not> P \<Longrightarrow> plain_unit b) \<Longrightarrow> plain_unit (if P then a else b)"
  by simp

lemma lower_units:
  fixes c :: ucs2
  shows
    "0x00C0 \<le> c \<Longrightarrow> c \<le> 0x027F \<Longrightarrow> plain_unit (word_of_int (lower_table_2 ! unat (c - 0x00C0)))"
    "0x0340 \<le> c \<Longrightarrow> c \<le> 0x057F \<Longrightarrow> plain_unit (word_of_int (lower_table_3 ! unat (c - 0x0340)))"
    "0x1080 \<le> c \<Longrightarrow> c \<le> 0x10FF \<Longrightarrow> plain_unit (word_of_int (lower_table_4 ! unat (c - 0x1080)))"
    "0x1380 \<le> c \<Longrightarrow> c \<le> 0x13FF \<Longrightarrow> plain_unit (word_of_int (lower_table_5 ! unat (c - 0x1380)))"
    "0x1C80 \<le> c \<Longrightarrow> c \<le> 0x1CBF \<Longrightarrow> plain_unit (word_of_int (lower_table_6 ! unat (c - 0x1C80)))"
    "0x1E00 \<le> c \<Longrightarrow> c \<le> 0x1FFF \<Longrightarrow> plain_unit (word_of_int (lower_table_7 ! unat (c - 0x1E00)))"
    "0x2100 \<le> c \<Longrightarrow> c \<le> 0x21BF \<Longrightarrow> plain_unit (word_of_int (lower_table_8 ! unat (c - 0x2100)))"
    "0x2480 \<le> c \<Longrightarrow> c \<le> 0x24FF \<Longrightarrow> plain_unit (word_of_int (lower_table_9 ! unat (c - 0x2480)))"
    "0x2C00 \<le> c \<Longrightarrow> c \<le> 0x2CFF \<Longrightarrow> plain_unit (word_of_int (lower_table_10 ! unat (c - 0x2C00)))"
    "0xA640 \<le> c \<Longrightarrow> c \<le> 0xA6BF \<Longrightarrow> plain_unit (word_of_int (lower_table_11 ! unat (c - 0xA640)))"
    "0xA700 \<le> c \<Longrightarrow> c \<le> 0xA7FF \<Longrightarrow> plain_unit (word_of_int (lower_table_12 ! unat (c - 0xA700)))"
    "0xFF00 \<le> c \<Longrightarrow> c \<le> 0xFF3F \<Longrightarrow> plain_unit (word_of_int (lower_table_13 ! unat (c - 0xFF00)))"
  by (rule table_unit, rule lower_values, rule tolower_w_lengths, assumption, assumption, simp)+

lemma upper_units:
  fixes c :: ucs2
  shows
    "0x0340 \<le> c \<Longrightarrow> c \<le> 0x05BF \<Longrightarrow> plain_unit (word_of_int (upper_table_2 ! unat (c - 0x0340)))"
    "0x10C0 \<le> c \<Longrightarrow> c \<le> 0x10FF \<Longrightarrow> plain_unit (word_of_int (upper_table_3 ! unat (c - 0x10C0)))"
    "0x13C0 \<le> c \<Longrightarrow> c \<le> 0x13FF \<Longrightarrow> plain_unit (word_of_int (upper_table_4 ! unat (c - 0x13C0)))"
    "0x1C80 \<le> c \<Longrightarrow> c \<le> 0x1CBF \<Longrightarrow> plain_unit (word_of_int (upper_table_5 ! unat (c - 0x1C80)))"
    "0x1D40 \<le> c \<Longrightarrow> c \<le> 0x1DBF \<Longrightarrow> plain_unit (word_of_int (upper_table_6 ! unat (c - 0x1D40)))"
    "0x1E00 \<le> c \<Longrightarrow> c \<le> 0x1FFF \<Longrightarrow> plain_unit (word_of_int (upper_table_7 ! unat (c - 0x1E00)))"
    "0x2140 \<le> c \<Longrightarrow> c \<le> 0x21BF \<Longrightarrow> plain_unit (word_of_int (upper_table_8 ! unat (c - 0x2140)))"
    "0x24C0 \<le> c \<Longrightarrow> c \<le> 0x24FF \<Longrightarrow> plain_unit (word_of_int (upper_table_9 ! unat (c - 0x24C0)))"
    "0x2C00 \<le> c \<Longrightarrow> c \<le> 0x2D3F \<Longrightarrow> plain_unit (word_of_int (upper_table_10 ! unat (c - 0x2C00)))"
    "0xA640 \<le> c \<Longrightarrow> c \<le> 0xA6BF \<Longrightarrow> plain_unit (word_of_int (upper_table_11 ! unat (c - 0xA640)))"
    "0xA700 \<le> c \<Longrightarrow> c \<le> 0xA7FF \<Longrightarrow> plain_unit (word_of_int (upper_table_12 ! unat (c - 0xA700)))"
    "0xAB40 \<le> c \<Longrightarrow> c \<le> 0xABBF \<Longrightarrow> plain_unit (word_of_int (upper_table_13 ! unat (c - 0xAB40)))"
    "0xFF40 \<le> c \<Longrightarrow> c \<le> 0xFF7F \<Longrightarrow> plain_unit (word_of_int (upper_table_14 ! unat (c - 0xFF40)))"
  by (rule table_unit, rule upper_values, rule toupper_w_lengths, assumption, assumption, simp)+

lemma tolower_plain:
  assumes "plain_unit c"
  shows "plain_unit (tolower_w c)"
proof -
  have c: "c \<noteq> 0" using assms by (simp add: plain_unit_def)
  have first: "c \<le> 0x007F \<Longrightarrow> plain_unit (word_of_int (lower_table_1 ! unat c))"
    by (rule table_unit_tl[OF lower_values(1) tolower_w_lengths(1)]) (rule c, assumption, simp)
  show ?thesis unfolding tolower_w_def
    by (intro plain_if) ((rule first, assumption) | rule assms | (elim conjE, rule lower_units, assumption, assumption))+
qed

lemma toupper_plain:
  assumes "plain_unit c"
  shows "plain_unit (toupper_w c)"
proof -
  have c: "c \<noteq> 0" using assms by (simp add: plain_unit_def)
  have first: "c \<le> 0x02BF \<Longrightarrow> plain_unit (word_of_int (upper_table_1 ! unat c))"
    by (rule table_unit_tl[OF upper_values(1) toupper_w_lengths(1)]) (rule c, assumption, simp)
  show ?thesis unfolding toupper_w_def
    by (intro plain_if) ((rule first, assumption) | rule assms | (elim conjE, rule upper_units, assumption, assumption))+
qed

lemma case_surrogate:
  assumes "hi_surrogate c \<or> lo_surrogate c"
  shows "tolower_w c = c" "toupper_w c = c"
proof -
  have "0xD800 \<le> unat c" "unat c < 0xE000" using assms by (auto simp: unit_kinds)
  then show "tolower_w c = c" "toupper_w c = c" by (simp_all add: tolower_w_def toupper_w_def word_le_nat_alt)
qed

lemma case_nul: "tolower_w 0 = 0" "toupper_w 0 = 0"
  by (simp_all add: tolower_w_def toupper_w_def case_tables)

subsection \<open>Pairs\<close>

definition is_pair :: "32 word \<Rightarrow> bool" where
  "is_pair w \<longleftrightarrow> hi_surrogate (sp_hi w) \<and> lo_surrogate (sp_lo w)"

lemma pair_value_word: "pair_value w \<Longrightarrow> is_pair (word_of_int w)"
proof -
  assume w: "pair_value w"
  then have u: "int (unat (word_of_int w :: 32 word)) = w"
    by (simp add: pair_value_def unsigned_of_int take_bit_int_eq_self)
  then have "int (unat (word_of_int w :: 32 word) mod 65536) = w mod 65536" by (simp add: zmod_int)
  moreover have "int (unat (word_of_int w :: 32 word) div 65536) = w div 65536" using u by (simp add: zdiv_int)
  moreover have "0xD800 \<le> w div 65536" "w div 65536 < 0xDC00" using w unfolding pair_value_def by linarith+
  ultimately show ?thesis using w unfolding is_pair_def unit_kinds unat_sp_parts pair_value_def by linarith
qed

lemma table_pair:
  assumes "list_all pair_value t" "length t = n" "lo \<le> val" "val \<le> hi" "unat hi - unat lo < n"
  shows "is_pair (word_of_int (t ! unat (val - lo)))"
proof -
  have "unat (val - lo) < length t"
    using assms(2-5) by (simp add: unat_sub word_le_nat_alt)
  then show ?thesis using assms(1) by (intro pair_value_word) (simp add: list_all_length)
qed

lemma pair_if: "(P \<Longrightarrow> is_pair a) \<Longrightarrow> (\<not> P \<Longrightarrow> is_pair b) \<Longrightarrow> is_pair (if P then a else b)"
  by simp

lemma lower_pairs:
  fixes c :: "32 word"
  shows
    "0xD801DC00 \<le> c \<Longrightarrow> c \<le> 0xD801DC3F \<Longrightarrow> is_pair (word_of_int (lower_table_sp_1 ! unat (c - 0xD801DC00)))"
    "0xD801DC80 \<le> c \<Longrightarrow> c \<le> 0xD801DCFF \<Longrightarrow> is_pair (word_of_int (lower_table_sp_2 ! unat (c - 0xD801DC80)))"
    "0xD801DD40 \<le> c \<Longrightarrow> c \<le> 0xD801DD7F \<Longrightarrow> is_pair (word_of_int (lower_table_sp_3 ! unat (c - 0xD801DD40)))"
    "0xD801DD40 \<le> c \<Longrightarrow> c \<le> 0xD801DDBF \<Longrightarrow> is_pair (word_of_int (lower_table_sp_4 ! unat (c - 0xD801DD40)))"
    "0xD803DC80 \<le> c \<Longrightarrow> c \<le> 0xD803DCBF \<Longrightarrow> is_pair (word_of_int (lower_table_sp_5 ! unat (c - 0xD803DC80)))"
    "0xD803DD40 \<le> c \<Longrightarrow> c \<le> 0xD803DD7F \<Longrightarrow> is_pair (word_of_int (lower_table_sp_6 ! unat (c - 0xD803DD40)))"
    "0xD806DC80 \<le> c \<Longrightarrow> c \<le> 0xD806DCBF \<Longrightarrow> is_pair (word_of_int (lower_table_sp_7 ! unat (c - 0xD806DC80)))"
    "0xD81BDE40 \<le> c \<Longrightarrow> c \<le> 0xD81BDE7F \<Longrightarrow> is_pair (word_of_int (lower_table_sp_8 ! unat (c - 0xD81BDE40)))"
    "0xD81BDE40 \<le> c \<Longrightarrow> c \<le> 0xD81BDEBF \<Longrightarrow> is_pair (word_of_int (lower_table_sp_9 ! unat (c - 0xD81BDE40)))"
    "0xD83ADD00 \<le> c \<Longrightarrow> c \<le> 0xD83ADD3F \<Longrightarrow> is_pair (word_of_int (lower_table_sp_10 ! unat (c - 0xD83ADD00)))"
  by (rule table_pair, rule lower_sp_values, rule tolower_sp_lengths, assumption, assumption, simp)+

lemma upper_pairs:
  fixes c :: "32 word"
  shows
    "0xD801DC00 \<le> c \<Longrightarrow> c \<le> 0xD801DC7F \<Longrightarrow> is_pair (word_of_int (upper_table_sp_1 ! unat (c - 0xD801DC00)))"
    "0xD801DCC0 \<le> c \<Longrightarrow> c \<le> 0xD801DCFF \<Longrightarrow> is_pair (word_of_int (upper_table_sp_2 ! unat (c - 0xD801DCC0)))"
    "0xD801DD80 \<le> c \<Longrightarrow> c \<le> 0xD801DDBF \<Longrightarrow> is_pair (word_of_int (upper_table_sp_3 ! unat (c - 0xD801DD80)))"
    "0xD803DCC0 \<le> c \<Longrightarrow> c \<le> 0xD803DCFF \<Longrightarrow> is_pair (word_of_int (upper_table_sp_4 ! unat (c - 0xD803DCC0)))"
    "0xD803DD40 \<le> c \<Longrightarrow> c \<le> 0xD803DD7F \<Longrightarrow> is_pair (word_of_int (upper_table_sp_5 ! unat (c - 0xD803DD40)))"
    "0xD803DD40 \<le> c \<Longrightarrow> c \<le> 0xD803DDBF \<Longrightarrow> is_pair (word_of_int (upper_table_sp_6 ! unat (c - 0xD803DD40)))"
    "0xD806DCC0 \<le> c \<Longrightarrow> c \<le> 0xD806DCFF \<Longrightarrow> is_pair (word_of_int (upper_table_sp_7 ! unat (c - 0xD806DCC0)))"
    "0xD81BDE40 \<le> c \<Longrightarrow> c \<le> 0xD81BDE7F \<Longrightarrow> is_pair (word_of_int (upper_table_sp_8 ! unat (c - 0xD81BDE40)))"
    "0xD81BDE40 \<le> c \<Longrightarrow> c \<le> 0xD81BDEFF \<Longrightarrow> is_pair (word_of_int (upper_table_sp_9 ! unat (c - 0xD81BDE40)))"
    "0xD83ADD00 \<le> c \<Longrightarrow> c \<le> 0xD83ADD7F \<Longrightarrow> is_pair (word_of_int (upper_table_sp_10 ! unat (c - 0xD83ADD00)))"
  by (rule table_pair, rule upper_sp_values, rule toupper_sp_lengths, assumption, assumption, simp)+

lemma tolower_sp_pair: "is_pair c \<Longrightarrow> is_pair (tolower_sp c)"
  unfolding tolower_sp_def by (intro pair_if) (assumption | (elim conjE, rule lower_pairs, assumption, assumption))+

lemma toupper_sp_pair: "is_pair c \<Longrightarrow> is_pair (toupper_sp c)"
  unfolding toupper_sp_def by (intro pair_if) (assumption | (elim conjE, rule upper_pairs, assumption, assumption))+

lemma case_no_pair:
  assumes "\<not> hi_surrogate (sp_hi c)"
  shows "tolower_sp c = c" "toupper_sp c = c"
proof -
  have c: "unat c < 0xD8000000 \<or> 0xDC000000 \<le> unat c" using assms unfolding unit_kinds unat_sp_parts by linarith
  then show "tolower_sp c = c" "toupper_sp c = c"
    unfolding tolower_sp_def toupper_sp_def by (elim disjE; simp add: word_le_nat_alt)+
qed

end
