(* ===== verification/Unistr.thy ===== *)
theory Unistr
  imports Utf16_Case
begin

text \<open>
  The string functions of \<open>libatalk/unicode/util_unistr.c\<close>. A \<open>ucs2_t *\<close> is the list of the units
  from the pointer to the end of its buffer; a read past the buffer is \<open>None\<close>, and a pointer
  into the string that a function returns is its offset, with \<open>None\<close> for NULL.
\<close>

subsection \<open>Case of a string\<close>

text \<open>
  The loop that \<open>strlower_w\<close> and \<open>strupper_w\<close> share: the buffer after the call and whether a
  character changed. A surrogate pair that does not change is stepped over unit by unit.
\<close>

fun case_loop :: "(ucs2 \<Rightarrow> ucs2) \<Rightarrow> (32 word \<Rightarrow> 32 word) \<Rightarrow> ucs2 list \<Rightarrow> (ucs2 list \<times> bool) option" where
  "case_loop f g [] = None"
| "case_loop f g (c # s) =
     (if c = 0 then Some (c # s, False)
      else if 0xD800 \<le> c \<and> c < 0xDC00 then
        (case s of
           [] \<Rightarrow> None
         | d # s' \<Rightarrow>
             (if 0xDC00 \<le> d \<and> d < 0xE000 \<and> g (sp c d) \<noteq> sp c d then
                map_option (\<lambda>(t, _). (sp_hi (g (sp c d)) # sp_lo (g (sp c d)) # t, True)) (case_loop f g s')
              else map_option (\<lambda>(t, ret). (c # t, ret)) (case_loop f g s)))
      else
        (let v = f c in map_option (\<lambda>(t, ret). (v # t, v \<noteq> c \<or> ret)) (case_loop f g s)))"

definition strlower_w :: "ucs2 list \<Rightarrow> (ucs2 list \<times> bool) option" where
  "strlower_w = case_loop tolower_w tolower_sp"

definition strupper_w :: "ucs2 list \<Rightarrow> (ucs2 list \<times> bool) option" where
  "strupper_w = case_loop toupper_w toupper_sp"

subsection \<open>Lengths and searches\<close>

fun strlen_w :: "ucs2 list \<Rightarrow> nat option" where
  "strlen_w [] = None"
| "strlen_w (c # src) = (if c = 0 then Some 0 else map_option Suc (strlen_w src))"

fun strnlen_w :: "ucs2 list \<Rightarrow> nat \<Rightarrow> nat option" where
  "strnlen_w [] lim = None"
| "strnlen_w (c # src) lim = (if c \<noteq> 0 \<and> 0 < lim then map_option Suc (strnlen_w src (lim - 1)) else Some 0)"

fun strchr_w :: "ucs2 list \<Rightarrow> ucs2 \<Rightarrow> nat option option" where
  "strchr_w [] c = None"
| "strchr_w (x # s) c =
     (if x = 0 then Some (if c = x then Some 0 else None)
      else if c = x then Some (Some 0)
      else map_option (map_option Suc) (strchr_w s c))"

fun strcasechr_w :: "ucs2 list \<Rightarrow> ucs2 \<Rightarrow> nat option option" where
  "strcasechr_w [] c = None"
| "strcasechr_w (x # s) c =
     (if x = 0 then Some (if c = x then Some 0 else None)
      else if tolower_w c = tolower_w x then Some (Some 0)
      else map_option (map_option Suc) (strcasechr_w s c))"

fun casechr_sp_loop :: "ucs2 list \<Rightarrow> 32 word \<Rightarrow> nat option option" where
  "casechr_sp_loop (x # y # s) c_sp =
     (if y = 0 then Some None
      else if tolower_sp c_sp = tolower_sp (sp x y) then Some (Some 0)
      else map_option (map_option Suc) (casechr_sp_loop (y # s) c_sp))"
| "casechr_sp_loop s c_sp = None"

definition strcasechr_sp :: "ucs2 list \<Rightarrow> 32 word \<Rightarrow> nat option option" where
  "strcasechr_sp s c_sp = (case s of [] \<Rightarrow> None | x # _ \<Rightarrow> if x = 0 then Some None else casechr_sp_loop s c_sp)"

subsection \<open>Comparisons\<close>

definition udiff :: "ucs2 \<Rightarrow> ucs2 \<Rightarrow> int" where
  "udiff x y = int (unat x) - int (unat y)"

fun strcmp_w :: "ucs2 list \<Rightarrow> ucs2 list \<Rightarrow> int option" where
  "strcmp_w (x # a) (y # b) = (if y \<noteq> 0 \<and> x = y then strcmp_w a b else Some (udiff x y))"
| "strcmp_w a b = None"

fun strncmp_w :: "ucs2 list \<Rightarrow> ucs2 list \<Rightarrow> nat \<Rightarrow> int option" where
  "strncmp_w a b 0 = Some 0"
| "strncmp_w (x # a) (y # b) (Suc len) = (if y \<noteq> 0 \<and> x = y then strncmp_w a b len else Some (udiff x y))"
| "strncmp_w a b (Suc len) = None"

text \<open>
  The difference of two pairs is an unsigned 32-bit subtraction, stored in an \<open>int\<close>.
\<close>

definition sp_diff :: "32 word \<Rightarrow> 32 word \<Rightarrow> int" where
  "sp_diff x y = sint (tolower_sp x - tolower_sp y)"

fun strcasecmp_w :: "ucs2 list \<Rightarrow> ucs2 list \<Rightarrow> int option" where
  "strcasecmp_w (x # a) (y # b) =
     (if x \<noteq> 0 \<and> y \<noteq> 0 then
        (if 0xD800 \<le> x \<and> x < 0xDC00 then
           (case (a, b) of
              (x1 # a', y1 # b') \<Rightarrow>
                (if sp_diff (sp x x1) (sp y y1) \<noteq> 0 then Some (sp_diff (sp x x1) (sp y y1))
                 else if \<not> (x1 \<noteq> 0 \<and> y1 \<noteq> 0) then Some (udiff (tolower_w x1) (tolower_w y1))
                 else strcasecmp_w a' b')
            | _ \<Rightarrow> None)
         else if udiff (tolower_w x) (tolower_w y) \<noteq> 0 then Some (udiff (tolower_w x) (tolower_w y))
         else strcasecmp_w a b)
      else Some (udiff (tolower_w x) (tolower_w y)))"
| "strcasecmp_w a b = None"

fun strncasecmp_w :: "ucs2 list \<Rightarrow> ucs2 list \<Rightarrow> nat \<Rightarrow> int option" where
  "strncasecmp_w a b 0 = Some 0"
| "strncasecmp_w (x # a) (y # b) (Suc len) =
     (if x \<noteq> 0 \<and> y \<noteq> 0 then
        (if 0xD800 \<le> x \<and> x < 0xDC00 then
           (case (a, b) of
              (x1 # a', y1 # b') \<Rightarrow>
                (if sp_diff (sp x x1) (sp y y1) \<noteq> 0 then Some (sp_diff (sp x x1) (sp y y1))
                 else if \<not> (0 < len \<and> x1 \<noteq> 0 \<and> y1 \<noteq> 0) then Some (udiff (tolower_w x1) (tolower_w y1))
                 else strncasecmp_w a' b' (len - 1))
            | _ \<Rightarrow> None)
         else if udiff (tolower_w x) (tolower_w y) \<noteq> 0 then Some (udiff (tolower_w x) (tolower_w y))
         else strncasecmp_w a b len)
      else Some (udiff (tolower_w x) (tolower_w y)))"
| "strncasecmp_w a b (Suc len) = None"

subsection \<open>Substrings and copies\<close>

text \<open>
  The loops of \<open>strstr_w\<close> and \<open>strcasestr_w\<close>: \<open>chr\<close> finds the next candidate and \<open>cmp\<close> compares there.
\<close>

function str_search :: "(ucs2 list \<Rightarrow> nat option option) \<Rightarrow> (ucs2 list \<Rightarrow> int option) \<Rightarrow> ucs2 list \<Rightarrow> nat option option" where
  "str_search chr cmp r =
     (case chr r of
        None \<Rightarrow> None
      | Some None \<Rightarrow> Some None
      | Some (Some k) \<Rightarrow>
          (if k < length r then
             (case cmp (drop k r) of
                None \<Rightarrow> None
              | Some d \<Rightarrow> if d = 0 then Some (Some k) else map_option (map_option ((+) (k + 1))) (str_search chr cmp (drop (k + 1) r)))
           else None))"
  by pat_completeness auto
termination by (relation "measure (\<lambda>(_, _, r). length r)") auto

declare str_search.simps [simp del]

text \<open>A \<open>None\<close> argument is NULL.\<close>

definition strstr_w :: "ucs2 list option \<Rightarrow> ucs2 list option \<Rightarrow> nat option option" where
  "strstr_w s ins =
     (case s of
        None \<Rightarrow> Some None
      | Some [] \<Rightarrow> None
      | Some (x # s') \<Rightarrow>
          if x = 0 then Some None
          else (case ins of
                  None \<Rightarrow> Some None
                | Some [] \<Rightarrow> None
                | Some (y # ins') \<Rightarrow>
                    if y = 0 then Some None
                    else (case strlen_w (y # ins') of
                            None \<Rightarrow> None
                          | Some inslen \<Rightarrow> str_search (\<lambda>r. strchr_w r y) (\<lambda>r. strncmp_w r (y # ins') inslen) (x # s'))))"

definition strcasestr_w :: "ucs2 list option \<Rightarrow> ucs2 list option \<Rightarrow> nat option option" where
  "strcasestr_w s ins =
     (case s of
        None \<Rightarrow> Some None
      | Some [] \<Rightarrow> None
      | Some (x # s') \<Rightarrow>
          if x = 0 then Some None
          else (case ins of
                  None \<Rightarrow> Some None
                | Some [] \<Rightarrow> None
                | Some (y # ins') \<Rightarrow>
                    if y = 0 then Some None
                    else (case strlen_w (y # ins') of
                            None \<Rightarrow> None
                          | Some inslen \<Rightarrow>
                              if 0xD800 \<le> y \<and> y < 0xDC00 then
                                (case ins' of
                                   [] \<Rightarrow> None
                                 | z # _ \<Rightarrow>
                                     if 0xDC00 \<le> z \<and> z < 0xE000 then
                                       str_search (\<lambda>r. strcasechr_sp r (sp y z)) (\<lambda>r. strncasecmp_w r (y # ins') inslen) (x # s')
                                     else Some None)
                              else str_search (\<lambda>r. strcasechr_w r y) (\<lambda>r. strncasecmp_w r (y # ins') inslen) (x # s'))))"

text \<open>\<open>ok\<close> says whether \<open>malloc\<close> succeeds; the result is the new buffer or NULL.\<close>

definition strndup_w :: "bool \<Rightarrow> ucs2 list \<Rightarrow> nat \<Rightarrow> ucs2 list option option" where
  "strndup_w ok src len =
     (case (if len = 0 then strlen_w src else Some len) of
        None \<Rightarrow> None
      | Some n \<Rightarrow> if \<not> ok then Some None else if n \<le> length src then Some (Some (take n src @ [0])) else None)"

definition strdup_w :: "bool \<Rightarrow> ucs2 list \<Rightarrow> ucs2 list option option" where
  "strdup_w ok src = strndup_w ok src 0"

end
