(* ===== verification/Unistr_Claims.thy ===== *)
theory Unistr_Claims
  imports Unistr
begin

text \<open>
  What the string functions promise on NUL-terminated strings: they never read past the
  terminator, the case functions map character by character, comparison without regard to case
  is equality of the lower-case forms, and the substring search finds the first occurrence.
\<close>

subsection \<open>Reference definitions\<close>

fun fold_case :: "(ucs2 \<Rightarrow> ucs2) \<Rightarrow> (32 word \<Rightarrow> 32 word) \<Rightarrow> ucs2 list \<Rightarrow> ucs2 list" where
  "fold_case f g [] = []"
| "fold_case f g [c] = [if hi_surrogate c then c else f c]"
| "fold_case f g (c # d # s) =
     (if hi_surrogate c \<and> lo_surrogate d then sp_hi (g (sp c d)) # sp_lo (g (sp c d)) # fold_case f g s
      else (if hi_surrogate c then c else f c) # fold_case f g (d # s))"

definition lower :: "ucs2 list \<Rightarrow> ucs2 list" where
  "lower = fold_case tolower_w tolower_sp"

definition upper :: "ucs2 list \<Rightarrow> ucs2 list" where
  "upper = fold_case toupper_w toupper_sp"

text \<open>Well-formed UTF-16: surrogates come in pairs.\<close>

fun wf16 :: "ucs2 list \<Rightarrow> bool" where
  "wf16 [] = True"
| "wf16 [c] = plain_unit c"
| "wf16 (c # d # s) = (if hi_surrogate c then lo_surrogate d \<and> wf16 s else plain_unit c \<and> wf16 (d # s))"

fun first_occ :: "ucs2 list \<Rightarrow> ucs2 list \<Rightarrow> nat option" where
  "first_occ ins [] = None"
| "first_occ ins (x # s) = (if take (length ins) (x # s) = ins then Some 0 else map_option Suc (first_occ ins s))"

subsection \<open>Case\<close>

lemma surrogate_tests:
  "0xD800 \<le> c \<and> c < 0xDC00 \<longleftrightarrow> hi_surrogate c" "0xDC00 \<le> c \<and> c < 0xE000 \<longleftrightarrow> lo_surrogate c"
  by (simp_all add: hi_surrogate_def lo_surrogate_def)

lemma lo_not_hi: "lo_surrogate c \<Longrightarrow> \<not> hi_surrogate c"
  by (simp add: unit_kinds)

lemma nul_kind: "\<not> lo_surrogate 0" "\<not> hi_surrogate 0"
  by (simp_all add: unit_kinds)

lemma case_loop_lone:
  assumes "c \<noteq> 0" "\<not> (hi_surrogate c \<and> lo_surrogate d)" "case_loop f g (d # s) = Some (t, ret)"
  shows "case_loop f g (c # d # s) = Some ((if hi_surrogate c then c else f c) # t, (if hi_surrogate c then False else f c \<noteq> c) \<or> ret)"
  using assms(1,2) unfolding case_loop.simps(2)[of f g c] assms(3) surrogate_tests by (simp add: Let_def) (auto simp: surrogate_tests[symmetric])

lemma case_loop_pair:
  assumes "c \<noteq> 0" "hi_surrogate c" "lo_surrogate d" "f d = d" "d \<noteq> 0" "case_loop f g s = Some (t, ret)"
  shows "case_loop f g (c # d # s) = Some (sp_hi (g (sp c d)) # sp_lo (g (sp c d)) # t, g (sp c d) \<noteq> sp c d \<or> ret)"
  using assms lo_not_hi[OF assms(3)] by (cases "g (sp c d) = sp c d") (simp_all add: surrogate_tests Let_def)

lemma case_loop_fold:
  assumes "\<And>c. lo_surrogate c \<Longrightarrow> f c = c" "0 \<notin> set s"
  shows "case_loop f g (s @ 0 # rest) = Some (fold_case f g s @ 0 # rest, fold_case f g s \<noteq> s)"
  using assms
proof (induction f g s rule: fold_case.induct)
  case (2 f g c)
  then show ?case by (simp add: surrogate_tests nul_kind Let_def)
next
  case (3 f g c d s)
  then have c: "c \<noteq> 0" "d \<noteq> 0" by simp_all
  show ?case
  proof (cases "hi_surrogate c \<and> lo_surrogate d")
    case True
    then have IH: "case_loop f g (s @ 0 # rest) = Some (fold_case f g s @ 0 # rest, fold_case f g s \<noteq> s)"
      using 3(1)[OF True 3(3)] 3(4) by simp
    have ch: "sp_hi (g (sp c d)) = c \<and> sp_lo (g (sp c d)) = d \<longleftrightarrow> g (sp c d) = sp c d" by (metis sp_parts)
    from case_loop_pair[where f = f, OF c(1) conjunct1[OF True] conjunct2[OF True] 3(3)[OF conjunct2[OF True]] c(2) IH]
    show ?thesis using ch True by (auto simp del: case_loop.simps)
  next
    case False
    have "case_loop f g (d # s @ 0 # rest) = Some (fold_case f g (d # s) @ 0 # rest, fold_case f g (d # s) \<noteq> d # s)"
      using 3(2)[OF False 3(3)] 3(4) by (simp del: case_loop.simps)
    from case_loop_lone[OF c(1) False this] show ?thesis using False by (auto simp del: case_loop.simps)
  qed
qed simp

text \<open>
  On a NUL-terminated string both case functions stay within the string, replace each
  unit and each surrogate pair by its case mapping, leave the terminator and what follows alone,
  and report whether anything changed.
\<close>

theorem strcase_folds:
  assumes "0 \<notin> set s"
  shows "strlower_w (s @ 0 # rest) = Some (lower s @ 0 # rest, lower s \<noteq> s) \<and>
    strupper_w (s @ 0 # rest) = Some (upper s @ 0 # rest, upper s \<noteq> s)"
  using case_loop_fold[of tolower_w s tolower_sp rest] case_loop_fold[of toupper_w s toupper_sp rest] assms case_surrogate
  by (simp add: strlower_w_def strupper_w_def lower_def upper_def)

theorem strcase_folds_witness:
  "strlower_w ([0x41, 0xD801, 0xDC00, 0x62] @ 0 # [7]) =
    Some (lower [0x41, 0xD801, 0xDC00, 0x62] @ 0 # [7], lower [0x41, 0xD801, 0xDC00, 0x62] \<noteq> [0x41, 0xD801, 0xDC00, 0x62])"
  using strcase_folds[of "[0x41, 0xD801, 0xDC00, 0x62]" "[7]"] by simp

subsection \<open>Comparison without regard to case\<close>

lemma tolower_eq_0 [simp]: "tolower_w c = 0 \<longleftrightarrow> c = 0"
  using tolower_plain[of c] case_surrogate(1)[of c] case_nul(1) unfolding plain_unit_def by metis

lemma udiff_0 [simp]: "udiff x y = 0 \<longleftrightarrow> x = y"
  unfolding udiff_def word_unat_eq_iff by linarith

lemma sp_diff_0 [simp]: "sp_diff x y = 0 \<longleftrightarrow> tolower_sp x = tolower_sp y"
  unfolding sp_diff_def by (metis eq_iff_diff_eq_0 sint_0 signed_eq_0_iff)

lemma is_pair_sp: "is_pair (sp h l) \<longleftrightarrow> hi_surrogate h \<and> lo_surrogate l"
  by (simp add: is_pair_def)

lemma tolower_sp_hi: "hi_surrogate h \<Longrightarrow> lo_surrogate l \<Longrightarrow> hi_surrogate (sp_hi (tolower_sp (sp h l)))"
  using tolower_sp_pair[of "sp h l"] by (simp add: is_pair_sp) (simp add: is_pair_def)

lemma lower_simps:
  "lower [] = []"
  "plain_unit c \<Longrightarrow> lower (c # s) = tolower_w c # lower s"
  "hi_surrogate h \<Longrightarrow> lo_surrogate l \<Longrightarrow> lower (h # l # s) = sp_hi (tolower_sp (sp h l)) # sp_lo (tolower_sp (sp h l)) # lower s"
  by (simp_all add: lower_def) (cases s; simp add: plain_unit_def)

text \<open>The ways to read on in a well-formed string.\<close>

lemma wf16_cases:
  assumes "wf16 s"
  obtains "s = []" | c t where "s = c # t" "plain_unit c" "wf16 t"
    | h l t where "s = h # l # t" "hi_surrogate h" "lo_surrogate l" "wf16 t"
  using assms by (cases s rule: wf16.cases) (auto split: if_splits)

lemma kinds_nonzero: "hi_surrogate c \<Longrightarrow> c \<noteq> 0" "lo_surrogate c \<Longrightarrow> c \<noteq> 0" "plain_unit c \<Longrightarrow> c \<noteq> 0 \<and> \<not> hi_surrogate c"
  by (auto simp: unit_kinds plain_unit_def)

lemma strcasecmp_fold:
  assumes "wf16 a" "wf16 b"
  shows "\<exists>d. strcasecmp_w (a @ 0 # r) (b @ 0 # r') = Some d \<and> (d = 0 \<longleftrightarrow> lower a = lower b)"
  using assms
proof (induction "length a" arbitrary: a b rule: less_induct)
  case less
  from less.prems(1) show ?case
  proof (cases rule: wf16_cases)
    case 1
    from less.prems(2) show ?thesis
      by (cases rule: wf16_cases) (auto simp: 1 lower_simps kinds_nonzero case_nul)
  next
    case (2 c t)
    note c = kinds_nonzero(3)[OF 2(2)] and p = tolower_plain[OF 2(2)]
    from less.prems(2) show ?thesis
    proof (cases rule: wf16_cases)
      case 1
      then show ?thesis using 2 c by (auto simp: surrogate_tests lower_simps case_nul)
    next
      case (2 c' t')
      note b = 2
      show ?thesis
      proof (cases "tolower_w c = tolower_w c'")
        case True
        then show ?thesis
          using less.hyps[of t t'] \<open>a = c # t\<close> \<open>wf16 t\<close> \<open>plain_unit c\<close> b c kinds_nonzero(3)[OF b(2)]
          by (auto simp: surrogate_tests lower_simps)
      next
        case False
        then show ?thesis using \<open>a = c # t\<close> \<open>plain_unit c\<close> b c kinds_nonzero(3)[OF b(2)]
          by (auto simp: surrogate_tests lower_simps)
      qed
    next
      case (3 h l t')
      have "tolower_w c \<noteq> h" using p 3(2) by (auto simp: plain_unit_def)
      moreover have "tolower_w c \<noteq> sp_hi (tolower_sp (sp h l))" using p tolower_sp_hi[OF 3(2,3)] by (auto simp: plain_unit_def)
      ultimately show ?thesis using 2 3 c kinds_nonzero(1)[OF 3(2)] case_surrogate(1)[of h]
        by (auto simp: surrogate_tests lower_simps)
    qed
  next
    case (3 h l t)
    note a = 3 and h = kinds_nonzero(1)[OF 3(2)] kinds_nonzero(2)[OF 3(3)]
    from less.prems(2) show ?thesis
    proof (cases rule: wf16_cases)
      case 1
      then show ?thesis using a h by (auto simp: surrogate_tests lower_simps case_nul)
    next
      case (2 c t')
      note c = kinds_nonzero(3)[OF 2(2)] and p = tolower_plain[OF 2(2)]
      obtain y b' where y: "t' @ 0 # r' = y # b'" by (cases t') auto
      have "tolower_sp (sp c y) = sp c y" using case_no_pair(1)[of "sp c y"] c by simp
      moreover have "sp_hi (tolower_sp (sp h l)) \<noteq> c" using c tolower_sp_hi[OF a(2,3)] by auto
      ultimately have "tolower_sp (sp h l) \<noteq> tolower_sp (sp c y)" by (metis sp_parts(1))
      moreover have "sp_hi (tolower_sp (sp h l)) \<noteq> tolower_w c" using p tolower_sp_hi[OF a(2,3)] by (auto simp: plain_unit_def)
      ultimately show ?thesis using a h 2 c y by (auto simp: surrogate_tests lower_simps)
    next
      case (3 h' l' t')
      note b = 3 and h' = kinds_nonzero(1)[OF 3(2)] kinds_nonzero(2)[OF 3(3)]
      show ?thesis
      proof (cases "tolower_sp (sp h l) = tolower_sp (sp h' l')")
        case True
        then show ?thesis using less.hyps[of t t'] a b h h' by (auto simp: surrogate_tests lower_simps)
      next
        case False
        moreover have "\<not> (sp_hi (tolower_sp (sp h l)) = sp_hi (tolower_sp (sp h' l')) \<and> sp_lo (tolower_sp (sp h l)) = sp_lo (tolower_sp (sp h' l')))"
          using False by (metis sp_parts(3))
        ultimately show ?thesis using a b h h' by (auto simp: surrogate_tests lower_simps)
      qed
    qed
  qed
qed

text \<open>
  On NUL-terminated well-formed strings the comparison without regard to case stays within
  both strings and gives 0 exactly when their lower-case forms are equal.
\<close>

theorem strcasecmp_w_folds:
  assumes "wf16 a" "wf16 b"
  shows "\<exists>d. strcasecmp_w (a @ 0 # r) (b @ 0 # r') = Some d \<and> (d = 0 \<longleftrightarrow> lower a = lower b)"
  using strcasecmp_fold[OF assms] .

theorem strcasecmp_w_folds_witness:
  "\<exists>d. strcasecmp_w ([0xD801, 0xDC00, 0x41] @ 0 # []) ([0xD801, 0xDC28, 0x61] @ 0 # []) = Some d \<and>
    (d = 0 \<longleftrightarrow> lower [0xD801, 0xDC00, 0x41] = lower [0xD801, 0xDC28, 0x61])"
  using strcasecmp_w_folds[of "[0xD801, 0xDC00, 0x41]" "[0xD801, 0xDC28, 0x61]" "[]" "[]"]
  by (simp add: hi_surrogate_def lo_surrogate_def plain_unit_def)

subsection \<open>Substring search\<close>

lemma strlen_terminated: "0 \<notin> set s \<Longrightarrow> strlen_w (s @ 0 # r) = Some (length s)"
  by (induction s) auto

lemma strncmp_prefix:
  assumes "0 \<notin> set ins" "0 \<notin> set s"
  shows "\<exists>d. strncmp_w (s @ 0 # r) (ins @ 0 # r') (length ins) = Some d \<and> (d = 0 \<longleftrightarrow> take (length ins) s = ins)"
  using assms
proof (induction ins arbitrary: s)
  case (Cons y ins)
  then show ?case by (cases s) auto
qed simp

lemma strchr_terminated:
  assumes "y \<noteq> 0" "0 \<notin> set s"
  shows "y \<notin> set s \<Longrightarrow> strchr_w (s @ 0 # r) y = Some None"
    "s = p @ y # t \<Longrightarrow> y \<notin> set p \<Longrightarrow> strchr_w (s @ 0 # r) y = Some (Some (length p))"
  using assms by (induction s arbitrary: p) (auto simp: Cons_eq_append_conv)

lemma plus_shift: "(+) (Suc n) = (\<lambda>x. Suc (n + x))" "map_option ((+) (0 :: nat)) z = z"
  by (auto simp: fun_eq_iff option.map_ident cong: option.map_cong)

lemma first_occ_skip: "y \<notin> set p \<Longrightarrow> first_occ (y # ins) (p @ s) = map_option ((+) (length p)) (first_occ (y # ins) s)"
  by (induction p) (auto simp: option.map_comp comp_def plus_shift)

lemma first_occ_none: "y \<notin> set s \<Longrightarrow> first_occ (y # ins) s = None"
  by (induction s) auto

lemma str_search_first:
  assumes "0 \<notin> set (y # ins)" "0 \<notin> set s"
  shows "str_search (\<lambda>r. strchr_w r y) (\<lambda>r. strncmp_w r (y # ins @ 0 # r') (length (y # ins))) (s @ 0 # r) =
    Some (first_occ (y # ins) s)"
  using assms(2)
proof (induction "length s" arbitrary: s rule: less_induct)
  case less
  show ?case
  proof (cases "y \<in> set s")
    case False
    then show ?thesis using strchr_terminated(1)[of y s r] assms(1) less.prems
      by (subst str_search.simps) (simp add: first_occ_none)
  next
    case True
    then obtain p t where s: "s = p @ y # t" "y \<notin> set p" by (meson split_list_first)
    have chr: "strchr_w (s @ 0 # r) y = Some (Some (length p))" using strchr_terminated(2)[of y s p t r] assms(1) less.prems s by simp
    have t: "0 \<notin> set t" "length t < length s" using less.prems s by auto
    obtain d where d: "strncmp_w ((y # t) @ 0 # r) ((y # ins) @ 0 # r') (length (y # ins)) = Some d" "d = 0 \<longleftrightarrow> take (length (y # ins)) (y # t) = y # ins"
      using strncmp_prefix[of "y # ins" "y # t" r r'] assms(1) t(1) by auto
    have IH: "str_search (\<lambda>r. strchr_w r y) (\<lambda>r. strncmp_w r (y # ins @ 0 # r') (length (y # ins))) (t @ 0 # r) = Some (first_occ (y # ins) t)"
      using less.hyps[OF t(2,1)] .
    show ?thesis
      using chr d IH s by (subst str_search.simps) (auto simp: first_occ_skip option.map_comp comp_def plus_shift)
  qed
qed

text \<open>
  C16: the substring search on NUL-terminated strings never reads past a terminator, ends, and
  gives the offset of the first occurrence, or NULL when there is none or one of the strings is
  empty.
\<close>

theorem strstr_w_first:
  assumes "0 \<notin> set s" "0 \<notin> set ins"
  shows "strstr_w (Some (s @ 0 # r)) (Some (ins @ 0 # r')) = Some (if ins = [] then None else first_occ ins s)"
proof (cases s)
  case Nil
  then show ?thesis by (simp add: strstr_w_def)
next
  case (Cons x s')
  show ?thesis
  proof (cases ins)
    case Nil
    then show ?thesis using Cons assms by (simp add: strstr_w_def)
  next
    case C: (Cons y ins')
    have len: "strlen_w (y # ins' @ 0 # r') = Some (length (y # ins'))" using strlen_terminated[of "y # ins'" r'] assms(2) C by simp
    show ?thesis
      using str_search_first[of y ins' s r' r] assms len C Cons unfolding strstr_w_def by (simp del: strlen_w.simps)
  qed
qed

theorem strstr_w_first_witness:
  "strstr_w (Some ([0x61, 0x62, 0x61, 0x62, 0x63] @ 0 # [])) (Some ([0x61, 0x62, 0x63] @ 0 # [])) = Some (Some 2)"
  using strstr_w_first[of "[0x61, 0x62, 0x61, 0x62, 0x63]" "[0x61, 0x62, 0x63]" "[]" "[]"] by simp

end
