(* ===== verification/Ad_Lock.thy ===== *)
theory Ad_Lock
  imports Netatalk_Prelude
begin

text \<open>
  Byte-range and share-mode locks on the forks of an AppleDouble file:
  \<open>libatalk/adouble/ad_lock.c\<close>. A fork descriptor records the ranges that the open forks hold,
  in order of start, and the kernel holds one set of locks for the whole process.

  An \<open>off_t\<close> is an integer: every start and every last byte of a range that passes the checks of
  the code lies between 0 and \<open>LOCK_TOP\<close>, and so do the differences the code forms, up to sign.
  The kernel is the map from the bytes of a file to the lock that this process holds there, as
  POSIX describes \<open>F_SETLK\<close>. What the system decides is an argument: which calls \<open>fcntl\<close> refuses,
  what \<open>F_GETLK\<close> finds of other processes, and whether \<open>realloc\<close> succeeds, each by the number of
  the call. \<open>None\<close> as the result of a whole operation is a panic.
\<close>

subsection \<open>Data\<close>

datatype lock_type = F_RDLCK | F_WRLCK | F_UNLCK | F_BAD

datatype lock_errno = EACCES | EAGAIN | EINVAL | EOVERFLOW | ENOMEM | ENOLCK

record flock =
  l_type :: lock_type
  l_start :: int
  l_len :: int

record adf_lock_t =
  adf_flock :: flock
  adf_user :: int
  adf_reach :: int

record ad_fd =
  adf_fd :: int
  adf_rdwr :: bool
  adf_lock :: "adf_lock_t list"
  adf_lockmax :: nat

record adouble =
  ad_data_fork :: ad_fd
  ad_rfp :: ad_fd
  ad_entryoff :: int

record kernel =
  held :: "int \<Rightarrow> int \<Rightarrow> lock_type option"
  calls :: nat

record os =
  deny :: "nat \<Rightarrow> int \<Rightarrow> flock \<Rightarrow> lock_errno option"
  getlk :: "nat \<Rightarrow> int \<Rightarrow> flock \<Rightarrow> lock_errno + bool"
  realloc_ok :: "nat \<Rightarrow> bool"

abbreviation l_first :: "adf_lock_t \<Rightarrow> int" where
  "l_first e \<equiv> l_start (adf_flock e)"

definition AD_SYMLINK :: int where "AD_SYMLINK = -2"
definition LOCK_TOP :: int where "LOCK_TOP = 0x7FFFFFFFFFFFFFFF"
definition AD_FILELOCK_BASE :: int where "AD_FILELOCK_BASE = 0x7FFFFFFFFFFFFFFF - 9"
definition BYTELOCK_MAX :: int where "BYTELOCK_MAX = AD_FILELOCK_BASE - 1"
definition ARRAY_BLOCK_SIZE :: nat where "ARRAY_BLOCK_SIZE = 10"
definition ARRAY_FREE_DELTA :: nat where "ARRAY_FREE_DELTA = 100"

definition ADLOCK_RD :: "32 word" where "ADLOCK_RD = 1"
definition ADLOCK_WR :: "32 word" where "ADLOCK_WR = 2"
definition ADLOCK_MASK :: "32 word" where "ADLOCK_MASK = ADLOCK_RD OR ADLOCK_WR"
definition ADLOCK_UPGRADE :: "32 word" where "ADLOCK_UPGRADE = 4"
definition ADLOCK_FILELOCK :: "32 word" where "ADLOCK_FILELOCK = 8"

lemmas lock_consts = AD_SYMLINK_def LOCK_TOP_def AD_FILELOCK_BASE_def BYTELOCK_MAX_def
lemmas adlock_bits = ADLOCK_RD_def ADLOCK_WR_def ADLOCK_MASK_def ADLOCK_UPGRADE_def ADLOCK_FILELOCK_def

subsection \<open>The kernel\<close>

definition in_range :: "flock \<Rightarrow> int \<Rightarrow> bool" where
  "in_range l x \<longleftrightarrow> l_start l \<le> x \<and> (l_len l = 0 \<or> x < l_start l + l_len l)"

definition k_setlk :: "(int \<Rightarrow> lock_type option) \<Rightarrow> flock \<Rightarrow> int \<Rightarrow> lock_type option" where
  "k_setlk h l x = (if in_range l x then (if l_type l = F_UNLCK then None else Some (l_type l)) else h x)"

definition set_lock :: "os \<Rightarrow> kernel \<Rightarrow> int \<Rightarrow> flock \<Rightarrow> lock_errno option \<times> kernel" where
  "set_lock os k fd l =
     (if fd = AD_SYMLINK then (None, k)
      else
        (let k' = k\<lparr>calls := Suc (calls k)\<rparr> in
         case deny os (calls k) fd l of
           Some e \<Rightarrow> (Some e, k')
         | None \<Rightarrow>
             if l_type l = F_BAD then (Some EINVAL, k')
             else (None, k'\<lparr>held := (held k)(fd := k_setlk (held k fd) l)\<rparr>)))"

text \<open>\<open>set_lock\<close> with \<open>F_GETLK\<close>: whether a lock of another process is in the way.\<close>

definition get_lock :: "os \<Rightarrow> kernel \<Rightarrow> int \<Rightarrow> flock \<Rightarrow> (lock_errno + bool) \<times> kernel" where
  "get_lock os k fd l =
     (if fd = AD_SYMLINK then (Inr False, k) else (getlk os (calls k) fd l, k\<lparr>calls := Suc (calls k)\<rparr>))"

definition realloc :: "os \<Rightarrow> kernel \<Rightarrow> bool \<times> kernel" where
  "realloc os k = (realloc_ok os (calls k), k\<lparr>calls := Suc (calls k)\<rparr>)"

definition XLATE_FCNTL_LOCK :: "32 word \<Rightarrow> lock_type" where
  "XLATE_FCNTL_LOCK type =
     (if type = ADLOCK_RD then F_RDLCK else if type = ADLOCK_WR then F_WRLCK else if type = 0 then F_UNLCK else F_BAD)"

subsection \<open>Ranges and the sorted array\<close>

definition OVERLAP :: "int \<Rightarrow> int \<Rightarrow> int \<Rightarrow> int \<Rightarrow> bool" where
  "OVERLAP a alen b blen \<longleftrightarrow> (alen = 0 \<and> a \<le> b) \<or> (blen = 0 \<and> b \<le> a) \<or> (alen > b - a \<and> blen > a - b)"

definition adf_lock_fits :: "int \<Rightarrow> int \<Rightarrow> bool" where
  "adf_lock_fits start len \<longleftrightarrow> len - 1 \<le> LOCK_TOP - start"

definition adf_lock_last :: "int \<Rightarrow> int \<Rightarrow> int" where
  "adf_lock_last start len = (if len > 0 then start + (len - 1) else LOCK_TOP)"

abbreviation l_last :: "adf_lock_t \<Rightarrow> int" where
  "l_last e \<equiv> adf_lock_last (l_start (adf_flock e)) (l_len (adf_flock e))"

function lower_loop :: "(adf_lock_t \<Rightarrow> int) \<Rightarrow> adf_lock_t list \<Rightarrow> int \<Rightarrow> nat \<Rightarrow> nat \<Rightarrow> nat" where
  "lower_loop key ls target lo hi =
     (if lo < hi then
        (let mid = lo + (hi - lo) div 2 in
         if key (ls ! mid) < target then lower_loop key ls target (mid + 1) hi
         else lower_loop key ls target lo mid)
      else lo)"
  by pat_completeness auto
termination by (relation "measure (\<lambda>(_, _, _, lo, hi). hi - lo)") (auto simp: Let_def)

declare lower_loop.simps [simp del]

definition adf_lock_lower :: "ad_fd \<Rightarrow> int \<Rightarrow> bool \<Rightarrow> nat" where
  "adf_lock_lower adf target by_reach =
     lower_loop (if by_reach then adf_reach else l_first) (adf_lock adf) target 0 (length (adf_lock adf))"

definition adf_lock_window :: "ad_fd \<Rightarrow> int \<Rightarrow> int \<Rightarrow> nat \<times> nat" where
  "adf_lock_window adf off len =
     (let last = adf_lock_last off len in
      (adf_lock_lower adf off True,
       if last < LOCK_TOP then adf_lock_lower adf (last + 1) False else length (adf_lock adf)))"

fun reach_loop :: "int \<Rightarrow> adf_lock_t list \<Rightarrow> adf_lock_t list" where
  "reach_loop reach [] = []"
| "reach_loop reach (e # es) =
     (let reach' = (if l_last e > reach then l_last e else reach) in e\<lparr>adf_reach := reach'\<rparr> # reach_loop reach' es)"

definition adf_lock_reach :: "ad_fd \<Rightarrow> nat \<Rightarrow> ad_fd" where
  "adf_lock_reach adf from =
     adf\<lparr>adf_lock := take from (adf_lock adf) @
       reach_loop (if from > 0 then adf_reach (adf_lock adf ! (from - 1)) else -1) (drop from (adf_lock adf))\<rparr>"

subsection \<open>Walking the gaps between the entries\<close>

text \<open>
  The loop of \<open>adf_lock_gaps\<close> on the entries of the window that are left: \<open>done\<close> is the last byte
  covered or dealt with, \<open>undo\<close> releases a number of bytes from the start of the range after a
  refused take, and \<open>ret\<close> holds the error of a failed release.
\<close>

definition gap_at :: "flock \<Rightarrow> int \<Rightarrow> int \<Rightarrow> flock" where
  "gap_at r done stop = r\<lparr>l_start := done + 1, l_len := (if stop < LOCK_TOP then stop - done else 0)\<rparr>"

fun gaps_walk :: "os \<Rightarrow> (int \<Rightarrow> kernel \<Rightarrow> kernel) \<Rightarrow> int \<Rightarrow> flock \<Rightarrow> int \<Rightarrow> adf_lock_t list \<Rightarrow> int \<Rightarrow> lock_errno option \<Rightarrow>
    kernel \<Rightarrow> lock_errno option \<times> kernel" where
  "gaps_walk os undo fd r rlast [] done ret k =
     (if done < rlast then
        (case set_lock os k fd (gap_at r done rlast) of
           (None, k) \<Rightarrow> (ret, k)
         | (Some e, k) \<Rightarrow>
             (Some e, if l_type r \<noteq> F_UNLCK \<and> done \<ge> l_start r then undo (done - l_start r + 1) k else k))
      else (ret, k))"
| "gaps_walk os undo fd r rlast (w # ws) done ret k =
     (if done < rlast then
        (let stop = l_first w - 1; done' = (if adf_reach w > done then adf_reach w else done) in
         if stop > done then
           (case set_lock os k fd (gap_at r done stop) of
              (None, k) \<Rightarrow> gaps_walk os undo fd r rlast ws done' ret k
            | (Some e, k) \<Rightarrow>
                (if l_type r \<noteq> F_UNLCK then
                   (Some e, if done \<ge> l_start r then undo (done - l_start r + 1) k else k)
                 else gaps_walk os undo fd r rlast ws done' (Some e) k))
         else gaps_walk os undo fd r rlast ws done' ret k)
      else (ret, k))"

text \<open>The loop runs from the first index of the window to the index after the last, so not at all when these cross.\<close>

definition gaps_window :: "ad_fd \<Rightarrow> flock \<Rightarrow> adf_lock_t list" where
  "gaps_window adf r = (case adf_lock_window adf (l_start r) (l_len r) of (lo, hi) \<Rightarrow> drop lo (take hi (adf_lock adf)))"

definition gaps_run :: "os \<Rightarrow> (int \<Rightarrow> kernel \<Rightarrow> kernel) \<Rightarrow> kernel \<Rightarrow> ad_fd \<Rightarrow> flock \<Rightarrow> lock_errno option \<times> kernel" where
  "gaps_run os undo k adf r =
     (case adf_lock_window adf (l_start r) (l_len r) of
        (lo, hi) \<Rightarrow>
          if lo \<le> hi then
            gaps_walk os undo (adf_fd adf) r (adf_lock_last (l_start r) (l_len r)) (gaps_window adf r) (l_start r - 1) None k
          else (None, k))"

text \<open>The recursive call of \<open>adf_lock_gaps\<close> is a release, which calls itself no further.\<close>

definition gaps_undo :: "os \<Rightarrow> ad_fd \<Rightarrow> flock \<Rightarrow> int \<Rightarrow> kernel \<Rightarrow> kernel" where
  "gaps_undo os adf r n k = snd (gaps_run os (\<lambda>_ k. k) k adf (r\<lparr>l_type := F_UNLCK, l_len := n\<rparr>))"

definition adf_lock_gaps :: "os \<Rightarrow> kernel \<Rightarrow> ad_fd \<Rightarrow> flock \<Rightarrow> lock_errno option \<times> kernel" where
  "adf_lock_gaps os k adf r = gaps_run os (gaps_undo os adf r) k adf r"

subsection \<open>Dropping entries\<close>

definition adf_freelock :: "os \<Rightarrow> kernel \<Rightarrow> ad_fd \<Rightarrow> nat \<Rightarrow> kernel \<times> ad_fd" where
  "adf_freelock os k ad i =
     (let ul = (adf_flock (adf_lock ad ! i))\<lparr>l_type := F_UNLCK\<rparr>;
          ad = adf_lock_reach (ad\<lparr>adf_lock := take i (adf_lock ad) @ drop (Suc i) (adf_lock ad)\<rparr>) i;
          k = snd (adf_lock_gaps os k ad ul);
          n = length (adf_lock ad)
      in if adf_lockmax ad > ARRAY_FREE_DELTA \<and> n + ARRAY_FREE_DELTA < adf_lockmax ad then
           (case realloc os k of
              (ok, k) \<Rightarrow> (k, if ok then ad\<lparr>adf_lockmax := n + ARRAY_FREE_DELTA\<rparr> else ad))
         else (k, ad))"

text \<open>The loop of \<open>adf_unlock\<close>, for the indexes below \<open>i\<close>, from the top down.\<close>

fun unlock_loop :: "os \<Rightarrow> kernel \<Rightarrow> ad_fd \<Rightarrow> int \<Rightarrow> nat \<Rightarrow> kernel \<times> ad_fd" where
  "unlock_loop os k adf fork 0 = (k, adf)"
| "unlock_loop os k adf fork (Suc i) =
     (if adf_user (adf_lock adf ! i) = fork then
        (case adf_freelock os k adf i of (k, adf) \<Rightarrow> unlock_loop os k adf fork i)
      else unlock_loop os k adf fork i)"

definition adf_unlock :: "os \<Rightarrow> kernel \<Rightarrow> ad_fd \<Rightarrow> int \<Rightarrow> kernel \<times> ad_fd" where
  "adf_unlock os k adf fork = unlock_loop os k adf fork (length (adf_lock adf))"

definition adf_lock_init :: "ad_fd \<Rightarrow> ad_fd" where
  "adf_lock_init adf = adf\<lparr>adf_lock := [], adf_lockmax := 0\<rparr>"

fun free_loop :: "os \<Rightarrow> kernel \<Rightarrow> ad_fd \<Rightarrow> nat \<Rightarrow> kernel \<times> ad_fd" where
  "free_loop os k adf 0 = (k, adf)"
| "free_loop os k adf (Suc i) = (case adf_freelock os k adf i of (k, adf) \<Rightarrow> free_loop os k adf i)"

text \<open>The array is allocated exactly when \<open>adf_lockmax\<close> is positive.\<close>

definition adf_lock_free :: "os \<Rightarrow> kernel \<Rightarrow> ad_fd \<Rightarrow> kernel \<times> ad_fd" where
  "adf_lock_free os k adf =
     (if adf_lockmax adf = 0 then (k, adf)
      else if adf_fd adf \<ge> 0 then
        (case free_loop os k adf (length (adf_lock adf)) of (k, adf) \<Rightarrow> (k, adf_lock_init adf))
      else (k, adf_lock_init adf))"

subsection \<open>Searching\<close>

definition type_match :: "32 word \<Rightarrow> adf_lock_t \<Rightarrow> bool" where
  "type_match type e \<longleftrightarrow>
     (type AND ADLOCK_RD \<noteq> 0 \<and> l_type (adf_flock e) = F_RDLCK) \<or> (type AND ADLOCK_WR \<noteq> 0 \<and> l_type (adf_flock e) = F_WRLCK)"

definition adf_findlock :: "ad_fd \<Rightarrow> int \<Rightarrow> 32 word \<Rightarrow> int \<Rightarrow> int \<Rightarrow> nat option" where
  "adf_findlock ad fork type off len =
     (case adf_lock_window ad off len of
        (lo, hi) \<Rightarrow>
          find (\<lambda>i. type_match type (adf_lock ad ! i) \<and> adf_user (adf_lock ad ! i) = fork \<and>
            OVERLAP off len (l_start (adf_flock (adf_lock ad ! i))) (l_len (adf_flock (adf_lock ad ! i)))) [lo..<hi])"

definition adf_findxlock :: "ad_fd \<Rightarrow> int \<Rightarrow> 32 word \<Rightarrow> int \<Rightarrow> int \<Rightarrow> nat option" where
  "adf_findxlock ad fork type off len =
     (case adf_lock_window ad off len of
        (lo, hi) \<Rightarrow>
          find (\<lambda>i. type_match type (adf_lock ad ! i) \<and> adf_user (adf_lock ad ! i) \<noteq> fork \<and>
            OVERLAP off len (l_start (adf_flock (adf_lock ad ! i))) (l_len (adf_flock (adf_lock ad ! i)))) [lo..<hi])"

definition rf2off :: "int \<Rightarrow> int" where
  "rf2off off =
     (if off = AD_FILELOCK_BASE then AD_FILELOCK_BASE + 2
      else if off = AD_FILELOCK_BASE + 1 then AD_FILELOCK_BASE + 3
      else if off = AD_FILELOCK_BASE + 5 then AD_FILELOCK_BASE + 7
      else if off = AD_FILELOCK_BASE + 4 then AD_FILELOCK_BASE + 6
      else if off = AD_FILELOCK_BASE + 8 then AD_FILELOCK_BASE + 9
      else off)"

text \<open>The results 1, 0 and -1 of the tests for a lock.\<close>

definition get_result :: "lock_errno + bool \<Rightarrow> int" where
  "get_result r = (case r of Inl e \<Rightarrow> if e = EACCES \<or> e = EAGAIN then 1 else -1 | Inr c \<Rightarrow> if c then 1 else 0)"

definition testlock :: "os \<Rightarrow> kernel \<Rightarrow> ad_fd \<Rightarrow> int \<Rightarrow> int \<Rightarrow> int \<times> kernel" where
  "testlock os k adf off len =
     (if list_ex (\<lambda>e. OVERLAP off 1 (l_start (adf_flock e)) (l_len (adf_flock e))) (adf_lock adf) then (1, k)
      else
        (case get_lock os k (adf_fd adf) \<lparr>l_type = F_WRLCK, l_start = off, l_len = len\<rparr> of
           (r, k) \<Rightarrow> (get_result r, k)))"

subsection \<open>Public functions\<close>

definition degrade :: "ad_fd \<Rightarrow> 32 word \<Rightarrow> 32 word" where
  "degrade adf type =
     (if \<not> adf_rdwr adf \<and> type AND ADLOCK_WR \<noteq> 0 then (type AND NOT ADLOCK_WR) OR ADLOCK_RD else type)"

text \<open>
  \<open>ad_lock\<close> after the descriptor is chosen, on that descriptor: \<open>off\<close> has gone through \<open>rf2off\<close> and
  \<open>shift\<close> is the offset of the entry.
\<close>

definition lock_fd :: "os \<Rightarrow> kernel \<Rightarrow> ad_fd \<Rightarrow> 32 word \<Rightarrow> int \<Rightarrow> int \<Rightarrow> int \<Rightarrow> int \<Rightarrow> lock_errno option \<times> kernel \<times> ad_fd" where
  "lock_fd os k adf locktype off shift len fork =
     (if off < 0 \<or> off > LOCK_TOP - shift then (Some EINVAL, k, adf)
      else
        (let type = degrade adf locktype;
             l = \<lparr>l_type = XLATE_FCNTL_LOCK (type AND ADLOCK_MASK), l_start = off + shift,
                  l_len = (if len = BYTELOCK_MAX then len - (off + shift) else len)\<rparr> in
         if l_len l \<le> 0 then (Some EINVAL, k, adf)
         else if \<not> adf_lock_fits (l_start l) (l_len l) then
           (Some (if l_type l = F_UNLCK then EINVAL else EOVERFLOW), k, adf)
         else if l_type l \<noteq> F_UNLCK \<and>
           adf_findxlock adf fork (ADLOCK_WR OR (if type AND ADLOCK_WR \<noteq> 0 then ADLOCK_RD else 0)) (l_start l) (l_len l) \<noteq> None
           then (Some EACCES, k, adf)
         else
           (let i = adf_findlock adf fork (ADLOCK_RD OR ADLOCK_WR) (l_start l) (l_len l) in
            if (i = None \<and> l_type l = F_UNLCK) \<or>
               (\<exists>j \<in> set_option i.
                  l_start (adf_flock (adf_lock adf ! j)) \<noteq> l_start l \<or> l_len (adf_flock (adf_lock adf ! j)) \<noteq> l_len l \<or>
                  (type AND ADLOCK_UPGRADE = 0 \<and> l_type l \<noteq> F_UNLCK))
            then (Some EINVAL, k, adf)
            else if l_type l = F_UNLCK then
              (case adf_freelock os k adf (the i) of (k, adf) \<Rightarrow> (None, k, adf))
            else
              (case set_lock os k (adf_fd adf) l of
                 (Some e, k) \<Rightarrow> (Some e, k, adf)
               | (None, k) \<Rightarrow>
                   (if i \<noteq> None \<and> type AND ADLOCK_UPGRADE \<noteq> 0 then
                      (None, k, adf\<lparr>adf_lock := (adf_lock adf)[the i := (adf_lock adf ! the i)\<lparr>adf_flock := l\<rparr>]\<rparr>)
                    else
                      (case (if adf_lockmax adf = length (adf_lock adf) then
                               (case realloc os k of (ok, k) \<Rightarrow> (ok, k, adf\<lparr>adf_lockmax := adf_lockmax adf + ARRAY_BLOCK_SIZE\<rparr>))
                             else (True, k, adf)) of
                         (False, k, _) \<Rightarrow>
                           (Some ENOMEM, snd (adf_lock_gaps os k adf (l\<lparr>l_type := F_UNLCK\<rparr>)), adf)
                       | (True, k, adf) \<Rightarrow>
                           (let j = adf_lock_lower adf (l_start l) False;
                                e = \<lparr>adf_flock = l, adf_user = fork, adf_reach = 0\<rparr>
                            in (None, k, adf_lock_reach
                                 (adf\<lparr>adf_lock := take j (adf_lock adf) @ e # drop j (adf_lock adf)\<rparr>) j))))))))"

definition ad_lock :: "os \<Rightarrow> kernel \<Rightarrow> adouble \<Rightarrow> bool \<Rightarrow> 32 word \<Rightarrow> int \<Rightarrow> int \<Rightarrow> int \<Rightarrow> (lock_errno option \<times> kernel \<times> adouble) option" where
  "ad_lock os k ad dfork locktype off len fork =
     (if locktype AND ADLOCK_FILELOCK \<noteq> 0 \<and> len \<noteq> 1 then None
      else if dfork then
        (case lock_fd os k (ad_data_fork ad) locktype off 0 len fork of
           (e, k, adf) \<Rightarrow> Some (e, k, ad\<lparr>ad_data_fork := adf\<rparr>))
      else if locktype AND ADLOCK_FILELOCK \<noteq> 0 then
        (case lock_fd os k (ad_data_fork ad) locktype (rf2off off) 0 len fork of
           (e, k, adf) \<Rightarrow> Some (e, k, ad\<lparr>ad_data_fork := adf\<rparr>))
      else
        (case lock_fd os k (ad_rfp ad) locktype off (ad_entryoff ad) len fork of
           (e, k, adf) \<Rightarrow> Some (e, k, ad\<lparr>ad_rfp := adf\<rparr>)))"

definition tmplock_fd :: "os \<Rightarrow> kernel \<Rightarrow> ad_fd \<Rightarrow> 32 word \<Rightarrow> int \<Rightarrow> int \<Rightarrow> int \<Rightarrow> int \<Rightarrow> lock_errno option \<times> kernel" where
  "tmplock_fd os k adf locktype off shift len fork =
     (if off < 0 \<or> off > LOCK_TOP - shift \<or> len < 0 then (Some EINVAL, k)
      else
        (let type = degrade adf locktype;
             l = \<lparr>l_type = XLATE_FCNTL_LOCK (type AND ADLOCK_MASK), l_start = off + shift, l_len = len\<rparr> in
         if len > 0 \<and> \<not> adf_lock_fits (l_start l) len then (Some EOVERFLOW, k)
         else if fork \<noteq> 0 \<and> l_type l \<noteq> F_UNLCK \<and>
           adf_findxlock adf fork (ADLOCK_WR OR (if type AND ADLOCK_WR \<noteq> 0 then ADLOCK_RD else 0)) (l_start l) (l_len l) \<noteq> None
           then (Some EACCES, k)
         else adf_lock_gaps os k adf l))"

definition ad_tmplock :: "os \<Rightarrow> kernel \<Rightarrow> adouble \<Rightarrow> bool \<Rightarrow> 32 word \<Rightarrow> int \<Rightarrow> int \<Rightarrow> int \<Rightarrow> lock_errno option \<times> kernel" where
  "ad_tmplock os k ad dfork locktype off len fork =
     (if dfork then tmplock_fd os k (ad_data_fork ad) locktype off 0 len fork
      else if adf_fd (ad_rfp ad) = -1 then (None, k)
      else tmplock_fd os k (ad_rfp ad) locktype off
             (if locktype AND ADLOCK_FILELOCK = 0 then ad_entryoff ad else 0) len fork)"

definition ad_unlock :: "os \<Rightarrow> kernel \<Rightarrow> adouble \<Rightarrow> int \<Rightarrow> kernel \<times> adouble" where
  "ad_unlock os k ad fork =
     (let (k, ad) = (if adf_fd (ad_data_fork ad) \<noteq> -1
                     then (case adf_unlock os k (ad_data_fork ad) fork of (k, adf) \<Rightarrow> (k, ad\<lparr>ad_data_fork := adf\<rparr>))
                     else (k, ad))
      in if adf_fd (ad_rfp ad) \<noteq> -1
         then (case adf_unlock os k (ad_rfp ad) fork of (k, adf) \<Rightarrow> (k, ad\<lparr>ad_rfp := adf\<rparr>))
         else (k, ad))"

definition ad_testlock :: "os \<Rightarrow> kernel \<Rightarrow> adouble \<Rightarrow> bool \<Rightarrow> int \<Rightarrow> int \<times> kernel" where
  "ad_testlock os k ad dfork off = testlock os k (ad_data_fork ad) (if dfork then off else rf2off off) 1"

text \<open>
  \<open>AD_FILELOCK_BASE\<close> is unsigned, so a negative offset is not below it in the comparison.
\<close>

definition ad_testlock_range :: "os \<Rightarrow> kernel \<Rightarrow> adouble \<Rightarrow> bool \<Rightarrow> int \<Rightarrow> int \<Rightarrow> int \<times> kernel" where
  "ad_testlock_range os k ad dfork off len =
     (let adf = (if dfork then ad_data_fork ad else ad_rfp ad);
          start = (if dfork then off else off + ad_entryoff ad);
          zone = (0 \<le> off \<and> off < AD_FILELOCK_BASE);
          zone_max = BYTELOCK_MAX - start;
          len' = (if zone \<and> (len = 0 \<or> len > zone_max) then zone_max else len)
      in if adf_fd adf = -1 then (0, k)
         else if zone \<and> start \<ge> BYTELOCK_MAX then (0, k)
         else if zone \<and> len' \<le> 0 then (0, k)
         else
           (case get_lock os k (adf_fd adf) \<lparr>l_type = F_WRLCK, l_start = start, l_len = len'\<rparr> of
              (r, k) \<Rightarrow> (get_result r, k)))"

definition ad_testlock_whole :: "os \<Rightarrow> kernel \<Rightarrow> adouble \<Rightarrow> bool \<Rightarrow> int \<times> kernel" where
  "ad_testlock_whole os k ad dfork =
     (let adf = (if dfork then ad_data_fork ad else ad_rfp ad) in
      if adf_fd adf = -1 then (0, k)
      else
        (case get_lock os k (adf_fd adf) \<lparr>l_type = F_WRLCK, l_start = 0, l_len = 0\<rparr> of
           (r, k) \<Rightarrow> (get_result r, k)))"

definition ATTRBIT_DOPEN :: "16 word" where "ATTRBIT_DOPEN = 8"
definition ATTRBIT_ROPEN :: "16 word" where "ATTRBIT_ROPEN = 16"

definition ad_openforks :: "os \<Rightarrow> kernel \<Rightarrow> adouble \<Rightarrow> 16 word \<Rightarrow> 16 word \<times> kernel" where
  "ad_openforks os k ad attrbits =
     (let adf = ad_data_fork ad in
      if adf_fd adf = -1 then (0, k)
      else
        (let (none, k) =
           (if attrbits AND (ATTRBIT_DOPEN OR ATTRBIT_ROPEN) = 0
            then (case testlock os k adf AD_FILELOCK_BASE 4 of (t, k) \<Rightarrow> (t = 0, k)) else (False, k))
         in if none then (0, k)
            else
              (let (ret, k) =
                 (if attrbits AND ATTRBIT_DOPEN = 0
                  then (case testlock os k adf AD_FILELOCK_BASE 2 of (t, k) \<Rightarrow> (if t > 0 then ATTRBIT_DOPEN else 0, k))
                  else (0, k));
                   (ret', k) =
                 (if attrbits AND ATTRBIT_ROPEN = 0
                  then (case testlock os k adf (AD_FILELOCK_BASE + 2) 2 of (t, k) \<Rightarrow> (if t > 0 then ATTRBIT_ROPEN else 0, k))
                  else (0, k))
               in (ret OR ret', k))))"

end
