(* ===== verification/Ad_Lock_Table.thy ===== *)
theory Ad_Lock_Table
  imports Ad_Lock
begin

text \<open>
  The array of recorded locks: in order of start, each entry with its reach, so that the binary
  searches bound the entries that can overlap a range, and a search of that window finds what a
  search of the whole array finds.
\<close>

subsection \<open>Ranges\<close>

definition valid_lock :: "flock \<Rightarrow> bool" where
  "valid_lock l \<longleftrightarrow> 0 \<le> l_start l \<and> 0 < l_len l \<and> l_start l + (l_len l - 1) \<le> LOCK_TOP"

abbreviation valid_entry :: "adf_lock_t \<Rightarrow> bool" where
  "valid_entry e \<equiv> valid_lock (adf_flock e)"

definition covers :: "flock \<Rightarrow> int \<Rightarrow> bool" where
  "covers l x \<longleftrightarrow> l_start l \<le> x \<and> x \<le> adf_lock_last (l_start l) (l_len l)"

definition lock_overlap :: "flock \<Rightarrow> flock \<Rightarrow> bool" where
  "lock_overlap l m \<longleftrightarrow> OVERLAP (l_start l) (l_len l) (l_start m) (l_len m)"

lemma last_valid: "0 < n \<Longrightarrow> adf_lock_last a n = a + (n - 1)"
  by (simp add: adf_lock_last_def)

lemma overlap_iff:
  assumes "0 < l_len l" "0 < l_len m"
  shows "lock_overlap l m \<longleftrightarrow> (\<exists>x. covers l x \<and> covers m x)"
proof
  assume "lock_overlap l m"
  then have "covers l (max (l_start l) (l_start m)) \<and> covers m (max (l_start l) (l_start m))"
    using assms by (auto simp: lock_overlap_def OVERLAP_def covers_def last_valid)
  then show "\<exists>x. covers l x \<and> covers m x" by blast
qed (use assms in \<open>auto simp: lock_overlap_def OVERLAP_def covers_def last_valid\<close>)

lemma overlap_sym: "lock_overlap l m \<longleftrightarrow> lock_overlap m l"
  by (auto simp: lock_overlap_def OVERLAP_def)

subsection \<open>Reach\<close>

lemma reach_loop_flocks [simp]:
  "map adf_flock (reach_loop r es) = map adf_flock es" "map adf_user (reach_loop r es) = map adf_user es"
  "length (reach_loop r es) = length es"
  by (induction es arbitrary: r) (simp_all add: Let_def)

lemma reach_loop_nth:
  assumes "i < length es"
  shows "adf_flock (reach_loop r es ! i) = adf_flock (es ! i)" "adf_user (reach_loop r es ! i) = adf_user (es ! i)"
  using assms by (metis nth_map reach_loop_flocks)+

lemma reach_loop_idem [simp]: "reach_loop r (reach_loop r es) = reach_loop r es"
  by (induction es arbitrary: r) (simp_all add: Let_def)

definition end_reach :: "int \<Rightarrow> adf_lock_t list \<Rightarrow> int" where
  "end_reach r es = (if es = [] then r else adf_reach (last es))"

lemma reach_loop_append: "reach_loop r (xs @ ys) = reach_loop r xs @ reach_loop (end_reach r (reach_loop r xs)) ys"
proof (induction xs arbitrary: r)
  case (Cons x xs)
  let ?r = "if l_last x > r then l_last x else r"
  have "end_reach ?r (reach_loop ?r xs) = end_reach r (x\<lparr>adf_reach := ?r\<rparr> # reach_loop ?r xs)"
    by (cases xs) (auto simp: end_reach_def Let_def)
  then show ?case using Cons[of ?r] by (simp add: Let_def)
qed (simp add: end_reach_def)

lemma reach_loop_take:
  assumes "reach_loop r es = es"
  shows "reach_loop r (take i es) = take i es" "reach_loop (end_reach r (take i es)) (drop i es) = drop i es"
proof -
  have "reach_loop r (take i es) @ reach_loop (end_reach r (reach_loop r (take i es))) (drop i es) = take i es @ drop i es"
    using assms reach_loop_append[of r "take i es" "drop i es"] by simp
  then have a: "reach_loop r (take i es) = take i es \<and> reach_loop (end_reach r (reach_loop r (take i es))) (drop i es) = drop i es"
    by (rule append_eq_append_conv[THEN iffD1, rotated]) simp
  then show "reach_loop r (take i es) = take i es" "reach_loop (end_reach r (take i es)) (drop i es) = drop i es" by auto
qed

lemma adf_lock_reach_fix:
  assumes "reach_loop (-1) (take i (adf_lock adf)) = take i (adf_lock adf)" "i \<le> length (adf_lock adf)"
  shows "adf_lock (adf_lock_reach adf i) = reach_loop (-1) (adf_lock adf)"
proof -
  have "end_reach (-1) (take i (adf_lock adf)) = (if i > 0 then adf_reach (adf_lock adf ! (i - 1)) else -1)"
    using assms(2) by (auto simp: end_reach_def last_conv_nth)
  moreover have "reach_loop (-1) (adf_lock adf) = reach_loop (-1) (take i (adf_lock adf) @ drop i (adf_lock adf))" by simp
  ultimately show ?thesis using assms(1) unfolding reach_loop_append by (simp add: adf_lock_reach_def)
qed

lemma adf_lock_reach_simps [simp]:
  "adf_fd (adf_lock_reach adf i) = adf_fd adf" "adf_lockmax (adf_lock_reach adf i) = adf_lockmax adf"
  "adf_rdwr (adf_lock_reach adf i) = adf_rdwr adf"
  by (simp_all add: adf_lock_reach_def)

lemma reach_bounds_both:
  "reach_loop r es = es \<Longrightarrow> i < length es \<Longrightarrow> r \<le> adf_reach (es ! i) \<and> (\<forall>j \<le> i. l_last (es ! j) \<le> adf_reach (es ! i))"
proof (induction es arbitrary: r i)
  case (Cons e es)
  let ?r = "if l_last e > r then l_last e else r"
  have e: "e\<lparr>adf_reach := ?r\<rparr> = e" "reach_loop ?r es = es" using Cons.prems by (simp_all add: Let_def)
  have re: "adf_reach e = ?r" using arg_cong[OF e(1), of adf_reach] by simp
  show ?case
  proof (cases i)
    case 0
    then show ?thesis using re by auto
  next
    case (Suc i')
    have IH: "?r \<le> adf_reach (es ! i')" "\<forall>j \<le> i'. l_last (es ! j) \<le> adf_reach (es ! i')"
      using Cons.IH[OF e(2), of i'] Cons.prems(2) Suc by simp_all
    have "l_last ((e # es) ! j) \<le> adf_reach (es ! i')" if "j \<le> Suc i'" for j
      using IH that by (cases j) (auto split: if_splits)
    moreover have "r \<le> adf_reach (es ! i')" using IH(1) by (auto split: if_splits)
    ultimately show ?thesis using Suc by simp
  qed
qed simp

lemma reach_bounds:
  assumes "reach_loop r es = es" "i < length es"
  shows "r \<le> adf_reach (es ! i)" "j \<le> i \<Longrightarrow> l_last (es ! j) \<le> adf_reach (es ! i)"
  using reach_bounds_both[OF assms] by blast+

lemma reach_mono:
  assumes "reach_loop r es = es" "i \<le> j" "j < length es"
  shows "adf_reach (es ! i) \<le> adf_reach (es ! j)"
proof -
  have "reach_loop (end_reach r (take (Suc i) es)) (drop (Suc i) es) = drop (Suc i) es" using reach_loop_take(2)[OF assms(1)] .
  moreover have "end_reach r (take (Suc i) es) = adf_reach (es ! i)" using assms by (simp add: end_reach_def take_Suc_conv_app_nth)
  ultimately show ?thesis using reach_bounds(1)[of _ "drop (Suc i) es" "j - Suc i"] assms by (cases "i = j") auto
qed

subsection \<open>The binary searches\<close>

lemma lower_loop_spec:
  assumes "\<And>i j. i \<le> j \<Longrightarrow> j < n \<Longrightarrow> key (ls ! i) \<le> key (ls ! j)"
  shows "lo \<le> hi \<Longrightarrow> hi \<le> n \<Longrightarrow> (\<forall>i < lo. key (ls ! i) < t) \<Longrightarrow> (\<forall>i. hi \<le> i \<and> i < n \<longrightarrow> t \<le> key (ls ! i)) \<Longrightarrow>
    lower_loop key ls t lo hi \<le> hi \<and> (\<forall>i < lower_loop key ls t lo hi. key (ls ! i) < t) \<and>
    (\<forall>i. lower_loop key ls t lo hi \<le> i \<and> i < n \<longrightarrow> t \<le> key (ls ! i))"
proof (induction "hi - lo" arbitrary: lo hi rule: less_induct)
  case less
  show ?case
  proof (cases "lo < hi")
    case False
    then have "lower_loop key ls t lo hi = lo" by (subst lower_loop.simps) simp
    then show ?thesis using less.prems False by auto
  next
    case True
    define mid where "mid = lo + (hi - lo) div 2"
    have m: "lo \<le> mid" "mid < hi" using True by (auto simp: mid_def)
    show ?thesis
    proof (cases "key (ls ! mid) < t")
      case lt: True
      have "\<forall>i < mid + 1. key (ls ! i) < t"
      proof (intro allI impI)
        fix i
        assume "i < mid + 1"
        then have "key (ls ! i) \<le> key (ls ! mid)" using m less.prems(2) by (intro assms) auto
        then show "key (ls ! i) < t" using lt by simp
      qed
      moreover have e: "lower_loop key ls t lo hi = lower_loop key ls t (mid + 1) hi"
        using True lt by (subst lower_loop.simps) (simp add: mid_def Let_def)
      moreover have "hi - (mid + 1) < hi - lo" "mid + 1 \<le> hi" using m by auto
      ultimately show ?thesis unfolding e using less.hyps[OF _ _ less.prems(2) _ less.prems(4)] by blast
    next
      case False
      have h: "\<forall>i. mid \<le> i \<and> i < n \<longrightarrow> t \<le> key (ls ! i)"
      proof (intro allI impI, elim conjE)
        fix i
        assume "mid \<le> i" "i < n"
        then have "key (ls ! mid) \<le> key (ls ! i)" by (rule assms)
        then show "t \<le> key (ls ! i)" using False by simp
      qed
      have e: "lower_loop key ls t lo hi = lower_loop key ls t lo mid"
        using True False by (subst lower_loop.simps) (simp add: mid_def Let_def)
      have "mid - lo < hi - lo" "mid \<le> n" using m less.prems(2) by auto
      from less.hyps[OF this(1) m(1) this(2) less.prems(3) h] show ?thesis unfolding e using less_imp_le[OF m(2)] order_trans by blast
    qed
  qed
qed

definition table_ok :: "adf_lock_t list \<Rightarrow> bool" where
  "table_ok es \<longleftrightarrow> sorted (map l_first es) \<and> reach_loop (-1) es = es \<and> list_all valid_entry es"

lemma lower_start:
  assumes "sorted (map l_first (adf_lock adf))"
  shows "adf_lock_lower adf t False \<le> length (adf_lock adf)" "i < adf_lock_lower adf t False \<Longrightarrow> l_first (adf_lock adf ! i) < t"
    "adf_lock_lower adf t False \<le> i \<Longrightarrow> i < length (adf_lock adf) \<Longrightarrow> t \<le> l_first (adf_lock adf ! i)"
proof -
  have "l_first (adf_lock adf ! i) \<le> l_first (adf_lock adf ! j)" if "i \<le> j" "j < length (adf_lock adf)" for i j
    using sorted_nth_mono[OF assms, of i j] that by simp
  from lower_loop_spec[of "length (adf_lock adf)" l_first "adf_lock adf", OF this, of 0 "length (adf_lock adf)" t]
  show "adf_lock_lower adf t False \<le> length (adf_lock adf)" "i < adf_lock_lower adf t False \<Longrightarrow> l_first (adf_lock adf ! i) < t"
    "adf_lock_lower adf t False \<le> i \<Longrightarrow> i < length (adf_lock adf) \<Longrightarrow> t \<le> l_first (adf_lock adf ! i)"
    by (auto simp: adf_lock_lower_def)
qed

lemma lower_reach:
  assumes "reach_loop (-1) (adf_lock adf) = adf_lock adf"
  shows "adf_lock_lower adf t True \<le> length (adf_lock adf)" "i < adf_lock_lower adf t True \<Longrightarrow> adf_reach (adf_lock adf ! i) < t"
    "adf_lock_lower adf t True \<le> i \<Longrightarrow> i < length (adf_lock adf) \<Longrightarrow> t \<le> adf_reach (adf_lock adf ! i)"
proof -
  from lower_loop_spec[of "length (adf_lock adf)" adf_reach "adf_lock adf", OF reach_mono[OF assms], of 0 "length (adf_lock adf)" t]
  show "adf_lock_lower adf t True \<le> length (adf_lock adf)" "i < adf_lock_lower adf t True \<Longrightarrow> adf_reach (adf_lock adf ! i) < t"
    "adf_lock_lower adf t True \<le> i \<Longrightarrow> i < length (adf_lock adf) \<Longrightarrow> t \<le> adf_reach (adf_lock adf ! i)"
    by (auto simp: adf_lock_lower_def)
qed

text \<open>What lies outside of the window ends before the range or starts after it.\<close>

lemma window_bounds:
  assumes "table_ok (adf_lock adf)" "adf_lock_window adf off len = (lo, hi)" "i < length (adf_lock adf)"
  shows "hi \<le> length (adf_lock adf)" "lo \<le> length (adf_lock adf)" "i < lo \<Longrightarrow> adf_reach (adf_lock adf ! i) < off" "i < lo \<Longrightarrow> l_last (adf_lock adf ! i) < off"
    "hi \<le> i \<Longrightarrow> adf_lock_last off len < l_first (adf_lock adf ! i)"
    "i < hi \<Longrightarrow> l_first (adf_lock adf ! i) \<le> adf_lock_last off len"
proof -
  note t = assms(1)[unfolded table_ok_def]
  have w: "lo = adf_lock_lower adf off True"
    "hi = (if adf_lock_last off len < LOCK_TOP then adf_lock_lower adf (adf_lock_last off len + 1) False else length (adf_lock adf))"
    using assms(2) by (auto simp: adf_lock_window_def Let_def)
  show "hi \<le> length (adf_lock adf)" "lo \<le> length (adf_lock adf)" using w lower_start(1) lower_reach(1) t by auto
  show r: "i < lo \<Longrightarrow> adf_reach (adf_lock adf ! i) < off" using lower_reach(2)[of adf i off] t w by blast
  show "i < lo \<Longrightarrow> l_last (adf_lock adf ! i) < off" using r reach_bounds(2)[of "-1" "adf_lock adf" i i] t assms(3) by fastforce
  show "hi \<le> i \<Longrightarrow> adf_lock_last off len < l_first (adf_lock adf ! i)"
    using lower_start(3)[of adf "adf_lock_last off len + 1" i] t w(2) assms(3) by (force split: if_splits)
  have "valid_entry (adf_lock adf ! i)" using t assms(3) by (simp add: list_all_length)
  then have "l_first (adf_lock adf ! i) \<le> LOCK_TOP" by (simp add: valid_lock_def)
  then show "i < hi \<Longrightarrow> l_first (adf_lock adf ! i) \<le> adf_lock_last off len"
    using lower_start(2)[of adf i "adf_lock_last off len + 1"] t w(2) by (force split: if_splits)
qed

lemma find_window:
  assumes "hi \<le> n" "\<And>i. i < lo \<Longrightarrow> i < n \<Longrightarrow> \<not> P i" "\<And>i. hi \<le> i \<Longrightarrow> i < n \<Longrightarrow> \<not> P i"
  shows "find P [lo..<hi] = find P [0..<n]"
proof -
  have app: "find P (xs @ ys) = (case find P xs of None \<Rightarrow> find P ys | Some x \<Rightarrow> Some x)" for xs ys by (induction xs) auto
  have none: "find P xs = None" if "\<forall>x \<in> set xs. \<not> P x" for xs using that by (simp add: find_None_iff)
  show ?thesis
  proof (cases "lo \<le> hi")
    case True
    have "[0..<n] = [0..<lo] @ [lo..<n]" using upt_add_eq_append[of 0 lo "n - lo"] True assms(1) by simp
    moreover have "[lo..<n] = [lo..<hi] @ [hi..<n]" using upt_add_eq_append[OF True, of "n - hi"] assms(1) by simp
    ultimately have "[0..<n] = [0..<lo] @ [lo..<hi] @ [hi..<n]" by simp
    moreover have "find P [0..<lo] = None" using True assms(1,2) by (intro none) simp
    moreover have "find P [hi..<n] = None" using assms(3) by (intro none) simp
    ultimately show ?thesis by (simp add: app split: option.splits)
  next
    case False
    have "\<not> P x" if "x < n" for x using that False assms(2,3)[of x] by (cases "x < lo") simp_all
    then show ?thesis using False none[of "[0..<n]"] by simp
  qed
qed

lemma outside_no_overlap:
  assumes "table_ok (adf_lock adf)" "adf_lock_window adf (l_start l) (l_len l) = (lo, hi)" "i < length (adf_lock adf)" "i < lo \<or> hi \<le> i" "valid_lock l"
  shows "\<not> lock_overlap l (adf_flock (adf_lock adf ! i))"
proof -
  have v: "valid_entry (adf_lock adf ! i)" using assms(1,3) by (simp add: table_ok_def list_all_length)
  have "l_last (adf_lock adf ! i) < l_start l \<or> adf_lock_last (l_start l) (l_len l) < l_first (adf_lock adf ! i)"
    using window_bounds(4,5)[OF assms(1-3)] assms(4) by blast
  then show ?thesis using v assms(5) by (auto simp: lock_overlap_def OVERLAP_def valid_lock_def last_valid)
qed

lemma findlock_linear:
  assumes "table_ok (adf_lock adf)" "valid_lock l"
  shows "adf_findlock adf fork type (l_start l) (l_len l) =
      find (\<lambda>i. type_match type (adf_lock adf ! i) \<and> adf_user (adf_lock adf ! i) = fork \<and> lock_overlap l (adf_flock (adf_lock adf ! i)))
        [0..<length (adf_lock adf)]"
    "adf_findxlock adf fork type (l_start l) (l_len l) =
      find (\<lambda>i. type_match type (adf_lock adf ! i) \<and> adf_user (adf_lock adf ! i) \<noteq> fork \<and> lock_overlap l (adf_flock (adf_lock adf ! i)))
        [0..<length (adf_lock adf)]"
proof -
  obtain lo hi where w: "adf_lock_window adf (l_start l) (l_len l) = (lo, hi)" by (cases "adf_lock_window adf (l_start l) (l_len l)")
  have hi: "hi \<le> length (adf_lock adf)"
    using lower_start(1) assms(1) w by (auto simp: table_ok_def adf_lock_window_def Let_def split: if_splits)
  note o = outside_no_overlap[OF assms(1) w _ _ assms(2)]
  show "adf_findlock adf fork type (l_start l) (l_len l) =
      find (\<lambda>i. type_match type (adf_lock adf ! i) \<and> adf_user (adf_lock adf ! i) = fork \<and> lock_overlap l (adf_flock (adf_lock adf ! i)))
        [0..<length (adf_lock adf)]"
    unfolding adf_findlock_def w prod.case lock_overlap_def[symmetric] by (rule find_window[OF hi]) (use o in blast)+
  show "adf_findxlock adf fork type (l_start l) (l_len l) =
      find (\<lambda>i. type_match type (adf_lock adf ! i) \<and> adf_user (adf_lock adf ! i) \<noteq> fork \<and> lock_overlap l (adf_flock (adf_lock adf ! i)))
        [0..<length (adf_lock adf)]"
    unfolding adf_findxlock_def w prod.case lock_overlap_def[symmetric] by (rule find_window[OF hi]) (use o in blast)+
qed

end
