(* ===== verification/Ad_Lock_Gaps.thy ===== *)
theory Ad_Lock_Gaps
  imports Ad_Lock_Table
begin

text \<open>
  The walk over the gaps: on the bytes of its range that no entry covers it sets what the
  operation asks for, on all other bytes it changes nothing, and after a refused take the bytes
  taken before are free again.
\<close>

lemma set_lock_cases:
  assumes "fd \<noteq> AD_SYMLINK" "set_lock os k fd l = (r, k')"
  shows "r = None \<Longrightarrow> held k' = (held k)(fd := k_setlk (held k fd) l)" "r \<noteq> None \<Longrightarrow> held k' = held k"
  using assms by (auto simp: set_lock_def Let_def split: option.splits if_splits)

lemma set_lock_symlink: "set_lock os k AD_SYMLINK l = (None, k)"
  by (simp add: set_lock_def)

definition releases :: "os \<Rightarrow> bool" where
  "releases os \<longleftrightarrow> (\<forall>n fd l. l_type l = F_UNLCK \<longrightarrow> deny os n fd l = None)"

lemma set_lock_release: "releases os \<Longrightarrow> l_type l = F_UNLCK \<Longrightarrow> fst (set_lock os k fd l) = None"
  by (auto simp: releases_def set_lock_def Let_def)

lemma gap_range:
  assumes "x \<le> LOCK_TOP" "stop \<le> LOCK_TOP"
  shows "done < stop \<Longrightarrow> in_range (gap_at r done stop) x \<longleftrightarrow> done < x \<and> x \<le> stop" "l_type (gap_at r done stop) = l_type r"
  using assms by (auto simp: in_range_def gap_at_def)

definition effect :: "flock \<Rightarrow> lock_type option" where
  "effect r = (if l_type r = F_UNLCK then None else Some (l_type r))"

text \<open>
  \<open>stretched r es a b h h'\<close>: from \<open>h\<close> to \<open>h'\<close> the uncovered bytes from \<open>a\<close> to \<open>b\<close> have got the
  effect of \<open>r\<close>, and nothing else has changed.
\<close>

definition stretched :: "flock \<Rightarrow> adf_lock_t list \<Rightarrow> int \<Rightarrow> int \<Rightarrow> (int \<Rightarrow> lock_type option) \<Rightarrow> (int \<Rightarrow> lock_type option) \<Rightarrow> bool" where
  "stretched r es a b h h' \<longleftrightarrow> (\<forall>x \<le> LOCK_TOP. h' x =
     (if a \<le> x \<and> x \<le> b \<and> (\<forall>e \<in> set es. \<not> covers (adf_flock e) x) then effect r else h x))"

lemma set_gap:
  assumes "fd \<noteq> AD_SYMLINK" "set_lock os k fd (gap_at r done stop) = (None, k')" "done < stop" "stop \<le> LOCK_TOP"
    and "\<And>x e. done < x \<Longrightarrow> x \<le> stop \<Longrightarrow> e \<in> set es \<Longrightarrow> \<not> covers (adf_flock e) x"
  shows "stretched r es (done + 1) stop (held k fd) (held k' fd)" "fd' \<noteq> fd \<Longrightarrow> held k' fd' = held k fd'"
proof -
  have h: "held k' = (held k)(fd := k_setlk (held k fd) (gap_at r done stop))" using set_lock_cases(1)[OF assms(1,2)] by simp
  then show "fd' \<noteq> fd \<Longrightarrow> held k' fd' = held k fd'" by simp
  show "stretched r es (done + 1) stop (held k fd) (held k' fd)"
    using assms(5) gap_range(1)[OF _ assms(4) assms(3)]
    unfolding stretched_def h by (auto simp: k_setlk_def effect_def gap_at_def)
qed

lemma stretched_trans:
  assumes "stretched r es a b h h'" "stretched r es (d + 1) c h' h''" "b \<le> d" "b \<le> c"
    and "\<And>x. b < x \<Longrightarrow> x \<le> d \<Longrightarrow> x \<le> c \<Longrightarrow> \<exists>e \<in> set es. covers (adf_flock e) x" "a \<le> d + 1"
  shows "stretched r es a c h h''"
  unfolding stretched_def
proof (intro allI impI)
  fix x
  assume x: "x \<le> LOCK_TOP"
  let ?u = "\<forall>e \<in> set es. \<not> covers (adf_flock e) x"
  have 1: "h' x = (if a \<le> x \<and> x \<le> b \<and> ?u then effect r else h x)" using assms(1) x by (simp add: stretched_def)
  have 2: "h'' x = (if d + 1 \<le> x \<and> x \<le> c \<and> ?u then effect r else h' x)" using assms(2) x by (simp add: stretched_def)
  consider "x \<le> b" | "b < x" "x \<le> d" | "d < x" by linarith
  then show "h'' x = (if a \<le> x \<and> x \<le> c \<and> ?u then effect r else h x)"
  proof cases
    case 2
    then show ?thesis using 1 \<open>h'' x = _\<close> assms(5)[of x] by auto
  qed (use 1 2 assms(3,4,6) in auto)
qed

lemma stretched_none: "b < a \<Longrightarrow> stretched r es a b h h"
  by (auto simp: stretched_def)

text \<open>
  The part of the array that a walk is about to go through: in order, with its reaches, all
  starting within the range, while every other entry \<open>e\<close> ends at or before \<open>done\<close> or starts after
  the range.
\<close>

definition walk_inv :: "adf_lock_t list \<Rightarrow> adf_lock_t list \<Rightarrow> int \<Rightarrow> int \<Rightarrow> bool" where
  "walk_inv es ws done rlast \<longleftrightarrow>
     sorted (map l_first ws) \<and> (\<exists>p \<le> done. reach_loop p ws = ws) \<and> list_all valid_entry ws \<and>
     (\<forall>w \<in> set ws. l_first w \<le> rlast) \<and> set ws \<subseteq> set es \<and>
     (\<forall>e \<in> set es - set ws. \<forall>x. done < x \<and> x \<le> rlast \<longrightarrow> \<not> covers (adf_flock e) x)"

lemma walk_inv_step:
  assumes "walk_inv es (w # ws) done rlast" "done' = (if adf_reach w > done then adf_reach w else done)"
  shows "walk_inv es ws done' rlast" "done \<le> done'" "done' = max done (l_last w)"
proof -
  obtain p where p: "p \<le> done" "reach_loop p (w # ws) = w # ws" using assms(1) by (auto simp: walk_inv_def)
  let ?p = "if l_last w > p then l_last w else p"
  have w: "w\<lparr>adf_reach := ?p\<rparr> = w" "reach_loop ?p ws = ws" using p(2) by (simp_all add: Let_def)
  have r: "adf_reach w = ?p" using arg_cong[OF w(1), of adf_reach] by simp
  show d: "done' = max done (l_last w)" using assms(2) r p(1) by auto
  then show "done \<le> done'" by simp
  have "?p \<le> done'" using d p(1) by auto
  moreover have "\<not> covers (adf_flock w) x" if "done' < x" for x using that d by (auto simp: covers_def)
  ultimately show "walk_inv es ws done' rlast"
    using assms(1) w(2) d unfolding walk_inv_def by auto
qed

lemma walk_inv_gap:
  assumes "walk_inv es (w # ws) done rlast" "done < x" "x < l_first w" "e \<in> set es"
  shows "\<not> covers (adf_flock e) x"
proof (cases "e \<in> set (w # ws)")
  case True
  then have "l_first w \<le> l_first e" using assms(1) by (auto simp: walk_inv_def)
  then show ?thesis using assms(3) by (simp add: covers_def)
next
  case False
  have "l_first w \<le> rlast" using assms(1) by (simp add: walk_inv_def)
  then show ?thesis using assms False unfolding walk_inv_def by fastforce
qed

lemma walk_inv_covered:
  assumes "walk_inv es (w # ws) done rlast" "stop = l_first w - 1" "max done stop < x" "x \<le> max done (l_last w)"
  shows "\<exists>e \<in> set es. covers (adf_flock e) x"
  using assms by (auto simp: walk_inv_def covers_def intro!: bexI[of _ w])

lemma walk_inv_end: "walk_inv es [] done rlast \<Longrightarrow> done < x \<Longrightarrow> x \<le> rlast \<Longrightarrow> e \<in> set es \<Longrightarrow> \<not> covers (adf_flock e) x"
  by (auto simp: walk_inv_def)

lemma stretched_undo:
  "stretched r es a d h h' \<Longrightarrow> stretched u es a d h' h'' \<Longrightarrow> stretched u es a d h h''"
  by (auto simp: stretched_def)

lemma stretched_skip:
  assumes "stretched r es a d h h'" "d \<le> d'" "\<And>x. d < x \<Longrightarrow> x \<le> d' \<Longrightarrow> x \<le> LOCK_TOP \<Longrightarrow> \<exists>e \<in> set es. covers (adf_flock e) x"
  shows "stretched r es a d' h h'"
  unfolding stretched_def
proof (intro allI impI)
  fix x
  assume x: "x \<le> LOCK_TOP"
  show "h' x = (if a \<le> x \<and> x \<le> d' \<and> (\<forall>e \<in> set es. \<not> covers (adf_flock e) x) then effect r else h x)"
    using assms(1)[unfolded stretched_def, rule_format, OF x] assms(2) assms(3)[OF _ _ x] by (cases "x \<le> d") auto
qed

lemma stretched_cut:
  "stretched r es a d h h' \<Longrightarrow> rlast \<le> d \<Longrightarrow> (\<And>x. rlast < x \<Longrightarrow> x \<le> d \<Longrightarrow> x \<le> LOCK_TOP \<Longrightarrow> \<exists>e \<in> set es. covers (adf_flock e) x) \<Longrightarrow>
   stretched r es a rlast h h'"
  unfolding stretched_def by (metis dual_order.trans linorder_not_le order_less_le)

text \<open>
  The setting of a walk over the range that \<open>r\<close> asks for, with its last byte \<open>rlast\<close> and the whole
  array \<open>es\<close>: releases succeed, and \<open>undo\<close> frees the uncovered bytes up to the last one dealt with.
\<close>

definition walk_env :: "os \<Rightarrow> int \<Rightarrow> flock \<Rightarrow> int \<Rightarrow> adf_lock_t list \<Rightarrow> (int \<Rightarrow> kernel \<Rightarrow> kernel) \<Rightarrow> bool" where
  "walk_env os fd r rlast es undo \<longleftrightarrow>
     fd \<noteq> AD_SYMLINK \<and> rlast \<le> LOCK_TOP \<and> releases os \<and>
     (\<forall>d k. l_type r \<noteq> F_UNLCK \<longrightarrow> l_start r \<le> d \<longrightarrow> d < rlast \<longrightarrow>
        stretched (r\<lparr>l_type := F_UNLCK\<rparr>) es (l_start r) d (held k fd) (held (undo (d - l_start r + 1) k) fd) \<and>
        (\<forall>fd'. fd' \<noteq> fd \<longrightarrow> held (undo (d - l_start r + 1) k) fd' = held k fd'))"

definition outcome :: "int \<Rightarrow> flock \<Rightarrow> int \<Rightarrow> adf_lock_t list \<Rightarrow> (int \<Rightarrow> lock_type option) \<Rightarrow> lock_errno option \<Rightarrow> kernel \<Rightarrow> bool" where
  "outcome fd r rlast es h ret k \<longleftrightarrow>
     (ret = None \<longrightarrow> stretched r es (l_start r) rlast h (held k fd)) \<and>
     (ret \<noteq> None \<longrightarrow> l_type r \<noteq> F_UNLCK \<and> (\<exists>d. stretched (r\<lparr>l_type := F_UNLCK\<rparr>) es (l_start r) d h (held k fd)))"

lemma refused:
  assumes env: "walk_env os fd r rlast es undo"
    and s: "set_lock os k fd (gap_at r done stop) = (Some e, k')"
    and a: "stretched r es (l_start r) done h (held k fd)" "l_start r \<le> done + 1" "done < rlast"
  shows "l_type r \<noteq> F_UNLCK"
    "outcome fd r rlast es h (Some e) (if done \<ge> l_start r then undo (done - l_start r + 1) k' else k')"
    "fd' \<noteq> fd \<Longrightarrow> held (if done \<ge> l_start r then undo (done - l_start r + 1) k' else k') fd' = held k fd'"
proof -
  have fd: "fd \<noteq> AD_SYMLINK" and rel: "releases os" using env by (simp_all add: walk_env_def)
  have undone: "stretched (r\<lparr>l_type := F_UNLCK\<rparr>) es (l_start r) d (held k fd) (held (undo (d - l_start r + 1) k) fd) \<and>
      (\<forall>fd'. fd' \<noteq> fd \<longrightarrow> held (undo (d - l_start r + 1) k) fd' = held k fd')"
    if "l_type r \<noteq> F_UNLCK" "l_start r \<le> d" "d < rlast" for d k using env that by (simp add: walk_env_def)
  have t: "l_type (gap_at r done stop) = l_type r" by (simp add: gap_at_def)
  show n: "l_type r \<noteq> F_UNLCK" using set_lock_release[OF rel, of "gap_at r done stop" k fd] s t by auto
  have h: "held k' = held k" using set_lock_cases(2)[OF fd s] by simp
  show "outcome fd r rlast es h (Some e) (if done \<ge> l_start r then undo (done - l_start r + 1) k' else k')"
  proof (cases "done \<ge> l_start r")
    case True
    then show ?thesis using undone[OF n True a(3), of k'] stretched_undo[OF a(1)] n h True by (auto simp: outcome_def)
  next
    case False
    then have "done + 1 = l_start r" using a(2) by simp
    then have "stretched (r\<lparr>l_type := F_UNLCK\<rparr>) es (l_start r) done h (held k' fd)" using a(1) h by (auto simp: stretched_def)
    then show ?thesis using False n by (auto simp: outcome_def)
  qed
  show "fd' \<noteq> fd \<Longrightarrow> held (if done \<ge> l_start r then undo (done - l_start r + 1) k' else k') fd' = held k fd'"
    using undone[OF n _ a(3), of k'] h by auto
qed

lemma walk_spec:
  assumes env: "walk_env os fd r rlast es undo"
    and "walk_inv es ws done rlast" "l_start r \<le> done + 1" "stretched r es (l_start r) done h (held k fd)"
    and "gaps_walk os undo fd r rlast ws done None k = (ret, k')"
    and "\<And>x. rlast < x \<Longrightarrow> x \<le> done \<Longrightarrow> x \<le> LOCK_TOP \<Longrightarrow> \<exists>e \<in> set es. covers (adf_flock e) x"
  shows "outcome fd r rlast es h ret k' \<and> (\<forall>fd'. fd' \<noteq> fd \<longrightarrow> held k' fd' = held k fd')"
  using assms(2-)
proof (induction ws arbitrary: "done" k)
  case Nil
  have fd: "fd \<noteq> AD_SYMLINK" and top: "rlast \<le> LOCK_TOP" using env by (simp_all add: walk_env_def)
  show ?case
  proof (cases "done < rlast")
    case False
    then show ?thesis using Nil stretched_cut[OF Nil.prems(3), of rlast] by (auto simp: outcome_def)
  next
    case True
    obtain c k1 where s: "set_lock os k fd (gap_at r done rlast) = (c, k1)" by (cases "set_lock os k fd (gap_at r done rlast)")
    show ?thesis
    proof (cases c)
      case None
      have g: "stretched r es (done + 1) rlast (held k fd) (held k1 fd)" "\<And>fd'. fd' \<noteq> fd \<Longrightarrow> held k1 fd' = held k fd'"
        using set_gap[OF fd s[unfolded None] True top] walk_inv_end[OF Nil.prems(1)] by blast+
      have "stretched r es (l_start r) rlast h (held k1 fd)"
        by (rule stretched_trans[OF Nil.prems(3) g(1)]) (use True Nil.prems(2) in auto)
      then show ?thesis using Nil.prems(4) True s None g(2) by (auto simp: outcome_def)
    next
      case (Some e)
      note f = refused[OF env s[unfolded Some] Nil.prems(3,2) True]
      then show ?thesis using Nil.prems(4) True s Some by auto
    qed
  qed
next
  case (Cons w ws)
  have fd: "fd \<noteq> AD_SYMLINK" and top: "rlast \<le> LOCK_TOP" using env by (simp_all add: walk_env_def)
  show ?case
  proof (cases "done < rlast")
    case False
    then show ?thesis using Cons.prems stretched_cut[OF Cons.prems(3), of rlast] by (auto simp: outcome_def)
  next
    case True
    let ?stop = "l_first w - 1"
    define d' where "d' = (if adf_reach w > done then adf_reach w else done)"
    note st = walk_inv_step[OF Cons.prems(1) d'_def]
    have wf: "l_first w \<le> rlast" "valid_entry w" "w \<in> set es" using Cons.prems(1) by (auto simp: walk_inv_def)
    have beyond: "\<exists>e \<in> set es. covers (adf_flock e) x" if "rlast < x" "x \<le> d'" for x
      using that st(3) True wf by (auto simp: covers_def intro!: bexI[of _ w])
    have go: "outcome fd r rlast es h ret k' \<and> (\<forall>fd'. fd' \<noteq> fd \<longrightarrow> held k' fd' = held k fd')"
      if k1: "stretched r es (l_start r) (max done ?stop) h (held k1 fd)" "\<And>fd'. fd' \<noteq> fd \<Longrightarrow> held k1 fd' = held k fd'"
        "gaps_walk os undo fd r rlast ws d' None k1 = (ret, k')" for k1
    proof -
      have "l_first w \<le> l_last w" using wf(2) by (simp add: valid_lock_def adf_lock_last_def)
      then have "stretched r es (l_start r) d' h (held k1 fd)"
        using walk_inv_covered[OF Cons.prems(1) refl] st(3) by (intro stretched_skip[OF k1(1)]) auto
      from Cons.IH[OF st(1) _ this k1(3)] show ?thesis using st(2) Cons.prems(2) beyond k1(2) by auto
    qed
    show ?thesis
    proof (cases "?stop > done")
      case False
      then have m: "max done ?stop = done" by simp
      have "gaps_walk os undo fd r rlast ws d' None k = (ret, k')"
        using Cons.prems(4) True False by (simp add: Let_def d'_def[symmetric])
      then show ?thesis using go[of k, unfolded m] Cons.prems(3) by blast
    next
      case S: True
      obtain c k1 where s: "set_lock os k fd (gap_at r done ?stop) = (c, k1)" by (cases "set_lock os k fd (gap_at r done ?stop)")
      show ?thesis
      proof (cases c)
        case None
        have le: "?stop \<le> LOCK_TOP" using wf(1) top by simp
        have g: "stretched r es (done + 1) ?stop (held k fd) (held k1 fd)" "\<And>fd'. fd' \<noteq> fd \<Longrightarrow> held k1 fd' = held k fd'"
          using set_gap[OF fd s[unfolded None] S le, of es] walk_inv_gap[OF Cons.prems(1)] by auto
        have "stretched r es (l_start r) ?stop h (held k1 fd)"
          by (rule stretched_trans[OF Cons.prems(3) g(1)]) (use S Cons.prems(2) in auto)
        moreover have m: "max done ?stop = ?stop" using S by simp
        moreover have "gaps_walk os undo fd r rlast ws d' None k1 = (ret, k')"
          using Cons.prems(4) True S s None by (simp add: Let_def d'_def[symmetric])
        ultimately show ?thesis using go[of k1] g(2) by simp
      next
        case (Some e)
        note f = refused[OF env s[unfolded Some] Cons.prems(3,2) True]
        then show ?thesis using Cons.prems(4) True S s Some by (auto simp: Let_def)
      qed
    qed
  qed
qed

subsection \<open>The walk on a well-formed array\<close>

lemma window_walk_inv:
  assumes "table_ok (adf_lock adf)" "0 \<le> l_start r" "rlast = adf_lock_last (l_start r) (l_len r)"
  shows "walk_inv (adf_lock adf) (gaps_window adf r) (l_start r - 1) rlast"
proof -
  let ?es = "adf_lock adf"
  obtain lo hi where w: "adf_lock_window adf (l_start r) (l_len r) = (lo, hi)" by (cases "adf_lock_window adf (l_start r) (l_len r)")
  note t = assms(1)[unfolded table_ok_def] and b = window_bounds[OF assms(1) w]
  have ws: "gaps_window adf r = take (hi - lo) (drop lo ?es)" by (simp add: gaps_window_def w drop_take)
  let ?p = "end_reach (-1) (take lo ?es)"
  have p: "?p \<le> l_start r - 1"
  proof (cases "take lo ?es = []")
    case True
    then show ?thesis using assms(2) by (simp add: end_reach_def)
  next
    case False
    then have n: "0 < lo" "?es \<noteq> []" by auto
    then have "lo \<le> length ?es" using b(2)[of 0] by simp
    then have "?p = adf_reach (?es ! (lo - 1))" using False n by (simp add: end_reach_def last_conv_nth)
    then show ?thesis using b(3)[of "lo - 1"] n \<open>lo \<le> length ?es\<close> by simp
  qed
  have "reach_loop ?p (drop lo ?es) = drop lo ?es" using reach_loop_take(2)[of "-1" ?es lo] t by blast
  then have "reach_loop ?p (take (hi - lo) (drop lo ?es)) = take (hi - lo) (drop lo ?es)" by (rule reach_loop_take(1))
  moreover have "sorted (map l_first (take (hi - lo) (drop lo ?es)))" using t by (simp add: take_map[symmetric] drop_map[symmetric])
  moreover have "l_first e \<le> rlast" if "e \<in> set (take (hi - lo) (drop lo ?es))" for e
    using that b(6) assms(3) by (auto simp: in_set_conv_nth)
  moreover have "\<not> covers (adf_flock e) x" if e: "e \<in> set ?es - set (take (hi - lo) (drop lo ?es))" "l_start r - 1 < x" "x \<le> rlast" for e x
  proof -
    obtain i where i: "i < length ?es" "e = ?es ! i" using e(1) by (auto simp: in_set_conv_nth)
    have "\<not> (lo \<le> i \<and> i < hi)"
    proof
      assume h: "lo \<le> i \<and> i < hi"
      then have "take (hi - lo) (drop lo ?es) ! (i - lo) = e" "i - lo < length (take (hi - lo) (drop lo ?es))" using i by auto
      then show False using e(1) by (metis DiffD2 nth_mem)
    qed
    then show ?thesis using b(4,5)[OF i(1)] i(2) e(2,3) assms(3) by (auto simp: covers_def)
  qed
  moreover have "set (take (hi - lo) (drop lo ?es)) \<subseteq> set ?es" by (meson order_trans set_take_subset set_drop_subset)
  ultimately show ?thesis
    using p t unfolding walk_inv_def ws list_all_iff by (intro conjI exI[of _ ?p]) auto
qed

lemma window_ordered:
  assumes "table_ok (adf_lock adf)" "off \<le> adf_lock_last off len" "adf_lock_window adf off len = (lo, hi)"
  shows "lo \<le> hi"
proof (rule ccontr)
  assume "\<not> lo \<le> hi"
  moreover have "lo \<le> length (adf_lock adf)"
    using lower_reach(1)[of adf off] assms(1,3) by (auto simp: table_ok_def adf_lock_window_def Let_def)
  ultimately have i: "hi < length (adf_lock adf)" "hi < lo" by auto
  then have "l_last (adf_lock adf ! hi) < off" "adf_lock_last off len < l_first (adf_lock adf ! hi)"
    using window_bounds(4,5)[OF assms(1,3) i(1)] by simp_all
  moreover have "valid_entry (adf_lock adf ! hi)" using assms(1) i(1) by (simp add: table_ok_def list_all_length)
  ultimately show False using assms(2) by (simp add: valid_lock_def adf_lock_last_def split: if_splits)
qed

lemma gaps_run_walk:
  assumes "table_ok (adf_lock adf)" "l_start r \<le> adf_lock_last (l_start r) (l_len r)"
  shows "gaps_run os undo k adf r =
    gaps_walk os undo (adf_fd adf) r (adf_lock_last (l_start r) (l_len r)) (gaps_window adf r) (l_start r - 1) None k"
  using window_ordered[OF assms] by (simp add: gaps_run_def split: prod.split)

lemma gaps_undo_spec:
  assumes "table_ok (adf_lock adf)" "0 \<le> l_start r" "adf_fd adf \<noteq> AD_SYMLINK" "releases os" "l_start r \<le> d" "d \<le> LOCK_TOP"
  shows "stretched (r\<lparr>l_type := F_UNLCK\<rparr>) (adf_lock adf) (l_start r) d (held k (adf_fd adf)) (held (gaps_undo os adf r (d - l_start r + 1) k) (adf_fd adf)) \<and>
    (\<forall>fd'. fd' \<noteq> adf_fd adf \<longrightarrow> held (gaps_undo os adf r (d - l_start r + 1) k) fd' = held k fd')"
proof -
  define u where "u = r\<lparr>l_type := F_UNLCK, l_len := d - l_start r + 1\<rparr>"
  have l: "adf_lock_last (l_start u) (l_len u) = d" "l_start u = l_start r" "l_type u = F_UNLCK" using assms(5) by (simp_all add: u_def adf_lock_last_def)
  have env: "walk_env os (adf_fd adf) u d (adf_lock adf) (\<lambda>_ k. k)" using assms l by (simp add: walk_env_def)
  obtain ret k' where g: "gaps_walk os (\<lambda>_ k. k) (adf_fd adf) u d (gaps_window adf u) (l_start u - 1) None k = (ret, k')"
    by (metis surj_pair)
  have "outcome (adf_fd adf) u d (adf_lock adf) (held k (adf_fd adf)) ret k' \<and> (\<forall>fd'. fd' \<noteq> adf_fd adf \<longrightarrow> held k' fd' = held k fd')"
    by (rule walk_spec[OF env window_walk_inv[OF assms(1), of u d] _ _ g])
      (use assms(2,5) l in \<open>auto intro: stretched_none\<close>)
  moreover have "gaps_undo os adf r (d - l_start r + 1) k = k'"
    using g l gaps_run_walk[OF assms(1), of u os "\<lambda>_ k. k" k] assms(5) by (simp add: gaps_undo_def u_def)
  moreover have "effect u = effect (r\<lparr>l_type := F_UNLCK\<rparr>)" using l by (simp add: effect_def)
  ultimately show ?thesis using l by (auto simp: outcome_def stretched_def)
qed

lemma adf_lock_gaps_spec:
  assumes "table_ok (adf_lock adf)" "0 \<le> l_start r" "adf_fd adf \<noteq> AD_SYMLINK" "releases os"
    and "rlast = adf_lock_last (l_start r) (l_len r)" "rlast \<le> LOCK_TOP" "l_start r \<le> rlast"
    and "adf_lock_gaps os k adf r = (ret, k')"
  shows "outcome (adf_fd adf) r rlast (adf_lock adf) (held k (adf_fd adf)) ret k'" "fd' \<noteq> adf_fd adf \<Longrightarrow> held k' fd' = held k fd'"
proof -
  have env: "walk_env os (adf_fd adf) r rlast (adf_lock adf) (gaps_undo os adf r)"
    using assms(3,4,6) gaps_undo_spec[OF assms(1-4)] unfolding walk_env_def by auto
  have g: "gaps_walk os (gaps_undo os adf r) (adf_fd adf) r rlast (gaps_window adf r) (l_start r - 1) None k = (ret, k')"
    using assms(5,7,8) gaps_run_walk[OF assms(1), of r os "gaps_undo os adf r" k] by (simp add: adf_lock_gaps_def)
  have "outcome (adf_fd adf) r rlast (adf_lock adf) (held k (adf_fd adf)) ret k' \<and> (\<forall>fd'. fd' \<noteq> adf_fd adf \<longrightarrow> held k' fd' = held k fd')"
    by (rule walk_spec[OF env window_walk_inv[OF assms(1,2,5)] _ _ g]) (use assms(7) in \<open>auto intro: stretched_none\<close>)
  then show "outcome (adf_fd adf) r rlast (adf_lock adf) (held k (adf_fd adf)) ret k'" "fd' \<noteq> adf_fd adf \<Longrightarrow> held k' fd' = held k fd'" by auto
qed

lemma gaps_walk_symlink: "gaps_walk os undo AD_SYMLINK r rlast ws done ret k = (ret, k)"
  by (induction ws arbitrary: "done") (auto simp: set_lock_symlink Let_def)

lemma adf_lock_gaps_symlink: "adf_fd adf = AD_SYMLINK \<Longrightarrow> adf_lock_gaps os k adf r = (None, k)"
  by (simp add: adf_lock_gaps_def gaps_run_def gaps_walk_symlink split: prod.split)

end
