(* ===== verification/Ad_Lock_Fd.thy ===== *)
theory Ad_Lock_Fd
  imports Ad_Lock_Gaps "HOL-Library.Multiset"
begin

text \<open>
  The operations on one descriptor. Between calls a descriptor is well-formed: its array is in
  order, locks of different forks share bytes only when both are read locks, a fork holds no
  byte twice, and the kernel holds for the process exactly the bytes of the entries, with their
  types. Dropping an entry and a call of the lock function keep this, and a call that succeeds
  does to the recorded locks what \<open>granted\<close> specifies.
\<close>

definition compatible :: "adf_lock_t \<Rightarrow> adf_lock_t \<Rightarrow> bool" where
  "compatible e f \<longleftrightarrow> (lock_overlap (adf_flock e) (adf_flock f) \<longrightarrow>
     adf_user e \<noteq> adf_user f \<and> l_type (adf_flock e) = F_RDLCK \<and> l_type (adf_flock f) = F_RDLCK)"

definition holds_exactly :: "adf_lock_t list \<Rightarrow> (int \<Rightarrow> lock_type option) \<Rightarrow> bool" where
  "holds_exactly es h \<longleftrightarrow> (\<forall>x \<le> LOCK_TOP.
     (\<forall>e \<in> set es. covers (adf_flock e) x \<longrightarrow> h x = Some (l_type (adf_flock e))) \<and>
     ((\<forall>e \<in> set es. \<not> covers (adf_flock e) x) \<longrightarrow> h x = None))"

definition taking :: "flock \<Rightarrow> bool" where
  "taking l \<longleftrightarrow> l_type l = F_RDLCK \<or> l_type l = F_WRLCK"

definition array_ok :: "adf_lock_t list \<Rightarrow> bool" where
  "array_ok es \<longleftrightarrow> table_ok es \<and> sorted_wrt compatible es \<and> (\<forall>e \<in> set es. taking (adf_flock e))"

definition fd_ok :: "kernel \<Rightarrow> ad_fd \<Rightarrow> bool" where
  "fd_ok k adf \<longleftrightarrow> array_ok (adf_lock adf) \<and> length (adf_lock adf) \<le> adf_lockmax adf \<and>
     (adf_fd adf \<noteq> AD_SYMLINK \<longrightarrow> holds_exactly (adf_lock adf) (held k (adf_fd adf)))"

lemma compatible_sym: "compatible e f \<Longrightarrow> compatible f e"
  by (auto simp: compatible_def overlap_sym)

text \<open>The entries of an array without their reaches, which determine everything else of it.\<close>

definition locks :: "adf_lock_t list \<Rightarrow> (int \<times> flock) list" where
  "locks es = map (\<lambda>e. (adf_user e, adf_flock e)) es"

lemma locks_reach [simp]: "locks (reach_loop r es) = locks es"
  by (induction es arbitrary: r) (simp_all add: locks_def Let_def)

lemma locks_append [simp]: "locks (es @ fs) = locks es @ locks fs" "locks (e # es) = (adf_user e, adf_flock e) # locks es"
  by (simp_all add: locks_def)

lemma locks_take: "locks (take i es) = take i (locks es)" "locks (drop i es) = drop i (locks es)"
  by (simp_all add: locks_def take_map drop_map)

lemma locks_parts:
  "map l_first es = map (l_start \<circ> snd) (locks es)" "length es = length (locks es)"
  "list_all valid_entry es \<longleftrightarrow> list_all (valid_lock \<circ> snd) (locks es)"
  "(\<forall>e \<in> set es. taking (adf_flock e)) \<longleftrightarrow> list_all (taking \<circ> snd) (locks es)"
  "holds_exactly es h \<longleftrightarrow> (\<forall>x \<le> LOCK_TOP.
     list_all (\<lambda>p. covers (snd p) x \<longrightarrow> h x = Some (l_type (snd p))) (locks es) \<and>
     (list_all (\<lambda>p. \<not> covers (snd p) x) (locks es) \<longrightarrow> h x = None))"
  "sorted_wrt compatible es \<longleftrightarrow> sorted_wrt (\<lambda>p q. lock_overlap (snd p) (snd q) \<longrightarrow>
     fst p \<noteq> fst q \<and> l_type (snd p) = F_RDLCK \<and> l_type (snd q) = F_RDLCK) (locks es)"
  by (simp_all add: locks_def list_all_iff holds_exactly_def sorted_wrt_map compatible_def[abs_def])

lemma same_locks:
  assumes "locks es = locks fs"
  shows "holds_exactly es h \<longleftrightarrow> holds_exactly fs h" "length es = length fs"
    "sorted (map l_first es) \<and> list_all valid_entry es \<and> sorted_wrt compatible es \<and> (\<forall>e \<in> set es. taking (adf_flock e)) \<longleftrightarrow>
     sorted (map l_first fs) \<and> list_all valid_entry fs \<and> sorted_wrt compatible fs \<and> (\<forall>e \<in> set fs. taking (adf_flock e))"
  unfolding locks_parts assms by (rule refl)+

lemma array_ok_reach:
  assumes "sorted (map l_first es)" "list_all valid_entry es" "sorted_wrt compatible es" "\<forall>e \<in> set es. taking (adf_flock e)"
  shows "array_ok (reach_loop (-1) es)"
  using same_locks(3)[of "reach_loop (-1) es" es] assms by (simp add: array_ok_def table_ok_def)

lemma holds_reach [simp]: "holds_exactly (reach_loop r es) h \<longleftrightarrow> holds_exactly es h"
  by (rule same_locks(1)) simp

lemma covers_reach [simp]: "(\<forall>e \<in> set (reach_loop r es). \<not> covers (adf_flock e) x) \<longleftrightarrow> (\<forall>e \<in> set es. \<not> covers (adf_flock e) x)"
proof -
  have "(\<forall>e \<in> set es. \<not> covers (adf_flock e) x) \<longleftrightarrow> (\<forall>l \<in> set (map adf_flock es). \<not> covers l x)" for es by simp
  then show ?thesis by (metis reach_loop_flocks(1))
qed

lemma stretched_reach [simp]: "stretched l (reach_loop r es) a b h h' \<longleftrightarrow> stretched l es a b h h'"
  by (simp add: stretched_def)

lemma array_okD:
  assumes "array_ok es"
  shows "sorted (map l_first es)" "list_all valid_entry es" "sorted_wrt compatible es" "\<forall>e \<in> set es. taking (adf_flock e)"
    "reach_loop (-1) es = es" "table_ok es"
  using assms by (simp_all add: array_ok_def table_ok_def)

subsection \<open>Dropping an entry\<close>

lemma drop_entry:
  assumes "array_ok es" "i < length es" "es' = take i es @ drop (Suc i) es"
  shows "array_ok (reach_loop (-1) es')" "reach_loop (-1) (take i es') = take i es'" "i \<le> length es'"
proof -
  note t = array_okD[OF assms(1)]
  have e: "es = take i es @ es ! i # drop (Suc i) es" using assms(2) by (rule id_take_nth_drop)
  show "array_ok (reach_loop (-1) es')"
  proof (rule array_ok_reach)
    have "sorted (map l_first (take i es @ es ! i # drop (Suc i) es))" "sorted_wrt compatible (take i es @ es ! i # drop (Suc i) es)"
      using t(1,3) e by simp_all
    then show "sorted (map l_first es')" "sorted_wrt compatible es'" unfolding assms(3) by (auto simp: sorted_append sorted_wrt_append)
    show "list_all valid_entry es'" "\<forall>e \<in> set es'. taking (adf_flock e)"
      using t(2,4) unfolding assms(3) list_all_iff by (auto dest: in_set_takeD in_set_dropD)
  qed
  show "reach_loop (-1) (take i es') = take i es'" using reach_loop_take(1)[OF t(5)] assms(2,3) by simp
  show "i \<le> length es'" using assms(2,3) by simp
qed

lemma release_holds:
  assumes "holds_exactly es h" "i < length es" "es' = take i es @ drop (Suc i) es"
    and "stretched u es' (l_first (es ! i)) (l_last (es ! i)) h h'" "l_type u = F_UNLCK"
  shows "holds_exactly es' h'"
proof -
  have e: "es = take i es @ es ! i # drop (Suc i) es" using assms(2) by (rule id_take_nth_drop)
  have s: "set es = insert (es ! i) (set es')" using arg_cong[OF e, of set] assms(3) by auto
  show ?thesis unfolding holds_exactly_def
  proof (intro allI impI)
    fix x assume x: "x \<le> LOCK_TOP"
    have "h' x = (if covers (adf_flock (es ! i)) x \<and> (\<forall>e \<in> set es'. \<not> covers (adf_flock e) x) then None else h x)"
      using assms(4)[unfolded stretched_def, rule_format, OF x] assms(5) by (simp add: effect_def covers_def[of "adf_flock (es ! i)"])
    then show "(\<forall>e \<in> set es'. covers (adf_flock e) x \<longrightarrow> h' x = Some (l_type (adf_flock e))) \<and>
        ((\<forall>e \<in> set es'. \<not> covers (adf_flock e) x) \<longrightarrow> h' x = None)"
      using assms(1)[unfolded holds_exactly_def s, rule_format, OF x] by auto
  qed
qed

text \<open>What an operation leaves alone: the descriptor itself and the locks on all others.\<close>

definition frame :: "int \<Rightarrow> kernel \<Rightarrow> kernel \<Rightarrow> bool" where
  "frame fd k k' \<longleftrightarrow> (\<forall>fd'. fd' \<noteq> fd \<longrightarrow> held k' fd' = held k fd')"

lemma frame_refl [simp]: "frame fd k k" by (simp add: frame_def)

lemma frame_trans: "frame fd k k' \<Longrightarrow> frame fd k' k'' \<Longrightarrow> frame fd k k''" by (simp add: frame_def)

lemma fd_ok_frame: "fd_ok k adf \<Longrightarrow> frame fd k k' \<Longrightarrow> fd \<noteq> adf_fd adf \<Longrightarrow> fd_ok k' adf"
  by (auto simp: fd_ok_def frame_def)

lemma last_of: "valid_lock l \<Longrightarrow> l_start l \<le> adf_lock_last (l_start l) (l_len l) \<and> adf_lock_last (l_start l) (l_len l) \<le> LOCK_TOP"
  by (simp add: valid_lock_def adf_lock_last_def)

lemma set_lock_frame: "set_lock os k fd l = (r, k') \<Longrightarrow> frame fd k k'"
  by (auto simp: set_lock_def frame_def Let_def split: option.splits if_splits)

lemma release_gaps:
  assumes "table_ok (adf_lock adf)" "valid_lock l" "releases os" "l_type l = F_UNLCK" "adf_lock_gaps os k adf l = (ret, k')"
  shows "ret = None" "frame (adf_fd adf) k k'"
    "adf_fd adf \<noteq> AD_SYMLINK \<Longrightarrow> stretched l (adf_lock adf) (l_start l) (adf_lock_last (l_start l) (l_len l)) (held k (adf_fd adf)) (held k' (adf_fd adf))"
proof -
  have s: "0 \<le> l_start l" using assms(2) by (simp add: valid_lock_def)
  have "ret = None \<and> frame (adf_fd adf) k k' \<and> (adf_fd adf \<noteq> AD_SYMLINK \<longrightarrow>
     stretched l (adf_lock adf) (l_start l) (adf_lock_last (l_start l) (l_len l)) (held k (adf_fd adf)) (held k' (adf_fd adf)))"
  proof (cases "adf_fd adf = AD_SYMLINK")
    case True
    then show ?thesis using adf_lock_gaps_symlink[OF True] assms(5) by simp
  next
    case False
    note g = adf_lock_gaps_spec[OF assms(1) s False assms(3) refl _ _ assms(5)]
    show ?thesis using g last_of[OF assms(2)] assms(4) by (auto simp: outcome_def frame_def)
  qed
  then show "ret = None" "frame (adf_fd adf) k k'"
    "adf_fd adf \<noteq> AD_SYMLINK \<Longrightarrow> stretched l (adf_lock adf) (l_start l) (adf_lock_last (l_start l) (l_len l)) (held k (adf_fd adf)) (held k' (adf_fd adf))"
    by auto
qed

lemma freelock_ok:
  assumes "fd_ok k adf" "i < length (adf_lock adf)" "releases os" "adf_freelock os k adf i = (k', adf')"
  shows "fd_ok k' adf'" "locks (adf_lock adf') = take i (locks (adf_lock adf)) @ drop (Suc i) (locks (adf_lock adf))"
    "frame (adf_fd adf) k k'" "adf_fd adf' = adf_fd adf" "adf_rdwr adf' = adf_rdwr adf"
proof -
  let ?es = "adf_lock adf"
  define es' where "es' = take i ?es @ drop (Suc i) ?es"
  define a where "a = adf_lock_reach (adf\<lparr>adf_lock := es'\<rparr>) i"
  define u where "u = (adf_flock (?es ! i))\<lparr>l_type := F_UNLCK\<rparr>"
  have ok: "array_ok ?es" using assms(1) by (simp add: fd_ok_def)
  note d = drop_entry[OF ok assms(2) es'_def]
  have a: "adf_lock a = reach_loop (-1) es'" "adf_fd a = adf_fd adf" "adf_lockmax a = adf_lockmax adf" "adf_rdwr a = adf_rdwr adf"
    using adf_lock_reach_fix[of i "adf\<lparr>adf_lock := es'\<rparr>"] d(2,3) by (simp_all add: a_def)
  have "valid_entry (?es ! i)" using array_okD(2)[OF ok] assms(2) by (simp add: list_all_length)
  then have u: "valid_lock u" "l_type u = F_UNLCK" "l_start u = l_first (?es ! i)" "l_len u = l_len (adf_flock (?es ! i))"
    by (simp_all add: u_def valid_lock_def)
  obtain ret k1 where g: "adf_lock_gaps os k a u = (ret, k1)" by (cases "adf_lock_gaps os k a u")
  have ta: "table_ok (adf_lock a)" using d(1) array_okD(6) a(1) by simp
  note r = release_gaps[OF ta u(1) assms(3) u(2) g, unfolded a(1,2) stretched_reach u(3,4)]
  have res: "held k' = held k1" "adf_lock adf' = adf_lock a" "adf_fd adf' = adf_fd a" "adf_rdwr adf' = adf_rdwr a"
    "length es' \<le> adf_lockmax adf'"
    using assms(1,2,4) g a(3) a(1)
    unfolding adf_freelock_def es'_def[symmetric] a_def[symmetric] u_def[symmetric] fd_ok_def
    by (auto simp: Let_def realloc_def es'_def split: if_splits)
  have "adf_fd adf \<noteq> AD_SYMLINK \<Longrightarrow> holds_exactly es' (held k1 (adf_fd adf))"
    using release_holds[OF _ assms(2) es'_def r(3) u(2)] assms(1) by (simp add: fd_ok_def)
  then show "fd_ok k' adf'" using d(1) res a(1,2) by (simp add: fd_ok_def)
  show "locks (adf_lock adf') = take i (locks ?es) @ drop (Suc i) (locks ?es)"
    using res a(1) by (simp add: es'_def locks_take)
  show "frame (adf_fd adf) k k'" "adf_fd adf' = adf_fd adf" "adf_rdwr adf' = adf_rdwr adf"
    using r(2) res a by (simp_all add: frame_def)
qed

subsection \<open>Searching the array\<close>

lemma type_match_simps:
  "taking (adf_flock e) \<Longrightarrow> type_match (ADLOCK_RD OR ADLOCK_WR) e"
  "type_match (ADLOCK_WR OR (if b then ADLOCK_RD else 0)) e \<longleftrightarrow>
     l_type (adf_flock e) = F_WRLCK \<or> (b \<and> l_type (adf_flock e) = F_RDLCK)"
  by (auto simp: type_match_def taking_def adlock_bits)

lemma findlock_none:
  assumes "array_ok (adf_lock adf)" "valid_lock l"
  shows "adf_findlock adf fork (ADLOCK_RD OR ADLOCK_WR) (l_start l) (l_len l) = None \<longleftrightarrow>
    (\<forall>e \<in> set (adf_lock adf). adf_user e = fork \<longrightarrow> \<not> lock_overlap l (adf_flock e))"
  unfolding findlock_linear(1)[OF array_okD(6)[OF assms(1)] assms(2)] find_None_iff
  using array_okD(4)[OF assms(1)] by (fastforce simp: type_match_simps in_set_conv_nth)

lemma findlock_some:
  assumes "array_ok (adf_lock adf)" "valid_lock l" "adf_findlock adf fork type (l_start l) (l_len l) = Some i"
  shows "i < length (adf_lock adf)" "adf_user (adf_lock adf ! i) = fork" "lock_overlap l (adf_flock (adf_lock adf ! i))"
  using assms(3) unfolding findlock_linear(1)[OF array_okD(6)[OF assms(1)] assms(2)] find_Some_iff by auto

lemma findxlock_none:
  assumes "array_ok (adf_lock adf)" "valid_lock l" "taking l" "w \<longleftrightarrow> l_type l = F_WRLCK"
  shows "adf_findxlock adf fork (ADLOCK_WR OR (if w then ADLOCK_RD else 0)) (l_start l) (l_len l) = None \<longleftrightarrow>
    (\<forall>e \<in> set (adf_lock adf). adf_user e \<noteq> fork \<and> lock_overlap l (adf_flock e) \<longrightarrow>
       l_type l = F_RDLCK \<and> l_type (adf_flock e) = F_RDLCK)"
  unfolding findlock_linear(2)[OF array_okD(6)[OF assms(1)] assms(2)] find_None_iff type_match_simps
  using array_okD(4)[OF assms(1)] assms(3,4) unfolding taking_def all_set_conv_all_nth by auto

lemma and_three: "(t :: 32 word) AND 3 = of_bool (bit t 0) + 2 * of_bool (bit t (Suc 0))"
proof -
  have "t AND 3 = take_bit 2 t" using and_mask_take_bit[of t 2] by (simp add: mask_eq_exp_minus_1)
  then show ?thesis by (simp add: numeral_2_eq_2 take_bit_Suc bit_Suc mod_2_eq_odd bit_0)
qed

lemma and_low: "(t :: 32 word) AND 1 \<noteq> 0 \<longleftrightarrow> bit t 0" "(t :: 32 word) AND 2 \<noteq> 0 \<longleftrightarrow> bit t (Suc 0)"
  using and_power_bit[of 0 t] and_power_bit[of 1 t] by simp_all

lemma degrade_bits:
  "bit (degrade adf t) 0 \<longleftrightarrow> bit t 0 \<or> \<not> adf_rdwr adf \<and> bit t (Suc 0)"
  "bit (degrade adf t) (Suc 0) \<longleftrightarrow> bit t (Suc 0) \<and> adf_rdwr adf"
  unfolding degrade_def adlock_bits and_low by (auto simp: bit_simps bit_0 even_or_iff)

lemma request_type:
  assumes "type AND ADLOCK_MASK \<noteq> ADLOCK_MASK" "t = degrade adf type"
  shows "XLATE_FCNTL_LOCK (t AND ADLOCK_MASK) = F_UNLCK \<or> taking \<lparr>l_type = XLATE_FCNTL_LOCK (t AND ADLOCK_MASK), l_start = a, l_len = b\<rparr>"
    "t AND ADLOCK_WR \<noteq> 0 \<longleftrightarrow> XLATE_FCNTL_LOCK (t AND ADLOCK_MASK) = F_WRLCK"
proof -
  have m: "ADLOCK_MASK = 3" by (simp add: adlock_bits)
  have "\<not> (bit type 0 \<and> bit type (Suc 0))" using assms(1) unfolding m and_three by auto
  then have t: "\<not> (bit t 0 \<and> bit t (Suc 0))" unfolding assms(2) degrade_bits by blast
  show "XLATE_FCNTL_LOCK (t AND ADLOCK_MASK) = F_UNLCK \<or> taking \<lparr>l_type = XLATE_FCNTL_LOCK (t AND ADLOCK_MASK), l_start = a, l_len = b\<rparr>"
    "t AND ADLOCK_WR \<noteq> 0 \<longleftrightarrow> XLATE_FCNTL_LOCK (t AND ADLOCK_MASK) = F_WRLCK"
    using t unfolding m and_three taking_def ADLOCK_WR_def and_low by (auto simp: XLATE_FCNTL_LOCK_def adlock_bits)
qed

subsection \<open>Taking a lock\<close>

text \<open>
  The checks before the call of the kernel: every entry that shares bytes with \<open>l\<close> belongs to
  another fork, and both are read locks.
\<close>

definition grantable :: "adf_lock_t list \<Rightarrow> int \<Rightarrow> flock \<Rightarrow> bool" where
  "grantable es fork l \<longleftrightarrow> (\<forall>e \<in> set es. lock_overlap l (adf_flock e) \<longrightarrow>
     adf_user e \<noteq> fork \<and> l_type l = F_RDLCK \<and> l_type (adf_flock e) = F_RDLCK)"

lemma valid_covers: "valid_lock l \<Longrightarrow> in_range l x \<longleftrightarrow> covers l x"
  by (auto simp: valid_lock_def in_range_def covers_def adf_lock_last_def)

lemma grantable_covers:
  assumes "grantable es fork l" "valid_lock l" "e \<in> set es" "valid_entry e" "covers l x" "covers (adf_flock e) x"
  shows "l_type l = F_RDLCK" "l_type (adf_flock e) = F_RDLCK"
  using assms overlap_iff[of l "adf_flock e"] unfolding grantable_def valid_lock_def by blast+

lemma insert_entry:
  assumes "array_ok es" "valid_lock l" "taking l" "grantable es fork l"
    and "\<And>i. i < j \<Longrightarrow> l_first (es ! i) < l_start l" "\<And>i. j \<le> i \<Longrightarrow> i < length es \<Longrightarrow> l_start l \<le> l_first (es ! i)" "j \<le> length es"
    and "es' = take j es @ \<lparr>adf_flock = l, adf_user = fork, adf_reach = r\<rparr> # drop j es"
  shows "array_ok (reach_loop (-1) es')" "reach_loop (-1) (take j es') = take j es'" "j \<le> length es'"
proof -
  note t = array_okD[OF assms(1)]
  have e: "es = take j es @ drop j es" by simp
  have lo: "l_first e \<le> l_start l" if "e \<in> set (take j es)" for e
    using that assms(5) by (force simp: in_set_conv_nth)
  have hi: "l_start l \<le> l_first e" if "e \<in> set (drop j es)" for e
    using that assms(6) by (auto simp: in_set_conv_nth)
  have g: "compatible \<lparr>adf_flock = l, adf_user = fork, adf_reach = r\<rparr> e" if "e \<in> set es" for e
    using assms(4) that by (auto simp: grantable_def compatible_def)
  show "array_ok (reach_loop (-1) es')"
  proof (rule array_ok_reach)
    have "sorted (map l_first (take j es @ drop j es))" "sorted_wrt compatible (take j es @ drop j es)" using t(1,3) e by simp_all
    then show "sorted (map l_first es')" "sorted_wrt compatible es'"
      using lo hi g compatible_sym[OF g] unfolding assms(8) map_append sorted_append sorted_wrt_append list.map
      by (auto dest: in_set_takeD in_set_dropD intro: order_trans)
    show "list_all valid_entry es'" "\<forall>e \<in> set es'. taking (adf_flock e)"
      using t(2,4) assms(2,3) unfolding assms(8) list_all_iff by (auto dest: in_set_takeD in_set_dropD)
  qed
  show "reach_loop (-1) (take j es') = take j es'" using reach_loop_take(1)[OF t(5)] assms(7,8) by simp
  show "j \<le> length es'" using assms(7,8) by simp
qed

lemma take_holds:
  assumes "holds_exactly es h" "list_all valid_entry es" "valid_lock l" "taking l" "grantable es fork l"
    and "set es' = insert e (set es)" "adf_flock e = l"
  shows "holds_exactly es' (k_setlk h l)"
  unfolding holds_exactly_def
proof (intro allI impI)
  fix x assume x: "x \<le> LOCK_TOP"
  have k: "k_setlk h l x = (if covers l x then Some (l_type l) else h x)"
    using assms(4) valid_covers[OF assms(3)] by (auto simp: k_setlk_def taking_def)
  have same: "l_type (adf_flock f) = l_type l" if "f \<in> set es" "covers l x" "covers (adf_flock f) x" for f
    using grantable_covers[OF assms(5,3) that(1) _ that(2,3)] assms(2) that(1) by (simp add: list_all_iff)
  show "(\<forall>e \<in> set es'. covers (adf_flock e) x \<longrightarrow> k_setlk h l x = Some (l_type (adf_flock e))) \<and>
      ((\<forall>e \<in> set es'. \<not> covers (adf_flock e) x) \<longrightarrow> k_setlk h l x = None)"
    using assms(1)[unfolded holds_exactly_def, rule_format, OF x] same unfolding k assms(6) by (auto simp: assms(7))
qed

text \<open>A lock that could not be recorded is taken back: every byte is held as before.\<close>

lemma undo_holds:
  assumes "holds_exactly es h" "list_all valid_entry es" "valid_lock l" "taking l" "grantable es fork l" "l_type u = F_UNLCK"
    and "stretched u es (l_start l) (adf_lock_last (l_start l) (l_len l)) (k_setlk h l) h'" "x \<le> LOCK_TOP"
  shows "h' x = h x"
proof -
  have k: "k_setlk h l x = (if covers l x then Some (l_type l) else h x)"
    using assms(4) valid_covers[OF assms(3)] by (auto simp: k_setlk_def taking_def)
  have same: "l_type (adf_flock f) = l_type l" if "f \<in> set es" "covers l x" "covers (adf_flock f) x" for f
    using grantable_covers[OF assms(5,3) that(1) _ that(2,3)] assms(2) that(1) by (simp add: list_all_iff)
  have "h' x = (if covers l x \<and> (\<forall>e \<in> set es. \<not> covers (adf_flock e) x) then None else k_setlk h l x)"
    using assms(7)[unfolded stretched_def, rule_format, OF assms(8)] assms(6) by (simp add: effect_def covers_def[of l])
  then show ?thesis using assms(1)[unfolded holds_exactly_def, rule_format, OF assms(8)] same k by auto
qed

lemma holds_cong: "(\<And>x. x \<le> LOCK_TOP \<Longrightarrow> h' x = h x) \<Longrightarrow> holds_exactly es h \<Longrightarrow> holds_exactly es h'"
  by (simp add: holds_exactly_def)

subsection \<open>Changing the type of a lock\<close>

lemma reach_loop_update:
  assumes "i < length es" "l_start l = l_first (es ! i)" "l_len l = l_len (adf_flock (es ! i))"
  shows "reach_loop r (es[i := (es ! i)\<lparr>adf_flock := l\<rparr>]) = (reach_loop r es)[i := (reach_loop r es ! i)\<lparr>adf_flock := l\<rparr>]"
  using assms
proof (induction es arbitrary: i r)
  case (Cons e es)
  then show ?case by (cases i) (simp_all add: Let_def)
qed simp

lemma upgrade_entry:
  assumes "array_ok es" "i < length es" "taking l" "l_start l = l_first (es ! i)" "l_len l = l_len (adf_flock (es ! i))"
    and "\<And>e. e \<in> set es \<Longrightarrow> adf_user e \<noteq> adf_user (es ! i) \<Longrightarrow> lock_overlap l (adf_flock e) \<Longrightarrow> l_type l = F_RDLCK \<and> l_type (adf_flock e) = F_RDLCK"
    and "es' = es[i := (es ! i)\<lparr>adf_flock := l\<rparr>]"
  shows "array_ok es'" "grantable (take i es @ drop (Suc i) es) (adf_user (es ! i)) l"
proof -
  note t = array_okD[OF assms(1)]
  have ov: "lock_overlap l m \<longleftrightarrow> lock_overlap (adf_flock (es ! i)) m" for m using assms(4,5) by (simp add: lock_overlap_def)
  have c: "compatible (es ! i) (es ! j)" if "j < length es" "j \<noteq> i" for j
    using t(3) that assms(2) compatible_sym unfolding sorted_wrt_iff_nth_less by (metis linorder_neqE_nat)
  have g: "lock_overlap l (adf_flock (es ! j)) \<longrightarrow>
      adf_user (es ! j) \<noteq> adf_user (es ! i) \<and> l_type l = F_RDLCK \<and> l_type (adf_flock (es ! j)) = F_RDLCK" if "j < length es" "j \<noteq> i" for j
    using c[OF that] assms(6)[of "es ! j"] that(1) unfolding compatible_def ov by auto
  have after: "\<exists>j < length es. j \<noteq> i \<and> es ! Suc (i + a) = es ! j" if "a < length es - Suc i" for a
    using that by (intro exI[of _ "Suc (i + a)"]) simp
  have "e \<in> set (take i es @ drop (Suc i) es) \<Longrightarrow> \<exists>j < length es. j \<noteq> i \<and> e = es ! j" for e
    unfolding set_append in_set_conv_nth Un_iff by (auto simp: after)
  then show "grantable (take i es @ drop (Suc i) es) (adf_user (es ! i)) l" unfolding grantable_def using g by blast
  have "map l_first es' = map l_first es" unfolding assms(7) map_update using assms(2,4) by (simp add: list_update_same_conv)
  moreover have "reach_loop (-1) es' = es'" unfolding assms(7) reach_loop_update[OF assms(2,4,5)] t(5) ..
  moreover have "list_all valid_entry es'" "\<forall>e \<in> set es'. taking (adf_flock e)"
    using t(2,4) assms(2-5) unfolding assms(7) by (auto simp: list_all_length nth_list_update valid_lock_def all_set_conv_all_nth)
  moreover have "sorted_wrt compatible es'"
    unfolding sorted_wrt_iff_nth_less
  proof (intro allI impI)
    fix a b assume ab: "a < b" "b < length es'"
    then have "compatible (es ! a) (es ! b)" using t(3) by (simp add: assms(7) sorted_wrt_iff_nth_less)
    then show "compatible (es' ! a) (es' ! b)"
      using ab g[of a] g[of b] unfolding assms(7) compatible_def
      by (cases "a = i"; cases "b = i") (auto simp: overlap_sym)
  qed
  ultimately show "array_ok es'" using t by (simp add: array_ok_def table_ok_def)
qed

lemma upgrade_holds:
  assumes "holds_exactly es h" "array_ok es" "i < length es" "valid_lock l" "taking l" "l_start l = l_first (es ! i)" "l_len l = l_len (adf_flock (es ! i))"
    and "grantable (take i es @ drop (Suc i) es) fork l"
  shows "holds_exactly (es[i := (es ! i)\<lparr>adf_flock := l\<rparr>]) (k_setlk h l)"
  unfolding holds_exactly_def
proof (intro allI impI)
  fix x assume x: "x \<le> LOCK_TOP"
  let ?es = "take i es @ drop (Suc i) es"
  have k: "k_setlk h l x = (if covers l x then Some (l_type l) else h x)"
    using assms(5) valid_covers[OF assms(4)] by (auto simp: k_setlk_def taking_def)
  have c: "covers (adf_flock (es ! i)) x \<longleftrightarrow> covers l x" using assms(6,7) by (simp add: covers_def)
  have e: "es = take i es @ es ! i # drop (Suc i) es" using assms(3) by (rule id_take_nth_drop)
  have s: "set es = insert (es ! i) (set ?es)" using arg_cong[OF e, of set] by auto
  have s': "set (es[i := (es ! i)\<lparr>adf_flock := l\<rparr>]) = insert ((es ! i)\<lparr>adf_flock := l\<rparr>) (set ?es)"
    unfolding upd_conv_take_nth_drop[OF assms(3)] by auto
  have v: "\<forall>f \<in> set es. valid_entry f" using array_okD(2)[OF assms(2)] by (simp add: list_all_iff)
  have same: "l_type (adf_flock f) = l_type l" if "f \<in> set ?es" "covers l x" "covers (adf_flock f) x" for f
    using grantable_covers[OF assms(8,4) that(1) _ that(2,3)] v s that(1) by auto
  show "(\<forall>e \<in> set (es[i := (es ! i)\<lparr>adf_flock := l\<rparr>]). covers (adf_flock e) x \<longrightarrow> k_setlk h l x = Some (l_type (adf_flock e))) \<and>
      ((\<forall>e \<in> set (es[i := (es ! i)\<lparr>adf_flock := l\<rparr>]). \<not> covers (adf_flock e) x) \<longrightarrow> k_setlk h l x = None)"
    using assms(1)[unfolded holds_exactly_def, rule_format, OF x] same unfolding k s s' by (auto simp: c)
qed

subsection \<open>One call of the lock function\<close>

text \<open>The range and type that a call asks the kernel for.\<close>

definition requested :: "ad_fd \<Rightarrow> 32 word \<Rightarrow> int \<Rightarrow> int \<Rightarrow> int \<Rightarrow> flock" where
  "requested adf locktype off shift len =
     \<lparr>l_type = XLATE_FCNTL_LOCK (degrade adf locktype AND ADLOCK_MASK), l_start = off + shift,
      l_len = (if len = BYTELOCK_MAX then len - (off + shift) else len)\<rparr>"

definition same_range :: "flock \<Rightarrow> flock \<Rightarrow> bool" where
  "same_range l m \<longleftrightarrow> l_start l = l_start m \<and> l_len l = l_len m"

text \<open>
  The specification of a successful call on the recorded locks \<open>L\<close> of all forks: a lock that
  conflicts with none is added, a lock of the fork over the same range changes its type, or a
  lock of the fork over the range goes.
\<close>

inductive granted :: "int \<Rightarrow> flock \<Rightarrow> (int \<times> flock) multiset \<Rightarrow> (int \<times> flock) multiset \<Rightarrow> bool" for fork l where
  take: "taking l \<Longrightarrow> (\<forall>p \<in># L. lock_overlap l (snd p) \<longrightarrow> fst p \<noteq> fork \<and> l_type l = F_RDLCK \<and> l_type (snd p) = F_RDLCK) \<Longrightarrow>
    granted fork l L (add_mset (fork, l) L)"
| upgrade: "taking l \<Longrightarrow> same_range m l \<Longrightarrow>
    (\<forall>p \<in># L. lock_overlap l (snd p) \<longrightarrow> fst p \<noteq> fork \<and> l_type l = F_RDLCK \<and> l_type (snd p) = F_RDLCK) \<Longrightarrow>
    granted fork l (add_mset (fork, m) L) (add_mset (fork, l) L)"
| release: "l_type l = F_UNLCK \<Longrightarrow> same_range m l \<Longrightarrow> granted fork l (add_mset (fork, m) L) L"

lemma grantable_locks: "grantable es fork l \<longleftrightarrow>
    (\<forall>p \<in># mset (locks es). lock_overlap l (snd p) \<longrightarrow> fst p \<noteq> fork \<and> l_type l = F_RDLCK \<and> l_type (snd p) = F_RDLCK)"
  by (auto simp: grantable_def locks_def)

text \<open>The result of a call: the array is well-formed again, and a refused call has changed nothing.\<close>

definition lock_done :: "kernel \<Rightarrow> ad_fd \<Rightarrow> int \<Rightarrow> flock \<Rightarrow> lock_errno option \<times> kernel \<times> ad_fd \<Rightarrow> bool" where
  "lock_done k adf fork l r = (case r of (res, k', adf') \<Rightarrow>
     fd_ok k' adf' \<and> frame (adf_fd adf) k k' \<and> adf_fd adf' = adf_fd adf \<and> adf_rdwr adf' = adf_rdwr adf \<and>
     (res = None \<longrightarrow> granted fork l (mset (locks (adf_lock adf))) (mset (locks (adf_lock adf')))) \<and>
     (res \<noteq> None \<longrightarrow> adf' = adf \<and> (\<forall>x \<le> LOCK_TOP. held k' (adf_fd adf) x = held k (adf_fd adf) x)))"

lemma lock_done_refused: "fd_ok k adf \<Longrightarrow> lock_done k adf fork l (Some e, k, adf)"
  by (simp add: lock_done_def)

lemma release_done:
  assumes "fd_ok k adf" "releases os" "i < length (adf_lock adf)" "adf_user (adf_lock adf ! i) = fork"
    and "same_range (adf_flock (adf_lock adf ! i)) l" "l_type l = F_UNLCK"
  shows "lock_done k adf fork l (None, adf_freelock os k adf i)"
proof -
  obtain k' adf' where f: "adf_freelock os k adf i = (k', adf')" by (cases "adf_freelock os k adf i")
  note r = freelock_ok[OF assms(1,3,2) f]
  let ?L = "locks (adf_lock adf)"
  have i: "i < length ?L" "?L ! i = (fork, adf_flock (adf_lock adf ! i))" using assms(3,4) by (simp_all add: locks_def)
  have "mset ?L = add_mset (fork, adf_flock (adf_lock adf ! i)) (mset (locks (adf_lock adf')))"
    using arg_cong[OF id_take_nth_drop[OF i(1)], of mset] r(2) i(2) by simp
  then have "granted fork l (mset ?L) (mset (locks (adf_lock adf')))" using granted.release[OF assms(6,5)] by simp
  then show ?thesis using r f by (simp add: lock_done_def)
qed

lemma take_done:
  assumes "fd_ok k adf" "valid_lock l" "taking l" "grantable (adf_lock adf) fork l" "set_lock os k (adf_fd adf) l = (None, k1)"
    and "held k2 = held k1" "m > length (adf_lock adf)" "j = adf_lock_lower adf (l_start l) False"
    and "adf2 = adf\<lparr>adf_lockmax := m, adf_lock := take j (adf_lock adf) @ \<lparr>adf_flock = l, adf_user = fork, adf_reach = r\<rparr> # drop j (adf_lock adf)\<rparr>"
  shows "lock_done k adf fork l (None, k2, adf_lock_reach adf2 j)"
proof -
  let ?e = "\<lparr>adf_flock = l, adf_user = fork, adf_reach = r\<rparr>"
  let ?es = "adf_lock adf"
  have ok: "array_ok ?es" using assms(1) by (simp add: fd_ok_def)
  note lo = lower_start[OF array_okD(1)[OF ok], where t = "l_start l", folded assms(8)]
  have es2: "adf_lock adf2 = take j ?es @ ?e # drop j ?es" by (simp add: assms(9))
  note ins = insert_entry[OF ok assms(2-4) lo(2) lo(3) lo(1) es2]
  note fx = adf_lock_reach_fix[OF ins(2,3)]
  have s: "set (take j ?es @ ?e # drop j ?es) = insert ?e (set ?es)"
    using arg_cong[OF append_take_drop_id[of j ?es], of set] unfolding set_append list.set by blast
  have "holds_exactly (take j ?es @ ?e # drop j ?es) (held k1 (adf_fd adf))" if "adf_fd adf \<noteq> AD_SYMLINK"
    using take_holds[OF _ array_okD(2)[OF ok] assms(2-4) s] assms(1) that set_lock_cases(1)[OF that assms(5)]
    by (simp add: fd_ok_def)
  then have "fd_ok k2 (adf_lock_reach adf2 j)"
    using ins(1) fx es2 assms(6,7,9) lo(1) by (simp add: fd_ok_def)
  moreover have "mset (locks (adf_lock (adf_lock_reach adf2 j))) = add_mset (fork, l) (mset (locks ?es))"
    using arg_cong[OF append_take_drop_id[of j "locks ?es"], of mset] by (simp add: fx es2 locks_take del: append_take_drop_id)
  then have "granted fork l (mset (locks ?es)) (mset (locks (adf_lock (adf_lock_reach adf2 j))))"
    using granted.take[OF assms(3)] assms(4) unfolding grantable_locks by simp
  ultimately show ?thesis using set_lock_frame[OF assms(5)] assms(6,9) by (simp add: lock_done_def frame_def)
qed

lemma upgrade_done:
  assumes "fd_ok k adf" "valid_lock l" "taking l" "set_lock os k (adf_fd adf) l = (None, k1)"
    and "i < length (adf_lock adf)" "adf_user (adf_lock adf ! i) = fork" "same_range (adf_flock (adf_lock adf ! i)) l"
    and "\<And>e. e \<in> set (adf_lock adf) \<Longrightarrow> adf_user e \<noteq> fork \<Longrightarrow> lock_overlap l (adf_flock e) \<Longrightarrow> l_type l = F_RDLCK \<and> l_type (adf_flock e) = F_RDLCK"
  shows "lock_done k adf fork l (None, k1, adf\<lparr>adf_lock := (adf_lock adf)[i := (adf_lock adf ! i)\<lparr>adf_flock := l\<rparr>]\<rparr>)"
proof -
  let ?es = "adf_lock adf" and ?L = "locks (adf_lock adf)"
  let ?es' = "?es[i := (?es ! i)\<lparr>adf_flock := l\<rparr>]"
  have ok: "array_ok ?es" using assms(1) by (simp add: fd_ok_def)
  have r: "l_start l = l_first (?es ! i)" "l_len l = l_len (adf_flock (?es ! i))" using assms(7) by (simp_all add: same_range_def)
  note u = upgrade_entry[OF ok assms(5,3) r _ refl, unfolded assms(6), OF assms(8)]
  have "holds_exactly ?es' (held k1 (adf_fd adf))" if "adf_fd adf \<noteq> AD_SYMLINK"
    using upgrade_holds[OF _ ok assms(5,2,3) r u(2)] assms(1) that set_lock_cases(1)[OF that assms(4)]
    by (simp add: fd_ok_def)
  then have "fd_ok k1 (adf\<lparr>adf_lock := ?es'\<rparr>)" using u(1) assms(1) by (simp add: fd_ok_def)
  moreover have "granted fork l (mset ?L) (mset (locks ?es'))"
  proof -
    let ?M = "mset (locks (take i ?es @ drop (Suc i) ?es))"
    have i: "i < length ?L" "?L ! i = (fork, adf_flock (?es ! i))" using assms(5,6) by (simp_all add: locks_def)
    have "mset ?L = add_mset (fork, adf_flock (?es ! i)) ?M"
      using arg_cong[OF id_take_nth_drop[OF i(1)], of mset] i(2) by (simp add: locks_take)
    moreover have "mset (locks ?es') = add_mset (fork, l) ?M"
      unfolding upd_conv_take_nth_drop[OF assms(5)] using assms(6) by simp
    ultimately show ?thesis using granted.upgrade[OF assms(3,7) u(2)[unfolded grantable_locks]] by simp
  qed
  ultimately show ?thesis using set_lock_frame[OF assms(4)] by (simp add: lock_done_def)
qed

lemma nomem_done:
  assumes "fd_ok k adf" "valid_lock l" "taking l" "grantable (adf_lock adf) fork l" "set_lock os k (adf_fd adf) l = (None, k1)"
    and "held k2 = held k1" "releases os"
  shows "lock_done k adf fork l (Some ENOMEM, snd (adf_lock_gaps os k2 adf (l\<lparr>l_type := F_UNLCK\<rparr>)), adf)"
proof -
  let ?es = "adf_lock adf" and ?u = "l\<lparr>l_type := F_UNLCK\<rparr>"
  have ok: "array_ok ?es" using assms(1) by (simp add: fd_ok_def)
  obtain ret k3 where g: "adf_lock_gaps os k2 adf ?u = (ret, k3)" by (cases "adf_lock_gaps os k2 adf ?u")
  have v: "valid_lock ?u" using assms(2) by (simp add: valid_lock_def)
  note r = release_gaps[OF array_okD(6)[OF ok] v assms(7) _ g]
  have h: "held k3 (adf_fd adf) x = held k (adf_fd adf) x" if "x \<le> LOCK_TOP" for x
  proof (cases "adf_fd adf = AD_SYMLINK")
    case True
    then have "k1 = k" "k3 = k2" using assms(5) set_lock_symlink adf_lock_gaps_symlink[OF True] g by auto
    then show ?thesis using assms(6) by simp
  next
    case False
    have "stretched ?u ?es (l_start l) (adf_lock_last (l_start l) (l_len l)) (k_setlk (held k (adf_fd adf)) l) (held k3 (adf_fd adf))"
      using r(3) False assms(6) set_lock_cases(1)[OF False assms(5)] by simp
    moreover have "holds_exactly ?es (held k (adf_fd adf))" using assms(1) False by (simp add: fd_ok_def)
    ultimately show ?thesis using undo_holds[OF _ array_okD(2)[OF ok] assms(2-4) _ _ that, of _ ?u] by simp
  qed
  then have "fd_ok k3 adf" using assms(1) holds_cong[of "held k3 (adf_fd adf)" "held k (adf_fd adf)"] by (auto simp: fd_ok_def)
  moreover have "frame (adf_fd adf) k k3"
    using frame_trans[OF set_lock_frame[OF assms(5)], of k3] r(2) assms(6) by (simp add: frame_def)
  ultimately show ?thesis using h g by (simp add: lock_done_def)
qed

text \<open>The part of a call after the range has passed its checks.\<close>

lemma lock_fd_checked:
  assumes "l = requested adf locktype off shift len" "type = degrade adf locktype"
    and "0 \<le> off" "off \<le> LOCK_TOP - shift" "0 < l_len l" "adf_lock_fits (l_start l) (l_len l)"
    and "i = adf_findlock adf fork (ADLOCK_RD OR ADLOCK_WR) (l_start l) (l_len l)"
    and "x = adf_findxlock adf fork (ADLOCK_WR OR (if type AND ADLOCK_WR \<noteq> 0 then ADLOCK_RD else 0)) (l_start l) (l_len l)"
    and "lock_fd os k adf locktype off shift len fork = r"
  shows "l_type l \<noteq> F_UNLCK \<Longrightarrow> x \<noteq> None \<Longrightarrow> r = (Some EACCES, k, adf)"
    "l_type l = F_UNLCK \<Longrightarrow> i = None \<Longrightarrow> r = (Some EINVAL, k, adf)"
    "l_type l = F_UNLCK \<Longrightarrow> i = Some j \<Longrightarrow>
       r = (if same_range (adf_flock (adf_lock adf ! j)) l then (None, adf_freelock os k adf j) else (Some EINVAL, k, adf))"
    "l_type l \<noteq> F_UNLCK \<Longrightarrow> x = None \<Longrightarrow> i = Some j \<Longrightarrow>
       r = (if same_range (adf_flock (adf_lock adf ! j)) l \<and> type AND ADLOCK_UPGRADE \<noteq> 0
            then (case set_lock os k (adf_fd adf) l of
                    (Some e, k) \<Rightarrow> (Some e, k, adf)
                  | (None, k) \<Rightarrow> (None, k, adf\<lparr>adf_lock := (adf_lock adf)[j := (adf_lock adf ! j)\<lparr>adf_flock := l\<rparr>]\<rparr>))
            else (Some EINVAL, k, adf))"
    "l_type l \<noteq> F_UNLCK \<Longrightarrow> x = None \<Longrightarrow> i = None \<Longrightarrow> set_lock os k (adf_fd adf) l = (Some e, k1) \<Longrightarrow> r = (Some e, k1, adf)"
    "l_type l \<noteq> F_UNLCK \<Longrightarrow> x = None \<Longrightarrow> i = None \<Longrightarrow> set_lock os k (adf_fd adf) l = (None, k1) \<Longrightarrow>
       r = (if adf_lockmax adf = length (adf_lock adf) \<and> \<not> realloc_ok os (calls k1)
            then (Some ENOMEM, snd (adf_lock_gaps os (k1\<lparr>calls := Suc (calls k1)\<rparr>) adf (l\<lparr>l_type := F_UNLCK\<rparr>)), adf)
            else (None, if adf_lockmax adf = length (adf_lock adf) then k1\<lparr>calls := Suc (calls k1)\<rparr> else k1,
              adf_lock_reach (adf\<lparr>adf_lockmax := (if adf_lockmax adf = length (adf_lock adf) then adf_lockmax adf + ARRAY_BLOCK_SIZE else adf_lockmax adf),
                adf_lock := take (adf_lock_lower adf (l_start l) False) (adf_lock adf) @
                  \<lparr>adf_flock = l, adf_user = fork, adf_reach = 0\<rparr> # drop (adf_lock_lower adf (l_start l) False) (adf_lock adf)\<rparr>)
                (adf_lock_lower adf (l_start l) False)))"
proof -
  have l: "\<lparr>l_type = XLATE_FCNTL_LOCK (type AND ADLOCK_MASK), l_start = off + shift,
                  l_len = (if len = BYTELOCK_MAX then len - (off + shift) else len)\<rparr> = l"
    by (simp add: assms(1,2) requested_def)
  have low: "adf_lock_lower (adf\<lparr>adf_lockmax := m\<rparr>) t b = adf_lock_lower adf t b" for m t b by (simp add: adf_lock_lower_def)
  have g: "\<not> (off < 0 \<or> off > LOCK_TOP - shift)" "\<not> l_len l \<le> 0" using assms(3-5) by simp_all
  note u = assms(9)[symmetric, unfolded lock_fd_def assms(2)[symmetric] Let_def l assms(7)[symmetric] assms(8)[symmetric]]
  show "l_type l \<noteq> F_UNLCK \<Longrightarrow> x \<noteq> None \<Longrightarrow> r = (Some EACCES, k, adf)"
    "l_type l = F_UNLCK \<Longrightarrow> i = None \<Longrightarrow> r = (Some EINVAL, k, adf)"
    unfolding u using g assms(6) by simp_all
  show "l_type l = F_UNLCK \<Longrightarrow> i = Some j \<Longrightarrow>
       r = (if same_range (adf_flock (adf_lock adf ! j)) l then (None, adf_freelock os k adf j) else (Some EINVAL, k, adf))"
    unfolding u using g assms(6) by (simp add: same_range_def split: prod.split)
  show "l_type l \<noteq> F_UNLCK \<Longrightarrow> x = None \<Longrightarrow> i = Some j \<Longrightarrow>
       r = (if same_range (adf_flock (adf_lock adf ! j)) l \<and> type AND ADLOCK_UPGRADE \<noteq> 0
            then (case set_lock os k (adf_fd adf) l of
                    (Some e, k) \<Rightarrow> (Some e, k, adf)
                  | (None, k) \<Rightarrow> (None, k, adf\<lparr>adf_lock := (adf_lock adf)[j := (adf_lock adf ! j)\<lparr>adf_flock := l\<rparr>]\<rparr>))
            else (Some EINVAL, k, adf))"
    unfolding u using g assms(6) by (simp add: same_range_def split: prod.split option.split)
  show "l_type l \<noteq> F_UNLCK \<Longrightarrow> x = None \<Longrightarrow> i = None \<Longrightarrow> set_lock os k (adf_fd adf) l = (Some e, k1) \<Longrightarrow> r = (Some e, k1, adf)"
    unfolding u using g assms(6) by simp
  show "l_type l \<noteq> F_UNLCK \<Longrightarrow> x = None \<Longrightarrow> i = None \<Longrightarrow> set_lock os k (adf_fd adf) l = (None, k1) \<Longrightarrow>
       r = (if adf_lockmax adf = length (adf_lock adf) \<and> \<not> realloc_ok os (calls k1)
            then (Some ENOMEM, snd (adf_lock_gaps os (k1\<lparr>calls := Suc (calls k1)\<rparr>) adf (l\<lparr>l_type := F_UNLCK\<rparr>)), adf)
            else (None, if adf_lockmax adf = length (adf_lock adf) then k1\<lparr>calls := Suc (calls k1)\<rparr> else k1,
              adf_lock_reach (adf\<lparr>adf_lockmax := (if adf_lockmax adf = length (adf_lock adf) then adf_lockmax adf + ARRAY_BLOCK_SIZE else adf_lockmax adf),
                adf_lock := take (adf_lock_lower adf (l_start l) False) (adf_lock adf) @
                  \<lparr>adf_flock = l, adf_user = fork, adf_reach = 0\<rparr> # drop (adf_lock_lower adf (l_start l) False) (adf_lock adf)\<rparr>)
                (adf_lock_lower adf (l_start l) False)))"
    unfolding u using g assms(6) by (simp add: realloc_def low)
qed

lemma denied_done:
  assumes "fd_ok k adf" "set_lock os k (adf_fd adf) l = (Some e, k1)"
  shows "lock_done k adf fork l (Some e, k1, adf)"
proof -
  have "held k1 = held k" using assms(2) set_lock_cases(2)[of "adf_fd adf"] set_lock_symlink[of os k l] by (cases "adf_fd adf = AD_SYMLINK") auto
  then show ?thesis using assms(1) by (simp add: lock_done_def fd_ok_def frame_def)
qed

lemma fd_ok_room: "fd_ok k adf \<Longrightarrow> length (adf_lock adf) \<le> adf_lockmax adf"
  by (simp add: fd_ok_def)

lemma lock_fd_done:
  assumes "fd_ok k adf" "releases os" "locktype AND ADLOCK_MASK \<noteq> ADLOCK_MASK" "0 \<le> shift"
  shows "lock_done k adf fork (requested adf locktype off shift len) (lock_fd os k adf locktype off shift len fork)"
proof -
  define type where "type = degrade adf locktype"
  define l where "l = requested adf locktype off shift len"
  define i where "i = adf_findlock adf fork (ADLOCK_RD OR ADLOCK_WR) (l_start l) (l_len l)"
  define x where "x = adf_findxlock adf fork (ADLOCK_WR OR (if type AND ADLOCK_WR \<noteq> 0 then ADLOCK_RD else 0)) (l_start l) (l_len l)"
  have l: "\<lparr>l_type = XLATE_FCNTL_LOCK (type AND ADLOCK_MASK), l_start = off + shift,
                  l_len = (if len = BYTELOCK_MAX then len - (off + shift) else len)\<rparr> = l"
    by (simp add: l_def requested_def type_def)
  have ty: "l_type l = F_UNLCK \<or> taking l" "type AND ADLOCK_WR \<noteq> 0 \<longleftrightarrow> l_type l = F_WRLCK"
    using request_type[OF assms(3) type_def] by (simp_all add: l_def requested_def type_def)
  have ok: "array_ok (adf_lock adf)" using assms(1) by (simp add: fd_ok_def)
  note refused = lock_done_refused[OF assms(1)]
  have "lock_done k adf fork l (lock_fd os k adf locktype off shift len fork)"
  proof (cases "off < 0 \<or> off > LOCK_TOP - shift \<or> l_len l \<le> 0 \<or> \<not> adf_lock_fits (l_start l) (l_len l)")
    case True
    then have "\<exists>e. lock_fd os k adf locktype off shift len fork = (Some e, k, adf)"
      unfolding lock_fd_def type_def[symmetric] Let_def l
      by (cases "off < 0 \<or> off > LOCK_TOP - shift"; cases "l_len l \<le> 0") simp_all
    then show ?thesis using refused by auto
  next
    case False
    then have v: "valid_lock l" and b: "0 \<le> off" "off \<le> LOCK_TOP - shift" "0 < l_len l" "adf_lock_fits (l_start l) (l_len l)"
      using assms(4) by (auto simp: valid_lock_def l_def requested_def adf_lock_fits_def split: if_splits)
    note c = lock_fd_checked[OF l_def type_def b i_def x_def refl, where os = os and k = k]
    note own = findlock_some[OF ok v, where fork = fork and type = "ADLOCK_RD OR ADLOCK_WR", folded i_def]
    show ?thesis
    proof (cases "l_type l = F_UNLCK")
      case U: True
      show ?thesis using c(2)[OF U] c(3)[OF U] refused release_done[OF assms(1,2) own(1) own(2) _ U] by (cases i) auto
    next
      case T: False
      then have tk: "taking l" using ty(1) by blast
      note others = findxlock_none[OF ok v tk ty(2), of fork, folded x_def]
      consider "x \<noteq> None" | j where "x = None" "i = Some j" | "x = None" "i = None" by auto
      then show ?thesis
      proof cases
        case 1
        then show ?thesis using c(1)[OF T] refused by simp
      next
        case 2
        obtain r k1 where s: "set_lock os k (adf_fd adf) l = (r, k1)" by (cases "set_lock os k (adf_fd adf) l")
        show ?thesis
          using c(4)[OF T 2] refused denied_done[OF assms(1)] s
            upgrade_done[OF assms(1) v tk _ own(1)[OF 2(2)] own(2)[OF 2(2)]] others 2(1) by (cases r) auto
      next
        case 3
        then have g: "grantable (adf_lock adf) fork l"
          using others findlock_none[OF ok v, of fork, folded i_def] unfolding grantable_def by auto
        obtain r k1 where s: "set_lock os k (adf_fd adf) l = (r, k1)" by (cases "set_lock os k (adf_fd adf) l")
        show ?thesis
        proof (cases r)
          case None
          have m: "length (adf_lock adf) < (if adf_lockmax adf = length (adf_lock adf) then adf_lockmax adf + ARRAY_BLOCK_SIZE else adf_lockmax adf)"
            using fd_ok_room[OF assms(1)] by (simp add: ARRAY_BLOCK_SIZE_def)
          show ?thesis unfolding c(6)[OF T 3 s[unfolded None]]
            using nomem_done[OF assms(1) v tk g s[unfolded None] _ assms(2), of "k1\<lparr>calls := Suc (calls k1)\<rparr>"]
              take_done[OF assms(1) v tk g s[unfolded None] _ m refl refl] by (cases "adf_lockmax adf = length (adf_lock adf) \<and> \<not> realloc_ok os (calls k1)") (simp_all only: if_P if_not_P, simp_all)
        next
          case (Some e)
          then show ?thesis using c(5)[OF T 3] denied_done[OF assms(1)] s by simp
        qed
      qed
    qed
  qed
  then show ?thesis by (simp add: l_def)
qed

end
