(* ===== verification/Ad_Lock_File.thy ===== *)
theory Ad_Lock_File
  imports Ad_Lock_Fd Transitions
begin

text \<open>
  The locks of an open file, over all its operations: the releases of a closing fork, temporary
  locks, and the steps of a session from the opened file on, with the invariant they keep.
\<close>

subsection \<open>Releasing the locks of a fork\<close>

lemma unlock_loop_ok:
  assumes "fd_ok k adf" "n \<le> length (adf_lock adf)" "releases os" "unlock_loop os k adf fork n = (k', adf')"
  shows "fd_ok k' adf' \<and> frame (adf_fd adf) k k' \<and> adf_fd adf' = adf_fd adf \<and> adf_rdwr adf' = adf_rdwr adf \<and>
    locks (adf_lock adf') = filter (\<lambda>p. fst p \<noteq> fork) (take n (locks (adf_lock adf))) @ drop n (locks (adf_lock adf))"
  using assms
proof (induction n arbitrary: k adf)
  case (Suc i)
  let ?L = "locks (adf_lock adf)"
  have i: "i < length ?L" "i < length (adf_lock adf)" using Suc.prems(2) by (simp_all add: locks_def)
  have u: "fst (?L ! i) = adf_user (adf_lock adf ! i)" using i by (simp add: locks_def)
  note tk = take_Suc_conv_app_nth[OF i(1)] and dr = Cons_nth_drop_Suc[OF i(1)]
  show ?case
  proof (cases "adf_user (adf_lock adf ! i) = fork")
    case True
    obtain k1 a1 where f: "adf_freelock os k adf i = (k1, a1)" by (cases "adf_freelock os k adf i")
    note r = freelock_ok[OF Suc.prems(1) i(2) Suc.prems(3) f]
    have "length (adf_lock a1) = length (adf_lock adf) - 1" using arg_cong[OF r(2), of length] i by (simp add: locks_def)
    then have "i \<le> length (adf_lock a1)" using i by simp
    from Suc.IH[OF r(1) this Suc.prems(3)] have "fd_ok k' adf' \<and> frame (adf_fd a1) k1 k' \<and> adf_fd adf' = adf_fd a1 \<and>
        adf_rdwr adf' = adf_rdwr a1 \<and> locks (adf_lock adf') = filter (\<lambda>p. fst p \<noteq> fork) (take i (locks (adf_lock a1))) @ drop i (locks (adf_lock a1))"
      using Suc.prems(4) True f by simp
    then show ?thesis using r i True u unfolding tk by (auto simp: frame_def)
  next
    case False
    have "unlock_loop os k adf fork i = (k', adf')" using Suc.prems(4) False by simp
    then show ?thesis using Suc.IH[OF Suc.prems(1) _ Suc.prems(3)] i False u unfolding tk dr[symmetric] by auto
  qed
qed simp

lemma adf_unlock_ok:
  assumes "fd_ok k adf" "releases os" "adf_unlock os k adf fork = (k', adf')"
  shows "fd_ok k' adf'" "frame (adf_fd adf) k k'" "adf_fd adf' = adf_fd adf"
    "locks (adf_lock adf') = filter (\<lambda>p. fst p \<noteq> fork) (locks (adf_lock adf))"
  using unlock_loop_ok[OF assms(1) order_refl assms(2)] assms(3) by (simp_all add: adf_unlock_def locks_parts(2))

lemma free_loop_ok:
  assumes "fd_ok k adf" "n \<le> length (adf_lock adf)" "releases os" "free_loop os k adf n = (k', adf')"
  shows "fd_ok k' adf' \<and> frame (adf_fd adf) k k' \<and> adf_fd adf' = adf_fd adf \<and> locks (adf_lock adf') = drop n (locks (adf_lock adf))"
  using assms
proof (induction n arbitrary: k adf)
  case (Suc i)
  let ?L = "locks (adf_lock adf)"
  have i: "i < length ?L" "i < length (adf_lock adf)" using Suc.prems(2) by (simp_all add: locks_def)
  obtain k1 a1 where f: "adf_freelock os k adf i = (k1, a1)" by (cases "adf_freelock os k adf i")
  note r = freelock_ok[OF Suc.prems(1) i(2) Suc.prems(3) f]
  have "length (adf_lock a1) = length (adf_lock adf) - 1" using arg_cong[OF r(2), of length] i by (simp add: locks_def)
  then have "i \<le> length (adf_lock a1)" using i by simp
  from Suc.IH[OF r(1) this Suc.prems(3)] show ?case using r f Suc.prems(4) i by (auto simp: frame_def)
qed simp

subsection \<open>Temporary locks\<close>

text \<open>On all descriptors the bytes are held as before.\<close>

definition same_held :: "kernel \<Rightarrow> kernel \<Rightarrow> bool" where
  "same_held k k' \<longleftrightarrow> (\<forall>fd. \<forall>x \<le> LOCK_TOP. held k' fd x = held k fd x)"

lemma same_heldI: "frame fd k k' \<Longrightarrow> (\<And>x. x \<le> LOCK_TOP \<Longrightarrow> held k' fd x = held k fd x) \<Longrightarrow> same_held k k'"
  by (metis frame_def same_held_def)

lemma fd_ok_same: "same_held k k' \<Longrightarrow> fd_ok k adf \<Longrightarrow> fd_ok k' adf"
  by (auto simp: fd_ok_def same_held_def intro: holds_cong[of "held k' (adf_fd adf)" "held k (adf_fd adf)"])

text \<open>Bytes that no entry covers are free, so freeing some of them once more changes nothing.\<close>

lemma freed_same:
  assumes "holds_exactly es h" "stretched r es a b h h1" "stretched u es a b h1 h2" "l_type u = F_UNLCK" "x \<le> LOCK_TOP"
  shows "h2 x = h x"
  using assms(1)[unfolded holds_exactly_def, rule_format, OF assms(5)] assms(2,3)[unfolded stretched_def, rule_format, OF assms(5)] assms(4)
  by (auto simp: effect_def split: if_splits)

lemma refused_same:
  assumes "holds_exactly es h" "stretched u es a b h h1" "l_type u = F_UNLCK" "x \<le> LOCK_TOP"
  shows "h1 x = h x"
  using assms(1)[unfolded holds_exactly_def, rule_format, OF assms(4)] assms(2)[unfolded stretched_def, rule_format, OF assms(4)] assms(3)
  by (auto simp: effect_def split: if_splits)

definition range_ok :: "flock \<Rightarrow> bool" where
  "range_ok l \<longleftrightarrow> 0 \<le> l_start l \<and> l_start l \<le> adf_lock_last (l_start l) (l_len l) \<and> adf_lock_last (l_start l) (l_len l) \<le> LOCK_TOP"

lemma gaps_refused_same:
  assumes "fd_ok k adf" "releases os" "range_ok r" "adf_lock_gaps os k adf r = (Some e, k1)"
  shows "same_held k k1"
proof (cases "adf_fd adf = AD_SYMLINK")
  case True
  then show ?thesis using assms(4) adf_lock_gaps_symlink[OF True] by simp
next
  case False
  have t: "table_ok (adf_lock adf)" "holds_exactly (adf_lock adf) (held k (adf_fd adf))"
    using assms(1) False by (simp_all add: fd_ok_def array_ok_def)
  have r: "0 \<le> l_start r" "adf_lock_last (l_start r) (l_len r) \<le> LOCK_TOP" "l_start r \<le> adf_lock_last (l_start r) (l_len r)"
    using assms(3) by (simp_all add: range_ok_def)
  note g = adf_lock_gaps_spec[OF t(1) r(1) False assms(2) refl r(2,3) assms(4)]
  obtain d where "stretched (r\<lparr>l_type := F_UNLCK\<rparr>) (adf_lock adf) (l_start r) d (held k (adf_fd adf)) (held k1 (adf_fd adf))"
    using g(1) by (auto simp: outcome_def)
  then show ?thesis using refused_same[OF t(2)] g(2) by (intro same_heldI[of "adf_fd adf"]) (auto simp: frame_def)
qed

lemma gaps_bracket_same:
  assumes "fd_ok k adf" "releases os" "range_ok r" "adf_lock_gaps os k adf r = (None, k1)"
    and "same_range u r" "l_type u = F_UNLCK" "adf_lock_gaps os k1 adf u = (res, k2)"
  shows "res = None" "same_held k k2"
proof -
  have "res = None \<and> same_held k k2"
  proof (cases "adf_fd adf = AD_SYMLINK")
    case True
    then show ?thesis using assms(4,7) adf_lock_gaps_symlink[OF True] by (simp add: same_held_def)
  next
    case False
    have t: "table_ok (adf_lock adf)" "holds_exactly (adf_lock adf) (held k (adf_fd adf))"
      using assms(1) False by (simp_all add: fd_ok_def array_ok_def)
    have r: "0 \<le> l_start r" "adf_lock_last (l_start r) (l_len r) \<le> LOCK_TOP" "l_start r \<le> adf_lock_last (l_start r) (l_len r)"
      using assms(3) by (simp_all add: range_ok_def)
    have u: "l_start u = l_start r" "l_len u = l_len r" using assms(5) by (simp_all add: same_range_def)
    note g = adf_lock_gaps_spec[OF t(1) r(1) False assms(2) refl r(2,3) assms(4)]
    note h = adf_lock_gaps_spec[OF t(1) _ False assms(2) _ _ _ assms(7), unfolded u, OF r(1) refl r(2,3)]
    have n: "res = None" using h(1) assms(6) by (auto simp: outcome_def)
    have "held k2 (adf_fd adf) x = held k (adf_fd adf) x" if "x \<le> LOCK_TOP" for x
      using freed_same[OF t(2) _ _ assms(6) that] g(1) h(1) n u by (simp add: outcome_def)
    then show ?thesis using n g(2) h(2) by (intro conjI same_heldI[of "adf_fd adf"]) (auto simp: frame_def)
  qed
  then show "res = None" "same_held k k2" by simp_all
qed

lemma tmplock_fd_same:
  assumes "fd_ok k adf" "releases os" "0 \<le> shift" "tmplock_fd os k adf locktype off shift len fork = (res, k1)"
  shows "res \<noteq> None \<Longrightarrow> same_held k k1"
    "res = None \<Longrightarrow> type' AND ADLOCK_MASK = 0 \<Longrightarrow> tmplock_fd os k1 adf type' off shift len fork' = (res', k2) \<Longrightarrow>
     res' = None \<and> same_held k k2"
proof -
  define r where "r = \<lparr>l_type = XLATE_FCNTL_LOCK (degrade adf locktype AND ADLOCK_MASK), l_start = off + shift, l_len = len\<rparr>"
  define u where "u = \<lparr>l_type = XLATE_FCNTL_LOCK (degrade adf type' AND ADLOCK_MASK), l_start = off + shift, l_len = len\<rparr>"
  let ?bad = "off < 0 \<or> off > LOCK_TOP - shift \<or> len < 0 \<or> (len > 0 \<and> \<not> adf_lock_fits (off + shift) len)"
  have ok: "range_ok r" if "\<not> ?bad" using that assms(3) by (auto simp: range_ok_def r_def adf_lock_last_def adf_lock_fits_def)
  have call: "(res = None \<longrightarrow> \<not> ?bad \<and> adf_lock_gaps os k adf r = (res, k1)) \<and>
      (res \<noteq> None \<longrightarrow> k1 = k \<or> (\<not> ?bad \<and> adf_lock_gaps os k adf r = (res, k1)))"
    using assms(4) unfolding tmplock_fd_def r_def[symmetric] Let_def by (auto simp: r_def split: if_splits)
  show "same_held k k1" if "res \<noteq> None"
    using call that gaps_refused_same[OF assms(1,2) ok] by (cases res) (auto simp: same_held_def)
  assume n: "res = None" and u': "type' AND ADLOCK_MASK = 0" and t: "tmplock_fd os k1 adf type' off shift len fork' = (res', k2)"
  have "type' AND 3 = 0" using u' by (simp add: adlock_bits)
  then have "\<not> bit type' 0" "\<not> bit type' (Suc 0)" unfolding and_three by (auto split: if_splits simp: of_bool_def)
  then have "degrade adf type' AND ADLOCK_MASK = 0" by (simp add: adlock_bits and_three degrade_bits)
  then have ul: "l_type u = F_UNLCK" by (simp add: u_def XLATE_FCNTL_LOCK_def adlock_bits)
  have nb: "\<not> ?bad" and g: "adf_lock_gaps os k adf r = (None, k1)" using call n by auto
  have "adf_lock_gaps os k1 adf u = (res', k2)"
    using t nb ul unfolding tmplock_fd_def u_def[symmetric] Let_def by (auto simp: u_def)
  from gaps_bracket_same[OF assms(1,2) ok[OF nb] g _ ul this] show "res' = None \<and> same_held k k2"
    by (simp add: same_range_def u_def r_def)
qed

subsection \<open>The file and its steps\<close>

text \<open>
  An open file: both descriptors are well-formed, the two forks are open on different descriptors
  unless the file is a symbolic link, and the resource fork starts at an offset from 0.
\<close>

definition ad_ok :: "kernel \<Rightarrow> adouble \<Rightarrow> bool" where
  "ad_ok k ad \<longleftrightarrow> fd_ok k (ad_data_fork ad) \<and> fd_ok k (ad_rfp ad) \<and>
     (adf_fd (ad_data_fork ad) = adf_fd (ad_rfp ad) \<longrightarrow> adf_fd (ad_rfp ad) = AD_SYMLINK) \<and> 0 \<le> ad_entryoff ad"

text \<open>The descriptor that a call works on, the offset within it and the shift.\<close>

definition chosen :: "bool \<Rightarrow> 32 word \<Rightarrow> adouble \<Rightarrow> ad_fd" where
  "chosen dfork locktype ad = (if dfork \<or> locktype AND ADLOCK_FILELOCK \<noteq> 0 then ad_data_fork ad else ad_rfp ad)"

definition unchosen :: "bool \<Rightarrow> 32 word \<Rightarrow> adouble \<Rightarrow> ad_fd" where
  "unchosen dfork locktype ad = (if dfork \<or> locktype AND ADLOCK_FILELOCK \<noteq> 0 then ad_rfp ad else ad_data_fork ad)"

definition lock_wanted :: "adouble \<Rightarrow> bool \<Rightarrow> 32 word \<Rightarrow> int \<Rightarrow> int \<Rightarrow> flock" where
  "lock_wanted ad dfork locktype off len =
     (if dfork then requested (ad_data_fork ad) locktype off 0 len
      else if locktype AND ADLOCK_FILELOCK \<noteq> 0 then requested (ad_data_fork ad) locktype (rf2off off) 0 len
      else requested (ad_rfp ad) locktype off (ad_entryoff ad) len)"

lemma fd_ok_frame_sym:
  assumes "fd_ok k adf" "frame fd k k'" "fd = adf_fd adf \<longrightarrow> adf_fd adf = AD_SYMLINK"
  shows "fd_ok k' adf"
  using assms by (auto simp: fd_ok_def frame_def)

lemma ad_lock_done:
  assumes "ad_ok k ad" "releases os" "locktype AND ADLOCK_MASK \<noteq> ADLOCK_MASK"
    and "ad_lock os k ad dfork locktype off len fork = Some (e, k', ad')"
  shows "lock_done k (chosen dfork locktype ad) fork (lock_wanted ad dfork locktype off len) (e, k', chosen dfork locktype ad')"
    "unchosen dfork locktype ad' = unchosen dfork locktype ad" "e \<noteq> None \<Longrightarrow> ad' = ad" "ad_ok k' ad'"
proof -
  define off' shift where "off' = (if dfork \<or> locktype AND ADLOCK_FILELOCK = 0 then off else rf2off off)"
    and "shift = (if dfork \<or> locktype AND ADLOCK_FILELOCK \<noteq> 0 then 0 else ad_entryoff ad)"
  let ?c = "chosen dfork locktype ad"
  obtain a where c: "lock_fd os k ?c locktype off' shift len fork = (e, k', a)"
      "ad' = (if dfork \<or> locktype AND ADLOCK_FILELOCK \<noteq> 0 then ad\<lparr>ad_data_fork := a\<rparr> else ad\<lparr>ad_rfp := a\<rparr>)"
    using assms(4) unfolding ad_lock_def chosen_def off'_def shift_def
    by (cases dfork; cases "locktype AND ADLOCK_FILELOCK = 0") (auto split: if_splits prod.splits)
  have w: "lock_wanted ad dfork locktype off len = requested ?c locktype off' shift len"
    by (simp add: lock_wanted_def chosen_def off'_def shift_def)
  have "fd_ok k ?c" "0 \<le> shift" using assms(1) by (simp_all add: ad_ok_def chosen_def shift_def)
  then have ld: "lock_done k ?c fork (lock_wanted ad dfork locktype off len) (e, k', a)"
    using lock_fd_done[OF _ assms(2,3), of k ?c shift fork off' len] c(1) w by simp
  have a: "chosen dfork locktype ad' = a" "unchosen dfork locktype ad' = unchosen dfork locktype ad" "ad_entryoff ad' = ad_entryoff ad"
    using c(2) by (simp_all add: chosen_def unchosen_def)
  have "ad' = ad" if "a = ?c" using c(2) that by (simp add: chosen_def)
  then have all: "lock_done k ?c fork (lock_wanted ad dfork locktype off len) (e, k', chosen dfork locktype ad') \<and>
    unchosen dfork locktype ad' = unchosen dfork locktype ad \<and> (e \<noteq> None \<longrightarrow> ad' = ad) \<and> ad_entryoff ad' = ad_entryoff ad"
    using ld a by (simp add: lock_done_def)
  then show "lock_done k (chosen dfork locktype ad) fork (lock_wanted ad dfork locktype off len) (e, k', chosen dfork locktype ad')"
    "unchosen dfork locktype ad' = unchosen dfork locktype ad" "e \<noteq> None \<Longrightarrow> ad' = ad" by auto
  have "fd_ok k' (unchosen dfork locktype ad)"
    by (rule fd_ok_frame_sym[of k _ "adf_fd (chosen dfork locktype ad)"])
      (use all assms(1) in \<open>auto simp: lock_done_def ad_ok_def chosen_def unchosen_def\<close>)
  then show "ad_ok k' ad'" using all assms(1) by (auto simp: lock_done_def ad_ok_def chosen_def unchosen_def split: if_splits)
qed

lemma ad_unlock_done:
  assumes "ad_ok k ad" "releases os" "ad_unlock os k ad fork = (k', ad')"
  shows "ad_ok k' ad'"
    "adf_fd (ad_data_fork ad) \<noteq> -1 \<Longrightarrow> locks (adf_lock (ad_data_fork ad')) = filter (\<lambda>p. fst p \<noteq> fork) (locks (adf_lock (ad_data_fork ad)))"
    "adf_fd (ad_rfp ad) \<noteq> -1 \<Longrightarrow> locks (adf_lock (ad_rfp ad')) = filter (\<lambda>p. fst p \<noteq> fork) (locks (adf_lock (ad_rfp ad)))"
proof -
  let ?d = "ad_data_fork ad" and ?r = "ad_rfp ad"
  have ok: "fd_ok k ?d" "fd_ok k ?r" and df: "adf_fd ?d = adf_fd ?r \<longrightarrow> adf_fd ?r = AD_SYMLINK" and en: "0 \<le> ad_entryoff ad"
    using assms(1) by (simp_all add: ad_ok_def)
  define k1 d1 where "k1 = (if adf_fd ?d \<noteq> -1 then fst (adf_unlock os k ?d fork) else k)"
    and "d1 = (if adf_fd ?d \<noteq> -1 then snd (adf_unlock os k ?d fork) else ?d)"
  define k2 r1 where "k2 = (if adf_fd ?r \<noteq> -1 then fst (adf_unlock os k1 ?r fork) else k1)"
    and "r1 = (if adf_fd ?r \<noteq> -1 then snd (adf_unlock os k1 ?r fork) else ?r)"
  have res: "k' = k2" "ad' = ad\<lparr>ad_data_fork := d1, ad_rfp := r1\<rparr>"
    using assms(3) unfolding ad_unlock_def k1_def d1_def k2_def r1_def by (auto split: prod.splits if_splits)
  have d: "fd_ok k1 d1" "frame (adf_fd ?d) k k1" "adf_fd d1 = adf_fd ?d"
    "adf_fd ?d \<noteq> -1 \<Longrightarrow> locks (adf_lock d1) = filter (\<lambda>p. fst p \<noteq> fork) (locks (adf_lock ?d))"
    using adf_unlock_ok[OF ok(1) assms(2), of fork k1 d1] ok(1) by (auto simp: k1_def d1_def split: if_splits)
  have r0: "fd_ok k1 ?r" by (rule fd_ok_frame_sym[OF ok(2) d(2)]) (use df in simp)
  have r: "fd_ok k2 r1" "frame (adf_fd ?r) k1 k2" "adf_fd r1 = adf_fd ?r"
    "adf_fd ?r \<noteq> -1 \<Longrightarrow> locks (adf_lock r1) = filter (\<lambda>p. fst p \<noteq> fork) (locks (adf_lock ?r))"
    using adf_unlock_ok[OF r0 assms(2), of fork k2 r1] r0 by (auto simp: k2_def r1_def split: if_splits)
  have "fd_ok k2 d1" by (rule fd_ok_frame_sym[OF d(1) r(2)]) (use df d(3) in auto)
  then show "ad_ok k' ad'" using r d df en res by (simp add: ad_ok_def)
  show "adf_fd ?d \<noteq> -1 \<Longrightarrow> locks (adf_lock (ad_data_fork ad')) = filter (\<lambda>p. fst p \<noteq> fork) (locks (adf_lock ?d))"
    "adf_fd ?r \<noteq> -1 \<Longrightarrow> locks (adf_lock (ad_rfp ad')) = filter (\<lambda>p. fst p \<noteq> fork) (locks (adf_lock ?r))" using res d(4) r(4) by simp_all
qed

lemma ad_tmplock_same:
  assumes "ad_ok k ad" "releases os" "ad_tmplock os k ad dfork locktype off len fork = (res, k1)"
  shows "res \<noteq> None \<Longrightarrow> same_held k k1"
    "res = None \<Longrightarrow> type' AND ADLOCK_MASK = 0 \<Longrightarrow> type' AND ADLOCK_FILELOCK = locktype AND ADLOCK_FILELOCK \<Longrightarrow>
     ad_tmplock os k1 ad dfork type' off len fork' = (res', k2) \<Longrightarrow> res' = None \<and> same_held k k2"
proof -
  have ok: "fd_ok k (ad_data_fork ad)" "fd_ok k (ad_rfp ad)" "0 \<le> ad_entryoff ad" using assms(1) by (simp_all add: ad_ok_def)
  note d = tmplock_fd_same[OF ok(1) assms(2), of 0] and r = tmplock_fd_same[OF ok(2) assms(2), of "if locktype AND ADLOCK_FILELOCK = 0 then ad_entryoff ad else 0"]
  show "same_held k k1" if "res \<noteq> None"
    using assms(3) that d(1) r(1) ok(3) unfolding ad_tmplock_def by (auto split: if_splits)
  assume n: "res = None" and c: "type' AND ADLOCK_MASK = 0" "type' AND ADLOCK_FILELOCK = locktype AND ADLOCK_FILELOCK"
    and t: "ad_tmplock os k1 ad dfork type' off len fork' = (res', k2)"
  show "res' = None \<and> same_held k k2"
    using assms(3)[unfolded ad_tmplock_def n] t[unfolded ad_tmplock_def c(2)] d(2)[OF _ _ refl c(1)] r(2)[OF _ _ refl c(1)] ok(3)
    by (cases dfork; cases "adf_fd (ad_rfp ad) = -1") (auto simp: same_held_def split: if_splits)
qed

text \<open>The probes ask the kernel and change nothing.\<close>

lemma testlock_same: "testlock os k adf off len = (t, k') \<Longrightarrow> held k' = held k"
  by (auto simp: testlock_def get_lock_def split: if_splits prod.splits)

lemma probes_same:
  "ad_testlock os k ad dfork off = (t, k') \<Longrightarrow> held k' = held k"
  "ad_testlock_range os k ad dfork off len = (t, k') \<Longrightarrow> held k' = held k"
  "ad_testlock_whole os k ad dfork = (t, k') \<Longrightarrow> held k' = held k"
  "ad_openforks os k ad attrbits = (a, k') \<Longrightarrow> held k' = held k"
  subgoal by (auto simp: ad_testlock_def dest: testlock_same)
  subgoal by (auto simp: ad_testlock_range_def get_lock_def Let_def split: if_splits prod.splits)
  subgoal by (auto simp: ad_testlock_whole_def get_lock_def Let_def split: if_splits prod.splits)
  subgoal by (auto simp: ad_openforks_def Let_def dest!: testlock_same split: if_splits prod.splits)
  done

text \<open>
  The operations of one process on an open file, in any order. A temporary lock is taken and
  released around an access; \<open>close\<close> stands for the release of the data fork's array when its
  descriptor is closed.
\<close>

type_synonym lock_state = "os \<times> kernel \<times> adouble"

fun opened :: "lock_state \<Rightarrow> bool" where
  "opened (os, k, ad) \<longleftrightarrow> releases os \<and> 0 \<le> ad_entryoff ad \<and>
     adf_lock (ad_data_fork ad) = [] \<and> adf_lock (ad_rfp ad) = [] \<and>
     (adf_fd (ad_data_fork ad) = adf_fd (ad_rfp ad) \<longrightarrow> adf_fd (ad_rfp ad) = AD_SYMLINK) \<and>
     (\<forall>x \<le> LOCK_TOP. held k (adf_fd (ad_data_fork ad)) x = None \<and> held k (adf_fd (ad_rfp ad)) x = None)"

inductive lock_step :: "lock_state \<Rightarrow> lock_state \<Rightarrow> bool" where
  lock: "locktype AND ADLOCK_MASK \<noteq> ADLOCK_MASK \<Longrightarrow> ad_lock os k ad dfork locktype off len fork = Some (e, k', ad') \<Longrightarrow>
    lock_step (os, k, ad) (os, k', ad')"
| unlock: "ad_unlock os k ad fork = (k', ad') \<Longrightarrow> lock_step (os, k, ad) (os, k', ad')"
| tmplock: "ad_tmplock os k ad dfork locktype off len fork = (None, k1) \<Longrightarrow> type' AND ADLOCK_MASK = 0 \<Longrightarrow>
    type' AND ADLOCK_FILELOCK = locktype AND ADLOCK_FILELOCK \<Longrightarrow> ad_tmplock os k1 ad dfork type' off len fork = (res, k2) \<Longrightarrow>
    lock_step (os, k, ad) (os, k2, ad)"
| tmplock_refused: "ad_tmplock os k ad dfork locktype off len fork = (Some e, k') \<Longrightarrow> lock_step (os, k, ad) (os, k', ad)"
| testlock: "ad_testlock os k ad dfork off = (t, k') \<Longrightarrow> lock_step (os, k, ad) (os, k', ad)"
| testlock_range: "ad_testlock_range os k ad dfork off len = (t, k') \<Longrightarrow> lock_step (os, k, ad) (os, k', ad)"
| testlock_whole: "ad_testlock_whole os k ad dfork = (t, k') \<Longrightarrow> lock_step (os, k, ad) (os, k', ad)"
| openforks: "ad_openforks os k ad attrbits = (a, k') \<Longrightarrow> lock_step (os, k, ad) (os, k', ad)"
| close: "adf_fd (ad_data_fork ad) \<ge> 0 \<Longrightarrow> adf_lock_free os k (ad_data_fork ad) = (k', adf) \<Longrightarrow>
    lock_step (os, k, ad) (os, k', ad\<lparr>ad_data_fork := adf\<rparr>)"

fun lock_inv :: "lock_state \<Rightarrow> bool" where
  "lock_inv (os, k, ad) \<longleftrightarrow> releases os \<and> ad_ok k ad"

lemma array_ok_empty [simp]: "array_ok []"
  by (simp add: array_ok_def table_ok_def)

lemma adf_lock_free_ok:
  assumes "fd_ok k adf" "releases os" "adf_fd adf \<ge> 0" "adf_lock_free os k adf = (k', adf')"
  shows "fd_ok k' adf'" "frame (adf_fd adf) k k'" "adf_fd adf' = adf_fd adf" "adf_lock adf' = []"
proof -
  have "fd_ok k' adf' \<and> frame (adf_fd adf) k k' \<and> adf_fd adf' = adf_fd adf \<and> adf_lock adf' = []"
  proof (cases "adf_lockmax adf = 0")
    case True
    then show ?thesis using assms(1,4) by (auto simp: adf_lock_free_def fd_ok_def)
  next
    case False
    obtain k1 a1 where f: "free_loop os k adf (length (adf_lock adf)) = (k1, a1)" by (cases "free_loop os k adf (length (adf_lock adf))")
    have r: "fd_ok k1 a1" "frame (adf_fd adf) k k1" "adf_fd a1 = adf_fd adf" "adf_lock a1 = []"
      using free_loop_ok[OF assms(1) order_refl assms(2) f] by (simp_all add: locks_def)
    have "k' = k1" "adf' = adf_lock_init a1" using assms(3,4) False f by (auto simp: adf_lock_free_def)
    then show ?thesis using r by (simp add: adf_lock_init_def fd_ok_def)
  qed
  then show "fd_ok k' adf'" "frame (adf_fd adf) k k'" "adf_fd adf' = adf_fd adf" "adf_lock adf' = []" by simp_all
qed

lemma ad_ok_same: "same_held k k' \<Longrightarrow> ad_ok k ad \<Longrightarrow> ad_ok k' ad"
  by (auto simp: ad_ok_def dest: fd_ok_same)

lemma ad_ok_held: "held k' = held k \<Longrightarrow> ad_ok k ad \<Longrightarrow> ad_ok k' ad"
  by (rule ad_ok_same) (simp_all add: same_held_def)

lemma opened_inv: "opened s \<Longrightarrow> lock_inv s"
  by (cases s) (auto simp: ad_ok_def fd_ok_def holds_exactly_def)

lemma lock_step_inv: "lock_step s t \<Longrightarrow> lock_inv s \<Longrightarrow> lock_inv t"
proof (induction rule: lock_step.induct)
  case (lock locktype os k ad dfork off len fork e k' ad')
  then show ?case using ad_lock_done(4) by auto
next
  case (unlock os k ad fork k' ad')
  then show ?case using ad_unlock_done(1) by auto
next
  case (tmplock os k ad dfork locktype off len fork k1 type' res k2)
  then show ?case using ad_tmplock_same(2)[OF _ _ tmplock(1) refl tmplock(2-4)] ad_ok_same by auto
next
  case (tmplock_refused os k ad dfork locktype off len fork e k')
  then show ?case using ad_tmplock_same(1)[OF _ _ tmplock_refused(1)] ad_ok_same by auto
next
  case (close ad os k k' adf)
  then have ok: "releases os" "fd_ok k (ad_data_fork ad)" "fd_ok k (ad_rfp ad)" "ad_ok k ad" by (simp_all add: ad_ok_def)
  note f = adf_lock_free_ok[OF ok(2,1) close(1,2)]
  have "fd_ok k' (ad_rfp ad)" by (rule fd_ok_frame_sym[OF ok(3) f(2)]) (use ok(4) in \<open>simp add: ad_ok_def\<close>)
  then show ?case using f ok by (simp add: ad_ok_def)
qed (auto dest: probes_same ad_ok_held)

interpretation file_locks: kept_invariant opened lock_step lock_inv
  by unfold_locales (auto intro: opened_inv lock_step_inv)

lemma take_granted:
  assumes "fd_ok k adf" "\<And>n fd m. deny os n fd m = None" "\<And>n. realloc_ok os n" "locktype AND ADLOCK_MASK \<noteq> ADLOCK_MASK" "0 \<le> shift"
    and "l = requested adf locktype off shift len" "0 \<le> off" "valid_lock l" "l_type l \<noteq> F_UNLCK" "grantable (adf_lock adf) fork l"
  shows "fst (lock_fd os k adf locktype off shift len fork) = None"
proof -
  define type where "type = degrade adf locktype"
  define i where "i = adf_findlock adf fork (ADLOCK_RD OR ADLOCK_WR) (l_start l) (l_len l)"
  define x where "x = adf_findxlock adf fork (ADLOCK_WR OR (if type AND ADLOCK_WR \<noteq> 0 then ADLOCK_RD else 0)) (l_start l) (l_len l)"
  have ty: "taking l" "type AND ADLOCK_WR \<noteq> 0 \<longleftrightarrow> l_type l = F_WRLCK"
    using request_type[OF assms(4) type_def] assms(9) by (simp_all add: assms(6) requested_def type_def)
  have ok: "array_ok (adf_lock adf)" using assms(1) by (simp add: fd_ok_def)
  have b: "0 \<le> off" "off \<le> LOCK_TOP - shift" "0 < l_len l" "adf_lock_fits (l_start l) (l_len l)"
    using assms(7,8) by (auto simp: valid_lock_def assms(6) requested_def adf_lock_fits_def)
  have n: "x = None" "i = None"
    using findxlock_none[OF ok assms(8) ty, of fork, folded x_def] findlock_none[OF ok assms(8), of fork, folded i_def] assms(10)
    by (auto simp: grantable_def)
  have "fst (set_lock os k (adf_fd adf) l) = None" using assms(2) ty(1) by (auto simp: set_lock_def Let_def taking_def)
  then obtain k1 where s: "set_lock os k (adf_fd adf) l = (None, k1)" by (cases "set_lock os k (adf_fd adf) l") simp
  show ?thesis unfolding lock_fd_checked(6)[OF assms(6) type_def b i_def x_def refl assms(9) n s] using assms(3) by simp
qed

end
