(* ===== verification/Ad_Lock_Claims.thy ===== *)
theory Ad_Lock_Claims
  imports Ad_Lock_File
begin

text \<open>
  The properties of the locks of an open file, each with an application to a session of two forks
  that share a range.
\<close>

definition sample_os :: os where
  "sample_os = \<lparr>deny = (\<lambda>_ _ _. None), getlk = (\<lambda>_ _ _. Inr False), realloc_ok = (\<lambda>_. True)\<rparr>"

definition sample_kernel :: kernel where
  "sample_kernel = \<lparr>held = (\<lambda>_ _. None), calls = 0\<rparr>"

definition sample_file :: adouble where
  "sample_file = \<lparr>ad_data_fork = \<lparr>adf_fd = 7, adf_rdwr = True, adf_lock = [], adf_lockmax = 0\<rparr>,
     ad_rfp = \<lparr>adf_fd = 8, adf_rdwr = True, adf_lock = [], adf_lockmax = 0\<rparr>, ad_entryoff = 82\<rparr>"

definition sample_lock :: "kernel \<times> adouble \<Rightarrow> 32 word \<Rightarrow> int \<Rightarrow> int \<Rightarrow> int \<Rightarrow> kernel \<times> adouble" where
  "sample_lock s t off len fork = (case s of (k, ad) \<Rightarrow> snd (the (ad_lock sample_os k ad True t off len fork)))"

definition shared :: "kernel \<times> adouble" where
  "shared = sample_lock (sample_lock (sample_kernel, sample_file) ADLOCK_RD 0 10 1) ADLOCK_RD 5 10 2"

lemmas sample_defs = sample_os_def sample_kernel_def sample_file_def

lemma sample_opened: "opened (sample_os, sample_kernel, sample_file)"
  by (simp add: sample_defs releases_def AD_SYMLINK_def)

lemma sample_lock_reachable:
  assumes "reachable opened lock_step (sample_os, s)" "t = ADLOCK_RD \<or> t = ADLOCK_WR"
  shows "reachable opened lock_step (sample_os, sample_lock s t off len fork)"
proof -
  have t: "t AND ADLOCK_MASK \<noteq> ADLOCK_MASK" "t AND ADLOCK_FILELOCK = 0" using assms(2) by (auto simp: adlock_bits)
  obtain k ad where s: "s = (k, ad)" by (cases s)
  obtain e k' ad' where l: "ad_lock sample_os k ad True t off len fork = Some (e, k', ad')"
    using t(2) by (cases "lock_fd sample_os k (ad_data_fork ad) t off 0 len fork") (simp add: ad_lock_def)
  show ?thesis using reachable.step[OF assms(1)[unfolded s] lock_step.lock[OF t(1) l]] l by (simp add: sample_lock_def s)
qed

lemma shared_reachable: "reachable opened lock_step (sample_os, fst shared, snd shared)"
  unfolding shared_def prod.collapse by (intro sample_lock_reachable, rule reachable.start, rule sample_opened) simp_all

lemma shared_array:
  "adf_lock (ad_data_fork (snd shared)) =
     [\<lparr>adf_flock = \<lparr>l_type = F_RDLCK, l_start = 0, l_len = 10\<rparr>, adf_user = 1, adf_reach = 9\<rparr>,
      \<lparr>adf_flock = \<lparr>l_type = F_RDLCK, l_start = 5, l_len = 10\<rparr>, adf_user = 2, adf_reach = 14\<rparr>]"
  by code_simp

lemma shared_fd:
  "adf_fd (ad_data_fork (snd shared)) = 7" "adf_rdwr (ad_data_fork (snd shared))" "adf_fd (ad_rfp (snd shared)) = 8"
  by code_simp+

lemma shared_release: "map_option fst (ad_lock sample_os (fst shared) (snd shared) True 0 0 10 1) = Some None"
  by code_simp

lemma shared_conflict: "map_option fst (ad_lock sample_os (fst shared) (snd shared) True ADLOCK_WR 8 1 1) = Some (Some EACCES)"
  by code_simp

lemma shared_tmplock: "fst (ad_tmplock sample_os (fst shared) (snd shared) True ADLOCK_RD 0 20 1) = None"
  by code_simp

lemma sample_releases: "releases sample_os"
  by (simp add: releases_def sample_os_def)

lemma shared_ok: "ad_ok (fst shared) (snd shared)"
  using file_locks.reachable_inv[OF shared_reachable] unfolding lock_inv.simps by (rule conjunct2)

lemma shared_table: "table_ok (adf_lock (ad_data_fork (snd shared)))"
  using shared_ok by (simp add: ad_ok_def fd_ok_def array_ok_def)

text \<open>
  C17: in every state that a process reaches from the opened file, two locks recorded for the
  data fork that share a byte belong to different forks and are both read locks.
\<close>

theorem locks_exclusive:
  assumes "reachable opened lock_step (os, k, ad)" "i < j" "j < length (adf_lock (ad_data_fork ad))"
    and "covers (adf_flock (adf_lock (ad_data_fork ad) ! i)) x" "covers (adf_flock (adf_lock (ad_data_fork ad) ! j)) x"
  shows "adf_user (adf_lock (ad_data_fork ad) ! i) \<noteq> adf_user (adf_lock (ad_data_fork ad) ! j) \<and>
    l_type (adf_flock (adf_lock (ad_data_fork ad) ! i)) = F_RDLCK \<and>
    l_type (adf_flock (adf_lock (ad_data_fork ad) ! j)) = F_RDLCK"
proof -
  have ok: "array_ok (adf_lock (ad_data_fork ad))" using file_locks.reachable_inv[OF assms(1)] by (simp add: ad_ok_def fd_ok_def)
  have "compatible (adf_lock (ad_data_fork ad) ! i) (adf_lock (ad_data_fork ad) ! j)"
    using array_okD(3)[OF ok] assms(2,3) by (simp add: sorted_wrt_iff_nth_less)
  moreover have "lock_overlap (adf_flock (adf_lock (ad_data_fork ad) ! i)) (adf_flock (adf_lock (ad_data_fork ad) ! j))"
    using array_okD(2)[OF ok] assms(2,3) by (subst overlap_iff) (use assms(4,5) in \<open>auto simp: list_all_length valid_lock_def\<close>)
  ultimately show ?thesis by (simp add: compatible_def)
qed

theorem locks_exclusive_witness:
  "adf_user (adf_lock (ad_data_fork (snd shared)) ! 0) \<noteq> adf_user (adf_lock (ad_data_fork (snd shared)) ! 1) \<and>
    l_type (adf_flock (adf_lock (ad_data_fork (snd shared)) ! 0)) = F_RDLCK \<and>
    l_type (adf_flock (adf_lock (ad_data_fork (snd shared)) ! 1)) = F_RDLCK"
  using locks_exclusive[OF shared_reachable, of 0 1 7] by (simp add: shared_array covers_def adf_lock_last_def)



text \<open>
  C19: a call of \<open>ad_lock\<close> that succeeds does to the locks recorded for its descriptor what the
  specification says, leaves the other descriptor alone and keeps the file well-formed.
\<close>

theorem ad_lock_refines:
  assumes "ad_ok k ad" "releases os" "locktype AND ADLOCK_MASK \<noteq> ADLOCK_MASK"
    and "ad_lock os k ad dfork locktype off len fork = Some (None, k', ad')"
  shows "granted fork (lock_wanted ad dfork locktype off len)
      (mset (locks (adf_lock (chosen dfork locktype ad)))) (mset (locks (adf_lock (chosen dfork locktype ad')))) \<and>
    unchosen dfork locktype ad' = unchosen dfork locktype ad \<and> ad_ok k' ad'"
  using ad_lock_done[OF assms] by (simp add: lock_done_def)

theorem ad_lock_refines_witness:
  "\<exists>k' ad'. ad_lock sample_os (fst shared) (snd shared) True 0 0 10 1 = Some (None, k', ad') \<and>
    granted 1 (lock_wanted (snd shared) True 0 0 10)
      (mset (locks (adf_lock (ad_data_fork (snd shared))))) (mset (locks (adf_lock (ad_data_fork ad'))))"
  using ad_lock_refines[OF shared_ok sample_releases, of 0 True 0 10 1] shared_release
  by (cases "ad_lock sample_os (fst shared) (snd shared) True 0 0 10 1") (auto simp: chosen_def adlock_bits)







text \<open>
  A temporary lock and its release leave every byte that the kernel holds as it was, also
  where the range runs over recorded locks.
\<close>

theorem tmplock_round_trip:
  assumes "ad_ok k ad" "releases os" "ad_tmplock os k ad dfork locktype off len fork = (None, k1)"
    and "type' AND ADLOCK_MASK = 0" "type' AND ADLOCK_FILELOCK = locktype AND ADLOCK_FILELOCK"
    and "ad_tmplock os k1 ad dfork type' off len fork' = (res, k2)" "x \<le> LOCK_TOP"
  shows "res = None \<and> held k2 fd x = held k fd x"
  using ad_tmplock_same(2)[OF assms(1-3) refl assms(4-6)] assms(7) by (simp add: same_held_def)

theorem tmplock_round_trip_witness:
  "case ad_tmplock sample_os (fst shared) (snd shared) True ADLOCK_RD 0 20 1 of (r, k1) \<Rightarrow>
    case ad_tmplock sample_os k1 (snd shared) True 0 0 20 1 of (r', k2) \<Rightarrow> r = None \<and> r' = None \<and> held k2 7 17 = held (fst shared) 7 17"
  using tmplock_round_trip[OF shared_ok sample_releases, of True ADLOCK_RD 0 20 1 _ 0 1 _ _ 17 7] shared_tmplock
  by (auto simp: lock_consts adlock_bits split: prod.split)

text \<open>
  C23: on a well-formed array the search for a conflicting lock, by two binary searches and a scan
  of the window between them, finds what a scan of the whole array finds.
\<close>

theorem findxlock_is_scan:
  assumes "table_ok (adf_lock adf)" "0 \<le> off" "0 < len" "off + (len - 1) \<le> LOCK_TOP"
  shows "adf_findxlock adf fork type off len =
    find (\<lambda>i. type_match type (adf_lock adf ! i) \<and> adf_user (adf_lock adf ! i) \<noteq> fork \<and>
        OVERLAP off len (l_first (adf_lock adf ! i)) (l_len (adf_flock (adf_lock adf ! i)))) [0..<length (adf_lock adf)]"
  using findlock_linear(2)[of adf "\<lparr>l_type = F_RDLCK, l_start = off, l_len = len\<rparr>" fork type] assms
  by (simp add: valid_lock_def lock_overlap_def)

theorem findxlock_is_scan_witness:
  "adf_findxlock (ad_data_fork (snd shared)) 1 ADLOCK_RD 3 4 = Some 1"
  unfolding findxlock_is_scan[OF shared_table, of 3 4, simplified lock_consts, simplified]
  by (simp add: shared_array type_match_def OVERLAP_def adlock_bits upt_rec)

text \<open>
  Of the range that \<open>testlock\<close> is asked about, only the first byte is compared with the own
  locks: when the kernel knows of no lock of another process, the answer depends on that byte
  alone, so a lock of the process on a later byte of the range goes unreported.
\<close>

theorem testlock_first_byte:
  assumes "table_ok (adf_lock adf)" "\<And>n fd l. getlk os n fd l = Inr False"
  shows "fst (testlock os k adf off len) = (if \<exists>e \<in> set (adf_lock adf). covers (adf_flock e) off then 1 else 0)"
proof -
  have "OVERLAP off 1 (l_first e) (l_len (adf_flock e)) \<longleftrightarrow> covers (adf_flock e) off" if "e \<in> set (adf_lock adf)" for e
    using assms(1) that by (auto simp: table_ok_def list_all_iff OVERLAP_def covers_def valid_lock_def adf_lock_last_def)
  then show ?thesis using assms(2) by (auto simp: testlock_def get_lock_def get_result_def list_ex_iff)
qed

theorem testlock_first_byte_witness:
  "fst (testlock sample_os (fst shared) (ad_data_fork (snd shared)) 14 5) = 1 \<and>
    fst (testlock sample_os (fst shared) (ad_data_fork (snd shared)) 15 5) = 0"
  using testlock_first_byte[OF shared_table, of sample_os]
  by (simp add: shared_array covers_def adf_lock_last_def sample_os_def)

end
