(* ===== verification/Byte_Order.thy ===== *)
theory Byte_Order
  imports Netatalk_Prelude
begin

text \<open>
  Numbers in memory. The host is little-endian: \<open>memcpy\<close> of a number lays out its bytes from
  the lowest on, and the conversions to and from network order reverse them. Reads and writes of
  a buffer go through \<open>peek\<close> and \<open>poke\<close>, which fail outside of it.
\<close>

subsection \<open>Bytes of a word\<close>

fun le_word :: "bytes \<Rightarrow> 'a::len word" where
  "le_word [] = 0"
| "le_word (b # bs) = ucast b OR push_bit 8 (le_word bs)"

definition le_bytes :: "nat \<Rightarrow> 'a::len word \<Rightarrow> bytes" where
  "le_bytes n w = map (\<lambda>i. ucast (drop_bit (8 * i) w)) [0..<n]"

definition bswap :: "nat \<Rightarrow> 'a::len word \<Rightarrow> 'a word" where
  "bswap n w = le_word (rev (le_bytes n w))"

abbreviation net32 :: "32 word \<Rightarrow> 32 word" where "net32 \<equiv> bswap 4"

abbreviation net16 :: "16 word \<Rightarrow> 16 word" where "net16 \<equiv> bswap 2"

lemma length_le_bytes [simp]: "length (le_bytes n w) = n"
  by (simp add: le_bytes_def)

lemma bit_le_word:
  "bit (le_word bs :: 'a::len word) k \<longleftrightarrow> k < LENGTH('a) \<and> k div 8 < length bs \<and> bit (bs ! (k div 8)) (k mod 8)"
proof (induction bs arbitrary: k)
  case (Cons b bs)
  show ?case
  proof (cases "k < 8")
    case True
    then show ?thesis by (auto simp: bit_simps)
  next
    case False
    then have k: "k div 8 = Suc ((k - 8) div 8)" "k mod 8 = (k - 8) mod 8" by (simp_all add: le_div_geq le_mod_geq)
    have b: "\<not> bit b k" using False bit_imp_le_length[of b k] by auto
    show ?thesis using False Cons.IH[of "k - 8"] k b by (auto simp: bit_simps)
  qed
qed simp

lemma le_word_bytes: "LENGTH('a) \<le> 8 * n \<Longrightarrow> le_word (le_bytes n w) = (w :: 'a::len word)"
proof (rule bit_word_eqI)
  fix k
  assume n: "LENGTH('a) \<le> 8 * n" "k < LENGTH('a)"
  then have "k div 8 < n" by (simp add: less_mult_imp_div_less mult.commute)
  then show "bit (le_word (le_bytes n w) :: 'a word) k = bit w k"
    using n(2) by (simp add: bit_le_word le_bytes_def bit_simps)
qed

lemma le_bytes_word: "8 * length bs \<le> LENGTH('a) \<Longrightarrow> le_bytes (length bs) (le_word bs :: 'a::len word) = bs"
proof (rule nth_equalityI)
  fix i
  assume n: "8 * length bs \<le> LENGTH('a)" "i < length (le_bytes (length bs) (le_word bs :: 'a word))"
  show "le_bytes (length bs) (le_word bs :: 'a word) ! i = bs ! i"
    by (rule bit_word_eqI) (use n in \<open>simp add: le_bytes_def bit_le_word bit_simps\<close>)
qed simp

lemma le_bytes_bswap: "8 * n \<le> LENGTH('a) \<Longrightarrow> le_bytes n (bswap n (w :: 'a::len word)) = rev (le_bytes n w)"
  unfolding bswap_def using le_bytes_word[of "rev (le_bytes n w)", where 'a = 'a] by simp

lemma bswap_bswap: "8 * n = LENGTH('a) \<Longrightarrow> bswap n (bswap n (w :: 'a::len word)) = w"
  unfolding bswap_def[of n "bswap n w"] using le_bytes_bswap[of n w] le_word_bytes[of n w] by simp

lemma net_net [simp]: "net32 (net32 w) = w" "net16 (net16 v) = v"
  by (simp_all add: bswap_bswap)

subsection \<open>Reading and writing a buffer\<close>

definition peek :: "bytes \<Rightarrow> int \<Rightarrow> nat \<Rightarrow> bytes option" where
  "peek buf p n = (if 0 \<le> p \<and> p + int n \<le> int (length buf) then Some (take n (drop (nat p) buf)) else None)"

definition poke :: "bytes \<Rightarrow> int \<Rightarrow> bytes \<Rightarrow> bytes option" where
  "poke buf p bs =
     (if 0 \<le> p \<and> p + int (length bs) \<le> int (length buf)
      then Some (take (nat p) buf @ bs @ drop (nat p + length bs) buf) else None)"

abbreviation get32 :: "bytes \<Rightarrow> int \<Rightarrow> 32 word option" where
  "get32 buf p \<equiv> map_option le_word (peek buf p 4)"

abbreviation put32 :: "bytes \<Rightarrow> int \<Rightarrow> 32 word \<Rightarrow> bytes option" where
  "put32 buf p w \<equiv> poke buf p (le_bytes 4 w)"

abbreviation get16 :: "bytes \<Rightarrow> int \<Rightarrow> 16 word option" where
  "get16 buf p \<equiv> map_option le_word (peek buf p 2)"

abbreviation put16 :: "bytes \<Rightarrow> int \<Rightarrow> 16 word \<Rightarrow> bytes option" where
  "put16 buf p w \<equiv> poke buf p (le_bytes 2 w)"

lemma poke_length: "poke buf p bs = Some buf' \<Longrightarrow> length buf' = length buf"
  by (auto simp: poke_def split: if_splits)

lemma poke_ok: "0 \<le> p \<Longrightarrow> p + int (length bs) \<le> int (length buf) \<Longrightarrow> \<exists>buf'. poke buf p bs = Some buf'"
  by (simp add: poke_def)

lemma peek_ok: "0 \<le> p \<Longrightarrow> p + int n \<le> int (length buf) \<Longrightarrow> \<exists>bs. peek buf p n = Some bs"
  by (simp add: peek_def)

lemma poke_nth:
  assumes "poke buf p bs = Some buf'" "i < length buf"
  shows "buf' ! i = (if p \<le> int i \<and> int i < p + int (length bs) then bs ! (i - nat p) else buf ! i)"
  using assms by (auto simp: poke_def nth_append split: if_splits)

lemma peek_nth: "peek buf p n = Some bs \<Longrightarrow> i < n \<Longrightarrow> bs ! i = buf ! (nat p + i)"
  by (auto simp: peek_def split: if_splits)

lemma peek_length: "peek buf p n = Some bs \<Longrightarrow> length bs = n"
  by (auto simp: peek_def split: if_splits)

lemma peek_poke_same: "poke buf p bs = Some buf' \<Longrightarrow> peek buf' p (length bs) = Some bs"
  by (auto simp: poke_def peek_def split: if_splits)

lemma peek_poke_other:
  assumes "poke buf p bs = Some buf'" "q + int n \<le> p \<or> p + int (length bs) \<le> q"
  shows "peek buf' q n = peek buf q n"
proof -
  have l: "length buf' = length buf" using assms(1) by (rule poke_length)
  show ?thesis
  proof (cases "0 \<le> q \<and> q + int n \<le> int (length buf)")
    case True
    have "take n (drop (nat q) buf') = take n (drop (nat q) buf)"
    proof (rule nth_equalityI)
      fix i
      assume i: "i < length (take n (drop (nat q) buf'))"
      then show "take n (drop (nat q) buf') ! i = take n (drop (nat q) buf) ! i"
        using True assms(2) l poke_nth[OF assms(1), of "nat q + i"] by auto
    qed (simp add: l)
    then show ?thesis by (simp add: peek_def l)
  qed (use l in \<open>auto simp: peek_def\<close>)
qed

lemma put_get32: "poke buf p (le_bytes 4 w) = Some buf' \<Longrightarrow> get32 buf' p = Some w"
  using peek_poke_same[of buf p "le_bytes 4 w"] by (simp add: le_word_bytes)

lemma put_get16: "poke buf p (le_bytes 2 w) = Some buf' \<Longrightarrow> get16 buf' p = Some w"
  using peek_poke_same[of buf p "le_bytes 2 w"] by (simp add: le_word_bytes)

end
