(* ===== verification/Ad_Header.thy ===== *)
theory Ad_Header
  imports Byte_Order
begin

text \<open>
  The metadata of an AppleDouble file: the header with its table of entries and the buffer that
  holds them, from \<open>libatalk/adouble\<close> (\<open>ad_open.c\<close>, \<open>ad_flush.c\<close>, \<open>ad_attr.c\<close>, \<open>ad_date.c\<close>).

  The buffer \<open>ad_data\<close> is a list of \<open>AD_DATASZ_MAX\<close> bytes, a pointer into it an offset, and an
  operation whose outer result is \<open>None\<close> has touched a byte outside of it. The build is the one
  without \<open>HAVE_EAFD\<close>, as on Linux. Offsets and lengths of entries are \<open>off_t\<close> and \<open>ssize_t\<close> in
  the table, hence integers, and 32-bit words where the code passes them as \<open>uint32_t\<close>. What a
  system call delivers is an argument.
\<close>

subsection \<open>Constants\<close>

definition AD_VERSION2 :: "32 word" where "AD_VERSION2 = 0x00020000"
definition AD_VERSION_EA :: "32 word" where "AD_VERSION_EA = 0x00020002"
definition AD_VERSION :: "32 word" where "AD_VERSION = AD_VERSION_EA"
definition AD_MAGIC :: "32 word" where "AD_MAGIC = 0x00051607"

definition AD_DEV :: "32 word" where "AD_DEV = 0x80444556"
definition AD_INO :: "32 word" where "AD_INO = 0x80494E4F"
definition AD_SYN :: "32 word" where "AD_SYN = 0x8053594E"
definition AD_ID :: "32 word" where "AD_ID = 0x8053567E"

lemmas ad_disk_ids = AD_DEV_def AD_INO_def AD_SYN_def AD_ID_def

abbreviation (input) ADEID_DFORK :: nat where "ADEID_DFORK \<equiv> 1"
abbreviation (input) ADEID_RFORK :: nat where "ADEID_RFORK \<equiv> 2"
abbreviation (input) ADEID_NAME :: nat where "ADEID_NAME \<equiv> 3"
abbreviation (input) ADEID_COMMENT :: nat where "ADEID_COMMENT \<equiv> 4"
abbreviation (input) ADEID_FILEDATESI :: nat where "ADEID_FILEDATESI \<equiv> 8"
abbreviation (input) ADEID_FINDERI :: nat where "ADEID_FINDERI \<equiv> 9"
abbreviation (input) ADEID_PRODOSFILEI :: nat where "ADEID_PRODOSFILEI \<equiv> 11"
abbreviation (input) ADEID_SHORTNAME :: nat where "ADEID_SHORTNAME \<equiv> 13"
abbreviation (input) ADEID_AFPFILEI :: nat where "ADEID_AFPFILEI \<equiv> 14"
abbreviation (input) ADEID_DID :: nat where "ADEID_DID \<equiv> 15"
abbreviation (input) ADEID_PRIVDEV :: nat where "ADEID_PRIVDEV \<equiv> 16"
abbreviation (input) ADEID_PRIVINO :: nat where "ADEID_PRIVINO \<equiv> 17"
abbreviation (input) ADEID_PRIVSYN :: nat where "ADEID_PRIVSYN \<equiv> 18"
abbreviation (input) ADEID_PRIVID :: nat where "ADEID_PRIVID \<equiv> 19"
abbreviation (input) ADEID_MAX :: nat where "ADEID_MAX \<equiv> 20"

abbreviation (input) AD_HEADER_LEN :: "'a::numeral" where "AD_HEADER_LEN \<equiv> 26"
abbreviation (input) AD_ENTRY_LEN :: "'a::numeral" where "AD_ENTRY_LEN \<equiv> 12"
abbreviation (input) ADEID_NUM_EA :: nat where "ADEID_NUM_EA \<equiv> 8"
abbreviation (input) AD_DATASZ2 :: "'a::numeral" where "AD_DATASZ2 \<equiv> 741"
abbreviation (input) AD_DATASZ_EA :: "'a::numeral" where "AD_DATASZ_EA \<equiv> 402"
abbreviation (input) AD_DATASZ_OSX :: "'a::numeral" where "AD_DATASZ_OSX \<equiv> 82"
abbreviation (input) AD_DATASZ_MAX :: "'a::numeral" where "AD_DATASZ_MAX \<equiv> 1024"
abbreviation (input) ADEDLEN_NAME :: "'a::numeral" where "ADEDLEN_NAME \<equiv> 255"
abbreviation (input) ADEDLEN_FINDERI :: "'a::numeral" where "ADEDLEN_FINDERI \<equiv> 32"
abbreviation (input) ADEDOFF_FINDERI_OSX :: int where "ADEDOFF_FINDERI_OSX \<equiv> 50"
abbreviation (input) ADEDOFF_RFORK_OSX :: int where "ADEDOFF_RFORK_OSX \<equiv> 82"

definition ADFLAGS_DIR :: "32 word" where "ADFLAGS_DIR = 8"
definition ADFLAGS_CREATE :: "32 word" where "ADFLAGS_CREATE = 1024"
definition ADVOL_NODEV :: "32 word" where "ADVOL_NODEV = 1"
definition ADVOL_INVDOTS :: "32 word" where "ADVOL_INVDOTS = 8"

definition FINDERINFO_ISHARED :: "16 word" where "FINDERINFO_ISHARED = 0x40"
definition FINDERINFO_INVISIBLE :: "16 word" where "FINDERINFO_INVISIBLE = 0x4000"
definition ATTRBIT_INVISIBLE :: "16 word" where "ATTRBIT_INVISIBLE = 1"
definition ATTRBIT_MULTIUSER :: "16 word" where "ATTRBIT_MULTIUSER = 2"
definition ATTRBIT_OPEN :: "16 word" where "ATTRBIT_OPEN = 0x18"
definition ATTRBIT_NOWRITE :: "16 word" where "ATTRBIT_NOWRITE = 0x20"
definition ATTRBIT_NOCOPY :: "16 word" where "ATTRBIT_NOCOPY = 0x400"

subsection \<open>The structure\<close>

datatype ad_errno = AD_EIO | AD_EINVAL | AD_ENOENT | AD_ERRNO nat

record adentry =
  ade_off :: int
  ade_len :: int

record admeta =
  ad_magic :: "32 word"
  ad_version :: "32 word"
  ad_eid :: "adentry list"
  ad_vers :: "32 word"
  ad_adflags :: "32 word"
  ad_options :: "32 word"
  ad_data_refcount :: int
  ad_reso_refcount :: int
  ad_rlen :: int
  ad_open_forks :: "16 word"
  ad_held_forks :: "16 word"
  valid_data_len :: nat
  ad_data :: bytes

definition ad_getentrylen :: "admeta \<Rightarrow> nat \<Rightarrow> int" where
  "ad_getentrylen ad eid = ade_len (ad_eid ad ! eid)"

definition ad_setentrylen :: "admeta \<Rightarrow> nat \<Rightarrow> int \<Rightarrow> admeta" where
  "ad_setentrylen ad eid len = ad\<lparr>ad_eid := (ad_eid ad)[eid := (ad_eid ad ! eid)\<lparr>ade_len := len\<rparr>]\<rparr>"

definition ad_setentryoff :: "admeta \<Rightarrow> nat \<Rightarrow> int \<Rightarrow> admeta" where
  "ad_setentryoff ad eid off = ad\<lparr>ad_eid := (ad_eid ad)[eid := (ad_eid ad ! eid)\<lparr>ade_off := off\<rparr>]\<rparr>"

definition ad_getentryoff :: "admeta \<Rightarrow> nat \<Rightarrow> int" where
  "ad_getentryoff ad eid =
     (if ad_vers ad = AD_VERSION2 then ade_off (ad_eid ad ! eid)
      else if eid = ADEID_DFORK then 0
      else ade_off (ad_eid ad ! eid))"

definition entry_order2 :: "(nat \<times> int \<times> int) list" where
  "entry_order2 =
     [(ADEID_NAME, 182, 0), (ADEID_COMMENT, 437, 200), (ADEID_FILEDATESI, 637, 16), (ADEID_FINDERI, 653, 32),
      (ADEID_DID, 685, 4), (ADEID_AFPFILEI, 689, 4), (ADEID_SHORTNAME, 693, 0), (ADEID_PRODOSFILEI, 705, 8),
      (ADEID_PRIVDEV, 713, 8), (ADEID_PRIVINO, 721, 8), (ADEID_PRIVSYN, 729, 8), (ADEID_PRIVID, 737, 4),
      (ADEID_RFORK, 741, 0)]"

definition entry_order_ea :: "(nat \<times> int \<times> int) list" where
  "entry_order_ea =
     [(ADEID_FINDERI, 122, 32), (ADEID_COMMENT, 154, 200), (ADEID_FILEDATESI, 354, 16), (ADEID_AFPFILEI, 370, 4),
      (ADEID_PRIVDEV, 374, 8), (ADEID_PRIVINO, 382, 8), (ADEID_PRIVSYN, 390, 8), (ADEID_PRIVID, 398, 4)]"

definition set_entry :: "nat \<times> int \<times> int \<Rightarrow> adentry list \<Rightarrow> adentry list" where
  "set_entry = (\<lambda>(i, off, len) es. es[i := \<lparr>ade_off = off, ade_len = len\<rparr>])"

definition ad_init_offsets :: "admeta \<Rightarrow> int \<times> admeta" where
  "ad_init_offsets ad =
     (if ad_magic ad = AD_MAGIC then (0, ad)
      else
        (let v = ad_vers ad AND 0x0f0000;
             ad = ad\<lparr>ad_magic := AD_MAGIC, ad_version := (if v = 0 then AD_VERSION else v),
                     ad_data := replicate AD_DATASZ_MAX 0\<rparr>
         in if ad_vers ad = AD_VERSION2 then
              (0, ad\<lparr>valid_data_len := AD_DATASZ2, ad_eid := fold set_entry entry_order2 (ad_eid ad)\<rparr>)
            else if ad_vers ad = AD_VERSION_EA then
              (0, ad_setentryoff
                    (ad\<lparr>valid_data_len := AD_DATASZ_EA, ad_eid := fold set_entry entry_order_ea (ad_eid ad)\<rparr>)
                    ADEID_RFORK ADEDOFF_RFORK_OSX)
            else (-1, ad)))"

text \<open>\<open>memset\<close> and \<open>ad_init_func\<close>, on the fields of the model; \<open>None\<close> is the panic.\<close>

definition ad_init :: "32 word \<Rightarrow> 32 word \<Rightarrow> admeta option" where
  "ad_init vers options =
     (if vers = AD_VERSION2 \<or> vers = AD_VERSION_EA then
        Some (snd (ad_init_offsets
          \<lparr>ad_magic = 0, ad_version = 0, ad_eid = replicate ADEID_MAX \<lparr>ade_off = 0, ade_len = 0\<rparr>, ad_vers = vers,
           ad_adflags = 0, ad_options = options, ad_data_refcount = 0, ad_reso_refcount = 0, ad_rlen = 0,
           ad_open_forks = 0, ad_held_forks = 0, valid_data_len = 0, ad_data = replicate AD_DATASZ_MAX 0\<rparr>))
      else None)"

subsection \<open>Entries\<close>

definition get_eid :: "32 word \<Rightarrow> 32 word" where
  "get_eid eid =
     (if eid \<le> 15 then eid else if eid = AD_DEV then 16 else if eid = AD_INO then 17
      else if eid = AD_SYN then 18 else if eid = AD_ID then 19 else 0)"

text \<open>Expected length, whether it is the only one and whether it is the least one.\<close>

definition ad_checks :: "(int \<times> bool \<times> bool) list" where
  "ad_checks =
     [(0, False, False), (-1, False, False), (-1, False, False), (255, False, False), (200, False, False),
      (128, True, False), (1024, False, False), (16, True, False), (16, True, False), (32, False, True),
      (4, True, False), (8, True, False), (2, True, False), (12, False, False), (4, True, False), (4, True, False),
      (8, True, False), (8, True, False), (8, True, False), (4, True, False)]"

definition ad_entry_check_size :: "nat \<Rightarrow> nat \<Rightarrow> 32 word \<Rightarrow> 32 word \<Rightarrow> bool" where
  "ad_entry_check_size eid bufsize off got_len =
     (if eid \<ge> ADEID_MAX then False
      else if got_len = 0 then True
      else
        (case ad_checks ! eid of
           (expected_len, fixed_size, minimum_size) \<Rightarrow>
             if expected_len = 0 then False
             else if expected_len = -1 then True
             else if fixed_size \<and> expected_len \<noteq> uint got_len then False
             else if \<not> fixed_size \<and> minimum_size \<and> uint got_len < expected_len then False
             else if \<not> fixed_size \<and> \<not> minimum_size \<and> uint got_len > expected_len then False
             else
               (let required_len = (if fixed_size \<or> minimum_size then got_len else word_of_int expected_len) in
                if off + required_len < off then False
                else \<not> unat (off + required_len) > bufsize)))"

definition ad_entry_fits :: "admeta \<Rightarrow> nat \<Rightarrow> 32 word \<Rightarrow> bool" where
  "ad_entry_fits ad eid len \<longleftrightarrow>
     ad_getentryoff ad eid \<noteq> 0 \<and>
     ad_entry_check_size eid (valid_data_len ad) (word_of_int (ad_getentryoff ad eid)) len"

definition ad_entry :: "admeta \<Rightarrow> nat \<Rightarrow> int option" where
  "ad_entry ad eid =
     (if \<not> ad_entry_fits ad eid (word_of_int (ad_getentrylen ad eid)) then None else Some (ad_getentryoff ad eid))"

subsection \<open>Reading a header\<close>

fun parse_loop :: "admeta \<Rightarrow> nat \<Rightarrow> nat \<Rightarrow> int \<Rightarrow> (int \<times> admeta) option" where
  "parse_loop ad valid 0 p = Some (0, ad\<lparr>valid_data_len := valid\<rparr>)"
| "parse_loop ad valid (Suc n) p =
     do {
       e \<leftarrow> get32 (ad_data ad) p;
       f \<leftarrow> get32 (ad_data ad) (p + 4);
       l \<leftarrow> get32 (ad_data ad) (p + 8);
       let eid = get_eid (net32 e);
       let off = net32 f;
       let len = net32 l;
       if eid = 0 \<or> unat eid > ADEID_MAX \<or>
          (unat eid \<noteq> ADEID_RFORK \<and> (unat off > valid \<or> unat len > valid - unat off))
       then Some (-1, ad)
       else parse_loop (ad\<lparr>ad_eid := set_entry (unat eid, uint off, uint len) (ad_eid ad)\<rparr>) valid n (p + 12)
     }"

definition parse_entries :: "admeta \<Rightarrow> nat \<Rightarrow> nat \<Rightarrow> (int \<times> admeta) option" where
  "parse_entries ad nentries valid = parse_loop ad valid nentries AD_HEADER_LEN"

text \<open>Magic and version of a header in the buffer, in host order.\<close>

definition read_magic :: "admeta \<Rightarrow> admeta option" where
  "read_magic ad =
     do {
       m \<leftarrow> get32 (ad_data ad) 0;
       v \<leftarrow> get32 (ad_data ad) 4;
       Some (ad\<lparr>ad_magic := net32 m, ad_version := net32 v\<rparr>)
     }"

text \<open>
  \<open>file\<close> is what the metadata file holds, or the error of the read; \<open>st_size\<close> is its size, from the
  caller or from \<open>fstat\<close>, where \<open>None\<close> is a failed call.
\<close>

definition ad_header_read :: "admeta \<Rightarrow> ad_errno + bytes \<Rightarrow> int option \<Rightarrow> (int \<times> ad_errno option \<times> admeta) option" where
  "ad_header_read ad file st_size =
     (case file of
        Inl e \<Rightarrow> Some (-1, Some e, ad)
      | Inr content \<Rightarrow>
          do {
            let header = take AD_DATASZ2 content;
            buf \<leftarrow> poke (ad_data ad) 0 header;
            let ad = ad\<lparr>ad_data := buf\<rparr>;
            if length header < AD_HEADER_LEN then Some (-1, Some AD_EIO, ad)
            else do {
              ad \<leftarrow> read_magic ad;
              if ad_magic ad \<noteq> AD_MAGIC \<or> ad_version ad \<noteq> AD_VERSION2 then Some (-1, Some AD_EIO, ad)
              else do {
                n \<leftarrow> get16 (ad_data ad) 24;
                let nentries = unat (net16 n);
                if nentries > 16 then Some (-1, Some AD_EIO, ad)
                else if nentries * AD_ENTRY_LEN + AD_HEADER_LEN > length header then Some (-1, Some AD_EIO, ad)
                else do {
                  (r, ad) \<leftarrow> parse_entries ad nentries (length header);
                  if r \<noteq> 0 then Some (-1, Some AD_EIO, ad)
                  else if ad_getentryoff ad ADEID_RFORK = 0 \<or> ad_getentryoff ad ADEID_RFORK > AD_DATASZ_MAX
                  then Some (-1, Some AD_EIO, ad)
                  else if ad_getentryoff ad ADEID_RFORK > int (length header) then Some (-1, Some AD_EIO, ad)
                  else
                    (case st_size of
                       None \<Rightarrow> Some (1, None, ad)
                     | Some sz \<Rightarrow> Some (0, None, ad\<lparr>ad_rlen := sz - ad_getentryoff ad ADEID_RFORK\<rparr>))
                }
              }
            }
          })"

text \<open>
  \<open>ea\<close> is what the call that reads the extended attribute delivers: an error, or up to
  \<open>AD_DATASZ_EA\<close> bytes. The last component of the result says whether the attribute was deleted.
\<close>

definition ea_entries :: "nat list" where
  "ea_entries = [ADEID_FINDERI, ADEID_COMMENT, ADEID_FILEDATESI, ADEID_AFPFILEI, ADEID_PRIVDEV, ADEID_PRIVINO, ADEID_PRIVSYN, ADEID_PRIVID]"

definition header_ea :: "admeta \<Rightarrow> bytes \<Rightarrow> (ad_errno option \<times> admeta) option" where
  "header_ea ad header =
     do {
       buf \<leftarrow> poke (ad_data ad) 0 header;
       let ad = ad\<lparr>ad_data := buf\<rparr>;
       if length header < AD_DATASZ_EA then Some (Some AD_EINVAL, ad)
       else do {
         ad \<leftarrow> read_magic ad;
         if ad_magic ad \<noteq> AD_MAGIC \<or> ad_version ad \<noteq> AD_VERSION2 then Some (Some AD_EINVAL, ad)
         else do {
           n \<leftarrow> get16 (ad_data ad) 24;
           let nentries = unat (net16 n);
           if nentries \<noteq> ADEID_NUM_EA then Some (Some AD_EINVAL, ad)
           else do {
             (r, ad) \<leftarrow> parse_entries ad nentries (length header);
             if r \<noteq> 0 then Some (Some AD_EINVAL, ad)
             else if list_ex (\<lambda>eid. ad_entry ad eid = None) ea_entries then Some (Some AD_EINVAL, ad)
             else Some (None, if ad_vers ad = AD_VERSION_EA then ad_setentryoff ad ADEID_RFORK ADEDOFF_RFORK_OSX else ad)
           }
         }
       }
     }"

definition ad_header_read_ea :: "admeta \<Rightarrow> bool \<Rightarrow> ad_errno + bytes \<Rightarrow> (int \<times> ad_errno option \<times> admeta \<times> bool) option" where
  "ad_header_read_ea ad has_path ea =
     do {
       (err, ad') \<leftarrow> (case ea of Inl e \<Rightarrow> Some (Some e, ad) | Inr header \<Rightarrow> header_ea ad header);
       case err of
         None \<Rightarrow> Some (0, None, ad', False)
       | Some e \<Rightarrow>
           if e = AD_EINVAL \<and> has_path \<and> ad_adflags ad AND ADFLAGS_CREATE \<noteq> 0 then Some (-1, Some AD_ENOENT, ad, True)
           else Some (-1, Some e, ad, False)
     }"

subsection \<open>Writing a header\<close>

definition set_eid :: "32 word list" where
  "set_eid = [0, 1, 2, 3, 4, 5, 6, 7, 8, 9, 10, 11, 12, 13, 14, 15, AD_DEV, AD_INO, AD_SYN, AD_ID]"

fun put_entries :: "bool \<Rightarrow> adentry list \<Rightarrow> nat list \<Rightarrow> bytes \<Rightarrow> int \<Rightarrow> 16 word \<Rightarrow> (bytes \<times> 16 word) option" where
  "put_entries skip_rfork es [] buf p nent = Some (buf, nent)"
| "put_entries skip_rfork es (eid # eids) buf p nent =
     (if ade_off (es ! eid) = 0 \<or> (skip_rfork \<and> eid = ADEID_RFORK) then put_entries skip_rfork es eids buf p nent
      else do {
        buf \<leftarrow> put32 buf p (net32 (set_eid ! eid));
        buf \<leftarrow> put32 buf (p + 4) (net32 (word_of_int (ade_off (es ! eid))));
        buf \<leftarrow> put32 buf (p + 8) (net32 (word_of_int (ade_len (es ! eid))));
        put_entries skip_rfork es eids buf (p + 12) (nent + 1)
      })"

definition rebuild_header :: "bool \<Rightarrow> admeta \<Rightarrow> admeta option" where
  "rebuild_header skip_rfork ad =
     do {
       buf \<leftarrow> put32 (ad_data ad) 0 (net32 (ad_magic ad));
       buf \<leftarrow> put32 buf 4 (net32 (ad_version ad));
       (buf, nent) \<leftarrow> put_entries skip_rfork (ad_eid ad) [0..<ADEID_MAX] buf AD_HEADER_LEN 0;
       buf \<leftarrow> put16 buf 24 (net16 nent);
       Some (ad\<lparr>ad_data := buf\<rparr>)
     }"

definition ad_rebuild_adouble_header_v2 :: "admeta \<Rightarrow> (int \<times> admeta) option" where
  "ad_rebuild_adouble_header_v2 ad = map_option (\<lambda>ad. (ad_getentryoff ad ADEID_RFORK, ad)) (rebuild_header False ad)"

definition ad_rebuild_adouble_header_ea :: "admeta \<Rightarrow> (int \<times> admeta) option" where
  "ad_rebuild_adouble_header_ea ad = map_option (Pair AD_DATASZ_EA) (rebuild_header True ad)"

definition AD_FILLER_NETATALK :: bytes where
  "AD_FILLER_NETATALK = [0x4e, 0x65, 0x74, 0x61, 0x74, 0x61, 0x6c, 0x6b, 0x20, 0x20, 0x20, 0x20, 0x20, 0x20, 0x20, 0x20]"

definition ad_rebuild_adouble_header_osx :: "admeta \<Rightarrow> bytes \<Rightarrow> (int \<times> bytes) option" where
  "ad_rebuild_adouble_header_osx ad adbuf =
     do {
       buf \<leftarrow> put32 adbuf 0 (net32 (ad_magic ad));
       buf \<leftarrow> put32 buf 4 (net32 (ad_version ad));
       buf \<leftarrow> poke buf 8 AD_FILLER_NETATALK;
       buf \<leftarrow> put16 buf 24 (net16 2);
       buf \<leftarrow> put32 buf 26 (net32 (set_eid ! ADEID_FINDERI));
       buf \<leftarrow> put32 buf 30 (net32 (word_of_int ADEDOFF_FINDERI_OSX));
       buf \<leftarrow> put32 buf 34 (net32 32);
       buf \<leftarrow> (case ad_entry ad ADEID_FINDERI of
                 None \<Rightarrow> Some buf
               | Some ade \<Rightarrow> do { bs \<leftarrow> peek (ad_data ad) ade ADEDLEN_FINDERI; poke buf ADEDOFF_FINDERI_OSX bs });
       buf \<leftarrow> put32 buf 38 (net32 (set_eid ! ADEID_RFORK));
       buf \<leftarrow> put32 buf 42 (net32 (word_of_int ADEDOFF_RFORK_OSX));
       buf \<leftarrow> put32 buf 46 (net32 (word_of_int (ad_rlen ad)));
       Some (AD_DATASZ_OSX, buf)
     }"

text \<open>The check of \<open>ad_valid_header_osx\<close> on the bytes read: 0 for a header of netatalk, else 1.\<close>

definition ad_valid_header_osx :: "ad_errno + bytes \<Rightarrow> int option" where
  "ad_valid_header_osx file =
     (case file of
        Inl e \<Rightarrow> Some 1
      | Inr content \<Rightarrow>
          (let buf = take AD_DATASZ_OSX content in
           if length buf < AD_HEADER_LEN then Some 1
           else do {
             m \<leftarrow> get32 buf 0;
             v \<leftarrow> get32 buf 4;
             if net32 m \<noteq> AD_MAGIC \<or> net32 v \<noteq> AD_VERSION2 then Some 1
             else do {
               f \<leftarrow> peek buf 8 16;
               Some (if f \<noteq> AD_FILLER_NETATALK then 1 else 0)
             }
           }))"

subsection \<open>Copying a header\<close>

definition ad_copy_header_entry :: "admeta \<Rightarrow> admeta \<Rightarrow> nat \<Rightarrow> (int \<times> 32 word) option" where
  "ad_copy_header_entry add ads eid =
     (if eid = ADEID_COMMENT \<or> eid = ADEID_DFORK \<or> eid = ADEID_RFORK then None
      else if ade_off (ad_eid ads ! eid) = 0 \<or> ade_off (ad_eid add ! eid) = 0 then None
      else if ade_len (ad_eid ads ! eid) \<le> 0 then None
      else map_option (\<lambda>src. (src, word_of_int (ade_len (ad_eid ads ! eid)))) (ad_entry ads eid))"

definition copy_checked :: "admeta \<Rightarrow> admeta \<Rightarrow> bool" where
  "copy_checked add ads \<longleftrightarrow>
     list_all (\<lambda>eid. case ad_copy_header_entry add ads eid of None \<Rightarrow> True | Some (src, len) \<Rightarrow> ad_entry_fits add eid len)
       [0..<ADEID_MAX]"

fun copy_loop :: "admeta \<Rightarrow> nat list \<Rightarrow> admeta \<Rightarrow> admeta option" where
  "copy_loop ads [] add = Some add"
| "copy_loop ads (eid # eids) add =
     (case ad_copy_header_entry add ads eid of
        None \<Rightarrow> copy_loop ads eids add
      | Some (src, len) \<Rightarrow>
          do {
            bs \<leftarrow> peek (ad_data ads) src (unat len);
            buf \<leftarrow> poke (ad_data add) (ad_getentryoff add eid) bs;
            copy_loop ads eids (ad_setentrylen (add\<lparr>ad_data := buf\<rparr>) eid (uint len))
          })"

definition ad_copy_header :: "admeta \<Rightarrow> admeta \<Rightarrow> (int \<times> ad_errno option \<times> admeta) option" where
  "ad_copy_header add ads =
     (if valid_data_len add = 0 then Some (-1, None, add)
      else if \<not> copy_checked add ads then Some (-1, Some AD_EIO, add)
      else do {
        add \<leftarrow> copy_loop ads [0..<ADEID_MAX] add;
        let add = add\<lparr>ad_rlen := ad_rlen ads\<rparr>;
        if (ad_vers ads = AD_VERSION2 \<and> ad_vers add = AD_VERSION_EA) \<or> (ad_vers ads = AD_VERSION_EA \<and> ad_vers add = AD_VERSION2)
        then
          (case ad_entry add ADEID_PRIVID of
             None \<Rightarrow> Some (0, None, add)
           | Some dst \<Rightarrow>
               do {
                 i \<leftarrow> get32 (ad_data add) dst;
                 buf \<leftarrow> put32 (ad_data add) dst (net32 i);
                 Some (0, None, add\<lparr>ad_data := buf\<rparr>)
               })
        else Some (0, None, add)
      })"

subsection \<open>Dates\<close>

definition AD_DATE_UNIX :: "32 word" where "AD_DATE_UNIX = 1024"
definition AD_DATE_MASK :: "32 word" where "AD_DATE_MASK = 12"
definition AD_DATE_DELTA :: "32 word" where "AD_DATE_DELTA = 946684800"
definition AD_DATE_START :: "32 word" where "AD_DATE_START = net32 0x80000000"

definition AD_DATE_FROM_UNIX :: "32 word \<Rightarrow> 32 word" where
  "AD_DATE_FROM_UNIX x = net32 (x - AD_DATE_DELTA)"

definition AD_DATE_TO_UNIX :: "32 word \<Rightarrow> 32 word" where
  "AD_DATE_TO_UNIX x = net32 x + AD_DATE_DELTA"

definition ad_setdate :: "admeta \<Rightarrow> 32 word \<Rightarrow> 32 word \<Rightarrow> (int \<times> admeta) option" where
  "ad_setdate ad dateoff date =
     (let date = (if dateoff AND AD_DATE_UNIX \<noteq> 0 then AD_DATE_FROM_UNIX date else date);
          dateoff = dateoff AND AD_DATE_MASK
      in if ad_getentryoff ad ADEID_FILEDATESI = 0 then Some (-1, ad)
         else
           (case ad_entry ad ADEID_FILEDATESI of
              None \<Rightarrow> Some (-1, ad)
            | Some ade \<Rightarrow>
                if dateoff > 12 then Some (-1, ad)
                else map_option (\<lambda>buf. (0, ad\<lparr>ad_data := buf\<rparr>)) (put32 (ad_data ad) (ade + uint dateoff) date)))"

definition ad_getdate :: "admeta \<Rightarrow> 32 word \<Rightarrow> (32 word option) option" where
  "ad_getdate ad dateoff =
     (let off = dateoff AND AD_DATE_MASK
      in if ad_getentryoff ad ADEID_FILEDATESI = 0 then Some None
         else
           (case ad_entry ad ADEID_FILEDATESI of
              None \<Rightarrow> Some None
            | Some ade \<Rightarrow>
                if off > 12 then Some None
                else map_option (\<lambda>d. Some (if dateoff AND AD_DATE_UNIX \<noteq> 0 then AD_DATE_TO_UNIX d else d))
                       (get32 (ad_data ad) (ade + uint off))))"

subsection \<open>Attributes\<close>

definition ad_forks_held :: "admeta \<Rightarrow> 16 word" where
  "ad_forks_held ad =
     (if ad_data_refcount ad > 0 then 8 else 0) OR (if ad_reso_refcount ad > 0 then 16 else 0) OR ad_held_forks ad"

definition ad_forks_open :: "admeta \<Rightarrow> 16 word" where
  "ad_forks_open ad = ad_forks_held ad OR ad_open_forks ad"

definition opaque_bit :: "16 word \<Rightarrow> 16 word \<Rightarrow> 16 word \<Rightarrow> 16 word \<Rightarrow> 16 word" where
  "opaque_bit from frombit to tobit = (if from AND net16 frombit \<noteq> 0 then to OR net16 tobit else to AND net16 (NOT tobit))"

definition ad_getattr :: "admeta \<Rightarrow> 16 word option" where
  "ad_getattr ad =
     do {
       attr \<leftarrow> (if ad_getentryoff ad ADEID_AFPFILEI = 0 then Some 0
          else
            (case ad_entry ad ADEID_AFPFILEI of
               None \<Rightarrow> Some 0
             | Some adp \<Rightarrow>
                 do {
                   attr \<leftarrow> get16 (ad_data ad) (adp + 2);
                   fflags \<leftarrow> (case ad_entry ad ADEID_FINDERI of None \<Rightarrow> Some 0 | Some adp \<Rightarrow> get16 (ad_data ad) (adp + 8));
                   let attr = opaque_bit fflags FINDERINFO_INVISIBLE attr ATTRBIT_INVISIBLE;
                   Some (if ad_adflags ad AND ADFLAGS_DIR = 0 then opaque_bit fflags FINDERINFO_ISHARED attr ATTRBIT_MULTIUSER else attr)
                 }));
       Some (attr OR net16 (ad_forks_open ad))
     }"

definition ad_setattr :: "admeta \<Rightarrow> 16 word \<Rightarrow> admeta option" where
  "ad_setattr ad attribute =
     (let attr = attribute AND NOT (net16 ATTRBIT_OPEN);
          attr = (if ad_adflags ad AND ADFLAGS_DIR \<noteq> 0
                  then attr AND NOT (net16 (ATTRBIT_MULTIUSER OR ATTRBIT_NOWRITE OR ATTRBIT_NOCOPY)) else attr)
      in if ad_getentryoff ad ADEID_AFPFILEI = 0 then Some ad
         else
           (case ad_entry ad ADEID_AFPFILEI of
              None \<Rightarrow> Some ad
            | Some ade \<Rightarrow>
                if ad_getentryoff ad ADEID_FINDERI = 0 then Some ad
                else
                  (case ad_entry ad ADEID_FINDERI of
                     None \<Rightarrow> Some ad
                   | Some adp \<Rightarrow>
                       do {
                         buf \<leftarrow> put16 (ad_data ad) (ade + 2) attr;
                         fflags \<leftarrow> get16 buf (adp + 8);
                         let fflags = opaque_bit attr ATTRBIT_INVISIBLE fflags FINDERINFO_INVISIBLE;
                         let fflags = (if attr AND net16 ATTRBIT_MULTIUSER \<noteq> 0
                             then (if ad_adflags ad AND ADFLAGS_DIR = 0 then fflags OR net16 FINDERINFO_ISHARED else fflags)
                             else fflags AND net16 (NOT FINDERINFO_ISHARED));
                         buf \<leftarrow> put16 buf (adp + 8) fflags;
                         Some (ad\<lparr>ad_data := buf\<rparr>)
                       })))"

subsection \<open>Identity and name\<close>

text \<open>A step of \<open>ad_setid\<close>: set the length of the entry, find it and write; \<open>Inl\<close> is the failure.\<close>

definition put_entry :: "admeta \<Rightarrow> nat \<Rightarrow> int \<Rightarrow> bytes \<Rightarrow> (admeta + admeta) option" where
  "put_entry ad eid len bs =
     (let ad = ad_setentrylen ad eid len in
      case ad_entry ad eid of
        None \<Rightarrow> Some (Inl ad)
      | Some ade \<Rightarrow> map_option (\<lambda>buf. Inr (ad\<lparr>ad_data := buf\<rparr>)) (poke (ad_data ad) ade bs))"

text \<open>The lengths that the failed call has changed go back to what they were.\<close>

definition restore_lens :: "admeta \<Rightarrow> nat list \<Rightarrow> admeta \<Rightarrow> admeta" where
  "restore_lens was eids ad = fold (\<lambda>eid ad. if ad_getentrylen was eid \<noteq> -1 then ad_setentrylen ad eid (ad_getentrylen was eid) else ad) eids ad"

fun setid_steps :: "admeta \<Rightarrow> (nat \<times> int \<times> bytes) list \<Rightarrow> nat list \<Rightarrow> admeta \<Rightarrow> (int \<times> admeta) option" where
  "setid_steps was [] seen ad = Some (1, ad)"
| "setid_steps was ((eid, len, bs) # steps) seen ad =
     (case put_entry ad eid len bs of
        None \<Rightarrow> None
      | Some (Inl ad) \<Rightarrow> Some (0, restore_lens was (seen @ [eid]) ad)
      | Some (Inr ad) \<Rightarrow> setid_steps was steps (seen @ [eid]) ad)"

definition id_writes :: "admeta \<Rightarrow> 64 word \<Rightarrow> 64 word \<Rightarrow> 32 word \<Rightarrow> 32 word \<Rightarrow> bytes \<Rightarrow> (nat \<times> int \<times> bytes) list" where
  "id_writes adp dev ino cnid did stamp =
     [(ADEID_PRIVID, 4, le_bytes 4 (if ad_vers adp = AD_VERSION_EA then net32 cnid else cnid)),
      (ADEID_PRIVDEV, 8, if ad_options adp AND ADVOL_NODEV \<noteq> 0 then replicate 8 0 else le_bytes 8 dev),
      (ADEID_PRIVINO, 8, le_bytes 8 ino)] @
     (if ad_vers adp \<noteq> AD_VERSION_EA then [(ADEID_DID, 4, le_bytes 4 did)] else []) @
     [(ADEID_PRIVSYN, 8, stamp)]"

definition ad_setid :: "admeta \<Rightarrow> 64 word \<Rightarrow> 64 word \<Rightarrow> 32 word \<Rightarrow> 32 word \<Rightarrow> bytes \<Rightarrow> (int \<times> admeta) option" where
  "ad_setid adp dev ino cnid did stamp = setid_steps adp (id_writes adp dev ino cnid did stamp) [] adp"

definition ad_forcegetid :: "admeta \<Rightarrow> 32 word option" where
  "ad_forcegetid adp =
     (case ad_entry adp ADEID_PRIVID of
        None \<Rightarrow> Some 0
      | Some ade \<Rightarrow> map_option (\<lambda>a. if ad_vers adp = AD_VERSION2 then a else net32 a) (get32 (ad_data adp) ade))"

definition ad_getid :: "admeta \<Rightarrow> 64 word \<Rightarrow> 64 word \<Rightarrow> 32 word \<Rightarrow> 32 word option" where
  "ad_getid adp st_dev st_ino did =
     (if ad_getentrylen adp ADEID_PRIVDEV \<noteq> 8 then Some 0
      else
        (case ad_entry adp ADEID_PRIVDEV of
           None \<Rightarrow> Some 0
         | Some ade \<Rightarrow>
             do {
               dev \<leftarrow> map_option le_word (peek (ad_data adp) ade 8);
               if ad_getentrylen adp ADEID_PRIVINO \<noteq> 8 then Some 0
               else
                 (case ad_entry adp ADEID_PRIVINO of
                    None \<Rightarrow> Some 0
                  | Some ade \<Rightarrow>
                      do {
                        ino \<leftarrow> map_option le_word (peek (ad_data adp) ade 8);
                        a_did \<leftarrow> (if ad_vers adp = AD_VERSION_EA then Some (Some 0)
                          else (case ad_entry adp ADEID_DID of None \<Rightarrow> Some None | Some ade \<Rightarrow> map_option Some (get32 (ad_data adp) ade)));
                        case a_did of
                          None \<Rightarrow> Some 0
                        | Some a_did \<Rightarrow>
                            if (ad_options adp AND ADVOL_NODEV \<noteq> 0 \<or> dev = st_dev) \<and> ino = st_ino \<and> (did = 0 \<or> a_did = 0 \<or> a_did = did)
                            then ad_forcegetid adp
                            else Some 0
                      })
             }))"

definition ad_setname :: "admeta \<Rightarrow> bytes \<Rightarrow> (int \<times> admeta) option" where
  "ad_setname ad path =
     (let len = (if length path > ADEDLEN_NAME then ADEDLEN_NAME else length path) in
      if ad_getentryoff ad ADEID_NAME = 0 then Some (0, ad)
      else
        (let ad = ad_setentrylen ad ADEID_NAME (int len) in
         case ad_entry ad ADEID_NAME of
           None \<Rightarrow> Some (-1, ad)
         | Some ade \<Rightarrow> map_option (\<lambda>buf. (1, ad\<lparr>ad_data := buf\<rparr>)) (poke (ad_data ad) ade (take len path))))"

subsection \<open>A fresh header\<close>

text \<open>\<open>mtime\<close> is the modification time from the caller or from \<open>lstat\<close>; \<open>None\<close> is a failed call.\<close>

definition new_ad_header :: "admeta \<Rightarrow> bytes \<Rightarrow> 32 word option \<Rightarrow> 32 word \<Rightarrow> (int \<times> admeta) option" where
  "new_ad_header ad path mtime adflags =
     (case ad_init_offsets ad of
        (r, ad) \<Rightarrow>
          if r \<noteq> 0 then Some (-1, ad)
          else
            (let ad = (if valid_data_len ad = 0
                       then ad\<lparr>valid_data_len := (if ad_vers ad = AD_VERSION_EA then AD_DATASZ_EA else AD_DATASZ2)\<rparr> else ad) in
             case ad_entry ad ADEID_FINDERI of
               None \<Rightarrow> Some (-1, ad)
             | Some adp \<Rightarrow>
                 do {
                   ad \<leftarrow> (if ad_options ad AND ADVOL_INVDOTS \<noteq> 0 \<and> take 1 path = [0x2e] \<and>
                            \<not> (adflags AND ADFLAGS_DIR \<noteq> 0 \<and> length path = 1)
                     then do {
                       ad \<leftarrow> ad_setattr ad (net16 ATTRBIT_INVISIBLE);
                       buf \<leftarrow> put16 (ad_data ad) (adp + 8) (net16 FINDERINFO_INVISIBLE);
                       Some (ad\<lparr>ad_data := buf\<rparr>)
                     }
                     else Some ad);
                   case mtime of
                     None \<Rightarrow> Some (-1, ad\<lparr>valid_data_len := 0\<rparr>)
                   | Some t \<Rightarrow>
                       do {
                         (_, ad) \<leftarrow> ad_setdate ad (0 OR AD_DATE_UNIX) t;
                         (_, ad) \<leftarrow> ad_setdate ad (4 OR AD_DATE_UNIX) t;
                         (_, ad) \<leftarrow> ad_setdate ad (12 OR AD_DATE_UNIX) t;
                         (_, ad) \<leftarrow> ad_setdate ad 8 AD_DATE_START;
                         Some (0, ad)
                       }
                 }))"

end
