(* ===== verification/Ad_Header_Safe.thy ===== *)
theory Ad_Header_Safe
  imports Ad_Header
begin

text \<open>
  Memory safety of the metadata operations: whatever bytes a header holds, and in whatever order
  the operations run, no read or write leaves the buffer.
\<close>

definition safe_entry :: "nat \<Rightarrow> adentry \<Rightarrow> bool" where
  "safe_entry i e \<longleftrightarrow> 0 \<le> ade_off e \<and> ade_off e < 2 ^ 32 \<and> 0 \<le> ade_len e \<and> ade_len e < 2 ^ 32 \<and>
     (i \<noteq> ADEID_RFORK \<longrightarrow> ade_off e \<le> AD_DATASZ2)"

definition meta_safe :: "admeta \<Rightarrow> bool" where
  "meta_safe ad \<longleftrightarrow> length (ad_data ad) = AD_DATASZ_MAX \<and> length (ad_eid ad) = ADEID_MAX \<and>
     valid_data_len ad \<le> AD_DATASZ2 \<and> (\<forall>i < ADEID_MAX. safe_entry i (ad_eid ad ! i))"

lemma meta_safeD:
  assumes "meta_safe ad"
  shows "length (ad_data ad) = AD_DATASZ_MAX" "length (ad_eid ad) = ADEID_MAX" "valid_data_len ad \<le> AD_DATASZ2"
    "i < ADEID_MAX \<Longrightarrow> safe_entry i (ad_eid ad ! i)"
  using assms by (simp_all add: meta_safe_def)

lemma safe_data: "meta_safe ad \<Longrightarrow> length buf = AD_DATASZ_MAX \<Longrightarrow> meta_safe (ad\<lparr>ad_data := buf\<rparr>)"
  by (simp add: meta_safe_def)

lemma safe_eid:
  "meta_safe ad \<Longrightarrow> safe_entry i e \<Longrightarrow> meta_safe (ad\<lparr>ad_eid := (ad_eid ad)[i := e]\<rparr>)"
  by (cases "i < 20") (auto simp: meta_safe_def nth_list_update)

lemma word_of_int_32: "0 \<le> k \<Longrightarrow> k < 2 ^ 32 \<Longrightarrow> uint (word_of_int k :: 32 word) = k"
  "0 \<le> k \<Longrightarrow> k < 2 ^ 32 \<Longrightarrow> unat (word_of_int k :: 32 word) = nat k"
  by (simp_all add: uint_word_of_int flip: nat_uint_eq)

lemma safe_setlen: "meta_safe ad \<Longrightarrow> eid < ADEID_MAX \<Longrightarrow> 0 \<le> len \<Longrightarrow> len < 2 ^ 32 \<Longrightarrow> meta_safe (ad_setentrylen ad eid len)"
  unfolding ad_setentrylen_def by (rule safe_eid) (auto dest: meta_safeD(4) simp: safe_entry_def)

lemma safe_simps [simp]:
  "meta_safe (ad\<lparr>ad_magic := m\<rparr>) = meta_safe ad" "meta_safe (ad\<lparr>ad_version := v\<rparr>) = meta_safe ad"
  "meta_safe (ad\<lparr>ad_rlen := n\<rparr>) = meta_safe ad"
  by (simp_all add: meta_safe_def)

lemma poke_data:
  assumes "meta_safe ad" "0 \<le> p" "p + int (length bs) \<le> AD_DATASZ_MAX"
  shows "\<exists>buf. poke (ad_data ad) p bs = Some buf \<and> meta_safe (ad\<lparr>ad_data := buf\<rparr>)"
  using poke_ok[of p bs "ad_data ad"] poke_length[of "ad_data ad" p bs] assms safe_data by (fastforce simp: meta_safe_def)

lemma peek_data: "meta_safe ad \<Longrightarrow> 0 \<le> p \<Longrightarrow> p + int n \<le> AD_DATASZ_MAX \<Longrightarrow> \<exists>bs. peek (ad_data ad) p n = Some bs"
  by (rule peek_ok) (simp_all add: meta_safe_def)

subsection \<open>Where an entry lies\<close>

lemma check_size_bound:
  assumes "ad_entry_check_size eid bufsize off len" "len \<noteq> 0" "eid \<noteq> ADEID_DFORK" "eid \<noteq> ADEID_RFORK"
  shows "unat off + unat len \<le> bufsize"
proof -
  have e: "eid < 20" using assms(1) by (auto simp: ad_entry_check_size_def split: if_splits)
  obtain x f m where c: "ad_checks ! eid = (x, f, m)" by (cases "ad_checks ! eid")
  have "eid \<in> set [0, 1, 2, 3, 4, 5, 6, 7, 8, 9, 10, 11, 12, 13, 14, 15, 16, 17, 18, 19]"
    using e by (auto simp: less_Suc_eq numeral_eq_Suc)
  then have x: "x = 0 \<or> (0 < x \<and> x \<le> 1024)" using c assms(3,4) by (auto simp: ad_checks_def)
  have nz: "x \<noteq> 0" using assms(1,2) c e by (auto simp: ad_entry_check_size_def)
  let ?r = "if f \<or> m then len else word_of_int x"
  have r: "\<not> off + ?r < off" "unat (off + ?r) \<le> bufsize" "\<not> f \<Longrightarrow> \<not> m \<Longrightarrow> uint len \<le> x"
    using assms(1,2) c e x nz by (auto simp: ad_entry_check_size_def Let_def split: if_splits)
  have "unat (off + ?r) = unat off + unat ?r"
    using r(1) unat_plus_if'[of off ?r] unsigned_less[of off, where 'a = nat] unsigned_less[of ?r, where 'a = nat]
    unfolding word_less_nat_alt by (cases "unat off + unat ?r < 2 ^ 32") simp_all
  moreover have "unat len \<le> unat ?r"
  proof (cases "f \<or> m")
    case False
    then have "uint len \<le> x" using r(3) by simp
    moreover have "uint (word_of_int x :: 32 word) = x" using x nz by (simp add: word_of_int_32)
    ultimately show ?thesis using False by (simp add: nat_mono flip: nat_uint_eq)
  qed simp
  ultimately show ?thesis using r(2) by linarith
qed

lemma entry_bound:
  assumes "meta_safe ad" "eid < ADEID_MAX" "eid \<noteq> ADEID_DFORK" "eid \<noteq> ADEID_RFORK" "ad_entry ad eid = Some p"
  shows "0 < p" "p \<le> AD_DATASZ2" "p + ad_getentrylen ad eid \<le> AD_DATASZ2 \<or> ad_getentrylen ad eid = 0" "p = ade_off (ad_eid ad ! eid)"
proof -
  have s: "safe_entry eid (ad_eid ad ! eid)" using assms(1,2) by (rule meta_safeD(4))
  have p: "p = ad_getentryoff ad eid" "p \<noteq> 0" "ad_entry_fits ad eid (word_of_int (ad_getentrylen ad eid))"
    using assms(5) by (auto simp: ad_entry_def ad_entry_fits_def split: if_splits)
  have o: "p = ade_off (ad_eid ad ! eid)" using p(1,2) by (auto simp: ad_getentryoff_def split: if_splits)
  then show "0 < p" "p \<le> AD_DATASZ2" "p = ade_off (ad_eid ad ! eid)" using s p(2) assms(4) by (auto simp: safe_entry_def)
  have off: "unat (word_of_int p :: 32 word) = nat p" using o s by (simp add: safe_entry_def word_of_int_32)
  have len: "unat (word_of_int (ad_getentrylen ad eid) :: 32 word) = nat (ad_getentrylen ad eid)" "0 \<le> ad_getentrylen ad eid"
    using s by (simp_all add: safe_entry_def ad_getentrylen_def word_of_int_32)
  show "p + ad_getentrylen ad eid \<le> AD_DATASZ2 \<or> ad_getentrylen ad eid = 0"
  proof (cases "ad_getentrylen ad eid = 0")
    case False
    then have "(word_of_int (ad_getentrylen ad eid) :: 32 word) \<noteq> 0" using len by (metis nat_0_iff order_antisym unat_0)
    then have "nat p + nat (ad_getentrylen ad eid) \<le> valid_data_len ad"
      using check_size_bound[of eid "valid_data_len ad" "word_of_int p" "word_of_int (ad_getentrylen ad eid)"] p(1,3) assms(3,4) off len(1)
      by (auto simp: ad_entry_fits_def)
    then show ?thesis using meta_safeD(3)[OF assms(1)] len(2) \<open>0 < p\<close> by linarith
  qed simp
qed

subsection \<open>The operations\<close>

text \<open>\<open>safely r\<close>: the operation returned, and the metadata it leaves are safe.\<close>

definition safely :: "('r \<times> admeta) option \<Rightarrow> bool" where
  "safely r \<longleftrightarrow> (\<exists>x ad. r = Some (x, ad) \<and> meta_safe ad)"

lemma safelyI [intro]: "meta_safe ad \<Longrightarrow> safely (Some (x, ad))"
  by (simp add: safely_def)

lemma safely_bind:
  assumes "safely r" "\<And>x ad. r = Some (x, ad) \<Longrightarrow> meta_safe ad \<Longrightarrow> safely (f (x, ad))"
  shows "safely (Option.bind r f)"
  using assms by (auto simp: safely_def)

lemma poke_safely:
  assumes "meta_safe ad" "0 \<le> p" "p + int (length bs) \<le> AD_DATASZ_MAX"
  shows "safely (map_option (\<lambda>buf. (x, ad\<lparr>ad_data := buf\<rparr>)) (poke (ad_data ad) p bs))"
  using poke_data[OF assms] by (auto simp: safely_def)

lemma date_offset: "uint (d AND AD_DATE_MASK) \<le> 12"
  using word_and_le1[of d AD_DATE_MASK] by (simp add: AD_DATE_MASK_def word_le_def)

lemma setdate_safe: assumes "meta_safe ad" shows "safely (ad_setdate ad d v)"
  unfolding ad_setdate_def Let_def
  using assms entry_bound[OF assms, of 8] date_offset[of d]
  by (auto split: option.split intro!: poke_safely)

lemma getdate_safe: assumes "meta_safe ad" shows "ad_getdate ad d \<noteq> None"
proof (cases "ad_entry ad 8")
  case (Some p)
  have "\<exists>bs. peek (ad_data ad) (p + uint (d AND AD_DATE_MASK)) 4 = Some bs"
    by (rule peek_data[OF assms]) (use entry_bound[OF assms _ _ _ Some] date_offset[of d] in auto)
  then show ?thesis by (auto simp: ad_getdate_def Let_def Some)
qed (simp add: ad_getdate_def Let_def)

lemma get16_data: "meta_safe ad \<Longrightarrow> 0 \<le> p \<Longrightarrow> p + 2 \<le> AD_DATASZ_MAX \<Longrightarrow> \<exists>w. get16 (ad_data ad) p = Some w"
  using peek_data[of ad p 2] by auto

lemma put16_buf: "length buf = 1024 \<Longrightarrow> 0 \<le> r \<Longrightarrow> r + 2 \<le> 1024 \<Longrightarrow> \<exists>buf'. put16 buf r w = Some buf' \<and> length buf' = 1024"
  using poke_ok[of r "le_bytes 2 w" buf] poke_length[of buf r "le_bytes 2 w"] by auto

lemma entry_off: "ad_entry ad eid = Some p \<Longrightarrow> ad_getentryoff ad eid = p" "ad_entry ad eid = Some p \<Longrightarrow> p \<noteq> 0"
  by (auto simp: ad_entry_def ad_entry_fits_def split: if_splits)

lemma getattr_safe: assumes "meta_safe ad" shows "ad_getattr ad \<noteq> None"
proof (cases "ad_entry ad 14")
  case (Some p)
  obtain a where a: "get16 (ad_data ad) (p + 2) = Some a" using get16_data[OF assms, of "p + 2"] entry_bound[OF assms _ _ _ Some] by auto
  obtain f where "(case ad_entry ad 9 of None \<Rightarrow> Some 0 | Some q \<Rightarrow> get16 (ad_data ad) (q + 8)) = Some f"
  proof (cases "ad_entry ad 9")
    case q: (Some q)
    then show ?thesis using that get16_data[OF assms, of "q + 8"] entry_bound[OF assms _ _ _ q] by auto
  qed (use that in simp)
  then show ?thesis by (simp add: ad_getattr_def Some a Let_def)
qed (simp add: ad_getattr_def)

lemma setattr_safe: assumes "meta_safe ad" shows "\<exists>ad'. ad_setattr ad a = Some ad' \<and> meta_safe ad'"
proof (cases "ad_entry ad 14")
  case p: (Some p)
  show ?thesis
  proof (cases "ad_entry ad 9")
    case q: (Some q)
    have b: "0 \<le> p + 2" "p + 2 + 2 \<le> 1024" "0 \<le> q + 8" "q + 8 + 2 \<le> 1024"
      using entry_bound[OF assms _ _ _ p] entry_bound[OF assms _ _ _ q] by auto
    have d: "length (ad_data ad) = 1024" using assms by (simp add: meta_safe_def)
    define at where "at = (if ad_adflags ad AND ADFLAGS_DIR \<noteq> 0
        then (a AND NOT (net16 ATTRBIT_OPEN)) AND NOT (net16 (ATTRBIT_MULTIUSER OR ATTRBIT_NOWRITE OR ATTRBIT_NOCOPY))
        else a AND NOT (net16 ATTRBIT_OPEN))"
    obtain buf where buf: "put16 (ad_data ad) (p + 2) at = Some buf" "length buf = 1024" using put16_buf[OF d b(1,2)] by blast
    obtain z where z: "peek buf (q + 8) 2 = Some z" using peek_ok[of "q + 8" 2 buf] b(3,4) buf(2) by auto
    define f :: "16 word" where "f = le_word z"
    define ff where "ff = (if at AND net16 ATTRBIT_MULTIUSER \<noteq> 0
        then (if ad_adflags ad AND ADFLAGS_DIR = 0 then opaque_bit at ATTRBIT_INVISIBLE f FINDERINFO_INVISIBLE OR net16 FINDERINFO_ISHARED
              else opaque_bit at ATTRBIT_INVISIBLE f FINDERINFO_INVISIBLE)
        else opaque_bit at ATTRBIT_INVISIBLE f FINDERINFO_INVISIBLE AND net16 (NOT FINDERINFO_ISHARED))"
    obtain buf' where buf': "put16 buf (q + 8) ff = Some buf'" "length buf' = 1024" using put16_buf[OF buf(2) b(3,4)] by blast
    have "ad_setattr ad a = Some (ad\<lparr>ad_data := buf'\<rparr>)"
      unfolding ad_setattr_def Let_def at_def[symmetric] p q option.case entry_off[OF p] entry_off[OF q]
      using buf z buf'(1)[unfolded ff_def f_def] entry_off(2)[OF p] entry_off(2)[OF q] by simp
    then show ?thesis using safe_data[OF assms buf'(2)] by simp
  qed (use assms in \<open>simp add: ad_setattr_def Let_def p\<close>)
qed (use assms in \<open>simp add: ad_setattr_def Let_def\<close>)

lemma getentrylen_set [simp]: "eid < length (ad_eid ad) \<Longrightarrow> ad_getentrylen (ad_setentrylen ad eid len) eid = len"
  by (simp add: ad_getentrylen_def ad_setentrylen_def)

lemma data_setlen [simp]: "ad_data (ad_setentrylen ad eid len) = ad_data ad"
  by (simp add: ad_setentrylen_def)

lemma put_entry_safe:
  assumes "meta_safe ad" "eid < ADEID_MAX" "eid \<noteq> ADEID_DFORK" "eid \<noteq> ADEID_RFORK" "len = int (length bs)" "length bs < 1024"
  shows "\<exists>r. put_entry ad eid len bs = Some r \<and> (case r of Inl ad' \<Rightarrow> meta_safe ad' | Inr ad' \<Rightarrow> meta_safe ad')"
proof -
  let ?a = "ad_setentrylen ad eid len"
  have s: "meta_safe ?a" by (rule safe_setlen[OF assms(1,2)]) (use assms(5,6) in simp_all)
  show ?thesis
  proof (cases "ad_entry ?a eid")
    case (Some p)
    have "ad_getentrylen ?a eid = len" using assms(1,2) by (simp add: meta_safe_def)
    then have "0 \<le> p" "p + int (length bs) \<le> 1024" using entry_bound[OF s assms(2-4) Some] assms(5) by auto
    from poke_data[OF s this] show ?thesis by (auto simp: put_entry_def Let_def Some)
  qed (use s in \<open>simp add: put_entry_def Let_def\<close>)
qed

lemma restore_safe:
  assumes "meta_safe was" "\<forall>e \<in> set eids. e < ADEID_MAX"
  shows "meta_safe ad \<Longrightarrow> meta_safe (restore_lens was eids ad)"
  using assms(2)
proof (induction eids arbitrary: ad)
  case (Cons e eids)
  have "meta_safe (ad_setentrylen ad e (ad_getentrylen was e))"
    by (rule safe_setlen[OF Cons.prems(1)]) (use meta_safeD(4)[OF assms(1), of e] Cons.prems(2) in \<open>simp_all add: safe_entry_def ad_getentrylen_def\<close>)
  then show ?case using Cons by (simp add: restore_lens_def)
qed (simp add: restore_lens_def)

lemma setid_steps_safe:
  assumes "meta_safe was"
    and "\<forall>(eid, len, bs) \<in> set steps. eid < ADEID_MAX \<and> eid \<noteq> ADEID_DFORK \<and> eid \<noteq> ADEID_RFORK \<and> len = int (length bs) \<and> length bs < 1024"
    and "\<forall>e \<in> set seen. e < ADEID_MAX" "meta_safe ad"
  shows "safely (setid_steps was steps seen ad)"
  using assms(2-)
proof (induction steps arbitrary: seen ad)
  case (Cons st steps)
  obtain eid len bs where st: "st = (eid, len, bs)" by (cases st)
  have e: "eid < 20" "eid \<noteq> 1" "eid \<noteq> 2" "len = int (length bs)" "length bs < 1024" using Cons.prems(1) st by auto
  obtain r where r: "put_entry ad eid len bs = Some r" "case r of Inl ad' \<Rightarrow> meta_safe ad' | Inr ad' \<Rightarrow> meta_safe ad'"
    using put_entry_safe[OF Cons.prems(3) e] by blast
  show ?case using r Cons.prems e(1) st Cons.IH[of "seen @ [eid]"]
    by (cases r) (auto intro!: safelyI restore_safe[OF assms(1)])
qed (simp add: safelyI)

lemma setid_safe:
  assumes "meta_safe ad" "length stamp = 8"
  shows "safely (ad_setid ad dev ino cnid did stamp)"
  unfolding ad_setid_def by (rule setid_steps_safe) (use assms in \<open>auto simp: id_writes_def\<close>)

lemma get32_data: "meta_safe ad \<Longrightarrow> 0 \<le> p \<Longrightarrow> p + 4 \<le> AD_DATASZ_MAX \<Longrightarrow> \<exists>w. get32 (ad_data ad) p = Some w"
  using peek_data[of ad p 4] by auto

lemma forcegetid_safe: assumes "meta_safe ad" shows "\<exists>w. ad_forcegetid ad = Some w"
proof (cases "ad_entry ad 19")
  case (Some p)
  show ?thesis using get32_data[OF assms, of p] entry_bound[OF assms _ _ _ Some] by (auto simp: ad_forcegetid_def Some)
qed (simp add: ad_forcegetid_def)

lemma getid_safe: assumes "meta_safe ad" shows "ad_getid ad dev ino did \<noteq> None"
proof (cases "ad_getentrylen ad 16 \<noteq> 8 \<or> ad_entry ad 16 = None")
  case False
  then obtain p where p: "ad_entry ad 16 = Some p" by auto
  obtain x where x: "peek (ad_data ad) p 8 = Some x" using peek_data[OF assms, of p 8] entry_bound[OF assms _ _ _ p] by auto
  show ?thesis
  proof (cases "ad_getentrylen ad 17 \<noteq> 8 \<or> ad_entry ad 17 = None")
    case F: False
    then obtain q where q: "ad_entry ad 17 = Some q" by auto
    obtain y where y: "peek (ad_data ad) q 8 = Some y" using peek_data[OF assms, of q 8] entry_bound[OF assms _ _ _ q] by auto
    obtain w where w: "ad_forcegetid ad = Some w" using forcegetid_safe[OF assms] by blast
    have d: "\<exists>w. get32 (ad_data ad) r = Some w" if "ad_entry ad 15 = Some r" for r
      using get32_data[OF assms, of r] entry_bound[OF assms _ _ _ that] by auto
    show ?thesis using False F d unfolding ad_getid_def p q option.case x y w
      by (auto split: option.split)
  qed (use False p x in \<open>auto simp: ad_getid_def\<close>)
qed (auto simp: ad_getid_def)

lemma setname_safe: assumes "meta_safe ad" shows "safely (ad_setname ad path)"
proof -
  let ?n = "if length path > 255 then 255 else length path"
  let ?a = "ad_setentrylen ad 3 (int ?n)"
  have s: "meta_safe ?a" by (rule safe_setlen[OF assms]) simp_all
  have "safely (map_option (\<lambda>buf. (1, ?a\<lparr>ad_data := buf\<rparr>)) (poke (ad_data ?a) p (take ?n path)))" if "ad_entry ?a 3 = Some p" for p
    by (rule poke_safely[OF s]) (use entry_bound[OF s _ _ _ that] in auto)
  then show ?thesis using assms s unfolding ad_setname_def Let_def by (auto split: option.split)
qed

subsection \<open>Headers\<close>

lemma set_entry_safe: "meta_safe ad \<Longrightarrow> safe_entry i \<lparr>ade_off = off, ade_len = len\<rparr> \<Longrightarrow> meta_safe (ad\<lparr>ad_eid := set_entry (i, off, len) (ad_eid ad)\<rparr>)"
  by (simp add: set_entry_def safe_eid)

lemma get_eid_bound: "unat (get_eid e) < ADEID_MAX"
  by (auto simp: get_eid_def word_le_nat_alt)

lemma parse_loop_safe:
  assumes "meta_safe ad" "valid \<le> AD_DATASZ2" "0 \<le> p" "p + 12 * int n \<le> AD_DATASZ_MAX"
  shows "safely (parse_loop ad valid n p)"
  using assms
proof (induction n arbitrary: ad p)
  case 0
  then show ?case by (auto simp: meta_safe_def)
next
  case (Suc n)
  obtain e f l where g: "get32 (ad_data ad) p = Some e" "get32 (ad_data ad) (p + 4) = Some f" "get32 (ad_data ad) (p + 8) = Some l"
    using get32_data[OF Suc.prems(1), of p] get32_data[OF Suc.prems(1), of "p + 4"] get32_data[OF Suc.prems(1), of "p + 8"] Suc.prems(3,4) by auto
  let ?e = "get_eid (net32 e)" and ?f = "net32 f" and ?l = "net32 l"
  let ?bad = "?e = 0 \<or> unat ?e > 20 \<or> (unat ?e \<noteq> 2 \<and> (unat ?f > valid \<or> unat ?l > valid - unat ?f))"
  have eq: "parse_loop ad valid (Suc n) p = (if ?bad then Some (-1, ad)
      else parse_loop (ad\<lparr>ad_eid := set_entry (unat ?e, uint ?f, uint ?l) (ad_eid ad)\<rparr>) valid n (p + 12))"
    by (simp only: parse_loop.simps g Let_def Option.bind.simps)
  show ?case
  proof (cases ?bad)
    case False
    have "uint ?f \<le> 741" if "unat ?e \<noteq> 2"
    proof -
      have "unat ?f \<le> valid" using False that by simp
      then show ?thesis using uint_nat[of ?f] Suc.prems(2) by linarith
    qed
    then have s: "safe_entry (unat ?e) \<lparr>ade_off = uint ?f, ade_len = uint ?l\<rparr>"
      using unsigned_less[of ?f, where 'a = int] unsigned_less[of ?l, where 'a = int]
      unfolding safe_entry_def by simp
    show ?thesis unfolding eq if_not_P[OF False]
      using Suc.IH[OF set_entry_safe[OF Suc.prems(1) s] Suc.prems(2), of "p + 12"] Suc.prems(3,4) by simp
  qed (use Suc.prems(1) eq in \<open>auto\<close>)
qed

lemma read_magic_safe:
  assumes "meta_safe ad"
  shows "\<exists>ad'. read_magic ad = Some ad' \<and> meta_safe ad'"
  using get32_data[OF assms, of 0] get32_data[OF assms, of 4] assms by (auto simp: read_magic_def)

lemma header_read_safe:
  assumes "meta_safe ad"
  shows "\<exists>r e ad'. ad_header_read ad file st_size = Some (r, e, ad') \<and> meta_safe ad'"
proof (cases "file")
  case (Inr content)
  define h where "h = take 741 content"
  have hl: "length h \<le> 741" by (simp add: h_def)
  obtain buf where buf: "poke (ad_data ad) 0 h = Some buf" "meta_safe (ad\<lparr>ad_data := buf\<rparr>)" using poke_data[OF assms, of 0 h] hl by auto
  let ?a = "ad\<lparr>ad_data := buf\<rparr>"
  obtain b where b: "read_magic ?a = Some b" "meta_safe b" using read_magic_safe[OF buf(2)] by blast
  obtain z where z: "peek (ad_data b) 24 2 = Some z" using peek_data[OF b(2), of 24 2] by auto
  let ?n = "unat (net16 (le_word z))"
  have p: "safely (parse_entries b ?n (length h))" if "\<not> ?n > 16"
    unfolding parse_entries_def by (rule parse_loop_safe[OF b(2) hl]) (use that in linarith)+
  then obtain r c where c: "\<not> ?n > 16 \<Longrightarrow> parse_entries b ?n (length h) = Some (r, c)" "\<not> ?n > 16 \<Longrightarrow> meta_safe c"
    by (auto simp: safely_def)
  show ?thesis unfolding ad_header_read_def Inr sum.case h_def[symmetric] Let_def
    using buf b z c by (auto split: option.split)
qed (use assms in \<open>simp add: ad_header_read_def\<close>)

lemma header_ea_safe:
  assumes "meta_safe ad" "length h \<le> AD_DATASZ_EA"
  shows "safely (header_ea ad h)"
proof -
  obtain buf where buf: "poke (ad_data ad) 0 h = Some buf" "meta_safe (ad\<lparr>ad_data := buf\<rparr>)" using poke_data[OF assms(1), of 0 h] assms(2) by auto
  let ?a = "ad\<lparr>ad_data := buf\<rparr>"
  obtain b where b: "read_magic ?a = Some b" "meta_safe b" using read_magic_safe[OF buf(2)] by blast
  obtain z where z: "peek (ad_data b) 24 2 = Some z" using peek_data[OF b(2), of 24 2] by auto
  have p: "safely (parse_entries b 8 (length h))"
    unfolding parse_entries_def by (rule parse_loop_safe[OF b(2)]) (use assms(2) in simp_all)
  then obtain r c where c: "parse_entries b 8 (length h) = Some (r, c)" "meta_safe c" by (auto simp: safely_def)
  have "safe_entry 2 ((ad_eid c ! 2)\<lparr>ade_off := 82\<rparr>)" using meta_safeD(4)[OF c(2), of 2] by (simp add: safe_entry_def)
  then have "meta_safe (ad_setentryoff c 2 82)" unfolding ad_setentryoff_def by (rule safe_eid[OF c(2)])
  then show ?thesis unfolding header_ea_def using buf b z c by (auto simp: Let_def)
qed

lemma header_read_ea_safe:
  assumes "meta_safe ad" "\<And>h. ea = Inr h \<Longrightarrow> length h \<le> AD_DATASZ_EA"
  shows "\<exists>r e ad' d. ad_header_read_ea ad path ea = Some (r, e, ad', d) \<and> meta_safe ad'"
proof (cases ea)
  case (Inr h)
  then obtain x b where "header_ea ad h = Some (x, b)" "meta_safe b" using header_ea_safe[OF assms(1) assms(2)[OF Inr]] by (auto simp: safely_def)
  then show ?thesis using assms(1) by (cases x) (auto simp: ad_header_read_ea_def Inr)
qed (use assms(1) in \<open>auto simp: ad_header_read_ea_def\<close>)

text \<open>Writing a header stays in front of the entries' bytes: at most 20 descriptors.\<close>

lemma put32_buf: "length buf = 1024 \<Longrightarrow> 0 \<le> r \<Longrightarrow> r + 4 \<le> 1024 \<Longrightarrow> \<exists>buf'. put32 buf r w = Some buf' \<and> length buf' = 1024"
  using poke_ok[of r "le_bytes 4 w" buf] poke_length[of buf r "le_bytes 4 w"] by auto

lemma put_entries_ok:
  assumes "length buf = AD_DATASZ_MAX" "0 \<le> p" "p + 12 * int (length eids) \<le> AD_DATASZ_MAX"
  shows "\<exists>buf' n. put_entries skip es eids buf p nent = Some (buf', n) \<and> length buf' = AD_DATASZ_MAX"
  using assms
proof (induction eids arbitrary: buf p nent)
  case (Cons eid eids)
  obtain b1 where b1: "put32 buf p (net32 (set_eid ! eid)) = Some b1" "length b1 = 1024"
    using put32_buf[OF Cons.prems(1), of p] Cons.prems by fastforce
  obtain b2 where b2: "put32 b1 (p + 4) (net32 (word_of_int (ade_off (es ! eid)))) = Some b2" "length b2 = 1024"
    using put32_buf[OF b1(2), of "p + 4"] Cons.prems by fastforce
  obtain b3 where b3: "put32 b2 (p + 8) (net32 (word_of_int (ade_len (es ! eid)))) = Some b3" "length b3 = 1024"
    using put32_buf[OF b2(2), of "p + 8"] Cons.prems by fastforce
  show ?case
  proof (cases "ade_off (es ! eid) = 0 \<or> (skip \<and> eid = 2)")
    case True
    then show ?thesis using Cons.IH[OF Cons.prems(1,2)] Cons.prems(3) by simp
  next
    case False
    then show ?thesis using Cons.IH[OF b3(2), of "p + 12"] Cons.prems(2,3) b1(1) b2(1) b3(1) by auto
  qed
qed simp

lemma rebuild_safe: assumes "meta_safe ad" shows "\<exists>ad'. rebuild_header skip ad = Some ad' \<and> meta_safe ad'"
proof -
  have d: "length (ad_data ad) = 1024" using assms by (rule meta_safeD(1))
  obtain b1 where b1: "put32 (ad_data ad) 0 (net32 (ad_magic ad)) = Some b1" "length b1 = 1024" using put32_buf[OF d, of 0] by auto
  obtain b2 where b2: "put32 b1 4 (net32 (ad_version ad)) = Some b2" "length b2 = 1024" using put32_buf[OF b1(2), of 4] by auto
  obtain b3 n where b3: "put_entries skip (ad_eid ad) [0..<20] b2 26 0 = Some (b3, n)" "length b3 = 1024"
    using put_entries_ok[OF b2(2), of 26 "[0..<20]"] by fastforce
  obtain b4 where b4: "put16 b3 24 (net16 n) = Some b4" "length b4 = 1024" using put16_buf[OF b3(2), of 24] by auto
  show ?thesis unfolding rebuild_header_def b1 Option.bind.simps b2 b3 prod.case b4 using safe_data[OF assms b4(2)] by simp
qed

lemma init_offsets_safe: assumes "meta_safe ad" shows "meta_safe (snd (ad_init_offsets ad))"
proof -
  have f: "meta_safe (b\<lparr>ad_eid := fold set_entry es (ad_eid b)\<rparr>)"
    if "meta_safe b" "\<forall>(i, off, len) \<in> set es. safe_entry i \<lparr>ade_off = off, ade_len = len\<rparr>" for es and b :: admeta
    using that
  proof (induction es arbitrary: b)
    case (Cons x es)
    obtain i off len where x: "x = (i, off, len)" by (cases x)
    from Cons.IH[OF set_entry_safe[of b i off len]] Cons.prems show ?case by (simp add: x)
  qed simp
  let ?b = "ad\<lparr>ad_magic := AD_MAGIC, ad_version := v, ad_data := replicate 1024 0\<rparr>"
  have b: "meta_safe (ad\<lparr>ad_magic := m, ad_version := v, ad_data := replicate 1024 0, valid_data_len := n\<rparr>)" if "n \<le> 741" for m v n
    using assms that by (simp add: meta_safe_def)
  have e: "\<forall>(i, off, len) \<in> set entry_order2. safe_entry i \<lparr>ade_off = off, ade_len = len\<rparr>"
    "\<forall>(i, off, len) \<in> set entry_order_ea. safe_entry i \<lparr>ade_off = off, ade_len = len\<rparr>"
    by (simp_all add: entry_order2_def entry_order_ea_def safe_entry_def)
  have r: "meta_safe (ad_setentryoff c 2 82)" if "meta_safe c" for c
    unfolding ad_setentryoff_def by (rule safe_eid[OF that]) (use meta_safeD(4)[OF that, of 2] in \<open>simp add: safe_entry_def\<close>)
  have d: "meta_safe (ad\<lparr>ad_magic := m, ad_version := v, ad_data := replicate 1024 0\<rparr>)" for m v
    using assms by (simp add: meta_safe_def)
  show ?thesis
    using assms d f[OF b e(1), of 741] r[OF f[OF b e(2), of 402]] unfolding ad_init_offsets_def Let_def by simp
qed

subsection \<open>Copying\<close>

lemma fits_bound:
  assumes "meta_safe ad" "eid < ADEID_MAX" "eid \<noteq> ADEID_DFORK" "eid \<noteq> ADEID_RFORK" "ad_entry_fits ad eid len" "len \<noteq> 0"
  shows "0 < ad_getentryoff ad eid" "ad_getentryoff ad eid + uint len \<le> AD_DATASZ2"
proof -
  have s: "safe_entry eid (ad_eid ad ! eid)" using assms(1,2) by (rule meta_safeD(4))
  have o: "ad_getentryoff ad eid \<noteq> 0" "ad_entry_check_size eid (valid_data_len ad) (word_of_int (ad_getentryoff ad eid)) len"
    using assms(5) by (simp_all add: ad_entry_fits_def)
  have e: "ad_getentryoff ad eid = ade_off (ad_eid ad ! eid)" using o(1) by (auto simp: ad_getentryoff_def split: if_splits)
  then have n: "0 \<le> ad_getentryoff ad eid" "ad_getentryoff ad eid < 2 ^ 32" using s by (simp_all add: safe_entry_def)
  then show "0 < ad_getentryoff ad eid" using o(1) by simp
  have "nat (ad_getentryoff ad eid) + unat len \<le> valid_data_len ad"
    using check_size_bound[OF o(2) assms(6,3,4)] n by (simp add: word_of_int_32)
  then show "ad_getentryoff ad eid + uint len \<le> AD_DATASZ2" using n meta_safeD(3)[OF assms(1)] uint_nat[of len] by linarith
qed

lemma copy_entry_some:
  assumes "ad_copy_header_entry add ads eid = Some (src, len)"
  shows "eid \<noteq> ADEID_COMMENT" "eid \<noteq> ADEID_DFORK" "eid \<noteq> ADEID_RFORK" "ad_entry ads eid = Some src"
    "len = word_of_int (ad_getentrylen ads eid)" "0 < ad_getentrylen ads eid" "ade_off (ad_eid add ! eid) \<noteq> 0"
  using assms by (auto simp: ad_copy_header_entry_def ad_getentrylen_def split: if_splits)

lemma copy_step:
  assumes "eid < ADEID_MAX" "meta_safe add" "meta_safe ads" "ad_copy_header_entry add ads eid = Some (src, len)" "ad_entry_fits add eid len"
  shows "\<exists>bs buf. peek (ad_data ads) src (unat len) = Some bs \<and> poke (ad_data add) (ad_getentryoff add eid) bs = Some buf \<and>
    meta_safe (ad_setentrylen (add\<lparr>ad_data := buf\<rparr>) eid (uint len))"
proof -
  note c = copy_entry_some[OF assms(4)]
  note b = entry_bound[OF assms(3,1) c(2,3,4)]
  have g: "0 \<le> ad_getentrylen ads eid" "ad_getentrylen ads eid < 2 ^ 32"
    using meta_safeD(4)[OF assms(3,1)] by (simp_all add: safe_entry_def ad_getentrylen_def)
  have l: "uint len = ad_getentrylen ads eid" "len \<noteq> 0" using c(5,6) g word_of_int_32(1)[OF g] by auto
  have u: "int (unat len) = uint len" by simp
  obtain bs where bs: "peek (ad_data ads) src (unat len) = Some bs"
    using peek_data[OF assms(3), of src "unat len"] b c(6) l(1) u by auto
  note d = fits_bound[OF assms(2,1) c(2,3) assms(5) l(2)]
  have "0 \<le> ad_getentryoff add eid" "ad_getentryoff add eid + int (length bs) \<le> 1024" using d peek_length[OF bs] u by linarith+
  from poke_data[OF assms(2) this] obtain buf where buf: "poke (ad_data add) (ad_getentryoff add eid) bs = Some buf" "meta_safe (add\<lparr>ad_data := buf\<rparr>)" by blast
  have "meta_safe (ad_setentrylen (add\<lparr>ad_data := buf\<rparr>) eid (uint len))"
    by (rule safe_setlen[OF buf(2) assms(1)]) (use l(1) g in simp_all)
  then show ?thesis using bs buf by blast
qed

definition copy_ready :: "admeta \<Rightarrow> admeta \<Rightarrow> nat \<Rightarrow> bool" where
  "copy_ready add ads eid \<longleftrightarrow> (case ad_copy_header_entry add ads eid of None \<Rightarrow> True | Some (src, len) \<Rightarrow> ad_entry_fits add eid len)"

lemma eid_setlen: "ade_off (ad_eid (ad_setentrylen ad e len) ! i) = ade_off (ad_eid ad ! i)"
  by (cases "e < length (ad_eid ad)") (auto simp: ad_setentrylen_def nth_list_update list_update_beyond)

lemma copy_ready_step: "copy_ready (ad_setentrylen (add\<lparr>ad_data := buf\<rparr>) e len) ads eid \<longleftrightarrow> copy_ready add ads eid"
proof -
  let ?a = "ad_setentrylen (add\<lparr>ad_data := buf\<rparr>) e len"
  have o: "ade_off (ad_eid ?a ! i) = ade_off (ad_eid add ! i)" for i by (simp add: eid_setlen)
  have "ad_copy_header_entry ?a ads eid = ad_copy_header_entry add ads eid" by (simp add: ad_copy_header_entry_def o)
  moreover have "ad_getentryoff ?a eid = ad_getentryoff add eid" by (simp add: ad_getentryoff_def o) (simp add: ad_setentrylen_def)
  then have "ad_entry_fits ?a eid n = ad_entry_fits add eid n" for n by (simp add: ad_entry_fits_def) (simp add: ad_setentrylen_def)
  ultimately show ?thesis by (simp add: copy_ready_def split: option.split)
qed

lemma copy_loop_safe:
  assumes "meta_safe ads" "\<forall>eid \<in> set eids. eid < ADEID_MAX \<and> copy_ready add ads eid" "meta_safe add"
  shows "\<exists>add'. copy_loop ads eids add = Some add' \<and> meta_safe add'"
  using assms(2,3)
proof (induction eids arbitrary: add)
  case (Cons eid eids)
  show ?case
  proof (cases "ad_copy_header_entry add ads eid")
    case (Some x)
    obtain src len where x: "x = (src, len)" by (cases x)
    have c: "eid < 20" "ad_entry_fits add eid len" using Cons.prems(1) Some x by (auto simp: copy_ready_def)
    from copy_step[OF c(1) Cons.prems(2) assms(1) Some[unfolded x] c(2)] obtain bs buf where
      b: "peek (ad_data ads) src (unat len) = Some bs" "poke (ad_data add) (ad_getentryoff add eid) bs = Some buf"
        "meta_safe (ad_setentrylen (add\<lparr>ad_data := buf\<rparr>) eid (uint len))" by blast
    then show ?thesis using Cons.IH[OF _ b(3)] Cons.prems(1) by (simp add: Some x copy_ready_step)
  qed (use Cons in simp)
qed simp

lemma copy_header_safe:
  assumes "meta_safe add" "meta_safe ads"
  shows "\<exists>r e add'. ad_copy_header add ads = Some (r, e, add') \<and> meta_safe add' \<and> (r \<noteq> 0 \<longrightarrow> add' = add)"
proof (cases "valid_data_len add = 0 \<or> \<not> copy_checked add ads")
  case True
  then show ?thesis using assms(1) by (auto simp: ad_copy_header_def)
next
  case False
  then have "\<forall>eid \<in> set [0..<20]. eid < 20 \<and> copy_ready add ads eid" by (auto simp: copy_checked_def list_all_iff copy_ready_def)
  from copy_loop_safe[OF assms(2) this assms(1)] obtain b where b: "copy_loop ads [0..<20] add = Some b" "meta_safe b" by blast
  let ?b = "b\<lparr>ad_rlen := ad_rlen ads\<rparr>"
  have s: "meta_safe ?b" using b(2) by simp
  have sw: "\<exists>i buf. peek (ad_data ?b) dst 4 = Some i \<and> put32 (ad_data ?b) dst (net32 (le_word i)) = Some buf \<and> meta_safe (?b\<lparr>ad_data := buf\<rparr>)"
    if "ad_entry ?b 19 = Some dst" for dst
  proof -
    have d: "0 \<le> dst" "dst + 4 \<le> 1024" using entry_bound[OF s _ _ _ that] by auto
    obtain i where "peek (ad_data ?b) dst 4 = Some i" using peek_data[OF s, of dst 4] d by auto
    then show ?thesis using poke_data[OF s, of dst "le_bytes 4 (net32 (le_word i))"] d by auto
  qed
  show ?thesis using False b s sw unfolding ad_copy_header_def Let_def by (auto split: option.split)
qed

lemma new_ad_header_safe: assumes "meta_safe ad" shows "safely (new_ad_header ad path mtime adflags)"
proof -
  obtain r a where i: "ad_init_offsets ad = (r, a)" "meta_safe a" using init_offsets_safe[OF assms] by (cases "ad_init_offsets ad") auto
  define b where "b = (if valid_data_len a = 0 then a\<lparr>valid_data_len := (if ad_vers a = AD_VERSION_EA then 402 else 741)\<rparr> else a)"
  have b: "meta_safe b" using i(2) by (simp add: b_def meta_safe_def)
  define inv where "inv = (ad_options b AND ADVOL_INVDOTS \<noteq> 0 \<and> take 1 path = [0x2e] \<and> \<not> (adflags AND ADFLAGS_DIR \<noteq> 0 \<and> length path = 1))"
  show ?thesis
  proof (cases "ad_entry b 9")
    case (Some p)
    obtain c where c: "ad_setattr b (net16 ATTRBIT_INVISIBLE) = Some c" "meta_safe c" using setattr_safe[OF b] by blast
    obtain buf where buf: "put16 (ad_data c) (p + 8) (net16 FINDERINFO_INVISIBLE) = Some buf" "meta_safe (c\<lparr>ad_data := buf\<rparr>)"
      using poke_data[OF c(2), of "p + 8" "le_bytes 2 (net16 FINDERINFO_INVISIBLE)"] entry_bound(1,2)[OF b _ _ _ Some] by auto
    define d where "d = (if inv then c\<lparr>ad_data := buf\<rparr> else b)"
    have d: "meta_safe d" using b buf(2) by (simp add: d_def)
    have eq: "new_ad_header ad path mtime adflags = (if r \<noteq> 0 then Some (-1, a)
      else case mtime of None \<Rightarrow> Some (-1, d\<lparr>valid_data_len := 0\<rparr>)
        | Some t \<Rightarrow> do { (_, ad) \<leftarrow> ad_setdate d (0 OR AD_DATE_UNIX) t; (_, ad) \<leftarrow> ad_setdate ad (4 OR AD_DATE_UNIX) t;
            (_, ad) \<leftarrow> ad_setdate ad (12 OR AD_DATE_UNIX) t; (_, ad) \<leftarrow> ad_setdate ad 8 AD_DATE_START; Some (0, ad) })"
      unfolding new_ad_header_def i(1) prod.case Let_def b_def[symmetric] Some option.case inv_def[symmetric] d_def
      using c(1) buf(1) by (cases inv) simp_all
    have dates: "safely (do { (_, ad) \<leftarrow> ad_setdate d (0 OR AD_DATE_UNIX) t; (_, ad) \<leftarrow> ad_setdate ad (4 OR AD_DATE_UNIX) t;
            (_, ad) \<leftarrow> ad_setdate ad (12 OR AD_DATE_UNIX) t; (_, ad) \<leftarrow> ad_setdate ad 8 AD_DATE_START; Some (0, ad) })" for t
      by (intro safely_bind setdate_safe[OF d] | simp add: setdate_safe safelyI split: prod.split)+
    show ?thesis unfolding eq using i(2) d dates by (auto simp: meta_safe_def split: option.split intro!: safelyI)
  qed (use i b b_def in \<open>auto simp: new_ad_header_def Let_def intro!: safelyI\<close>)
qed

end
