(* ===== verification/Ad_Header_Trip.thy ===== *)
theory Ad_Header_Trip
  imports Ad_Header_Safe
begin

text \<open>
  Writing the table of entries and reading it back: the descriptors that one side writes are the
  ones that the other side finds, whatever lies around them in the buffer.
\<close>

definition entry_bytes :: "adentry list \<Rightarrow> nat \<Rightarrow> bytes" where
  "entry_bytes es i =
     rev (le_bytes 4 (set_eid ! i)) @ rev (le_bytes 4 (word_of_int (ade_off (es ! i)) :: 32 word)) @
     rev (le_bytes 4 (word_of_int (ade_len (es ! i)) :: 32 word))"

definition written :: "bool \<Rightarrow> adentry list \<Rightarrow> nat list \<Rightarrow> nat list" where
  "written skip es eids = filter (\<lambda>i. ade_off (es ! i) \<noteq> 0 \<and> \<not> (skip \<and> i = ADEID_RFORK)) eids"

lemma length_entry_bytes [simp]: "length (entry_bytes es i) = 12"
  by (simp add: entry_bytes_def)

lemma length_entries [simp]: "length (concat (map (entry_bytes es) is)) = 12 * length is"
  by (induction "is") simp_all

lemma poke_append:
  assumes "length old = length new" "p = int (length pre)"
  shows "poke (pre @ old @ post) p new = Some (pre @ new @ post)"
  using assms by (simp add: poke_def)

lemma peek_append: "n = length a \<Longrightarrow> p = int (length pre) \<Longrightarrow> peek (pre @ a @ post) p n = Some a"
  by (simp add: peek_def)

lemma net32_bytes [simp]: "le_bytes 4 (net32 w) = rev (le_bytes 4 w)"
  by (rule le_bytes_bswap) simp

lemma net16_bytes [simp]: "le_bytes 2 (net16 w) = rev (le_bytes 2 w)"
  by (rule le_bytes_bswap) simp

lemma net32_word [simp]: "net32 (le_word (rev (le_bytes 4 w))) = w"
  unfolding bswap_def[symmetric] by simp

lemma net16_word [simp]: "net16 (le_word (rev (le_bytes 2 w))) = w"
  unfolding bswap_def[symmetric] by simp

subsection \<open>Writing\<close>

lemma put_entry_bytes:
  assumes "length old = 12" "p = int (length pre)"
  shows "do { buf \<leftarrow> put32 (pre @ old @ post) p (net32 (set_eid ! i));
      buf \<leftarrow> put32 buf (p + 4) (net32 (word_of_int (ade_off (es ! i))));
      buf \<leftarrow> put32 buf (p + 8) (net32 (word_of_int (ade_len (es ! i))));
      f buf } = f (pre @ entry_bytes es i @ post)"
proof -
  define a b c where "a = take 4 old" and "b = take 4 (drop 4 old)" and "c = drop 8 old"
  have old: "old = a @ b @ c" unfolding a_def b_def c_def by (metis append_take_drop_id drop_drop numeral_Bit0)
  have l: "length a = 4" "length b = 4" "length c = 4" using assms(1) by (simp_all add: a_def b_def c_def)
  let ?x = "rev (le_bytes 4 (set_eid ! i))" and ?y = "rev (le_bytes 4 (word_of_int (ade_off (es ! i)) :: 32 word))"
    and ?z = "rev (le_bytes 4 (word_of_int (ade_len (es ! i)) :: 32 word))"
  have 1: "poke (pre @ old @ post) p ?x = Some (pre @ ?x @ b @ c @ post)"
    using poke_append[of a ?x p pre "b @ c @ post"] l assms(2) by (simp add: old)
  have 2: "poke (pre @ ?x @ b @ c @ post) (p + 4) ?y = Some (pre @ ?x @ ?y @ c @ post)"
    using poke_append[of b ?y "p + 4" "pre @ ?x" "c @ post"] l assms(2) by simp
  have 3: "poke (pre @ ?x @ ?y @ c @ post) (p + 8) ?z = Some (pre @ ?x @ ?y @ ?z @ post)"
    using poke_append[of c ?z "p + 8" "pre @ ?x @ ?y" post] l assms(2) by simp
  show ?thesis by (simp add: 1 2 3 entry_bytes_def)
qed

lemma put_entries_written:
  assumes "length old = 12 * length (written skip es eids)" "p = int (length pre)"
  shows "put_entries skip es eids (pre @ old @ post) p nent =
    Some (pre @ concat (map (entry_bytes es) (written skip es eids)) @ post, nent + of_nat (length (written skip es eids)))"
  using assms
proof (induction eids arbitrary: pre old p nent)
  case (Cons i eids)
  show ?case
  proof (cases "ade_off (es ! i) = 0 \<or> (skip \<and> i = 2)")
    case True
    then have w: "written skip es (i # eids) = written skip es eids" by (auto simp: written_def)
    show ?thesis unfolding w using Cons.IH[OF Cons.prems[unfolded w]] True by simp
  next
    case False
    then have w: "written skip es (i # eids) = i # written skip es eids" by (simp add: written_def)
    define o1 o2 where "o1 = take 12 old" and "o2 = drop 12 old"
    have o: "old = o1 @ o2" "length o1 = 12" "length o2 = 12 * length (written skip es eids)"
      using Cons.prems(1) by (simp_all add: o1_def o2_def w)
    have "put_entries skip es (i # eids) (pre @ old @ post) p nent =
      put_entries skip es eids ((pre @ entry_bytes es i) @ o2 @ post) (p + 12) (nent + 1)"
      using put_entry_bytes[OF o(2) Cons.prems(2), of "o2 @ post" i es "\<lambda>buf. put_entries skip es eids buf (p + 12) (nent + 1)"] False
      by (simp only: put_entries.simps if_not_P[OF False] o(1) append_assoc if_False)
    also have "\<dots> = Some ((pre @ entry_bytes es i) @ concat (map (entry_bytes es) (written skip es eids)) @ post,
        nent + 1 + of_nat (length (written skip es eids)))"
      by (rule Cons.IH[OF o(3)]) (use Cons.prems(2) in simp)
    finally show ?thesis by (simp add: w add.assoc)
  qed
qed (simp add: written_def)

subsection \<open>Reading\<close>

lemma get_set_eid: "i < ADEID_MAX \<Longrightarrow> get_eid (set_eid ! i) = of_nat i"
proof -
  assume "i < 20"
  then have "i \<in> set [0, 1, 2, 3, 4, 5, 6, 7, 8, 9, 10, 11, 12, 13, 14, 15, 16, 17, 18, 19]" by (auto simp: less_Suc_eq numeral_eq_Suc)
  then show ?thesis by (auto simp: get_eid_def set_eid_def ad_disk_ids)
qed

text \<open>An entry that the reader accepts, in a header of \<open>valid\<close> bytes.\<close>

definition readable :: "nat \<Rightarrow> adentry list \<Rightarrow> nat \<Rightarrow> bool" where
  "readable valid es i \<longleftrightarrow> 0 < i \<and> i < ADEID_MAX \<and> safe_entry i (es ! i) \<and>
     (i \<noteq> ADEID_RFORK \<longrightarrow> ade_off (es ! i) + ade_len (es ! i) \<le> int valid)"

lemma parse_loop_written:
  assumes "list_all (readable valid es) is" "ad_data ad = pre @ concat (map (entry_bytes es) is) @ post" "p = int (length pre)"
  shows "parse_loop ad valid (length is) p =
    Some (0, ad\<lparr>ad_eid := fold (\<lambda>i. set_entry (i, ade_off (es ! i), ade_len (es ! i))) is (ad_eid ad), valid_data_len := valid\<rparr>)"
  using assms
proof (induction "is" arbitrary: ad pre p)
  case (Cons i "is")
  let ?o = "ade_off (es ! i)" and ?l = "ade_len (es ! i)"
  let ?x = "rev (le_bytes 4 (set_eid ! i))" and ?y = "rev (le_bytes 4 (word_of_int ?o :: 32 word))" and ?z = "rev (le_bytes 4 (word_of_int ?l :: 32 word))"
  let ?r = "concat (map (entry_bytes es) is) @ post"
  have d: "ad_data ad = pre @ ?x @ ?y @ ?z @ ?r" using Cons.prems(2) by (simp add: entry_bytes_def[of es i])
  have p1: "peek (ad_data ad) p 4 = Some ?x" unfolding d by (rule peek_append) (simp_all add: Cons.prems(3))
  have p2: "peek (ad_data ad) (p + 4) 4 = Some ?y"
    using peek_append[of 4 ?y "p + 4" "pre @ ?x" "?z @ ?r"] by (simp add: d Cons.prems(3))
  have p3: "peek (ad_data ad) (p + 8) 4 = Some ?z"
    using peek_append[of 4 ?z "p + 8" "pre @ ?x @ ?y" ?r] by (simp add: d Cons.prems(3))
  have r: "0 < i" "i < 20" "0 \<le> ?o" "?o < 2 ^ 32" "0 \<le> ?l" "?l < 2 ^ 32" "i \<noteq> 2 \<Longrightarrow> ?o + ?l \<le> int valid"
    using Cons.prems(1) by (simp_all add: readable_def safe_entry_def)
  have e: "get_eid (set_eid ! i) = of_nat i" "unat (of_nat i :: 32 word) = i" using get_set_eid[OF r(2)] r(2) by (simp_all add: unat_of_nat)
  then have nz: "(of_nat i :: 32 word) \<noteq> 0" using r(1) by (metis unat_0 less_irrefl)
  have w: "unat (word_of_int ?o :: 32 word) = nat ?o" "unat (word_of_int ?l :: 32 word) = nat ?l"
    "uint (word_of_int ?o :: 32 word) = ?o" "uint (word_of_int ?l :: 32 word) = ?l" using r by (simp_all add: word_of_int_32)
  have ok: "\<not> (i \<noteq> 2 \<and> (nat ?o > valid \<or> nat ?l > valid - nat ?o))" using r(3,5,7) by linarith
  let ?a = "ad\<lparr>ad_eid := set_entry (i, ?o, ?l) (ad_eid ad)\<rparr>"
  have "parse_loop ad valid (Suc (length is)) p = parse_loop ?a valid (length is) (p + 12)"
    using nz ok r(2) by (auto simp: p1 p2 p3 e w Let_def)
  also have "\<dots> = Some (0, ?a\<lparr>ad_eid := fold (\<lambda>i. set_entry (i, ade_off (es ! i), ade_len (es ! i))) is (ad_eid ?a), valid_data_len := valid\<rparr>)"
    by (rule Cons.IH[of ?a "pre @ entry_bytes es i"]) (use Cons.prems in simp_all)
  finally show ?case by simp
qed simp

lemma fold_set_entry:
  assumes "distinct is" "\<forall>i \<in> set is. i < length es0"
  shows "length (fold (\<lambda>i. set_entry (i, ade_off (es ! i), ade_len (es ! i))) is es0) = length es0"
    "j < length es0 \<Longrightarrow> fold (\<lambda>i. set_entry (i, ade_off (es ! i), ade_len (es ! i))) is es0 ! j = (if j \<in> set is then es ! j else es0 ! j)"
  using assms
proof (induction "is" arbitrary: es0)
  case (Cons i "is")
  { case 1 then show ?case using Cons.IH(1)[of "set_entry (i, ade_off (es ! i), ade_len (es ! i)) es0"] by (simp add: set_entry_def) }
  { case 2 then show ?case using Cons.IH(2)[of "set_entry (i, ade_off (es ! i), ade_len (es ! i)) es0"]
      by (auto simp: set_entry_def nth_list_update) }
qed simp_all

subsection \<open>A whole header\<close>

text \<open>The header with \<open>n\<close> entries, in front of which the buffer keeps its filler.\<close>

definition header_bytes :: "bool \<Rightarrow> admeta \<Rightarrow> bytes" where
  "header_bytes skip ad =
     (let is = written skip (ad_eid ad) [0..<ADEID_MAX] in
      rev (le_bytes 4 (ad_magic ad)) @ rev (le_bytes 4 (ad_version ad)) @ take 16 (drop 8 (ad_data ad)) @
      rev (le_bytes 2 (of_nat (length is) :: 16 word)) @ concat (map (entry_bytes (ad_eid ad)) is))"

lemma written_length: "length (written skip es [0..<ADEID_MAX]) \<le> 20"
  unfolding written_def by (rule order_trans[OF length_filter_le]) simp

lemma rebuild_bytes:
  assumes "length (ad_data ad) = AD_DATASZ_MAX"
  shows "rebuild_header skip ad = Some (ad\<lparr>ad_data := header_bytes skip ad @ drop (26 + 12 * length (written skip (ad_eid ad) [0..<ADEID_MAX])) (ad_data ad)\<rparr>)"
proof -
  let ?d = "ad_data ad" and ?is = "written skip (ad_eid ad) [0..<20]"
  let ?n = "length ?is" and ?m = "rev (le_bytes 4 (ad_magic ad))" and ?v = "rev (le_bytes 4 (ad_version ad))"
  define f c old post where "f = take 16 (drop 8 ?d)" and "c = take 2 (drop 24 ?d)" and "old = take (12 * ?n) (drop 26 ?d)" and "post = drop (26 + 12 * ?n) ?d"
  have d1: "?d = take 4 ?d @ take 4 (drop 4 ?d) @ drop 8 ?d" by (metis append_take_drop_id drop_drop numeral_Bit0)
  have d2: "drop 8 ?d = f @ c @ drop 26 ?d"
    unfolding f_def c_def using append_take_drop_id[of 16 "drop 8 ?d"] append_take_drop_id[of 2 "drop 24 ?d"] by (simp add: drop_drop)
  have d3: "drop 26 ?d = old @ post"
    unfolding old_def post_def using append_take_drop_id[of "12 * ?n" "drop 26 ?d"] by (simp add: drop_drop add.commute)
  have l: "length f = 16" "length c = 2" "length old = 12 * ?n" using assms written_length[of skip "ad_eid ad"] by (simp_all add: f_def c_def old_def)
  have p: "26 = int (length (?m @ ?v @ f @ c))" using l by simp
  have 1: "poke ?d 0 ?m = Some (?m @ take 4 (drop 4 ?d) @ drop 8 ?d)"
  proof -
    have "poke ([] @ take 4 ?d @ take 4 (drop 4 ?d) @ drop 8 ?d) 0 ?m = Some ([] @ ?m @ take 4 (drop 4 ?d) @ drop 8 ?d)"
      by (rule poke_append) (simp_all add: assms)
    then show ?thesis by (simp only: append_Nil d1[symmetric])
  qed
  have 2: "poke (?m @ take 4 (drop 4 ?d) @ drop 8 ?d) 4 ?v = Some (?m @ ?v @ drop 8 ?d)"
    by (rule poke_append) (simp_all add: assms)
  have 3: "put_entries skip (ad_eid ad) [0..<20] (?m @ ?v @ drop 8 ?d) 26 0 =
      Some ((?m @ ?v @ f @ c) @ concat (map (entry_bytes (ad_eid ad)) ?is) @ post, of_nat ?n)"
    using put_entries_written[OF l(3) p, of post 0] unfolding d2 d3 append_assoc add_0 .
  have 4: "poke ((?m @ ?v @ f @ c) @ concat (map (entry_bytes (ad_eid ad)) ?is) @ post) 24 (rev (le_bytes 2 (of_nat ?n :: 16 word))) =
      Some (?m @ ?v @ f @ rev (le_bytes 2 (of_nat ?n :: 16 word)) @ concat (map (entry_bytes (ad_eid ad)) ?is) @ post)"
    using poke_append[of c "rev (le_bytes 2 (of_nat ?n :: 16 word))" 24 "?m @ ?v @ f" "concat (map (entry_bytes (ad_eid ad)) ?is) @ post"] l by simp
  show ?thesis unfolding rebuild_header_def net32_bytes net16_bytes 1 2 3 Option.bind.simps prod.case 4
    by (simp add: header_bytes_def Let_def f_def[symmetric] post_def[symmetric] del: upt_rec_numeral)
qed

text \<open>What a reader finds in a buffer that starts with a header.\<close>

lemma read_header_bytes:
  assumes "is = written skip (ad_eid ad) [0..<ADEID_MAX]" "length (ad_data ad) = AD_DATASZ_MAX" "ad_data b = header_bytes skip ad @ rest"
  shows "read_magic b = Some (b\<lparr>ad_magic := ad_magic ad, ad_version := ad_version ad\<rparr>)"
    "get16 (ad_data b) 24 = Some (le_word (rev (le_bytes 2 (of_nat (length is) :: 16 word))))"
    "unat (net16 (le_word (rev (le_bytes 2 (of_nat (length is) :: 16 word))))) = length is"
    "list_all (readable valid (ad_eid ad)) is \<Longrightarrow> parse_entries b (length is) valid =
      Some (0, b\<lparr>ad_eid := fold (\<lambda>i. set_entry (i, ade_off (ad_eid ad ! i), ade_len (ad_eid ad ! i))) is (ad_eid b), valid_data_len := valid\<rparr>)"
proof -
  let ?m = "rev (le_bytes 4 (ad_magic ad))" and ?v = "rev (le_bytes 4 (ad_version ad))" and ?f = "take 16 (drop 8 (ad_data ad))"
    and ?c = "rev (le_bytes 2 (of_nat (length is) :: 16 word))" and ?e = "concat (map (entry_bytes (ad_eid ad)) is)"
  have d: "ad_data b = ?m @ ?v @ ?f @ ?c @ ?e @ rest" using assms(1,3) by (simp add: header_bytes_def Let_def del: upt_rec_numeral)
  have f: "length ?f = 16" using assms(2) by simp
  have "peek (ad_data b) 0 4 = Some ?m" using peek_append[of 4 ?m 0 "[]"] by (simp add: d)
  moreover have "peek (ad_data b) 4 4 = Some ?v" using peek_append[of 4 ?v 4 ?m] by (simp add: d)
  ultimately show "read_magic b = Some (b\<lparr>ad_magic := ad_magic ad, ad_version := ad_version ad\<rparr>)" by (simp add: read_magic_def)
  show "get16 (ad_data b) 24 = Some (le_word ?c)" using peek_append[of 2 ?c 24 "?m @ ?v @ ?f" "?e @ rest"] f by (simp add: d)
  show "unat (net16 (le_word ?c)) = length is" using written_length[of skip "ad_eid ad"] by (simp add: assms(1) unat_of_nat)
  show "parse_entries b (length is) valid =
      Some (0, b\<lparr>ad_eid := fold (\<lambda>i. set_entry (i, ade_off (ad_eid ad ! i), ade_len (ad_eid ad ! i))) is (ad_eid b), valid_data_len := valid\<rparr>)"
    if "list_all (readable valid (ad_eid ad)) is"
    unfolding parse_entries_def by (rule parse_loop_written[OF that, of b "?m @ ?v @ ?f @ ?c" rest]) (use d f in simp_all)
qed

end
