(* ===== verification/Ad_Header_Claims.thy ===== *)
theory Ad_Header_Claims
  imports Ad_Header_Trip
begin

text \<open>
  What the metadata operations promise: no operation on metadata that came about by any sequence
  of them leaves the buffer, a written header reads back, and what a setter stores its getter
  finds.
\<close>

subsection \<open>Metadata in a session\<close>

text \<open>
  The metadata structures that the operations can produce, from a fresh one and whatever bytes the
  files hold. A read of the extended attribute delivers at most the size it is asked for.
\<close>

inductive metadata :: "admeta \<Rightarrow> bool" where
  init: "ad_init vers options = Some ad \<Longrightarrow> metadata ad"
| read: "metadata ad \<Longrightarrow> ad_header_read ad file st = Some (r, e, ad') \<Longrightarrow> metadata ad'"
| read_ea: "metadata ad \<Longrightarrow> (case ea of Inl e \<Rightarrow> True | Inr h \<Rightarrow> length h \<le> AD_DATASZ_EA) \<Longrightarrow>
    ad_header_read_ea ad path ea = Some (r, e, ad', d) \<Longrightarrow> metadata ad'"
| fresh: "metadata ad \<Longrightarrow> new_ad_header ad name mtime flags = Some (r, ad') \<Longrightarrow> metadata ad'"
| rebuild: "metadata ad \<Longrightarrow> ad_rebuild_adouble_header_v2 ad = Some (n, ad') \<Longrightarrow> metadata ad'"
| rebuild_ea: "metadata ad \<Longrightarrow> ad_rebuild_adouble_header_ea ad = Some (n, ad') \<Longrightarrow> metadata ad'"
| copy: "metadata ad \<Longrightarrow> metadata ads \<Longrightarrow> ad_copy_header ad ads = Some (r, e, ad') \<Longrightarrow> metadata ad'"
| setdate: "metadata ad \<Longrightarrow> ad_setdate ad dateoff date = Some (r, ad') \<Longrightarrow> metadata ad'"
| setattr: "metadata ad \<Longrightarrow> ad_setattr ad attr = Some ad' \<Longrightarrow> metadata ad'"
| setid: "metadata ad \<Longrightarrow> length stamp = 8 \<Longrightarrow> ad_setid ad dev ino cnid did stamp = Some (r, ad') \<Longrightarrow> metadata ad'"
| setname: "metadata ad \<Longrightarrow> ad_setname ad name = Some (r, ad') \<Longrightarrow> metadata ad'"

lemma safelyD: "safely (Some (x, ad)) \<Longrightarrow> meta_safe ad"
  by (simp add: safely_def)

lemma init_safe: "ad_init vers options = Some ad \<Longrightarrow> meta_safe ad"
proof -
  assume i: "ad_init vers options = Some ad"
  let ?z = "\<lparr>ad_magic = 0, ad_version = 0, ad_eid = replicate 20 \<lparr>ade_off = 0, ade_len = 0\<rparr>, ad_vers = vers,
           ad_adflags = 0, ad_options = options, ad_data_refcount = 0, ad_reso_refcount = 0, ad_rlen = 0,
           ad_open_forks = 0, ad_held_forks = 0, valid_data_len = 0, ad_data = replicate 1024 0\<rparr>"
  have "meta_safe ?z" by (simp add: meta_safe_def safe_entry_def)
  then show ?thesis using init_offsets_safe[of ?z] i by (auto simp: ad_init_def split: if_splits)
qed

lemma metadata_safe: "metadata ad \<Longrightarrow> meta_safe ad"
proof (induction rule: metadata.induct)
  case (init vers options ad)
  then show ?case by (rule init_safe)
next
  case (read ad "file" st r e ad')
  then show ?case using header_read_safe[of ad "file" st] by auto
next
  case (read_ea ad ea path r e ad' d)
  then show ?case using header_read_ea_safe[of ad ea path] by (auto split: sum.splits)
next
  case (fresh ad name mtime flags r ad')
  then show ?case using new_ad_header_safe[of ad name mtime flags] safelyD by auto
next
  case (rebuild ad n ad')
  then show ?case using rebuild_safe[of ad False] by (auto simp: ad_rebuild_adouble_header_v2_def)
next
  case (rebuild_ea ad n ad')
  then show ?case using rebuild_safe[of ad True] by (auto simp: ad_rebuild_adouble_header_ea_def)
next
  case (copy ad ads r e ad')
  then show ?case using copy_header_safe[of ad ads] by auto
next
  case (setdate ad dateoff date r ad')
  then show ?case using setdate_safe[of ad dateoff date] safelyD by auto
next
  case (setattr ad attr ad')
  then show ?case using setattr_safe[of ad attr] by auto
next
  case (setid ad stamp dev ino cnid did r ad')
  then show ?case using setid_safe[of ad stamp dev ino cnid did] safelyD by auto
next
  case (setname ad name r ad')
  then show ?case using setname_safe[of ad name] safelyD by auto
qed

lemma safely_some: "safely r \<Longrightarrow> r \<noteq> None"
  by (auto simp: safely_def)

subsection \<open>Headers read back\<close>

lemma entry_cong:
  assumes "ad_eid a ! i = ad_eid b ! i" "valid_data_len a = valid_data_len b" "ad_vers a = ad_vers b"
  shows "ad_entry a i = ad_entry b i"
  using assms by (simp add: ad_entry_def ad_entry_fits_def ad_getentryoff_def ad_getentrylen_def)

text \<open>
  Metadata in the layout of the extended attribute: of the entries besides the resource fork just
  the eight of the layout are there, each fits the attribute and lies behind the descriptors.
\<close>

definition ea_layout :: "admeta \<Rightarrow> bool" where
  "ea_layout ad \<longleftrightarrow> meta_safe ad \<and> ad_magic ad = AD_MAGIC \<and> ad_version ad = AD_VERSION2 \<and> ad_vers ad = AD_VERSION_EA \<and>
     written True (ad_eid ad) [0..<ADEID_MAX] = [4, 8, 9, 14, 16, 17, 18, 19] \<and>
     list_all (\<lambda>i. 122 \<le> ade_off (ad_eid ad ! i) \<and> ade_off (ad_eid ad ! i) + ade_len (ad_eid ad ! i) \<le> AD_DATASZ_EA \<and>
       ad_entry (ad\<lparr>valid_data_len := AD_DATASZ_EA\<rparr>) i \<noteq> None) ea_entries"

lemma set_ea_entries: "set ea_entries = set [4, 8, 9, 14, 16, 17, 18, 19]"
  by (auto simp: ea_entries_def)

lemma ea_trip:
  assumes "ea_layout ad" "meta_safe b" "ad_vers b = AD_VERSION_EA"
  shows "\<exists>ad1 ad2. ad_rebuild_adouble_header_ea ad = Some (AD_DATASZ_EA, ad1) \<and> drop 122 (ad_data ad1) = drop 122 (ad_data ad) \<and>
    ad_header_read_ea b path (Inr (take AD_DATASZ_EA (ad_data ad1))) = Some (0, None, ad2, False) \<and>
    (\<forall>i \<in> set ea_entries. ad_eid ad2 ! i = ad_eid ad ! i) \<and> valid_data_len ad2 = AD_DATASZ_EA \<and>
    take AD_DATASZ_EA (ad_data ad2) = take AD_DATASZ_EA (ad_data ad1)"
proof -
  let ?is = "[4, 8, 9, 14, 16, 17, 18, 19] :: nat list"
  have s: "meta_safe ad" and w: "written True (ad_eid ad) [0..<20] = ?is" using assms(1) by (simp_all only: ea_layout_def)
  have d: "length (ad_data ad) = 1024" "length (ad_data b) = 1024" "length (ad_eid b) = 20" using s assms(2) by (simp_all only: meta_safe_def)
  have lay: "122 \<le> ade_off (ad_eid ad ! i)" "ade_off (ad_eid ad ! i) + ade_len (ad_eid ad ! i) \<le> 402"
    "ad_entry (ad\<lparr>valid_data_len := 402\<rparr>) i \<noteq> None" if "i \<in> set ea_entries" for i
    using assms(1) that unfolding ea_layout_def list_all_iff by blast+
  define hb where "hb = header_bytes True ad"
  define ad1 where "ad1 = ad\<lparr>ad_data := hb @ drop 122 (ad_data ad)\<rparr>"
  have hl: "length hb = 122" using d(1) unfolding hb_def header_bytes_def Let_def w by simp
  have rb: "rebuild_header True ad = Some ad1" unfolding rebuild_bytes[OF d(1)] ad1_def hb_def w by simp
  define rest where "rest = take 280 (drop 122 (ad_data ad))"
  have h: "take 402 (ad_data ad1) = hb @ rest" using hl by (simp add: ad1_def rest_def)
  have rl: "length (hb @ rest) = 402" using hl d(1) by (simp add: rest_def)
  define b1 where "b1 = b\<lparr>ad_data := (hb @ rest) @ drop 402 (ad_data b)\<rparr>"
  have pk: "poke (ad_data b) 0 (hb @ rest) = Some ((hb @ rest) @ drop 402 (ad_data b))" using rl d(2) by (simp add: poke_def)
  have b1d: "ad_data b1 = header_bytes True ad @ (rest @ drop 402 (ad_data b))" by (simp add: b1_def hb_def)
  note rd = read_header_bytes[OF w[symmetric] d(1)]
  define b2 where "b2 = b1\<lparr>ad_magic := ad_magic ad, ad_version := ad_version ad\<rparr>"
  have b2d: "ad_data b2 = header_bytes True ad @ (rest @ drop 402 (ad_data b))" by (simp add: b2_def b1d)
  have rdb: "list_all (readable 402 (ad_eid ad)) ?is"
    unfolding list_all_iff set_ea_entries[symmetric] readable_def using lay meta_safeD(4)[OF s] by (auto simp: set_ea_entries)
  define b3 where "b3 = b2\<lparr>ad_eid := fold (\<lambda>i. set_entry (i, ade_off (ad_eid ad ! i), ade_len (ad_eid ad ! i))) ?is (ad_eid b2), valid_data_len := 402\<rparr>"
  have n8: "length ?is = 8" by simp
  have pe: "parse_entries b2 8 402 = Some (0, b3)" using rd(4)[OF b2d rdb] unfolding n8 b3_def[symmetric] .
  have eid: "ad_eid b3 ! i = ad_eid ad ! i" if "i \<in> set ea_entries" for i
    using fold_set_entry(2)[of ?is "ad_eid b2" i "ad_eid ad"] that d(3) unfolding b3_def set_ea_entries
    by (auto simp: b2_def b1_def simp del: fold_simps)
  have vers: "ad_vers b3 = AD_VERSION_EA" using assms(3) by (simp add: b3_def b2_def b1_def)
  have "ad_entry b3 i \<noteq> None" if "i \<in> set ea_entries" for i
    using lay(3)[OF that] entry_cong[of b3 i "ad\<lparr>valid_data_len := 402\<rparr>"] eid[OF that] vers assms(1) by (simp add: b3_def ea_layout_def)
  then have all: "\<not> list_ex (\<lambda>i. ad_entry b3 i = None) ea_entries" by (simp add: list_ex_iff)
  have n: "unat (net16 (le_word (rev (le_bytes 2 (of_nat (length ?is) :: 16 word))))) = 8" using rd(3)[OF b2d] by simp
  have "header_ea b (hb @ rest) = Some (None, ad_setentryoff b3 2 82)"
    unfolding header_ea_def pk Option.bind.simps Let_def b1_def[symmetric] rl rd(1)[OF b1d] b2_def[symmetric] rd(2)[OF b2d] n pe prod.case
    using all vers assms(1) by (simp add: b2_def ea_layout_def)
  then have r: "ad_header_read_ea b path (Inr (take 402 (ad_data ad1))) = Some (0, None, ad_setentryoff b3 2 82, False)"
    by (simp add: ad_header_read_ea_def h)
  have "\<forall>i \<in> set ea_entries. ad_eid (ad_setentryoff b3 2 82) ! i = ad_eid ad ! i"
    using eid by (auto simp: ad_setentryoff_def set_ea_entries)
  moreover have "take 402 (ad_data (ad_setentryoff b3 2 82)) = take 402 (ad_data ad1)" "valid_data_len (ad_setentryoff b3 2 82) = 402"
    using rl by (simp_all add: ad_setentryoff_def b3_def b2_def b1_def h)
  ultimately show ?thesis using rb r hl by (intro exI[of _ ad1] exI[of _ "ad_setentryoff b3 2 82"]) (simp add: ad_rebuild_adouble_header_ea_def ad1_def)
qed

text \<open>
  Metadata in a layout with the resource fork behind the header, at most 741 bytes into the file:
  the other entries lie between the descriptors and the fork.
\<close>

definition v2_layout :: "admeta \<Rightarrow> bool" where
  "v2_layout ad \<longleftrightarrow>
     (let is = written False (ad_eid ad) [0..<ADEID_MAX]; r = ade_off (ad_eid ad ! ADEID_RFORK) in
      meta_safe ad \<and> ad_magic ad = AD_MAGIC \<and> ad_version ad = AD_VERSION2 \<and> ad_vers ad = AD_VERSION2 \<and>
      length is \<le> 16 \<and> 0 \<notin> set is \<and> ADEID_RFORK \<in> set is \<and> int (26 + 12 * length is) \<le> r \<and> r \<le> AD_DATASZ2 \<and>
      list_all (\<lambda>i. i = ADEID_RFORK \<or> int (26 + 12 * length is) \<le> ade_off (ad_eid ad ! i) \<and>
        ade_off (ad_eid ad ! i) + ade_len (ad_eid ad ! i) \<le> r) is)"

lemma v2_trip:
  assumes "v2_layout ad" "meta_safe b" "ad_vers b = AD_VERSION2" "n = 26 + 12 * length (written False (ad_eid ad) [0..<ADEID_MAX])"
    and "r = ade_off (ad_eid ad ! ADEID_RFORK)"
  shows "\<exists>ad1 ad2. ad_rebuild_adouble_header_v2 ad = Some (r, ad1) \<and> drop n (ad_data ad1) = drop n (ad_data ad) \<and>
    ad_header_read b (Inr (take (nat r) (ad_data ad1) @ fork)) (Some (r + int (length fork))) = Some (0, None, ad2) \<and>
    (\<forall>i \<in> set (written False (ad_eid ad) [0..<ADEID_MAX]). ad_eid ad2 ! i = ad_eid ad ! i) \<and>
    ad_rlen ad2 = int (length fork) \<and> take (nat r) (ad_data ad2) = take (nat r) (ad_data ad1)"
proof -
  define js where "js = written False (ad_eid ad) [0..<20]"
  have s: "meta_safe ad" "ad_magic ad = AD_MAGIC" "ad_version ad = AD_VERSION2" "ad_vers ad = AD_VERSION2"
    and l: "length js \<le> 16" "0 \<notin> set js" "2 \<in> set js" "int n \<le> r" "r \<le> 741"
    and e: "\<And>i. i \<in> set js \<Longrightarrow> i = 2 \<or> int n \<le> ade_off (ad_eid ad ! i) \<and> ade_off (ad_eid ad ! i) + ade_len (ad_eid ad ! i) \<le> r"
    using assms(1) unfolding v2_layout_def Let_def js_def[symmetric] list_all_iff assms(4,5) by blast+
  have d: "length (ad_data ad) = 1024" "length (ad_data b) = 1024" "length (ad_eid b) = 20" using s assms(2) by (simp_all only: meta_safe_def)
  have js: "distinct js" "\<And>i. i \<in> set js \<Longrightarrow> i < 20" by (auto simp: js_def written_def simp del: upt_rec_numeral)
  define hb where "hb = header_bytes False ad"
  define ad1 where "ad1 = ad\<lparr>ad_data := hb @ drop n (ad_data ad)\<rparr>"
  have hl: "length hb = n" using d(1) unfolding hb_def header_bytes_def Let_def js_def[symmetric] assms(4) by simp
  have rb: "rebuild_header False ad = Some ad1" unfolding rebuild_bytes[OF d(1)] ad1_def hb_def assms(4) by simp
  define rest where "rest = take (nat r - n) (drop n (ad_data ad))"
  have nr: "n \<le> nat r" "nat r \<le> 741" using l(4,5) by linarith+
  have h: "take (nat r) (ad_data ad1) = hb @ rest" using hl nr by (simp add: ad1_def rest_def)
  have rl: "length (hb @ rest) = nat r" using hl d(1) nr by (simp add: rest_def)
  define hdr where "hdr = take 741 ((hb @ rest) @ fork)"
  define tl where "tl = take (741 - nat r) fork"
  have hdr: "hdr = hb @ rest @ tl" "length hdr = nat r + length tl" "length hdr \<le> 741" using rl nr by (simp_all add: hdr_def tl_def)
  define b1 where "b1 = b\<lparr>ad_data := hdr @ drop (length hdr) (ad_data b)\<rparr>"
  have pk: "poke (ad_data b) 0 hdr = Some (hdr @ drop (length hdr) (ad_data b))" using hdr(3) d(2) by (simp add: poke_def)
  define b2 where "b2 = b1\<lparr>ad_magic := ad_magic ad, ad_version := ad_version ad\<rparr>"
  have b1d: "ad_data b1 = header_bytes False ad @ (rest @ tl @ drop (length hdr) (ad_data b))" by (simp add: b1_def hb_def[symmetric] hdr(1))
  have b2d: "ad_data b2 = header_bytes False ad @ (rest @ tl @ drop (length hdr) (ad_data b))" by (simp add: b2_def b1d)
  note rd = read_header_bytes[OF js_def d(1)]
  have ge: "int (length hdr) \<ge> r" using hdr(2) l(4) by simp
  have rdb: "list_all (readable (length hdr) (ad_eid ad)) js"
    unfolding list_all_iff readable_def
  proof (intro ballI conjI impI)
    fix i assume i: "i \<in> set js"
    then show "0 < i" "i < 20" "safe_entry i (ad_eid ad ! i)" using l(2) js(2)[OF i] meta_safeD(4)[OF s(1)] by (auto intro: gr0I)
    show "ade_off (ad_eid ad ! i) + ade_len (ad_eid ad ! i) \<le> int (length hdr)" if "i \<noteq> 2" using e[OF i] that ge by linarith
  qed
  define b3 where "b3 = b2\<lparr>ad_eid := fold (\<lambda>i. set_entry (i, ade_off (ad_eid ad ! i), ade_len (ad_eid ad ! i))) js (ad_eid b2), valid_data_len := length hdr\<rparr>"
  have pe: "parse_entries b2 (length js) (length hdr) = Some (0, b3)" using rd(4)[OF b2d rdb] unfolding b3_def[symmetric] .
  have eb: "ad_eid b2 = ad_eid b" by (simp add: b2_def b1_def)
  have eid: "ad_eid b3 ! i = ad_eid ad ! i" if "i \<in> set js" for i
    using fold_set_entry(2)[OF js(1), of "ad_eid b2" i "ad_eid ad"] that d(3) js(2) by (simp add: b3_def eb)
  have ro: "ad_getentryoff b3 2 = r" using eid[OF l(3)] assms(3,5) by (simp add: ad_getentryoff_def b3_def b2_def b1_def)
  have c: "\<not> length hdr < 26" "\<not> length js > 16" "\<not> length js * 12 + 26 > length hdr" "\<not> (r = 0 \<or> r > 1024)" "\<not> r > int (length hdr)"
    using hdr(2) nr l(1,4,5) ge assms(4) unfolding js_def[symmetric] by linarith+
  have "ad_header_read b (Inr (take (nat r) (ad_data ad1) @ fork)) (Some (r + int (length fork))) =
      Some (0, None, b3\<lparr>ad_rlen := r + int (length fork) - r\<rparr>)"
    unfolding ad_header_read_def sum.case h hdr_def[symmetric] Let_def pk Option.bind.simps b1_def[symmetric] if_not_P[OF c(1)]
      rd(1)[OF b1d] b2_def[symmetric] rd(2)[OF b2d] rd(3)[OF b2d] if_not_P[OF c(2)] if_not_P[OF c(3)] pe prod.case ro if_not_P[OF c(4)] if_not_P[OF c(5)]
    using s by (simp add: b2_def)
  moreover have "take (nat r) (ad_data b3) = take (nat r) (ad_data ad1)"
    unfolding h using rl by (simp add: b3_def b2_def b1_def hdr(1) flip: append_assoc)
  moreover have "ad_rebuild_adouble_header_v2 ad = Some (r, ad1)"
    using s(4) assms(5) by (simp add: ad_rebuild_adouble_header_v2_def rb ad_getentryoff_def ad1_def)
  ultimately show ?thesis using eid hl
    by (intro exI[of _ ad1] exI[of _ "b3\<lparr>ad_rlen := r + int (length fork) - r\<rparr>"]) (simp add: ad1_def js_def[symmetric])
qed

subsection \<open>Identity\<close>

definition disjoint_ranges :: "int \<Rightarrow> nat \<Rightarrow> int \<Rightarrow> nat \<Rightarrow> bool" where
  "disjoint_ranges p n q m \<longleftrightarrow> p + int n \<le> q \<or> q + int m \<le> p"

text \<open>The slots that a sequence of writes goes to exist, fit and are apart from each other.\<close>

definition slots_ok :: "admeta \<Rightarrow> (nat \<times> int \<times> bytes) list \<Rightarrow> bool" where
  "slots_ok ad steps \<longleftrightarrow>
     list_all (\<lambda>(eid, len, bs). eid < ADEID_MAX \<and> eid \<noteq> ADEID_DFORK \<and> eid \<noteq> ADEID_RFORK \<and>
       len = int (length bs) \<and> 0 < length bs \<and> length bs < 1024 \<and> ad_entry_fits ad eid (word_of_int len)) steps \<and>
     sorted_wrt (\<lambda>(i, _, bs) (j, _, cs). i \<noteq> j \<and> disjoint_ranges (ad_getentryoff ad i) (length bs) (ad_getentryoff ad j) (length cs)) steps"

definition same_layout :: "admeta \<Rightarrow> admeta \<Rightarrow> bool" where
  "same_layout ad ad' \<longleftrightarrow> ad_vers ad' = ad_vers ad \<and> ad_options ad' = ad_options ad \<and> valid_data_len ad' = valid_data_len ad \<and>
     (\<forall>i. ad_getentryoff ad' i = ad_getentryoff ad i)"

lemma same_layout_refl [simp]: "same_layout ad ad" by (simp add: same_layout_def)

lemma same_layout_trans: "same_layout a b \<Longrightarrow> same_layout b c \<Longrightarrow> same_layout a c" by (simp add: same_layout_def)

lemma same_layout_write: "same_layout ad (ad_setentrylen (ad\<lparr>ad_data := buf\<rparr>) e len)" "same_layout ad (ad_setentrylen ad e len)"
  by (simp_all add: same_layout_def ad_getentryoff_def eid_setlen) (simp_all add: ad_setentrylen_def)

lemma fits_layout: "same_layout ad ad' \<Longrightarrow> ad_entry_fits ad' i w = ad_entry_fits ad i w"
  by (simp add: same_layout_def ad_entry_fits_def)

lemma slots_layout: "same_layout ad ad' \<Longrightarrow> slots_ok ad' steps = slots_ok ad steps"
  unfolding slots_ok_def by (simp add: fits_layout) (simp add: same_layout_def)

lemma entry_written:
  assumes "ad_entry_fits ad eid (word_of_int len)" "ad_getentrylen ad eid = len"
  shows "ad_entry ad eid = Some (ad_getentryoff ad eid)"
  using assms by (simp add: ad_entry_def)

lemma put_entry_written:
  assumes "meta_safe ad" "slots_ok ad [(eid, len, bs)]"
  shows "\<exists>ad'. put_entry ad eid len bs = Some (Inr ad') \<and> meta_safe ad' \<and> same_layout ad ad' \<and> ad_getentrylen ad' eid = len \<and>
    peek (ad_data ad') (ad_getentryoff ad eid) (length bs) = Some bs \<and>
    (\<forall>q m. disjoint_ranges (ad_getentryoff ad eid) (length bs) q m \<longrightarrow> peek (ad_data ad') q m = peek (ad_data ad) q m) \<and>
    (\<forall>j. j \<noteq> eid \<longrightarrow> ad_getentrylen ad' j = ad_getentrylen ad j)"
proof -
  let ?a = "ad_setentrylen ad eid len"
  have s: "eid < 20" "eid \<noteq> 1" "eid \<noteq> 2" "len = int (length bs)" "0 < length bs" "length bs < 1024" "ad_entry_fits ad eid (word_of_int len)"
    using assms(2) by (auto simp: slots_ok_def)
  have sa: "meta_safe ?a" by (rule safe_setlen[OF assms(1) s(1)]) (use s in simp_all)
  have ln: "ad_getentrylen ?a eid = len" using assms(1) s(1) by (simp add: meta_safe_def)
  have off: "ad_getentryoff ?a eid = ad_getentryoff ad eid" using same_layout_write(2)[of ad eid len] by (simp add: same_layout_def)
  have en: "ad_entry ?a eid = Some (ad_getentryoff ad eid)"
    using entry_written[of ?a eid len] fits_layout[OF same_layout_write(2)[of ad eid len]] s(7) ln off by simp
  have b: "0 \<le> ad_getentryoff ad eid" "ad_getentryoff ad eid + int (length bs) \<le> 1024"
    using entry_bound[OF sa s(1-3) en] ln s(4,5) by auto
  obtain buf where buf: "poke (ad_data ad) (ad_getentryoff ad eid) bs = Some buf" "meta_safe (?a\<lparr>ad_data := buf\<rparr>)"
    using poke_data[OF sa b] by auto
  have "put_entry ad eid len bs = Some (Inr (?a\<lparr>ad_data := buf\<rparr>))" by (simp add: put_entry_def Let_def en buf(1))
  moreover have "same_layout ad (?a\<lparr>ad_data := buf\<rparr>)" using same_layout_write(2)[of ad eid len] by (simp add: same_layout_def ad_getentryoff_def eid_setlen)
  moreover have "ad_getentrylen (?a\<lparr>ad_data := buf\<rparr>) eid = len" using ln by (simp add: ad_getentrylen_def)
  moreover have "j \<noteq> eid \<Longrightarrow> ad_getentrylen (?a\<lparr>ad_data := buf\<rparr>) j = ad_getentrylen ad j" for j by (simp add: ad_getentrylen_def ad_setentrylen_def)
  ultimately show ?thesis using buf peek_poke_same[OF buf(1)] peek_poke_other[OF buf(1)] by (auto simp: disjoint_ranges_def)
qed

lemma setid_steps_written:
  assumes "slots_ok ad steps" "meta_safe ad"
  shows "\<exists>ad'. setid_steps was steps seen ad = Some (1, ad') \<and> same_layout ad ad' \<and>
    (\<forall>(eid, len, bs) \<in> set steps. ad_getentrylen ad' eid = len \<and> peek (ad_data ad') (ad_getentryoff ad eid) (length bs) = Some bs) \<and>
    (\<forall>q m. (\<forall>(eid, len, bs) \<in> set steps. disjoint_ranges (ad_getentryoff ad eid) (length bs) q m) \<longrightarrow> peek (ad_data ad') q m = peek (ad_data ad) q m) \<and>
    (\<forall>j. j \<notin> fst ` set steps \<longrightarrow> ad_getentrylen ad' j = ad_getentrylen ad j)"
  using assms
proof (induction steps arbitrary: ad seen)
  case (Cons st steps)
  obtain eid len bs where st: "st = (eid, len, bs)" by (cases st)
  have one: "slots_ok ad [(eid, len, bs)]" and more: "slots_ok ad steps" using Cons.prems(1) st by (auto simp: slots_ok_def)
  obtain a where a: "put_entry ad eid len bs = Some (Inr a)" "meta_safe a" "same_layout ad a" "ad_getentrylen a eid = len"
      "peek (ad_data a) (ad_getentryoff ad eid) (length bs) = Some bs"
      "\<And>q m. disjoint_ranges (ad_getentryoff ad eid) (length bs) q m \<Longrightarrow> peek (ad_data a) q m = peek (ad_data ad) q m"
      "\<And>j. j \<noteq> eid \<Longrightarrow> ad_getentrylen a j = ad_getentrylen ad j"
    using put_entry_written[OF Cons.prems(2) one] by blast
  have o: "ad_getentryoff a i = ad_getentryoff ad i" for i using a(3) by (simp add: same_layout_def)
  obtain c where c: "setid_steps was steps (seen @ [eid]) a = Some (1, c)" "same_layout a c"
      "\<forall>(eid, len, bs) \<in> set steps. ad_getentrylen c eid = len \<and> peek (ad_data c) (ad_getentryoff ad eid) (length bs) = Some bs"
      "\<And>q m. (\<forall>(eid, len, bs) \<in> set steps. disjoint_ranges (ad_getentryoff ad eid) (length bs) q m) \<Longrightarrow> peek (ad_data c) q m = peek (ad_data a) q m"
      "\<And>j. j \<notin> fst ` set steps \<Longrightarrow> ad_getentrylen c j = ad_getentrylen a j"
    using Cons.IH[OF _ a(2), of "seen @ [eid]"] slots_layout[OF a(3), of steps] more unfolding o by blast
  have apart: "\<forall>(j, l, cs) \<in> set steps. eid \<noteq> j \<and> disjoint_ranges (ad_getentryoff ad j) (length cs) (ad_getentryoff ad eid) (length bs)"
    using Cons.prems(1) st by (auto simp: slots_ok_def disjoint_ranges_def)
  have "peek (ad_data c) (ad_getentryoff ad eid) (length bs) = Some bs" using c(4)[of "ad_getentryoff ad eid" "length bs"] apart a(5) by fastforce
  moreover have "ad_getentrylen c eid = len" using c(5)[of eid] apart a(4) by force
  ultimately show ?case using a(1,6,7) c same_layout_trans[OF a(3) c(2)] by (intro exI[of _ c]) (auto simp: st)
qed simp

lemma setid_getid:
  assumes "meta_safe ad" "ad_vers ad = AD_VERSION2 \<or> ad_vers ad = AD_VERSION_EA" "slots_ok ad (id_writes ad dev ino cnid did stamp)"
  shows "\<exists>ad'. ad_setid ad dev ino cnid did stamp = Some (1, ad') \<and> ad_getid ad' dev ino did = Some cnid \<and>
    (\<forall>ino'. ino' \<noteq> ino \<longrightarrow> ad_getid ad' dev ino' did = Some 0)"
proof -
  obtain a where a: "ad_setid ad dev ino cnid did stamp = Some (1, a)" "same_layout ad a"
      "\<And>eid len bs. (eid, len, bs) \<in> set (id_writes ad dev ino cnid did stamp) \<Longrightarrow>
         ad_getentrylen a eid = len \<and> peek (ad_data a) (ad_getentryoff ad eid) (length bs) = Some bs"
    using setid_steps_written[OF assms(3,1), of ad "[]"] unfolding ad_setid_def by fastforce
  have v: "ad_vers a = ad_vers ad" "ad_options a = ad_options ad" using a(2) by (simp_all add: same_layout_def)
  have en: "ad_entry a eid = Some (ad_getentryoff ad eid)" if "(eid, len, bs) \<in> set (id_writes ad dev ino cnid did stamp)" for eid len bs
    using entry_written[of a eid len] a(2) a(3)[OF that] that assms(3) fits_layout[OF a(2)]
    by (auto simp: slots_ok_def list_all_iff same_layout_def)
  let ?id = "if ad_vers ad = AD_VERSION_EA then net32 cnid else cnid"
  let ?dev = "if ad_options ad AND ADVOL_NODEV \<noteq> 0 then replicate 8 0 else le_bytes 8 dev"
  have m: "(19, 4, le_bytes 4 ?id) \<in> set (id_writes ad dev ino cnid did stamp)" "(16, 8, ?dev) \<in> set (id_writes ad dev ino cnid did stamp)"
    "(17, 8, le_bytes 8 ino) \<in> set (id_writes ad dev ino cnid did stamp)"
    "ad_vers ad \<noteq> AD_VERSION_EA \<Longrightarrow> (15, 4, le_bytes 4 did) \<in> set (id_writes ad dev ino cnid did stamp)"
    by (simp_all add: id_writes_def)
  note p = a(3)[OF m(1)] a(3)[OF m(2)] a(3)[OF m(3)] en[OF m(1)] en[OF m(2)] en[OF m(3)]
  have ld: "length ?dev = 8" by simp
  have dv: "ad_options ad AND ADVOL_NODEV \<noteq> 0 \<or> le_word ?dev = dev" using le_word_bytes[of 8 dev] by simp
  have fg: "ad_forcegetid a = Some cnid"
    using assms(2) p(1,4) by (auto simp: ad_forcegetid_def v le_word_bytes AD_VERSION2_def AD_VERSION_EA_def)
  have did: "(if ad_vers a = AD_VERSION_EA then Some (Some 0)
      else (case ad_entry a 15 of None \<Rightarrow> Some None | Some ade \<Rightarrow> map_option Some (get32 (ad_data a) ade))) =
      Some (Some (if ad_vers ad = AD_VERSION_EA then 0 else did))"
    using en[OF m(4)] a(3)[OF m(4)] by (auto simp: v le_word_bytes)
  have "ad_getid a dev i did = (if i = ino then Some cnid else Some 0)" for i
    unfolding ad_getid_def did p(5,6) option.case Option.bind.simps
    using p(1-3) dv fg unfolding ld length_le_bytes by (auto simp: v le_word_bytes)
  then show ?thesis using a(1) by auto
qed

subsection \<open>Copying\<close>

lemma copy_loop_copies:
  assumes "\<forall>eid \<in> set eids. eid < ADEID_MAX \<and> copy_ready add ads eid" "meta_safe add" "meta_safe ads"
    and "sorted_wrt (\<lambda>i j. i \<noteq> j \<and> disjoint_ranges (ad_getentryoff add i) (nat (ad_getentrylen ads i)) (ad_getentryoff add j) (nat (ad_getentrylen ads j))) eids"
    and "copy_loop ads eids add = Some add'"
  shows "same_layout add add' \<and>
    (\<forall>eid \<in> set eids. \<forall>src len. ad_copy_header_entry add ads eid = Some (src, len) \<longrightarrow>
       ad_getentrylen add' eid = ad_getentrylen ads eid \<and>
       peek (ad_data add') (ad_getentryoff add eid) (nat (ad_getentrylen ads eid)) = peek (ad_data ads) src (nat (ad_getentrylen ads eid))) \<and>
    (\<forall>q m. (\<forall>eid \<in> set eids. disjoint_ranges (ad_getentryoff add eid) (nat (ad_getentrylen ads eid)) q m) \<longrightarrow>
       peek (ad_data add') q m = peek (ad_data add) q m) \<and>
    (\<forall>j. j \<notin> set eids \<longrightarrow> ad_getentrylen add' j = ad_getentrylen add j)"
  using assms
proof (induction eids arbitrary: add)
  case (Cons eid eids)
  show ?case
  proof (cases "ad_copy_header_entry add ads eid")
    case None
    have "copy_loop ads eids add = Some add'" using Cons.prems(5) None by simp
    then show ?thesis using Cons.IH[of add] Cons.prems(1-4) None by auto
  next
    case (Some x)
    obtain src len where x: "x = (src, len)" by (cases x)
    note ce = copy_entry_some[OF Some[unfolded x]]
    have c: "eid < 20" "ad_entry_fits add eid len" using Cons.prems(1) Some x by (auto simp: copy_ready_def)
    have g: "0 \<le> ad_getentrylen ads eid" "ad_getentrylen ads eid < 2 ^ 32"
      using meta_safeD(4)[OF Cons.prems(3) c(1)] by (simp_all add: safe_entry_def ad_getentrylen_def)
    have l: "uint len = ad_getentrylen ads eid" "unat len = nat (ad_getentrylen ads eid)" using ce(5) word_of_int_32[OF g] by simp_all
    from copy_step[OF c(1) Cons.prems(2,3) Some[unfolded x] c(2)] obtain bs buf where
      b: "peek (ad_data ads) src (unat len) = Some bs" "poke (ad_data add) (ad_getentryoff add eid) bs = Some buf"
        "meta_safe (ad_setentrylen (add\<lparr>ad_data := buf\<rparr>) eid (uint len))" by blast
    define a where "a = ad_setentrylen (add\<lparr>ad_data := buf\<rparr>) eid (uint len)"
    have lay: "same_layout add a" unfolding a_def by (rule same_layout_write(1))
    have o: "ad_getentryoff a i = ad_getentryoff add i" for i using lay by (simp add: same_layout_def)
    have ent: "ad_copy_header_entry a ads i = ad_copy_header_entry add ads i" for i
      by (simp add: ad_copy_header_entry_def a_def eid_setlen)
    have rdy: "copy_ready a ads i = copy_ready add ads i" for i unfolding a_def by (rule copy_ready_step)
    have run: "copy_loop ads eids a = Some add'" using Cons.prems(5) b by (simp add: Some x a_def)
    have bl: "length bs = nat (ad_getentrylen ads eid)" using peek_length[OF b(1)] l(2) by simp
    have ih: "same_layout a add'"
      "\<And>i src len. i \<in> set eids \<Longrightarrow> ad_copy_header_entry add ads i = Some (src, len) \<Longrightarrow> ad_getentrylen add' i = ad_getentrylen ads i \<and>
         peek (ad_data add') (ad_getentryoff add i) (nat (ad_getentrylen ads i)) = peek (ad_data ads) src (nat (ad_getentrylen ads i))"
      "\<And>q m. (\<forall>i \<in> set eids. disjoint_ranges (ad_getentryoff add i) (nat (ad_getentrylen ads i)) q m) \<Longrightarrow> peek (ad_data add') q m = peek (ad_data a) q m"
      "\<And>j. j \<notin> set eids \<Longrightarrow> ad_getentrylen add' j = ad_getentrylen a j"
      using Cons.IH[of a] Cons.prems(1,3,4) b(3) run unfolding a_def[symmetric] o ent rdy by auto
    have ad: "ad_data a = buf" by (simp add: a_def)
    have la: "ad_getentrylen a eid = ad_getentrylen ads eid" "\<And>j. j \<noteq> eid \<Longrightarrow> ad_getentrylen a j = ad_getentrylen add j"
      using l(1) c(1) Cons.prems(2) by (simp_all add: a_def ad_getentrylen_def ad_setentrylen_def meta_safe_def)
    have apart: "eid \<notin> set eids" "\<forall>i \<in> set eids. disjoint_ranges (ad_getentryoff add i) (nat (ad_getentrylen ads i)) (ad_getentryoff add eid) (nat (ad_getentrylen ads eid))"
      using Cons.prems(4) by (auto simp: disjoint_ranges_def)
    have here: "peek (ad_data add') (ad_getentryoff add eid) (nat (ad_getentrylen ads eid)) = Some bs"
      using ih(3)[OF apart(2)] peek_poke_same[OF b(2)] by (simp add: ad bl)
    have there: "peek (ad_data add') q m = peek (ad_data add) q m"
      if "\<forall>i \<in> set (eid # eids). disjoint_ranges (ad_getentryoff add i) (nat (ad_getentrylen ads i)) q m" for q m
      using ih(3)[of q m] peek_poke_other[OF b(2), of q m] that by (auto simp: disjoint_ranges_def ad bl)
    show ?thesis using same_layout_trans[OF lay ih(1)] ih(2,4) here there la apart(1) b(1) l Some x by auto
  qed
qed simp

subsection \<open>Properties\<close>

definition sample_ea :: admeta where "sample_ea = the (ad_init AD_VERSION_EA 0)"

definition sample_v2 :: admeta where "sample_v2 = the (ad_init AD_VERSION2 0)"

definition sample_stamp :: bytes where "sample_stamp = [1, 2, 3, 4, 5, 6, 7, 8]"

definition sample_src :: admeta where "sample_src = sample_ea\<lparr>ad_data := replicate 1024 7\<rparr>"

lemma samples: "metadata sample_ea" "metadata sample_v2" "meta_safe sample_src"
proof -
  show e: "metadata sample_ea" by (rule metadata.init[of AD_VERSION_EA 0]) (simp add: sample_ea_def ad_init_def)
  show "metadata sample_v2" by (rule metadata.init[of AD_VERSION2 0]) (simp add: sample_v2_def ad_init_def)
  show "meta_safe sample_src" unfolding sample_src_def by (rule safe_data[OF metadata_safe[OF e]]) simp
qed

text \<open>
  C24: on metadata that any sequence of operations has produced, from headers of whatever content,
  no operation reads or writes outside the buffer of 1024 bytes.
\<close>

theorem metadata_never_faults:
  assumes "metadata ad" "metadata ads"
  shows "ad_header_read ad file st \<noteq> None \<and> (length h \<le> AD_DATASZ_EA \<longrightarrow> ad_header_read_ea ad path (Inr h) \<noteq> None) \<and>
    new_ad_header ad name mtime flags \<noteq> None \<and> ad_rebuild_adouble_header_v2 ad \<noteq> None \<and> ad_rebuild_adouble_header_ea ad \<noteq> None \<and>
    ad_copy_header ad ads \<noteq> None \<and> ad_setdate ad dateoff date \<noteq> None \<and> ad_getdate ad dateoff \<noteq> None \<and>
    ad_setattr ad attr \<noteq> None \<and> ad_getattr ad \<noteq> None \<and> (length stamp = 8 \<longrightarrow> ad_setid ad dev ino cnid did stamp \<noteq> None) \<and>
    ad_getid ad dev ino did \<noteq> None \<and> ad_forcegetid ad \<noteq> None \<and> ad_setname ad name \<noteq> None"
proof -
  note s = metadata_safe[OF assms(1)] and t = metadata_safe[OF assms(2)]
  show ?thesis
    using header_read_safe[OF s, of "file" st] header_read_ea_safe[OF s, of "Inr h" path] safely_some[OF new_ad_header_safe[OF s]]
      rebuild_safe[OF s, of False] rebuild_safe[OF s, of True] copy_header_safe[OF s t] safely_some[OF setdate_safe[OF s]]
      getdate_safe[OF s] setattr_safe[OF s, of attr] getattr_safe[OF s] safely_some[OF setid_safe[OF s]] getid_safe[OF s]
      forcegetid_safe[OF s] safely_some[OF setname_safe[OF s]]
    by (auto simp: ad_rebuild_adouble_header_v2_def ad_rebuild_adouble_header_ea_def)
qed

theorem metadata_never_faults_witness:
  "ad_copy_header sample_ea sample_v2 \<noteq> None \<and> ad_header_read_ea sample_ea True (Inr (replicate 402 0xff)) \<noteq> None"
  using metadata_never_faults[OF samples(1,2), of "Inl AD_EIO" None "replicate 402 0xff" True] by simp

text \<open>
  C25: metadata in the layout of the extended attribute, written and read back by any other
  structure of that version, give the same entries and the same bytes, and writing the header
  leaves the bytes of the entries alone.
\<close>

theorem header_ea_round_trip:
  assumes "ea_layout ad" "meta_safe b" "ad_vers b = AD_VERSION_EA"
  shows "\<exists>ad1 ad2. ad_rebuild_adouble_header_ea ad = Some (AD_DATASZ_EA, ad1) \<and> drop 122 (ad_data ad1) = drop 122 (ad_data ad) \<and>
    ad_header_read_ea b path (Inr (take AD_DATASZ_EA (ad_data ad1))) = Some (0, None, ad2, False) \<and>
    (\<forall>i \<in> set ea_entries. ad_eid ad2 ! i = ad_eid ad ! i) \<and> valid_data_len ad2 = AD_DATASZ_EA \<and>
    take AD_DATASZ_EA (ad_data ad2) = take AD_DATASZ_EA (ad_data ad1)"
  using assms by (rule ea_trip)

lemma sample_ea_layout: "ea_layout sample_ea"
proof -
  have "ad_magic sample_ea = AD_MAGIC \<and> ad_version sample_ea = AD_VERSION2 \<and> ad_vers sample_ea = AD_VERSION_EA \<and>
     written True (ad_eid sample_ea) [0..<20] = [4, 8, 9, 14, 16, 17, 18, 19] \<and>
     list_all (\<lambda>i. 122 \<le> ade_off (ad_eid sample_ea ! i) \<and> ade_off (ad_eid sample_ea ! i) + ade_len (ad_eid sample_ea ! i) \<le> 402 \<and>
       ad_entry (sample_ea\<lparr>valid_data_len := 402\<rparr>) i \<noteq> None) ea_entries" by code_simp
  then show ?thesis unfolding ea_layout_def using metadata_safe[OF samples(1)] by blast
qed

theorem header_ea_round_trip_witness:
  "\<exists>ad1 ad2. ad_rebuild_adouble_header_ea sample_ea = Some (402, ad1) \<and>
    ad_header_read_ea sample_ea True (Inr (take 402 (ad_data ad1))) = Some (0, None, ad2, False) \<and> ad_eid ad2 ! 19 = ad_eid sample_ea ! 19"
proof -
  have v: "ad_vers sample_ea = AD_VERSION_EA" by code_simp
  show ?thesis using header_ea_round_trip[OF sample_ea_layout metadata_safe[OF samples(1)] v, of True] by (auto simp: ea_entries_def)
qed

text \<open>
  A version 2 header with the resource fork behind it, written in front of any fork and read
  back from the file, gives the same entries, the same bytes and the length of the fork.
\<close>

theorem header_v2_round_trip:
  assumes "v2_layout ad" "meta_safe b" "ad_vers b = AD_VERSION2" "r = ade_off (ad_eid ad ! ADEID_RFORK)"
  shows "\<exists>ad1 ad2. ad_rebuild_adouble_header_v2 ad = Some (r, ad1) \<and>
    ad_header_read b (Inr (take (nat r) (ad_data ad1) @ fork)) (Some (r + int (length fork))) = Some (0, None, ad2) \<and>
    (\<forall>i \<in> set (written False (ad_eid ad) [0..<ADEID_MAX]). ad_eid ad2 ! i = ad_eid ad ! i) \<and>
    ad_rlen ad2 = int (length fork) \<and> take (nat r) (ad_data ad2) = take (nat r) (ad_data ad1)"
  using v2_trip[OF assms(1-3) refl assms(4), of fork] by blast

lemma sample_v2_layout: "v2_layout sample_v2"
proof -
  have "(let is = written False (ad_eid sample_v2) [0..<20]; r = ade_off (ad_eid sample_v2 ! 2) in
      ad_magic sample_v2 = AD_MAGIC \<and> ad_version sample_v2 = AD_VERSION2 \<and> ad_vers sample_v2 = AD_VERSION2 \<and>
      length is \<le> 16 \<and> 0 \<notin> set is \<and> 2 \<in> set is \<and> int (26 + 12 * length is) \<le> r \<and> r \<le> 741 \<and>
      list_all (\<lambda>i. i = 2 \<or> int (26 + 12 * length is) \<le> ade_off (ad_eid sample_v2 ! i) \<and>
        ade_off (ad_eid sample_v2 ! i) + ade_len (ad_eid sample_v2 ! i) \<le> r) is)" by code_simp
  then show ?thesis unfolding v2_layout_def Let_def using metadata_safe[OF samples(2)] by blast
qed

theorem header_v2_round_trip_witness:
  "\<exists>ad1 ad2. ad_rebuild_adouble_header_v2 sample_v2 = Some (741, ad1) \<and>
    ad_header_read sample_v2 (Inr (take 741 (ad_data ad1) @ [1, 2, 3])) (Some 744) = Some (0, None, ad2) \<and> ad_rlen ad2 = 3"
proof -
  have v: "ad_vers sample_v2 = AD_VERSION2" "741 = ade_off (ad_eid sample_v2 ! 2)" by code_simp+
  show ?thesis using header_v2_round_trip[OF sample_v2_layout metadata_safe[OF samples(2)] v, of "[1, 2, 3]"] by auto
qed

text \<open>
  The identity that \<open>ad_setid\<close> stores is the one that \<open>ad_getid\<close> returns for the same device,
  inode and parent, and for another inode it returns none.
\<close>

theorem setid_round_trip:
  assumes "meta_safe ad" "ad_vers ad = AD_VERSION2 \<or> ad_vers ad = AD_VERSION_EA" "slots_ok ad (id_writes ad dev ino cnid did stamp)"
  shows "\<exists>ad'. ad_setid ad dev ino cnid did stamp = Some (1, ad') \<and> ad_getid ad' dev ino did = Some cnid \<and>
    (\<forall>ino'. ino' \<noteq> ino \<longrightarrow> ad_getid ad' dev ino' did = Some 0)"
  using assms by (rule setid_getid)

theorem setid_round_trip_witness:
  "\<exists>ad'. ad_setid sample_v2 5 77 1234 2 sample_stamp = Some (1, ad') \<and> ad_getid ad' 5 77 2 = Some 1234"
proof -
  have v: "ad_vers sample_v2 = AD_VERSION2 \<or> ad_vers sample_v2 = AD_VERSION_EA" "slots_ok sample_v2 (id_writes sample_v2 5 77 1234 2 sample_stamp)"
    by code_simp+
  show ?thesis using setid_round_trip[OF metadata_safe[OF samples(2)] v] by blast
qed

text \<open>
  Copying a header between structures of one version either fails and changes nothing, or
  every entry that is transferred has in the destination the length and the bytes of the source.
\<close>

theorem copy_header_exact:
  assumes "meta_safe add" "meta_safe ads" "ad_vers ads = ad_vers add"
    and "sorted_wrt (\<lambda>i j. i \<noteq> j \<and> disjoint_ranges (ad_getentryoff add i) (nat (ad_getentrylen ads i)) (ad_getentryoff add j) (nat (ad_getentrylen ads j)))
      [0..<ADEID_MAX]"
  shows "\<exists>r e add'. ad_copy_header add ads = Some (r, e, add') \<and> (r \<noteq> 0 \<longrightarrow> add' = add) \<and>
    (r = 0 \<longrightarrow> (\<forall>eid < ADEID_MAX. \<forall>src len. ad_copy_header_entry add ads eid = Some (src, len) \<longrightarrow>
      ad_getentrylen add' eid = ad_getentrylen ads eid \<and>
      peek (ad_data add') (ad_getentryoff add eid) (nat (ad_getentrylen ads eid)) = peek (ad_data ads) src (nat (ad_getentrylen ads eid))))"
proof (cases "valid_data_len add = 0 \<or> \<not> copy_checked add ads")
  case True
  then show ?thesis by (auto simp: ad_copy_header_def)
next
  case False
  then have rdy: "\<forall>eid \<in> set [0..<20]. eid < 20 \<and> copy_ready add ads eid" by (auto simp: copy_checked_def list_all_iff copy_ready_def)
  obtain b where b: "copy_loop ads [0..<20] add = Some b" using copy_loop_safe[OF assms(2) rdy assms(1)] by blast
  note c = copy_loop_copies[OF rdy assms(1,2,4) b]
  have "ad_vers b = ad_vers ads" using c assms(3) by (simp add: same_layout_def)
  then have r: "ad_copy_header add ads = Some (0, None, b\<lparr>ad_rlen := ad_rlen ads\<rparr>)"
    using False b by (auto simp: ad_copy_header_def Let_def AD_VERSION2_def AD_VERSION_EA_def simp del: upt_rec_numeral)
  have "i \<in> set [0..<20]" if "i < 20" for i :: nat using that by (simp del: upt_rec_numeral)
  then show ?thesis using c unfolding r by (intro exI[of _ "0 :: int"] exI[of _ None] exI[of _ "b\<lparr>ad_rlen := ad_rlen ads\<rparr>"])
    (simp add: ad_getentrylen_def del: upt_rec_numeral)
qed

lemma sample_headers:
  "map (\<lambda>e. (ade_off e, ade_len e)) (ad_eid sample_ea) =
     [(0, 0), (0, 0), (82, 0), (0, 0), (154, 200), (0, 0), (0, 0), (0, 0), (354, 16), (122, 32), (0, 0), (0, 0), (0, 0), (0, 0),
      (370, 4), (0, 0), (374, 8), (382, 8), (390, 8), (398, 4)]" "ad_vers sample_ea = AD_VERSION_EA"
  by code_simp+

lemma sample_ranges:
  assumes "i < 20"
  shows "ad_getentryoff sample_ea i = [0, 0, 82, 0, 154, 0, 0, 0, 354, 122, 0, 0, 0, 0, 370, 0, 374, 382, 390, 398] ! i"
    "ad_getentrylen sample_src i = [0, 0, 0, 0, 200, 0, 0, 0, 16, 32, 0, 0, 0, 0, 4, 0, 8, 8, 8, 4] ! i"
proof -
  have l: "length (ad_eid sample_ea) = 20" using metadata_safe[OF samples(1)] by (rule meta_safeD(2))
  have o: "ade_off (ad_eid sample_ea ! i) = map fst (map (\<lambda>e. (ade_off e, ade_len e)) (ad_eid sample_ea)) ! i"
    and n: "ade_len (ad_eid sample_ea ! i) = map snd (map (\<lambda>e. (ade_off e, ade_len e)) (ad_eid sample_ea)) ! i" using l assms by simp_all
  show "ad_getentryoff sample_ea i = [0, 0, 82, 0, 154, 0, 0, 0, 354, 122, 0, 0, 0, 0, 370, 0, 374, 382, 390, 398] ! i"
    using o unfolding sample_headers ad_getentryoff_def by (cases "i = 1") (simp_all add: AD_VERSION2_def AD_VERSION_EA_def)
  show "ad_getentrylen sample_src i = [0, 0, 0, 0, 200, 0, 0, 0, 16, 32, 0, 0, 0, 0, 4, 0, 8, 8, 8, 4] ! i"
    using n unfolding sample_headers by (simp add: ad_getentrylen_def sample_src_def)
qed

theorem copy_header_exact_witness:
  "\<exists>r e add'. ad_copy_header sample_ea sample_src = Some (r, e, add') \<and>
    (r = 0 \<longrightarrow> peek (ad_data add') 382 8 = peek (ad_data sample_src) 382 8)"
proof -
  have v: "ad_vers sample_src = ad_vers sample_ea" by (simp add: sample_src_def)
  have c: "ad_copy_header_entry sample_ea sample_src 17 = Some (382, 8)" by code_simp
  have d: "sorted_wrt (\<lambda>i j. i \<noteq> j \<and> disjoint_ranges (ad_getentryoff sample_ea i) (nat (ad_getentrylen sample_src i)) (ad_getentryoff sample_ea j) (nat (ad_getentrylen sample_src j))) [0..<20]"
  proof -
    have u: "[0..<20] = [0, 1, 2, 3, 4, 5, 6, 7, 8, 9, 10, 11, 12, 13, 14, 15, 16, 17, 18, 19 :: nat]" by (simp add: upt_rec)
    show ?thesis unfolding u sorted_wrt.simps by (simp add: sample_ranges disjoint_ranges_def)
  qed
  have n: "(17 :: nat) < 20" "ad_getentryoff sample_ea 17 = 382" "nat (ad_getentrylen sample_src 17) = 8" by (simp_all add: sample_ranges)
  then show ?thesis using copy_header_exact[OF metadata_safe[OF samples(1)] samples(3) v d] c by metis
qed

end
