(* ===== verification/Ad_Sidecar.thy ===== *)
theory Ad_Sidecar
  imports Ad_Header_Trip
begin

text \<open>
  The sidecar file of a resource fork, \<open>._name\<close>: reading its header and converting one that macOS
  wrote, with attributes packed behind the FinderInfo, to the layout of netatalk
  (\<open>ad_header_read_osx\<close>, \<open>ad_convert_osx\<close> and the positioned reads and writes they use). The file is
  its bytes. What each call of \<open>pread\<close> and \<open>pwrite\<close> does of what it is asked for is an argument, by
  the number of the call, as are the outcomes of the other system calls. The data file is not given
  (\<open>dpath\<close> is \<open>NULL\<close>), so no metadata attribute is made.
\<close>

subsection \<open>Positioned reads and writes\<close>

datatype io_answer = Interrupted | Failed ad_errno | Moved nat

partial_function (option) pread_full ::
  "(nat \<Rightarrow> io_answer) \<Rightarrow> bytes \<Rightarrow> nat \<Rightarrow> nat \<Rightarrow> nat \<Rightarrow> bytes \<Rightarrow> ((ad_errno + bytes) \<times> nat) option" where
  "pread_full io file count off c buf =
     (if length buf < count then
        (case io c of
           Interrupted \<Rightarrow> pread_full io file count off (Suc c) buf
         | Failed e \<Rightarrow> Some (Inl e, Suc c)
         | Moved n \<Rightarrow>
             (let cc = take (min n (count - length buf)) (drop (off + length buf) file) in
              if cc = [] then Some (Inl AD_EIO, Suc c) else pread_full io file count off (Suc c) (buf @ cc)))
      else Some (Inr buf, c))"

definition ad_convert_pread_full :: "(nat \<Rightarrow> io_answer) \<Rightarrow> bytes \<Rightarrow> nat \<Rightarrow> nat \<Rightarrow> nat \<Rightarrow> ((ad_errno + bytes) \<times> nat) option" where
  "ad_convert_pread_full io file count off c = pread_full io file count off c []"

text \<open>Writing within the file or at its end.\<close>

definition write_at :: "bytes \<Rightarrow> nat \<Rightarrow> bytes \<Rightarrow> bytes" where
  "write_at file off bs = take off file @ bs @ drop (off + length bs) file"

partial_function (option) pwrite_full ::
  "(nat \<Rightarrow> io_answer) \<Rightarrow> bytes \<Rightarrow> nat \<Rightarrow> bytes \<Rightarrow> nat \<Rightarrow> (ad_errno option \<times> bytes \<times> nat) option" where
  "pwrite_full io file off buf c =
     (if buf \<noteq> [] then
        (case io c of
           Interrupted \<Rightarrow> pwrite_full io file off buf (Suc c)
         | Failed e \<Rightarrow> Some (Some e, file, Suc c)
         | Moved n \<Rightarrow>
             if n = 0 then Some (Some AD_EIO, file, Suc c)
             else pwrite_full io (write_at file off (take n buf)) (off + length (take n buf)) (drop n buf) (Suc c))
      else Some (None, file, c))"

definition ad_convert_pwrite_full :: "(nat \<Rightarrow> io_answer) \<Rightarrow> bytes \<Rightarrow> bytes \<Rightarrow> nat \<Rightarrow> nat \<Rightarrow> (ad_errno option \<times> bytes \<times> nat) option" where
  "ad_convert_pwrite_full io file buf off c = pwrite_full io file off buf c"

abbreviation (input) MOVE_BUF :: nat where "MOVE_BUF \<equiv> 8192"

partial_function (option) ad_convert_move_rfork ::
  "(nat \<Rightarrow> io_answer) \<Rightarrow> bytes \<Rightarrow> nat \<Rightarrow> nat \<Rightarrow> nat \<Rightarrow> nat \<Rightarrow> (ad_errno option \<times> bytes \<times> nat) option" where
  "ad_convert_move_rfork io file src dst len c =
     (if len > 0 then
        (let count = (if len > MOVE_BUF then MOVE_BUF else len) in
         Option.bind (ad_convert_pread_full io file count src c) (\<lambda>(r, c).
           case r of
             Inl e \<Rightarrow> Some (Some e, file, c)
           | Inr buf \<Rightarrow>
               Option.bind (ad_convert_pwrite_full io file buf dst c) (\<lambda>(e, file, c).
                 if e \<noteq> None then Some (e, file, c)
                 else ad_convert_move_rfork io file (src + count) (dst + count) (len - count) c)))
      else Some (None, file, c))"

subsection \<open>Conversion\<close>

definition ADVOL_RO :: "32 word" where "ADVOL_RO = 2"

definition rlen_osx :: "nat \<Rightarrow> int" where
  "rlen_osx st_size = (if int st_size > ADEDOFF_RFORK_OSX then int st_size - ADEDOFF_RFORK_OSX else 0)"

text \<open>
  The outcomes of the system calls: of the reads and writes by the number of the call, of the read of
  the header and of \<open>fstat\<close> by the number of conversions before it, and of \<open>ftruncate\<close>. A size that
  the caller gives counts as the outcome of \<open>fstat\<close>.
\<close>

record sidecar_env =
  se_io :: "nat \<Rightarrow> io_answer"
  se_header :: "nat \<Rightarrow> io_answer"
  se_fstat :: "nat \<Rightarrow> ad_errno option"
  se_ftruncate :: "ad_errno option"

text \<open>The rewrite of a sidecar that has passed the checks, its result as below.\<close>

definition convert_rewrite :: "sidecar_env \<Rightarrow> bytes \<Rightarrow> bytes \<Rightarrow> admeta \<Rightarrow> nat \<Rightarrow> nat \<Rightarrow> nat \<Rightarrow> (int \<times> ad_errno option \<times> bytes \<times> nat) option" where
  "convert_rewrite env junk file ad roff rlen c =
     do {
       let doff = 82;
       (e, file, c) \<leftarrow> ad_convert_move_rfork (se_io env) file roff doff rlen c;
       if e \<noteq> None then Some (-1, e, file, c)
       else do {
         let ad = ad_setentrylen ad ADEID_FINDERI 32;
         let ad = ad\<lparr>ad_rlen := int rlen\<rparr>;
         let ad = ad_setentryoff (ad_setentrylen ad ADEID_RFORK (int rlen)) ADEID_RFORK (int doff);
         (headerlen, header) \<leftarrow> ad_rebuild_adouble_header_osx ad junk;
         if se_ftruncate env \<noteq> None then Some (-1, se_ftruncate env, file, c)
         else do {
           let file = take (doff + rlen) file;
           (e, file, c) \<leftarrow> ad_convert_pwrite_full (se_io env) file (take (nat headerlen) header) 0 c;
           if e \<noteq> None then Some (-1, e, file, c) else Some (1, None, file, c)
         }
       }
     }"

text \<open>
  The result is -1, 0 or 1 with the error, the file and the number of calls made. \<open>junk\<close> is what the
  header buffer on the stack holds at first. The flag against nested conversions is an argument; it
  is clear again at the end.
\<close>

definition ad_convert_osx :: "sidecar_env \<Rightarrow> bool \<Rightarrow> bytes \<Rightarrow> bytes \<Rightarrow> admeta \<Rightarrow> nat \<Rightarrow> (int \<times> ad_errno option \<times> bytes \<times> nat) option" where
  "ad_convert_osx env in_conversion junk file ad c =
     (let finderlen = (word_of_int (ad_getentrylen ad ADEID_FINDERI) :: 32 word);
          st_size = length file;
          roff = unat (word_of_int (ad_getentryoff ad ADEID_RFORK) :: 32 word);
          rlen = unat (word_of_int (ad_getentrylen ad ADEID_RFORK) :: 32 word);
          doff = 82
      in if in_conversion \<or> finderlen = 32 then Some (0, None, file, c)
         else if ad_options ad AND ADVOL_RO \<noteq> 0 then Some (-1, Some (AD_ERRNO 30), file, c)
         else if (word_of_int (ad_getentryoff ad ADEID_FINDERI) :: 32 word) \<noteq> 50 then Some (-1, Some AD_EIO, file, c)
         else if finderlen < 32 then Some (-1, Some AD_EIO, file, c)
         else if st_size < AD_DATASZ_OSX then Some (-1, Some AD_EIO, file, c)
         else if roff < doff then Some (-1, Some AD_EIO, file, c)
         else if roff > st_size \<or> rlen > st_size - roff then Some (-1, Some AD_EIO, file, c)
         else
           convert_rewrite env junk file ad roff rlen c)"

text \<open>A fresh structure for the sidecar, as \<open>ad_init_old\<close> leaves it.\<close>

definition fresh_osx :: "32 word \<Rightarrow> admeta" where
  "fresh_osx options =
     \<lparr>ad_magic = 0, ad_version = 0, ad_eid = replicate ADEID_MAX \<lparr>ade_off = 0, ade_len = 0\<rparr>, ad_vers = AD_VERSION_EA,
      ad_adflags = 0, ad_options = options, ad_data_refcount = 0, ad_reso_refcount = 0, ad_rlen = 0,
      ad_open_forks = 0, ad_held_forks = 0, valid_data_len = 0, ad_data = replicate AD_DATASZ_MAX 0\<rparr>"

text \<open>One read of the header: an error, or the structure with its entries.\<close>

definition read_osx :: "io_answer \<Rightarrow> 32 word \<Rightarrow> bytes \<Rightarrow> (ad_errno + admeta) option" where
  "read_osx answer options file =
     (case answer of
        Interrupted \<Rightarrow> Some (Inl (AD_ERRNO 4))
      | Failed e \<Rightarrow> Some (Inl e)
      | Moved n \<Rightarrow>
          do {
            let header = take (min n AD_DATASZ_OSX) file;
            let ad = fresh_osx options;
            buf \<leftarrow> poke (ad_data ad) 0 header;
            let ad = ad\<lparr>ad_data := buf\<rparr>;
            if length header < AD_DATASZ_OSX then Some (Inl AD_EIO)
            else do {
              ad \<leftarrow> read_magic ad;
              if ad_magic ad \<noteq> AD_MAGIC \<or> ad_version ad \<noteq> AD_VERSION2 then Some (Inl AD_EIO)
              else do {
                n \<leftarrow> get16 (ad_data ad) 24;
                let nentries = unat (net16 n);
                if nentries > 16 then Some (Inl AD_EIO)
                else if nentries * AD_ENTRY_LEN + AD_HEADER_LEN > length header then Some (Inl AD_EIO)
                else do {
                  (r, ad) \<leftarrow> parse_entries ad nentries (length file);
                  Some (if r \<noteq> 0 then Inl AD_EIO else Inr ad)
                }
              }
            }
          })"

text \<open>\<open>ad_header_read_osx\<close> after \<open>retry\<close> conversions, one at most; what it changes of \<open>ad\<close> is the resource fork.\<close>

function header_read_osx ::
  "sidecar_env \<Rightarrow> bool \<Rightarrow> bytes \<Rightarrow> nat \<Rightarrow> bytes \<Rightarrow> admeta \<Rightarrow> nat \<Rightarrow> (int \<times> ad_errno option \<times> bytes \<times> admeta \<times> nat) option" where
  "header_read_osx env nested junk retry file ad c =
     (if se_fstat env retry \<noteq> None then Some (-1, se_fstat env retry, file, ad, c)
      else do {
        r \<leftarrow> read_osx (se_header env retry) (ad_options ad) file;
        case r of
          Inl e \<Rightarrow> Some (-1, Some e, file, ad, c)
        | Inr adosx \<Rightarrow>
            if ad_getentrylen adosx ADEID_FINDERI \<noteq> 32 then
              if retry > 0 then Some (-1, Some AD_EIO, file, ad, c)
              else
                do {
                  (converted, e, file, c) \<leftarrow> ad_convert_osx env nested junk file adosx c;
                  if converted = 1 then header_read_osx env nested junk (Suc retry) file ad c
                  else Some (-1, if converted = 0 then Some AD_EIO else e, file, ad, c)
                }
            else if ad_getentryoff adosx ADEID_RFORK \<noteq> ADEDOFF_RFORK_OSX then Some (-1, Some AD_EIO, file, ad, c)
            else Some (0, None, file, (ad_setentryoff ad ADEID_RFORK ADEDOFF_RFORK_OSX)\<lparr>ad_rlen := rlen_osx (length file)\<rparr>, c)
      })"
  by pat_completeness auto
termination by (relation "measure (\<lambda>(_, _, _, retry, _). 1 - retry)") auto

declare header_read_osx.simps [simp del]

definition ad_header_read_osx ::
  "sidecar_env \<Rightarrow> bool \<Rightarrow> bytes \<Rightarrow> bytes \<Rightarrow> admeta \<Rightarrow> nat \<Rightarrow> (int \<times> ad_errno option \<times> bytes \<times> admeta \<times> nat) option" where
  "ad_header_read_osx env nested junk file ad c = header_read_osx env nested junk 0 file ad c"

end
