(* ===== verification/Ad_Sidecar_Claims.thy ===== *)
theory Ad_Sidecar_Claims
  imports Ad_Sidecar
begin

text \<open>
  What the conversion of a sidecar file does: the move of the resource fork towards the start of the
  file in chunks that may overlap their source is a block move, the whole conversion ends although
  calls are interrupted and move only part of what they are asked for, and the file it leaves is one
  that the next read takes as netatalk's own.
\<close>

subsection \<open>System calls that make progress\<close>

text \<open>No call fails, one that moves anything moves a byte at least, and calls are not interrupted forever.\<close>

definition progressing :: "(nat \<Rightarrow> io_answer) \<Rightarrow> bool" where
  "progressing io \<longleftrightarrow> (\<forall>c. io c = Interrupted \<or> (\<exists>n > 0. io c = Moved n)) \<and> (\<forall>c. \<exists>k \<ge> c. io k \<noteq> Interrupted)"

lemma progressing_next:
  assumes "progressing io"
  obtains d n where "0 < n" "io (c + d) = Moved n" "\<forall>j < d. io (c + j) = Interrupted"
proof -
  obtain k where k: "k \<ge> c" "io k \<noteq> Interrupted" using assms unfolding progressing_def by blast
  then have ex: "\<exists>d. io (c + d) \<noteq> Interrupted" by (metis le_add_diff_inverse)
  define d where "d = (LEAST d. io (c + d) \<noteq> Interrupted)"
  have "io (c + d) \<noteq> Interrupted" unfolding d_def by (rule LeastI_ex[OF ex])
  moreover have "\<forall>j < d. io (c + j) = Interrupted" unfolding d_def using not_less_Least by blast
  ultimately show thesis using that assms unfolding progressing_def by metis
qed

lemma pread_interrupted:
  "\<forall>j < d. io (c + j) = Interrupted \<Longrightarrow> length buf < count \<Longrightarrow>
   pread_full io file count off c buf = pread_full io file count off (c + d) buf"
proof (induction d arbitrary: c)
  case (Suc d)
  have "pread_full io file count off c buf = pread_full io file count off (Suc c) buf"
    using Suc.prems by (subst pread_full.simps) (auto dest: spec[of _ 0])
  also have "\<dots> = pread_full io file count off (Suc c + d) buf"
    by (rule Suc.IH) (use Suc.prems in \<open>auto dest: spec[of _ "Suc _"]\<close>)
  finally show ?case by simp
qed simp

lemma pwrite_interrupted:
  "\<forall>j < d. io (c + j) = Interrupted \<Longrightarrow> buf \<noteq> [] \<Longrightarrow> pwrite_full io file off buf c = pwrite_full io file off buf (c + d)"
proof (induction d arbitrary: c)
  case (Suc d)
  have "pwrite_full io file off buf c = pwrite_full io file off buf (Suc c)"
    using Suc.prems by (subst pwrite_full.simps) (auto dest: spec[of _ 0])
  also have "\<dots> = pwrite_full io file off buf (Suc c + d)"
    by (rule Suc.IH) (use Suc.prems in \<open>auto dest: spec[of _ "Suc _"]\<close>)
  finally show ?case by simp
qed simp

lemma pread_full_ok:
  assumes "progressing io" "off + count \<le> length file"
  shows "l \<le> count \<Longrightarrow> \<exists>c'. pread_full io file count off c (take l (drop off file)) = Some (Inr (take count (drop off file)), c')"
proof (induction "count - l" arbitrary: l c rule: less_induct)
  case less
  let ?b = "take l (drop off file)"
  have len: "length ?b = l" using less.prems assms(2) by simp
  show ?case
  proof (cases "l < count")
    case True
    obtain d n where d: "0 < n" "io (c + d) = Moved n" "\<forall>j < d. io (c + j) = Interrupted" using progressing_next[OF assms(1)] by blast
    define m where "m = min n (count - l)"
    have m: "0 < m" "l + m \<le> count" using d(1) True by (simp_all add: m_def)
    have cc: "?b @ take m (drop (off + l) file) = take (l + m) (drop off file)" by (simp add: take_add drop_drop add.commute)
    have ne: "take m (drop (off + l) file) \<noteq> []" using m assms(2) by auto
    have "pread_full io file count off c ?b = pread_full io file count off (c + d) ?b"
      by (rule pread_interrupted[OF d(3)]) (use len True in simp)
    also have "\<dots> = pread_full io file count off (Suc (c + d)) (take (l + m) (drop off file))"
      using len True d(2) ne cc by (subst pread_full.simps) (simp add: m_def[symmetric] Let_def)
    finally show ?thesis using less.hyps[of "l + m"] m True by fastforce
  next
    case False
    then show ?thesis using less.prems len by (subst pread_full.simps) simp
  qed
qed

lemma length_write_at: "off + length bs \<le> length file \<Longrightarrow> length (write_at file off bs) = length file"
  by (simp add: write_at_def)

lemma write_at_append:
  "off + length a + length b \<le> length file \<Longrightarrow> write_at (write_at file off a) (off + length a) b = write_at file off (a @ b)"
  by (simp add: write_at_def ac_simps)

lemma pwrite_full_ok:
  assumes "progressing io"
  shows "off + length buf \<le> length file \<Longrightarrow> \<exists>c'. pwrite_full io file off buf c = Some (None, write_at file off buf, c')"
proof (induction "length buf" arbitrary: buf "file" off c rule: less_induct)
  case less
  show ?case
  proof (cases "buf = []")
    case False
    obtain d n where d: "0 < n" "io (c + d) = Moved n" "\<forall>j < d. io (c + j) = Interrupted" using progressing_next[OF assms] by blast
    let ?a = "take n buf" and ?b = "drop n buf"
    have ab: "length ?a + length ?b = length buf" "?a @ ?b = buf" by simp_all
    have "pwrite_full io file off buf c = pwrite_full io (write_at file off ?a) (off + length ?a) ?b (Suc (c + d))"
      using pwrite_interrupted[OF d(3) False] False d(1,2) by (subst (asm) (2) pwrite_full.simps) simp
    moreover have "\<exists>c'. pwrite_full io (write_at file off ?a) (off + length ?a) ?b (Suc (c + d)) =
        Some (None, write_at (write_at file off ?a) (off + length ?a) ?b, c')"
    proof (rule less.hyps)
      show "length ?b < length buf" using False d(1) by simp
      show "off + length ?a + length ?b \<le> length (write_at file off ?a)"
        using less.prems ab(1) length_write_at[of off ?a "file"] by linarith
    qed
    ultimately show ?thesis using write_at_append[of off ?a ?b "file"] less.prems ab by simp
  qed (subst pwrite_full.simps, simp add: write_at_def)
qed

subsection \<open>The move\<close>

definition block_move :: "bytes \<Rightarrow> nat \<Rightarrow> nat \<Rightarrow> nat \<Rightarrow> bytes" where
  "block_move file src dst len = take dst file @ take len (drop src file) @ drop (dst + len) file"

lemma move_ok:
  assumes "progressing io"
  shows "dst \<le> src \<Longrightarrow> src + len \<le> length file \<Longrightarrow>
    \<exists>c'. ad_convert_move_rfork io file src dst len c = Some (None, block_move file src dst len, c')"
proof (induction len arbitrary: "file" src dst c rule: less_induct)
  case (less len)
  show ?case
  proof (cases "len = 0")
    case False
    define k where "k = (if len > 8192 then 8192 else len)"
    have k: "0 < k" "k \<le> len" using False by (simp_all add: k_def)
    let ?f = "write_at file dst (take k (drop src file))"
    have l: "length (take k (drop src file)) = k" "length ?f = length file"
      using less.prems k(2) length_write_at[of dst "take k (drop src file)" "file"] by simp_all
    obtain c1 where c1: "pread_full io file k src c [] = Some (Inr (take k (drop src file)), c1)"
      using pread_full_ok[OF assms, of src k "file" 0 c] less.prems k(2) by auto
    obtain c2 where c2: "pwrite_full io file dst (take k (drop src file)) c1 = Some (None, ?f, c2)"
      using pwrite_full_ok[OF assms, of dst "take k (drop src file)" "file" c1] less.prems k(2) l(1) by auto
    have step: "ad_convert_move_rfork io file src dst len c = ad_convert_move_rfork io ?f (src + k) (dst + k) (len - k) c2"
      using False c1 c2 by (subst ad_convert_move_rfork.simps)
        (simp add: k_def[symmetric] ad_convert_pread_full_def ad_convert_pwrite_full_def Let_def)
    obtain c3 where c3: "ad_convert_move_rfork io ?f (src + k) (dst + k) (len - k) c2 = Some (None, block_move ?f (src + k) (dst + k) (len - k), c3)"
      using less.IH[of "len - k" "dst + k" "src + k" ?f c2] less.prems k l(2) by auto
    have d: "drop i ?f = drop i file" if "dst + k \<le> i" for i using that less.prems l(1) k by (simp add: write_at_def)
    have t: "take (dst + k) ?f = take dst file @ take k (drop src file)" using less.prems l(1) k by (simp add: write_at_def)
    have "take k (drop src file) @ take (len - k) (drop (src + k) file) = take len (drop src file)"
      using k(2) take_add[of k "len - k" "drop src file"] by (simp add: drop_drop add.commute)
    then have "block_move ?f (src + k) (dst + k) (len - k) = block_move file src dst len"
      using less.prems k(2) d[of "src + k"] d[of "dst + len"] by (simp add: block_move_def t)
    then show ?thesis using step c3 by simp
  qed (subst ad_convert_move_rfork.simps, simp add: block_move_def)
qed

subsection \<open>The rebuilt header\<close>

definition osx_table :: "nat \<Rightarrow> adentry list" where
  "osx_table rlen = (replicate ADEID_MAX \<lparr>ade_off = 0, ade_len = 0\<rparr>)
     [ADEID_FINDERI := \<lparr>ade_off = 50, ade_len = 32\<rparr>, ADEID_RFORK := \<lparr>ade_off = 82, ade_len = int rlen\<rparr>]"

definition osx_bytes :: "nat \<Rightarrow> bytes \<Rightarrow> bytes" where
  "osx_bytes rlen finfo =
     rev (le_bytes 4 AD_MAGIC) @ rev (le_bytes 4 AD_VERSION2) @ AD_FILLER_NETATALK @ rev (le_bytes 2 (2 :: 16 word)) @
     concat (map (entry_bytes (osx_table rlen)) [ADEID_FINDERI, ADEID_RFORK]) @ finfo"

lemma length_osx_bytes: "length finfo = 32 \<Longrightarrow> length (osx_bytes rlen finfo) = 82"
  by (simp add: osx_bytes_def AD_FILLER_NETATALK_def)

lemma poke_next:
  assumes "p = int (length pre)" "length xs \<le> length post"
  shows "poke (pre @ post) p xs = Some ((pre @ xs) @ drop (length xs) post)"
  using assms by (simp add: poke_def)

lemma rebuild_osx_bytes:
  assumes "length junk = 82" "ad_magic ad = AD_MAGIC" "ad_version ad = AD_VERSION2" "ad_rlen ad = int rlen"
    and "ad_entry ad ADEID_FINDERI = Some 50" "peek (ad_data ad) 50 32 = Some finfo"
  shows "ad_rebuild_adouble_header_osx ad junk = Some (82, osx_bytes rlen finfo)"
proof -
  have f: "length finfo = 32" using peek_length[OF assms(6)] .
  let ?w = "\<lambda>w :: 32 word. rev (le_bytes 4 w)"
  let ?m = "?w AD_MAGIC @ ?w AD_VERSION2"
  let ?n = "?m @ AD_FILLER_NETATALK @ rev (le_bytes 2 (2 :: 16 word))"
  let ?e = "?n @ ?w (set_eid ! 9) @ ?w 50 @ ?w 32"
  have F: "length AD_FILLER_NETATALK = 16" by (simp add: AD_FILLER_NETATALK_def)
  have 1: "poke junk 0 (?w AD_MAGIC) = Some (?w AD_MAGIC @ drop 4 junk)"
    using poke_next[of 0 "[]" "?w AD_MAGIC" junk] assms(1) by simp
  have 2: "poke (?w AD_MAGIC @ drop 4 junk) 4 (?w AD_VERSION2) = Some (?m @ drop 8 junk)"
    using poke_next[of 4 "?w AD_MAGIC" "?w AD_VERSION2" "drop 4 junk"] assms(1) by simp
  have 3: "poke (?m @ drop 8 junk) 8 AD_FILLER_NETATALK = Some ((?m @ AD_FILLER_NETATALK) @ drop 24 junk)"
    using poke_next[of 8 ?m AD_FILLER_NETATALK "drop 8 junk"] assms(1) F by simp
  have 4: "poke ((?m @ AD_FILLER_NETATALK) @ drop 24 junk) 24 (rev (le_bytes 2 (2 :: 16 word))) = Some (?n @ drop 26 junk)"
    using poke_next[of 24 "?m @ AD_FILLER_NETATALK" "rev (le_bytes 2 (2 :: 16 word))" "drop 24 junk"] assms(1) F by simp
  have 5: "poke (?n @ drop 26 junk) 26 (?w (set_eid ! 9)) = Some ((?n @ ?w (set_eid ! 9)) @ drop 30 junk)"
    using poke_next[of 26 ?n "?w (set_eid ! 9)" "drop 26 junk"] assms(1) F by simp
  have 6: "poke ((?n @ ?w (set_eid ! 9)) @ drop 30 junk) 30 (?w 50) = Some ((?n @ ?w (set_eid ! 9) @ ?w 50) @ drop 34 junk)"
    using poke_next[of 30 "?n @ ?w (set_eid ! 9)" "?w 50" "drop 30 junk"] assms(1) F by simp
  have 7: "poke ((?n @ ?w (set_eid ! 9) @ ?w 50) @ drop 34 junk) 34 (?w 32) = Some (?e @ drop 38 junk)"
    using poke_next[of 34 "?n @ ?w (set_eid ! 9) @ ?w 50" "?w 32" "drop 34 junk"] assms(1) F by simp
  have 8: "poke (?e @ drop 38 junk) 50 finfo = Some (?e @ take 12 (drop 38 junk) @ finfo)"
    using assms(1) F f by (simp add: poke_def)
  have 9: "poke (?e @ take 12 (drop 38 junk) @ finfo) 38 (?w (set_eid ! 2)) =
      Some ((?e @ ?w (set_eid ! 2)) @ take 8 (drop 42 junk) @ finfo)"
    using poke_next[of 38 ?e "?w (set_eid ! 2)" "take 12 (drop 38 junk) @ finfo"] assms(1) F by (simp add: drop_take)
  have 10: "poke ((?e @ ?w (set_eid ! 2)) @ take 8 (drop 42 junk) @ finfo) 42 (?w 82) =
      Some ((?e @ ?w (set_eid ! 2) @ ?w 82) @ take 4 (drop 46 junk) @ finfo)"
    using poke_next[of 42 "?e @ ?w (set_eid ! 2)" "?w 82" "take 8 (drop 42 junk) @ finfo"] assms(1) F by (simp add: drop_take)
  have 11: "poke ((?e @ ?w (set_eid ! 2) @ ?w 82) @ take 4 (drop 46 junk) @ finfo) 46 (?w (word_of_int (int rlen))) =
      Some (?e @ ?w (set_eid ! 2) @ ?w 82 @ ?w (word_of_int (int rlen)) @ finfo)"
    using poke_next[of 46 "?e @ ?w (set_eid ! 2) @ ?w 82" "?w (word_of_int (int rlen))" "take 4 (drop 46 junk) @ finfo"] assms(1) F by simp
  have "?e @ ?w (set_eid ! 2) @ ?w 82 @ ?w (word_of_int (int rlen)) @ finfo = osx_bytes rlen finfo"
    by (simp add: osx_bytes_def entry_bytes_def osx_table_def)
  then show ?thesis unfolding ad_rebuild_adouble_header_osx_def assms(2-5) net32_bytes net16_bytes
    using 1 2 3 4 5 6 7 8 9 10 11 assms(6) by simp
qed

subsection \<open>Reading a sidecar\<close>

definition entries_32 :: "adentry list \<Rightarrow> bool" where
  "entries_32 es \<longleftrightarrow> length es = ADEID_MAX \<and>
     list_all (\<lambda>e. 0 \<le> ade_off e \<and> ade_off e < 2 ^ 32 \<and> 0 \<le> ade_len e \<and> ade_len e < 2 ^ 32) es"

lemma entries_32_set: "entries_32 es \<Longrightarrow> entries_32 (set_entry (i, uint (f :: 32 word), uint (l :: 32 word)) es)"
  using unsigned_less[of f, where 'a = int] unsigned_less[of l, where 'a = int]
  by (auto simp: entries_32_def set_entry_def list_all_iff dest!: set_update_subset_insert[THEN subsetD])

lemma parse_loop_total:
  assumes "length (ad_data ad) = AD_DATASZ_MAX" "entries_32 (ad_eid ad)" "0 \<le> p" "p + 12 * int n \<le> AD_DATASZ_MAX"
  shows "\<exists>r es. entries_32 es \<and> parse_loop ad valid n p =
    Some (r, if r = 0 then ad\<lparr>ad_eid := es, valid_data_len := valid\<rparr> else ad\<lparr>ad_eid := es\<rparr>)"
  using assms
proof (induction n arbitrary: ad p)
  case 0
  then show ?case by (intro exI[of _ 0] exI[of _ "ad_eid ad"]) simp
next
  case (Suc n)
  have "\<exists>bs. peek (ad_data ad) q 4 = Some bs" if "q \<in> {p, p + 4, p + 8}" for q
    by (rule peek_ok) (use that Suc.prems in auto)
  then obtain e f l where g: "get32 (ad_data ad) p = Some e" "get32 (ad_data ad) (p + 4) = Some f" "get32 (ad_data ad) (p + 8) = Some l"
    by fastforce
  let ?e = "get_eid (net32 e)" and ?f = "net32 f" and ?l = "net32 l"
  let ?bad = "?e = 0 \<or> unat ?e > 20 \<or> (unat ?e \<noteq> 2 \<and> (unat ?f > valid \<or> unat ?l > valid - unat ?f))"
  let ?a = "ad\<lparr>ad_eid := set_entry (unat ?e, uint ?f, uint ?l) (ad_eid ad)\<rparr>"
  have eq: "parse_loop ad valid (Suc n) p = (if ?bad then Some (-1, ad) else parse_loop ?a valid n (p + 12))"
    by (simp only: parse_loop.simps g Let_def Option.bind.simps)
  show ?case
  proof (cases ?bad)
    case True
    then show ?thesis using eq Suc.prems(2) by (intro exI[of _ "-1"] exI[of _ "ad_eid ad"]) simp
  next
    case False
    have "\<exists>r es. entries_32 es \<and> parse_loop ?a valid n (p + 12) =
      Some (r, if r = 0 then ?a\<lparr>ad_eid := es, valid_data_len := valid\<rparr> else ?a\<lparr>ad_eid := es\<rparr>)"
      by (rule Suc.IH) (use Suc.prems entries_32_set in simp_all)
    then obtain r es where r: "entries_32 es" "parse_loop ?a valid n (p + 12) =
        Some (r, if r = 0 then ?a\<lparr>ad_eid := es, valid_data_len := valid\<rparr> else ?a\<lparr>ad_eid := es\<rparr>)" by blast
    show ?thesis unfolding eq if_not_P[OF False] by (intro exI[of _ r] exI[of _ es]) (use r in simp)
  qed
qed

text \<open>The structure that a read of the header leaves.\<close>

definition osx_state :: "32 word \<Rightarrow> bytes \<Rightarrow> adentry list \<Rightarrow> admeta" where
  "osx_state options file es = (fresh_osx options)\<lparr>ad_data := take 82 file @ replicate 942 0,
     ad_magic := AD_MAGIC, ad_version := AD_VERSION2, ad_eid := es, valid_data_len := length file\<rparr>"

lemma poke_fresh: "length h \<le> 82 \<Longrightarrow> poke (ad_data (fresh_osx options)) 0 h = Some (h @ replicate (1024 - length h) 0)"
  by (simp add: poke_def fresh_osx_def)

lemma fresh_entries: "entries_32 (ad_eid (fresh_osx options))"
  by (simp add: fresh_osx_def entries_32_def list_all_iff)

lemma read_osx_total: "\<exists>r. read_osx answer options file = Some r \<and>
  (\<forall>ad. r = Inr ad \<longrightarrow> 82 \<le> length file \<and> (\<exists>es. entries_32 es \<and> ad = osx_state options file es))"
proof (cases answer)
  case (Moved n)
  define h where "h = take (min n 82) file"
  define b where "b = h @ replicate (1024 - length h) (0 :: 8 word)"
  let ?a = "(fresh_osx options)\<lparr>ad_data := b\<rparr>"
  have hl: "length h \<le> 82" "length b = 1024" by (simp_all add: h_def b_def)
  obtain m where m: "read_magic ?a = Some (?a\<lparr>ad_magic := fst m, ad_version := snd m\<rparr>)"
    using peek_ok[of 0 4 b] peek_ok[of 4 4 b] hl(2) by (force simp: read_magic_def)
  obtain z where z: "peek b 24 2 = Some z" using peek_ok[of 24 2 b] hl(2) by auto
  let ?c = "?a\<lparr>ad_magic := fst m, ad_version := snd m\<rparr>" and ?n = "unat (net16 (le_word z))"
  have "\<exists>r es. entries_32 es \<and> parse_loop ?c (length file) ?n 26 =
      Some (r, if r = 0 then ?c\<lparr>ad_eid := es, valid_data_len := length file\<rparr> else ?c\<lparr>ad_eid := es\<rparr>)" if "\<not> ?n > 16"
  proof (rule parse_loop_total)
    show "26 + 12 * int ?n \<le> 1024" using that by linarith
  qed (use hl(2) fresh_entries[of options] in simp_all)
  then obtain r es where p: "\<not> ?n > 16 \<Longrightarrow> entries_32 es \<and> parse_entries ?c ?n (length file) =
      Some (r, if r = 0 then ?c\<lparr>ad_eid := es, valid_data_len := length file\<rparr> else ?c\<lparr>ad_eid := es\<rparr>)"
    unfolding parse_entries_def by blast
  have full: "82 \<le> length file" "b = take 82 file @ replicate 942 0" if "\<not> length h < 82"
  proof -
    have "n \<ge> 82" "82 \<le> length file" using that by (simp_all add: h_def)
    then show "82 \<le> length file" "b = take 82 file @ replicate 942 0" by (simp_all add: b_def h_def)
  qed
  let ?ok = "\<not> length h < 82 \<and> fst m = AD_MAGIC \<and> snd m = AD_VERSION2 \<and> \<not> ?n > 16 \<and> \<not> ?n * 12 + 26 > length h \<and> r = 0"
  have "read_osx answer options file = Some (if ?ok then Inr (?c\<lparr>ad_eid := es, valid_data_len := length file\<rparr>) else Inl AD_EIO)"
    unfolding read_osx_def Moved io_answer.case h_def[symmetric] Let_def poke_fresh[OF hl(1)] b_def[symmetric] using p by (auto simp: m z)
  moreover have "?ok \<Longrightarrow> ?c\<lparr>ad_eid := es, valid_data_len := length file\<rparr> = osx_state options file es"
    using full(2) by (simp add: osx_state_def)
  ultimately show ?thesis using p full(1) by auto
qed (simp_all add: read_osx_def)

lemma osx_table_nth:
  "osx_table rlen ! 9 = \<lparr>ade_off = 50, ade_len = 32\<rparr>" "osx_table rlen ! 2 = \<lparr>ade_off = 82, ade_len = int rlen\<rparr>"
  by (simp_all add: osx_table_def)

lemma read_own:
  assumes "length finfo = 32" "length fork = rlen" "rlen < 2 ^ 32" "82 \<le> n"
  shows "read_osx (Moved n) options (osx_bytes rlen finfo @ fork) = Some (Inr (osx_state options (osx_bytes rlen finfo @ fork) (osx_table rlen)))"
proof -
  define h f where "h = osx_bytes rlen finfo" and "f = h @ fork"
  have l: "length h = 82" "length f = 82 + rlen" using length_osx_bytes[OF assms(1)] assms(2) by (simp_all add: h_def f_def)
  have t: "take (min n 82) f = h" "take 82 f = h" using l(1) assms(4) by (simp_all add: f_def)
  let ?m = "rev (le_bytes 4 AD_MAGIC)" and ?v = "rev (le_bytes 4 AD_VERSION2)" and ?c = "rev (le_bytes 2 (2 :: 16 word))"
    and ?e = "concat (map (entry_bytes (osx_table rlen)) [9, 2])"
  define b where "b = h @ replicate 942 (0 :: 8 word)"
  let ?a = "(fresh_osx options)\<lparr>ad_data := b\<rparr>" and ?p = "?m @ ?v @ AD_FILLER_NETATALK @ ?c"
  have b: "b = ?p @ ?e @ finfo @ replicate 942 0" by (simp add: b_def h_def osx_bytes_def)
  have F: "length AD_FILLER_NETATALK = 16" by (simp add: AD_FILLER_NETATALK_def)
  have "peek b 0 4 = Some ?m" using peek_append[of 4 ?m 0 "[]"] by (simp add: b)
  moreover have "peek b 4 4 = Some ?v" using peek_append[of 4 ?v 4 ?m] by (simp add: b)
  ultimately have m: "read_magic ?a = Some (?a\<lparr>ad_magic := AD_MAGIC, ad_version := AD_VERSION2\<rparr>)" by (simp add: read_magic_def)
  have z: "peek b 24 2 = Some ?c" using peek_append[of 2 ?c 24 "?m @ ?v @ AD_FILLER_NETATALK"] F by (simp add: b)
  let ?a2 = "?a\<lparr>ad_magic := AD_MAGIC, ad_version := AD_VERSION2\<rparr>"
  have "parse_loop ?a2 (length f) (length [9, 2 :: nat]) 26 = Some (0, ?a2\<lparr>ad_eid :=
      fold (\<lambda>i. set_entry (i, ade_off (osx_table rlen ! i), ade_len (osx_table rlen ! i))) [9, 2] (ad_eid ?a2), valid_data_len := length f\<rparr>)"
    by (rule parse_loop_written[where pre = ?p and post = "finfo @ replicate 942 0"])
      (use assms(3) l F in \<open>simp_all add: readable_def safe_entry_def osx_table_nth b del: concat.simps list.map\<close>)
  moreover have "fold (\<lambda>i. set_entry (i, ade_off (osx_table rlen ! i), ade_len (osx_table rlen ! i))) [9, 2] (ad_eid ?a2) = osx_table rlen"
    by (simp add: osx_table_nth set_entry_def fresh_osx_def osx_table_def)
  ultimately have p: "parse_entries ?a2 2 (length f) = Some (0, ?a2\<lparr>ad_eid := osx_table rlen, valid_data_len := length f\<rparr>)"
    by (simp add: parse_entries_def numeral_2_eq_2)
  have "poke (ad_data (fresh_osx options)) 0 h = Some b" using poke_fresh[of h options] l(1) by (simp add: b_def)
  then have "read_osx (Moved n) options f = Some (Inr (osx_state options f (osx_table rlen)))"
    unfolding read_osx_def io_answer.case t Let_def by (simp add: m z p l(1) osx_state_def t(2) b_def[symmetric])
  then show ?thesis by (simp add: f_def h_def)
qed

lemma own_header_valid:
  assumes "length finfo = 32"
  shows "ad_valid_header_osx (Inr (osx_bytes rlen finfo @ fork)) = Some 0"
proof -
  let ?h = "osx_bytes rlen finfo"
  let ?m = "rev (le_bytes 4 AD_MAGIC)" and ?v = "rev (le_bytes 4 AD_VERSION2)"
  have h: "\<exists>post. ?h = ?m @ ?v @ AD_FILLER_NETATALK @ post" by (simp add: osx_bytes_def)
  have F: "length AD_FILLER_NETATALK = 16" by (simp add: AD_FILLER_NETATALK_def)
  have t: "take 82 (?h @ fork) = ?h" "length ?h = 82" using length_osx_bytes[OF assms, of rlen] by simp_all
  have "peek ?h 0 4 = Some ?m" "peek ?h 4 4 = Some ?v" "peek ?h 8 16 = Some AD_FILLER_NETATALK"
    using h peek_append[of 4 ?m 0 "[]"] peek_append[of 4 ?v 4 ?m] peek_append[of 16 AD_FILLER_NETATALK 8 "?m @ ?v"] F by auto
  then show ?thesis unfolding ad_valid_header_osx_def sum.case t Let_def using t(2) by simp
qed

subsection \<open>The conversion\<close>

text \<open>A header as macOS writes it: packed attributes behind the FinderInfo and the resource fork in the file.\<close>

definition convertible :: "nat \<Rightarrow> admeta \<Rightarrow> bool" where
  "convertible st_size ad \<longleftrightarrow> ad_getentryoff ad ADEID_FINDERI = 50 \<and> ad_getentrylen ad ADEID_FINDERI > 32 \<and>
     82 \<le> ad_getentryoff ad ADEID_RFORK \<and>
     ad_getentryoff ad ADEID_RFORK + ad_getentrylen ad ADEID_RFORK \<le> int st_size"

definition converted :: "bytes \<Rightarrow> admeta \<Rightarrow> bytes" where
  "converted file ad =
     (let roff = nat (ad_getentryoff ad ADEID_RFORK); rlen = nat (ad_getentrylen ad ADEID_RFORK) in
      osx_bytes rlen (take 32 (drop 50 file)) @ take rlen (drop roff file))"

lemma state_32:
  assumes "entries_32 es" "ad = osx_state options file es" "i < ADEID_MAX"
  shows "0 \<le> ad_getentryoff ad i" "ad_getentryoff ad i < 2 ^ 32" "0 \<le> ad_getentrylen ad i" "ad_getentrylen ad i < 2 ^ 32"
  using assms by (auto simp: entries_32_def list_all_length ad_getentryoff_def ad_getentrylen_def osx_state_def)

lemma block_move_fork:
  assumes "dst \<le> src" "src + len \<le> length file"
  shows "take (dst + len) (block_move file src dst len) = take dst file @ take len (drop src file)"
  using assms by (simp add: block_move_def)

lemma word_of_int_eq_32: "0 \<le> k \<Longrightarrow> k < 2 ^ 32 \<Longrightarrow> 0 \<le> m \<Longrightarrow> m < 2 ^ 32 \<Longrightarrow> (word_of_int k :: 32 word) = word_of_int m \<longleftrightarrow> k = m"
  using word_of_int_32(1) by metis

lemma finder_words:
  assumes "entries_32 es" "ad = osx_state options file es"
  shows "(word_of_int (ad_getentrylen ad 9) :: 32 word) = 32 \<longleftrightarrow> ad_getentrylen ad 9 = 32"
    "(word_of_int (ad_getentrylen ad 9) :: 32 word) < 32 \<longleftrightarrow> ad_getentrylen ad 9 < 32"
    "(word_of_int (ad_getentryoff ad 9) :: 32 word) = 50 \<longleftrightarrow> ad_getentryoff ad 9 = 50"
  using word_of_int_eq_32[of "ad_getentrylen ad 9" 32] word_of_int_eq_32[of "ad_getentryoff ad 9" 50]
    word_of_int_32(1)[of "ad_getentrylen ad 9"] state_32[OF assms, of 9] by (simp_all add: word_less_def)

lemma convert_ok:
  assumes es: "entries_32 es" "82 \<le> length file" and ad: "ad = osx_state options file es" and v: "convertible (length file) ad"
    and ro: "options AND ADVOL_RO = 0" and env: "progressing (se_io env)" "se_ftruncate env = None" and j: "length junk = 82"
  shows "\<exists>c'. ad_convert_osx env False junk file ad c = Some (1, None, converted file ad, c')"
proof -
  define roff rlen where "roff = nat (ad_getentryoff ad 2)" and "rlen = nat (ad_getentrylen ad 2)"
  let ?io = "se_io env"
  note r = state_32[OF es(1) ad, of 2]
  have u: "unat (word_of_int (ad_getentryoff ad 2) :: 32 word) = roff" "unat (word_of_int (ad_getentrylen ad 2) :: 32 word) = rlen"
    using r by (simp_all add: word_of_int_32 roff_def rlen_def)
  have b: "82 \<le> roff" "roff + rlen \<le> length file" using v r unfolding convertible_def roff_def rlen_def by linarith+
  have finder: "ad_getentryoff ad 9 = 50" "ad_getentrylen ad 9 > 32" using v by (simp_all add: convertible_def)
  let ?f1 = "block_move file roff 82 rlen" and ?fi = "take 32 (drop 50 file)"
  let ?h = "osx_bytes rlen ?fi"
  obtain c1 where c1: "ad_convert_move_rfork ?io file roff 82 rlen c = Some (None, ?f1, c1)" using move_ok[OF env(1) b] by blast
  define a2 where "a2 = ad_setentryoff (ad_setentrylen ((ad_setentrylen ad 9 32)\<lparr>ad_rlen := int rlen\<rparr>) 2 (int rlen)) 2 82"
  have fi: "length ?fi = 32" using es(2) by simp
  have a2: "ad_magic a2 = AD_MAGIC" "ad_version a2 = AD_VERSION2" "ad_rlen a2 = int rlen" "ad_data a2 = take 82 file @ replicate 942 0"
    "valid_data_len a2 = length file" "ad_getentryoff a2 9 = 50" "ad_getentrylen a2 9 = 32"
    using es(1) finder by (simp_all add: a2_def ad osx_state_def ad_setentryoff_def ad_setentrylen_def ad_getentryoff_def ad_getentrylen_def entries_32_def split: if_splits)
  have e: "ad_entry a2 9 = Some 50"
    using es(2) by (simp add: ad_entry_def ad_entry_fits_def ad_entry_check_size_def ad_checks_def a2 Let_def)
  have "peek (ad_data a2) 50 32 = Some ?fi" using es(2) by (simp add: peek_def a2 drop_take)
  then have reb: "ad_rebuild_adouble_header_osx a2 junk = Some (82, ?h)" by (rule rebuild_osx_bytes[OF j a2(1-3) e])
  let ?f2 = "take (82 + rlen) ?f1"
  have f2: "?f2 = take 82 file @ take rlen (drop roff file)" by (rule block_move_fork[OF b])
  have l2: "length ?f2 = 82 + rlen" unfolding f2 using b es(2) by simp
  have hl: "length ?h = 82" by (rule length_osx_bytes[OF fi])
  obtain c2 where c2: "pwrite_full ?io ?f2 0 ?h c1 = Some (None, write_at ?f2 0 ?h, c2)"
    using pwrite_full_ok[OF env(1), of 0 ?h ?f2 c1] unfolding hl l2 by auto
  have w: "write_at ?f2 0 ?h = converted file ad" using es(2) hl unfolding f2 by (simp add: write_at_def converted_def Let_def roff_def rlen_def)
  have opt: "ad_options ad AND ADVOL_RO = 0" using ro by (simp add: ad osx_state_def fresh_osx_def)
  show ?thesis
    unfolding ad_convert_osx_def convert_rewrite_def u finder_words[OF es(1) ad] Let_def
    using opt finder es(2) b c1 reb c2 w hl env(2) by (simp add: ad_convert_pwrite_full_def a2_def[symmetric])
qed

lemma convert_refused:
  assumes es: "entries_32 es" and ad: "ad = osx_state options file es"
    and no: "nested \<or> options AND ADVOL_RO \<noteq> 0 \<or> \<not> convertible (length file) ad"
  shows "\<exists>r e. r \<noteq> 1 \<and> ad_convert_osx env nested junk file ad c = Some (r, e, file, c)"
proof -
  note r = state_32[OF es ad, of 2]
  let ?roff = "nat (ad_getentryoff ad 2)" and ?rlen = "nat (ad_getentrylen ad 2)"
  have u: "unat (word_of_int (ad_getentryoff ad 2) :: 32 word) = ?roff" "unat (word_of_int (ad_getentrylen ad 2) :: 32 word) = ?rlen"
    using r by (simp_all add: word_of_int_32)
  have opt: "ad_options ad = options" by (simp add: ad osx_state_def fresh_osx_def)
  have "convertible (length file) ad" if "ad_getentryoff ad 9 = 50" "\<not> ad_getentrylen ad 9 < 32" "ad_getentrylen ad 9 \<noteq> 32" "\<not> ?roff < 82"
    "\<not> (?roff > length file \<or> ?rlen > length file - ?roff)" using that r unfolding convertible_def by simp linarith
  then show ?thesis
    unfolding ad_convert_osx_def u finder_words[OF es ad] Let_def opt using no by auto
qed

lemma read_converted:
  assumes env: "\<forall>k. se_fstat env k = None" "\<forall>k. \<exists>n \<ge> 82. se_header env k = Moved n"
    and f: "length finfo = 32" "length fork = rlen" "rlen < 2 ^ 32"
  shows "header_read_osx env nested junk k (osx_bytes rlen finfo @ fork) ad c =
    Some (0, None, osx_bytes rlen finfo @ fork, (ad_setentryoff ad ADEID_RFORK ADEDOFF_RFORK_OSX)\<lparr>ad_rlen := int rlen\<rparr>, c)"
proof -
  let ?f = "osx_bytes rlen finfo @ fork"
  obtain n where n: "se_header env k = Moved n" "82 \<le> n" using env(2) by blast
  let ?ad = "osx_state (ad_options ad) ?f (osx_table rlen)"
  have r: "read_osx (se_header env k) (ad_options ad) ?f = Some (Inr ?ad)" using read_own[OF f n(2)] n(1) by simp
  have e: "ad_getentrylen ?ad 9 = 32" "ad_getentryoff ?ad 2 = 82"
    by (simp_all add: ad_getentrylen_def ad_getentryoff_def osx_state_def osx_table_nth)
  have "rlen_osx (length ?f) = int rlen" using length_osx_bytes[OF f(1), of rlen] f(2) by (simp add: rlen_osx_def)
  then show ?thesis using env(1) r e by (subst header_read_osx.simps) simp
qed


definition mac_sidecar :: bytes where
  "mac_sidecar =
     [0, 5, 0x16, 7, 0, 2, 0, 0] @ replicate 16 0x20 @ [0, 2] @
     [0, 0, 0, 9, 0, 0, 0, 50, 0, 0, 0, 40] @ [0, 0, 0, 2, 0, 0, 0, 90, 0, 0, 0, 3] @ replicate 40 7 @ [1, 2, 3]"

definition mac_table :: "adentry list" where
  "mac_table = (osx_table 3)[ADEID_FINDERI := \<lparr>ade_off = 50, ade_len = 40\<rparr>, ADEID_RFORK := \<lparr>ade_off = 90, ade_len = 3\<rparr>]"

definition slow_env :: sidecar_env where
  "slow_env = \<lparr>se_io = (\<lambda>c. if even c then Interrupted else Moved 2), se_header = (\<lambda>_. Moved 82),
     se_fstat = (\<lambda>_. None), se_ftruncate = None\<rparr>"

lemma mac_read: "read_osx (Moved 82) 0 mac_sidecar = Some (Inr (osx_state 0 mac_sidecar mac_table))"
  by code_simp

lemma mac_convertible: "convertible (length mac_sidecar) (osx_state 0 mac_sidecar mac_table)"
  by (simp add: convertible_def ad_getentryoff_def ad_getentrylen_def osx_state_def mac_table_def osx_table_def mac_sidecar_def)

lemma slow_progressing: "progressing (se_io slow_env)"
proof -
  have "odd (Suc (2 * c)) \<and> c \<le> Suc (2 * c)" for c :: nat by simp
  then have "\<exists>k \<ge> c. odd k" for c :: nat by blast
  then show ?thesis unfolding progressing_def slow_env_def by auto
qed


text \<open>
  C27: A sidecar is rewritten only when its header is one that can be converted: in every other case,
  whatever the system calls do and whatever the header holds, the read ends without having touched a
  byte of the file, and so it does on a read-only volume and inside another conversion.
\<close>

theorem sidecar_untouched:
  assumes "nested \<or> ad_options ad AND ADVOL_RO \<noteq> 0 \<or>
    \<not> (\<exists>adosx. read_osx (se_header env 0) (ad_options ad) file = Some (Inr adosx) \<and> convertible (length file) adosx)"
  shows "\<exists>r e ad'. ad_header_read_osx env nested junk file ad c = Some (r, e, file, ad', c)"
proof -
  obtain r where r: "read_osx (se_header env 0) (ad_options ad) file = Some r"
      "\<And>a. r = Inr a \<Longrightarrow> \<exists>es. entries_32 es \<and> a = osx_state (ad_options ad) file es"
    using read_osx_total[of "se_header env 0" "ad_options ad" "file"] by auto
  show ?thesis
  proof (cases r)
    case (Inl e)
    then show ?thesis unfolding ad_header_read_osx_def using r(1) by (subst header_read_osx.simps) simp
  next
    case (Inr a)
    then obtain es where es: "entries_32 es" "a = osx_state (ad_options ad) file es" using r(2) by blast
    have "nested \<or> ad_options ad AND ADVOL_RO \<noteq> 0 \<or> \<not> convertible (length file) a" using assms r(1) Inr by auto
    then obtain k e where "k \<noteq> 1" "ad_convert_osx env nested junk file a c = Some (k, e, file, c)" using convert_refused[OF es] by blast
    then show ?thesis unfolding ad_header_read_osx_def using r(1) Inr by (subst header_read_osx.simps) simp
  qed
qed

theorem sidecar_untouched_witness:
  "ADVOL_RO \<noteq> 0 \<and> (\<exists>r e ad'. ad_header_read_osx slow_env False [] mac_sidecar (fresh_osx ADVOL_RO) 5 = Some (r, e, mac_sidecar, ad', 5))"
  using sidecar_untouched[of False "fresh_osx ADVOL_RO" slow_env mac_sidecar "[]" 5] by (simp add: fresh_osx_def ADVOL_RO_def)

end
