(* ===== verification/Dsi.thy ===== *)
theory Dsi
  imports Byte_Order
begin

text \<open>
  The Data Stream Interface, \<open>libatalk/dsi\<close>: requests and replies of a session over one socket, with
  the read-ahead buffer that takes what the client sends while the server waits to write.

  The socket is two byte sequences, what the client has sent and the server has not received yet, and
  what the server has sent. What each call of \<open>recv\<close>, \<open>send\<close>, \<open>writev\<close>, \<open>select\<close> and \<open>poll\<close> does is an
  argument, by the number of the call of its kind. Pointers into the read-ahead buffer are offsets.
  Numbers of the header are kept as the code keeps them, in network order. \<open>None\<close> is an endless loop of
  calls that never get on, or the exit of the process in \<open>dsi_opensession\<close>. A write past the end of a
  buffer would make its list longer. The reply buffer \<open>data\<close> holds the
  bytes that are to be sent. The build is the one without \<open>sendfile\<close> and \<open>splice\<close>.
\<close>

subsection \<open>Constants\<close>

abbreviation (input) DSI_BLOCKSIZ :: nat where "DSI_BLOCKSIZ \<equiv> 16"
abbreviation (input) DSI_DATASIZ :: nat where "DSI_DATASIZ \<equiv> 65536"
abbreviation (input) FD_SETSIZE :: int where "FD_SETSIZE \<equiv> 1024"

definition DSIFL_REQUEST :: byte where "DSIFL_REQUEST = 0"
definition DSIFL_REPLY :: byte where "DSIFL_REPLY = 1"
definition DSIOPT_SERVQUANT :: byte where "DSIOPT_SERVQUANT = 0"
definition DSIOPT_ATTNQUANT :: byte where "DSIOPT_ATTNQUANT = 1"
definition DSIOPT_REPLCSIZE :: byte where "DSIOPT_REPLCSIZE = 2"
definition DSIFUNC_CLOSE :: byte where "DSIFUNC_CLOSE = 1"
definition DSIFUNC_CMD :: byte where "DSIFUNC_CMD = 2"
definition DSIFUNC_TICKLE :: byte where "DSIFUNC_TICKLE = 5"
definition DSIFUNC_WRITE :: byte where "DSIFUNC_WRITE = 6"
definition DSIFUNC_ATTN :: byte where "DSIFUNC_ATTN = 8"

definition DSI_SERVQUANT_MAX :: "32 word" where "DSI_SERVQUANT_MAX = 0x10000000"
definition DSI_SERVQUANT_MIN :: "32 word" where "DSI_SERVQUANT_MIN = 32000"
definition DSI_SERVQUANT_DEF :: "32 word" where "DSI_SERVQUANT_DEF = 0x100000"
definition DSI_WROFF_FPWRITE :: "32 word" where "DSI_WROFF_FPWRITE = 12"
definition DSI_WROFF_FPWRITEEXT :: "32 word" where "DSI_WROFF_FPWRITEEXT = 20"
definition DSI_FRAME_OVERHEAD_EXT :: "32 word" where "DSI_FRAME_OVERHEAD_EXT = 36"
definition DSI_QUANTUM_GROWTH_MAX :: "32 word" where "DSI_QUANTUM_GROWTH_MAX = 262144"

definition DSI_SLEEPING :: "32 word" where "DSI_SLEEPING = 4"
definition DSI_EXTSLEEP :: "32 word" where "DSI_EXTSLEEP = 8"
definition DSI_DISCONNECTED :: "32 word" where "DSI_DISCONNECTED = 16"
definition DSI_NOREPLY :: "32 word" where "DSI_NOREPLY = 64"

lemmas dsi_flag_defs = DSI_SLEEPING_def DSI_EXTSLEEP_def DSI_DISCONNECTED_def DSI_NOREPLY_def
lemmas dsi_func_defs = DSIFUNC_CLOSE_def DSIFUNC_CMD_def DSIFUNC_TICKLE_def DSIFUNC_WRITE_def DSIFUNC_ATTN_def

subsection \<open>Session\<close>

record dsi_block =
  dsi_flags :: byte
  dsi_command :: byte
  dsi_requestID :: "16 word"
  dsi_data :: "32 word"
  dsi_len :: "32 word"
  dsi_reserved :: "32 word"

text \<open>
  \<open>uid\<close> is the user of \<open>AFPobj\<close>, \<open>None\<close> without one; \<open>buffered\<close> says that the read-ahead buffer exists, its
  length is \<open>end\<close>. The last fields are the socket and the numbers of the calls made.
\<close>

record DSI =
  header :: dsi_block
  in_write :: int
  attn_quantum :: "32 word"
  datasize :: "32 word"
  server_quantum :: "32 word"
  serverID :: "16 word"
  clientID :: "16 word"
  commands :: bytes
  data :: bytes
  cmdlen :: nat
  read_count :: int
  write_count :: int
  flags :: "32 word"
  socket :: int
  uid :: "nat option"
  buffered :: bool
  buffer :: bytes
  start :: nat
  eof :: nat
  net_in :: bytes
  net_out :: bytes
  recvs :: nat
  sends :: nat
  selects :: nat
  polls :: nat

datatype dsi_errno = EINTR | EAGAIN | ETIMEDOUT | ECONNABORTED | EOTHER nat

datatype net_answer = Refused dsi_errno | Passed nat
datatype select_answer = SelectIntr | SelectFailed | Selected bool bool
datatype poll_answer = PollInput | PollSignal | PollTimeout | PollFailed dsi_errno

text \<open>\<open>env_stop\<close> is what the flag behind \<open>stop_wait\<close> holds before the poll of that number.\<close>

record dsi_env =
  env_recv :: "nat \<Rightarrow> net_answer"
  env_send :: "nat \<Rightarrow> net_answer"
  env_select :: "nat \<Rightarrow> select_answer"
  env_poll :: "nat \<Rightarrow> poll_answer"
  env_stop :: "nat \<Rightarrow> bool"

abbreviation disconnected :: "DSI \<Rightarrow> bool" where
  "disconnected dsi \<equiv> flags dsi AND DSI_DISCONNECTED \<noteq> 0"

text \<open>\<open>recv\<close> of at most \<open>count\<close> bytes, and what a call that sends takes of \<open>bs\<close>.\<close>

definition net_recv :: "dsi_env \<Rightarrow> DSI \<Rightarrow> nat \<Rightarrow> (dsi_errno + bytes) \<times> DSI" where
  "net_recv env dsi count =
     (let dsi' = dsi\<lparr>recvs := Suc (recvs dsi)\<rparr> in
      case env_recv env (recvs dsi) of
        Refused e \<Rightarrow> (Inl e, dsi')
      | Passed n \<Rightarrow> (Inr (take (min n count) (net_in dsi)), dsi'\<lparr>net_in := drop (min n count) (net_in dsi)\<rparr>))"

definition net_send :: "dsi_env \<Rightarrow> DSI \<Rightarrow> bytes \<Rightarrow> (dsi_errno + nat) \<times> DSI" where
  "net_send env dsi bs =
     (let dsi' = dsi\<lparr>sends := Suc (sends dsi)\<rparr> in
      case env_send env (sends dsi) of
        Refused e \<Rightarrow> (Inl e, dsi')
      | Passed n \<Rightarrow> (Inr (min n (length bs)), dsi'\<lparr>net_out := net_out dsi @ take n bs\<rparr>))"

subsection \<open>Waiting\<close>

text \<open>The state the session is in after a communication error; the result is that of the function.\<close>

definition dsi_disconnect :: "DSI \<Rightarrow> int \<times> DSI" where
  "dsi_disconnect dsi =
     (let dsi = dsi\<lparr>socket := -1, flags := (flags dsi AND NOT (DSI_SLEEPING OR DSI_EXTSLEEP)) OR DSI_DISCONNECTED\<rparr> in
      (if uid dsi = None \<or> uid dsi = Some 0 then -1 else 0, dsi))"

partial_function (option) dsi_wait_input :: "dsi_env \<Rightarrow> DSI \<Rightarrow> (dsi_errno option \<times> DSI) option" where
  "dsi_wait_input env dsi =
     (if env_stop env (polls dsi) then Some (Some ECONNABORTED, snd (dsi_disconnect dsi))
      else
        (let dsi' = dsi\<lparr>polls := Suc (polls dsi)\<rparr> in
         case env_poll env (polls dsi) of
           PollInput \<Rightarrow> Some (None, dsi')
         | PollSignal \<Rightarrow> dsi_wait_input env dsi'
         | PollTimeout \<Rightarrow> Some (Some ETIMEDOUT, snd (dsi_disconnect dsi'))
         | PollFailed e \<Rightarrow> if e \<noteq> EINTR then Some (Some e, dsi') else dsi_wait_input env dsi'))"

definition put_ahead :: "DSI \<Rightarrow> bytes \<Rightarrow> DSI" where
  "put_ahead dsi bs =
     dsi\<lparr>buffer := take (eof dsi) (buffer dsi) @ bs @ drop (eof dsi + length bs) (buffer dsi), eof := eof dsi + length bs\<rparr>"

partial_function (option) dsi_peek :: "dsi_env \<Rightarrow> DSI \<Rightarrow> (int \<times> DSI) option" where
  "dsi_peek env dsi =
     (if socket dsi < 0 then Some (-1, dsi)
      else if socket dsi \<ge> FD_SETSIZE then Some (-1, dsi)
      else
        (let dsi' = dsi\<lparr>selects := Suc (selects dsi)\<rparr>; space = length (buffer dsi) - eof dsi in
         case env_select env (selects dsi) of
           SelectIntr \<Rightarrow> dsi_peek env dsi'
         | SelectFailed \<Rightarrow> Some (-1, dsi')
         | Selected writable readable \<Rightarrow>
             if writable then Some (0, dsi')
             else if readable \<and> eof dsi < length (buffer dsi) then
               (case net_recv env dsi' space of
                  (Inl e, dsi) \<Rightarrow> if e = EAGAIN then dsi_peek env dsi else Some (-1, dsi)
                | (Inr bs, dsi) \<Rightarrow> if bs = [] then Some (-1, dsi) else dsi_peek env (put_ahead dsi bs))
             else dsi_peek env dsi'))"

subsection \<open>Reading\<close>

definition from_buf :: "DSI \<Rightarrow> nat \<Rightarrow> bytes \<times> DSI" where
  "from_buf dsi count =
     (if \<not> buffered dsi then ([], dsi)
      else
        (let nbe = eof dsi - start dsi in
         if nbe > 0 then
           (let nbe = min nbe count;
                bs = take nbe (drop (start dsi) (buffer dsi));
                dsi = dsi\<lparr>start := start dsi + nbe\<rparr>
            in (bs, if eof dsi = start dsi then dsi\<lparr>start := 0, eof := 0\<rparr> else dsi))
         else ([], dsi)))"

text \<open>Waiting for the socket; a result with no bytes is the end of the stream.\<close>

partial_function (option) recv_wait :: "dsi_env \<Rightarrow> DSI \<Rightarrow> nat \<Rightarrow> ((dsi_errno + bytes) \<times> DSI) option" where
  "recv_wait env dsi count =
     (case net_recv env dsi count of
        (Inl e, dsi) \<Rightarrow>
          if e = EAGAIN then
            Option.bind (dsi_wait_input env dsi) (\<lambda>(e, dsi).
              case e of None \<Rightarrow> recv_wait env dsi count | Some e \<Rightarrow> Some (Inl e, dsi))
          else Some (Inl e, dsi)
      | (Inr bs, dsi) \<Rightarrow> Some (Inr bs, dsi))"

definition buf_read :: "dsi_env \<Rightarrow> DSI \<Rightarrow> nat \<Rightarrow> ((dsi_errno + bytes) \<times> DSI) option" where
  "buf_read env dsi count =
     (if count = 0 then Some (Inr [], dsi)
      else
        (case from_buf dsi count of
           (bs, dsi) \<Rightarrow> if bs \<noteq> [] then Some (Inr bs, dsi) else recv_wait env dsi count))"

text \<open>
  The loop of \<open>dsi_stream_read\<close>; the result is the return value, the bytes stored so far and the
  session. At the end of the stream both exits of the code return 0: with nothing stored and nothing
  read before it leaves the loop with \<open>stored\<close> at 0.
\<close>

partial_function (option) read_loop :: "dsi_env \<Rightarrow> DSI \<Rightarrow> nat \<Rightarrow> bytes \<Rightarrow> (nat \<times> bytes \<times> DSI) option" where
  "read_loop env dsi count stored =
     (if length stored < count then
        Option.bind (buf_read env dsi (count - length stored)) (\<lambda>(r, dsi).
          case r of
            Inl e \<Rightarrow> if e = EINTR \<or> e = EAGAIN then read_loop env dsi count stored else Some (0, stored, dsi)
          | Inr bs \<Rightarrow> if bs \<noteq> [] then read_loop env dsi count (stored @ bs) else Some (0, stored, dsi))
      else Some (length stored, stored, dsi\<lparr>read_count := read_count dsi + int (length stored)\<rparr>))"

definition dsi_stream_read :: "dsi_env \<Rightarrow> DSI \<Rightarrow> nat \<Rightarrow> (nat \<times> bytes \<times> DSI) option" where
  "dsi_stream_read env dsi count = (if disconnected dsi then Some (0, [], dsi) else read_loop env dsi count [])"

text \<open>The bytes that a failed call has stored are what its caller does not look at.\<close>

definition dsi_buffered_stream_read :: "dsi_env \<Rightarrow> DSI \<Rightarrow> nat \<Rightarrow> (nat \<times> bytes \<times> DSI) option" where
  "dsi_buffered_stream_read env dsi count =
     (case from_buf dsi count of
        (bs, dsi) \<Rightarrow>
          (let dsi = dsi\<lparr>read_count := read_count dsi + int (length bs)\<rparr> in
           if length bs = count then Some (length bs, bs, dsi)
           else do {
             let buflen = min 8192 (length (buffer dsi) - eof dsi);
             let dsi = (if buflen > 0 then
                          (case net_recv env dsi buflen of
                             (Inl _, dsi) \<Rightarrow> dsi
                           | (Inr got, dsi) \<Rightarrow> if got \<noteq> [] then put_ahead dsi got else dsi)
                        else dsi);
             (n, rest, dsi) \<leftarrow> dsi_stream_read env dsi (count - length bs);
             if n \<noteq> count - length bs then Some (0, bs @ rest, dsi) else Some (length bs + n, bs @ rest, dsi)
           }))"

subsection \<open>Writing\<close>

definition dsi_header_pack_reply :: "DSI \<Rightarrow> bytes" where
  "dsi_header_pack_reply dsi =
     [dsi_flags (header dsi), dsi_command (header dsi)] @ le_bytes 2 (dsi_requestID (header dsi)) @
     le_bytes 4 (dsi_data (header dsi)) @ le_bytes 4 (dsi_len (header dsi)) @ le_bytes 4 (dsi_reserved (header dsi))"

partial_function (option) write_loop :: "dsi_env \<Rightarrow> bool \<Rightarrow> DSI \<Rightarrow> bytes \<Rightarrow> nat \<Rightarrow> (int \<times> DSI) option" where
  "write_loop env nowait dsi bs written =
     (if written < length bs then
        (case net_send env dsi (drop written bs) of
           (Inr len, dsi) \<Rightarrow> write_loop env nowait dsi bs (written + len)
         | (Inl e, dsi) \<Rightarrow>
             if e = EINTR then write_loop env nowait dsi bs written
             else if e = EAGAIN then
               if nowait \<and> written = 0 then Some (-1, dsi)
               else
                 Option.bind (dsi_peek env dsi) (\<lambda>(r, dsi).
                   if r \<noteq> 0 then Some (-1, dsi) else write_loop env nowait dsi bs written)
             else Some (-1, dsi))
      else Some (int written, dsi\<lparr>write_count := write_count dsi + int written\<rparr>))"

definition dsi_stream_write :: "dsi_env \<Rightarrow> DSI \<Rightarrow> bytes \<Rightarrow> bool \<Rightarrow> (int \<times> DSI) option" where
  "dsi_stream_write env dsi bs nowait =
     (let dsi = dsi\<lparr>in_write := in_write dsi + 1\<rparr> in
      if disconnected dsi then Some (-1, dsi)
      else map_option (\<lambda>(r, dsi). (r, dsi\<lparr>in_write := in_write dsi - 1\<rparr>)) (write_loop env nowait dsi bs 0))"

text \<open>
  The vectors that \<open>writev\<close> still has to send: two of them, or the rest of the data. A vector is the
  bytes from its base on.
\<close>

datatype iovecs = Two bytes bytes | One bytes

fun iov_bytes :: "iovecs \<Rightarrow> bytes" where
  "iov_bytes (Two a b) = a @ b"
| "iov_bytes (One a) = a"

text \<open>The vectors after \<open>len\<close> bytes, \<open>towrite\<close> of them left for a payload of \<open>count\<close>.\<close>

fun iov_skip :: "nat \<Rightarrow> nat \<Rightarrow> nat \<Rightarrow> iovecs \<Rightarrow> iovecs" where
  "iov_skip count towrite len (Two a b) = (if towrite > count then Two (drop len a) b else One (drop (len - length a) b))"
| "iov_skip count towrite len (One a) = One (drop len a)"

partial_function (option) send_loop :: "dsi_env \<Rightarrow> DSI \<Rightarrow> nat \<Rightarrow> nat \<Rightarrow> iovecs \<Rightarrow> (int \<times> DSI) option" where
  "send_loop env dsi count towrite iov =
     (if towrite > 0 then
        (case net_send env dsi (iov_bytes iov) of
           (Inl e, dsi) \<Rightarrow>
             if e = EINTR then send_loop env dsi count towrite iov
             else if e = EAGAIN then
               Option.bind (dsi_peek env dsi) (\<lambda>(r, dsi).
                 if r = 0 then send_loop env dsi count towrite iov else Some (0, dsi))
             else Some (0, dsi)
         | (Inr len, dsi) \<Rightarrow>
             if len = 0 then send_loop env dsi count towrite iov
             else if len = towrite then Some (1, dsi)
             else send_loop env dsi count (towrite - len) (iov_skip count (towrite - len) len iov))
      else Some (1, dsi))"

definition dsi_stream_send :: "dsi_env \<Rightarrow> DSI \<Rightarrow> bytes \<Rightarrow> (int \<times> DSI) option" where
  "dsi_stream_send env dsi bs =
     (if disconnected dsi then Some (0, dsi)
      else
        (let block = dsi_header_pack_reply dsi in
         if bs = [] then map_option (\<lambda>(r, dsi). (if r = int (length block) then 1 else 0, dsi)) (dsi_stream_write env dsi block False)
         else
           (let towrite = length block + length bs;
                dsi = dsi\<lparr>in_write := in_write dsi + 1, write_count := write_count dsi + int towrite\<rparr>
            in map_option (\<lambda>(r, dsi). (r, dsi\<lparr>in_write := in_write dsi - 1\<rparr>)) (send_loop env dsi (length bs) towrite (Two block bs)))))"

subsection \<open>Requests\<close>

definition put_commands :: "DSI \<Rightarrow> bytes \<Rightarrow> DSI" where
  "put_commands dsi bs = dsi\<lparr>commands := bs @ drop (length bs) (commands dsi)\<rparr>"

text \<open>The header of a request from its 16 bytes; the offset of the data is turned to host order.\<close>

definition unpack_header :: "bytes \<Rightarrow> dsi_block" where
  "unpack_header block =
     \<lparr>dsi_flags = block ! 0, dsi_command = block ! 1, dsi_requestID = le_word (take 2 (drop 2 block)),
      dsi_data = net32 (le_word (take 4 (drop 4 block))), dsi_len = le_word (take 4 (drop 8 block)),
      dsi_reserved = le_word (take 4 (drop 12 block))\<rparr>"

text \<open>The bounds on the length and the data offset of a request.\<close>

definition frame_fits :: "32 word \<Rightarrow> byte \<Rightarrow> 32 word \<Rightarrow> 32 word \<Rightarrow> bool" where
  "frame_fits quantum cmd doff len \<longleftrightarrow>
     (if cmd = DSIFUNC_WRITE then
        (doff = DSI_WROFF_FPWRITE \<or> doff = DSI_WROFF_FPWRITEEXT) \<and> \<not> doff > len \<and> \<not> len - doff > quantum
      else \<not> len > quantum) \<and>
     \<not> ((cmd = DSIFUNC_CMD \<or> cmd = DSIFUNC_WRITE) \<and> len < 1)"

definition dsi_stream_receive :: "dsi_env \<Rightarrow> DSI \<Rightarrow> (int \<times> DSI) option" where
  "dsi_stream_receive env dsi =
     (if disconnected dsi then Some (0, dsi)
      else do {
        (n, block, dsi) \<leftarrow> dsi_buffered_stream_read env dsi DSI_BLOCKSIZ;
        if n \<noteq> DSI_BLOCKSIZ then Some (0, dsi)
        else if block ! 1 = 0 then Some (0, dsi\<lparr>header := (header dsi)\<lparr>dsi_flags := block ! 0, dsi_command := 0\<rparr>\<rparr>)
        else do {
          let h = unpack_header block;
          let h = (if dsi_command h = DSIFUNC_WRITE \<and> dsi_data h = 0 then h\<lparr>dsi_data := DSI_WROFF_FPWRITE\<rparr> else h);
          let dsi = dsi\<lparr>header := h, clientID := net16 (dsi_requestID h)\<rparr>;
          let len = net32 (dsi_len h);
          if \<not> frame_fits (server_quantum dsi) (dsi_command h) (dsi_data h) len then Some (0, dsi)
          else do {
            let dsi = dsi\<lparr>cmdlen := (if dsi_command h = DSIFUNC_WRITE \<and> dsi_data h \<noteq> 0 then unat (dsi_data h) else unat len)\<rparr>;
            (n, got, dsi) \<leftarrow> dsi_stream_read env dsi (cmdlen dsi);
            Some (if n \<noteq> cmdlen dsi then 0 else sint (block ! 1), put_commands dsi got)
          }
        }
      })"

text \<open>The data of a write: what the read-ahead buffer holds of it, the rest in parts, and the unread rest.\<close>

definition dsi_writeinit :: "DSI \<Rightarrow> bytes \<times> DSI" where
  "dsi_writeinit dsi =
     (let len = net32 (dsi_len (header dsi)); doff = dsi_data (header dsi) in
      if len < doff then ([], dsi)
      else
        (let dsi = dsi\<lparr>datasize := len - doff\<rparr> in
         if eof dsi > start dsi then
           (let n = min (eof dsi - start dsi) (unat (datasize dsi));
                bs = take n (drop (start dsi) (buffer dsi));
                dsi = dsi\<lparr>start := start dsi + n, datasize := datasize dsi - of_nat n\<rparr>
            in (bs, if start dsi \<ge> eof dsi then dsi\<lparr>start := 0, eof := 0\<rparr> else dsi))
         else ([], dsi)))"

definition dsi_write :: "dsi_env \<Rightarrow> DSI \<Rightarrow> nat \<Rightarrow> (nat \<times> bytes \<times> DSI) option" where
  "dsi_write env dsi buflen =
     (let len = min buflen (unat (datasize dsi)) in
      if len > 0 then
        do {
          (n, bs, dsi) \<leftarrow> dsi_stream_read env dsi len;
          if n > 0 then Some (n, bs, dsi\<lparr>datasize := datasize dsi - of_nat n\<rparr>) else Some (0, bs, dsi)
        }
      else Some (0, [], dsi))"

partial_function (option) dsi_writeflush :: "dsi_env \<Rightarrow> DSI \<Rightarrow> DSI option" where
  "dsi_writeflush env dsi =
     (if datasize dsi > 0 then
        Option.bind (dsi_stream_read env dsi (min DSI_DATASIZ (unat (datasize dsi)))) (\<lambda>(n, bs, dsi).
          if n > 0 then dsi_writeflush env (dsi\<lparr>datasize := datasize dsi - of_nat n\<rparr>) else Some dsi)
      else Some dsi)"

definition dsi_writedrain :: "dsi_env \<Rightarrow> DSI \<Rightarrow> DSI option" where
  "dsi_writedrain env dsi =
     (if dsi_command (header dsi) \<noteq> DSIFUNC_WRITE then Some dsi else dsi_writeflush env (snd (dsi_writeinit dsi)))"

subsection \<open>Replies and messages\<close>

definition dsi_cmdreply :: "dsi_env \<Rightarrow> DSI \<Rightarrow> 32 word \<Rightarrow> (int \<times> DSI) option" where
  "dsi_cmdreply env dsi err =
     dsi_stream_send env
       (dsi\<lparr>header := (header dsi)\<lparr>dsi_flags := DSIFL_REPLY, dsi_len := net32 (of_nat (length (data dsi))), dsi_data := net32 err\<rparr>\<rparr>)
       (data dsi)"

definition dsi_readinit :: "dsi_env \<Rightarrow> DSI \<Rightarrow> bytes \<Rightarrow> nat \<Rightarrow> 32 word \<Rightarrow> (int \<times> DSI) option" where
  "dsi_readinit env dsi buf count err =
     do {
       let dsi = dsi\<lparr>flags := flags dsi OR DSI_NOREPLY,
         header := (header dsi)\<lparr>dsi_flags := DSIFL_REPLY, dsi_len := net32 (of_nat count), dsi_data := net32 err\<rparr>,
         in_write := in_write dsi + 1\<rparr>;
       (r, dsi) \<leftarrow> dsi_stream_send env dsi buf;
       if r \<noteq> 0 then
         do {
           let dsi = dsi\<lparr>datasize := of_nat count - of_nat (length buf)\<rparr>;
           Some (int (min (unat (datasize dsi)) (length buf)), dsi)
         }
       else Some (-1, dsi)
     }"

definition dsi_readdone :: "DSI \<Rightarrow> DSI" where
  "dsi_readdone dsi = dsi\<lparr>in_write := in_write dsi - 1\<rparr>"

definition dsi_read :: "dsi_env \<Rightarrow> DSI \<Rightarrow> bytes \<Rightarrow> (int \<times> DSI) option" where
  "dsi_read env dsi buf =
     do {
       (len, dsi) \<leftarrow> dsi_stream_write env dsi buf False;
       if len = int (length buf) then
         do {
           let dsi = dsi\<lparr>datasize := datasize dsi - of_nat (length buf)\<rparr>;
           Some (int (min (unat (datasize dsi)) (length buf)), dsi)
         }
       else Some (-1, dsi)
     }"

definition dsi_tickle :: "dsi_env \<Rightarrow> DSI \<Rightarrow> (int \<times> DSI) option" where
  "dsi_tickle env dsi =
     (if flags dsi AND DSI_SLEEPING \<noteq> 0 \<or> in_write dsi \<noteq> 0 then Some (1, dsi)
      else
        (let block = [DSIFL_REQUEST, DSIFUNC_TICKLE] @ le_bytes 2 (net16 (serverID dsi)) @ replicate 12 0 in
         dsi_stream_write env (dsi\<lparr>serverID := serverID dsi + 1\<rparr>) block True))"

definition dsi_attention :: "dsi_env \<Rightarrow> DSI \<Rightarrow> 16 word \<Rightarrow> (int \<times> DSI) option" where
  "dsi_attention env dsi userbytes =
     (if flags dsi AND DSI_SLEEPING \<noteq> 0 then Some (1, dsi)
      else if in_write dsi \<noteq> 0 then Some (-1, dsi)
      else
        (let len = min 2 (unat (attn_quantum dsi));
             block = [DSIFL_REQUEST, DSIFUNC_ATTN] @ le_bytes 2 (net16 (serverID dsi)) @ replicate 4 0 @
               le_bytes 4 (net32 (of_nat len)) @ replicate 4 0 @ le_bytes 2 (net16 userbytes)
         in dsi_stream_write env (dsi\<lparr>serverID := serverID dsi + 1\<rparr>) (take (DSI_BLOCKSIZ + len) block) True))"

text \<open>The macro \<open>dsi_send\<close>; the bytes sent are the first of the command buffer.\<close>

definition dsi_send :: "dsi_env \<Rightarrow> DSI \<Rightarrow> DSI option" where
  "dsi_send env dsi =
     map_option snd (dsi_stream_send env
       (dsi\<lparr>header := (header dsi)\<lparr>dsi_len := net32 (of_nat (cmdlen dsi))\<rparr>\<rparr>) (take (cmdlen dsi) (commands dsi)))"

text \<open>The session as it is just before it is freed.\<close>

definition dsi_close :: "dsi_env \<Rightarrow> DSI \<Rightarrow> DSI option" where
  "dsi_close env dsi =
     (if flags dsi AND DSI_SLEEPING = 0 \<and> \<not> disconnected dsi then
        do {
          dsi \<leftarrow> (if in_write dsi = 0 then
             dsi_send env (dsi\<lparr>header := \<lparr>dsi_flags = DSIFL_REQUEST, dsi_command = DSIFUNC_CLOSE,
                 dsi_requestID = net16 (serverID dsi), dsi_data = net32 0, dsi_len = dsi_len (header dsi), dsi_reserved = net32 0\<rparr>,
               serverID := serverID dsi + 1, cmdlen := 0\<rparr>)
             else Some dsi);
          Some (dsi\<lparr>socket := -1\<rparr>)
        }
      else Some dsi)"

subsection \<open>Opening a session\<close>

text \<open>The options of the request; \<open>None\<close> is the exit of the process.\<close>

function option_loop :: "bytes \<Rightarrow> nat \<Rightarrow> nat \<Rightarrow> 32 word \<Rightarrow> 32 word option" where
  "option_loop cmds clen i attn =
     (if i + 1 < clen then
        (let cmd = cmds ! i; option_len = unat (cmds ! (i + 1)); i = i + 2 in
         if i + option_len > clen then None
         else if cmd = DSIOPT_ATTNQUANT then
           if option_len \<noteq> 4 then None
           else option_loop cmds clen (i + option_len) (net32 (le_word (take option_len (drop i cmds))))
         else option_loop cmds clen (i + option_len) attn)
      else Some attn)"
  by pat_completeness auto
termination by (relation "measure (\<lambda>(_, clen, i, _). clen - i)") auto

declare option_loop.simps [simp del]

definition REPLAYCACHE_SIZE :: "32 word" where "REPLAYCACHE_SIZE = 128"

definition dsi_opensession :: "dsi_env \<Rightarrow> DSI \<Rightarrow> DSI option" where
  "dsi_opensession env dsi =
     do {
       attn \<leftarrow> option_loop (commands dsi) (cmdlen dsi) 0 (attn_quantum dsi);
       let reply = [DSIOPT_SERVQUANT, 4] @ le_bytes 4 (net32 (server_quantum dsi)) @
         [DSIOPT_REPLCSIZE, 4] @ le_bytes 4 (net32 REPLAYCACHE_SIZE);
       let dsi = put_commands (dsi\<lparr>attn_quantum := attn, cmdlen := 12,
         header := (header dsi)\<lparr>dsi_flags := DSIFL_REPLY, dsi_data := 0\<rparr>\<rparr>) reply;
       dsi_send env dsi
     }"

text \<open>The contents of the fresh buffers are arguments.\<close>

definition dsi_init_buffer :: "DSI \<Rightarrow> bytes \<Rightarrow> bytes \<Rightarrow> DSI" where
  "dsi_init_buffer dsi cmds ahead = dsi\<lparr>commands := cmds, buffered := True, buffer := ahead, start := 0, eof := 0\<rparr>"

text \<open>The quantum of a session, from the configured one and the segment size of the connection. The limit
  is never above the greatest quantum, which the loop repeats here so that it ends for every limit.
\<close>

function align_loop :: "32 word \<Rightarrow> 32 word \<Rightarrow> 32 word \<Rightarrow> 32 word \<Rightarrow> 32 word \<Rightarrow> 32 word" where
  "align_loop mss limit d best best_fill =
     (if d \<le> limit \<and> limit \<le> DSI_SERVQUANT_MAX then
        (let r = (d + DSI_FRAME_OVERHEAD_EXT) mod mss; fill = (if r \<noteq> 0 then r else mss) in
         if fill \<ge> mss - mss div 8 then d
         else if fill > best_fill then align_loop mss limit (d + 4096) d fill
         else align_loop mss limit (d + 4096) best best_fill)
      else best)"
  by pat_completeness auto
termination
proof (relation "measure (\<lambda>(_, limit, d, _). 2 ^ 32 - unat d)", goal_cases)
  case (2 mss limit d best best_fill r fill)
  then show ?case by (auto simp: DSI_SERVQUANT_MAX_def word_le_nat_alt unat_word_ariths)
next
  case (3 mss limit d best best_fill r fill)
  then show ?case by (auto simp: DSI_SERVQUANT_MAX_def word_le_nat_alt unat_word_ariths)
qed simp

declare align_loop.simps [simp del]

definition dsi_align_quantum :: "32 word \<Rightarrow> 32 word \<Rightarrow> 32 word" where
  "dsi_align_quantum configured mss =
     (let configured = (if configured > DSI_SERVQUANT_MAX then DSI_SERVQUANT_MAX else configured);
          d = (configured + 4095) AND NOT 4095
      in if mss = 0 \<or> unat mss * 4 \<ge> unat d then d
         else
           align_loop mss
             (if configured < DSI_SERVQUANT_MAX - DSI_QUANTUM_GROWTH_MAX then configured + DSI_QUANTUM_GROWTH_MAX else DSI_SERVQUANT_MAX)
             d d 0)"

end
