(* ===== verification/Dsi_Stream.thy ===== *)
theory Dsi_Stream
  imports Dsi
begin

text \<open>
  The session socket as two streams. What the client sends reaches the callers of the read functions
  in order and without loss, whether it comes straight from the socket or was read ahead while the
  server waited to write; what is written appears on the other stream once and in order.
\<close>

definition ahead :: "DSI \<Rightarrow> bytes" where
  "ahead dsi = take (eof dsi - start dsi) (drop (start dsi) (buffer dsi))"

definition pending :: "DSI \<Rightarrow> bytes" where
  "pending dsi = ahead dsi @ net_in dsi"

definition rb_ok :: "DSI \<Rightarrow> bool" where
  "rb_ok dsi \<longleftrightarrow> start dsi \<le> eof dsi \<and> eof dsi \<le> length (buffer dsi) \<and> (\<not> buffered dsi \<longrightarrow> buffer dsi = [])"

text \<open>What the stream functions leave alone.\<close>

definition core :: "DSI \<Rightarrow> dsi_block \<times> int \<times> 32 word list \<times> 16 word list \<times> bytes list \<times> nat \<times> nat option \<times> bool \<times> nat" where
  "core dsi = (header dsi, in_write dsi, [attn_quantum dsi, datasize dsi, server_quantum dsi], [serverID dsi, clientID dsi],
     [commands dsi, data dsi], cmdlen dsi, uid dsi, buffered dsi, length (buffer dsi))"

lemma core_eqD:
  "core s' = core s \<Longrightarrow> header s' = header s \<and> in_write s' = in_write s \<and> attn_quantum s' = attn_quantum s \<and> datasize s' = datasize s \<and>
     server_quantum s' = server_quantum s \<and> serverID s' = serverID s \<and> clientID s' = clientID s \<and> commands s' = commands s \<and>
     data s' = data s \<and> cmdlen s' = cmdlen s \<and> uid s' = uid s \<and> buffered s' = buffered s \<and> length (buffer s') = length (buffer s)"
  by (simp add: core_def)

text \<open>\<open>exchange s inn out s'\<close>: from \<open>s\<close> to \<open>s'\<close> the bytes \<open>inn\<close> were taken from the client and \<open>out\<close> were sent.\<close>

definition exchange :: "DSI \<Rightarrow> bytes \<Rightarrow> bytes \<Rightarrow> DSI \<Rightarrow> bool" where
  "exchange s inn out s' \<longleftrightarrow> core s' = core s \<and> rb_ok s' \<and> pending s = inn @ pending s' \<and> net_out s' = net_out s @ out"

lemma exchange_refl [simp]: "rb_ok s \<Longrightarrow> exchange s [] [] s"
  by (simp add: exchange_def)

lemma exchange_trans: "exchange s a x s1 \<Longrightarrow> exchange s1 b y s2 \<Longrightarrow> exchange s (a @ b) (x @ y) s2"
  by (simp add: exchange_def)

lemma exchange_ok: "exchange s a x s' \<Longrightarrow> rb_ok s'"
  by (simp add: exchange_def)

lemmas stream_defs = exchange_def pending_def ahead_def rb_ok_def core_def

lemma exchange_counts [simp]:
  "exchange s a x (s'\<lparr>recvs := n\<rparr>) = exchange s a x s'" "exchange s a x (s'\<lparr>sends := n\<rparr>) = exchange s a x s'"
  "exchange s a x (s'\<lparr>selects := n\<rparr>) = exchange s a x s'" "exchange s a x (s'\<lparr>polls := n\<rparr>) = exchange s a x s'"
  "exchange s a x (s'\<lparr>read_count := k\<rparr>) = exchange s a x s'" "exchange s a x (s'\<lparr>write_count := k\<rparr>) = exchange s a x s'"
  "exchange s a x (s'\<lparr>flags := f\<rparr>) = exchange s a x s'" "exchange s a x (s'\<lparr>socket := k\<rparr>) = exchange s a x s'"
  by (simp_all add: stream_defs)

lemma exchange_counts' [simp]:
  "exchange (s\<lparr>recvs := n\<rparr>) a x s' = exchange s a x s'" "exchange (s\<lparr>sends := n\<rparr>) a x s' = exchange s a x s'"
  "exchange (s\<lparr>polls := n\<rparr>) a x s' = exchange s a x s'"
  "exchange (s\<lparr>read_count := k\<rparr>) a x s' = exchange s a x s'" "exchange (s\<lparr>write_count := k\<rparr>) a x s' = exchange s a x s'"
  by (simp_all add: stream_defs)

lemma rb_ok_counts [simp]:
  "rb_ok (s\<lparr>recvs := n\<rparr>) = rb_ok s" "rb_ok (s\<lparr>sends := n\<rparr>) = rb_ok s" "rb_ok (s\<lparr>selects := n\<rparr>) = rb_ok s" "rb_ok (s\<lparr>polls := n\<rparr>) = rb_ok s"
  "rb_ok (s\<lparr>read_count := k\<rparr>) = rb_ok s" "rb_ok (s\<lparr>write_count := k\<rparr>) = rb_ok s" "rb_ok (s\<lparr>in_write := k\<rparr>) = rb_ok s"
  "rb_ok (s\<lparr>header := h\<rparr>) = rb_ok s" "rb_ok (s\<lparr>clientID := i\<rparr>) = rb_ok s" "rb_ok (s\<lparr>cmdlen := n\<rparr>) = rb_ok s" "rb_ok (s\<lparr>commands := bs\<rparr>) = rb_ok s"
  "rb_ok (s\<lparr>datasize := w\<rparr>) = rb_ok s"
  by (simp_all add: rb_ok_def)

lemma pending_simps [simp]:
  "pending (s\<lparr>read_count := k\<rparr>) = pending s" "pending (s\<lparr>in_write := k\<rparr>) = pending s" "pending (s\<lparr>write_count := k\<rparr>) = pending s"
  "pending (s\<lparr>header := h\<rparr>) = pending s" "pending (s\<lparr>clientID := i\<rparr>) = pending s" "pending (s\<lparr>cmdlen := n\<rparr>) = pending s" "pending (s\<lparr>commands := bs\<rparr>) = pending s"
  "pending (s\<lparr>datasize := w\<rparr>) = pending s" "pending (s\<lparr>recvs := n\<rparr>) = pending s" "pending (s\<lparr>polls := n\<rparr>) = pending s"
  by (simp_all add: pending_def ahead_def)

subsection \<open>Single calls\<close>

lemma recv_cases:
  assumes "net_recv env s count = (r, s')"
  obtains (refused) e where "r = Inl e" "s' = s\<lparr>recvs := Suc (recvs s)\<rparr>" "env_recv env (recvs s) = Refused e"
  | (passed) n where "r = Inr (take (min n count) (net_in s))" "s' = s\<lparr>recvs := Suc (recvs s), net_in := drop (min n count) (net_in s)\<rparr>"
      "env_recv env (recvs s) = Passed n"
  using assms by (auto simp: net_recv_def Let_def split: net_answer.splits)

lemma recv_nothing: "net_recv env s count = (r, s') \<Longrightarrow> r = Inl e \<or> r = Inr [] \<Longrightarrow> s' = s\<lparr>recvs := Suc (recvs s)\<rparr>"
  by (auto simp: net_recv_def Let_def split: net_answer.splits)

lemma put_ahead_exchange:
  assumes "rb_ok s" "net_recv env s count = (Inr bs, s')" "count \<le> length (buffer s) - eof s" "bs \<noteq> []"
  shows "exchange s [] [] (put_ahead s' bs)"
proof -
  obtain n where n: "bs = take (min n count) (net_in s)" "s' = s\<lparr>recvs := Suc (recvs s), net_in := drop (min n count) (net_in s)\<rparr>"
    using recv_cases[OF assms(2)] by blast
  have l: "length bs \<le> count" by (simp add: n(1))
  have nc: "net_in s = bs @ drop (min n count) (net_in s)" by (simp add: n(1))
  have m: "min (length (buffer s) - start s) (eof s - start s) = eof s - start s" "start s + (eof s - start s) = eof s"
    using assms(1) by (auto simp: rb_ok_def)
  have "take (eof s + length bs - start s) (drop (start s) (take (eof s) (buffer s) @ bs @ drop (eof s + length bs) (buffer s))) = ahead s @ bs"
    using assms(1) by (simp add: rb_ok_def ahead_def drop_take m)
  then have "pending (put_ahead s' bs) = pending s"
    using nc by (simp add: pending_def put_ahead_def n(2) ahead_def[of "put_ahead _ _"] ahead_def[of "_ \<lparr>buffer := _, eof := _\<rparr>"])
  moreover have "rb_ok (put_ahead s' bs)" using assms l by (auto simp: rb_ok_def put_ahead_def n(2))
  moreover have "core (put_ahead s' bs) = core s" using assms(1,3) l by (simp add: core_def put_ahead_def n(2) rb_ok_def) linarith
  ultimately show ?thesis by (simp add: exchange_def put_ahead_def n(2))
qed

text \<open>Steps that take and send nothing, with the state of the connection.\<close>

definition idle :: "DSI \<Rightarrow> DSI \<Rightarrow> bool" where
  "idle s s' \<longleftrightarrow> exchange s [] [] s' \<and> flags s' = flags s \<and> socket s' = socket s"

lemma idle_refl [simp]: "rb_ok s \<Longrightarrow> idle s s"
  by (simp add: idle_def)

lemma idle_trans: "idle s s1 \<Longrightarrow> idle s1 s2 \<Longrightarrow> idle s s2"
  using exchange_trans[of s "[]" "[]" s1 "[]" "[]" s2] by (auto simp: idle_def)

lemma idle_counts [simp]:
  "idle s (s'\<lparr>recvs := n\<rparr>) = idle s s'" "idle s (s'\<lparr>sends := n\<rparr>) = idle s s'"
  "idle s (s'\<lparr>selects := n\<rparr>) = idle s s'" "idle s (s'\<lparr>polls := n\<rparr>) = idle s s'"
  by (simp_all add: idle_def)

lemma idle_ok: "idle s s' \<Longrightarrow> rb_ok s'"
  by (simp add: idle_def exchange_def)

lemma idle_recv:
  assumes "rb_ok s" "net_recv env s (length (buffer s) - eof s) = (r, s')"
  shows "r = Inl e \<Longrightarrow> idle s s'" "r = Inr [] \<Longrightarrow> idle s s'" "r = Inr bs \<Longrightarrow> bs \<noteq> [] \<Longrightarrow> idle s (put_ahead s' bs)"
proof -
  show "r = Inl e \<Longrightarrow> idle s s'" "r = Inr [] \<Longrightarrow> idle s s'" using recv_nothing[OF assms(2)] assms(1) by auto
  show "idle s (put_ahead s' bs)" if r: "r = Inr bs" "bs \<noteq> []"
  proof -
    have "flags s' = flags s" "socket s' = socket s" by (cases rule: recv_cases[OF assms(2)]; simp)+
    then show ?thesis using put_ahead_exchange[OF assms(1) assms(2)[unfolded r(1)] le_refl r(2)] by (simp add: idle_def put_ahead_def)
  qed
qed

lemma peek_idle: "dsi_peek env s = Some y \<Longrightarrow> rb_ok s \<Longrightarrow> idle s (snd y)"
proof -
  assume "dsi_peek env s = Some y"
  then have "rb_ok s \<longrightarrow> idle s (snd y)"
  proof (rule dsi_peek.raw_induct[where P = "\<lambda>env s y. rb_ok s \<longrightarrow> idle s (snd y)", rotated], intro impI)
    fix f env s y
    assume IH: "\<And>env s y. f env s = Some y \<Longrightarrow> rb_ok s \<longrightarrow> idle s (snd y)" and ok: "rb_ok s"
      and eq: "(if socket s < 0 then Some (- 1, s) else if 1024 \<le> socket s then Some (- 1, s)
         else let s' = s\<lparr>selects := Suc (selects s)\<rparr>; space = length (buffer s) - eof s
           in case env_select env (selects s) of SelectIntr \<Rightarrow> f env s' | SelectFailed \<Rightarrow> Some (- 1, s')
             | Selected writable readable \<Rightarrow>
                 if writable then Some (0, s')
                 else if readable \<and> eof s < length (buffer s)
                   then case net_recv env s' space of
                       (Inl e, s) \<Rightarrow> if e = EAGAIN then f env s else Some (- 1, s)
                     | (Inr bs, s) \<Rightarrow> if bs = [] then Some (- 1, s) else f env (put_ahead s bs)
                   else f env s') = Some y"
    let ?s = "s\<lparr>selects := Suc (selects s)\<rparr>"
    have s: "idle s ?s" "rb_ok ?s" "length (buffer s) - eof s = length (buffer ?s) - eof ?s" using ok by simp_all
    have step: "idle s (snd y)" if "f env t = Some y" "idle ?s t" for t
      using IH[OF that(1)] that(2) idle_trans[OF s(1) idle_trans] idle_ok by blast
    have step0: "f env ?s = Some y \<Longrightarrow> idle s (snd y)" by (rule step[OF _ idle_refl[OF s(2)]])
    show "idle s (snd y)"
    proof (cases "net_recv env ?s (length (buffer s) - eof s)")
      case (Pair r t)
      note i = idle_recv[OF s(2) Pair[unfolded s(3)]]
      show ?thesis using eq ok s(1,2) step step0 i idle_trans[OF s(1)]
        by (auto simp: Let_def Pair split: if_splits select_answer.splits sum.splits)
    qed
  qed
  then show "rb_ok s \<Longrightarrow> idle s (snd y)" by blast
qed

subsection \<open>Reading\<close>

lemma disconnect_exchange: "rb_ok s \<Longrightarrow> exchange s [] [] (snd (dsi_disconnect s))"
  by (simp add: dsi_disconnect_def Let_def)

lemma wait_exchange:
  assumes "dsi_wait_input env s = Some y" "rb_ok s"
  shows "exchange s [] [] (snd y) \<and> net_in (snd y) = net_in s"
proof -
  have "rb_ok s \<longrightarrow> exchange s [] [] (snd y) \<and> net_in (snd y) = net_in s"
  proof (rule dsi_wait_input.raw_induct[where P = "\<lambda>env s y. rb_ok s \<longrightarrow> exchange s [] [] (snd y) \<and> net_in (snd y) = net_in s", OF _ assms(1)], intro impI)
    fix f env s y
    assume IH: "\<And>env s y. f env s = Some y \<Longrightarrow> rb_ok s \<longrightarrow> exchange s [] [] (snd y) \<and> net_in (snd y) = net_in s" and ok: "rb_ok s"
      and eq: "(if env_stop env (polls s) then Some (Some ECONNABORTED, snd (dsi_disconnect s))
         else let s' = s\<lparr>polls := Suc (polls s)\<rparr>
           in case env_poll env (polls s) of PollInput \<Rightarrow> Some (None, s') | PollSignal \<Rightarrow> f env s'
             | PollTimeout \<Rightarrow> Some (Some ETIMEDOUT, snd (dsi_disconnect s'))
             | PollFailed e \<Rightarrow> if e \<noteq> EINTR then Some (Some e, s') else f env s') = Some y"
    let ?s = "s\<lparr>polls := Suc (polls s)\<rparr>"
    have "exchange s [] [] (snd y) \<and> net_in (snd y) = net_in s" if "f env ?s = Some y"
      using IH[OF that] ok exchange_trans[of s "[]" "[]" ?s "[]" "[]" "snd y"] by simp
    then show "exchange s [] [] (snd y) \<and> net_in (snd y) = net_in s" using eq ok
      by (auto simp: Let_def dsi_disconnect_def split: if_splits poll_answer.splits)
  qed
  then show ?thesis using assms(2) by blast
qed

lemma from_buf_exchange:
  assumes "from_buf s count = (bs, s')" "rb_ok s"
  shows "exchange s bs [] s'" "length bs \<le> count" "count > 0 \<Longrightarrow> bs = [] \<longleftrightarrow> ahead s = []" "bs = [] \<Longrightarrow> net_in s' = net_in s \<and> flags s' = flags s \<and> recvs s' = recvs s"
proof -
  let ?n = "min (eof s - start s) count"
  have ok: "start s \<le> eof s" "eof s \<le> length (buffer s)" "\<not> buffered s \<Longrightarrow> buffer s = []" using assms(2) by (simp_all add: rb_ok_def)
  show l: "length bs \<le> count" "bs = [] \<Longrightarrow> net_in s' = net_in s \<and> flags s' = flags s \<and> recvs s' = recvs s"
    using assms(1) by (auto simp: from_buf_def Let_def split: if_splits)
  show "bs = [] \<longleftrightarrow> ahead s = []" if "count > 0"
    using assms(1) that ok by (auto simp: from_buf_def ahead_def Let_def split: if_splits)
  have split: "ahead s = take ?n (drop (start s) (buffer s)) @ take (eof s - (start s + ?n)) (drop (start s + ?n) (buffer s))"
  proof -
    have "take (?n + (eof s - (start s + ?n))) (drop (start s) (buffer s)) =
        take ?n (drop (start s) (buffer s)) @ take (eof s - (start s + ?n)) (drop ?n (drop (start s) (buffer s)))" by (rule take_add)
    moreover have "?n + (eof s - (start s + ?n)) = eof s - start s" by simp
    ultimately show ?thesis unfolding ahead_def by (simp only: drop_drop add.commute)
  qed
  show "exchange s bs [] s'"
  proof (cases "buffered s \<and> eof s - start s > 0")
    case True
    let ?t = "s\<lparr>start := start s + ?n\<rparr>"
    have bs: "bs = take ?n (drop (start s) (buffer s))" and s': "s' = (if eof s = start s + ?n then ?t\<lparr>start := 0, eof := 0\<rparr> else ?t)"
      using assms(1) True by (simp_all add: from_buf_def Let_def)
    have "pending s = bs @ pending ?t" using split by (simp add: pending_def bs ahead_def[of ?t])
    moreover have "pending s' = pending ?t" by (simp add: s' pending_def ahead_def)
    moreover have "core s' = core s" "rb_ok s'" "net_out s' = net_out s" using ok by (auto simp: s' core_def rb_ok_def)
    ultimately show ?thesis by (simp add: exchange_def)
  next
    case False
    then show ?thesis using assms by (auto simp: from_buf_def Let_def split: if_splits)
  qed
qed

lemma recv_exchange:
  assumes "net_recv env s count = (r, s')" "rb_ok s" "ahead s = []"
  shows "exchange s (case r of Inl e \<Rightarrow> [] | Inr bs \<Rightarrow> bs) [] s' \<and> (case r of Inl e \<Rightarrow> ahead s' = [] | Inr bs \<Rightarrow> length bs \<le> count)"
  by (cases rule: recv_cases[OF assms(1)]) (use assms(2,3) in \<open>auto simp: exchange_def pending_def ahead_def core_def rb_ok_def\<close>)

definition got :: "dsi_errno + bytes \<Rightarrow> bytes" where
  "got r = (case r of Inl e \<Rightarrow> [] | Inr bs \<Rightarrow> bs)"

lemma got_simps [simp]: "got (Inl e) = []" "got (Inr bs) = bs"
  by (simp_all add: got_def)

lemma ahead_empty: "exchange s [] [] s' \<Longrightarrow> net_in s' = net_in s \<Longrightarrow> ahead s = [] \<Longrightarrow> ahead s' = []"
  by (simp add: exchange_def pending_def)

lemma recv_wait_exchange:
  assumes "recv_wait env s count = Some y" "rb_ok s" "ahead s = []"
  shows "exchange s (got (fst y)) [] (snd y) \<and> length (got (fst y)) \<le> count"
proof -
  let ?P = "\<lambda>s count y. rb_ok s \<longrightarrow> ahead s = [] \<longrightarrow> exchange s (got (fst y)) [] (snd y) \<and> length (got (fst y)) \<le> count"
  have "?P s count y"
  proof (rule recv_wait.raw_induct[where P = "\<lambda>env. ?P", OF _ assms(1)], intro impI)
    fix f env s count y
    assume IH: "\<And>env s count y. f env s count = Some y \<Longrightarrow> ?P s count y" and ok: "rb_ok s" and e: "ahead s = []"
      and eq: "(case net_recv env s count of
          (Inl e, s) \<Rightarrow> if e = EAGAIN then Option.bind (dsi_wait_input env s) (\<lambda>(e, s). case e of None \<Rightarrow> f env s count | Some e \<Rightarrow> Some (Inl e, s))
            else Some (Inl e, s)
        | (Inr bs, s) \<Rightarrow> Some (Inr bs, s)) = Some y"
    obtain r t where rt: "net_recv env s count = (r, t)" by fastforce
    note x = recv_exchange[OF rt ok e]
    show "exchange s (got (fst y)) [] (snd y) \<and> length (got (fst y)) \<le> count"
    proof (cases r)
      case (Inl err)
      then have xt: "exchange s [] [] t" "ahead t = []" using x by simp_all
      note okt = exchange_ok[OF xt(1)]
      show ?thesis
      proof (cases "err = EAGAIN")
        case True
        then obtain w u where w: "dsi_wait_input env t = Some (w, u)" and y: "(case w of None \<Rightarrow> f env u count | Some e \<Rightarrow> Some (Inl e, u)) = Some y"
          using eq rt Inl by (auto split: bind_splits)
        have u: "exchange t [] [] u" "net_in u = net_in t" using wait_exchange[OF w okt] by simp_all
        note su = exchange_trans[OF xt(1) u(1), simplified]
        show ?thesis
        proof (cases w)
          case None
          then have "exchange u (got (fst y)) [] (snd y) \<and> length (got (fst y)) \<le> count"
            using y IH exchange_ok[OF u(1)] ahead_empty[OF u xt(2)] by auto
          then show ?thesis using exchange_trans[OF su, of "got (fst y)" "[]"] by simp
        qed (use y su in auto)
      qed (use eq rt Inl xt in auto)
    qed (use eq rt x in auto)
  qed
  then show ?thesis using assms(2,3) by blast
qed

lemma buf_read_exchange:
  assumes "buf_read env s count = Some (r, s')" "rb_ok s"
  shows "exchange s (got r) [] s' \<and> length (got r) \<le> count"
proof (cases "count = 0")
  case False
  obtain bs t where f: "from_buf s count = (bs, t)" by fastforce
  note x = from_buf_exchange[OF f assms(2)]
  show ?thesis
  proof (cases "bs = []")
    case True
    have t: "ahead t = []" using ahead_empty[of s t] x False True by simp
    then show ?thesis using recv_wait_exchange[of env t count "(r, s')"] assms(1) False f True x(1) exchange_ok[OF x(1)]
        exchange_trans[of s "[]" "[]" t "got r" "[]" s'] by (simp add: buf_read_def)
  qed (use assms(1) f False x in \<open>auto simp: buf_read_def\<close>)
qed (use assms in \<open>auto simp: buf_read_def\<close>)

text \<open>
  What a read delivers: the bytes it stores are taken off the front of the pending ones, never more than
  asked for, and a result other than 0 means all of them.
\<close>

lemma read_loop_exchange:
  assumes "read_loop env s count stored = Some (n, bs, s')" "rb_ok s" "length stored \<le> count"
  shows "\<exists>new. bs = stored @ new \<and> exchange s new [] s' \<and> length bs \<le> count \<and> (n = 0 \<or> n = count \<and> length bs = count)"
proof -
  let ?P = "\<lambda>s count stored y. rb_ok s \<longrightarrow> length stored \<le> count \<longrightarrow> (case y of (n, bs, s') \<Rightarrow>
     \<exists>new. bs = stored @ new \<and> exchange s new [] s' \<and> length bs \<le> count \<and> (n = 0 \<or> n = count \<and> length bs = count))"
  have "?P s count stored (n, bs, s')"
  proof (rule read_loop.raw_induct[where P = "\<lambda>env. ?P", OF _ assms(1)], intro impI)
    fix f env s count stored y
    assume IH: "\<And>env s count stored y. f env s count stored = Some y \<Longrightarrow> ?P s count stored y" and ok: "rb_ok s" and le: "length stored \<le> count"
      and eq: "(if length stored < count
        then Option.bind (buf_read env s (count - length stored)) (\<lambda>(r, s). case r of
            Inl e \<Rightarrow> if e = EINTR \<or> e = EAGAIN then f env s count stored else Some (0, stored, s)
          | Inr bs \<Rightarrow> if bs \<noteq> [] then f env s count (stored @ bs) else Some (0, stored, s))
        else Some (length stored, stored, s\<lparr>read_count := read_count s + int (length stored)\<rparr>)) = Some y"
    obtain n bs s' where y: "y = (n, bs, s')" by (cases y)
    show "case y of (n, bs, s') \<Rightarrow> \<exists>new. bs = stored @ new \<and> exchange s new [] s' \<and> length bs \<le> count \<and> (n = 0 \<or> n = count \<and> length bs = count)"
    proof (cases "length stored < count")
      case True
      then obtain r t where b: "buf_read env s (count - length stored) = Some (r, t)" using eq by (auto split: bind_splits)
      note x = buf_read_exchange[OF b ok]
      then have t: "exchange s (got r) [] t" "rb_ok t" "length (stored @ got r) \<le> count" using exchange_ok True by auto
      have rec: ?thesis if "f env t count (stored @ got r) = Some y"
        using IH[OF that] t exchange_trans[OF t(1), of _ "[]"] by (fastforce simp: y)
      show ?thesis using eq True b t rec by (auto simp: y split: sum.splits if_splits)
    qed (use eq ok le in \<open>auto simp: y\<close>)
  qed
  then show ?thesis using assms(2,3) by simp
qed

lemma stream_read_exchange:
  assumes "dsi_stream_read env s count = Some (n, bs, s')" "rb_ok s"
  shows "exchange s bs [] s' \<and> length bs \<le> count \<and> (n = 0 \<or> n = count \<and> length bs = count)"
  using read_loop_exchange[of env s count "[]" n bs s'] assms by (auto simp: dsi_stream_read_def split: if_splits)

text \<open>A buffered read takes what is there, tops up the buffer and reads the rest.\<close>

lemma buffered_read_steps:
  assumes "rb_ok s"
  obtains xs u where "exchange s xs [] u" "flags u = flags s" "length xs \<le> count"
    "dsi_buffered_stream_read env s count =
      (if length xs = count then Some (length xs, xs, u)
       else Option.bind (dsi_stream_read env u (count - length xs)) (\<lambda>(n, rest, v).
         if n \<noteq> count - length xs then Some (0, xs @ rest, v) else Some (length xs + n, xs @ rest, v)))"
proof -
  obtain xs t where f: "from_buf s count = (xs, t)" by fastforce
  note x = from_buf_exchange[OF f assms]
  have ft: "flags t = flags s" using f by (auto simp: from_buf_def Let_def split: if_splits)
  let ?t = "t\<lparr>read_count := read_count t + int (length xs)\<rparr>" and ?b = "min 8192 (length (buffer t) - eof t)"
  have okt: "rb_ok ?t" using exchange_ok[OF x(1)] by simp
  show thesis
  proof (cases "length xs = count")
    case True
    then show thesis using that[of xs ?t] x ft f by (simp add: dsi_buffered_stream_read_def)
  next
    case False
    define u where "u = (if ?b > 0 then (case net_recv env ?t ?b of (Inl _, v) \<Rightarrow> v | (Inr g, v) \<Rightarrow> if g \<noteq> [] then put_ahead v g else v) else ?t)"
    have u: "exchange ?t [] [] u \<and> flags u = flags ?t"
    proof (cases "net_recv env ?t ?b")
      case (Pair r v)
      have fv: "flags v = flags ?t" by (cases rule: recv_cases[OF Pair]; simp)
      show ?thesis
      proof (cases r)
        case (Inl e)
        then show ?thesis using recv_nothing[OF Pair] Pair okt by (simp add: u_def)
      next
        case (Inr g)
        have "exchange ?t [] [] v" if "g = []" using recv_nothing[OF Pair] Inr that okt by simp
        then show ?thesis using put_ahead_exchange[OF okt Pair[unfolded Inr]] Pair Inr okt fv by (auto simp: u_def put_ahead_def)
      qed
    qed
    have su: "exchange s xs [] u" using exchange_trans[of s xs "[]" ?t "[]" "[]" u] x(1) u by simp
    have "dsi_buffered_stream_read env s count = Option.bind (dsi_stream_read env u (count - length xs)) (\<lambda>(n, rest, v).
        if n \<noteq> count - length xs then Some (0, xs @ rest, v) else Some (length xs + n, xs @ rest, v))"
      using False by (simp add: dsi_buffered_stream_read_def f Let_def u_def)
    then show thesis using that[OF su _ x(2)] False u ft by simp
  qed
qed

lemma buffered_read_exchange:
  assumes "dsi_buffered_stream_read env s count = Some (n, bs, s')" "rb_ok s"
  shows "exchange s bs [] s' \<and> length bs \<le> count \<and> (n = 0 \<or> n = count \<and> length bs = count)"
proof (rule buffered_read_steps[OF assms(2), of count env])
  fix xs u
  assume u: "exchange s xs [] u" "length xs \<le> count"
    and eq: "dsi_buffered_stream_read env s count = (if length xs = count then Some (length xs, xs, u)
       else Option.bind (dsi_stream_read env u (count - length xs)) (\<lambda>(n, rest, v).
         if n \<noteq> count - length xs then Some (0, xs @ rest, v) else Some (length xs + n, xs @ rest, v)))"
  show ?thesis
  proof (cases "length xs = count")
    case False
    obtain m rest where r: "dsi_stream_read env u (count - length xs) = Some (m, rest, s')" "bs = xs @ rest"
      "n = (if m \<noteq> count - length xs then 0 else length xs + m)"
      using assms(1) False unfolding eq by (auto split: bind_splits if_splits)
    note y = stream_read_exchange[OF r(1) exchange_ok[OF u(1)]]
    show ?thesis using exchange_trans[OF u(1), of rest "[]" s'] y r u(2) False by auto
  qed (use assms(1) eq u in auto)
qed

subsection \<open>Writing\<close>

lemma take_min_length: "take (min n (length xs)) xs = take n xs"
  by (simp add: min_def)

lemma send_exchange:
  assumes "net_send env s bs = (r, s')" "rb_ok s"
  shows "r = Inl e \<Longrightarrow> idle s s'"
    "r = Inr len \<Longrightarrow> exchange s [] (take len bs) s' \<and> flags s' = flags s \<and> socket s' = socket s \<and> len \<le> length bs"
  using assms by (auto simp: net_send_def Let_def exchange_def pending_def ahead_def rb_ok_def core_def take_min_length split: net_answer.splits)

definition sent_part :: "DSI \<Rightarrow> bytes \<Rightarrow> DSI \<Rightarrow> bool \<Rightarrow> bool" where
  "sent_part s bs s' all \<longleftrightarrow> (\<exists>k \<le> length bs. exchange s [] (take k bs) s' \<and> (all \<longrightarrow> k = length bs)) \<and> flags s' = flags s \<and> socket s' = socket s"

lemma sent_none: "idle s s' \<Longrightarrow> sent_part s bs s' (bs = [])"
  by (auto simp: sent_part_def idle_def intro!: exI[of _ 0])

lemma sent_some:
  assumes "exchange s [] (take len bs) s1" "flags s1 = flags s" "socket s1 = socket s" "len \<le> length bs" "sent_part s1 (drop len bs) s' all"
  shows "sent_part s bs s' all"
proof -
  obtain k where k: "k \<le> length bs - len" "exchange s1 [] (take k (drop len bs)) s'" "all \<longrightarrow> k = length bs - len" using assms(5) by (auto simp: sent_part_def)
  have "exchange s [] (take (len + k) bs) s'" using exchange_trans[OF assms(1) k(2)] by (simp add: take_add)
  then show ?thesis using assms(2-5) k by (auto simp: sent_part_def intro!: exI[of _ "len + k"])
qed

lemma sent_idle: "idle s s1 \<Longrightarrow> sent_part s1 bs s' all \<Longrightarrow> sent_part s bs s' all"
  using sent_some[of s 0 bs s1 s' all] by (simp add: idle_def)

lemma sent_weaken: "sent_part s bs s' all \<Longrightarrow> (all' \<Longrightarrow> all) \<Longrightarrow> sent_part s bs s' all'"
  by (auto simp: sent_part_def)

lemma write_loop_sent:
  assumes "write_loop env nw s bs w = Some (r, s')" "rb_ok s" "w \<le> length bs"
  shows "sent_part s (drop w bs) s' (r \<noteq> -1) \<and> (r = -1 \<or> r = int (length bs))"
proof -
  let ?P = "\<lambda>s bs w y. rb_ok s \<longrightarrow> w \<le> length bs \<longrightarrow> sent_part s (drop w bs) (snd y) (fst y \<noteq> -1) \<and> (fst y = -1 \<or> fst y = int (length bs))"
  have "?P s bs w (r, s')"
  proof (rule write_loop.raw_induct[where P = "\<lambda>env nw. ?P", OF _ assms(1)], intro impI)
    fix f env nw s bs w and y :: "int \<times> DSI"
    assume IH: "\<And>env nw s bs w y. f env nw s bs w = Some y \<Longrightarrow> ?P s bs w y" and ok: "rb_ok s" and le: "w \<le> length bs"
      and eq: "(if w < length bs then (case net_send env s (drop w bs) of
           (Inl e, s) \<Rightarrow> if e = EINTR then f env nw s bs w
             else if e = EAGAIN then if nw \<and> w = 0 then Some (-1, s)
               else Option.bind (dsi_peek env s) (\<lambda>(r, s). if r \<noteq> 0 then Some (-1, s) else f env nw s bs w)
             else Some (-1, s)
         | (Inr len, s) \<Rightarrow> f env nw s bs (w + len))
        else Some (int w, s\<lparr>write_count := write_count s + int w\<rparr>)) = Some y"
    let ?Q = "sent_part s (drop w bs) (snd y) (fst y \<noteq> -1) \<and> (fst y = -1 \<or> fst y = int (length bs))"
    show ?Q
    proof (cases "w < length bs")
      case True
      obtain r t where rt: "net_send env s (drop w bs) = (r, t)" by fastforce
      have again: ?Q if "idle s u" "f env nw u bs w = Some y" for u
        using IH[OF that(2)] sent_idle[OF that(1)] idle_ok[OF that(1)] le by blast
      have stop: ?Q if "idle s u" "y = (-1, u)" for u
        using sent_weaken[OF sent_none[OF that(1), of "drop w bs"], of False] that(2) by simp
      show ?thesis
      proof (cases r)
        case (Inl e)
        note i = send_exchange(1)[OF rt ok Inl]
        have p: "idle s u" if "dsi_peek env t = Some (q, u)" for q u using peek_idle[OF that idle_ok[OF i]] idle_trans[OF i] by simp
        show ?thesis using eq True rt Inl i again stop p by (auto split: if_splits bind_splits)
      next
        case (Inr len)
        note x = send_exchange(2)[OF rt ok Inr]
        have "?P t bs (w + len) y" using IH eq True rt Inr by simp
        then have "sent_part t (drop len (drop w bs)) (snd y) (fst y \<noteq> -1) \<and> (fst y = -1 \<or> fst y = int (length bs))"
          using x exchange_ok True by (auto simp: drop_drop add.commute)
        then show ?thesis using sent_some[of s len "drop w bs" t] x by blast
      qed
    next
      case False
      then show ?thesis using eq ok le by (auto simp: sent_part_def)
    qed
  qed
  then show ?thesis using assms(2,3) by simp
qed

definition iov_ok :: "nat \<Rightarrow> nat \<Rightarrow> iovecs \<Rightarrow> bool" where
  "iov_ok count towrite iov \<longleftrightarrow> length (iov_bytes iov) = towrite \<and> (case iov of Two a b \<Rightarrow> length b = count | One a \<Rightarrow> True)"

lemma iov_skip_ok:
  assumes "iov_ok count towrite iov" "len \<le> towrite"
  shows "iov_bytes (iov_skip count (towrite - len) len iov) = drop len (iov_bytes iov)" "iov_ok count (towrite - len) (iov_skip count (towrite - len) len iov)"
  using assms by (cases iov; auto simp: iov_ok_def)+

lemma send_loop_sent:
  assumes "send_loop env s count towrite iov = Some (r, s')" "rb_ok s" "iov_ok count towrite iov"
  shows "sent_part s (iov_bytes iov) s' (r = 1) \<and> (r = 0 \<or> r = 1)"
proof -
  let ?P = "\<lambda>s count towrite iov y. rb_ok s \<longrightarrow> iov_ok count towrite iov \<longrightarrow> sent_part s (iov_bytes iov) (snd y) (fst y = 1) \<and> (fst y = 0 \<or> fst y = 1)"
  have "?P s count towrite iov (r, s')"
  proof (rule send_loop.raw_induct[where P = "\<lambda>env. ?P", OF _ assms(1)], intro impI)
    fix f env s count towrite iov and y :: "int \<times> DSI"
    assume IH: "\<And>env s count towrite iov y. f env s count towrite iov = Some y \<Longrightarrow> ?P s count towrite iov y"
      and ok: "rb_ok s" and iov: "iov_ok count towrite iov"
      and eq: "(if towrite > 0 then (case net_send env s (iov_bytes iov) of
           (Inl e, s) \<Rightarrow> if e = EINTR then f env s count towrite iov
             else if e = EAGAIN then Option.bind (dsi_peek env s) (\<lambda>(r, s). if r = 0 then f env s count towrite iov else Some (0, s))
             else Some (0, s)
         | (Inr len, s) \<Rightarrow> if len = 0 then f env s count towrite iov else if len = towrite then Some (1, s)
             else f env s count (towrite - len) (iov_skip count (towrite - len) len iov))
        else Some (1, s)) = Some y"
    let ?Q = "sent_part s (iov_bytes iov) (snd y) (fst y = 1) \<and> (fst y = 0 \<or> fst y = 1)"
    have tl: "length (iov_bytes iov) = towrite" using iov by (simp add: iov_ok_def)
    show ?Q
    proof (cases "towrite > 0")
      case True
      obtain r t where rt: "net_send env s (iov_bytes iov) = (r, t)" by fastforce
      have again: ?Q if "idle s u" "f env u count towrite iov = Some y" for u
        using IH[OF that(2)] sent_idle[OF that(1)] idle_ok[OF that(1)] iov by blast
      have stop: ?Q if "idle s u" "y = (0, u)" for u using sent_weaken[OF sent_none[OF that(1), of "iov_bytes iov"], of False] that(2) by simp
      show ?thesis
      proof (cases r)
        case (Inl e)
        note i = send_exchange(1)[OF rt ok Inl]
        have p: "idle s u" if "dsi_peek env t = Some (q, u)" for q u using peek_idle[OF that idle_ok[OF i]] idle_trans[OF i] by simp
        show ?thesis using eq True rt Inl i again stop p by (auto split: if_splits bind_splits)
      next
        case (Inr len)
        note x = send_exchange(2)[OF rt ok Inr]
        then have okt: "rb_ok t" using exchange_ok by blast
        consider "len = 0" | "len = towrite" "len > 0" | "0 < len" "len < towrite" using x tl by fastforce
        then show ?thesis
        proof cases
          case 1
          then show ?thesis using again[of t] x eq True rt Inr by (simp add: idle_def)
        next
          case 2
          then show ?thesis using x eq rt Inr tl by (auto simp: sent_part_def intro!: exI[of _ towrite])
        next
          case 3
          note k = iov_skip_ok[OF iov, of len]
          have "?P t count (towrite - len) (iov_skip count (towrite - len) len iov) y" using IH eq True rt Inr 3 by simp
          then have "sent_part t (drop len (iov_bytes iov)) (snd y) (fst y = 1) \<and> (fst y = 0 \<or> fst y = 1)" using okt k 3 by simp
          then show ?thesis using sent_some[of s len "iov_bytes iov" t] x by blast
        qed
      qed
    next
      case False
      then have "y = (1, s)" "iov_bytes iov = []" using eq tl by auto
      then show ?thesis using ok by (auto simp: sent_part_def)
    qed
  qed
  then show ?thesis using assms(2,3) by simp
qed

end
