(* ===== verification/Dsi_Progress.thy ===== *)
theory Dsi_Progress
  imports Dsi_Stream
begin

text \<open>
  That the loops of the stream functions end: when the client goes on sending and receiving, calls
  that are interrupted or would block are repeated until the bytes have passed.
\<close>

subsection \<open>Reading\<close>

definition steady_in :: "dsi_env \<Rightarrow> bool" where
  "steady_in env \<longleftrightarrow>
     (\<forall>c. env_recv env c \<in> {Refused EINTR, Refused EAGAIN} \<or> (\<exists>k > 0. env_recv env c = Passed k)) \<and>
     (\<forall>c. \<exists>d k. env_recv env (c + d) = Passed k) \<and> (\<forall>c. \<not> env_stop env c) \<and>
     (\<forall>c. env_poll env c \<in> {PollInput, PollSignal, PollFailed EINTR}) \<and> (\<forall>c. \<exists>d. env_poll env (c + d) = PollInput)"

lemma steady_inD:
  assumes "steady_in env"
  shows "env_recv env c \<in> {Refused EINTR, Refused EAGAIN} \<or> (\<exists>k > 0. env_recv env c = Passed k)"
    "\<exists>d k. env_recv env (c + d) = Passed k" "\<not> env_stop env c" "env_poll env c \<in> {PollInput, PollSignal, PollFailed EINTR}"
    "\<exists>d. env_poll env (c + d) = PollInput"
  using assms unfolding steady_in_def by blast+

lemma wait_input_ok:
  assumes "steady_in env"
  shows "\<exists>n. dsi_wait_input env s = Some (None, s\<lparr>polls := n\<rparr>)"
proof -
  obtain d where "env_poll env (polls s + d) = PollInput" using steady_inD(5)[OF assms] by blast
  then show ?thesis
  proof (induction d arbitrary: s)
    case 0
    then have "dsi_wait_input env s = Some (None, s\<lparr>polls := Suc (polls s)\<rparr>)"
      using steady_inD(3)[OF assms] by (subst dsi_wait_input.simps) simp
    then show ?case by blast
  next
    case (Suc d)
    let ?s = "s\<lparr>polls := Suc (polls s)\<rparr>"
    obtain n where "dsi_wait_input env ?s = Some (None, ?s\<lparr>polls := n\<rparr>)" using Suc.IH[of ?s] Suc.prems by auto
    then show ?case using steady_inD(3,4)[OF assms, of "polls s"] by (subst dsi_wait_input.simps) auto
  qed
qed

text \<open>A read from the socket brings bytes, or it was interrupted and the next success is nearer.\<close>

lemma recv_wait_ok:
  assumes "steady_in env" "count > 0"
  shows "net_in s \<noteq> [] \<Longrightarrow> env_recv env (recvs s + d) = Passed k \<Longrightarrow>
    \<exists>r s'. recv_wait env s count = Some (r, s') \<and> flags s' = flags s \<and>
      ((\<exists>bs. r = Inr bs \<and> bs \<noteq> []) \<or> r = Inl EINTR \<and> (\<exists>d' < d. env_recv env (recvs s' + d') = Passed k))"
proof (induction d arbitrary: s)
  case 0
  then have "k > 0" using steady_inD(1)[OF assms(1), of "recvs s"] by auto
  then have "take (min k count) (net_in s) \<noteq> []" using 0(1) assms(2) by simp
  then show ?case using 0 by (subst recv_wait.simps) (simp add: net_recv_def)
next
  case (Suc d)
  let ?s = "s\<lparr>recvs := Suc (recvs s)\<rparr>"
  show ?case
  proof (cases "env_recv env (recvs s)")
    case (Passed n)
    then have "take (min n count) (net_in s) \<noteq> []" using steady_inD(1)[OF assms(1), of "recvs s"] Suc.prems(1) assms(2) by auto
    then show ?thesis using Passed by (subst recv_wait.simps) (simp add: net_recv_def)
  next
    case (Refused e)
    then consider "e = EINTR" | "e = EAGAIN" using steady_inD(1)[OF assms(1), of "recvs s"] by auto
    then show ?thesis
    proof cases
      case 1
      then have "recv_wait env s count = Some (Inl EINTR, ?s)" using Refused by (subst recv_wait.simps) (simp add: net_recv_def)
      then show ?thesis using Suc.prems(2) by (intro exI[of _ "Inl EINTR"] exI[of _ ?s]) auto
    next
      case 2
      obtain n where "dsi_wait_input env ?s = Some (None, ?s\<lparr>polls := n\<rparr>)" using wait_input_ok[OF assms(1)] by blast
      then have eq: "recv_wait env s count = recv_wait env (?s\<lparr>polls := n\<rparr>) count" using Refused 2 by (subst recv_wait.simps) (simp add: net_recv_def)
      obtain r s' where "recv_wait env (?s\<lparr>polls := n\<rparr>) count = Some (r, s')" "flags s' = flags s"
        "(\<exists>bs. r = Inr bs \<and> bs \<noteq> []) \<or> r = Inl EINTR \<and> (\<exists>d' < d. env_recv env (recvs s' + d') = Passed k)"
        using Suc.IH[of "?s\<lparr>polls := n\<rparr>"] Suc.prems by auto
      then show ?thesis unfolding eq by (auto intro: less_SucI)
    qed
  qed
qed

lemma buf_read_ok:
  assumes "steady_in env" "count > 0" "rb_ok s" "pending s \<noteq> []" "env_recv env (recvs s + d) = Passed k"
  shows "\<exists>r s'. buf_read env s count = Some (r, s') \<and> flags s' = flags s \<and>
    ((\<exists>bs. r = Inr bs \<and> bs \<noteq> []) \<or> r = Inl EINTR \<and> (\<exists>d' < d. env_recv env (recvs s' + d') = Passed k))"
proof -
  obtain bs t where f: "from_buf s count = (bs, t)" by fastforce
  note x = from_buf_exchange[OF f assms(3)]
  have fl: "flags t = flags s" using f by (auto simp: from_buf_def Let_def split: if_splits)
  show ?thesis
  proof (cases "bs = []")
    case True
    then have "ahead s = []" using x(3) assms(2) by simp
    then have "net_in t \<noteq> []" "recvs t = recvs s" using x(4) True assms(4) by (simp_all add: pending_def)
    then show ?thesis using recv_wait_ok[OF assms(1,2), of t d k] assms(2,5) f True fl by (simp add: buf_read_def)
  qed (use f assms(2) fl in \<open>auto simp: buf_read_def\<close>)
qed

lemma read_loop_ok:
  assumes "steady_in env"
  shows "rb_ok s \<Longrightarrow> length stored \<le> count \<Longrightarrow> count - length stored \<le> length (pending s) \<Longrightarrow>
    \<exists>bs s'. read_loop env s count stored = Some (count, bs, s') \<and> flags s' = flags s"
proof (induction "count - length stored" arbitrary: stored s rule: less_induct)
  case less
  show ?case
  proof (cases "length stored < count")
    case True
    obtain d k where "env_recv env (recvs s + d) = Passed k" using steady_inD(2)[OF assms] by blast
    then show ?thesis using less.prems
    proof (induction d arbitrary: s rule: less_induct)
      case (less d s)
      have ne: "pending s \<noteq> []" using less.prems(4) True by auto
      obtain r t where b: "buf_read env s (count - length stored) = Some (r, t)" "flags t = flags s"
        and r: "(\<exists>bs. r = Inr bs \<and> bs \<noteq> []) \<or> r = Inl EINTR \<and> (\<exists>d' < d. env_recv env (recvs t + d') = Passed k)"
        using buf_read_ok[OF assms _ less.prems(2) ne less.prems(1), of "count - length stored"] True by auto
      note x = buf_read_exchange[OF b(1) less.prems(2)]
      have okt: "rb_ok t" using x exchange_ok by blast
      have p: "pending s = got r @ pending t" using x by (simp add: exchange_def)
      from r show ?case
      proof (elim disjE exE conjE)
        fix bs assume bs: "r = Inr bs" "bs \<noteq> []"
        have shorter: "count - length (stored @ bs) < count - length stored" using bs(2) True by (simp add: diff_less_mono2)
        have "\<exists>ys s'. read_loop env t count (stored @ bs) = Some (count, ys, s') \<and> flags s' = flags t"
          by (rule \<open>\<And>stored' s. count - length stored' < count - length stored \<Longrightarrow> rb_ok s \<Longrightarrow> length stored' \<le> count \<Longrightarrow>
              count - length stored' \<le> length (pending s) \<Longrightarrow> \<exists>bs s'. read_loop env s count stored' = Some (count, bs, s') \<and> flags s' = flags s\<close>)
            (use shorter bs True x p less.prems okt in auto)
        then show ?thesis using b bs True by (subst read_loop.simps) simp
      next
        fix d' assume e: "r = Inl EINTR" "d' < d" "env_recv env (recvs t + d') = Passed k"
        have "\<exists>ys s'. read_loop env t count stored = Some (count, ys, s') \<and> flags s' = flags t"
          by (rule less.IH[OF e(2,3) okt less.prems(3)]) (use p e less.prems(4) in simp)
        then show ?thesis using b e(1) True by (subst read_loop.simps) simp
      qed
    qed
  next
    case False
    then show ?thesis using less.prems by (subst read_loop.simps) auto
  qed
qed

lemma stream_read_ok:
  assumes "steady_in env" "rb_ok s" "\<not> disconnected s" "count \<le> length (pending s)"
  shows "\<exists>s'. dsi_stream_read env s count = Some (count, take count (pending s), s') \<and> exchange s (take count (pending s)) [] s' \<and> flags s' = flags s"
proof -
  obtain bs s' where r: "dsi_stream_read env s count = Some (count, bs, s')" "flags s' = flags s"
    using read_loop_ok[OF assms(1,2), of "[]" count] assms(3,4) by (auto simp: dsi_stream_read_def)
  have x: "exchange s bs [] s'" "length bs \<le> count" "count = 0 \<or> length bs = count" using stream_read_exchange[OF r(1) assms(2)] by auto
  then have "bs = take count (pending s)" by (auto simp: exchange_def)
  then show ?thesis using r x by blast
qed

lemma buffered_read_ok:
  assumes "steady_in env" "rb_ok s" "\<not> disconnected s" "count \<le> length (pending s)"
  shows "\<exists>s'. dsi_buffered_stream_read env s count = Some (count, take count (pending s), s') \<and> exchange s (take count (pending s)) [] s' \<and> flags s' = flags s"
proof (rule buffered_read_steps[OF assms(2), of count env])
  fix xs u
  assume u: "exchange s xs [] u" "flags u = flags s" "length xs \<le> count"
    and eq: "dsi_buffered_stream_read env s count = (if length xs = count then Some (length xs, xs, u)
       else Option.bind (dsi_stream_read env u (count - length xs)) (\<lambda>(n, rest, v).
         if n \<noteq> count - length xs then Some (0, xs @ rest, v) else Some (length xs + n, xs @ rest, v)))"
  have p: "pending s = xs @ pending u" using u(1) by (simp add: exchange_def)
  show ?thesis
  proof (cases "length xs = count")
    case True
    then show ?thesis using eq u(1,2) p by simp
  next
    case False
    have "count - length xs \<le> length (pending u)" "\<not> disconnected u" using p assms(3,4) u(2) by simp_all
    then obtain s' where s': "dsi_stream_read env u (count - length xs) = Some (count - length xs, take (count - length xs) (pending u), s')"
      "exchange u (take (count - length xs) (pending u)) [] s'" "flags s' = flags u" using stream_read_ok[OF assms(1) exchange_ok[OF u(1)]] by blast
    then show ?thesis using eq False p u(2,3) exchange_trans[OF u(1) s'(2)] by simp
  qed
qed

subsection \<open>Writing\<close>

definition steady_out :: "dsi_env \<Rightarrow> bool" where
  "steady_out env \<longleftrightarrow>
     (\<forall>c. env_send env c \<in> {Refused EINTR, Refused EAGAIN} \<or> (\<exists>k > 0. env_send env c = Passed k)) \<and>
     (\<forall>c. \<exists>d k. env_send env (c + d) = Passed k) \<and>
     (\<forall>c. env_select env c = SelectIntr \<or> (\<exists>r. env_select env c = Selected True r)) \<and>
     (\<forall>c. \<exists>d r. env_select env (c + d) = Selected True r)"

lemma steady_outD:
  assumes "steady_out env"
  shows "env_send env c \<in> {Refused EINTR, Refused EAGAIN} \<or> (\<exists>k > 0. env_send env c = Passed k)"
    "\<exists>d k. env_send env (c + d) = Passed k" "env_select env c = SelectIntr \<or> (\<exists>r. env_select env c = Selected True r)"
    "\<exists>d r. env_select env (c + d) = Selected True r"
  using assms unfolding steady_out_def by blast+

definition selectable :: "DSI \<Rightarrow> bool" where
  "selectable s \<longleftrightarrow> 0 \<le> socket s \<and> socket s < FD_SETSIZE"

lemma peek_returns:
  assumes "steady_out env" "selectable s"
  shows "\<exists>n. dsi_peek env s = Some (0, s\<lparr>selects := n\<rparr>)"
proof -
  obtain d r where "env_select env (selects s + d) = Selected True r" using steady_outD(4)[OF assms(1)] by blast
  then show ?thesis using assms(2)
  proof (induction d arbitrary: s)
    case 0
    then have "dsi_peek env s = Some (0, s\<lparr>selects := Suc (selects s)\<rparr>)" by (subst dsi_peek.simps) (simp add: selectable_def)
    then show ?case by blast
  next
    case (Suc d)
    let ?s = "s\<lparr>selects := Suc (selects s)\<rparr>"
    obtain n where "dsi_peek env ?s = Some (0, ?s\<lparr>selects := n\<rparr>)" using Suc.IH[of ?s] Suc.prems by (auto simp: selectable_def)
    then show ?case using steady_outD(3)[OF assms(1), of "selects s"] Suc.prems(2) by (subst dsi_peek.simps) (auto simp: selectable_def)
  qed
qed

text \<open>One call that sends: it is refused for the moment, and the next success is nearer, or bytes pass.\<close>

lemma send_step:
  assumes "steady_out env" "bs \<noteq> []" "env_send env (sends s + d) = Passed k"
  obtains (again) e d' where "net_send env s bs = (Inl e, s\<lparr>sends := Suc (sends s)\<rparr>)" "e = EINTR \<or> e = EAGAIN" "d = Suc d'"
      "env_send env (Suc (sends s) + d') = Passed k"
  | (sent) len where "net_send env s bs = (Inr len, s\<lparr>sends := Suc (sends s), net_out := net_out s @ take len bs\<rparr>)" "0 < len" "len \<le> length bs"
proof (cases "env_send env (sends s)")
  case (Refused e)
  then have "d \<noteq> 0" "e = EINTR \<or> e = EAGAIN" using assms(3) steady_outD(1)[OF assms(1), of "sends s"] by (cases d; auto)+
  then show thesis using that(1)[of e "d - 1"] Refused assms(3) by (simp add: net_send_def)
next
  case (Passed n)
  then have "0 < n" using steady_outD(1)[OF assms(1), of "sends s"] by auto
  then show thesis using that(2)[of "min n (length bs)"] Passed assms(2) by (simp add: net_send_def take_min_length)
qed

lemma write_loop_ok:
  assumes "steady_out env"
  shows "selectable s \<Longrightarrow> w \<le> length bs \<Longrightarrow> \<exists>s'. write_loop env False s bs w = Some (int (length bs), s')"
proof (induction "length bs - w" arbitrary: w s rule: less_induct)
  case less
  note outer = less.hyps
  show ?case
  proof (cases "w < length bs")
    case True
    obtain d k where "env_send env (sends s + d) = Passed k" using steady_outD(2)[OF assms] by blast
    then show ?thesis using less.prems(1)
    proof (induction d arbitrary: s rule: less_induct)
      case (less d s)
      have ne: "drop w bs \<noteq> []" using True by simp
      show ?case
      proof (cases rule: send_step[OF assms ne less.prems(1), case_names again sent])
        case (again e d')
        let ?s = "s\<lparr>sends := Suc (sends s)\<rparr>"
        obtain n where n: "dsi_peek env ?s = Some (0, ?s\<lparr>selects := n\<rparr>)" using peek_returns[OF assms, of ?s] less.prems(2) by (auto simp: selectable_def)
        have "\<exists>s'. write_loop env False (?s\<lparr>selects := n\<rparr>) bs w = Some (int (length bs), s')" "\<exists>s'. write_loop env False ?s bs w = Some (int (length bs), s')"
          by (rule less.IH[of d']; use again less.prems(2) in \<open>simp add: selectable_def\<close>)+
        then show ?thesis using again(1,2) n True by (subst write_loop.simps) auto
      next
        case (sent len)
        let ?s = "s\<lparr>sends := Suc (sends s), net_out := net_out s @ take len (drop w bs)\<rparr>"
        have "\<exists>s'. write_loop env False ?s bs (w + len) = Some (int (length bs), s')"
          by (rule outer) (use sent less.prems(2) True in \<open>auto simp: selectable_def\<close>)
        then show ?thesis using sent(1) True by (subst write_loop.simps) simp
      qed
    qed
  next
    case False
    then show ?thesis using less.prems by (subst write_loop.simps) auto
  qed
qed

lemma send_loop_ok:
  assumes "steady_out env"
  shows "selectable s \<Longrightarrow> iov_ok count towrite iov \<Longrightarrow> \<exists>s'. send_loop env s count towrite iov = Some (1, s')"
proof (induction towrite arbitrary: iov s rule: less_induct)
  case (less towrite)
  note outer = less.IH
  show ?case
  proof (cases "towrite > 0")
    case True
    have tl: "length (iov_bytes iov) = towrite" using less.prems(2) by (simp add: iov_ok_def)
    then have ne: "iov_bytes iov \<noteq> []" using True by auto
    obtain d k where "env_send env (sends s + d) = Passed k" using steady_outD(2)[OF assms] by blast
    then show ?thesis using less.prems(1)
    proof (induction d arbitrary: s rule: less_induct)
      case (less d s)
      show ?case
      proof (cases rule: send_step[OF assms ne less.prems(1), case_names again sent])
        case (again e d')
        let ?s = "s\<lparr>sends := Suc (sends s)\<rparr>"
        obtain n where n: "dsi_peek env ?s = Some (0, ?s\<lparr>selects := n\<rparr>)" using peek_returns[OF assms, of ?s] less.prems(2) by (auto simp: selectable_def)
        have "\<exists>s'. send_loop env (?s\<lparr>selects := n\<rparr>) count towrite iov = Some (1, s')" "\<exists>s'. send_loop env ?s count towrite iov = Some (1, s')"
          by (rule less.IH[of d']; use again less.prems(2) in \<open>simp add: selectable_def\<close>)+
        then show ?thesis using again(1,2) n True by (subst send_loop.simps) auto
      next
        case (sent len)
        let ?s = "s\<lparr>sends := Suc (sends s), net_out := net_out s @ take len (iov_bytes iov)\<rparr>"
        have "\<exists>s'. send_loop env ?s count (towrite - len) (iov_skip count (towrite - len) len iov) = Some (1, s')"
          by (rule outer) (use sent less.prems(2) True tl iov_skip_ok(2)[OF \<open>iov_ok count towrite iov\<close>, of len] in \<open>auto simp: selectable_def\<close>)
        then show ?thesis using sent(1,2) True by (subst send_loop.simps) simp
      qed
    qed
  next
    case False
    then show ?thesis by (subst send_loop.simps) simp
  qed
qed

end
