(* ===== verification/Dsi_Claims.thy ===== *)
theory Dsi_Claims
  imports Dsi_Progress Byte_Arith
begin

text \<open>
  What a session promises: requests arrive as the client framed them, one after the other, also when
  parts of them were read ahead; whatever the client sends stays within the buffers; a reply goes out
  whole or the call reports that it did not; and the data of a write reaches its reader.
\<close>

lemma net32_rev [simp]: "net32 (le_word (rev (le_bytes 4 w))) = w" "net16 (le_word (rev (le_bytes 2 v))) = v"
  unfolding bswap_def[symmetric] by simp_all

subsection \<open>Receiving\<close>

text \<open>A request as a client frames it, its fields in network order.\<close>

definition request_bytes :: "byte \<Rightarrow> byte \<Rightarrow> 16 word \<Rightarrow> 32 word \<Rightarrow> bytes \<Rightarrow> bytes \<Rightarrow> bytes" where
  "request_bytes fl cmd rid doff reserved payload =
     [fl, cmd] @ rev (le_bytes 2 rid) @ rev (le_bytes 4 doff) @ rev (le_bytes 4 (of_nat (length payload) :: 32 word)) @ reserved @ payload"

definition sized :: "DSI \<Rightarrow> bool" where
  "sized s \<longleftrightarrow> unat (server_quantum s) \<le> length (commands s) \<and> 20 \<le> length (commands s)"

lemma fits_sized:
  assumes "frame_fits (server_quantum s) cmd doff len" "sized s"
  shows "(if cmd = DSIFUNC_WRITE \<and> doff \<noteq> 0 then unat doff else unat len) \<le> length (commands s)"
  using assms by (auto simp: frame_fits_def sized_def DSI_WROFF_FPWRITE_def DSI_WROFF_FPWRITEEXT_def word_less_nat_alt split: if_splits)

lemma exchange_header:
  "exchange (s\<lparr>header := h, clientID := i, cmdlen := n\<rparr>) a x s' \<Longrightarrow>
     rb_ok s' \<and> pending s = a @ pending s' \<and> net_out s' = net_out s @ x \<and> commands s' = commands s \<and> length (buffer s') = length (buffer s) \<and>
     header s' = h \<and> clientID s' = i \<and> cmdlen s' = n \<and> server_quantum s' = server_quantum s"
  by (auto simp: exchange_def core_def pending_def ahead_def)

definition taken_header :: "bytes \<Rightarrow> dsi_block" where
  "taken_header block =
     (let h = unpack_header block in if dsi_command h = DSIFUNC_WRITE \<and> dsi_data h = 0 then h\<lparr>dsi_data := DSI_WROFF_FPWRITE\<rparr> else h)"

definition taken_len :: "dsi_block \<Rightarrow> nat" where
  "taken_len h = (if dsi_command h = DSIFUNC_WRITE \<and> dsi_data h \<noteq> 0 then unat (dsi_data h) else unat (net32 (dsi_len h)))"

lemma taken_command [simp]: "dsi_command (taken_header block) = block ! 1"
  by (simp add: taken_header_def unpack_header_def Let_def)

lemma receive_eq:
  assumes "\<not> disconnected s" "dsi_buffered_stream_read env s 16 = Some (n, block, t)" "h = taken_header block"
    and "u = t\<lparr>header := h, clientID := net16 (dsi_requestID h)\<rparr>"
  shows "dsi_stream_receive env s =
    (if n \<noteq> 16 then Some (0, t) else if block ! 1 = 0 then Some (0, t\<lparr>header := (header t)\<lparr>dsi_flags := block ! 0, dsi_command := 0\<rparr>\<rparr>)
     else if \<not> frame_fits (server_quantum u) (block ! 1) (dsi_data h) (net32 (dsi_len h)) then Some (0, u)
     else Option.bind (dsi_stream_read env (u\<lparr>cmdlen := taken_len h\<rparr>) (taken_len h)) (\<lambda>(m, got, v).
       Some (if m \<noteq> cmdlen v then 0 else sint (block ! 1), put_commands v got)))"
  using assms by (simp add: dsi_stream_receive_def taken_header_def taken_len_def unpack_header_def Let_def)

lemma put_commands_length: "length bs \<le> length (commands s) \<Longrightarrow> length (commands (put_commands s bs)) = length (commands s)"
  by (simp add: put_commands_def)

lemma request_header:
  assumes "length reserved = 4" "req = request_bytes fl cmd rid doff reserved payload"
  shows "unpack_header (take 16 (req @ rest)) = \<lparr>dsi_flags = fl, dsi_command = cmd, dsi_requestID = le_word (rev (le_bytes 2 rid)),
      dsi_data = doff, dsi_len = le_word (rev (le_bytes 4 (of_nat (length payload) :: 32 word))), dsi_reserved = le_word reserved\<rparr>"
    "take 16 (req @ rest) ! 1 = cmd" "drop 16 (req @ rest) = payload @ rest" "16 \<le> length (req @ rest)"
  using assms by (simp_all add: request_bytes_def unpack_header_def)

lemma receive_request:
  assumes env: "steady_in env" and s: "rb_ok s" "\<not> disconnected s" "sized s"
    and p: "pending s = request_bytes fl cmd rid doff reserved payload @ rest" "length reserved = 4" "cmd \<noteq> 0" "length payload < 2 ^ 32"
    and off: "off = (if cmd = DSIFUNC_WRITE \<and> doff = 0 then DSI_WROFF_FPWRITE else doff)"
    and fits: "frame_fits (server_quantum s) cmd off (of_nat (length payload))"
    and n: "n = (if cmd = DSIFUNC_WRITE then unat off else length payload)"
  shows "\<exists>s'. dsi_stream_receive env s = Some (sint cmd, s') \<and> cmdlen s' = n \<and> take n (commands s') = take n payload \<and>
    pending s' = drop n payload @ rest \<and> n \<le> length payload \<and> clientID s' = rid \<and> dsi_command (header s') = cmd \<and> dsi_data (header s') = off \<and>
    net32 (dsi_len (header s')) = of_nat (length payload) \<and> rb_ok s' \<and> flags s' = flags s \<and> net_out s' = net_out s"
proof -
  let ?req = "request_bytes fl cmd rid doff reserved payload" and ?len = "of_nat (length payload) :: 32 word"
  define block where "block = take 16 (?req @ rest)"
  note q = request_header[OF p(2) refl, of fl cmd rid doff payload rest, folded block_def]
  obtain t where t: "dsi_buffered_stream_read env s 16 = Some (16, block, t)" "exchange s block [] t" "flags t = flags s"
    using buffered_read_ok[OF env s(1,2), of 16] q(4) unfolding p(1) block_def by auto
  have x: "rb_ok t" "pending s = block @ pending t" "net_out t = net_out s" "commands t = commands s" "server_quantum t = server_quantum s"
    using t(2) by (auto simp: exchange_def core_def)
  have pt: "pending t = payload @ rest" using x(2) q(3) unfolding p(1) block_def by (metis append_take_drop_id same_append_eq)
  define h where "h = taken_header block"
  define u where "u = t\<lparr>header := h, clientID := net16 (dsi_requestID h)\<rparr>"
  have lu: "unat ?len = length payload" using p(4) by (simp add: unat_of_nat take_bit_nat_eq_self)
  have h: "dsi_command h = cmd" "dsi_data h = off" "net32 (dsi_len h) = ?len" "net16 (dsi_requestID h) = rid"
    by (auto simp: h_def taken_header_def q(1) off Let_def)
  have tl: "taken_len h = n" using fits lu unfolding taken_len_def h n
    by (auto simp: frame_fits_def DSI_WROFF_FPWRITE_def DSI_WROFF_FPWRITEEXT_def split: if_splits)
  have nl: "n \<le> length payload" using fits lu unfolding n frame_fits_def by (auto simp: word_less_nat_alt split: if_splits)
  let ?u = "u\<lparr>cmdlen := n\<rparr>"
  have "n \<le> length (pending ?u)" using nl pt by (simp add: u_def)
  then obtain v where v: "dsi_stream_read env ?u n = Some (n, take n (pending ?u), v)" "exchange ?u (take n (pending ?u)) [] v" "flags v = flags ?u"
    using stream_read_ok[OF env, of ?u n] x(1) t(3) s(2) by (auto simp: u_def)
  note w = exchange_header[OF v(2)[unfolded u_def]]
  have g: "take n (pending ?u) = take n payload" using nl pt by (simp add: u_def)
  have r: "dsi_stream_receive env s = Some (sint cmd, put_commands v (take n payload))"
  proof -
    have "cmdlen v = n" "server_quantum u = server_quantum s" using w x(5) by (simp_all add: u_def)
    then show ?thesis unfolding receive_eq[OF s(2) t(1) h_def u_def] q(2) h(2,3) tl v(1)[unfolded g] using p(3) fits by simp
  qed
  have "take n payload @ pending v = payload @ rest" using w pt nl by simp
  also have "payload @ rest = take n payload @ drop n payload @ rest" by simp
  finally have "pending v = drop n payload @ rest" by simp
  moreover have "header v = h" "clientID v = rid" "cmdlen v = n" "rb_ok v" "net_out v = net_out s" "flags v = flags s"
    using w h(4) x(3) t(3) v(3) by (simp_all add: u_def)
  ultimately show ?thesis using r h(1-3) nl by (intro exI[of _ "put_commands v (take n payload)"]) (simp add: put_commands_def)
qed

subsection \<open>The data of a write\<close>

lemma datasize_minus: "n \<le> unat w \<Longrightarrow> unat (w - of_nat n :: 32 word) = unat w - n"
proof -
  assume n: "n \<le> unat w"
  then have "unat (of_nat n :: 32 word) = n" using unsigned_less[of w, where 'a = nat] by (simp add: unat_of_nat take_bit_nat_eq_self)
  then show ?thesis using n by (subst unat_sub) (auto simp: word_le_nat_alt)
qed

lemma writeinit_pending:
  assumes "dsi_writeinit s = (bs, t)" "rb_ok s" "dsi_data (header s) \<le> net32 (dsi_len (header s))"
    and "unat (net32 (dsi_len (header s)) - dsi_data (header s)) \<le> length (pending s)"
  shows "rb_ok t \<and> pending s = bs @ pending t \<and> flags t = flags s \<and> length bs + unat (datasize t) = unat (net32 (dsi_len (header s)) - dsi_data (header s))"
proof -
  let ?w = "net32 (dsi_len (header s)) - dsi_data (header s)"
  let ?n = "min (eof s - start s) (unat ?w)"
  have ok: "start s \<le> eof s" "eof s \<le> length (buffer s)" "\<not> buffered s \<Longrightarrow> buffer s = []" using assms(2) by (simp_all add: rb_ok_def)
  have le: "\<not> net32 (dsi_len (header s)) < dsi_data (header s)" using assms(3) by simp
  show ?thesis
  proof (cases "eof s > start s")
    case True
    define t0 where "t0 = s\<lparr>start := start s + ?n, datasize := ?w - of_nat ?n\<rparr>"
    have bs: "bs = take ?n (drop (start s) (buffer s))" and t: "t = (if start s + ?n \<ge> eof s then t0\<lparr>start := 0, eof := 0\<rparr> else t0)"
      using assms(1) True le by (auto simp: dsi_writeinit_def Let_def t0_def)
    have "take (?n + (eof s - (start s + ?n))) (drop (start s) (buffer s)) = bs @ take (eof s - (start s + ?n)) (drop (start s + ?n) (buffer s))"
      unfolding take_add bs by (simp add: add.commute)
    moreover have "?n + (eof s - (start s + ?n)) = eof s - start s" by simp
    ultimately have "ahead s = bs @ ahead t0" unfolding ahead_def t0_def by simp
    then have "pending s = bs @ pending t0" by (simp add: pending_def t0_def)
    moreover have "pending t = pending t0" by (simp add: t pending_def ahead_def t0_def)
    moreover have "rb_ok t" using ok by (auto simp: t t0_def rb_ok_def)
    moreover have "length bs = ?n" using ok by (simp add: bs)
    moreover have "unat (?w - of_nat ?n) = unat ?w - ?n" by (rule datasize_minus) simp
    ultimately show ?thesis by (auto simp: t t0_def)
  next
    case False
    then show ?thesis using assms(1,2) le by (auto simp: dsi_writeinit_def Let_def)
  qed
qed

lemma writeflush_ok:
  assumes "steady_in env"
  shows "rb_ok s \<Longrightarrow> \<not> disconnected s \<Longrightarrow> unat (datasize s) \<le> length (pending s) \<Longrightarrow>
    \<exists>u. dsi_writeflush env s = Some u \<and> rb_ok u \<and> pending u = drop (unat (datasize s)) (pending s)"
proof (induction "unat (datasize s)" arbitrary: s rule: less_induct)
  case less
  show ?case
  proof (cases "datasize s > 0")
    case True
    let ?n = "min 65536 (unat (datasize s))"
    have n: "0 < ?n" "?n \<le> unat (datasize s)" using True by (simp_all add: word_less_nat_alt)
    obtain t where t: "dsi_stream_read env s ?n = Some (?n, take ?n (pending s), t)" "exchange s (take ?n (pending s)) [] t" "flags t = flags s"
      using stream_read_ok[OF assms less.prems(1,2), of ?n] n(2) less.prems(3) by auto
    let ?t = "t\<lparr>datasize := datasize t - of_nat ?n\<rparr>"
    have x: "rb_ok t" "pending s = take ?n (pending s) @ pending t" "datasize t = datasize s" using t(2) by (auto simp: exchange_def core_def)
    have pt: "pending t = drop ?n (pending s)" using x(2) by (metis append_take_drop_id same_append_eq)
    have dt: "unat (datasize ?t) = unat (datasize s) - ?n" using datasize_minus[OF n(2)] x(3) by simp
    have "\<exists>u. dsi_writeflush env ?t = Some u \<and> rb_ok u \<and> pending u = drop (unat (datasize ?t)) (pending ?t)"
    proof (rule less.hyps)
      show "unat (datasize ?t) < unat (datasize s)" using dt n by linarith
      show "rb_ok ?t" "\<not> disconnected ?t" using x(1) t(3) less.prems(2) by simp_all
      show "unat (datasize ?t) \<le> length (pending ?t)" using dt pt less.prems(3) by simp
    qed
    then obtain u where u: "dsi_writeflush env ?t = Some u" "rb_ok u" "pending u = drop (unat (datasize ?t)) (pending ?t)" by blast
    have "pending u = drop (unat (datasize s)) (pending s)" unfolding u(3) dt using pt n(2) by simp
    moreover have "dsi_writeflush env s = dsi_writeflush env ?t" using t(1) n(1) True by (subst dsi_writeflush.simps) simp
    ultimately show ?thesis using u(1,2) by simp
  next
    case False
    then have "datasize s = 0" by (simp add: word_less_nat_alt unat_eq_0)
    then show ?thesis using less.prems(1) by (subst dsi_writeflush.simps) simp
  qed
qed

lemma write_rest_ok:
  assumes "steady_in env" "rb_ok s" "\<not> disconnected s" "unat (datasize s) \<le> length (pending s)"
  shows "\<exists>u. dsi_write env s (unat (datasize s)) = Some (unat (datasize s), take (unat (datasize s)) (pending s), u) \<and>
    pending u = drop (unat (datasize s)) (pending s) \<and> datasize u = 0"
proof (cases "unat (datasize s) = 0")
  case True
  then show ?thesis by (simp add: dsi_write_def unat_eq_0)
next
  case False
  let ?n = "unat (datasize s)"
  obtain t where t: "dsi_stream_read env s ?n = Some (?n, take ?n (pending s), t)" "exchange s (take ?n (pending s)) [] t"
    using stream_read_ok[OF assms] by blast
  have x: "pending s = take ?n (pending s) @ pending t" "datasize t = datasize s" using t(2) by (auto simp: exchange_def core_def)
  have "pending t = drop ?n (pending s)" using x(1) by (metis append_take_drop_id same_append_eq)
  then show ?thesis using t(1) x(2) False by (simp add: dsi_write_def Let_def)
qed

text \<open>
  C28: whatever bytes the client sends and however the system calls split, delay or refuse them, a call
  of \<open>dsi_stream_receive\<close> writes neither past the command buffer nor past the read-ahead buffer, takes
  its bytes off the front of the stream in order, sends nothing, and a request that it reports is one
  whose header fits the session's quantum.
\<close>

theorem receive_bounded:
  assumes "dsi_stream_receive env s = Some (r, s')" "rb_ok s" "sized s"
  shows "rb_ok s' \<and> length (commands s') = length (commands s) \<and> length (buffer s') = length (buffer s) \<and> net_out s' = net_out s \<and>
    (\<exists>taken. pending s = taken @ pending s') \<and>
    (r \<noteq> 0 \<longrightarrow> frame_fits (server_quantum s') (dsi_command (header s')) (dsi_data (header s')) (net32 (dsi_len (header s'))) \<and>
      cmdlen s' \<le> length (commands s'))"
proof (cases "disconnected s")
  case True
  then show ?thesis using assms by (auto simp: dsi_stream_receive_def)
next
  case False
  obtain n block t where b: "dsi_buffered_stream_read env s 16 = Some (n, block, t)"
    using assms(1) False by (auto simp: dsi_stream_receive_def split: bind_splits)
  have x: "exchange s block [] t" using buffered_read_exchange[OF b assms(2)] by blast
  then have t: "rb_ok t" "pending s = block @ pending t" "net_out t = net_out s" "commands t = commands s" "length (buffer t) = length (buffer s)"
    "server_quantum t = server_quantum s" by (auto simp: exchange_def core_def)
  define h where "h = taken_header block"
  define u where "u = t\<lparr>header := h, clientID := net16 (dsi_requestID h)\<rparr>"
  note eq = assms(1)[unfolded receive_eq[OF False b h_def u_def]]
  show ?thesis
  proof (cases "n = 16 \<and> block ! 1 \<noteq> 0 \<and> frame_fits (server_quantum u) (block ! 1) (dsi_data h) (net32 (dsi_len h))")
    case True
    then obtain m g v where v: "dsi_stream_read env (u\<lparr>cmdlen := taken_len h\<rparr>) (taken_len h) = Some (m, g, v)"
      "s' = put_commands v g" using eq by (auto split: bind_splits)
    have y: "exchange (u\<lparr>cmdlen := taken_len h\<rparr>) g [] v" "length g \<le> taken_len h"
      using stream_read_exchange[OF v(1)] t(1) by (auto simp: u_def)
    note w = exchange_header[OF y(1)[unfolded u_def]]
    have l: "taken_len h \<le> length (commands s)"
      using fits_sized[of s "block ! 1"] True assms(3) t(6) by (simp add: taken_len_def u_def h_def)
    then have "length (commands s') = length (commands s)" using put_commands_length[of g v] y(2) w t(4) v(2) by simp
    moreover have "rb_ok s'" "pending v = pending s'" using w by (simp_all add: v(2) put_commands_def)
    ultimately show ?thesis using w t True l by (auto simp: v(2) put_commands_def u_def h_def)
  next
    case False
    then have "r = 0 \<and> (s' = t \<or> s' = u \<or> s' = t\<lparr>header := (header t)\<lparr>dsi_flags := block ! 0, dsi_command := 0\<rparr>\<rparr>)" using eq by (auto split: if_splits)
    then show ?thesis using t by (auto simp: u_def)
  qed
qed

text \<open>
  C29: when the client goes on sending, a well-formed request at the front of the stream is received as
  the client framed it: the call returns its command, the command buffer holds its payload (of a write
  the request block in front of the data), the request ID is the client's, and the stream is left right
  behind what was taken, so that the next request follows.
\<close>

theorem request_received:
  assumes "steady_in env" "rb_ok s" "\<not> disconnected s" "sized s"
    and "pending s = request_bytes fl cmd rid doff reserved payload @ rest" "length reserved = 4" "cmd \<noteq> 0" "length payload < 2 ^ 32"
    and "off = (if cmd = DSIFUNC_WRITE \<and> doff = 0 then DSI_WROFF_FPWRITE else doff)"
    and "frame_fits (server_quantum s) cmd off (of_nat (length payload))" "n = (if cmd = DSIFUNC_WRITE then unat off else length payload)"
  shows "\<exists>s'. dsi_stream_receive env s = Some (sint cmd, s') \<and> cmdlen s' = n \<and> take n (commands s') = take n payload \<and>
    pending s' = drop n payload @ rest \<and> clientID s' = rid \<and> dsi_command (header s') = cmd \<and> rb_ok s' \<and> net_out s' = net_out s"
  using receive_request[OF assms] by blast

text \<open>
  C30: the data of a write request reaches its reader: what \<open>dsi_writeinit\<close> finds in the read-ahead buffer
  and what \<open>dsi_write\<close> reads then make up, behind the request block, the payload that the client sent, and
  reading or draining it leaves the stream at the next request.
\<close>

theorem write_request_delivered:
  assumes "steady_in env" "rb_ok s" "\<not> disconnected s" "sized s"
    and "pending s = request_bytes fl DSIFUNC_WRITE rid doff reserved payload @ rest" "length reserved = 4" "length payload < 2 ^ 32"
    and "off = (if doff = 0 then DSI_WROFF_FPWRITE else doff)" "frame_fits (server_quantum s) DSIFUNC_WRITE off (of_nat (length payload))"
  shows "\<exists>s1 b0 s2 b1 s3 s4. dsi_stream_receive env s = Some (sint DSIFUNC_WRITE, s1) \<and> dsi_writeinit s1 = (b0, s2) \<and>
    dsi_write env s2 (unat (datasize s2)) = Some (length b1, b1, s3) \<and> take (cmdlen s1) (commands s1) @ b0 @ b1 = payload \<and> pending s3 = rest \<and>
    dsi_writedrain env s1 = Some s4 \<and> pending s4 = rest"
proof -
  have cmd: "DSIFUNC_WRITE \<noteq> 0" by (simp add: DSIFUNC_WRITE_def)
  let ?n = "unat off" and ?len = "of_nat (length payload) :: 32 word"
  obtain s1 where s1: "dsi_stream_receive env s = Some (sint DSIFUNC_WRITE, s1)" "cmdlen s1 = ?n" "take ?n (commands s1) = take ?n payload"
    "pending s1 = drop ?n payload @ rest" "?n \<le> length payload" "dsi_command (header s1) = DSIFUNC_WRITE" "dsi_data (header s1) = off"
    "net32 (dsi_len (header s1)) = ?len" "rb_ok s1" "flags s1 = flags s"
    using receive_request[OF assms(1-6) cmd assms(7), of off ?n] assms(8,9) by auto
  have lu: "unat ?len = length payload" using assms(7) by (simp add: unat_of_nat take_bit_nat_eq_self)
  have le: "off \<le> ?len" using assms(9) by (auto simp: frame_fits_def)
  have w: "unat (?len - off) = length payload - ?n" using le lu by (subst unat_sub) auto
  obtain b0 s2 where i: "dsi_writeinit s1 = (b0, s2)" by fastforce
  have s2: "rb_ok s2" "drop ?n payload @ rest = b0 @ pending s2" "flags s2 = flags s" "length b0 + unat (datasize s2) = length payload - ?n"
    using writeinit_pending[OF i s1(9)] s1(4,7,8,10) le w by auto
  have enough: "unat (datasize s2) \<le> length (pending s2)" using arg_cong[OF s2(2), of length] s2(4) by simp
  have cut: "b0 @ take (unat (datasize s2)) (pending s2) = drop ?n payload" "drop (unat (datasize s2)) (pending s2) = rest"
    using arg_cong[OF s2(2), of "take (length payload - ?n)"] arg_cong[OF s2(2), of "drop (length payload - ?n)"] s2(4)[symmetric] enough by (simp_all add: min_absorb2)
  have d2: "\<not> disconnected s2" using s2(3) assms(3) by simp
  obtain s3 where s3: "dsi_write env s2 (unat (datasize s2)) = Some (unat (datasize s2), take (unat (datasize s2)) (pending s2), s3)"
    "pending s3 = drop (unat (datasize s2)) (pending s2)" using write_rest_ok[OF assms(1) s2(1) d2 enough] by blast
  obtain s4 where s4: "dsi_writeflush env s2 = Some s4" "pending s4 = drop (unat (datasize s2)) (pending s2)"
    using writeflush_ok[OF assms(1) s2(1) d2 enough] by blast
  have "take ?n payload @ b0 @ take (unat (datasize s2)) (pending s2) = payload" using cut(1) by simp
  moreover have "dsi_writedrain env s1 = Some s4" using s1(6) i s4(1) by (simp add: dsi_writedrain_def)
  ultimately show ?thesis using s1(1-3) i s3 s4(2) cut(2) enough by (intro exI[of _ s1] exI[of _ b0] exI[of _ s2]
      exI[of _ "take (unat (datasize s2)) (pending s2)"] exI[of _ s3] exI[of _ s4]) simp
qed

subsection \<open>Replies\<close>

definition reply_bytes :: "DSI \<Rightarrow> 32 word \<Rightarrow> bytes" where
  "reply_bytes s err = [DSIFL_REPLY, dsi_command (header s)] @ le_bytes 2 (dsi_requestID (header s)) @ rev (le_bytes 4 err) @
     rev (le_bytes 4 (of_nat (length (data s)) :: 32 word)) @ le_bytes 4 (dsi_reserved (header s)) @ data s"

lemma length_pack [simp]: "length (dsi_header_pack_reply s) = 16"
  by (simp add: dsi_header_pack_reply_def)

text \<open>What is on the wire after a part of \<open>bs\<close> went out, with the input and the flag of writing as they were.\<close>

definition part_out :: "DSI \<Rightarrow> bytes \<Rightarrow> DSI \<Rightarrow> bool \<Rightarrow> bool" where
  "part_out s bs s' all \<longleftrightarrow> (\<exists>k \<le> length bs. net_out s' = net_out s @ take k bs \<and> (all \<longrightarrow> k = length bs)) \<and>
     pending s' = pending s \<and> rb_ok s' \<and> in_write s' = in_write s"

lemma part_out_sent:
  assumes "sent_part (s\<lparr>in_write := in_write s + 1\<rparr>) bs t all"
  shows "part_out s bs (t\<lparr>in_write := in_write t - 1\<rparr>) all"
  using assms by (auto simp: sent_part_def part_out_def exchange_def core_def)

lemma stream_write_out:
  assumes "dsi_stream_write env s bs nw = Some (r, s')" "rb_ok s" "\<not> disconnected s"
  shows "part_out s bs s' (r \<noteq> -1) \<and> (r = -1 \<or> r = int (length bs))"
proof -
  let ?s = "s\<lparr>in_write := in_write s + 1\<rparr>"
  obtain t where t: "write_loop env nw ?s bs 0 = Some (r, t)" "s' = t\<lparr>in_write := in_write t - 1\<rparr>"
    using assms(1,3) by (auto simp: dsi_stream_write_def)
  show ?thesis using write_loop_sent[OF t(1)] part_out_sent[of s bs t] assms(2) t(2) by simp
qed

lemma stream_send_out:
  assumes "dsi_stream_send env s bs = Some (r, s')" "rb_ok s" "\<not> disconnected s"
  shows "part_out s (dsi_header_pack_reply s @ bs) s' (r = 1) \<and> (r = 0 \<or> r = 1)"
proof (cases "bs = []")
  case True
  then obtain q where q: "dsi_stream_write env s (dsi_header_pack_reply s) False = Some (q, s')" "r = (if q = 16 then 1 else 0)"
    using assms(1,3) by (auto simp: dsi_stream_send_def)
  show ?thesis using stream_write_out[OF q(1) assms(2,3)] q(2) True by auto
next
  case False
  let ?h = "dsi_header_pack_reply s"
  let ?s = "s\<lparr>in_write := in_write s + 1, write_count := write_count s + int (16 + length bs)\<rparr>"
  obtain t where t: "send_loop env ?s (length bs) (16 + length bs) (Two ?h bs) = Some (r, t)" "s' = t\<lparr>in_write := in_write t - 1\<rparr>"
    using assms(1,3) False by (auto simp: dsi_stream_send_def Let_def)
  have "sent_part ?s (?h @ bs) t (r = 1) \<and> (r = 0 \<or> r = 1)" using send_loop_sent[OF t(1)] assms(2) by (simp add: iov_ok_def)
  then show ?thesis using t(2) by (auto simp: sent_part_def part_out_def exchange_def core_def)
qed

lemma stream_send_ok:
  assumes "steady_out env" "selectable s" "\<not> disconnected s"
  shows "\<exists>s'. dsi_stream_send env s bs = Some (1, s')"
proof (cases "bs = []")
  case True
  let ?s = "s\<lparr>in_write := in_write s + 1\<rparr>"
  obtain t where "write_loop env False ?s (dsi_header_pack_reply s) 0 = Some (16, t)"
    using write_loop_ok[OF assms(1), of ?s 0 "dsi_header_pack_reply s"] assms(2) by (auto simp: selectable_def)
  then show ?thesis using True assms(3) by (simp add: dsi_stream_send_def dsi_stream_write_def)
next
  case False
  let ?s = "s\<lparr>in_write := in_write s + 1, write_count := write_count s + int (16 + length bs)\<rparr>"
  obtain t where "send_loop env ?s (length bs) (16 + length bs) (Two (dsi_header_pack_reply s) bs) = Some (1, t)"
    using send_loop_ok[OF assms(1), of ?s "length bs" "16 + length bs" "Two (dsi_header_pack_reply s) bs"] assms(2)
    by (auto simp: selectable_def iov_ok_def)
  then show ?thesis using False assms(3) by (simp add: dsi_stream_send_def Let_def)
qed

text \<open>
  C31: a reply goes out whole or is reported: whatever the socket does, what \<open>dsi_cmdreply\<close> adds to the stream
  to the client is a front part of the reply of header and data, all of it when the call returns 1, and
  nothing that the client sent meanwhile is lost or reordered; the count of writes under way is as before.
  When the client goes on receiving, the call returns 1, although system calls are interrupted, would
  block, or take only a part of the bytes.
\<close>

theorem reply_whole:
  assumes "rb_ok s" "\<not> disconnected s"
  shows "(\<forall>r s'. dsi_cmdreply env s err = Some (r, s') \<longrightarrow> (r = 0 \<or> r = 1) \<and>
      (\<exists>k. net_out s' = net_out s @ take k (reply_bytes s err) \<and> (r = 1 \<longrightarrow> k = length (reply_bytes s err))) \<and>
      pending s' = pending s \<and> rb_ok s' \<and> in_write s' = in_write s) \<and>
    (steady_out env \<and> selectable s \<longrightarrow> (\<exists>s'. dsi_cmdreply env s err = Some (1, s')))"
proof -
  let ?h = "(header s)\<lparr>dsi_flags := DSIFL_REPLY, dsi_len := net32 (of_nat (length (data s))), dsi_data := net32 err\<rparr>"
  let ?s = "s\<lparr>header := ?h\<rparr>"
  have "le_bytes 4 (net32 w) = rev (le_bytes 4 w)" for w by (rule le_bytes_bswap) simp
  then have b: "dsi_header_pack_reply ?s @ data s = reply_bytes s err" by (simp add: reply_bytes_def dsi_header_pack_reply_def)
  have "part_out ?s (reply_bytes s err) s' (r = 1) \<and> (r = 0 \<or> r = 1)" if "dsi_cmdreply env s err = Some (r, s')" for r s'
    using stream_send_out[of env ?s "data s" r s'] assms that unfolding b dsi_cmdreply_def by simp
  then have "(r = 0 \<or> r = 1) \<and> (\<exists>k. net_out s' = net_out s @ take k (reply_bytes s err) \<and> (r = 1 \<longrightarrow> k = length (reply_bytes s err))) \<and>
      pending s' = pending s \<and> rb_ok s' \<and> in_write s' = in_write s" if "dsi_cmdreply env s err = Some (r, s')" for r s'
    using that by (auto simp: part_out_def)
  moreover have "\<exists>s'. dsi_cmdreply env s err = Some (1, s')" if "steady_out env" "selectable s"
    unfolding dsi_cmdreply_def by (rule stream_send_ok[OF that(1)]) (use that(2) assms(2) in \<open>simp_all add: selectable_def\<close>)
  ultimately show ?thesis by blast
qed

subsection \<open>The quantum\<close>

lemma page_up:
  assumes "c \<le> DSI_SERVQUANT_MAX"
  shows "4096 dvd unat ((c + 4095) AND NOT 4095)" "unat c \<le> unat ((c + 4095) AND NOT 4095)" "unat ((c + 4095) AND NOT 4095) < unat c + 4096"
    "(c + 4095) AND NOT 4095 \<le> DSI_SERVQUANT_MAX"
proof -
  have m: "NOT 4095 = push_bit 12 (mask (LENGTH(32) - 12) :: 32 word)" by (simp add: mask_eq_exp_minus_1 push_bit_eq_mult)
  have c: "unat c \<le> 268435456" using assms by (simp add: DSI_SERVQUANT_MAX_def word_le_nat_alt)
  have "unat (c + 4095) = unat c + 4095" using c by (simp add: unat_word_ariths)
  then have e: "unat ((c + 4095) AND NOT 4095) = (unat c + 4095) div 4096 * 4096" using unat_high_mask[OF _ m, of "c + 4095"] by simp
  show "4096 dvd unat ((c + 4095) AND NOT 4095)" "unat c \<le> unat ((c + 4095) AND NOT 4095)" "unat ((c + 4095) AND NOT 4095) < unat c + 4096"
    unfolding e by simp_all
  have "(unat c + 4095) div 4096 \<le> (268435456 + 4095) div 4096" by (rule div_le_mono) (use c in simp)
  then have "(unat c + 4095) div 4096 * 4096 \<le> 268435456" by simp
  then show "(c + 4095) AND NOT 4095 \<le> DSI_SERVQUANT_MAX" using e by (simp add: word_le_nat_alt DSI_SERVQUANT_MAX_def)
qed

lemma align_loop_bounds:
  assumes "4096 dvd unat d" "4096 dvd unat best" "lo \<le> unat d" "lo \<le> unat best" "unat best \<le> hi" "unat limit \<le> hi" "hi \<le> 268435456"
  shows "4096 dvd unat (align_loop mss limit d best best_fill) \<and> lo \<le> unat (align_loop mss limit d best best_fill) \<and>
    unat (align_loop mss limit d best best_fill) \<le> hi"
  using assms
proof (induction mss limit d best best_fill rule: align_loop.induct)
  case (1 mss limit d best best_fill)
  show ?case
  proof (cases "d \<le> limit \<and> limit \<le> DSI_SERVQUANT_MAX")
    case True
    then have d: "unat d \<le> hi" "unat (d + 4096) = unat d + 4096" using "1.prems" by (auto simp: word_le_nat_alt unat_word_ariths)
    let ?r = "(d + DSI_FRAME_OVERHEAD_EXT) mod mss"
    let ?f = "if ?r \<noteq> 0 then ?r else mss"
    have eq: "align_loop mss limit d best best_fill = (if ?f \<ge> mss - mss div 8 then d
        else if ?f > best_fill then align_loop mss limit (d + 4096) d ?f else align_loop mss limit (d + 4096) best best_fill)"
      using True by (subst align_loop.simps) (simp only: Let_def if_True simp_thms)
    have d4: "4096 dvd unat (d + 4096)" "lo \<le> unat (d + 4096)" using "1.prems"(1,3) d(2) by simp_all
    consider "?f \<ge> mss - mss div 8" | "\<not> ?f \<ge> mss - mss div 8" "?f > best_fill" | "\<not> ?f \<ge> mss - mss div 8" "\<not> ?f > best_fill" by blast
    then show ?thesis
    proof cases
      case 1
      show ?thesis unfolding eq if_P[OF 1] using "1.prems"(1,3) d(1) by blast
    next
      case 2
      show ?thesis unfolding eq if_not_P[OF 2(1)] if_P[OF 2(2)]
        by (rule "1.IH"(1)[OF True refl refl 2 d4(1) "1.prems"(1) d4(2) "1.prems"(3) d(1) "1.prems"(6,7)])
    next
      case 3
      show ?thesis unfolding eq if_not_P[OF 3(1)] if_not_P[OF 3(2)]
        by (rule "1.IH"(2)[OF True refl refl 3 d4(1) "1.prems"(2) d4(2) "1.prems"(4-7)])
    qed
  next
    case False
    then show ?thesis using "1.prems" by (subst (1 2 3) align_loop.simps) auto
  qed
qed

text \<open>
  The quantum of a session is a multiple of a page, at least the configured one (which is cut at the
  greatest quantum), at most the greatest quantum, and at most 256 KiB above the configured one, for
  every segment size of the connection.
\<close>

theorem quantum_aligned:
  "let c = min (unat configured) (unat DSI_SERVQUANT_MAX); r = unat (dsi_align_quantum configured mss) in
   4096 dvd r \<and> c \<le> r \<and> r \<le> unat DSI_SERVQUANT_MAX \<and> r \<le> c + unat DSI_QUANTUM_GROWTH_MAX"
proof -
  define c where "c = (if configured > DSI_SERVQUANT_MAX then DSI_SERVQUANT_MAX else configured)"
  have cm: "c \<le> DSI_SERVQUANT_MAX" "unat c = min (unat configured) (unat DSI_SERVQUANT_MAX)"
    by (auto simp: c_def word_less_nat_alt not_less word_le_nat_alt)
  have mx: "unat DSI_SERVQUANT_MAX = 268435456" "unat DSI_QUANTUM_GROWTH_MAX = 262144" by (simp_all add: DSI_SERVQUANT_MAX_def DSI_QUANTUM_GROWTH_MAX_def)
  let ?d = "(c + 4095) AND NOT 4095"
  let ?lim = "if c < DSI_SERVQUANT_MAX - DSI_QUANTUM_GROWTH_MAX then c + DSI_QUANTUM_GROWTH_MAX else DSI_SERVQUANT_MAX"
  let ?hi = "min 268435456 (unat c + 262144)"
  note d = page_up[OF cm(1)]
  have dh: "unat ?d \<le> ?hi" using d mx by (simp add: word_le_nat_alt)
  have lim: "unat ?lim \<le> ?hi"
  proof (cases "c < DSI_SERVQUANT_MAX - DSI_QUANTUM_GROWTH_MAX")
    case True
    then have "unat c < 268173312" by (simp add: DSI_SERVQUANT_MAX_def DSI_QUANTUM_GROWTH_MAX_def word_less_nat_alt)
    then show ?thesis using True by (simp add: DSI_QUANTUM_GROWTH_MAX_def unat_word_ariths)
  next
    case False
    then have "268173312 \<le> unat c" by (simp add: DSI_SERVQUANT_MAX_def DSI_QUANTUM_GROWTH_MAX_def word_less_nat_alt)
    then show ?thesis using False mx by simp
  qed
  have "4096 dvd unat (dsi_align_quantum configured mss) \<and> unat c \<le> unat (dsi_align_quantum configured mss) \<and> unat (dsi_align_quantum configured mss) \<le> ?hi"
  proof (cases "mss = 0 \<or> unat mss * 4 \<ge> unat ?d")
    case True
    then have "dsi_align_quantum configured mss = ?d" by (simp add: dsi_align_quantum_def c_def[symmetric] Let_def)
    then show ?thesis using d dh by simp
  next
    case False
    then have "dsi_align_quantum configured mss = align_loop mss ?lim ?d ?d 0" by (simp add: dsi_align_quantum_def c_def[symmetric] Let_def)
    then show ?thesis using align_loop_bounds[OF d(1) d(1) d(2) d(2) dh lim, of mss 0] by simp
  qed
  then show ?thesis using cm(2) mx by (simp add: Let_def)
qed

subsection \<open>A session\<close>

text \<open>A client that answers every other call, two or three bytes at a time.\<close>

definition slow_client :: dsi_env where
  "slow_client = \<lparr>env_recv = (\<lambda>c. if even c then Refused EAGAIN else Passed 3), env_send = (\<lambda>c. if even c then Refused EAGAIN else Passed 2),
     env_select = (\<lambda>c. if even c then SelectIntr else Selected True False), env_poll = (\<lambda>c. if even c then PollSignal else PollInput),
     env_stop = (\<lambda>c. False)\<rparr>"

definition sample_session :: "bytes \<Rightarrow> DSI" where
  "sample_session sent =
     \<lparr>header = \<lparr>dsi_flags = 0, dsi_command = 2, dsi_requestID = 7, dsi_data = 0, dsi_len = 0, dsi_reserved = 0\<rparr>, in_write = 0,
      attn_quantum = 2, datasize = 0, server_quantum = 32, serverID = 0, clientID = 0, commands = replicate 32 0, data = [4, 5],
      cmdlen = 0, read_count = 0, write_count = 0, flags = 0, socket = 3, uid = Some 500, buffered = True, buffer = replicate 24 0,
      start = 0, eof = 0, net_in = sent, net_out = [], recvs = 0, sends = 0, selects = 0, polls = 0\<rparr>"

lemma odd_after: "\<exists>d. odd (c + d)" for c :: nat
  by (cases "odd c") (auto intro: exI[of _ 0] exI[of _ 1])

lemma slow_client_steady: "steady_in slow_client" "steady_out slow_client"
  using odd_after unfolding steady_in_def steady_out_def slow_client_def by auto

lemma sample_ok: "rb_ok (sample_session x)" "\<not> disconnected (sample_session x)" "sized (sample_session x)" "selectable (sample_session x)"
  "pending (sample_session x) = x"
  by (simp_all add: sample_session_def rb_ok_def sized_def selectable_def pending_def ahead_def)

lemma sample_fits: "frame_fits (server_quantum (sample_session x)) DSIFUNC_CMD 0 (of_nat (length [9, 8, 7 :: byte]))"
  "frame_fits (server_quantum (sample_session x)) DSIFUNC_WRITE 12 (of_nat (length (replicate 12 5 @ [1, 2, 3 :: byte])))"
  by (simp_all add: frame_fits_def sample_session_def dsi_func_defs DSI_WROFF_FPWRITE_def)

lemma sample_request: "length [0, 0, 0, 0 :: byte] = 4" "DSIFUNC_CMD \<noteq> 0" "length [9, 8, 7 :: byte] < 2 ^ 32"
  "(0 :: 32 word) = (if DSIFUNC_CMD = DSIFUNC_WRITE \<and> (0 :: 32 word) = 0 then DSI_WROFF_FPWRITE else 0)"
  "3 = (if DSIFUNC_CMD = DSIFUNC_WRITE then unat (0 :: 32 word) else length [9, 8, 7 :: byte])"
  by (simp_all add: dsi_func_defs)

lemmas sample_received = slow_client_steady(1) sample_ok(1-3) sample_ok(5) sample_request(1-4) sample_fits(1) sample_request(5)

theorem request_received_witness:
  "\<exists>s'. dsi_stream_receive slow_client (sample_session (request_bytes 0 DSIFUNC_CMD 7 0 [0, 0, 0, 0] [9, 8, 7] @ [1])) = Some (2, s') \<and>
     take 3 (commands s') = [9, 8, 7] \<and> pending s' = [1] \<and> clientID s' = 7"
  using request_received[OF sample_received, of "0" "7" "[1]"] by (auto simp: dsi_func_defs)

theorem receive_bounded_witness:
  "\<exists>r s'. dsi_stream_receive slow_client (sample_session (request_bytes 0 DSIFUNC_CMD 7 0 [0, 0, 0, 0] [9, 8, 7] @ [1])) = Some (r, s') \<and>
     rb_ok s' \<and> length (commands s') = 32 \<and> length (buffer s') = 24"
proof -
  let ?s = "sample_session (request_bytes 0 DSIFUNC_CMD 7 0 [0, 0, 0, 0] [9, 8, 7] @ [1])"
  obtain r s' where r: "dsi_stream_receive slow_client ?s = Some (r, s')"
    using receive_request[OF sample_received, of "0" "7" "[1]"] by blast
  have "length (commands ?s) = 32" "length (buffer ?s) = 24" by (simp_all add: sample_session_def)
  then show ?thesis using receive_bounded[OF r sample_ok(1,3)] r by auto
qed

theorem write_request_delivered_witness:
  "\<exists>s1 b0 s2 b1 s3. dsi_stream_receive slow_client (sample_session (request_bytes 0 DSIFUNC_WRITE 7 12 [0, 0, 0, 0] (replicate 12 5 @ [1, 2, 3]) @ [1])) =
       Some (sint DSIFUNC_WRITE, s1) \<and> dsi_writeinit s1 = (b0, s2) \<and> dsi_write slow_client s2 (unat (datasize s2)) = Some (length b1, b1, s3) \<and>
     take (cmdlen s1) (commands s1) @ b0 @ b1 = replicate 12 5 @ [1, 2, 3] \<and> pending s3 = [1]"
proof -
  let ?s = "sample_session (request_bytes 0 DSIFUNC_WRITE 7 12 [0, 0, 0, 0] (replicate 12 5 @ [1, 2, 3]) @ [1])"
  have l: "length [0, 0, 0, 0 :: byte] = 4" "length (replicate 12 5 @ [1, 2, 3 :: byte]) < 2 ^ 32" by simp_all
  have o: "12 = (if (12 :: 32 word) = 0 then DSI_WROFF_FPWRITE else 12)" by simp
  show ?thesis using write_request_delivered[OF slow_client_steady(1) sample_ok(1-3) sample_ok(5) l o sample_fits(2)] by blast
qed

theorem reply_whole_witness:
  "\<exists>s'. dsi_cmdreply slow_client (sample_session [1]) 0 = Some (1, s') \<and> net_out s' = reply_bytes (sample_session [1]) 0 \<and> pending s' = [1]"
proof -
  obtain s' where "dsi_cmdreply slow_client (sample_session [1]) 0 = Some (1, s')"
    using reply_whole[OF sample_ok(1,2), of slow_client "[1]" 0] slow_client_steady(2) sample_ok(4) by blast
  moreover from this have "net_out s' = net_out (sample_session [1]) @ reply_bytes (sample_session [1]) 0 \<and> pending s' = pending (sample_session [1])"
    using reply_whole[OF sample_ok(1,2), of slow_client "[1]" 0] by fastforce
  ultimately show ?thesis using sample_ok(5) by (auto simp: sample_session_def)
qed

end
