(* ===== verification/Mac_Charsets.thy ===== *)
theory Mac_Charsets
  imports Utf8
begin

text \<open>
  The single-byte Mac charsets of \<open>libatalk/unicode/charsets\<close>: their tables, entry by entry, and the
  functions that map one character to a byte and one byte to a character. A result of 0 in the
  source is \<open>None\<close>.
\<close>

subsection \<open>Mac Roman\<close>

definition mac_roman_page00 :: "byte list" where
  "mac_roman_page00 =
    [0xCA, 0xC1, 0xA2, 0xA3, 0xDB, 0xB4, 0, 0xA4, 0xAC, 0xA9, 0xBB, 0xC7, 0xC2, 0, 0xA8, 0xF8,
     0xA1, 0xB1, 0, 0, 0xAB, 0xB5, 0xA6, 0xE1, 0xFC, 0, 0xBC, 0xC8, 0, 0, 0, 0xC0,
     0xCB, 0xE7, 0xE5, 0xCC, 0x80, 0x81, 0xAE, 0x82, 0xE9, 0x83, 0xE6, 0xE8, 0xED, 0xEA, 0xEB, 0xEC,
     0, 0x84, 0xF1, 0xEE, 0xEF, 0xCD, 0x85, 0, 0xAF, 0xF4, 0xF2, 0xF3, 0x86, 0, 0, 0xA7,
     0x88, 0x87, 0x89, 0x8B, 0x8A, 0x8C, 0xBE, 0x8D, 0x8F, 0x8E, 0x90, 0x91, 0x93, 0x92, 0x94, 0x95,
     0, 0x96, 0x98, 0x97, 0x99, 0x9B, 0x9A, 0xD6, 0xBF, 0x9D, 0x9C, 0x9E, 0x9F, 0, 0, 0xD8]"

definition mac_roman_page01 :: "byte list" where
  "mac_roman_page01 =
    [0, 0xF5, 0, 0, 0, 0, 0, 0, 0, 0, 0, 0, 0, 0, 0, 0,
     0, 0, 0, 0, 0, 0, 0, 0, 0, 0, 0, 0, 0, 0, 0, 0,
     0, 0, 0xCE, 0xCF, 0, 0, 0, 0, 0, 0, 0, 0, 0, 0, 0, 0,
     0, 0, 0, 0, 0, 0, 0, 0, 0, 0, 0, 0, 0, 0, 0, 0,
     0, 0, 0, 0, 0, 0, 0, 0, 0xD9, 0, 0, 0, 0, 0, 0, 0,
     0, 0, 0, 0, 0, 0, 0, 0, 0, 0, 0, 0, 0, 0, 0, 0,
     0, 0, 0xC4, 0, 0, 0, 0, 0]"

definition mac_roman_page02 :: "byte list" where
  "mac_roman_page02 =
    [0, 0, 0, 0, 0, 0, 0xF6, 0xFF, 0, 0, 0, 0, 0, 0, 0, 0,
     0, 0, 0, 0, 0, 0, 0, 0, 0xF9, 0xFA, 0xFB, 0xFE, 0xF7, 0xFD, 0, 0]"

definition mac_roman_page20 :: "byte list" where
  "mac_roman_page20 =
    [0, 0, 0, 0xD0, 0xD1, 0, 0, 0, 0xD4, 0xD5, 0xE2, 0, 0xD2, 0xD3, 0xE3, 0,
     0xA0, 0xE0, 0xA5, 0, 0, 0, 0xC9, 0, 0, 0, 0, 0, 0, 0, 0, 0,
     0xE4, 0, 0, 0, 0, 0, 0, 0, 0, 0xDC, 0xDD, 0, 0, 0, 0, 0,
     0, 0, 0, 0, 0xDA, 0, 0, 0]"

definition mac_roman_page21 :: "byte list" where
  "mac_roman_page21 =
    [0, 0, 0xAA, 0, 0, 0, 0xBD, 0]"

definition mac_roman_page22 :: "byte list" where
  "mac_roman_page22 =
    [0, 0, 0xB6, 0, 0, 0, 0xC6, 0, 0, 0, 0, 0, 0, 0, 0, 0xB8,
     0, 0xB7, 0, 0, 0, 0, 0, 0, 0, 0, 0xC3, 0, 0, 0, 0xB0, 0,
     0, 0, 0, 0, 0, 0, 0, 0, 0, 0, 0, 0xBA, 0, 0, 0, 0,
     0, 0, 0, 0, 0, 0, 0, 0, 0, 0, 0, 0, 0, 0, 0, 0,
     0, 0, 0, 0, 0, 0, 0, 0, 0xC5, 0, 0, 0, 0, 0, 0, 0,
     0, 0, 0, 0, 0, 0, 0, 0, 0, 0, 0, 0, 0, 0, 0, 0,
     0xAD, 0, 0, 0, 0xB2, 0xB3, 0, 0]"

definition mac_roman_pagefb :: "byte list" where
  "mac_roman_pagefb =
    [0, 0xDE, 0xDF, 0, 0, 0, 0, 0]"

definition mac_roman_2uni :: "ucs2 list" where
  "mac_roman_2uni =
    [0xC4, 0xC5, 0xC7, 0xC9, 0xD1, 0xD6, 0xDC, 0xE1, 0xE0, 0xE2, 0xE4, 0xE3, 0xE5, 0xE7, 0xE9, 0xE8,
     0xEA, 0xEB, 0xED, 0xEC, 0xEE, 0xEF, 0xF1, 0xF3, 0xF2, 0xF4, 0xF6, 0xF5, 0xFA, 0xF9, 0xFB, 0xFC,
     0x2020, 0xB0, 0xA2, 0xA3, 0xA7, 0x2022, 0xB6, 0xDF, 0xAE, 0xA9, 0x2122, 0xB4, 0xA8, 0x2260, 0xC6, 0xD8,
     0x221E, 0xB1, 0x2264, 0x2265, 0xA5, 0xB5, 0x2202, 0x2211, 0x220F, 0x3C0, 0x222B, 0xAA, 0xBA, 0x2126, 0xE6, 0xF8,
     0xBF, 0xA1, 0xAC, 0x221A, 0x192, 0x2248, 0x2206, 0xAB, 0xBB, 0x2026, 0xA0, 0xC0, 0xC3, 0xD5, 0x152, 0x153,
     0x2013, 0x2014, 0x201C, 0x201D, 0x2018, 0x2019, 0xF7, 0x25CA, 0xFF, 0x178, 0x2044, 0xA4, 0x2039, 0x203A, 0xFB01, 0xFB02,
     0x2021, 0xB7, 0x201A, 0x201E, 0x2030, 0xC2, 0xCA, 0xC1, 0xCB, 0xC8, 0xCD, 0xCE, 0xCF, 0xCC, 0xD3, 0xD4,
     0xF8FF, 0xD2, 0xDA, 0xDB, 0xD9, 0x131, 0x2C6, 0x2DC, 0xAF, 0x2D8, 0x2D9, 0x2DA, 0xB8, 0x2DD, 0x2DB, 0x2C7]"

definition char_ucs2_to_mac_roman :: "ucs2 \<Rightarrow> byte option" where
  "char_ucs2_to_mac_roman wc =
     (if wc < 0x80 then Some (ucast wc)
      else
        (let c =
           (if 0xA0 \<le> wc \<and> wc < 0x100 then mac_roman_page00 ! unat (wc - 0xA0)
            else if 0x130 \<le> wc \<and> wc < 0x198 then mac_roman_page01 ! unat (wc - 0x130)
            else if 0x2C0 \<le> wc \<and> wc < 0x2E0 then mac_roman_page02 ! unat (wc - 0x2C0)
            else if wc = 0x3C0 then 0xB9
            else if 0x2010 \<le> wc \<and> wc < 0x2048 then mac_roman_page20 ! unat (wc - 0x2010)
            else if 0x2120 \<le> wc \<and> wc < 0x2128 then mac_roman_page21 ! unat (wc - 0x2120)
            else if 0x2200 \<le> wc \<and> wc < 0x2268 then mac_roman_page22 ! unat (wc - 0x2200)
            else if wc = 0x25CA then 0xD7
            else if 0xFB00 \<le> wc \<and> wc < 0xFB08 then mac_roman_pagefb ! unat (wc - 0xFB00)
            else if wc = 0xF8FF then 0xF0
            else 0)
         in if c \<noteq> 0 then Some c else None))"

definition char_mac_roman_to_ucs2 :: "byte \<Rightarrow> ucs2 option" where
  "char_mac_roman_to_ucs2 c =
     Some (if c < 0x80 then ucast c else mac_roman_2uni ! unat (c - 0x80))"

subsection \<open>Mac Greek\<close>

definition mac_greek_2uni :: "ucs2 list" where
  "mac_greek_2uni =
    [0xC4, 0xB9, 0xB2, 0xC9, 0xB3, 0xD6, 0xDC, 0x385, 0xE0, 0xE2, 0xE4, 0x384, 0xA8, 0xE7, 0xE9, 0xE8,
     0xEA, 0xEB, 0xA3, 0x2122, 0xEE, 0xEF, 0x2022, 0xBD, 0x2030, 0xF4, 0xF6, 0xA6, 0xAD, 0xF9, 0xFB, 0xFC,
     0x2020, 0x393, 0x394, 0x398, 0x39B, 0x39E, 0x3A0, 0xDF, 0xAE, 0xA9, 0x3A3, 0x3AA, 0xA7, 0x2260, 0xB0, 0x387,
     0x391, 0xB1, 0x2264, 0x2265, 0xA5, 0x392, 0x395, 0x396, 0x397, 0x399, 0x39A, 0x39C, 0x3A6, 0x3AB, 0x3A8, 0x3A9,
     0x3AC, 0x39D, 0xAC, 0x39F, 0x3A1, 0x2248, 0x3A4, 0xAB, 0xBB, 0x2026, 0xA0, 0x3A5, 0x3A7, 0x386, 0x388, 0x153,
     0x2013, 0x2015, 0x201C, 0x201D, 0x2018, 0x2019, 0xF7, 0x389, 0x38A, 0x38C, 0x38E, 0x3AD, 0x3AE, 0x3AF, 0x3CC, 0x38F,
     0x3CD, 0x3B1, 0x3B2, 0x3C8, 0x3B4, 0x3B5, 0x3C6, 0x3B3, 0x3B7, 0x3B9, 0x3BE, 0x3BA, 0x3BB, 0x3BC, 0x3BD, 0x3BF,
     0x3C0, 0x3CE, 0x3C1, 0x3C3, 0x3C4, 0x3B8, 0x3C9, 0x3C2, 0x3C7, 0x3C5, 0x3B6, 0x3CA, 0x3CB, 0x390, 0x3B0, 0xFFFD]"

definition mac_greek_page00 :: "byte list" where
  "mac_greek_page00 =
    [0xCA, 0, 0, 0x92, 0, 0xB4, 0x9B, 0xAC, 0x8C, 0xA9, 0, 0xC7, 0xC2, 0x9C, 0xA8, 0,
     0xAE, 0xB1, 0x82, 0x84, 0, 0, 0, 0, 0, 0x81, 0, 0xC8, 0, 0x97, 0, 0,
     0, 0, 0, 0, 0x80, 0, 0, 0, 0, 0x83, 0, 0, 0, 0, 0, 0,
     0, 0, 0, 0, 0, 0, 0x85, 0, 0, 0, 0, 0, 0x86, 0, 0, 0xA7,
     0x88, 0, 0x89, 0, 0x8A, 0, 0, 0x8D, 0x8F, 0x8E, 0x90, 0x91, 0, 0, 0x94, 0x95,
     0, 0, 0, 0, 0x99, 0, 0x9A, 0xD6, 0, 0x9D, 0, 0x9E, 0x9F, 0, 0, 0]"

definition mac_greek_page03 :: "byte list" where
  "mac_greek_page03 =
    [0, 0, 0, 0, 0x8B, 0x87, 0xCD, 0xAF, 0xCE, 0xD7, 0xD8, 0, 0xD9, 0, 0xDA, 0xDF,
     0xFD, 0xB0, 0xB5, 0xA1, 0xA2, 0xB6, 0xB7, 0xB8, 0xA3, 0xB9, 0xBA, 0xA4, 0xBB, 0xC1, 0xA5, 0xC3,
     0xA6, 0xC4, 0, 0xAA, 0xC6, 0xCB, 0xBC, 0xCC, 0xBE, 0xBF, 0xAB, 0xBD, 0xC0, 0xDB, 0xDC, 0xDD,
     0xFE, 0xE1, 0xE2, 0xE7, 0xE4, 0xE5, 0xFA, 0xE8, 0xF5, 0xE9, 0xEB, 0xEC, 0xED, 0xEE, 0xEA, 0xEF,
     0xF0, 0xF2, 0xF7, 0xF3, 0xF4, 0xF9, 0xE6, 0xF8, 0xE3, 0xF6, 0xFB, 0xFC, 0xDE, 0xE0, 0xF1, 0]"

definition mac_greek_page20 :: "byte list" where
  "mac_greek_page20 =
    [0, 0, 0, 0xD0, 0, 0xD1, 0, 0, 0xD4, 0xD5, 0, 0, 0xD2, 0xD3, 0, 0,
     0xA0, 0, 0x96, 0, 0, 0, 0xC9, 0, 0, 0, 0, 0, 0, 0, 0, 0,
     0x98, 0, 0, 0, 0, 0, 0, 0]"

definition mac_greek_page22 :: "byte list" where
  "mac_greek_page22 =
    [0xC5, 0, 0, 0, 0, 0, 0, 0, 0, 0, 0, 0, 0, 0, 0, 0,
     0, 0, 0, 0, 0, 0, 0, 0, 0xAD, 0, 0, 0, 0xB2, 0xB3, 0, 0]"

definition char_ucs2_to_mac_greek :: "ucs2 \<Rightarrow> byte option" where
  "char_ucs2_to_mac_greek wc =
     (if wc < 0x80 then Some (ucast wc)
      else
        (let c =
           (if 0xA0 \<le> wc \<and> wc < 0x100 then mac_greek_page00 ! unat (wc - 0xA0)
            else if wc = 0x153 then 0xCF
            else if 0x380 \<le> wc \<and> wc < 0x3D0 then mac_greek_page03 ! unat (wc - 0x380)
            else if 0x2010 \<le> wc \<and> wc < 0x2038 then mac_greek_page20 ! unat (wc - 0x2010)
            else if wc = 0x2122 then 0x93
            else if 0x2248 \<le> wc \<and> wc < 0x2268 then mac_greek_page22 ! unat (wc - 0x2248)
            else 0)
         in if c \<noteq> 0 then Some c else None))"

definition char_mac_greek_to_ucs2 :: "byte \<Rightarrow> ucs2 option" where
  "char_mac_greek_to_ucs2 c =
     (if c < 0x80 then Some (ucast c)
      else (let wc = mac_greek_2uni ! unat (c - 0x80) in if wc \<noteq> 0xFFFD then Some wc else None))"

subsection \<open>Mac Turkish\<close>

definition mac_turkish_2uni :: "ucs2 list" where
  "mac_turkish_2uni =
    [0xC4, 0xC5, 0xC7, 0xC9, 0xD1, 0xD6, 0xDC, 0xE1, 0xE0, 0xE2, 0xE4, 0xE3, 0xE5, 0xE7, 0xE9, 0xE8,
     0xEA, 0xEB, 0xED, 0xEC, 0xEE, 0xEF, 0xF1, 0xF3, 0xF2, 0xF4, 0xF6, 0xF5, 0xFA, 0xF9, 0xFB, 0xFC,
     0x2020, 0xB0, 0xA2, 0xA3, 0xA7, 0x2022, 0xB6, 0xDF, 0xAE, 0xA9, 0x2122, 0xB4, 0xA8, 0x2260, 0xC6, 0xD8,
     0x221E, 0xB1, 0x2264, 0x2265, 0xA5, 0xB5, 0x2202, 0x2211, 0x220F, 0x3C0, 0x222B, 0xAA, 0xBA, 0x2126, 0xE6, 0xF8,
     0xBF, 0xA1, 0xAC, 0x221A, 0x192, 0x2248, 0x2206, 0xAB, 0xBB, 0x2026, 0xA0, 0xC0, 0xC3, 0xD5, 0x152, 0x153,
     0x2013, 0x2014, 0x201C, 0x201D, 0x2018, 0x2019, 0xF7, 0x25CA, 0xFF, 0x178, 0x11E, 0x11F, 0x130, 0x131, 0x15E, 0x15F,
     0x2021, 0xB7, 0x201A, 0x201E, 0x2030, 0xC2, 0xCA, 0xC1, 0xCB, 0xC8, 0xCD, 0xCE, 0xCF, 0xCC, 0xD3, 0xD4,
     0xF8FF, 0xD2, 0xDA, 0xDB, 0xD9, 0xF8A0, 0x2C6, 0x2DC, 0xAF, 0x2D8, 0x2D9, 0x2DA, 0xB8, 0x2DD, 0x2DB, 0x2C7]"

definition mac_turkish_page00 :: "byte list" where
  "mac_turkish_page00 =
    [0xCA, 0xC1, 0xA2, 0xA3, 0, 0xB4, 0, 0xA4, 0xAC, 0xA9, 0xBB, 0xC7, 0xC2, 0, 0xA8, 0xF8,
     0xA1, 0xB1, 0, 0, 0xAB, 0xB5, 0xA6, 0xE1, 0xFC, 0, 0xBC, 0xC8, 0, 0, 0, 0xC0,
     0xCB, 0xE7, 0xE5, 0xCC, 0x80, 0x81, 0xAE, 0x82, 0xE9, 0x83, 0xE6, 0xE8, 0xED, 0xEA, 0xEB, 0xEC,
     0, 0x84, 0xF1, 0xEE, 0xEF, 0xCD, 0x85, 0, 0xAF, 0xF4, 0xF2, 0xF3, 0x86, 0, 0, 0xA7,
     0x88, 0x87, 0x89, 0x8B, 0x8A, 0x8C, 0xBE, 0x8D, 0x8F, 0x8E, 0x90, 0x91, 0x93, 0x92, 0x94, 0x95,
     0, 0x96, 0x98, 0x97, 0x99, 0x9B, 0x9A, 0xD6, 0xBF, 0x9D, 0x9C, 0x9E, 0x9F, 0, 0, 0xD8]"

definition mac_turkish_page01 :: "byte list" where
  "mac_turkish_page01 =
    [0, 0, 0, 0, 0, 0, 0xDA, 0xDB, 0, 0, 0, 0, 0, 0, 0, 0,
     0, 0, 0, 0, 0, 0, 0, 0, 0xDC, 0xDD, 0, 0, 0, 0, 0, 0,
     0, 0, 0, 0, 0, 0, 0, 0, 0, 0, 0, 0, 0, 0, 0, 0,
     0, 0, 0, 0, 0, 0, 0, 0, 0, 0, 0xCE, 0xCF, 0, 0, 0, 0,
     0, 0, 0, 0, 0, 0, 0xDE, 0xDF, 0, 0, 0, 0, 0, 0, 0, 0,
     0, 0, 0, 0, 0, 0, 0, 0, 0, 0, 0, 0, 0, 0, 0, 0,
     0xD9, 0, 0, 0, 0, 0, 0, 0, 0, 0, 0, 0, 0, 0, 0, 0,
     0, 0, 0, 0, 0, 0, 0, 0, 0, 0, 0xC4, 0, 0, 0, 0, 0]"

definition mac_turkish_page02 :: "byte list" where
  "mac_turkish_page02 =
    [0, 0, 0, 0, 0, 0, 0xF6, 0xFF, 0, 0, 0, 0, 0, 0, 0, 0,
     0, 0, 0, 0, 0, 0, 0, 0, 0xF9, 0xFA, 0xFB, 0xFE, 0xF7, 0xFD, 0, 0]"

definition mac_turkish_page20 :: "byte list" where
  "mac_turkish_page20 =
    [0, 0, 0, 0xD0, 0xD1, 0, 0, 0, 0xD4, 0xD5, 0xE2, 0, 0xD2, 0xD3, 0xE3, 0,
     0xA0, 0xE0, 0xA5, 0, 0, 0, 0xC9, 0, 0, 0, 0, 0, 0, 0, 0, 0,
     0xE4, 0, 0, 0, 0, 0, 0, 0]"

definition mac_turkish_page21 :: "byte list" where
  "mac_turkish_page21 =
    [0, 0, 0xAA, 0, 0, 0, 0xBD, 0]"

definition mac_turkish_page22 :: "byte list" where
  "mac_turkish_page22 =
    [0, 0, 0xB6, 0, 0, 0, 0xC6, 0, 0, 0, 0, 0, 0, 0, 0, 0xB8,
     0, 0xB7, 0, 0, 0, 0, 0, 0, 0, 0, 0xC3, 0, 0, 0, 0xB0, 0,
     0, 0, 0, 0, 0, 0, 0, 0, 0, 0, 0, 0xBA, 0, 0, 0, 0,
     0, 0, 0, 0, 0, 0, 0, 0, 0, 0, 0, 0, 0, 0, 0, 0,
     0, 0, 0, 0, 0, 0, 0, 0, 0xC5, 0, 0, 0, 0, 0, 0, 0,
     0, 0, 0, 0, 0, 0, 0, 0, 0, 0, 0, 0, 0, 0, 0, 0,
     0xAD, 0, 0, 0, 0xB2, 0xB3, 0, 0]"

definition char_ucs2_to_mac_turkish :: "ucs2 \<Rightarrow> byte option" where
  "char_ucs2_to_mac_turkish wc =
     (if wc < 0x80 then Some (ucast wc)
      else
        (let c =
           (if 0xA0 \<le> wc \<and> wc < 0x100 then mac_turkish_page00 ! unat (wc - 0xA0)
            else if 0x118 \<le> wc \<and> wc < 0x198 then mac_turkish_page01 ! unat (wc - 0x118)
            else if 0x2C0 \<le> wc \<and> wc < 0x2E0 then mac_turkish_page02 ! unat (wc - 0x2C0)
            else if wc = 0x3C0 then 0xB9
            else if 0x2010 \<le> wc \<and> wc < 0x2038 then mac_turkish_page20 ! unat (wc - 0x2010)
            else if 0x2120 \<le> wc \<and> wc < 0x2128 then mac_turkish_page21 ! unat (wc - 0x2120)
            else if 0x2200 \<le> wc \<and> wc < 0x2268 then mac_turkish_page22 ! unat (wc - 0x2200)
            else if wc = 0x25CA then 0xD7
            else if wc = 0xF8FF then 0xF0
            else if wc = 0xF8A0 then 0xF5
            else 0)
         in if c \<noteq> 0 then Some c else None))"

definition char_mac_turkish_to_ucs2 :: "byte \<Rightarrow> ucs2 option" where
  "char_mac_turkish_to_ucs2 c =
     (if c < 0x80 then Some (ucast c)
      else (let wc = mac_turkish_2uni ! unat (c - 0x80) in if wc \<noteq> 0xFFFD then Some wc else None))"

subsection \<open>Mac Cyrillic\<close>

definition mac_cyrillic_2uni :: "ucs2 list" where
  "mac_cyrillic_2uni =
    [0x410, 0x411, 0x412, 0x413, 0x414, 0x415, 0x416, 0x417, 0x418, 0x419, 0x41A, 0x41B, 0x41C, 0x41D, 0x41E, 0x41F,
     0x420, 0x421, 0x422, 0x423, 0x424, 0x425, 0x426, 0x427, 0x428, 0x429, 0x42A, 0x42B, 0x42C, 0x42D, 0x42E, 0x42F,
     0x2020, 0xB0, 0x490, 0xA3, 0xA7, 0x2022, 0xB6, 0x406, 0xAE, 0xA9, 0x2122, 0x402, 0x452, 0x2260, 0x403, 0x453,
     0x221E, 0xB1, 0x2264, 0x2265, 0x456, 0xB5, 0x491, 0x408, 0x404, 0x454, 0x407, 0x457, 0x409, 0x459, 0x40A, 0x45A,
     0x458, 0x405, 0xAC, 0x221A, 0x192, 0x2248, 0x2206, 0xAB, 0xBB, 0x2026, 0xA0, 0x40B, 0x45B, 0x40C, 0x45C, 0x455,
     0x2013, 0x2014, 0x201C, 0x201D, 0x2018, 0x2019, 0xF7, 0x201E, 0x40E, 0x45E, 0x40F, 0x45F, 0x2116, 0x401, 0x451, 0x44F,
     0x430, 0x431, 0x432, 0x433, 0x434, 0x435, 0x436, 0x437, 0x438, 0x439, 0x43A, 0x43B, 0x43C, 0x43D, 0x43E, 0x43F,
     0x440, 0x441, 0x442, 0x443, 0x444, 0x445, 0x446, 0x447, 0x448, 0x449, 0x44A, 0x44B, 0x44C, 0x44D, 0x44E, 0x20AC]"

definition mac_cyrillic_page00 :: "byte list" where
  "mac_cyrillic_page00 =
    [0xCA, 0, 0xA2, 0xA3, 0xFF, 0, 0, 0xA4, 0, 0xA9, 0, 0xC7, 0xC2, 0, 0xA8, 0,
     0xA1, 0xB1, 0, 0, 0, 0xB5, 0xA6, 0, 0, 0, 0, 0xC8, 0, 0, 0, 0]"

definition mac_cyrillic_page04 :: "byte list" where
  "mac_cyrillic_page04 =
    [0, 0xDD, 0xAB, 0xAE, 0xB8, 0xC1, 0xA7, 0xBA, 0xB7, 0xBC, 0xBE, 0xCB, 0xCD, 0, 0xD8, 0xDA,
     0x80, 0x81, 0x82, 0x83, 0x84, 0x85, 0x86, 0x87, 0x88, 0x89, 0x8A, 0x8B, 0x8C, 0x8D, 0x8E, 0x8F,
     0x90, 0x91, 0x92, 0x93, 0x94, 0x95, 0x96, 0x97, 0x98, 0x99, 0x9A, 0x9B, 0x9C, 0x9D, 0x9E, 0x9F,
     0xE0, 0xE1, 0xE2, 0xE3, 0xE4, 0xE5, 0xE6, 0xE7, 0xE8, 0xE9, 0xEA, 0xEB, 0xEC, 0xED, 0xEE, 0xEF,
     0xF0, 0xF1, 0xF2, 0xF3, 0xF4, 0xF5, 0xF6, 0xF7, 0xF8, 0xF9, 0xFA, 0xFB, 0xFC, 0xFD, 0xFE, 0xDF,
     0, 0xDE, 0xAC, 0xAF, 0xB9, 0xCF, 0xB4, 0xBB, 0xC0, 0xBD, 0xBF, 0xCC, 0xCE, 0, 0xD9, 0xDB]"

definition mac_cyrillic_page20 :: "byte list" where
  "mac_cyrillic_page20 =
    [0, 0, 0, 0xD0, 0xD1, 0, 0, 0, 0xD4, 0xD5, 0, 0, 0xD2, 0xD3, 0xD7, 0,
     0xA0, 0, 0xA5, 0, 0, 0, 0xC9, 0]"

definition mac_cyrillic_page21 :: "byte list" where
  "mac_cyrillic_page21 =
    [0, 0, 0, 0, 0, 0, 0xDC, 0, 0, 0, 0, 0, 0, 0, 0, 0,
     0, 0, 0xAA, 0, 0, 0, 0, 0]"

definition mac_cyrillic_page22 :: "byte list" where
  "mac_cyrillic_page22 =
    [0, 0, 0xB6, 0, 0, 0, 0xC6, 0, 0, 0, 0, 0, 0, 0, 0, 0,
     0, 0, 0, 0, 0, 0, 0, 0, 0, 0, 0xC3, 0, 0, 0, 0xB0, 0,
     0, 0, 0, 0, 0, 0, 0, 0, 0, 0, 0, 0, 0, 0, 0, 0,
     0, 0, 0, 0, 0, 0, 0, 0, 0, 0, 0, 0, 0, 0, 0, 0,
     0, 0, 0, 0, 0, 0, 0, 0, 0xC5, 0, 0, 0, 0, 0, 0, 0,
     0, 0, 0, 0, 0, 0, 0, 0, 0, 0, 0, 0, 0, 0, 0, 0,
     0xAD, 0, 0, 0, 0xB2, 0xB3, 0, 0]"

definition char_ucs2_to_mac_cyrillic :: "ucs2 \<Rightarrow> byte option" where
  "char_ucs2_to_mac_cyrillic wc =
     (if wc < 0x80 then Some (ucast wc)
      else
        (let c =
           (if 0xA0 \<le> wc \<and> wc < 0xC0 then mac_cyrillic_page00 ! unat (wc - 0xA0)
            else if wc = 0xF7 then 0xD6
            else if wc = 0x192 then 0xC4
            else if 0x400 \<le> wc \<and> wc < 0x460 then mac_cyrillic_page04 ! unat (wc - 0x400)
            else if wc = 0x490 then 0xA2
            else if wc = 0x491 then 0xB6
            else if 0x2010 \<le> wc \<and> wc < 0x2028 then mac_cyrillic_page20 ! unat (wc - 0x2010)
            else if wc = 0x20AC then 0xFF
            else if 0x2110 \<le> wc \<and> wc < 0x2128 then mac_cyrillic_page21 ! unat (wc - 0x2110)
            else if 0x2200 \<le> wc \<and> wc < 0x2268 then mac_cyrillic_page22 ! unat (wc - 0x2200)
            else 0)
         in if c \<noteq> 0 then Some c else None))"

definition char_mac_cyrillic_to_ucs2 :: "byte \<Rightarrow> ucs2 option" where
  "char_mac_cyrillic_to_ucs2 c =
     Some (if c \<ge> 0x80 then mac_cyrillic_2uni ! unat (c - 0x80) else ucast c)"

subsection \<open>Mac Central European\<close>

definition mac_centraleurope_2uni :: "ucs2 list" where
  "mac_centraleurope_2uni =
    [0xC4, 0x100, 0x101, 0xC9, 0x104, 0xD6, 0xDC, 0xE1, 0x105, 0x10C, 0xE4, 0x10D, 0x106, 0x107, 0xE9, 0x179,
     0x17A, 0x10E, 0xED, 0x10F, 0x112, 0x113, 0x116, 0xF3, 0x117, 0xF4, 0xF6, 0xF5, 0xFA, 0x11A, 0x11B, 0xFC,
     0x2020, 0xB0, 0x118, 0xA3, 0xA7, 0x2022, 0xB6, 0xDF, 0xAE, 0xA9, 0x2122, 0x119, 0xA8, 0x2260, 0x123, 0x12E,
     0x12F, 0x12A, 0x2264, 0x2265, 0x12B, 0x136, 0x2202, 0x2211, 0x142, 0x13B, 0x13C, 0x13D, 0x13E, 0x139, 0x13A, 0x145,
     0x146, 0x143, 0xAC, 0x221A, 0x144, 0x147, 0x2206, 0xAB, 0xBB, 0x2026, 0xA0, 0x148, 0x150, 0xD5, 0x151, 0x14C,
     0x2013, 0x2014, 0x201C, 0x201D, 0x2018, 0x2019, 0xF7, 0x25CA, 0x14D, 0x154, 0x155, 0x158, 0x2039, 0x203A, 0x159, 0x156,
     0x157, 0x160, 0x201A, 0x201E, 0x161, 0x15A, 0x15B, 0xC1, 0x164, 0x165, 0xCD, 0x17D, 0x17E, 0x16A, 0xD3, 0xD4,
     0x16B, 0x16E, 0xDA, 0x16F, 0x170, 0x171, 0x172, 0x173, 0xDD, 0xFD, 0x137, 0x17B, 0x141, 0x17C, 0x122, 0x2C7]"

definition mac_centraleurope_page00 :: "byte list" where
  "mac_centraleurope_page00 =
    [0xCA, 0, 0, 0xA3, 0, 0, 0, 0xA4, 0xAC, 0xA9, 0, 0xC7, 0xC2, 0, 0xA8, 0,
     0xA1, 0, 0, 0, 0, 0, 0xA6, 0, 0, 0, 0, 0xC8, 0, 0, 0, 0,
     0, 0xE7, 0, 0, 0x80, 0, 0, 0, 0, 0x83, 0, 0, 0, 0xEA, 0, 0,
     0, 0, 0, 0xEE, 0xEF, 0xCD, 0x85, 0, 0, 0, 0xF2, 0, 0x86, 0xF8, 0, 0xA7,
     0, 0x87, 0, 0, 0x8A, 0, 0, 0, 0, 0x8E, 0, 0, 0, 0x92, 0, 0,
     0, 0, 0, 0x97, 0x99, 0x9B, 0x9A, 0xD6, 0, 0, 0x9C, 0, 0x9F, 0xF9, 0, 0,
     0x81, 0x82, 0, 0, 0x84, 0x88, 0x8C, 0x8D, 0, 0, 0, 0, 0x89, 0x8B, 0x91, 0x93,
     0, 0, 0x94, 0x95, 0, 0, 0x96, 0x98, 0xA2, 0xAB, 0x9D, 0x9E, 0, 0, 0, 0,
     0, 0, 0xFE, 0xAE, 0, 0, 0, 0, 0, 0, 0xB1, 0xB4, 0, 0, 0xAF, 0xB0,
     0, 0, 0, 0, 0, 0, 0xB5, 0xFA, 0, 0xBD, 0xBE, 0xB9, 0xBA, 0xBB, 0xBC, 0,
     0, 0xFC, 0xB8, 0xC1, 0xC4, 0xBF, 0xC0, 0xC5, 0xCB, 0, 0, 0, 0xCF, 0xD8, 0, 0,
     0xCC, 0xCE, 0, 0, 0xD9, 0xDA, 0xDF, 0xE0, 0xDB, 0xDE, 0xE5, 0xE6, 0, 0, 0, 0,
     0xE1, 0xE4, 0, 0, 0xE8, 0xE9, 0, 0, 0, 0, 0xED, 0xF0, 0, 0, 0xF1, 0xF3,
     0xF4, 0xF5, 0xF6, 0xF7, 0, 0, 0, 0, 0, 0x8F, 0x90, 0xFB, 0xFD, 0xEB, 0xEC, 0]"

definition mac_centraleurope_page20 :: "byte list" where
  "mac_centraleurope_page20 =
    [0, 0, 0, 0xD0, 0xD1, 0, 0, 0, 0xD4, 0xD5, 0xE2, 0, 0xD2, 0xD3, 0xE3, 0,
     0xA0, 0, 0xA5, 0, 0, 0, 0xC9, 0, 0, 0, 0, 0, 0, 0, 0, 0,
     0, 0, 0, 0, 0, 0, 0, 0, 0, 0xDC, 0xDD, 0, 0, 0, 0, 0]"

definition mac_centraleurope_page22 :: "byte list" where
  "mac_centraleurope_page22 =
    [0, 0, 0xB6, 0, 0, 0, 0xC6, 0, 0, 0, 0, 0, 0, 0, 0, 0,
     0, 0xB7, 0, 0, 0, 0, 0, 0, 0, 0, 0xC3, 0, 0, 0, 0, 0]"

definition mac_centraleurope_page22_1 :: "byte list" where
  "mac_centraleurope_page22_1 =
    [0xAD, 0, 0, 0, 0xB2, 0xB3, 0, 0]"

definition char_ucs2_to_mac_centraleurope :: "ucs2 \<Rightarrow> byte option" where
  "char_ucs2_to_mac_centraleurope wc =
     (if wc < 0x80 then Some (ucast wc)
      else
        (let c =
           (if 0xA0 \<le> wc \<and> wc < 0x180 then mac_centraleurope_page00 ! unat (wc - 0xA0)
            else if wc = 0x2C7 then 0xFF
            else if 0x2010 \<le> wc \<and> wc < 0x2040 then mac_centraleurope_page20 ! unat (wc - 0x2010)
            else if wc = 0x2122 then 0xAA
            else if 0x2200 \<le> wc \<and> wc < 0x2220 then mac_centraleurope_page22 ! unat (wc - 0x2200)
            else if 0x2260 \<le> wc \<and> wc < 0x2268 then mac_centraleurope_page22_1 ! unat (wc - 0x2260)
            else if wc = 0x25CA then 0xD7
            else 0)
         in if c \<noteq> 0 then Some c else None))"

definition char_mac_centraleurope_to_ucs2 :: "byte \<Rightarrow> ucs2 option" where
  "char_mac_centraleurope_to_ucs2 c =
     Some (if c < 0x80 then ucast c else mac_centraleurope_2uni ! unat (c - 0x80))"

subsection \<open>Mac Hebrew\<close>

definition mac_hebrew_2uni :: "ucs2 list" where
  "mac_hebrew_2uni =
    [0xC4, 1, 0xC7, 0xC9, 0xD1, 0xD6, 0xDC, 0xE1, 0xE0, 0xE2, 0xE4, 0xE3, 0xE5, 0xE7, 0xE9, 0xE8,
     0xEA, 0xEB, 0xED, 0xEC, 0xEE, 0xEF, 0xF1, 0xF3, 0xF2, 0xF4, 0xF6, 0xF5, 0xFA, 0xF9, 0xFB, 0xFC,
     0x20, 0x21, 0x22, 0x23, 0x24, 0x25, 0x20AA, 0x27, 0x29, 0x28, 0x2A, 0x2B, 0x2C, 0x2D, 0x2E, 0x2F,
     0x30, 0x31, 0x32, 0x33, 0x34, 0x35, 0x36, 0x37, 0x38, 0x39, 0x3A, 0x3B, 0x3C, 0x3D, 0x3E, 0x3F,
     2, 0x201E, 0xF89B, 0xF89C, 0xF89D, 0xF89E, 0x5BC, 0xFB4B, 0xFB35, 0x2026, 0xA0, 0x5B8, 0x5B7, 0x5B5, 0x5B6, 0x5B4,
     0x2013, 0x2014, 0x201C, 0x201D, 0x2018, 0x2019, 0xFB2A, 0xFB2B, 0x5BF, 0x5B0, 0x5B2, 0x5B1, 0x5BB, 0x5B9, 3, 0x5B3,
     0x5D0, 0x5D1, 0x5D2, 0x5D3, 0x5D4, 0x5D5, 0x5D6, 0x5D7, 0x5D8, 0x5D9, 0x5DA, 0x5DB, 0x5DC, 0x5DD, 0x5DE, 0x5DF,
     0x5E0, 0x5E1, 0x5E2, 0x5E3, 0x5E4, 0x5E5, 0x5E6, 0x5E7, 0x5E8, 0x5E9, 0x5EA, 0x7D, 0x5D, 0x7B, 0x5B, 0x7C]"

definition mac_hebrew_page00 :: "byte list" where
  "mac_hebrew_page00 =
    [0xCA, 0, 0, 0, 0, 0, 0, 0, 0, 0, 0, 0, 0, 0, 0, 0,
     0, 0, 0, 0, 0, 0, 0, 0, 0, 0, 0, 0, 0, 0, 0, 0,
     0, 0, 0, 0, 0x80, 0, 0, 0x82, 0, 0x83, 0, 0, 0, 0, 0, 0,
     0, 0x84, 0, 0, 0, 0, 0x85, 0, 0, 0, 0, 0, 0x86, 0, 0, 0,
     0x88, 0x87, 0x89, 0x8B, 0x8A, 0x8C, 0, 0x8D, 0x8F, 0x8E, 0x90, 0x91, 0x93, 0x92, 0x94, 0x95,
     0, 0x96, 0x98, 0x97, 0x99, 0x9B, 0x9A, 0, 0, 0x9D, 0x9C, 0x9E, 0x9F, 0, 0, 0]"

definition mac_hebrew_page05 :: "byte list" where
  "mac_hebrew_page05 =
    [0xD9, 0xDB, 0xDA, 0xDF, 0xCF, 0xCD, 0xCE, 0xCC, 0xCB, 0xDD, 0, 0xDC, 0xC6, 0, 0, 0xD8,
     0, 0, 0, 0, 0, 0, 0, 0, 0, 0, 0, 0, 0, 0, 0, 0,
     0xE0, 0xE1, 0xE2, 0xE3, 0xE4, 0xE5, 0xE6, 0xE7, 0xE8, 0xE9, 0xEA, 0xEB, 0xEC, 0xED, 0xEE, 0xEF,
     0xF0, 0xF1, 0xF2, 0xF3, 0xF4, 0xF5, 0xF6, 0xF7, 0xF8, 0xF9, 0xFA, 0, 0, 0, 0, 0]"

definition mac_hebrew_page20 :: "byte list" where
  "mac_hebrew_page20 =
    [0, 0, 0, 0xD0, 0xD1, 0, 0, 0, 0xD4, 0xD5, 0, 0, 0xD2, 0xD3, 0xC1, 0,
     0, 0, 0, 0, 0, 0, 0xC9, 0]"

definition mac_hebrew_pagefb :: "byte list" where
  "mac_hebrew_pagefb =
    [0, 0, 0, 0, 0, 0, 0, 0x81, 0, 0, 0, 0, 0, 0, 0, 0,
     0, 0, 0xD6, 0xD7, 0, 0, 0, 0, 0, 0, 0, 0, 0, 0xC8, 0, 0,
     0, 0, 0, 0, 0, 0, 0, 0, 0, 0, 0, 0, 0, 0, 0, 0,
     0, 0, 0, 0xC7, 0, 0, 0, 0]"

definition char_ucs2_to_mac_hebrew :: "ucs2 \<Rightarrow> byte option" where
  "char_ucs2_to_mac_hebrew wc =
     (if wc < 0x80 then Some (ucast wc)
      else
        (let c =
           (if 0xA0 \<le> wc \<and> wc < 0x100 then mac_hebrew_page00 ! unat (wc - 0xA0)
            else if 0x5B0 \<le> wc \<and> wc < 0x5F0 then mac_hebrew_page05 ! unat (wc - 0x5B0)
            else if 0x2010 \<le> wc \<and> wc < 0x2028 then mac_hebrew_page20 ! unat (wc - 0x2010)
            else if wc = 0x20AA then 0xA6
            else if 0xFB18 \<le> wc \<and> wc < 0xFB50 then mac_hebrew_pagefb ! unat (wc - 0xFB18)
            else 0)
         in if c \<noteq> 0 then Some c else None))"

definition char_mac_hebrew_to_ucs2 :: "byte \<Rightarrow> ucs2 option" where
  "char_mac_hebrew_to_ucs2 c =
     (if c < 0x80 then Some (ucast c)
      else (let wc = mac_hebrew_2uni ! unat (c - 0x80) in if wc \<noteq> 0xFFFD then Some wc else None))"

end
