(* ===== verification/Iconv.thy ===== *)
theory Iconv
  imports Mac_Charsets
begin

text \<open>
  Conversion functions and descriptors: \<open>libatalk/unicode/iconv.c\<close> and the generic routines of
  \<open>libatalk/unicode/charsets\<close>. The build is the one without an \<open>iconv\<close> of the C library, so that a
  charset is one of the built-in ones.

  A call of a conversion function gets the input and the free space of the output and gives the
  error, the rest of the input, the bytes written at the output position, the space left, and by how
  much the output position moved, which is not the number of bytes written for every function.
\<close>

record conv_call =
  err :: "conv_error option"
  input :: bytes
  wrote :: bytes
  room :: nat
  moved :: nat

type_synonym conv_fun = "bytes \<Rightarrow> nat \<Rightarrow> conv_call"

definition call_of :: "conv_result \<Rightarrow> conv_call" where
  "call_of = (\<lambda>(e, rest, out, left). \<lparr>err = e, input = rest, wrote = out, room = left, moved = length out\<rparr>)"

subsection \<open>Single-byte charsets\<close>

fun mb_push_loop :: "(ucs2 \<Rightarrow> byte option) \<Rightarrow> bytes \<Rightarrow> nat \<Rightarrow> bytes \<Rightarrow> conv_result" where
  "mb_push_loop char_func (a # b # inbuf) outbytesleft out =
     (if outbytesleft \<ge> 1 then
        (case char_func (SVAL a b) of
           Some c \<Rightarrow> mb_push_loop char_func inbuf (outbytesleft - 1) (out @ [c])
         | None \<Rightarrow> (Some EILSEQ, a # b # inbuf, out, outbytesleft))
      else (Some E2BIG, a # b # inbuf, out, outbytesleft))"
| "mb_push_loop char_func inbuf outbytesleft out = (if inbuf \<noteq> [] then Some E2BIG else None, inbuf, out, outbytesleft)"

text \<open>The routine writes through a copy of the output position and leaves the caller's where it was.\<close>

definition mb_generic_push :: "(ucs2 \<Rightarrow> byte option) \<Rightarrow> conv_fun" where
  "mb_generic_push char_func inbuf outbytesleft = (call_of (mb_push_loop char_func inbuf outbytesleft []))\<lparr>moved := 0\<rparr>"

fun mb_pull_loop :: "(byte \<Rightarrow> ucs2 option) \<Rightarrow> bytes \<Rightarrow> nat \<Rightarrow> bytes \<Rightarrow> conv_result" where
  "mb_pull_loop char_func (b # inbuf) outbytesleft out =
     (if outbytesleft \<ge> 2 then
        (case char_func b of
           Some temp \<Rightarrow> mb_pull_loop char_func inbuf (outbytesleft - 2) (out @ SSVAL temp)
         | None \<Rightarrow> (Some EILSEQ, b # inbuf, out, outbytesleft))
      else (Some E2BIG, b # inbuf, out, outbytesleft))"
| "mb_pull_loop char_func [] outbytesleft out = (None, [], out, outbytesleft)"

definition mb_generic_pull :: "(byte \<Rightarrow> ucs2 option) \<Rightarrow> conv_fun" where
  "mb_generic_pull char_func inbuf outbytesleft = call_of (mb_pull_loop char_func inbuf outbytesleft [])"

definition mac_roman_push :: conv_fun where "mac_roman_push = mb_generic_push char_ucs2_to_mac_roman"
definition mac_roman_pull :: conv_fun where "mac_roman_pull = mb_generic_pull char_mac_roman_to_ucs2"
definition mac_greek_push :: conv_fun where "mac_greek_push = mb_generic_push char_ucs2_to_mac_greek"
definition mac_greek_pull :: conv_fun where "mac_greek_pull = mb_generic_pull char_mac_greek_to_ucs2"
definition mac_turkish_push :: conv_fun where "mac_turkish_push = mb_generic_push char_ucs2_to_mac_turkish"
definition mac_turkish_pull :: conv_fun where "mac_turkish_pull = mb_generic_pull char_mac_turkish_to_ucs2"
definition mac_cyrillic_push :: conv_fun where "mac_cyrillic_push = mb_generic_push char_ucs2_to_mac_cyrillic"
definition mac_cyrillic_pull :: conv_fun where "mac_cyrillic_pull = mb_generic_pull char_mac_cyrillic_to_ucs2"
definition mac_centraleurope_push :: conv_fun where "mac_centraleurope_push = mb_generic_push char_ucs2_to_mac_centraleurope"
definition mac_centraleurope_pull :: conv_fun where "mac_centraleurope_pull = mb_generic_pull char_mac_centraleurope_to_ucs2"

subsection \<open>Hebrew\<close>

text \<open>The byte for the next character or sequence of the input, and the number of input bytes it stands for.\<close>

definition hebrew_next :: "bytes \<Rightarrow> (byte \<times> nat) option" where
  "hebrew_next inbuf =
     (let inptr = SVAL (inbuf ! 0) (inbuf ! 1) in
      if inptr = 0x05B8 then
        (if length inbuf \<ge> 4 \<and> SVAL (inbuf ! 2) (inbuf ! 3) = 0xF87F then Some (0xDE, 4) else Some (0xCB, 2))
      else if inptr = 0x05F2 \<and> length inbuf \<ge> 4 \<and> SVAL (inbuf ! 2) (inbuf ! 3) = 0x05B7 then Some (0x81, 4)
      else if inptr = 0xF86A \<and> length inbuf \<ge> 6 \<and> SVAL (inbuf ! 2) (inbuf ! 3) = 0x05DC \<and> SVAL (inbuf ! 4) (inbuf ! 5) = 0x05B9
      then Some (0xC0, 6)
      else map_option (\<lambda>c. (c, 2)) (char_ucs2_to_mac_hebrew inptr))"

lemma hebrew_next_consumes: "hebrew_next inbuf = Some (c, k) \<Longrightarrow> 2 \<le> length inbuf \<Longrightarrow> 2 \<le> k \<and> k \<le> length inbuf"
  by (auto simp: hebrew_next_def Let_def split: if_splits)

function hebrew_push_loop :: "bytes \<Rightarrow> nat \<Rightarrow> bytes \<Rightarrow> conv_result" where
  "hebrew_push_loop inbuf outbytesleft out =
     (if length inbuf \<ge> 2 \<and> outbytesleft \<ge> 1 then
        (case hebrew_next inbuf of
           Some (c, k) \<Rightarrow> hebrew_push_loop (drop k inbuf) (outbytesleft - 1) (out @ [c])
         | None \<Rightarrow> (Some EILSEQ, inbuf, out, outbytesleft))
      else (if inbuf \<noteq> [] then Some E2BIG else None, inbuf, out, outbytesleft))"
  by pat_completeness auto
termination
  by (relation "measure (\<lambda>(inbuf, _). length inbuf)") (auto dest!: hebrew_next_consumes)

declare hebrew_push_loop.simps [simp del]

definition mac_hebrew_push :: conv_fun where
  "mac_hebrew_push inbuf outbytesleft = (call_of (hebrew_push_loop inbuf outbytesleft []))\<lparr>moved := 0\<rparr>"

definition hebrew_units :: "ucs2 \<Rightarrow> ucs2 list" where
  "hebrew_units temp =
     (if temp = 1 then [0x05F2, 0x05B7] else if temp = 2 then [0xF86A, 0x05DC, 0x05B9] else if temp = 3 then [0x05B8, 0xF87F] else [temp])"

fun hebrew_pull_loop :: "bytes \<Rightarrow> nat \<Rightarrow> bytes \<Rightarrow> conv_result" where
  "hebrew_pull_loop (b # inbuf) outbytesleft out =
     (if outbytesleft \<ge> 2 then
        (case char_mac_hebrew_to_ucs2 b of
           Some temp \<Rightarrow>
             (if outbytesleft < 2 * length (hebrew_units temp) then (Some E2BIG, b # inbuf, out, outbytesleft)
              else hebrew_pull_loop inbuf (outbytesleft - 2 * length (hebrew_units temp)) (out @ concat (map SSVAL (hebrew_units temp))))
         | None \<Rightarrow> (Some EILSEQ, b # inbuf, out, outbytesleft))
      else (Some E2BIG, b # inbuf, out, outbytesleft))"
| "hebrew_pull_loop [] outbytesleft out = (None, [], out, outbytesleft)"

definition mac_hebrew_pull :: conv_fun where
  "mac_hebrew_pull inbuf outbytesleft = call_of (hebrew_pull_loop inbuf outbytesleft [])"

subsection \<open>ASCII, copies and UTF-8\<close>

fun ascii_pull_loop :: "bytes \<Rightarrow> nat \<Rightarrow> bytes \<Rightarrow> conv_result" where
  "ascii_pull_loop (b # inbuf) outbytesleft out =
     (if outbytesleft \<ge> 2 then
        (if b < 0x80 then ascii_pull_loop inbuf (outbytesleft - 2) (out @ SSVAL (ucast b))
         else (Some EILSEQ, b # inbuf, out, outbytesleft))
      else (Some E2BIG, b # inbuf, out, outbytesleft))"
| "ascii_pull_loop [] outbytesleft out = (None, [], out, outbytesleft)"

definition ascii_pull :: conv_fun where
  "ascii_pull inbuf outbytesleft = call_of (ascii_pull_loop inbuf outbytesleft [])"

fun ascii_push_loop :: "bytes \<Rightarrow> nat \<Rightarrow> bytes \<Rightarrow> conv_result" where
  "ascii_push_loop (a # b # inbuf) outbytesleft out =
     (if outbytesleft \<ge> 1 then
        (if SVAL a b < 0x80 then ascii_push_loop inbuf (outbytesleft - 1) (out @ [ucast (SVAL a b)])
         else (Some EILSEQ, a # b # inbuf, out, outbytesleft))
      else (Some E2BIG, a # b # inbuf, out, outbytesleft))"
| "ascii_push_loop inbuf outbytesleft out = (if inbuf \<noteq> [] then Some EINVAL else None, inbuf, out, outbytesleft)"

definition ascii_push :: conv_fun where
  "ascii_push inbuf outbytesleft = call_of (ascii_push_loop inbuf outbytesleft [])"

definition iconv_copy :: conv_fun where
  "iconv_copy inbuf outbytesleft =
     (let n = min (length inbuf) outbytesleft in
      call_of (if drop n inbuf \<noteq> [] then Some E2BIG else None, drop n inbuf, take n inbuf, outbytesleft - n))"

definition utf8_pull_call :: conv_fun where
  "utf8_pull_call inbuf outbytesleft = call_of (utf8_pull inbuf outbytesleft [])"

definition utf8_push_call :: conv_fun where
  "utf8_push_call inbuf outbytesleft = call_of (utf8_push inbuf outbytesleft [])"

subsection \<open>Charsets by name\<close>

definition CHARSET_CLIENT :: "32 word" where "CHARSET_CLIENT = 1"
definition CHARSET_VOLUME :: "32 word" where "CHARSET_VOLUME = 2"
definition CHARSET_PRECOMPOSED :: "32 word" where "CHARSET_PRECOMPOSED = 4"
definition CHARSET_DECOMPOSED :: "32 word" where "CHARSET_DECOMPOSED = 8"
definition CHARSET_MULTIBYTE :: "32 word" where "CHARSET_MULTIBYTE = 16"
definition CHARSET_WIDECHAR :: "32 word" where "CHARSET_WIDECHAR = 32"

record charset_functions =
  cname :: string
  kTextEncoding :: "32 word"
  pull :: conv_fun
  push :: conv_fun
  cflags :: "32 word"

definition builtin_functions :: "charset_functions list" where
  "builtin_functions =
     [\<lparr>cname = ''UCS-2'', kTextEncoding = 0, pull = iconv_copy, push = iconv_copy, cflags = CHARSET_WIDECHAR OR CHARSET_PRECOMPOSED\<rparr>,
      \<lparr>cname = ''ASCII'', kTextEncoding = 0, pull = ascii_pull, push = ascii_push, cflags = CHARSET_MULTIBYTE OR CHARSET_PRECOMPOSED\<rparr>]"

definition charset_utf8 :: charset_functions where
  "charset_utf8 = \<lparr>cname = ''UTF8'', kTextEncoding = 0x08000103, pull = utf8_pull_call, push = utf8_push_call,
     cflags = CHARSET_VOLUME OR CHARSET_MULTIBYTE OR CHARSET_PRECOMPOSED\<rparr>"

definition charset_utf8_mac :: charset_functions where
  "charset_utf8_mac = \<lparr>cname = ''UTF8-MAC'', kTextEncoding = 0x08000103, pull = utf8_pull_call, push = utf8_push_call,
     cflags = CHARSET_VOLUME OR CHARSET_CLIENT OR CHARSET_MULTIBYTE OR CHARSET_DECOMPOSED\<rparr>"

definition charset_mac_roman :: charset_functions where
  "charset_mac_roman = \<lparr>cname = ''MAC_ROMAN'', kTextEncoding = 0, pull = mac_roman_pull, push = mac_roman_push,
     cflags = CHARSET_CLIENT OR CHARSET_MULTIBYTE OR CHARSET_PRECOMPOSED\<rparr>"

definition charset_mac_hebrew :: charset_functions where
  "charset_mac_hebrew = \<lparr>cname = ''MAC_HEBREW'', kTextEncoding = 5, pull = mac_hebrew_pull, push = mac_hebrew_push,
     cflags = CHARSET_CLIENT OR CHARSET_MULTIBYTE\<rparr>"

definition charset_mac_greek :: charset_functions where
  "charset_mac_greek = \<lparr>cname = ''MAC_GREEK'', kTextEncoding = 6, pull = mac_greek_pull, push = mac_greek_push,
     cflags = CHARSET_CLIENT OR CHARSET_MULTIBYTE\<rparr>"

definition charset_mac_turkish :: charset_functions where
  "charset_mac_turkish = \<lparr>cname = ''MAC_TURKISH'', kTextEncoding = 35, pull = mac_turkish_pull, push = mac_turkish_push,
     cflags = CHARSET_CLIENT OR CHARSET_MULTIBYTE\<rparr>"

definition charset_mac_centraleurope :: charset_functions where
  "charset_mac_centraleurope = \<lparr>cname = ''MAC_CENTRALEUROPE'', kTextEncoding = 29, pull = mac_centraleurope_pull,
     push = mac_centraleurope_push, cflags = CHARSET_CLIENT OR CHARSET_MULTIBYTE\<rparr>"

definition charset_mac_cyrillic :: charset_functions where
  "charset_mac_cyrillic = \<lparr>cname = ''MAC_CYRILLIC'', kTextEncoding = 7, pull = mac_cyrillic_pull, push = mac_cyrillic_push,
     cflags = CHARSET_CLIENT OR CHARSET_MULTIBYTE\<rparr>"

text \<open>Names are compared as \<open>strcasecmp\<close> does, by the lower-case form of ASCII letters.\<close>

definition to_lower :: "char \<Rightarrow> char" where
  "to_lower c = (if 65 \<le> (of_char c :: nat) \<and> (of_char c :: nat) \<le> 90 then char_of (of_char c + 32 :: nat) else c)"

definition strcaseeq :: "string \<Rightarrow> string \<Rightarrow> bool" where
  "strcaseeq a b \<longleftrightarrow> map to_lower a = map to_lower b"

definition find_charset_functions :: "charset_functions list \<Rightarrow> string \<Rightarrow> charset_functions option" where
  "find_charset_functions charsets name = find (\<lambda>c. strcaseeq name (cname c)) charsets"

definition atalk_register_charset :: "charset_functions list \<Rightarrow> charset_functions option \<Rightarrow> int \<times> charset_functions list" where
  "atalk_register_charset charsets funcs =
     (case funcs of
        None \<Rightarrow> (-1, charsets)
      | Some f \<Rightarrow> if find_charset_functions charsets (cname f) \<noteq> None then (-2, charsets) else (0, f # charsets))"

definition lazy_initialize_iconv :: "charset_functions list" where
  "lazy_initialize_iconv =
     foldl (\<lambda>charsets f. snd (atalk_register_charset charsets (Some f))) []
       (builtin_functions @ [charset_utf8, charset_utf8_mac, charset_mac_roman, charset_mac_hebrew, charset_mac_greek,
          charset_mac_turkish, charset_mac_centraleurope, charset_mac_cyrillic])"

subsection \<open>Descriptors\<close>

record atalk_iconv_t =
  direct :: "conv_fun option"
  d_pull :: "conv_fun option"
  d_push :: "conv_fun option"

text \<open>The first argument says whether the allocation succeeds; the names kept in a descriptor are never read.\<close>

definition atalk_iconv_open :: "bool \<Rightarrow> string \<Rightarrow> string \<Rightarrow> atalk_iconv_t option" where
  "atalk_iconv_open ok tocode fromcode =
     (if \<not> ok then None
      else if strcaseeq fromcode tocode then Some \<lparr>direct = Some iconv_copy, d_pull = None, d_push = None\<rparr>
      else
        (case (find_charset_functions lazy_initialize_iconv fromcode, find_charset_functions lazy_initialize_iconv tocode) of
           (Some from, Some to) \<Rightarrow>
             Some \<lparr>direct = (if strcaseeq tocode ''UCS-2'' then Some (pull from)
                             else if strcaseeq fromcode ''UCS-2'' then Some (push to) else None),
                   d_pull = Some (pull from), d_push = Some (push to)\<rparr>
         | _ \<Rightarrow> None))"

text \<open>Bytes stored over a buffer at a position.\<close>

definition store :: "bytes \<Rightarrow> nat \<Rightarrow> bytes \<Rightarrow> bytes" where
  "store buf pos bs = take pos buf @ bs @ drop (pos + length bs) buf"

text \<open>
  The conversion in chunks of 2048 bytes, \<open>out\<close> the bytes from the output position at the start on
  and \<open>pos\<close> how far that position has moved.
\<close>

partial_function (option) iconv_chunks :: "conv_fun \<Rightarrow> conv_fun \<Rightarrow> bytes \<Rightarrow> nat \<Rightarrow> bytes \<Rightarrow> nat \<Rightarrow> conv_call option" where
  "iconv_chunks pl ps inbuf outbytesleft out pos =
     (if inbuf \<noteq> [] then
        (let c = pl inbuf 2048 in
         if err c \<noteq> None \<and> err c \<noteq> Some E2BIG
         then Some \<lparr>err = err c, input = input c, wrote = out, room = outbytesleft, moved = pos\<rparr>
         else
           (let d = ps (take (2048 - room c) (wrote c)) outbytesleft; out = store out pos (wrote d); pos = pos + moved d in
            if err d \<noteq> None then Some \<lparr>err = err d, input = input c, wrote = out, room = room d, moved = pos\<rparr>
            else iconv_chunks pl ps (input c) (room d) out pos))
      else Some \<lparr>err = None, input = [], wrote = out, room = outbytesleft, moved = pos\<rparr>)"

definition atalk_iconv :: "atalk_iconv_t \<Rightarrow> bytes \<Rightarrow> nat \<Rightarrow> conv_call option" where
  "atalk_iconv cd inbuf outbytesleft =
     (case direct cd of
        Some f \<Rightarrow> Some (f inbuf outbytesleft)
      | None \<Rightarrow>
          (case (d_pull cd, d_push cd) of
             (Some pl, Some ps) \<Rightarrow> iconv_chunks pl ps inbuf outbytesleft [] 0
           | _ \<Rightarrow> None))"

end
