(* ===== verification/Charcnv.thy ===== *)
theory Charcnv
  imports Iconv Unistr Precompose "HOL-Library.Monad_Syntax"
begin

text \<open>
  Conversion of strings and file names between charsets: \<open>libatalk/unicode/charcnv.c\<close>.

  The static tables of the file are the fields of a state. A charset is its number. \<open>None\<close> is a read
  of an invalid pointer or an endless loop; an error of the function is \<open>Inl\<close> with the value of \<open>errno\<close>
  where the function or a conversion sets it. Whether the allocation of a number succeeds is an
  argument. A pointer to flags that is \<open>NULL\<close> is the flags 0. Strings are bytes in memory from the
  pointer on, and a length of \<open>None\<close> stands for \<open>-1\<close>.
\<close>

abbreviation (input) CH_UCS2 :: nat where "CH_UCS2 \<equiv> 0"
abbreviation (input) CH_UTF8 :: nat where "CH_UTF8 \<equiv> 1"
abbreviation (input) CH_MAC :: nat where "CH_MAC \<equiv> 2"
abbreviation (input) CH_UNIX :: nat where "CH_UNIX \<equiv> 3"
abbreviation (input) CH_UTF8_MAC :: nat where "CH_UTF8_MAC \<equiv> 4"
abbreviation (input) NUM_CHARSETS :: nat where "NUM_CHARSETS \<equiv> 5"
abbreviation (input) MAX_CHARSETS :: nat where "MAX_CHARSETS \<equiv> 20"

definition MAX_CONVERT_SIZE :: nat where "MAX_CONVERT_SIZE = 1048576"
definition MAXPATHLEN :: nat where "MAXPATHLEN = 4096"

definition CONV_IGNORE :: "16 word" where "CONV_IGNORE = 1"
definition CONV_ESCAPEHEX :: "16 word" where "CONV_ESCAPEHEX = 2"
definition CONV_ESCAPEDOTS :: "16 word" where "CONV_ESCAPEDOTS = 4"
definition CONV_UNESCAPEHEX :: "16 word" where "CONV_UNESCAPEHEX = 8"
definition CONV_TOUPPER :: "16 word" where "CONV_TOUPPER = 0x10"
definition CONV_TOLOWER :: "16 word" where "CONV_TOLOWER = 0x20"
definition CONV_PRECOMPOSE :: "16 word" where "CONV_PRECOMPOSE = 0x40"
definition CONV_DECOMPOSE :: "16 word" where "CONV_DECOMPOSE = 0x80"
definition CONV_FORCE :: "16 word" where "CONV_FORCE = 0x100"
definition CONV__EILSEQ :: "16 word" where "CONV__EILSEQ = 0x200"
definition CONV_REQMANGLE :: "16 word" where "CONV_REQMANGLE = 0x4000"
definition CONV_REQESCAPE :: "16 word" where "CONV_REQESCAPE = 0x8000"
definition IGNORE_CHAR :: ucs2 where "IGNORE_CHAR = 0x5F"

lemmas conv_flag_defs = CONV_IGNORE_def CONV_ESCAPEHEX_def CONV_ESCAPEDOTS_def CONV_UNESCAPEHEX_def CONV_TOUPPER_def CONV_TOLOWER_def
  CONV_PRECOMPOSE_def CONV_DECOMPOSE_def CONV_FORCE_def CONV__EILSEQ_def CONV_REQMANGLE_def CONV_REQESCAPE_def

abbreviation has :: "16 word \<Rightarrow> 16 word \<Rightarrow> bool" where "has fl f \<equiv> fl AND f \<noteq> 0"

text \<open>UCS2 strings as bytes in memory.\<close>

fun units :: "bytes \<Rightarrow> ucs2 list" where
  "units (a # b # r) = SVAL a b # units r"
| "units _ = []"

abbreviation unit_bytes :: "ucs2 list \<Rightarrow> bytes" where "unit_bytes us \<equiv> concat (map SSVAL us)"

fun strlen_bytes :: "bytes \<Rightarrow> nat option" where
  "strlen_bytes [] = None"
| "strlen_bytes (c # s) = (if c = 0 then Some 0 else map_option Suc (strlen_bytes s))"

subsection \<open>State\<close>

record conv_state =
  charset_names :: "nat \<Rightarrow> string option"
  conv_handles :: "nat \<Rightarrow> nat \<Rightarrow> atalk_iconv_t option"
  charsets :: "nat \<Rightarrow> charset_functions option"
  source_unit_sizes :: "nat \<Rightarrow> nat"
  max_charset_t :: nat
  initialized :: bool
  mallocs :: nat

definition conv_start :: conv_state where
  "conv_start = \<lparr>charset_names = (\<lambda>_. None), conv_handles = (\<lambda>_ _. None), charsets = (\<lambda>_. None), source_unit_sizes = (\<lambda>_. 0),
     max_charset_t = NUM_CHARSETS - 1, initialized = False, mallocs = 0\<rparr>"

definition charset_name :: "conv_state \<Rightarrow> nat \<Rightarrow> string option" where
  "charset_name st ch =
     (if ch = CH_UCS2 then Some ''UCS-2'' else if ch = CH_UTF8 then Some ''UTF8'' else if ch = CH_UTF8_MAC then Some ''UTF8-MAC''
      else charset_names st ch)"

text \<open>An allocation, and a handle stored for a pair of charsets.\<close>

definition alloc :: "(nat \<Rightarrow> bool) \<Rightarrow> conv_state \<Rightarrow> bool \<times> conv_state" where
  "alloc env st = (env (mallocs st), st\<lparr>mallocs := Suc (mallocs st)\<rparr>)"

definition open_handle :: "(nat \<Rightarrow> bool) \<Rightarrow> conv_state \<Rightarrow> string \<Rightarrow> string \<Rightarrow> atalk_iconv_t option \<times> conv_state" where
  "open_handle env st tocode fromcode = (case alloc env st of (ok, st) \<Rightarrow> (atalk_iconv_open ok tocode fromcode, st))"

definition set_handle :: "conv_state \<Rightarrow> nat \<Rightarrow> nat \<Rightarrow> atalk_iconv_t option \<Rightarrow> conv_state" where
  "set_handle st from to h = st\<lparr>conv_handles := (conv_handles st)(from := (conv_handles st from)(to := h))\<rparr>"

definition set_charset_name :: "(nat \<Rightarrow> bool) \<Rightarrow> conv_state \<Rightarrow> nat \<Rightarrow> string \<Rightarrow> int \<times> conv_state" where
  "set_charset_name env st ch name =
     (if ch \<ge> NUM_CHARSETS then (-1, st)
      else
        (case alloc env st of
           (ok, st) \<Rightarrow>
             (0, st\<lparr>charset_names := (charset_names st)(ch := if ok then Some name else None),
                    source_unit_sizes := (source_unit_sizes st)(ch := 0)\<rparr>)))"

definition free_charset_names :: "conv_state \<Rightarrow> conv_state" where
  "free_charset_names st =
     st\<lparr>source_unit_sizes := (\<lambda>ch. if ch < MAX_CHARSETS then 0 else source_unit_sizes st ch),
        charset_names := (\<lambda>ch. if ch < MAX_CHARSETS then None else charset_names st ch)\<rparr>"

definition get_charset_functions :: "conv_state \<Rightarrow> nat \<Rightarrow> (charset_functions option \<times> conv_state) option" where
  "get_charset_functions st ch =
     (case charsets st ch of
        Some f \<Rightarrow> Some (Some f, st)
      | None \<Rightarrow>
          do {
            name \<leftarrow> charset_name st ch;
            let f = find_charset_functions lazy_initialize_iconv name;
            Some (f, st\<lparr>charsets := (charsets st)(ch := f)\<rparr>)
          })"

definition init_charset :: "(nat \<Rightarrow> bool) \<Rightarrow> conv_state \<Rightarrow> nat \<Rightarrow> conv_state option" where
  "init_charset env st c1 =
     do {
       name \<leftarrow> charset_name st c1;
       let (h, st) = open_handle env st ''UCS-2'' name;
       let st = set_handle st c1 CH_UCS2 h;
       let st = (if c1 \<noteq> CH_UCS2 then (case open_handle env st name ''UCS-2'' of (h, st) \<Rightarrow> set_handle st CH_UCS2 c1 h) else st);
       (f, st) \<leftarrow> get_charset_functions st c1;
       Some (st\<lparr>charsets := (charsets st)(c1 := f)\<rparr>)
     }"

definition init_iconv :: "(nat \<Rightarrow> bool) \<Rightarrow> conv_state \<Rightarrow> conv_state option" where
  "init_iconv env st = foldl (\<lambda>s c1. Option.bind s (\<lambda>st. init_charset env st c1)) (Some st) [0..<NUM_CHARSETS]"

definition lazy_initialize_conv :: "(nat \<Rightarrow> bool) \<Rightarrow> conv_state \<Rightarrow> conv_state option" where
  "lazy_initialize_conv env st = (if initialized st then Some st else init_iconv env (st\<lparr>initialized := True\<rparr>))"

fun find_name :: "conv_state \<Rightarrow> string \<Rightarrow> nat list \<Rightarrow> nat option option" where
  "find_name st name [] = Some None"
| "find_name st name (c1 # cs) =
     Option.bind (charset_name st c1) (\<lambda>n. if strcaseeq name n then Some (Some c1) else find_name st name cs)"

text \<open>The registration of a charset that has no number yet.\<close>

definition add_new_charset :: "(nat \<Rightarrow> bool) \<Rightarrow> conv_state \<Rightarrow> string \<Rightarrow> nat \<Rightarrow> (nat option \<times> conv_state) option" where
  "add_new_charset env st name cur =
     (case open_handle env st ''UCS-2'' name of
        (h, st) \<Rightarrow>
          if h = None then Some (None, set_handle st cur CH_UCS2 None)
          else
            (case open_handle env (set_handle st cur CH_UCS2 h) name ''UCS-2'' of
               (h, st) \<Rightarrow>
                 if h = None then Some (None, set_handle st CH_UCS2 cur None)
                 else
                   (case alloc env (set_handle st CH_UCS2 cur h) of
                      (ok, st) \<Rightarrow>
                        do {
                          (f, st) \<leftarrow> get_charset_functions
                            (st\<lparr>charset_names := (charset_names st)(cur := if ok then Some name else None)\<rparr>) cur;
                          Some (Some cur, st\<lparr>charsets := (charsets st)(cur := f), max_charset_t := max_charset_t st + 1\<rparr>)
                        })))"

definition add_charset :: "(nat \<Rightarrow> bool) \<Rightarrow> conv_state \<Rightarrow> string \<Rightarrow> (nat option \<times> conv_state) option" where
  "add_charset env st name =
     do {
       let cur = max_charset_t st + 1;
       st \<leftarrow> lazy_initialize_conv env st;
       found \<leftarrow> find_name st name [0..<max_charset_t st + 1];
       case found of
         Some c1 \<Rightarrow> Some (Some c1, st)
       | None \<Rightarrow>
           if cur \<ge> MAX_CHARSETS then Some (None, st)
           else
             add_new_charset env st name cur
     }"

subsection \<open>Strings\<close>

text \<open>A result is the length and the bytes in the buffer from its start, with their terminator.\<close>

type_synonym conv_str = "conv_error option + nat \<times> bytes"

definition add_null :: "nat \<Rightarrow> bytes \<Rightarrow> nat \<Rightarrow> nat \<Rightarrow> conv_str" where
  "add_null to buf bytesleft len =
     (if to = CH_UCS2 \<and> bytesleft \<ge> 2 then Inr (len, take len buf @ [0, 0])
      else if to \<noteq> CH_UCS2 \<and> bytesleft > 0 then Inr (len, take len buf @ [0])
      else Inl (Some E2BIG))"

definition convert_string_internal :: "(nat \<Rightarrow> bool) \<Rightarrow> conv_state \<Rightarrow> nat \<Rightarrow> nat \<Rightarrow> bytes \<Rightarrow> nat option \<Rightarrow> nat \<Rightarrow> (conv_str \<times> conv_state) option" where
  "convert_string_internal env st from to src srclen destlen =
     do {
       n \<leftarrow> (case srclen of Some n \<Rightarrow> Some n
             | None \<Rightarrow> if from = CH_UCS2 then map_option (\<lambda>n. 2 * n) (strlen_w (units src)) else strlen_bytes src);
       st \<leftarrow> lazy_initialize_conv env st;
       case conv_handles st from to of
         None \<Rightarrow> Some (Inl None, st)
       | Some descriptor \<Rightarrow>
           if n > length src then None
           else
             do {
               c \<leftarrow> atalk_iconv descriptor (take n src) destlen;
               Some (if err c \<noteq> None then Inl (err c) else add_null to (wrote c) (room c) (destlen - room c), st)
             }
     }"

text \<open>Composition or decomposition between the two conversions: the UCS2 string and its length.\<close>

definition compose_for :: "conv_state \<Rightarrow> nat \<Rightarrow> nat \<Rightarrow> 16 word \<Rightarrow> nat \<Rightarrow> nat \<Rightarrow> bytes \<Rightarrow> conv_error option + nat \<times> bytes" where
  "compose_for st from to fl size2 o_len buf =
     (let composed = (\<lambda>(r, out, _). case r of Inl e \<Rightarrow> Inl e | Inr i_len \<Rightarrow> Inr (i_len, unit_bytes out)) in
      if has fl CONV_DECOMPOSE \<or> (case charsets st to of Some f \<Rightarrow> cflags f AND CHARSET_DECOMPOSED \<noteq> 0 | None \<Rightarrow> False)
      then composed (decompose_w (units buf) o_len size2)
      else if has fl CONV_PRECOMPOSE \<or> (case charsets st from of Some f \<Rightarrow> cflags f AND CHARSET_DECOMPOSED \<noteq> 0 | None \<Rightarrow> True)
      then composed (precompose_w (units buf) o_len size2)
      else Inr (o_len, buf))"

definition convert_string :: "(nat \<Rightarrow> bool) \<Rightarrow> conv_state \<Rightarrow> nat \<Rightarrow> nat \<Rightarrow> bytes \<Rightarrow> nat option \<Rightarrow> nat \<Rightarrow> (conv_str \<times> conv_state) option" where
  "convert_string env st from to src srclen destlen =
     do {
       (r, st) \<leftarrow> convert_string_internal env st from CH_UCS2 src srclen (2 * MAXPATHLEN);
       case r of
         Inl _ \<Rightarrow> Some (r, st)
       | Inr (o_len, buf) \<Rightarrow>
           (case compose_for st from to 0 (2 * MAXPATHLEN) o_len buf of
              Inl e \<Rightarrow> Some (Inl e, st)
            | Inr (i_len, u) \<Rightarrow> convert_string_internal env st CH_UCS2 to u (Some i_len) destlen)
     }"

text \<open>Conversion into a new buffer: its length and the buffer, or \<open>None\<close> for a null pointer.\<close>

type_synonym conv_alloc = "conv_error option + nat \<times> bytes option"

partial_function (option) convert_grow :: "(nat \<Rightarrow> bool) \<Rightarrow> conv_state \<Rightarrow> atalk_iconv_t \<Rightarrow> nat \<Rightarrow> bytes \<Rightarrow> nat \<Rightarrow> (conv_alloc \<times> conv_state) option" where
  "convert_grow env st descriptor to src destlen =
     (if destlen > MAX_CONVERT_SIZE then Some (Inl None, st)
      else
        (case alloc env st of
           (ok, st) \<Rightarrow>
             if \<not> ok then Some (Inl None, st)
             else
               Option.bind (atalk_iconv descriptor src (2 * destlen)) (\<lambda>c.
                 if err c = Some E2BIG then convert_grow env st descriptor to src (2 * destlen)
                 else if err c \<noteq> None then Some (Inl (err c), st)
                 else if (if to = CH_UCS2 then room c \<ge> 2 else room c > 0) then
                   (let len = 2 * destlen - room c; buf = take len (wrote c) @ (if to = CH_UCS2 then [0, 0] else [0]) in
                    case alloc env st of
                      (ok, st) \<Rightarrow> Some (if len \<noteq> 0 \<and> \<not> ok then Inl None else Inr (len, if ok then Some buf else None), st))
                 else convert_grow env st descriptor to src (2 * destlen - room c))))"

definition convert_string_allocate_internal ::
    "(nat \<Rightarrow> bool) \<Rightarrow> conv_state \<Rightarrow> nat \<Rightarrow> nat \<Rightarrow> bytes option \<Rightarrow> nat option \<Rightarrow> (conv_alloc \<times> conv_state) option" where
  "convert_string_allocate_internal env st from to src srclen =
     (case (src, srclen) of
        (Some src, Some srclen) \<Rightarrow>
          do {
            st \<leftarrow> lazy_initialize_conv env st;
            case conv_handles st from to of
              None \<Rightarrow> Some (Inl None, st)
            | Some descriptor \<Rightarrow>
                if srclen > length src then None else convert_grow env st descriptor to (take srclen src) (max srclen 512)
          }
      | _ \<Rightarrow> Some (Inl None, st))"

definition convert_string_allocate :: "(nat \<Rightarrow> bool) \<Rightarrow> conv_state \<Rightarrow> nat \<Rightarrow> nat \<Rightarrow> bytes \<Rightarrow> nat option \<Rightarrow> (conv_alloc \<times> conv_state) option" where
  "convert_string_allocate env st from to src srclen =
     do {
       (r, st) \<leftarrow> convert_string_internal env st from CH_UCS2 src srclen (2 * MAXPATHLEN);
       case r of
         Inl e \<Rightarrow> Some (Inl e, st)
       | Inr (o_len, buf) \<Rightarrow>
           (case compose_for st from to 0 (2 * MAXPATHLEN) o_len buf of
              Inl e \<Rightarrow> Some (Inl e, st)
            | Inr (i_len, u) \<Rightarrow> convert_string_allocate_internal env st CH_UCS2 to (Some u) (Some i_len))
     }"

text \<open>The case of a string; \<open>same\<close> says that the output buffer is the source. \<open>Inr (n, None)\<close> leaves it as it is.\<close>

definition charset_strcase :: "(ucs2 list \<Rightarrow> (ucs2 list \<times> bool) option) \<Rightarrow> (nat \<Rightarrow> bool) \<Rightarrow> conv_state \<Rightarrow> nat \<Rightarrow> bytes \<Rightarrow> nat \<Rightarrow> bool \<Rightarrow> nat \<Rightarrow>
    (conv_alloc \<times> conv_state) option" where
  "charset_strcase fold_case env st ch src srclen same destlen =
     do {
       (r, st) \<leftarrow> convert_string_allocate_internal env st ch CH_UCS2 (Some src) (Some srclen);
       case r of
         Inl e \<Rightarrow> Some (Inl e, st)
       | Inr (n, buf) \<Rightarrow>
           do {
             buf \<leftarrow> buf;
             (us, changed) \<leftarrow> fold_case (units buf);
             if \<not> changed \<and> same then Some (Inr (srclen, None), st)
             else
               do {
                 (r, st) \<leftarrow> convert_string_internal env st CH_UCS2 ch (unit_bytes us) (Some n) destlen;
                 Some (map_sum id (map_prod id Some) r, st)
               }
           }
     }"

definition charset_strupper :: "(nat \<Rightarrow> bool) \<Rightarrow> conv_state \<Rightarrow> nat \<Rightarrow> bytes \<Rightarrow> nat \<Rightarrow> bool \<Rightarrow> nat \<Rightarrow> (conv_alloc \<times> conv_state) option" where
  "charset_strupper = charset_strcase strupper_w"

definition charset_strlower :: "(nat \<Rightarrow> bool) \<Rightarrow> conv_state \<Rightarrow> nat \<Rightarrow> bytes \<Rightarrow> nat \<Rightarrow> bool \<Rightarrow> nat \<Rightarrow> (conv_alloc \<times> conv_state) option" where
  "charset_strlower = charset_strcase strlower_w"

definition ucs2_to_charset :: "(nat \<Rightarrow> bool) \<Rightarrow> conv_state \<Rightarrow> nat \<Rightarrow> bytes \<Rightarrow> nat \<Rightarrow> (conv_str \<times> conv_state) option" where
  "ucs2_to_charset env st ch src destlen =
     do { n \<leftarrow> strlen_w (units src); convert_string env st CH_UCS2 ch src (Some (2 * n)) destlen }"

definition ucs2_to_charset_allocate :: "(nat \<Rightarrow> bool) \<Rightarrow> conv_state \<Rightarrow> nat \<Rightarrow> bytes \<Rightarrow> (conv_alloc \<times> conv_state) option" where
  "ucs2_to_charset_allocate env st ch src =
     do { n \<leftarrow> strlen_w (units src); convert_string_allocate env st CH_UCS2 ch src (Some (2 * n)) }"

text \<open>The common body of \<open>charset_precompose\<close> and \<open>charset_decompose\<close>, which differ in the routine they call.\<close>

definition charset_compose :: "(ucs2 list \<Rightarrow> nat \<Rightarrow> nat \<Rightarrow> w_result) \<Rightarrow> (nat \<Rightarrow> bool) \<Rightarrow> conv_state \<Rightarrow> nat \<Rightarrow> bytes \<Rightarrow> nat \<Rightarrow> nat \<Rightarrow>
    (conv_str \<times> conv_state) option" where
  "charset_compose form env st ch src inlen outlen =
     do {
       (r, st) \<leftarrow> convert_string_allocate_internal env st ch CH_UCS2 (Some src) (Some inlen);
       case r of
         Inl e \<Rightarrow> Some (Inl e, st)
       | Inr (len, buf) \<Rightarrow>
           if len > 0 \<and> buf = None then None
           else
             (case form (units (case buf of Some b \<Rightarrow> b | None \<Rightarrow> [])) len (2 * MAXPATHLEN) of
                (Inl e, _) \<Rightarrow> Some (Inl e, st)
              | (Inr ilen, u, _) \<Rightarrow> convert_string_internal env st CH_UCS2 ch (unit_bytes u) (Some ilen) outlen)
     }"

definition charset_precompose :: "(nat \<Rightarrow> bool) \<Rightarrow> conv_state \<Rightarrow> nat \<Rightarrow> bytes \<Rightarrow> nat \<Rightarrow> nat \<Rightarrow> (conv_str \<times> conv_state) option" where
  "charset_precompose = charset_compose precompose_w"

definition charset_decompose :: "(nat \<Rightarrow> bool) \<Rightarrow> conv_state \<Rightarrow> nat \<Rightarrow> bytes \<Rightarrow> nat \<Rightarrow> nat \<Rightarrow> (conv_str \<times> conv_state) option" where
  "charset_decompose = charset_compose decompose_w"

subsection \<open>File names\<close>

definition filename_hex_value :: "ucs2 \<Rightarrow> int" where
  "filename_hex_value c =
     (if 0x30 \<le> c \<and> c \<le> 0x39 then uint (c - 0x30)
      else if 0x61 \<le> c \<and> c \<le> 0x66 then uint (c - 0x61) + 10
      else if 0x41 \<le> c \<and> c \<le> 0x46 then uint (c - 0x41) + 10
      else -1)"

definition source_code_unit_size :: "(nat \<Rightarrow> bool) \<Rightarrow> conv_state \<Rightarrow> nat \<Rightarrow> (nat \<times> conv_state) option" where
  "source_code_unit_size env st from_set =
     (if source_unit_sizes st from_set \<noteq> 0 then Some (source_unit_sizes st from_set, st)
      else
        do {
          name \<leftarrow> charset_name st from_set;
          let (descriptor, st) = open_handle env st name ''UCS-2'';
          unit \<leftarrow>
            (case descriptor of
               None \<Rightarrow> Some 1
             | Some d \<Rightarrow>
                 do {
                   c \<leftarrow> atalk_iconv d [0, 0] 16;
                   if err c = None \<and> input c = [] then
                     do {
                       c2 \<leftarrow> atalk_iconv d [0, 0] (room c);
                       Some (if err c2 = None \<and> input c2 = [] then room c - room c2 else 1)
                     }
                   else Some 1
                 });
          let unit = (if unit = 2 \<or> unit = 4 then unit else 1);
          Some (unit, st\<lparr>source_unit_sizes := (source_unit_sizes st)(from_set := unit)\<rparr>)
        })"

text \<open>Conversions of the built-in charsets keep no state, so that replaying a BOM changes nothing but the result.\<close>

definition restore_source_bom :: "(nat \<Rightarrow> bool) \<Rightarrow> conv_state \<Rightarrow> atalk_iconv_t \<Rightarrow> nat \<Rightarrow> bytes \<Rightarrow> nat \<Rightarrow> (bool \<times> conv_state) option" where
  "restore_source_bom env st descriptor from_set src unit =
     (if unit = 1 \<or> length src < unit then Some (True, st)
      else
        do {
          name \<leftarrow> charset_name st from_set;
          let (probe, st) = open_handle env st ''UCS-2'' name;
          case probe of
            None \<Rightarrow> Some (False, st)
          | Some p \<Rightarrow>
              do {
                c \<leftarrow> atalk_iconv p (take unit src) 4;
                if err c = None \<and> input c = [] \<and> room c = 4 then
                  do { d \<leftarrow> atalk_iconv descriptor (take unit src) 4; Some (err d = None, st) }
                else Some (True, st)
              }
        })"

text \<open>
  The loop of \<open>decode_source_ucs2\<close>: \<open>dec\<close> is what the buffer holds, \<open>pos\<close> the position in it and \<open>left\<close>
  its free space. The result is the error, or the decoded units and the input that is left.
\<close>

partial_function (option) decode_loop :: "(nat \<Rightarrow> bool) \<Rightarrow> conv_state \<Rightarrow> atalk_iconv_t \<Rightarrow> nat \<Rightarrow> nat \<Rightarrow> bytes \<Rightarrow> bytes \<Rightarrow> bytes \<Rightarrow> nat \<Rightarrow> nat \<Rightarrow> 16 word \<Rightarrow>
    ((conv_error option + ucs2 list \<times> bytes) \<times> 16 word \<times> conv_state) option" where
  "decode_loop env st descriptor from_set unit src inp dec pos left fl =
     (if inp = [] then Some (Inr (units (take pos dec), inp), fl, st)
      else
        (let k = (if from_set = CH_UCS2 then length inp - length inp mod 2 else length inp) in
         Option.bind (atalk_iconv descriptor (take k inp) left) (\<lambda>c.
           let inp = input c @ drop k inp; dec = store dec pos (wrote c); pos = pos + moved c; left = room c;
               stop = (\<lambda>dec pos fl st. Some (Inr (units (take pos dec), inp), fl, st)) in
           if err c = None \<and> inp = [] then stop dec pos fl st
           else if err c = Some E2BIG then (if has fl CONV_FORCE then stop dec pos fl st else Some (Inl (Some E2BIG), fl, st))
           else if has fl CONV_IGNORE then stop dec pos (fl OR CONV_REQMANGLE) st
           else if has fl CONV__EILSEQ then
             (if left < 2 then (if has fl CONV_FORCE then stop dec pos fl st else Some (Inl (Some E2BIG), fl, st))
              else
                (let dec = store dec pos (SSVAL IGNORE_CHAR); pos = pos + 2; left = left - 2; inp = drop (min (length inp) unit) inp in
                 if inp = [] then decode_loop env st descriptor from_set unit src inp dec pos left fl
                 else
                   Option.bind (restore_source_bom env st descriptor from_set src unit) (\<lambda>(ok, st).
                     if ok then decode_loop env st descriptor from_set unit src inp dec pos left fl
                     else if has fl CONV_FORCE then Some (Inr (units (take pos dec), inp), fl, st)
                     else Some (Inl None, fl, st))))
           else if has fl CONV_FORCE then stop dec pos fl st
           else Some (Inl (Some EILSEQ), fl, st))))"

definition decode_source_ucs2 :: "(nat \<Rightarrow> bool) \<Rightarrow> conv_state \<Rightarrow> nat \<Rightarrow> bytes \<Rightarrow> nat option \<Rightarrow> nat \<Rightarrow> 16 word \<Rightarrow>
    ((conv_error option + ucs2 list \<times> bytes) \<times> 16 word \<times> conv_state) option" where
  "decode_source_ucs2 env st from_set src srclen decoded_len fl =
     (case conv_handles st from_set CH_UCS2 of
        None \<Rightarrow> Some (Inl (Some EINVAL), fl, st)
      | Some descriptor \<Rightarrow>
          do {
            (unit, st) \<leftarrow> source_code_unit_size env st from_set;
            n \<leftarrow> (case srclen of Some n \<Rightarrow> Some n
                  | None \<Rightarrow> if from_set = CH_UCS2 then map_option (\<lambda>n. 2 * n + 2) (strlen_w (units src))
                            else map_option Suc (strlen_bytes src));
            if n > length src then None
            else decode_loop env st descriptor from_set unit (take n src) (take n src) [] 0 decoded_len fl
          })"

text \<open>The bytes of a sequence of \<open>:xx\<close> escapes, with what follows it; \<open>None\<close> when they exceed their buffer.\<close>

fun hex_run :: "ucs2 list \<Rightarrow> bytes \<Rightarrow> (bytes \<times> ucs2 list) option" where
  "hex_run (c # h # l # ds) hex =
     (if c = 0x3A \<and> filename_hex_value h \<ge> 0 \<and> filename_hex_value l \<ge> 0 then
        (if length hex = MAXPATHLEN then None
         else hex_run ds (hex @ [word_of_int (filename_hex_value h * 16 + filename_hex_value l)]))
      else Some (hex, c # h # l # ds))"
| "hex_run ds hex = Some (hex, ds)"

lemma hex_run_shrinks: "hex_run ds hex = Some (hex', ds') \<Longrightarrow> length ds' + 3 * length hex' = length ds + 3 * length hex"
  by (induction ds hex rule: hex_run.induct) (auto split: if_splits)

lemma hex_run_less: "hex_run ds [] = Some (hex, ds') \<Longrightarrow> hex \<noteq> [] \<Longrightarrow> length ds' < length ds"
  by (cases hex) (auto dest: hex_run_shrinks)

abbreviation mac_set :: "nat \<Rightarrow> bool" where "mac_set ch \<equiv> ch = CH_UTF8_MAC \<or> ch = CH_MAC"

text \<open>The units that stand for a character which is not decoded from escapes.\<close>

definition emit_units :: "nat \<Rightarrow> nat \<Rightarrow> 16 word \<Rightarrow> ucs2 \<Rightarrow> ucs2 list" where
  "emit_units from_set to_set fl c =
     (if (c = 0x3A \<or> c = 0x2F) \<and> has fl CONV_ESCAPEHEX
      then [0x3A, if c = 0x3A then 0x33 else 0x32, if c = 0x3A then 0x61 else 0x66]
      else if c = 0x3A \<and> mac_set to_set then [0x2F]
      else if c = 0x2F \<and> mac_set from_set \<and> \<not> mac_set to_set then [0x3A]
      else [c])"

text \<open>
  The loop of \<open>emit_filename_chars\<close>: \<open>start\<close> holds at the first character, \<open>out\<close> is what the buffer holds,
  \<open>pos\<close> the position in it. \<open>opt\<close> are the flags of the call, which the loop does not see change.
\<close>

function emit_loop :: "nat \<Rightarrow> nat \<Rightarrow> atalk_iconv_t option \<Rightarrow> 16 word \<Rightarrow> nat \<Rightarrow> nat \<Rightarrow> bool \<Rightarrow> ucs2 list \<Rightarrow> bytes \<Rightarrow> nat \<Rightarrow> nat \<Rightarrow> 16 word \<Rightarrow>
    (conv_str \<times> 16 word) option" where
  "emit_loop from_set to_set cap opt destlen input_left start ds out pos left fl =
     (let stop = (\<lambda>e out left. Some (if has opt CONV_FORCE then Inr (destlen - left, out) else Inl e, fl)) in
      case ds of
        [] \<Rightarrow> Some (Inr (destlen - left, out), fl)
      | c # rest \<Rightarrow>
          if start \<and> (length ds \<ge> 2 \<or> input_left > 0) \<and> c = 0x2E \<and> has opt CONV_ESCAPEDOTS then
            (if left < 6 then Some (if has opt CONV_FORCE then Inr (destlen - left, out) else Inl (Some E2BIG), fl OR CONV_REQESCAPE)
             else emit_loop from_set to_set cap opt destlen input_left False rest
               (store out pos (unit_bytes [0x3A, 0x32, 0x65])) (pos + 6) (left - 6) (fl OR CONV_REQESCAPE))
          else if c = 0x3A \<and> has opt CONV_UNESCAPEHEX then
            (case hex_run ds [] of
               None \<Rightarrow> stop (Some E2BIG) out left
             | Some (hex, ds') \<Rightarrow>
                 if hex = [] then
                   (if has opt CONV_IGNORE then Some (Inr (destlen - left, out), fl OR CONV_REQMANGLE) else stop (Some EILSEQ) out left)
                 else
                   (case cap of
                      None \<Rightarrow> stop (Some EINVAL) out left
                    | Some d \<Rightarrow>
                        (case atalk_iconv d hex left of
                           None \<Rightarrow> None
                         | Some call \<Rightarrow>
                             let out' = store out pos (wrote call) in
                             if err call \<noteq> None then
                               (if err call = Some EILSEQ \<and> has opt CONV_IGNORE
                                then Some (Inr (destlen - room call, out'), fl OR CONV_REQMANGLE)
                                else stop (err call) out' (room call))
                             else emit_loop from_set to_set cap opt destlen input_left False ds' out' (pos + moved call) (room call) fl)))
          else
            (let os = emit_units from_set to_set opt c in
             if left < 2 * length os then stop (Some E2BIG) out left
             else emit_loop from_set to_set cap opt destlen input_left False rest
               (store out pos (unit_bytes os)) (pos + 2 * length os) (left - 2 * length os) fl))"
  by pat_completeness auto
termination
  by (relation "measure (\<lambda>(_, _, _, _, _, _, _, ds, _). length ds)") (auto dest: hex_run_less)

declare emit_loop.simps [simp del]

definition emit_filename_chars :: "conv_state \<Rightarrow> nat \<Rightarrow> nat \<Rightarrow> nat \<Rightarrow> ucs2 list \<Rightarrow> nat \<Rightarrow> nat \<Rightarrow> 16 word \<Rightarrow> (conv_str \<times> 16 word) option" where
  "emit_filename_chars st from_set to_set cap_set decoded input_left destlen fl =
     emit_loop from_set to_set (conv_handles st cap_set CH_UCS2) fl destlen input_left True decoded [] 0 destlen fl"

definition pull_charset_flags :: "(nat \<Rightarrow> bool) \<Rightarrow> conv_state \<Rightarrow> nat \<Rightarrow> nat \<Rightarrow> nat \<Rightarrow> bytes \<Rightarrow> nat option \<Rightarrow> nat \<Rightarrow> 16 word \<Rightarrow>
    (conv_str \<times> 16 word \<times> conv_state) option" where
  "pull_charset_flags env st from_set to_set cap_set src srclen destlen fl =
     do {
       let decoded_len = (MAXPATHLEN + 1) * 2 * (if has fl CONV_UNESCAPEHEX then 3 else 1);
       (r, fl, st) \<leftarrow> decode_source_ucs2 env st from_set src srclen decoded_len fl;
       case r of
         Inl e \<Rightarrow> Some (Inl e, fl, st)
       | Inr (decoded, rest) \<Rightarrow>
           map_option (\<lambda>(r, fl). (r, fl, st)) (emit_filename_chars st from_set to_set cap_set decoded (length rest) destlen fl)
     }"

text \<open>
  The bytes of the next character in the CAP charset: a buffer that grows by a byte until the conversion
  writes something. \<open>Inl\<close> is the error that ends the call.
\<close>

function escape_loop :: "atalk_iconv_t \<Rightarrow> bytes \<Rightarrow> nat \<Rightarrow> nat \<Rightarrow> (conv_error + bytes \<times> bytes) option" where
  "escape_loop cap inp buflen bufsiz =
     (if buflen \<le> bufsiz then
        (case atalk_iconv cap inp buflen of
           None \<Rightarrow> None
         | Some c \<Rightarrow>
             (case err c of
                None \<Rightarrow> Some (Inr (input c, take (buflen - room c) (wrote c)))
              | Some e \<Rightarrow>
                  if e \<noteq> E2BIG then Some (Inl e)
                  else if room c < buflen then Some (Inr (input c, take (buflen - room c) (wrote c)))
                  else escape_loop cap (input c) (Suc buflen) bufsiz))
      else Some (Inl E2BIG))"
  by pat_completeness auto
termination by (relation "measure (\<lambda>(_, _, buflen, bufsiz). Suc bufsiz - buflen)") auto

declare escape_loop.simps [simp del]

definition hexdig :: "byte list" where
  "hexdig = [0x30, 0x31, 0x32, 0x33, 0x34, 0x35, 0x36, 0x37, 0x38, 0x39, 0x61, 0x62, 0x63, 0x64, 0x65, 0x66]"

definition hex_escape :: "byte \<Rightarrow> bytes" where
  "hex_escape b = [0x3A, hexdig ! unat (drop_bit 4 b AND 0x0F), hexdig ! unat (b AND 0x0F)]"

text \<open>The end of \<open>push_charset_flags\<close> with the input that is left.\<close>

definition push_end :: "16 word \<Rightarrow> nat \<Rightarrow> bytes \<Rightarrow> nat \<Rightarrow> conv_error option \<Rightarrow> conv_error option + nat" where
  "push_end opt destlen inp left e = (if inp = [] \<or> has opt CONV_FORCE then Inr (destlen - left) else Inl e)"

partial_function (option) push_loop :: "(nat \<Rightarrow> bool) \<Rightarrow> conv_state \<Rightarrow> atalk_iconv_t \<Rightarrow> atalk_iconv_t option \<Rightarrow> 16 word \<Rightarrow> nat \<Rightarrow> bytes \<Rightarrow> bytes \<Rightarrow> nat \<Rightarrow> nat \<Rightarrow> 16 word \<Rightarrow>
    ((conv_error option + nat) \<times> bytes \<times> 16 word \<times> conv_state) option" where
  "push_loop env st descriptor cap opt destlen inp dest pos left fl =
     (if inp = [] then Some (push_end opt destlen inp left None, dest, fl, st)
      else
        Option.bind (atalk_iconv descriptor inp left) (\<lambda>c.
          let inp = input c; dest = store dest pos (wrote c); pos = pos + moved c; left = room c in
          if err c = None then
            (if length inp \<ge> 2 then push_loop env st descriptor cap opt destlen inp dest pos left fl
             else Some (push_end opt destlen inp left (Some EINVAL), dest, fl, st))
          else if err c = Some EILSEQ \<and> has opt CONV_IGNORE then Some (Inr (destlen - left), dest, fl OR CONV_REQMANGLE, st)
          else if err c = Some EILSEQ \<and> has opt CONV_ESCAPEHEX then
            (case alloc env st of
               (ok, st) \<Rightarrow>
                 if \<not> ok then Some (push_end opt destlen inp left None, dest, fl, st)
                 else
                   Option.bind cap (\<lambda>cap_d. Option.bind (escape_loop cap_d inp 1 (left div 3 + 1)) (\<lambda>r.
                     case r of
                       Inl e \<Rightarrow> Some (push_end opt destlen inp left (Some e), dest, fl, st)
                     | Inr (rest, bs) \<Rightarrow>
                         if left < 3 * length bs then Some (push_end opt destlen inp left (Some E2BIG), dest, fl, st)
                         else push_loop env st descriptor cap opt destlen rest (store dest pos (concat (map hex_escape bs)))
                           (pos + 3 * length bs) (left - 3 * length bs) (fl OR CONV_REQESCAPE))))
          else Some (push_end opt destlen inp left (err c), dest, fl, st)))"

definition push_charset_flags :: "(nat \<Rightarrow> bool) \<Rightarrow> conv_state \<Rightarrow> nat \<Rightarrow> nat \<Rightarrow> bytes \<Rightarrow> bytes \<Rightarrow> nat \<Rightarrow> 16 word \<Rightarrow>
    ((conv_error option + nat) \<times> bytes \<times> 16 word \<times> conv_state) option" where
  "push_charset_flags env st to_set cap_set src dest destlen fl =
     (case conv_handles st CH_UCS2 to_set of
        None \<Rightarrow> Some (Inl (Some EINVAL), dest, fl, st)
      | Some descriptor \<Rightarrow>
          if length src < 2 then Some (push_end fl destlen src destlen (Some EINVAL), dest, fl, st)
          else push_loop env st descriptor (conv_handles st CH_UCS2 cap_set) fl destlen src dest 0 destlen fl)"

text \<open>The case of the terminated UCS2 string between the two conversions.\<close>

definition fold_name :: "16 word \<Rightarrow> bytes \<Rightarrow> bytes option" where
  "fold_name fl u =
     (if has fl CONV_TOUPPER then map_option (\<lambda>(us, _). unit_bytes us) (strupper_w (units u))
      else if has fl CONV_TOLOWER then map_option (\<lambda>(us, _). unit_bytes us) (strlower_w (units u))
      else Some u)"

definition convert_charset :: "(nat \<Rightarrow> bool) \<Rightarrow> conv_state \<Rightarrow> nat \<Rightarrow> nat \<Rightarrow> nat \<Rightarrow> bytes \<Rightarrow> nat option \<Rightarrow> bytes \<Rightarrow> 16 word \<Rightarrow>
    ((conv_error option + nat) \<times> bytes \<times> 16 word \<times> conv_state) option" where
  "convert_charset env st from_set to_set cap_charset src src_len dest fl =
     do {
       st \<leftarrow> lazy_initialize_conv env st;
       (r, fl, st) \<leftarrow> pull_charset_flags env st from_set to_set cap_charset src src_len (2 * (MAXPATHLEN + 2) - 2) fl;
       case r of
         Inl e \<Rightarrow> Some (Inl e, dest, fl, st)
       | Inr (o_len, buf) \<Rightarrow>
           if length dest < 2 then Some (Inl (Some E2BIG), dest, fl, st)
           else if o_len = 0 then Some (Inr 0, store dest 0 [0, 0], fl, st)
           else
             (case compose_for st from_set to_set fl (2 * (MAXPATHLEN + 2) - 2) o_len buf of
                Inl e \<Rightarrow> Some (Inl e, dest, fl, st)
              | Inr (i_len, u) \<Rightarrow>
                  if i_len > 2 * (MAXPATHLEN + 2) - 2 then Some (Inl (Some E2BIG), dest, fl, st)
                  else
                    do {
                      u \<leftarrow> fold_name fl (take i_len u @ [0, 0]);
                      (r, dest, fl, st) \<leftarrow> push_charset_flags env st to_set cap_charset (take i_len u) dest (length dest - 2) fl;
                      case r of
                        Inl e \<Rightarrow> Some (Inl e, dest, fl, st)
                      | Inr o_len \<Rightarrow> Some (Inr o_len, store dest o_len [0, 0], fl, st)
                    })
     }"

end
