(* ===== verification/Charcnv_Safe.thy ===== *)
theory Charcnv_Safe
  imports Charcnv Utf8_Claims
begin

text \<open>
  What every conversion function keeps to, as the locales \<open>converter\<close> and \<open>decoder\<close> with an interpretation
  for each built-in function, and what follows for the descriptors that \<open>charcnv.c\<close> keeps.
\<close>

subsection \<open>The contract of a conversion function\<close>

text \<open>
  A call leaves a suffix of the input, accounts for its output space exactly, never moves the output
  position past what it wrote, consumes all input when it succeeds and some input when it writes.
\<close>

locale converter =
  fixes f :: conv_fun
  assumes suffix: "\<exists>p. bs = p @ input (f bs n)"
    and accounts: "length (wrote (f bs n)) + room (f bs n) = n"
    and moves: "moved (f bs n) \<le> length (wrote (f bs n))"
    and consumes: "err (f bs n) = None \<Longrightarrow> input (f bs n) = []"
    and progress: "wrote (f bs n) \<noteq> [] \<Longrightarrow> length (input (f bs n)) < length bs"
begin

lemma rest_length: "length (input (f bs n)) \<le> length bs"
  using suffix[of bs n] by (metis le_add2 length_append)

lemma written: "length (wrote (f bs n)) \<le> n" "n - room (f bs n) = length (wrote (f bs n))"
  using accounts[of bs n] by auto

end

text \<open>A function that moves the output position over what it wrote, and one that also writes whole units.\<close>

locale mover = converter +
  assumes follows: "moved (f bs n) = length (wrote (f bs n))"

locale decoder = mover +
  assumes whole: "even (length (wrote (f bs n)))"

text \<open>The result of a loop that has gone on from an output \<open>out\<close>.\<close>

definition advances :: "bytes \<Rightarrow> nat \<Rightarrow> bytes \<Rightarrow> conv_result \<Rightarrow> bool" where
  "advances bs n out r \<longleftrightarrow>
     (case r of (e, rest, out', left) \<Rightarrow>
        (\<exists>w p. bs = p @ rest \<and> out' = out @ w \<and> length w + left = n \<and> (e = None \<longrightarrow> rest = []) \<and> (w \<noteq> [] \<longrightarrow> p \<noteq> [])))"

definition advances_whole :: "bytes \<Rightarrow> nat \<Rightarrow> bytes \<Rightarrow> conv_result \<Rightarrow> bool" where
  "advances_whole bs n out r \<longleftrightarrow> advances bs n out r \<and> even (length (fst (snd (snd r)))) = even (length out)"

lemma advances_stop [simp]: "advances bs n out (Some e, bs, out, n)" "advances [] n out (e', [], out, n)"
  by (auto simp: advances_def)

lemma advances_step: "advances rest (n - length w) (out @ w) r \<Longrightarrow> bs = p @ rest \<Longrightarrow> p \<noteq> [] \<Longrightarrow> length w \<le> n \<Longrightarrow> advances bs n out r"
  unfolding advances_def by (auto split: prod.splits)

lemma converterI:
  assumes "\<And>bs n. f bs n = (call_of (g bs n))\<lparr>moved := m (g bs n)\<rparr>" "\<And>r. m r \<le> length (fst (snd (snd r)))" "\<And>bs n. advances bs n [] (g bs n)"
  shows "converter f"
proof unfold_locales
  fix bs n
  obtain e rest w left where c: "g bs n = (e, rest, w, left)" by (cases "g bs n")
  obtain p where p: "bs = p @ rest" "length w + left = n" "e = None \<longrightarrow> rest = []" "w \<noteq> [] \<longrightarrow> p \<noteq> []"
    using assms(3)[of bs n] by (auto simp: advances_def c)
  have r: "f bs n = \<lparr>err = e, input = rest, wrote = w, room = left, moved = m (g bs n)\<rparr>" "m (g bs n) \<le> length w"
    using assms(1)[of bs n] assms(2)[of "g bs n"] by (simp_all add: call_of_def c)
  show "\<exists>p. bs = p @ input (f bs n)" "length (wrote (f bs n)) + room (f bs n) = n" "moved (f bs n) \<le> length (wrote (f bs n))"
    using p(1,2) r(2) unfolding r(1) by simp_all
  show "err (f bs n) = None \<Longrightarrow> input (f bs n) = []" using p(3) unfolding r(1) by simp
  show "wrote (f bs n) \<noteq> [] \<Longrightarrow> length (input (f bs n)) < length bs" using p(1,4) unfolding r(1) by simp
qed

lemma call_of_moved: "call_of r = (call_of r)\<lparr>moved := length (fst (snd (snd r)))\<rparr>"
  by (cases r) (simp add: call_of_def)

lemma mover_call:
  assumes "\<And>bs n. f bs n = call_of (g bs n)" "\<And>bs n. advances bs n [] (g bs n)"
  shows "mover f"
proof (intro mover.intro mover_axioms.intro)
  show "converter f"
    by (rule converterI[where m = "\<lambda>r. length (fst (snd (snd r)))" and g = g]) (use assms call_of_moved in simp_all)
  show "moved (f bs n) = length (wrote (f bs n))" for bs n using assms(1)[of bs n] by (cases "g bs n") (simp add: call_of_def)
qed

lemma decoder_call:
  assumes "\<And>bs n. f bs n = call_of (g bs n)" "\<And>bs n. advances_whole bs n [] (g bs n)"
  shows "decoder f"
proof (intro decoder.intro decoder_axioms.intro)
  show "mover f" by (rule mover_call[OF assms(1)]) (use assms(2) advances_whole_def in blast)
  show "even (length (wrote (f bs n)))" for bs n using assms[of bs n] by (cases "g bs n") (simp add: advances_whole_def call_of_def)
qed

lemma whole_stop [simp]: "advances_whole bs n out (Some e, bs, out, n)" "advances_whole [] n out (e', [], out, n)"
  by (auto simp: advances_whole_def)

lemma whole_step: "advances_whole rest (n - length w) (out @ w) r \<Longrightarrow> bs = p @ rest \<Longrightarrow> p \<noteq> [] \<Longrightarrow> length w \<le> n \<Longrightarrow> even (length w) \<Longrightarrow>
  advances_whole bs n out r"
  unfolding advances_whole_def using advances_step[of rest n w out r bs p] by auto

lemma advances_unit: "advances bs (n - 1) (out @ [c]) r \<Longrightarrow> 1 \<le> n \<Longrightarrow> advances (a # b # bs) n out r"
  using advances_step[of bs n "[c]" out r "a # b # bs" "[a, b]"] by simp

lemma whole_byte: "advances_whole bs (n - 2 * length us) (out @ unit_bytes us) r \<Longrightarrow> 2 * length us \<le> n \<Longrightarrow> advances_whole (b # bs) n out r"
  using whole_step[of bs n "unit_bytes us" out r "b # bs" "[b]"] by (simp add: length_units)

lemma whole_unit: "advances_whole bs (n - 2) (out @ SSVAL u) r \<Longrightarrow> 2 \<le> n \<Longrightarrow> advances_whole (b # bs) n out r"
  using whole_byte[of bs n "[u]" out r b] by simp

lemma advances_drop: "advances (drop k bs) (n - length w) (out @ w) r \<Longrightarrow> 0 < k \<Longrightarrow> k \<le> length bs \<Longrightarrow> length w \<le> n \<Longrightarrow> advances bs n out r"
  using advances_step[of "drop k bs" n w out r bs "take k bs"] by (cases bs) simp_all

subsection \<open>The built-in functions\<close>

lemma mb_push_advances: "advances bs n out (mb_push_loop g bs n out)"
proof (induction g bs n out rule: mb_push_loop.induct)
  case (1 g a b bs n out)
  then show ?case by (auto intro: advances_unit split: option.split)
qed auto

lemma mb_pull_advances: "advances_whole bs n out (mb_pull_loop g bs n out)"
proof (induction g bs n out rule: mb_pull_loop.induct)
  case (1 g b bs n out)
  then show ?case by (auto intro: whole_unit split: option.split)
qed auto

lemma hebrew_push_advances: "advances bs n out (hebrew_push_loop bs n out)"
proof (induction bs n out rule: hebrew_push_loop.induct)
  case (1 bs n out)
  show ?case
  proof (cases "2 \<le> length bs \<and> 1 \<le> n")
    case True
    show ?thesis
    proof (cases "hebrew_next bs")
      case None
      then show ?thesis using True by (simp add: hebrew_push_loop.simps[of bs])
    next
      case (Some ck)
      obtain c k where ck: "ck = (c, k)" by (cases ck)
      have k: "2 \<le> k" "k \<le> length bs" using hebrew_next_consumes[of bs c k] Some ck True by auto
      have "advances (drop k bs) (n - 1) (out @ [c]) (hebrew_push_loop (drop k bs) (n - 1) (out @ [c]))"
        using 1[OF True Some] ck by simp
      then have "advances bs n out (hebrew_push_loop (drop k bs) (n - 1) (out @ [c]))"
        using k True by (intro advances_drop[of k bs n "[c]"]) simp_all
      then show ?thesis using True Some ck by (simp add: hebrew_push_loop.simps[of bs])
    qed
  qed (auto simp: hebrew_push_loop.simps[of bs])
qed

lemma hebrew_pull_advances: "advances_whole bs n out (hebrew_pull_loop bs n out)"
proof (induction bs n out rule: hebrew_pull_loop.induct)
  case (1 b bs n out)
  then show ?case
    by (auto intro: whole_byte split: option.split)
qed auto

lemma ascii_pull_advances: "advances_whole bs n out (ascii_pull_loop bs n out)"
proof (induction bs n out rule: ascii_pull_loop.induct)
  case (1 b bs n out)
  then show ?case by (auto intro: whole_unit)
qed auto

lemma ascii_push_advances: "advances bs n out (ascii_push_loop bs n out)"
proof (induction bs n out rule: ascii_push_loop.induct)
  case (1 a b bs n out)
  then show ?case by (auto intro: advances_unit)
qed auto

lemma utf8_pull_advances: "advances_whole bs n out (utf8_pull bs n out)"
proof (induction bs n out rule: utf8_pull.induct)
  case (1 bs n out)
  show ?case
  proof (cases "bs \<noteq> [] \<and> n \<ge> 2")
    case True
    show ?thesis
    proof (cases "pull_char bs n")
      case (Inl e)
      then show ?thesis using True by (simp add: utf8_pull.simps[of bs])
    next
      case (Inr y)
      obtain us r where y: "y = (us, r)" by (cases y)
      have fits: "2 * length us \<le> n" and "\<exists>p. bs = p @ r" using pull_char_fits[of bs n us r] Inr y True by auto
      then obtain p where p: "bs = p @ r" by blast
      moreover have "p \<noteq> []" using pull_char_shrinks[of bs n us r] Inr y True p by auto
      moreover have "advances_whole r (n - 2 * length us) (out @ unit_bytes us) (utf8_pull r (n - 2 * length us) (out @ unit_bytes us))"
        using 1[OF True Inr y[symmetric]] .
      ultimately have "advances_whole bs n out (utf8_pull r (n - 2 * length us) (out @ unit_bytes us))"
        using fits by (intro whole_step[of r n "unit_bytes us" out _ bs p]) (simp_all add: length_units)
      then show ?thesis using True Inr y by (simp add: utf8_pull.simps[of bs])
    qed
  qed (auto simp: utf8_pull.simps[of bs])
qed

lemma push_char_within: "push_char bs n = Inr (ws, k) \<Longrightarrow> 2 \<le> length bs \<Longrightarrow> k \<le> length bs"
  by (auto simp: push_char_def Let_def split: if_splits)

lemma utf8_push_advances: "advances bs n out (utf8_push bs n out)"
proof (induction bs n out rule: utf8_push.induct)
  case (1 bs n out)
  show ?case
  proof (cases "length bs \<ge> 2 \<and> n \<ge> 1")
    case True
    show ?thesis
    proof (cases "push_char bs n")
      case (Inl e)
      then show ?thesis using True by (simp add: utf8_push.simps[of bs])
    next
      case (Inr y)
      obtain ws k where y: "y = (ws, k)" by (cases y)
      have k: "0 < k" "k \<le> length bs" "length ws \<le> n"
        using push_char_consumes[of bs n ws k] push_char_within[of bs n ws k] push_char_fits[of bs n ws k] Inr y True by auto
      have "advances (drop k bs) (n - length ws) (out @ ws) (utf8_push (drop k bs) (n - length ws) (out @ ws))"
        using 1[OF True Inr y[symmetric]] .
      from advances_drop[OF this] k True have "advances bs n out (utf8_push (drop k bs) (n - length ws) (out @ ws))" by simp
      then show ?thesis using True Inr y by (simp add: utf8_push.simps[of bs])
    qed
  next
    case False
    then have "bs = [] \<or> length bs = 1 \<or> 1 < length bs \<and> n = 0" by (cases bs; cases "tl bs") auto
    then show ?thesis by (auto simp: utf8_push.simps[of bs])
  qed
qed

definition copy_result :: "bytes \<Rightarrow> nat \<Rightarrow> conv_result" where
  "copy_result bs n = (if drop n bs \<noteq> [] then Some E2BIG else None, drop n bs, take n bs, n - length bs)"

lemma copy_advances: "iconv_copy bs n = call_of (copy_result bs n)" "advances bs n [] (copy_result bs n)"
  by (auto simp: iconv_copy_def copy_result_def Let_def advances_def min_def intro!: exI[of _ "take n bs"])

interpretation utf8_pull: decoder utf8_pull_call
  by (rule decoder_call[OF utf8_pull_call_def utf8_pull_advances])

interpretation utf8_push: mover utf8_push_call
  by (rule mover_call[OF utf8_push_call_def utf8_push_advances])

interpretation ascii_pull: decoder ascii_pull
  by (rule decoder_call[OF ascii_pull_def ascii_pull_advances])

interpretation ascii_push: mover ascii_push
  by (rule mover_call[OF ascii_push_def ascii_push_advances])

interpretation copy: mover iconv_copy
  by (rule mover_call[OF copy_advances])

interpretation mb_pull: decoder "mb_generic_pull g" for g
  by (rule decoder_call[OF mb_generic_pull_def mb_pull_advances])

interpretation mb_push: converter "mb_generic_push g" for g
  by (rule converterI[OF mb_generic_push_def _ mb_push_advances]) simp

interpretation hebrew_pull: decoder mac_hebrew_pull
  by (rule decoder_call[OF mac_hebrew_pull_def hebrew_pull_advances])

interpretation hebrew_push: converter mac_hebrew_push
  by (rule converterI[OF mac_hebrew_push_def _ hebrew_push_advances]) simp

end
