(* ===== verification/Charcnv_Bounds.thy ===== *)
theory Charcnv_Bounds
  imports Charcnv_Safe Precompose_Claims Unistr_Claims
begin

text \<open>
  Every file name conversion of \<open>charcnv.c\<close> returns and stays within its buffers, on tables whose
  descriptors keep to the contract of conversion functions.
\<close>

subsection \<open>Descriptors\<close>

definition pulls :: "atalk_iconv_t \<Rightarrow> bool" where "pulls h \<longleftrightarrow> (\<exists>f. direct h = Some f \<and> mover f)"
definition decodes :: "atalk_iconv_t \<Rightarrow> bool" where "decodes h \<longleftrightarrow> (\<exists>f. direct h = Some f \<and> decoder f)"
definition pushes :: "atalk_iconv_t \<Rightarrow> bool" where "pushes h \<longleftrightarrow> (\<exists>f. direct h = Some f \<and> converter f)"

lemma decodes_pulls: "decodes h \<Longrightarrow> pulls h" by (auto simp: decodes_def pulls_def decoder_def)
lemma pulls_pushes: "pulls h \<Longrightarrow> pushes h" by (auto simp: pushes_def pulls_def mover_def)

text \<open>The laws of a call through a descriptor.\<close>

lemma pushes_call:
  assumes "pushes h"
  obtains c p where "atalk_iconv h bs n = Some c" "bs = p @ input c" "length (wrote c) + room c = n" "moved c \<le> length (wrote c)"
    "err c = None \<Longrightarrow> input c = []" "wrote c \<noteq> [] \<Longrightarrow> p \<noteq> []"
proof -
  obtain f where f: "direct h = Some f" "converter f" using assms by (auto simp: pushes_def)
  obtain p where p: "bs = p @ input (f bs n)" using converter.suffix[OF f(2), of bs n] by blast
  have "wrote (f bs n) \<noteq> [] \<Longrightarrow> p \<noteq> []" using converter.progress[OF f(2), of bs n] p by auto
  then show ?thesis
    using that[of "f bs n" p] f p converter.accounts[OF f(2), of bs n] converter.moves[OF f(2), of bs n] converter.consumes[OF f(2), of bs n]
    by (simp add: atalk_iconv_def)
qed

lemma pulls_call:
  assumes "pulls h"
  obtains c p where "atalk_iconv h bs n = Some c" "bs = p @ input c" "length (wrote c) + room c = n" "moved c = length (wrote c)"
    "err c = None \<Longrightarrow> input c = []" "wrote c \<noteq> [] \<Longrightarrow> p \<noteq> []" "decodes h \<Longrightarrow> even (length (wrote c))"
proof -
  obtain f where f: "direct h = Some f" "mover f" using assms by (auto simp: pulls_def)
  then have c: "atalk_iconv h bs n = Some (f bs n)" by (simp add: atalk_iconv_def)
  have "decodes h \<Longrightarrow> even (length (wrote (f bs n)))" using f(1) decoder.whole[of f bs n] by (auto simp: decodes_def)
  moreover have "moved (f bs n) = length (wrote (f bs n))" by (rule mover.follows[OF f(2)])
  ultimately show ?thesis using pushes_call[OF pulls_pushes[OF assms], of bs n] c that by fastforce
qed

definition conv_ok :: "conv_state \<Rightarrow> bool" where
  "conv_ok st \<longleftrightarrow>
     (\<forall>ch h. conv_handles st ch CH_UCS2 = Some h \<longrightarrow> pulls h \<and> (ch \<le> max_charset_t st \<longrightarrow> charset_name st ch \<noteq> None) \<and> (ch \<noteq> CH_UCS2 \<longrightarrow> decodes h)) \<and>
     (\<forall>ch h. conv_handles st CH_UCS2 ch = Some h \<longrightarrow> pushes h)"

definition tables :: "conv_state \<Rightarrow> _" where
  "tables st = (charset_names st, conv_handles st, charsets st, max_charset_t st, initialized st)"

lemma tables_cong:
  assumes "tables st' = tables st"
  shows "conv_ok st' = conv_ok st" "charset_name st' = charset_name st" "conv_handles st' = conv_handles st" "charsets st' = charsets st"
    "initialized st' = initialized st" "max_charset_t st' = max_charset_t st"
  using assms by (auto simp: tables_def conv_ok_def charset_name_def fun_eq_iff)

lemma tables_alloc [simp]: "tables (snd (alloc env st)) = tables st" "alloc env st = (ok, st') \<Longrightarrow> tables st' = tables st"
  by (auto simp: alloc_def tables_def)

lemma tables_open [simp]: "tables (snd (open_handle env st t f)) = tables st" "open_handle env st t f = (h, st') \<Longrightarrow> tables st' = tables st"
  by (auto simp: open_handle_def alloc_def tables_def)

lemma tables_units [simp]: "tables (st\<lparr>source_unit_sizes := u\<rparr>) = tables st"
  by (simp add: tables_def)

subsection \<open>The registered charsets\<close>

lemma register_set: "set (foldl (\<lambda>cs f. snd (atalk_register_charset cs (Some f))) cs0 fs) \<subseteq> set cs0 \<union> set fs"
proof (induction fs arbitrary: cs0)
  case (Cons f fs)
  let ?cs = "snd (atalk_register_charset cs0 (Some f))"
  have "set ?cs \<subseteq> insert f (set cs0)" by (auto simp: atalk_register_charset_def)
  then show ?case using Cons[of ?cs] by auto
qed simp

lemmas charset_defs = builtin_functions_def charset_utf8_def charset_utf8_mac_def charset_mac_roman_def charset_mac_hebrew_def charset_mac_greek_def
  charset_mac_turkish_def charset_mac_centraleurope_def charset_mac_cyrillic_def

lemmas mb_defs = mac_roman_push_def mac_roman_pull_def mac_greek_push_def mac_greek_pull_def mac_turkish_push_def mac_turkish_pull_def
  mac_cyrillic_push_def mac_cyrillic_pull_def mac_centraleurope_push_def mac_centraleurope_pull_def

lemma registered:
  assumes "c \<in> set lazy_initialize_iconv"
  shows "mover (pull c)" "converter (push c)" "\<not> strcaseeq (cname c) ''UCS-2'' \<Longrightarrow> decoder (pull c)"
proof -
  have c: "c \<in> set (builtin_functions @ [charset_utf8, charset_utf8_mac, charset_mac_roman, charset_mac_hebrew, charset_mac_greek,
          charset_mac_turkish, charset_mac_centraleurope, charset_mac_cyrillic])"
    using subsetD[OF register_set, OF assms[unfolded lazy_initialize_iconv_def]] by simp
  show "mover (pull c)" "converter (push c)"
    using c by (auto simp: charset_defs mb_defs utf8_pull.mover_axioms ascii_pull.mover_axioms copy.mover_axioms mb_pull.mover_axioms hebrew_pull.mover_axioms
        utf8_push.converter_axioms ascii_push.converter_axioms copy.converter_axioms mb_push.converter_axioms hebrew_push.converter_axioms)
  show "\<not> strcaseeq (cname c) ''UCS-2'' \<Longrightarrow> decoder (pull c)"
    using c by (auto simp: charset_defs mb_defs utf8_pull.decoder_axioms ascii_pull.decoder_axioms mb_pull.decoder_axioms hebrew_pull.decoder_axioms strcaseeq_def)
qed

lemma find_registered: "find_charset_functions lazy_initialize_iconv name = Some c \<Longrightarrow> c \<in> set lazy_initialize_iconv \<and> strcaseeq name (cname c)"
  by (auto simp: find_charset_functions_def find_Some_iff)

lemma strcaseeq_refl [simp]: "strcaseeq a a"
  by (simp add: strcaseeq_def)

lemma strcaseeq_trans: "strcaseeq a b \<Longrightarrow> strcaseeq b c = strcaseeq a c" "strcaseeq a b = strcaseeq b a"
  by (auto simp: strcaseeq_def)

lemma copy_pulls: "pulls \<lparr>direct = Some iconv_copy, d_pull = p, d_push = q\<rparr>"
  using copy.mover_axioms by (simp add: pulls_def)

lemma open_pulls:
  assumes "atalk_iconv_open ok ''UCS-2'' name = Some h"
  shows "pulls h" "\<not> strcaseeq name ''UCS-2'' \<Longrightarrow> decodes h"
proof -
  show d: "decodes h" if n: "\<not> strcaseeq name ''UCS-2''"
  proof -
    obtain c where "find_charset_functions lazy_initialize_iconv name = Some c" "direct h = Some (pull c)"
      using assms n by (auto simp: atalk_iconv_open_def split: if_splits option.splits)
    then show ?thesis using registered(3)[of c] find_registered[of name c] n strcaseeq_trans(1)[of name "cname c" "''UCS-2''"] by (auto simp: decodes_def)
  qed
  show "pulls h"
  proof (cases "strcaseeq name ''UCS-2''")
    case True
    then show ?thesis using assms copy_pulls by (auto simp: atalk_iconv_open_def split: if_splits)
  qed (use d decodes_pulls in blast)
qed

lemma open_pushes:
  assumes "atalk_iconv_open ok name ''UCS-2'' = Some h"
  shows "pushes h"
proof (cases "strcaseeq ''UCS-2'' name")
  case True
  then show ?thesis using assms copy_pulls pulls_pushes by (auto simp: atalk_iconv_open_def split: if_splits)
next
  case False
  then obtain to' where "find_charset_functions lazy_initialize_iconv name = Some to'" "direct h = Some (push to')"
    using assms strcaseeq_trans(2)[of name "''UCS-2''"] by (auto simp: atalk_iconv_open_def split: if_splits option.splits)
  then show ?thesis using registered(2)[of to'] find_registered[of name to'] by (auto simp: pushes_def)
qed


subsection \<open>Setting up\<close>

lemma set_handle_fields [simp]:
  "charset_name (set_handle st a b h) = charset_name st" "conv_handles (set_handle st a b h) x y = (if x = a \<and> y = b then h else conv_handles st x y)"
  "charsets (set_handle st a b h) = charsets st" "charset_names (set_handle st a b h) = charset_names st"
  "max_charset_t (set_handle st a b h) = max_charset_t st" "initialized (set_handle st a b h) = initialized st"
  by (auto simp: set_handle_def charset_name_def fun_eq_iff)

lemma conv_ok_handles:
  assumes "conv_ok st" "tables st' = tables st"
    and "h = None \<or> (\<exists>ok name. h = atalk_iconv_open ok ''UCS-2'' name \<and> charset_name st ch = Some name \<and> (ch \<noteq> CH_UCS2 \<longrightarrow> \<not> strcaseeq name ''UCS-2''))"
  shows "conv_ok (set_handle st' ch CH_UCS2 h)"
  using assms(1,3) tables_cong[OF assms(2)] open_pulls pulls_pushes by (auto simp: conv_ok_def split: if_splits)

lemma conv_ok_push_handles:
  assumes "conv_ok st" "tables st' = tables st" "ch \<noteq> CH_UCS2" "h = None \<or> (\<exists>ok name. h = atalk_iconv_open ok name ''UCS-2'')"
  shows "conv_ok (set_handle st' CH_UCS2 ch h)"
  using assms(1,3,4) tables_cong[OF assms(2)] open_pushes by (auto simp: conv_ok_def split: if_splits)

text \<open>The charsets of a number below \<open>n\<close> have a name, which is not that of UCS2 for another charset.\<close>

definition named :: "nat \<Rightarrow> conv_state \<Rightarrow> bool" where
  "named n st \<longleftrightarrow> (\<forall>ch < n. \<exists>name. charset_name st ch = Some name \<and> (ch \<noteq> CH_UCS2 \<longrightarrow> \<not> strcaseeq name ''UCS-2''))"

lemma charset_name_cong: "charset_names st' = charset_names st \<Longrightarrow> charset_name st' = charset_name st"
  by (simp add: charset_name_def fun_eq_iff)

lemma get_functions_ok:
  assumes "charset_name st ch \<noteq> None"
  obtains f st' where "get_charset_functions st ch = Some (f, st')" "charset_names st' = charset_names st" "conv_handles st' = conv_handles st"
    "max_charset_t st' = max_charset_t st" "initialized st' = initialized st"
  using assms that by (cases "charsets st ch") (auto simp: get_charset_functions_def Let_def)

lemma conv_ok_fields: "conv_handles st' = conv_handles st \<Longrightarrow> charset_names st' = charset_names st \<Longrightarrow> max_charset_t st' = max_charset_t st \<Longrightarrow>
  conv_ok st' = conv_ok st"
  by (simp add: conv_ok_def charset_name_def)

lemma init_charset_ok:
  assumes "conv_ok st" "named n st" "ch < n"
  obtains st' where "init_charset env st ch = Some st'" "conv_ok st'" "charset_names st' = charset_names st" "initialized st' = initialized st"
    "max_charset_t st' = max_charset_t st"
proof -
  obtain name where name: "charset_name st ch = Some name" "ch \<noteq> CH_UCS2 \<longrightarrow> \<not> strcaseeq name ''UCS-2''" using assms(2,3) by (auto simp: named_def)
  obtain h st1 where 1: "open_handle env st ''UCS-2'' name = (h, st1)" by fastforce
  let ?s1 = "set_handle st1 ch CH_UCS2 h"
  have ok1: "conv_ok ?s1"
    using 1 name by (intro conv_ok_handles[OF assms(1)]) (auto simp: open_handle_def alloc_def tables_def)
  obtain h' st2 where 2: "open_handle env ?s1 name ''UCS-2'' = (h', st2)" by fastforce
  let ?s2 = "if ch \<noteq> CH_UCS2 then set_handle st2 CH_UCS2 ch h' else ?s1"
  have ok2: "conv_ok ?s2"
    using 2 ok1 by (auto simp: open_handle_def alloc_def tables_def intro!: conv_ok_push_handles[OF ok1])
  have f: "charset_names ?s2 = charset_names st" "initialized ?s2 = initialized st" "max_charset_t ?s2 = max_charset_t st"
    using 1 2 by (auto simp: open_handle_def alloc_def set_handle_def)
  have "charset_name ?s2 ch \<noteq> None" using name unfolding charset_name_cong[OF f(1)] by simp
  then obtain g st3 where 3: "get_charset_functions ?s2 ch = Some (g, st3)" "charset_names st3 = charset_names ?s2" "conv_handles st3 = conv_handles ?s2"
    "max_charset_t st3 = max_charset_t ?s2" "initialized st3 = initialized ?s2" by (rule get_functions_ok)
  show ?thesis
  proof (rule that)
    show "init_charset env st ch = Some (st3\<lparr>charsets := (charsets st3)(ch := g)\<rparr>)" using name(1) 1 2 3(1) by (cases "ch = CH_UCS2") (simp_all add: init_charset_def Let_def)
    show "conv_ok (st3\<lparr>charsets := (charsets st3)(ch := g)\<rparr>)" using ok2 3(2-4) conv_ok_fields[of "st3\<lparr>charsets := (charsets st3)(ch := g)\<rparr>" ?s2] by simp
  qed (use 3 f in simp_all)
qed

lemma init_iconv_ok:
  assumes "conv_ok st" "named 5 st"
  obtains st' where "init_iconv env st = Some st'" "conv_ok st'" "charset_names st' = charset_names st" "initialized st' = initialized st"
    "max_charset_t st' = max_charset_t st"
proof -
  let ?step = "\<lambda>s c1. Option.bind s (\<lambda>st. init_charset env st c1)"
  have "\<exists>st'. foldl ?step (Some st) [0..<k] = Some st' \<and> conv_ok st' \<and> charset_names st' = charset_names st \<and> initialized st' = initialized st \<and>
      max_charset_t st' = max_charset_t st" if "k \<le> 5" for k
    using that
  proof (induction k)
    case (Suc k)
    then obtain s where s: "foldl ?step (Some st) [0..<k] = Some s" "conv_ok s" "charset_names s = charset_names st" "initialized s = initialized st"
      "max_charset_t s = max_charset_t st" by auto
    have "named 5 s" using assms(2) charset_name_cong[OF s(3)] by (simp add: named_def)
    then obtain s' where "init_charset env s k = Some s'" "conv_ok s'" "charset_names s' = charset_names s" "initialized s' = initialized s"
      "max_charset_t s' = max_charset_t s" using init_charset_ok[OF s(2)] Suc.prems by (metis Suc_le_lessD)
    then show ?case using s by simp
  qed (simp add: assms(1))
  then show ?thesis using that unfolding init_iconv_def by blast
qed

subsection \<open>Decoding\<close>

lemma unit_size_ok:
  assumes "conv_ok st" "charset_name st ch \<noteq> None"
  obtains u st' where "source_code_unit_size env st ch = Some (u, st')" "0 < u" "tables st' = tables st"
proof (cases "source_unit_sizes st ch")
  case 0
  obtain name where name: "charset_name st ch = Some name" using assms(2) by blast
  obtain d st1 where 1: "open_handle env st name ''UCS-2'' = (d, st1)" by fastforce
  let ?probe = "case d of None \<Rightarrow> Some 1
     | Some d \<Rightarrow> do { c \<leftarrow> atalk_iconv d [0, 0] 16;
         if err c = None \<and> input c = [] then do { c2 \<leftarrow> atalk_iconv d [0, 0] (room c); Some (if err c2 = None \<and> input c2 = [] then room c - room c2 else 1) }
         else Some 1 }"
  have p: "d = Some x \<Longrightarrow> pushes x" for x using 1 open_pushes by (auto simp: open_handle_def alloc_def)
  obtain u where u: "?probe = Some u"
  proof (cases d)
    case (Some x)
    obtain c where "atalk_iconv x [0, 0] 16 = Some c" using pushes_call[OF p[OF Some]] by metis
    moreover obtain c2 where "atalk_iconv x [0, 0] (room c) = Some c2" using pushes_call[OF p[OF Some]] by metis
    ultimately show ?thesis using that Some by (cases "err c = None \<and> input c = []") simp_all
  qed (use that in simp)
  show ?thesis
    using that[of "if u = 2 \<or> u = 4 then u else 1"
        "st1\<lparr>source_unit_sizes := (source_unit_sizes st1)(ch := if u = 2 \<or> u = 4 then u else 1)\<rparr>"] 0 name 1 u
    by (simp add: source_code_unit_size_def Let_def)
next
  case (Suc k)
  then show ?thesis using that[of "source_unit_sizes st ch" st] by (simp add: source_code_unit_size_def)
qed

lemma restore_ok:
  assumes "pulls d" "charset_name st ch \<noteq> None"
  obtains ok st' where "restore_source_bom env st d ch src u = Some (ok, st')" "tables st' = tables st"
proof (cases "u = 1 \<or> length src < u")
  case False
  obtain name where name: "charset_name st ch = Some name" using assms(2) by blast
  obtain pr st1 where 1: "open_handle env st ''UCS-2'' name = (pr, st1)" by fastforce
  have t: "tables st1 = tables st" using 1 by simp
  show ?thesis
  proof (cases pr)
    case None
    then show ?thesis using that[of False st1] False name 1 t by (simp add: restore_source_bom_def)
  next
    case (Some x)
    then have "pulls x" using 1 open_pulls by (auto simp: open_handle_def alloc_def)
    then obtain c where c: "atalk_iconv x (take u src) 4 = Some c" using pulls_call by metis
    obtain c' where c': "atalk_iconv d (take u src) 4 = Some c'" using pulls_call[OF assms(1)] by metis
    have "restore_source_bom env st d ch src u = Some (err c = None \<and> input c = [] \<and> room c = 4 \<longrightarrow> err c' = None, st1)"
      using False name 1 Some c c' by (cases "err c = None \<and> input c = [] \<and> room c = 4") (auto simp: restore_source_bom_def)
    then show ?thesis using that t by blast
  qed
qed (use that in \<open>auto simp: restore_source_bom_def\<close>)

lemma store_end [simp]: "store buf (length buf) bs = buf @ bs"
  by (simp add: store_def)

lemma length_units_of: "length (units bs) = length bs div 2"
  by (induction bs rule: units.induct) auto

lemma decode_loop_ok:
  assumes "pulls d" "0 < u" "charset_name st ch \<noteq> None"
  shows "\<exists>r fl' st'. decode_loop env st d ch u src inp dec (length dec) left fl = Some (r, fl', st') \<and> tables st' = tables st \<and>
     (\<forall>ds rest. r = Inr (ds, rest) \<longrightarrow> 2 * length ds \<le> length dec + left)"
  using assms(3)
proof (induction "length inp" arbitrary: inp dec left st rule: less_induct)
  case less
  show ?case
  proof (cases "inp = []")
    case True
    then show ?thesis by (subst decode_loop.simps) (simp add: length_units_of)
  next
    case False
    let ?k = "if ch = CH_UCS2 then length inp - length inp mod 2 else length inp"
    obtain c p where c: "atalk_iconv d (take ?k inp) left = Some c" "take ?k inp = p @ input c" "length (wrote c) + room c = left" "moved c = length (wrote c)"
      using pulls_call[OF assms(1), of "take ?k inp" left] by metis
    define inp2 where "inp2 = input c @ drop ?k inp"
    define rest where "rest = drop (min (length inp2) u) inp2"
    define d2 where "d2 = (dec @ wrote c) @ SSVAL IGNORE_CHAR"
    have "length (take ?k inp) = length p + length (input c)" using c(2) by simp
    then have len: "length inp2 \<le> length inp" unfolding inp2_def by (simp split: if_splits)
    have shorter: "length rest < length inp" unfolding rest_def using len assms(2) False by (cases "inp2 = []") (auto simp: min_def)
    have d2: "length d2 = length dec + moved c + 2" by (simp add: c(4) SSVAL_def d2_def)
    let ?goal = "\<lambda>v. \<exists>r fl' st'. v = Some (r, fl', st') \<and> tables st' = tables st \<and> (\<forall>ds rest. r = Inr (ds, rest) \<longrightarrow> 2 * length ds \<le> length dec + left)"
    have half: "2 * (a div 2) \<le> b" if "a \<le> b" for a b :: nat using that by simp
    have rec: "?goal (decode_loop env s d ch u src rest d2 (length dec + moved c + 2) (room c - 2) fl)" if "tables s = tables st" "2 \<le> room c" for s
    proof -
      have n: "charset_name s ch \<noteq> None" using tables_cong(2)[OF that(1)] less.prems by simp
      have b: "length d2 + (room c - 2) = length dec + left" using that(2) c(3,4) d2 by simp
      show ?thesis using less.hyps[OF shorter n, of d2 "room c - 2", unfolded b] by (simp only: d2 that(1))
    qed
    have stop: "?goal (Some (Inr (units (take (length dec + moved c) (dec @ wrote c)), i), f, st))" for i f
      using c(3,4) by (auto simp: length_units_of intro!: half)
    note nonempty = False
    show ?thesis
    proof (cases "\<not> (err c = None \<and> inp2 = []) \<and> err c \<noteq> Some E2BIG \<and> \<not> has fl CONV_IGNORE \<and> has fl CONV__EILSEQ \<and> 2 \<le> room c")
      case False
      then show ?thesis
        using \<open>inp \<noteq> []\<close> stop by (subst decode_loop.simps) (auto simp: Let_def c(1) not_le inp2_def)
    next
      case True
      obtain ok s where rs: "restore_source_bom env st d ch src u = Some (ok, s)" "tables s = tables st" using restore_ok[OF assms(1) less.prems] by metis
      have st2: "store (dec @ wrote c) (length dec + moved c) (SSVAL IGNORE_CHAR) = d2" using store_end[of "dec @ wrote c"] by (simp add: d2_def c(4))
      have facts: "inp \<noteq> []" "\<not> (err c = None \<and> inp2 = [])" "err c \<noteq> Some E2BIG" "\<not> has fl CONV_IGNORE" "has fl CONV__EILSEQ" "\<not> room c < 2"
        using True nonempty by simp_all
      note body = decode_loop.simps[of env st d ch u src inp dec "length dec" left fl, unfolded Let_def c(1) bind.bind_lunit, folded inp2_def, unfolded store_end]
      have e: "decode_loop env st d ch u src inp dec (length dec) left fl =
          (if rest = [] then decode_loop env st d ch u src rest d2 (length dec + moved c + 2) (room c - 2) fl
           else if ok then decode_loop env s d ch u src rest d2 (length dec + moved c + 2) (room c - 2) fl
           else if has fl CONV_FORCE then Some (Inr (units (take (length dec + moved c + 2) d2), rest), fl, s)
           else Some (Inl None, fl, s))"
        unfolding body by (simp only: facts rs(1) bind.bind_lunit prod.case st2 rest_def if_False if_True simp_thms)
      have "?goal (Some (Inr (units (take (length dec + moved c + 2) d2), rest), fl, s))"
        using c(3,4) True rs(2) d2 by (auto simp: length_units_of intro!: half)
      then show ?thesis unfolding e using rec[of st] rec[OF rs(2)] True rs(2) by (cases "rest = []"; cases ok) auto
    qed
  qed
qed

subsection \<open>Emitting\<close>

lemma even_unit_bytes [simp]: "even (length (unit_bytes us))" by (simp add: length_units)

lemma emit_loop_ok:
  assumes "\<And>h. cap = Some h \<Longrightarrow> decodes h" "length out + left = destlen" "even (length out)"
  shows "\<exists>r fl'. emit_loop from_set to_set cap opt destlen il start ds out (length out) left fl = Some (r, fl') \<and>
    (\<forall>n b. r = Inr (n, b) \<longrightarrow> n = length b \<and> n \<le> destlen \<and> even n)"
  using assms(2,3)
proof (induction "length ds" arbitrary: start ds out left fl rule: less_induct)
  case less
  note step = emit_loop.simps[of from_set to_set cap opt destlen il start ds out "length out" left fl]
  let ?goal = "\<lambda>v. \<exists>r fl'. v = Some (r, fl') \<and> (\<forall>n b. r = Inr (n, b) \<longrightarrow> n = length b \<and> n \<le> destlen \<and> even n)"
  have fine: "?goal (Some (Inr (destlen - m, o1), f))" if "length o1 + m = destlen" "even (length o1)" for m o1 f
    using that by auto
  have rec: "?goal (emit_loop from_set to_set cap opt destlen il False es (out @ w) (length out + length w) m f)"
    if "length es < length ds" "length w + m = left" "even (length w)" for es w m f
    using less.hyps[OF that(1), of "out @ w" m False f] that less.prems by simp
  show ?case
  proof (cases ds)
    case Nil
    then show ?thesis unfolding step using fine[of out left] less.prems by simp
  next
    case (Cons c rest)
    consider (dot) "start \<and> (length ds \<ge> 2 \<or> il > 0) \<and> c = 0x2E \<and> has opt CONV_ESCAPEDOTS"
      | (hex) "\<not> (start \<and> (length ds \<ge> 2 \<or> il > 0) \<and> c = 0x2E \<and> has opt CONV_ESCAPEDOTS)" "c = 0x3A \<and> has opt CONV_UNESCAPEHEX"
      | (char) "\<not> (start \<and> (length ds \<ge> 2 \<or> il > 0) \<and> c = 0x2E \<and> has opt CONV_ESCAPEDOTS)" "\<not> (c = 0x3A \<and> has opt CONV_UNESCAPEHEX)"
      by blast
    then show ?thesis
    proof cases
      case dot
      have e: "emit_loop from_set to_set cap opt destlen il start ds out (length out) left fl =
        (if left < 6 then Some (if has opt CONV_FORCE then Inr (destlen - left, out) else Inl (Some E2BIG), fl OR CONV_REQESCAPE)
         else emit_loop from_set to_set cap opt destlen il False rest (out @ unit_bytes [0x3A, 0x32, 0x65]) (length out + 6) (left - 6) (fl OR CONV_REQESCAPE))"
        unfolding step using dot unfolding Cons Let_def list.case store_end by (rule if_P)
      define w where "w = unit_bytes [0x3A, 0x32, 0x65]"
      have w: "length w = 6" by (simp add: w_def SSVAL_def)
      show ?thesis unfolding e w_def[symmetric] using rec[of rest w "left - 6" "fl OR CONV_REQESCAPE"] fine[of out left] less.prems Cons w
        by (cases "left < 6") auto
    next
      case char
      let ?os = "emit_units from_set to_set opt c"
      have e: "emit_loop from_set to_set cap opt destlen il start ds out (length out) left fl =
        (if left < 2 * length ?os then Some (if has opt CONV_FORCE then Inr (destlen - left, out) else Inl (Some E2BIG), fl)
         else emit_loop from_set to_set cap opt destlen il False rest (out @ unit_bytes ?os) (length out + 2 * length ?os) (left - 2 * length ?os) fl)"
        unfolding step using char unfolding Cons Let_def list.case store_end by (simp only: if_False)
      show ?thesis unfolding e using rec[of rest "unit_bytes ?os" "left - 2 * length ?os" fl] fine[of out left] less.prems Cons
        by (cases "left < 2 * length ?os") (auto simp: length_units)
    next
      case hex
      let ?stop = "\<lambda>e o1 m. Some (if has opt CONV_FORCE then Inr (destlen - m, o1) else Inl e, fl)"
      have halt: "?goal (?stop e o1 m)" if "length o1 + m = destlen" "even (length o1)" for e o1 m using that by auto
      have e: "emit_loop from_set to_set cap opt destlen il start ds out (length out) left fl =
        (case hex_run ds [] of None \<Rightarrow> ?stop (Some E2BIG) out left
         | Some (hex, ds') \<Rightarrow>
             if hex = [] then (if has opt CONV_IGNORE then Some (Inr (destlen - left, out), fl OR CONV_REQMANGLE) else ?stop (Some EILSEQ) out left)
             else (case cap of None \<Rightarrow> ?stop (Some EINVAL) out left
               | Some d \<Rightarrow> (case atalk_iconv d hex left of None \<Rightarrow> None
                   | Some call \<Rightarrow>
                       if err call \<noteq> None then
                         (if err call = Some EILSEQ \<and> has opt CONV_IGNORE then Some (Inr (destlen - room call, out @ wrote call), fl OR CONV_REQMANGLE)
                          else ?stop (err call) (out @ wrote call) (room call))
                       else emit_loop from_set to_set cap opt destlen il False ds' (out @ wrote call) (length out + moved call) (room call) fl)))"
        unfolding step using hex unfolding Cons Let_def list.case store_end by (rule trans[OF if_not_P if_P])
      have idle: "?goal (?stop e out left)" "?goal (Some (Inr (destlen - left, out), f))" for e f using halt[of out left] fine[of out left] less.prems by auto
      show ?thesis
      proof (cases "hex_run ds []")
        case None
        show ?thesis unfolding e None option.case by (rule idle(1))
      next
        case (Some hd)
        obtain hex ds' where h: "hex_run ds [] = Some (hex, ds')" using Some by (cases hd) simp
        show ?thesis
        proof (cases "hex = [] \<or> cap = None")
          case True
          then show ?thesis
            unfolding e h option.case prod.case using idle by (cases "hex = []"; cases "has opt CONV_IGNORE") (simp_all only: if_True if_False option.case simp_thms)
        next
          case False
          then obtain d where d: "cap = Some d" "hex \<noteq> []" by auto
          note dec = assms(1)[OF d(1)]
          obtain call where call: "atalk_iconv d hex left = Some call" "length (wrote call) + room call = left" "moved call = length (wrote call)" "even (length (wrote call))"
            using pulls_call[OF decodes_pulls[OF dec], of hex left] dec by metis
          have w: "length (out @ wrote call) + room call = destlen" "even (length (out @ wrote call))" using call less.prems by simp_all
          show ?thesis
          proof (cases "err call = None")
            case True
            then have "emit_loop from_set to_set cap opt destlen il start ds out (length out) left fl =
              emit_loop from_set to_set cap opt destlen il False ds' (out @ wrote call) (length out + length (wrote call)) (room call) fl"
              unfolding e h using d call(1,3) by simp
            then show ?thesis using rec[OF hex_run_less[OF h d(2)] call(2,4), of fl] by simp
          next
            case False
            then have "emit_loop from_set to_set cap opt destlen il start ds out (length out) left fl = ?stop (err call) (out @ wrote call) (room call) \<or>
              emit_loop from_set to_set cap opt destlen il start ds out (length out) left fl = Some (Inr (destlen - room call, out @ wrote call), fl OR CONV_REQMANGLE)"
              unfolding e h using d call(1) by auto
            then show ?thesis by (elim disjE) (simp_all only: halt[OF w] fine[OF w])
          qed
        qed
      qed
    qed
  qed
qed

subsection \<open>Composing\<close>

lemma decompose_total: "decompose_loop xs n out = (None, out', left) \<Longrightarrow> 2 * length out' + left = 2 * length out + n + 2"
proof (induction xs n out rule: decompose_loop.induct)
  case (2 base rest n out)
  obtain pre b cs rest' where d: "decompose_split base rest = (pre, b, cs, rest')" by (metis prod_cases4)
  have f: "\<not> (pre \<noteq> [] \<and> n < (length cs + 3) * 2)" "\<not> n - 2 * length pre < (length cs + 2) * 2" using 2(2) d by (auto split: if_splits)
  have "2 * length pre + (length cs + 2) * 2 \<le> n" using f by (cases pre) auto
  moreover have "decompose_loop rest' (n - 2 * length pre - 2 * (1 + length cs)) (out @ pre @ b # cs) = (None, out', left)"
    using 2(2) f unfolding decompose_loop.simps(2) d prod.case by (simp only: if_False)
  ultimately show ?case using 2(1)[OF d[symmetric] refl refl f] by simp
qed auto

lemma precompose_total: "precompose_loop b xs n out = (None, out', left) \<Longrightarrow> 2 * length out' + left = 2 * length out + n + 2"
proof (induction "length xs" arbitrary: b xs n out rule: less_induct)
  case less
  show ?case
  proof (cases "2 < n")
    case False
    then show ?thesis using less.prems by (subst (asm) precompose_loop.simps) auto
  next
    case True
    consider ws where "precompose_loop b xs n out = (None, out @ ws, n - 2 * (length ws - 1))" "length ws = 2 \<or> length ws = 3 \<and> 4 < n"
      | x where "precompose_loop b xs n out = (Some E2BIG, out @ [x], n - 2)"
      | b' xs' ws where "length xs' < length xs" "length ws \<le> 1 \<or> length ws = 2 \<and> 4 < n"
        "precompose_loop b xs n out = precompose_loop b' xs' (n - 2 * length ws) (out @ ws)"
      using precompose_step[OF True, of b xs out] by blast
    then show ?thesis
    proof cases
      case 3
      then show ?thesis using less.hyps[OF 3(1), of b' "n - 2 * length ws" "out @ ws"] less.prems True by auto
    qed (use less.prems True in auto)
  qed
qed

lemma compose_for_ok:
  assumes "compose_for st f t fl n o_len buf = Inr (i_len, u)" "even o_len" "o_len \<le> length buf"
  shows "even i_len" "i_len \<le> length u"
proof -
  have w: "i = 2 * (length out - 1)" if r: "w_return n l = (Inr i, out, left)"
    and t: "\<And>out' left. l = (None, out', left) \<Longrightarrow> 2 * length out' + left = 2 * length [] + n + 2" for l i out left
  proof -
    have "l = (None, out, left) \<and> i = n - left" using r by (cases l) (auto simp: w_return_def split: option.splits)
    moreover from this have "2 * length out + left = n + 2" using t[of out left] by simp
    ultimately show ?thesis by arith
  qed
  have d: "i = 2 * (length out - 1)" if "decompose_w xs o_len n = (Inr i, out, left)" for xs i out left
    by (rule w[OF _ decompose_total]) (use that in \<open>auto simp: decompose_w_def split: if_splits\<close>)
  have p: "i = 2 * (length out - 1)" if "precompose_w xs o_len n = (Inr i, out, left)" for xs i out left
    by (rule w[OF _ precompose_total]) (use that in \<open>auto simp: precompose_w_def split: if_splits\<close>)
  consider "i_len = o_len" "u = buf" | out left where "decompose_w (units buf) o_len n = (Inr i_len, out, left)" "u = unit_bytes out"
    | out left where "precompose_w (units buf) o_len n = (Inr i_len, out, left)" "u = unit_bytes out"
    using assms(1) by (simp add: compose_for_def Let_def split: if_splits prod.splits sum.splits)
  then have "i_len = o_len \<and> u = buf \<or> (\<exists>out. i_len = 2 * (length out - 1) \<and> u = unit_bytes out)" using d p by cases blast+
  then show "even i_len" "i_len \<le> length u"
    using assms(2,3) by (auto simp: length_units)
qed

lemma case_loop_ok: "0 \<in> set us \<Longrightarrow> \<exists>us' ch. case_loop f g us = Some (us', ch) \<and> length us' = length us"
proof (induction f g us rule: case_loop.induct)
  case (2 f g c s)
  show ?case
  proof (cases "c = 0")
    case False
    then have z: "0 \<in> set s" using 2(4) by simp
    then obtain d s' where s: "s = d # s'" by (cases s) auto
    show ?thesis
    proof (cases "(0xD800 \<le> c \<and> c < 0xDC00) \<and> 0xDC00 \<le> d \<and> d < 0xE000 \<and> g (sp c d) \<noteq> sp c d")
      case True
      then have "d \<noteq> 0" by auto
      then have "0 \<in> set s'" using z s by simp
      then obtain us' b where "case_loop f g s' = Some (us', b)" "length us' = length s'" using 2(1)[OF False conjunct1[OF True] s] True by auto
      then show ?thesis using True False s by auto
    next
      case F: False
      show ?thesis
      proof (cases "0xD800 \<le> c \<and> c < 0xDC00")
        case True
        then obtain us' b where "case_loop f g s = Some (us', b)" "length us' = length s" using 2(2)[OF False True s] F z by auto
        moreover have "\<not> (0xDC00 \<le> d \<and> d < 0xE000 \<and> g (sp c d) \<noteq> sp c d)" using F True by blast
        ultimately show ?thesis using True False unfolding s case_loop.simps(2)[of f g c] list.case by (simp only: if_True if_False) simp
      next
        case n: False
        then obtain us' b where "case_loop f g s = Some (us', b)" "length us' = length s" using 2(3)[OF False n refl z] by auto
        then show ?thesis using n False unfolding case_loop.simps(2)[of f g c] by (simp only: if_False Let_def) simp
      qed
    qed
  qed auto
qed simp

subsection \<open>Encoding\<close>

lemma escape_loop_ok:
  assumes "pushes d"
  shows "\<exists>r. escape_loop d inp b m = Some r \<and> (\<forall>rest bs. r = Inr (rest, bs) \<longrightarrow> length rest \<le> length inp \<and> (inp \<noteq> [] \<longrightarrow> length rest < length inp))"
proof (induction "Suc m - b" arbitrary: inp b)
  case 0
  then show ?case by (subst escape_loop.simps) simp
next
  case (Suc k)
  obtain c p where c: "atalk_iconv d inp b = Some c" "inp = p @ input c" "length (wrote c) + room c = b" "err c = None \<Longrightarrow> input c = []" "wrote c \<noteq> [] \<Longrightarrow> p \<noteq> []"
    using pushes_call[OF assms(1), of inp b] by metis
  have b: "b \<le> m" using Suc.hyps(2) by simp
  have e: "escape_loop d inp b m = (case err c of None \<Rightarrow> Some (Inr (input c, take (b - room c) (wrote c)))
      | Some e \<Rightarrow> if e \<noteq> E2BIG then Some (Inl e) else if room c < b then Some (Inr (input c, take (b - room c) (wrote c)))
          else escape_loop d (input c) (Suc b) m)"
    using b c(1) by (subst escape_loop.simps) simp
  have l: "length (input c) \<le> length inp" using arg_cong[OF c(2), of length] by simp
  show ?case
  proof (cases "err c")
    case None
    then show ?thesis unfolding e using c(4) by auto
  next
    case (Some x)
    show ?thesis
    proof (cases "x = E2BIG \<and> \<not> room c < b")
      case True
      then have e2: "escape_loop d inp b m = escape_loop d (input c) (Suc b) m" unfolding e Some by simp
      obtain r where "escape_loop d (input c) (Suc b) m = Some r" "\<And>rest bs. r = Inr (rest, bs) \<Longrightarrow> length rest \<le> length (input c) \<and> (input c \<noteq> [] \<longrightarrow> length rest < length (input c))"
        using Suc.hyps(1)[of "Suc b" "input c"] Suc.hyps(2) b by (auto simp: Suc_diff_le)
      then show ?thesis unfolding e2 using l by (cases "input c = []") fastforce+
    next
      case False
      then show ?thesis unfolding e using Some c(2,3,5) by auto
    qed
  qed
qed

lemma length_store [simp]: "pos + length bs \<le> length buf \<Longrightarrow> length (store buf pos bs) = length buf"
  by (simp add: store_def)

lemma length_escapes [simp]: "length (concat (map hex_escape bs)) = 3 * length bs"
  by (induction bs) (simp_all add: hex_escape_def)

lemma push_loop_ok:
  assumes "pushes d" "\<And>h. cap = Some h \<Longrightarrow> pushes h" "has opt CONV_ESCAPEHEX \<Longrightarrow> cap \<noteq> None"
    and "pos + left \<le> length dest" "left \<le> destlen"
  shows "\<exists>r dest' fl' st'. push_loop env st d cap opt destlen inp dest pos left fl = Some (r, dest', fl', st') \<and> length dest' = length dest \<and>
     tables st' = tables st \<and> (\<forall>n. r = Inr n \<longrightarrow> n \<le> destlen)"
  using assms(4,5)
proof (induction "length inp" arbitrary: inp dest pos left fl st rule: less_induct)
  case less
  let ?goal = "\<lambda>v. \<exists>r dest' fl' st'. v = Some (r, dest', fl', st') \<and> length dest' = length dest \<and> tables st' = tables st \<and> (\<forall>n. r = Inr n \<longrightarrow> n \<le> destlen)"
  have fin: "?goal (Some (push_end opt destlen i m e, dst, f, s))" if "length dst = length dest" "tables s = tables st" for i m e dst f s
    using that by (auto simp: push_end_def)
  show ?case
  proof (cases "inp = []")
    case True
    then show ?thesis using fin[of dest st] by (subst push_loop.simps) simp
  next
    case False
    obtain c p where c: "atalk_iconv d inp left = Some c" "inp = p @ input c" "length (wrote c) + room c = left" "moved c \<le> length (wrote c)" "err c = None \<Longrightarrow> input c = []"
      using pushes_call[OF assms(1), of inp left] by metis
    define dst where "dst = store dest pos (wrote c)"
    have dst: "length dst = length dest" using c(3) less.prems(1) by (simp add: dst_def)
    have l: "length (input c) \<le> length inp" using arg_cong[OF c(2), of length] by simp
    note body = push_loop.simps[of env st d cap opt destlen inp dest pos left fl, unfolded Let_def c(1) bind.bind_lunit, folded dst_def]
    show ?thesis
    proof (cases "err c = Some EILSEQ \<and> \<not> has opt CONV_IGNORE \<and> has opt CONV_ESCAPEHEX")
      case no: False
      have "push_loop env st d cap opt destlen inp dest pos left fl = Some (push_end opt destlen (input c) (room c) (Some EINVAL), dst, fl, st) \<or>
          push_loop env st d cap opt destlen inp dest pos left fl = Some (Inr (destlen - room c), dst, fl OR CONV_REQMANGLE, st) \<or>
          push_loop env st d cap opt destlen inp dest pos left fl = Some (push_end opt destlen (input c) (room c) (err c), dst, fl, st)"
        unfolding body using False no c(5) by (cases "err c = None") auto
      then show ?thesis using fin[OF dst refl] dst by auto
    next
      case esc: True
      obtain h where h: "cap = Some h" using assms(3) esc by auto
      obtain ok s where a: "alloc env st = (ok, s)" by fastforce
      have s: "tables s = tables st" using a by simp
      obtain r where r: "escape_loop h (input c) 1 (room c div 3 + 1) = Some r" and
        short: "\<And>rest bs. r = Inr (rest, bs) \<Longrightarrow> length rest \<le> length (input c) \<and> (input c \<noteq> [] \<longrightarrow> length rest < length (input c))"
        using escape_loop_ok[OF assms(2)[OF h]] by metis
      have e: "push_loop env st d cap opt destlen inp dest pos left fl =
          (if \<not> ok then Some (push_end opt destlen (input c) (room c) None, dst, fl, s)
           else case r of Inl x \<Rightarrow> Some (push_end opt destlen (input c) (room c) (Some x), dst, fl, s)
             | Inr (rest, bs) \<Rightarrow>
                 if room c < 3 * length bs then Some (push_end opt destlen (input c) (room c) (Some E2BIG), dst, fl, s)
                 else push_loop env s d cap opt destlen rest (store dst (pos + moved c) (concat (map hex_escape bs)))
                   (pos + moved c + 3 * length bs) (room c - 3 * length bs) (fl OR CONV_REQESCAPE))"
        unfolding body using False esc h a r by simp
      show ?thesis
      proof (cases "ok \<and> (\<exists>rest bs. r = Inr (rest, bs) \<and> \<not> room c < 3 * length bs)")
        case True
        then obtain rest bs where rb: "ok" "r = Inr (rest, bs)" "\<not> room c < 3 * length bs" by blast
        let ?d2 = "store dst (pos + moved c) (concat (map hex_escape bs))"
        have d2: "length ?d2 = length dest" using dst rb(3) c(3,4) less.prems(1) by simp
        have "length rest < length inp" using short[OF rb(2)] l False by (cases "input c = []") auto
        from less.hyps[OF this, of "pos + moved c + 3 * length bs" "room c - 3 * length bs" ?d2 s "fl OR CONV_REQESCAPE"]
        show ?thesis unfolding e using rb d2 c(3,4) less.prems s by simp
      next
        case no: False
        then consider "\<not> ok" | x where "ok" "r = Inl x" | rest bs where "ok" "r = Inr (rest, bs)" "room c < 3 * length bs" by (cases r) auto
        then show ?thesis unfolding e using fin[OF dst s] by cases simp_all
      qed
    qed
  qed
qed

subsection \<open>File names\<close>

lemma pull_flags_ok:
  assumes "conv_ok st" "cap \<noteq> CH_UCS2" "from_set \<le> max_charset_t st" "n \<le> length src" "even destlen"
  shows "\<exists>r fl' st'. pull_charset_flags env st from_set to_set cap src (Some n) destlen fl = Some (r, fl', st') \<and> tables st' = tables st \<and>
    (\<forall>k b. r = Inr (k, b) \<longrightarrow> k = length b \<and> k \<le> destlen \<and> even k)"
proof (cases "conv_handles st from_set CH_UCS2")
  case None
  then show ?thesis by (simp add: pull_charset_flags_def decode_source_ucs2_def Let_def)
next
  case (Some d)
  have d: "pulls d" "charset_name st from_set \<noteq> None" using assms(1,3) Some by (auto simp: conv_ok_def)
  obtain u st1 where u: "source_code_unit_size env st from_set = Some (u, st1)" "0 < u" "tables st1 = tables st" using unit_size_ok[OF assms(1) d(2)] by metis
  note t = tables_cong[OF u(3)]
  let ?len = "(MAXPATHLEN + 1) * 2 * (if has fl CONV_UNESCAPEHEX then 3 else 1)"
  obtain r fl1 st2 where r: "decode_loop env st1 d from_set u (take n src) (take n src) [] 0 ?len fl = Some (r, fl1, st2)" "tables st2 = tables st1"
    using decode_loop_ok[OF d(1) u(2), of st1 from_set env "take n src" "take n src" "[]" ?len fl] d(2) t by auto
  show ?thesis
  proof (cases r)
    case (Inl e)
    then show ?thesis using Some u r assms(4) by (simp add: pull_charset_flags_def decode_source_ucs2_def Let_def)
  next
    case (Inr x)
    obtain ds rest where x: "x = (ds, rest)" by (cases x)
    have "decodes h" if "conv_handles st2 cap CH_UCS2 = Some h" for h using assms(1,2) that tables_cong[OF r(2)] t by (auto simp: conv_ok_def)
    from emit_loop_ok[of "conv_handles st2 cap CH_UCS2" "[]" destlen destlen from_set to_set fl1 "length rest" True ds fl1, OF this]
    obtain q fl2 where "emit_filename_chars st2 from_set to_set cap ds (length rest) destlen fl1 = Some (q, fl2)"
      "\<forall>k b. q = Inr (k, b) \<longrightarrow> k = length b \<and> k \<le> destlen \<and> even k" by (auto simp: emit_filename_chars_def)
    then show ?thesis using Some u r assms(4) Inr x by (simp add: pull_charset_flags_def decode_source_ucs2_def Let_def)
  qed
qed

lemma push_flags_ok:
  assumes "conv_ok st" "has fl CONV_ESCAPEHEX \<Longrightarrow> conv_handles st CH_UCS2 cap \<noteq> None" "destlen \<le> length dest"
  shows "\<exists>r dest' fl' st'. push_charset_flags env st to_set cap src dest destlen fl = Some (r, dest', fl', st') \<and> length dest' = length dest \<and>
     tables st' = tables st \<and> (\<forall>n. r = Inr n \<longrightarrow> n \<le> destlen)"
proof (cases "conv_handles st CH_UCS2 to_set")
  case None
  then show ?thesis by (simp add: push_charset_flags_def)
next
  case (Some d)
  have "pushes d" "\<And>h. conv_handles st CH_UCS2 cap = Some h \<Longrightarrow> pushes h" using assms(1) Some by (auto simp: conv_ok_def)
  then have "\<exists>r dest' fl' st'. push_loop env st d (conv_handles st CH_UCS2 cap) fl destlen src dest 0 destlen fl = Some (r, dest', fl', st') \<and>
      length dest' = length dest \<and> tables st' = tables st \<and> (\<forall>n. r = Inr n \<longrightarrow> n \<le> destlen)"
    using assms(2,3) by (intro push_loop_ok) auto
  then show ?thesis using Some by (auto simp: push_charset_flags_def push_end_def)
qed

lemma units_append: "even (length a) \<Longrightarrow> units (a @ b) = units a @ units b"
  by (induction a rule: units.induct) auto

lemma fold_name_ok:
  assumes "even (length u)"
  shows "\<exists>u'. fold_name fl (u @ [0, 0]) = Some u' \<and> length u' = length u + 2"
proof -
  have z: "0 \<in> set (units (u @ [0, 0]))" using assms by (simp add: units_append SVAL_def)
  have "length (units (u @ [0, 0])) = length u div 2 + 1" using assms by (simp add: length_units_of)
  then show ?thesis
    using case_loop_ok[OF z, of toupper_w toupper_sp] case_loop_ok[OF z, of tolower_w tolower_sp] assms
    by (auto simp: fold_name_def strupper_w_def strlower_w_def length_units)
qed

end
