(* ===== verification/Charcnv_Names.thy ===== *)
theory Charcnv_Names
  imports Charcnv_Bounds
begin

text \<open>
  ASCII names through the conversions of \<open>charcnv.c\<close>: decoding, escaping, composition and encoding of
  such a name, each as a function of the name.
\<close>

abbreviation ascii :: "'a::len word list \<Rightarrow> bool" where "ascii us \<equiv> (\<forall>u \<in> set us. 0 < u \<and> u < 0x80)"

lemma ascii_points:
  fixes us :: "ucs2 list"
  assumes "ascii us"
  shows "concat (map utf8_of (map unat us)) = map ucast us" "concat (map enc16 (map unat us)) = unit_bytes us"
proof -
  have "utf8_of (unat u) = [ucast u]" "enc16 (unat u) = SSVAL u" if "u < 0x80" for u :: ucs2
  proof -
    have n: "unat u < 128" using that by (simp add: word_less_nat_alt)
    then show "utf8_of (unat u) = [ucast u]" by (simp add: utf8_of_def)
    show "enc16 (unat u) = SSVAL u" using n by (simp add: enc16_def utf16_of_def)
  qed
  then show "concat (map utf8_of (map unat us)) = map ucast us" "concat (map enc16 (map unat us)) = unit_bytes us"
    using assms by (induction us) auto
qed

lemma ascii_unat: "ascii (us :: ucs2 list) \<Longrightarrow> \<forall>cp \<in> set (map unat us). cp < 128"
  by (auto simp: word_less_nat_alt)

lemma pull_ascii:
  fixes us :: "ucs2 list"
  assumes "ascii us" "2 * length us \<le> n"
  shows "utf8_pull_call (map ucast us) n = \<lparr>err = None, input = [], wrote = unit_bytes us, room = n - 2 * length us, moved = 2 * length us\<rparr>"
proof -
  have "\<forall>cp \<in> set (map unat us). pulled cp" using ascii_unat[OF assms(1)] by (auto simp: pulled_def)
  then show ?thesis
    using pull_string[of "map unat us" n "[]"] ascii_points[OF assms(1)] assms(2) by (simp add: utf8_pull_call_def call_of_def length_units)
qed

lemma push_ascii:
  fixes us :: "ucs2 list"
  assumes "ascii us" "length us \<le> n"
  shows "utf8_push_call (unit_bytes us) n = \<lparr>err = None, input = [], wrote = map ucast us, room = n - length us, moved = length us\<rparr>"
proof -
  have "\<forall>cp \<in> set (map unat us). unicode cp \<and> \<not> bidi cp" using ascii_unat[OF assms(1)] by (auto simp: unicode_def bidi_def)
  then show ?thesis
    using push_string[of "map unat us" n "[]"] ascii_points[OF assms(1)] assms(2) by (simp add: utf8_push_call_def call_of_def)
qed

lemma units_unit_bytes [simp]: "units (unit_bytes us) = us"
  by (induction us) (auto simp: SSVAL_def SVAL_SSVAL)

lemma units_unit_bytes_append: "units (unit_bytes us @ bs) = us @ units bs"
  by (simp add: units_append)

subsection \<open>Composition\<close>

lemma precompose_ascii:
  "\<forall>u \<in> set us. u < 0x300 \<Longrightarrow> 2 * length us + 2 < n \<Longrightarrow> precompose_loop b us n out = (None, out @ b # us @ [0], n - 2 * length us - 2)"
proof (induction us arbitrary: b n out)
  case Nil
  then show ?case using precompose_last[of n b out] by simp
next
  case (Cons c us)
  have "precompose_loop b (c # us) n out = precompose_loop c us (n - 2) (out @ [b])"
    using Cons.prems by (subst precompose_loop.simps) simp
  also have "\<dots> = (None, (out @ [b]) @ c # us @ [0], n - 2 - 2 * length us - 2)" by (rule Cons.IH) (use Cons.prems in auto)
  finally show ?case by simp
qed

lemma decompose_ascii:
  "\<forall>u \<in> set us. u < 0x80 \<Longrightarrow> 2 * length us + 2 \<le> n \<Longrightarrow> decompose_loop us n out = (None, out @ us @ [0], n - 2 * length us)"
proof (induction us arbitrary: n out)
  case (Cons c us)
  have "c \<le> 0x7F" using Cons.prems(1) by (simp add: word_less_nat_alt word_le_nat_alt)
  then have "decompose_split c us = ([], c, [], us)" by (simp add: decompose_split_def)
  then have "decompose_loop (c # us) n out = decompose_loop us (n - 2) (out @ [c])" using Cons.prems(2) by simp
  also have "\<dots> = (None, (out @ [c]) @ us @ [0], n - 2 - 2 * length us)" by (rule Cons.IH) (use Cons.prems in auto)
  finally show ?case by simp
qed simp

lemma compose_w_ascii:
  assumes "ascii us" "us \<noteq> []" "2 * length us + 2 < n"
  shows "precompose_w (us @ rest) (2 * length us) n = (Inr (2 * length us), us @ [0], n - 2 * length us)"
    "decompose_w (us @ rest) (2 * length us) n = (Inr (2 * length us), us @ [0], n - 2 * length us)"
proof -
  obtain u vs where us: "us = u # vs" using assms(2) by (cases us) auto
  have lt: "\<forall>u \<in> set us. u < 0x300" using assms(1) by (auto simp: word_less_nat_alt)
  show "precompose_w (us @ rest) (2 * length us) n = (Inr (2 * length us), us @ [0], n - 2 * length us)"
    using precompose_ascii[of vs n u "[]"] lt assms(3) by (simp add: us precompose_w_def w_return_def)
  show "decompose_w (us @ rest) (2 * length us) n = (Inr (2 * length us), us @ [0], n - 2 * length us)"
    using decompose_ascii[of us n "[]"] assms by (simp add: decompose_w_def w_return_def us)
qed

lemma compose_for_ascii:
  assumes "ascii us" "us \<noteq> []" "2 * length us + 2 < n"
  shows "\<exists>tail. compose_for st f t fl n (2 * length us) (unit_bytes us) = Inr (2 * length us, unit_bytes us @ tail)"
  using compose_w_ascii[OF assms, of "[]"] by (simp add: compose_for_def Let_def)

subsection \<open>Escaping\<close>

text \<open>The characters of an escaped name, and what they stand for in \<open>:xx\<close> form.\<close>

definition esc :: "ucs2 \<Rightarrow> ucs2 list" where
  "esc c = (if c = 0x3A then [0x3A, 0x33, 0x61] else if c = 0x2F then [0x3A, 0x32, 0x66] else [c])"

definition escaped :: "ucs2 list \<Rightarrow> ucs2 list" where
  "escaped us =
     (case us of c # d # r \<Rightarrow> if c = 0x2E then [0x3A, 0x32, 0x65] @ concat (map esc (d # r)) else concat (map esc us) | _ \<Rightarrow> concat (map esc us))"

abbreviation (input) escape_flags :: "16 word" where "escape_flags \<equiv> CONV_ESCAPEHEX OR CONV_ESCAPEDOTS"

lemma emit_units_escape: "emit_units f t escape_flags c = esc c"
  by (simp add: emit_units_def esc_def conv_flag_defs)

lemma emit_escapes:
  assumes "2 * length (concat (map esc us)) \<le> left"
  shows "emit_loop f t cap escape_flags N il False us out (length out) left fl =
    Some (Inr (N - (left - 2 * length (concat (map esc us))), out @ unit_bytes (concat (map esc us))), fl)"
  using assms
proof (induction us arbitrary: out left)
  case Nil
  then show ?case by (simp add: emit_loop.simps)
next
  case (Cons c us)
  have n: "\<not> has escape_flags CONV_UNESCAPEHEX" by (simp add: conv_flag_defs)
  have l: "\<not> left < 2 * length (esc c)" using Cons.prems by simp
  have "emit_loop f t cap escape_flags N il False (c # us) out (length out) left fl =
      emit_loop f t cap escape_flags N il False us (out @ unit_bytes (esc c)) (length out + 2 * length (esc c)) (left - 2 * length (esc c)) fl"
    unfolding emit_loop.simps[of f t cap escape_flags N il False "c # us"] Let_def list.case emit_units_escape store_end
    using n l by (simp only: simp_thms if_False)
  then show ?case using Cons.IH[of "left - 2 * length (esc c)" "out @ unit_bytes (esc c)"] Cons.prems by (simp add: length_units)
qed

lemma emit_escaped:
  assumes "2 * length (escaped us) \<le> N"
  shows "\<exists>fl'. emit_loop f t cap escape_flags N 0 True us [] 0 N fl = Some (Inr (2 * length (escaped us), unit_bytes (escaped us)), fl') \<and>
    fl' \<in> {fl, fl OR CONV_REQESCAPE}"
proof (cases "\<exists>d r. us = 0x2E # d # r")
  case True
  then obtain d r where us: "us = 0x2E # d # r" by blast
  have h: "has escape_flags CONV_ESCAPEDOTS" by (simp add: conv_flag_defs)
  have e: "escaped us = [0x3A, 0x32, 0x65] @ concat (map esc (d # r))" by (simp add: escaped_def us)
  define w where "w = unit_bytes [0x3A, 0x32, 0x65]"
  have w: "length w = 6" by (simp add: w_def SSVAL_def)
  have "emit_loop f t cap escape_flags N 0 True us [] 0 N fl =
      emit_loop f t cap escape_flags N 0 False (d # r) w 6 (N - 6) (fl OR CONV_REQESCAPE)"
    unfolding us emit_loop.simps[of f t cap escape_flags N 0 True "0x2E # d # r"] Let_def list.case
    using h assms e by (simp add: store_def w_def SSVAL_def)
  then show ?thesis using emit_escapes[of "d # r" "N - 6" f t cap N 0 w "fl OR CONV_REQESCAPE", unfolded w] assms e by (simp add: w_def)
next
  case False
  have e: "escaped us = concat (map esc us)" using False by (auto simp: escaped_def split: list.split)
  have "emit_loop f t cap escape_flags N 0 True us [] 0 N fl = emit_loop f t cap escape_flags N 0 False us [] 0 N fl"
  proof (cases us)
    case (Cons c r)
    have "\<not> (2 \<le> length (c # r) \<and> c = 0x2E)" using False Cons by (cases r) auto
    then show ?thesis
      unfolding Cons emit_loop.simps[of f t cap escape_flags N 0 True "c # r"] emit_loop.simps[of f t cap escape_flags N 0 False "c # r"]
        Let_def list.case by (auto simp del: list.size)
  qed (simp add: emit_loop.simps)
  then show ?thesis using emit_escapes[of us N f t cap N 0 "[]" fl] assms e by simp
qed

subsection \<open>Unescaping\<close>

definition hex_form :: "ucs2 \<Rightarrow> ucs2 list" where
  "hex_form c = (if c = 0x3A then [0x3A, 0x33, 0x61] else if c = 0x2F then [0x3A, 0x32, 0x66] else [0x3A, 0x32, 0x65])"

text \<open>The strings that stand for a name, a character of it as itself or in \<open>:xx\<close> form.\<close>

inductive codes :: "ucs2 list \<Rightarrow> ucs2 list \<Rightarrow> bool" where
  nil: "codes [] []"
| plain: "codes us ds \<Longrightarrow> c \<noteq> 0x3A \<Longrightarrow> c \<noteq> 0x2F \<Longrightarrow> codes (c # us) (c # ds)"
| hexed: "codes us ds \<Longrightarrow> c \<in> {0x3A, 0x2F, 0x2E} \<Longrightarrow> codes (c # us) (hex_form c @ ds)"

inductive_cases codes_NilE: "codes [] ds"
inductive_cases codes_ConsE: "codes (c # us) ds"

lemma codes_esc: "codes us (concat (map esc us))"
proof (induction us)
  case (Cons c us)
  show ?case
  proof (cases "c = 0x3A \<or> c = 0x2F")
    case True
    then have "esc c = hex_form c" by (auto simp: esc_def hex_form_def)
    then show ?thesis using codes.hexed[OF Cons, of c] True by auto
  next
    case False
    then show ?thesis using codes.plain[OF Cons, of c] by (simp add: esc_def)
  qed
qed (simp add: codes.nil)

lemma codes_escaped: "codes us (escaped us)"
proof (cases "\<exists>d r. us = 0x2E # d # r")
  case True
  then obtain d r where us: "us = 0x2E # d # r" by blast
  then have "escaped us = hex_form 0x2E @ concat (map esc (d # r))" by (simp add: escaped_def hex_form_def)
  then show ?thesis using codes.hexed[OF codes_esc[of "d # r"], of "0x2E"] by (simp only: us) simp
next
  case False
  then have "escaped us = concat (map esc us)" by (auto simp: escaped_def split: list.split)
  then show ?thesis using codes_esc[of us] by (simp only:)
qed

lemma hex_values:
  "filename_hex_value 0x33 = 3" "filename_hex_value 0x61 = 10" "filename_hex_value 0x32 = 2" "filename_hex_value 0x66 = 15" "filename_hex_value 0x65 = 14"
  by (simp_all add: filename_hex_value_def)

lemma hex_run_form: "c \<in> {0x3A, 0x2F, 0x2E} \<Longrightarrow> length hex < MAXPATHLEN \<Longrightarrow> hex_run (hex_form c @ ds) hex = hex_run ds (hex @ [ucast c])"
  by (auto simp: hex_form_def hex_values)

lemma hex_run_codes:
  assumes "codes us ds" "length hex + length us < MAXPATHLEN"
  shows "\<exists>sp us' ds'. us = sp @ us' \<and> codes us' ds' \<and> hex_run ds hex = Some (hex @ map ucast sp, ds') \<and> (\<forall>c ds0. ds = c # ds0 \<longrightarrow> c = 0x3A \<longrightarrow> sp \<noteq> [])"
  using assms
proof (induction us ds arbitrary: hex rule: codes.induct)
  case nil
  then show ?case by (intro exI[of _ "[]"]) (simp add: codes.nil)
next
  case (plain us ds c)
  have "hex_run (c # ds) hex = Some (hex, c # ds)" using plain.hyps(2) by (cases "(c # ds, hex)" rule: hex_run.cases) auto
  then show ?case using codes.plain[OF plain.hyps(1,2,3)] plain.hyps(2) by (intro exI[of _ "[]"] exI[of _ "c # us"] exI[of _ "c # ds"]) simp
next
  case (hexed us ds c)
  obtain sp us' ds' where "us = sp @ us'" "codes us' ds'" "hex_run ds (hex @ [ucast c]) = Some ((hex @ [ucast c]) @ map ucast sp, ds')"
    using hexed.IH[of "hex @ [ucast c]"] hexed.prems by auto
  then show ?case using hex_run_form[OF hexed.hyps(2), of hex ds] hexed.prems by (intro exI[of _ "c # sp"] exI[of _ us'] exI[of _ ds']) auto
qed

text \<open>A conversion that reads ASCII characters as themselves.\<close>

definition reads_ascii :: "conv_fun \<Rightarrow> bool" where
  "reads_ascii f \<longleftrightarrow> (\<forall>us n. ascii us \<longrightarrow> 2 * length us \<le> n \<longrightarrow>
     f (map ucast (us :: ucs2 list)) n = \<lparr>err = None, input = [], wrote = unit_bytes us, room = n - 2 * length us, moved = 2 * length us\<rparr>)"

lemma emit_unescapes:
  assumes "codes us ds" "ascii us" "2 * length us \<le> left" "length us < MAXPATHLEN" "direct d = Some f" "reads_ascii f" "mac_set t"
  shows "emit_loop from_set t (Some d) CONV_UNESCAPEHEX N il start ds out (length out) left fl =
    Some (Inr (N - (left - 2 * length us), out @ unit_bytes us), fl)"
  using assms(1-4)
proof (induction "length us" arbitrary: us ds start out left rule: less_induct)
  case less
  note step = emit_loop.simps[of from_set t "Some d" CONV_UNESCAPEHEX N il start _ out "length out" left fl]
  have fl: "\<not> has CONV_UNESCAPEHEX CONV_ESCAPEDOTS" "has CONV_UNESCAPEHEX CONV_UNESCAPEHEX" "\<not> has CONV_UNESCAPEHEX CONV_ESCAPEHEX"
    by (simp_all add: conv_flag_defs)
  show ?case
  proof (cases us)
    case Nil
    then have "ds = []" using less.prems(1) by (auto elim: codes_NilE)
    then show ?thesis using Nil by (simp add: step)
  next
    case (Cons c vs)
    from less.prems(1)[unfolded Cons] consider es where "ds = c # es" "codes vs es" "c \<noteq> 0x3A" "c \<noteq> 0x2F"
      | es where "ds = hex_form c @ es" "codes vs es" "c \<in> {0x3A, 0x2F, 0x2E}" by (cases rule: codes_ConsE) blast+
    then show ?thesis
    proof cases
      case (1 es)
      have u: "emit_units from_set t CONV_UNESCAPEHEX c = [c]" using 1 by (simp add: emit_units_def)
      have "emit_loop from_set t (Some d) CONV_UNESCAPEHEX N il start ds out (length out) left fl =
          emit_loop from_set t (Some d) CONV_UNESCAPEHEX N il False es (out @ unit_bytes [c]) (length out + 2) (left - 2) fl"
        unfolding 1(1) step Let_def list.case u store_end using fl 1 less.prems(3) Cons by simp
      then show ?thesis using less.hyps[of vs es "left - 2" False "out @ unit_bytes [c]"] 1 less.prems Cons by (simp add: length_units SSVAL_def)
    next
      case (2 es)
      obtain sp us' ds' where sp: "us = sp @ us'" "codes us' ds'" "hex_run ds [] = Some (map ucast sp, ds')" "sp \<noteq> []"
        using hex_run_codes[OF less.prems(1), of "[]"] less.prems(4) 2 by (auto simp: hex_form_def split: if_splits)
      have call: "atalk_iconv d (map ucast sp) left = Some \<lparr>err = None, input = [], wrote = unit_bytes sp, room = left - 2 * length sp, moved = 2 * length sp\<rparr>"
        using assms(5,6) less.prems(2,3) sp(1) by (simp add: atalk_iconv_def reads_ascii_def)
      obtain ds0 where ds: "ds = 0x3A # ds0" using 2 by (auto simp: hex_form_def split: if_splits)
      have "emit_loop from_set t (Some d) CONV_UNESCAPEHEX N il start ds out (length out) left fl =
          emit_loop from_set t (Some d) CONV_UNESCAPEHEX N il False ds' (out @ unit_bytes sp) (length out + 2 * length sp) (left - 2 * length sp) fl"
        unfolding ds step Let_def list.case store_end using fl sp(3,4) call unfolding ds by simp
      moreover have "length us' < length us" using sp(1,4) by simp
      ultimately show ?thesis
        using less.hyps[of us' ds' "left - 2 * length sp" False "out @ unit_bytes sp"] sp less.prems by (simp add: length_units)
    qed
  qed
qed

end
