(* ===== verification/Mac_Charsets_Trip.thy ===== *)
theory Mac_Charsets_Trip
  imports Iconv
begin

text \<open>
  The single-byte charsets in both directions: what a table of \<open>charsets/mac_*.h\<close> decodes, its pages
  encode again. The locale \<open>single_byte\<close> states this for one byte and carries it to strings.
\<close>

locale single_byte =
  fixes to_uni :: "byte \<Rightarrow> ucs2 option" and to_byte :: "ucs2 \<Rightarrow> byte option" and unused :: "byte set"
  assumes inverse: "b \<notin> unused \<Longrightarrow> \<exists>u. to_uni b = Some u \<and> to_byte u = Some b"
begin

definition decoded :: "bytes \<Rightarrow> ucs2 list" where "decoded bs = map (\<lambda>b. the (to_uni b)) bs"

lemma pull_decoded:
  "set bs \<inter> unused = {} \<Longrightarrow> 2 * length bs \<le> n \<Longrightarrow>
   mb_pull_loop to_uni bs n out = (None, [], out @ concat (map SSVAL (decoded bs)), n - 2 * length bs)"
proof (induction bs arbitrary: n out)
  case (Cons b bs)
  then obtain u where "to_uni b = Some u" using inverse[of b] by auto
  then show ?case using Cons.IH[of "n - 2" "out @ SSVAL u"] Cons.prems by (simp add: decoded_def)
qed (simp add: decoded_def)

lemma push_decoded:
  "set bs \<inter> unused = {} \<Longrightarrow> length bs \<le> n \<Longrightarrow>
   mb_push_loop to_byte (concat (map SSVAL (decoded bs))) n out = (None, [], out @ bs, n - length bs)"
proof (induction bs arbitrary: n out)
  case (Cons b bs)
  then obtain u where u: "to_uni b = Some u" "to_byte u = Some b" using inverse[of b] by auto
  have "mb_push_loop to_byte (SSVAL u @ concat (map SSVAL (decoded bs))) n out = mb_push_loop to_byte (concat (map SSVAL (decoded bs))) (n - 1) (out @ [b])"
    using u Cons.prems by (simp add: SSVAL_def SVAL_SSVAL)
  then show ?case using Cons.IH[of "n - 1" "out @ [b]"] Cons.prems u by (simp add: decoded_def)
qed (simp add: decoded_def)

lemma round_trip:
  assumes "set bs \<inter> unused = {}" "2 * length bs \<le> n" "length bs \<le> m"
  shows "\<exists>us. mb_generic_pull to_uni bs n =
      \<lparr>err = None, input = [], wrote = concat (map SSVAL us), room = n - 2 * length bs, moved = 2 * length bs\<rparr> \<and> length us = length bs \<and>
    mb_generic_push to_byte (concat (map SSVAL us)) m = \<lparr>err = None, input = [], wrote = bs, room = m - length bs, moved = 0\<rparr>"
  using pull_decoded[OF assms(1,2), of "[]"] push_decoded[OF assms(1,3), of "[]"]
  by (intro exI[of _ "decoded bs"]) (auto simp: mb_generic_pull_def mb_generic_push_def call_of_def length_concat o_def sum_list_triv SSVAL_def decoded_def)

end

subsection \<open>The upper half of a charset\<close>

definition high :: "byte list" where
  "high =
     [0x80, 0x81, 0x82, 0x83, 0x84, 0x85, 0x86, 0x87, 0x88, 0x89, 0x8A, 0x8B, 0x8C, 0x8D, 0x8E, 0x8F,
     0x90, 0x91, 0x92, 0x93, 0x94, 0x95, 0x96, 0x97, 0x98, 0x99, 0x9A, 0x9B, 0x9C, 0x9D, 0x9E, 0x9F,
     0xA0, 0xA1, 0xA2, 0xA3, 0xA4, 0xA5, 0xA6, 0xA7, 0xA8, 0xA9, 0xAA, 0xAB, 0xAC, 0xAD, 0xAE, 0xAF,
     0xB0, 0xB1, 0xB2, 0xB3, 0xB4, 0xB5, 0xB6, 0xB7, 0xB8, 0xB9, 0xBA, 0xBB, 0xBC, 0xBD, 0xBE, 0xBF,
     0xC0, 0xC1, 0xC2, 0xC3, 0xC4, 0xC5, 0xC6, 0xC7, 0xC8, 0xC9, 0xCA, 0xCB, 0xCC, 0xCD, 0xCE, 0xCF,
     0xD0, 0xD1, 0xD2, 0xD3, 0xD4, 0xD5, 0xD6, 0xD7, 0xD8, 0xD9, 0xDA, 0xDB, 0xDC, 0xDD, 0xDE, 0xDF,
     0xE0, 0xE1, 0xE2, 0xE3, 0xE4, 0xE5, 0xE6, 0xE7, 0xE8, 0xE9, 0xEA, 0xEB, 0xEC, 0xED, 0xEE, 0xEF,
     0xF0, 0xF1, 0xF2, 0xF3, 0xF4, 0xF5, 0xF6, 0xF7, 0xF8, 0xF9, 0xFA, 0xFB, 0xFC, 0xFD, 0xFE, 0xFF]"

lemma high_nth:
  fixes b :: byte
  assumes "0x80 \<le> b"
  shows "unat (b - 0x80) < 128" "high ! unat (b - 0x80) = b"
proof -
  have n: "unat (b - 0x80) = unat b - 128" using assms unat_sub[of "0x80" b] by simp
  have b: "unat b < 256" "128 \<le> unat b" using unsigned_less[of b] assms by (simp_all add: word_le_nat_alt)
  then show "unat (b - 0x80) < 128" using n by linarith
  have l: "length high = 128" by (simp add: high_def)
  have m: "map unat high = [128..<256]" by (simp add: high_def upt_rec)
  have "unat (high ! i) = 128 + i" if "i < 128" for i using that nth_map[of i high unat] unfolding m l by (simp del: upt_rec_numeral)
  moreover have "unat b - 128 < 128" using b by linarith
  ultimately show "high ! unat (b - 0x80) = b" using b(2) by (simp add: n word_unat_eq_iff)
qed

lemma high_half:
  assumes "\<And>b. b < 0x80 \<Longrightarrow> to_uni b = Some (ucast b)" "\<And>u. u < 0x80 \<Longrightarrow> to_byte u = Some (ucast u)"
    and "\<And>b. 0x80 \<le> b \<Longrightarrow> b \<notin> unused \<Longrightarrow> unat (b - 0x80) < k \<and> to_uni b = Some (table ! unat (b - 0x80))"
    and "map to_byte (take k table) = map Some (take k high)" "k \<le> 128" "k \<le> length table"
  shows "single_byte to_uni to_byte unused"
proof
  fix b :: byte
  assume b: "b \<notin> unused"
  show "\<exists>u. to_uni b = Some u \<and> to_byte u = Some b"
  proof (cases "b < 0x80")
    case True
    then have "ucast b < (0x80 :: ucs2)" by (simp add: word_less_nat_alt unsigned_ucast_eq take_bit_nat_eq_self order.strict_trans)
    then show ?thesis using assms(1)[OF True] assms(2)[of "ucast b"] by (simp add: ucast_up_ucast_id is_up)
  next
    case False
    then have h: "0x80 \<le> b" by simp
    have i: "unat (b - 0x80) < k" using assms(3)[OF h b] by blast
    have "map to_byte (take k table) ! unat (b - 0x80) = map Some (take k high) ! unat (b - 0x80)" by (simp only: assms(4))
    then have "to_byte (table ! unat (b - 0x80)) = Some (high ! unat (b - 0x80))" using i assms(5,6) by (simp add: high_def)
    then show ?thesis using assms(3)[OF h b] high_nth[OF h] by auto
  qed
qed

subsection \<open>The charsets\<close>

lemma roman_pages: "map char_ucs2_to_mac_roman (take 128 mac_roman_2uni) = map Some (take 128 high)"
  by (simp add: mac_roman_2uni_def char_ucs2_to_mac_roman_def high_def mac_roman_page00_def mac_roman_page01_def mac_roman_page02_def mac_roman_page20_def mac_roman_page21_def mac_roman_page22_def mac_roman_pagefb_def)

lemma greek_pages: "map char_ucs2_to_mac_greek (take 127 mac_greek_2uni) = map Some (take 127 high)"
  by (simp add: mac_greek_2uni_def char_ucs2_to_mac_greek_def high_def mac_greek_page00_def mac_greek_page03_def mac_greek_page20_def mac_greek_page22_def)

lemma turkish_pages: "map char_ucs2_to_mac_turkish (take 128 mac_turkish_2uni) = map Some (take 128 high)"
  by (simp add: mac_turkish_2uni_def char_ucs2_to_mac_turkish_def high_def mac_turkish_page00_def mac_turkish_page01_def mac_turkish_page02_def mac_turkish_page20_def mac_turkish_page21_def mac_turkish_page22_def)

lemma cyrillic_pages: "map char_ucs2_to_mac_cyrillic (take 128 mac_cyrillic_2uni) = map Some (take 128 high)"
  by (simp add: mac_cyrillic_2uni_def char_ucs2_to_mac_cyrillic_def high_def mac_cyrillic_page00_def mac_cyrillic_page04_def mac_cyrillic_page20_def mac_cyrillic_page21_def mac_cyrillic_page22_def)

lemma centraleurope_pages: "map char_ucs2_to_mac_centraleurope (take 128 mac_centraleurope_2uni) = map Some (take 128 high)"
  by (simp add: mac_centraleurope_2uni_def char_ucs2_to_mac_centraleurope_def high_def mac_centraleurope_page00_def mac_centraleurope_page20_def mac_centraleurope_page22_def mac_centraleurope_page22_1_def)

lemma mac_table_lengths: "length mac_roman_2uni = 128" "length mac_greek_2uni = 128" "length mac_turkish_2uni = 128" "length mac_cyrillic_2uni = 128"
  "length mac_centraleurope_2uni = 128"
  by (simp_all add: mac_roman_2uni_def mac_greek_2uni_def mac_turkish_2uni_def mac_cyrillic_2uni_def mac_centraleurope_2uni_def)

text \<open>The entry of a table that marks unused bytes.\<close>

lemma used_entries: "0xFFFD \<notin> set (take 127 mac_greek_2uni)" "0xFFFD \<notin> set mac_turkish_2uni"
  by (simp_all add: mac_greek_2uni_def mac_turkish_2uni_def)

lemma greek_used:
  fixes b :: byte
  assumes "0x80 \<le> b" "b \<noteq> 0xFF"
  shows "unat (b - 0x80) < 127" "mac_greek_2uni ! unat (b - 0x80) \<noteq> 0xFFFD"
proof -
  have "b - 0x80 \<noteq> 0x7F" using assms(2) by (metis add_diff_cancel_right' diff_add_cancel numeral_plus_numeral add_num_simps)
  then show i: "unat (b - 0x80) < 127" using high_nth(1)[OF assms(1)] by (simp add: word_unat_eq_iff)
  have "take 127 mac_greek_2uni ! unat (b - 0x80) \<in> set (take 127 mac_greek_2uni)" using i by (intro nth_mem) (simp add: mac_table_lengths)
  then show "mac_greek_2uni ! unat (b - 0x80) \<noteq> 0xFFFD" using i used_entries(1) by auto
qed

lemma turkish_used: "0x80 \<le> (b :: byte) \<Longrightarrow> mac_turkish_2uni ! unat (b - 0x80) \<noteq> 0xFFFD"
  using used_entries(2) nth_mem[of "unat (b - 0x80)" mac_turkish_2uni] high_nth(1)[of b] by (metis mac_table_lengths(3))

interpretation roman: single_byte char_mac_roman_to_ucs2 char_ucs2_to_mac_roman "{}"
  by (rule high_half[OF _ _ _ roman_pages]) (auto simp: char_mac_roman_to_ucs2_def char_ucs2_to_mac_roman_def high_nth mac_table_lengths not_less)

interpretation turkish: single_byte char_mac_turkish_to_ucs2 char_ucs2_to_mac_turkish "{}"
  by (rule high_half[OF _ _ _ turkish_pages]) (auto simp: char_mac_turkish_to_ucs2_def char_ucs2_to_mac_turkish_def high_nth mac_table_lengths not_less turkish_used)

interpretation cyrillic: single_byte char_mac_cyrillic_to_ucs2 char_ucs2_to_mac_cyrillic "{}"
  by (rule high_half[OF _ _ _ cyrillic_pages]) (auto simp: char_mac_cyrillic_to_ucs2_def char_ucs2_to_mac_cyrillic_def high_nth mac_table_lengths not_less)

interpretation centraleurope: single_byte char_mac_centraleurope_to_ucs2 char_ucs2_to_mac_centraleurope "{}"
  by (rule high_half[OF _ _ _ centraleurope_pages]) (auto simp: char_mac_centraleurope_to_ucs2_def char_ucs2_to_mac_centraleurope_def high_nth mac_table_lengths not_less)

interpretation greek: single_byte char_mac_greek_to_ucs2 char_ucs2_to_mac_greek "{0xFF}"
  by (rule high_half[OF _ _ _ greek_pages]) (auto simp: char_mac_greek_to_ucs2_def char_ucs2_to_mac_greek_def high_nth mac_table_lengths not_less greek_used)

end
