(* ===== verification/Charcnv_Open.thy ===== *)
theory Charcnv_Open
  imports Charcnv_Names Mac_Charsets_Trip
begin

text \<open>
  The descriptors that \<open>init_iconv\<close> opens, and the conversion of ASCII names through them.
\<close>

subsection \<open>Opened descriptors\<close>

lemma register_list:
  "lazy_initialize_iconv = rev (builtin_functions @ [charset_utf8, charset_utf8_mac, charset_mac_roman, charset_mac_hebrew, charset_mac_greek,
     charset_mac_turkish, charset_mac_centraleurope, charset_mac_cyrillic])"
  by (simp add: lazy_initialize_iconv_def charset_defs atalk_register_charset_def find_charset_functions_def strcaseeq_def to_lower_def)

lemma find_builtin:
  "find_charset_functions lazy_initialize_iconv ''UCS-2'' \<noteq> None"
  "find_charset_functions lazy_initialize_iconv ''UTF8'' = Some charset_utf8"
  "find_charset_functions lazy_initialize_iconv ''UTF8-MAC'' = Some charset_utf8_mac"
  "find_charset_functions lazy_initialize_iconv ''MAC_ROMAN'' = Some charset_mac_roman"
  by (simp_all add: register_list charset_defs find_charset_functions_def strcaseeq_def to_lower_def)

lemma open_builtin:
  assumes "find_charset_functions lazy_initialize_iconv name = Some f" "\<not> strcaseeq name ''UCS-2''"
  obtains d e where "atalk_iconv_open True ''UCS-2'' name = Some d" "direct d = Some (pull f)" "atalk_iconv_open True name ''UCS-2'' = Some e"
    "direct e = Some (push f)"
  using that assms find_builtin(1) strcaseeq_trans(2)[of "''UCS-2''" name] by (auto simp: atalk_iconv_open_def)

lemma init_charset_opens:
  assumes "init_charset (\<lambda>_. True) s c = Some s'" "charset_name s c = Some name"
  shows "charset_names s' = charset_names s" "conv_handles s' c CH_UCS2 = atalk_iconv_open True ''UCS-2'' name"
    "c \<noteq> CH_UCS2 \<Longrightarrow> conv_handles s' CH_UCS2 c = atalk_iconv_open True name ''UCS-2''"
    "x \<noteq> CH_UCS2 \<Longrightarrow> x \<noteq> c \<Longrightarrow> conv_handles s' x CH_UCS2 = conv_handles s x CH_UCS2 \<and> conv_handles s' CH_UCS2 x = conv_handles s CH_UCS2 x"
  using assms by (auto simp: init_charset_def open_handle_def alloc_def get_charset_functions_def set_handle_def Let_def bind_eq_Some_conv
      split: if_splits option.splits)

lemma init_iconv_opens:
  assumes "init_iconv (\<lambda>_. True) s = Some s'" "ch < 5" "ch \<noteq> CH_UCS2" "charset_name s ch = Some name"
  shows "conv_handles s' ch CH_UCS2 = atalk_iconv_open True ''UCS-2'' name" "conv_handles s' CH_UCS2 ch = atalk_iconv_open True name ''UCS-2''"
proof -
  let ?step = "\<lambda>s c1. Option.bind s (\<lambda>st. init_charset (\<lambda>_. True) st c1)"
  have "charset_names t = charset_names s \<and> (ch < k \<longrightarrow> conv_handles t ch CH_UCS2 = atalk_iconv_open True ''UCS-2'' name \<and>
      conv_handles t CH_UCS2 ch = atalk_iconv_open True name ''UCS-2'')" if "foldl ?step (Some s) [0..<k] = Some t" for k t
    using that
  proof (induction k arbitrary: t)
    case (Suc k)
    then obtain t0 where t0: "foldl ?step (Some s) [0..<k] = Some t0" "init_charset (\<lambda>_. True) t0 k = Some t" by (auto simp: bind_eq_Some_conv)
    note IH = Suc.IH[OF t0(1)]
    obtain n where n: "charset_name t0 k = Some n" using t0(2) by (auto simp: init_charset_def bind_eq_Some_conv)
    note o = init_charset_opens[OF t0(2) n]
    have "k = ch \<Longrightarrow> n = name" using n assms(4) charset_name_cong[of t0 s] IH by auto
    then show ?case using IH o assms(3) by (cases "k = ch") (auto simp: less_Suc_eq)
  qed simp
  from this[of 5] show "conv_handles s' ch CH_UCS2 = atalk_iconv_open True ''UCS-2'' name" "conv_handles s' CH_UCS2 ch = atalk_iconv_open True name ''UCS-2''"
    using assms(1,2) unfolding init_iconv_def by auto
qed

subsection \<open>Conversion of ASCII names\<close>

lemma pull_flags_ascii:
  fixes us :: "ucs2 list"
  assumes "conv_ok st" "conv_handles st from_set CH_UCS2 = Some d" "direct d = Some utf8_pull_call" "from_set \<noteq> CH_UCS2" "charset_name st from_set \<noteq> None"
    and "ascii us" "length us \<le> MAXPATHLEN" "take (length us) src = map ucast us" "length us \<le> length src"
  obtains st' where "tables st' = tables st" "pull_charset_flags env st from_set to_set cap src (Some (length us)) N fl =
    map_option (\<lambda>(r, fl). (r, fl, st')) (emit_filename_chars st' from_set to_set cap us 0 N fl)"
proof -
  obtain u st1 where u: "source_code_unit_size env st from_set = Some (u, st1)" "tables st1 = tables st" using unit_size_ok[OF assms(1,5)] by metis
  let ?len = "(MAXPATHLEN + 1) * 2 * (if has fl CONV_UNESCAPEHEX then 3 else 1)"
  have len: "2 * length us \<le> ?len" using assms(7) by simp
  have "decode_loop env st1 d from_set u (map ucast us) (map ucast us) [] 0 ?len fl = Some (Inr (us, []), fl, st1)"
    using pull_ascii[OF assms(6) len] assms(3,4) by (subst decode_loop.simps) (auto simp: atalk_iconv_def Let_def store_def length_units)
  then have "pull_charset_flags env st from_set to_set cap src (Some (length us)) N fl =
      map_option (\<lambda>(r, fl). (r, fl, st1)) (emit_filename_chars st1 from_set to_set cap us 0 N fl)"
    using assms(2,8,9) u by (simp add: pull_charset_flags_def decode_source_ucs2_def Let_def)
  then show ?thesis using that u(2) by blast
qed

lemma push_flags_ascii:
  fixes us :: "ucs2 list"
  assumes "conv_handles st CH_UCS2 to_set = Some d" "direct d = Some utf8_push_call" "ascii us" "us \<noteq> []" "length us \<le> destlen"
  shows "push_charset_flags env st to_set cap (unit_bytes us) dest destlen fl = Some (Inr (length us), store dest 0 (map ucast us), fl, st)"
proof -
  have n: "2 \<le> length (unit_bytes us)" using assms(4) by (cases us) (simp_all add: length_units SSVAL_def)
  have "unit_bytes us \<noteq> []" using n by (metis list.size(3) not_numeral_le_zero)
  then have "push_loop env st d c fl destlen (unit_bytes us) dest 0 destlen fl = Some (Inr (length us), store dest 0 (map ucast us), fl, st)" for c
    using push_ascii[OF assms(3,5)] assms(2,5) by (subst push_loop.simps) (simp add: atalk_iconv_def Let_def push_end_def del: concat_eq_Nil_conv)
  then show ?thesis using assms(1) n by (simp add: push_charset_flags_def)
qed

text \<open>A whole conversion between two forms of UTF-8, by the units that its first half gives.\<close>

lemma convert_ascii:
  fixes us vs :: "ucs2 list"
  assumes "conv_ok st" "initialized st" "conv_handles st from_set CH_UCS2 = Some d" "direct d = Some utf8_pull_call" "from_set \<noteq> CH_UCS2"
    "charset_name st from_set \<noteq> None" "conv_handles st CH_UCS2 to_set = Some e" "direct e = Some utf8_push_call"
    and "ascii us" "length us \<le> MAXPATHLEN" "take (length us) src = map ucast us" "length us \<le> length src"
    and "ascii vs" "vs \<noteq> []" "length vs < MAXPATHLEN" "length vs + 2 \<le> length dest" "\<not> has fl' CONV_TOUPPER" "\<not> has fl' CONV_TOLOWER"
    and emits: "emit_loop from_set to_set (conv_handles st cap CH_UCS2) fl (2 * (MAXPATHLEN + 2) - 2) 0 True us [] 0 (2 * (MAXPATHLEN + 2) - 2) fl =
      Some (Inr (2 * length vs, unit_bytes vs), fl')"
  obtains st' where "tables st' = tables st" "convert_charset env st from_set to_set cap src (Some (length us)) dest fl =
    Some (Inr (length vs), store (store dest 0 (map ucast vs)) (length vs) [0, 0], fl', st')"
proof -
  let ?N = "2 * (MAXPATHLEN + 2) - 2"
  obtain st1 where st1: "tables st1 = tables st" "pull_charset_flags env st from_set to_set cap src (Some (length us)) ?N fl =
      map_option (\<lambda>(r, fl). (r, fl, st1)) (emit_filename_chars st1 from_set to_set cap us 0 ?N fl)"
    using pull_flags_ascii[OF assms(1,3-6) assms(9-12)] by metis
  note t = tables_cong[OF st1(1)]
  have p: "pull_charset_flags env st from_set to_set cap src (Some (length us)) ?N fl = Some (Inr (2 * length vs, unit_bytes vs), fl', st1)"
    unfolding st1(2) emit_filename_chars_def using emits by (simp add: t)
  have N: "2 * length vs + 2 < ?N" "\<not> ?N < 2 * length vs" using assms(15) by simp_all
  obtain tail where c: "compose_for st1 from_set to_set fl' ?N (2 * length vs) (unit_bytes vs) = Inr (2 * length vs, unit_bytes vs @ tail)"
    using compose_for_ascii[OF assms(13,14) N(1)] by metis
  have f: "fold_name fl' (take (2 * length vs) (unit_bytes vs @ tail) @ [0, 0]) = Some (unit_bytes vs @ [0, 0])"
    using assms(17,18) by (simp add: fold_name_def length_units)
  have q: "push_charset_flags env st1 to_set cap (unit_bytes vs) dest (length dest - 2) fl' = Some (Inr (length vs), store dest 0 (map ucast vs), fl', st1)"
    by (rule push_flags_ascii[OF _ assms(8,13,14)]) (use assms(7,16) t in simp_all)
  have "convert_charset env st from_set to_set cap src (Some (length us)) dest fl =
      Some (Inr (length vs), store (store dest 0 (map ucast vs)) (length vs) [0, 0], fl', st1)"
    using assms(2,14,16) N(2) f q
    unfolding convert_charset_def lazy_initialize_conv_def by (simp add: p[simplified] c[simplified] length_units)
  then show ?thesis using that st1(1) by blast
qed

subsection \<open>The descriptors that names go through\<close>

text \<open>Client names in decomposed UTF-8, volume names in UTF-8, escapes in Mac Roman.\<close>

definition utf8_volume :: "conv_state \<Rightarrow> bool" where
  "utf8_volume st \<longleftrightarrow> conv_ok st \<and> initialized st \<and>
     (\<forall>ch \<in> {CH_UTF8, CH_UTF8_MAC}. (\<exists>d e. conv_handles st ch CH_UCS2 = Some d \<and> direct d = Some utf8_pull_call \<and>
        conv_handles st CH_UCS2 ch = Some e \<and> direct e = Some utf8_push_call)) \<and>
     (\<exists>c. conv_handles st CH_MAC CH_UCS2 = Some c \<and> direct c = Some mac_roman_pull)"

lemma utf8_volume_cong: "tables st' = tables st \<Longrightarrow> utf8_volume st' = utf8_volume st"
  using tables_cong[of st' st] by (simp add: utf8_volume_def)

lemma utf8_volume_handles:
  assumes "utf8_volume st" "ch = CH_UTF8 \<or> ch = CH_UTF8_MAC"
  obtains d e where "conv_handles st ch CH_UCS2 = Some d" "direct d = Some utf8_pull_call" "conv_handles st CH_UCS2 ch = Some e"
    "direct e = Some utf8_push_call" "charset_name st ch \<noteq> None"
proof -
  have "charset_name st ch \<noteq> None" using assms(2) by (auto simp: charset_name_def)
  moreover have "ch \<in> {CH_UTF8, CH_UTF8_MAC}" using assms(2) by blast
  ultimately show ?thesis using assms(1) that unfolding utf8_volume_def by blast
qed

lemma init_utf8_volume:
  assumes "conv_ok s" "named 5 s" "initialized s" "charset_names s CH_MAC = Some ''MAC_ROMAN''" "init_iconv (\<lambda>_. True) s = Some st"
  shows "utf8_volume st"
proof -
  have ok: "conv_ok st" "initialized st" using init_iconv_ok[OF assms(1,2), of "\<lambda>_. True"] assms(3,5) by (metis option.inject)+
  have n: "charset_name s CH_UTF8 = Some ''UTF8''" "charset_name s CH_UTF8_MAC = Some ''UTF8-MAC''" "charset_name s CH_MAC = Some ''MAC_ROMAN''"
    using assms(4) by (simp_all add: charset_name_def)
  have u: "\<not> strcaseeq ''UTF8'' ''UCS-2''" "\<not> strcaseeq ''UTF8-MAC'' ''UCS-2''" "\<not> strcaseeq ''MAC_ROMAN'' ''UCS-2''"
    by (simp_all add: strcaseeq_def to_lower_def)
  obtain d1 e1 where 1: "conv_handles st CH_UTF8 CH_UCS2 = Some d1" "direct d1 = Some utf8_pull_call" "conv_handles st CH_UCS2 CH_UTF8 = Some e1"
    "direct e1 = Some utf8_push_call"
    using init_iconv_opens[OF assms(5) _ _ n(1)] open_builtin[OF find_builtin(2) u(1)] by (auto simp: charset_utf8_def)
  obtain d4 e4 where 4: "conv_handles st CH_UTF8_MAC CH_UCS2 = Some d4" "direct d4 = Some utf8_pull_call" "conv_handles st CH_UCS2 CH_UTF8_MAC = Some e4"
    "direct e4 = Some utf8_push_call"
    using init_iconv_opens[OF assms(5) _ _ n(2)] open_builtin[OF find_builtin(3) u(2)] by (auto simp: charset_utf8_mac_def)
  obtain c where "conv_handles st CH_MAC CH_UCS2 = Some c" "direct c = Some mac_roman_pull"
    using init_iconv_opens[OF assms(5) _ _ n(3)] open_builtin[OF find_builtin(4) u(3)] by (auto simp: charset_mac_roman_def)
  then show ?thesis using ok 1 4 unfolding utf8_volume_def by blast
qed

lemma roman_reads_ascii: "reads_ascii mac_roman_pull"
proof -
  have "mb_pull_loop char_mac_roman_to_ucs2 (map ucast us) n out = (None, [], out @ unit_bytes us, n - 2 * length us)"
    if "ascii us" "2 * length us \<le> n" for us :: "ucs2 list" and n out
    using that
  proof (induction us arbitrary: n out)
    case (Cons u us)
    have "u < 0x80" using Cons.prems(1) by simp
    then have "unat u < 128" by (simp add: word_less_nat_alt)
    then have "(ucast u :: byte) < 0x80" "ucast (ucast u :: byte) = u"
      by (simp_all add: word_less_nat_alt word_unat_eq_iff unsigned_ucast_eq unsigned_take_bit_eq take_bit_nat_eq_self)
    then have "char_mac_roman_to_ucs2 (ucast u) = Some u" by (simp add: char_mac_roman_to_ucs2_def)
    then show ?case using Cons.IH[of "n - 2" "out @ SSVAL u"] Cons.prems by simp
  qed simp
  then show ?thesis by (simp add: reads_ascii_def mac_roman_pull_def mb_generic_pull_def call_of_def length_units)
qed

text \<open>Escaped names are ASCII and at most three times as long.\<close>

lemma escaped_ascii: "ascii us \<Longrightarrow> ascii (escaped us)"
  by (auto simp: escaped_def esc_def split: list.splits if_splits)

lemma length_esc: "length (concat (map esc us)) \<le> 3 * length us" "length us \<le> length (concat (map esc us))"
  by (induction us) (auto simp: esc_def)

lemma length_escaped: "length (escaped us) \<le> 3 * length us" "length us \<le> length (escaped us)"
  using length_esc[of us] length_esc[of "tl us"] by (auto simp: escaped_def split: list.splits)

end
