(* ===== verification/Charcnv_Tables.thy ===== *)
theory Charcnv_Tables
  imports Charcnv_Open
begin

text \<open>
  The invariant of the tables of charsets through their set-up and extension, and the conversion of file
  names on tables that satisfy it.
\<close>

subsection \<open>The tables of charsets\<close>

text \<open>
  The invariant of the tables: every registered charset has a name of its own kind, and every descriptor
  keeps to the contract of the direction it stands for.
\<close>

definition charset_tables :: "conv_state \<Rightarrow> bool" where
  "charset_tables st \<longleftrightarrow> conv_ok st \<and> named (max_charset_t st + 1) st \<and> 4 \<le> max_charset_t st \<and> max_charset_t st < 20"

text \<open>The tables after the charsets of the client and of the server are configured, and once they are set up.\<close>

definition configured :: conv_state where
  "configured = snd (set_charset_name (\<lambda>_. True) (snd (set_charset_name (\<lambda>_. True) conv_start CH_MAC ''MAC_ROMAN'')) CH_UNIX ''UTF8'')\<lparr>initialized := True\<rparr>"

lemma configured_names: "charset_name configured = [0 \<mapsto> ''UCS-2'', 1 \<mapsto> ''UTF8'', 2 \<mapsto> ''MAC_ROMAN'', 3 \<mapsto> ''UTF8'', 4 \<mapsto> ''UTF8-MAC'']"
  by (simp add: fun_eq_iff charset_name_def configured_def set_charset_name_def alloc_def conv_start_def)

lemma configured_fields [simp]: "conv_handles configured x y = None" "max_charset_t configured = 4" "initialized configured"
  by (simp_all add: configured_def set_charset_name_def alloc_def conv_start_def)

lemma configured_tables: "charset_tables configured"
proof -
  have "\<not> strcaseeq ''UTF8'' ''UCS-2''" "\<not> strcaseeq ''MAC_ROMAN'' ''UCS-2''" "\<not> strcaseeq ''UTF8-MAC'' ''UCS-2''" by (simp_all add: strcaseeq_def to_lower_def)
  then have "named 5 configured" by (auto simp: named_def configured_names less_Suc_eq numeral_eq_Suc)
  then show ?thesis by (simp add: charset_tables_def conv_ok_def)
qed

definition ready :: conv_state where "ready = the (init_iconv (\<lambda>_. True) configured)"

lemma ready_tables: "init_iconv (\<lambda>_. True) configured = Some ready" "charset_tables ready" "initialized ready" "max_charset_t ready = 4" "utf8_volume ready"
proof -
  have c: "conv_ok configured" "named 5 configured" "charset_names configured CH_MAC = Some ''MAC_ROMAN''"
    using configured_tables by (simp_all add: charset_tables_def configured_def set_charset_name_def alloc_def conv_start_def)
  then obtain st where st: "init_iconv (\<lambda>_. True) configured = Some st" "conv_ok st" "charset_names st = charset_names configured"
    "initialized st = initialized configured" "max_charset_t st = max_charset_t configured" using init_iconv_ok by metis
  then show i: "init_iconv (\<lambda>_. True) configured = Some ready" by (simp add: ready_def)
  have "st = ready" using i st(1) by simp
  then show "charset_tables ready" "initialized ready" "max_charset_t ready = 4"
    using st c(2) charset_name_cong[OF st(3)] by (simp_all add: charset_tables_def named_def)
  show "utf8_volume ready" using init_utf8_volume[OF c(1,2) _ c(3) i] by simp
qed

lemma tables_named: "charset_tables st \<Longrightarrow> ch \<le> max_charset_t st \<Longrightarrow> charset_name st ch \<noteq> None"
  by (auto simp: charset_tables_def named_def dest!: spec[of _ ch])

lemma charset_tables_cong: "tables st' = tables st \<Longrightarrow> charset_tables st' = charset_tables st"
  using tables_cong[of st' st] by (simp add: charset_tables_def named_def)

lemma lazy_ok:
  assumes "charset_tables st"
  obtains st' where "lazy_initialize_conv env st = Some st'" "charset_tables st'" "initialized st'" "charset_names st' = charset_names st"
    "max_charset_t st' = max_charset_t st"
proof (cases "initialized st")
  case True
  then show ?thesis using that[of st] assms by (simp add: lazy_initialize_conv_def)
next
  case False
  let ?st = "st\<lparr>initialized := True\<rparr>"
  have n: "charset_name ?st = charset_name st" by (rule charset_name_cong) simp
  have "conv_ok ?st" using assms conv_ok_fields[of ?st st] by (simp add: charset_tables_def)
  moreover have "named 5 ?st" using assms n by (simp add: charset_tables_def named_def)
  ultimately obtain st' where st': "init_iconv env ?st = Some st'" "conv_ok st'" "charset_names st' = charset_names ?st" "initialized st' = initialized ?st"
    "max_charset_t st' = max_charset_t ?st" by (rule init_iconv_ok)
  have "charset_tables st'" using assms st' charset_name_cong[of st' st] by (simp add: charset_tables_def named_def)
  then show ?thesis using that[of st'] st' False by (simp add: lazy_initialize_conv_def)
qed

lemma find_name_ok:
  assumes "\<And>c. c \<in> set cs \<Longrightarrow> charset_name st c \<noteq> None"
  obtains r where "find_name st name cs = Some r" "r = None \<Longrightarrow> \<forall>c \<in> set cs. \<forall>n. charset_name st c = Some n \<longrightarrow> \<not> strcaseeq name n"
    "\<And>c. r = Some c \<Longrightarrow> c \<in> set cs \<and> (\<exists>n. charset_name st c = Some n \<and> strcaseeq name n)"
proof -
  have "\<exists>r. find_name st name cs = Some r \<and> (r = None \<longrightarrow> (\<forall>c \<in> set cs. \<forall>n. charset_name st c = Some n \<longrightarrow> \<not> strcaseeq name n)) \<and>
      (\<forall>c. r = Some c \<longrightarrow> c \<in> set cs \<and> (\<exists>n. charset_name st c = Some n \<and> strcaseeq name n))"
    using assms
  proof (induction cs)
    case (Cons c cs)
    then obtain n where "charset_name st c = Some n" by fastforce
    then show ?case using Cons by (cases "strcaseeq name n") auto
  qed simp
  then show ?thesis using that by blast
qed

text \<open>Descriptors of a charset that is not registered yet, and its registration.\<close>

lemma conv_ok_new:
  assumes "conv_ok s" "tables s' = tables s" "max_charset_t s < cur" "\<And>x. h = Some x \<Longrightarrow> pulls x \<and> decodes x" "\<And>y. g = Some y \<Longrightarrow> pushes y"
  shows "conv_ok (set_handle s' cur CH_UCS2 h)" "conv_ok (set_handle (set_handle s' cur CH_UCS2 h) CH_UCS2 cur g)"
  using assms(1,3,4,5) tables_cong[OF assms(2)] by (auto simp: conv_ok_def split: if_splits)

lemma tables_new:
  assumes "charset_tables s" "tables s' = tables s" "max_charset_t s < cur" "\<And>x. h = Some x \<Longrightarrow> pulls x \<and> decodes x" "\<And>y. g = Some y \<Longrightarrow> pushes y"
  shows "charset_tables (set_handle s' cur CH_UCS2 h)" "charset_tables (set_handle (set_handle s' cur CH_UCS2 h) CH_UCS2 cur g)"
  using conv_ok_new[of s s' cur h g] assms tables_cong[OF assms(2)] by (simp_all add: charset_tables_def named_def)

lemma tables_registered:
  assumes "charset_tables s" "max_charset_t s < 19" "cur = Suc (max_charset_t s)" "\<not> strcaseeq name ''UCS-2''"
  shows "\<exists>f s2. get_charset_functions (s\<lparr>charset_names := (charset_names s)(cur := Some name)\<rparr>) cur = Some (f, s2) \<and>
    (\<forall>cs. charset_tables (s2\<lparr>charsets := cs, max_charset_t := max_charset_t s2 + 1\<rparr>)) \<and> initialized s2 = initialized s \<and> max_charset_t s2 = max_charset_t s \<and>
    charset_names s2 = (charset_names s)(cur := Some name)"
proof -
  define t where "t = s\<lparr>charset_names := (charset_names s)(cur := Some name)\<rparr>"
  have max: "4 \<le> max_charset_t s" using assms(1) by (simp add: charset_tables_def)
  have n: "charset_name t ch = (if ch = cur then Some name else charset_name s ch)" for ch using max assms(3) by (simp add: charset_name_def t_def)
  then have "charset_name t cur \<noteq> None" by simp
  then obtain f s2 where s2: "get_charset_functions t cur = Some (f, s2)" "charset_names s2 = charset_names t" "conv_handles s2 = conv_handles t"
    "max_charset_t s2 = max_charset_t t" "initialized s2 = initialized t" by (rule get_functions_ok)
  have "charset_tables (s2\<lparr>charsets := cs, max_charset_t := max_charset_t s2 + 1\<rparr>)" for cs
  proof -
    define r where "r = s2\<lparr>charsets := cs, max_charset_t := max_charset_t s2 + 1\<rparr>"
    have f: "charset_name r = charset_name t" "conv_handles r = conv_handles s" "max_charset_t r = cur"
      using s2 assms(3) charset_name_cong[of r t] by (simp_all add: r_def t_def)
    have "conv_ok r" using assms(1,3) by (auto simp: conv_ok_def f n charset_tables_def le_Suc_eq)
    moreover have "named (cur + 1) r" using assms(1,3,4) by (auto simp: named_def f n charset_tables_def less_Suc_eq)
    ultimately show ?thesis using f(3) assms(2,3) max by (simp add: charset_tables_def r_def)
  qed
  then show ?thesis using s2 by (auto simp: t_def)
qed

lemma add_new_ok:
  assumes "charset_tables s" "initialized s" "\<forall>k. env k" "\<not> strcaseeq name ''UCS-2''" "max_charset_t s < 19" "cur = Suc (max_charset_t s)"
  obtains r st' where "add_new_charset env s name cur = Some (r, st')" "charset_tables st'" "initialized st'"
    "r = None \<and> charset_names st' = charset_names s \<or>
     r = Some cur \<and> max_charset_t st' = cur \<and> charset_names st' = (charset_names s)(cur := Some name)"
proof -
  obtain h s1 where 1: "open_handle env s ''UCS-2'' name = (h, s1)" by fastforce
  let ?s1 = "set_handle s1 cur CH_UCS2 h"
  obtain g s2 where 2: "open_handle env ?s1 name ''UCS-2'' = (g, s2)" by fastforce
  let ?s2 = "set_handle s2 CH_UCS2 cur g"
  obtain s3 where 3: "alloc env ?s2 = (True, s3)" using assms(3) by (auto simp: alloc_def)
  have h: "\<And>x. h = Some x \<Longrightarrow> pulls x \<and> decodes x" using 1 assms(4) open_pulls by (auto simp: open_handle_def alloc_def)
  have g: "\<And>y. g = Some y \<Longrightarrow> pushes y" using 2 open_pushes by (auto simp: open_handle_def alloc_def)
  have t: "charset_tables ?s1" "charset_tables (set_handle ?s1 CH_UCS2 cur g)"
    using tables_new[OF assms(1) tables_open(2)[OF 1] _ h g] assms(6) by simp_all
  have e: "tables ?s2 = tables (set_handle ?s1 CH_UCS2 cur g)" using tables_open(2)[OF 2] by (simp add: tables_def set_handle_def)
  have t3: "charset_tables s3" using charset_tables_cong[OF e] charset_tables_cong[OF tables_alloc(2)[OF 3]] t(2) by simp
  have names: "charset_names ?s1 = charset_names s" "charset_names ?s2 = charset_names s" "charset_names s3 = charset_names s"
    "initialized ?s1" "initialized ?s2" "initialized s3" "max_charset_t s3 = max_charset_t s"
    using assms(2) tables_open(2)[OF 1] tables_open(2)[OF 2] tables_alloc(2)[OF 3] by (auto simp: tables_def set_handle_def)
  obtain f s4 where 4: "get_charset_functions (s3\<lparr>charset_names := (charset_names s3)(cur := Some name)\<rparr>) cur = Some (f, s4)"
    "\<And>cs. charset_tables (s4\<lparr>charsets := cs, max_charset_t := max_charset_t s4 + 1\<rparr>)" "initialized s4" "max_charset_t s4 = max_charset_t s"
    "charset_names s4 = (charset_names s)(cur := Some name)"
    using tables_registered[OF t3 _ _ assms(4), of cur] names assms(5,6) by auto
  show ?thesis
  proof (cases "h = None \<or> g = None")
    case True
    then have "add_new_charset env s name cur = Some (None, if h = None then set_handle s1 cur CH_UCS2 None else set_handle s2 CH_UCS2 cur None)"
      using 1 2 by (auto simp: add_new_charset_def)
    then show ?thesis using that names t charset_tables_cong[OF e] True by (cases "h = None") auto
  next
    case False
    then have "add_new_charset env s name cur = Some (Some cur, s4\<lparr>charsets := (charsets s4)(cur := f), max_charset_t := max_charset_t s4 + 1\<rparr>)"
      using 1 2 3 4(1) by (auto simp: add_new_charset_def)
    then show ?thesis using that 4 assms(6) by simp
  qed
qed

subsection \<open>File name conversion\<close>

lemma convert_charset_ok:
  assumes "charset_tables st" "initialized st" "from_set \<le> max_charset_t st" "cap \<noteq> CH_UCS2" "conv_handles st CH_UCS2 cap \<noteq> None" "n \<le> length src"
  shows "\<exists>r dest' fl' st'. convert_charset env st from_set to_set cap src (Some n) dest fl = Some (r, dest', fl', st') \<and>
    length dest' = length dest \<and> tables st' = tables st \<and> (\<forall>k. r = Inr k \<longrightarrow> k + 2 \<le> length dest \<and> take 2 (drop k dest') = [0, 0])"
proof -
  let ?N = "2 * (MAXPATHLEN + 2) - 2"
  have ok: "conv_ok st" using assms(1) by (simp add: charset_tables_def)
  have lazy: "lazy_initialize_conv env st = Some st" using assms(2) by (simp add: lazy_initialize_conv_def)
  have zero: "take 2 (drop k (store dst k [0, 0])) = [0, 0]" if "k + 2 \<le> length dst" for k dst using that by (simp add: store_def)
  obtain r fl1 st1 where r: "pull_charset_flags env st from_set to_set cap src (Some n) ?N fl = Some (r, fl1, st1)" "tables st1 = tables st"
    "\<forall>k b. r = Inr (k, b) \<longrightarrow> k = length b \<and> k \<le> ?N \<and> even k"
    using pull_flags_ok[OF ok assms(4,3,6), of ?N env to_set fl] by auto
  note t1 = charset_tables_cong[OF r(2)] tables_cong[OF r(2)]
  note conv = convert_charset_def[of env st from_set to_set cap src "Some n" dest fl, unfolded lazy bind.bind_lunit r(1) prod.case]
  show ?thesis
  proof (cases "\<exists>k b i u. r = Inr (k, b) \<and> 2 \<le> length dest \<and> k \<noteq> 0 \<and> compose_for st1 from_set to_set fl1 ?N k b = Inr (i, u) \<and> i \<le> ?N")
    case False
    then show ?thesis unfolding conv using r(2) zero[of 0] by (cases r) (auto split: sum.split)
  next
    case True
    then obtain k b i u where x: "r = Inr (k, b)" "2 \<le> length dest" "k \<noteq> 0" "compose_for st1 from_set to_set fl1 ?N k b = Inr (i, u)" "i \<le> ?N" by blast
    have k: "k = length b" "even k" using r(3) x(1) by auto
    have i: "even i" "i \<le> length u" using compose_for_ok[OF x(4)] k by simp_all
    obtain u' where u': "fold_name fl1 (take i u @ [0, 0]) = Some u'" "length u' = i + 2" using fold_name_ok[of "take i u" fl1] i by auto
    obtain q dest' fl2 st2 where q: "push_charset_flags env st1 to_set cap (take i u') dest (length dest - 2) fl1 = Some (q, dest', fl2, st2)"
      "length dest' = length dest" "tables st2 = tables st1" "\<forall>n. q = Inr n \<longrightarrow> n \<le> length dest - 2"
      using push_flags_ok[of st1 fl1 cap "length dest - 2" dest env to_set "take i u'"] ok assms(5) t1 by auto
    show ?thesis unfolding conv using x u' q zero r(2) by (cases q) auto
  qed
qed

end
