(* ===== verification/Charcnv_Claims.thy ===== *)
theory Charcnv_Claims
  imports Charcnv_Tables
begin

text \<open>
  Properties of charset conversion: the tables of charsets, the bounds and the termination of file name
  conversions, and names and Mac strings that survive a conversion there and back.
\<close>

subsection \<open>The tables of charsets\<close>

text \<open>
  C34: Once the charsets are set up, \<open>add_charset\<close> returns when the allocations succeed, and it keeps the
  invariant of the tables: a descriptor towards UCS2 decodes whole units and follows what it writes, one
  from UCS2 keeps to its space, every registered charset has a name, there are at most 20. The charsets
  that were registered keep their numbers, and the result is the number of a charset of the given name.
\<close>

theorem add_charset_tables:
  assumes "charset_tables st" "\<forall>k. env k"
  shows "\<exists>r st'. add_charset env st name = Some (r, st') \<and> charset_tables st' \<and> initialized st' \<and>
    (\<forall>ch \<le> max_charset_t st. charset_name st' ch = charset_name st ch) \<and>
    (\<forall>c. r = Some c \<longrightarrow> c \<le> max_charset_t st' \<and> (\<exists>n. charset_name st' c = Some n \<and> strcaseeq name n))"
proof -
  let ?cur = "max_charset_t st + 1"
  obtain s where s: "lazy_initialize_conv env st = Some s" "charset_tables s" "initialized s" "charset_names s = charset_names st"
    "max_charset_t s = max_charset_t st" using lazy_ok[OF assms(1)] by metis
  note n = charset_name_cong[OF s(4)]
  have "charset_name s c \<noteq> None" if "c \<in> set [0..<?cur]" for c using that s(2,5) tables_named by auto
  then obtain r where r: "find_name s name [0..<?cur] = Some r"
    and none: "r = None \<Longrightarrow> \<forall>c \<in> set [0..<?cur]. \<forall>n. charset_name s c = Some n \<longrightarrow> \<not> strcaseeq name n"
    and some: "\<And>c. r = Some c \<Longrightarrow> c \<in> set [0..<?cur] \<and> (\<exists>n. charset_name s c = Some n \<and> strcaseeq name n)"
    using find_name_ok[of "[0..<?cur]" s name] by metis
  show ?thesis
  proof (cases "r = None \<and> ?cur < 20")
    case False
    then have "add_charset env st name = Some (r, s)" using s r by (cases r) (auto simp: add_charset_def)
    then show ?thesis using s some n by (cases r) auto
  next
    case True
    have u: "\<not> strcaseeq name ''UCS-2''" using bspec[OF none, of 0] True by (auto simp: charset_name_def)
    have m: "max_charset_t s < 19" "?cur = Suc (max_charset_t s)" using True s(5) by simp_all
    from s(2,3) assms(2) u m obtain q st' where q: "add_new_charset env s name ?cur = Some (q, st')" "charset_tables st'" "initialized st'"
      "q = None \<and> charset_names st' = charset_names s \<or> q = Some ?cur \<and> max_charset_t st' = ?cur \<and> charset_names st' = (charset_names s)(?cur := Some name)"
      by (rule add_new_ok)
    have "add_charset env st name = Some (q, st')" using s r True q(1) by (simp add: add_charset_def add_new_charset_def)
    moreover have "4 \<le> max_charset_t st" using assms(1) by (simp add: charset_tables_def)
    ultimately show ?thesis using q s(4) by (auto simp: charset_name_def)
  qed
qed

theorem add_charset_tables_witness:
  "\<exists>r st'. add_charset (\<lambda>_. True) configured ''mac_greek'' = Some (r, st') \<and> charset_tables st' \<and>
    (\<forall>c. r = Some c \<longrightarrow> (\<exists>n. charset_name st' c = Some n \<and> strcaseeq ''mac_greek'' n))"
  using add_charset_tables[OF configured_tables, of "\<lambda>_. True" "''mac_greek''"] by blast

subsection \<open>Bounds\<close>



lemma internal_ok:
  assumes "charset_tables st" "from_set \<noteq> CH_UCS2" "n \<le> length src"
  shows "\<exists>r st'. convert_string_internal env st from_set CH_UCS2 src (Some n) N = Some (r, st') \<and> charset_tables st' \<and> initialized st' \<and>
    (\<forall>k b. r = Inr (k, b) \<longrightarrow> even k \<and> length b = k + 2)"
proof -
  obtain s where s: "lazy_initialize_conv env st = Some s" "charset_tables s" "initialized s" using lazy_ok[OF assms(1)] by metis
  show ?thesis
  proof (cases "conv_handles s from_set CH_UCS2")
    case None
    then show ?thesis using s by (simp add: convert_string_internal_def)
  next
    case (Some d)
    then have d: "pulls d" "decodes d" using s(2) assms(2) by (auto simp: charset_tables_def conv_ok_def)
    obtain c where c: "atalk_iconv d (take n src) N = Some c" "length (wrote c) + room c = N" "even (length (wrote c))"
      using pulls_call[OF d(1), of "take n src" N] d(2) by metis
    have "N - room c = length (wrote c)" using c(2) by simp
    then show ?thesis using s Some c assms(3) by (auto simp: convert_string_internal_def add_null_def)
  qed
qed

lemma convert_grow_ok:
  assumes "pushes d" "2 \<le> destlen"
  shows "\<exists>r st'. convert_grow env st d to_set src destlen = Some (r, st') \<and> tables st' = tables st \<and>
    (\<forall>len buf. r = Inr (len, Some buf) \<longrightarrow> len \<le> 2 * MAX_CONVERT_SIZE \<and> length buf = len + (if to_set = CH_UCS2 then 2 else 1))"
  using assms(2)
proof (induction "MAX_CONVERT_SIZE - destlen" arbitrary: destlen st rule: less_induct)
  case less
  show ?case
  proof (cases "destlen > MAX_CONVERT_SIZE")
    case True
    then show ?thesis by (subst convert_grow.simps) simp
  next
    case False
    obtain ok s where a: "alloc env st = (ok, s)" by fastforce
    obtain c where c: "atalk_iconv d src (2 * destlen) = Some c" "length (wrote c) + room c = 2 * destlen"
      using pushes_call[OF assms(1), of src "2 * destlen"] by metis
    have t: "tables s = tables st" using a by simp
    have IH: "\<exists>r st'. convert_grow env s d to_set src n = Some (r, st') \<and> tables st' = tables st \<and>
        (\<forall>len buf. r = Inr (len, Some buf) \<longrightarrow> len \<le> 2 * MAX_CONVERT_SIZE \<and> length buf = len + (if to_set = CH_UCS2 then 2 else 1))" if "destlen < n" for n
    proof (cases "destlen < MAX_CONVERT_SIZE")
      case True
      then show ?thesis using less.hyps[of n s] less.prems t that by auto
    next
      case False
      then show ?thesis using that t by (subst convert_grow.simps) simp
    qed
    note body = convert_grow.simps[of env st d to_set src destlen, unfolded a prod.case c(1) bind.bind_lunit]
    obtain ok2 s2 where a2: "alloc env s = (ok2, s2)" by fastforce
    have t2: "tables s2 = tables st" using a2 t by simp
    show ?thesis
    proof (cases "ok \<and> (err c = Some E2BIG \<or> err c = None \<and> \<not> (if to_set = CH_UCS2 then 2 \<le> room c else 0 < room c))")
      case True
      then obtain n where "convert_grow env st d to_set src destlen = convert_grow env s d to_set src n" "destlen < n"
        unfolding body using False less.prems by (cases "err c") (auto split: if_splits)
      then show ?thesis using IH by simp
    next
      case no: False
      then show ?thesis unfolding body using False a2 t t2 c(2) by (auto simp: Let_def)
    qed
  qed
qed



subsection \<open>Names there and back\<close>

lemma convert_escapes:
  fixes us :: "ucs2 list"
  assumes "utf8_volume st" "ascii us" "us \<noteq> []" "length (escaped us) < MAXPATHLEN" "take (length us) src = map ucast us" "length us \<le> length src"
    "length (escaped us) + 2 \<le> length dest"
  obtains fl st' where "tables st' = tables st" "convert_charset env st CH_UTF8_MAC CH_UTF8 CH_MAC src (Some (length us)) dest escape_flags =
    Some (Inr (length (escaped us)), store (store dest 0 (map ucast (escaped us))) (length (escaped us)) [0, 0], fl, st')"
proof -
  let ?N = "2 * (MAXPATHLEN + 2) - 2"
  obtain d where d: "conv_handles st CH_UTF8_MAC CH_UCS2 = Some d" "direct d = Some utf8_pull_call" "charset_name st CH_UTF8_MAC \<noteq> None"
    using utf8_volume_handles[OF assms(1), of CH_UTF8_MAC] by blast
  obtain e where e: "conv_handles st CH_UCS2 CH_UTF8 = Some e" "direct e = Some utf8_push_call" using utf8_volume_handles[OF assms(1), of CH_UTF8] by blast
  have ok: "conv_ok st" "initialized st" using assms(1) by (simp_all only: utf8_volume_def)
  have "2 * length (escaped us) \<le> ?N" using assms(4) by simp
  from emit_escaped[OF this, of CH_UTF8_MAC CH_UTF8 "conv_handles st CH_MAC CH_UCS2" escape_flags]
  obtain fl where emit: "emit_loop CH_UTF8_MAC CH_UTF8 (conv_handles st CH_MAC CH_UCS2) escape_flags ?N 0 True us [] 0 ?N escape_flags =
      Some (Inr (2 * length (escaped us), unit_bytes (escaped us)), fl)" and fl: "fl \<in> {escape_flags, escape_flags OR CONV_REQESCAPE}" by blast
  have "\<not> has fl CONV_TOUPPER" "\<not> has fl CONV_TOLOWER" using fl by (auto simp: conv_flag_defs)
  moreover have "length us \<le> MAXPATHLEN" "escaped us \<noteq> []" using length_escaped[of us] assms(3,4) by auto
  ultimately show ?thesis
    using convert_ascii[OF ok d(1,2) _ d(3) e assms(2) _ assms(5,6) escaped_ascii[OF assms(2)] _ assms(4,7) _ _ emit] that by (metis zero_neq_numeral)
qed

lemma convert_unescapes:
  fixes us :: "ucs2 list"
  assumes "utf8_volume st" "ascii us" "us \<noteq> []" "codes us ds" "ascii ds" "length ds < MAXPATHLEN" "length us \<le> length ds"
    "take (length ds) src = map ucast ds" "length ds \<le> length src" "length us + 2 \<le> length dest"
  obtains fl st' where "convert_charset env st CH_UTF8 CH_UTF8_MAC CH_MAC src (Some (length ds)) dest CONV_UNESCAPEHEX =
    Some (Inr (length us), store (store dest 0 (map ucast us)) (length us) [0, 0], fl, st')"
proof -
  let ?N = "2 * (MAXPATHLEN + 2) - 2"
  obtain d where d: "conv_handles st CH_UTF8 CH_UCS2 = Some d" "direct d = Some utf8_pull_call" "charset_name st CH_UTF8 \<noteq> None"
    using utf8_volume_handles[OF assms(1), of CH_UTF8] by blast
  obtain e where e: "conv_handles st CH_UCS2 CH_UTF8_MAC = Some e" "direct e = Some utf8_push_call"
    using utf8_volume_handles[OF assms(1), of CH_UTF8_MAC] by blast
  obtain c where c: "conv_handles st CH_MAC CH_UCS2 = Some c" "direct c = Some mac_roman_pull" using assms(1) unfolding utf8_volume_def by blast
  have ok: "conv_ok st" "initialized st" using assms(1) by (simp_all only: utf8_volume_def)
  have len: "length us < MAXPATHLEN" "2 * length us \<le> ?N" "?N - (?N - 2 * length us) = 2 * length us" using assms(6,7) by simp_all
  have emit: "emit_loop CH_UTF8 CH_UTF8_MAC (conv_handles st CH_MAC CH_UCS2) CONV_UNESCAPEHEX ?N 0 True ds [] 0 ?N CONV_UNESCAPEHEX =
      Some (Inr (2 * length us, unit_bytes us), CONV_UNESCAPEHEX)"
    using emit_unescapes[OF assms(4,2) len(2,1) c(2) roman_reads_ascii, of CH_UTF8_MAC CH_UTF8 ?N 0 True "[]"] unfolding c(1) len(3) by simp
  have "\<not> has CONV_UNESCAPEHEX CONV_TOUPPER" "\<not> has CONV_UNESCAPEHEX CONV_TOLOWER" by (simp_all add: conv_flag_defs)
  from convert_ascii[OF ok d(1,2) _ d(3) e assms(5) _ assms(8,9,2,3) len(1) assms(10) this emit] assms(6) that
  show ?thesis by (metis less_imp_le zero_neq_one)
qed



text \<open>
  C36: A string of bytes of a single-byte Mac charset, decoded to UCS2, encodes to the same bytes, for Mac
  Roman, Turkish, Cyrillic, Central European and Greek, the last without the byte it does not use.
\<close>

theorem mac_round_trip:
  assumes "(pl, ps, unused) \<in> {(mac_roman_pull, mac_roman_push, {}), (mac_turkish_pull, mac_turkish_push, {}), (mac_cyrillic_pull, mac_cyrillic_push, {}),
      (mac_centraleurope_pull, mac_centraleurope_push, {}), (mac_greek_pull, mac_greek_push, {0xFF})}"
    and "set bs \<inter> unused = {}" "2 * length bs \<le> n" "length bs \<le> m"
  shows "\<exists>us. pl bs n = \<lparr>err = None, input = [], wrote = concat (map SSVAL us), room = n - 2 * length bs, moved = 2 * length bs\<rparr> \<and>
    length us = length bs \<and> ps (concat (map SSVAL us)) m = \<lparr>err = None, input = [], wrote = bs, room = m - length bs, moved = 0\<rparr>"
  using assms(1,2) roman.round_trip[OF _ assms(3,4)] turkish.round_trip[OF _ assms(3,4)] cyrillic.round_trip[OF _ assms(3,4)]
    centraleurope.round_trip[OF _ assms(3,4)] greek.round_trip[OF _ assms(3,4)]
  by (auto simp: mb_defs)

theorem mac_round_trip_witness:
  "\<exists>us. mac_greek_pull [0x41, 0xB0] 10 = \<lparr>err = None, input = [], wrote = concat (map SSVAL us), room = 6, moved = 4\<rparr> \<and>
    length us = 2 \<and> mac_greek_push (concat (map SSVAL us)) 5 = \<lparr>err = None, input = [], wrote = [0x41, 0xB0], room = 3, moved = 0\<rparr>"
proof -
  have l: "length [0x41, 0xB0 :: byte] = 2" "2 * (2 :: nat) = 4" "10 - 4 = (6 :: nat)" "5 - 2 = (3 :: nat)" by simp_all
  show ?thesis by (rule mac_round_trip[of mac_greek_pull mac_greek_push "{0xFF}" "[0x41, 0xB0]" 10 5, unfolded l]) simp_all
qed

subsection \<open>Escapes into a single-byte charset\<close>

lemma mb_push_stops:
  assumes "\<forall>v \<in> set us. g v \<noteq> None" "g u = None" "length us < n"
  shows "mb_push_loop g (unit_bytes us @ SSVAL u) n out = (Some EILSEQ, SSVAL u, out @ map (\<lambda>v. the (g v)) us, n - length us)"
  using assms
proof (induction us arbitrary: n out)
  case (Cons v us)
  then obtain c where "g v = Some c" by auto
  moreover have "mb_push_loop g (SSVAL v @ r) n out = mb_push_loop g r (n - 1) (out @ [c])" for r
    using calculation Cons.prems by (simp add: SSVAL_def SVAL_SSVAL)
  ultimately show ?case using Cons.IH[of "n - 1" "out @ [c]"] Cons.prems by simp
qed (simp add: SSVAL_def SVAL_SSVAL)

text \<open>The control bytes 1, 2 and 3 of Mac Hebrew decode to the sequences that the table marks by these values.\<close>

lemma hebrew_control_bytes:
  "wrote (mac_hebrew_pull [1] 10) = unit_bytes [0x05F2, 0x05B7]" "wrote (mac_hebrew_push (wrote (mac_hebrew_pull [1] 10)) 10) = [0x81]"
  "wrote (mac_hebrew_pull [2] 10) = unit_bytes [0xF86A, 0x05DC, 0x05B9]" "wrote (mac_hebrew_pull [3] 10) = unit_bytes [0x05B8, 0xF87F]"
  by code_simp+

text \<open>
  C37: Where the target is a single-byte Mac charset, the conversion leaves the output position where it
  was, and the \<open>:xx\<close> escapes of a character that the charset lacks are written over the characters
  before it: the result begins with the escapes and its length counts both.
\<close>

theorem push_escapes_overwrite:
  assumes "conv_handles st CH_UCS2 to_set = Some d" "direct d = Some (mb_generic_push g)" "conv_handles st CH_UCS2 cap = Some c"
    and "\<forall>v \<in> set us. g v \<noteq> None" "g u = None" "env (mallocs st)"
    and "escape_loop c (SSVAL u) 1 ((destlen - length us) div 3 + 1) = Some (Inr ([], bs))"
    and "length us + 3 * length bs \<le> destlen" "bs \<noteq> []" "destlen \<le> length dest"
  shows "\<exists>dest' st'. push_charset_flags env st to_set cap (unit_bytes us @ SSVAL u) dest destlen CONV_ESCAPEHEX =
      Some (Inr (length us + 3 * length bs), dest', CONV_ESCAPEHEX OR CONV_REQESCAPE, st') \<and>
    take (3 * length bs) dest' = concat (map hex_escape bs)"
proof -
  let ?inp = "unit_bytes us @ SSVAL u" and ?w = "map (\<lambda>v. the (g v)) us"
  have inp: "?inp \<noteq> []" "2 \<le> length ?inp" by (simp_all add: SSVAL_def)
  have "length us < destlen" using assms(8,9) by (cases bs) simp_all
  then have call: "atalk_iconv d ?inp destlen = Some \<lparr>err = Some EILSEQ, input = SSVAL u, wrote = ?w, room = destlen - length us, moved = 0\<rparr>"
    using mb_push_stops[OF assms(4,5), of destlen "[]"] assms(2) by (simp add: atalk_iconv_def mb_generic_push_def call_of_def)
  define dst where "dst = store (store dest 0 ?w) 0 (concat (map hex_escape bs))"
  have flags: "\<not> has CONV_ESCAPEHEX CONV_IGNORE" "has CONV_ESCAPEHEX CONV_ESCAPEHEX" by (simp_all add: conv_flag_defs)
  obtain st1 where a: "alloc env st = (True, st1)" using assms(6) by (simp add: alloc_def)
  have fits: "\<not> destlen - length us < 3 * length bs" using assms(8) by simp
  note body = push_loop.simps[of env st d "Some c" CONV_ESCAPEHEX destlen ?inp dest 0 destlen CONV_ESCAPEHEX, unfolded Let_def call bind.bind_lunit]
  have "push_loop env st d (Some c) CONV_ESCAPEHEX destlen ?inp dest 0 destlen CONV_ESCAPEHEX =
      push_loop env st1 d (Some c) CONV_ESCAPEHEX destlen [] dst (3 * length bs) (destlen - length us - 3 * length bs) (CONV_ESCAPEHEX OR CONV_REQESCAPE)"
    unfolding body using inp(1) a flags assms(7) fits by (simp add: dst_def del: append_is_Nil_conv concat_eq_Nil_conv)
  also have "\<dots> = Some (Inr (length us + 3 * length bs), dst, CONV_ESCAPEHEX OR CONV_REQESCAPE, st1)"
    using assms(8) by (subst push_loop.simps) (simp add: push_end_def)
  finally show ?thesis using assms(1,3,8,10) inp(2) by (simp add: push_charset_flags_def dst_def store_def)
qed

text \<open>The volume charset Mac Roman with escapes in UTF-8, for the name \<open>ab\<close> and an ideograph.\<close>

definition roman_volume :: conv_state where
  "roman_volume = set_handle (set_handle configured CH_UCS2 CH_MAC (Some \<lparr>direct = Some mac_roman_push, d_pull = None, d_push = None\<rparr>))
     CH_UCS2 CH_UTF8 (Some \<lparr>direct = Some utf8_push_call, d_pull = None, d_push = None\<rparr>)"

lemma ideograph_bytes:
  "escape_loop \<lparr>direct = Some utf8_push_call, d_pull = None, d_push = None\<rparr> (SSVAL 0x4E00) 1 4 = Some (Inr ([], [0xE4, 0xB8, 0x80]))"
  by code_simp

theorem push_escapes_overwrite_witness:
  "\<exists>dest' st'. push_charset_flags (\<lambda>_. True) roman_volume CH_MAC CH_UTF8 (unit_bytes [0x61, 0x62] @ SSVAL 0x4E00) (replicate 11 0) 11 CONV_ESCAPEHEX =
      Some (Inr 11, dest', CONV_ESCAPEHEX OR CONV_REQESCAPE, st') \<and> take 9 dest' = [0x3A, 0x65, 0x34, 0x3A, 0x62, 0x38, 0x3A, 0x38, 0x30]"
proof -
  have e: "concat (map hex_escape [0xE4, 0xB8, 0x80]) = [0x3A, 0x65, 0x34, 0x3A, 0x62, 0x38, 0x3A, 0x38, 0x30]" by code_simp
  have "\<forall>v \<in> set [0x61, 0x62]. char_ucs2_to_mac_roman v \<noteq> None" "char_ucs2_to_mac_roman 0x4E00 = None"
    by (simp_all add: char_ucs2_to_mac_roman_def)
  from push_escapes_overwrite[OF _ _ _ this, of roman_volume CH_MAC _ CH_UTF8 _ "\<lambda>_. True" 11 "[0xE4, 0xB8, 0x80]" "replicate 11 0", unfolded e] ideograph_bytes
  show ?thesis by (simp add: roman_volume_def mac_roman_push_def)
qed

end
