(* ===== verification/Mangle.thy ===== *)
theory Mangle
  imports Charcnv Dir_Entry
begin

text \<open>
  Names between the client and the disk: \<open>etc/afpd/mangle.c\<close> and the two path functions of
  \<open>etc/afpd/desktop.c\<close>.

  A C string is its bytes without the terminator; \<open>cstr\<close> reads one from a buffer. The static buffers and
  the array of an extension are fields of the state with what they hold from before. Identifiers
  are in network order, as in the source. Which object an identifier names, with the directory that holds it, is an argument:
  the directory cache and the CNID database answer that.
\<close>

definition MANGLE_CHAR :: byte where "MANGLE_CHAR = 0x23"
definition MAX_EXT_LENGTH :: nat where "MAX_EXT_LENGTH = 5"
definition MANGLE_LENGTH :: nat where "MANGLE_LENGTH = 9"
definition MACFILELEN :: nat where "MACFILELEN = 31"
definition UTF8FILELEN_EARLY :: nat where "UTF8FILELEN_EARLY = 255"

lemmas mangle_size_defs = MAX_EXT_LENGTH_def MANGLE_LENGTH_def MACFILELEN_def UTF8FILELEN_EARLY_def

record volume =
  v_volcharset :: nat
  v_maccharset :: nat
  v_mtou_flags :: "16 word"
  v_utom_flags :: "16 word"
  max_filename :: nat
  v_utf8 :: bool

record name_state =
  conv :: conv_state
  mpath :: "bool \<Rightarrow> bytes"
  mfilename :: "bool \<Rightarrow> bytes"
  upath :: bytes
  dbuffer :: bytes
  ext_array :: bytes

definition cstr :: "bytes \<Rightarrow> bytes" where "cstr bs = takeWhile (\<lambda>b. b \<noteq> 0) bs"

abbreviation question_marks :: bytes where "question_marks \<equiv> [0x3F, 0x3F, 0x3F]"

definition strlcat :: "bytes \<Rightarrow> bytes \<Rightarrow> nat \<Rightarrow> bytes" where
  "strlcat d s bufsize = (if length d \<ge> bufsize then d else d @ take (bufsize - (length d + 1)) s)"

fun strrchr :: "byte \<Rightarrow> bytes \<Rightarrow> nat option" where
  "strrchr c [] = None"
| "strrchr c (b # s) = (case strrchr c s of Some k \<Rightarrow> Some (Suc k) | None \<Rightarrow> if b = c then Some 0 else None)"

subsection \<open>Mangling\<close>

definition mangle_extension :: "(nat \<Rightarrow> bool) \<Rightarrow> name_state \<Rightarrow> volume \<Rightarrow> bytes \<Rightarrow> nat \<Rightarrow> (nat \<times> name_state) option" where
  "mangle_extension env s vol uname charset =
     (case strrchr 0x2E uname of
        None \<Rightarrow> Some (0, s)
      | Some p \<Rightarrow>
          if p = 0 then Some (0, s)
          else
            do {
              (r, ext, _, st) \<leftarrow> convert_charset env (conv s) (v_volcharset vol) charset (v_maccharset vol) (drop p uname) (Some (length (drop p uname)))
                (ext_array s) (CONV_FORCE OR CONV_UNESCAPEHEX);
              let s = s\<lparr>conv := st, ext_array := ext\<rparr>;
              Some (case r of Inr len \<Rightarrow> len | Inl _ \<Rightarrow> 0, s)
            })"

text \<open>The digits that the format \<open>%X\<close> writes.\<close>

definition hex_digit :: "nat \<Rightarrow> byte" where "hex_digit n = (if n < 10 then of_nat (48 + n) else of_nat (55 + n))"

fun hex_upper :: "nat \<Rightarrow> bytes" where
  "hex_upper n = (if n < 16 then [hex_digit n] else hex_upper (n div 16) @ [hex_digit (n mod 16)])"

declare hex_upper.simps [simp del]

definition mangle_suffix :: "cnid_t \<Rightarrow> bytes" where "mangle_suffix cnid = MANGLE_CHAR # hex_upper (unat (ntohl cnid))"

text \<open>The name before its suffix, in the buffer of its encoding.\<close>

definition mangle_prefix :: "(nat \<Rightarrow> bool) \<Rightarrow> name_state \<Rightarrow> volume \<Rightarrow> bytes \<Rightarrow> nat \<Rightarrow> bytes \<Rightarrow> bool \<Rightarrow> nat \<Rightarrow> nat \<Rightarrow> nat \<Rightarrow> (bytes \<times> name_state) option" where
  "mangle_prefix env s vol filename filenamelen uname utf8 maxlen k ext_len =
     (let m = mfilename s utf8 in
      if filenamelen + k + ext_len > maxlen then
        (let prefix_len = maxlen - k - ext_len; size = prefix_len + 2 in
         do {
           (r, dest, _, st) \<leftarrow> convert_charset env (conv s) (v_volcharset vol) (if utf8 then CH_UTF8_MAC else v_maccharset vol) (v_maccharset vol)
             uname (Some (length uname)) (take size m) (CONV_FORCE OR CONV_UNESCAPEHEX);
           let m = store (dest @ drop size m) (case r of Inr n \<Rightarrow> n | Inl _ \<Rightarrow> 0) [0];
           Some (m, s\<lparr>conv := st, mfilename := (mfilename s)(utf8 := m)\<rparr>)
         })
      else
        (let m = store m 0 (take filenamelen (cstr filename) @ [0]) in Some (m, s\<lparr>mfilename := (mfilename s)(utf8 := m)\<rparr>)))"

definition mangle :: "(nat \<Rightarrow> bool) \<Rightarrow> name_state \<Rightarrow> volume \<Rightarrow> bytes \<Rightarrow> nat \<Rightarrow> bytes \<Rightarrow> cnid_t \<Rightarrow> 16 word \<Rightarrow> (bytes option \<times> name_state) option" where
  "mangle env s vol filename filenamelen uname cnid flags =
     (let utf8 = flags AND 2 \<noteq> 0; maxlen = (if utf8 then UTF8FILELEN_EARLY else MACFILELEN) in
      if flags AND 1 = 0 \<and> filenamelen \<le> maxlen then Some (Some (cstr filename), s)
      else if cnid = 0 then Some (None, s)
      else
        do {
          (ext_len, s) \<leftarrow> mangle_extension env s vol uname (if utf8 then CH_UTF8_MAC else v_maccharset vol);
          (m, s) \<leftarrow> mangle_prefix env s vol filename filenamelen uname utf8 maxlen (length (mangle_suffix cnid)) ext_len;
          let name = (if cstr m = [] then question_marks else cstr m);
          let name = strlcat name (mangle_suffix cnid) MAXPATHLEN;
          let name = name @ cstr (take ext_len (ext_array s));
          Some (Some name, s\<lparr>mfilename := (mfilename s)(utf8 := store m 0 (name @ [0]))\<rparr>)
        })"

subsection \<open>The name that a client sees\<close>

definition utompath :: "(nat \<Rightarrow> bool) \<Rightarrow> name_state \<Rightarrow> volume \<Rightarrow> bytes \<Rightarrow> cnid_t \<Rightarrow> bool \<Rightarrow> (bytes option \<times> name_state) option" where
  "utompath env s vol u cnid utf8 =
     do {
       (r, m, flags, st) \<leftarrow> convert_charset env (conv s) (v_volcharset vol) (if utf8 then CH_UTF8_MAC else v_maccharset vol) (v_maccharset vol)
         u (Some (length u)) (mpath s utf8) (v_utom_flags vol);
       let s = s\<lparr>conv := st, mpath := (mpath s)(utf8 := m)\<rparr>;
       case r of
         Inl _ \<Rightarrow> mangle env s vol question_marks 3 u cnid (if utf8 then 3 else 1)
       | Inr outlen \<Rightarrow> mangle env s vol m outlen u cnid ((if has flags CONV_REQMANGLE then 1 else 0) OR (if utf8 then 2 else 0))
     }"

subsection \<open>Demangling\<close>

text \<open>Whether two strings agree in their first \<open>n\<close> bytes.\<close>

definition strneq :: "bytes \<Rightarrow> bytes \<Rightarrow> nat \<Rightarrow> bool" where "strneq a b n \<longleftrightarrow> take n (cstr a) = take n (cstr b)"

definition convert_into :: "(nat \<Rightarrow> bool) \<Rightarrow> name_state \<Rightarrow> nat \<Rightarrow> nat \<Rightarrow> bytes \<Rightarrow> 16 word \<Rightarrow> ((conv_error option + nat) \<times> 16 word \<times> name_state) option" where
  "convert_into env s from_set to_set src fl =
     do {
       (r, b, fl, st) \<leftarrow> convert_charset env (conv s) from_set to_set CH_UCS2 src (Some (length src)) (dbuffer s) fl;
       Some (r, fl, s\<lparr>conv := st, dbuffer := b\<rparr>)
     }"

text \<open>The tests for a name that needed mangling, and the last of them.\<close>

definition whole_prefix :: "(nat \<Rightarrow> bool) \<Rightarrow> name_state \<Rightarrow> volume \<Rightarrow> bytes \<Rightarrow> bytes \<Rightarrow> nat \<Rightarrow> 16 word \<Rightarrow> (bool \<times> name_state) option" where
  "whole_prefix env s vol uname mfile prefix flags =
     (if prefix > 0 then
        do {
          (r, flags, s) \<leftarrow> convert_into env s (v_volcharset vol) CH_UTF8_MAC uname flags;
          Some (case r of Inl _ \<Rightarrow> False | Inr _ \<Rightarrow> strneq mfile (dbuffer s) prefix, s)
        }
      else Some (False, s))"

definition mangled_checks :: "(nat \<Rightarrow> bool) \<Rightarrow> name_state \<Rightarrow> volume \<Rightarrow> bytes \<Rightarrow> bytes \<Rightarrow> nat \<Rightarrow> nat \<Rightarrow> 16 word \<Rightarrow> (bool \<times> name_state) option" where
  "mangled_checks env s vol uname mfile prefix len flags =
     (if len \<noteq> 0 then
        (if len > length (dbuffer s) then None
         else
           do {
             (r, flags, s) \<leftarrow> convert_into env s (v_maccharset vol) CH_UTF8_MAC (take len (dbuffer s)) flags;
             case r of
               Inl _ \<Rightarrow> Some (False, s)
             | Inr len \<Rightarrow>
                 if prefix < len \<and> length mfile \<noteq> MACFILELEN \<or> \<not> strneq mfile (dbuffer s) len then Some (False, s)
                 else if prefix \<le> len then Some (True, s)
                 else whole_prefix env s vol uname mfile prefix flags
           })
      else if prefix = 3 \<and> strneq mfile question_marks 3 then Some (True, s)
      else whole_prefix env s vol uname mfile prefix flags)"

definition demangle_checks :: "(nat \<Rightarrow> bool) \<Rightarrow> name_state \<Rightarrow> volume \<Rightarrow> bytes \<Rightarrow> bytes \<Rightarrow> nat \<Rightarrow> bytes \<Rightarrow> (bool \<times> name_state) option" where
  "demangle_checks env s vol uname mfile prefix ext =
     do {
       (ext_len, s) \<leftarrow> mangle_extension env s vol uname CH_UTF8_MAC;
       if (if ext_len \<noteq> 0 then ext \<noteq> cstr (take ext_len (ext_array s)) else ext \<noteq> []) then Some (False, s)
       else
         do {
           (r, flags, s) \<leftarrow> convert_into env s (v_volcharset vol) (v_maccharset vol) uname (CONV_IGNORE OR CONV_UNESCAPEHEX);
           case r of
             Inl _ \<Rightarrow> Some (False, s)
           | Inr len \<Rightarrow>
               (let long = len \<ge> max_filename vol \<or> length mfile = MACFILELEN;
                    flags = (if long then flags OR CONV_REQMANGLE else flags); len = (if long then prefix else len) in
                if has flags CONV_REQMANGLE then mangled_checks env s vol uname mfile prefix len flags else Some (False, s))
         }
     }"

definition isuxdigit :: "byte \<Rightarrow> bool" where "isuxdigit c \<longleftrightarrow> 0x30 \<le> c \<and> c \<le> 0x39 \<or> 0x41 \<le> c \<and> c \<le> 0x46"

definition hextoint :: "byte \<Rightarrow> 32 word" where "hextoint c = (if 0x30 \<le> c \<and> c \<le> 0x39 then ucast c - 0x30 else ucast c + 10 - 0x41)"

text \<open>The digits from \<open>t\<close> on, of which at most \<open>n\<close> are read.\<close>

fun read_id :: "nat \<Rightarrow> bytes \<Rightarrow> 32 word \<Rightarrow> 32 word \<times> bytes" where
  "read_id (Suc n) (c # t) acc = (if isuxdigit c then read_id n t (acc * 16 + hextoint c) else (acc, c # t))"
| "read_id n t acc = (acc, t)"

definition mangled_id :: "bytes \<Rightarrow> (32 word \<times> bytes) option" where
  "mangled_id t =
     (if take 1 t = [0x30] then None
      else
        (case read_id (MANGLE_LENGTH - 1) t 0 of
           (n, ext) \<Rightarrow> if (ext \<noteq> [] \<and> hd ext \<noteq> 0x2E) \<or> length ext > MAX_EXT_LENGTH \<or> n < CNID_START then None else Some (n, ext)))"

text \<open>
  The search from position \<open>i\<close> of the name down to \<open>first\<close>. \<open>obj\<close> gives the directory and the name of the object
  that an identifier names; the result is the name on disk and the identifier, or \<open>None\<close> for the name itself.
\<close>

fun demangle_loop :: "(nat \<Rightarrow> bool) \<Rightarrow> (cnid_t \<Rightarrow> (cnid_t \<times> bytes) option) \<Rightarrow> name_state \<Rightarrow> volume \<Rightarrow> bytes \<Rightarrow> cnid_t \<Rightarrow> bool \<Rightarrow> nat \<Rightarrow> nat \<Rightarrow>
    ((bytes \<times> cnid_t) option \<times> name_state) option" where
  "demangle_loop env obj s vol mfile did osx first 0 = Some (None, s)"
| "demangle_loop env obj s vol mfile did osx first (Suc i) =
     (if i < first then Some (None, s)
      else if mfile ! i \<noteq> MANGLE_CHAR then demangle_loop env obj s vol mfile did osx first i
      else
        (case mangled_id (drop (Suc i) mfile) of
           None \<Rightarrow> demangle_loop env obj s vol mfile did osx first i
         | Some (n, ext) \<Rightarrow>
             (case obj (htonl n) of
                None \<Rightarrow> demangle_loop env obj s vol mfile did osx first i
              | Some (pdid, u) \<Rightarrow>
                  if pdid \<noteq> did then demangle_loop env obj s vol mfile did osx first i
                  else
                    do {
                      (m, s) \<leftarrow> utompath env s vol u (htonl n) (v_utf8 vol);
                      m \<leftarrow> m;
                      if m = mfile then Some (Some (u, htonl n), s)
                      else if osx then
                        do {
                          (ok, s) \<leftarrow> demangle_checks env s vol u mfile i ext;
                          if ok then Some (Some (u, htonl n), s) else demangle_loop env obj s vol mfile did osx first i
                        }
                      else demangle_loop env obj s vol mfile did osx first i
                    })))"

definition private_demangle :: "(nat \<Rightarrow> bool) \<Rightarrow> (cnid_t \<Rightarrow> (cnid_t \<times> bytes) option) \<Rightarrow> name_state \<Rightarrow> volume \<Rightarrow> bytes \<Rightarrow> cnid_t \<Rightarrow> bool \<Rightarrow>
    ((bytes \<times> cnid_t) option \<times> name_state) option" where
  "private_demangle env obj s vol mfile did osx =
     demangle_loop env obj s vol mfile did osx (length mfile - min (length mfile) (MANGLE_LENGTH + MAX_EXT_LENGTH)) (length mfile)"

definition demangle :: "(nat \<Rightarrow> bool) \<Rightarrow> (cnid_t \<Rightarrow> (cnid_t \<times> bytes) option) \<Rightarrow> name_state \<Rightarrow> volume \<Rightarrow> bytes \<Rightarrow> cnid_t \<Rightarrow> (bytes option \<times> name_state) option" where
  "demangle env obj s vol mfile did = map_option (map_prod (map_option fst) id) (private_demangle env obj s vol mfile did False)"

definition demangle_osx :: "(nat \<Rightarrow> bool) \<Rightarrow> (cnid_t \<Rightarrow> (cnid_t \<times> bytes) option) \<Rightarrow> name_state \<Rightarrow> volume \<Rightarrow> bytes \<Rightarrow> cnid_t \<Rightarrow>
    ((bytes \<times> cnid_t) option \<times> name_state) option" where
  "demangle_osx env obj s vol mfile did = private_demangle env obj s vol mfile did True"

subsection \<open>The name on disk\<close>

definition mtoupath :: "(nat \<Rightarrow> bool) \<Rightarrow> (cnid_t \<Rightarrow> (cnid_t \<times> bytes) option) \<Rightarrow> name_state \<Rightarrow> volume \<Rightarrow> bytes \<Rightarrow> cnid_t \<Rightarrow> bool \<Rightarrow>
    (bytes option \<times> name_state) option" where
  "mtoupath env obj s vol mfile did utf8 =
     (if mfile = [] then Some (Some [0x2E], s\<lparr>upath := store (upath s) 0 [0x2E, 0]\<rparr>)
      else
        do {
          (d, s) \<leftarrow> (if did \<noteq> CNID_INVALID then demangle env obj s vol mfile did else Some (None, s));
          case d of
            Some u \<Rightarrow> Some (Some u, s)
          | None \<Rightarrow>
              do {
                (r, u, _, st) \<leftarrow> convert_charset env (conv s) (if utf8 then CH_UTF8_MAC else v_maccharset vol) (v_volcharset vol) (v_maccharset vol)
                  mfile (Some (length mfile)) (upath s) (v_mtou_flags vol);
                Some (case r of Inl _ \<Rightarrow> None | Inr _ \<Rightarrow> Some (cstr u), s\<lparr>conv := st, upath := u\<rparr>)
              }
        })"

end
