(* ===== verification/Mangle_Claims.thy ===== *)
theory Mangle_Claims
  imports Mangle Charcnv_Tables
begin

text \<open>
  Properties of mangled names and of the path functions: a mangled name fits the client, it resolves to
  the object it was made for, and ordinary names survive the way to the disk and back.
\<close>

subsection \<open>Buffers and volumes\<close>

definition names_ok :: "name_state \<Rightarrow> bool" where
  "names_ok s \<longleftrightarrow> charset_tables (conv s) \<and> initialized (conv s) \<and> (\<forall>b. length (mpath s b) = MAXPATHLEN + 2 \<and> length (mfilename s b) = MAXPATHLEN + 2) \<and>
     length (upath s) = MAXPATHLEN + 2 \<and> length (dbuffer s) = MAXPATHLEN + 2 \<and> length (ext_array s) = MAX_EXT_LENGTH + 2"

definition vol_ok :: "conv_state \<Rightarrow> volume \<Rightarrow> bool" where
  "vol_ok st vol \<longleftrightarrow> v_volcharset vol \<le> max_charset_t st \<and> v_maccharset vol \<noteq> CH_UCS2 \<and> conv_handles st CH_UCS2 (v_maccharset vol) \<noteq> None"

lemma vol_ok_cong: "tables st' = tables st \<Longrightarrow> vol_ok st' vol = vol_ok st vol"
  using tables_cong[of st' st] by (simp add: vol_ok_def)

lemma convert_name_ok:
  assumes "names_ok s" "vol_ok (conv s) vol"
  obtains r dest' fl' st' where "convert_charset env (conv s) (v_volcharset vol) to_set (v_maccharset vol) src (Some (length src)) dest fl = Some (r, dest', fl', st')"
    "length dest' = length dest" "tables st' = tables (conv s)" "\<And>k. r = Inr k \<Longrightarrow> k + 2 \<le> length dest"
  using convert_charset_ok[of "conv s" "v_volcharset vol" "v_maccharset vol" "length src" src env to_set dest fl] assms that
  by (auto simp: names_ok_def vol_ok_def)

lemma names_ok_conv: "tables st' = tables (conv s) \<Longrightarrow> names_ok s \<Longrightarrow> names_ok (s\<lparr>conv := st'\<rparr>)"
  using charset_tables_cong[of st' "conv s"] tables_cong[of st' "conv s"] by (simp add: names_ok_def)

text \<open>A session on a UTF-8 volume once the charsets are set up, and the buffers as they are at the start.\<close>

definition started :: "conv_state \<Rightarrow> name_state" where
  "started st = \<lparr>conv = st, mpath = (\<lambda>_. replicate (MAXPATHLEN + 2) 0), mfilename = (\<lambda>_. replicate (MAXPATHLEN + 2) 0), upath = replicate (MAXPATHLEN + 2) 0,
     dbuffer = replicate (MAXPATHLEN + 2) 0, ext_array = replicate (MAX_EXT_LENGTH + 2) 0\<rparr>"

definition utf8_vol :: volume where
  "utf8_vol = \<lparr>v_volcharset = CH_UTF8, v_maccharset = CH_MAC, v_mtou_flags = 0, v_utom_flags = CONV_IGNORE, max_filename = 255, v_utf8 = True\<rparr>"

lemma started_ok: "names_ok (started ready)" "vol_ok (conv (started ready)) utf8_vol"
proof -
  show "names_ok (started ready)" using ready_tables by (simp add: names_ok_def started_def)
  have "\<not> strcaseeq ''MAC_ROMAN'' ''UCS-2''" by (simp add: strcaseeq_def to_lower_def)
  then have "conv_handles ready CH_UCS2 CH_MAC \<noteq> None"
    using init_iconv_opens(2)[OF ready_tables(1), of CH_MAC "''MAC_ROMAN''"] open_builtin[OF find_builtin(4)] by (auto simp: configured_names)
  then show "vol_ok (conv (started ready)) utf8_vol" using ready_tables(4) by (simp add: vol_ok_def started_def utf8_vol_def)
qed

subsection \<open>Extensions and prefixes\<close>

lemma extension_ok:
  assumes "names_ok s" "vol_ok (conv s) vol"
  obtains len s' where "mangle_extension env s vol uname cs = Some (len, s')" "len \<le> MAX_EXT_LENGTH" "names_ok s'" "tables (conv s') = tables (conv s)"
proof (cases "strrchr 0x2E uname = None \<or> strrchr 0x2E uname = Some 0")
  case True
  then show ?thesis using that[of 0 s] assms(1) by (auto simp: mangle_extension_def)
next
  case False
  then obtain p where p: "strrchr 0x2E uname = Some p" "p \<noteq> 0" by auto
  obtain r e fl st where c: "convert_charset env (conv s) (v_volcharset vol) cs (v_maccharset vol) (drop p uname) (Some (length (drop p uname))) (ext_array s)
      (CONV_FORCE OR CONV_UNESCAPEHEX) = Some (r, e, fl, st)" "length e = length (ext_array s)" "tables st = tables (conv s)"
      "\<And>k. r = Inr k \<Longrightarrow> k + 2 \<le> length (ext_array s)" using convert_name_ok[OF assms] by metis
  have "names_ok (s\<lparr>conv := st, ext_array := e\<rparr>)" using names_ok_conv[OF c(3) assms(1)] c(2) by (simp add: names_ok_def)
  moreover have "(case r of Inr len \<Rightarrow> len | Inl _ \<Rightarrow> 0) \<le> MAX_EXT_LENGTH" using c(4) assms(1) by (cases r) (auto simp: names_ok_def)
  ultimately show ?thesis using that p c(1,3) by (simp add: mangle_extension_def)
qed

lemma cstr_cut: "n < length b \<Longrightarrow> length (cstr (store b n [0])) \<le> n"
  using length_takeWhile_le[of "\<lambda>b. b \<noteq> 0" "take n b"] by (auto simp: cstr_def store_def takeWhile_append)

lemma cstr_string: "0 \<notin> set a \<Longrightarrow> cstr (a @ 0 # r) = a"
  by (induction a) (auto simp: cstr_def)

lemma cstr_free: "0 \<notin> set (cstr a)"
  by (auto simp: cstr_def dest: set_takeWhileD)

lemma prefix_ok:
  assumes "names_ok s" "vol_ok (conv s) vol" "k + e \<le> maxlen" "maxlen \<le> 255"
  obtains m s' where "mangle_prefix env s vol f n u utf8 maxlen k e = Some (m, s')" "length m = MAXPATHLEN + 2" "length (cstr m) \<le> maxlen - k - e"
    "names_ok s'" "tables (conv s') = tables (conv s)" "ext_array s' = ext_array s"
proof (cases "n + k + e > maxlen")
  case True
  let ?size = "maxlen - k - e + 2" and ?m = "mfilename s utf8"
  have m: "length ?m = MAXPATHLEN + 2" using assms(1) by (simp add: names_ok_def)
  have size: "?size \<le> length ?m" using m assms(4) by (simp add: MAXPATHLEN_def)
  obtain r d fl st where c: "convert_charset env (conv s) (v_volcharset vol) (if utf8 then CH_UTF8_MAC else v_maccharset vol) (v_maccharset vol) u (Some (length u))
      (take ?size ?m) (CONV_FORCE OR CONV_UNESCAPEHEX) = Some (r, d, fl, st)" "length d = length (take ?size ?m)" "tables st = tables (conv s)"
      "\<And>k. r = Inr k \<Longrightarrow> k + 2 \<le> length (take ?size ?m)" using convert_name_ok[OF assms(1,2)] by metis
  define k' where "k' = (case r of Inr n \<Rightarrow> n | Inl _ \<Rightarrow> 0)"
  have k': "k' \<le> maxlen - k - e" using c(4) size unfolding k'_def by (cases r) auto
  define b where "b = store (d @ drop ?size ?m) k' [0]"
  have l: "length (d @ drop ?size ?m) = MAXPATHLEN + 2" using c(2) size m by simp
  have b: "length b = MAXPATHLEN + 2" "length (cstr b) \<le> maxlen - k - e"
    using cstr_cut[of k' "d @ drop ?size ?m"] k' l size m unfolding b_def by simp_all
  have "mangle_prefix env s vol f n u utf8 maxlen k e = Some (b, s\<lparr>conv := st, mfilename := (mfilename s)(utf8 := b)\<rparr>)"
    using True c(1) by (simp add: mangle_prefix_def Let_def b_def k'_def)
  moreover have "names_ok (s\<lparr>conv := st, mfilename := (mfilename s)(utf8 := b)\<rparr>)" using names_ok_conv[OF c(3) assms(1)] b(1) by (simp add: names_ok_def)
  ultimately show ?thesis using that b c(3) by simp
next
  case False
  define b where "b = store (mfilename s utf8) 0 (take n (cstr f) @ [0])"
  have m: "length (mfilename s utf8) = MAXPATHLEN + 2" using assms(1) by (simp add: names_ok_def)
  have "length b = MAXPATHLEN + 2" using False assms(4) m unfolding b_def by (simp add: MAXPATHLEN_def)
  moreover have "cstr b = take n (cstr f)" using cstr_string[of "take n (cstr f)"] cstr_free[of f] in_set_takeD[of 0 n "cstr f"] by (auto simp: b_def store_def)
  ultimately show ?thesis using that[of b "s\<lparr>mfilename := (mfilename s)(utf8 := b)\<rparr>"] False assms(1) by (simp add: mangle_prefix_def Let_def b_def names_ok_def)
qed

subsection \<open>Identifiers\<close>

lemma hex_digit_read: "n < 16 \<Longrightarrow> isuxdigit (hex_digit n) \<and> hextoint (hex_digit n) = of_nat n \<and> (hex_digit n = 0x30 \<longleftrightarrow> n = 0)"
proof -
  assume "n < 16"
  then have "n \<in> {0, 1, 2, 3, 4, 5, 6, 7, 8, 9, 10, 11, 12, 13, 14, 15}" by (simp; presburger)
  then show ?thesis by (auto simp: hex_digit_def isuxdigit_def hextoint_def)
qed

lemma hex_upper_length: "n < 16 ^ k \<Longrightarrow> 0 < k \<Longrightarrow> length (hex_upper n) \<le> k"
proof (induction n arbitrary: k rule: hex_upper.induct)
  case (1 n)
  show ?case
  proof (cases "n < 16")
    case False
    then have "k \<noteq> 1" using 1(2) by (metis power_one_right)
    then obtain j where j: "k = Suc j" "0 < j" using 1(3) by (cases k) auto
    then have "length (hex_upper (n div 16)) \<le> j" using 1 False by (simp add: less_mult_imp_div_less mult.commute)
    then show ?thesis using False j by (simp add: hex_upper.simps[of n])
  qed (use 1 in \<open>simp add: hex_upper.simps[of n]\<close>)
qed

lemma suffix_length: "length (mangle_suffix cnid) \<le> MANGLE_LENGTH"
  using hex_upper_length[of "unat (ntohl cnid)" 8] unsigned_less[of "ntohl cnid", where ?'a = nat] by (simp add: mangle_suffix_def MANGLE_LENGTH_def)

lemma hex_upper_digits: "hex_upper n \<noteq> [] \<and> (\<forall>c \<in> set (hex_upper n). isuxdigit c) \<and> (hd (hex_upper n) = 0x30 \<longleftrightarrow> n = 0)"
proof (induction n rule: hex_upper.induct)
  case (1 n)
  then show ?case using hex_digit_read[of n] hex_digit_read[of "n mod 16"] by (cases "n < 16") (auto simp: hex_upper.simps[of n] hd_append)
qed

lemma read_hex: "read_id (length (hex_upper n) + j) (hex_upper n @ t) acc = read_id j t (acc * 16 ^ length (hex_upper n) + of_nat n)"
proof (induction n arbitrary: j t rule: hex_upper.induct)
  case (1 n)
  show ?case
  proof (cases "n < 16")
    case True
    then show ?thesis using hex_digit_read[of n] by (simp add: hex_upper.simps[of n])
  next
    case False
    let ?h = "hex_upper (n div 16)" and ?d = "hex_digit (n mod 16)"
    have d: "isuxdigit ?d" "hextoint ?d = of_nat (n mod 16)" using hex_digit_read[of "n mod 16"] by auto
    have h: "hex_upper n @ t = ?h @ ?d # t" "length (hex_upper n) + j = length ?h + Suc j" "length (hex_upper n) = Suc (length ?h)"
      using False by (simp_all add: hex_upper.simps[of n])
    have "of_nat (n div 16 * 16 + n mod 16) = (of_nat n :: 32 word)" by (simp only: div_mult_mod_eq)
    then have n: "of_nat (n div 16) * 16 + of_nat (n mod 16) = (of_nat n :: 32 word)" by (simp only: of_nat_add of_nat_mult of_nat_numeral)
    have "read_id (length ?h + Suc j) (?h @ ?d # t) acc = read_id (Suc j) (?d # t) (acc * 16 ^ length ?h + of_nat (n div 16))" using 1[OF False] .
    also have "\<dots> = read_id j t ((acc * 16 ^ length ?h + of_nat (n div 16)) * 16 + of_nat (n mod 16))" using d by simp
    also have "\<dots> = read_id j t (acc * 16 ^ Suc (length ?h) + of_nat n)" by (simp only: n distrib_right power_Suc2 mult.assoc add.assoc)
    finally show ?thesis unfolding h(1,3) by simp
  qed
qed

text \<open>An extension as a mangled name carries it.\<close>

definition extension :: "bytes \<Rightarrow> bool" where
  "extension ext \<longleftrightarrow> (ext = [] \<or> hd ext = 0x2E) \<and> length ext \<le> MAX_EXT_LENGTH \<and> MANGLE_CHAR \<notin> set ext"

lemma mangled_id_suffix:
  assumes "CNID_START \<le> n" "extension ext"
  shows "mangled_id (hex_upper (unat n) @ ext) = Some (n, ext)"
proof -
  let ?h = "hex_upper (unat n)"
  have "n \<noteq> 0" using assms(1) by (auto simp: CNID_START_def)
  then have z: "take 1 (?h @ ext) \<noteq> [0x30]" using hex_upper_digits[of "unat n"] by (cases ?h) (auto simp: unat_eq_zero)
  have "length ?h \<le> 8" using hex_upper_length[of "unat n" 8] unsigned_less[of n, where ?'a = nat] by simp
  then have "read_id 8 (?h @ ext) 0 = read_id (8 - length ?h) ext n" using read_hex[of "unat n" "8 - length ?h" ext 0] by simp
  also have "\<dots> = (n, ext)" using assms(2) by (cases ext; cases "8 - length ?h") (auto simp: extension_def isuxdigit_def)
  finally show ?thesis using z assms by (auto simp: mangled_id_def MANGLE_LENGTH_def extension_def not_less)
qed

subsection \<open>Mangled names\<close>



lemma demangle_skips:
  assumes "\<And>i. p < i \<Longrightarrow> i < Suc p + d \<Longrightarrow> mfile ! i \<noteq> MANGLE_CHAR" "first \<le> p"
  shows "demangle_loop env obj s vol mfile did osx first (Suc p + d) = demangle_loop env obj s vol mfile did osx first (Suc p)"
  using assms(1)
proof (induction d)
  case (Suc d)
  have "mfile ! (Suc p + d) \<noteq> MANGLE_CHAR" using Suc.prems by simp
  then have "demangle_loop env obj s vol mfile did osx first (Suc p + Suc d) = demangle_loop env obj s vol mfile did osx first (Suc p + d)"
    using assms(2) by simp
  then show ?case using Suc by simp
qed simp



subsection \<open>Names to the disk and back\<close>

lemma emit_maps:
  assumes "\<not> has opt CONV_ESCAPEDOTS" "\<not> has opt CONV_UNESCAPEHEX" "\<And>c. emit_units f t opt c = [g c]" "2 * length us \<le> left"
  shows "emit_loop f t cap opt N il start us out (length out) left fl = Some (Inr (N - (left - 2 * length us), out @ unit_bytes (map g us)), fl)"
  using assms(4)
proof (induction us arbitrary: out left start)
  case (Cons c us)
  have l: "\<not> left < 2 * length (emit_units f t opt c)" using Cons.prems assms(3) by simp
  have "emit_loop f t cap opt N il start (c # us) out (length out) left fl =
      emit_loop f t cap opt N il False us (out @ unit_bytes [g c]) (length out + 2) (left - 2) fl"
    unfolding emit_loop.simps[of f t cap opt N il start "c # us"] Let_def list.case store_end using assms(1,2,3) l by simp
  then show ?case using Cons.IH[where left = "left - 2" and out = "out @ unit_bytes [g c]" and start = False] Cons.prems by (simp add: length_units SSVAL_def)
qed (simp add: emit_loop.simps)

text \<open>A conversion between the two forms of UTF-8 that only maps the punctuation of an ASCII name.\<close>

lemma convert_maps:
  fixes us :: "ucs2 list"
  assumes "utf8_volume st" "from_set = CH_UTF8 \<or> from_set = CH_UTF8_MAC" "to_set = CH_UTF8 \<or> to_set = CH_UTF8_MAC"
    and "fl \<in> {0, CONV_IGNORE}" "\<And>c. emit_units from_set to_set fl c = [g c]" "ascii us" "ascii (map g us)" "us \<noteq> []" "length us < MAXPATHLEN"
    and "length us + 2 \<le> length dest"
  obtains st' where "tables st' = tables st" "convert_charset env st from_set to_set CH_MAC (map ucast us) (Some (length us)) dest fl =
    Some (Inr (length us), store (store dest 0 (map ucast (map g us))) (length us) [0, 0], fl, st')"
proof -
  let ?N = "2 * (MAXPATHLEN + 2) - 2"
  obtain d where d: "conv_handles st from_set CH_UCS2 = Some d" "direct d = Some utf8_pull_call" "charset_name st from_set \<noteq> None"
    using utf8_volume_handles[OF assms(1,2)] by blast
  obtain e where e: "conv_handles st CH_UCS2 to_set = Some e" "direct e = Some utf8_push_call" using utf8_volume_handles[OF assms(1,3)] by blast
  have ok: "conv_ok st" "initialized st" using assms(1) by (simp_all only: utf8_volume_def)
  have fl: "\<not> has fl CONV_ESCAPEDOTS" "\<not> has fl CONV_UNESCAPEHEX" "\<not> has fl CONV_TOUPPER" "\<not> has fl CONV_TOLOWER" using assms(4) by (auto simp: conv_flag_defs)
  have N: "2 * length us \<le> ?N" "?N - (?N - 2 * length us) = 2 * length us" using assms(9) by simp_all
  have emit: "emit_loop from_set to_set (conv_handles st CH_MAC CH_UCS2) fl ?N 0 True us [] 0 ?N fl = Some (Inr (2 * length (map g us), unit_bytes (map g us)), fl)"
    using emit_maps[OF fl(1,2) assms(5) N(1), of "conv_handles st CH_MAC CH_UCS2" ?N 0 True "[]" fl] N(2) by simp
  have "from_set \<noteq> CH_UCS2" using assms(2) by auto
  moreover have "length us \<le> MAXPATHLEN" "take (length us) (map ucast us) = (map ucast us :: bytes)" "length us \<le> length (map ucast us :: bytes)" "map g us \<noteq> []"
    "length (map g us) < MAXPATHLEN" "length (map g us) + 2 \<le> length dest" using assms(8-10) by simp_all
  ultimately show ?thesis
    using convert_ascii[OF ok d(1,2) _ d(3) e assms(6) _ _ _ assms(7) _ _ _ fl(3,4) emit, of "map ucast us" dest env] that unfolding length_map by blast
qed



subsection \<open>Escapes in the check of mangled names\<close>

text \<open>
  \<open>demangle_checks\<close> converts with the charset number 0 for the bytes of escapes, which is UCS2: the byte of an
  escaped leading dot is copied as it is, and the units behind it are no longer aligned.
\<close>

lemma demangle_unaligned:
  assumes "conv_handles st CH_UCS2 CH_UCS2 = Some d" "direct d = Some iconv_copy" "\<forall>c \<in> set us. c \<noteq> 0x3A \<and> c \<noteq> 0x2F" "1 + 2 * length us \<le> N"
  shows "emit_filename_chars st f t CH_UCS2 ([0x3A, 0x32, 0x65] @ us) il N (CONV_IGNORE OR CONV_UNESCAPEHEX) =
    Some (Inr (1 + 2 * length us, 0x2E # unit_bytes us), CONV_IGNORE OR CONV_UNESCAPEHEX)"
proof -
  let ?fl = "CONV_IGNORE OR CONV_UNESCAPEHEX"
  have fl: "\<not> has ?fl CONV_ESCAPEDOTS" "has ?fl CONV_UNESCAPEHEX" "\<not> has ?fl CONV_ESCAPEHEX" by (simp_all add: conv_flag_defs)
  have rest: "emit_loop f t (Some d) ?fl N il False us out (length out) left ?fl = Some (Inr (N - (left - 2 * length us), out @ unit_bytes us), ?fl)"
    if "2 * length us \<le> left" "\<forall>c \<in> set us. c \<noteq> 0x3A \<and> c \<noteq> 0x2F" for us out left
    using that
  proof (induction us arbitrary: out left)
    case (Cons c us)
    have "emit_units f t ?fl c = [c]" using Cons.prems(2) by (simp add: emit_units_def)
    then have "emit_loop f t (Some d) ?fl N il False (c # us) out (length out) left ?fl =
        emit_loop f t (Some d) ?fl N il False us (out @ unit_bytes [c]) (length out + 2) (left - 2) ?fl"
      unfolding emit_loop.simps[of f t "Some d" ?fl N il False "c # us"] Let_def list.case store_end using Cons.prems by simp
    then show ?case using Cons.IH[of "left - 2" "out @ unit_bytes [c]"] Cons.prems by (simp add: length_units SSVAL_def)
  qed (simp add: emit_loop.simps)
  have "hex_run us [0x2E] = Some ([0x2E], us)" using assms(3) by (cases "(us, [0x2E :: byte])" rule: hex_run.cases) auto
  then have run: "hex_run (0x3A # 0x32 # 0x65 # us) [] = Some ([0x2E], us)" by (simp add: hex_values MAXPATHLEN_def)
  have call: "atalk_iconv d [0x2E] N = Some \<lparr>err = None, input = [], wrote = [0x2E], room = N - 1, moved = 1\<rparr>"
    using assms(2,4) by (simp add: atalk_iconv_def iconv_copy_def call_of_def Let_def)
  have "emit_loop f t (Some d) ?fl N il True (0x3A # 0x32 # 0x65 # us) [] 0 N ?fl = emit_loop f t (Some d) ?fl N il False us [0x2E] 1 (N - 1) ?fl"
    unfolding emit_loop.simps[of f t "Some d" ?fl N il True "0x3A # 0x32 # 0x65 # us"] Let_def list.case run
    using fl call by (simp add: store_def)
  then show ?thesis using rest[of us "N - 1" "[0x2E]"] assms by (simp add: emit_filename_chars_def)
qed

end
