(* ===== verification/Spec2Isabelle.thy ===== *)
theory Spec2Isabelle
  imports Queue Hash Dircache_Claims Utf8_Claims Precompose_Claims Unistr_Claims Ad_Lock_Claims
    Ad_Header_Claims Ad_Sidecar_Claims Dsi_Claims Charcnv_Claims Mangle_Claims
begin

text \<open>
  A verification development for Netatalk, an AFP file server.

  \<^bold>\<open>The program.\<close> The daemon \<open>afpd\<close> (\<open>etc/afpd\<close>) serves Mac clients over DSI or AppleTalk. It resolves
  names and directory IDs through a directory cache (\<open>dircache.c\<close>), which is two hash tables
  (\<open>hash.c\<close>) over the entries and queues (\<open>libatalk/util/queue.c\<close>) that decide what to evict. Names are
  converted between charsets, composed, decomposed and compared by \<open>libatalk/unicode\<close>. Metadata and
  resource forks live in AppleDouble structures (\<open>libatalk/adouble\<close>): in an extended attribute, in a
  version 2 file or in a \<open>._\<close> sidecar file; locks of several open forks on one descriptor are kept
  apart by \<open>ad_lock.c\<close>, as the kernel knows only processes.

  \<^bold>\<open>Theories and sources.\<close>
  \<^item> \<open>Netatalk_Prelude\<close>: allocation, shared list and word lemmas. \<open>Byte_Arith\<close> and \<open>Byte_Order\<close>: words read
    as numbers and as bytes in memory. \<open>Transitions\<close>: reachable states of a step relation, with the
    locale \<open>kept_invariant\<close>.
  \<^item> \<open>Queue\<close> models \<open>libatalk/util/queue.c\<close> on a heap of nodes with \<open>prev\<close> and \<open>next\<close>; its operations
    refine those of lists.
  \<^item> \<open>Hash\<close> models \<open>etc/afpd/hash.c\<close>: insertion, deletion, growth and shrinking refine a finite map, for
    every pattern of failed allocations; scans and freeing end.
  \<^item> \<open>Dir_Entry\<close> and \<open>Dircache\<close> model \<open>struct dir\<close> and \<open>etc/afpd/dircache.c\<close>; \<open>Arc_Spec\<close> is the abstract
    ARC algorithm on four lists. \<open>Dircache_Queues\<close>, \<open>Dircache_Tables\<close> (with the locale \<open>dir_index\<close>,
    interpreted for both indexes) and \<open>Dircache_Refine\<close> state the invariant and the representation;
    \<open>Dircache_Ops\<close>, \<open>Dircache_Purge\<close>, \<open>Dircache_Init\<close> and \<open>Dircache_Props\<close> prove that each operation keeps
    them, and \<open>Dircache_Claims\<close> holds the properties.
  \<^item> \<open>Utf8\<close>, \<open>Utf8_Claims\<close>: \<open>libatalk/unicode/utf8.c\<close>, both directions with every error.
  \<^item> \<open>Surrogates\<close>, \<open>Precompose_Tables\<close>, \<open>Precompose\<close>, \<open>Precompose_Lookup\<close>, \<open>Precompose_Claims\<close>: the tables of
    \<open>precompose.h\<close> and \<open>precompose_w\<close>, \<open>decompose_w\<close> with their binary searches.
  \<^item> \<open>Case_Tables\<close>, \<open>Utf16_Case\<close>: \<open>utf16_casetable.h\<close> and \<open>utf16_case.c\<close>. \<open>Unistr\<close>, \<open>Unistr_Claims\<close>: the
    string functions of \<open>util_unistr.c\<close>.
  \<^item> \<open>Mac_Charsets\<close> holds the tables of six Mac charsets (\<open>libatalk/unicode/charsets\<close>), \<open>Mac_Charsets_Trip\<close>
    the locale \<open>single_byte\<close> of a charset whose decoding its encoding inverts, interpreted for five of
    them. \<open>Iconv\<close> models the conversion functions, the registered charsets and the descriptors of
    \<open>iconv.c\<close>, and \<open>Charcnv\<close> the tables, the string conversions and the file name conversion of
    \<open>charcnv.c\<close>. \<open>Charcnv_Safe\<close> states what a conversion function promises (the locales \<open>converter\<close>, \<open>mover\<close>
    and \<open>decoder\<close>) and interprets it for every built-in one; \<open>Charcnv_Bounds\<close> carries the promise through
    the loops of \<open>charcnv.c\<close>, \<open>Charcnv_Names\<close> and \<open>Charcnv_Open\<close> follow an ASCII name through its escapes and
    through the descriptors that are opened at start, \<open>Charcnv_Tables\<close> states the invariant of the tables,
    and \<open>Charcnv_Claims\<close> holds the properties.
  \<^item> \<open>Mangle\<close> models \<open>etc/afpd/mangle.c\<close> and the path functions of \<open>etc/afpd/desktop.c\<close> on top of it: the names
    that are shortened and tagged with an identifier, and the search for the object that such a name
    stands for. \<open>Mangle_Claims\<close> shows that they fit, that they resolve, and that other names survive.
  \<^item> \<open>Ad_Lock\<close> models \<open>libatalk/adouble/ad_lock.c\<close> with the kernel's locks as a map from bytes.
    \<open>Ad_Lock_Table\<close> (the sorted array and its window search), \<open>Ad_Lock_Gaps\<close> (the walk over the bytes that
    no lock covers), \<open>Ad_Lock_Fd\<close> (one descriptor) and \<open>Ad_Lock_File\<close> (the step relation of an open file,
    the interpretation \<open>file_locks\<close> of \<open>kept_invariant\<close>) lead to \<open>Ad_Lock_Claims\<close>.
  \<^item> \<open>Ad_Header\<close> models the metadata in memory, from \<open>ad_open.c\<close>, \<open>ad_flush.c\<close>, \<open>ad_attr.c\<close>, \<open>ad_date.c\<close>:
    layouts, the check of every entry (\<open>ad_entry\<close>), reading, rebuilding and copying headers, dates,
    attributes, identity and name. \<open>Ad_Header_Safe\<close> shows that every operation stays in the buffer,
    \<open>Ad_Header_Trip\<close> that a written table of entries reads back, \<open>Ad_Header_Claims\<close> the properties.
  \<^item> \<open>Ad_Sidecar\<close> models \<open>ad_header_read_osx\<close> and \<open>ad_convert_osx\<close> of \<open>ad_open.c\<close> on the bytes of the sidecar
    file, \<open>Ad_Sidecar_Claims\<close> their properties.
  \<^item> \<open>Dsi\<close> models the sessions of \<open>libatalk/dsi\<close> (\<open>dsi_stream.c\<close>, \<open>dsi_write.c\<close>, \<open>dsi_read.c\<close>, \<open>dsi_cmdreply.c\<close>,
    \<open>dsi_tickle.c\<close>, \<open>dsi_attn.c\<close>, \<open>dsi_close.c\<close>, \<open>dsi_opensess.c\<close>, and of \<open>dsi_tcp.c\<close> the buffers and the
    quantum) over a socket whose every call the environment answers. \<open>Dsi_Stream\<close> shows what holds for
    every such environment: each operation takes a prefix of the pending input and appends to the
    output. \<open>Dsi_Progress\<close> shows that the operations return when the calls keep making progress, and
    \<open>Dsi_Claims\<close> holds the properties of requests, write data, replies and the quantum.

  \<^bold>\<open>How the code is read.\<close> A heap object is a record at an address, a byte string a list of bytes, and
  a buffer has an explicit end. A machine integer is a word of its width where the code depends on
  wrap-around, masks or byte order, and an integer where it is an \<open>off_t\<close> that the code keeps in
  range. An operation that may hit an assertion, an invalid pointer or a byte outside its buffer
  returns an option whose \<open>None\<close> is that event, so that a theorem with a result of the form \<open>Some\<close>
  includes its absence. What the environment decides (an allocation, an answer of the kernel, how
  much a system call moves) is an argument, and the theorems hold for every such argument or name
  what they need of it.

  \<^bold>\<open>Loops and bounds.\<close> Recursion is structural or has a measure. The loops that retry system calls
  (\<open>pread_full\<close>, \<open>pwrite_full\<close>, \<open>ad_convert_move_rfork\<close>) may run forever when every call is interrupted
  and are partial functions into the option type; \<open>Ad_Sidecar_Claims\<close> proves that they end when calls
  make progress. The loops of \<open>Dsi\<close> on the socket are such partial functions too, and \<open>Dsi_Progress\<close>
  proves that they end. The loops of \<open>Iconv\<close> and \<open>Charcnv\<close> that call a conversion function until its
  input is used up (\<open>iconv_chunks\<close>, \<open>convert_grow\<close>, \<open>decode_loop\<close>, \<open>push_loop\<close>) are partial functions as
  well; for those of \<open>Charcnv\<close> it is proved that they return on tables of functions that keep their
  promise. Paths have 4096 bytes (\<open>MAXPATHLEN\<close>). The binary searches, the scans of the hash table and the purge of a volume that
  deletes from the table it walks are total. The composition and case tables are the source's,
  entry by entry.

  \<^bold>\<open>Findings.\<close> Nine divergences are proved: the ghost lists of the cache can exceed their documented
  bound, the UTF-8 decoder accepts sequences beyond Unicode, one vowel too many is composed to a
  Hangul syllable, two table entries decompose to units that are not UTF-16, \<open>testlock\<close> compares
  only the first byte of its range with the own locks, escapes into a single-byte Mac charset overwrite
  the start of the name, three control bytes of Mac Hebrew decode to Hebrew sequences, the escapes of
  dots and colons are not those that \<open>unicode.h\<close> describes, and the check of a mangled name reads
  escapes as halves of UCS2 units.

  \<^bold>\<open>Not modelled.\<close> Of the directory cache, the searches that check an entry against the disk, the hint
  pipe and the statistics. Of the conversion of sidecars, the metadata attribute made for a data
  file, which opens a second AppleDouble. Of \<open>ad_open.c\<close> and \<open>ad_flush.c\<close>, opening, closing and
  flushing, which are sequences of system calls. The AFP commands, the configuration, the CNID
  databases, authentication, Spotlight and the AppleTalk daemons work on external libraries,
  databases or the network. Of \<open>libatalk/dsi\<close>, the replies by \<open>sendfile\<close> and the writes by \<open>splice\<close>,
  listening, accepting and forking, and the clock behind a time-out, which is an answer of \<open>poll\<close>. Of the
  charsets, those that need an \<open>iconv\<close> of the C library, the Japanese, Chinese and Korean ones included.
\<close>

end
